(* ===== verification/Kernel_Prelude.thy ===== *)
theory Kernel_Prelude
  imports Main "HOL-Library.Word"
begin

unbundle bit_operations_syntax

text \<open>
  Shared vocabulary of the development: the C integer types, the faults that undefined
  behaviour becomes, the result type with its sequencing operator, C loops with early
  return, and little-endian loads and stores on byte buffers.

  A C buffer is the list of the bytes of it that have been written: a read past that list is
  a fault, because the code would see bytes nobody initialised (or leave the array); a write
  that does not fit is a fault too. A loop that the source does not bound gets fuel, and running
  out of it is the fault \<open>OutOfFuel\<close>, so that \<open>f \<dots> = Inr r\<close> always says that the code
  returns \<open>r\<close> with no undefined behaviour on the way.
\<close>

type_synonym u8 = "8 word"
type_synonym u16 = "16 word"
type_synonym u32 = "32 word"
type_synonym u64 = "64 word"

named_theorems res_simps "rewriting of sequenced results"
named_theorems buf_simps "loads and stores on buffers"

subsection \<open>Faults and results\<close>

datatype fault = BadRead | BadWrite | DivByZero | BadShift | Overflow | OutOfFuel

type_synonym 'a res = "fault + 'a"

fun rbind :: "'a res \<Rightarrow> ('a \<Rightarrow> 'b res) \<Rightarrow> 'b res" where
  "rbind (Inl e) f = Inl e"
| "rbind (Inr x) f = f x"

lemma rbind_cong [fundef_cong]:
  "m = m' \<Longrightarrow> (\<And>x. m' = Inr x \<Longrightarrow> f x = f' x) \<Longrightarrow> rbind m f = rbind m' f'"
  by (cases m') auto

lemma rbind_eq_Inr [res_simps]:
  "rbind m f = Inr y \<longleftrightarrow> (\<exists>x. m = Inr x \<and> f x = Inr y)"
  by (cases m) auto

lemma rbind_eq_Inl:
  "rbind m f = Inl e \<longleftrightarrow> m = Inl e \<or> (\<exists>x. m = Inr x \<and> f x = Inl e)"
  by (cases m) auto

lemma rbind_assoc [res_simps]: "rbind (rbind m f) g = rbind m (\<lambda>x. rbind (f x) g)"
  by (cases m) auto

subsection \<open>Loops with early return\<close>

text \<open>One iteration of a loop body either goes on with the next state or returns from the
  enclosing function.\<close>

datatype ('s, 'r) flow = Next 's | Return 'r

fun for_loop :: "('i \<Rightarrow> 's \<Rightarrow> ('s, 'r) flow res) \<Rightarrow> 'i list \<Rightarrow> 's \<Rightarrow> ('s, 'r) flow res" where
  "for_loop body [] s = Inr (Next s)"
| "for_loop body (i # is) s =
     rbind (body i s) (\<lambda>fl. case fl of Next s' \<Rightarrow> for_loop body is s' | Return r \<Rightarrow> Inr (Return r))"

fun while_loop ::
  "nat \<Rightarrow> ('s \<Rightarrow> bool) \<Rightarrow> ('s \<Rightarrow> ('s, 'r) flow res) \<Rightarrow> 's \<Rightarrow> ('s, 'r) flow res" where
  "while_loop 0 guard body s = Inl OutOfFuel"
| "while_loop (Suc fuel) guard body s =
     (if guard s
      then rbind (body s) (\<lambda>fl. case fl of Next s' \<Rightarrow> while_loop fuel guard body s'
                                            | Return r \<Rightarrow> Inr (Return r))
      else Inr (Next s))"

lemma for_loop_append:
  "for_loop body (is @ js) s =
     rbind (for_loop body is s)
       (\<lambda>fl. case fl of Next s' \<Rightarrow> for_loop body js s' | Return r \<Rightarrow> Inr (Return r))"
proof (induction "is" arbitrary: s)
  case Nil
  then show ?case by simp
next
  case (Cons i "is")
  then show ?case
    by (cases "body i s") (auto split: flow.split)
qed

lemma for_loop_Cons_Next [res_simps]:
  "for_loop body (i # is) s = Inr (Next t) \<longleftrightarrow>
     (\<exists>s'. body i s = Inr (Next s') \<and> for_loop body is s' = Inr (Next t))"
proof (cases "body i s")
  case (Inr fl)
  then show ?thesis by (cases fl) simp_all
qed simp

lemma for_loop_Cons_Return [res_simps]:
  "for_loop body (i # is) s = Inr (Return r) \<longleftrightarrow>
     body i s = Inr (Return r) \<or>
     (\<exists>s'. body i s = Inr (Next s') \<and> for_loop body is s' = Inr (Return r))"
proof (cases "body i s")
  case (Inr fl)
  then show ?thesis by (cases fl) simp_all
qed simp

text \<open>Nested loops run over the concatenation of the inner ranges.\<close>

lemma for_loop_concat:
  "for_loop (\<lambda>c. for_loop body (f c)) cs s = for_loop body (concat (map f cs)) s"
proof (induction cs arbitrary: s)
  case Nil
  then show ?case by simp
next
  case (Cons c cs)
  then have "for_loop (\<lambda>c. for_loop body (f c)) cs = for_loop body (concat (map f cs))"
    by (simp add: fun_eq_iff)
  then show ?case by (simp add: for_loop_append)
qed

text \<open>A loop whose body never returns early and never faults is a fold of its effect.\<close>

lemma for_loop_fold:
  assumes "\<And>i s. i \<in> set is \<Longrightarrow> P s \<Longrightarrow> body i s = Inr (Next (g i s)) \<and> P (g i s)"
    and "P s"
  shows "for_loop body is s = Inr (Next (fold g is s)) \<and> P (fold g is s)"
  using assms
proof (induction "is" arbitrary: s)
  case Nil
  then show ?case by simp
next
  case (Cons i "is")
  from Cons.prems have "body i s = Inr (Next (g i s))" and "P (g i s)" by simp_all
  with Cons.IH [of "g i s"] Cons.prems(1) show ?case by simp
qed

text \<open>An invariant of the body is an invariant of the loop.\<close>

lemma for_loop_invariant:
  assumes step: "\<And>i s s'. i \<in> set is \<Longrightarrow> I s \<Longrightarrow> body i s = Inr (Next s') \<Longrightarrow> I s'"
    and ret: "\<And>i s r. i \<in> set is \<Longrightarrow> I s \<Longrightarrow> body i s = Inr (Return r) \<Longrightarrow> Q r"
    and init: "I s"
    and run: "for_loop body is s = Inr fl"
  shows "case fl of Next s' \<Rightarrow> I s' | Return r \<Rightarrow> Q r"
  using assms
proof (induction "is" arbitrary: s)
  case Nil
  then show ?case by auto
next
  case (Cons i "is")
  from Cons.prems(4) obtain f0 where b: "body i s = Inr f0"
    and rest: "(case f0 of Next s' \<Rightarrow> for_loop body is s' | Return r \<Rightarrow> Inr (Return r)) = Inr fl"
    by (auto simp: res_simps)
  show ?case
  proof (cases f0)
    case (Next s')
    with b Cons.prems have "I s'" by auto
    moreover from Next rest have "for_loop body is s' = Inr fl" by simp
    ultimately show ?thesis
      by (intro Cons.IH) (auto intro: Cons.prems(1,2))
  next
    case (Return r)
    with b Cons.prems(2,3) have "Q r" by auto
    with Return rest show ?thesis by auto
  qed
qed

lemma for_loop_cong:
  "(\<And>i s. i \<in> set is \<Longrightarrow> f i s = g i s) \<Longrightarrow> for_loop f is s = for_loop g is s"
proof (induction "is" arbitrary: s)
  case Nil
  then show ?case by simp
next
  case (Cons i "is")
  then have "for_loop f is = for_loop g is" by (intro ext) simp
  with Cons.prems show ?case by simp
qed

lemma for_loop_map: "for_loop f (map h is) s = for_loop (\<lambda>i. f (h i)) is s"
  by (induction "is" arbitrary: s) (auto intro!: rbind_cong split: flow.split)

text \<open>A search whose body is pure ends at the first slot at which it returns.\<close>

lemma for_loop_find:
  assumes "\<And>i. i \<in> set is \<Longrightarrow> f i () = Inr (g i)"
  shows "for_loop f is () = Inr (case find (\<lambda>i. g i \<noteq> Next ()) is of None \<Rightarrow> Next () | Some i \<Rightarrow> g i)"
  using assms
proof (induction "is")
  case Nil
  then show ?case by simp
next
  case (Cons i "is")
  then have "f i () = Inr (g i)" by simp
  with Cons show ?case by (cases "g i") auto
qed

lemma find_SomeD: "find P xs = Some x \<Longrightarrow> P x \<and> x \<in> set xs"
  by (auto simp: find_Some_iff)

lemma find_first_split:
  assumes "find P xs = Some x"
  obtains ys zs where "xs = ys @ x # zs" "\<forall>y\<in>set ys. \<not> P y" "P x"
proof -
  from assms obtain i where i: "i < length xs" "P (xs ! i)" "x = xs ! i" "\<forall>j<i. \<not> P (xs ! j)"
    by (auto simp: find_Some_iff)
  have "xs = take i xs @ x # drop (Suc i) xs" using i by (simp add: id_take_nth_drop)
  moreover have "\<forall>y\<in>set (take i xs). \<not> P y" using i by (auto simp: in_set_conv_nth)
  ultimately show ?thesis using i that by blast
qed

lemma while_loop_invariant:
  assumes step: "\<And>s s'. I s \<Longrightarrow> guard s \<Longrightarrow> body s = Inr (Next s') \<Longrightarrow> I s'"
    and ret: "\<And>s r. I s \<Longrightarrow> guard s \<Longrightarrow> body s = Inr (Return r) \<Longrightarrow> Q r"
    and init: "I s"
    and run: "while_loop fuel guard body s = Inr fl"
  shows "case fl of Next s' \<Rightarrow> I s' \<and> \<not> guard s' | Return r \<Rightarrow> Q r"
  using init run
proof (induction fuel arbitrary: s)
  case 0
  then show ?case by simp
next
  case (Suc fuel)
  show ?case
  proof (cases "guard s")
    case False
    with Suc.prems show ?thesis by auto
  next
    case True
    with Suc.prems(2) obtain f0 where b: "body s = Inr f0"
      and rest: "(case f0 of Next s' \<Rightarrow> while_loop fuel guard body s'
                  | Return r \<Rightarrow> Inr (Return r)) = Inr fl"
      by (auto simp: res_simps)
    show ?thesis
    proof (cases f0)
      case (Next s')
      with b True Suc.prems(1) step have "I s'" by blast
      with Next rest Suc.IH [of s'] show ?thesis by simp
    next
      case (Return r)
      with b rest True Suc.prems(1) ret show ?thesis by auto
    qed
  qed
qed

text \<open>More fuel never changes a result.\<close>

lemma while_loop_mono:
  "while_loop fuel guard body s = Inr fl \<Longrightarrow> while_loop (fuel + k) guard body s = Inr fl"
proof (induction fuel arbitrary: s)
  case 0
  then show ?case by simp
next
  case (Suc fuel)
  then show ?case by (auto simp: res_simps split: if_splits flow.splits)
qed

text \<open>A loop that runs to its end over a range.\<close>

fun rfold :: "('i \<Rightarrow> 's \<Rightarrow> 's res) \<Rightarrow> 'i list \<Rightarrow> 's \<Rightarrow> 's res" where
  "rfold f [] s = Inr s"
| "rfold f (i # is) s = rbind (f i s) (rfold f is)"

lemma rfold_append: "rfold f (is @ js) s = rbind (rfold f is s) (rfold f js)"
  by (induction "is" arbitrary: s) (auto simp: res_simps intro!: rbind_cong)

lemma rfold_map: "rfold f (map h is) s = rfold (\<lambda>i. f (h i)) is s"
  by (induction "is" arbitrary: s) (auto intro!: rbind_cong)

lemma rfold_concat: "rfold (\<lambda>c. rfold f (g c)) cs s = rfold f (concat (map g cs)) s"
  by (induction cs arbitrary: s) (auto simp: rfold_append intro!: rbind_cong)

lemma rfold_cong: "(\<And>i s. i \<in> set is \<Longrightarrow> f i s = g i s) \<Longrightarrow> rfold f is s = rfold g is s"
  by (induction "is" arbitrary: s) (auto intro!: rbind_cong)

text \<open>A loop whose body keeps an invariant and never faults ends with it.\<close>

lemma rfold_invariant:
  assumes "\<And>i s. i \<in> set is \<Longrightarrow> P s \<Longrightarrow> \<exists>s'. f i s = Inr s' \<and> P s'" and "P s"
  shows "\<exists>s'. rfold f is s = Inr s' \<and> P s'"
  using assms
proof (induction "is" arbitrary: s)
  case (Cons i "is")
  then obtain s' where "f i s = Inr s'" "P s'" by force
  with Cons show ?case by force
qed simp

subsection \<open>The C type \<open>int\<close>\<close>

text \<open>The result of an addition or multiplication; signed overflow is undefined.\<close>

definition i32 :: "int \<Rightarrow> int res" where
  "i32 v = (if - (2 ^ 31) \<le> v \<and> v < 2 ^ 31 then Inr v else Inl Overflow)"

lemma i32_ok [simp]: "- (2 ^ 31) \<le> v \<Longrightarrow> v < 2 ^ 31 \<Longrightarrow> i32 v = Inr v"
  by (simp add: i32_def)

subsection \<open>Words as numbers\<close>

lemma unat_bound: "unat (w :: 'a::len word) < 2 ^ LENGTH('a)"
  by (rule unsigned_less)

lemma unat_add_u32: "unat a + unat b < 2 ^ 32 \<Longrightarrow> unat (a + b :: u32) = unat a + unat b"
  by (simp add: unat_word_ariths)

lemma unat_ucast_up:
  "LENGTH('a) \<le> LENGTH('b) \<Longrightarrow> unat (ucast (w :: 'a::len word) :: 'b::len word) = unat w"
proof -
  assume "LENGTH('a) \<le> LENGTH('b)"
  then have "unat w < 2 ^ LENGTH('b)"
    by (intro order_less_le_trans [OF unat_bound] power_increasing) simp_all
  then show ?thesis by (simp add: unsigned_ucast_eq take_bit_nat_eq_self)
qed

lemma unat_ucast_u8_u32 [simp]: "unat (ucast (w :: u8) :: u32) = unat w"
  by (simp add: unat_ucast_up)

lemma unat_ucast_u16_u32 [simp]: "unat (ucast (w :: u16) :: u32) = unat w"
  by (simp add: unat_ucast_up)

lemma unat_word_of_nat_u32: "n < 2 ^ 32 \<Longrightarrow> unat (word_of_nat n :: u32) = n"
  by (simp add: unat_of_nat)

lemma sint_small: "unat (w :: u32) < 2 ^ 31 \<Longrightarrow> sint w = uint w"
proof -
  assume "unat w < 2 ^ 31"
  moreover have "uint w = int (unat w)" by simp
  ultimately have "uint w < 2 ^ 31" by (simp only: of_nat_less_numeral_power_cancel_iff)
  moreover have "- (2 ^ 31) \<le> uint w" using order_trans [of "- (2 ^ 31)" 0 "uint w"] by simp
  ultimately show ?thesis using signed_take_bit_int_eq_self [of 31 "uint w"] by (simp only: sint_uint) simp
qed

text \<open>An address is the start of its page plus the offset in it.\<close>

lemma split_page_word: "unat (p :: u32) = unat (p AND NOT 0xFFF) + unat (p AND 0xFFF)" "unat (p AND 0xFFF) < 4096"
proof -
  have m: "(0xFFF :: u32) = mask 12" by (simp add: mask_eq_exp_minus_1)
  have d: "(p AND NOT (mask 12)) AND (p AND mask 12) = 0" by (rule bit_word_eqI) (simp add: bit_simps)
  have "p = (p AND NOT (mask 12)) OR (p AND mask 12)" by (simp flip: bit.conj_disj_distrib)
  also have "\<dots> = (p AND NOT (mask 12)) + (p AND mask 12)" using disjunctive_add_eq_or [OF d] by simp
  finally have s: "p = (p AND NOT (mask 12)) + (p AND mask 12)" .
  have um: "unat (p AND mask 12) = unat p mod 2 ^ 12"
    by (simp only: take_bit_eq_mask [symmetric] unsigned_take_bit_eq take_bit_nat_def)
  then have le: "unat (p AND mask 12) \<le> unat p" by simp
  have "p AND NOT (mask 12) = p - (p AND mask 12)" using s by (simp add: eq_diff_eq)
  then have "unat (p AND NOT (mask 12)) = unat p - unat (p AND mask 12)" using le by (simp add: unat_sub word_le_nat_alt)
  then show "unat p = unat (p AND NOT 0xFFF) + unat (p AND 0xFFF)" unfolding m using le by simp
  show "unat (p AND 0xFFF) < 4096" unfolding m um by simp
qed

subsection \<open>Little-endian words\<close>

fun le_word :: "u8 list \<Rightarrow> 'a::len word" where
  "le_word [] = 0"
| "le_word (b # bs) = ucast b OR push_bit 8 (le_word bs)"

fun le_bytes :: "nat \<Rightarrow> 'a::len word \<Rightarrow> u8 list" where
  "le_bytes 0 w = []"
| "le_bytes (Suc n) w = ucast w # le_bytes n (drop_bit 8 w)"

lemma length_le_bytes [simp]: "length (le_bytes n w) = n"
  by (induction n arbitrary: w) auto

lemma le_word_zeros [simp]: "le_word (replicate n 0) = 0"
  by (induction n) simp_all

lemma le_word_le_bytes: "le_word (le_bytes n w) = take_bit (8 * n) w"
proof (induction n arbitrary: w)
  case 0
  then show ?case by simp
next
  case (Suc n)
  have "ucast (ucast w :: u8) OR push_bit 8 (take_bit (8 * n) (drop_bit 8 w))
      = take_bit (8 * Suc n) w"
    by (rule bit_word_eqI)
      (auto simp: bit_simps not_le)
  with Suc show ?case by simp
qed

lemma le_word_le_bytes_full:
  "8 * n = LENGTH('a) \<Longrightarrow> le_word (le_bytes n w) = (w :: 'a::len word)"
  by (simp add: le_word_le_bytes take_bit_length_eq)

lemma le_bytes_le_word:
  "8 * length bs \<le> LENGTH('a) \<Longrightarrow> le_bytes (length bs) (le_word bs :: 'a::len word) = bs"
proof (induction bs)
  case Nil
  then show ?case by simp
next
  case (Cons b bs)
  have "ucast (ucast b OR push_bit 8 (le_word bs :: 'a word)) = b"
    by (rule bit_word_eqI) (use Cons.prems in \<open>auto simp: bit_simps\<close>)
  moreover have "drop_bit 8 (ucast b OR push_bit 8 (le_word bs :: 'a word))
      = take_bit (LENGTH('a) - 8) (le_word bs)"
    by (rule bit_word_eqI) (auto simp: bit_simps dest: bit_imp_le_length)
  moreover have "take_bit (LENGTH('a) - 8) (le_word bs :: 'a word) = le_word bs"
  proof -
    have "take_bit n (le_word bs :: 'a word) = le_word bs" if "8 * length bs \<le> n" for n
      using that
    proof (induction bs arbitrary: n)
      case (Cons c cs)
      have "take_bit n (push_bit 8 (le_word cs :: 'a word)) = push_bit 8 (take_bit (n - 8) (le_word cs))"
        by (rule bit_word_eqI) (auto simp: bit_simps)
      moreover have "take_bit n (ucast c :: 'a word) = ucast c"
        by (rule bit_word_eqI) (use Cons.prems in \<open>auto simp: bit_simps dest: bit_imp_le_length\<close>)
      ultimately show ?case
        using Cons by (simp add: take_bit_or)
    qed simp
    with Cons.prems show ?thesis by simp
  qed
  ultimately show ?case using Cons by simp
qed

subsection \<open>Buffers\<close>

definition ld8 :: "u8 list \<Rightarrow> nat \<Rightarrow> u8 res" where
  "ld8 bs i = (if i < length bs then Inr (bs ! i) else Inl BadRead)"

definition ld_le :: "nat \<Rightarrow> u8 list \<Rightarrow> nat \<Rightarrow> 'a::len word res" where
  "ld_le n bs i = (if i + n \<le> length bs then Inr (le_word (take n (drop i bs))) else Inl BadRead)"

abbreviation ld16 :: "u8 list \<Rightarrow> nat \<Rightarrow> u16 res" where "ld16 \<equiv> ld_le 2"
abbreviation ld32 :: "u8 list \<Rightarrow> nat \<Rightarrow> u32 res" where "ld32 \<equiv> ld_le 4"
abbreviation ld64 :: "u8 list \<Rightarrow> nat \<Rightarrow> u64 res" where "ld64 \<equiv> ld_le 8"

text \<open>\<open>memcpy (dst + i) src n\<close> with \<open>n = length src\<close>, also the effect of a store.\<close>

definition patch :: "'a list \<Rightarrow> nat \<Rightarrow> 'a list \<Rightarrow> 'a list" where
  "patch bs i xs = take i bs @ xs @ drop (i + length xs) bs"

definition store :: "u8 list \<Rightarrow> nat \<Rightarrow> u8 list \<Rightarrow> u8 list res" where
  "store bs i xs = (if i + length xs \<le> length bs then Inr (patch bs i xs) else Inl BadWrite)"

text \<open>\<open>memcpy (dst, src + i, n)\<close>: the bytes it reads.\<close>

definition ld_bytes :: "u8 list \<Rightarrow> nat \<Rightarrow> nat \<Rightarrow> u8 list res" where
  "ld_bytes bs i n = (if i + n \<le> length bs then Inr (take n (drop i bs)) else Inl BadRead)"

lemma take_drop_within:
  "take n (drop a xs) = ys \<Longrightarrow> b + m \<le> n \<Longrightarrow> take m (drop (a + b) xs) = take m (drop b ys)"
  by (auto simp: drop_take min_def add.commute)

lemma length_patch [simp]: "i + length xs \<le> length bs \<Longrightarrow> length (patch bs i xs) = length bs"
  by (simp add: patch_def)

lemma nth_patch:
  assumes "i + length xs \<le> length bs" and "j < length bs"
  shows "patch bs i xs ! j = (if i \<le> j \<and> j < i + length xs then xs ! (j - i) else bs ! j)"
  using assms by (auto simp: patch_def nth_append min_def)

lemma take_drop_patch_same [buf_simps]:
  "i + length xs \<le> length bs \<Longrightarrow> n = length xs \<Longrightarrow> take n (drop i (patch bs i xs)) = xs"
  by (simp add: patch_def)

lemma take_drop_patch_before [buf_simps]:
  "i + length xs \<le> length bs \<Longrightarrow> j + n \<le> i \<Longrightarrow>
     take n (drop j (patch bs i xs)) = take n (drop j bs)"
  by (rule nth_equalityI) (auto simp: nth_patch)

lemma take_drop_patch_after [buf_simps]:
  "i + length xs \<le> length bs \<Longrightarrow> i + length xs \<le> j \<Longrightarrow>
     take n (drop j (patch bs i xs)) = take n (drop j bs)"
  by (rule nth_equalityI) (auto simp: nth_patch)

lemma ld_le_patch_same [buf_simps]:
  "i + n \<le> length bs \<Longrightarrow> 8 * n = LENGTH('a) \<Longrightarrow>
     ld_le n (patch bs i (le_bytes n w)) i = Inr (w :: 'a::len word)"
  by (simp add: ld_le_def buf_simps le_word_le_bytes_full)

lemma ld_le_patch_other [buf_simps]:
  "i + length xs \<le> length bs \<Longrightarrow> j + n \<le> i \<or> i + length xs \<le> j \<Longrightarrow>
     ld_le n (patch bs i xs) j = ld_le n bs j"
  by (auto simp: ld_le_def buf_simps)

text \<open>The multiples of 32 below \<open>n\<close>: the offsets of the entries of a directory sector.\<close>

definition offsets32 :: "nat \<Rightarrow> nat list" where
  "offsets32 n = map (\<lambda>k. 32 * k) [0..<(n + 31) div 32]"

lemma set_offsets32: "set (offsets32 n) = {i. 32 dvd i \<and> i < n}"
proof -
  have "i < n \<longleftrightarrow> i div 32 < (n + 31) div 32" if "32 dvd i" for i
    using that by (auto simp: dvd_def)
  then show ?thesis
    by (auto simp: offsets32_def image_iff dvd_def)
qed

text \<open>Bytes of an ASCII literal.\<close>

definition cstr :: "string \<Rightarrow> u8 list" where
  "cstr s = map of_char s"

lemma length_cstr [simp]: "length (cstr s) = length s"
  by (simp add: cstr_def)

end
