(* ===== verification/Block_Device.thy ===== *)
theory Block_Device
  imports Kernel_Prelude
begin

text \<open>
  The interface between the file systems and the disk drivers: the function pointer types
  \<open>disk_read_fn\<close> and \<open>disk_write_fn\<close> of \<open>fs_fat32.h\<close>, with the state of the device made
  explicit. A read yields the bytes the driver stored in the caller's buffer, or \<open>None\<close> when
  the driver returned a non-zero code. A write yields the driver's return code and the new
  device state; it faults when the driver reads past the initialised part of the buffer.

  The locale \<open>block_device\<close> is the contract the file systems rely on; the ATA driver is shown
  to provide it.
\<close>

type_synonym 'd disk_read_fn = "'d \<Rightarrow> u32 \<Rightarrow> u8 \<Rightarrow> u8 list option"
type_synonym 'd disk_write_fn = "'d \<Rightarrow> u32 \<Rightarrow> u8 \<Rightarrow> u8 list \<Rightarrow> (int \<times> 'd) res"

text \<open>\<open>if (rd(lba, 1, sec)) \<dots>\<close> on an array of \<open>cap\<close> bytes: a driver that delivers more bytes
  than the array holds overruns it.\<close>

definition read_sector :: "nat \<Rightarrow> 'd disk_read_fn \<Rightarrow> 'd \<Rightarrow> u32 \<Rightarrow> u8 list option res" where
  "read_sector cap rd d lba =
     (case rd d lba 1 of
        None \<Rightarrow> Inr None
      | Some bs \<Rightarrow> if length bs \<le> cap then Inr (Some bs) else Inl BadWrite)"

locale block_device =
  fixes rd :: "'d disk_read_fn"
    and wr :: "'d disk_write_fn"
    and ok :: "'d \<Rightarrow> bool"
    and secsz :: nat
    and cap :: nat
  assumes rd_length: "ok d \<Longrightarrow> rd d lba 1 = Some bs \<Longrightarrow> length bs = secsz"
    and wr_ok: "ok d \<Longrightarrow> wr d lba 1 bs = Inr (r, d') \<Longrightarrow> ok d'"
    and wr_read: "ok d \<Longrightarrow> unat lba < cap \<Longrightarrow> wr d lba 1 bs = Inr (0, d') \<Longrightarrow>
      rd d' lba 1 = Some (take secsz bs)"
    and wr_frame: "ok d \<Longrightarrow> unat lba < cap \<Longrightarrow> unat lba' < cap \<Longrightarrow> lba' \<noteq> lba \<Longrightarrow>
      wr d lba 1 bs = Inr (r, d') \<Longrightarrow> rd d' lba' 1 = rd d lba' 1"
begin

lemma read_sector_length:
  "ok d \<Longrightarrow> read_sector n rd d lba = Inr (Some bs) \<Longrightarrow> length bs = secsz \<and> length bs \<le> n"
  using rd_length by (auto simp: read_sector_def split: option.splits if_splits)

lemma read_sector_total: "ok d \<Longrightarrow> secsz \<le> n \<Longrightarrow> read_sector n rd d lba = Inr (rd d lba 1)"
  using rd_length by (auto simp: read_sector_def split: option.splits)

lemma read_sector_after_write:
  "ok d \<Longrightarrow> unat lba < cap \<Longrightarrow> wr d lba 1 bs = Inr (0, d') \<Longrightarrow> secsz \<le> n \<Longrightarrow>
     read_sector n rd d' lba = Inr (Some (take secsz bs))"
  by (simp add: read_sector_def wr_read)

lemma read_sector_frame:
  "ok d \<Longrightarrow> unat lba < cap \<Longrightarrow> unat lba' < cap \<Longrightarrow> lba' \<noteq> lba \<Longrightarrow>
     wr d lba 1 bs = Inr (r, d') \<Longrightarrow> read_sector n rd d' lba' = read_sector n rd d lba'"
  by (simp add: read_sector_def wr_frame)

end

text \<open>A device on which every transfer inside its capacity succeeds.\<close>

locale reliable_device = block_device +
  assumes rd_succeeds: "ok d \<Longrightarrow> unat lba < cap \<Longrightarrow> \<exists>bs. rd d lba 1 = Some bs"
    and wr_succeeds: "ok d \<Longrightarrow> unat lba < cap \<Longrightarrow> secsz \<le> length bs \<Longrightarrow>
      \<exists>d'. wr d lba 1 bs = Inr (0, d')"
begin

lemma read_sector_succeeds:
  "ok d \<Longrightarrow> unat lba < cap \<Longrightarrow> secsz \<le> n \<Longrightarrow> \<exists>bs. read_sector n rd d lba = Inr (Some bs)"
  using rd_succeeds by (simp add: read_sector_total)

end

end
