(* ===== verification/Fat_Volume.thy ===== *)
theory Fat_Volume
  imports Block_Device
begin

text \<open>
  The volume layer of \<open>src/kernel/fs_fat32.c\<close>: the mounted volume, mounting, cluster
  addresses, the entries of the file allocation table, cluster chains and the allocation of a
  free cluster. FAT32 and exFAT share it.
\<close>

subsection \<open>Data\<close>

datatype fat_fs_type = FAT_FS_FAT32 | FAT_FS_EXFAT

record fat32_vol =
  fs_type :: fat_fs_type
  bytes_per_sec :: u16
  sec_per_clus :: u8
  rsvd_sec_cnt :: u16
  num_fats :: u8
  fat_sz32 :: u32
  root_clus :: u32
  first_data_lba :: u32
  fat_lba :: u32
  tot_sec32 :: u32
  part_lba_start :: u32
  exfat_fat_length :: u32
  exfat_heap_offset :: u32
  exfat_cluster_count :: u32
  exfat_bitmap_clus :: u32
  exfat_bitmap_size :: u64
  exfat_bps_shift :: u8
  exfat_spc_shift :: u8

abbreviation MAX_SECTOR_SIZE :: nat where "MAX_SECTOR_SIZE \<equiv> 4096"

text \<open>The fields of the two packed boot-sector structures that the code reads.\<close>

record bpb_fat32_t =
  bpb_bytes_per_sec :: u16
  bpb_sec_per_clus :: u8
  bpb_rsvd_sec_cnt :: u16
  bpb_num_fats :: u8
  bpb_tot_sec16 :: u16
  bpb_tot_sec32 :: u32
  bpb_fat_sz32 :: u32
  bpb_root_clus :: u32

definition bpb_fat32_at :: "u8 list \<Rightarrow> bpb_fat32_t res" where
  "bpb_fat32_at sec =
     rbind (ld16 sec 11) (\<lambda>bps. rbind (ld8 sec 13) (\<lambda>spc. rbind (ld16 sec 14) (\<lambda>rsvd.
     rbind (ld8 sec 16) (\<lambda>nf. rbind (ld16 sec 19) (\<lambda>t16. rbind (ld32 sec 32) (\<lambda>t32.
     rbind (ld32 sec 36) (\<lambda>fsz. rbind (ld32 sec 44) (\<lambda>rc.
       Inr \<lparr>bpb_bytes_per_sec = bps, bpb_sec_per_clus = spc, bpb_rsvd_sec_cnt = rsvd,
            bpb_num_fats = nf, bpb_tot_sec16 = t16, bpb_tot_sec32 = t32, bpb_fat_sz32 = fsz,
            bpb_root_clus = rc\<rparr>))))))))"

record bpb_exfat_t =
  ebpb_vol_length :: u64
  ebpb_fat_offset :: u32
  ebpb_fat_length :: u32
  ebpb_cluster_heap_offset :: u32
  ebpb_cluster_count :: u32
  ebpb_root_dir_clus :: u32
  ebpb_bytes_per_sec_shift :: u8
  ebpb_sec_per_clus_shift :: u8
  ebpb_num_fats :: u8

definition bpb_exfat_at :: "u8 list \<Rightarrow> bpb_exfat_t res" where
  "bpb_exfat_at sec =
     rbind (ld64 sec 72) (\<lambda>vl. rbind (ld32 sec 80) (\<lambda>fo. rbind (ld32 sec 84) (\<lambda>fl.
     rbind (ld32 sec 88) (\<lambda>ho. rbind (ld32 sec 92) (\<lambda>cc. rbind (ld32 sec 96) (\<lambda>rc.
     rbind (ld8 sec 108) (\<lambda>bs. rbind (ld8 sec 109) (\<lambda>cs. rbind (ld8 sec 110) (\<lambda>nf.
       Inr \<lparr>ebpb_vol_length = vl, ebpb_fat_offset = fo, ebpb_fat_length = fl,
            ebpb_cluster_heap_offset = ho, ebpb_cluster_count = cc, ebpb_root_dir_clus = rc,
            ebpb_bytes_per_sec_shift = bs, ebpb_sec_per_clus_shift = cs,
            ebpb_num_fats = nf\<rparr>)))))))))"

subsection \<open>Mounting\<close>

text \<open>\<open>1u << n\<close> on a 32-bit operand; the shift is undefined from 32 on.\<close>

definition shl1_32 :: "u8 \<Rightarrow> u32 res" where
  "shl1_32 n = (if unat n < 32 then Inr (push_bit (unat n) 1) else Inl BadShift)"

definition mount_exfat :: "fat32_vol \<Rightarrow> u32 \<Rightarrow> bpb_exfat_t \<Rightarrow> (int \<times> fat32_vol) res" where
  "mount_exfat v part ebpb =
     rbind (shl1_32 (ebpb_bytes_per_sec_shift ebpb)) (\<lambda>bps.
     rbind (shl1_32 (ebpb_sec_per_clus_shift ebpb)) (\<lambda>spc.
     let v' = v\<lparr>fs_type := FAT_FS_EXFAT,
                exfat_bps_shift := ebpb_bytes_per_sec_shift ebpb,
                exfat_spc_shift := ebpb_sec_per_clus_shift ebpb,
                bytes_per_sec := ucast bps,
                sec_per_clus := ucast spc,
                num_fats := ebpb_num_fats ebpb,
                fat_sz32 := ebpb_fat_length ebpb,
                exfat_fat_length := ebpb_fat_length ebpb,
                exfat_heap_offset := ebpb_cluster_heap_offset ebpb,
                exfat_cluster_count := ebpb_cluster_count ebpb,
                root_clus := ebpb_root_dir_clus ebpb,
                part_lba_start := part,
                fat_lba := part + ebpb_fat_offset ebpb,
                first_data_lba := ebpb_cluster_heap_offset ebpb,
                tot_sec32 := ucast (ebpb_vol_length ebpb AND 0xFFFFFFFF)\<rparr>
     in if bytes_per_sec v' = 0 \<or> unat (bytes_per_sec v') > MAX_SECTOR_SIZE
        then Inr (-4, v') else Inr (0, v')))"

definition mount_fat32 :: "fat32_vol \<Rightarrow> u32 \<Rightarrow> bpb_fat32_t \<Rightarrow> (int \<times> fat32_vol) res" where
  "mount_fat32 v part bpb =
     (let v' = v\<lparr>fs_type := FAT_FS_FAT32,
                 bytes_per_sec := bpb_bytes_per_sec bpb,
                 sec_per_clus := bpb_sec_per_clus bpb,
                 rsvd_sec_cnt := bpb_rsvd_sec_cnt bpb,
                 num_fats := bpb_num_fats bpb,
                 fat_sz32 := bpb_fat_sz32 bpb,
                 root_clus := bpb_root_clus bpb,
                 tot_sec32 := (if bpb_tot_sec32 bpb \<noteq> 0 then bpb_tot_sec32 bpb
                               else ucast (bpb_tot_sec16 bpb)),
                 fat_lba := part + ucast (bpb_rsvd_sec_cnt bpb),
                 first_data_lba := ucast (bpb_rsvd_sec_cnt bpb)
                                   + ucast (bpb_num_fats bpb) * bpb_fat_sz32 bpb,
                 part_lba_start := part\<rparr>
      in if sec_per_clus v' = 0 \<or> bytes_per_sec v' = 0 \<or> unat (bytes_per_sec v') > MAX_SECTOR_SIZE
         then Inr (-3, v') else Inr (0, v'))"

definition fat32_mount :: "fat32_vol \<Rightarrow> 'd disk_read_fn \<Rightarrow> 'd \<Rightarrow> u32 \<Rightarrow> (int \<times> fat32_vol) res" where
  "fat32_mount v rd d part =
     rbind (read_sector 512 rd d (part + 0)) (\<lambda>r. case r of None \<Rightarrow> Inr (-2, v) | Some sec \<Rightarrow>
     rbind (ld_bytes sec 3 8) (\<lambda>nm.
     if nm = cstr ''EXFAT   ''
     then rbind (bpb_exfat_at sec) (mount_exfat v part)
     else rbind (bpb_fat32_at sec) (mount_fat32 v part)))"

subsection \<open>Clusters and the allocation table\<close>

definition clus_to_lba :: "fat32_vol \<Rightarrow> u32 \<Rightarrow> u32" where
  "clus_to_lba v clus =
     part_lba_start v + first_data_lba v + (clus - 2) * ucast (sec_per_clus v)"

definition is_end_cluster :: "u32 \<Rightarrow> bool" where
  "is_end_cluster cl \<longleftrightarrow> cl \<ge> 0x0FFFFFF8"

definition fat_read_fat_entry :: "fat32_vol \<Rightarrow> 'd disk_read_fn \<Rightarrow> 'd \<Rightarrow> u32 \<Rightarrow> u32 res" where
  "fat_read_fat_entry v rd d clus =
     (if bytes_per_sec v = 0 then Inl DivByZero else
      let fat_offset = clus * 4;
          fat_sector = fat_lba v + fat_offset div ucast (bytes_per_sec v);
          ent_off = unat (fat_offset mod ucast (bytes_per_sec v))
      in rbind (read_sector MAX_SECTOR_SIZE rd d fat_sector) (\<lambda>r. case r of
           None \<Rightarrow> Inr 0x0FFFFFFF
         | Some sec \<Rightarrow> rbind (ld32 sec ent_off) (\<lambda>val. Inr (val AND 0x0FFFFFFF))))"

definition fat_write_fat_entry ::
  "fat32_vol \<Rightarrow> 'd disk_read_fn \<Rightarrow> 'd disk_write_fn \<Rightarrow> 'd \<Rightarrow> u32 \<Rightarrow> u32 \<Rightarrow> (int \<times> 'd) res" where
  "fat_write_fat_entry v rd wr d clus val =
     (if bytes_per_sec v = 0 then Inl DivByZero else
      let fat_offset = clus * 4;
          fat_sector = fat_lba v + fat_offset div ucast (bytes_per_sec v);
          ent_off = unat (fat_offset mod ucast (bytes_per_sec v))
      in rbind (read_sector MAX_SECTOR_SIZE rd d fat_sector) (\<lambda>r. case r of
           None \<Rightarrow> Inr (-1, d)
         | Some sec \<Rightarrow>
             rbind (ld32 sec ent_off) (\<lambda>old.
             rbind (store sec ent_off (le_bytes 4 ((val AND 0x0FFFFFFF) OR (old AND 0xF0000000)))) (\<lambda>sec'.
             rbind (wr d fat_sector 1 sec') (\<lambda>(r, d'). if r \<noteq> 0 then Inr (-2, d') else Inr (0, d'))))))"

text \<open>\<open>for (; cl < max_clusters; ++cl)\<close> of the allocator: the clusters it tries, in order.\<close>

definition cluster_candidates :: "u32 \<Rightarrow> u32 list" where
  "cluster_candidates max_clusters = map word_of_nat [2..<unat max_clusters]"

definition alloc_max_clusters :: "fat32_vol \<Rightarrow> u32" where
  "alloc_max_clusters v =
     (let mc = (tot_sec32 v - first_data_lba v) div ucast (sec_per_clus v)
      in if mc > 1024 * 1024 then 1024 * 1024 else mc)"

definition alloc_body ::
  "fat32_vol \<Rightarrow> 'd disk_read_fn \<Rightarrow> 'd disk_write_fn \<Rightarrow> u32 \<Rightarrow> 'd \<Rightarrow> ('d, u32 \<times> 'd) flow res" where
  "alloc_body v rd wr cl d =
     (if bytes_per_sec v = 0 then Inl DivByZero else
      let off = cl * 4;
          fat_sector = fat_lba v + off div ucast (bytes_per_sec v);
          ent_off = unat (off mod ucast (bytes_per_sec v))
      in rbind (read_sector MAX_SECTOR_SIZE rd d fat_sector) (\<lambda>r. case r of
           None \<Rightarrow> Inr (Return (0, d))
         | Some sec \<Rightarrow> rbind (ld32 sec ent_off) (\<lambda>w.
             if w AND 0x0FFFFFFF = 0
             then rbind (fat_write_fat_entry v rd wr d cl 0x0FFFFFFF) (\<lambda>(e, d').
                    Inr (Return (if e = 0 then cl else 0, d')))
             else Inr (Next d))))"

definition fat_alloc_free_cluster ::
  "fat32_vol \<Rightarrow> 'd disk_read_fn \<Rightarrow> 'd disk_write_fn \<Rightarrow> 'd \<Rightarrow> (u32 \<times> 'd) res" where
  "fat_alloc_free_cluster v rd wr d =
     (if sec_per_clus v = 0 then Inl DivByZero else
      rbind (for_loop (alloc_body v rd wr) (cluster_candidates (alloc_max_clusters v)) d)
        (\<lambda>fl. case fl of Next d' \<Rightarrow> Inr (0, d') | Return r \<Rightarrow> Inr r))"

subsection \<open>Where an entry of the table lies\<close>

definition fat_sector_of :: "fat32_vol \<Rightarrow> u32 \<Rightarrow> u32" where
  "fat_sector_of v clus = fat_lba v + (clus * 4) div ucast (bytes_per_sec v)"

definition fat_ent_off :: "fat32_vol \<Rightarrow> u32 \<Rightarrow> nat" where
  "fat_ent_off v clus = unat ((clus * 4) mod ucast (bytes_per_sec v))"

text \<open>The volume's sector size is the device's and holds whole table entries.\<close>

definition sector_geometry :: "fat32_vol \<Rightarrow> nat \<Rightarrow> bool" where
  "sector_geometry v n \<longleftrightarrow> unat (bytes_per_sec v) = n \<and> 0 < n \<and> n \<le> MAX_SECTOR_SIZE \<and> 4 dvd n"

text \<open>The entry of \<open>clus\<close> lies inside the device, and its offset does not wrap.\<close>

definition fat_slot :: "fat32_vol \<Rightarrow> nat \<Rightarrow> u32 \<Rightarrow> bool" where
  "fat_slot v cap clus \<longleftrightarrow>
     unat clus < 2 ^ 28 \<and> cap \<le> 2 ^ 32 \<and>
     unat (fat_lba v) + (4 * unat clus) div unat (bytes_per_sec v) < cap"

lemma unat_clus_times_4: "unat clus < 2 ^ 28 \<Longrightarrow> unat (clus * 4 :: u32) = 4 * unat clus"
  by (simp add: unat_word_ariths)

lemma fat_slot_sector:
  "fat_slot v cap clus \<Longrightarrow>
     unat (fat_sector_of v clus) = unat (fat_lba v) + (4 * unat clus) div unat (bytes_per_sec v)"
proof -
  assume a: "fat_slot v cap clus"
  then have "unat (clus * 4 div ucast (bytes_per_sec v)) = (4 * unat clus) div unat (bytes_per_sec v)"
    by (simp add: fat_slot_def unat_div unat_clus_times_4)
  with a show ?thesis by (simp add: fat_slot_def fat_sector_of_def unat_add_u32)
qed

lemma fat_slot_in_cap: "fat_slot v cap clus \<Longrightarrow> unat (fat_sector_of v clus) < cap"
  by (simp add: fat_slot_sector) (simp add: fat_slot_def)

lemma fat_slot_off:
  "fat_slot v cap clus \<Longrightarrow> fat_ent_off v clus = (4 * unat clus) mod unat (bytes_per_sec v)"
  by (simp add: fat_slot_def fat_ent_off_def unat_mod unat_clus_times_4)

lemma fat_ent_off_bound:
  assumes "sector_geometry v n" and "fat_slot v cap clus"
  shows "fat_ent_off v clus + 4 \<le> n"
proof -
  have "4 dvd fat_ent_off v clus"
    using assms by (auto simp: sector_geometry_def fat_slot_off dvd_mod)
  moreover have "fat_ent_off v clus < n"
    using assms by (simp add: sector_geometry_def fat_slot_off)
  moreover have "4 dvd n" using assms by (simp add: sector_geometry_def)
  ultimately show ?thesis by (auto simp: dvd_def)
qed

lemma fat_slot_distinct:
  assumes g: "sector_geometry v n" and a: "fat_slot v cap a" and b: "fat_slot v cap b"
    and ne: "a \<noteq> b" and same: "fat_sector_of v a = fat_sector_of v b"
  shows "fat_ent_off v a + 4 \<le> fat_ent_off v b \<or> fat_ent_off v b + 4 \<le> fat_ent_off v a"
proof -
  let ?n = "unat (bytes_per_sec v)"
  have "(4 * unat a) div ?n = (4 * unat b) div ?n"
    using same fat_slot_sector [OF a] fat_slot_sector [OF b] by simp
  moreover have "unat a \<noteq> unat b" using ne by (simp add: word_unat_eq_iff)
  ultimately have "(4 * unat a) mod ?n \<noteq> (4 * unat b) mod ?n"
    by (metis div_mult_mod_eq mult_cancel1 zero_neq_numeral)
  moreover have "4 dvd (4 * unat a) mod ?n" "4 dvd (4 * unat b) mod ?n"
    using g by (auto simp: sector_geometry_def dvd_mod)
  ultimately show ?thesis
    unfolding fat_slot_off [OF a] fat_slot_off [OF b] by (auto simp: dvd_def)
qed

lemma sector_geometry_nonzero: "sector_geometry v n \<Longrightarrow> bytes_per_sec v \<noteq> 0"
  by (auto simp: sector_geometry_def)

lemma fat_read_fat_entry_eq:
  "bytes_per_sec v \<noteq> 0 \<Longrightarrow> fat_read_fat_entry v rd d clus =
     rbind (read_sector MAX_SECTOR_SIZE rd d (fat_sector_of v clus)) (\<lambda>r. case r of
       None \<Rightarrow> Inr 0x0FFFFFFF
     | Some sec \<Rightarrow> rbind (ld32 sec (fat_ent_off v clus)) (\<lambda>val. Inr (val AND 0x0FFFFFFF)))"
  unfolding fat_read_fat_entry_def fat_sector_of_def fat_ent_off_def Let_def by simp

lemma fat_write_fat_entry_eq:
  "bytes_per_sec v \<noteq> 0 \<Longrightarrow> fat_write_fat_entry v rd wr d clus val =
     rbind (read_sector MAX_SECTOR_SIZE rd d (fat_sector_of v clus)) (\<lambda>r. case r of
       None \<Rightarrow> Inr (-1, d)
     | Some sec \<Rightarrow>
         rbind (ld32 sec (fat_ent_off v clus)) (\<lambda>old.
         rbind (store sec (fat_ent_off v clus)
                  (le_bytes 4 ((val AND 0x0FFFFFFF) OR (old AND 0xF0000000)))) (\<lambda>sec'.
         rbind (wr d (fat_sector_of v clus) 1 sec') (\<lambda>(r, d'). if r \<noteq> 0 then Inr (-2, d') else Inr (0, d')))))"
  unfolding fat_write_fat_entry_def fat_sector_of_def fat_ent_off_def Let_def by simp

lemma mask28_keeps_entry:
  "((val AND 0x0FFFFFFF) OR (old AND 0xF0000000)) AND 0x0FFFFFFF = val AND (0x0FFFFFFF :: u32)"
proof -
  have m: "(0x0FFFFFFF :: u32) = mask 28" "(0xF0000000 :: u32) = push_bit 28 (mask 4)"
    by (simp_all add: mask_eq_exp_minus_1 push_bit_eq_mult)
  show ?thesis unfolding m by (rule bit_word_eqI) (auto simp: bit_simps)
qed

lemma mask_keeps_high_nibble:
  "((val AND 0x0FFFFFFF) OR (old AND 0xF0000000)) AND 0xF0000000 = old AND (0xF0000000 :: u32)"
proof -
  have m: "(0x0FFFFFFF :: u32) = mask 28" "(0xF0000000 :: u32) = push_bit 28 (mask 4)"
    by (simp_all add: mask_eq_exp_minus_1 push_bit_eq_mult)
  show ?thesis unfolding m by (rule bit_word_eqI) (auto simp: bit_simps)
qed

subsection \<open>The allocator finds the first free cluster\<close>

lemma alloc_body_eq:
  "bytes_per_sec v \<noteq> 0 \<Longrightarrow> alloc_body v rd wr cl d =
     rbind (read_sector MAX_SECTOR_SIZE rd d (fat_sector_of v cl)) (\<lambda>r. case r of
       None \<Rightarrow> Inr (Return (0, d))
     | Some sec \<Rightarrow> rbind (ld32 sec (fat_ent_off v cl)) (\<lambda>w.
         if w AND 0x0FFFFFFF = 0
         then rbind (fat_write_fat_entry v rd wr d cl 0x0FFFFFFF) (\<lambda>(e, d').
                Inr (Return (if e = 0 then cl else 0, d')))
         else Inr (Next d)))"
  unfolding alloc_body_def fat_sector_of_def fat_ent_off_def Let_def by simp

lemma alloc_body_Next:
  "bytes_per_sec v \<noteq> 0 \<Longrightarrow> alloc_body v rd wr cl d = Inr (Next d') \<Longrightarrow>
     d' = d \<and> fat_read_fat_entry v rd d cl \<noteq> Inr 0"
  by (auto simp: alloc_body_eq fat_read_fat_entry_eq res_simps split: option.splits if_splits prod.splits)

lemma alloc_body_Return:
  "bytes_per_sec v \<noteq> 0 \<Longrightarrow> alloc_body v rd wr cl d = Inr (Return (c, d')) \<Longrightarrow>
     (c = 0 \<and> d' = d \<and> rd d (fat_sector_of v cl) 1 = None) \<or>
     (fat_read_fat_entry v rd d cl = Inr 0 \<and>
      (\<exists>e. fat_write_fat_entry v rd wr d cl 0x0FFFFFFF = Inr (e, d') \<and> c = (if e = 0 then cl else 0)))"
  by (auto simp: alloc_body_eq fat_read_fat_entry_eq res_simps read_sector_def
      split: option.splits if_splits prod.splits)

lemma alloc_loop_Next:
  "bytes_per_sec v \<noteq> 0 \<Longrightarrow> for_loop (alloc_body v rd wr) cs d = Inr (Next d') \<Longrightarrow>
     d' = d \<and> (\<forall>c\<in>set cs. fat_read_fat_entry v rd d c \<noteq> Inr 0)"
proof (induction cs)
  case Nil
  then show ?case by simp
next
  case (Cons c cs)
  from Cons.prems obtain f0 where b: "alloc_body v rd wr c d = Inr f0"
    and r: "(case f0 of Next s' \<Rightarrow> for_loop (alloc_body v rd wr) cs s'
        | Return r \<Rightarrow> Inr (Return r)) = Inr (Next d')" by (auto simp: res_simps)
  from r obtain d1 where "f0 = Next d1" by (cases f0) auto
  with b r Cons alloc_body_Next [of v rd wr c d d1] show ?case by auto
qed

lemma alloc_loop_Return:
  "bytes_per_sec v \<noteq> 0 \<Longrightarrow> for_loop (alloc_body v rd wr) cs d = Inr (Return r) \<Longrightarrow>
     \<exists>xs c ys. cs = xs @ c # ys \<and> (\<forall>x\<in>set xs. fat_read_fat_entry v rd d x \<noteq> Inr 0) \<and>
       alloc_body v rd wr c d = Inr (Return r)"
proof (induction cs)
  case Nil
  then show ?case by simp
next
  case (Cons c cs)
  from Cons.prems obtain f0 where b: "alloc_body v rd wr c d = Inr f0"
    and run: "(case f0 of Next s' \<Rightarrow> for_loop (alloc_body v rd wr) cs s'
        | Return r \<Rightarrow> Inr (Return r)) = Inr (Return r)" by (auto simp: res_simps)
  show ?case
  proof (cases f0)
    case (Return r')
    with b run show ?thesis by (intro exI [of _ "[]"]) auto
  next
    case (Next d1)
    with b Cons.prems(1) have d1: "d1 = d" and nf: "fat_read_fat_entry v rd d c \<noteq> Inr 0"
      using alloc_body_Next [of v rd wr c d d1] by simp_all
    with run Next Cons.IH [OF Cons.prems(1)] obtain xs c' ys where "cs = xs @ c' # ys"
      "\<forall>x\<in>set xs. fat_read_fat_entry v rd d x \<noteq> Inr 0" "alloc_body v rd wr c' d = Inr (Return r)"
      by auto
    with nf show ?thesis by (intro exI [of _ "c # xs"]) auto
  qed
qed

text \<open>The candidates are ascending, so the clusters tried before one are the smaller ones.\<close>

lemma candidates_before:
  assumes "cluster_candidates m = xs @ c # ys"
  shows "c \<in> set (cluster_candidates m)" and "j \<in> set (cluster_candidates m) \<Longrightarrow> j < c \<Longrightarrow> j \<in> set xs"
proof -
  show "c \<in> set (cluster_candidates m)" using assms by simp
  have "sorted (map unat (cluster_candidates m))"
  proof -
    have "map unat (cluster_candidates m) = [2..<unat m]"
      using unat_bound [of m]
      by (auto simp: cluster_candidates_def unat_of_nat intro!: map_idI)
    then show ?thesis by simp
  qed
  then have "\<forall>y\<in>set ys. unat c \<le> unat y" by (simp add: assms sorted_append)
  then show "j \<in> set xs" if "j \<in> set (cluster_candidates m)" "j < c"
    using that by (auto simp: assms word_less_nat_alt)
qed

lemma fat_alloc_cases:
  assumes "bytes_per_sec v \<noteq> 0" and run: "fat_alloc_free_cluster v rd wr d = Inr (cl, d')" and "cl \<noteq> 0"
  shows "cl \<in> set (cluster_candidates (alloc_max_clusters v)) \<and>
    fat_read_fat_entry v rd d cl = Inr 0 \<and>
    (\<forall>j\<in>set (cluster_candidates (alloc_max_clusters v)). j < cl \<longrightarrow> fat_read_fat_entry v rd d j \<noteq> Inr 0) \<and>
    fat_write_fat_entry v rd wr d cl 0x0FFFFFFF = Inr (0, d')"
proof -
  let ?cs = "cluster_candidates (alloc_max_clusters v)"
  from run obtain fl where fl: "for_loop (alloc_body v rd wr) ?cs d = Inr fl"
    and "(case fl of Next d' \<Rightarrow> Inr (0, d') | Return r \<Rightarrow> Inr r) = (Inr (cl, d') :: (u32 \<times> 'a) res)"
    by (auto simp: fat_alloc_free_cluster_def res_simps split: if_splits)
  with \<open>cl \<noteq> 0\<close> have "for_loop (alloc_body v rd wr) ?cs d = Inr (Return (cl, d'))"
    by (cases fl) auto
  from alloc_loop_Return [OF assms(1) this] obtain xs c ys where
    split: "?cs = xs @ c # ys" and nf: "\<forall>x\<in>set xs. fat_read_fat_entry v rd d x \<noteq> Inr 0"
    and b: "alloc_body v rd wr c d = Inr (Return (cl, d'))" by blast
  from alloc_body_Return [OF assms(1) b] \<open>cl \<noteq> 0\<close> have "c = cl" and
    "fat_read_fat_entry v rd d cl = Inr 0" and "fat_write_fat_entry v rd wr d cl 0x0FFFFFFF = Inr (0, d')"
    by (auto split: if_splits)
  with split nf candidates_before [OF split] show ?thesis by auto
qed

subsection \<open>The table as a map\<close>

context block_device
begin

lemma fat_write_cases:
  assumes ok: "ok d" and g: "sector_geometry v secsz" and sl: "fat_slot v cap clus"
    and w: "fat_write_fat_entry v rd wr d clus val = Inr (r, d')"
  shows "(r = -1 \<and> d' = d \<and> rd d (fat_sector_of v clus) 1 = None) \<or>
    (\<exists>sec old e. rd d (fat_sector_of v clus) 1 = Some sec \<and>
       ld32 sec (fat_ent_off v clus) = Inr old \<and>
       wr d (fat_sector_of v clus) 1 (patch sec (fat_ent_off v clus)
          (le_bytes 4 ((val AND 0x0FFFFFFF) OR (old AND 0xF0000000)))) = Inr (e, d') \<and>
       r = (if e \<noteq> 0 then -2 else 0))"
proof -
  have "secsz \<le> MAX_SECTOR_SIZE" using g by (simp add: sector_geometry_def)
  with w show ?thesis
    by (auto simp: fat_write_fat_entry_eq [OF sector_geometry_nonzero [OF g]] read_sector_total [OF ok]
        res_simps store_def split: option.splits if_splits prod.splits)
qed

lemma fat_write_ok:
  assumes "ok d" and "sector_geometry v secsz" and "fat_slot v cap clus"
    and "fat_write_fat_entry v rd wr d clus val = Inr (r, d')"
  shows "ok d'"
  using fat_write_cases [OF assms] assms(1) by (auto intro: wr_ok)

lemma fat_write_frame:
  assumes "ok d" and "sector_geometry v secsz" and "fat_slot v cap clus"
    and "fat_write_fat_entry v rd wr d clus val = Inr (r, d')"
    and "unat lba < cap" and "lba \<noteq> fat_sector_of v clus"
  shows "rd d' lba 1 = rd d lba 1"
  using fat_write_cases [OF assms(1-4)] assms fat_slot_in_cap [OF assms(3)]
  by (auto intro: wr_frame)

text \<open>A successful write changes exactly one entry of the table.\<close>

lemma fat_write_read:
  assumes ok: "ok d" and g: "sector_geometry v secsz" and sl: "fat_slot v cap clus"
    and w: "fat_write_fat_entry v rd wr d clus val = Inr (0, d')" and sl': "fat_slot v cap c"
  shows "fat_read_fat_entry v rd d' c =
     (if c = clus then Inr (val AND 0x0FFFFFFF) else fat_read_fat_entry v rd d c)"
proof -
  let ?s = "fat_sector_of v clus" and ?o = "fat_ent_off v clus"
  note eq = fat_read_fat_entry_eq [OF sector_geometry_nonzero [OF g]]
  have le: "secsz \<le> MAX_SECTOR_SIZE" using g by (simp add: sector_geometry_def)
  from fat_write_cases [OF ok g sl w] obtain sec old where
    sec: "rd d ?s 1 = Some sec" and old: "ld32 sec ?o = Inr old" and
    wr: "wr d ?s 1 (patch sec ?o (le_bytes 4 ((val AND 0x0FFFFFFF) OR (old AND 0xF0000000)))) = Inr (0, d')"
    by (auto split: if_splits)
  let ?new = "le_bytes 4 ((val AND 0x0FFFFFFF) OR (old AND 0xF0000000))"
  have len: "length sec = secsz" using rd_length [OF ok sec] .
  have off: "?o + 4 \<le> length sec" using fat_ent_off_bound [OF g sl] len by simp
  have ok': "ok d'" using wr_ok [OF ok wr] .
  show ?thesis
  proof (cases "fat_sector_of v c = ?s")
    case same: True
    have "rd d' ?s 1 = Some (patch sec ?o ?new)"
      using wr_read [OF ok fat_slot_in_cap [OF sl] wr] off len by simp
    then have new: "read_sector MAX_SECTOR_SIZE rd d' (fat_sector_of v c) = Inr (Some (patch sec ?o ?new))"
      using same read_sector_total [OF ok' le] by simp
    show ?thesis
    proof (cases "c = clus")
      case True
      have "ld32 (patch sec ?o ?new) ?o = Inr ((val AND 0x0FFFFFFF) OR (old AND 0xF0000000))"
        using off by (simp add: ld_le_patch_same)
      with True new show ?thesis by (simp add: eq mask28_keeps_entry)
    next
      case False
      have "ld32 (patch sec ?o ?new) (fat_ent_off v c) = ld32 sec (fat_ent_off v c)"
        using fat_slot_distinct [OF g sl' sl False same] off by (auto intro: ld_le_patch_other)
      with False new same sec le show ?thesis
        by (simp add: eq read_sector_total [OF ok])
    qed
  next
    case False
    then have "rd d' (fat_sector_of v c) 1 = rd d (fat_sector_of v c) 1"
      using wr_frame [OF ok fat_slot_in_cap [OF sl] fat_slot_in_cap [OF sl'] _ wr] by simp
    with False show ?thesis
      by (auto simp: eq read_sector_def)
  qed
qed

end

subsection \<open>Boot sectors\<close>

text \<open>A small boot sector, for trying things out: 14 sectors of 512 bytes, one per cluster, two of them reserved and two for the
  one table.\<close>

definition demo_boot_sector :: "u8 list" where
  "demo_boot_sector =
     replicate 11 0 @ [0, 2, 1, 2, 0, 1] @ replicate 15 0 @ [14, 0, 0, 0, 2, 0, 0, 0] @ replicate 4 0
     @ [2, 0, 0, 0] @ replicate 464 0"

definition blank_vol :: fat32_vol where
  "blank_vol =
     \<lparr>fs_type = FAT_FS_FAT32, bytes_per_sec = 0, sec_per_clus = 0, rsvd_sec_cnt = 0, num_fats = 0,
      fat_sz32 = 0, root_clus = 0, first_data_lba = 0, fat_lba = 0, tot_sec32 = 0, part_lba_start = 0,
      exfat_fat_length = 0, exfat_heap_offset = 0, exfat_cluster_count = 0, exfat_bitmap_clus = 0,
      exfat_bitmap_size = 0, exfat_bps_shift = 0, exfat_spc_shift = 0\<rparr>"

text \<open>An exFAT boot sector gets no check of the cluster size: a shift of 8 is stored as zero
  sectors per cluster, and a shift of 32 or more is undefined.\<close>

lemma exfat_mount_zero_cluster:
  assumes "ebpb_bytes_per_sec_shift e = 9" and "ebpb_sec_per_clus_shift e = 8"
  shows "\<exists>v'. mount_exfat v part e = Inr (0, v') \<and> sec_per_clus v' = 0"
  by (simp add: mount_exfat_def assms shl1_32_def)

lemma exfat_mount_bad_shift:
  assumes "unat (ebpb_bytes_per_sec_shift e) \<ge> 32"
  shows "mount_exfat v part e = Inl BadShift"
  using assms by (simp add: mount_exfat_def shl1_32_def)

end
