(* ===== verification/Fat_Chain.thy ===== *)
theory Fat_Chain
  imports Fat_Volume
begin

text \<open>
  Cluster chains of \<open>src/kernel/fs_fat32.c\<close> and the transfer of file contents along them. The
  loop \<open>while (!is_end_cluster(cl)) { \<dots>; cl = fat_read_fat_entry(v, rd, cl); }\<close> is not bounded
  by the code (a cyclic table never ends it), so it runs on fuel; the relation \<open>fat_chain\<close> says
  which clusters a terminating walk visits, and \<open>chain_loop_chain\<close> that a walk along a chain
  needs one unit of fuel more than the chain has clusters.
\<close>

subsection \<open>Walking a chain\<close>

text \<open>\<open>while (!is_end_cluster(cl) && goon st) { body; cl = next(cl); }\<close> on an unchanging device.\<close>

definition chain_loop ::
  "nat \<Rightarrow> fat32_vol \<Rightarrow> 'd disk_read_fn \<Rightarrow> 'd \<Rightarrow> ('s \<Rightarrow> bool) \<Rightarrow> (u32 \<Rightarrow> 's \<Rightarrow> ('s, 'r) flow res) \<Rightarrow>
   u32 \<Rightarrow> 's \<Rightarrow> ('s, 'r) flow res" where
  "chain_loop fuel v rd d goon body cl st =
     rbind (while_loop fuel (\<lambda>(cl, st). \<not> is_end_cluster cl \<and> goon st)
       (\<lambda>(cl, st). rbind (body cl st) (\<lambda>fl. case fl of
          Next st' \<Rightarrow> rbind (fat_read_fat_entry v rd d cl) (\<lambda>nx. Inr (Next (nx, st')))
        | Return r \<Rightarrow> Inr (Return r)))
       (cl, st))
     (\<lambda>fl. case fl of Next (cl', st') \<Rightarrow> Inr (Next st') | Return r \<Rightarrow> Inr (Return r))"

inductive fat_chain :: "fat32_vol \<Rightarrow> 'd disk_read_fn \<Rightarrow> 'd \<Rightarrow> u32 \<Rightarrow> u32 list \<Rightarrow> bool"
  for v :: fat32_vol and rd :: "'d disk_read_fn" and d :: 'd where
  chain_end: "is_end_cluster cl \<Longrightarrow> fat_chain v rd d cl []"
| chain_link: "\<not> is_end_cluster cl \<Longrightarrow> fat_read_fat_entry v rd d cl = Inr nx \<Longrightarrow>
    fat_chain v rd d nx cs \<Longrightarrow> fat_chain v rd d cl (cl # cs)"

inductive_simps fat_chain_simps: "fat_chain v rd d cl cs"
inductive_cases fat_chain_ConsE: "fat_chain v rd d cl (c # cs)"

lemma chain_loop_unfold:
  "chain_loop (Suc fuel) v rd d goon body cl st =
     (if \<not> is_end_cluster cl \<and> goon st
      then rbind (body cl st) (\<lambda>fl. case fl of
             Next st' \<Rightarrow> rbind (fat_read_fat_entry v rd d cl) (\<lambda>nx. chain_loop fuel v rd d goon body nx st')
           | Return r \<Rightarrow> Inr (Return r))
      else Inr (Next st))"
proof (cases "body cl st")
  case (Inr fl)
  then show ?thesis
    by (cases "fat_read_fat_entry v rd d cl") (auto simp: chain_loop_def split: flow.split)
qed (simp add: chain_loop_def)

text \<open>On a chain the unbounded walk is a bounded loop over the clusters of the chain.\<close>

lemma chain_loop_chain:
  assumes "fat_chain v rd d cl cs" and "length cs < fuel"
  shows "chain_loop fuel v rd d goon body cl st =
     for_loop (\<lambda>c s. if goon s then body c s else Inr (Next s)) cs st"
  using assms
proof (induction arbitrary: fuel st rule: fat_chain.induct)
  case (chain_end cl)
  then obtain k where "fuel = Suc k" by (cases fuel) auto
  with chain_end show ?case by (simp add: chain_loop_unfold)
next
  case (chain_link cl nx cs)
  then obtain k where k: "fuel = Suc k" "length cs < k" by (cases fuel) auto
  show ?case
  proof (cases "goon st")
    case True
    with chain_link.hyps chain_link.IH [OF k(2)] show ?thesis
      by (simp add: k(1) chain_loop_unfold)
  next
    case False
    then have "for_loop (\<lambda>c s. if goon s then body c s else Inr (Next s)) cs st = Inr (Next st)"
      by (induction cs) simp_all
    with False show ?thesis by (simp add: k(1) chain_loop_unfold)
  qed
qed

lemma fat_chain_unique: "fat_chain v rd d cl cs \<Longrightarrow> fat_chain v rd d cl cs' \<Longrightarrow> cs = cs'"
proof (induction arbitrary: cs' rule: fat_chain.induct)
  case (chain_end cl)
  then show ?case by (auto simp: fat_chain_simps [of v rd d cl])
next
  case (chain_link cl nx cs)
  from chain_link.prems chain_link.hyps obtain cs'' where "cs' = cl # cs''" "fat_chain v rd d nx cs''"
    by (auto simp: fat_chain_simps [of v rd d cl])
  with chain_link.IH show ?case by simp
qed

lemma fat_chain_cong:
  assumes "fat_chain v rd d cl cs" and "\<And>c. c \<in> set cs \<Longrightarrow> fat_read_fat_entry v rd d' c = fat_read_fat_entry v rd d c"
  shows "fat_chain v rd d' cl cs"
  using assms
proof (induction rule: fat_chain.induct)
  case (chain_end cl)
  then show ?case by (simp add: fat_chain.chain_end)
next
  case (chain_link cl nx cs)
  then show ?case by (intro fat_chain.chain_link [of _ _ _ _ nx]) auto
qed

text \<open>A chain never meets a cluster twice: the walk from a repeated cluster would not end.\<close>

lemma fat_chain_suffix:
  "fat_chain v rd d cl cs \<Longrightarrow> c \<in> set cs \<Longrightarrow> \<exists>xs ys. cs = xs @ c # ys \<and> fat_chain v rd d c (c # ys)"
proof (induction rule: fat_chain.induct)
  case (chain_end cl)
  then show ?case by simp
next
  case (chain_link cl nx cs)
  show ?case
  proof (cases "c = cl")
    case True
    with chain_link.hyps show ?thesis
      by (intro exI [of _ "[]"] exI [of _ cs]) (auto intro: fat_chain.chain_link)
  next
    case False
    with chain_link.prems chain_link.IH obtain xs ys where
      "cs = xs @ c # ys" "fat_chain v rd d c (c # ys)" by auto
    then show ?thesis by (intro exI [of _ "cl # xs"] exI [of _ ys]) simp
  qed
qed

lemma fat_chain_distinct: "fat_chain v rd d cl cs \<Longrightarrow> distinct cs"
proof (induction rule: fat_chain.induct)
  case (chain_link cl nx cs)
  have "cl \<notin> set cs"
  proof
    assume "cl \<in> set cs"
    from fat_chain_suffix [OF chain_link.hyps(3) this] obtain xs ys where
      "cs = xs @ cl # ys" "fat_chain v rd d cl (cl # ys)" by auto
    have whole: "fat_chain v rd d cl (cl # cs)" using chain_link.hyps by (rule fat_chain.chain_link)
    from \<open>fat_chain v rd d cl (cl # ys)\<close> whole have "cl # ys = cl # cs" by (rule fat_chain_unique)
    with \<open>cs = xs @ cl # ys\<close> show False by simp
  qed
  with chain_link show ?case by simp
qed simp

subsection \<open>Reading a file\<close>

text \<open>The sectors of a cluster, in order.\<close>

definition cluster_lbas :: "fat32_vol \<Rightarrow> u32 \<Rightarrow> u32 list" where
  "cluster_lbas v cl = map (\<lambda>s. clus_to_lba v cl + word_of_nat s) [0..<unat (sec_per_clus v)]"

definition read_file_sector ::
  "fat32_vol \<Rightarrow> 'd disk_read_fn \<Rightarrow> 'd \<Rightarrow> u32 \<Rightarrow> u8 list \<times> u32 \<Rightarrow> (u8 list \<times> u32, u8 list) flow res" where
  "read_file_sector v rd d lba = (\<lambda>(out, left).
     if left = 0 then Inr (Next (out, left)) else
     rbind (read_sector MAX_SECTOR_SIZE rd d lba) (\<lambda>r. case r of
       None \<Rightarrow> Inr (Return out)
     | Some sec \<Rightarrow>
         let tk = (if left < ucast (bytes_per_sec v) then left else ucast (bytes_per_sec v))
         in rbind (ld_bytes sec 0 (unat tk)) (\<lambda>bs. Inr (Next (out @ bs, left - tk)))))"

text \<open>The result is the return code, the bytes stored in \<open>out\<close>, and \<open>*out_bytes\<close>.\<close>

definition read_file_from_cluster ::
  "nat \<Rightarrow> fat32_vol \<Rightarrow> 'd disk_read_fn \<Rightarrow> 'd \<Rightarrow> u32 \<Rightarrow> u32 \<Rightarrow> u32 \<Rightarrow> (int \<times> u8 list \<times> u32) res" where
  "read_file_from_cluster fuel v rd d start_clus file_size max_bytes =
     (if start_clus = 0 then Inr (-1, [], 0) else
      let left = (if file_size < max_bytes then file_size else max_bytes)
      in rbind (chain_loop fuel v rd d (\<lambda>(out, left). left > 0)
           (\<lambda>cl. for_loop (read_file_sector v rd d) (cluster_lbas v cl)) start_clus ([], left))
         (\<lambda>fl. case fl of
            Next (out, _) \<Rightarrow> Inr (0, out, if file_size < max_bytes then file_size else max_bytes)
          | Return out \<Rightarrow> Inr (-2, out, 0)))"

text \<open>What the sectors hold: the contents a reader of the chain should see.\<close>

definition sectors_data :: "'d disk_read_fn \<Rightarrow> 'd \<Rightarrow> u32 list \<Rightarrow> u8 list" where
  "sectors_data rd d lbas = concat (map (\<lambda>l. case rd d l 1 of None \<Rightarrow> [] | Some bs \<Rightarrow> bs) lbas)"

definition chain_data :: "fat32_vol \<Rightarrow> 'd disk_read_fn \<Rightarrow> 'd \<Rightarrow> u32 list \<Rightarrow> u8 list" where
  "chain_data v rd d cs = sectors_data rd d (concat (map (cluster_lbas v) cs))"

definition readable :: "nat \<Rightarrow> 'd disk_read_fn \<Rightarrow> 'd \<Rightarrow> u32 \<Rightarrow> bool" where
  "readable n rd d lba \<longleftrightarrow> (\<exists>bs. rd d lba 1 = Some bs \<and> length bs = n)"

lemma read_file_sector_loop:
  assumes "unat (bytes_per_sec v) = n" and "n \<le> MAX_SECTOR_SIZE"
    and "\<forall>l\<in>set lbas. readable n rd d l"
  shows "for_loop (read_file_sector v rd d) lbas (out, left) =
     Inr (Next (out @ take (unat left) (sectors_data rd d lbas),
                left - word_of_nat (min (unat left) (length (sectors_data rd d lbas)))))"
  using assms(3)
proof (induction lbas arbitrary: out left)
  case Nil
  then show ?case by (simp add: sectors_data_def)
next
  case (Cons l lbas)
  then obtain bs where bs: "rd d l 1 = Some bs" "length bs = n" by (auto simp: readable_def)
  show ?case
  proof (cases "left = 0")
    case True
    with Cons show ?thesis by (simp add: read_file_sector_def)
  next
    case False
    let ?tk = "if left < ucast (bytes_per_sec v) then left else ucast (bytes_per_sec v) :: u32"
    have tk: "unat ?tk = min (unat left) n"
      using assms(1) by (auto simp: word_less_nat_alt)
    have "read_file_sector v rd d l (out, left) = Inr (Next (out @ take (unat left) bs, left - ?tk))"
      using False assms(2) bs tk
      by (simp add: read_file_sector_def read_sector_def ld_bytes_def Let_def min_def)
    moreover have "unat (left - ?tk) = unat left - n"
      using tk by (subst unat_sub) (auto simp: word_le_nat_alt)
    moreover have "left - ?tk - word_of_nat (min (unat left - n) k) = left - word_of_nat (min (unat left) (n + k))" for k
    proof -
      have "?tk + word_of_nat (min (unat left - n) k) = word_of_nat (min (unat left) n + min (unat left - n) k)"
        by (simp flip: tk)
      moreover have "min (unat left) n + min (unat left - n) k = min (unat left) (n + k)" by auto
      ultimately show ?thesis by (simp add: diff_diff_eq)
    qed
    ultimately show ?thesis
      using Cons bs by (simp add: sectors_data_def)
  qed
qed

text \<open>Along a chain whose sectors can be read, the file is the front of the chain's contents.\<close>

lemma read_file_chain:
  assumes "fat_chain v rd d start cs" and "length cs < fuel" and "start \<noteq> 0"
    and n: "unat (bytes_per_sec v) = n" "n \<le> MAX_SECTOR_SIZE"
    and r: "\<forall>c\<in>set cs. \<forall>l\<in>set (cluster_lbas v c). readable n rd d l"
  shows "read_file_from_cluster fuel v rd d start fsize mx =
     Inr (0, take (unat (min fsize mx)) (chain_data v rd d cs), min fsize mx)"
proof -
  let ?left = "min fsize mx"
  have left: "(if fsize < mx then fsize else mx) = ?left" by (auto simp: min_def)
  have stop: "(\<lambda>c s. if case s of (out, left) \<Rightarrow> left > 0
         then for_loop (read_file_sector v rd d) (cluster_lbas v c) s else Inr (Next s))
      = (\<lambda>c. for_loop (read_file_sector v rd d) (cluster_lbas v c))"
  proof (intro ext)
    fix c and s :: "u8 list \<times> u32"
    have "for_loop (read_file_sector v rd d) ls (fst s, 0) = Inr (Next (fst s, 0))" for ls
      by (induction ls) (simp_all add: read_file_sector_def)
    then show "(if case s of (out, left) \<Rightarrow> left > 0
         then for_loop (read_file_sector v rd d) (cluster_lbas v c) s else Inr (Next s))
      = for_loop (read_file_sector v rd d) (cluster_lbas v c) s"
      by (cases s) (auto simp: word_neq_0_conv [symmetric])
  qed
  have "for_loop (read_file_sector v rd d) (concat (map (cluster_lbas v) cs)) ([], ?left) =
     Inr (Next (take (unat ?left) (chain_data v rd d cs),
       ?left - word_of_nat (min (unat ?left) (length (chain_data v rd d cs)))))"
    using read_file_sector_loop [OF n, of "concat (map (cluster_lbas v) cs)" rd d "[]" ?left] r
    by (auto simp: chain_data_def)
  then show ?thesis
    using assms(3)
    by (simp add: read_file_from_cluster_def chain_loop_chain [OF assms(1,2)] stop for_loop_concat
        Let_def left)
qed

end
