(* ===== verification/Fat_Layout.thy ===== *)
theory Fat_Layout
  imports Fat_Chain
begin

text \<open>
  The layout of a volume on a device: the allocation table lies below the data area, clusters
  are disjoint runs of sectors, and no address computation of the driver wraps around. Writing
  the contents of one cluster (\<open>write_single_cluster\<close>) then leaves the table and the other
  clusters alone, and what was written can be read back.
\<close>

subsection \<open>Volumes without overlap\<close>

text \<open>A volume of \<open>N\<close> clusters (numbered from 2) on a device of \<open>cap\<close> sectors of \<open>n\<close> bytes.\<close>

definition vol_layout :: "fat32_vol \<Rightarrow> nat \<Rightarrow> nat \<Rightarrow> nat \<Rightarrow> bool" where
  "vol_layout v n cap N \<longleftrightarrow>
     sector_geometry v n \<and> 0 < unat (sec_per_clus v) \<and> N + 2 \<le> 0x0FFFFFF8 \<and> cap \<le> 2 ^ 32 \<and>
     unat (part_lba_start v) + unat (first_data_lba v) + N * unat (sec_per_clus v) \<le> cap \<and>
     unat (fat_lba v) + (4 * (N + 1)) div n < unat (part_lba_start v) + unat (first_data_lba v)"

definition valid_clus :: "nat \<Rightarrow> u32 \<Rightarrow> bool" where
  "valid_clus N c \<longleftrightarrow> 2 \<le> unat c \<and> unat c < N + 2"

definition data_start :: "fat32_vol \<Rightarrow> nat" where
  "data_start v = unat (part_lba_start v) + unat (first_data_lba v)"

definition clus_base :: "fat32_vol \<Rightarrow> u32 \<Rightarrow> nat" where
  "clus_base v c = data_start v + (unat c - 2) * unat (sec_per_clus v)"

lemma vol_layout_geometry: "vol_layout v n cap N \<Longrightarrow> sector_geometry v n"
  by (simp add: vol_layout_def)

lemma valid_clus_end:
  assumes "vol_layout v n cap N" and "valid_clus N c"
  shows "clus_base v c + unat (sec_per_clus v) \<le> cap"
proof -
  have "(unat c - 2) * unat (sec_per_clus v) + unat (sec_per_clus v) = (unat c - 1) * unat (sec_per_clus v)"
    using assms(2) by (auto simp: valid_clus_def algebra_simps diff_mult_distrib)
  also have "\<dots> \<le> N * unat (sec_per_clus v)"
    using assms(2) by (intro mult_le_mono1) (auto simp: valid_clus_def)
  finally show ?thesis
    using assms(1) by (simp add: vol_layout_def clus_base_def data_start_def)
qed

lemma unat_clus_to_lba:
  assumes "vol_layout v n cap N" and "valid_clus N c"
  shows "unat (clus_to_lba v c) = clus_base v c"
proof -
  note e = valid_clus_end [OF assms]
  have cap: "cap \<le> 2 ^ 32" and spc: "0 < unat (sec_per_clus v)"
    using assms(1) by (auto simp: vol_layout_def)
  have c2: "unat (c - 2) = unat c - 2"
    using assms(2) by (subst unat_sub) (auto simp: valid_clus_def word_le_nat_alt)
  have small: "clus_base v c < 2 ^ 32" using e cap spc by linarith
  then have "unat ((c - 2) * ucast (sec_per_clus v)) = (unat c - 2) * unat (sec_per_clus v)"
    by (simp add: unat_word_ariths c2 clus_base_def)
  then show ?thesis
    using small by (simp add: clus_to_lba_def unat_add_u32 clus_base_def data_start_def)
qed

lemma unat_cluster_lba:
  assumes "vol_layout v n cap N" and "valid_clus N c" and "s < unat (sec_per_clus v)"
  shows "unat (clus_to_lba v c + word_of_nat s) = clus_base v c + s"
proof -
  have "clus_base v c + s < 2 ^ 32"
    using valid_clus_end [OF assms(1,2)] assms(1,3) by (auto simp: vol_layout_def)
  then show ?thesis
    by (simp add: unat_add_u32 unat_clus_to_lba [OF assms(1,2)] unat_word_of_nat_u32)
qed

lemma map_unat_cluster_lbas:
  assumes "vol_layout v n cap N" and "valid_clus N c"
  shows "map unat (cluster_lbas v c) = [clus_base v c..<clus_base v c + unat (sec_per_clus v)]"
  using unat_cluster_lba [OF assms]
  by (auto simp: cluster_lbas_def intro!: nth_equalityI)

lemma cluster_lbas_iff:
  assumes "vol_layout v n cap N" and "valid_clus N c"
  shows "l \<in> set (cluster_lbas v c) \<longleftrightarrow>
    clus_base v c \<le> unat l \<and> unat l < clus_base v c + unat (sec_per_clus v)"
proof -
  have "l \<in> set (cluster_lbas v c) \<longleftrightarrow> unat l \<in> set (map unat (cluster_lbas v c))"
    by (auto dest: iffD2 [OF word_unat_eq_iff])
  then show ?thesis by (simp only: map_unat_cluster_lbas [OF assms]) auto
qed

lemma distinct_cluster_lbas:
  assumes "vol_layout v n cap N" and "valid_clus N c"
  shows "distinct (cluster_lbas v c)"
  using map_unat_cluster_lbas [OF assms] by (metis distinct_map distinct_upt)

lemma cluster_lbas_in_cap:
  assumes "vol_layout v n cap N" and "valid_clus N c" and "l \<in> set (cluster_lbas v c)"
  shows "unat l < cap"
  using cluster_lbas_iff [OF assms(1,2)] valid_clus_end [OF assms(1,2)] assms(3) by auto

lemma cluster_lbas_disjoint:
  assumes "vol_layout v n cap N" and "valid_clus N c" and "valid_clus N c'" and "c \<noteq> c'"
  shows "set (cluster_lbas v c) \<inter> set (cluster_lbas v c') = {}"
proof -
  have apart: "clus_base v a + unat (sec_per_clus v) \<le> clus_base v b" if "unat a < unat b" "2 \<le> unat a" for a b
  proof -
    have "(unat a - 2 + 1) * unat (sec_per_clus v) \<le> (unat b - 2) * unat (sec_per_clus v)"
      using that by (intro mult_le_mono1) simp
    then show ?thesis by (simp add: clus_base_def algebra_simps)
  qed
  have "unat c \<noteq> unat c'" using assms(4) by (simp add: word_unat_eq_iff)
  then consider "unat c < unat c'" | "unat c' < unat c" by linarith
  then show ?thesis
    using apart [of c c'] apart [of c' c] assms(2,3)
    by cases (auto simp: cluster_lbas_iff [OF assms(1,2)] cluster_lbas_iff [OF assms(1,3)] valid_clus_def)
qed

lemma valid_clus_slot: "vol_layout v n cap N \<Longrightarrow> valid_clus N c \<Longrightarrow> fat_slot v cap c"
proof -
  assume l: "vol_layout v n cap N" and c: "valid_clus N c"
  have "(4 * unat c) div unat (bytes_per_sec v) \<le> (4 * (N + 1)) div unat (bytes_per_sec v)"
    using c by (intro div_le_mono) (auto simp: valid_clus_def)
  with l c show ?thesis by (auto simp: vol_layout_def fat_slot_def sector_geometry_def valid_clus_def)
qed

text \<open>The table lies below the data area.\<close>

lemma fat_sector_below_data:
  assumes l: "vol_layout v n cap N" and c: "valid_clus N c"
  shows "unat (fat_sector_of v c) < data_start v"
proof -
  have "(4 * unat c) div unat (bytes_per_sec v) \<le> (4 * (N + 1)) div unat (bytes_per_sec v)"
    using c by (intro div_le_mono) (auto simp: valid_clus_def)
  with l show ?thesis
    by (auto simp: fat_slot_sector [OF valid_clus_slot [OF l c]] vol_layout_def sector_geometry_def data_start_def)
qed

lemma fat_sector_not_data:
  assumes "vol_layout v n cap N" and "valid_clus N c" and "valid_clus N c'" and "l \<in> set (cluster_lbas v c')"
  shows "l \<noteq> fat_sector_of v c"
  using fat_sector_below_data [OF assms(1,2)] cluster_lbas_iff [OF assms(1,3)] assms(4)
  by (auto simp: clus_base_def)

subsection \<open>Mounting a formatted volume\<close>

text \<open>A little-endian number in a boot sector, and a boot sector of a FAT32 volume with the given numbers: bytes per sector,
  sectors per cluster, reserved sectors, tables, sectors per table, sectors in all and cluster of the root.\<close>

fun le_nat :: "u8 list \<Rightarrow> nat" where
  "le_nat [] = 0"
| "le_nat (b # bs) = unat b + 256 * le_nat bs"

definition boot_field :: "u8 list \<Rightarrow> nat \<Rightarrow> nat \<Rightarrow> nat" where
  "boot_field sec off k = le_nat (take k (drop off sec))"

definition fat32_format :: "u8 list \<Rightarrow> nat \<Rightarrow> nat \<Rightarrow> nat \<Rightarrow> nat \<Rightarrow> nat \<Rightarrow> nat \<Rightarrow> nat \<Rightarrow> bool" where
  "fat32_format sec n spc rsvd nf fsz tot root \<longleftrightarrow>
     length sec = 512 \<and> take 8 (drop 3 sec) \<noteq> cstr ''EXFAT   '' \<and> boot_field sec 11 2 = n \<and> boot_field sec 13 1 = spc \<and>
     boot_field sec 14 2 = rsvd \<and> boot_field sec 16 1 = nf \<and> boot_field sec 36 4 = fsz \<and>
     (if boot_field sec 32 4 \<noteq> 0 then boot_field sec 32 4 else boot_field sec 19 2) = tot \<and> boot_field sec 44 4 = root"

lemma unat_le_word: "8 * length bs \<le> LENGTH('a) \<Longrightarrow> unat (le_word bs :: 'a::len word) = le_nat bs \<and> le_nat bs < 2 ^ (8 * length bs)"
proof (induction bs)
  case (Cons b bs)
  then have ih: "unat (le_word bs :: 'a word) = le_nat bs" "le_nat bs < 2 ^ (8 * length bs)" by simp_all
  have lt: "unat b < 256" using unat_bound [of b] by simp
  have cap: "unat b + 256 * le_nat bs < 256 * 2 ^ (8 * length bs)" using lt ih(2) by linarith
  have "(2 :: nat) ^ (8 * length (b # bs)) \<le> 2 ^ LENGTH('a)" using Cons.prems by (intro power_increasing) simp_all
  moreover have "(2 :: nat) ^ (8 * length (b # bs)) = 256 * 2 ^ (8 * length bs)" by (simp add: power_add)
  ultimately have fit: "unat b + 256 * le_nat bs < 2 ^ LENGTH('a)" using cap by linarith
  have "8 \<le> LENGTH('a)" using Cons.prems by simp
  then have ub: "unat (ucast b :: 'a word) = unat b" by (simp add: unat_ucast_up)
  have o: "ucast b OR push_bit 8 (le_word bs) = (ucast b + push_bit 8 (le_word bs) :: 'a word)"
    by (rule disjunctive_add [symmetric]) (auto simp: bit_simps dest: bit_imp_le_length)
  have p: "push_bit 8 (le_word bs :: 'a word) = of_nat (256 * le_nat bs)"
    unfolding ih(1) [symmetric] by (simp add: push_bit_eq_mult mult.commute)
  have q: "(ucast b :: 'a word) = of_nat (unat b)" unfolding ub [symmetric] by simp
  have "le_word (b # bs) = (of_nat (unat b + 256 * le_nat bs) :: 'a word)"
    unfolding le_word.simps o unfolding p q by simp
  then have "unat (le_word (b # bs) :: 'a word) = unat b + 256 * le_nat bs" using fit by (simp only: unat_of_nat mod_less)
  then show ?case using cap by (simp add: power_add del: le_word.simps)
qed simp

lemma field_word:
  assumes "off + k \<le> length sec" and "8 * k \<le> LENGTH('a)"
  shows "ld_le k sec off = Inr (le_word (take k (drop off sec)) :: 'a::len word)"
    and "unat (le_word (take k (drop off sec)) :: 'a word) = boot_field sec off k"
  using assms unat_le_word [of "take k (drop off sec)", where 'a = 'a] by (simp_all add: ld_le_def boot_field_def)

lemma byte_field: "off < length sec \<Longrightarrow> ld8 sec off = Inr (sec ! off) \<and> unat (sec ! off) = boot_field sec off 1"
  by (simp add: ld8_def boot_field_def take_Suc_conv_app_nth hd_drop_conv_nth take_Suc)

lemma boot_sector_fields:
  assumes f: "fat32_format sec n spc rsvd nf fsz tot root"
  obtains b where "bpb_fat32_at sec = Inr b" "unat (bpb_bytes_per_sec b) = n" "unat (bpb_sec_per_clus b) = spc"
    "unat (bpb_rsvd_sec_cnt b) = rsvd" "unat (bpb_num_fats b) = nf" "unat (bpb_fat_sz32 b) = fsz" "unat (bpb_root_clus b) = root"
    "unat (if bpb_tot_sec32 b \<noteq> 0 then bpb_tot_sec32 b else ucast (bpb_tot_sec16 b)) = tot"
proof -
  have l: "length sec = 512" using f by (simp add: fat32_format_def)
  note w16 = field_word [where k = 2 and 'a = 16 and sec = sec] and w32 = field_word [where k = 4 and 'a = 32 and sec = sec]
  have z: "(le_word (take 4 (drop 32 sec)) :: u32) \<noteq> 0 \<longleftrightarrow> boot_field sec 32 4 \<noteq> 0"
    using w32(2) [of 32] l by (simp add: unat_eq_zero [symmetric])
  show thesis
    by (rule that, simp add: bpb_fat32_at_def w16(1) w32(1) byte_field l)
      (use f in \<open>auto simp: fat32_format_def w16(2) w32(2) byte_field [THEN conjunct2] z unat_ucast_up\<close>)
qed

text \<open>C30: mounting a formatted FAT32 volume. When the boot sector of the partition gives a sector size that holds whole table
  entries, non-empty clusters, at least one table with an entry for each of the clusters that the total
  leaves room for, and the partition lies below sector \<open>2 ^ 32\<close> of the device, \<open>fat32_mount\<close> returns 0, and the volume has
  the layout that the operations on files rely on: the table starts after the reserved sectors, the entry of each
  cluster lies inside the first table, the clusters lie behind all tables and inside the partition, and two clusters share
  no sector.\<close>

theorem mount_lays_out_volume:
  assumes disk: "rd d part 1 = Some sec" and f: "fat32_format sec n spc rsvd nf fsz tot root"
    and sec: "0 < n" "n \<le> MAX_SECTOR_SIZE" "4 dvd n" and pos: "0 < spc" "0 < nf"
    and N: "N = (tot - (rsvd + nf * fsz)) div spc" "rsvd + nf * fsz \<le> tot" "N + 2 \<le> 0x0FFFFFF8"
    and table: "4 * (N + 2) \<le> fsz * n" and cap: "unat part + tot \<le> cap" "cap \<le> 2 ^ 32"
  shows "\<exists>v'. fat32_mount v rd d part = Inr (0, v') \<and> fs_type v' = FAT_FS_FAT32 \<and> vol_layout v' n cap N \<and>
    unat (root_clus v') = root \<and> unat (tot_sec32 v') = tot \<and> unat (fat_lba v') = unat part + rsvd \<and>
    (\<forall>c. valid_clus N c \<longrightarrow> unat part + rsvd \<le> unat (fat_sector_of v' c) \<and> unat (fat_sector_of v' c) < unat part + rsvd + fsz \<and>
      (\<forall>l\<in>set (cluster_lbas v' c). unat part + rsvd + nf * fsz \<le> unat l \<and> unat l < unat part + tot) \<and>
      (\<forall>c'. valid_clus N c' \<and> c' \<noteq> c \<longrightarrow> set (cluster_lbas v' c) \<inter> set (cluster_lbas v' c') = {}))"
proof -
  obtain b where b: "bpb_fat32_at sec = Inr b" "unat (bpb_bytes_per_sec b) = n" "unat (bpb_sec_per_clus b) = spc"
    "unat (bpb_rsvd_sec_cnt b) = rsvd" "unat (bpb_num_fats b) = nf" "unat (bpb_fat_sz32 b) = fsz" "unat (bpb_root_clus b) = root"
    "unat (if bpb_tot_sec32 b \<noteq> 0 then bpb_tot_sec32 b else ucast (bpb_tot_sec16 b)) = tot"
    by (rule boot_sector_fields [OF f])
  have nz: "bpb_sec_per_clus b \<noteq> 0" "bpb_bytes_per_sec b \<noteq> 0" using b(2,3) pos(1) sec(1) by auto
  obtain v' where m: "mount_fat32 v part b = Inr (0, v')" using nz b(2) sec(2) by (simp add: mount_fat32_def Let_def)
  then have v': "fs_type v' = FAT_FS_FAT32" "bytes_per_sec v' = bpb_bytes_per_sec b" "sec_per_clus v' = bpb_sec_per_clus b"
    "root_clus v' = bpb_root_clus b" "tot_sec32 v' = (if bpb_tot_sec32 b \<noteq> 0 then bpb_tot_sec32 b else ucast (bpb_tot_sec16 b))"
    "fat_lba v' = part + ucast (bpb_rsvd_sec_cnt b)" "part_lba_start v' = part"
    "first_data_lba v' = ucast (bpb_rsvd_sec_cnt b) + ucast (bpb_num_fats b) * bpb_fat_sz32 b"
    using nz b(2) sec(2) by (auto simp: mount_fat32_def Let_def)
  have run: "fat32_mount v rd d part = Inr (0, v')"
    using disk f m b(1) by (simp add: fat32_mount_def read_sector_def fat32_format_def ld_bytes_def)
  have lt: "rsvd + nf * fsz < 2 ^ 32" "unat part + rsvd < 2 ^ 32"
  proof -
    have "0 < nf * fsz" using table pos(2) by (cases fsz) auto
    then show "unat part + rsvd < 2 ^ 32" using N(2) cap by linarith
    have "tot < 2 ^ 32"
      using unat_bound [of "if bpb_tot_sec32 b \<noteq> 0 then bpb_tot_sec32 b else ucast (bpb_tot_sec16 b)"] unfolding b(8) by simp
    then show "rsvd + nf * fsz < 2 ^ 32" using N(2) by linarith
  qed
  have fl: "unat (fat_lba v') = unat part + rsvd" using lt(2) b(4) by (simp add: v' unat_add_u32 unat_ucast_up)
  have "unat (ucast (bpb_num_fats b) * bpb_fat_sz32 b) = nf * fsz"
    using lt(1) b(5,6) by (simp add: unat_word_ariths unat_ucast_up)
  then have fd: "unat (first_data_lba v') = rsvd + nf * fsz" using lt(1) b(4) by (simp add: v' unat_add_u32 unat_ucast_up)
  have data: "N * spc \<le> tot - (rsvd + nf * fsz)" unfolding N(1) by (rule div_times_less_eq_dividend)
  have ent: "4 * c div n < fsz" if "c < N + 2" for c
  proof (rule less_mult_imp_div_less)
    have "4 * c < 4 * (N + 2)" using that by simp
    then show "4 * c < fsz * n" using table by (rule less_le_trans)
  qed
  have "fsz \<le> nf * fsz" using pos(2) by simp
  then have "4 * (N + 1) div n < nf * fsz" using ent [of "N + 1"] by linarith
  moreover have "unat part + (rsvd + nf * fsz) + N * spc \<le> cap" using data N(2) cap(1) by linarith
  ultimately have lay: "vol_layout v' n cap N"
    using fl fd b(2,3) sec pos N(3) cap(2) by (simp add: vol_layout_def sector_geometry_def v')
  have ds: "data_start v' = unat part + rsvd + nf * fsz" by (simp add: data_start_def fd v'(7))
  have "unat part + rsvd \<le> unat (fat_sector_of v' c) \<and> unat (fat_sector_of v' c) < unat part + rsvd + fsz \<and>
      (\<forall>l\<in>set (cluster_lbas v' c). unat part + rsvd + nf * fsz \<le> unat l \<and> unat l < unat part + tot)" if c: "valid_clus N c" for c
  proof (intro conjI ballI)
    have s: "unat (fat_sector_of v' c) = unat part + rsvd + (4 * unat c) div n"
      using fat_slot_sector [OF valid_clus_slot [OF lay c]] fl b(2) by (simp add: v')
    show "unat part + rsvd \<le> unat (fat_sector_of v' c)" using s by simp
    show "unat (fat_sector_of v' c) < unat part + rsvd + fsz" using s ent [of "unat c"] c by (simp add: valid_clus_def)
  next
    fix l
    assume l: "l \<in> set (cluster_lbas v' c)"
    have "(unat c - 2) * spc + spc = (unat c - 1) * spc" using c by (auto simp: valid_clus_def algebra_simps diff_mult_distrib)
    also have "\<dots> \<le> N * spc" using c by (intro mult_le_mono1) (auto simp: valid_clus_def)
    finally have e: "clus_base v' c + spc \<le> unat part + tot" using data N(2) ds b(3) by (simp add: clus_base_def v')
    have "clus_base v' c \<le> unat l" "unat l < clus_base v' c + spc" using l cluster_lbas_iff [OF lay c] b(3) by (simp_all add: v')
    with e show "unat part + rsvd + nf * fsz \<le> unat l" "unat l < unat part + tot" by (simp_all add: clus_base_def ds)
  qed
  moreover have "\<forall>c c'. valid_clus N c \<longrightarrow> valid_clus N c' \<and> c' \<noteq> c \<longrightarrow> set (cluster_lbas v' c) \<inter> set (cluster_lbas v' c') = {}"
    using cluster_lbas_disjoint [OF lay] by (metis (no_types))
  ultimately show ?thesis using run v'(1) lay fl b(7,8) by (intro exI [of _ v']) (simp add: v'(4,5))
qed

theorem mount_lays_out_volume_witness:
  "\<exists>v'. fat32_mount blank_vol (\<lambda>d l c. Some demo_boot_sector) () 63 = Inr (0, v') \<and> vol_layout v' 512 100 10 \<and> unat (root_clus v') = 2 \<and>
     unat (fat_lba v') = 65"
proof -
  have f: "fat32_format demo_boot_sector 512 1 2 1 2 14 2" by code_simp
  have n: "10 = (14 - (2 + 1 * 2)) div (1 :: nat)" by simp
  from mount_lays_out_volume [of "\<lambda>d l c. Some demo_boot_sector" "()" 63, OF refl f _ _ _ _ _ n, of 100 blank_vol]
  show ?thesis by auto
qed

subsection \<open>Writing one cluster\<close>

text \<open>
  One iteration of the sector loops of \<open>write_single_cluster\<close>, \<open>exfat_write_chain\<close>,
  \<open>fat32_create_file_root\<close> and \<open>fat32_write_file_root\<close>: the next \<open>sz\<close> bytes of the source, or
  what is left of it, padded with zeros. The state is the rest of the source, the count of bytes
  left and the device.
\<close>

definition put_file_sector ::
  "u32 \<Rightarrow> 'd disk_write_fn \<Rightarrow> u32 \<Rightarrow> u8 list \<times> u32 \<times> 'd \<Rightarrow> (u8 list \<times> u32 \<times> 'd, 'd) flow res" where
  "put_file_sector sz wr lba = (\<lambda>(src, left, d).
     let tk = (if left \<ge> sz then sz else left)
     in rbind (if tk \<noteq> 0
               then rbind (ld_bytes src 0 (unat tk)) (\<lambda>bs.
                      Inr (bs @ replicate (unat sz - unat tk) 0, drop (unat tk) src, left - tk))
               else Inr (replicate (unat sz) 0, src, left)) (\<lambda>(sec, src', left').
        rbind (wr d lba 1 sec) (\<lambda>(r, d').
          if r \<noteq> 0 then Inr (Return d') else Inr (Next (src', left', d')))))"

definition write_single_cluster ::
  "fat32_vol \<Rightarrow> 'd disk_read_fn \<Rightarrow> 'd disk_write_fn \<Rightarrow> 'd \<Rightarrow> u32 \<Rightarrow> u8 list \<Rightarrow> u32 \<Rightarrow> (int \<times> 'd) res" where
  "write_single_cluster v rd wr d clus data bytes =
     (if clus = 0 then Inr (-1, d) else
      let cluster_bytes = ucast (sec_per_clus v) * ucast (bytes_per_sec v);
          to_write = (if bytes < cluster_bytes then bytes else cluster_bytes)
      in rbind (for_loop (put_file_sector (ucast (bytes_per_sec v)) wr) (cluster_lbas v clus)
                  (data, to_write, d)) (\<lambda>fl. case fl of
           Return d' \<Rightarrow> Inr (-1, d')
         | Next (_, _, d') \<Rightarrow>
             rbind (fat_write_fat_entry v rd wr d' clus 0x0FFFFFFF) (\<lambda>(_, d''). Inr (0, d''))))"

text \<open>The contents of the sectors after the loop.\<close>

definition padded :: "nat \<Rightarrow> u8 list \<Rightarrow> u8 list" where
  "padded n bs = take n bs @ replicate (n - length bs) 0"

lemma length_padded [simp]: "length (padded n bs) = n"
  by (simp add: padded_def)

lemma padded_add: "padded (m + n) bs = padded m bs @ padded n (drop m bs)"
proof (cases "length bs \<le> m")
  case True
  then show ?thesis by (simp add: padded_def replicate_add [symmetric])
next
  case False
  then show ?thesis by (simp add: padded_def take_add)
qed

lemma padded_take: "padded n (take (min m n) bs) = padded n (take m bs)"
  by (auto simp: padded_def min_def)

lemma unat_cluster_bytes:
  "unat (ucast (sec_per_clus v) * ucast (bytes_per_sec v) :: u32)
     = unat (sec_per_clus v) * unat (bytes_per_sec v)"
proof -
  have "unat (sec_per_clus v) * unat (bytes_per_sec v) \<le> 255 * 65535"
    using unat_bound [of "sec_per_clus v"] unat_bound [of "bytes_per_sec v"]
    by (intro mult_le_mono) simp_all
  then show ?thesis by (simp add: unat_word_ariths)
qed

lemma put_file_sector_eq:
  assumes "unat left \<le> length src"
  shows "put_file_sector sz wr lba (src, left, d) =
    rbind (wr d lba 1 (padded (unat sz) (take (unat left) src))) (\<lambda>(r, d').
      if r \<noteq> 0 then Inr (Return d')
      else Inr (Next (drop (min (unat left) (unat sz)) src, left - min left sz, d')))"
proof -
  have mn: "(if sz \<le> left then sz else left) = min left sz" by (auto simp: min_def)
  have un: "unat (min left sz) = min (unat left) (unat sz)"
    by (auto simp: min_def word_le_nat_alt)
  show ?thesis
  proof (cases "min left sz = 0")
    case True
    then have z: "min (unat left) (unat sz) = 0" using un by simp
    then have "padded (unat sz) (take (unat left) src) = replicate (unat sz) 0"
      by (auto simp: padded_def min_def split: if_splits)
    then show ?thesis
      unfolding put_file_sector_def prod.case mn Let_def True z drop_0 diff_zero by simp
  next
    case False
    have "take (min (unat left) (unat sz)) src @ replicate (unat sz - min (unat left) (unat sz)) 0
        = padded (unat sz) (take (unat left) src)"
      using assms by (auto simp: padded_def min_def)
    moreover have "min (unat left) (unat sz) \<le> length src" using assms by simp
    ultimately show ?thesis
      using False by (simp add: put_file_sector_def mn un ld_bytes_def Let_def)
  qed
qed

context block_device
begin

lemma put_file_sector_step:
  assumes "unat sz = secsz" and "unat left \<le> length src"
    and "put_file_sector sz wr lba (src, left, d) = Inr (Next (src', left', d'))"
  shows "wr d lba 1 (padded secsz (take (unat left) src)) = Inr (0, d') \<and>
    src' = drop (min (unat left) secsz) src \<and> unat left' = unat left - secsz"
proof -
  have "unat (left - min left sz) = unat left - unat sz"
    by (subst unat_sub) (auto simp: min_def word_le_nat_alt)
  with assms(3) show ?thesis
    by (auto simp: put_file_sector_eq [OF assms(2)] assms(1) res_simps split: if_splits prod.splits)
qed

lemma put_file_loop:
  assumes "unat sz = secsz" and "for_loop (put_file_sector sz wr) lbas (src, left, d) = Inr (Next (src', left', d'))"
    and "ok d" and "unat left \<le> length src" and "distinct lbas" and "\<forall>l\<in>set lbas. unat l < cap"
  shows "ok d' \<and> sectors_data rd d' lbas = padded (length lbas * secsz) (take (unat left) src) \<and>
    (\<forall>l\<in>set lbas. readable secsz rd d' l) \<and>
    (\<forall>l. unat l < cap \<longrightarrow> l \<notin> set lbas \<longrightarrow> rd d' l 1 = rd d l 1)"
  using assms(2-6)
proof (induction lbas arbitrary: src left d)
  case Nil
  then show ?case by (simp add: sectors_data_def padded_def)
next
  case (Cons l lbas)
  from Cons.prems(1) obtain src1 left1 d1 where
    b: "put_file_sector sz wr l (src, left, d) = Inr (Next (src1, left1, d1))"
    and rest: "for_loop (put_file_sector sz wr) lbas (src1, left1, d1) = Inr (Next (src', left', d'))"
    by (auto simp: for_loop_Cons_Next simp del: for_loop.simps)
  from put_file_sector_step [OF assms(1) Cons.prems(3) b]
  have w: "wr d l 1 (padded secsz (take (unat left) src)) = Inr (0, d1)"
    and src1: "src1 = drop (min (unat left) secsz) src" and left1: "unat left1 = unat left - secsz" by auto
  have ok1: "ok d1" using wr_ok [OF Cons.prems(2) w] .
  have cap: "unat l < cap" using Cons.prems(5) by simp
  have "unat left1 \<le> length src1" using Cons.prems(3) src1 left1 by auto
  from Cons.IH [OF rest ok1 this] Cons.prems(4,5)
  have IH: "ok d'" "sectors_data rd d' lbas = padded (length lbas * secsz) (take (unat left1) src1)"
    "\<forall>l\<in>set lbas. readable secsz rd d' l"
    "\<forall>l. unat l < cap \<longrightarrow> l \<notin> set lbas \<longrightarrow> rd d' l 1 = rd d1 l 1" by auto
  have l': "rd d' l 1 = Some (padded secsz (take (unat left) src))"
    using IH(4) cap Cons.prems(4) wr_read [OF Cons.prems(2) cap w] by simp
  have "take (unat left1) src1 = drop secsz (take (unat left) src)"
    using src1 left1 by (cases "secsz \<le> unat left") (auto simp: drop_take min_def)
  then have "sectors_data rd d' (l # lbas) = padded (length (l # lbas) * secsz) (take (unat left) src)"
    using IH(2) l' by (simp add: sectors_data_def padded_add)
  moreover have "rd d' k 1 = rd d k 1" if "unat k < cap" "k \<notin> set (l # lbas)" for k
    using that IH(4) wr_frame [OF Cons.prems(2) cap that(1) _ w] by auto
  ultimately show ?case using IH(1,3) l' by (auto simp: readable_def)
qed

end

text \<open>
  On a reliable device the cluster write always succeeds, stores the data cut to one cluster,
  ends the chain there, and touches nothing else.
\<close>

context reliable_device
begin

lemma fat_write_succeeds:
  assumes "ok d" and "sector_geometry v secsz" and "fat_slot v cap clus"
  shows "\<exists>d'. fat_write_fat_entry v rd wr d clus val = Inr (0, d')"
proof -
  let ?s = "fat_sector_of v clus" and ?o = "fat_ent_off v clus"
  have cap: "unat ?s < cap" using fat_slot_in_cap [OF assms(3)] .
  obtain sec where sec: "rd d ?s 1 = Some sec" using rd_succeeds [OF assms(1) cap] by auto
  have len: "length sec = secsz" using rd_length [OF assms(1) sec] .
  have off: "?o + 4 \<le> length sec" using fat_ent_off_bound [OF assms(2,3)] len by simp
  then have "\<exists>d'. wr d ?s 1 (patch sec ?o (le_bytes 4 w)) = Inr (0, d')" for w :: u32
    using wr_succeeds [OF assms(1) cap, of "patch sec ?o (le_bytes 4 w)"] len by simp
  then obtain d' where "wr d ?s 1 (patch sec ?o (le_bytes 4 ((val AND 0x0FFFFFFF) OR
      (le_word (take 4 (drop ?o sec)) AND 0xF0000000)))) = Inr (0, d')" by blast
  then show ?thesis
    using off sec len assms(2)
    by (simp add: fat_write_fat_entry_eq [OF sector_geometry_nonzero [OF assms(2)]] read_sector_def
        ld_le_def store_def sector_geometry_def)
qed

lemma put_file_succeeds:
  assumes "unat sz = secsz" and "ok d" and "unat left \<le> length src" and "\<forall>l\<in>set lbas. unat l < cap"
  shows "\<exists>s. for_loop (put_file_sector sz wr) lbas (src, left, d) = Inr (Next s)"
  using assms(2-4)
proof (induction lbas arbitrary: src left d)
  case Nil
  then show ?case by simp
next
  case (Cons l lbas)
  have "\<exists>s. put_file_sector sz wr l (src, left, d) = Inr (Next s)"
  proof -
    define sec where "sec = padded secsz (take (unat left) src)"
    obtain d1 where "wr d l 1 sec = Inr (0, d1)"
      using wr_succeeds [OF Cons.prems(1), of l sec] Cons.prems(3) by (auto simp: sec_def)
    with Cons.prems(2) assms(1) show ?thesis
      by (auto simp: put_file_sector_eq sec_def)
  qed
  then obtain src1 left1 d1 where b: "put_file_sector sz wr l (src, left, d) = Inr (Next (src1, left1, d1))"
    by auto
  from put_file_sector_step [OF assms(1) Cons.prems(2) b]
  have w: "wr d l 1 (padded secsz (take (unat left) src)) = Inr (0, d1)"
    and "unat left1 \<le> length src1" using Cons.prems(2) by auto
  with Cons.IH [of d1 left1 src1] wr_ok [OF Cons.prems(1) w] Cons.prems(3) b show ?case by auto
qed

lemma write_single_cluster_spec:
  assumes ok: "ok d" and l: "vol_layout v secsz cap N" and c: "valid_clus N clus"
    and len: "min (unat bytes) (unat (sec_per_clus v) * secsz) \<le> length data"
  obtains d' where "write_single_cluster v rd wr d clus data bytes = Inr (0, d')" and "ok d'"
    and "sectors_data rd d' (cluster_lbas v clus) =
           padded (unat (sec_per_clus v) * secsz) (take (unat bytes) data)"
    and "\<forall>l\<in>set (cluster_lbas v clus). readable secsz rd d' l"
    and "\<forall>c. valid_clus N c \<longrightarrow> fat_read_fat_entry v rd d' c =
           (if c = clus then Inr 0x0FFFFFFF else fat_read_fat_entry v rd d c)"
    and "\<forall>l. unat l < cap \<longrightarrow> l \<notin> set (cluster_lbas v clus) \<longrightarrow> l \<noteq> fat_sector_of v clus \<longrightarrow>
           rd d' l 1 = rd d l 1"
proof -
  let ?B = "unat (sec_per_clus v) * secsz" and ?ls = "cluster_lbas v clus"
  note g = vol_layout_geometry [OF l] and sl = valid_clus_slot [OF l]
  define tw where "tw = (if bytes < ucast (sec_per_clus v) * ucast (bytes_per_sec v) then bytes
    else ucast (sec_per_clus v) * ucast (bytes_per_sec v) :: u32)"
  have tw: "unat tw = min (unat bytes) ?B"
    using g unat_cluster_bytes [of v]
    by (auto simp: tw_def sector_geometry_def word_less_nat_alt)
  have sz: "unat (ucast (bytes_per_sec v) :: u32) = secsz" using g by (simp add: sector_geometry_def)
  have inc: "\<forall>l\<in>set ?ls. unat l < cap" using cluster_lbas_in_cap [OF l c] by simp
  obtain src1 left1 d1 where
    loop: "for_loop (put_file_sector (ucast (bytes_per_sec v)) wr) ?ls (data, tw, d) = Inr (Next (src1, left1, d1))"
    using put_file_succeeds [OF sz ok _ inc, of tw data] len tw by auto
  from put_file_loop [OF sz loop ok _ distinct_cluster_lbas [OF l c] inc] len tw
  have 1: "ok d1" "sectors_data rd d1 ?ls = padded (length ?ls * secsz) (take (unat tw) data)"
    "\<forall>l\<in>set ?ls. readable secsz rd d1 l"
    "\<forall>l. unat l < cap \<longrightarrow> l \<notin> set ?ls \<longrightarrow> rd d1 l 1 = rd d l 1" by auto
  obtain d' where w: "fat_write_fat_entry v rd wr d1 clus 0x0FFFFFFF = Inr (0, d')"
    using fat_write_succeeds [OF 1(1) g sl [OF c]] by auto
  note frame = fat_write_frame [OF 1(1) g sl [OF c] w]
  have keep: "rd d' l 1 = rd d1 l 1" if "l \<in> set ?ls" for l
    using frame [of l] inc that fat_sector_not_data [OF l c c that] by auto
  have nz: "clus \<noteq> 0" using c by (auto simp: valid_clus_def)
  show ?thesis
  proof (rule that)
    show "write_single_cluster v rd wr d clus data bytes = Inr (0, d')"
      using nz loop w by (simp add: write_single_cluster_def tw_def [symmetric] Let_def)
    show "ok d'" using fat_write_ok [OF 1(1) g sl [OF c] w] .
    have "sectors_data rd d' ?ls = sectors_data rd d1 ?ls"
      using keep by (simp add: sectors_data_def cong: map_cong)
    also have "\<dots> = padded ?B (take (unat bytes) data)"
      using 1(2) tw by (simp add: cluster_lbas_def padded_take)
    finally show "sectors_data rd d' ?ls = padded ?B (take (unat bytes) data)" .
    show "\<forall>l\<in>set ?ls. readable secsz rd d' l" using 1(3) keep by (simp add: readable_def)
    show "\<forall>c. valid_clus N c \<longrightarrow> fat_read_fat_entry v rd d' c =
           (if c = clus then Inr 0x0FFFFFFF else fat_read_fat_entry v rd d c)"
    proof (intro allI impI)
      fix c' assume c': "valid_clus N c'"
      have "fat_sector_of v c' \<notin> set ?ls" using fat_sector_not_data [OF l c' c] by auto
      then have "fat_read_fat_entry v rd d1 c' = fat_read_fat_entry v rd d c'"
        using 1(4) fat_slot_in_cap [OF sl [OF c']]
        by (simp add: fat_read_fat_entry_eq [OF sector_geometry_nonzero [OF g]] read_sector_def)
      then show "fat_read_fat_entry v rd d' c' =
           (if c' = clus then Inr 0x0FFFFFFF else fat_read_fat_entry v rd d c')"
        using fat_write_read [OF 1(1) g sl [OF c] w sl [OF c']] by simp
    qed
    show "\<forall>l. unat l < cap \<longrightarrow> l \<notin> set ?ls \<longrightarrow> l \<noteq> fat_sector_of v clus \<longrightarrow> rd d' l 1 = rd d l 1"
      using frame 1(4) by simp
  qed
qed

text \<open>A file of one cluster: its chain ends after the cluster, which holds the data.\<close>

lemma read_single_cluster:
  assumes l: "vol_layout v secsz cap N" and c: "valid_clus N clus"
    and dat: "sectors_data rd d (cluster_lbas v clus) = padded (unat (sec_per_clus v) * secsz) (take (unat bytes) data)"
    and rdb: "\<forall>l\<in>set (cluster_lbas v clus). readable secsz rd d l"
    and eoc: "fat_read_fat_entry v rd d clus = Inr 0x0FFFFFFF"
    and len: "min (unat bytes) (unat (sec_per_clus v) * secsz) \<le> length data"
    and n: "unat n = min (unat bytes) (unat (sec_per_clus v) * secsz)"
    and mx: "n \<le> mx" and fuel: "2 \<le> fuel"
  shows "read_file_from_cluster fuel v rd d clus n mx = Inr (0, take (unat n) data, n)"
proof -
  have "fat_chain v rd d clus [clus]"
  proof (rule chain_link)
    show "\<not> is_end_cluster clus"
      using c l by (auto simp: is_end_cluster_def word_le_nat_alt valid_clus_def vol_layout_def)
    show "fat_read_fat_entry v rd d clus = Inr 0x0FFFFFFF" using eoc .
    show "fat_chain v rd d 0x0FFFFFFF []" by (rule chain_end) (simp add: is_end_cluster_def)
  qed
  moreover have "clus \<noteq> 0" using c by (auto simp: valid_clus_def)
  moreover have "unat (bytes_per_sec v) = secsz" "secsz \<le> MAX_SECTOR_SIZE"
    using l by (auto simp: vol_layout_def sector_geometry_def)
  ultimately have "read_file_from_cluster fuel v rd d clus n mx =
     Inr (0, take (unat (min n mx)) (chain_data v rd d [clus]), min n mx)"
    using rdb fuel by (intro read_file_chain) auto
  moreover have "take (unat n) (padded (unat (sec_per_clus v) * secsz) (take (unat bytes) data)) = take (unat n) data"
    using n len by (auto simp: padded_def min_def)
  ultimately show ?thesis
    using mx dat by (simp add: chain_data_def min_absorb1)
qed

text \<open>What was written to a cluster is read back from it.\<close>

lemma write_read_cluster:
  assumes ok: "ok d" and l: "vol_layout v secsz cap N" and c: "valid_clus N clus"
    and len: "min (unat bytes) (unat (sec_per_clus v) * secsz) \<le> length data"
    and n: "unat n = min (unat bytes) (unat (sec_per_clus v) * secsz)"
    and mx: "n \<le> mx" and fuel: "2 \<le> fuel"
  shows "\<exists>d'. write_single_cluster v rd wr d clus data bytes = Inr (0, d') \<and>
     read_file_from_cluster fuel v rd d' clus n mx = Inr (0, take (unat n) data, n)"
proof (rule write_single_cluster_spec [OF ok l c len], goal_cases)
  case (1 d')
  from 1(5) c have "fat_read_fat_entry v rd d' clus = Inr 0x0FFFFFFF" by simp
  with 1 read_single_cluster [OF l c 1(3,4) _ len n mx fuel] show ?case by blast
qed

end

end
