(* ===== verification/Fat_Names.thy ===== *)
theory Fat_Names
  imports Kernel_Prelude
begin

text \<open>
  File names and paths of \<open>src/kernel/fs_fat32.c\<close>: 8.3 names, their dotted form, and the
  splitting of paths into components. A C string is the list of its bytes before the
  terminator, a pointer into it the rest of the list.
\<close>

subsection \<open>8.3 names\<close>

definition upcase :: "u8 \<Rightarrow> u8" where
  "upcase c = (if 97 \<le> c \<and> c \<le> 122 then c - 32 else c)"

text \<open>\<open>while (s[j] && s[j] != '.' && i < n)\<close>: the characters consumed and the rest.\<close>

fun base_part :: "nat \<Rightarrow> u8 list \<Rightarrow> u8 list \<times> u8 list" where
  "base_part 0 s = ([], s)"
| "base_part (Suc n) [] = ([], [])"
| "base_part (Suc n) (c # cs) =
     (if c = 46 then ([], c # cs) else (let (b, r) = base_part n cs in (c # b, r)))"

fun skip_dot :: "u8 list \<Rightarrow> u8 list" where
  "skip_dot [] = []"
| "skip_dot (c # cs) = (if c = 46 then cs else c # cs)"

definition name11 :: "u8 list \<Rightarrow> u8 list \<Rightarrow> u8 list" where
  "name11 b e = b @ replicate (8 - length b) 32 @ e @ replicate (3 - length e) 32"

definition make_name83 :: "u8 list \<Rightarrow> u8 list" where
  "make_name83 s = (let (b, r) = base_part 8 s in name11 (map upcase b) (map upcase (take 3 (skip_dot r))))"

definition match_name83 :: "u8 list \<Rightarrow> u8 list \<Rightarrow> bool" where
  "match_name83 ent11 q = (let (b, r) = base_part 8 q in ent11 = name11 b (take 3 (skip_dot r)))"

fun match_name11_loop :: "nat \<Rightarrow> u8 list \<Rightarrow> u8 list \<Rightarrow> bool" where
  "match_name11_loop 0 xs ys = True"
| "match_name11_loop (Suc n) (x # xs) (y # ys) = (if x \<noteq> y then False else match_name11_loop n xs ys)"
| "match_name11_loop (Suc n) xs ys = (xs = ys)"

definition match_name11 :: "u8 list \<Rightarrow> u8 list \<Rightarrow> bool" where
  "match_name11 = match_name11_loop 11"

text \<open>The name shown by the directory listings: trailing spaces cut, base and extension joined
  by a dot, at most 12 characters.\<close>

definition trim_spaces :: "u8 list \<Rightarrow> u8 list" where
  "trim_spaces s = rev (dropWhile (\<lambda>c. c = 32) (rev s))"

definition dotted_name :: "u8 list \<Rightarrow> u8 list" where
  "dotted_name nm =
     (let base = takeWhile (\<lambda>c. c \<noteq> 0) (trim_spaces (take 8 nm));
          ext = takeWhile (\<lambda>c. c \<noteq> 0) (trim_spaces (take 3 (drop 8 nm)))
      in take 12 (base @ (if ext \<noteq> [] then 46 # ext else [])))"

subsection \<open>Paths\<close>

definition next_path_component :: "u8 list \<Rightarrow> (u8 list \<times> u8 list) option" where
  "next_path_component p =
     (let q = dropWhile (\<lambda>c. c = 47) p
      in if q = [] then None
         else Some (take 12 (takeWhile (\<lambda>c. c \<noteq> 47) q), dropWhile (\<lambda>c. c \<noteq> 47) q))"

definition get_component :: "nat \<Rightarrow> u8 list \<Rightarrow> (u8 list \<times> u8 list) option" where
  "get_component outsz p =
     (let q = dropWhile (\<lambda>c. c = 47) p
      in if q = [] then None
         else Some (take (outsz - 1) (takeWhile (\<lambda>c. c \<noteq> 47) q), dropWhile (\<lambda>c. c \<noteq> 47) q))"

definition skip_drive_prefix :: "u8 list \<Rightarrow> u8 list" where
  "skip_drive_prefix path =
     (let p = (case path of c0 # c1 # cs \<Rightarrow> if c1 = 58 then cs else path | _ \<Rightarrow> path)
      in dropWhile (\<lambda>c. c = 47) p)"

definition path_has_more :: "u8 list \<Rightarrow> bool" where
  "path_has_more p \<longleftrightarrow> dropWhile (\<lambda>c. c = 47) p \<noteq> []"

lemma next_path_component_eq: "next_path_component = get_component 13"
  by (simp add: fun_eq_iff next_path_component_def get_component_def Let_def)

lemma get_component_shorter:
  assumes "get_component n p = Some (c, r)"
  shows "length r < length p"
proof -
  define q where "q = dropWhile (\<lambda>c. c = 47) p"
  from assms have q: "q \<noteq> []" and r: "r = dropWhile (\<lambda>c. c \<noteq> 47) q"
    by (auto simp: get_component_def q_def Let_def split: if_splits)
  have "hd q \<noteq> 47" using q hd_dropWhile [of "\<lambda>c. c = 47" p] by (simp add: q_def)
  with q have "r = dropWhile (\<lambda>c. c \<noteq> 47) (tl q)" by (cases q) (auto simp: r)
  then have "length r \<le> length (tl q)" by (simp only: length_dropWhile_le)
  moreover have "length (tl q) < length q" using q by simp
  moreover have "length q \<le> length p" by (simp add: q_def length_dropWhile_le)
  ultimately show ?thesis by linarith
qed

text \<open>
  \<open>while (get_component(&p, comp, outsz)) { \<dots> path_has_more(p) \<dots> }\<close>: the loop bodies never
  change \<open>p\<close> themselves, so a run of such a loop is a run over this list of components, each
  with the value \<open>path_has_more\<close> has after it.
\<close>

function path_steps :: "nat \<Rightarrow> u8 list \<Rightarrow> (u8 list \<times> bool) list" where
  "path_steps outsz p =
     (case get_component outsz p of
        None \<Rightarrow> []
      | Some (c, rest) \<Rightarrow> (c, path_has_more rest) # path_steps outsz rest)"
  by pat_completeness auto
termination
  by (relation "measure (\<lambda>(n, p). length p)") (auto dest: get_component_shorter)

declare path_steps.simps [simp del]

subsection \<open>Facts about names\<close>

lemma upcase_idem [simp]: "upcase (upcase c) = upcase c"
proof (cases "97 \<le> c \<and> c \<le> 122")
  case True
  then have "unat (c - 32) = unat c - 32"
    by (subst unat_sub) (auto simp: word_le_nat_alt)
  with True have "\<not> 97 \<le> c - 32" by (auto simp: word_le_nat_alt)
  with True show ?thesis by (simp add: upcase_def)
qed (auto simp: upcase_def)

lemma upcase_eq_iff [simp]: "upcase c = 46 \<longleftrightarrow> c = 46" "upcase c = 32 \<longleftrightarrow> c = 32" "upcase c = 0 \<longleftrightarrow> c = 0"
proof -
  have "upcase c = x \<longleftrightarrow> c = x" if "x < 65" for x
  proof (cases "97 \<le> c \<and> c \<le> 122")
    case True
    then have "unat (c - 32) = unat c - 32"
      by (subst unat_sub) (auto simp: word_le_nat_alt)
    with True that have "c - 32 \<noteq> x" and "c \<noteq> x" by (auto simp: word_le_nat_alt word_less_nat_alt)
    with True show ?thesis by (simp add: upcase_def)
  qed (auto simp: upcase_def)
  then show "upcase c = 46 \<longleftrightarrow> c = 46" "upcase c = 32 \<longleftrightarrow> c = 32" "upcase c = 0 \<longleftrightarrow> c = 0"
    by simp_all
qed

lemma upcase_image [simp]: "46 \<in> upcase ` A \<longleftrightarrow> 46 \<in> A" "0 \<in> upcase ` A \<longleftrightarrow> 0 \<in> A"
  by (metis image_iff upcase_eq_iff(1)) (metis image_iff upcase_eq_iff(3))

lemma base_part_spec:
  "base_part n s = (b, r) \<Longrightarrow> s = b @ r \<and> length b \<le> n \<and> 46 \<notin> set b \<and>
     (length b < n \<longrightarrow> r = [] \<or> hd r = 46)"
  by (induction n s arbitrary: b r rule: base_part.induct) (auto split: if_splits prod.splits)

lemma base_part_append:
  "46 \<notin> set b \<Longrightarrow> length b \<le> n \<Longrightarrow> (length b < n \<longrightarrow> r = [] \<or> hd r = 46) \<Longrightarrow>
     base_part n (b @ r) = (b, r)"
proof (induction b arbitrary: n)
  case Nil
  then show ?case by (cases n; cases r) auto
next
  case (Cons c b)
  then show ?case by (cases n) auto
qed

lemma length_name11 [simp]: "length b \<le> 8 \<Longrightarrow> length e \<le> 3 \<Longrightarrow> length (name11 b e) = 11"
  by (simp add: name11_def)

lemma length_make_name83 [simp]: "length (make_name83 s) = 11"
proof -
  obtain b r where br: "base_part 8 s = (b, r)" by (cases "base_part 8 s")
  from base_part_spec [OF br] br show ?thesis by (simp add: make_name83_def)
qed

lemma match_name11_iff: "length xs = 11 \<Longrightarrow> length ys = 11 \<Longrightarrow> match_name11 xs ys \<longleftrightarrow> xs = ys"
proof -
  have "match_name11_loop n xs ys \<longleftrightarrow> xs = ys" if "length xs = n" "length ys = n" for n xs ys
    using that by (induction n xs ys rule: match_name11_loop.induct) auto
  then show "length xs = 11 \<Longrightarrow> length ys = 11 \<Longrightarrow> ?thesis" by (simp add: match_name11_def)
qed

text \<open>A query without lower-case letters matches exactly the entry its path form names.\<close>

lemma match_name83_make: "map upcase q = q \<Longrightarrow> match_name83 ent q \<longleftrightarrow> ent = make_name83 q"
proof -
  assume up: "map upcase q = q"
  obtain b r where br: "base_part 8 q = (b, r)" by (cases "base_part 8 q")
  then have q: "q = b @ r" using base_part_spec by blast
  have "map upcase b @ map upcase r = b @ r" using up q by simp
  then have b: "map upcase b = b" and r: "map upcase r = r" by simp_all
  have "map upcase (take 3 (skip_dot r)) = take 3 (skip_dot r)"
    using r by (cases r) (auto simp: take_map [symmetric])
  with br b show ?thesis by (simp add: match_name83_def make_name83_def)
qed

lemma trim_replicate: "trim_spaces (s @ replicate k 32) = trim_spaces s"
  unfolding trim_spaces_def rev_append rev_replicate by (subst dropWhile_append2) auto

lemma trim_prefix: "\<exists>k. s = trim_spaces s @ replicate k 32"
proof -
  have "rev s = takeWhile (\<lambda>c. c = 32) (rev s) @ dropWhile (\<lambda>c. c = 32) (rev s)" by simp
  then have "s = trim_spaces s @ rev (takeWhile (\<lambda>c. c = 32) (rev s))"
    by (metis rev_append rev_rev_ident trim_spaces_def)
  moreover have "takeWhile (\<lambda>c. c = 32) (rev s) = replicate (length (takeWhile (\<lambda>c. c = 32) (rev s))) 32"
    by (rule replicate_eqI) (auto dest: set_takeWhileD)
  ultimately show ?thesis by (metis rev_replicate)
qed

text \<open>The listed form of an entry leads back to the entry.\<close>

lemma dotted_name_roundtrip:
  assumes "0 \<notin> set s"
  shows "make_name83 (dotted_name (make_name83 s)) = make_name83 s"
proof -
  obtain b r where br: "base_part 8 s = (b, r)" by (cases "base_part 8 s")
  note spec = base_part_spec [OF br]
  define B where "B = map upcase b"
  define E where "E = map upcase (take 3 (skip_dot r))"
  have mk: "make_name83 s = name11 B E" by (simp add: make_name83_def br B_def E_def)
  have lB: "length B \<le> 8" and lE: "length E \<le> 3" using spec by (simp_all add: B_def E_def)
  have dB: "46 \<notin> set B" using spec by (auto simp: B_def)
  have "set (skip_dot r) \<subseteq> set r" by (cases r) auto
  then have zB: "0 \<notin> set B" and zE: "0 \<notin> set E"
    using assms spec by (auto simp: B_def E_def dest: in_set_takeD)
  obtain k where k: "B = trim_spaces B @ replicate k 32" using trim_prefix by blast
  obtain m where m: "E = trim_spaces E @ replicate m 32" using trim_prefix by blast
  define b' where "b' = trim_spaces B"
  define e' where "e' = trim_spaces E"
  have up: "map upcase b' = b'" "map upcase e' = e'"
  proof -
    have "map upcase B = B" "map upcase E = E" by (simp_all add: B_def E_def)
    then have "map upcase (b' @ replicate k 32) = b' @ replicate k 32"
      "map upcase (e' @ replicate m 32) = e' @ replicate m 32" using k m by (simp_all add: b'_def e'_def)
    then show "map upcase b' = b'" "map upcase e' = e'" by simp_all
  qed
  have nz: "takeWhile (\<lambda>c. c \<noteq> 0) b' = b'" "takeWhile (\<lambda>c. c \<noteq> 0) e' = e'"
    using zB zE k m by (auto simp: b'_def e'_def takeWhile_eq_all_conv) (metis Un_iff set_append)+
  have len: "length b' \<le> 8" "length e' \<le> 3" "46 \<notin> set b'"
    using lB lE dB k m unfolding b'_def e'_def
    by (metis add_leD1 length_append, metis add_leD1 length_append, metis Un_iff set_append)
  have t8: "take 8 (name11 B E) = B @ replicate (8 - length B) 32"
    and t3: "take 3 (drop 8 (name11 B E)) = E @ replicate (3 - length E) 32"
    using lB lE by (simp_all add: name11_def)
  have dot: "dotted_name (name11 B E) = b' @ (if e' \<noteq> [] then 46 # e' else [])"
    using len by (auto simp: dotted_name_def t8 t3 trim_replicate b'_def [symmetric] e'_def [symmetric] nz)
  have "base_part 8 (b' @ (if e' \<noteq> [] then 46 # e' else [])) = (b', if e' \<noteq> [] then 46 # e' else [])"
    by (rule base_part_append) (use len in auto)
  then have "make_name83 (dotted_name (name11 B E)) = name11 b' e'"
    using len up by (simp add: make_name83_def dot)
  also have "\<dots> = name11 B E"
  proof -
    have "length B = length b' + k" "length E = length e' + m"
      using arg_cong [OF k, of length] arg_cong [OF m, of length] by (simp_all add: b'_def e'_def)
    then have kb: "8 - length b' = k + (8 - length B)" and me: "3 - length e' = m + (3 - length E)"
      using lB lE by simp_all
    have kb': "B = b' @ replicate k 32" and me': "E = e' @ replicate m 32"
      using k m by (simp_all add: b'_def e'_def)
    show ?thesis
      unfolding name11_def kb me replicate_add append_assoc by (metis append_assoc kb' me')
  qed
  finally show ?thesis by (simp add: mk)
qed

subsection \<open>Facts about paths\<close>

lemma path_steps_Nil: "path_steps n [] = []"
  by (simp add: path_steps.simps [of n "[]"] get_component_def)

lemma path_steps_slash: "path_steps n (47 # p) = path_steps n p"
  by (subst path_steps.simps, subst path_steps.simps [of n p]) (simp add: get_component_def)

lemma path_steps_component:
  assumes "c \<noteq> []" and "47 \<notin> set c" and "length c < n" and "rest = [] \<or> hd rest = 47"
  shows "path_steps n (c @ rest) = (c, path_has_more rest) # path_steps n rest"
proof -
  have "dropWhile (\<lambda>x. x = 47) (c @ rest) = c @ rest" using assms by (cases c) auto
  moreover have "takeWhile (\<lambda>x. x \<noteq> 47) (c @ rest) = c \<and> dropWhile (\<lambda>x. x \<noteq> 47) (c @ rest) = rest"
  proof (cases rest)
    case (Cons x xs)
    with assms show ?thesis by (auto simp: takeWhile_append dropWhile_append)
  qed (use assms in auto)
  ultimately have "get_component n (c @ rest) = Some (c, rest)"
    using assms by (simp add: get_component_def)
  then show ?thesis by (simp add: path_steps.simps [of n "c @ rest"])
qed

text \<open>Putting components together to a path.\<close>

definition join_path :: "u8 list list \<Rightarrow> u8 list" where
  "join_path cs = concat (map (\<lambda>c. 47 # c) cs)"

lemma join_path_more: "\<forall>c\<in>set cs. c \<noteq> [] \<and> 47 \<notin> set c \<Longrightarrow> path_has_more (join_path cs) \<longleftrightarrow> cs \<noteq> []"
proof (cases cs)
  case (Cons c cs')
  assume "\<forall>c\<in>set cs. c \<noteq> [] \<and> 47 \<notin> set c"
  with Cons show ?thesis by (cases c) (auto simp: path_has_more_def join_path_def)
qed (simp add: path_has_more_def join_path_def)

lemma path_steps_join_all:
  assumes "\<forall>c\<in>set cs. c \<noteq> [] \<and> 47 \<notin> set c \<and> length c < n"
  shows "path_steps n (join_path cs) = (if cs = [] then [] else map (\<lambda>c. (c, True)) (butlast cs) @ [(last cs, False)])"
  using assms
proof (induction cs)
  case Nil
  then show ?case by (simp add: join_path_def path_steps_Nil)
next
  case (Cons c cs)
  have j: "join_path (c # cs) = 47 # (c @ join_path cs)" by (simp add: join_path_def)
  have "join_path cs = [] \<or> hd (join_path cs) = 47" by (cases cs) (simp_all add: join_path_def)
  then have "path_steps n (join_path (c # cs)) = (c, cs \<noteq> []) # path_steps n (join_path cs)"
    using Cons.prems join_path_more [of cs] by (simp add: j path_steps_slash path_steps_component)
  with Cons show ?case by simp
qed

text \<open>splitting undoes joining. A path built from non-empty components of at most 12 characters
  without slashes is split into exactly these components, and only the last one is seen as the end
  of the path.\<close>

theorem path_steps_join:
  assumes "cs \<noteq> []" and "\<forall>c\<in>set cs. c \<noteq> [] \<and> 47 \<notin> set c \<and> length c < 13"
  shows "path_steps 13 (skip_drive_prefix (67 # 58 # join_path cs)) =
    map (\<lambda>c. (c, True)) (butlast cs) @ [(last cs, False)]"
proof -
  obtain c cs' where cs: "cs = c # cs'" using assms(1) by (cases cs) auto
  then have "dropWhile (\<lambda>x. x = 47) (join_path cs) = c @ join_path cs'"
    using assms(2) by (cases c) (auto simp: join_path_def)
  then have "path_steps 13 (skip_drive_prefix (67 # 58 # join_path cs)) = path_steps 13 (join_path cs)"
    by (simp add: skip_drive_prefix_def) (simp add: cs join_path_def path_steps_slash)
  then show ?thesis using path_steps_join_all [OF assms(2)] assms(1) by simp
qed

theorem path_steps_join_witness:
  "path_steps 13 (skip_drive_prefix (67 # 58 # join_path [cstr ''USERS'', cstr ''A.TXT''])) =
    [(cstr ''USERS'', True), (cstr ''A.TXT'', False)]"
  using path_steps_join [of "[cstr ''USERS'', cstr ''A.TXT'']"] by (simp add: cstr_def)

text \<open>the name a listing shows for an entry made from a name without zero bytes leads back to
  the same entry.\<close>

theorem listed_name_finds_entry:
  assumes "0 \<notin> set s"
  shows "make_name83 (dotted_name (make_name83 s)) = make_name83 s"
  using assms by (rule dotted_name_roundtrip)

theorem listed_name_finds_entry_witness:
  "make_name83 (dotted_name (make_name83 (cstr ''readme.md''))) = make_name83 (cstr ''readme.md'')"
  using listed_name_finds_entry [of "cstr ''readme.md''"] by (simp add: cstr_def)

text \<open>the two ways of comparing names agree: for a query without lower-case letters,
  \<open>match_name83\<close> accepts an entry exactly when it is the entry that \<open>make_name83\<close> builds for the
  query.\<close>

theorem match_name83_agrees:
  assumes "map upcase q = q"
  shows "match_name83 ent q \<longleftrightarrow> ent = make_name83 q"
  using assms by (rule match_name83_make)

theorem match_name83_agrees_witness:
  "match_name83 (make_name83 (cstr ''WALL.BMP'')) (cstr ''WALL.BMP'')"
proof -
  have "map upcase (cstr ''WALL.BMP'') = cstr ''WALL.BMP''" by code_simp
  from match_name83_agrees [OF this] show ?thesis by simp
qed

text \<open>A base name of more than eight characters runs over into the extension.\<close>

lemma long_base_in_extension: "make_name83 (cstr ''longname1.txt'') = cstr ''LONGNAME1.T''"
  by code_simp

end
