(* ===== verification/Fat_Dir.thy ===== *)
theory Fat_Dir
  imports Fat_Layout Fat_Names
begin

text \<open>
  Directories of FAT32 volumes, \<open>src/kernel/fs_fat32.c\<close>: searching a directory for a name or
  for a free slot, creating entries and sub-directories, and the operations on files of the root
  directory. Pointers passed to these functions are taken to be valid; the tests for null
  pointers have no counterpart here.
\<close>

subsection \<open>Directory entries\<close>

record dirent_t =
  de_name :: "u8 list"
  de_attr :: u8
  de_ntres :: u8
  de_crt_time_tenth :: u8
  de_crt_time :: u16
  de_crt_date :: u16
  de_lst_acc_date :: u16
  de_fst_clus_hi :: u16
  de_wrt_time :: u16
  de_wrt_date :: u16
  de_fst_clus_lo :: u16
  de_file_size :: u32

abbreviation ATTR_LONG_NAME :: u8 where "ATTR_LONG_NAME \<equiv> 0x0F"
abbreviation ATTR_DIR :: u8 where "ATTR_DIR \<equiv> 0x10"
abbreviation ATTR_ARCHIVE :: u8 where "ATTR_ARCHIVE \<equiv> 0x20"

definition dirent_of :: "u8 list \<Rightarrow> dirent_t" where
  "dirent_of bs =
     \<lparr>de_name = take 11 bs, de_attr = bs ! 11, de_ntres = bs ! 12, de_crt_time_tenth = bs ! 13,
      de_crt_time = le_word (take 2 (drop 14 bs)), de_crt_date = le_word (take 2 (drop 16 bs)),
      de_lst_acc_date = le_word (take 2 (drop 18 bs)), de_fst_clus_hi = le_word (take 2 (drop 20 bs)),
      de_wrt_time = le_word (take 2 (drop 22 bs)), de_wrt_date = le_word (take 2 (drop 24 bs)),
      de_fst_clus_lo = le_word (take 2 (drop 26 bs)), de_file_size = le_word (take 4 (drop 28 bs))\<rparr>"

definition dirent_at :: "u8 list \<Rightarrow> nat \<Rightarrow> dirent_t res" where
  "dirent_at sec off = rbind (ld_bytes sec off 32) (\<lambda>bs. Inr (dirent_of bs))"

definition dirent_start_cluster :: "dirent_t \<Rightarrow> u32" where
  "dirent_start_cluster de = push_bit 16 (ucast (de_fst_clus_hi de)) OR ucast (de_fst_clus_lo de)"

text \<open>A short entry as the code builds it: zeroed, then name, attribute, cluster and size.\<close>

definition dirent_bytes :: "u8 list \<Rightarrow> u8 \<Rightarrow> u32 \<Rightarrow> u32 \<Rightarrow> u8 list" where
  "dirent_bytes nm attr cl sz =
     nm @ [attr] @ replicate 8 0 @ le_bytes 2 (ucast (drop_bit 16 cl) :: u16) @ replicate 4 0
     @ le_bytes 2 (ucast cl :: u16) @ le_bytes 4 sz"

subsection \<open>Walking a directory\<close>

text \<open>
  The loops every search shares: the sectors of a cluster (read into an array of \<open>bufcap\<close> bytes),
  and in each sector the offsets of its entries below \<open>lim\<close>. \<open>err\<close> is what a failed read
  returns.
\<close>

definition dir_sectors ::
  "nat \<Rightarrow> nat \<Rightarrow> fat32_vol \<Rightarrow> 'd disk_read_fn \<Rightarrow> 'd \<Rightarrow> ('s \<Rightarrow> 'r) \<Rightarrow>
   (u32 \<Rightarrow> nat \<Rightarrow> u8 list \<Rightarrow> nat \<Rightarrow> 's \<Rightarrow> ('s, 'r) flow res) \<Rightarrow> u32 \<Rightarrow> 's \<Rightarrow> ('s, 'r) flow res" where
  "dir_sectors bufcap lim v rd d err ent cl =
     for_loop (\<lambda>s st.
       rbind (read_sector bufcap rd d (clus_to_lba v cl + word_of_nat s)) (\<lambda>r. case r of
         None \<Rightarrow> Inr (Return (err st))
       | Some sec \<Rightarrow> for_loop (ent (clus_to_lba v cl) s sec) (offsets32 lim) st))
       [0..<unat (sec_per_clus v)]"

definition dir_walk ::
  "nat \<Rightarrow> nat \<Rightarrow> nat \<Rightarrow> fat32_vol \<Rightarrow> 'd disk_read_fn \<Rightarrow> 'd \<Rightarrow> ('s \<Rightarrow> 'r) \<Rightarrow>
   (u32 \<Rightarrow> nat \<Rightarrow> u8 list \<Rightarrow> nat \<Rightarrow> 's \<Rightarrow> ('s, 'r) flow res) \<Rightarrow> u32 \<Rightarrow> 's \<Rightarrow> ('s, 'r) flow res" where
  "dir_walk fuel bufcap lim v rd d err ent =
     chain_loop fuel v rd d (\<lambda>_. True) (dir_sectors bufcap lim v rd d err ent)"

type_synonym slot = "u32 \<times> nat \<times> nat" \<comment> \<open>first sector of the cluster, sector in it, offset\<close>

definition find_ent ::
  "u8 list \<Rightarrow> u32 \<Rightarrow> nat \<Rightarrow> u8 list \<Rightarrow> nat \<Rightarrow> unit \<Rightarrow> (unit, int \<times> (dirent_t \<times> slot) option) flow res" where
  "find_ent want11 lba s sec off _ =
     rbind (ld8 sec off) (\<lambda>c0.
     if c0 = 0x00 then Inr (Return (-2, None))
     else if c0 = 0xE5 then Inr (Next ())
     else rbind (dirent_at sec off) (\<lambda>de.
       if de_attr de = ATTR_LONG_NAME then Inr (Next ())
       else if match_name11 (de_name de) want11 then Inr (Return (0, Some (de, lba, s, off)))
       else Inr (Next ())))"

definition dir_find_entry ::
  "nat \<Rightarrow> fat32_vol \<Rightarrow> 'd disk_read_fn \<Rightarrow> 'd \<Rightarrow> u32 \<Rightarrow> u8 list \<Rightarrow> (int \<times> (dirent_t \<times> slot) option) res" where
  "dir_find_entry fuel v rd d dir_cl want11 =
     rbind (dir_walk fuel MAX_SECTOR_SIZE (unat (bytes_per_sec v)) v rd d (\<lambda>_. (-1, None))
              (find_ent want11) dir_cl ())
       (\<lambda>fl. case fl of Next _ \<Rightarrow> Inr (-3, None) | Return r \<Rightarrow> Inr r)"

definition free_ent ::
  "u32 \<Rightarrow> nat \<Rightarrow> u8 list \<Rightarrow> nat \<Rightarrow> unit \<Rightarrow> (unit, (slot \<times> u8 list) option) flow res" where
  "free_ent lba s sec off _ =
     rbind (ld8 sec off) (\<lambda>c0.
       if c0 = 0x00 \<or> c0 = 0xE5 then Inr (Return (Some ((lba, s, off), sec))) else Inr (Next ()))"

text \<open>The sector is read into the caller's array of 512 bytes; both failures return \<open>-1\<close>.\<close>

definition dir_find_free_slot ::
  "nat \<Rightarrow> fat32_vol \<Rightarrow> 'd disk_read_fn \<Rightarrow> 'd \<Rightarrow> u32 \<Rightarrow> (int \<times> (slot \<times> u8 list) option) res" where
  "dir_find_free_slot fuel v rd d dir_cl =
     rbind (dir_walk fuel 512 (unat (bytes_per_sec v)) v rd d (\<lambda>_. None) free_ent dir_cl ())
       (\<lambda>fl. case fl of Return (Some x) \<Rightarrow> Inr (0, Some x) | _ \<Rightarrow> Inr (-1, None))"

subsection \<open>Creating entries\<close>

definition create_dir_entry ::
  "nat \<Rightarrow> fat32_vol \<Rightarrow> 'd disk_read_fn \<Rightarrow> 'd disk_write_fn \<Rightarrow> 'd \<Rightarrow> u32 \<Rightarrow> u8 list \<Rightarrow> u8 \<Rightarrow> u32 \<Rightarrow> u32 \<Rightarrow>
   (int \<times> 'd) res" where
  "create_dir_entry fuel v rd wr d parent_cl nm attr start_clus size_bytes =
     rbind (dir_find_free_slot fuel v rd d parent_cl) (\<lambda>(r, fs). case fs of
       None \<Rightarrow> Inr (-1, d)
     | Some ((lba, s, off), sec) \<Rightarrow>
         rbind (store sec off (dirent_bytes nm attr start_clus size_bytes)) (\<lambda>sec'.
         rbind (wr d (lba + word_of_nat s) 1 sec') (\<lambda>(e, d').
           if e \<noteq> 0 then Inr (-2, d') else Inr (0, d'))))"

text \<open>The first sector of a new directory: the entries \<open>.\<close> and \<open>..\<close>, then zeros.\<close>

definition dot_sector :: "u32 \<Rightarrow> u32 \<Rightarrow> u8 list" where
  "dot_sector new_cl parent_cl =
     dirent_bytes (cstr ''.          '') ATTR_DIR new_cl 0
     @ dirent_bytes (cstr ''..         '') ATTR_DIR parent_cl 0 @ replicate 448 0"

definition ensure_directory ::
  "nat \<Rightarrow> fat32_vol \<Rightarrow> 'd disk_read_fn \<Rightarrow> 'd disk_write_fn \<Rightarrow> 'd \<Rightarrow> u32 \<Rightarrow> u8 list \<Rightarrow>
   (int \<times> u32 \<times> 'd) res" where
  "ensure_directory fuel v rd wr d parent_cl nm =
     rbind (dir_find_entry fuel v rd d parent_cl nm) (\<lambda>(r, found). case found of
       Some (de, _) \<Rightarrow>
         if de_attr de AND ATTR_DIR = 0 then Inr (-2, 0, d)
         else Inr (0, dirent_start_cluster de, d)
     | None \<Rightarrow>
     rbind (fat_alloc_free_cluster v rd wr d) (\<lambda>(new_cl, d1).
     if new_cl = 0 then Inr (-3, 0, d1) else
     let lba0 = clus_to_lba v new_cl in
     rbind (wr d1 lba0 1 (dot_sector new_cl parent_cl)) (\<lambda>(e, d2).
     if e \<noteq> 0 then Inr (-4, 0, d2) else
     rbind (for_loop (\<lambda>sct d. rbind (wr d (lba0 + word_of_nat sct) 1 (replicate 512 0)) (\<lambda>(e, d').
              if e \<noteq> 0 then Inr (Return d') else Inr (Next d')))
              [1..<unat (sec_per_clus v)] d2) (\<lambda>fl. case fl of
       Return d3 \<Rightarrow> Inr (-4, 0, d3)
     | Next d3 \<Rightarrow>
     rbind (fat_write_fat_entry v rd wr d3 new_cl 0x0FFFFFFF) (\<lambda>(_, d4).
     rbind (create_dir_entry fuel v rd wr d4 parent_cl nm ATTR_DIR new_cl 0) (\<lambda>(e, d5).
     if e \<noteq> 0 then Inr (-5, 0, d5) else Inr (0, new_cl, d5)))))))"

subsection \<open>Files of the root directory\<close>

definition fat32_create_file_root ::
  "nat \<Rightarrow> fat32_vol \<Rightarrow> 'd disk_read_fn \<Rightarrow> 'd disk_write_fn \<Rightarrow> 'd \<Rightarrow> u8 list \<Rightarrow> u8 list \<Rightarrow> u32 \<Rightarrow>
   (int \<times> 'd) res" where
  "fat32_create_file_root fuel v rd wr d name83 data bytes =
     rbind (fat_alloc_free_cluster v rd wr d) (\<lambda>(cl, d1).
     if cl = 0 then Inr (-2, d1) else
     let cluster_bytes = ucast (sec_per_clus v) * 512;
         to_write = (if bytes < cluster_bytes then bytes else cluster_bytes)
     in rbind (for_loop (put_file_sector 512 wr) (cluster_lbas v cl) (data, to_write, d1)) (\<lambda>fl. case fl of
          Return d2 \<Rightarrow> Inr (-3, d2)
        | Next (_, _, d2) \<Rightarrow>
     rbind (dir_walk fuel 512 512 v rd d2 (\<lambda>_. None) free_ent (root_clus v) ()) (\<lambda>fl. case fl of
          Next _ \<Rightarrow> Inr (-6, d2)
        | Return None \<Rightarrow> Inr (-4, d2)
        | Return (Some ((lba, s, off), sec)) \<Rightarrow>
            rbind (store sec off (dirent_bytes (make_name83 name83) ATTR_ARCHIVE cl to_write)) (\<lambda>sec'.
            rbind (wr d2 (lba + word_of_nat s) 1 sec') (\<lambda>(e, d3).
              if e \<noteq> 0 then Inr (-5, d3) else Inr (0, d3))))))"

text \<open>The search of \<open>fat32_write_file_root\<close>: a failed read, the end of the directory
  (\<open>goto create_new\<close>), or the entry (\<open>goto have_cluster\<close>).\<close>

datatype root_search = SearchError | CreateNew | HaveCluster u32 slot

definition root_ent ::
  "u8 list \<Rightarrow> u32 \<Rightarrow> nat \<Rightarrow> u8 list \<Rightarrow> nat \<Rightarrow> unit \<Rightarrow> (unit, root_search) flow res" where
  "root_ent nm lba s sec off _ =
     rbind (ld8 sec off) (\<lambda>c0.
     if c0 = 0x00 then Inr (Return CreateNew)
     else if c0 = 0xE5 then Inr (Next ())
     else rbind (dirent_at sec off) (\<lambda>de.
       if de_attr de = ATTR_LONG_NAME then Inr (Next ())
       else if de_name de = nm then Inr (Return (HaveCluster (dirent_start_cluster de) (lba, s, off)))
       else Inr (Next ())))"

text \<open>Storing cluster and size into an existing entry.\<close>

definition update_dirent :: "u8 list \<Rightarrow> nat \<Rightarrow> u32 \<Rightarrow> u32 \<Rightarrow> u8 list res" where
  "update_dirent sec off cl sz =
     rbind (store sec (off + 20) (le_bytes 2 (ucast (drop_bit 16 cl) :: u16))) (\<lambda>s1.
     rbind (store s1 (off + 26) (le_bytes 2 (ucast cl :: u16))) (\<lambda>s2.
     store s2 (off + 28) (le_bytes 4 sz)))"

definition fat32_write_file_root ::
  "nat \<Rightarrow> fat32_vol \<Rightarrow> 'd disk_read_fn \<Rightarrow> 'd disk_write_fn \<Rightarrow> 'd \<Rightarrow> u8 list \<Rightarrow> u8 list \<Rightarrow> u32 \<Rightarrow>
   (int \<times> 'd) res" where
  "fat32_write_file_root fuel v rd wr d name83 data bytes =
     (let cluster_bytes = ucast (sec_per_clus v) * 512;
          to_write = (if bytes < cluster_bytes then bytes else cluster_bytes)
      in rbind (dir_walk fuel 512 512 v rd d (\<lambda>_. SearchError) (root_ent (make_name83 name83))
                  (root_clus v) ()) (\<lambda>fl. case fl of
           Next _ \<Rightarrow> fat32_create_file_root fuel v rd wr d name83 data bytes
         | Return CreateNew \<Rightarrow> fat32_create_file_root fuel v rd wr d name83 data bytes
         | Return SearchError \<Rightarrow> Inr (-2, d)
         | Return (HaveCluster cl0 (dir_lba, dir_s, dir_off)) \<Rightarrow>
     rbind (if cl0 = 0 then fat_alloc_free_cluster v rd wr d else Inr (cl0, d)) (\<lambda>(target_cl, d1).
     if target_cl = 0 then Inr (-3, d1) else
     rbind (for_loop (put_file_sector 512 wr) (cluster_lbas v target_cl) (data, to_write, d1)) (\<lambda>fl. case fl of
       Return d2 \<Rightarrow> Inr (-4, d2)
     | Next (_, _, d2) \<Rightarrow>
     if dir_lba = 0 then Inr (0, d2) else
     rbind (read_sector 512 rd d2 (dir_lba + word_of_nat dir_s)) (\<lambda>r. case r of
       None \<Rightarrow> Inr (-5, d2)
     | Some sec \<Rightarrow>
     rbind (update_dirent sec dir_off target_cl to_write) (\<lambda>sec'.
     rbind (wr d2 (dir_lba + word_of_nat dir_s) 1 sec') (\<lambda>(e, d3).
       if e \<noteq> 0 then Inr (-6, d3) else Inr (0, d3))))))))"

subsection \<open>A directory as the list of its slots\<close>

text \<open>A readable directory: its chain of clusters ends, and every sector of it can be read.\<close>

definition dir_readable :: "fat32_vol \<Rightarrow> 'd disk_read_fn \<Rightarrow> 'd \<Rightarrow> nat \<Rightarrow> u32 \<Rightarrow> u32 list \<Rightarrow> bool" where
  "dir_readable v rd d n cl cs \<longleftrightarrow>
     fat_chain v rd d cl cs \<and> (\<forall>c\<in>set cs. \<forall>l\<in>set (cluster_lbas v c). readable n rd d l)"

text \<open>The slots of a chain in the order of the search, and the sector a slot lies in.\<close>

definition dir_slots :: "fat32_vol \<Rightarrow> nat \<Rightarrow> u32 list \<Rightarrow> slot list" where
  "dir_slots v lim cs =
     concat (map (\<lambda>c. concat (map (\<lambda>s. map (\<lambda>off. (clus_to_lba v c, s, off)) (offsets32 lim))
       [0..<unat (sec_per_clus v)])) cs)"

definition slot_lba :: "slot \<Rightarrow> u32" where
  "slot_lba x = (case x of (lba, s, off) \<Rightarrow> lba + word_of_nat s)"

definition slot_sec :: "'d disk_read_fn \<Rightarrow> 'd \<Rightarrow> slot \<Rightarrow> u8 list" where
  "slot_sec rd d x = the (rd d (slot_lba x) 1)"

definition slot_off :: "slot \<Rightarrow> nat" where
  "slot_off x = snd (snd x)"

definition slot_bytes :: "'d disk_read_fn \<Rightarrow> 'd \<Rightarrow> slot \<Rightarrow> u8 list" where
  "slot_bytes rd d x = take 32 (drop (slot_off x) (slot_sec rd d x))"

lemma dir_sectors_slots:
  assumes "\<forall>l\<in>set (cluster_lbas v c). readable n rd d l" and "n \<le> bufcap"
  shows "dir_sectors bufcap lim v rd d err ent c st =
    for_loop (\<lambda>x. ent (fst x) (fst (snd x)) (slot_sec rd d x) (slot_off x)) (dir_slots v lim [c]) st"
proof -
  have sec: "read_sector bufcap rd d (clus_to_lba v c + word_of_nat s) =
      Inr (Some (slot_sec rd d (clus_to_lba v c, s, off)))" if "s < unat (sec_per_clus v)" for s off
  proof -
    have "clus_to_lba v c + word_of_nat s \<in> set (cluster_lbas v c)"
      using that by (auto simp: cluster_lbas_def)
    with assms show ?thesis
      by (auto simp: readable_def read_sector_def slot_sec_def slot_lba_def)
  qed
  have "dir_sectors bufcap lim v rd d err ent c st =
     for_loop (\<lambda>s. for_loop (\<lambda>x. ent (fst x) (fst (snd x)) (slot_sec rd d x) (slot_off x))
       (map (\<lambda>off. (clus_to_lba v c, s, off)) (offsets32 lim))) [0..<unat (sec_per_clus v)] st"
    unfolding dir_sectors_def
    by (rule for_loop_cong) (auto simp: sec [where off = 0] for_loop_map slot_off_def slot_sec_def slot_lba_def)
  then show ?thesis by (simp add: for_loop_concat dir_slots_def)
qed

text \<open>On a readable directory the nested loops of a search are one loop over the slots.\<close>

lemma dir_walk_slots:
  assumes "dir_readable v rd d n cl cs" and "n \<le> bufcap" and "length cs < fuel"
  shows "dir_walk fuel bufcap lim v rd d err ent cl st =
    for_loop (\<lambda>x. ent (fst x) (fst (snd x)) (slot_sec rd d x) (slot_off x)) (dir_slots v lim cs) st"
proof -
  let ?body = "\<lambda>x. ent (fst x) (fst (snd x)) (slot_sec rd d x) (slot_off x)"
  have "dir_walk fuel bufcap lim v rd d err ent cl st =
      for_loop (dir_sectors bufcap lim v rd d err ent) cs st"
    unfolding dir_walk_def
    using chain_loop_chain [of v rd d cl cs fuel "\<lambda>_. True"] assms by (simp add: dir_readable_def)
  also have "\<dots> = for_loop (\<lambda>c. for_loop ?body (dir_slots v lim [c])) cs st"
    using assms by (intro for_loop_cong dir_sectors_slots) (auto simp: dir_readable_def)
  also have "\<dots> = for_loop ?body (dir_slots v lim cs) st"
    by (simp add: for_loop_concat dir_slots_def)
  finally show ?thesis .
qed

text \<open>The slots a search meets lie inside their sectors, at multiples of 32.\<close>

lemma dir_slots_iff:
  "x \<in> set (dir_slots v lim cs) \<longleftrightarrow>
     (\<exists>c\<in>set cs. fst x = clus_to_lba v c) \<and> fst (snd x) < unat (sec_per_clus v) \<and>
     32 dvd slot_off x \<and> slot_off x < lim"
  by (cases x) (fastforce simp: dir_slots_def set_offsets32 slot_off_def)

lemma slot_in_cluster:
  assumes "x \<in> set (dir_slots v lim cs)"
  shows "\<exists>c\<in>set cs. slot_lba x \<in> set (cluster_lbas v c)"
  by (cases x) (use assms in \<open>fastforce simp: dir_slots_iff slot_lba_def cluster_lbas_def\<close>)

lemma dvd32_bound: "32 dvd i \<Longrightarrow> 32 dvd n \<Longrightarrow> i < n \<Longrightarrow> i + 32 \<le> (n :: nat)"
  by (auto simp: dvd_def)

lemma slot_fits:
  assumes "x \<in> set (dir_slots v n cs)" and "32 dvd n"
  shows "slot_off x + 32 \<le> n"
  using assms dvd32_bound by (auto simp: dir_slots_iff)

lemma slot_sec_readable:
  assumes "dir_readable v rd d n cl cs" and "x \<in> set (dir_slots v lim cs)"
  shows "rd d (slot_lba x) 1 = Some (slot_sec rd d x)" and "length (slot_sec rd d x) = n"
proof -
  obtain bs where "rd d (slot_lba x) 1 = Some bs" "length bs = n"
    using slot_in_cluster [OF assms(2)] assms(1) by (auto simp: dir_readable_def readable_def)
  then show "rd d (slot_lba x) 1 = Some (slot_sec rd d x)" and "length (slot_sec rd d x) = n"
    by (simp_all add: slot_sec_def)
qed

lemma length_slot_bytes:
  assumes "dir_readable v rd d n cl cs" and "32 dvd n" and "x \<in> set (dir_slots v n cs)"
  shows "length (slot_bytes rd d x) = 32"
  using slot_sec_readable [OF assms(1,3)] slot_fits [OF assms(3,2)] by (simp add: slot_bytes_def)

text \<open>What a slot says: whether it is free, and whether it is a short entry with a given name.\<close>

definition slot_free :: "u8 list \<Rightarrow> bool" where
  "slot_free bs \<longleftrightarrow> bs ! 0 = 0x00 \<or> bs ! 0 = 0xE5"

definition slot_named :: "u8 list \<Rightarrow> u8 list \<Rightarrow> bool" where
  "slot_named want bs \<longleftrightarrow> \<not> slot_free bs \<and> bs ! 11 \<noteq> ATTR_LONG_NAME \<and> take 11 bs = want"

definition find_result :: "u8 list \<Rightarrow> (slot \<Rightarrow> u8 list) \<Rightarrow> slot list \<Rightarrow> int \<times> (dirent_t \<times> slot) option" where
  "find_result want bytes xs =
     (case find (\<lambda>x. bytes x ! 0 = 0 \<or> slot_named want (bytes x)) xs of
        None \<Rightarrow> (-3, None)
      | Some x \<Rightarrow> if bytes x ! 0 = 0 then (-2, None) else (0, Some (dirent_of (bytes x), x)))"

lemma ld8_slot:
  assumes "slot_off x + 32 \<le> length (slot_sec rd d x)"
  shows "ld8 (slot_sec rd d x) (slot_off x) = Inr (slot_bytes rd d x ! 0)"
    and "dirent_at (slot_sec rd d x) (slot_off x) = Inr (dirent_of (slot_bytes rd d x))"
  using assms by (auto simp: ld8_def dirent_at_def ld_bytes_def slot_bytes_def)

lemma find_ent_slot:
  assumes "slot_off x + 32 \<le> length (slot_sec rd d x)" and "length want = 11"
  shows "find_ent want (fst x) (fst (snd x)) (slot_sec rd d x) (slot_off x) () =
    Inr (let bs = slot_bytes rd d x in
         if bs ! 0 = 0 then Return (-2, None)
         else if slot_named want bs then Return (0, Some (dirent_of bs, x)) else Next ())"
proof -
  have "length (take 11 (slot_bytes rd d x)) = 11" using assms(1) by (simp add: slot_bytes_def)
  then have "match_name11 (take 11 (slot_bytes rd d x)) want \<longleftrightarrow> take 11 (slot_bytes rd d x) = want"
    using assms(2) by (rule match_name11_iff)
  then show ?thesis
    using ld8_slot [OF assms(1)]
    by (cases x) (auto simp: find_ent_def dirent_of_def slot_named_def slot_free_def slot_off_def Let_def)
qed

theorem dir_find_entry_result:
  assumes "dir_readable v rd d n cl cs" and "n \<le> MAX_SECTOR_SIZE" and "32 dvd n"
    and "unat (bytes_per_sec v) = n" and "length want = 11" and "length cs < fuel"
  shows "dir_find_entry fuel v rd d cl want = Inr (find_result want (slot_bytes rd d) (dir_slots v n cs))"
proof -
  define g where "g = (\<lambda>x. let bs = slot_bytes rd d x in
         if bs ! 0 = 0 then Return (-2, None)
         else if slot_named want bs then Return (0, Some (dirent_of bs, x)) else Next ()
         :: (unit, int \<times> (dirent_t \<times> slot) option) flow)"
  have g: "g x \<noteq> Next () \<longleftrightarrow> slot_bytes rd d x ! 0 = 0 \<or> slot_named want (slot_bytes rd d x)" for x
    by (simp add: g_def Let_def)
  have "dir_walk fuel MAX_SECTOR_SIZE n v rd d (\<lambda>_. (-1, None)) (find_ent want) cl () =
      Inr (case find (\<lambda>i. g i \<noteq> Next ()) (dir_slots v n cs) of None \<Rightarrow> Next () | Some i \<Rightarrow> g i)"
    unfolding dir_walk_slots [OF assms(1,2,6)]
  proof (rule for_loop_find)
    fix x
    assume "x \<in> set (dir_slots v n cs)"
    then have "slot_off x + 32 \<le> length (slot_sec rd d x)"
      using slot_fits slot_sec_readable assms by metis
    from find_ent_slot [OF this assms(5)]
    show "find_ent want (fst x) (fst (snd x)) (slot_sec rd d x) (slot_off x) () = Inr (g x)"
      by (simp add: g_def)
  qed
  then show ?thesis
    unfolding g
    by (auto simp: dir_find_entry_def assms(4) find_result_def g_def Let_def
        dest!: find_SomeD split: option.split)
qed

lemma dir_find_free_slot_result:
  assumes "dir_readable v rd d n cl cs" and "n \<le> 512" and "32 dvd n"
    and "unat (bytes_per_sec v) = n" and "length cs < fuel"
  shows "dir_find_free_slot fuel v rd d cl =
    Inr (case find (\<lambda>x. slot_free (slot_bytes rd d x)) (dir_slots v n cs) of
           None \<Rightarrow> (-1, None) | Some x \<Rightarrow> (0, Some (x, slot_sec rd d x)))"
proof -
  define g where "g = (\<lambda>x. if slot_free (slot_bytes rd d x) then Return (Some (x, slot_sec rd d x)) else Next ()
         :: (unit, (slot \<times> u8 list) option) flow)"
  have g: "g x \<noteq> Next () \<longleftrightarrow> slot_free (slot_bytes rd d x)" for x by (simp add: g_def)
  have "dir_walk fuel 512 n v rd d (\<lambda>_. None) free_ent cl () =
      Inr (case find (\<lambda>i. g i \<noteq> Next ()) (dir_slots v n cs) of None \<Rightarrow> Next () | Some i \<Rightarrow> g i)"
    unfolding dir_walk_slots [OF assms(1,2,5)]
  proof (rule for_loop_find)
    fix x
    assume "x \<in> set (dir_slots v n cs)"
    then have "slot_off x + 32 \<le> length (slot_sec rd d x)"
      using slot_fits slot_sec_readable assms by metis
    from ld8_slot(1) [OF this]
    show "free_ent (fst x) (fst (snd x)) (slot_sec rd d x) (slot_off x) () = Inr (g x)"
      by (cases x) (simp add: g_def free_ent_def slot_free_def slot_off_def)
  qed
  then show ?thesis
    unfolding g
    by (auto simp: dir_find_free_slot_def assms(4) g_def dest: find_SomeD split: option.split)
qed

subsection \<open>Writing a slot\<close>

lemma slot_unique:
  assumes l: "vol_layout v n cap N" and cs: "\<forall>c\<in>set cs. valid_clus N c" and cs': "\<forall>c\<in>set cs'. valid_clus N c"
    and x: "x \<in> set (dir_slots v lim cs)" and y: "y \<in> set (dir_slots v lim' cs')"
    and same: "slot_lba x = slot_lba y" and off: "slot_off x = slot_off y"
  shows "x = y"
proof -
  from x obtain c where c: "c \<in> set cs" "fst x = clus_to_lba v c" "fst (snd x) < unat (sec_per_clus v)"
    by (auto simp: dir_slots_iff)
  from y obtain c' where c': "c' \<in> set cs'" "fst y = clus_to_lba v c'" "fst (snd y) < unat (sec_per_clus v)"
    by (auto simp: dir_slots_iff)
  have xl: "slot_lba x = clus_to_lba v c + word_of_nat (fst (snd x))" using c(2) by (cases x) (simp add: slot_lba_def)
  have yl: "slot_lba y = clus_to_lba v c' + word_of_nat (fst (snd y))" using c'(2) by (cases y) (simp add: slot_lba_def)
  have "slot_lba x \<in> set (cluster_lbas v c)" using c(3) by (auto simp: xl cluster_lbas_def)
  moreover have "slot_lba y \<in> set (cluster_lbas v c')" using c'(3) by (auto simp: yl cluster_lbas_def)
  ultimately have "c = c'" using cluster_lbas_disjoint [OF l, of c c'] cs cs' c(1) c'(1) same by auto
  then have "fst (snd x) = fst (snd y)"
    using unat_cluster_lba [OF l, of c] xl yl same c c' cs by (metis add_left_cancel)
  with \<open>c = c'\<close> show ?thesis using c(2) c'(2) off by (cases x; cases y) (auto simp: slot_off_def)
qed

context block_device
begin

text \<open>Replacing the 32 bytes of one slot changes that slot, and no table entry, chain or other
  slot of any directory.\<close>

lemma slot_write:
  assumes ok: "ok d" and l: "vol_layout v secsz cap N" and dvd: "32 dvd secsz"
    and cs: "\<forall>c\<in>set cs. valid_clus N c" and r: "dir_readable v rd d secsz cl cs"
    and x: "x \<in> set (dir_slots v secsz cs)"
    and w: "wr d (slot_lba x) 1 sec' = Inr (0, d')" and len: "length sec' = secsz"
    and out: "\<And>i. i < secsz \<Longrightarrow> i < slot_off x \<or> slot_off x + 32 \<le> i \<Longrightarrow> sec' ! i = slot_sec rd d x ! i"
  shows "ok d'"
    and "unat k < cap \<Longrightarrow> k \<noteq> slot_lba x \<Longrightarrow> rd d' k 1 = rd d k 1"
    and "valid_clus N c \<Longrightarrow> fat_read_fat_entry v rd d' c = fat_read_fat_entry v rd d c"
    and "dir_readable v rd d secsz cl' cs' \<Longrightarrow> \<forall>c\<in>set cs'. valid_clus N c \<Longrightarrow>
           dir_readable v rd d' secsz cl' cs'"
    and "dir_readable v rd d secsz cl' cs' \<Longrightarrow> \<forall>c\<in>set cs'. valid_clus N c \<Longrightarrow>
           y \<in> set (dir_slots v secsz cs') \<Longrightarrow>
           slot_bytes rd d' y = (if y = x then take 32 (drop (slot_off x) sec') else slot_bytes rd d y)"
proof -
  obtain c0 where c0: "c0 \<in> set cs" "slot_lba x \<in> set (cluster_lbas v c0)"
    using slot_in_cluster [OF x] by auto
  then have v0: "valid_clus N c0" and cap: "unat (slot_lba x) < cap"
    using cs cluster_lbas_in_cap [OF l] by auto
  show ok': "ok d'" using wr_ok [OF ok w] .
  show frame: "rd d' k 1 = rd d k 1" if "unat k < cap" "k \<noteq> slot_lba x" for k
    using wr_frame [OF ok cap that w] .
  have new: "rd d' (slot_lba x) 1 = Some sec'" using wr_read [OF ok cap w] len by simp
  show fat: "fat_read_fat_entry v rd d' c = fat_read_fat_entry v rd d c" if "valid_clus N c" for c
  proof -
    have "rd d' (fat_sector_of v c) 1 = rd d (fat_sector_of v c) 1"
      using frame fat_slot_in_cap [OF valid_clus_slot [OF l that]] fat_sector_not_data [OF l that v0 c0(2)]
      by metis
    then show ?thesis
      by (simp add: fat_read_fat_entry_eq [OF sector_geometry_nonzero [OF vol_layout_geometry [OF l]]] read_sector_def)
  qed
  show "dir_readable v rd d' secsz cl' cs'"
    if "dir_readable v rd d secsz cl' cs'" "\<forall>c\<in>set cs'. valid_clus N c" for cl' cs'
  proof -
    have "readable secsz rd d' k" if "readable secsz rd d k" "unat k < cap" for k
      using that frame new len by (cases "k = slot_lba x") (auto simp: readable_def)
    then show ?thesis
      using that fat fat_chain_cong [of v rd d cl' cs' d'] cluster_lbas_in_cap [OF l]
      by (auto simp: dir_readable_def)
  qed
  show "slot_bytes rd d' y = (if y = x then take 32 (drop (slot_off x) sec') else slot_bytes rd d y)"
    if rd': "dir_readable v rd d secsz cl' cs'" and cs': "\<forall>c\<in>set cs'. valid_clus N c"
      and y: "y \<in> set (dir_slots v secsz cs')" for cl' cs' y
  proof (cases "slot_lba y = slot_lba x")
    case True
    show ?thesis
    proof (cases "y = x")
      case True
      then show ?thesis using new by (simp add: slot_bytes_def slot_sec_def)
    next
      case False
      then have "slot_off y \<noteq> slot_off x"
        using slot_unique [OF l cs cs' x y] True by auto
      then have apart: "slot_off y + 32 \<le> slot_off x \<or> slot_off x + 32 \<le> slot_off y"
        using x y by (auto simp: dir_slots_iff dvd_def)
      have sec: "slot_sec rd d' y = sec'" "slot_sec rd d y = slot_sec rd d x"
        using True new by (simp_all add: slot_sec_def)
      have lens: "length (slot_sec rd d x) = secsz" "slot_off y + 32 \<le> secsz"
        using slot_sec_readable [OF r x] slot_fits [OF y dvd] by auto
      show ?thesis
        using False apart lens len out
        by (auto simp: slot_bytes_def sec intro!: nth_equalityI)
    qed
  next
    case False
    then have "rd d' (slot_lba y) 1 = rd d (slot_lba y) 1"
      using frame slot_in_cluster [OF y] cs' cluster_lbas_in_cap [OF l] by blast
    with False show ?thesis by (auto simp: slot_bytes_def slot_sec_def)
  qed
qed

end

end
