(* ===== verification/Exfat_Entry.thy ===== *)
theory Exfat_Entry
  imports Fat_Dir
begin

text \<open>
  exFAT directory entry sets, \<open>src/kernel/fs_fat32.c\<close>: building a set for a file, its checksum,
  collecting the entries of a set from a directory and parsing them back.
\<close>

subsection \<open>Data\<close>

record exfat_entry_info =
  ei_cluster :: u32
  ei_size :: u64
  ei_is_dir :: bool
  ei_dir_cluster :: u32
  ei_dir_byte_off :: u32
  ei_file_entry_lba :: u32
  ei_file_entry_off :: u16
  ei_stream_entry_lba :: u32
  ei_stream_entry_off :: u16
  ei_name_len :: u8
  ei_secondary_count :: u8
  ei_attr :: u16

abbreviation EXFAT_ENTRY_BITMAP :: u8 where "EXFAT_ENTRY_BITMAP \<equiv> 0x81"
abbreviation EXFAT_ENTRY_FILE :: u8 where "EXFAT_ENTRY_FILE \<equiv> 0x85"
abbreviation EXFAT_ENTRY_STREAM :: u8 where "EXFAT_ENTRY_STREAM \<equiv> 0xC0"
abbreviation EXFAT_ENTRY_NAME :: u8 where "EXFAT_ENTRY_NAME \<equiv> 0xC1"

subsection \<open>Building a set\<close>

definition file_entry_bytes :: "nat \<Rightarrow> bool \<Rightarrow> u8 list" where
  "file_entry_bytes ntot is_dir =
     [EXFAT_ENTRY_FILE, word_of_nat (ntot - 1), 0, 0]
     @ le_bytes 2 (if is_dir then 0x10 else 0x20 :: u16) @ replicate 26 0"

definition stream_entry_bytes :: "nat \<Rightarrow> u32 \<Rightarrow> u64 \<Rightarrow> u8 list" where
  "stream_entry_bytes name_len first_cluster sz =
     [EXFAT_ENTRY_STREAM, 0x00, 0, word_of_nat name_len] @ replicate 4 0 @ le_bytes 8 sz
     @ replicate 4 0 @ le_bytes 4 first_cluster @ le_bytes 8 sz"

text \<open>The name entries: 15 characters each, zero-padded; \<open>p\<close> is the rest of the name.\<close>

fun name_entries_bytes :: "nat \<Rightarrow> u8 list \<Rightarrow> u8 list" where
  "name_entries_bytes 0 p = []"
| "name_entries_bytes (Suc n) p =
     [EXFAT_ENTRY_NAME, 0] @ concat (map (\<lambda>c. [c, 0]) (padded 15 p)) @ name_entries_bytes n (drop 15 p)"

definition exfat_build_entry_set ::
  "u8 list \<Rightarrow> u32 \<Rightarrow> u64 \<Rightarrow> bool \<Rightarrow> int \<times> u8 list \<times> u8" where
  "exfat_build_entry_set name first_cluster sz is_dir =
     (let name_len = (if length name > 255 then 255 else length name);
          name_entries = (name_len + 14) div 15;
          ntot = 2 + name_entries
      in if ntot > 40 then (-1, [], 0)
         else (0, file_entry_bytes ntot is_dir @ stream_entry_bytes name_len first_cluster sz
                  @ name_entries_bytes name_entries name, word_of_nat ntot))"

subsection \<open>The checksum of a set\<close>

definition csum_step :: "u16 \<Rightarrow> u8 \<Rightarrow> u16" where
  "csum_step acc b = (drop_bit 1 acc OR push_bit 15 acc) + ucast b"

definition exfat_checksum_entries :: "u8 list \<Rightarrow> u8 \<Rightarrow> u16 res" where
  "exfat_checksum_entries eset total_entries =
     rbind (ld_bytes eset 0 (32 * unat total_entries)) (\<lambda>bs.
       Inr (foldl csum_step 0 (case bs of [] \<Rightarrow> [] | _ # bs' \<Rightarrow> 0 # bs')))"

subsection \<open>Collecting and parsing a set\<close>

text \<open>The entries are copied into the caller's array of \<open>outcap\<close> bytes. The state is what has
  been copied, the index of the sector in the sector buffer, and that buffer.\<close>

definition collect_step ::
  "nat \<Rightarrow> fat32_vol \<Rightarrow> 'd disk_read_fn \<Rightarrow> 'd \<Rightarrow> u32 \<Rightarrow> u32 \<Rightarrow> nat \<Rightarrow> u8 list \<times> u32 \<times> u8 list \<Rightarrow>
   (u8 list \<times> u32 \<times> u8 list, unit) flow res" where
  "collect_step outcap v rd d lba_base start_byte i = (\<lambda>(out, last_sec, sec).
     if bytes_per_sec v = 0 then Inl DivByZero else
     let byte_off = start_byte + word_of_nat (i * 32);
         sec_idx = byte_off div ucast (bytes_per_sec v);
         off_in_sec = unat (byte_off mod ucast (bytes_per_sec v))
     in rbind (if sec_idx \<noteq> last_sec then read_sector MAX_SECTOR_SIZE rd d (lba_base + sec_idx)
               else Inr (Some sec)) (\<lambda>r. case r of
          None \<Rightarrow> Inr (Return ())
        | Some sec' \<Rightarrow>
            rbind (ld_bytes sec' off_in_sec 32) (\<lambda>bs.
              if (i + 1) * 32 > outcap then Inl BadWrite
              else Inr (Next (out @ bs, sec_idx, sec')))))"

definition exfat_collect_entries ::
  "nat \<Rightarrow> fat32_vol \<Rightarrow> 'd disk_read_fn \<Rightarrow> 'd \<Rightarrow> u32 \<Rightarrow> u32 \<Rightarrow> u8 \<Rightarrow> (int \<times> u8 list) res" where
  "exfat_collect_entries outcap v rd d dir_cl start_byte total_entries =
     (let cluster_bytes = ucast (bytes_per_sec v) * ucast (sec_per_clus v) :: u32
      in if unat start_byte + unat total_entries * 32 > unat cluster_bytes then Inr (-1, [])
         else rbind (for_loop (collect_step outcap v rd d (clus_to_lba v dir_cl) start_byte)
                [0..<unat total_entries] ([], 0xFFFFFFFF, [])) (\<lambda>fl. case fl of
            Next (out, _, _) \<Rightarrow> Inr (0, out)
          | Return _ \<Rightarrow> Inr (-1, [])))"

text \<open>One name entry of the set: up to 15 characters while fewer than \<open>name_len\<close> are collected.\<close>

definition parse_name_entry ::
  "u8 list \<Rightarrow> nat \<Rightarrow> nat \<Rightarrow> u8 list \<Rightarrow> (u8 list, unit) flow res" where
  "parse_name_entry eset name_len i nb =
     (if length nb \<ge> name_len then Inr (Next nb) else
      rbind (ld8 eset (i * 32)) (\<lambda>t.
      if t \<noteq> EXFAT_ENTRY_NAME then Inr (Next nb)
      else for_loop (\<lambda>c nb. if length nb \<ge> name_len then Inr (Next nb)
             else rbind (ld16 eset (i * 32 + 2 + 2 * c)) (\<lambda>ch. Inr (Next (nb @ [ucast (ch AND 0xFF)]))))
             [0..<15] nb))"

text \<open>The result is the name collected in \<open>name_buf\<close> (terminated by a zero there) and the
  fields of the entry. The callers pass at most 40 secondary entries, so that the 8-bit loop
  counter of the source does not wrap.\<close>

definition exfat_parse_file_set ::
  "u8 list \<Rightarrow> u8 \<Rightarrow> nat \<Rightarrow> (u8 list \<times> exfat_entry_info) option res" where
  "exfat_parse_file_set eset secondary name_buf_sz =
     (if secondary = 0 then Inr None else
      rbind (ld8 eset 32) (\<lambda>t. if t \<noteq> EXFAT_ENTRY_STREAM then Inr None else
      rbind (ld8 eset 35) (\<lambda>nl.
      let name_len = (if unat nl \<ge> name_buf_sz then name_buf_sz - 1 else unat nl) in
      rbind (for_loop (parse_name_entry eset name_len) [2..<unat secondary + 1] []) (\<lambda>fl. case fl of
        Return _ \<Rightarrow> Inr None
      | Next nb \<Rightarrow>
      rbind (ld16 eset 4) (\<lambda>attr.
      rbind (ld32 eset 52) (\<lambda>first_cluster.
      rbind (ld64 eset 56) (\<lambda>data_len.
        Inr (Some (nb,
          \<lparr>ei_cluster = first_cluster, ei_size = data_len, ei_is_dir = (attr AND 0x10 \<noteq> 0),
           ei_dir_cluster = 0, ei_dir_byte_off = 0, ei_file_entry_lba = 0, ei_file_entry_off = 0,
           ei_stream_entry_lba = 0, ei_stream_entry_off = 0, ei_name_len = word_of_nat name_len,
           ei_secondary_count = secondary, ei_attr = attr\<rparr>)))))))))"

text \<open>The case-insensitive comparison of \<open>exfat_find_in_dir\<close>; \<open>want\<close> is already upper-case. A
  name shorter than \<open>want\<close> differs from it at its terminator.\<close>

definition exfat_name_matches :: "u8 list \<Rightarrow> u8 list \<Rightarrow> bool" where
  "exfat_name_matches nb want \<longleftrightarrow>
     length want \<le> length nb \<and> map upcase (take (length want) nb) = want \<and>
     (nb @ [0]) ! length want = 0"

subsection \<open>Parsing undoes building\<close>

abbreviation name_chars :: "u8 list \<Rightarrow> u8 list" where
  "name_chars p \<equiv> concat (map (\<lambda>c. [c, 0]) (padded 15 p))"

lemma length_pairs [simp]: "length (concat (map (\<lambda>c. [c, 0]) xs)) = 2 * length xs"
  by (induction xs) simp_all

lemma take_drop_pairs: "c < length xs \<Longrightarrow> take 2 (drop (2 * c) (concat (map (\<lambda>c. [c, 0]) xs))) = [xs ! c, 0]"
proof (induction xs arbitrary: c)
  case (Cons x xs)
  then show ?case by (cases c) auto
qed simp

lemma length_name_entries [simp]: "length (name_entries_bytes n p) = 32 * n"
  by (induction n arbitrary: p) simp_all

lemma length_entry_bytes [simp]:
  "length (file_entry_bytes ntot is_dir) = 32" "length (stream_entry_bytes len cl sz) = 32"
  by (simp_all add: file_entry_bytes_def stream_entry_bytes_def)

lemma name_entry_at:
  "k < n \<Longrightarrow> take 32 (drop (32 * k) (name_entries_bytes n p)) = [EXFAT_ENTRY_NAME, 0] @ name_chars (drop (15 * k) p)"
proof (induction k arbitrary: n p)
  case 0
  then show ?case by (cases n) simp_all
next
  case (Suc k)
  then obtain m where m: "n = Suc m" "k < m" by (cases n) auto
  have "drop (32 * Suc k) (name_entries_bytes n p) = drop (32 * k) (name_entries_bytes m (drop 15 p))"
    unfolding m(1) name_entries_bytes.simps drop_append by simp
  with Suc.IH [OF m(2), of "drop 15 p"] show ?case by (simp add: add.commute)
qed

definition entry_set :: "u8 list \<Rightarrow> u32 \<Rightarrow> u64 \<Rightarrow> bool \<Rightarrow> u8 list" where
  "entry_set name cl sz is_dir =
     file_entry_bytes (2 + (length name + 14) div 15) is_dir @ stream_entry_bytes (length name) cl sz
     @ name_entries_bytes ((length name + 14) div 15) name"

lemma length_entry_set: "length (entry_set name cl sz is_dir) = 32 * (2 + (length name + 14) div 15)"
  by (simp add: entry_set_def)

lemma set_name_loads:
  assumes k: "k < (length name + 14) div 15"
  shows "ld8 (entry_set name cl sz is_dir) ((2 + k) * 32) = Inr EXFAT_ENTRY_NAME"
    and "c < 15 \<Longrightarrow> ld16 (entry_set name cl sz is_dir) ((2 + k) * 32 + 2 + 2 * c) =
      Inr (ucast (padded 15 (drop (15 * k) name) ! c))"
proof -
  let ?s = "entry_set name cl sz is_dir" and ?e = "[EXFAT_ENTRY_NAME, 0] @ name_chars (drop (15 * k) name)"
  have "drop ((2 + k) * 32) ?s = drop (32 * k) (name_entries_bytes ((length name + 14) div 15) name)"
    by (simp add: entry_set_def algebra_simps)
  then have e: "take 32 (drop ((2 + k) * 32) ?s) = ?e" using name_entry_at [OF k] by simp
  have len: "(2 + k) * 32 + 32 \<le> length ?s" using k by (simp add: length_entry_set)
  have "?s ! ((2 + k) * 32) = take 32 (drop ((2 + k) * 32) ?s) ! 0" using len by simp
  with e len show "ld8 ?s ((2 + k) * 32) = Inr EXFAT_ENTRY_NAME" by (simp add: ld8_def)
  assume c: "c < 15"
  have "take 2 (drop ((2 + k) * 32 + (2 + 2 * c)) ?s) = take 2 (drop (2 + 2 * c) ?e)"
    by (rule take_drop_within [OF e]) (use c in simp)
  also have "\<dots> = [padded 15 (drop (15 * k) name) ! c, 0]" using take_drop_pairs [of c "padded 15 (drop (15 * k) name)"] c by simp
  finally show "ld16 ?s ((2 + k) * 32 + 2 + 2 * c) = Inr (ucast (padded 15 (drop (15 * k) name) ! c))"
    using len c by (simp add: ld_le_def add.assoc)
qed

lemma ucast_low_byte: "ucast (ucast (w :: u8) AND 0xFF :: u16) = w"
proof -
  have m: "(0xFF :: u16) = mask 8" by (simp add: mask_eq_exp_minus_1)
  show ?thesis unfolding m by (rule bit_word_eqI) (auto simp: bit_simps)
qed

lemma parse_name_step:
  assumes k: "k < (length name + 14) div 15"
  shows "parse_name_entry (entry_set name cl sz is_dir) (length name) (2 + k) (take (15 * k) name) =
    Inr (Next (take (15 * Suc k) name))"
proof -
  let ?s = "entry_set name cl sz is_dir"
  let ?f = "\<lambda>c nb. if length nb \<ge> length name then Inr (Next nb)
       else rbind (ld16 ?s ((2 + k) * 32 + 2 + 2 * c)) (\<lambda>ch. Inr (Next (nb @ [ucast (ch AND 0xFF)])))
       :: (u8 list, unit) flow res"
  have lt: "15 * k < length name" using k by linarith
  have "for_loop ?f [0..<m] (take (15 * k) name) = Inr (Next (take (15 * k + m) name))" if "m \<le> 15" for m
    using that
  proof (induction m)
    case (Suc m)
    have "?f m (take (15 * k + m) name) = Inr (Next (take (15 * k + Suc m) name))"
    proof (cases "15 * k + m < length name")
      case True
      then have "padded 15 (drop (15 * k) name) ! m = name ! (15 * k + m)"
        using Suc.prems by (auto simp: padded_def nth_append)
      with True set_name_loads(2) [OF k, of m] Suc.prems show ?thesis
        by (simp add: ucast_low_byte take_Suc_conv_app_nth)
    qed simp
    with Suc show ?case by (simp add: for_loop_append)
  qed simp
  from this [of 15] lt set_name_loads(1) [OF k] show ?thesis
    unfolding parse_name_entry_def mult_Suc_right by (simp add: add.commute [of "15 * k"] del: mult_Suc_right)
qed

lemma parse_name_loop:
  assumes "m \<le> (length name + 14) div 15"
  shows "for_loop (parse_name_entry (entry_set name cl sz is_dir) (length name)) [2..<2 + m] [] =
    Inr (Next (take (15 * m) name))"
  using assms
proof (induction m)
  case (Suc m)
  then show ?case using parse_name_step [of m name cl sz is_dir] by (simp add: for_loop_append)
qed simp

lemma entry_set_loads:
  assumes "length name \<le> 255"
  shows "ld8 (entry_set name cl sz is_dir) 32 = Inr EXFAT_ENTRY_STREAM"
    and "ld8 (entry_set name cl sz is_dir) 35 = Inr (word_of_nat (length name))"
    and "ld16 (entry_set name cl sz is_dir) 4 = Inr (if is_dir then 0x10 else 0x20)"
    and "ld32 (entry_set name cl sz is_dir) 52 = Inr cl"
    and "ld64 (entry_set name cl sz is_dir) 56 = Inr sz"
  by (auto simp: ld8_def ld_le_def length_entry_set)
    (auto simp: entry_set_def file_entry_bytes_def stream_entry_bytes_def nth_append le_word_le_bytes_full)

text \<open>C29: parsing undoes building. For a name of 1 to 255 bytes, the entry set that
  \<open>exfat_build_entry_set\<close> writes is read back by \<open>exfat_parse_file_set\<close> with the same name, first
  cluster, size and kind.\<close>

theorem exfat_parse_build:
  assumes "name \<noteq> []" and "length name \<le> 255"
  shows "\<exists>eset ntot info. exfat_build_entry_set name cl sz is_dir = (0, eset, ntot) \<and>
    exfat_parse_file_set eset (ntot - 1) 256 = Inr (Some (name, info)) \<and>
    ei_cluster info = cl \<and> ei_size info = sz \<and> (ei_is_dir info \<longleftrightarrow> is_dir) \<and> ei_name_len info = word_of_nat (length name)"
proof -
  define n where "n = (length name + 14) div 15"
  have "0 < length name" using assms by simp
  then have n: "1 \<le> n" "n \<le> 17" "length name \<le> 15 * n"
    using assms(2) unfolding n_def by linarith+
  have b: "exfat_build_entry_set name cl sz is_dir = (0, entry_set name cl sz is_dir, word_of_nat (2 + n))"
    using assms n by (simp add: exfat_build_entry_set_def entry_set_def n_def [symmetric] Let_def)
  have sec: "word_of_nat (2 + n) - 1 = (word_of_nat (n + 1) :: u8)" by simp
  have u: "unat (word_of_nat (n + 1) :: u8) = n + 1" using n by (simp add: unat_of_nat del: of_nat_add of_nat_Suc)
  then have nz: "word_of_nat (n + 1) \<noteq> (0 :: u8)" by (metis Suc_eq_plus1 nat.distinct(1) unat_0)
  have nl: "unat (word_of_nat (length name) :: u8) = length name" using assms by (simp add: unat_of_nat)
  have loop: "for_loop (parse_name_entry (entry_set name cl sz is_dir) (length name)) [2..<n + 1 + 1] [] = Inr (Next name)"
    using parse_name_loop [of n name cl sz is_dir] n by (simp add: n_def [symmetric] add.commute)
  have "\<exists>info. exfat_parse_file_set (entry_set name cl sz is_dir) (word_of_nat (n + 1)) 256 = Inr (Some (name, info)) \<and>
    ei_cluster info = cl \<and> ei_size info = sz \<and> (ei_is_dir info \<longleftrightarrow> is_dir) \<and> ei_name_len info = word_of_nat (length name)"
    using assms(2) nz loop unfolding exfat_parse_file_set_def u
    by (simp add: entry_set_loads nl)
  then show ?thesis using b sec by auto
qed

theorem exfat_parse_build_witness:
  "\<exists>eset ntot info. exfat_build_entry_set (cstr ''a rather long name.text'') 9 1234 False = (0, eset, ntot) \<and>
    exfat_parse_file_set eset (ntot - 1) 256 = Inr (Some (cstr ''a rather long name.text'', info)) \<and> ei_cluster info = 9"
  using exfat_parse_build [of "cstr ''a rather long name.text''" 9 1234 False] by (auto simp: cstr_def)

end
