(* ===== verification/Exfat.thy ===== *)
theory Exfat
  imports Exfat_Entry
begin

text \<open>
  The exFAT half of \<open>src/kernel/fs_fat32.c\<close>: the allocation bitmap and cluster chains, searching
  and extending directories, and the operations on paths. The discovery of the allocation bitmap
  changes the volume record, so the operations that search a directory return it.
\<close>

subsection \<open>Chains and the bitmap\<close>

fun walk_chain_loop :: "nat \<Rightarrow> fat32_vol \<Rightarrow> 'd disk_read_fn \<Rightarrow> 'd \<Rightarrow> u32 \<Rightarrow> u32 res" where
  "walk_chain_loop 0 v rd d cl = Inr cl"
| "walk_chain_loop (Suc n) v rd d cl =
     (if is_end_cluster cl then Inr cl
      else rbind (fat_read_fat_entry v rd d cl) (walk_chain_loop n v rd d))"

definition exfat_walk_chain :: "fat32_vol \<Rightarrow> 'd disk_read_fn \<Rightarrow> 'd \<Rightarrow> u32 \<Rightarrow> u32 \<Rightarrow> u32 res" where
  "exfat_walk_chain v rd d start nsteps = walk_chain_loop (unat nsteps) v rd d start"

definition exfat_mark_bitmap ::
  "fat32_vol \<Rightarrow> 'd disk_read_fn \<Rightarrow> 'd disk_write_fn \<Rightarrow> 'd \<Rightarrow> u32 \<Rightarrow> bool \<Rightarrow> (int \<times> 'd) res" where
  "exfat_mark_bitmap v rd wr d cl used =
     (if exfat_bitmap_clus v = 0 then Inr (0, d) else
      let nbit = cl - 2;
          byte_off = nbit div 8;
          bit_in_byte = unat (nbit mod 8)
      in if exfat_bitmap_size v = 0 then Inr (0, d)
         else if ucast byte_off \<ge> exfat_bitmap_size v then Inr (-1, d)
         else if bytes_per_sec v = 0 \<or> sec_per_clus v = 0 then Inl DivByZero else
      let bytes_per_clus = ucast (bytes_per_sec v) * ucast (sec_per_clus v) :: u32;
          clus_step = byte_off div bytes_per_clus;
          offset_in_clus = byte_off mod bytes_per_clus;
          sec_idx = offset_in_clus div ucast (bytes_per_sec v);
          off_in_sec = unat (offset_in_clus mod ucast (bytes_per_sec v))
      in rbind (exfat_walk_chain v rd d (exfat_bitmap_clus v) clus_step) (\<lambda>target_clus.
         let lba = clus_to_lba v target_clus + sec_idx in
         rbind (read_sector MAX_SECTOR_SIZE rd d lba) (\<lambda>r. case r of
           None \<Rightarrow> Inr (-1, d)
         | Some sec \<Rightarrow>
         rbind (ld8 sec off_in_sec) (\<lambda>b.
         rbind (store sec off_in_sec
                  [if used then b OR push_bit bit_in_byte 1 else b AND NOT (push_bit bit_in_byte 1)]) (\<lambda>sec'.
         rbind (wr d lba 1 sec') (\<lambda>(e, d'). if e \<noteq> 0 then Inr (-1, d') else Inr (0, d')))))))"

definition exfat_max_clusters :: "fat32_vol \<Rightarrow> u32 res" where
  "exfat_max_clusters v =
     rbind (if exfat_cluster_count v \<noteq> 0 then Inr (exfat_cluster_count v)
            else if sec_per_clus v = 0 then Inl DivByZero
            else Inr (tot_sec32 v div ucast (sec_per_clus v))) (\<lambda>mc.
     Inr (if mc > 1024 * 1024 then 1024 * 1024 else mc))"

definition exfat_alloc_body ::
  "fat32_vol \<Rightarrow> 'd disk_read_fn \<Rightarrow> 'd disk_write_fn \<Rightarrow> u32 \<Rightarrow> 'd \<Rightarrow> ('d, u32 \<times> 'd) flow res" where
  "exfat_alloc_body v rd wr cl d =
     (if bytes_per_sec v = 0 then Inl DivByZero else
      let off = cl * 4;
          fat_sector = fat_lba v + off div ucast (bytes_per_sec v);
          ent_off = unat (off mod ucast (bytes_per_sec v))
      in rbind (read_sector MAX_SECTOR_SIZE rd d fat_sector) (\<lambda>r. case r of
           None \<Rightarrow> Inr (Return (0, d))
         | Some sec \<Rightarrow> rbind (ld32 sec ent_off) (\<lambda>w.
             if w AND 0x0FFFFFFF = 0
             then rbind (fat_write_fat_entry v rd wr d cl 0x0FFFFFFF) (\<lambda>(e, d1).
                  if e \<noteq> 0 then Inr (Return (0, d1)) else
                  rbind (exfat_mark_bitmap v rd wr d1 cl True) (\<lambda>(_, d2). Inr (Return (cl, d2))))
             else Inr (Next d))))"

definition exfat_alloc_cluster ::
  "fat32_vol \<Rightarrow> 'd disk_read_fn \<Rightarrow> 'd disk_write_fn \<Rightarrow> 'd \<Rightarrow> (u32 \<times> 'd) res" where
  "exfat_alloc_cluster v rd wr d =
     rbind (exfat_max_clusters v) (\<lambda>mc.
     rbind (for_loop (exfat_alloc_body v rd wr) (cluster_candidates mc) d)
       (\<lambda>fl. case fl of Next d' \<Rightarrow> Inr (0, d') | Return r \<Rightarrow> Inr r))"

definition exfat_free_chain ::
  "nat \<Rightarrow> fat32_vol \<Rightarrow> 'd disk_read_fn \<Rightarrow> 'd disk_write_fn \<Rightarrow> 'd \<Rightarrow> u32 \<Rightarrow> (int \<times> 'd) res" where
  "exfat_free_chain fuel v rd wr d start =
     rbind (while_loop fuel (\<lambda>(cl, d). \<not> is_end_cluster cl \<and> cl \<noteq> 0)
       (\<lambda>(cl, d).
          rbind (fat_read_fat_entry v rd d cl) (\<lambda>nx.
          rbind (fat_write_fat_entry v rd wr d cl 0) (\<lambda>(_, d1).
          rbind (exfat_mark_bitmap v rd wr d1 cl False) (\<lambda>(_, d2).
            Inr (Next (nx, d2))))))
       (start, d))
     (\<lambda>fl. case fl of Next (_, d') \<Rightarrow> Inr (0, d') | Return d' \<Rightarrow> Inr (0, d'))"

subsection \<open>Searching directories\<close>

text \<open>The byte offsets of the entries of a cluster, and the sector that holds one of them.\<close>

definition cluster_bytes_of :: "fat32_vol \<Rightarrow> u32" where
  "cluster_bytes_of v = ucast (bytes_per_sec v) * ucast (sec_per_clus v)"

definition entry_sector ::
  "fat32_vol \<Rightarrow> 'd disk_read_fn \<Rightarrow> 'd \<Rightarrow> u32 \<Rightarrow> nat \<Rightarrow> (u8 list option \<times> u32 \<times> nat) res" where
  "entry_sector v rd d cluster byte_off =
     (if bytes_per_sec v = 0 then Inl DivByZero else
      let sec_idx = word_of_nat byte_off div ucast (bytes_per_sec v);
          off_in_sec = unat ((word_of_nat byte_off :: u32) mod ucast (bytes_per_sec v));
          lba = clus_to_lba v cluster + sec_idx
      in rbind (read_sector MAX_SECTOR_SIZE rd d lba) (\<lambda>r. Inr (r, lba, off_in_sec)))"

text \<open>The array \<open>setbuf\<close> of \<open>exfat_find_in_dir\<close> and \<open>exfat_list_dir\<close> has 32 * 32 bytes.\<close>

abbreviation SETBUF_SIZE :: nat where "SETBUF_SIZE \<equiv> 32 * 32"

definition find_in_dir_ent ::
  "fat32_vol \<Rightarrow> 'd disk_read_fn \<Rightarrow> 'd \<Rightarrow> u8 list \<Rightarrow> u32 \<Rightarrow> nat \<Rightarrow> fat32_vol \<Rightarrow>
   (fat32_vol, int \<times> exfat_entry_info option \<times> fat32_vol) flow res" where
  "find_in_dir_ent v rd d want cluster byte_off vs =
     rbind (entry_sector v rd d cluster byte_off) (\<lambda>(r, lba, off). case r of
       None \<Rightarrow> Inr (Return (-1, None, vs))
     | Some sec \<Rightarrow>
     rbind (ld8 sec off) (\<lambda>et.
     if et = 0x00 then Inr (Return (-2, None, vs)) else
     rbind (if et = EXFAT_ENTRY_BITMAP \<and> exfat_bitmap_clus vs = 0
            then rbind (ld32 sec (off + 20)) (\<lambda>fc. rbind (ld64 sec (off + 24)) (\<lambda>len.
                   Inr (vs\<lparr>exfat_bitmap_clus := fc, exfat_bitmap_size := len\<rparr>)))
            else Inr vs) (\<lambda>vs.
     if et \<noteq> EXFAT_ENTRY_FILE then Inr (Next vs) else
     rbind (ld8 sec (off + 1)) (\<lambda>secondary.
     if secondary = 0 then Inr (Next vs)
     else if secondary > 40 then Inr (Next vs) else
     rbind (exfat_collect_entries SETBUF_SIZE v rd d cluster (word_of_nat byte_off) (secondary + 1)) (\<lambda>(c, setbuf).
     if c \<noteq> 0 then Inr (Next vs) else
     rbind (exfat_parse_file_set setbuf secondary 256) (\<lambda>p. case p of
       None \<Rightarrow> Inr (Next vs)
     | Some (nb, info) \<Rightarrow>
         if \<not> exfat_name_matches nb want then Inr (Next vs) else
         let stream_byte = word_of_nat byte_off + 32 :: u32
         in Inr (Return (0, Some (info\<lparr>ei_dir_cluster := cluster,
                   ei_dir_byte_off := word_of_nat byte_off,
                   ei_file_entry_lba := lba,
                   ei_file_entry_off := word_of_nat off,
                   ei_stream_entry_lba := clus_to_lba v cluster + stream_byte div ucast (bytes_per_sec v),
                   ei_stream_entry_off := ucast (stream_byte mod ucast (bytes_per_sec v))\<rparr>), vs))))))))"

definition exfat_find_in_dir ::
  "nat \<Rightarrow> fat32_vol \<Rightarrow> 'd disk_read_fn \<Rightarrow> 'd \<Rightarrow> u32 \<Rightarrow> u8 list \<Rightarrow>
   (int \<times> exfat_entry_info option \<times> fat32_vol) res" where
  "exfat_find_in_dir fuel v rd d dir_cl name =
     (let want = map upcase (take 255 name)
      in rbind (chain_loop fuel v rd d (\<lambda>_. True)
           (\<lambda>cluster. for_loop (find_in_dir_ent v rd d want cluster)
                        (offsets32 (unat (cluster_bytes_of v)))) dir_cl v)
         (\<lambda>fl. case fl of Next vs \<Rightarrow> Inr (-3, None, vs) | Return r \<Rightarrow> Inr r))"

definition load_bitmap_ent ::
  "fat32_vol \<Rightarrow> 'd disk_read_fn \<Rightarrow> 'd \<Rightarrow> u32 \<Rightarrow> nat \<Rightarrow> unit \<Rightarrow> (unit, int \<times> fat32_vol) flow res" where
  "load_bitmap_ent v rd d cluster byte_off _ =
     rbind (entry_sector v rd d cluster byte_off) (\<lambda>(r, lba, off). case r of
       None \<Rightarrow> Inr (Return (-1, v))
     | Some sec \<Rightarrow>
     rbind (ld8 sec off) (\<lambda>et.
     if et = 0x00 then Inr (Return (-1, v))
     else if et = EXFAT_ENTRY_BITMAP
     then rbind (ld32 sec (off + 20)) (\<lambda>fc. rbind (ld64 sec (off + 24)) (\<lambda>len.
            Inr (Return (0, v\<lparr>exfat_bitmap_clus := fc, exfat_bitmap_size := len\<rparr>))))
     else Inr (Next ())))"

definition exfat_load_bitmap_info ::
  "nat \<Rightarrow> fat32_vol \<Rightarrow> 'd disk_read_fn \<Rightarrow> 'd \<Rightarrow> (int \<times> fat32_vol) res" where
  "exfat_load_bitmap_info fuel v rd d =
     (if exfat_bitmap_clus v \<noteq> 0 then Inr (0, v) else
      rbind (chain_loop fuel v rd d (\<lambda>_. True)
        (\<lambda>cluster. for_loop (load_bitmap_ent v rd d cluster) (offsets32 (unat (cluster_bytes_of v))))
        (root_clus v) ())
      (\<lambda>fl. case fl of Next _ \<Rightarrow> Inr (-1, v) | Return r \<Rightarrow> Inr r))"

subsection \<open>Writing entries\<close>

definition exfat_zero_cluster :: "fat32_vol \<Rightarrow> 'd disk_write_fn \<Rightarrow> 'd \<Rightarrow> u32 \<Rightarrow> (int \<times> 'd) res" where
  "exfat_zero_cluster v wr d clus =
     (if unat (bytes_per_sec v) > MAX_SECTOR_SIZE then Inl BadWrite else
      rbind (for_loop (\<lambda>lba d. rbind (wr d lba 1 (replicate (unat (bytes_per_sec v)) 0)) (\<lambda>(e, d').
               if e \<noteq> 0 then Inr (Return d') else Inr (Next d'))) (cluster_lbas v clus) d)
      (\<lambda>fl. case fl of Next d' \<Rightarrow> Inr (0, d') | Return d' \<Rightarrow> Inr (-1, d')))"

definition exfat_write_entry ::
  "fat32_vol \<Rightarrow> 'd disk_read_fn \<Rightarrow> 'd disk_write_fn \<Rightarrow> 'd \<Rightarrow> u32 \<Rightarrow> u32 \<Rightarrow> u8 list \<Rightarrow> (int \<times> 'd) res" where
  "exfat_write_entry v rd wr d dir_cl byte_off data =
     (if bytes_per_sec v = 0 then Inl DivByZero else
      let lba = clus_to_lba v dir_cl + byte_off div ucast (bytes_per_sec v);
          off_in_sec = unat (byte_off mod ucast (bytes_per_sec v))
      in rbind (read_sector MAX_SECTOR_SIZE rd d lba) (\<lambda>r. case r of
           None \<Rightarrow> Inr (-1, d)
         | Some sec \<Rightarrow>
         rbind (store sec off_in_sec data) (\<lambda>sec'.
         rbind (wr d lba 1 sec') (\<lambda>(e, d'). if e \<noteq> 0 then Inr (-1, d') else Inr (0, d')))))"

text \<open>The state of the scan of one cluster: the length of the current run of free entries and
  where it starts.\<close>

definition free_set_ent ::
  "fat32_vol \<Rightarrow> 'd disk_read_fn \<Rightarrow> 'd \<Rightarrow> u8 \<Rightarrow> u32 \<Rightarrow> nat \<Rightarrow> u32 \<times> u32 \<Rightarrow>
   (u32 \<times> u32, (u32 \<times> u32) option) flow res" where
  "free_set_ent v rd d total_entries cluster byte_off = (\<lambda>(run, run_start).
     rbind (entry_sector v rd d cluster byte_off) (\<lambda>(r, lba, off). case r of
       None \<Rightarrow> Inr (Return None)
     | Some sec \<Rightarrow>
     rbind (ld8 sec off) (\<lambda>et.
     if et = 0x00 \<and> (cluster_bytes_of v - word_of_nat byte_off) div 32 \<ge> ucast total_entries
     then Inr (Return (Some (cluster, word_of_nat byte_off)))
     else if et = 0x00 \<or> et = 0xFF
     then (let run_start' = (if run = 0 then word_of_nat byte_off else run_start);
               run' = run + 1
           in if run' \<ge> ucast total_entries then Inr (Return (Some (cluster, run_start')))
              else Inr (Next (run', run_start')))
     else Inr (Next (0, run_start)))))"

definition exfat_find_free_set ::
  "nat \<Rightarrow> fat32_vol \<Rightarrow> 'd disk_read_fn \<Rightarrow> 'd disk_write_fn \<Rightarrow> 'd \<Rightarrow> u32 \<Rightarrow> u8 \<Rightarrow>
   (int \<times> u32 \<times> u32 \<times> 'd) res" where
  "exfat_find_free_set fuel v rd wr d dir_cl total_entries =
     rbind (chain_loop fuel v rd d (\<lambda>_. True)
       (\<lambda>cluster prev.
          rbind (for_loop (free_set_ent v rd d total_entries cluster)
                   (offsets32 (unat (cluster_bytes_of v))) (0, 0)) (\<lambda>fl. case fl of
            Next _ \<Rightarrow> Inr (Next cluster)
          | Return r \<Rightarrow> Inr (Return r)))
       dir_cl dir_cl) (\<lambda>fl. case fl of
       Return None \<Rightarrow> Inr (-1, 0, 0, d)
     | Return (Some (cl, byte)) \<Rightarrow> Inr (0, cl, byte, d)
     | Next prev \<Rightarrow>
         rbind (exfat_alloc_cluster v rd wr d) (\<lambda>(new_cl, d1).
         if new_cl = 0 then Inr (-1, 0, 0, d1) else
         rbind (fat_write_fat_entry v rd wr d1 prev new_cl) (\<lambda>(_, d2).
         rbind (fat_write_fat_entry v rd wr d2 new_cl 0x0FFFFFFF) (\<lambda>(_, d3).
         rbind (exfat_zero_cluster v wr d3 new_cl) (\<lambda>(_, d4).
           Inr (0, new_cl, 0, d4))))))"

definition exfat_write_entry_set ::
  "fat32_vol \<Rightarrow> 'd disk_read_fn \<Rightarrow> 'd disk_write_fn \<Rightarrow> 'd \<Rightarrow> u32 \<Rightarrow> u32 \<Rightarrow> u8 list \<Rightarrow> u8 \<Rightarrow> (int \<times> 'd) res" where
  "exfat_write_entry_set v rd wr d dir_cl start_byte eset total_entries =
     rbind (exfat_checksum_entries eset total_entries) (\<lambda>csum.
     if total_entries > 40 then Inr (-1, d) else
     rbind (ld_bytes eset 0 (unat total_entries * 32)) (\<lambda>setbuf0.
     rbind (store setbuf0 2 [ucast (csum AND 0xFF), ucast (drop_bit 8 csum)]) (\<lambda>setbuf.
     rbind (for_loop (\<lambda>i d.
       rbind (ld_bytes setbuf (i * 32) 32) (\<lambda>data.
       rbind (exfat_write_entry v rd wr d dir_cl (start_byte + word_of_nat (i * 32)) data) (\<lambda>(e, d').
         if e \<noteq> 0 then Inr (Return d') else Inr (Next d')))) [0..<unat total_entries] d)
     (\<lambda>fl. case fl of Next d' \<Rightarrow> Inr (0, d') | Return d' \<Rightarrow> Inr (-1, d')))))"

subsection \<open>Allocating and writing file contents\<close>

definition alloc_chain_step ::
  "nat \<Rightarrow> fat32_vol \<Rightarrow> 'd disk_read_fn \<Rightarrow> 'd disk_write_fn \<Rightarrow> nat \<Rightarrow> u32 \<times> u32 \<times> 'd \<Rightarrow>
   (u32 \<times> u32 \<times> 'd, 'd) flow res" where
  "alloc_chain_step fuel v rd wr i = (\<lambda>(first, prev, d).
     rbind (exfat_alloc_cluster v rd wr d) (\<lambda>(cl, d1).
     if cl = 0
     then (if first \<noteq> 0 then rbind (exfat_free_chain fuel v rd wr d1 first) (\<lambda>(_, d2). Inr (Return d2))
           else Inr (Return d1))
     else let first' = (if first = 0 then cl else first)
          in rbind (if prev \<noteq> 0 then fat_write_fat_entry v rd wr d1 prev cl else Inr (0, d1)) (\<lambda>(_, d2).
             Inr (Next (first', cl, d2)))))"

definition exfat_alloc_chain_for_size ::
  "nat \<Rightarrow> fat32_vol \<Rightarrow> 'd disk_read_fn \<Rightarrow> 'd disk_write_fn \<Rightarrow> 'd \<Rightarrow> u32 \<Rightarrow> (u32 \<times> 'd) res" where
  "exfat_alloc_chain_for_size fuel v rd wr d bytes =
     (if bytes = 0 then Inr (0, d)
      else if cluster_bytes_of v = 0 then Inl DivByZero else
      let need = (bytes + cluster_bytes_of v - 1) div cluster_bytes_of v
      in rbind (for_loop (alloc_chain_step fuel v rd wr) [0..<unat need] (0, 0, d)) (\<lambda>fl. case fl of
           Return d' \<Rightarrow> Inr (0, d')
         | Next (first, prev, d1) \<Rightarrow>
             rbind (fat_write_fat_entry v rd wr d1 prev 0x0FFFFFFF) (\<lambda>(_, d2). Inr (first, d2))))"

definition exfat_write_chain ::
  "nat \<Rightarrow> fat32_vol \<Rightarrow> 'd disk_read_fn \<Rightarrow> 'd disk_write_fn \<Rightarrow> 'd \<Rightarrow> u32 \<Rightarrow> u8 list \<Rightarrow> u32 \<Rightarrow> (int \<times> 'd) res" where
  "exfat_write_chain fuel v rd wr d start data bytes =
     rbind (while_loop fuel (\<lambda>(cl, src, remaining, d). \<not> is_end_cluster cl \<and> remaining > 0)
       (\<lambda>(cl, src, remaining, d).
          rbind (for_loop (put_file_sector (ucast (bytes_per_sec v)) wr) (cluster_lbas v cl) (src, remaining, d))
            (\<lambda>fl. case fl of
               Return d' \<Rightarrow> Inr (Return d')
             | Next (src', remaining', d') \<Rightarrow>
                 rbind (fat_read_fat_entry v rd d' cl) (\<lambda>nx. Inr (Next (nx, src', remaining', d')))))
       (start, data, bytes, d))
     (\<lambda>fl. case fl of Next (_, _, _, d') \<Rightarrow> Inr (0, d') | Return d' \<Rightarrow> Inr (-1, d'))"

subsection \<open>Creating and updating files\<close>

definition exfat_create_entry ::
  "nat \<Rightarrow> fat32_vol \<Rightarrow> 'd disk_read_fn \<Rightarrow> 'd disk_write_fn \<Rightarrow> 'd \<Rightarrow> u32 \<Rightarrow> u8 list \<Rightarrow> bool \<Rightarrow>
   u8 list option \<Rightarrow> u32 \<Rightarrow> (int \<times> exfat_entry_info option \<times> 'd) res" where
  "exfat_create_entry fuel v rd wr d dir_cl name is_dir data bytes =
     (case exfat_build_entry_set name 0 (ucast bytes) is_dir of (r, set0, ntot) \<Rightarrow>
      if r \<noteq> 0 then Inr (-1, None, d) else
      let actual_bytes = (if is_dir then cluster_bytes_of v else bytes) in
      rbind (if actual_bytes > 0
             then rbind (exfat_alloc_chain_for_size fuel v rd wr d actual_bytes) (\<lambda>(fc, d1).
                  if fc = 0 then Inr (False, fc, d1)
                  else case data of
                    Some bs \<Rightarrow> if bytes > 0
                      then rbind (exfat_write_chain fuel v rd wr d1 fc bs bytes) (\<lambda>(_, d2). Inr (True, fc, d2))
                      else rbind (exfat_zero_cluster v wr d1 fc) (\<lambda>(_, d2). Inr (True, fc, d2))
                  | None \<Rightarrow> rbind (exfat_zero_cluster v wr d1 fc) (\<lambda>(_, d2). Inr (True, fc, d2)))
             else Inr (True, 0, d)) (\<lambda>(allocated, first_cluster, d2).
      if \<not> allocated then Inr (-2, None, d2) else
      rbind (store set0 52 (le_bytes 4 first_cluster)) (\<lambda>set1.
      rbind (store set1 56 (le_bytes 8 (ucast bytes :: u64))) (\<lambda>set2.
      rbind (store set2 40 (le_bytes 8 (ucast bytes :: u64))) (\<lambda>set3.
      rbind (exfat_find_free_set fuel v rd wr d2 dir_cl ntot) (\<lambda>(e, start_cl, start_byte, d3).
      if e \<noteq> 0 then Inr (-3, None, d3) else
      rbind (exfat_write_entry_set v rd wr d3 start_cl start_byte set3 ntot) (\<lambda>(e, d4).
      if e \<noteq> 0 then Inr (-4, None, d4) else
      Inr (0, Some \<lparr>ei_cluster = first_cluster, ei_size = ucast bytes, ei_is_dir = is_dir,
             ei_dir_cluster = start_cl, ei_dir_byte_off = start_byte,
             ei_file_entry_lba = clus_to_lba v start_cl + start_byte div ucast (bytes_per_sec v),
             ei_file_entry_off = ucast (start_byte mod ucast (bytes_per_sec v)),
             ei_stream_entry_lba = clus_to_lba v start_cl + (start_byte + 32) div ucast (bytes_per_sec v),
             ei_stream_entry_off = ucast ((start_byte + 32) mod ucast (bytes_per_sec v)),
             ei_name_len = 0, ei_secondary_count = 0, ei_attr = 0\<rparr>, d4))))))))"

definition exfat_update_entry ::
  "fat32_vol \<Rightarrow> 'd disk_read_fn \<Rightarrow> 'd disk_write_fn \<Rightarrow> 'd \<Rightarrow> exfat_entry_info \<Rightarrow> u8 list \<Rightarrow> u32 \<Rightarrow> u32 \<Rightarrow>
   bool \<Rightarrow> (int \<times> 'd) res" where
  "exfat_update_entry v rd wr d loc name first_cluster bytes is_dir =
     (case exfat_build_entry_set name first_cluster (ucast bytes) is_dir of (r, setbuf, ntot) \<Rightarrow>
      if r \<noteq> 0 then Inr (-1, d)
      else exfat_write_entry_set v rd wr d (ei_dir_cluster loc) (ei_dir_byte_off loc) setbuf ntot)"

end
