(* ===== verification/Fat_Api.thy ===== *)
theory Fat_Api
  imports Exfat
begin

text \<open>
  The public operations of \<open>src/kernel/fs_fat32.h\<close> on paths and on the root directory, with the
  dispatch between FAT32 and exFAT. Loops over path components are loops over \<open>path_steps\<close>.
  The results carry the return code, the bytes or entries stored for the caller, and the volume
  and device where they can change.
\<close>

subsection \<open>exFAT paths\<close>

definition exfat_follow_path ::
  "nat \<Rightarrow> fat32_vol \<Rightarrow> 'd disk_read_fn \<Rightarrow> 'd \<Rightarrow> u8 list \<Rightarrow>
   (int \<times> u32 \<times> exfat_entry_info option \<times> fat32_vol) res" where
  "exfat_follow_path fuel v rd d path =
     rbind (for_loop (\<lambda>(cname, more) (dir, v).
       rbind (exfat_find_in_dir fuel v rd d dir cname) (\<lambda>(r, found, v'). case found of
         None \<Rightarrow> Inr (Return (r, dir, None, v'))
       | Some info \<Rightarrow>
           if more
           then (if \<not> ei_is_dir info then Inr (Return (-3, dir, None, v'))
                 else Inr (Next (ei_cluster info, v')))
           else Inr (Return (0, dir, Some info, v'))))
       (path_steps 256 (skip_drive_prefix path)) (root_clus v, v))
     (\<lambda>fl. case fl of Next (dir, v') \<Rightarrow> Inr (0, dir, None, v') | Return r \<Rightarrow> Inr r)"

text \<open>A path without components leaves \<open>info\<close> uninitialised in \<open>exfat_read_file_path\<close>, which
  then reads it. The last component of the result is \<open>*out_bytes\<close>, when it is written.\<close>

definition exfat_read_file_path ::
  "nat \<Rightarrow> fat32_vol \<Rightarrow> 'd disk_read_fn \<Rightarrow> 'd \<Rightarrow> u8 list \<Rightarrow> u32 \<Rightarrow>
   (int \<times> u8 list \<times> u32 option \<times> fat32_vol) res" where
  "exfat_read_file_path fuel v rd d path max_bytes =
     rbind (exfat_follow_path fuel v rd d path) (\<lambda>(r, dir, found, v').
     if r \<noteq> 0 then Inr (r, [], None, v') else
     case found of
       None \<Rightarrow> Inl BadRead
     | Some info \<Rightarrow>
         if ei_is_dir info then Inr (-4, [], None, v') else
         let size32 = (if ei_size info > 0xFFFFFFFF then 0xFFFFFFFF else ucast (ei_size info)) in
         rbind (read_file_from_cluster fuel v' rd d (ei_cluster info) size32 max_bytes) (\<lambda>(c, out, n).
           Inr (c, out, Some n, v')))"

definition exfat_write_last ::
  "nat \<Rightarrow> fat32_vol \<Rightarrow> 'd disk_read_fn \<Rightarrow> 'd disk_write_fn \<Rightarrow> 'd \<Rightarrow> u32 \<Rightarrow> u8 list \<Rightarrow> u8 list \<Rightarrow> u32 \<Rightarrow>
   (int \<times> fat32_vol \<times> 'd) res" where
  "exfat_write_last fuel v rd wr d dir cname data bytes =
     rbind (exfat_find_in_dir fuel v rd d dir cname) (\<lambda>(r, found, v'). case found of
       Some info \<Rightarrow>
         rbind (if bytes > 0
                then rbind (exfat_alloc_chain_for_size fuel v' rd wr d bytes) (\<lambda>(fc, d1).
                     if fc = 0 then Inr (-7, fc, d1) else
                     rbind (exfat_write_chain fuel v' rd wr d1 fc data bytes) (\<lambda>(e, d2).
                     if e \<noteq> 0 then rbind (exfat_free_chain fuel v' rd wr d2 fc) (\<lambda>(_, d3). Inr (-8, fc, d3))
                     else Inr (0, fc, d2)))
                else Inr (0, 0, d)) (\<lambda>(c :: int, first_cluster, d3).
         if c \<noteq> 0 then Inr (c, v', d3) else
         rbind (if ei_cluster info \<noteq> 0 then exfat_free_chain fuel v' rd wr d3 (ei_cluster info)
                else Inr (0, d3)) (\<lambda>(_, d4).
         rbind (exfat_update_entry v' rd wr d4 info cname first_cluster bytes False) (\<lambda>(e, d5).
           Inr (e, v', d5))))
     | None \<Rightarrow>
         rbind (exfat_create_entry fuel v' rd wr d dir cname False (Some data) bytes) (\<lambda>(e, _, d1).
           Inr (e, v', d1)))"

definition exfat_write_file_path ::
  "nat \<Rightarrow> fat32_vol \<Rightarrow> 'd disk_read_fn \<Rightarrow> 'd disk_write_fn \<Rightarrow> 'd \<Rightarrow> u8 list \<Rightarrow> u8 list \<Rightarrow> u32 \<Rightarrow>
   (int \<times> fat32_vol \<times> 'd) res" where
  "exfat_write_file_path fuel v0 rd wr d path data bytes =
     rbind (exfat_load_bitmap_info fuel v0 rd d) (\<lambda>(_, v).
     rbind (for_loop (\<lambda>(cname, more) (dir, v, d).
       if more
       then rbind (exfat_find_in_dir fuel v rd d dir cname) (\<lambda>(r, found, v'). case found of
              None \<Rightarrow>
                rbind (exfat_create_entry fuel v' rd wr d dir cname True None 0) (\<lambda>(e, created, d1).
                case created of
                  None \<Rightarrow> Inr (Return (-5, v', d1))
                | Some info \<Rightarrow> Inr (Next (ei_cluster info, v', d1)))
            | Some info \<Rightarrow>
                if \<not> ei_is_dir info then Inr (Return (-6, v', d))
                else Inr (Next (ei_cluster info, v', d)))
       else rbind (exfat_write_last fuel v rd wr d dir cname data bytes) (\<lambda>r. Inr (Return r)))
       (path_steps 256 (skip_drive_prefix path)) (root_clus v, v, d))
     (\<lambda>fl. case fl of Next (_, v', d') \<Rightarrow> Inr (-1, v', d') | Return r \<Rightarrow> Inr r))"

definition exfat_ensure_dir_path ::
  "nat \<Rightarrow> fat32_vol \<Rightarrow> 'd disk_read_fn \<Rightarrow> 'd disk_write_fn \<Rightarrow> 'd \<Rightarrow> u8 list \<Rightarrow>
   (int \<times> fat32_vol \<times> 'd) res" where
  "exfat_ensure_dir_path fuel v rd wr d path =
     rbind (for_loop (\<lambda>(cname, more) (dir, v, d).
       rbind (exfat_find_in_dir fuel v rd d dir cname) (\<lambda>(r, found, v'). case found of
         None \<Rightarrow>
           rbind (exfat_create_entry fuel v' rd wr d dir cname True None 0) (\<lambda>(e, created, d1).
           case created of
             None \<Rightarrow> Inr (Return (-1, v', d1))
           | Some info \<Rightarrow> Inr (Next (ei_cluster info, v', d1)))
       | Some info \<Rightarrow>
           if \<not> ei_is_dir info then Inr (Return (-2, v', d))
           else Inr (Next (ei_cluster info, v', d))))
       (path_steps 256 (skip_drive_prefix path)) (root_clus v, v, d))
     (\<lambda>fl. case fl of Next (_, v', d') \<Rightarrow> Inr (0, v', d') | Return r \<Rightarrow> Inr r)"

subsection \<open>Listings\<close>

record fat32_dirent =
  ls_name83 :: "u8 list"
  ls_attr :: u8
  ls_size :: u32

definition exfat_list_ent ::
  "fat32_vol \<Rightarrow> 'd disk_read_fn \<Rightarrow> 'd \<Rightarrow> int \<Rightarrow> u32 \<Rightarrow> nat \<Rightarrow> fat32_dirent list \<Rightarrow>
   (fat32_dirent list, int \<times> fat32_dirent list) flow res" where
  "exfat_list_ent v rd d max_items cluster byte_off acc =
     (if \<not> int (length acc) < max_items then Inr (Next acc) else
      rbind (entry_sector v rd d cluster byte_off) (\<lambda>(r, lba, off). case r of
        None \<Rightarrow> Inr (Return (-1, acc))
      | Some sec \<Rightarrow>
      rbind (ld8 sec off) (\<lambda>et.
      if et = 0x00 then Inr (Return (0, acc))
      else if et \<noteq> EXFAT_ENTRY_FILE then Inr (Next acc) else
      rbind (ld8 sec (off + 1)) (\<lambda>secondary.
      if secondary = 0 \<or> secondary > 40 then Inr (Next acc)
      else if (unat secondary + 1) * 32 + byte_off > unat (cluster_bytes_of v) then Inr (Next acc) else
      rbind (exfat_collect_entries SETBUF_SIZE v rd d cluster (word_of_nat byte_off) (secondary + 1)) (\<lambda>(c, setbuf).
      if c \<noteq> 0 then Inr (Next acc) else
      rbind (exfat_parse_file_set setbuf secondary 256) (\<lambda>p. case p of
        None \<Rightarrow> Inr (Next acc)
      | Some (nb, info) \<Rightarrow>
          Inr (Next (acc @ [\<lparr>ls_name83 = take 12 (takeWhile (\<lambda>c. c \<noteq> 0) nb),
                            ls_attr = (if ei_is_dir info then ATTR_DIR else ATTR_ARCHIVE),
                            ls_size = ucast (ei_size info AND 0xFFFFFFFF)\<rparr>]))))))))"

text \<open>On a read error \<open>*out_count\<close> is not written: the entry list of the result is then empty.\<close>

definition exfat_list_dir ::
  "nat \<Rightarrow> fat32_vol \<Rightarrow> 'd disk_read_fn \<Rightarrow> 'd \<Rightarrow> u32 \<Rightarrow> int \<Rightarrow> (int \<times> fat32_dirent list) res" where
  "exfat_list_dir fuel v rd d dir_cl max_items =
     rbind (chain_loop fuel v rd d (\<lambda>_. True)
       (\<lambda>cluster. for_loop (exfat_list_ent v rd d max_items cluster)
                    (offsets32 (unat (cluster_bytes_of v)))) dir_cl [])
     (\<lambda>fl. case fl of
        Next acc \<Rightarrow> Inr (0, acc)
      | Return (c, acc) \<Rightarrow> Inr (c, if c = 0 then acc else []))"

definition exfat_list_dir_path ::
  "nat \<Rightarrow> fat32_vol \<Rightarrow> 'd disk_read_fn \<Rightarrow> 'd \<Rightarrow> u8 list \<Rightarrow> int \<Rightarrow>
   (int \<times> fat32_dirent list \<times> fat32_vol) res" where
  "exfat_list_dir_path fuel v rd d path max_items =
     rbind (for_loop (\<lambda>(cname, more) (dir, v).
       rbind (exfat_find_in_dir fuel v rd d dir cname) (\<lambda>(r, found, v'). case found of
         None \<Rightarrow> Inr (Return (r, v'))
       | Some info \<Rightarrow>
           if \<not> ei_is_dir info then Inr (Return (-2, v'))
           else Inr (Next (ei_cluster info, v'))))
       (path_steps 256 (skip_drive_prefix path)) (root_clus v, v)) (\<lambda>fl. case fl of
       Return (c, v') \<Rightarrow> Inr (c, [], v')
     | Next (dir, v') \<Rightarrow>
         rbind (exfat_list_dir fuel v' rd d dir max_items) (\<lambda>(c, es). Inr (c, es, v')))"

text \<open>The listing loop of \<open>fat32_list_root_array\<close> and \<open>fat32_list_dir_path\<close>; the second one also
  skips the entries whose name begins with a dot.\<close>

definition list_ent ::
  "bool \<Rightarrow> int \<Rightarrow> u32 \<Rightarrow> nat \<Rightarrow> u8 list \<Rightarrow> nat \<Rightarrow> fat32_dirent list \<Rightarrow>
   (fat32_dirent list, fat32_dirent list) flow res" where
  "list_ent skip_dots max_items lba s sec off acc =
     (if int (length acc) \<ge> max_items then Inr (Return acc) else
      rbind (ld8 sec off) (\<lambda>c0.
      if c0 = 0x00 then Inr (Return acc)
      else if c0 = 0xE5 then Inr (Next acc)
      else rbind (dirent_at sec off) (\<lambda>de.
        if de_attr de = ATTR_LONG_NAME then Inr (Next acc)
        else if skip_dots \<and> c0 = 46 then Inr (Next acc)
        else Inr (Next (acc @ [\<lparr>ls_name83 = dotted_name (de_name de), ls_attr = de_attr de,
                               ls_size = de_file_size de\<rparr>])))))"

definition list_entries ::
  "nat \<Rightarrow> bool \<Rightarrow> fat32_vol \<Rightarrow> 'd disk_read_fn \<Rightarrow> 'd \<Rightarrow> u32 \<Rightarrow> int \<Rightarrow> fat32_dirent list res" where
  "list_entries fuel skip_dots v rd d cl max_items =
     rbind (dir_walk fuel MAX_SECTOR_SIZE (unat (bytes_per_sec v)) v rd d (\<lambda>acc. acc)
              (list_ent skip_dots max_items) cl [])
       (\<lambda>fl. case fl of Next acc \<Rightarrow> Inr acc | Return acc \<Rightarrow> Inr acc)"

definition fat32_list_root_array ::
  "nat \<Rightarrow> fat32_vol \<Rightarrow> 'd disk_read_fn \<Rightarrow> 'd \<Rightarrow> int \<Rightarrow> (int \<times> fat32_dirent list) res" where
  "fat32_list_root_array fuel v rd d max_items =
     (if fs_type v = FAT_FS_EXFAT then exfat_list_dir fuel v rd d (root_clus v) max_items
      else if max_items \<le> 0 then Inr (-1, [])
      else rbind (list_entries fuel False v rd d (root_clus v) max_items) (\<lambda>es. Inr (0, es)))"

text \<open>\<open>fat32_list_root\<close> prints the entries; the model returns what it prints.\<close>

definition list_root_ent ::
  "u32 \<Rightarrow> nat \<Rightarrow> u8 list \<Rightarrow> nat \<Rightarrow> (bool \<times> u8 list \<times> u32) list \<Rightarrow>
   ((bool \<times> u8 list \<times> u32) list, int \<times> (bool \<times> u8 list \<times> u32) list) flow res" where
  "list_root_ent lba s sec off out =
     rbind (ld8 sec off) (\<lambda>c0.
     if c0 = 0x00 then Inr (Return (0, out))
     else if c0 = 0xE5 then Inr (Next out)
     else rbind (dirent_at sec off) (\<lambda>de.
       if de_attr de = ATTR_LONG_NAME then Inr (Next out)
       else Inr (Next (out @ [(de_attr de AND ATTR_DIR \<noteq> 0,
              takeWhile (\<lambda>c. c \<noteq> 0) (trim_spaces (de_name de)), de_file_size de)]))))"

definition fat32_list_root ::
  "nat \<Rightarrow> fat32_vol \<Rightarrow> 'd disk_read_fn \<Rightarrow> 'd \<Rightarrow> (int \<times> (bool \<times> u8 list \<times> u32) list) res" where
  "fat32_list_root fuel v rd d =
     (if fs_type v = FAT_FS_EXFAT
      then rbind (exfat_list_dir fuel v rd d (root_clus v) 64) (\<lambda>(c, es).
           if c \<noteq> 0 then Inr (-1, [])
           else Inr (0, map (\<lambda>e. (ls_attr e AND ATTR_DIR \<noteq> 0, ls_name83 e, ls_size e)) es))
      else rbind (dir_walk fuel MAX_SECTOR_SIZE (unat (bytes_per_sec v)) v rd d (\<lambda>out. (-2, out))
                    list_root_ent (root_clus v) [])
             (\<lambda>fl. case fl of Next out \<Rightarrow> Inr (0, out) | Return r \<Rightarrow> Inr r))"

subsection \<open>Paths\<close>

definition fat32_ensure_dir_path ::
  "nat \<Rightarrow> fat32_vol \<Rightarrow> 'd disk_read_fn \<Rightarrow> 'd disk_write_fn \<Rightarrow> 'd \<Rightarrow> u8 list \<Rightarrow> (int \<times> fat32_vol \<times> 'd) res" where
  "fat32_ensure_dir_path fuel v rd wr d path =
     (if fs_type v = FAT_FS_EXFAT then exfat_ensure_dir_path fuel v rd wr d path else
      rbind (for_loop (\<lambda>(cname, more) (dir_cl, d).
        rbind (ensure_directory fuel v rd wr d dir_cl (make_name83 cname)) (\<lambda>(r, next_cl, d').
        if r \<noteq> 0 then Inr (Return (r, d'))
        else Inr (Next (if next_cl = 0 then root_clus v else next_cl, d'))))
        (path_steps 13 (skip_drive_prefix path)) (root_clus v, d))
      (\<lambda>fl. case fl of Next (_, d') \<Rightarrow> Inr (0, v, d') | Return (r, d') \<Rightarrow> Inr (r, v, d')))"

text \<open>One iteration of the loop over the components of a path, with the directory it is in.\<close>

definition read_path_step ::
  "nat \<Rightarrow> fat32_vol \<Rightarrow> 'd disk_read_fn \<Rightarrow> 'd \<Rightarrow> u32 \<Rightarrow> u8 list \<times> bool \<Rightarrow> u32 \<Rightarrow>
   (u32, int \<times> u8 list \<times> u32) flow res" where
  "read_path_step fuel v rd d max_bytes = (\<lambda>(cname, more) dir_cl.
     rbind (dir_find_entry fuel v rd d dir_cl (make_name83 cname)) (\<lambda>(r, found). case found of
       None \<Rightarrow> Inr (Return (-2, [], 0))
     | Some (de, _) \<Rightarrow>
         let cl = dirent_start_cluster de in
         if more
         then (if de_attr de AND ATTR_DIR = 0 then Inr (Return (-3, [], 0))
               else Inr (Next (if cl = 0 then root_clus v else cl)))
         else if de_attr de AND ATTR_DIR \<noteq> 0 then Inr (Return (-4, [], 0))
         else rbind (read_file_from_cluster fuel v rd d cl (de_file_size de) max_bytes) (\<lambda>r. Inr (Return r))))"

definition fat32_read_file_path ::
  "nat \<Rightarrow> fat32_vol \<Rightarrow> 'd disk_read_fn \<Rightarrow> 'd \<Rightarrow> u8 list \<Rightarrow> u32 \<Rightarrow>
   (int \<times> u8 list \<times> u32 option \<times> fat32_vol) res" where
  "fat32_read_file_path fuel v rd d path max_bytes =
     (if fs_type v = FAT_FS_EXFAT then exfat_read_file_path fuel v rd d path max_bytes else
      rbind (for_loop (read_path_step fuel v rd d max_bytes)
        (path_steps 13 (skip_drive_prefix path)) (root_clus v))
      (\<lambda>fl. case fl of
         Next _ \<Rightarrow> Inr (-5, [], Some 0, v)
       | Return (c, out, n) \<Rightarrow> Inr (c, out, Some n, v)))"

text \<open>The last component of a path that is written: the cluster of the entry or a new one, the
  data, then the entry.\<close>

definition fat32_write_last ::
  "nat \<Rightarrow> fat32_vol \<Rightarrow> 'd disk_read_fn \<Rightarrow> 'd disk_write_fn \<Rightarrow> 'd \<Rightarrow> u32 \<Rightarrow> u8 list \<Rightarrow>
   (dirent_t \<times> slot) option \<Rightarrow> u8 list \<Rightarrow> u32 \<Rightarrow> (int \<times> 'd) res" where
  "fat32_write_last fuel v rd wr d dir_cl nm found data bytes =
     (let cl0 = (case found of Some (de, _) \<Rightarrow> dirent_start_cluster de | None \<Rightarrow> 0);
          maxb = ucast (sec_per_clus v) * ucast (bytes_per_sec v);
          sz = (if bytes < maxb then bytes else maxb)
      in
      if (case found of Some (de, _) \<Rightarrow> de_attr de AND ATTR_DIR \<noteq> 0 | None \<Rightarrow> False) then Inr (-4, d) else
      rbind (if cl0 = 0 then fat_alloc_free_cluster v rd wr d else Inr (cl0, d)) (\<lambda>(target_cl, d1).
      if target_cl = 0 then Inr (-5, d1) else
      rbind (write_single_cluster v rd wr d1 target_cl data bytes) (\<lambda>(w, d2).
      if w \<noteq> 0 then Inr (-6, d2) else
      case found of
        Some (_, lba, s, off) \<Rightarrow>
          rbind (read_sector MAX_SECTOR_SIZE rd d2 (lba + word_of_nat s)) (\<lambda>r. case r of
            None \<Rightarrow> Inr (-7, d2)
          | Some sec \<Rightarrow>
              rbind (update_dirent sec off target_cl sz) (\<lambda>sec'.
              rbind (wr d2 (lba + word_of_nat s) 1 sec') (\<lambda>(e, d3).
                if e \<noteq> 0 then Inr (-8, d3) else Inr (0, d3))))
      | None \<Rightarrow>
          rbind (create_dir_entry fuel v rd wr d2 dir_cl nm ATTR_ARCHIVE target_cl sz) (\<lambda>(e, d3).
            if e \<noteq> 0 then Inr (-9, d3) else Inr (0, d3)))))"

definition write_path_step ::
  "nat \<Rightarrow> fat32_vol \<Rightarrow> 'd disk_read_fn \<Rightarrow> 'd disk_write_fn \<Rightarrow> u8 list \<Rightarrow> u32 \<Rightarrow> u8 list \<times> bool \<Rightarrow> u32 \<times> 'd \<Rightarrow>
   (u32 \<times> 'd, int \<times> 'd) flow res" where
  "write_path_step fuel v rd wr data bytes = (\<lambda>(cname, more) (dir_cl, d).
     rbind (dir_find_entry fuel v rd d dir_cl (make_name83 cname)) (\<lambda>(r, found).
     if more
     then (case found of
             None \<Rightarrow>
               rbind (ensure_directory fuel v rd wr d dir_cl (make_name83 cname)) (\<lambda>(er, next_cl, d').
                 if er \<noteq> 0 then Inr (Return (er, d')) else Inr (Next (next_cl, d')))
           | Some (de, _) \<Rightarrow>
               if de_attr de AND ATTR_DIR = 0 then Inr (Return (-3, d))
               else let cl = dirent_start_cluster de
                    in Inr (Next (if cl = 0 then root_clus v else cl, d)))
     else rbind (fat32_write_last fuel v rd wr d dir_cl (make_name83 cname) found data bytes)
            (\<lambda>r. Inr (Return r))))"

definition fat32_write_file_path ::
  "nat \<Rightarrow> fat32_vol \<Rightarrow> 'd disk_read_fn \<Rightarrow> 'd disk_write_fn \<Rightarrow> 'd \<Rightarrow> u8 list \<Rightarrow> u8 list \<Rightarrow> u32 \<Rightarrow>
   (int \<times> fat32_vol \<times> 'd) res" where
  "fat32_write_file_path fuel v rd wr d path data bytes =
     (if fs_type v = FAT_FS_EXFAT then exfat_write_file_path fuel v rd wr d path data bytes else
      rbind (for_loop (write_path_step fuel v rd wr data bytes)
        (path_steps 13 (skip_drive_prefix path)) (root_clus v, d))
      (\<lambda>fl. case fl of Next (_, d') \<Rightarrow> Inr (-10, v, d') | Return (r, d') \<Rightarrow> Inr (r, v, d')))"

definition fat32_list_dir_path ::
  "nat \<Rightarrow> fat32_vol \<Rightarrow> 'd disk_read_fn \<Rightarrow> 'd \<Rightarrow> u8 list \<Rightarrow> int \<Rightarrow>
   (int \<times> fat32_dirent list \<times> fat32_vol) res" where
  "fat32_list_dir_path fuel v rd d path max_items =
     (if fs_type v = FAT_FS_EXFAT then exfat_list_dir_path fuel v rd d path max_items else
      if max_items \<le> 0 then Inr (-1, [], v) else
      rbind (for_loop (\<lambda>(cname, more) dir_cl.
        rbind (dir_find_entry fuel v rd d dir_cl (make_name83 cname)) (\<lambda>(r, found). case found of
          None \<Rightarrow> Inr (Return (-2))
        | Some (de, _) \<Rightarrow>
            if de_attr de AND ATTR_DIR = 0 then Inr (Return (if more then -4 else -3))
            else let cl = dirent_start_cluster de in Inr (Next (if cl = 0 then root_clus v else cl))))
        (path_steps 13 (skip_drive_prefix path)) (root_clus v)) (\<lambda>fl. case fl of
        Return c \<Rightarrow> Inr (c, [], v)
      | Next dir_cl \<Rightarrow>
          rbind (list_entries fuel True v rd d dir_cl max_items) (\<lambda>es. Inr (0, es, v))))"

text \<open>\<open>fat32_read_file\<close> reads a file of the root directory by its 8.3 name. The state of the
  search is the start cluster and the size, zero until an entry is found.\<close>

definition root_file_ent ::
  "u8 list \<Rightarrow> u32 \<Rightarrow> nat \<Rightarrow> u8 list \<Rightarrow> nat \<Rightarrow> unit \<Rightarrow> (unit, int \<times> u32 \<times> u32) flow res" where
  "root_file_ent name83 lba s sec off _ =
     rbind (ld8 sec off) (\<lambda>c0.
     if c0 = 0x00 then Inr (Return (0, 0, 0))
     else if c0 = 0xE5 then Inr (Next ())
     else rbind (dirent_at sec off) (\<lambda>de.
       if de_attr de = ATTR_LONG_NAME then Inr (Next ())
       else if match_name83 (de_name de) name83
       then Inr (Return (0, dirent_start_cluster de, de_file_size de))
       else Inr (Next ())))"

definition fat32_read_file ::
  "nat \<Rightarrow> fat32_vol \<Rightarrow> 'd disk_read_fn \<Rightarrow> 'd \<Rightarrow> u8 list \<Rightarrow> u32 \<Rightarrow>
   (int \<times> u8 list \<times> u32 option \<times> fat32_vol) res" where
  "fat32_read_file fuel v rd d name83 max_bytes =
     (if fs_type v = FAT_FS_EXFAT then fat32_read_file_path fuel v rd d name83 max_bytes else
      rbind (dir_walk fuel MAX_SECTOR_SIZE (unat (bytes_per_sec v)) v rd d (\<lambda>_. (-2, 0, 0))
               (root_file_ent name83) (root_clus v) ())
      (\<lambda>fl. case (case fl of Next _ \<Rightarrow> (0, 0, 0) | Return r \<Rightarrow> r) of (r, start_clus, file_size) \<Rightarrow>
        if r \<noteq> 0 then Inr (r, [], Some 0, v)
        else if start_clus = 0 then Inr (-3, [], Some 0, v)
        else rbind (read_file_from_cluster fuel v rd d start_clus file_size max_bytes) (\<lambda>(c, out, n).
          Inr (if c = 0 then 0 else -4, out, Some n, v))))"

end
