(* ===== verification/Byte_Memory.thy ===== *)
theory Byte_Memory
  imports Kernel_Prelude
begin

text \<open>
  \<open>string.c\<close>: the memory and formatting routines of the kernel. Memory is a partial map from
  64-bit addresses to bytes, so that overlapping operands are what they are in the source and an
  access to an unmapped address is a fault. The locale \<open>byte_mover\<close> is the contract of a copying
  routine; \<open>memcpy\<close> provides it for separate operands and \<open>memmove\<close> for all.
\<close>

type_synonym mem = "u64 \<Rightarrow> u8 option"

subsection \<open>Memory\<close>

definition mld :: "mem \<Rightarrow> u64 \<Rightarrow> u8 res" where
  "mld m a = (case m a of None \<Rightarrow> Inl BadRead | Some b \<Rightarrow> Inr b)"

definition mst :: "mem \<Rightarrow> u64 \<Rightarrow> u8 \<Rightarrow> mem res" where
  "mst m a b = (case m a of None \<Rightarrow> Inl BadWrite | Some _ \<Rightarrow> Inr (m(a \<mapsto> b)))"

fun memset_loop :: "nat \<Rightarrow> u64 \<Rightarrow> u8 \<Rightarrow> mem \<Rightarrow> mem res" where
  "memset_loop 0 p c m = Inr m"
| "memset_loop (Suc n) p c m = rbind (mst m p c) (memset_loop n (p + 1) c)"

definition memset :: "u64 \<Rightarrow> int \<Rightarrow> u64 \<Rightarrow> mem \<Rightarrow> mem res" where
  "memset dst c n m = memset_loop (unat n) dst (word_of_int c) m"

text \<open>\<open>while (n--) *d++ = *s++;\<close>\<close>

fun copy_up :: "nat \<Rightarrow> u64 \<Rightarrow> u64 \<Rightarrow> mem \<Rightarrow> mem res" where
  "copy_up 0 d s m = Inr m"
| "copy_up (Suc n) d s m = rbind (mld m s) (\<lambda>b. rbind (mst m d b) (copy_up n (d + 1) (s + 1)))"

text \<open>\<open>while (n--) *--d = *--s;\<close>\<close>

fun copy_down :: "nat \<Rightarrow> u64 \<Rightarrow> u64 \<Rightarrow> mem \<Rightarrow> mem res" where
  "copy_down 0 d s m = Inr m"
| "copy_down (Suc n) d s m =
     rbind (mld m (s - 1)) (\<lambda>b. rbind (mst m (d - 1) b) (copy_down n (d - 1) (s - 1)))"

definition memcpy :: "u64 \<Rightarrow> u64 \<Rightarrow> u64 \<Rightarrow> mem \<Rightarrow> mem res" where
  "memcpy dst src n m = copy_up (unat n) dst src m"

definition memmove :: "u64 \<Rightarrow> u64 \<Rightarrow> u64 \<Rightarrow> mem \<Rightarrow> mem res" where
  "memmove dst src n m =
     (if dst = src \<or> n = 0 then Inr m
      else if dst < src then copy_up (unat n) dst src m
      else copy_down (unat n) (dst + n) (src + n) m)"

fun memcmp_loop :: "nat \<Rightarrow> u64 \<Rightarrow> u64 \<Rightarrow> mem \<Rightarrow> int res" where
  "memcmp_loop 0 p q m = Inr 0"
| "memcmp_loop (Suc n) p q m =
     rbind (mld m p) (\<lambda>x. rbind (mld m q) (\<lambda>y.
       if x \<noteq> y then Inr (uint x - uint y) else memcmp_loop n (p + 1) (q + 1) m))"

definition memcmp :: "u64 \<Rightarrow> u64 \<Rightarrow> u64 \<Rightarrow> mem \<Rightarrow> int res" where
  "memcmp a b n m = memcmp_loop (unat n) a b m"

subsection \<open>Ranges of addresses\<close>

definition rng :: "u64 \<Rightarrow> nat \<Rightarrow> u64 set" where
  "rng a n = {x. unat a \<le> unat x \<and> unat x < unat a + n}"

definition mapped :: "mem \<Rightarrow> u64 \<Rightarrow> nat \<Rightarrow> bool" where
  "mapped m a n \<longleftrightarrow> unat a + n \<le> 2 ^ 64 \<and> rng a n \<subseteq> dom m"

text \<open>What a copy leaves behind.\<close>

definition moved :: "u64 \<Rightarrow> u64 \<Rightarrow> nat \<Rightarrow> mem \<Rightarrow> mem" where
  "moved d s n m x = (if x \<in> rng d n then m (s + (x - d)) else m x)"

lemma rng_0 [simp]: "rng a 0 = {}"
  by (auto simp: rng_def)

lemma rng_Suc: "unat a + Suc n \<le> 2 ^ 64 \<Longrightarrow> rng a (Suc n) = insert a (rng (a + 1) n)"
proof -
  assume a: "unat a + Suc n \<le> 2 ^ 64"
  show ?thesis
  proof (cases n)
    case 0
    then show ?thesis by (auto simp: rng_def word_unat_eq_iff)
  next
    case (Suc k)
    with a have "unat (a + 1) = unat a + 1" by (simp add: unat_word_ariths)
    then show ?thesis by (auto simp: rng_def word_unat_eq_iff)
  qed
qed

lemma rng_last: "unat a + Suc n \<le> 2 ^ 64 \<Longrightarrow> rng a (Suc n) = insert (a + word_of_nat n) (rng a n)"
proof -
  assume a: "unat a + Suc n \<le> 2 ^ 64"
  then have "unat (a + word_of_nat n) = unat a + n" by (simp add: unat_word_ariths unat_of_nat)
  then show ?thesis by (auto simp: rng_def word_unat_eq_iff)
qed

lemma mapped_Suc:
  "mapped m a (Suc n) \<Longrightarrow> (\<exists>b. m a = Some b) \<and> (n = 0 \<or> unat (a + 1) = unat a + 1 \<and> mapped m (a + 1) n)"
proof -
  assume h: "mapped m a (Suc n)"
  then have r: "rng a (Suc n) = insert a (rng (a + 1) n)" by (simp add: mapped_def rng_Suc)
  show ?thesis
  proof (cases n)
    case (Suc k)
    with h have "unat (a + 1) = unat a + 1" by (simp add: mapped_def unat_word_ariths)
    with h r Suc show ?thesis by (auto simp: mapped_def)
  qed (use h r in \<open>auto simp: mapped_def\<close>)
qed

lemma mapped_dom: "mapped m a n \<Longrightarrow> dom m \<subseteq> dom m' \<Longrightarrow> mapped m' a n"
  unfolding mapped_def by blast

lemma mapped_less: "mapped m a n \<Longrightarrow> k \<le> n \<Longrightarrow> mapped m a k"
  by (auto simp: mapped_def rng_def)

lemma mapped_nth: "mapped m a n \<Longrightarrow> i < n \<Longrightarrow> unat (a + word_of_nat i) = unat a + i \<and> a + word_of_nat i \<in> dom m"
proof -
  assume h: "mapped m a n" "i < n"
  then have "unat (a + word_of_nat i) = unat a + i" by (simp add: mapped_def unat_word_ariths unat_of_nat)
  moreover from this h have "a + word_of_nat i \<in> rng a n" by (simp add: rng_def)
  ultimately show ?thesis using h by (auto simp: mapped_def)
qed

lemma mld_Some [simp]: "m a = Some b \<Longrightarrow> mld m a = Inr b"
  by (simp add: mld_def)

lemma mst_Some [simp]: "m a = Some b \<Longrightarrow> mst m a c = Inr (m(a \<mapsto> c))"
  by (simp add: mst_def)

lemma rng_shift:
  assumes "x \<in> rng d n" and "unat s + n \<le> 2 ^ 64"
  shows "unat (s + (x - d)) = unat s + (unat x - unat d)" and "s + (x - d) \<in> rng s n"
proof -
  have "unat (x - d) = unat x - unat d" using assms(1) by (simp add: rng_def unat_sub_if')
  then show *: "unat (s + (x - d)) = unat s + (unat x - unat d)"
    using assms by (auto simp: rng_def unat_word_ariths intro!: mod_less)
  show "s + (x - d) \<in> rng s n" using assms by (auto simp: rng_def *)
qed

lemma dom_moved: "mapped m s n \<Longrightarrow> rng d n \<subseteq> dom m \<Longrightarrow> dom (moved d s n m) = dom m"
proof -
  assume h: "mapped m s n" "rng d n \<subseteq> dom m"
  have "s + (x - d) \<in> dom m" if "x \<in> rng d n" for x
    using rng_shift(2) [OF that] h(1) by (auto simp: mapped_def)
  then show ?thesis using h(2) by (auto simp: moved_def dom_def split: if_splits)
qed

subsection \<open>Copying\<close>

lemma copy_up_moves:
  assumes "mapped m s n" and "mapped m d n" and "d \<le> s \<or> rng d n \<inter> rng s n = {}"
  shows "copy_up n d s m = Inr (moved d s n m)"
  using assms
proof (induction n arbitrary: d s m)
  case 0
  then show ?case by (simp add: moved_def fun_eq_iff)
next
  case (Suc n)
  have lim: "unat d + Suc n \<le> 2 ^ 64" "unat s + Suc n \<le> 2 ^ 64" using Suc.prems by (simp_all add: mapped_def)
  obtain b where b: "m s = Some b" using mapped_Suc [OF Suc.prems(1)] by blast
  obtain e where e: "m d = Some e" using mapped_Suc [OF Suc.prems(2)] by blast
  let ?m = "m(d \<mapsto> b)"
  have rd: "rng d (Suc n) = insert d (rng (d + 1) n)" by (rule rng_Suc [OF lim(1)])
  have step: "moved d s (Suc n) m = moved (d + 1) (s + 1) n ?m"
  proof
    fix x
    have "d \<noteq> s + (x - d)" if "x \<in> rng (d + 1) n" "x \<noteq> d"
    proof
      assume eq: "d = s + (x - d)"
      have x: "x \<in> rng d (Suc n)" using that rd by simp
      then have "unat d < unat x" using that(2) by (auto simp: rng_def word_unat_eq_iff)
      with rng_shift [OF x lim(2)] eq Suc.prems(3) show False
        by (auto simp: rng_def word_le_nat_alt)
    qed
    then show "moved d s (Suc n) m x = moved (d + 1) (s + 1) n ?m x"
      by (auto simp: moved_def rd b)
  qed
  show ?case
  proof (cases n)
    case 0
    then show ?thesis using step b e by (simp add: moved_def fun_eq_iff)
  next
    case (Suc k)
    then have ms: "unat (s + 1) = unat s + 1" "mapped m (s + 1) n" and md: "unat (d + 1) = unat d + 1" "mapped m (d + 1) n"
      using mapped_Suc [OF Suc.prems(1)] mapped_Suc [OF Suc.prems(2)] by auto
    have "mapped ?m (s + 1) n" "mapped ?m (d + 1) n" using ms(2) md(2) by (auto intro: mapped_dom)
    moreover have "d + 1 \<le> s + 1 \<or> rng (d + 1) n \<inter> rng (s + 1) n = {}"
      using Suc.prems(3) rd rng_Suc [OF lim(2)] ms(1) md(1) by (auto simp: word_le_nat_alt)
    ultimately have "copy_up n (d + 1) (s + 1) ?m = Inr (moved (d + 1) (s + 1) n ?m)" by (rule Suc.IH)
    with b e step show ?thesis by simp
  qed
qed

lemma copy_down_moves:
  assumes "mapped m s n" and "mapped m d n" and "s \<le> d"
  shows "copy_down n (d + word_of_nat n) (s + word_of_nat n) m = Inr (moved d s n m)"
  using assms
proof (induction n arbitrary: m)
  case 0
  then show ?case by (simp add: moved_def fun_eq_iff)
next
  case (Suc n)
  have lim: "unat d + Suc n \<le> 2 ^ 64" "unat s + Suc n \<le> 2 ^ 64" using Suc.prems by (simp_all add: mapped_def)
  let ?d = "d + word_of_nat n" and ?s = "s + word_of_nat n"
  obtain b where b: "m ?s = Some b" using mapped_nth [OF Suc.prems(1), of n] by auto
  obtain e where e: "m ?d = Some e" using mapped_nth [OF Suc.prems(2), of n] by auto
  let ?m = "m(?d \<mapsto> b)"
  have rd: "rng d (Suc n) = insert ?d (rng d n)" by (rule rng_last [OF lim(1)])
  have ud: "unat ?d = unat d + n" using mapped_nth [OF Suc.prems(2), of n] by simp
  have step: "moved d s (Suc n) m = moved d s n ?m"
  proof
    fix x
    have "?d \<noteq> s + (x - d)" if "x \<in> rng d n"
    proof
      assume eq: "?d = s + (x - d)"
      from that have "unat x < unat d + n" by (simp add: rng_def)
      moreover from that rd have "unat (s + (x - d)) = unat s + (unat x - unat d)"
        by (intro rng_shift [OF _ lim(2)]) simp
      ultimately have "unat ?d < unat d + n" using eq Suc.prems(3) that unfolding eq word_le_nat_alt rng_def by simp
      with ud show False by simp
    qed
    moreover have "?d \<notin> rng d n" using ud by (simp add: rng_def)
    ultimately show "moved d s (Suc n) m x = moved d s n ?m x"
      by (auto simp: moved_def rd b)
  qed
  have "mapped ?m s n" "mapped ?m d n"
    using Suc.prems(1,2) by (auto intro!: mapped_dom [OF mapped_less [of m _ "Suc n"]])
  then have "copy_down n ?d ?s ?m = Inr (moved d s n ?m)" using Suc.prems(3) by (rule Suc.IH)
  then show ?case using b e step by simp
qed

text \<open>The contract of a copying routine.\<close>

locale byte_mover =
  fixes copy :: "u64 \<Rightarrow> u64 \<Rightarrow> u64 \<Rightarrow> mem \<Rightarrow> mem res"
    and apart :: "u64 \<Rightarrow> u64 \<Rightarrow> nat \<Rightarrow> bool"
  assumes copy_moves: "mapped m s (unat n) \<Longrightarrow> mapped m d (unat n) \<Longrightarrow> apart d s (unat n) \<Longrightarrow>
    copy d s n m = Inr (moved d s (unat n) m)"
begin

lemma copy_bytes:
  assumes "mapped m s (unat n)" and "mapped m d (unat n)" and "apart d s (unat n)" and "copy d s n m = Inr m'"
    and "i < unat n"
  shows "m' (d + word_of_nat i) = m (s + word_of_nat i)"
proof -
  have "d + word_of_nat i \<in> rng d (unat n)" using mapped_nth [OF assms(2,5)] assms(5) by (simp add: rng_def)
  then show ?thesis using copy_moves [OF assms(1-3)] assms(4) by (auto simp: moved_def)
qed

lemma copy_frame:
  "mapped m s (unat n) \<Longrightarrow> mapped m d (unat n) \<Longrightarrow> apart d s (unat n) \<Longrightarrow> copy d s n m = Inr m' \<Longrightarrow>
     x \<notin> rng d (unat n) \<Longrightarrow> m' x = m x"
  using copy_moves by (auto simp: moved_def)

lemma copy_dom:
  "mapped m s (unat n) \<Longrightarrow> mapped m d (unat n) \<Longrightarrow> apart d s (unat n) \<Longrightarrow> copy d s n m = Inr m' \<Longrightarrow> dom m' = dom m"
proof -
  assume h: "mapped m s (unat n)" "mapped m d (unat n)" "apart d s (unat n)" "copy d s n m = Inr m'"
  then have "m' = moved d s (unat n) m" using copy_moves by simp
  moreover have "rng d (unat n) \<subseteq> dom m" using h(2) by (simp add: mapped_def)
  ultimately show ?thesis using dom_moved [OF h(1)] by simp
qed

end

interpretation cpy: byte_mover memcpy "\<lambda>d s n. rng d n \<inter> rng s n = {}"
  by unfold_locales (simp add: memcpy_def copy_up_moves)

interpretation mov: byte_mover memmove "\<lambda>d s n. True"
proof
  fix m :: mem and s n d :: u64
  assume h: "mapped m s (unat n)" "mapped m d (unat n)"
  have [simp]: "moved s s k m = m" for k by (simp add: moved_def fun_eq_iff)
  have [simp]: "moved d s 0 m = m" by (simp add: moved_def fun_eq_iff)
  show "memmove d s n m = Inr (moved d s (unat n) m)"
    using copy_up_moves [OF h] copy_down_moves [OF h] by (auto simp: memmove_def not_less order_less_imp_le)
qed

lemma memset_loop_fills:
  "mapped m p n \<Longrightarrow> memset_loop n p c m = Inr (\<lambda>x. if x \<in> rng p n then Some c else m x)"
proof (induction n arbitrary: p m)
  case 0
  then show ?case by simp
next
  case (Suc n)
  obtain e where e: "m p = Some e" using mapped_Suc [OF Suc.prems] by blast
  have r: "rng p (Suc n) = insert p (rng (p + 1) n)" using Suc.prems by (simp add: mapped_def rng_Suc)
  have "memset_loop n (p + 1) c (m(p \<mapsto> c)) = Inr (\<lambda>x. if x \<in> rng (p + 1) n then Some c else (m(p \<mapsto> c)) x)"
  proof (cases n)
    case (Suc k)
    then have "mapped m (p + 1) n" using mapped_Suc [OF Suc.prems] by simp
    then have "mapped (m(p \<mapsto> c)) (p + 1) n" by (rule mapped_dom) auto
    then show ?thesis by (rule Suc.IH)
  qed (simp add: fun_eq_iff)
  with e r show ?case by (auto simp: fun_eq_iff)
qed

subsection \<open>Comparing\<close>

definition bytes_at :: "mem \<Rightarrow> u64 \<Rightarrow> nat \<Rightarrow> u8 list" where
  "bytes_at m a n = map (\<lambda>i. the (m (a + word_of_nat i))) [0..<n]"

lemma bytes_at_Suc: "bytes_at m a (Suc n) = the (m a) # bytes_at m (a + 1) n"
proof -
  have "[0..<Suc n] = 0 # map Suc [0..<n]" by (simp add: map_Suc_upt upt_conv_Cons)
  then show ?thesis by (simp add: bytes_at_def comp_def algebra_simps)
qed

lemma memcmp_loop_order:
  "mapped m a n \<Longrightarrow> mapped m b n \<Longrightarrow> \<exists>r. memcmp_loop n a b m = Inr r \<and>
     (r < 0 \<longleftrightarrow> ord_class.lexordp (bytes_at m a n) (bytes_at m b n)) \<and>
     (r = 0 \<longleftrightarrow> bytes_at m a n = bytes_at m b n)"
proof (induction n arbitrary: a b)
  case 0
  then show ?case by (simp add: bytes_at_def)
next
  case (Suc n)
  obtain x where x: "m a = Some x" and ma: "n = 0 \<or> mapped m (a + 1) n" using mapped_Suc [OF Suc.prems(1)] by blast
  obtain y where y: "m b = Some y" and mb: "n = 0 \<or> mapped m (b + 1) n" using mapped_Suc [OF Suc.prems(2)] by blast
  show ?case
  proof (cases "x = y")
    case True
    have "\<exists>r. memcmp_loop n (a + 1) (b + 1) m = Inr r \<and>
        (r < 0 \<longleftrightarrow> ord_class.lexordp (bytes_at m (a + 1) n) (bytes_at m (b + 1) n)) \<and>
        (r = 0 \<longleftrightarrow> bytes_at m (a + 1) n = bytes_at m (b + 1) n)"
      using ma mb Suc.IH [of "a + 1" "b + 1"] by (cases n) (auto simp: bytes_at_def)
    with x y True show ?thesis by (simp add: bytes_at_Suc)
  next
    case False
    then have "uint x \<noteq> uint y" by (simp add: word_uint_eq_iff)
    with x y False show ?thesis by (auto simp: bytes_at_Suc word_less_def)
  qed
qed

subsection \<open>Numbers\<close>

text \<open>\<open>while (val > 0) { tmp[i++] = dig val; val = quo val; }\<close> on an array of \<open>cap\<close> characters: 16 in the
  two number printers here, 11 and 21 in those of the serial line.\<close>

function digit_loop :: "nat \<Rightarrow> ('a::len word \<Rightarrow> u8) \<Rightarrow> ('a word \<Rightarrow> 'a word) \<Rightarrow> 'a word \<Rightarrow> u8 list \<Rightarrow> u8 list res" where
  "digit_loop cap dig quo val tmp =
     (if val = 0 then Inr tmp
      else if length tmp < cap then digit_loop cap dig quo (quo val) (tmp @ [dig val])
      else Inl BadWrite)"
  by pat_completeness auto
termination by (relation "measure (\<lambda>(cap, dig, quo, val, tmp). cap - length tmp)") auto

declare digit_loop.simps [simp del]

text \<open>The characters written to \<open>buf\<close>, without the terminating zero.\<close>

definition itoa_dec :: "u32 \<Rightarrow> u8 list res" where
  "itoa_dec val =
     (if val = 0 then Inr [0x30]
      else rbind (digit_loop 16 (\<lambda>v. 0x30 + ucast (v mod 10)) (\<lambda>v. v div 10) val []) (\<lambda>tmp. Inr (rev tmp)))"

definition hex_digits :: "u8 list" where
  "hex_digits = cstr ''0123456789ABCDEF''"

definition itoa_hex :: "u32 \<Rightarrow> u8 list res" where
  "itoa_hex val =
     (if val = 0 then Inr [0x30]
      else rbind (digit_loop 16 (\<lambda>v. hex_digits ! unat (v AND 0xF)) (drop_bit 4) val []) (\<lambda>tmp. Inr (rev tmp)))"

text \<open>The number a string of digits denotes; \<open>dval\<close> is the value of one digit.\<close>

definition number_of :: "nat \<Rightarrow> (u8 \<Rightarrow> nat) \<Rightarrow> u8 list \<Rightarrow> nat" where
  "number_of b dval ds = foldl (\<lambda>n d. b * n + dval d) 0 ds"

text \<open>The laws of a positional number system: a digit of the last place and the number without it.\<close>

locale positional =
  fixes cap :: nat and dig :: "'a::len word \<Rightarrow> u8" and quo :: "'a word \<Rightarrow> 'a word" and b :: nat and dval :: "u8 \<Rightarrow> nat"
  assumes base: "2 \<le> b" and enough: "2 ^ LENGTH('a) \<le> b ^ cap"
    and quo: "unat (quo v) = unat v div b" and dig: "dval (dig v) = unat v mod b"
begin

lemma digit_loop_value:
  assumes "unat v < b ^ k" and "length tmp + k \<le> cap"
  shows "\<exists>ds. digit_loop cap dig quo v tmp = Inr (tmp @ ds) \<and> number_of b dval (rev ds) = unat v \<and>
    length ds \<le> k \<and> (v \<noteq> 0 \<longrightarrow> ds \<noteq> [] \<and> dval (last ds) \<noteq> 0) \<and> set ds \<subseteq> range dig"
  using assms
proof (induction k arbitrary: v tmp)
  case 0
  then have "v = 0" by (simp add: unat_eq_zero)
  then show ?case by (subst digit_loop.simps) (simp add: number_of_def)
next
  case (Suc k)
  show ?case
  proof (cases "v = 0")
    case True
    then show ?thesis by (subst digit_loop.simps) (auto simp: number_of_def)
  next
    case False
    have "unat (quo v) < b ^ k" using Suc.prems(1) base by (simp add: quo less_mult_imp_div_less mult.commute)
    with Suc.IH [of "quo v" "tmp @ [dig v]"] Suc.prems(2) obtain ds where
      ds: "digit_loop cap dig quo (quo v) (tmp @ [dig v]) = Inr ((tmp @ [dig v]) @ ds)"
        "number_of b dval (rev ds) = unat (quo v)" "length ds \<le> k"
        "quo v \<noteq> 0 \<longrightarrow> ds \<noteq> [] \<and> dval (last ds) \<noteq> 0" "set ds \<subseteq> range dig"
      by auto
    have "digit_loop cap dig quo v tmp = Inr (tmp @ dig v # ds)"
      using ds(1) False Suc.prems(2) by (subst digit_loop.simps) simp
    moreover have "number_of b dval (rev (dig v # ds)) = unat v"
      using ds(2) by (simp add: number_of_def quo dig)
    moreover have "dval (last (dig v # ds)) \<noteq> 0"
    proof (cases "quo v = 0")
      case True
      then have "unat v div b = 0" using quo [of v] by simp
      moreover have "ds = [] \<or> False"
        using ds(1) True by (subst (asm) digit_loop.simps) auto
      ultimately show ?thesis using False base by (simp add: dig unat_eq_zero div_eq_0_iff)
    qed (use ds(4) in auto)
    ultimately show ?thesis using ds(3,5) by (intro exI [of _ "dig v # ds"]) auto
  qed
qed

lemma printed:
  assumes "v \<noteq> 0"
  obtains tmp where "digit_loop cap dig quo v [] = Inr tmp" "number_of b dval (rev tmp) = unat v"
    "tmp \<noteq> []" "dval (hd (rev tmp)) \<noteq> 0" "set tmp \<subseteq> range dig" "length tmp \<le> cap"
proof -
  have "unat v < b ^ cap" by (rule less_le_trans [OF unat_bound enough])
  from digit_loop_value [OF this, of "[]"] assms that show ?thesis by (auto simp: hd_rev)
qed

end

text \<open>The values of decimal and hexadecimal digits.\<close>

definition dec_val :: "u8 \<Rightarrow> nat" where
  "dec_val c = unat (c - 0x30)"

definition hex_val :: "u8 \<Rightarrow> nat" where
  "hex_val c = (if c \<le> 0x39 then unat (c - 0x30) else unat (c - 0x37))"

interpretation dec: positional 16 "\<lambda>v :: u32. 0x30 + ucast (v mod 10)" "\<lambda>v. v div 10" 10 dec_val
proof
  fix v :: u32
  show "dec_val (0x30 + ucast (v mod 10)) = unat v mod 10"
    by (simp add: dec_val_def unsigned_ucast_eq unat_mod take_bit_nat_eq_self)
qed (simp_all add: unat_div)

lemma hex_digit_value: "k < 16 \<Longrightarrow> hex_val (hex_digits ! k) = k"
proof -
  assume "k < 16"
  then have "k \<in> set [0..<16]" by simp
  moreover have "\<forall>k\<in>set [0..<16]. hex_val (hex_digits ! k) = k" by code_simp
  ultimately show ?thesis by blast
qed

interpretation hex: positional 16 "\<lambda>v :: u32. hex_digits ! unat (v AND 0xF)" "drop_bit 4" 16 hex_val
proof
  fix v :: u32
  have "v AND 0xF = take_bit 4 v" by (simp add: take_bit_eq_mask mask_numeral)
  then have "unat (v AND 0xF) = unat v mod 16" by (simp add: unsigned_take_bit_eq take_bit_nat_def)
  then show "hex_val (hex_digits ! unat (v AND 0xF)) = unat v mod 16" by (simp add: hex_digit_value)
  show "unat (drop_bit 4 v) = unat v div 16" by (simp add: unat_drop_bit_eq drop_bit_nat_def)
qed simp_all

lemma itoa_dec_prints:
  "\<exists>ds. itoa_dec v = Inr ds \<and> number_of 10 dec_val ds = unat v \<and> ds \<noteq> [] \<and> (v \<noteq> 0 \<longrightarrow> dec_val (hd ds) \<noteq> 0) \<and>
     set ds \<subseteq> {0x30..0x39}"
proof (cases "v = 0")
  case True
  then show ?thesis by (simp add: itoa_dec_def number_of_def dec_val_def)
next
  case False
  have digit: "0x30 + ucast (w mod 10) \<in> {0x30 :: u8..0x39}" for w :: u32
  proof -
    have "unat (ucast (w mod 10) :: u8) = unat w mod 10"
      by (simp add: unsigned_ucast_eq unat_mod take_bit_nat_eq_self)
    then have "unat (0x30 + ucast (w mod 10) :: u8) = 48 + unat w mod 10"
      by (subst unat_add_lem [THEN iffD1]) simp_all
    then show ?thesis by (simp add: word_le_nat_alt)
  qed
  obtain tmp where "digit_loop 16 (\<lambda>v. 0x30 + ucast (v mod 10)) (\<lambda>v. v div 10) v [] = Inr tmp"
    "number_of 10 dec_val (rev tmp) = unat v" "tmp \<noteq> []" "dec_val (hd (rev tmp)) \<noteq> 0"
    "set tmp \<subseteq> range (\<lambda>v :: u32. 0x30 + ucast (v mod 10))" "length tmp \<le> 16" by (rule dec.printed [OF False])
  moreover have "itoa_dec v = Inr (rev tmp)" using False calculation(1) by (simp add: itoa_dec_def)
  moreover have "set (rev tmp) \<subseteq> {0x30..0x39}" using calculation(5) digit by auto
  ultimately show ?thesis by (intro exI [of _ "rev tmp"]) simp
qed

lemma itoa_hex_prints:
  "\<exists>ds. itoa_hex v = Inr ds \<and> number_of 16 hex_val ds = unat v \<and> ds \<noteq> [] \<and> (v \<noteq> 0 \<longrightarrow> hex_val (hd ds) \<noteq> 0)"
proof (cases "v = 0")
  case True
  then show ?thesis by (simp add: itoa_hex_def number_of_def hex_val_def)
next
  case False
  from hex.printed [OF False] obtain tmp where "digit_loop 16 (\<lambda>v. hex_digits ! unat (v AND 0xF)) (drop_bit 4) v [] = Inr tmp"
    "number_of 16 hex_val (rev tmp) = unat v" "tmp \<noteq> []" "hex_val (hd (rev tmp)) \<noteq> 0" by blast
  with False show ?thesis by (auto simp: itoa_hex_def)
qed

subsection \<open>Formatting\<close>

text \<open>The arguments: a string is the characters before its terminating zero. A conversion with
  no argument, or one of another type, is undefined; so is the negation of the least integer.\<close>

datatype fmt_arg = Arg_int u32 | Arg_ulong u64 | Arg_str "u8 list"

fun next_int :: "fmt_arg list \<Rightarrow> (u32 \<times> fmt_arg list) res" where
  "next_int (Arg_int v # args) = Inr (v, args)"
| "next_int args = Inl BadRead"

fun next_str :: "fmt_arg list \<Rightarrow> (u8 list \<times> fmt_arg list) res" where
  "next_str (Arg_str s # args) = Inr (s, args)"
| "next_str args = Inl BadRead"

abbreviation PERCENT :: u8 where "PERCENT \<equiv> 0x25"
abbreviation MINUS :: u8 where "MINUS \<equiv> 0x2D"

definition convert :: "u8 \<Rightarrow> fmt_arg list \<Rightarrow> (u8 list \<times> fmt_arg list) res" where
  "convert f args =
     (if f = 0x63 then rbind (next_int args) (\<lambda>(v, r). Inr ([ucast v], r))
      else if f = 0x73 then next_str args
      else if f = 0x64 then rbind (next_int args) (\<lambda>(v, r).
        if v = 0x80000000 then Inl Overflow
        else if sint v < 0 then rbind (itoa_dec (- v)) (\<lambda>ds. Inr (MINUS # ds, r))
        else rbind (itoa_dec v) (\<lambda>ds. Inr (ds, r)))
      else if f = 0x75 then rbind (next_int args) (\<lambda>(v, r). rbind (itoa_dec v) (\<lambda>ds. Inr (ds, r)))
      else if f = 0x78 then rbind (next_int args) (\<lambda>(v, r). rbind (itoa_hex v) (\<lambda>ds. Inr (ds, r)))
      else if f = PERCENT then Inr ([PERCENT], args)
      else Inr ([PERCENT, f], args))"

text \<open>A format that ends in \<open>%\<close>: the loop steps over the terminating zero and reads on.\<close>

fun sprintf_loop :: "u8 list \<Rightarrow> fmt_arg list \<Rightarrow> u8 list res" where
  "sprintf_loop [] args = Inr []"
| "sprintf_loop [c] args = (if c \<noteq> PERCENT then Inr [c] else Inl BadRead)"
| "sprintf_loop (c # f # cs) args =
     (if c \<noteq> PERCENT then rbind (sprintf_loop (f # cs) args) (\<lambda>out. Inr (c # out))
      else rbind (convert f args) (\<lambda>(o1, args'). rbind (sprintf_loop cs args') (\<lambda>out. Inr (o1 @ out))))"

text \<open>\<open>cap\<close> is the size of the caller's array, which the code does not know.\<close>

definition sprintf :: "nat \<Rightarrow> u8 list \<Rightarrow> fmt_arg list \<Rightarrow> (int \<times> u8 list) res" where
  "sprintf cap fmt args =
     rbind (sprintf_loop fmt args) (\<lambda>out.
       if length out < cap then Inr (int (length out), out) else Inl BadWrite)"

text \<open>What a format means: plain characters and conversions with their arguments.\<close>

datatype piece = Lit u8 | Chr u32 | Str "u8 list" | Signed u32 | Unsigned u32 | Hex u32 | Pct

fun piece_fmt :: "piece \<Rightarrow> u8 list" where
  "piece_fmt (Lit c) = [c]"
| "piece_fmt (Chr _) = [PERCENT, 0x63]"
| "piece_fmt (Str _) = [PERCENT, 0x73]"
| "piece_fmt (Signed _) = [PERCENT, 0x64]"
| "piece_fmt (Unsigned _) = [PERCENT, 0x75]"
| "piece_fmt (Hex _) = [PERCENT, 0x78]"
| "piece_fmt Pct = [PERCENT, PERCENT]"

fun piece_args :: "piece \<Rightarrow> fmt_arg list" where
  "piece_args (Chr v) = [Arg_int v]"
| "piece_args (Str s) = [Arg_str s]"
| "piece_args (Signed v) = [Arg_int v]"
| "piece_args (Unsigned v) = [Arg_int v]"
| "piece_args (Hex v) = [Arg_int v]"
| "piece_args _ = []"

fun piece_ok :: "piece \<Rightarrow> bool" where
  "piece_ok (Lit c) \<longleftrightarrow> c \<noteq> PERCENT"
| "piece_ok (Signed v) \<longleftrightarrow> v \<noteq> 0x80000000"
| "piece_ok _ \<longleftrightarrow> True"

definition decimal :: "nat \<Rightarrow> u8 list \<Rightarrow> bool" where
  "decimal n ds \<longleftrightarrow> number_of 10 dec_val ds = n \<and> ds \<noteq> [] \<and> (n \<noteq> 0 \<longrightarrow> dec_val (hd ds) \<noteq> 0) \<and> set ds \<subseteq> {0x30..0x39}"

fun renders :: "piece \<Rightarrow> u8 list \<Rightarrow> bool" where
  "renders (Lit c) out \<longleftrightarrow> out = [c]"
| "renders (Chr v) out \<longleftrightarrow> out = [ucast v]"
| "renders (Str s) out \<longleftrightarrow> out = s"
| "renders (Signed v) out \<longleftrightarrow>
     (if sint v < 0 then \<exists>ds. out = MINUS # ds \<and> decimal (nat (- sint v)) ds else decimal (nat (sint v)) out)"
| "renders (Unsigned v) out \<longleftrightarrow> decimal (unat v) out"
| "renders (Hex v) out \<longleftrightarrow> number_of 16 hex_val out = unat v"
| "renders Pct out \<longleftrightarrow> out = [PERCENT]"

lemma itoa_dec_decimal: "\<exists>ds. itoa_dec v = Inr ds \<and> decimal (unat v) ds"
  using itoa_dec_prints [of v] by (auto simp: decimal_def unat_eq_zero)

lemma uint_small_of_int: "0 \<le> i \<Longrightarrow> i < 2 ^ 32 \<Longrightarrow> uint (word_of_int i :: u32) = i"
  by (simp add: unsigned_of_int take_bit_int_eq_self)

lemma unat_uminus_negative: "sint (v :: u32) < 0 \<Longrightarrow> unat (- v) = nat (- sint v)"
proof -
  assume neg: "sint v < 0"
  have "- sint v \<le> 2 ^ 31" using sint_greater_eq [of v] by simp
  then have "uint (word_of_int (- sint v) :: u32) = - sint v" using neg by (intro uint_small_of_int) simp_all
  moreover have "word_of_int (- sint v) = - v" by simp
  ultimately show ?thesis by (simp only: unat_eq_nat_uint)
qed

lemma unat_nonnegative: "0 \<le> sint (v :: u32) \<Longrightarrow> unat v = nat (sint v)"
proof -
  assume "0 \<le> sint v"
  moreover have "sint v < 2 ^ 31" using sint_less [of v] by simp
  ultimately have "uint (word_of_int (sint v) :: u32) = sint v" by (intro uint_small_of_int) simp_all
  then show ?thesis by (simp add: unat_eq_nat_uint)
qed

lemma convert_piece:
  assumes "piece_ok p" and "piece_fmt p = [PERCENT, f]"
  shows "\<exists>out. convert f (piece_args p @ args) = Inr (out, args) \<and> renders p out"
proof (cases p)
  case (Signed v)
  obtain ds where ds: "itoa_dec v = Inr ds" "decimal (unat v) ds" using itoa_dec_decimal by blast
  obtain es where es: "itoa_dec (- v) = Inr es" "decimal (unat (- v)) es" using itoa_dec_decimal by blast
  show ?thesis
  proof (cases "sint v < 0")
    case True
    with es assms Signed show ?thesis by (auto simp: convert_def unat_uminus_negative)
  next
    case False
    with ds assms Signed show ?thesis by (auto simp: convert_def unat_nonnegative not_less)
  qed
next
  case (Unsigned v)
  with itoa_dec_decimal [of v] assms show ?thesis by (auto simp: convert_def)
next
  case (Hex v)
  with itoa_hex_prints [of v] assms show ?thesis by (auto simp: convert_def)
qed (use assms in \<open>auto simp: convert_def\<close>)

lemma sprintf_loop_Lit: "c \<noteq> PERCENT \<Longrightarrow> sprintf_loop (c # cs) args = rbind (sprintf_loop cs args) (\<lambda>out. Inr (c # out))"
  by (cases cs) simp_all

lemma sprintf_loop_pieces:
  "list_all piece_ok ps \<Longrightarrow> \<exists>outs. list_all2 renders ps outs \<and>
     sprintf_loop (concat (map piece_fmt ps)) (concat (map piece_args ps)) = Inr (concat outs)"
proof (induction ps)
  case Nil
  then show ?case by simp
next
  case (Cons p ps)
  then obtain outs where outs: "list_all2 renders ps outs"
    "sprintf_loop (concat (map piece_fmt ps)) (concat (map piece_args ps)) = Inr (concat outs)" by auto
  show ?case
  proof (cases "\<exists>c. p = Lit c")
    case True
    then obtain c where p: "p = Lit c" by blast
    with Cons.prems have c: "c \<noteq> PERCENT" by simp
    have "sprintf_loop (concat (map piece_fmt (p # ps))) (concat (map piece_args (p # ps))) = Inr (concat ([c] # outs))"
      using sprintf_loop_Lit [OF c, of "concat (map piece_fmt ps)" "concat (map piece_args ps)"] outs(2)
      unfolding p by simp
    moreover have "list_all2 renders (p # ps) ([c] # outs)" using outs(1) p by simp
    ultimately show ?thesis by blast
  next
    case False
    then obtain f where f: "piece_fmt p = [PERCENT, f]" by (cases p) auto
    have "piece_ok p" using Cons.prems by simp
    from convert_piece [OF this f] obtain out where
      out: "convert f (piece_args p @ concat (map piece_args ps)) = Inr (out, concat (map piece_args ps))" "renders p out"
      by blast
    then have "sprintf_loop (concat (map piece_fmt (p # ps))) (concat (map piece_args (p # ps))) = Inr (concat (out # outs))"
      using outs(2) f by simp
    moreover have "list_all2 renders (p # ps) (out # outs)" using outs(1) out(2) by simp
    ultimately show ?thesis by blast
  qed
qed

subsection \<open>Properties\<close>

text \<open>C34: \<open>memmove\<close> never faults on mapped operands, however they overlap: the destination then holds the
  bytes the source held before, and every other byte is as it was.\<close>

theorem memmove_copies:
  assumes "mapped m src (unat n)" and "mapped m dst (unat n)"
  shows "\<exists>m'. memmove dst src n m = Inr m' \<and> bytes_at m' dst (unat n) = bytes_at m src (unat n) \<and>
    (\<forall>x. x \<notin> rng dst (unat n) \<longrightarrow> m' x = m x)"
proof -
  have run: "memmove dst src n m = Inr (moved dst src (unat n) m)" by (rule mov.copy_moves [OF assms TrueI])
  have "bytes_at (moved dst src (unat n) m) dst (unat n) = bytes_at m src (unat n)"
    using mov.copy_bytes [OF assms TrueI run] by (simp add: bytes_at_def)
  then show ?thesis using run by (auto simp: moved_def)
qed

definition demo_mem :: mem where
  "demo_mem a = (if 100 \<le> a \<and> a < 110 then Some (ucast a) else None)"

theorem memmove_copies_witness:
  "\<exists>m'. memmove 102 100 6 demo_mem = Inr m' \<and> bytes_at m' 102 6 = [100, 101, 102, 103, 104, 105] \<and> m' 101 = Some 101"
proof -
  have mp: "mapped demo_mem a 6" if "a = 100 \<or> a = 102" for a
    using that by (auto simp: mapped_def rng_def demo_mem_def word_le_nat_alt word_less_nat_alt)
  have "bytes_at demo_mem 100 6 = [100, 101, 102, 103, 104, 105]" by code_simp
  moreover have "101 \<notin> rng (102 :: u64) 6" "demo_mem 101 = Some 101" by (simp_all add: rng_def demo_mem_def)
  ultimately show ?thesis
    using memmove_copies [of demo_mem 100 6 102] mp by auto
qed

text \<open>\<open>memcmp\<close> never faults on mapped operands and its result orders them: negative exactly when
  the first is less in the lexicographic order of the bytes, zero exactly when they are equal.\<close>

theorem memcmp_orders:
  assumes "mapped m a (unat n)" and "mapped m b (unat n)"
  shows "\<exists>r. memcmp a b n m = Inr r \<and>
    (r < 0 \<longleftrightarrow> ord_class.lexordp (bytes_at m a (unat n)) (bytes_at m b (unat n))) \<and>
    (r = 0 \<longleftrightarrow> bytes_at m a (unat n) = bytes_at m b (unat n))"
  unfolding memcmp_def by (rule memcmp_loop_order [OF assms])

theorem memcmp_orders_witness: "\<exists>r. memcmp 100 101 4 demo_mem = Inr r \<and> r < 0"
proof -
  have mp: "mapped demo_mem a 4" if "a = 100 \<or> a = 101" for a
    using that by (auto simp: mapped_def rng_def demo_mem_def word_le_nat_alt word_less_nat_alt)
  have "ord_class.lexordp (bytes_at demo_mem 100 4) (bytes_at demo_mem 101 4)" by code_simp
  with memcmp_orders [of demo_mem 100 4 101] mp show ?thesis by auto
qed

text \<open>a format put together from plain characters and conversions with arguments of their types is
  printed piece by piece: every number in its decimal or hexadecimal digits with no leading zero, and
  the return value is the length of the text, if the caller's array holds it.\<close>

theorem sprintf_renders:
  assumes "list_all piece_ok ps"
  shows "\<exists>outs. list_all2 renders ps outs \<and>
    sprintf cap (concat (map piece_fmt ps)) (concat (map piece_args ps)) =
      (if length (concat outs) < cap then Inr (int (length (concat outs)), concat outs) else Inl BadWrite)"
  using sprintf_loop_pieces [OF assms] by (auto simp: sprintf_def)

theorem sprintf_renders_witness:
  "\<exists>out. sprintf 16 (cstr ''n=%d'') [Arg_int (- 42)] = Inr (int (length out), out) \<and>
     out = cstr ''n='' @ MINUS # cstr ''42''"
proof -
  let ?ps = "[Lit 0x6E, Lit 0x3D, Signed (- 42)]"
  have "sprintf 16 (cstr ''n=%d'') [Arg_int (- 42)] = Inr (5, cstr ''n='' @ MINUS # cstr ''42'')" by code_simp
  moreover have "cstr ''n=%d'' = concat (map piece_fmt ?ps)" by code_simp
  moreover have "list_all piece_ok ?ps" by simp
  ultimately show ?thesis using sprintf_renders [of ?ps 16] by (simp add: cstr_def)
qed

text \<open>A format that ends in a percent sign makes the loop read past the terminating zero.\<close>

lemma sprintf_trailing_percent: "sprintf cap (cstr ''100%'') [] = Inl BadRead"
  by (simp add: sprintf_def cstr_def)

end
