(* ===== verification/Users.thy ===== *)
theory Users
  imports Fat_Api Byte_Memory
begin

text \<open>
  The accounts and paths of \<open>kernel.c\<close>: the list of users and the file it is read from, the
  directories of a user, and the helpers on names and paths. A character array is the string it
  holds, without the terminating zero; its size appears as the bound on the length of what is
  stored. \<open>strncpy\<close> followed by a terminator at the end keeps a prefix.
\<close>

abbreviation COLON :: u8 where "COLON \<equiv> 0x3A"
abbreviation NEWLINE :: u8 where "NEWLINE \<equiv> 0x0A"
abbreviation RETURN_CHAR :: u8 where "RETURN_CHAR \<equiv> 0x0D"
abbreviation BLANK :: u8 where "BLANK \<equiv> 0x20"
abbreviation SLASH :: u8 where "SLASH \<equiv> 0x2F"
abbreviation DOT :: u8 where "DOT \<equiv> 0x2E"

subsection \<open>Names and paths\<close>

definition upper_copy :: "nat \<Rightarrow> u8 list \<Rightarrow> u8 list" where
  "upper_copy dst_sz src = map upcase (take (dst_sz - 1) src)"

definition path_join :: "nat \<Rightarrow> u8 list \<Rightarrow> u8 list \<Rightarrow> u8 list" where
  "path_join dst_sz dir name =
     (let d = take (dst_sz - 1) dir;
          d' = (if d \<noteq> [] \<and> last d \<noteq> SLASH \<and> length d + 1 < dst_sz then d @ [SLASH] else d)
      in d' @ take (dst_sz - 1 - length d') name)"

text \<open>The index of the last \<open>c\<close> at or before position \<open>i\<close>, counting down; -1 when there is none.\<close>

fun scan_back :: "u8 \<Rightarrow> u8 list \<Rightarrow> nat \<Rightarrow> int" where
  "scan_back c s 0 = -1"
| "scan_back c s (Suc i) = (if s ! i = c then int i else scan_back c s i)"

definition path_dirname :: "nat \<Rightarrow> u8 list \<Rightarrow> u8 list" where
  "path_dirname outsz fullpath =
     (if fullpath = [] then [] else
      let i = scan_back SLASH fullpath (length fullpath)
      in if i \<le> 0 then [] else take (if nat i \<ge> outsz then outsz - 1 else nat i) fullpath)"

definition str_ieq_ext :: "u8 list \<Rightarrow> u8 list \<Rightarrow> bool" where
  "str_ieq_ext name ext =
     (if ext = [] then False else
      let i = scan_back DOT name (length name)
      in if i < 0 then False
         else let tail = drop (nat i + 1) name
              in length tail = length ext \<and> map upcase tail = map upcase ext)"

fun sanitize_loop :: "nat \<Rightarrow> u8 list \<Rightarrow> bool \<Rightarrow> u8 list \<Rightarrow> u8 list \<times> bool" where
  "sanitize_loop outsz out has_dot [] = (out, has_dot)"
| "sanitize_loop outsz out has_dot (c # cs) =
     (if \<not> length out + 1 < outsz then (out, has_dot)
      else if c = DOT then (if has_dot then sanitize_loop outsz out has_dot cs else sanitize_loop outsz (out @ [DOT]) True cs)
      else let c' = upcase (if c = BLANK then 0x5F else c)
           in if \<not> (c' \<ge> 0x41 \<and> c' \<le> 0x5A \<or> c' \<ge> 0x30 \<and> c' \<le> 0x39 \<or> c' = 0x5F) then sanitize_loop outsz out has_dot cs
              else sanitize_loop outsz (out @ [c']) has_dot cs)"

definition sanitize_txt_name :: "nat \<Rightarrow> u8 list \<Rightarrow> u8 list" where
  "sanitize_txt_name outsz inp =
     (let (out, has_dot) = sanitize_loop outsz [] False inp
      in if has_dot then out else out @ take (outsz - 1 - length out) (cstr ''.TXT''))"

subsection \<open>Accounts\<close>

record user_entry =
  u_name :: "u8 list"
  u_pass :: "u8 list"

abbreviation MAX_USERS :: nat where "MAX_USERS \<equiv> 8"

text \<open>\<open>g_users\<close> is the filled part of the array; its length is \<open>g_user_count\<close>. \<open>g_vol\<close> and the disk are
  the mounted volume, \<open>None\<close> while \<open>g_vol_mounted\<close> is 0.\<close>

record 'd session =
  g_users :: "user_entry list"
  g_login_selected :: int
  g_login_hover :: int
  g_login_pw :: "u8 list"
  g_login_active :: bool
  g_login_dirty :: bool
  g_login_pw_focus :: bool
  g_login_message :: "u8 list"
  g_logged_in_user :: "u8 list"
  g_desktop_dir :: "u8 list"
  g_prog_dir :: "u8 list"
  g_vol :: "(fat32_vol \<times> 'd) option"

definition user_reset_list :: "'d session \<Rightarrow> 'd session" where
  "user_reset_list s = s\<lparr>g_users := [], g_login_selected := 0, g_login_hover := -1\<rparr>"

definition user_add :: "u8 list \<Rightarrow> u8 list \<Rightarrow> 'd session \<Rightarrow> 'd session" where
  "user_add name pw s =
     (if length (g_users s) \<ge> MAX_USERS then s
      else s\<lparr>g_users := g_users s @ [\<lparr>u_name = take 15 name, u_pass = take 31 pw\<rparr>]\<rparr>)"

definition user_load_default :: "'d session \<Rightarrow> 'd session" where
  "user_load_default s = user_add (cstr ''guest'') [] (user_add (cstr ''admin'') (cstr ''1234'') (user_reset_list s))"

text \<open>One round of the loop over the file: at most 63 characters up to the end of the line, then the
  line break if it is there.\<close>

definition read_line :: "u8 list \<Rightarrow> u8 list \<times> u8 list" where
  "read_line p =
     (let l = take 63 (takeWhile (\<lambda>c. c \<noteq> NEWLINE) p); r = drop (length l) p
      in (l, if r \<noteq> [] \<and> hd r = NEWLINE then tl r else r))"

fun trim_end :: "nat \<Rightarrow> u8 list \<Rightarrow> u8 list" where
  "trim_end 0 s = []"
| "trim_end (Suc n) s = (if s ! n = BLANK \<or> s ! n = RETURN_CHAR then trim_end n s else take (Suc n) s)"

definition user_line :: "u8 list \<Rightarrow> 'd session \<Rightarrow> 'd session" where
  "user_line l s =
     (if COLON \<notin> set l then s else
      let nm = takeWhile (\<lambda>c. c \<noteq> COLON) l; pw = drop (length nm + 1) l; nm' = trim_end (length nm) nm
      in if nm' = [] then s else user_add nm' pw s)"

lemma read_line_shorter: "p \<noteq> [] \<Longrightarrow> length (snd (read_line p)) < length p"
  by (cases p) (auto simp: read_line_def Let_def)

function user_parse_lines :: "u8 list \<Rightarrow> 'd session \<Rightarrow> 'd session" where
  "user_parse_lines p s =
     (if p = [] then s else let (l, r) = read_line p in user_parse_lines r (if l = [] then s else user_line l s))"
  by pat_completeness auto

termination
  by (relation "measure (\<lambda>(p, s). length p)") (simp, metis in_measure case_prod_conv read_line_shorter snd_conv)

declare user_parse_lines.simps [simp del]

definition user_verify :: "u8 list \<Rightarrow> u8 list \<Rightarrow> 'd session \<Rightarrow> bool" where
  "user_verify name pw s =
     (case find (\<lambda>u. u_name u = name) (g_users s) of None \<Rightarrow> False | Some u \<Rightarrow> u_pass u = pw)"

definition login_reset_password :: "'d session \<Rightarrow> 'd session" where
  "login_reset_password s = s\<lparr>g_login_pw := []\<rparr>"

definition login_mark_dirty :: "'d session \<Rightarrow> 'd session" where
  "login_mark_dirty s = s\<lparr>g_login_dirty := True\<rparr>"

subsection \<open>The directories of a user\<close>

definition build_user_desktop_path :: "u8 list \<Rightarrow> 'd session \<Rightarrow> 'd session res" where
  "build_user_desktop_path uname s =
     (let upper = upper_copy 16 uname in
      rbind (sprintf 64 (cstr ''%s/USERS/%s/DESKTOP'') [Arg_str (cstr ''PARANOS''), Arg_str upper]) (\<lambda>(_, dd).
      rbind (sprintf 64 (cstr ''%s/USERS/%s/PROGRAMS'') [Arg_str (cstr ''PARANOS''), Arg_str upper]) (\<lambda>(_, pd).
        Inr (s\<lparr>g_desktop_dir := dd, g_prog_dir := pd\<rparr>))))"

text \<open>A call of \<open>fat32_ensure_dir_path\<close> on the mounted volume; its return value is not used.\<close>

definition make_dir ::
  "nat \<Rightarrow> 'd disk_read_fn \<Rightarrow> 'd disk_write_fn \<Rightarrow> u8 list \<Rightarrow> 'd session \<Rightarrow> 'd session res" where
  "make_dir fuel rd wr path s = (case g_vol s of None \<Rightarrow> Inr s | Some (v, d) \<Rightarrow>
     rbind (fat32_ensure_dir_path fuel v rd wr d path) (\<lambda>(_, v', d'). Inr (s\<lparr>g_vol := Some (v', d')\<rparr>)))"

definition user_dir :: "string \<Rightarrow> u8 list \<Rightarrow> u8 list res" where
  "user_dir fmt uname =
     rbind (sprintf 64 (cstr fmt) [Arg_str (cstr ''PARANOS''), Arg_str (upper_copy 16 uname)]) (\<lambda>(_, p). Inr p)"

definition ensure_user_dirs_on_disk ::
  "nat \<Rightarrow> 'd disk_read_fn \<Rightarrow> 'd disk_write_fn \<Rightarrow> u8 list \<Rightarrow> 'd session \<Rightarrow> 'd session res" where
  "ensure_user_dirs_on_disk fuel rd wr uname s =
     (if g_vol s = None then Inr s else
      rbind (rfold (make_dir fuel rd wr) [cstr ''PARANOS'', cstr ''PARANOS/USERS'', cstr ''PARANOS/WALLPAPR''] s) (\<lambda>s1.
      rbind (user_dir ''%s/USERS/%s'' uname) (\<lambda>p1. rbind (make_dir fuel rd wr p1 s1) (\<lambda>s2.
      rbind (user_dir ''%s/USERS/%s/DESKTOP'' uname) (\<lambda>p2. rbind (make_dir fuel rd wr p2 s2) (\<lambda>s3.
      rbind (user_dir ''%s/USERS/%s/PROGRAMS'' uname) (\<lambda>p3. make_dir fuel rd wr p3 s3)))))))"

abbreviation USER_FILE :: "u8 list" where "USER_FILE \<equiv> cstr ''PARANOS/USERS/USERS.TXT''"

definition default_users_file :: "u8 list" where
  "default_users_file = cstr ''admin:1234'' @ [NEWLINE] @ cstr ''guest:'' @ [NEWLINE]"

text \<open>The file as the string that \<open>buf\<close> holds after the terminator is stored: the bytes up to the number
  read, which must have been delivered, cut at the first zero.\<close>

definition file_string :: "u8 list \<Rightarrow> u32 option \<Rightarrow> u8 list res" where
  "file_string out n =
     (let k = min (unat (case n of None \<Rightarrow> 0 | Some n \<Rightarrow> n)) 511
      in if k \<le> length out then Inr (takeWhile (\<lambda>c. c \<noteq> 0) (take k out)) else Inl BadRead)"

definition load_users :: "nat \<Rightarrow> 'd disk_read_fn \<Rightarrow> 'd disk_write_fn \<Rightarrow> 'd session \<Rightarrow> 'd session res" where
  "load_users fuel rd wr s = (case g_vol s of None \<Rightarrow> Inr s | Some (v, d) \<Rightarrow>
     rbind (fat32_read_file_path fuel v rd d USER_FILE 511) (\<lambda>(r, out, n, v1).
     let s1 = s\<lparr>g_vol := Some (v1, d)\<rparr> in
     if r = 0 then rbind (file_string out n) (\<lambda>buf. Inr (user_parse_lines buf s1))
     else rbind (fat32_write_file_path fuel v1 rd wr d USER_FILE default_users_file 18) (\<lambda>(_, v2, d2).
            Inr (user_parse_lines default_users_file (s1\<lparr>g_vol := Some (v2, d2)\<rparr>)))))"

definition ensure_user_store :: "nat \<Rightarrow> 'd disk_read_fn \<Rightarrow> 'd disk_write_fn \<Rightarrow> 'd session \<Rightarrow> 'd session res" where
  "ensure_user_store fuel rd wr s0 =
     (let s = login_reset_password (user_reset_list s0) in
      if g_vol s = None then Inr (user_load_default s) else
      rbind (ensure_user_dirs_on_disk fuel rd wr (cstr ''ADMIN'') s) (\<lambda>s1.
      rbind (ensure_user_dirs_on_disk fuel rd wr (cstr ''GUEST'') s1) (\<lambda>s2.
      rbind (make_dir fuel rd wr (cstr ''PARANOS/WALLPAPR'') s2) (\<lambda>s3.
      rbind (load_users fuel rd wr s3) (\<lambda>s4.
      let s5 = (if g_users s4 = [] then user_load_default s4 else s4) in
      rbind (build_user_desktop_path (g_logged_in_user s5) s5) (\<lambda>s6.
        Inr (s6\<lparr>g_login_active := True, g_login_dirty := True, g_login_pw_focus := True,
               g_login_message := cstr ''Select a user and log in.''\<rparr>)))))))"

section \<open>Proofs\<close>

subsection \<open>Paths\<close>

lemma scan_back_found:
  "i < n \<Longrightarrow> s ! i = c \<Longrightarrow> (\<And>j. i < j \<Longrightarrow> j < n \<Longrightarrow> s ! j \<noteq> c) \<Longrightarrow> scan_back c s n = int i"
proof (induction n)
  case (Suc n)
  then show ?case by (cases "i = n") auto
qed simp

lemma dirname_of_join:
  assumes "dir \<noteq> []" and "last dir \<noteq> SLASH" and "SLASH \<notin> set name" and "length dir + 1 + length name < sz"
  shows "path_dirname sz (path_join sz dir name) = dir"
proof -
  let ?p = "dir @ SLASH # name"
  have j: "path_join sz dir name = ?p" using assms by (simp add: path_join_def Let_def)
  have "scan_back SLASH ?p (length ?p) = int (length dir)"
    using assms(3) by (intro scan_back_found) (auto simp: nth_append nth_Cons' in_set_conv_nth)
  then show ?thesis using assms by (simp add: j path_dirname_def)
qed

lemma sprintf_user_path:
  assumes "length u \<le> 15"
  shows "sprintf 64 (cstr ''%s/USERS/%s'') [Arg_str (cstr ''PARANOS''), Arg_str u] = Inr (int (14 + length u), cstr ''PARANOS/USERS/'' @ u)"
    and "sprintf 64 (cstr ''%s/USERS/%s/DESKTOP'') [Arg_str (cstr ''PARANOS''), Arg_str u] =
      Inr (int (22 + length u), cstr ''PARANOS/USERS/'' @ u @ cstr ''/DESKTOP'')"
    and "sprintf 64 (cstr ''%s/USERS/%s/PROGRAMS'') [Arg_str (cstr ''PARANOS''), Arg_str u] =
      Inr (int (23 + length u), cstr ''PARANOS/USERS/'' @ u @ cstr ''/PROGRAMS'')"
  using assms by (simp_all add: sprintf_def cstr_def convert_def)

lemma length_upper_copy: "length (upper_copy 16 u) \<le> 15"
  by (simp add: upper_copy_def)

lemma build_user_desktop_path_total:
  "build_user_desktop_path u s = Inr (s\<lparr>g_desktop_dir := cstr ''PARANOS/USERS/'' @ upper_copy 16 u @ cstr ''/DESKTOP'',
     g_prog_dir := cstr ''PARANOS/USERS/'' @ upper_copy 16 u @ cstr ''/PROGRAMS''\<rparr>)"
  by (simp add: build_user_desktop_path_def sprintf_user_path [OF length_upper_copy] Let_def)

subsection \<open>Parsing\<close>

definition user_ok :: "user_entry \<Rightarrow> bool" where
  "user_ok u \<longleftrightarrow> u_name u \<noteq> [] \<and> length (u_name u) \<le> 15 \<and> length (u_pass u) \<le> 31 \<and>
     COLON \<notin> set (u_name u) \<and> NEWLINE \<notin> set (u_name u) \<and> NEWLINE \<notin> set (u_pass u) \<and>
     last (u_name u) \<noteq> BLANK \<and> last (u_name u) \<noteq> RETURN_CHAR"

definition print_user :: "user_entry \<Rightarrow> u8 list" where
  "print_user u = u_name u @ COLON # u_pass u @ [NEWLINE]"

lemma read_line_printed:
  assumes "user_ok u"
  shows "read_line (print_user u @ rest) = (u_name u @ COLON # u_pass u, rest)"
proof -
  let ?l = "u_name u @ COLON # u_pass u"
  have "NEWLINE \<notin> set ?l" using assms by (auto simp: user_ok_def)
  then have "takeWhile (\<lambda>c. c \<noteq> NEWLINE) (?l @ NEWLINE # rest) = ?l" by (subst takeWhile_append2) auto
  moreover have "length ?l \<le> 63" using assms by (simp add: user_ok_def)
  ultimately show ?thesis by (simp add: read_line_def print_user_def Let_def)
qed

lemma user_line_printed:
  assumes "user_ok u"
  shows "user_line (u_name u @ COLON # u_pass u) s = user_add (u_name u) (u_pass u) s"
proof -
  have "takeWhile (\<lambda>c. c \<noteq> COLON) (u_name u @ COLON # u_pass u) = u_name u"
    using assms by (subst takeWhile_append2) (auto simp: user_ok_def)
  moreover have "trim_end (length (u_name u)) (u_name u) = u_name u"
    using assms by (cases "length (u_name u)") (auto simp: user_ok_def last_conv_nth)
  ultimately show ?thesis using assms by (simp add: user_line_def user_ok_def Let_def)
qed

lemma user_add_ok: "user_ok u \<Longrightarrow> length (g_users s) < MAX_USERS \<Longrightarrow> user_add (u_name u) (u_pass u) s = s\<lparr>g_users := g_users s @ [u]\<rparr>"
  by (simp add: user_add_def user_ok_def)

lemma parse_printed:
  "list_all user_ok us \<Longrightarrow> length (g_users s) + length us \<le> MAX_USERS \<Longrightarrow>
     user_parse_lines (concat (map print_user us)) s = s\<lparr>g_users := g_users s @ us\<rparr>"
proof (induction us arbitrary: s)
  case Nil
  then show ?case by (simp add: user_parse_lines.simps)
next
  case (Cons u us)
  have ok: "user_ok u" using Cons.prems(1) by simp
  have ne: "concat (map print_user (u # us)) \<noteq> []" by (simp add: print_user_def)
  have "user_parse_lines (concat (map print_user (u # us))) s = user_parse_lines (concat (map print_user us)) (s\<lparr>g_users := g_users s @ [u]\<rparr>)"
    using ne Cons.prems(2) read_line_printed [OF ok, of "concat (map print_user us)"]
    by (subst user_parse_lines.simps) (auto simp: user_line_printed [OF ok] user_add_ok [OF ok])
  with Cons.IH [of "s\<lparr>g_users := g_users s @ [u]\<rparr>"] Cons.prems show ?case by simp
qed

lemma default_file_printed:
  "default_users_file = concat (map print_user [\<lparr>u_name = cstr ''admin'', u_pass = cstr ''1234''\<rparr>, \<lparr>u_name = cstr ''guest'', u_pass = []\<rparr>])"
  by (simp add: default_users_file_def print_user_def cstr_def)

subsection \<open>The list of users\<close>

definition users_ok :: "'d session \<Rightarrow> bool" where
  "users_ok s \<longleftrightarrow> length (g_users s) \<le> MAX_USERS \<and> (\<forall>u\<in>set (g_users s). length (u_name u) \<le> 15 \<and> length (u_pass u) \<le> 31)"

lemma user_add_keeps: "users_ok s \<Longrightarrow> users_ok (user_add n p s)"
  by (auto simp: users_ok_def user_add_def)

lemma user_parse_keeps: "users_ok s \<Longrightarrow> users_ok (user_parse_lines p s)"
proof (induction p s rule: user_parse_lines.induct)
  case (1 p s)
  show ?case
  proof (cases "p = []")
    case False
    obtain l r where lr: "read_line p = (l, r)" by (cases "read_line p")
    have "users_ok (if l = [] then s else user_line l s)" using "1.prems" by (simp add: user_line_def user_add_keeps Let_def)
    with "1.IH" [OF False lr [symmetric] refl] lr False show ?thesis by (subst user_parse_lines.simps) simp
  qed (use "1.prems" in \<open>simp add: user_parse_lines.simps\<close>)
qed

lemma user_reset_keeps: "users_ok (user_reset_list s)"
  by (simp add: user_reset_list_def users_ok_def)

lemma user_default_ok: "users_ok (user_load_default s) \<and> g_users (user_load_default s) \<noteq> []"
  by (simp add: user_load_default_def user_add_keeps user_reset_keeps) (simp add: user_add_def user_reset_list_def)

lemma make_dir_users: "make_dir fuel rd wr p s = Inr s' \<Longrightarrow> g_users s' = g_users s \<and> (g_vol s' = None \<longleftrightarrow> g_vol s = None)"
  by (auto simp: make_dir_def res_simps split: option.splits)

lemma rfold_make_dir_users: "rfold (make_dir fuel rd wr) ps s = Inr s' \<Longrightarrow> g_users s' = g_users s"
proof (induction ps arbitrary: s)
  case (Cons p ps)
  then obtain s1 where "make_dir fuel rd wr p s = Inr s1" "rfold (make_dir fuel rd wr) ps s1 = Inr s'" by (auto simp: res_simps)
  with Cons.IH make_dir_users show ?case by fastforce
qed simp

lemma ensure_dirs_users: "ensure_user_dirs_on_disk fuel rd wr u s = Inr s' \<Longrightarrow> g_users s' = g_users s"
  by (auto simp: ensure_user_dirs_on_disk_def res_simps dest!: rfold_make_dir_users make_dir_users split: if_splits)

lemma load_users_keeps: "users_ok s \<Longrightarrow> load_users fuel rd wr s = Inr s' \<Longrightarrow> users_ok s'"
  by (auto simp: load_users_def res_simps Let_def split: option.splits if_splits
      intro!: user_parse_keeps) (simp_all add: users_ok_def)

lemma find_distinct:
  "distinct (map f xs) \<Longrightarrow> x \<in> set xs \<Longrightarrow> find (\<lambda>y. f y = f x) xs = Some x"
  by (induction xs) (auto simp: image_iff)

lemma user_verify_iff:
  assumes "distinct (map u_name (g_users s))"
  shows "user_verify n p s \<longleftrightarrow> \<lparr>u_name = n, u_pass = p\<rparr> \<in> set (g_users s)"
proof
  assume "user_verify n p s"
  then obtain u where u: "find (\<lambda>u. u_name u = n) (g_users s) = Some u" "u_pass u = p"
    by (auto simp: user_verify_def split: option.splits)
  then have "u \<in> set (g_users s)" "u_name u = n" by (auto simp: find_Some_iff)
  with u(2) show "\<lparr>u_name = n, u_pass = p\<rparr> \<in> set (g_users s)" by (cases u) auto
next
  assume "\<lparr>u_name = n, u_pass = p\<rparr> \<in> set (g_users s)"
  from find_distinct [OF assms this] show "user_verify n p s" by (simp add: user_verify_def)
qed

section \<open>Properties\<close>

text \<open>C33: The accounts file is read back as it is written: for at most eight users with well-formed, different
  names the parser run on their lines gives exactly these users, in order, and \<open>user_verify\<close> then accepts
  exactly the pairs of a name and its password that the file lists.\<close>

theorem users_file_roundtrip:
  assumes "list_all user_ok us" and "length us \<le> MAX_USERS" and "distinct (map u_name us)"
  shows "g_users (user_parse_lines (concat (map print_user us)) (user_reset_list s)) = us \<and>
    (user_verify n p (user_parse_lines (concat (map print_user us)) (user_reset_list s)) \<longleftrightarrow>
      (\<exists>u\<in>set us. u_name u = n \<and> u_pass u = p))"
proof -
  let ?s = "user_parse_lines (concat (map print_user us)) (user_reset_list s)"
  have g: "g_users ?s = us"
    using parse_printed [OF assms(1), of "user_reset_list s"] assms(2) by (simp add: user_reset_list_def)
  moreover have "user_verify n p ?s \<longleftrightarrow> (\<exists>u\<in>set us. u_name u = n \<and> u_pass u = p)"
    using user_verify_iff [of ?s n p] assms(3) unfolding g by (metis (full_types) user_entry.surjective old.unit.exhaust user_entry.select_convs(1,2))
  ultimately show ?thesis by blast
qed

definition demo_users :: "user_entry list" where
  "demo_users = [\<lparr>u_name = cstr ''admin'', u_pass = cstr ''12:34''\<rparr>, \<lparr>u_name = cstr ''j doe'', u_pass = cstr '' x ''\<rparr>]"

definition demo_session :: "unit session" where
  "demo_session = \<lparr>g_users = [], g_login_selected = 1, g_login_hover = -1, g_login_pw = [], g_login_active = True,
     g_login_dirty = True, g_login_pw_focus = True, g_login_message = [], g_logged_in_user = cstr ''ADMIN'',
     g_desktop_dir = [], g_prog_dir = [], g_vol = None\<rparr>"

theorem users_file_roundtrip_witness:
  "g_users (user_parse_lines (concat (map print_user demo_users)) (user_reset_list demo_session)) = demo_users \<and>
   user_verify (cstr ''admin'') (cstr ''12:34'') (user_parse_lines (concat (map print_user demo_users)) (user_reset_list demo_session)) \<and>
   \<not> user_verify (cstr ''admin'') (cstr ''12'') (user_parse_lines (concat (map print_user demo_users)) (user_reset_list demo_session))"
proof -
  have h: "list_all user_ok demo_users" "length demo_users \<le> MAX_USERS" "distinct (map u_name demo_users)"
    by (simp_all add: demo_users_def user_ok_def cstr_def)
  show ?thesis using users_file_roundtrip [OF h, where s = demo_session] by (simp add: demo_users_def cstr_def)
qed

text \<open>A line of a file with \<open>\r\n\<close> line ends keeps the carriage return in the password: only the name is trimmed,
  and the user cannot log in with the password as typed.\<close>

lemma carriage_return_in_password:
  "g_users (user_parse_lines (cstr ''bob:1'' @ [RETURN_CHAR, NEWLINE]) (user_reset_list s)) = [\<lparr>u_name = cstr ''bob'', u_pass = cstr ''1'' @ [RETURN_CHAR]\<rparr>] \<and>
   \<not> user_verify (cstr ''bob'') (cstr ''1'') (user_parse_lines (cstr ''bob:1'' @ [RETURN_CHAR, NEWLINE]) (user_reset_list s))"
proof -
  let ?u = "\<lparr>u_name = cstr ''bob'', u_pass = cstr ''1'' @ [RETURN_CHAR]\<rparr>"
  have h: "list_all user_ok [?u]" "length [?u] \<le> MAX_USERS" "concat (map print_user [?u]) = cstr ''bob:1'' @ [RETURN_CHAR, NEWLINE]"
    by (simp_all add: user_ok_def cstr_def print_user_def)
  have g: "g_users (user_parse_lines (cstr ''bob:1'' @ [RETURN_CHAR, NEWLINE]) (user_reset_list s)) = [?u]"
    using parse_printed [OF h(1), of "user_reset_list s"] unfolding h(3) by (simp add: user_reset_list_def)
  then show ?thesis by (simp add: user_verify_def cstr_def)
qed

text \<open>When \<open>ensure_user_store\<close> returns there is at least one account to log in with, at most eight, and every name and
  password fits its array; on a mounted volume the login screen is active. Whether it returns depends on the disk.\<close>

theorem ensure_user_store_accounts:
  assumes r: "ensure_user_store fuel rd wr s = Inr s'"
  shows "users_ok s' \<and> g_users s' \<noteq> [] \<and> (g_vol s \<noteq> None \<longrightarrow> g_login_active s' \<and> g_login_pw_focus s')"
proof -
  let ?s = "login_reset_password (user_reset_list s)"
  have v: "g_vol ?s = g_vol s" by (simp add: login_reset_password_def user_reset_list_def)
  have ok: "users_ok t" if "g_users t = g_users ?s" for t :: "'a session"
    using that by (simp add: users_ok_def login_reset_password_def user_reset_list_def)
  show ?thesis
  proof (cases "g_vol s")
    case None
    then show ?thesis using r user_default_ok by (auto simp: ensure_user_store_def v)
  next
    case (Some vd)
    with r obtain s1 s2 s3 s4 where
      e: "ensure_user_dirs_on_disk fuel rd wr (cstr ''ADMIN'') ?s = Inr s1" "ensure_user_dirs_on_disk fuel rd wr (cstr ''GUEST'') s1 = Inr s2"
        "make_dir fuel rd wr (cstr ''PARANOS/WALLPAPR'') s2 = Inr s3" "load_users fuel rd wr s3 = Inr s4"
      and s': "g_users s' = g_users (if g_users s4 = [] then user_load_default s4 else s4)" "g_login_active s'" "g_login_pw_focus s'"
      by (auto simp: ensure_user_store_def v res_simps Let_def build_user_desktop_path_total)
    have "users_ok s4"
      using load_users_keeps [OF ok e(4)] ensure_dirs_users [OF e(1)] ensure_dirs_users [OF e(2)] make_dir_users [OF e(3)] by simp
    then have "users_ok s' \<and> g_users s' \<noteq> []"
      using s'(1) user_default_ok [of s4] by (auto simp: users_ok_def split: if_splits)
    with s'(2,3) show ?thesis by simp
  qed
qed

definition demo_boot :: "unit session res" where
  "demo_boot = ensure_user_store 1 (\<lambda>_ _ _. None) (\<lambda>d _ _ _. Inr (-1, d)) (demo_session\<lparr>g_vol := Some
     (\<lparr>fs_type = FAT_FS_FAT32, bytes_per_sec = 512, sec_per_clus = 1, rsvd_sec_cnt = 2, num_fats = 1,
       fat_sz32 = 2, root_clus = 2, first_data_lba = 4, fat_lba = 2, tot_sec32 = 14, part_lba_start = 0,
       exfat_fat_length = 0, exfat_heap_offset = 0, exfat_cluster_count = 0, exfat_bitmap_clus = 0,
       exfat_bitmap_size = 0, exfat_bps_shift = 0, exfat_spc_shift = 0\<rparr>, ())\<rparr>)"

lemma demo_boot_returns: "\<not> isl demo_boot"
  by code_simp

theorem ensure_user_store_accounts_witness:
  "\<exists>s'. demo_boot = Inr s' \<and> users_ok s' \<and> g_users s' \<noteq> [] \<and> g_login_active s'"
proof -
  obtain s' where s': "demo_boot = Inr s'" using demo_boot_returns by (cases demo_boot) (simp_all add: isl_def)
  from ensure_user_store_accounts [OF this [unfolded demo_boot_def]] s' show ?thesis by (intro exI [of _ s']) (simp add: demo_session_def)
qed

end
