(* ===== verification/Fat_Files.thy ===== *)
theory Fat_Files
  imports Fat_Api
begin

text \<open>
  Files and directories of a FAT32 volume as their users see them. A directory is a map from
  11-byte names to entries; creating an entry is an update of that map, a path is resolved
  component by component, and what \<open>fat32_write_file_path\<close> stores under a path is what
  \<open>fat32_read_file_path\<close> delivers for it.
\<close>

subsection \<open>Entries\<close>

lemma length_dirent_bytes [simp]: "length nm = 11 \<Longrightarrow> length (dirent_bytes nm attr cl sz) = 32"
  by (simp add: dirent_bytes_def)

lemma split_cluster_word:
  "push_bit 16 (ucast (ucast (drop_bit 16 cl) :: u16)) OR ucast (ucast cl :: u16) = (cl :: u32)"
proof (rule bit_word_eqI)
  fix n
  assume "n < LENGTH(32)"
  then show "bit (push_bit 16 (ucast (ucast (drop_bit 16 cl) :: u16)) OR ucast (ucast cl :: u16) :: u32) n
      = bit cl n"
    by (cases "16 \<le> n") (auto simp: bit_simps)
qed

lemma dirent_of_bytes:
  assumes "length nm = 11"
  shows "de_name (dirent_of (dirent_bytes nm attr cl sz)) = nm"
    and "de_attr (dirent_of (dirent_bytes nm attr cl sz)) = attr"
    and "dirent_start_cluster (dirent_of (dirent_bytes nm attr cl sz)) = cl"
    and "de_file_size (dirent_of (dirent_bytes nm attr cl sz)) = sz"
proof -
  have hi: "take 2 (drop 20 (dirent_bytes nm attr cl sz)) = le_bytes 2 (ucast (drop_bit 16 cl) :: u16)"
    and lo: "take 2 (drop 26 (dirent_bytes nm attr cl sz)) = le_bytes 2 (ucast cl :: u16)"
    using assms by (simp_all add: dirent_bytes_def)
  show "de_name (dirent_of (dirent_bytes nm attr cl sz)) = nm"
    and "de_attr (dirent_of (dirent_bytes nm attr cl sz)) = attr"
    using assms by (simp_all add: dirent_of_def dirent_bytes_def nth_append)
  show "de_file_size (dirent_of (dirent_bytes nm attr cl sz)) = sz"
    using assms by (simp add: dirent_of_def dirent_bytes_def le_word_le_bytes_full)
  show "dirent_start_cluster (dirent_of (dirent_bytes nm attr cl sz)) = cl"
    by (simp add: dirent_start_cluster_def dirent_of_def hi lo le_word_le_bytes_full split_cluster_word)
qed

text \<open>Updating an entry in place keeps its name and attributes.\<close>

definition updated_entry :: "u8 list \<Rightarrow> u32 \<Rightarrow> u32 \<Rightarrow> u8 list" where
  "updated_entry bs cl sz =
     take 20 bs @ le_bytes 2 (ucast (drop_bit 16 cl) :: u16) @ take 4 (drop 22 bs)
     @ le_bytes 2 (ucast cl :: u16) @ le_bytes 4 sz"

lemma length_updated_entry [simp]: "length bs = 32 \<Longrightarrow> length (updated_entry bs cl sz) = 32"
  by (simp add: updated_entry_def)

lemma update_dirent_eq:
  assumes "off + 32 \<le> length sec"
  shows "update_dirent sec off cl sz = Inr (patch sec off (updated_entry (take 32 (drop off sec)) cl sz))"
proof -
  let ?s1 = "patch sec (off + 20) (le_bytes 2 (ucast (drop_bit 16 cl) :: u16))"
  let ?s2 = "patch ?s1 (off + 26) (le_bytes 2 (ucast cl :: u16))"
  have l: "length ?s1 = length sec" "length ?s2 = length sec" using assms by simp_all
  have "patch ?s2 (off + 28) (le_bytes 4 sz) = patch sec off (updated_entry (take 32 (drop off sec)) cl sz)"
  proof (rule nth_equalityI)
    show "length (patch ?s2 (off + 28) (le_bytes 4 sz)) =
        length (patch sec off (updated_entry (take 32 (drop off sec)) cl sz))"
      using assms l by simp
    fix i
    assume "i < length (patch ?s2 (off + 28) (le_bytes 4 sz))"
    then have i: "i < length sec" using assms l by simp
    have u: "updated_entry (take 32 (drop off sec)) cl sz ! k =
        (if k < 20 then sec ! (off + k)
         else if k < 22 then le_bytes 2 (ucast (drop_bit 16 cl) :: u16) ! (k - 20)
         else if k < 26 then sec ! (off + k)
         else if k < 28 then le_bytes 2 (ucast cl :: u16) ! (k - 26)
         else le_bytes 4 sz ! (k - 28))" if "k < 32" for k
      using assms that by (auto simp: updated_entry_def nth_append min_def)
    show "patch ?s2 (off + 28) (le_bytes 4 sz) ! i =
        patch sec off (updated_entry (take 32 (drop off sec)) cl sz) ! i"
      using assms i l u [of "i - off"] by (auto simp: nth_patch)
  qed
  then show ?thesis using assms l by (simp add: update_dirent_def store_def)
qed

lemma dirent_of_updated:
  assumes "length bs = 32"
  shows "de_name (dirent_of (updated_entry bs cl sz)) = de_name (dirent_of bs)"
    and "de_attr (dirent_of (updated_entry bs cl sz)) = de_attr (dirent_of bs)"
    and "dirent_start_cluster (dirent_of (updated_entry bs cl sz)) = cl"
    and "de_file_size (dirent_of (updated_entry bs cl sz)) = sz"
proof -
  have hi: "take 2 (drop 20 (updated_entry bs cl sz)) = le_bytes 2 (ucast (drop_bit 16 cl) :: u16)"
    and lo: "take 2 (drop 26 (updated_entry bs cl sz)) = le_bytes 2 (ucast cl :: u16)"
    using assms by (simp_all add: updated_entry_def)
  show "de_name (dirent_of (updated_entry bs cl sz)) = de_name (dirent_of bs)"
    and "de_attr (dirent_of (updated_entry bs cl sz)) = de_attr (dirent_of bs)"
    using assms by (simp_all add: dirent_of_def updated_entry_def nth_append min_def)
  show "de_file_size (dirent_of (updated_entry bs cl sz)) = sz"
    using assms by (simp add: dirent_of_def updated_entry_def le_word_le_bytes_full)
  show "dirent_start_cluster (dirent_of (updated_entry bs cl sz)) = cl"
    by (simp add: dirent_start_cluster_def dirent_of_def hi lo le_word_le_bytes_full split_cluster_word)
qed

subsection \<open>A directory as a map\<close>

abbreviation lookup :: "(slot \<Rightarrow> u8 list) \<Rightarrow> slot list \<Rightarrow> u8 list \<Rightarrow> (dirent_t \<times> slot) option" where
  "lookup bytes xs want \<equiv> snd (find_result want bytes xs)"

text \<open>After the end mark a directory holds nothing.\<close>

definition dir_terminated :: "(slot \<Rightarrow> u8 list) \<Rightarrow> slot list \<Rightarrow> bool" where
  "dir_terminated bytes xs \<longleftrightarrow>
     (\<forall>z\<in>set (dropWhile (\<lambda>x. bytes x ! 0 \<noteq> 0) xs). bytes z ! 0 = 0)"

lemma dropWhile_cong_set: "(\<And>x. x \<in> set xs \<Longrightarrow> P x = Q x) \<Longrightarrow> dropWhile P xs = dropWhile Q xs"
  by (rule dropWhile_cong) simp_all

lemma dir_terminated_skip:
  "\<forall>y\<in>set ys. bytes y ! 0 \<noteq> 0 \<Longrightarrow> dir_terminated bytes (ys @ zs) = dir_terminated bytes zs"
  by (simp add: dir_terminated_def dropWhile_append2)

lemma dir_terminated_zeros: "\<forall>z\<in>set zs. bytes z ! 0 = 0 \<Longrightarrow> dir_terminated bytes zs"
  by (auto simp: dir_terminated_def dest: set_dropWhileD)

lemma dir_terminated_Cons:
  "dir_terminated bytes (x # zs) \<longleftrightarrow>
     (if bytes x ! 0 = 0 then \<forall>z\<in>set zs. bytes z ! 0 = 0 else dir_terminated bytes zs)"
  by (auto simp: dir_terminated_def)

lemma dir_terminated_cong:
  assumes "\<And>x. x \<in> set xs \<Longrightarrow> bytes' x = bytes x"
  shows "dir_terminated bytes' xs = dir_terminated bytes xs"
proof -
  have "dropWhile (\<lambda>x. bytes' x ! 0 \<noteq> 0) xs = dropWhile (\<lambda>x. bytes x ! 0 \<noteq> 0) xs"
    by (rule dropWhile_cong_set) (simp add: assms)
  moreover have "\<forall>z\<in>set (dropWhile (\<lambda>x. bytes x ! 0 \<noteq> 0) xs). bytes' z = bytes z"
    using assms set_dropWhileD by metis
  ultimately show ?thesis by (simp add: dir_terminated_def)
qed

lemma find_append: "find P (xs @ ys) = (case find P xs of None \<Rightarrow> find P ys | Some x \<Rightarrow> Some x)"
  by (induction xs) simp_all

lemma find_cong: "(\<And>x. x \<in> set xs \<Longrightarrow> P x = Q x) \<Longrightarrow> find P xs = find Q xs"
  by (induction xs) auto

lemma find_result_cong:
  "(\<And>x. x \<in> set xs \<Longrightarrow> bytes' x = bytes x) \<Longrightarrow> find_result want bytes' xs = find_result want bytes xs"
proof -
  assume eq: "\<And>x. x \<in> set xs \<Longrightarrow> bytes' x = bytes x"
  have "find (\<lambda>x. bytes' x ! 0 = 0 \<or> slot_named want (bytes' x)) xs =
      find (\<lambda>x. bytes x ! 0 = 0 \<or> slot_named want (bytes x)) xs"
    by (rule find_cong) (simp add: eq)
  then show ?thesis using eq by (auto simp: find_result_def dest: find_SomeD split: option.split)
qed

lemma find_result_skip:
  assumes "\<forall>y\<in>set ys. bytes y ! 0 \<noteq> 0 \<and> \<not> slot_named want (bytes y)"
  shows "find_result want bytes (ys @ zs) = find_result want bytes zs"
proof -
  have "find (\<lambda>x. bytes x ! 0 = 0 \<or> slot_named want (bytes x)) ys = None"
    using assms by (auto simp: find_None_iff)
  then show ?thesis by (simp add: find_result_def find_append)
qed

lemma lookup_hit:
  assumes "y \<in> set ys" "slot_named want (bytes y)" "\<forall>y\<in>set ys. bytes y ! 0 \<noteq> 0"
  shows "\<exists>y\<in>set ys. find_result want bytes (ys @ zs) = (0, Some (dirent_of (bytes y), y))"
proof -
  let ?P = "\<lambda>x. bytes x ! 0 = 0 \<or> slot_named want (bytes x)"
  from assms(1,2) have "find ?P ys \<noteq> None" by (metis (mono_tags, lifting) find_None_iff)
  then obtain y' where y': "find ?P ys = Some y'" by auto
  with find_SomeD [OF y'] assms(3) show ?thesis by (auto simp: find_result_def find_append)
qed

lemma lookup_none_cases:
  assumes "lookup bytes (ys @ zs) want = None" and "\<forall>y\<in>set ys. bytes y ! 0 \<noteq> 0"
  shows "\<forall>y\<in>set ys. \<not> slot_named want (bytes y)"
  using assms lookup_hit [of _ ys want bytes zs] by fastforce

lemma lookup_zeros: "\<forall>z\<in>set zs. bytes z ! 0 = 0 \<Longrightarrow> lookup bytes zs want = None"
  by (cases zs) (auto simp: find_result_def)

lemma lookup_Cons:
  "lookup bytes (x # zs) want =
     (if bytes x ! 0 = 0 then None
      else if slot_named want (bytes x) then Some (dirent_of (bytes x), x) else lookup bytes zs want)"
  by (auto simp: find_result_def)

text \<open>Filling the first free slot with a new name is a map update.\<close>

lemma lookup_create:
  assumes free: "find (\<lambda>x. slot_free (bytes x)) xs = Some x" and dist: "distinct xs"
    and ter: "dir_terminated bytes xs" and fresh: "lookup bytes xs nm = None"
    and new: "slot_named nm new" and upd: "\<forall>y\<in>set xs. bytes' y = (if y = x then new else bytes y)"
  shows "lookup bytes' xs want = (if want = nm then Some (dirent_of new, x) else lookup bytes xs want)"
    and "dir_terminated bytes' xs"
proof -
  from find_first_split [OF free] obtain ys zs where xs: "xs = ys @ x # zs"
    and ys: "\<forall>y\<in>set ys. \<not> slot_free (bytes y)" and fx: "slot_free (bytes x)" by metis
  have nx: "x \<notin> set ys" "x \<notin> set zs" using dist xs by auto
  have eq: "\<And>y. y \<in> set ys \<Longrightarrow> bytes' y = bytes y" "\<And>z. z \<in> set zs \<Longrightarrow> bytes' z = bytes z"
    "bytes' x = new"
    using upd xs nx by auto
  have ys0: "\<forall>y\<in>set ys. bytes y ! 0 \<noteq> 0" using ys by (auto simp: slot_free_def)
  have new0: "new ! 0 \<noteq> 0" using new by (auto simp: slot_named_def slot_free_def)
  have nn: "slot_named w new \<longleftrightarrow> w = nm" for w using new by (auto simp: slot_named_def)
  have xn: "\<not> slot_named w (bytes x)" for w using fx by (simp add: slot_named_def)
  have rest: "lookup bytes (x # zs) w = lookup bytes zs w" for w
  proof (cases "bytes x ! 0 = 0")
    case True
    with ter xs have "\<forall>z\<in>set zs. bytes z ! 0 = 0"
      by (simp add: dir_terminated_skip [OF ys0] dir_terminated_Cons)
    from lookup_zeros [OF this] show ?thesis by (simp add: lookup_Cons True)
  qed (simp add: lookup_Cons xn)
  have zs: "lookup bytes' zs w = lookup bytes zs w" for w using eq(2) find_result_cong by metis
  show "lookup bytes' xs want = (if want = nm then Some (dirent_of new, x) else lookup bytes xs want)"
  proof (cases "\<exists>y\<in>set ys. slot_named want (bytes y)")
    case True
    then have "want \<noteq> nm" using lookup_none_cases [OF fresh [unfolded xs] ys0] by auto
    moreover have "find_result want bytes' xs = find_result want bytes xs"
    proof -
      have "find_result want bytes' ys = find_result want bytes ys" using eq(1) by (rule find_result_cong)
      moreover from True have "find (\<lambda>x. bytes x ! 0 = 0 \<or> slot_named want (bytes x)) ys \<noteq> None"
        by (metis (mono_tags, lifting) find_None_iff)
      moreover have "find (\<lambda>x. bytes' x ! 0 = 0 \<or> slot_named want (bytes' x)) ys =
          find (\<lambda>x. bytes x ! 0 = 0 \<or> slot_named want (bytes x)) ys"
        by (rule find_cong) (simp add: eq(1))
      ultimately show ?thesis by (auto simp: find_result_def find_append xs)
    qed
    ultimately show ?thesis by simp
  next
    case False
    with ys0 eq(1) have s: "find_result want bytes xs = find_result want bytes (x # zs)"
      "find_result want bytes' xs = find_result want bytes' (x # zs)"
      unfolding xs by (intro find_result_skip; simp)+
    show ?thesis by (simp only: s rest) (simp add: lookup_Cons eq(3) new0 nn zs)
  qed
  show "dir_terminated bytes' xs"
  proof -
    have "dir_terminated bytes' xs = dir_terminated bytes' zs"
      using ys0 eq new0 by (simp add: xs dir_terminated_skip dir_terminated_Cons)
    also have "\<dots> = dir_terminated bytes zs" using eq(2) by (rule dir_terminated_cong)
    finally show ?thesis
      using ter xs by (auto simp: dir_terminated_skip [OF ys0] dir_terminated_Cons
          intro: dir_terminated_zeros split: if_splits)
  qed
qed

text \<open>Rewriting an entry in place keeps every search at the same slot.\<close>

lemma slot_first12:
  assumes "take 12 bs = take 12 bs'" and "12 \<le> length bs" "12 \<le> length bs'"
  shows "bs ! 0 = bs' ! 0" and "slot_named want bs = slot_named want bs'"
proof -
  have "bs ! i = bs' ! i" if "i < 12" for i using assms that by (metis nth_take)
  then show "bs ! 0 = bs' ! 0" and "slot_named want bs = slot_named want bs'"
    using arg_cong [OF assms(1), of "take 11"] by (auto simp: slot_named_def slot_free_def)
qed

lemma lookup_SomeD:
  assumes "lookup bytes xs nm = Some (de, x)"
  shows "x \<in> set xs" and "slot_named nm (bytes x)" and "de = dirent_of (bytes x)"
proof -
  let ?P = "\<lambda>x. bytes x ! 0 = 0 \<or> slot_named nm (bytes x)"
  from assms have f: "find ?P xs = Some x" and b: "bytes x ! 0 \<noteq> 0" and "de = dirent_of (bytes x)"
    by (auto simp: find_result_def split: option.splits if_splits)
  with find_SomeD [OF f] show "x \<in> set xs" and "slot_named nm (bytes x)" and "de = dirent_of (bytes x)"
    by auto
qed

lemma lookup_replace:
  assumes "lookup bytes xs nm = Some (de, x)" and upd: "\<forall>y\<in>set xs. bytes' y = (if y = x then new else bytes y)"
    and pre: "take 12 new = take 12 (bytes x)" "12 \<le> length new" "12 \<le> length (bytes x)"
  shows "lookup bytes' xs nm = Some (dirent_of new, x)"
proof -
  let ?P = "\<lambda>b x. b x ! 0 = 0 \<or> slot_named nm (b x)"
  have "?P bytes' y = ?P bytes y" if "y \<in> set xs" for y
    using upd that slot_first12 [OF pre] by (cases "y = x") auto
  then have "find (?P bytes') xs = find (?P bytes) xs" by (rule find_cong)
  moreover from assms(1) have "find (?P bytes) xs = Some x" "bytes x ! 0 \<noteq> 0"
    by (auto simp: find_result_def split: option.splits if_splits)
  moreover have "bytes' x = new" using upd lookup_SomeD(1) [OF assms(1)] by auto
  ultimately show ?thesis using slot_first12(1) [OF pre] by (simp add: find_result_def)
qed

subsection \<open>Directories on a device\<close>

lemma dir_frame:
  assumes "dir_readable v rd d n cl cs"
    and fat: "\<forall>c\<in>set cs. fat_read_fat_entry v rd d' c = fat_read_fat_entry v rd d c"
    and dat: "\<forall>c\<in>set cs. \<forall>l\<in>set (cluster_lbas v c). rd d' l 1 = rd d l 1"
  shows "dir_readable v rd d' n cl cs"
    and "y \<in> set (dir_slots v lim cs) \<Longrightarrow> slot_bytes rd d' y = slot_bytes rd d y"
proof -
  show "dir_readable v rd d' n cl cs"
    using assms fat_chain_cong [of v rd d cl cs d'] by (auto simp: dir_readable_def readable_def)
  show "slot_bytes rd d' y = slot_bytes rd d y" if "y \<in> set (dir_slots v lim cs)"
    using slot_in_cluster [OF that] dat by (auto simp: slot_bytes_def slot_sec_def)
qed

text \<open>A cluster whose table entry is zero is on no chain of valid clusters.\<close>

lemma chain_entries:
  "fat_chain v rd d cl cs \<Longrightarrow> c \<in> set cs \<Longrightarrow>
     \<exists>nx. fat_read_fat_entry v rd d c = Inr nx \<and> (is_end_cluster nx \<or> nx \<in> set cs)"
proof (induction rule: fat_chain.induct)
  case (chain_end cl)
  then show ?case by simp
next
  case (chain_link cl nx cs)
  have "is_end_cluster nx \<or> nx \<in> set cs" using chain_link.hyps(3) by (cases) auto
  with chain_link show ?case by auto
qed

lemma free_not_in_chain:
  assumes "fat_chain v rd d cl cs" and "\<forall>c\<in>set cs. valid_clus N c" and "fat_read_fat_entry v rd d c = Inr 0"
  shows "c \<notin> set cs"
proof
  assume "c \<in> set cs"
  from chain_entries [OF assms(1) this] assms(2,3) show False
    by (auto simp: is_end_cluster_def valid_clus_def)
qed

lemma distinct_dir_slots:
  assumes l: "vol_layout v n cap N" and "\<forall>c\<in>set cs. valid_clus N c" and "distinct cs"
  shows "distinct (dir_slots v lim cs)"
  using assms(2,3)
proof (induction cs)
  case Nil
  then show ?case by (simp add: dir_slots_def)
next
  case (Cons c cs)
  have app: "dir_slots v lim (c # cs) = dir_slots v lim [c] @ dir_slots v lim cs" by (simp add: dir_slots_def)
  have "dir_slots v lim [c] =
      map (Pair (clus_to_lba v c)) (List.product [0..<unat (sec_per_clus v)] (offsets32 lim))"
    by (simp add: dir_slots_def product_concat_map map_concat comp_def)
  then have "distinct (dir_slots v lim [c])"
    by (simp add: distinct_map inj_on_def distinct_product offsets32_def)
  moreover have "set (dir_slots v lim [c]) \<inter> set (dir_slots v lim cs) = {}"
  proof -
    have "clus_to_lba v c \<noteq> clus_to_lba v c'" if "c' \<in> set cs" for c'
    proof
      assume eq: "clus_to_lba v c = clus_to_lba v c'"
      have spc: "0 < unat (sec_per_clus v)" using l by (simp add: vol_layout_def)
      then have "clus_to_lba v c \<in> set (cluster_lbas v c)" "clus_to_lba v c' \<in> set (cluster_lbas v c')"
        by (auto simp: cluster_lbas_def intro!: image_eqI [of _ _ 0])
      with eq cluster_lbas_disjoint [OF l, of c c'] Cons.prems that show False by auto
    qed
    then show ?thesis by (auto simp: dir_slots_iff)
  qed
  ultimately show ?case using Cons by (simp add: app)
qed

context reliable_device
begin

text \<open>The allocator succeeds when one of its candidates is free.\<close>

lemma alloc_loop_finds:
  assumes "ok d" and g: "sector_geometry v secsz" and "\<forall>c\<in>set cs. fat_slot v cap c"
    and "\<exists>c\<in>set cs. fat_read_fat_entry v rd d c = Inr 0" and "0 \<notin> set cs"
  shows "\<exists>cl d'. cl \<noteq> 0 \<and> for_loop (alloc_body v rd wr) cs d = Inr (Return (cl, d'))"
  using assms(3-5)
proof (induction cs)
  case Nil
  then show ?case by simp
next
  case (Cons c cs)
  have sl: "fat_slot v cap c" using Cons.prems by simp
  obtain sec where sec: "rd d (fat_sector_of v c) 1 = Some sec"
    using rd_succeeds [OF \<open>ok d\<close> fat_slot_in_cap [OF sl]] by auto
  have len: "length sec = secsz" using rd_length [OF \<open>ok d\<close> sec] .
  have rs: "read_sector MAX_SECTOR_SIZE rd d (fat_sector_of v c) = Inr (Some sec)"
    using sec len g by (simp add: read_sector_def sector_geometry_def)
  obtain w :: u32 where w: "ld32 sec (fat_ent_off v c) = Inr w"
    using fat_ent_off_bound [OF g sl] len by (simp add: ld_le_def)
  note nz = sector_geometry_nonzero [OF g]
  have rdw: "fat_read_fat_entry v rd d c = Inr (w AND 0x0FFFFFFF)" by (simp add: fat_read_fat_entry_eq [OF nz] rs w)
  show ?case
  proof (cases "w AND 0x0FFFFFFF = 0")
    case True
    obtain d' where "fat_write_fat_entry v rd wr d c 0x0FFFFFFF = Inr (0, d')"
      using fat_write_succeeds [OF \<open>ok d\<close> g sl] by auto
    then have "alloc_body v rd wr c d = Inr (Return (c, d'))" by (simp add: alloc_body_eq [OF nz] rs w True)
    then show ?thesis using Cons.prems by auto
  next
    case False
    then have b: "alloc_body v rd wr c d = Inr (Next d)" by (simp add: alloc_body_eq [OF nz] rs w)
    have "\<exists>c\<in>set cs. fat_read_fat_entry v rd d c = Inr 0" using Cons.prems(2) False rdw by auto
    from Cons.IH [OF _ this] Cons.prems(1,3) show ?thesis by (simp add: b)
  qed
qed

lemma alloc_loop_full:
  assumes "ok d" and g: "sector_geometry v secsz" and "\<forall>c\<in>set cs. fat_slot v cap c"
    and "\<forall>c\<in>set cs. fat_read_fat_entry v rd d c \<noteq> Inr 0"
  shows "for_loop (alloc_body v rd wr) cs d = Inr (Next d)"
  using assms(3,4)
proof (induction cs)
  case Nil
  then show ?case by simp
next
  case (Cons c cs)
  have sl: "fat_slot v cap c" using Cons.prems by simp
  obtain sec where sec: "rd d (fat_sector_of v c) 1 = Some sec"
    using rd_succeeds [OF \<open>ok d\<close> fat_slot_in_cap [OF sl]] by auto
  have len: "length sec = secsz" using rd_length [OF \<open>ok d\<close> sec] .
  have rs: "read_sector MAX_SECTOR_SIZE rd d (fat_sector_of v c) = Inr (Some sec)"
    using sec len g by (simp add: read_sector_def sector_geometry_def)
  note nz = sector_geometry_nonzero [OF g]
  have "alloc_body v rd wr c d = Inr (Next d)"
    using Cons.prems(2) fat_ent_off_bound [OF g sl] len
    by (auto simp: alloc_body_eq [OF nz] fat_read_fat_entry_eq [OF nz] rs ld_le_def)
  then show ?case using Cons by simp
qed

lemma candidates_valid:
  assumes "unat (alloc_max_clusters v) \<le> N + 2" and "c \<in> set (cluster_candidates (alloc_max_clusters v))"
  shows "valid_clus N c"
proof -
  from assms(2) obtain k where k: "2 \<le> k" "k < unat (alloc_max_clusters v)" "c = word_of_nat k"
    by (auto simp: cluster_candidates_def)
  moreover have "unat c = k" using k unat_bound [of "alloc_max_clusters v"] by (simp add: unat_of_nat)
  ultimately show ?thesis using assms(1) by (simp add: valid_clus_def)
qed

lemma fat_alloc_succeeds:
  assumes ok: "ok d" and l: "vol_layout v secsz cap N" and mx: "unat (alloc_max_clusters v) \<le> N + 2"
    and free: "\<exists>c\<in>set (cluster_candidates (alloc_max_clusters v)). fat_read_fat_entry v rd d c = Inr 0"
  obtains cl d' where "fat_alloc_free_cluster v rd wr d = Inr (cl, d')" and "valid_clus N cl"
    and "fat_read_fat_entry v rd d cl = Inr 0" and "ok d'"
    and "fat_write_fat_entry v rd wr d cl 0x0FFFFFFF = Inr (0, d')"
proof -
  note g = vol_layout_geometry [OF l]
  let ?cs = "cluster_candidates (alloc_max_clusters v)"
  have valid: "\<forall>c\<in>set ?cs. valid_clus N c" using candidates_valid [OF mx] by simp
  then have "0 \<notin> set ?cs" by (auto simp: valid_clus_def)
  with alloc_loop_finds [OF ok g _ free] valid valid_clus_slot [OF l] obtain cl d' where
    r: "cl \<noteq> 0" "for_loop (alloc_body v rd wr) ?cs d = Inr (Return (cl, d'))" by blast
  have "sec_per_clus v \<noteq> 0" using l by (auto simp: vol_layout_def)
  with r have a: "fat_alloc_free_cluster v rd wr d = Inr (cl, d')" by (simp add: fat_alloc_free_cluster_def)
  from fat_alloc_cases [OF sector_geometry_nonzero [OF g] a r(1)] valid show ?thesis
    using that [OF a] fat_write_ok [OF ok g valid_clus_slot [OF l]] by blast
qed

lemma create_dir_entry_writes:
  assumes ok: "ok d" and l: "vol_layout v secsz cap N" and dvd: "32 dvd secsz" and "secsz \<le> 512"
    and cs: "\<forall>c\<in>set cs. valid_clus N c" and r: "dir_readable v rd d secsz cl cs" and "length cs < fuel"
    and free: "find (\<lambda>x. slot_free (slot_bytes rd d x)) (dir_slots v secsz cs) = Some x" and nm: "length nm = 11"
  obtains d' where "create_dir_entry fuel v rd wr d cl nm attr start sz = Inr (0, d')"
    and "wr d (slot_lba x) 1 (patch (slot_sec rd d x) (slot_off x) (dirent_bytes nm attr start sz)) = Inr (0, d')"
proof -
  have bps: "unat (bytes_per_sec v) = secsz" using l by (simp add: vol_layout_def sector_geometry_def)
  have x: "x \<in> set (dir_slots v secsz cs)" using find_SomeD [OF free] by simp
  have fit: "slot_off x + 32 \<le> length (slot_sec rd d x)" "length (slot_sec rd d x) = secsz"
    using slot_fits [OF x dvd] slot_sec_readable [OF r x] by auto
  have "unat (slot_lba x) < cap" using slot_in_cluster [OF x] cs cluster_lbas_in_cap [OF l] by blast
  with wr_succeeds [OF ok this] fit nm obtain d' where
    w: "wr d (slot_lba x) 1 (patch (slot_sec rd d x) (slot_off x) (dirent_bytes nm attr start sz)) = Inr (0, d')"
    by (metis length_dirent_bytes length_patch order_refl)
  moreover have "create_dir_entry fuel v rd wr d cl nm attr start sz = Inr (0, d')"
    using w fit nm
    by (cases x) (simp add: create_dir_entry_def dir_find_free_slot_result [OF r \<open>secsz \<le> 512\<close> dvd bps \<open>length cs < fuel\<close>]
        free store_def slot_off_def slot_lba_def)
  ultimately show ?thesis using that by blast
qed

text \<open>\<open>create_dir_entry\<close> updates the map of the directory and leaves the rest of the volume alone.\<close>

lemma create_dir_entry_update:
  assumes ok: "ok d" and l: "vol_layout v secsz cap N" and dvd: "32 dvd secsz" and small: "secsz \<le> 512"
    and cs: "\<forall>c\<in>set cs. valid_clus N c" and r: "dir_readable v rd d secsz cl cs" and fuel: "length cs < fuel"
    and free: "find (\<lambda>x. slot_free (slot_bytes rd d x)) (dir_slots v secsz cs) = Some x"
    and ter: "dir_terminated (slot_bytes rd d) (dir_slots v secsz cs)"
    and fresh: "lookup (slot_bytes rd d) (dir_slots v secsz cs) nm = None"
    and nm: "length nm = 11" "nm ! 0 \<noteq> 0" "nm ! 0 \<noteq> 0xE5" and attr: "attr \<noteq> ATTR_LONG_NAME"
  obtains d' where "create_dir_entry fuel v rd wr d cl nm attr start sz = Inr (0, d')" and "ok d'"
    and "dir_readable v rd d' secsz cl cs" and "dir_terminated (slot_bytes rd d') (dir_slots v secsz cs)"
    and "\<forall>want. lookup (slot_bytes rd d') (dir_slots v secsz cs) want =
           (if want = nm then Some (dirent_of (dirent_bytes nm attr start sz), x)
            else lookup (slot_bytes rd d) (dir_slots v secsz cs) want)"
    and "\<forall>c. valid_clus N c \<longrightarrow> fat_read_fat_entry v rd d' c = fat_read_fat_entry v rd d c"
    and "\<forall>k. unat k < cap \<longrightarrow> k \<noteq> slot_lba x \<longrightarrow> rd d' k 1 = rd d k 1"
proof -
  let ?xs = "dir_slots v secsz cs" and ?new = "dirent_bytes nm attr start sz"
  have x: "x \<in> set ?xs" using find_SomeD [OF free] by simp
  have fit: "slot_off x + 32 \<le> secsz" "length (slot_sec rd d x) = secsz"
    using slot_fits [OF x dvd] slot_sec_readable [OF r x] by auto
  obtain d' where run: "create_dir_entry fuel v rd wr d cl nm attr start sz = Inr (0, d')"
    and w: "wr d (slot_lba x) 1 (patch (slot_sec rd d x) (slot_off x) ?new) = Inr (0, d')"
    using create_dir_entry_writes [OF ok l dvd small cs r fuel free nm(1)] by metis
  have len: "length (patch (slot_sec rd d x) (slot_off x) ?new) = secsz" using fit nm by simp
  have out: "patch (slot_sec rd d x) (slot_off x) ?new ! i = slot_sec rd d x ! i"
    if "i < secsz" "i < slot_off x \<or> slot_off x + 32 \<le> i" for i
    using that fit nm by (auto simp: nth_patch)
  note sw = slot_write [OF ok l dvd cs r x w len out, simplified]
  have same: "take 32 (drop (slot_off x) (patch (slot_sec rd d x) (slot_off x) ?new)) = ?new"
    using fit nm by (simp add: take_drop_patch_same)
  have upd: "\<forall>y\<in>set ?xs. slot_bytes rd d' y = (if y = x then ?new else slot_bytes rd d y)"
    using sw(5) [OF r cs] same by simp
  have named: "slot_named nm ?new"
    using nm attr by (auto simp: slot_named_def slot_free_def dirent_bytes_def nth_append)
  have "fat_chain v rd d cl cs" using r by (simp add: dir_readable_def)
  from fat_chain_distinct [OF this] have dist: "distinct ?xs" by (rule distinct_dir_slots [OF l cs])
  note lk = lookup_create [OF free dist ter fresh named upd]
  show ?thesis
    by (rule that [OF run sw(1) sw(4) [OF r cs] lk(2)]) (use lk(1) sw(2,3) in auto)
qed

subsection \<open>Writing the last component\<close>

lemma write_cluster_dirs:
  assumes ok: "ok d" and l: "vol_layout v secsz cap N" and c: "valid_clus N tcl"
    and len: "min (unat bytes) (unat (sec_per_clus v) * secsz) \<le> length data"
    and pre: "d0 = d \<or> fat_write_fat_entry v rd wr d0 tcl 0x0FFFFFFF = Inr (0, d)" and ok0: "ok d0"
  obtains d' where "write_single_cluster v rd wr d tcl data bytes = Inr (0, d')" and "ok d'"
    and "sectors_data rd d' (cluster_lbas v tcl) = padded (unat (sec_per_clus v) * secsz) (take (unat bytes) data)"
    and "\<forall>l\<in>set (cluster_lbas v tcl). readable secsz rd d' l"
    and "\<forall>c. valid_clus N c \<longrightarrow> fat_read_fat_entry v rd d' c =
           (if c = tcl then Inr 0x0FFFFFFF else fat_read_fat_entry v rd d0 c)"
    and "\<forall>c. valid_clus N c \<longrightarrow> c \<noteq> tcl \<longrightarrow> (\<forall>k\<in>set (cluster_lbas v c). rd d' k 1 = rd d0 k 1)"
proof (rule write_single_cluster_spec [OF ok l c len], goal_cases)
  case (1 d')
  note g = vol_layout_geometry [OF l] and sl = valid_clus_slot [OF l]
  have fat0: "fat_read_fat_entry v rd d c' = fat_read_fat_entry v rd d0 c'" if "valid_clus N c'" "c' \<noteq> tcl" for c'
    using pre fat_write_read [OF ok0 g sl [OF c] _ sl [OF that(1)]] that(2) by auto
  have rd0: "rd d k 1 = rd d0 k 1" if "unat k < cap" "k \<noteq> fat_sector_of v tcl" for k
    using pre fat_write_frame [OF ok0 g sl [OF c] _ that] by auto
  have "rd d' k 1 = rd d0 k 1" if "valid_clus N c'" "c' \<noteq> tcl" "k \<in> set (cluster_lbas v c')" for c' k
  proof -
    have "unat k < cap" using cluster_lbas_in_cap [OF l that(1,3)] .
    moreover have "k \<noteq> fat_sector_of v tcl" using fat_sector_not_data [OF l c that(1,3)] .
    moreover have "k \<notin> set (cluster_lbas v tcl)" using cluster_lbas_disjoint [OF l that(1) c that(2)] that(3) by auto
    ultimately show ?thesis using 1(7) rd0 by simp
  qed
  then show ?case using 1 fat0 by (intro 1(1)) auto
qed

text \<open>The rest of the volume across a slot write that follows the cluster write.\<close>

lemma dirs_after_write:
  assumes l: "vol_layout v secsz cap N" and cs: "\<forall>c\<in>set cs. valid_clus N c"
    and x: "x \<in> set (dir_slots v secsz cs)" and tcl: "valid_clus N tcl" "tcl \<notin> set cs"
    and fat: "\<forall>c. valid_clus N c \<longrightarrow> fat_read_fat_entry v rd d2 c =
           (if c = tcl then Inr 0x0FFFFFFF else fat_read_fat_entry v rd d0 c)"
    and dat: "\<forall>c. valid_clus N c \<longrightarrow> c \<noteq> tcl \<longrightarrow> (\<forall>k\<in>set (cluster_lbas v c). rd d2 k 1 = rd d0 k 1)"
    and fat': "\<forall>c. valid_clus N c \<longrightarrow> fat_read_fat_entry v rd d' c = fat_read_fat_entry v rd d2 c"
    and dat': "\<forall>k. unat k < cap \<longrightarrow> k \<noteq> slot_lba x \<longrightarrow> rd d' k 1 = rd d2 k 1"
  shows "dir_readable v rd d0 secsz cl2 cs2 \<Longrightarrow> \<forall>c\<in>set cs2. valid_clus N c \<Longrightarrow> set cs2 \<inter> set cs = {} \<Longrightarrow>
      tcl \<notin> set cs2 \<Longrightarrow> dir_readable v rd d' secsz cl2 cs2 \<and>
      (\<forall>y\<in>set (dir_slots v secsz cs2). slot_bytes rd d' y = slot_bytes rd d0 y)"
    and "k \<in> set (cluster_lbas v tcl) \<Longrightarrow> rd d' k 1 = rd d2 k 1"
proof -
  obtain c0 where c0: "c0 \<in> set cs" "slot_lba x \<in> set (cluster_lbas v c0)" using slot_in_cluster [OF x] by auto
  have off: "rd d' k 1 = rd d2 k 1" if "valid_clus N c" "c \<noteq> c0" "k \<in> set (cluster_lbas v c)" for c k
    using dat' cluster_lbas_in_cap [OF l that(1,3)] cluster_lbas_disjoint [OF l that(1) _ that(2)] c0 cs that(3)
    by blast
  show "rd d' k 1 = rd d2 k 1" if "k \<in> set (cluster_lbas v tcl)"
    using off [OF tcl(1)] tcl(2) c0(1) that by auto
  show "dir_readable v rd d' secsz cl2 cs2 \<and>
      (\<forall>y\<in>set (dir_slots v secsz cs2). slot_bytes rd d' y = slot_bytes rd d0 y)"
    if r: "dir_readable v rd d0 secsz cl2 cs2" and v: "\<forall>c\<in>set cs2. valid_clus N c"
      and "set cs2 \<inter> set cs = {}" "tcl \<notin> set cs2"
  proof -
    have "\<forall>c\<in>set cs2. fat_read_fat_entry v rd d' c = fat_read_fat_entry v rd d0 c"
      using that fat fat' by auto
    moreover have "\<forall>c\<in>set cs2. \<forall>k\<in>set (cluster_lbas v c). rd d' k 1 = rd d0 k 1"
      using that off dat c0(1) by (metis disjoint_iff)
    ultimately show ?thesis using dir_frame [OF r] by blast
  qed
qed

lemma write_last_new:
  assumes ok: "ok d" and l: "vol_layout v secsz cap N" and dvd: "32 dvd secsz" and small: "secsz \<le> 512"
    and mx: "unat (alloc_max_clusters v) \<le> N + 2"
    and cs: "\<forall>c\<in>set cs. valid_clus N c" and r: "dir_readable v rd d secsz dir cs"
    and fuel: "length cs < fuel" "2 \<le> fuel"
    and ter: "dir_terminated (slot_bytes rd d) (dir_slots v secsz cs)"
    and fresh: "lookup (slot_bytes rd d) (dir_slots v secsz cs) nm = None"
    and nm: "length nm = 11" "nm ! 0 \<noteq> 0" "nm ! 0 \<noteq> 0xE5"
    and slot: "\<exists>x\<in>set (dir_slots v secsz cs). slot_free (slot_bytes rd d x)"
    and free: "\<exists>c\<in>set (cluster_candidates (alloc_max_clusters v)). fat_read_fat_entry v rd d c = Inr 0"
    and len: "min (unat bytes) (unat (sec_per_clus v) * secsz) \<le> length data"
  obtains d' de x where "fat32_write_last fuel v rd wr d dir nm None data bytes = Inr (0, d')" and "ok d'"
    and "dir_readable v rd d' secsz dir cs"
    and "lookup (slot_bytes rd d') (dir_slots v secsz cs) nm = Some (de, x)" and "de_attr de = ATTR_ARCHIVE"
    and "unat (de_file_size de) = min (unat bytes) (unat (sec_per_clus v) * secsz)"
    and "\<forall>mx. de_file_size de \<le> mx \<longrightarrow>
      read_file_from_cluster fuel v rd d' (dirent_start_cluster de) (de_file_size de) mx =
        Inr (0, take (unat (de_file_size de)) data, de_file_size de)"
    and "\<forall>cl2 cs2. dir_readable v rd d secsz cl2 cs2 \<longrightarrow> (\<forall>c\<in>set cs2. valid_clus N c) \<longrightarrow>
      set cs2 \<inter> set cs = {} \<longrightarrow> dir_readable v rd d' secsz cl2 cs2 \<and>
      (\<forall>y\<in>set (dir_slots v secsz cs2). slot_bytes rd d' y = slot_bytes rd d y)"
proof -
  let ?B = "unat (sec_per_clus v) * secsz" and ?xs = "dir_slots v secsz cs"
  define sz where "sz = (if bytes < ucast (sec_per_clus v) * ucast (bytes_per_sec v) then bytes
    else ucast (sec_per_clus v) * ucast (bytes_per_sec v) :: u32)"
  have bps: "unat (bytes_per_sec v) = secsz" using l by (simp add: vol_layout_def sector_geometry_def)
  have sz: "unat sz = min (unat bytes) ?B"
    using unat_cluster_bytes [of v] by (auto simp: sz_def bps word_less_nat_alt)
  obtain tcl d1 where al: "fat_alloc_free_cluster v rd wr d = Inr (tcl, d1)" and tv: "valid_clus N tcl"
    and t0: "fat_read_fat_entry v rd d tcl = Inr 0" and ok1: "ok d1"
    and w1: "fat_write_fat_entry v rd wr d tcl 0x0FFFFFFF = Inr (0, d1)"
    using fat_alloc_succeeds [OF ok l mx free] by metis
  obtain d2 where w2: "write_single_cluster v rd wr d1 tcl data bytes = Inr (0, d2)" and ok2: "ok d2"
    and dat2: "sectors_data rd d2 (cluster_lbas v tcl) = padded ?B (take (unat bytes) data)"
    and rdb2: "\<forall>l\<in>set (cluster_lbas v tcl). readable secsz rd d2 l"
    and fat2: "\<forall>c. valid_clus N c \<longrightarrow> fat_read_fat_entry v rd d2 c =
           (if c = tcl then Inr 0x0FFFFFFF else fat_read_fat_entry v rd d c)"
    and oth2: "\<forall>c. valid_clus N c \<longrightarrow> c \<noteq> tcl \<longrightarrow> (\<forall>k\<in>set (cluster_lbas v c). rd d2 k 1 = rd d k 1)"
    using write_cluster_dirs [OF ok1 l tv len _ ok] w1 by metis
  have no: "tcl \<notin> set cs2" if "dir_readable v rd d secsz cl2 cs2" "\<forall>c\<in>set cs2. valid_clus N c" for cl2 cs2
    using free_not_in_chain [OF _ that(2) t0] that(1) by (auto simp: dir_readable_def)
  have "\<forall>c\<in>set cs. fat_read_fat_entry v rd d2 c = fat_read_fat_entry v rd d c"
    and "\<forall>c\<in>set cs. \<forall>k\<in>set (cluster_lbas v c). rd d2 k 1 = rd d k 1"
    using fat2 oth2 cs no [OF r cs] by auto
  note r2 = dir_frame(1) [OF r this] and b2 = dir_frame(2) [OF r this]
  from slot obtain x where x: "find (\<lambda>x. slot_free (slot_bytes rd d2 x)) ?xs = Some x"
    using b2 by (cases "find (\<lambda>x. slot_free (slot_bytes rd d2 x)) ?xs") (auto simp: find_None_iff)
  have ter2: "dir_terminated (slot_bytes rd d2) ?xs" using ter dir_terminated_cong [OF b2] by simp
  have fresh2: "lookup (slot_bytes rd d2) ?xs nm = None" using fresh find_result_cong [OF b2] by simp
  obtain d' where w3: "create_dir_entry fuel v rd wr d2 dir nm ATTR_ARCHIVE tcl sz = Inr (0, d')" and ok': "ok d'"
    and r': "dir_readable v rd d' secsz dir cs"
    and "dir_terminated (slot_bytes rd d') ?xs"
    and lk': "\<forall>want. lookup (slot_bytes rd d') ?xs want =
           (if want = nm then Some (dirent_of (dirent_bytes nm ATTR_ARCHIVE tcl sz), x)
            else lookup (slot_bytes rd d2) ?xs want)"
    and fat': "\<forall>c. valid_clus N c \<longrightarrow> fat_read_fat_entry v rd d' c = fat_read_fat_entry v rd d2 c"
    and dat': "\<forall>k. unat k < cap \<longrightarrow> k \<noteq> slot_lba x \<longrightarrow> rd d' k 1 = rd d2 k 1"
    by (rule create_dir_entry_update [OF ok2 l dvd small cs r2 fuel(1) x ter2 fresh2 nm, of ATTR_ARCHIVE tcl sz])
      simp_all
  have xin: "x \<in> set ?xs" using find_SomeD [OF x] by simp
  note after = dirs_after_write [OF l cs xin tv no [OF r cs] fat2 oth2 fat' dat']
  have run: "fat32_write_last fuel v rd wr d dir nm None data bytes = Inr (0, d')"
    using al w2 w3 tv by (auto simp: fat32_write_last_def sz_def [symmetric] Let_def valid_clus_def)
  have rd_file: "read_file_from_cluster fuel v rd d' tcl sz m = Inr (0, take (unat sz) data, sz)" if "sz \<le> m" for m
  proof (rule read_single_cluster [OF l tv _ _ _ len sz that fuel(2)])
    show "sectors_data rd d' (cluster_lbas v tcl) = padded ?B (take (unat bytes) data)"
      using dat2 after(2) by (simp add: sectors_data_def cong: map_cong)
    show "\<forall>l\<in>set (cluster_lbas v tcl). readable secsz rd d' l" using rdb2 after(2) by (simp add: readable_def)
    show "fat_read_fat_entry v rd d' tcl = Inr 0x0FFFFFFF" using fat' fat2 tv by simp
  qed
  show ?thesis
    by (rule that [OF run ok' r', of "dirent_of (dirent_bytes nm ATTR_ARCHIVE tcl sz)" x])
      (use lk' sz rd_file after(1) no in \<open>auto simp: dirent_of_bytes [OF nm(1)]\<close>)
qed

lemma write_last_existing:
  assumes ok: "ok d" and l: "vol_layout v secsz cap N" and dvd: "32 dvd secsz"
    and cs: "\<forall>c\<in>set cs. valid_clus N c" and r: "dir_readable v rd d secsz dir cs" and fuel: "2 \<le> fuel"
    and found: "lookup (slot_bytes rd d) (dir_slots v secsz cs) nm = Some (de, x)"
    and nodir: "de_attr de AND ATTR_DIR = 0" and tv: "valid_clus N (dirent_start_cluster de)"
    and tn: "dirent_start_cluster de \<notin> set cs"
    and len: "min (unat bytes) (unat (sec_per_clus v) * secsz) \<le> length data"
  obtains d' de' where "fat32_write_last fuel v rd wr d dir nm (Some (de, x)) data bytes = Inr (0, d')" and "ok d'"
    and "dir_readable v rd d' secsz dir cs"
    and "lookup (slot_bytes rd d') (dir_slots v secsz cs) nm = Some (de', x)" and "de_attr de' = de_attr de"
    and "unat (de_file_size de') = min (unat bytes) (unat (sec_per_clus v) * secsz)"
    and "\<forall>mx. de_file_size de' \<le> mx \<longrightarrow>
      read_file_from_cluster fuel v rd d' (dirent_start_cluster de') (de_file_size de') mx =
        Inr (0, take (unat (de_file_size de')) data, de_file_size de')"
    and "\<forall>cl2 cs2. dir_readable v rd d secsz cl2 cs2 \<longrightarrow> (\<forall>c\<in>set cs2. valid_clus N c) \<longrightarrow>
      set cs2 \<inter> set cs = {} \<longrightarrow> dirent_start_cluster de \<notin> set cs2 \<longrightarrow> dir_readable v rd d' secsz cl2 cs2 \<and>
      (\<forall>y\<in>set (dir_slots v secsz cs2). slot_bytes rd d' y = slot_bytes rd d y)"
proof -
  let ?B = "unat (sec_per_clus v) * secsz" and ?xs = "dir_slots v secsz cs" and ?tcl = "dirent_start_cluster de"
  define sz where "sz = (if bytes < ucast (sec_per_clus v) * ucast (bytes_per_sec v) then bytes
    else ucast (sec_per_clus v) * ucast (bytes_per_sec v) :: u32)"
  have bps: "unat (bytes_per_sec v) = secsz" "secsz \<le> MAX_SECTOR_SIZE"
    using l by (auto simp: vol_layout_def sector_geometry_def)
  have sz: "unat sz = min (unat bytes) ?B"
    using unat_cluster_bytes [of v] by (auto simp: sz_def bps word_less_nat_alt)
  note xD = lookup_SomeD [OF found]
  obtain d2 where w2: "write_single_cluster v rd wr d ?tcl data bytes = Inr (0, d2)" and ok2: "ok d2"
    and dat2: "sectors_data rd d2 (cluster_lbas v ?tcl) = padded ?B (take (unat bytes) data)"
    and rdb2: "\<forall>l\<in>set (cluster_lbas v ?tcl). readable secsz rd d2 l"
    and fat2: "\<forall>c. valid_clus N c \<longrightarrow> fat_read_fat_entry v rd d2 c =
           (if c = ?tcl then Inr 0x0FFFFFFF else fat_read_fat_entry v rd d c)"
    and oth2: "\<forall>c. valid_clus N c \<longrightarrow> c \<noteq> ?tcl \<longrightarrow> (\<forall>k\<in>set (cluster_lbas v c). rd d2 k 1 = rd d k 1)"
    using write_cluster_dirs [OF ok l tv len _ ok] by metis
  have "\<forall>c\<in>set cs. fat_read_fat_entry v rd d2 c = fat_read_fat_entry v rd d c"
    and "\<forall>c\<in>set cs. \<forall>k\<in>set (cluster_lbas v c). rd d2 k 1 = rd d k 1"
    using fat2 oth2 cs tn by auto
  note r2 = dir_frame(1) [OF r this] and b2 = dir_frame(2) [OF r this]
  have fit: "slot_off x + 32 \<le> secsz" "length (slot_sec rd d2 x) = secsz" "rd d2 (slot_lba x) 1 = Some (slot_sec rd d2 x)"
    using slot_fits [OF xD(1) dvd] slot_sec_readable [OF r2 xD(1)] by auto
  let ?new = "updated_entry (slot_bytes rd d2 x) ?tcl sz"
  let ?sec = "patch (slot_sec rd d2 x) (slot_off x) ?new"
  have lb: "length (slot_bytes rd d2 x) = 32" using length_slot_bytes [OF r2 dvd xD(1)] .
  have up: "update_dirent (slot_sec rd d2 x) (slot_off x) ?tcl sz = Inr ?sec"
    using fit by (simp add: update_dirent_eq slot_bytes_def)
  have len': "length ?sec = secsz" using fit lb by simp
  have "unat (slot_lba x) < cap" using slot_in_cluster [OF xD(1)] cs cluster_lbas_in_cap [OF l] by blast
  then obtain d' where w3: "wr d2 (slot_lba x) 1 ?sec = Inr (0, d')"
    using wr_succeeds [OF ok2, of "slot_lba x" ?sec] len' by auto
  have out: "?sec ! i = slot_sec rd d2 x ! i" if "i < secsz" "i < slot_off x \<or> slot_off x + 32 \<le> i" for i
    using that fit lb by (auto simp: nth_patch)
  note sw = slot_write [OF ok2 l dvd cs r2 xD(1) w3 len' out, simplified]
  have "take 32 (drop (slot_off x) ?sec) = ?new" using fit lb by (simp add: take_drop_patch_same)
  then have upd: "\<forall>y\<in>set ?xs. slot_bytes rd d' y = (if y = x then ?new else slot_bytes rd d2 y)"
    using sw(5) [OF r2 cs] by simp
  have "lookup (slot_bytes rd d2) ?xs nm = Some (de, x)" using found find_result_cong [OF b2] by simp
  from lookup_replace [OF this upd] lb have lk: "lookup (slot_bytes rd d') ?xs nm = Some (dirent_of ?new, x)"
    by (simp add: updated_entry_def)
  have de2: "de = dirent_of (slot_bytes rd d2 x)" using xD(3) b2 [OF xD(1)] by simp
  have fat': "\<forall>c. valid_clus N c \<longrightarrow> fat_read_fat_entry v rd d' c = fat_read_fat_entry v rd d2 c"
    and dat': "\<forall>k. unat k < cap \<longrightarrow> k \<noteq> slot_lba x \<longrightarrow> rd d' k 1 = rd d2 k 1" using sw(2,3) by auto
  note after = dirs_after_write [OF l cs xD(1) tv tn fat2 oth2 fat' dat']
  have run: "fat32_write_last fuel v rd wr d dir nm (Some (de, x)) data bytes = Inr (0, d')"
    using w2 w3 up tv nodir fit bps
    by (cases x) (auto simp: fat32_write_last_def sz_def [symmetric] Let_def valid_clus_def read_sector_def
        slot_lba_def slot_off_def)
  have rd_file: "read_file_from_cluster fuel v rd d' ?tcl sz m = Inr (0, take (unat sz) data, sz)" if "sz \<le> m" for m
  proof (rule read_single_cluster [OF l tv _ _ _ len sz that fuel])
    show "sectors_data rd d' (cluster_lbas v ?tcl) = padded ?B (take (unat bytes) data)"
      using dat2 after(2) by (simp add: sectors_data_def cong: map_cong)
    show "\<forall>l\<in>set (cluster_lbas v ?tcl). readable secsz rd d' l" using rdb2 after(2) by (simp add: readable_def)
    show "fat_read_fat_entry v rd d' ?tcl = Inr 0x0FFFFFFF" using fat' fat2 tv by simp
  qed
  show ?thesis
    by (rule that [OF run sw(1) sw(4) [OF r2 cs] lk])
      (use sz rd_file after(1) in \<open>auto simp: dirent_of_updated [OF lb] de2 [symmetric]\<close>)
qed

end

subsection \<open>Paths\<close>

text \<open>Following directory names from a cluster; the last argument collects the clusters of the
  directories on the way.\<close>

inductive dir_path ::
  "fat32_vol \<Rightarrow> 'd disk_read_fn \<Rightarrow> 'd \<Rightarrow> nat \<Rightarrow> nat \<Rightarrow> nat \<Rightarrow> u8 list list \<Rightarrow> u32 \<Rightarrow> u32 \<Rightarrow> u32 list \<Rightarrow> bool"
  for v :: fat32_vol and rd :: "'d disk_read_fn" and d :: 'd and n N fuel :: nat where
  here: "dir_path v rd d n N fuel [] cl cl []"
| down: "dir_readable v rd d n cl cs \<Longrightarrow> \<forall>c\<in>set cs. valid_clus N c \<Longrightarrow> length cs < fuel \<Longrightarrow>
    lookup (slot_bytes rd d) (dir_slots v n cs) (make_name83 nm) = Some (de, x) \<Longrightarrow>
    de_attr de AND ATTR_DIR \<noteq> 0 \<Longrightarrow>
    dir_path v rd d n N fuel ds (if dirent_start_cluster de = 0 then root_clus v else dirent_start_cluster de) cl' vis \<Longrightarrow>
    dir_path v rd d n N fuel (nm # ds) cl cl' (cs @ vis)"

lemma dir_find_lookup:
  assumes "vol_layout v n cap N" and "32 dvd n" and "dir_readable v rd d n cl cs" and "length cs < fuel"
  shows "\<exists>r. dir_find_entry fuel v rd d cl (make_name83 nm) =
    Inr (r, lookup (slot_bytes rd d) (dir_slots v n cs) (make_name83 nm))"
proof -
  have "n \<le> MAX_SECTOR_SIZE" "unat (bytes_per_sec v) = n"
    using assms(1) by (auto simp: vol_layout_def sector_geometry_def)
  from dir_find_entry_result [OF assms(3) this(1) assms(2) this(2) length_make_name83 assms(4)]
  show ?thesis by (metis prod.collapse)
qed

lemma read_path_prefix:
  assumes "dir_path v rd d n N fuel ds cl cl' vis" and l: "vol_layout v n cap N" and dvd: "32 dvd n"
  shows "for_loop (read_path_step fuel v rd d mx) (map (\<lambda>c. (c, True)) ds @ rest) cl =
    for_loop (read_path_step fuel v rd d mx) rest cl'"
  using assms(1)
proof (induction rule: dir_path.induct)
  case (here cl)
  then show ?case by simp
next
  case (down cl cs nm de x ds cl' vis)
  from dir_find_lookup [OF l dvd down.hyps(1,3), of nm] down.hyps(4) obtain r where
    "dir_find_entry fuel v rd d cl (make_name83 nm) = Inr (r, Some (de, x))" by auto
  then have "read_path_step fuel v rd d mx (nm, True) cl =
      Inr (Next (if dirent_start_cluster de = 0 then root_clus v else dirent_start_cluster de))"
    using down.hyps(5) by (simp add: read_path_step_def Let_def)
  with down.IH show ?case by simp
qed

lemma write_path_prefix:
  assumes "dir_path v rd d n N fuel ds cl cl' vis" and l: "vol_layout v n cap N" and dvd: "32 dvd n"
  shows "for_loop (write_path_step fuel v rd wr data bytes) (map (\<lambda>c. (c, True)) ds @ rest) (cl, d) =
    for_loop (write_path_step fuel v rd wr data bytes) rest (cl', d)"
  using assms(1)
proof (induction rule: dir_path.induct)
  case (here cl)
  then show ?case by simp
next
  case (down cl cs nm de x ds cl' vis)
  from dir_find_lookup [OF l dvd down.hyps(1,3), of nm] down.hyps(4) obtain r where
    "dir_find_entry fuel v rd d cl (make_name83 nm) = Inr (r, Some (de, x))" by auto
  then have "write_path_step fuel v rd wr data bytes (nm, True) (cl, d) =
      Inr (Next (if dirent_start_cluster de = 0 then root_clus v else dirent_start_cluster de, d))"
    using down.hyps(5) by (simp add: write_path_step_def Let_def)
  with down.IH show ?case by simp
qed

text \<open>Paths survive a change that leaves their directories alone.\<close>

lemma dir_path_frame:
  assumes "dir_path v rd d n N fuel ds cl cl' vis" and "set vis \<inter> A = {}"
    and "\<And>cl2 cs2. dir_readable v rd d n cl2 cs2 \<Longrightarrow> \<forall>c\<in>set cs2. valid_clus N c \<Longrightarrow> set cs2 \<inter> A = {} \<Longrightarrow>
      dir_readable v rd d' n cl2 cs2 \<and> (\<forall>y\<in>set (dir_slots v n cs2). slot_bytes rd d' y = slot_bytes rd d y)"
  shows "dir_path v rd d' n N fuel ds cl cl' vis"
  using assms(1,2)
proof (induction rule: dir_path.induct)
  case (here cl)
  show ?case by (rule dir_path.here)
next
  case (down cl cs nm de x ds cl' vis)
  then have "set cs \<inter> A = {}" by auto
  from assms(3) [OF down.hyps(1,2) this]
  have r: "dir_readable v rd d' n cl cs" and b: "\<And>y. y \<in> set (dir_slots v n cs) \<Longrightarrow> slot_bytes rd d' y = slot_bytes rd d y"
    by auto
  have "lookup (slot_bytes rd d') (dir_slots v n cs) (make_name83 nm) = Some (de, x)"
    using down.hyps(4) find_result_cong [OF b] by simp
  moreover have "set vis \<inter> A = {}" using down.prems by auto
  ultimately show ?case using dir_path.down [OF r down.hyps(2,3) _ down.hyps(5) down.IH] by blast
qed

context reliable_device
begin

text \<open>Writing a path whose directories exist, then reading it.\<close>

lemma read_path_found:
  assumes l: "vol_layout v secsz cap N" and dvd: "32 dvd secsz" and fs: "fs_type v = FAT_FS_FAT32"
    and steps: "path_steps 13 (skip_drive_prefix path) = map (\<lambda>c. (c, True)) ds @ [(f, False)]"
    and p: "dir_path v rd d secsz N fuel ds (root_clus v) dir vis"
    and r: "dir_readable v rd d secsz dir cs" and fuel: "length cs < fuel"
    and found: "lookup (slot_bytes rd d) (dir_slots v secsz cs) (make_name83 f) = Some (de, x)"
    and nodir: "de_attr de AND ATTR_DIR = 0"
    and rf: "read_file_from_cluster fuel v rd d (dirent_start_cluster de) (de_file_size de) mx = Inr (c, out, n)"
  shows "fat32_read_file_path fuel v rd d path mx = Inr (c, out, Some n, v)"
proof -
  from dir_find_lookup [OF l dvd r fuel, of f] found obtain e where
    "dir_find_entry fuel v rd d dir (make_name83 f) = Inr (e, Some (de, x))" by auto
  then have "read_path_step fuel v rd d mx (f, False) dir = Inr (Return (c, out, n))"
    using nodir rf by (simp add: read_path_step_def Let_def)
  then show ?thesis using fs by (simp add: fat32_read_file_path_def steps read_path_prefix [OF p l dvd])
qed

lemma write_path_last:
  assumes l: "vol_layout v secsz cap N" and dvd: "32 dvd secsz" and fs: "fs_type v = FAT_FS_FAT32"
    and steps: "path_steps 13 (skip_drive_prefix path) = map (\<lambda>c. (c, True)) ds @ [(f, False)]"
    and p: "dir_path v rd d secsz N fuel ds (root_clus v) dir vis"
    and r: "dir_readable v rd d secsz dir cs" and fuel: "length cs < fuel"
    and w: "fat32_write_last fuel v rd wr d dir (make_name83 f)
      (lookup (slot_bytes rd d) (dir_slots v secsz cs) (make_name83 f)) data bytes = Inr (e, d')"
  shows "fat32_write_file_path fuel v rd wr d path data bytes = Inr (e, v, d')"
proof -
  from dir_find_lookup [OF l dvd r fuel, of f] obtain e0 where
    "dir_find_entry fuel v rd d dir (make_name83 f) =
      Inr (e0, lookup (slot_bytes rd d) (dir_slots v secsz cs) (make_name83 f))" by auto
  then have "write_path_step fuel v rd wr data bytes (f, False) (dir, d) = Inr (Return (e, d'))"
    using w by (simp add: write_path_step_def)
  then show ?thesis using fs by (simp add: fat32_write_file_path_def steps write_path_prefix [OF p l dvd])
qed

lemma write_new_read_path:
  assumes ok: "ok d" and l: "vol_layout v secsz cap N" and dvd: "32 dvd secsz" and small: "secsz \<le> 512"
    and mx: "unat (alloc_max_clusters v) \<le> N + 2" and fs: "fs_type v = FAT_FS_FAT32"
    and steps: "path_steps 13 (skip_drive_prefix path) = map (\<lambda>c. (c, True)) ds @ [(f, False)]"
    and p: "dir_path v rd d secsz N fuel ds (root_clus v) dir vis"
    and cs: "\<forall>c\<in>set cs. valid_clus N c" and r: "dir_readable v rd d secsz dir cs" and dj: "set vis \<inter> set cs = {}"
    and fuel: "length cs < fuel" "2 \<le> fuel"
    and ter: "dir_terminated (slot_bytes rd d) (dir_slots v secsz cs)"
    and fresh: "lookup (slot_bytes rd d) (dir_slots v secsz cs) (make_name83 f) = None"
    and nm: "make_name83 f ! 0 \<noteq> 0" "make_name83 f ! 0 \<noteq> 0xE5"
    and slot: "\<exists>x\<in>set (dir_slots v secsz cs). slot_free (slot_bytes rd d x)"
    and free: "\<exists>c\<in>set (cluster_candidates (alloc_max_clusters v)). fat_read_fat_entry v rd d c = Inr 0"
    and len: "min (unat bytes) (unat (sec_per_clus v) * secsz) \<le> length data"
  shows "\<exists>d' n. fat32_write_file_path fuel v rd wr d path data bytes = Inr (0, v, d') \<and> ok d' \<and>
    unat n = min (unat bytes) (unat (sec_per_clus v) * secsz) \<and>
    (\<forall>mx\<ge>n. fat32_read_file_path fuel v rd d' path mx = Inr (0, take (unat n) data, Some n, v))"
proof (rule write_last_new [OF ok l dvd small mx cs r fuel ter fresh length_make_name83 nm slot free len], goal_cases)
  case (1 d' de x)
  have w: "fat32_write_file_path fuel v rd wr d path data bytes = Inr (0, v, d')"
    by (rule write_path_last [OF l dvd fs steps p r fuel(1)]) (use 1(1) fresh in simp)
  have p': "dir_path v rd d' secsz N fuel ds (root_clus v) dir vis"
    by (rule dir_path_frame [OF p dj]) (use 1(8) in blast)
  have "de_attr de AND ATTR_DIR = 0" using 1(5) by simp
  from read_path_found [OF l dvd fs steps p' 1(3) fuel(1) 1(4) this] 1(7)
  have "\<forall>mx\<ge>de_file_size de. fat32_read_file_path fuel v rd d' path mx =
      Inr (0, take (unat (de_file_size de)) data, Some (de_file_size de), v)" by blast
  then show ?case using w 1(2,6) by blast
qed

lemma overwrite_read_path:
  assumes ok: "ok d" and l: "vol_layout v secsz cap N" and dvd: "32 dvd secsz" and fs: "fs_type v = FAT_FS_FAT32"
    and steps: "path_steps 13 (skip_drive_prefix path) = map (\<lambda>c. (c, True)) ds @ [(f, False)]"
    and p: "dir_path v rd d secsz N fuel ds (root_clus v) dir vis"
    and cs: "\<forall>c\<in>set cs. valid_clus N c" and r: "dir_readable v rd d secsz dir cs"
    and dj: "set vis \<inter> insert (dirent_start_cluster de) (set cs) = {}"
    and fuel: "length cs < fuel" "2 \<le> fuel"
    and found: "lookup (slot_bytes rd d) (dir_slots v secsz cs) (make_name83 f) = Some (de, x)"
    and nodir: "de_attr de AND ATTR_DIR = 0" and tv: "valid_clus N (dirent_start_cluster de)"
    and tn: "dirent_start_cluster de \<notin> set cs"
    and len: "min (unat bytes) (unat (sec_per_clus v) * secsz) \<le> length data"
  shows "\<exists>d' n. fat32_write_file_path fuel v rd wr d path data bytes = Inr (0, v, d') \<and> ok d' \<and>
    unat n = min (unat bytes) (unat (sec_per_clus v) * secsz) \<and>
    (\<forall>mx\<ge>n. fat32_read_file_path fuel v rd d' path mx = Inr (0, take (unat n) data, Some n, v))"
proof (rule write_last_existing [OF ok l dvd cs r fuel(2) found nodir tv tn len], goal_cases)
  case (1 d' de')
  have w: "fat32_write_file_path fuel v rd wr d path data bytes = Inr (0, v, d')"
    by (rule write_path_last [OF l dvd fs steps p r fuel(1)]) (use 1(1) found in simp)
  have p': "dir_path v rd d' secsz N fuel ds (root_clus v) dir vis"
    by (rule dir_path_frame [OF p dj]) (use 1(8) in blast)
  have "de_attr de' AND ATTR_DIR = 0" using 1(5) nodir by simp
  from read_path_found [OF l dvd fs steps p' 1(3) fuel(1) 1(4) this] 1(7)
  have "\<forall>mx\<ge>de_file_size de'. fat32_read_file_path fuel v rd d' path mx =
      Inr (0, take (unat (de_file_size de')) data, Some (de_file_size de'), v)" by blast
  then show ?case using w 1(2,6) by blast
qed

end

end
