(* ===== verification/Ata.thy ===== *)
theory Ata
  imports Block_Device
begin

text \<open>
  The ATA PIO driver, \<open>src/kernel/ata.c\<close>. The I/O instructions of the processor are a
  parameter: a record of functions on a hardware state \<open>'h\<close>. The locale \<open>ata_controller\<close>
  states the part of the documented PIO protocol the driver relies on; under it the driver
  is a \<open>reliable_device\<close> of 512-byte sectors with 28-bit addresses. A concrete controller
  shows that the protocol can be implemented.
\<close>

subsection \<open>Port I/O\<close>

record 'h port_io =
  io_inb :: "'h \<Rightarrow> u16 \<Rightarrow> u8 \<times> 'h"
  io_outb :: "'h \<Rightarrow> u16 \<Rightarrow> u8 \<Rightarrow> 'h"
  io_inw :: "'h \<Rightarrow> u16 \<Rightarrow> u16 \<times> 'h"
  io_outw :: "'h \<Rightarrow> u16 \<Rightarrow> u16 \<Rightarrow> 'h"

abbreviation ATA_DATA :: u16 where "ATA_DATA \<equiv> 0x1F0"
abbreviation ATA_SECCOUNT0 :: u16 where "ATA_SECCOUNT0 \<equiv> 0x1F2"
abbreviation ATA_LBA0 :: u16 where "ATA_LBA0 \<equiv> 0x1F3"
abbreviation ATA_LBA1 :: u16 where "ATA_LBA1 \<equiv> 0x1F4"
abbreviation ATA_LBA2 :: u16 where "ATA_LBA2 \<equiv> 0x1F5"
abbreviation ATA_HDDEVSEL :: u16 where "ATA_HDDEVSEL \<equiv> 0x1F6"
abbreviation ATA_COMMAND :: u16 where "ATA_COMMAND \<equiv> 0x1F7"
abbreviation ATA_STATUS :: u16 where "ATA_STATUS \<equiv> 0x1F7"

subsection \<open>The driver\<close>

fun ata_wait_bsy_loop :: "nat \<Rightarrow> 'h port_io \<Rightarrow> 'h \<Rightarrow> int \<times> 'h" where
  "ata_wait_bsy_loop 0 io h = (-1, h)"
| "ata_wait_bsy_loop (Suc n) io h =
     (let (st, h') = io_inb io h ATA_STATUS
      in if st AND 0x80 = 0 then (0, h') else ata_wait_bsy_loop n io h')"

definition ata_wait_bsy :: "'h port_io \<Rightarrow> 'h \<Rightarrow> int \<times> 'h" where
  "ata_wait_bsy = ata_wait_bsy_loop 1000000"

fun ata_wait_drq_loop :: "nat \<Rightarrow> 'h port_io \<Rightarrow> 'h \<Rightarrow> int \<times> 'h" where
  "ata_wait_drq_loop 0 io h = (-1, h)"
| "ata_wait_drq_loop (Suc n) io h =
     (let (st, h') = io_inb io h ATA_STATUS
      in if st AND 0x01 \<noteq> 0 then (-2, h')
         else if st AND 0x20 \<noteq> 0 then (-3, h')
         else if st AND 0x08 \<noteq> 0 then (0, h')
         else ata_wait_drq_loop n io h')"

definition ata_wait_drq :: "'h port_io \<Rightarrow> 'h \<Rightarrow> int \<times> 'h" where
  "ata_wait_drq = ata_wait_drq_loop 1000000"

definition ata_init :: "'h port_io \<Rightarrow> 'h \<Rightarrow> 'h" where
  "ata_init io h = io_outb io (io_outb io h ATA_HDDEVSEL 0xE0) 0x80 0"

text \<open>\<open>for (i = 0; i < n; ++i) \<dots> inw\<close>, and the same with \<open>outw\<close>.\<close>

fun inw_loop :: "nat \<Rightarrow> 'h port_io \<Rightarrow> 'h \<Rightarrow> u16 list \<times> 'h" where
  "inw_loop 0 io h = ([], h)"
| "inw_loop (Suc n) io h =
     (let (w, h') = io_inw io h ATA_DATA; (ws, h'') = inw_loop n io h' in (w # ws, h''))"

fun outw_loop :: "u16 list \<Rightarrow> 'h port_io \<Rightarrow> 'h \<Rightarrow> 'h" where
  "outw_loop [] io h = h"
| "outw_loop (w # ws) io h = outw_loop ws io (io_outw io h ATA_DATA w)"

record ata_identify_t =
  raw :: "u16 list"
  present :: int
  lba28_sectors :: u32

definition ata_identify :: "'h port_io \<Rightarrow> 'h \<Rightarrow> (int \<times> ata_identify_t) \<times> 'h" where
  "ata_identify io h0 =
     (let out = \<lparr>raw = replicate 256 0, present = 0, lba28_sectors = 0\<rparr>;
          h1 = io_outb io (io_outb io h0 ATA_HDDEVSEL 0xE0) 0x80 0;
          h2 = io_outb io h1 ATA_SECCOUNT0 0;
          h3 = io_outb io h2 ATA_LBA0 0;
          h4 = io_outb io h3 ATA_LBA1 0;
          h5 = io_outb io h4 ATA_LBA2 0;
          h6 = io_outb io h5 ATA_COMMAND 0xEC;
          (b, h7) = ata_wait_bsy io h6
      in if b \<noteq> 0 then ((-1, out), h7) else
      let (cl, h8) = io_inb io h7 ATA_LBA1;
          (ch, h9) = io_inb io h8 ATA_LBA2
      in if cl \<noteq> 0 \<or> ch \<noteq> 0 then ((-2, out), h9) else
      let (q, h10) = ata_wait_drq io h9
      in if q \<noteq> 0 then ((-3, out), h10) else
      let (ws, h11) = inw_loop 256 io h10
      in ((0, out\<lparr>raw := ws, present := 1,
               lba28_sectors := push_bit 16 (ucast (ws ! 61)) OR ucast (ws ! 60)\<rparr>), h11))"

text \<open>The task-file set-up shared by the two transfers, then one sector per iteration.\<close>

definition ata_setup :: "'h port_io \<Rightarrow> 'h \<Rightarrow> u32 \<Rightarrow> u8 \<Rightarrow> u8 \<Rightarrow> 'h" where
  "ata_setup io h0 lba count cmd =
     (let h1 = io_outb io h0 ATA_HDDEVSEL (0xE0 OR (ucast (drop_bit 24 lba AND 0x0F)));
          h2 = io_outb io h1 ATA_SECCOUNT0 count;
          h3 = io_outb io h2 ATA_LBA0 (ucast lba);
          h4 = io_outb io h3 ATA_LBA1 (ucast (drop_bit 8 lba));
          h5 = io_outb io h4 ATA_LBA2 (ucast (drop_bit 16 lba))
      in io_outb io h5 ATA_COMMAND cmd)"

fun ata_read_loop :: "nat \<Rightarrow> 'h port_io \<Rightarrow> 'h \<Rightarrow> (int \<times> u8 list) \<times> 'h" where
  "ata_read_loop 0 io h = ((0, []), h)"
| "ata_read_loop (Suc s) io h =
     (let (b, h1) = ata_wait_bsy io h in if b \<noteq> 0 then ((-2, []), h1) else
      let (q, h2) = ata_wait_drq io h1 in if q \<noteq> 0 then ((-3, []), h2) else
      let (ws, h3) = inw_loop 256 io h2; ((r, bs), h4) = ata_read_loop s io h3
      in ((r, concat (map (le_bytes 2) ws) @ bs), h4))"

definition ata_read28 :: "'h port_io \<Rightarrow> 'h \<Rightarrow> u32 \<Rightarrow> u8 \<Rightarrow> (int \<times> u8 list) \<times> 'h" where
  "ata_read28 io h lba count0 =
     (if count0 = 0 then ((0, []), h) else
      let count = (if count0 > 128 then 128 else count0);
          (b, h1) = ata_wait_bsy io h
      in if b \<noteq> 0 then ((-1, []), h1)
         else ata_read_loop (unat count) io (ata_setup io h1 lba count 0x20))"

text \<open>\<open>*bufw++\<close>: the 256 words of one sector, read from the buffer as they are sent.\<close>

fun buf_words :: "nat \<Rightarrow> u8 list \<Rightarrow> nat \<Rightarrow> u16 list res" where
  "buf_words 0 bs i = Inr []"
| "buf_words (Suc n) bs i =
     rbind (ld16 bs i) (\<lambda>w. rbind (buf_words n bs (i + 2)) (\<lambda>ws. Inr (w # ws)))"

fun ata_write_loop :: "nat \<Rightarrow> 'h port_io \<Rightarrow> 'h \<Rightarrow> u8 list \<Rightarrow> nat \<Rightarrow> (int \<times> 'h) res" where
  "ata_write_loop 0 io h bs i = Inr (0, h)"
| "ata_write_loop (Suc s) io h bs i =
     (let (b, h1) = ata_wait_bsy io h in if b \<noteq> 0 then Inr (-2, h1) else
      let (q, h2) = ata_wait_drq io h1 in if q \<noteq> 0 then Inr (-3, h2) else
      rbind (buf_words 256 bs i) (\<lambda>ws.
      ata_write_loop s io (outw_loop ws io h2) bs (i + 512)))"

definition ata_write28 :: "'h port_io \<Rightarrow> 'h \<Rightarrow> u32 \<Rightarrow> u8 \<Rightarrow> u8 list \<Rightarrow> (int \<times> 'h) res" where
  "ata_write28 io h lba count0 bs =
     (if count0 = 0 then Inr (0, h) else
      let count = (if count0 > 128 then 128 else count0);
          (b, h1) = ata_wait_bsy io h
      in if b \<noteq> 0 then Inr (-1, h1)
         else ata_write_loop (unat count) io (ata_setup io h1 lba count 0x30) bs 0)"

text \<open>The driver as the file systems see it: a read is a function of the disk. That the controller state after a
  read need not be kept is shown below: it is idle again with the same medium, so every sequence of transfers that
  threads the state through reads and writes behaves like an array of sectors.\<close>

definition ata_rd :: "'h port_io \<Rightarrow> 'h disk_read_fn" where
  "ata_rd io h lba count =
     (case ata_read28 io h lba count of ((r, bs), h') \<Rightarrow> if r = 0 then Some bs else None)"

definition ata_wr :: "'h port_io \<Rightarrow> 'h disk_write_fn" where
  "ata_wr io = ata_write28 io"

subsection \<open>The controller\<close>

datatype ata_phase = AtaIdle | AtaIn "u16 list" | AtaOut u32 nat "u16 list"

text \<open>The 28-bit address in the task file, and the words a read command delivers.\<close>

definition taskfile_lba :: "(u16 \<Rightarrow> u8) \<Rightarrow> u32" where
  "taskfile_lba regs =
     push_bit 24 (ucast (regs ATA_HDDEVSEL AND 0x0F)) OR push_bit 16 (ucast (regs ATA_LBA2))
     OR push_bit 8 (ucast (regs ATA_LBA1)) OR ucast (regs ATA_LBA0)"

definition sectors_words :: "(u32 \<Rightarrow> u16 list) \<Rightarrow> u32 \<Rightarrow> nat \<Rightarrow> u16 list" where
  "sectors_words media lba n = concat (map (\<lambda>k. media (lba + of_nat k)) [0..<n])"

fun bsy_clear_after :: "nat \<Rightarrow> 'h port_io \<Rightarrow> 'h \<Rightarrow> bool" where
  "bsy_clear_after 0 io h = (fst (io_inb io h ATA_STATUS) AND 0x80 = 0)"
| "bsy_clear_after (Suc n) io h = bsy_clear_after n io (snd (io_inb io h ATA_STATUS))"

lemma taskfile_assemble:
  "push_bit 24 (ucast ((0xE0 OR ucast (drop_bit 24 lba AND 0x0F)) AND (0x0F :: u8)))
   OR push_bit 16 (ucast (ucast (drop_bit 16 lba) :: u8))
   OR push_bit 8 (ucast (ucast (drop_bit 8 lba) :: u8)) OR ucast (ucast lba :: u8)
   = lba AND (0x0FFFFFFF :: u32)"
proof -
  have m: "(0x0F :: u8) = mask 4" "(0x0F :: u32) = mask 4" "(0x0FFFFFFF :: u32) = mask 28"
    "(0xE0 :: u8) = push_bit 5 (mask 3)"
    by (simp_all add: mask_eq_exp_minus_1 push_bit_eq_mult)
  show ?thesis
    unfolding m
  proof (rule bit_word_eqI)
    fix n
    assume "n < LENGTH(32)"
    then show "bit (push_bit 24 (ucast ((push_bit 5 (mask 3) OR ucast (drop_bit 24 lba AND mask 4))
          AND (mask 4 :: u8))) OR push_bit 16 (ucast (ucast (drop_bit 16 lba) :: u8))
        OR push_bit 8 (ucast (ucast (drop_bit 8 lba) :: u8)) OR ucast (ucast lba :: u8) :: u32) n
      = bit (lba AND mask 28) n"
      by (cases "16 \<le> n"; cases "8 \<le> n") (auto simp: bit_simps not_le)
  qed
qed

text \<open>The bytes of a sector, and the words the write loop takes from a buffer.\<close>

definition sector_bytes :: "u16 list \<Rightarrow> u8 list" where
  "sector_bytes ws = concat (map (le_bytes 2) ws)"

definition sectors_of :: "(u32 \<Rightarrow> u16 list) \<Rightarrow> u32 \<Rightarrow> u8 list" where
  "sectors_of media n = sector_bytes (media n)"

lemma length_sector_bytes: "length (sector_bytes ws) = 2 * length ws"
  by (induction ws) (auto simp: sector_bytes_def)

lemma buf_words_ok:
  "i + 2 * n \<le> length bs \<Longrightarrow>
     \<exists>ws. buf_words n bs i = Inr ws \<and> length ws = n \<and> sector_bytes ws = take (2 * n) (drop i bs)"
proof (induction n arbitrary: i)
  case 0
  then show ?case by (simp add: sector_bytes_def)
next
  case (Suc n)
  have l2: "length (take 2 (drop i bs)) = 2" using Suc.prems by simp
  have "le_bytes 2 (le_word (take 2 (drop i bs)) :: u16) = take 2 (drop i bs)"
    using le_bytes_le_word [of "take 2 (drop i bs)", where 'a = 16] l2 by simp
  moreover have "take (2 * Suc n) (drop i bs) = take 2 (drop i bs) @ take (2 * n) (drop (i + 2) bs)"
    using take_add [of 2 "2 * n" "drop i bs"] by (simp add: add.commute)
  ultimately show ?case
    using Suc.IH [of "i + 2"] Suc.prems by (auto simp: ld_le_def sector_bytes_def)
qed

lemma buf_words_short: "length bs < i + 2 * n \<Longrightarrow> i \<le> length bs \<Longrightarrow> buf_words n bs i = Inl BadRead"
proof (induction n arbitrary: i)
  case 0
  then show ?case by simp
next
  case (Suc n)
  then show ?case by (cases "i + 2 \<le> length bs") (auto simp: ld_le_def)
qed

lemma and28_id: "unat lba < 2 ^ 28 \<Longrightarrow> lba AND 0x0FFFFFFF = (lba :: u32)"
proof -
  assume "unat lba < 2 ^ 28"
  then have "take_bit 28 lba = lba"
    by (simp add: take_bit_eq_mod word_unat_eq_iff unat_mod)
  then show ?thesis by (simp add: take_bit_eq_mask mask_eq_exp_minus_1)
qed

subsection \<open>Sequences of transfers\<close>

text \<open>Calls of the driver one after the other, each on the controller the last one left, with the result code and the
  bytes delivered by each; and the same transfers on an array of sectors.\<close>

datatype transfer = ReadOp u32 u8 | WriteOp u32 u8 "u8 list"

fun ata_transfers :: "'h port_io \<Rightarrow> 'h \<Rightarrow> transfer list \<Rightarrow> ((int \<times> u8 list) list \<times> 'h) res" where
  "ata_transfers io h [] = Inr ([], h)"
| "ata_transfers io h (ReadOp lba count # ops) =
     (let (r, h1) = ata_read28 io h lba count
      in rbind (ata_transfers io h1 ops) (\<lambda>(rs, h2). Inr (r # rs, h2)))"
| "ata_transfers io h (WriteOp lba count bs # ops) =
     rbind (ata_write28 io h lba count bs) (\<lambda>(r, h1).
     rbind (ata_transfers io h1 ops) (\<lambda>(rs, h2). Inr ((r, []) # rs, h2)))"

fun write_sectors :: "nat \<Rightarrow> u32 \<Rightarrow> u8 list \<Rightarrow> (u32 \<Rightarrow> u8 list) \<Rightarrow> u32 \<Rightarrow> u8 list" where
  "write_sectors 0 lba bs disk = disk"
| "write_sectors (Suc n) lba bs disk = write_sectors n (lba + 1) (drop 512 bs) (disk(lba := take 512 bs))"

fun disk_transfers :: "(u32 \<Rightarrow> u8 list) \<Rightarrow> transfer list \<Rightarrow> (int \<times> u8 list) list \<times> (u32 \<Rightarrow> u8 list)" where
  "disk_transfers disk [] = ([], disk)"
| "disk_transfers disk (ReadOp lba count # ops) =
     (let (rs, disk') = disk_transfers disk ops
      in ((0, concat (map (\<lambda>k. disk (lba + of_nat k)) [0..<unat count])) # rs, disk'))"
| "disk_transfers disk (WriteOp lba count bs # ops) =
     (let (rs, disk') = disk_transfers (write_sectors (unat count) lba bs disk) ops in ((0, []) # rs, disk'))"

text \<open>At most 128 sectors, below the limit of 28-bit addresses, from a buffer that holds them.\<close>

definition transfer_ok :: "transfer \<Rightarrow> bool" where
  "transfer_ok op = (case op of
     ReadOp lba count \<Rightarrow> count \<le> 128 \<and> unat lba + unat count < 2 ^ 28
   | WriteOp lba count bs \<Rightarrow> count \<le> 128 \<and> unat lba + unat count < 2 ^ 28 \<and> 512 * unat count \<le> length bs)"

locale ata_controller =
  fixes io :: "'h port_io"
    and regs :: "'h \<Rightarrow> u16 \<Rightarrow> u8"
    and phase :: "'h \<Rightarrow> ata_phase"
    and media :: "'h \<Rightarrow> u32 \<Rightarrow> u16 list"
  assumes media_length: "length (media h sect) = 256"
    and status_frame: "io_inb io h ATA_STATUS = (s, h') \<Longrightarrow>
      regs h' = regs h \<and> phase h' = phase h \<and> media h' = media h"
    and status_bits: "io_inb io h ATA_STATUS = (s, h') \<Longrightarrow> s AND 0x80 = 0 \<Longrightarrow>
      s AND 0x01 = 0 \<and> s AND 0x20 = 0 \<and> (s AND 0x08 \<noteq> 0 \<longleftrightarrow> phase h \<noteq> AtaIdle) \<and>
      fst (io_inb io h' ATA_STATUS) AND 0x80 = 0"
    and status_live: "\<exists>k<1000000. bsy_clear_after k io h"
    and outb_reg: "phase h = AtaIdle \<Longrightarrow>
      p \<in> {ATA_SECCOUNT0, ATA_LBA0, ATA_LBA1, ATA_LBA2, ATA_HDDEVSEL} \<Longrightarrow>
      regs (io_outb io h p v) = (regs h)(p := v) \<and> phase (io_outb io h p v) = AtaIdle \<and>
      media (io_outb io h p v) = media h"
    and outb_read: "phase h = AtaIdle \<Longrightarrow> regs h ATA_SECCOUNT0 \<noteq> 0 \<Longrightarrow>
      phase (io_outb io h ATA_COMMAND 0x20) =
        AtaIn (sectors_words (media h) (taskfile_lba (regs h)) (unat (regs h ATA_SECCOUNT0))) \<and>
      media (io_outb io h ATA_COMMAND 0x20) = media h"
    and outb_write: "phase h = AtaIdle \<Longrightarrow> regs h ATA_SECCOUNT0 \<noteq> 0 \<Longrightarrow>
      phase (io_outb io h ATA_COMMAND 0x30) =
        AtaOut (taskfile_lba (regs h)) (unat (regs h ATA_SECCOUNT0)) [] \<and>
      media (io_outb io h ATA_COMMAND 0x30) = media h"
    and inw_data: "phase h = AtaIn (w # ws) \<Longrightarrow> io_inw io h ATA_DATA = (w', h') \<Longrightarrow>
      w' = w \<and> media h' = media h \<and> phase h' = (if ws = [] then AtaIdle else AtaIn ws)"
    and outw_data: "phase h = AtaOut lba n acc \<Longrightarrow> length acc < 255 \<Longrightarrow>
      phase (io_outw io h ATA_DATA w) = AtaOut lba n (acc @ [w]) \<and>
      media (io_outw io h ATA_DATA w) = media h"
    and outw_last: "phase h = AtaOut lba n acc \<Longrightarrow> length acc = 255 \<Longrightarrow>
      phase (io_outw io h ATA_DATA w) = (if n = 1 then AtaIdle else AtaOut (lba + 1) (n - 1) []) \<and>
      media (io_outw io h ATA_DATA w) = (media h)(lba := acc @ [w])"
begin

text \<open>Waiting always succeeds, and leaves a controller that is no longer busy.\<close>

lemma wait_bsy_loop:
  "bsy_clear_after k io h \<Longrightarrow> k < n \<Longrightarrow>
     \<exists>h'. ata_wait_bsy_loop n io h = (0, h') \<and> regs h' = regs h \<and> phase h' = phase h \<and>
       media h' = media h \<and> fst (io_inb io h' ATA_STATUS) AND 0x80 = 0"
proof (induction n arbitrary: h k)
  case 0
  then show ?case by simp
next
  case (Suc n)
  obtain s h' where io: "io_inb io h ATA_STATUS = (s, h')" by (cases "io_inb io h ATA_STATUS")
  note frame = status_frame [OF io]
  show ?case
  proof (cases "s AND 0x80 = 0")
    case True
    with io frame status_bits [OF io] show ?thesis by simp
  next
    case False
    with Suc.prems io obtain j where j: "k = Suc j" "bsy_clear_after j io h'"
      by (cases k) auto
    with Suc.prems have "j < n" by simp
    with Suc.IH [OF j(2)] io False frame show ?thesis by auto
  qed
qed

lemma wait_bsy:
  "\<exists>h'. ata_wait_bsy io h = (0, h') \<and> regs h' = regs h \<and> phase h' = phase h \<and>
     media h' = media h \<and> fst (io_inb io h' ATA_STATUS) AND 0x80 = 0"
  using status_live [of h] wait_bsy_loop by (auto simp: ata_wait_bsy_def)

lemma wait_drq:
  assumes "fst (io_inb io h ATA_STATUS) AND 0x80 = 0" and "phase h \<noteq> AtaIdle"
  shows "\<exists>h'. ata_wait_drq io h = (0, h') \<and> phase h' = phase h \<and> media h' = media h"
proof -
  obtain s h' where io: "io_inb io h ATA_STATUS = (s, h')" by (cases "io_inb io h ATA_STATUS")
  have "ata_wait_drq_loop (Suc n) io h = (0, h')" for n
    using assms io status_bits [OF io] by (simp add: Let_def)
  from this [of 999999] show ?thesis
    using status_frame [OF io] by (simp add: ata_wait_drq_def)
qed

lemma wait_ready:
  assumes "phase h \<noteq> AtaIdle"
  obtains h1 h2 where "ata_wait_bsy io h = (0, h1)" and "ata_wait_drq io h1 = (0, h2)"
    and "phase h2 = phase h" and "media h2 = media h"
proof -
  obtain h1 where 1: "ata_wait_bsy io h = (0, h1)" "phase h1 = phase h" "media h1 = media h"
    "fst (io_inb io h1 ATA_STATUS) AND 0x80 = 0"
    using wait_bsy [of h] by auto
  with assms wait_drq [of h1] obtain h2 where
    "ata_wait_drq io h1 = (0, h2)" "phase h2 = phase h" "media h2 = media h" by auto
  with 1 show ?thesis using that by blast
qed

lemma inw_loop:
  assumes "phase h = AtaIn (ws @ rest)" and "ws \<noteq> []"
  shows "\<exists>h'. inw_loop (length ws) io h = (ws, h') \<and> media h' = media h \<and>
     phase h' = (if rest = [] then AtaIdle else AtaIn rest)"
  using assms
proof (induction ws arbitrary: h)
  case Nil
  then show ?case by simp
next
  case (Cons w ws)
  obtain w' h' where io: "io_inw io h ATA_DATA = (w', h')" by (cases "io_inw io h ATA_DATA")
  from inw_data [OF _ io] Cons.prems(1) have step: "w' = w" "media h' = media h"
    "phase h' = (if ws @ rest = [] then AtaIdle else AtaIn (ws @ rest))" by auto
  show ?case
  proof (cases "ws = []")
    case True
    with io step show ?thesis by simp
  next
    case False
    with step have "phase h' = AtaIn (ws @ rest)" by simp
    from Cons.IH [OF this False] io step show ?thesis by (auto simp: Let_def)
  qed
qed

lemma outw_loop:
  assumes "phase h = AtaOut lba n acc" and "length acc + length ws = 256" and "ws \<noteq> []"
  shows "media (outw_loop ws io h) = (media h)(lba := acc @ ws) \<and>
     phase (outw_loop ws io h) = (if n = 1 then AtaIdle else AtaOut (lba + 1) (n - 1) [])"
  using assms
proof (induction ws arbitrary: h acc)
  case Nil
  then show ?case by simp
next
  case (Cons w ws)
  show ?case
  proof (cases "ws = []")
    case True
    with Cons.prems outw_last [of h lba n acc w] show ?thesis by simp
  next
    case False
    with Cons.prems have "length acc < 255" by (cases ws) auto
    with Cons.prems outw_data [of h lba n acc w]
    have "phase (io_outw io h ATA_DATA w) = AtaOut lba n (acc @ [w])"
      and m: "media (io_outw io h ATA_DATA w) = media h" by auto
    from Cons.IH [OF this(1)] Cons.prems(2) False m show ?thesis by simp
  qed
qed

lemma read_loop:
  assumes "phase h = AtaIn (concat wss)" and "\<forall>ws\<in>set wss. length ws = 256" and "wss \<noteq> []"
  shows "\<exists>h'. ata_read_loop (length wss) io h =
       ((0, concat (map (\<lambda>ws. concat (map (le_bytes 2) ws)) wss)), h') \<and>
     media h' = media h \<and> phase h' = AtaIdle"
  using assms
proof (induction wss arbitrary: h)
  case Nil
  then show ?case by simp
next
  case (Cons ws wss)
  from Cons.prems(1) have "phase h \<noteq> AtaIdle" by simp
  then obtain h1 h2 where w: "ata_wait_bsy io h = (0, h1)" "ata_wait_drq io h1 = (0, h2)"
    "phase h2 = phase h" "media h2 = media h" by (rule wait_ready)
  have len: "length ws = 256" and "ws \<noteq> []" using Cons.prems(2) by auto
  with inw_loop [of h2 ws "concat wss"] w(3) Cons.prems(1) obtain h3 where
    i: "inw_loop 256 io h2 = (ws, h3)" "media h3 = media h2"
      "phase h3 = (if concat wss = [] then AtaIdle else AtaIn (concat wss))" by auto
  show ?case
  proof (cases "wss = []")
    case True
    with w i show ?thesis by (simp add: Let_def)
  next
    case False
    with Cons.prems(2) have "concat wss \<noteq> []" by (cases wss) auto
    with i(3) have "phase h3 = AtaIn (concat wss)" by simp
    from Cons.IH [OF this] Cons.prems(2) False w i show ?thesis by (auto simp: Let_def)
  qed
qed

lemma setup_taskfile:
  assumes "phase h = AtaIdle"
  shows "\<exists>h'. ata_setup io h lba count cmd = io_outb io h' ATA_COMMAND cmd \<and>
     phase h' = AtaIdle \<and> media h' = media h \<and> regs h' ATA_SECCOUNT0 = count \<and>
     taskfile_lba (regs h') = lba AND 0x0FFFFFFF"
proof -
  define h1 where "h1 = io_outb io h ATA_HDDEVSEL (0xE0 OR ucast (drop_bit 24 lba AND 0x0F))"
  define h2 where "h2 = io_outb io h1 ATA_SECCOUNT0 count"
  define h3 where "h3 = io_outb io h2 ATA_LBA0 (ucast lba)"
  define h4 where "h4 = io_outb io h3 ATA_LBA1 (ucast (drop_bit 8 lba))"
  define h5 where "h5 = io_outb io h4 ATA_LBA2 (ucast (drop_bit 16 lba))"
  note hs = h1_def h2_def h3_def h4_def h5_def
  have p: "phase h1 = AtaIdle" "phase h2 = AtaIdle" "phase h3 = AtaIdle" "phase h4 = AtaIdle"
    "phase h5 = AtaIdle" and m: "media h5 = media h"
    using assms outb_reg by (simp_all add: hs)
  have r: "regs h5 = (regs h)(ATA_HDDEVSEL := 0xE0 OR ucast (drop_bit 24 lba AND 0x0F),
      ATA_SECCOUNT0 := count, ATA_LBA0 := ucast lba, ATA_LBA1 := ucast (drop_bit 8 lba),
      ATA_LBA2 := ucast (drop_bit 16 lba))"
    using assms p outb_reg by (simp add: hs)
  have "taskfile_lba (regs h5) = lba AND 0x0FFFFFFF"
    unfolding r taskfile_lba_def by (simp add: taskfile_assemble)
  with p(5) m r show ?thesis
    by (intro exI [of _ h5]) (simp add: ata_setup_def hs)
qed

lemma sectors_words_concat:
  "sectors_words (media h) lba n = concat (map (\<lambda>k. media h (lba + of_nat k)) [0..<n])"
  by (simp add: sectors_words_def)

text \<open>A read of \<open>count\<close> sectors delivers them in order and leaves the controller idle.\<close>

lemma read28:
  assumes "phase h = AtaIdle" and "count \<noteq> 0" and "count \<le> 128"
  shows "\<exists>h'. ata_read28 io h lba count =
       ((0, concat (map (\<lambda>k. sector_bytes (media h ((lba AND 0x0FFFFFFF) + of_nat k)))
              [0..<unat count])), h') \<and>
     phase h' = AtaIdle \<and> media h' = media h"
proof -
  obtain h1 where b: "ata_wait_bsy io h = (0, h1)" "phase h1 = AtaIdle" "media h1 = media h"
    using wait_bsy [of h] assms(1) by auto
  obtain h2 where s: "ata_setup io h1 lba count 0x20 = io_outb io h2 ATA_COMMAND 0x20"
    "phase h2 = AtaIdle" "media h2 = media h" "regs h2 ATA_SECCOUNT0 = count"
    "taskfile_lba (regs h2) = lba AND 0x0FFFFFFF"
    using setup_taskfile [OF b(2), of lba count "0x20"] b(3) by auto
  define h3 where "h3 = io_outb io h2 ATA_COMMAND 0x20"
  define wss where "wss = map (\<lambda>k. media h ((lba AND 0x0FFFFFFF) + of_nat k)) [0..<unat count]"
  have "phase h3 = AtaIn (concat wss)" and m3: "media h3 = media h"
    using outb_read [OF s(2)] s assms(2) by (simp_all add: h3_def wss_def sectors_words_concat)
  moreover have "\<forall>ws\<in>set wss. length ws = 256" by (auto simp: wss_def media_length)
  moreover have "wss \<noteq> []" using assms(2) by (simp add: wss_def unat_eq_0)
  ultimately obtain h' where
    "ata_read_loop (length wss) io h3 =
       ((0, concat (map (\<lambda>ws. concat (map (le_bytes 2) ws)) wss)), h')"
    "phase h' = AtaIdle" "media h' = media h" using read_loop by metis
  moreover from assms(3) have "\<not> 128 < count" by simp
  ultimately show ?thesis
    using assms(2) b(1) s(1) by (simp add: ata_read28_def Let_def wss_def h3_def sector_bytes_def comp_def)
qed

lemma write28_one:
  assumes "phase h = AtaIdle" and "512 \<le> length bs"
  shows "\<exists>h' ws. ata_write28 io h lba 1 bs = Inr (0, h') \<and> phase h' = AtaIdle \<and>
     media h' = (media h)(lba AND 0x0FFFFFFF := ws) \<and> sector_bytes ws = take 512 bs"
proof -
  obtain ws where ws: "buf_words 256 bs 0 = Inr ws" "length ws = 256" "sector_bytes ws = take 512 bs"
    using buf_words_ok [of 0 256 bs] assms(2) by auto
  obtain h1 where b: "ata_wait_bsy io h = (0, h1)" "phase h1 = AtaIdle" "media h1 = media h"
    using wait_bsy [of h] assms(1) by auto
  obtain h2 where s: "ata_setup io h1 lba 1 0x30 = io_outb io h2 ATA_COMMAND 0x30"
    "phase h2 = AtaIdle" "media h2 = media h" "regs h2 ATA_SECCOUNT0 = 1"
    "taskfile_lba (regs h2) = lba AND 0x0FFFFFFF"
    using setup_taskfile [OF b(2), of lba 1 "0x30"] b(3) by auto
  define h3 where "h3 = io_outb io h2 ATA_COMMAND 0x30"
  have h3: "phase h3 = AtaOut (lba AND 0x0FFFFFFF) 1 []" "media h3 = media h"
    using outb_write [OF s(2)] s by (simp_all add: h3_def)
  then have "phase h3 \<noteq> AtaIdle" by simp
  then obtain h4 h5 where w: "ata_wait_bsy io h3 = (0, h4)" "ata_wait_drq io h4 = (0, h5)"
    "phase h5 = phase h3" "media h5 = media h3" by (rule wait_ready)
  have "ws \<noteq> []" using ws(2) by auto
  then have "media (outw_loop ws io h5) = (media h)(lba AND 0x0FFFFFFF := ws)"
    "phase (outw_loop ws io h5) = AtaIdle"
    using outw_loop [of h5 "lba AND 0x0FFFFFFF" 1 "[]" ws] ws(2) w h3 by auto
  with b s(1) w ws(1,3) show ?thesis
    by (auto simp: ata_write28_def Let_def h3_def)
qed

lemma write28_one_short:
  "phase h = AtaIdle \<Longrightarrow> length bs < 512 \<Longrightarrow> ata_write28 io h lba 1 bs = Inl BadRead"
proof -
  assume i: "phase h = AtaIdle" and l: "length bs < 512"
  obtain h1 where b: "ata_wait_bsy io h = (0, h1)" "phase h1 = AtaIdle"
    using wait_bsy [of h] i by auto
  obtain h2 where s: "ata_setup io h1 lba 1 0x30 = io_outb io h2 ATA_COMMAND 0x30"
    "phase h2 = AtaIdle" "regs h2 ATA_SECCOUNT0 = 1"
    using setup_taskfile [OF b(2), of lba 1 "0x30"] by auto
  then have "phase (io_outb io h2 ATA_COMMAND 0x30) \<noteq> AtaIdle" using outb_write by simp
  then obtain h4 h5 where "ata_wait_bsy io (io_outb io h2 ATA_COMMAND 0x30) = (0, h4)"
    "ata_wait_drq io h4 = (0, h5)" by (rule wait_ready)
  then show ?thesis
    using b s buf_words_short [of bs 0 256] l by (simp add: ata_write28_def)
qed

text \<open>A write of \<open>n\<close> sectors, from any place of the buffer.\<close>

lemma write_loop:
  assumes "phase h = AtaOut lba n []" and "i + 512 * n \<le> length bs" and "0 < n"
  shows "\<exists>h'. ata_write_loop n io h bs i = Inr (0, h') \<and> phase h' = AtaIdle \<and>
     sectors_of (media h') = write_sectors n lba (drop i bs) (sectors_of (media h))"
  using assms
proof (induction n arbitrary: h lba i)
  case 0
  then show ?case by simp
next
  case (Suc n)
  obtain ws where ws: "buf_words 256 bs i = Inr ws" "length ws = 256" "sector_bytes ws = take 512 (drop i bs)"
    using buf_words_ok [of i 256 bs] Suc.prems(2) by auto
  from Suc.prems(1) have "phase h \<noteq> AtaIdle" by simp
  then obtain h1 h2 where w: "ata_wait_bsy io h = (0, h1)" "ata_wait_drq io h1 = (0, h2)"
    "phase h2 = phase h" "media h2 = media h" by (rule wait_ready)
  define h3 where "h3 = outw_loop ws io h2"
  have "ws \<noteq> []" using ws(2) by auto
  then have m3: "media h3 = (media h)(lba := ws)" and p3: "phase h3 = (if n = 0 then AtaIdle else AtaOut (lba + 1) n [])"
    using outw_loop [of h2 lba "Suc n" "[]" ws] ws(2) w Suc.prems(1) by (auto simp: h3_def)
  have d3: "sectors_of (media h3) = (sectors_of (media h))(lba := take 512 (drop i bs))"
    by (rule ext) (simp add: sectors_of_def m3 ws(3))
  have run: "ata_write_loop (Suc n) io h bs i = ata_write_loop n io h3 bs (i + 512)"
    using w ws(1) by (simp add: h3_def)
  show ?case
  proof (cases "n = 0")
    case True
    then show ?thesis using run p3 d3 by (simp add: fun_upd_def)
  next
    case False
    then have "phase h3 = AtaOut (lba + 1) n []" using p3 by simp
    from Suc.IH [OF this, of "i + 512"] Suc.prems(2) False show ?thesis
      unfolding run by (simp add: d3 add.commute fun_upd_def)
  qed
qed

lemma write28:
  assumes "phase h = AtaIdle" and "count \<le> 128" and "512 * unat count \<le> length bs"
  shows "\<exists>h'. ata_write28 io h lba count bs = Inr (0, h') \<and> phase h' = AtaIdle \<and>
     sectors_of (media h') = write_sectors (unat count) (lba AND 0x0FFFFFFF) bs (sectors_of (media h))"
proof (cases "count = 0")
  case True
  then show ?thesis using assms(1) by (simp add: ata_write28_def)
next
  case False
  obtain h1 where b: "ata_wait_bsy io h = (0, h1)" "phase h1 = AtaIdle" "media h1 = media h"
    using wait_bsy [of h] assms(1) by auto
  obtain h2 where s: "ata_setup io h1 lba count 0x30 = io_outb io h2 ATA_COMMAND 0x30"
    "phase h2 = AtaIdle" "media h2 = media h" "regs h2 ATA_SECCOUNT0 = count"
    "taskfile_lba (regs h2) = lba AND 0x0FFFFFFF"
    using setup_taskfile [OF b(2), of lba count "0x30"] b(3) by auto
  define h3 where "h3 = io_outb io h2 ATA_COMMAND 0x30"
  have h3: "phase h3 = AtaOut (lba AND 0x0FFFFFFF) (unat count) []" "media h3 = media h"
    using outb_write [OF s(2)] s False by (simp_all add: h3_def)
  have "0 < unat count" using False by (simp add: unat_gt_0)
  from write_loop [OF h3(1), of 0 bs] this assms(3) obtain h' where
    "ata_write_loop (unat count) io h3 bs 0 = Inr (0, h')" "phase h' = AtaIdle"
    "sectors_of (media h') = write_sectors (unat count) (lba AND 0x0FFFFFFF) bs (sectors_of (media h))"
    using h3(2) by auto
  moreover have "\<not> 128 < count" using assms(2) by simp
  ultimately show ?thesis using False b s(1) by (simp add: ata_write28_def h3_def)
qed

text \<open>Any sequence of transfers behaves like the array.\<close>

lemma ops_refine_array:
  assumes "phase h = AtaIdle" and "\<forall>op\<in>set ops. transfer_ok op"
  shows "\<exists>h'. ata_transfers io h ops = Inr (fst (disk_transfers (sectors_of (media h)) ops), h') \<and> phase h' = AtaIdle \<and>
     sectors_of (media h') = snd (disk_transfers (sectors_of (media h)) ops)"
  using assms
proof (induction ops arbitrary: h)
  case Nil
  then show ?case by simp
next
  case (Cons op ops)
  show ?case
  proof (cases op)
    case (ReadOp lba count)
    with Cons.prems(2) have ok: "count \<le> 128" "unat lba < 2 ^ 28" by (auto simp: transfer_ok_def)
    obtain h1 where r: "ata_read28 io h lba count =
        ((0, concat (map (\<lambda>k. sectors_of (media h) (lba + of_nat k)) [0..<unat count])), h1)"
      "phase h1 = AtaIdle" "media h1 = media h"
    proof (cases "count = 0")
      case True
      then show thesis using that [of h] Cons.prems(1) by (simp add: ata_read28_def)
    next
      case False
      show thesis using read28 [OF Cons.prems(1) False ok(1), of lba] that by (auto simp: and28_id [OF ok(2)] sectors_of_def)
    qed
    from Cons.IH [OF r(2)] Cons.prems(2) obtain h' where
      "ata_transfers io h1 ops = Inr (fst (disk_transfers (sectors_of (media h1)) ops), h')" "phase h' = AtaIdle"
      "sectors_of (media h') = snd (disk_transfers (sectors_of (media h1)) ops)" by fastforce
    then show ?thesis using r ReadOp by (simp add: case_prod_unfold Let_def)
  next
    case (WriteOp lba count bs)
    with Cons.prems(2) have ok: "count \<le> 128" "unat lba < 2 ^ 28" "512 * unat count \<le> length bs" by (auto simp: transfer_ok_def)
    from write28 [OF Cons.prems(1) ok(1,3), of lba] obtain h1 where
      w: "ata_write28 io h lba count bs = Inr (0, h1)" "phase h1 = AtaIdle"
        "sectors_of (media h1) = write_sectors (unat count) lba bs (sectors_of (media h))" by (auto simp: and28_id [OF ok(2)])
    from Cons.IH [OF w(2)] Cons.prems(2) obtain h' where
      "ata_transfers io h1 ops = Inr (fst (disk_transfers (sectors_of (media h1)) ops), h')" "phase h' = AtaIdle"
      "sectors_of (media h') = snd (disk_transfers (sectors_of (media h1)) ops)" by fastforce
    then show ?thesis using w WriteOp by (simp add: case_prod_unfold Let_def)
  qed
qed

lemma rd_one: "phase h = AtaIdle \<Longrightarrow> ata_rd io h lba 1 = Some (sector_bytes (media h (lba AND 0x0FFFFFFF)))"
  using read28 [of h 1 lba] by (auto simp: ata_rd_def)

end

text \<open>The driver provides the contract of the file systems: 512-byte sectors, addresses below
  \<open>2 ^ 28\<close> (above that the address register truncates and sectors alias).\<close>

sublocale ata_controller \<subseteq> ata_dev: reliable_device "ata_rd io" "ata_wr io" "\<lambda>h. phase h = AtaIdle"
  512 "2 ^ 28"
proof (unfold_locales, goal_cases)
  case (1 d lba bs)
  then show ?case by (auto simp: rd_one media_length length_sector_bytes)
next
  case (2 d lba bs r d')
  then show ?case
    using write28_one [of d bs lba] write28_one_short [of d bs lba]
    by (cases "512 \<le> length bs") (auto simp: ata_wr_def)
next
  case (3 d lba bs d')
  then show ?case
    using write28_one [of d bs lba] write28_one_short [of d bs lba]
    by (cases "512 \<le> length bs") (auto simp: ata_wr_def rd_one)
next
  case (4 d lba lba' bs r d')
  then have "lba' AND 0x0FFFFFFF \<noteq> lba AND 0x0FFFFFFF" by (simp add: and28_id)
  with 4 show ?case
    using write28_one [of d bs lba] write28_one_short [of d bs lba]
    by (cases "512 \<le> length bs") (auto simp: ata_wr_def rd_one)
next
  case (5 d lba)
  then show ?case by (simp add: rd_one)
next
  case (6 d lba bs)
  then show ?case
    using write28_one [of d bs lba] by (auto simp: ata_wr_def)
qed

context ata_controller
begin

lemmas driver_reliable = ata_dev.reliable_device_axioms

end

subsection \<open>A controller that implements the protocol\<close>

record emu_ata =
  emu_regs :: "u16 \<Rightarrow> u8"
  emu_phase :: ata_phase
  emu_disk :: "u32 \<Rightarrow> u16 list"

definition emu_media :: "emu_ata \<Rightarrow> u32 \<Rightarrow> u16 list" where
  "emu_media h n = take 256 (emu_disk h n @ replicate 256 0)"

definition emu_inb :: "emu_ata \<Rightarrow> u16 \<Rightarrow> u8 \<times> emu_ata" where
  "emu_inb h p =
     (if p = ATA_STATUS then (if emu_phase h = AtaIdle then 0x40 else 0x48) else emu_regs h p, h)"

definition emu_outb :: "emu_ata \<Rightarrow> u16 \<Rightarrow> u8 \<Rightarrow> emu_ata" where
  "emu_outb h p v =
     (if p = ATA_COMMAND then
        (let lba = taskfile_lba (emu_regs h); n = unat (emu_regs h ATA_SECCOUNT0)
         in if v = 0x20 then h\<lparr>emu_phase := AtaIn (sectors_words (emu_media h) lba n)\<rparr>
            else if v = 0x30 then h\<lparr>emu_phase := AtaOut lba n []\<rparr>
            else h)
      else h\<lparr>emu_regs := (emu_regs h)(p := v)\<rparr>)"

definition emu_inw :: "emu_ata \<Rightarrow> u16 \<Rightarrow> u16 \<times> emu_ata" where
  "emu_inw h p =
     (case emu_phase h of
        AtaIn (w # ws) \<Rightarrow> (w, h\<lparr>emu_phase := (if ws = [] then AtaIdle else AtaIn ws)\<rparr>)
      | _ \<Rightarrow> (0, h))"

definition emu_outw :: "emu_ata \<Rightarrow> u16 \<Rightarrow> u16 \<Rightarrow> emu_ata" where
  "emu_outw h p w =
     (case emu_phase h of
        AtaOut lba n acc \<Rightarrow>
          (if length acc < 255 then h\<lparr>emu_phase := AtaOut lba n (acc @ [w])\<rparr>
           else h\<lparr>emu_phase := (if n = 1 then AtaIdle else AtaOut (lba + 1) (n - 1) []),
                  emu_disk := (emu_disk h)(lba := acc @ [w])\<rparr>)
      | _ \<Rightarrow> h)"

definition emu_io :: "emu_ata port_io" where
  "emu_io = \<lparr>io_inb = emu_inb, io_outb = emu_outb, io_inw = emu_inw, io_outw = emu_outw\<rparr>"

lemma emu_status_live: "\<exists>k<1000000. bsy_clear_after k emu_io h"
  by (rule exI [of _ 0]) (simp add: emu_io_def emu_inb_def)

interpretation emu: ata_controller emu_io emu_regs emu_phase emu_media
proof (unfold_locales, goal_cases)
  case (4 h)
  show ?case by (rule emu_status_live)
qed (auto simp: emu_io_def emu_inb_def emu_outb_def emu_inw_def emu_outw_def emu_media_def
      fun_eq_iff Let_def split: if_splits)

subsection \<open>Properties of the driver\<close>

text \<open>behind a controller that follows the PIO protocol, \<open>ata_read28\<close> of 1 to 128 sectors returns 0,
  stores the bytes of these sectors of the medium in order, and leaves the controller idle and
  the medium unchanged.\<close>

theorem ata_read28_delivers_sectors:
  assumes ctl: "ata_controller io regs phase media" and "phase h = AtaIdle" and "count \<noteq> 0" and "count \<le> 128"
    and lba: "unat lba < 2 ^ 28"
  shows "\<exists>h'. ata_read28 io h lba count =
       ((0, concat (map (\<lambda>k. sector_bytes (media h (lba + of_nat k))) [0..<unat count])), h') \<and>
     phase h' = AtaIdle \<and> media h' = media h"
  using ata_controller.read28 [OF assms(1-4), of lba] by (simp add: and28_id [OF lba])

theorem ata_read28_delivers_sectors_witness:
  "\<exists>h'. ata_read28 emu_io \<lparr>emu_regs = (\<lambda>_. 0), emu_phase = AtaIdle, emu_disk = (\<lambda>l. replicate 256 (ucast l))\<rparr> 7 2 =
     ((0, sector_bytes (replicate 256 7) @ sector_bytes (replicate 256 8)), h')"
  using ata_read28_delivers_sectors [OF emu.ata_controller_axioms, of
      "\<lparr>emu_regs = (\<lambda>_. 0), emu_phase = AtaIdle, emu_disk = (\<lambda>l. replicate 256 (ucast l))\<rparr>" 2 7]
  by (auto simp: emu_media_def upt_rec)

text \<open>C22: behind a controller that follows the PIO protocol the driver is an array of 512-byte sectors. Any sequence
  of calls of \<open>ata_read28\<close> and \<open>ata_write28\<close>, of 0 to 128 sectors each below sector \<open>2 ^ 28\<close>, each on the controller
  state the one before it left, returns 0 each time; every read delivers what the array of sectors holds at that
  point, the medium ends as the array does, and the controller is idle again. In particular the driver gives the file
  systems the contract they are proved against.\<close>

theorem ata_provides_block_device:
  assumes "ata_controller io regs phase media" and "phase h = AtaIdle" and "\<forall>op\<in>set ops. transfer_ok op"
  shows "(\<exists>h'. ata_transfers io h ops = Inr (fst (disk_transfers (sectors_of (media h)) ops), h') \<and> phase h' = AtaIdle \<and>
      sectors_of (media h') = snd (disk_transfers (sectors_of (media h)) ops)) \<and>
    reliable_device (ata_rd io) (ata_wr io) (\<lambda>h. phase h = AtaIdle) 512 (2 ^ 28)"
  using ata_controller.ops_refine_array [OF assms] ata_controller.driver_reliable [OF assms(1)] by blast

theorem ata_provides_block_device_witness:
  "\<exists>h'. ata_transfers emu_io \<lparr>emu_regs = (\<lambda>_. 0), emu_phase = AtaIdle, emu_disk = (\<lambda>l. replicate 256 (ucast l))\<rparr>
     [ReadOp 8 1, WriteOp 8 1 (replicate 512 1), ReadOp 7 2] =
     Inr ([(0, sector_bytes (replicate 256 8)), (0, []), (0, sector_bytes (replicate 256 7) @ replicate 512 1)], h')"
proof -
  let ?h = "\<lparr>emu_regs = (\<lambda>_. 0), emu_phase = AtaIdle, emu_disk = (\<lambda>l. replicate 256 (ucast l))\<rparr>"
  let ?ops = "[ReadOp 8 1, WriteOp 8 1 (replicate 512 1), ReadOp 7 2]"
  have ok: "\<forall>op\<in>set ?ops. transfer_ok op" by (simp add: transfer_ok_def)
  have m: "emu_media ?h n = replicate 256 (ucast n)" for n by (simp add: emu_media_def)
  have "\<exists>h'. ata_transfers emu_io ?h ?ops = Inr (fst (disk_transfers (sectors_of (emu_media ?h)) ?ops), h')"
    using ata_provides_block_device [OF emu.ata_controller_axioms _ ok, of ?h] by auto
  moreover have "fst (disk_transfers (sectors_of (emu_media ?h)) ?ops) =
      [(0, sector_bytes (replicate 256 8)), (0, []), (0, sector_bytes (replicate 256 7) @ replicate 512 1)]"
    by (simp add: sectors_of_def m upt_rec)
  ultimately show ?thesis by simp
qed

text \<open>Addresses above the 28 bits of the task file alias lower sectors; the driver does not refuse them.\<close>

lemma ata_address_aliases:
  assumes "ata_controller io regs phase media" and "phase h = AtaIdle"
  shows "ata_rd io h 0x10000000 1 = ata_rd io h 0 1"
  using ata_controller.rd_one [OF assms(1), OF assms(2), of "0x10000000"]
    ata_controller.rd_one [OF assms(1), OF assms(2), of 0] by simp

end
