(* ===== verification/Fat_Theorems.thy ===== *)
theory Fat_Theorems
  imports Fat_Files Ata
begin

text \<open>
  The properties of the FAT32 file system, with a small volume behind the emulated ATA controller
  on which they are instantiated.
\<close>

subsection \<open>A small volume\<close>

text \<open>One cluster per sector, the table in sector 2, the data area from sector 4 on, the root
  directory in cluster 2. The root directory holds the file \<open>A.TXT\<close> in cluster 3.\<close>

definition demo_vol :: fat32_vol where
  "demo_vol =
     \<lparr>fs_type = FAT_FS_FAT32, bytes_per_sec = 512, sec_per_clus = 1, rsvd_sec_cnt = 2, num_fats = 1,
      fat_sz32 = 2, root_clus = 2, first_data_lba = 4, fat_lba = 2, tot_sec32 = 14, part_lba_start = 0,
      exfat_fat_length = 0, exfat_heap_offset = 0, exfat_cluster_count = 0, exfat_bitmap_clus = 0,
      exfat_bitmap_size = 0, exfat_bps_shift = 0, exfat_spc_shift = 0\<rparr>"

definition demo_table :: "u16 list" where
  "demo_table = [0xFFF8, 0x0FFF, 0xFFFF, 0x0FFF, 0xFFFF, 0x0FFF, 0xFFFF, 0x0FFF]"

definition demo_root :: "u16 list" where
  "demo_root = [0x2041, 0x2020, 0x2020, 0x2020, 0x5854, 0x2054, 0, 0, 0, 0, 0, 0, 0, 3, 5, 0]"

definition demo_ata :: emu_ata where
  "demo_ata = \<lparr>emu_regs = (\<lambda>_. 0), emu_phase = AtaIdle,
     emu_disk = (\<lambda>l. if l = 2 then demo_table else if l = 4 then demo_root else [])\<rparr>"

abbreviation demo_rd :: "emu_ata disk_read_fn" where "demo_rd \<equiv> ata_rd emu_io"
abbreviation demo_wr :: "emu_ata disk_write_fn" where "demo_wr \<equiv> ata_wr emu_io"

lemma demo_device: "reliable_device demo_rd demo_wr (\<lambda>h. emu_phase h = AtaIdle) 512 (2 ^ 28)"
  by (rule emu.ata_dev.reliable_device_axioms)

lemma sector_bytes_zeros: "sector_bytes (replicate n 0) = replicate (2 * n) 0"
  by (induction n) (simp_all add: sector_bytes_def eval_nat_numeral)

lemma sector_bytes_append: "sector_bytes (xs @ ys) = sector_bytes xs @ sector_bytes ys"
  by (simp add: sector_bytes_def)

lemma demo_read:
  "demo_rd demo_ata l 1 = Some (sector_bytes (emu_media demo_ata (l AND 0x0FFFFFFF)))"
  by (rule emu.rd_one) (simp add: demo_ata_def)

lemma demo_sectors:
  "demo_rd demo_ata 2 1 = Some (sector_bytes demo_table @ replicate 496 0)"
  "demo_rd demo_ata 4 1 = Some (sector_bytes demo_root @ replicate 480 0)"
proof -
  have m: "emu_media demo_ata 2 = demo_table @ replicate 248 0" "emu_media demo_ata 4 = demo_root @ replicate 240 0"
    by (simp_all add: emu_media_def demo_ata_def demo_table_def demo_root_def)
  show "demo_rd demo_ata 2 1 = Some (sector_bytes demo_table @ replicate 496 0)"
    "demo_rd demo_ata 4 1 = Some (sector_bytes demo_root @ replicate 480 0)"
    using m by (simp_all add: demo_read sector_bytes_append sector_bytes_zeros)
qed

lemma demo_table_bytes:
  "sector_bytes demo_table =
     [0xF8, 0xFF, 0xFF, 0x0F, 0xFF, 0xFF, 0xFF, 0x0F, 0xFF, 0xFF, 0xFF, 0x0F, 0xFF, 0xFF, 0xFF, 0x0F]"
  "sector_bytes demo_root =
     [0x41, 0x20, 0x20, 0x20, 0x20, 0x20, 0x20, 0x20, 0x54, 0x58, 0x54, 0x20, 0, 0, 0, 0, 0, 0, 0, 0, 0, 0, 0, 0,
      0, 0, 3, 0, 5, 0, 0, 0]"
  by (code_simp, code_simp)

lemma demo_selectors:
  "emu_phase demo_ata = AtaIdle" "fs_type demo_vol = FAT_FS_FAT32" "bytes_per_sec demo_vol = 512"
  "sec_per_clus demo_vol = 1" "root_clus demo_vol = 2"
  by (simp_all add: demo_ata_def demo_vol_def)

lemma demo_layout: "vol_layout demo_vol 512 (2 ^ 28) 8"
  by (simp add: vol_layout_def sector_geometry_def demo_vol_def)

lemma demo_entry:
  "c \<in> {2, 3} \<Longrightarrow> fat_read_fat_entry demo_vol demo_rd demo_ata c = Inr 0x0FFFFFFF"
  "fat_read_fat_entry demo_vol demo_rd demo_ata 4 = Inr 0"
  by (auto simp: fat_read_fat_entry_def demo_vol_def read_sector_def demo_sectors demo_table_bytes ld_le_def
      Let_def unat_div unat_mod)

lemma demo_root_chain: "dir_readable demo_vol demo_rd demo_ata 512 2 [2]"
proof -
  have "fat_chain demo_vol demo_rd demo_ata 2 [2]"
    by (rule chain_link [OF _ demo_entry(1) chain_end]) (simp_all add: is_end_cluster_def)
  moreover have "set (cluster_lbas demo_vol 2) = {4}" by (simp add: cluster_lbas_def demo_vol_def clus_to_lba_def)
  ultimately show ?thesis by (simp add: dir_readable_def readable_def demo_sectors demo_table_bytes)
qed

lemma demo_slots: "dir_slots demo_vol 512 [2] = map (\<lambda>k. (4, 0, 32 * k)) [0..<16]"
  by (simp add: dir_slots_def demo_vol_def clus_to_lba_def offsets32_def comp_def)

lemma demo_slot_bytes:
  "slot_bytes demo_rd demo_ata (4, 0, 0) = sector_bytes demo_root"
  "0 < k \<Longrightarrow> k < 16 \<Longrightarrow> slot_bytes demo_rd demo_ata (4, 0, 32 * k) = replicate 32 0"
proof -
  show "slot_bytes demo_rd demo_ata (4, 0, 0) = sector_bytes demo_root"
    by (simp add: slot_bytes_def slot_sec_def slot_lba_def slot_off_def demo_sectors demo_table_bytes)
  assume "0 < k" "k < 16"
  then obtain j where "k = Suc j" "j < 15" by (cases k) auto
  moreover have "length (sector_bytes demo_root) = 32" by (simp add: demo_table_bytes)
  ultimately show "slot_bytes demo_rd demo_ata (4, 0, 32 * k) = replicate 32 0"
    by (simp add: slot_bytes_def slot_sec_def slot_lba_def slot_off_def demo_sectors)
qed

text \<open>The root directory: one file, then free slots.\<close>

lemma demo_lookup:
  "lookup (slot_bytes demo_rd demo_ata) (dir_slots demo_vol 512 [2]) nm =
     (if nm = make_name83 (cstr ''A.TXT'') then Some (dirent_of (sector_bytes demo_root), (4, 0, 0)) else None)"
proof -
  let ?b = "slot_bytes demo_rd demo_ata"
  have xs: "dir_slots demo_vol 512 [2] = (4, 0, 0) # (4, 0, 32) # map (\<lambda>k. (4, 0, 32 * k)) [2..<16]"
    by (simp add: demo_slots upt_rec)
  have nm: "make_name83 (cstr ''A.TXT'') = [0x41, 0x20, 0x20, 0x20, 0x20, 0x20, 0x20, 0x20, 0x54, 0x58, 0x54]"
    by code_simp
  show ?thesis
    using demo_slot_bytes(2) [of 1]
    by (auto simp: xs lookup_Cons demo_slot_bytes(1) demo_table_bytes slot_named_def slot_free_def nm)
qed

subsection \<open>Writing and reading files by path\<close>

text \<open>C1: writing a new file by path. On a FAT32 volume without overlaps, on a device that honours
  its contract, when the directories of the path exist, the last one has a free slot and no entry
  of that name, and a cluster is free, \<open>fat32_write_file_path\<close> returns 0, and
  \<open>fat32_read_file_path\<close> on the same path then delivers the first cluster's worth of the data.\<close>

theorem write_new_file_then_read:
  assumes dev: "reliable_device rd wr ok secsz cap" and "ok d"
    and "vol_layout v secsz cap N" and "32 dvd secsz" and "secsz \<le> 512"
    and "unat (alloc_max_clusters v) \<le> N + 2" and "fs_type v = FAT_FS_FAT32"
    and "path_steps 13 (skip_drive_prefix path) = map (\<lambda>c. (c, True)) ds @ [(f, False)]"
    and "dir_path v rd d secsz N fuel ds (root_clus v) dir vis"
    and "\<forall>c\<in>set cs. valid_clus N c" and "dir_readable v rd d secsz dir cs" and "set vis \<inter> set cs = {}"
    and "length cs < fuel" and "2 \<le> fuel"
    and "dir_terminated (slot_bytes rd d) (dir_slots v secsz cs)"
    and "lookup (slot_bytes rd d) (dir_slots v secsz cs) (make_name83 f) = None"
    and "make_name83 f ! 0 \<noteq> 0" and "make_name83 f ! 0 \<noteq> 0xE5"
    and "\<exists>x\<in>set (dir_slots v secsz cs). slot_free (slot_bytes rd d x)"
    and "\<exists>c\<in>set (cluster_candidates (alloc_max_clusters v)). fat_read_fat_entry v rd d c = Inr 0"
    and "min (unat bytes) (unat (sec_per_clus v) * secsz) \<le> length data"
  shows "\<exists>d' n. fat32_write_file_path fuel v rd wr d path data bytes = Inr (0, v, d') \<and> ok d' \<and>
    unat n = min (unat bytes) (unat (sec_per_clus v) * secsz) \<and>
    (\<forall>mx\<ge>n. fat32_read_file_path fuel v rd d' path mx = Inr (0, take (unat n) data, Some n, v))"
  by (rule reliable_device.write_new_read_path [OF dev assms(2-21)])

lemma demo_steps:
  "path_steps 13 (skip_drive_prefix (cstr ''C:/B.TXT'')) = [(cstr ''B.TXT'', False)]"
  "path_steps 13 (skip_drive_prefix (cstr ''C:/A.TXT'')) = [(cstr ''A.TXT'', False)]"
  by (code_simp, code_simp)

lemma demo_name_B: "make_name83 (cstr ''B.TXT'') = [0x42, 0x20, 0x20, 0x20, 0x20, 0x20, 0x20, 0x20, 0x54, 0x58, 0x54]"
  by code_simp

lemma demo_name_A: "make_name83 (cstr ''A.TXT'') = [0x41, 0x20, 0x20, 0x20, 0x20, 0x20, 0x20, 0x20, 0x54, 0x58, 0x54]"
  by code_simp

lemma demo_alloc_max: "alloc_max_clusters demo_vol = 10"
  by code_simp

lemma demo_candidates: "4 \<in> set (cluster_candidates (alloc_max_clusters demo_vol))"
  by (simp add: demo_alloc_max cluster_candidates_def image_iff)

lemma demo_terminated: "dir_terminated (slot_bytes demo_rd demo_ata) (dir_slots demo_vol 512 [2])"
proof -
  have xs: "dir_slots demo_vol 512 [2] = (4, 0, 0) # map (\<lambda>k. (4, 0, 32 * k)) [1..<16]"
    by (simp add: demo_slots upt_rec)
  show ?thesis
    unfolding xs dir_terminated_Cons
    by (auto simp: demo_slot_bytes demo_table_bytes intro!: dir_terminated_zeros)
qed

lemma demo_free_slot: "\<exists>x\<in>set (dir_slots demo_vol 512 [2]). slot_free (slot_bytes demo_rd demo_ata x)"
  by (rule bexI [of _ "(4, 0, 32 * 1)"])
    (simp_all only: demo_slot_bytes demo_slots, auto simp: slot_free_def image_iff)

theorem write_new_file_then_read_witness:
  "\<exists>d' n. fat32_write_file_path 8 demo_vol demo_rd demo_wr demo_ata (cstr ''C:/B.TXT'') (cstr ''hello'') 5
      = Inr (0, demo_vol, d') \<and> emu_phase d' = AtaIdle \<and> unat n = 5 \<and>
    (\<forall>mx\<ge>n. fat32_read_file_path 8 demo_vol demo_rd d' (cstr ''C:/B.TXT'') mx =
      Inr (0, cstr ''hello'', Some n, demo_vol))"
proof -
  have "\<exists>d' n. fat32_write_file_path 8 demo_vol demo_rd demo_wr demo_ata (cstr ''C:/B.TXT'') (cstr ''hello'') 5
      = Inr (0, demo_vol, d') \<and> emu_phase d' = AtaIdle \<and>
    unat n = min (unat (5 :: u32)) (unat (sec_per_clus demo_vol) * 512) \<and>
    (\<forall>mx\<ge>n. fat32_read_file_path 8 demo_vol demo_rd d' (cstr ''C:/B.TXT'') mx =
      Inr (0, take (unat n) (cstr ''hello''), Some n, demo_vol))"
  proof (rule write_new_file_then_read [where N = 8 and ds = "[]" and f = "cstr ''B.TXT''" and dir = 2
        and vis = "[]" and cs = "[2]", OF demo_device _ demo_layout])
    show "dir_path demo_vol demo_rd demo_ata 512 8 8 [] (root_clus demo_vol) 2 []"
      using dir_path.here [of demo_vol demo_rd demo_ata 512 8 8 2] by (simp add: demo_vol_def)
    show "\<exists>c\<in>set (cluster_candidates (alloc_max_clusters demo_vol)).
        fat_read_fat_entry demo_vol demo_rd demo_ata c = Inr 0"
      using demo_candidates demo_entry(2) by blast
  qed (simp_all add: demo_selectors demo_alloc_max demo_steps demo_root_chain demo_terminated demo_lookup demo_name_A demo_name_B demo_free_slot valid_clus_def)
  then show ?thesis by (auto simp: demo_selectors)
qed

text \<open>C2: overwriting a file by path. When the path leads to an existing file whose first cluster is
  a cluster of the volume that belongs to no directory of the path, \<open>fat32_write_file_path\<close>
  returns 0 and the new data, cut to one cluster, is what \<open>fat32_read_file_path\<close> then
  delivers.\<close>

theorem overwrite_file_then_read:
  assumes dev: "reliable_device rd wr ok secsz cap" and "ok d" and "vol_layout v secsz cap N"
    and "32 dvd secsz" and "fs_type v = FAT_FS_FAT32"
    and "path_steps 13 (skip_drive_prefix path) = map (\<lambda>c. (c, True)) ds @ [(f, False)]"
    and "dir_path v rd d secsz N fuel ds (root_clus v) dir vis"
    and "\<forall>c\<in>set cs. valid_clus N c" and "dir_readable v rd d secsz dir cs"
    and "set vis \<inter> insert (dirent_start_cluster de) (set cs) = {}"
    and "length cs < fuel" and "2 \<le> fuel"
    and "lookup (slot_bytes rd d) (dir_slots v secsz cs) (make_name83 f) = Some (de, x)"
    and "de_attr de AND ATTR_DIR = 0" and "valid_clus N (dirent_start_cluster de)"
    and "dirent_start_cluster de \<notin> set cs"
    and "min (unat bytes) (unat (sec_per_clus v) * secsz) \<le> length data"
  shows "\<exists>d' n. fat32_write_file_path fuel v rd wr d path data bytes = Inr (0, v, d') \<and> ok d' \<and>
    unat n = min (unat bytes) (unat (sec_per_clus v) * secsz) \<and>
    (\<forall>mx\<ge>n. fat32_read_file_path fuel v rd d' path mx = Inr (0, take (unat n) data, Some n, v))"
  by (rule reliable_device.overwrite_read_path [OF dev assms(2-17)])

lemma demo_file:
  "de_attr (dirent_of (sector_bytes demo_root)) = 0x20" "dirent_start_cluster (dirent_of (sector_bytes demo_root)) = 3"
  "de_file_size (dirent_of (sector_bytes demo_root)) = 5"
  by (simp_all add: demo_table_bytes dirent_of_def dirent_start_cluster_def)

theorem overwrite_file_then_read_witness:
  "\<exists>d' n. fat32_write_file_path 8 demo_vol demo_rd demo_wr demo_ata (cstr ''C:/A.TXT'') (cstr ''world!'') 6
      = Inr (0, demo_vol, d') \<and> emu_phase d' = AtaIdle \<and> unat n = 6 \<and>
    (\<forall>mx\<ge>n. fat32_read_file_path 8 demo_vol demo_rd d' (cstr ''C:/A.TXT'') mx =
      Inr (0, cstr ''world!'', Some n, demo_vol))"
proof -
  have "\<exists>d' n. fat32_write_file_path 8 demo_vol demo_rd demo_wr demo_ata (cstr ''C:/A.TXT'') (cstr ''world!'') 6
      = Inr (0, demo_vol, d') \<and> emu_phase d' = AtaIdle \<and>
    unat n = min (unat (6 :: u32)) (unat (sec_per_clus demo_vol) * 512) \<and>
    (\<forall>mx\<ge>n. fat32_read_file_path 8 demo_vol demo_rd d' (cstr ''C:/A.TXT'') mx =
      Inr (0, take (unat n) (cstr ''world!''), Some n, demo_vol))"
  proof (rule overwrite_file_then_read [where N = 8 and ds = "[]" and f = "cstr ''A.TXT''" and dir = 2
        and vis = "[]" and cs = "[2]" and x = "(4, 0, 0)" and de = "dirent_of (sector_bytes demo_root)",
        OF demo_device _ demo_layout])
    show "dir_path demo_vol demo_rd demo_ata 512 8 8 [] (root_clus demo_vol) 2 []"
      using dir_path.here [of demo_vol demo_rd demo_ata 512 8 8 2] by (simp add: demo_vol_def)
  qed (simp_all add: demo_selectors demo_steps demo_root_chain demo_lookup demo_file valid_clus_def)
  then show ?thesis by (auto simp: demo_selectors)
qed

subsection \<open>Directories\<close>

text \<open>C3: \<open>create_dir_entry\<close> refines the update of a map from names to entries: on a directory
  with a free slot and no entry of that name it returns 0, a search for the new name finds the new
  entry, a search for any other name finds what it found before, and the table and all sectors
  but the one of the slot are unchanged.\<close>

theorem create_entry_refines_update:
  assumes dev: "reliable_device rd wr ok secsz cap" and "ok d"
    and "vol_layout v secsz cap N" and "32 dvd secsz" and "secsz \<le> 512"
    and "\<forall>c\<in>set cs. valid_clus N c" and "dir_readable v rd d secsz cl cs" and "length cs < fuel"
    and "find (\<lambda>x. slot_free (slot_bytes rd d x)) (dir_slots v secsz cs) = Some x"
    and "dir_terminated (slot_bytes rd d) (dir_slots v secsz cs)"
    and "lookup (slot_bytes rd d) (dir_slots v secsz cs) nm = None"
    and "length nm = 11" and "nm ! 0 \<noteq> 0" and "nm ! 0 \<noteq> 0xE5" and "attr \<noteq> ATTR_LONG_NAME"
  shows "\<exists>d'. create_dir_entry fuel v rd wr d cl nm attr start sz = Inr (0, d') \<and> ok d' \<and>
    dir_readable v rd d' secsz cl cs \<and> dir_terminated (slot_bytes rd d') (dir_slots v secsz cs) \<and>
    lookup (slot_bytes rd d') (dir_slots v secsz cs) =
      (lookup (slot_bytes rd d) (dir_slots v secsz cs))(nm \<mapsto> (dirent_of (dirent_bytes nm attr start sz), x)) \<and>
    (\<forall>c. valid_clus N c \<longrightarrow> fat_read_fat_entry v rd d' c = fat_read_fat_entry v rd d c) \<and>
    (\<forall>k. unat k < cap \<longrightarrow> k \<noteq> slot_lba x \<longrightarrow> rd d' k 1 = rd d k 1)"
  by (rule reliable_device.create_dir_entry_update [OF dev assms(2-15), of start sz]) (simp add: fun_eq_iff)

theorem create_entry_refines_update_witness:
  "\<exists>d'. create_dir_entry 8 demo_vol demo_rd demo_wr demo_ata 2 (make_name83 (cstr ''B.TXT'')) 0x20 5 7 = Inr (0, d') \<and>
    lookup (slot_bytes demo_rd d') (dir_slots demo_vol 512 [2]) =
      (lookup (slot_bytes demo_rd demo_ata) (dir_slots demo_vol 512 [2]))(make_name83 (cstr ''B.TXT'') \<mapsto>
         (dirent_of (dirent_bytes (make_name83 (cstr ''B.TXT'')) 0x20 5 7), (4, 0, 32)))"
proof -
  have xs: "dir_slots demo_vol 512 [2] = (4, 0, 0) # (4, 0, 32 * 1) # map (\<lambda>k. (4, 0, 32 * k)) [2..<16]"
    by (simp add: demo_slots upt_rec)
  have "find (\<lambda>x. slot_free (slot_bytes demo_rd demo_ata x)) (dir_slots demo_vol 512 [2]) = Some (4, 0, 32 * 1)"
    unfolding xs by (simp only: find.simps demo_slot_bytes) (simp add: slot_free_def demo_table_bytes)
  from create_entry_refines_update [where fuel = 8 and nm = "make_name83 (cstr ''B.TXT'')" and attr = 32
      and start = 5 and sz = 7, OF demo_device _ demo_layout _ _ _ demo_root_chain _ this demo_terminated]
  show ?thesis by (simp add: demo_selectors valid_clus_def demo_lookup demo_name_A demo_name_B) blast
qed

text \<open>C4: searching a directory. On a readable directory the nested loops of \<open>dir_find_entry\<close> return
  what a search of the list of its 32-byte slots returns: the first entry of that name that
  precedes the end mark, \<open>-2\<close> at the end mark and \<open>-3\<close> when there is none.\<close>

theorem dir_search_is_list_search:
  assumes "dir_readable v rd d n cl cs" and "n \<le> MAX_SECTOR_SIZE" and "32 dvd n"
    and "unat (bytes_per_sec v) = n" and "length want = 11" and "length cs < fuel"
  shows "dir_find_entry fuel v rd d cl want = Inr (find_result want (slot_bytes rd d) (dir_slots v n cs))"
  using assms by (rule dir_find_entry_result)

theorem dir_search_is_list_search_witness:
  "\<exists>r. dir_find_entry 2 demo_vol demo_rd demo_ata 2 (make_name83 (cstr ''a.txt'')) =
     Inr (r, Some (dirent_of (sector_bytes demo_root), (4, 0, 0)))"
proof -
  have nm: "make_name83 (cstr ''a.txt'') = make_name83 (cstr ''A.TXT'')" by code_simp
  have "dir_find_entry 2 demo_vol demo_rd demo_ata 2 (make_name83 (cstr ''a.txt'')) =
      Inr (find_result (make_name83 (cstr ''a.txt'')) (slot_bytes demo_rd demo_ata) (dir_slots demo_vol 512 [2]))"
    by (rule dir_search_is_list_search [OF demo_root_chain]) (simp_all add: demo_selectors)
  then show ?thesis using demo_lookup [of "make_name83 (cstr ''a.txt'')"] by (metis nm prod.collapse)
qed

subsection \<open>The allocation table\<close>

text \<open>C5: \<open>fat_write_fat_entry\<close> succeeds inside the table and changes exactly one entry: reading any
  cluster's entry afterwards gives the 28 bits written for that cluster and the old value for every
  other one, and no other sector changes.\<close>

theorem table_write_changes_one_entry:
  assumes dev: "reliable_device rd wr ok secsz cap" and "ok d" and "sector_geometry v secsz" and "fat_slot v cap clus"
  shows "\<exists>d'. fat_write_fat_entry v rd wr d clus val = Inr (0, d') \<and> ok d' \<and>
    (\<forall>c. fat_slot v cap c \<longrightarrow> fat_read_fat_entry v rd d' c =
       (if c = clus then Inr (val AND 0x0FFFFFFF) else fat_read_fat_entry v rd d c)) \<and>
    (\<forall>k. unat k < cap \<longrightarrow> k \<noteq> fat_sector_of v clus \<longrightarrow> rd d' k 1 = rd d k 1)"
proof -
  note bd = reliable_device.axioms(1) [OF dev]
  obtain d' where w: "fat_write_fat_entry v rd wr d clus val = Inr (0, d')"
    using reliable_device.fat_write_succeeds [OF assms] by blast
  show ?thesis
    using w block_device.fat_write_ok [OF bd assms(2-4) w] block_device.fat_write_read [OF bd assms(2-4) w]
      block_device.fat_write_frame [OF bd assms(2-4) w] by blast
qed

theorem table_write_changes_one_entry_witness:
  "\<exists>d'. fat_write_fat_entry demo_vol demo_rd demo_wr demo_ata 4 7 = Inr (0, d') \<and>
     fat_read_fat_entry demo_vol demo_rd d' 4 = Inr 7 \<and> fat_read_fat_entry demo_vol demo_rd d' 3 = Inr 0x0FFFFFFF"
proof -
  have s: "fat_slot demo_vol (2 ^ 28) c" if "c \<in> {3, 4}" for c
    using that valid_clus_slot [OF demo_layout, of c] by (auto simp: valid_clus_def)
  from table_write_changes_one_entry [OF demo_device _ vol_layout_geometry [OF demo_layout] s [of 4], of demo_ata 7]
  show ?thesis using s [of 3] s [of 4] demo_entry(1) [of 3] by (auto simp: demo_selectors)
qed

text \<open>C6: \<open>fat_alloc_free_cluster\<close> returns the least free cluster among its candidates, marks it as
  the end of a chain and leaves every other entry alone; when no candidate is free it returns 0
  and changes nothing.\<close>

theorem alloc_least_free:
  assumes dev: "reliable_device rd wr ok secsz cap" and "ok d" and l: "vol_layout v secsz cap N"
    and mx: "unat (alloc_max_clusters v) \<le> N + 2"
  shows "if \<exists>c\<in>set (cluster_candidates (alloc_max_clusters v)). fat_read_fat_entry v rd d c = Inr 0
    then \<exists>cl d'. fat_alloc_free_cluster v rd wr d = Inr (cl, d') \<and> cl \<noteq> 0 \<and> fat_read_fat_entry v rd d cl = Inr 0 \<and>
      (\<forall>j\<in>set (cluster_candidates (alloc_max_clusters v)). j < cl \<longrightarrow> fat_read_fat_entry v rd d j \<noteq> Inr 0) \<and>
      (\<forall>c. valid_clus N c \<longrightarrow> fat_read_fat_entry v rd d' c =
         (if c = cl then Inr 0x0FFFFFFF else fat_read_fat_entry v rd d c))
    else fat_alloc_free_cluster v rd wr d = Inr (0, d)"
proof -
  note bd = reliable_device.axioms(1) [OF dev] and g = vol_layout_geometry [OF l]
  let ?cs = "cluster_candidates (alloc_max_clusters v)"
  show ?thesis
  proof (cases "\<exists>c\<in>set ?cs. fat_read_fat_entry v rd d c = Inr 0")
    case True
    obtain cl d' where a: "fat_alloc_free_cluster v rd wr d = Inr (cl, d')" and v: "valid_clus N cl"
      and w: "fat_write_fat_entry v rd wr d cl 0x0FFFFFFF = Inr (0, d')"
      using reliable_device.fat_alloc_succeeds [OF dev assms(2) l mx True] by metis
    have "cl \<noteq> 0" using v by (auto simp: valid_clus_def)
    with fat_alloc_cases [OF sector_geometry_nonzero [OF g] a] a True
      block_device.fat_write_read [OF bd assms(2) g valid_clus_slot [OF l v] w] valid_clus_slot [OF l]
    show ?thesis by auto
  next
    case False
    have "\<forall>c\<in>set ?cs. fat_slot v cap c"
      using reliable_device.candidates_valid [OF dev mx] valid_clus_slot [OF l] by blast
    with reliable_device.alloc_loop_full [OF dev assms(2) g] False
    have "for_loop (alloc_body v rd wr) ?cs d = Inr (Next d)" by blast
    moreover have "sec_per_clus v \<noteq> 0" using l by (auto simp: vol_layout_def)
    ultimately show ?thesis using False by (simp add: fat_alloc_free_cluster_def)
  qed
qed

theorem alloc_least_free_witness:
  "\<exists>cl d'. fat_alloc_free_cluster demo_vol demo_rd demo_wr demo_ata = Inr (cl, d') \<and> cl \<noteq> 0"
proof -
  have "\<exists>c\<in>set (cluster_candidates (alloc_max_clusters demo_vol)).
      fat_read_fat_entry demo_vol demo_rd demo_ata c = Inr 0"
    using demo_candidates demo_entry(2) by blast
  with alloc_least_free [OF demo_device _ demo_layout, of demo_ata] show ?thesis
    by (auto simp: demo_selectors demo_alloc_max)
qed

subsection \<open>Reading a chain\<close>

text \<open>C7: reading a file. Along a finite chain of clusters whose sectors can be read,
  \<open>read_file_from_cluster\<close> returns 0 after as many rounds as the chain has clusters and stores the
  front of the contents of the chain, cut to the smaller of the file size and the capacity of the
  caller's buffer.\<close>

theorem read_file_follows_chain:
  assumes "fat_chain v rd d start cs" and "length cs < fuel" and "start \<noteq> 0"
    and "unat (bytes_per_sec v) = n" and "n \<le> MAX_SECTOR_SIZE"
    and "\<forall>c\<in>set cs. \<forall>l\<in>set (cluster_lbas v c). readable n rd d l"
  shows "read_file_from_cluster fuel v rd d start fsize mx =
     Inr (0, take (unat (min fsize mx)) (chain_data v rd d cs), min fsize mx)"
  using assms by (rule read_file_chain)

lemma demo_sector_5: "demo_rd demo_ata 5 1 = Some (replicate 512 0)"
proof -
  have "emu_media demo_ata 5 = replicate 256 0" by (simp add: emu_media_def demo_ata_def)
  then show ?thesis by (simp add: demo_read sector_bytes_zeros)
qed

theorem read_file_follows_chain_witness:
  "read_file_from_cluster 2 demo_vol demo_rd demo_ata 3 5 100 = Inr (0, replicate 5 0, 5)"
proof -
  have ls: "cluster_lbas demo_vol 3 = [5]" by (simp add: cluster_lbas_def demo_vol_def clus_to_lba_def)
  have "fat_chain demo_vol demo_rd demo_ata 3 [3]"
    by (rule chain_link [OF _ demo_entry(1) chain_end]) (simp_all add: is_end_cluster_def)
  from read_file_follows_chain [OF this, of 2 512 5 100] show ?thesis
    by (simp add: demo_selectors ls readable_def demo_sector_5 chain_data_def sectors_data_def min_def)
qed

text \<open>A chain that ends early: the size of the directory entry is reported as the number of bytes
  read although fewer bytes were stored.\<close>

lemma short_chain_reported_full:
  "is_end_cluster start \<Longrightarrow>
     read_file_from_cluster (Suc k) v rd d start fsize mx = Inr (0, [], min fsize mx)"
  by (auto simp: read_file_from_cluster_def chain_loop_def is_end_cluster_def min_def)

end
