(* ===== verification/User_Store.thy ===== *)
theory User_Store
  imports Users Fat_Theorems
begin

text \<open>
  The accounts file on a FAT32 volume: what the login code of \<open>kernel.c\<close> stores through the file
  system of \<open>fs_fat32.c\<close> when there is no accounts file, and what it reads the next time.
\<close>

context reliable_device
begin

lemma read_path_missing:
  assumes l: "vol_layout v secsz cap N" and dvd: "32 dvd secsz" and fs: "fs_type v = FAT_FS_FAT32"
    and steps: "path_steps 13 (skip_drive_prefix path) = map (\<lambda>c. (c, True)) ds @ [(f, False)]"
    and p: "dir_path v rd d secsz N fuel ds (root_clus v) dir vis"
    and r: "dir_readable v rd d secsz dir cs" and fuel: "length cs < fuel"
    and fresh: "lookup (slot_bytes rd d) (dir_slots v secsz cs) (make_name83 f) = None"
  shows "fat32_read_file_path fuel v rd d path mx = Inr (-2, [], Some 0, v)"
proof -
  from dir_find_lookup [OF l dvd r fuel, of f] fresh obtain e where
    "dir_find_entry fuel v rd d dir (make_name83 f) = Inr (e, None)" by auto
  then have "read_path_step fuel v rd d mx (f, False) dir = Inr (Return (-2, [], 0))"
    by (simp add: read_path_step_def)
  then show ?thesis using fs by (simp add: fat32_read_file_path_def steps read_path_prefix [OF p l dvd])
qed

end

abbreviation default_accounts :: "user_entry list" where
  "default_accounts \<equiv> [\<lparr>u_name = cstr ''admin'', u_pass = cstr ''1234''\<rparr>, \<lparr>u_name = cstr ''guest'', u_pass = []\<rparr>]"

lemma parse_default:
  "g_users s = [] \<Longrightarrow> user_parse_lines default_users_file s = s\<lparr>g_users := default_accounts\<rparr>"
  using parse_printed [of default_accounts s]
  by (simp add: default_file_printed [symmetric] del: concat.simps list.map) (simp add: user_ok_def cstr_def)

lemma default_file_string:
  "length default_users_file = 18" "file_string default_users_file (Some 18) = Inr default_users_file"
  by (simp_all add: default_users_file_def cstr_def file_string_def)

lemma user_file_steps:
  "path_steps 13 (skip_drive_prefix USER_FILE) =
     map (\<lambda>c. (c, True)) [cstr ''PARANOS'', cstr ''USERS''] @ [(cstr ''USERS.TXT'', False)]"
  by code_simp

lemma user_file_name: "make_name83 (cstr ''USERS.TXT'') ! 0 = 0x55"
  by code_simp

subsection \<open>A volume with the directories of the accounts\<close>

text \<open>The geometry of \<open>demo_vol\<close> with \<open>PARANOS\<close> in cluster 3 and \<open>PARANOS/USERS\<close>, empty, in cluster 4.
  Each directory is one sector with at most one entry.\<close>

definition one_dir :: "u16 list \<Rightarrow> u16 \<Rightarrow> u16 list" where
  "one_dir nm cl = nm @ [0x1020, 0, 0, 0, 0, 0, 0, 0, cl, 0, 0]"

definition store_disk :: "u32 \<Rightarrow> u16 list" where
  "store_disk l =
     (if l = 2 then demo_table @ [0xFFFF, 0x0FFF]
      else if l = 4 then one_dir [0x4150, 0x4152, 0x4F4E, 0x2053, 0x2020] 3
      else if l = 5 then one_dir [0x5355, 0x5245, 0x2053, 0x2020, 0x2020] 4
      else replicate 16 0)"

definition store_ata :: emu_ata where
  "store_ata = \<lparr>emu_regs = (\<lambda>_. 0), emu_phase = AtaIdle, emu_disk = store_disk\<rparr>"

lemma store_read:
  "demo_rd store_ata l 1 = Some (sector_bytes (take 256 (store_disk (l AND 0x0FFFFFFF) @ replicate 256 0)))"
  using emu.rd_one [of store_ata l] by (simp add: store_ata_def emu_media_def)

lemma store_bytes:
  "sector_bytes [0xFFFF, 0x0FFF] = [0xFF, 0xFF, 0xFF, 0x0F]"
  "sector_bytes (store_disk 4) = [0x50, 0x41, 0x52, 0x41, 0x4E, 0x4F, 0x53, 0x20, 0x20, 0x20, 0x20, 0x10, 0, 0, 0, 0,
     0, 0, 0, 0, 0, 0, 0, 0, 0, 0, 3, 0, 0, 0, 0, 0]"
  "sector_bytes (store_disk 5) = [0x55, 0x53, 0x45, 0x52, 0x53, 0x20, 0x20, 0x20, 0x20, 0x20, 0x20, 0x10, 0, 0, 0, 0,
     0, 0, 0, 0, 0, 0, 0, 0, 0, 0, 4, 0, 0, 0, 0, 0]"
  "sector_bytes (store_disk 6) = replicate 32 0"
  by code_simp+

lemma store_table: "demo_rd store_ata 2 1 = Some (sector_bytes demo_table @ [0xFF, 0xFF, 0xFF, 0x0F] @ replicate 492 0)"
proof -
  have "take 256 (store_disk 2 @ replicate 256 0) = demo_table @ [0xFFFF, 0x0FFF] @ replicate 246 0" by (simp add: store_disk_def demo_table_def)
  then show ?thesis by (simp add: store_read sector_bytes_append sector_bytes_zeros store_bytes del: append.simps)
qed

lemma store_dir:
  "l \<in> {4, 5, 6} \<Longrightarrow> demo_rd store_ata l 1 = Some (sector_bytes (store_disk l) @ replicate 480 0)"
  by (auto simp: store_read store_disk_def one_dir_def sector_bytes_append sector_bytes_zeros)

lemma length_store_dir: "l \<in> {4, 5, 6} \<Longrightarrow> length (sector_bytes (store_disk l)) = 32"
  by (auto simp: store_bytes)

lemma store_entry:
  "c \<in> {2, 3, 4} \<Longrightarrow> fat_read_fat_entry demo_vol demo_rd store_ata c = Inr 0x0FFFFFFF"
  "fat_read_fat_entry demo_vol demo_rd store_ata 5 = Inr 0"
  by (auto simp: fat_read_fat_entry_def demo_vol_def read_sector_def store_table demo_table_bytes ld_le_def
      Let_def unat_div unat_mod)

lemma store_chain: 
  assumes "c \<in> {2, 3, 4}" shows "dir_readable demo_vol demo_rd store_ata 512 c [c]"
proof -
  have "fat_chain demo_vol demo_rd store_ata c [c]"
    by (rule chain_link [OF _ store_entry(1) chain_end]) (use assms in \<open>auto simp: is_end_cluster_def\<close>)
  moreover have "set (cluster_lbas demo_vol c) \<subseteq> {4, 5, 6}" using assms by (auto simp: cluster_lbas_def demo_vol_def clus_to_lba_def)
  ultimately show ?thesis using length_store_dir by (auto simp: dir_readable_def readable_def store_dir)
qed

lemma store_slots: "c \<in> {2, 3, 4} \<Longrightarrow> dir_slots demo_vol 512 [c] = map (\<lambda>k. (c + 2, 0, 32 * k)) [0..<16]"
  by (auto simp: dir_slots_def demo_vol_def clus_to_lba_def offsets32_def comp_def)

lemma store_slot_bytes:
  assumes "l \<in> {4, 5, 6}"
  shows "slot_bytes demo_rd store_ata (l, 0, 0) = sector_bytes (store_disk l)"
    and "0 < k \<Longrightarrow> k < 16 \<Longrightarrow> slot_bytes demo_rd store_ata (l, 0, 32 * k) = replicate 32 0"
proof -
  show "slot_bytes demo_rd store_ata (l, 0, 0) = sector_bytes (store_disk l)"
    using store_dir [OF assms] length_store_dir [OF assms]
    by (simp add: slot_bytes_def slot_sec_def slot_lba_def slot_off_def)
  assume "0 < k" "k < 16"
  then obtain j where "k = Suc j" "j < 15" by (cases k) auto
  then show "slot_bytes demo_rd store_ata (l, 0, 32 * k) = replicate 32 0"
    using store_dir [OF assms] length_store_dir [OF assms]
    by (simp add: slot_bytes_def slot_sec_def slot_lba_def slot_off_def)
qed

lemma store_lookup:
  assumes "c \<in> {2, 3, 4}"
  shows "lookup (slot_bytes demo_rd store_ata) (dir_slots demo_vol 512 [c]) nm =
    (let b = sector_bytes (store_disk (c + 2)) in
     if b ! 0 \<noteq> 0 \<and> slot_named nm b then Some (dirent_of b, (c + 2, 0, 0)) else None)"
proof -
  have xs: "dir_slots demo_vol 512 [c] = (c + 2, 0, 0) # (c + 2, 0, 32) # map (\<lambda>k. (c + 2, 0, 32 * k)) [2..<16]"
    by (simp add: store_slots [OF assms] upt_rec)
  have l: "c + 2 \<in> {4, 5, 6}" using assms by auto
  show ?thesis using store_slot_bytes(1) [OF l] store_slot_bytes(2) [OF l, of 1] by (simp add: xs lookup_Cons Let_def)
qed

lemma store_names:
  "slot_named (make_name83 (cstr ''PARANOS'')) (sector_bytes (store_disk 4))"
  "slot_named (make_name83 (cstr ''USERS'')) (sector_bytes (store_disk 5))"
  "sector_bytes (store_disk 4) ! 0 \<noteq> 0" "sector_bytes (store_disk 5) ! 0 \<noteq> 0" "sector_bytes (store_disk 6) ! 0 = 0"
  by code_simp+

lemma store_dirents:
  "de_attr (dirent_of (sector_bytes (store_disk 4))) AND ATTR_DIR \<noteq> 0" "dirent_start_cluster (dirent_of (sector_bytes (store_disk 4))) = 3"
  "de_attr (dirent_of (sector_bytes (store_disk 5))) AND ATTR_DIR \<noteq> 0" "dirent_start_cluster (dirent_of (sector_bytes (store_disk 5))) = 4"
  by (simp_all add: store_bytes dirent_of_def dirent_start_cluster_def)

lemma store_path: "dir_path demo_vol demo_rd store_ata 512 8 8 [cstr ''PARANOS'', cstr ''USERS''] 2 4 [2, 3]"
proof -
  have "dir_path demo_vol demo_rd store_ata 512 8 8 [cstr ''USERS''] 3 4 ([3] @ [])"
    by (rule dir_path.down [OF store_chain]) (use dir_path.here in \<open>auto simp: valid_clus_def store_lookup store_names store_dirents\<close>)
  then have "dir_path demo_vol demo_rd store_ata 512 8 8 [cstr ''PARANOS'', cstr ''USERS''] 2 4 ([2] @ [3])"
    by (intro dir_path.down [OF store_chain]) (auto simp: valid_clus_def store_lookup store_names store_dirents)
  then show ?thesis by simp
qed

lemma store_terminated: "dir_terminated (slot_bytes demo_rd store_ata) (dir_slots demo_vol 512 [4])"
proof (rule dir_terminated_zeros)
  have "slot_bytes demo_rd store_ata (6, 0, 32 * k) ! 0 = 0" if "k < 16" for k
    using that store_slot_bytes(1) [of 6] store_slot_bytes(2) [of 6 k] store_names(5) by (cases "k = 0") auto
  then show "\<forall>z\<in>set (dir_slots demo_vol 512 [4]). slot_bytes demo_rd store_ata z ! 0 = 0" by (auto simp: store_slots)
qed

subsection \<open>The first boot\<close>

text \<open>C32: The first boot and the next one. On a well-formed FAT32 volume behind a reliable device that has the
  directory \<open>PARANOS/USERS\<close> but no accounts file, with a free slot and a free cluster, the
  account code writes the default file and starts with the two default accounts; run again
  on the disk it leaves, from an empty list, it reads the same accounts from the file and changes nothing on
  the disk.\<close>

theorem first_boot_stores_accounts:
  assumes dev: "reliable_device rd wr ok secsz cap" and ok: "ok d"
    and l: "vol_layout v secsz cap N" and dvd: "32 dvd secsz" and small: "secsz \<le> 512"
    and mx: "unat (alloc_max_clusters v) \<le> N + 2" and fs: "fs_type v = FAT_FS_FAT32"
    and p: "dir_path v rd d secsz N fuel [cstr ''PARANOS'', cstr ''USERS''] (root_clus v) dir vis"
    and cs: "\<forall>c\<in>set cs. valid_clus N c" and r: "dir_readable v rd d secsz dir cs" and dj: "set vis \<inter> set cs = {}"
    and fuel: "length cs < fuel" "2 \<le> fuel"
    and ter: "dir_terminated (slot_bytes rd d) (dir_slots v secsz cs)"
    and fresh: "lookup (slot_bytes rd d) (dir_slots v secsz cs) (make_name83 (cstr ''USERS.TXT'')) = None"
    and slot: "\<exists>x\<in>set (dir_slots v secsz cs). slot_free (slot_bytes rd d x)"
    and free: "\<exists>c\<in>set (cluster_candidates (alloc_max_clusters v)). fat_read_fat_entry v rd d c = Inr 0"
    and room: "18 \<le> unat (sec_per_clus v) * secsz"
    and s: "g_users s = []" "g_vol s = Some (v, d)"
  shows "\<exists>d'. ok d' \<and> load_users fuel rd wr s = Inr (s\<lparr>g_vol := Some (v, d'), g_users := default_accounts\<rparr>) \<and>
    (\<forall>t. g_users t = [] \<and> g_vol t = Some (v, d') \<longrightarrow> load_users fuel rd wr t = Inr (t\<lparr>g_users := default_accounts\<rparr>))"
proof -
  have miss: "fat32_read_file_path fuel v rd d USER_FILE 511 = Inr (-2, [], Some 0, v)"
    by (rule reliable_device.read_path_missing [OF dev l dvd fs user_file_steps p r fuel(1) fresh])
  have len: "min (unat (18 :: u32)) (unat (sec_per_clus v) * secsz) \<le> length default_users_file"
    by (simp add: default_file_string)
  have nm: "make_name83 (cstr ''USERS.TXT'') ! 0 \<noteq> 0" "make_name83 (cstr ''USERS.TXT'') ! 0 \<noteq> 0xE5"
    by (simp_all add: user_file_name)
  obtain d' n where w: "fat32_write_file_path fuel v rd wr d USER_FILE default_users_file 18 = Inr (0, v, d')" "ok d'"
    and n: "unat n = min (unat (18 :: u32)) (unat (sec_per_clus v) * secsz)"
    and rb: "\<forall>mx\<ge>n. fat32_read_file_path fuel v rd d' USER_FILE mx = Inr (0, take (unat n) default_users_file, Some n, v)"
    using reliable_device.write_new_read_path [OF dev ok l dvd small mx fs user_file_steps p cs r dj fuel ter fresh nm slot free len]
    by blast
  from n room have "unat n = unat (18 :: u32)" by simp
  then have n18: "n = 18" by (simp only: word_unat_eq_iff)
  have again: "fat32_read_file_path fuel v rd d' USER_FILE 511 = Inr (0, default_users_file, Some 18, v)"
    using rb unfolding n18 by (simp add: default_file_string)
  have "load_users fuel rd wr s = Inr (s\<lparr>g_vol := Some (v, d'), g_users := default_accounts\<rparr>)"
    by (simp add: load_users_def s miss w parse_default)
  moreover have "load_users fuel rd wr t = Inr (t\<lparr>g_users := default_accounts\<rparr>)"
    if "g_users t = []" "g_vol t = Some (v, d')" for t
    using that by (simp add: load_users_def again default_file_string parse_default)
  ultimately show ?thesis using w(2) by blast
qed

definition store_session :: "emu_ata session" where
  "store_session = \<lparr>g_users = [], g_login_selected = 0, g_login_hover = -1, g_login_pw = [], g_login_active = True,
     g_login_dirty = True, g_login_pw_focus = True, g_login_message = [], g_logged_in_user = cstr ''ADMIN'',
     g_desktop_dir = [], g_prog_dir = [], g_vol = Some (demo_vol, store_ata)\<rparr>"

theorem first_boot_stores_accounts_witness:
  "\<exists>d'. load_users 8 demo_rd demo_wr store_session =
      Inr (store_session\<lparr>g_vol := Some (demo_vol, d'), g_users := default_accounts\<rparr>) \<and>
    load_users 8 demo_rd demo_wr (store_session\<lparr>g_vol := Some (demo_vol, d')\<rparr>) =
      Inr (store_session\<lparr>g_vol := Some (demo_vol, d'), g_users := default_accounts\<rparr>)"
proof -
  have "\<exists>d'. emu_phase d' = AtaIdle \<and> load_users 8 demo_rd demo_wr store_session =
      Inr (store_session\<lparr>g_vol := Some (demo_vol, d'), g_users := default_accounts\<rparr>) \<and>
    (\<forall>t. g_users t = [] \<and> g_vol t = Some (demo_vol, d') \<longrightarrow> load_users 8 demo_rd demo_wr t = Inr (t\<lparr>g_users := default_accounts\<rparr>))"
  proof (rule first_boot_stores_accounts [where N = 8 and dir = 4 and vis = "[2, 3]" and cs = "[4]" and d = store_ata, OF demo_device _ demo_layout])
    show "dir_path demo_vol demo_rd store_ata 512 8 8 [cstr ''PARANOS'', cstr ''USERS''] (root_clus demo_vol) 4 [2, 3]"
      using store_path by (simp add: demo_selectors)
    show "\<exists>x\<in>set (dir_slots demo_vol 512 [4]). slot_free (slot_bytes demo_rd store_ata x)"
      using store_slot_bytes(1) [of 6] store_names(5) by (intro bexI [of _ "(6, 0, 0)"]) (auto simp: store_slots slot_free_def)
    show "\<exists>c\<in>set (cluster_candidates (alloc_max_clusters demo_vol)). fat_read_fat_entry demo_vol demo_rd store_ata c = Inr 0"
      using store_entry(2) by (intro bexI [of _ 5]) (simp_all add: demo_alloc_max cluster_candidates_def image_iff)
  qed (simp_all add: demo_selectors demo_alloc_max store_chain store_terminated store_lookup store_names valid_clus_def store_session_def, simp add: store_ata_def)
  then obtain d' where d: "load_users 8 demo_rd demo_wr store_session =
      Inr (store_session\<lparr>g_vol := Some (demo_vol, d'), g_users := default_accounts\<rparr>)"
    and again: "\<And>t. g_users t = [] \<Longrightarrow> g_vol t = Some (demo_vol, d') \<Longrightarrow> load_users 8 demo_rd demo_wr t = Inr (t\<lparr>g_users := default_accounts\<rparr>)"
    by blast
  show ?thesis using d again [of "store_session\<lparr>g_vol := Some (demo_vol, d')\<rparr>"] by (intro exI [of _ d']) (simp add: store_session_def)
qed

end
