(* ===== verification/Memory.thy ===== *)
theory Memory
  imports Kernel_Prelude
begin

text \<open>
  The two allocators of the kernel: the heap of \<open>kmalloc\<close> in \<open>src/kernel/kernel.c\<close> and the page pool
  of \<open>src/kernel/pmm.c\<close>. Both only ever move a cursor forward; the locale \<open>bump_allocator\<close> states
  that contract and derives from it that the blocks of any sequence of requests are disjoint and
  inside the pool. Both allocators are shown to honour it. The linker symbols, the direct-map offset
  and the memory map handed over by the boot loader are parameters.
\<close>

text \<open>The allocator of the boot loader, with its own state: a request is a number of bytes.\<close>

type_synonym 'e ext_alloc = "'e \<Rightarrow> u64 \<Rightarrow> u64 \<times> 'e"

subsection \<open>The contract of a bump allocator\<close>

text \<open>A sequence of requests, with the blocks (address, size) of those that were served.\<close>

fun alloc_run :: "(u64 \<Rightarrow> 's \<Rightarrow> u64 \<times> 's) \<Rightarrow> u64 list \<Rightarrow> 's \<Rightarrow> (u64 \<times> u64) list \<times> 's" where
  "alloc_run alloc [] s = ([], s)"
| "alloc_run alloc (n # ns) s =
     (let (p, s') = alloc n s; (bs, s'') = alloc_run alloc ns s'
      in (if p = 0 then bs else (p, n) # bs, s''))"

text \<open>Blocks in ascending order without overlap, from \<open>lo\<close> up to \<open>hi\<close>.\<close>

fun blocks_between :: "nat \<Rightarrow> (u64 \<times> u64) list \<Rightarrow> nat \<Rightarrow> bool" where
  "blocks_between lo [] hi \<longleftrightarrow> lo \<le> hi"
| "blocks_between lo ((p, n) # bs) hi \<longleftrightarrow> lo \<le> unat p \<and> blocks_between (unat p + unat n) bs hi"

lemma blocks_between_mono: "lo \<le> lo' \<Longrightarrow> blocks_between lo' bs hi \<Longrightarrow> blocks_between lo bs hi"
  by (cases bs) auto

lemma blocks_between_le: "blocks_between lo bs hi \<Longrightarrow> lo \<le> hi"
  by (induction lo bs hi rule: blocks_between.induct) auto

lemma blocks_between_inside:
  "blocks_between lo bs hi \<Longrightarrow> (p, n) \<in> set bs \<Longrightarrow> lo \<le> unat p \<and> unat p + unat n \<le> hi"
proof (induction lo bs hi rule: blocks_between.induct)
  case (2 lo q m bs hi)
  then show ?case using blocks_between_le [of "unat q + unat m" bs hi] by auto
qed simp

lemma blocks_between_disjoint:
  "blocks_between lo bs hi \<Longrightarrow> i < j \<Longrightarrow> j < length bs \<Longrightarrow>
     unat (fst (bs ! i)) + unat (snd (bs ! i)) \<le> unat (fst (bs ! j))"
proof (induction lo bs hi arbitrary: i j rule: blocks_between.induct)
  case (2 lo q m bs hi)
  obtain k where k: "j = Suc k" "k < length bs" using 2(3,4) by (cases j) auto
  show ?case
  proof (cases i)
    case 0
    have "bs ! k \<in> set bs" using k by simp
    with blocks_between_inside [of "unat q + unat m" bs hi "fst (bs ! k)" "snd (bs ! k)"] 2(2)
    have "unat q + unat m \<le> unat (fst (bs ! k))" by simp
    then show ?thesis by (simp add: 0 k)
  next
    case (Suc i')
    with 2 k show ?thesis by auto
  qed
qed simp

locale bump_allocator =
  fixes alloc :: "u64 \<Rightarrow> 's \<Rightarrow> u64 \<times> 's"
    and cursor :: "'s \<Rightarrow> nat"
    and inv :: "'s \<Rightarrow> bool"
    and ok_size :: "u64 \<Rightarrow> bool"
  assumes alloc_inv: "inv s \<Longrightarrow> ok_size n \<Longrightarrow> alloc n s = (p, s') \<Longrightarrow> inv s'"
    and alloc_some: "inv s \<Longrightarrow> ok_size n \<Longrightarrow> alloc n s = (p, s') \<Longrightarrow> p \<noteq> 0 \<Longrightarrow>
      cursor s \<le> unat p \<and> cursor s' = unat p + unat n"
    and alloc_none: "inv s \<Longrightarrow> ok_size n \<Longrightarrow> alloc n s = (0, s') \<Longrightarrow> cursor s' = cursor s"
begin

lemma run_blocks:
  assumes "inv s" and "\<forall>n\<in>set ns. ok_size n" and "alloc_run alloc ns s = (bs, s')"
  shows "blocks_between (cursor s) bs (cursor s') \<and> inv s'"
  using assms
proof (induction ns arbitrary: s bs)
  case Nil
  then show ?case by auto
next
  case (Cons n ns)
  obtain p s1 where a: "alloc n s = (p, s1)" by (cases "alloc n s")
  obtain bs1 s2 where r: "alloc_run alloc ns s1 = (bs1, s2)" by (cases "alloc_run alloc ns s1")
  have n: "ok_size n" using Cons.prems by simp
  from Cons.prems a r have res: "bs = (if p = 0 then bs1 else (p, n) # bs1)" "s' = s2" by auto
  from Cons.IH [OF alloc_inv [OF Cons.prems(1) n a]] r res(2) Cons.prems(2)
  have IH: "blocks_between (cursor s1) bs1 (cursor s2)" "inv s2" by auto
  show ?case
    using IH res alloc_some [OF Cons.prems(1) n a] alloc_none [OF Cons.prems(1) n] a
    by (cases "p = 0") auto
qed

end

subsection \<open>Rounding up\<close>

definition align_up :: "u64 \<Rightarrow> u64 \<Rightarrow> u64" where
  "align_up v a = (v + (a - 1)) AND NOT (a - 1)"

lemma and_not_mask: "w AND NOT (mask k) = push_bit k (drop_bit k (w :: 'a::len word))"
  by (rule bit_word_eqI) (auto simp: bit_simps)

lemma unat_align_up:
  assumes "k < 64" and "unat v + (2 ^ k - 1) < 2 ^ 64"
  shows "unat (align_up v (2 ^ k)) = (unat v + (2 ^ k - 1)) div 2 ^ k * 2 ^ k"
proof -
  have m: "(2 ^ k - 1 :: u64) = mask k" by (simp add: mask_eq_exp_minus_1)
  have um: "unat (mask k :: u64) = 2 ^ k - 1"
  proof -
    have "unat (mask k :: u64) = take_bit k (unat (- 1 :: u64))"
      unfolding unsigned_take_bit_eq [symmetric] by (simp add: take_bit_minus_one_eq_mask)
    also have "\<dots> = mask k" using assms(1) by (simp add: unsigned_minus_1_eq_mask take_bit_of_mask min_def)
    finally show ?thesis by (simp add: mask_eq_exp_minus_1)
  qed
  have w: "unat (v + mask k) = unat v + (2 ^ k - 1)" using assms(2) um by (simp add: unat_word_ariths)
  let ?q = "(unat v + (2 ^ k - 1)) div 2 ^ k"
  have "unat (drop_bit k (v + mask k)) = ?q" by (simp only: unat_drop_bit_eq drop_bit_nat_def w)
  moreover have "?q * 2 ^ k \<le> unat v + (2 ^ k - 1)" by simp
  moreover have "unat (2 ^ k :: u64) = 2 ^ k"
  proof -
    have "(2 :: nat) ^ k < 2 ^ 64" using assms(1) by (intro power_strict_increasing) simp_all
    then show ?thesis using unat_of_nat [of "2 ^ k", where 'a = 64] by simp
  qed
  moreover have "?q * 2 ^ k < 2 ^ 64" using calculation(2) assms(2) by (rule order_le_less_trans)
  ultimately have "unat (push_bit k (drop_bit k (v + mask k))) = ?q * 2 ^ k"
    by (simp add: push_bit_eq_mult unat_word_ariths)
  then show ?thesis unfolding align_up_def m and_not_mask .
qed

lemma align_up_bounds:
  assumes "k < 64" and "unat v + (2 ^ k - 1) < 2 ^ 64"
  shows "unat v \<le> unat (align_up v (2 ^ k))" and "unat (align_up v (2 ^ k)) < unat v + 2 ^ k"
    and "2 ^ k dvd unat (align_up v (2 ^ k))"
proof -
  let ?a = "2 ^ k :: nat"
  have pos: "0 < ?a" by simp
  have "(unat v + (?a - 1)) div ?a * ?a + (unat v + (?a - 1)) mod ?a = unat v + (?a - 1)"
    by (rule div_mult_mod_eq)
  moreover have "(unat v + (?a - 1)) mod ?a < ?a" by simp
  ultimately show "unat v \<le> unat (align_up v (2 ^ k))" and "unat (align_up v (2 ^ k)) < unat v + 2 ^ k"
    unfolding unat_align_up [OF assms] using pos by linarith+
  show "2 ^ k dvd unat (align_up v (2 ^ k))" unfolding unat_align_up [OF assms] by simp
qed

subsection \<open>The kernel heap\<close>

record kheap =
  kheap_begin :: u64
  kheap_end :: u64
  kheap_brk :: u64

abbreviation PAGE_SIZE :: u64 where "PAGE_SIZE \<equiv> 4096"

definition kheap_init :: "u64 \<Rightarrow> kheap" where
  "kheap_init kernel_high_end =
     (let hb = align_up kernel_high_end PAGE_SIZE
      in \<lparr>kheap_begin = hb, kheap_end = hb + 8192 * PAGE_SIZE, kheap_brk = hb\<rparr>)"

definition kmalloc :: "u64 \<Rightarrow> kheap \<Rightarrow> u64 \<times> kheap" where
  "kmalloc sz h =
     (if sz = 0 then (0, h) else
      let p = align_up (kheap_brk h) 8
      in if p + sz > kheap_end h then (0, h) else (p, h\<lparr>kheap_brk := p + sz\<rparr>))"

text \<open>The heap lies in the address space with room for the rounding, and the break in the heap.\<close>

definition kheap_ok :: "u64 \<Rightarrow> kheap \<Rightarrow> bool" where
  "kheap_ok e h \<longleftrightarrow> kheap_end h = e \<and> kheap_begin h \<noteq> 0 \<and> kheap_begin h \<le> kheap_brk h \<and> kheap_brk h \<le> e \<and>
     unat e + 8 < 2 ^ 64"

text \<open>A request that cannot make the end of the block wrap around.\<close>

definition kmalloc_size_ok :: "u64 \<Rightarrow> u64 \<Rightarrow> bool" where
  "kmalloc_size_ok e sz \<longleftrightarrow> unat e + 8 + unat sz < 2 ^ 64"

lemma kmalloc_cases:
  assumes ok: "kheap_ok e h" and sz: "kmalloc_size_ok e sz"
  shows "(\<exists>p. kmalloc sz h = (p, h\<lparr>kheap_brk := p + sz\<rparr>) \<and> p \<noteq> 0 \<and> sz \<noteq> 0 \<and> 8 dvd unat p \<and>
       unat (kheap_brk h) \<le> unat p \<and> unat p < unat (kheap_brk h) + 8 \<and>
       unat (p + sz) = unat p + unat sz \<and> p + sz \<le> e) \<or>
    (kmalloc sz h = (0, h) \<and> (sz = 0 \<or> unat e < unat (kheap_brk h) + 8 + unat sz))"
proof -
  let ?p = "align_up (kheap_brk h) 8"
  have brk: "unat (kheap_brk h) \<le> unat e" using ok by (simp add: kheap_ok_def word_le_nat_alt)
  have r: "unat (kheap_brk h) + (2 ^ 3 - 1) < 2 ^ 64" using ok brk by (simp add: kheap_ok_def)
  note b = align_up_bounds [of 3 "kheap_brk h", OF _ r, simplified]
  have sum: "unat (?p + sz) = unat ?p + unat sz"
    using b(2) brk sz by (simp add: kmalloc_size_ok_def unat_word_ariths)
  have "0 < unat (kheap_brk h)"
    using ok unat_gt_0 [of "kheap_begin h"] by (auto simp: kheap_ok_def word_le_nat_alt)
  then have "?p \<noteq> 0" using b(1) by (metis le_zero_eq unat_0 not_gr_zero)
  then show ?thesis
    using b sum ok by (auto simp: kmalloc_def Let_def word_le_nat_alt word_less_nat_alt not_less kheap_ok_def)
qed

interpretation kh: bump_allocator kmalloc "\<lambda>h. unat (kheap_brk h)" "kheap_ok e" "kmalloc_size_ok e" for e
proof (unfold_locales, goal_cases)
  case (1 s n p s')
  then show ?case using kmalloc_cases [OF 1(1,2)]
    by (auto simp: kheap_ok_def word_le_nat_alt)
next
  case (2 s n p s')
  then show ?case using kmalloc_cases [OF 2(1,2)] by auto
next
  case (3 s n s')
  then show ?case using kmalloc_cases [OF 3(1,2)] by auto
qed

text \<open>A request so large that the end of its block wraps around is served, and moves the break
  back below the block.\<close>

lemma kmalloc_wraps:
  "kmalloc 0xFFFFFFFFFFFFFF00 \<lparr>kheap_begin = 0x200000, kheap_end = 0x210000, kheap_brk = 0x200100\<rparr> =
     (0x200100, \<lparr>kheap_begin = 0x200000, kheap_end = 0x210000, kheap_brk = 0x200000\<rparr>)"
  by (simp add: kmalloc_def align_up_def)

subsection \<open>The page pool\<close>

record pmm =
  fb_base :: u64
  fb_limit :: u64
  fb_cursor :: u64
  fb_total_pages :: u32
  memmap_total_pages :: u32
  memmap_total_ready :: bool
  boot_total_pages :: u32
  pmm_mem :: "u64 \<Rightarrow> u8"

text \<open>The parameters: the end of the kernel image (a linker symbol), the offset of the direct map
  (\<open>vmm_hhdm_offset\<close>) and the memory map of the boot loader as pairs of type and length.\<close>

record pmm_env =
  kernel_phys_end :: u64
  hhdm_offset :: u64
  raw_memmap :: "(u32 \<times> u64) list"

abbreviation FALLBACK_POOL_SIZE :: u64 where "FALLBACK_POOL_SIZE \<equiv> 64 * 1024 * 1024"

definition ensure_fallback_pool :: "pmm_env \<Rightarrow> pmm \<Rightarrow> pmm" where
  "ensure_fallback_pool env m =
     (if fb_base m \<noteq> 0 then m else
      let b = align_up (kernel_phys_end env) PAGE_SIZE; l = b + FALLBACK_POOL_SIZE
      in m\<lparr>fb_base := b, fb_limit := l, fb_cursor := b, fb_total_pages := ucast ((l - b) div PAGE_SIZE)\<rparr>)"

abbreviation counted_types :: "u32 list" where
  "counted_types \<equiv> [1, 0x1000, 0x1001, 0x1002, 0x2000]"

definition compute_memmap_total :: "pmm_env \<Rightarrow> pmm \<Rightarrow> pmm" where
  "compute_memmap_total env m =
     (if boot_total_pages m \<noteq> 0
      then m\<lparr>memmap_total_pages := boot_total_pages m, memmap_total_ready := True\<rparr>
      else if memmap_total_ready m then m
      else let sum = fold (\<lambda>(ty, len) acc. if ty \<in> set counted_types then acc + len else acc) (raw_memmap env) 0
           in if sum > 0
              then m\<lparr>memmap_total_pages := ucast (sum div PAGE_SIZE), memmap_total_ready := True\<rparr>
              else m)"

definition pmm_set_boot_total_pages :: "u32 \<Rightarrow> pmm \<Rightarrow> pmm" where
  "pmm_set_boot_total_pages pages m = m\<lparr>boot_total_pages := pages\<rparr>"

definition pmm_boot_total_pages :: "pmm \<Rightarrow> u32" where
  "pmm_boot_total_pages m = boot_total_pages m"

definition pmm_init :: "pmm_env \<Rightarrow> pmm \<Rightarrow> pmm" where
  "pmm_init env m = ensure_fallback_pool env m"

text \<open>\<open>memset(va, 0, n)\<close>\<close>

definition zero_range :: "u64 \<Rightarrow> u64 \<Rightarrow> (u64 \<Rightarrow> u8) \<Rightarrow> u64 \<Rightarrow> u8" where
  "zero_range va n mem a = (if a - va < n then 0 else mem a)"

definition pmm_alloc :: "pmm_env \<Rightarrow> pmm \<Rightarrow> u64 \<times> pmm" where
  "pmm_alloc env m0 =
     (let m = ensure_fallback_pool env m0
      in if fb_cursor m + PAGE_SIZE > fb_limit m then (0, m)
         else let phys = fb_cursor m; va = phys + hhdm_offset env
              in (va, m\<lparr>fb_cursor := phys + PAGE_SIZE, pmm_mem := zero_range va PAGE_SIZE (pmm_mem m)\<rparr>))"

definition pmm_alloc_phys :: "pmm_env \<Rightarrow> pmm \<Rightarrow> u32 \<times> pmm" where
  "pmm_alloc_phys env m =
     (let (va, m') = pmm_alloc env m
      in if va = 0 then (0, m')
         else if va \<ge> hhdm_offset env then (ucast (va - hhdm_offset env), m')
         else (ucast va, m'))"

definition pmm_alloc_low_4m :: "pmm_env \<Rightarrow> pmm \<Rightarrow> u64 \<times> pmm" where
  "pmm_alloc_low_4m env m = pmm_alloc env m"

definition pmm_free_page :: "u64 \<Rightarrow> pmm \<Rightarrow> pmm" where
  "pmm_free_page phys_addr m = m"

definition pmm_reserve_range :: "u64 \<Rightarrow> u64 \<Rightarrow> pmm \<Rightarrow> pmm" where
  "pmm_reserve_range phys_begin phys_end m = m"

definition pmm_release_range :: "u64 \<Rightarrow> u64 \<Rightarrow> pmm \<Rightarrow> pmm" where
  "pmm_release_range phys_begin phys_end m = m"

definition pmm_alloc_contig :: "pmm_env \<Rightarrow> u32 \<Rightarrow> pmm \<Rightarrow> u64 \<times> pmm" where
  "pmm_alloc_contig env pages m0 =
     (let m = ensure_fallback_pool env m0; need = ucast pages * PAGE_SIZE
      in if fb_cursor m + need > fb_limit m then (0, m)
         else let phys = fb_cursor m; va = phys + hhdm_offset env
              in (va, m\<lparr>fb_cursor := phys + need, pmm_mem := zero_range va need (pmm_mem m)\<rparr>))"

definition pmm_free_count :: "pmm_env \<Rightarrow> pmm \<Rightarrow> u32 \<times> pmm" where
  "pmm_free_count env m0 =
     (let m = compute_memmap_total env (ensure_fallback_pool env m0);
          fb_used = (if fb_cursor m > fb_base m then ucast ((fb_cursor m - fb_base m) div PAGE_SIZE) else 0)
      in (if memmap_total_pages m = 0
          then (if fb_limit m > fb_cursor m then ucast ((fb_limit m - fb_cursor m) div PAGE_SIZE) else 0)
          else if memmap_total_pages m > fb_used then memmap_total_pages m - fb_used else 0, m))"

definition pmm_total_count :: "pmm_env \<Rightarrow> pmm \<Rightarrow> u32 \<times> pmm" where
  "pmm_total_count env m0 =
     (let m = compute_memmap_total env (ensure_fallback_pool env m0)
      in (if memmap_total_pages m \<noteq> 0 then memmap_total_pages m else fb_total_pages m, m))"

text \<open>The pool as the code sets it up: page-aligned, 64 MiB long, its direct-map image inside the
  address space.\<close>

definition pmm_ok :: "pmm_env \<Rightarrow> pmm \<Rightarrow> bool" where
  "pmm_ok env m \<longleftrightarrow>
     fb_base m \<noteq> 0 \<and> fb_limit m = fb_base m + FALLBACK_POOL_SIZE \<and> 4096 dvd unat (fb_base m) \<and>
     4096 dvd unat (fb_cursor m) \<and> fb_base m \<le> fb_cursor m \<and> fb_cursor m \<le> fb_limit m \<and>
     unat (fb_base m) + unat (hhdm_offset env) + 2 ^ 45 < 2 ^ 64"

definition pages_of_bytes :: "u64 \<Rightarrow> u32" where
  "pages_of_bytes n = ucast (n div PAGE_SIZE)"

text \<open>A request of whole pages, in bytes, with the physical address of the block.\<close>

definition pool_request :: "pmm_env \<Rightarrow> u64 \<Rightarrow> pmm \<Rightarrow> u64 \<times> pmm" where
  "pool_request env n m =
     (let (va, m') = pmm_alloc_contig env (pages_of_bytes n) m in (if va = 0 then 0 else va - hhdm_offset env, m'))"

definition page_request :: "u64 \<Rightarrow> bool" where
  "page_request n \<longleftrightarrow> 4096 dvd unat n \<and> unat n div 4096 < 2 ^ 32"

lemma pool_request_need:
  "page_request n \<Longrightarrow> ucast (pages_of_bytes n) * PAGE_SIZE = n"
proof -
  assume n: "page_request n"
  have "unat (n div PAGE_SIZE) < 2 ^ 32" using n by (simp add: page_request_def unat_div)
  then have "unat (pages_of_bytes n) = unat n div 4096"
    unfolding pages_of_bytes_def by (subst unsigned_ucast_eq) (simp add: unat_div take_bit_nat_eq_self)
  then have "unat (ucast (pages_of_bytes n) :: u64) = unat n div 4096" by (simp add: unat_ucast_up)
  moreover have "unat n div 4096 * 4096 = unat n" using n by (simp add: page_request_def)
  ultimately show ?thesis using unat_bound [of n] by (simp add: word_unat_eq_iff unat_word_ariths)
qed

lemma pmm_ok_numbers:
  assumes "pmm_ok env m"
  shows "unat (fb_limit m) = unat (fb_base m) + 2 ^ 26" and "0 < unat (fb_base m)"
    and "unat (fb_base m) \<le> unat (fb_cursor m)" and "unat (fb_cursor m) \<le> unat (fb_limit m)"
    and "unat (fb_base m) + unat (hhdm_offset env) + 2 ^ 45 < 2 ^ 64"
    and "ensure_fallback_pool env m = m"
  using assms
  by (auto simp: pmm_ok_def unat_word_ariths unat_gt_0 word_le_nat_alt ensure_fallback_pool_def)

lemma contig_cases:
  assumes ok: "pmm_ok env m" and need: "need = ucast pages * PAGE_SIZE"
  shows "(pmm_alloc_contig env pages m =
       (fb_cursor m + hhdm_offset env,
        m\<lparr>fb_cursor := fb_cursor m + need, pmm_mem := zero_range (fb_cursor m + hhdm_offset env) need (pmm_mem m)\<rparr>) \<and>
      unat (fb_cursor m + hhdm_offset env) = unat (fb_cursor m) + unat (hhdm_offset env) \<and>
      fb_cursor m + hhdm_offset env \<noteq> 0 \<and>
      unat (fb_cursor m + need) = unat (fb_cursor m) + unat need \<and> fb_cursor m + need \<le> fb_limit m) \<or>
    (pmm_alloc_contig env pages m = (0, m) \<and> unat (fb_limit m) < unat (fb_cursor m) + unat need)"
proof -
  note n = pmm_ok_numbers [OF ok]
  have "unat need = unat pages * 4096"
    using unat_bound [of pages] unfolding need by (simp add: unat_word_ariths unat_ucast_up)
  then have small: "unat need < 2 ^ 44" using unat_bound [of pages] by simp
  have c: "unat (fb_cursor m + need) = unat (fb_cursor m) + unat need"
    using n small by (simp add: unat_word_ariths)
  have v: "unat (fb_cursor m + hhdm_offset env) = unat (fb_cursor m) + unat (hhdm_offset env)"
    using n by (simp add: unat_word_ariths)
  then have "fb_cursor m + hhdm_offset env \<noteq> 0" using n(2,3) by (metis add_gr_0 le_zero_eq not_gr_zero unat_0)
  then show ?thesis
    using c v n(6) by (auto simp: pmm_alloc_contig_def need [symmetric] Let_def word_less_nat_alt word_le_nat_alt not_less)
qed

lemma pmm_alloc_is_contig: "pmm_alloc env m = pmm_alloc_contig env 1 m"
  by (simp add: pmm_alloc_def pmm_alloc_contig_def Let_def)

text \<open>Every operation keeps the pool well-formed.\<close>

lemma contig_ok:
  assumes ok: "pmm_ok env m" and r: "pmm_alloc_contig env pages m = (va, m')"
  shows "pmm_ok env m'"
proof -
  define need :: u64 where "need = ucast pages * PAGE_SIZE"
  have "unat need = unat pages * 4096"
    using unat_bound [of pages] by (simp add: need_def unat_word_ariths unat_ucast_up)
  then have "4096 dvd unat need" by simp
  with contig_cases [OF ok need_def] r ok show ?thesis
    by (auto simp: pmm_ok_def word_le_nat_alt)
qed

lemma pool_request_cases:
  assumes ok: "pmm_ok env m" and n: "page_request n" and r: "pool_request env n m = (p, m')"
  shows "(p = fb_cursor m \<and> unat (fb_cursor m') = unat p + unat n) \<or> (p = 0 \<and> m' = m)"
  using contig_cases [OF ok pool_request_need [OF n, symmetric]] r
  by (auto simp: pool_request_def split: prod.splits if_splits)

interpretation pool: bump_allocator "pool_request env" "\<lambda>m. unat (fb_cursor m)" "pmm_ok env" page_request for env
proof (unfold_locales, goal_cases)
  case (1 s n p s')
  then show ?case using contig_ok [OF 1(1)] by (auto simp: pool_request_def split: prod.splits)
next
  case (2 s n p s')
  then show ?case using pool_request_cases [OF 2(1-3)] by auto
next
  case (3 s n s')
  then show ?case using pool_request_cases [OF 3(1-3)] pmm_ok_numbers [OF 3(1)] by auto
qed

subsection \<open>Properties\<close>

text \<open>C15: the blocks that a sequence of \<open>kmalloc\<close> calls returns are pairwise disjoint and lie between
  the break before the calls and the end of the heap, when each request plus the end of the heap and the eight
  bytes of alignment stays below \<open>2 ^ 64\<close> (a larger one wraps around the address space, as shown above).\<close>

theorem kmalloc_blocks_disjoint:
  assumes "kheap_ok e h" and "\<forall>n\<in>set ns. kmalloc_size_ok e n" and "alloc_run kmalloc ns h = (bs, h')"
  shows "(\<forall>i j. i < j \<longrightarrow> j < length bs \<longrightarrow> unat (fst (bs ! i)) + unat (snd (bs ! i)) \<le> unat (fst (bs ! j))) \<and>
    (\<forall>(p, n)\<in>set bs. unat (kheap_brk h) \<le> unat p \<and> unat p + unat n \<le> unat e)"
proof -
  note r = kh.run_blocks [OF assms]
  have "unat (kheap_brk h') \<le> unat e" using r by (simp add: kheap_ok_def word_le_nat_alt)
  then show ?thesis
    using blocks_between_disjoint [OF conjunct1 [OF r]] blocks_between_inside [OF conjunct1 [OF r]]
    by (fastforce simp: case_prod_beta)
qed

theorem kmalloc_blocks_disjoint_witness:
  "\<exists>bs h'. alloc_run kmalloc [100, 3, 0x100000, 5] \<lparr>kheap_begin = 4096, kheap_end = 8192, kheap_brk = 4099\<rparr> = (bs, h') \<and>
     length bs = 3 \<and> unat (fst (bs ! 0)) + unat (snd (bs ! 0)) \<le> unat (fst (bs ! 2))"
proof -
  let ?h = "\<lparr>kheap_begin = 4096, kheap_end = 8192, kheap_brk = 4099\<rparr>"
  obtain bs h' where r: "alloc_run kmalloc [100, 3, 0x100000, 5] ?h = (bs, h')" by fastforce
  have "length (fst (alloc_run kmalloc [100, 3, 0x100000, 5] ?h)) = 3" by code_simp
  then have l: "length bs = 3" using r by simp
  have "kheap_ok 8192 ?h" by (simp add: kheap_ok_def)
  from kmalloc_blocks_disjoint [OF this _ r] l r show ?thesis by (simp add: kmalloc_size_ok_def)
qed

text \<open>\<open>kmalloc\<close> returns an 8-aligned address, and returns null only for a request of zero bytes or
  one that (with up to 7 bytes of rounding) exceeds what is left; the heap stays well-formed.\<close>

theorem kmalloc_result:
  assumes "kheap_ok e h" and "kmalloc_size_ok e sz" and "kmalloc sz h = (p, h')"
  shows "kheap_ok e h' \<and> 8 dvd unat p \<and>
    (p = 0 \<longrightarrow> h' = h \<and> (sz = 0 \<or> unat e < unat (kheap_brk h) + 8 + unat sz)) \<and>
    (p \<noteq> 0 \<longrightarrow> unat (kheap_brk h) \<le> unat p \<and> unat (kheap_brk h') = unat p + unat sz)"
  using kmalloc_cases [OF assms(1,2)] assms(3) kh.alloc_inv [OF assms] by auto

theorem kmalloc_result_witness:
  "\<exists>p h'. kmalloc 10 \<lparr>kheap_begin = 4096, kheap_end = 8192, kheap_brk = 4099\<rparr> = (p, h') \<and> 8 dvd unat p"
proof -
  let ?h = "\<lparr>kheap_begin = 4096, kheap_end = 8192, kheap_brk = 4099\<rparr>"
  obtain p h' where r: "kmalloc 10 ?h = (p, h')" by fastforce
  have "kheap_ok 8192 ?h" by (simp add: kheap_ok_def)
  from kmalloc_result [OF this _ r] r show ?thesis by (simp add: kmalloc_size_ok_def)
qed

text \<open>C16: \<open>pmm_alloc_contig\<close> hands out a block of the pool that no earlier block overlaps: it starts at the
  cursor, which moves past it, it is page-aligned and inside the pool, every byte of it is zero and
  every byte outside it is untouched; when the pool is too small it returns null and changes
  nothing.\<close>

theorem pmm_contig_block:
  assumes ok: "pmm_ok env m" and r: "pmm_alloc_contig env pages m = (va, m')"
  shows "pmm_ok env m' \<and>
    (if va = 0 then m' = m \<and> unat (fb_limit m) < unat (fb_cursor m) + unat pages * 4096
     else unat va = unat (fb_cursor m) + unat (hhdm_offset env) \<and>
       unat (fb_cursor m') = unat (fb_cursor m) + unat pages * 4096 \<and> 4096 dvd unat (fb_cursor m) \<and>
       unat (fb_base m) \<le> unat (fb_cursor m) \<and> unat (fb_cursor m') \<le> unat (fb_limit m) \<and>
       (\<forall>a. pmm_mem m' a = (if unat va \<le> unat a \<and> unat a < unat va + unat pages * 4096 then 0 else pmm_mem m a)))"
proof -
  define need :: u64 where "need = ucast pages * PAGE_SIZE"
  have nd: "unat need = unat pages * 4096"
    using unat_bound [of pages] by (simp add: need_def unat_word_ariths unat_ucast_up)
  have range: "a - va < need \<longleftrightarrow> unat va \<le> unat a \<and> unat a < unat va + unat need"
    if "unat va + unat need < 2 ^ 64" for a
  proof (cases "va \<le> a")
    case True
    then show ?thesis by (auto simp: word_less_nat_alt word_le_nat_alt unat_sub)
  next
    case False
    then have "unat (a - va) = 2 ^ 64 - unat va + unat a"
      using unat_bound [of va] by (simp add: unat_sub_if' word_le_nat_alt)
    with False that show ?thesis by (auto simp: word_less_nat_alt word_le_nat_alt)
  qed
  note n = pmm_ok_numbers [OF ok]
  have small: "unat need < 2 ^ 44" using unat_bound [of pages] nd by simp
  note ok' = contig_ok [OF ok r]
  from contig_cases [OF ok need_def] show ?thesis
  proof (elim disjE conjE, goal_cases)
    case 1
    from 1(1) r have va: "va = fb_cursor m + hhdm_offset env"
      and m': "m' = m\<lparr>fb_cursor := fb_cursor m + need, pmm_mem := zero_range va need (pmm_mem m)\<rparr>" by auto
    have uva: "unat va = unat (fb_cursor m) + unat (hhdm_offset env)" using 1(2) va by simp
    have "unat va + unat need < 2 ^ 64" using uva n small by simp
    note range [OF this]
    then have "\<forall>a. pmm_mem m' a = (if unat va \<le> unat a \<and> unat a < unat va + unat pages * 4096 then 0 else pmm_mem m a)"
      by (simp add: m' zero_range_def nd)
    moreover have "4096 dvd unat (fb_cursor m)" using ok by (simp add: pmm_ok_def)
    moreover have "unat (fb_cursor m') = unat (fb_cursor m) + unat pages * 4096"
      "unat (fb_cursor m') \<le> unat (fb_limit m)"
      using 1(4,5) by (simp_all add: m' nd word_le_nat_alt)
    moreover have "va \<noteq> 0" using 1(3) va by simp
    ultimately show ?case using ok' uva n(3) by simp
  next
    case 2
    with r ok' nd show ?case by simp
  qed
qed

definition demo_pool :: pmm where
  "demo_pool = \<lparr>fb_base = 0x200000, fb_limit = 0x4200000, fb_cursor = 0x201000, fb_total_pages = 16384,
     memmap_total_pages = 0, memmap_total_ready = False, boot_total_pages = 0, pmm_mem = (\<lambda>_. 0xFF)\<rparr>"

theorem pmm_contig_block_witness:
  "\<exists>va m'. pmm_alloc_contig \<lparr>kernel_phys_end = 0x1FF123, hhdm_offset = 0x100000000, raw_memmap = []\<rparr> 2 demo_pool = (va, m') \<and>
     va \<noteq> 0 \<and> pmm_mem m' va = 0"
proof -
  let ?e = "\<lparr>kernel_phys_end = 0x1FF123, hhdm_offset = 0x100000000, raw_memmap = []\<rparr>"
  obtain va m' where r: "pmm_alloc_contig ?e 2 demo_pool = (va, m')" by fastforce
  have "fst (pmm_alloc_contig ?e 2 demo_pool) \<noteq> 0" by code_simp
  then have nz: "va \<noteq> 0" using r by simp
  have "pmm_ok ?e demo_pool" by (simp add: pmm_ok_def demo_pool_def)
  from pmm_contig_block [OF this r] nz r show ?thesis by auto
qed

end
