(* ===== verification/Scheduler.thy ===== *)
theory Scheduler
  imports Memory
begin

text \<open>
  The round-robin scheduler of \<open>src/kernel/task/task.c\<close>. Tasks live at addresses in a store; the ready
  queue is the ring of their \<open>next\<close> pointers, with \<open>g_readyq\<close> pointing to the task that ran last.
  A dereference of an address where no task lives is a fault. The context switch itself is assembly:
  \<open>schedule\<close> yields the two tasks that are handed to it. Task structures and stacks come from
  \<open>kmalloc\<close>; addresses of code are parameters.
\<close>

subsection \<open>Data\<close>

datatype task_state = TASK_READY | TASK_RUNNING | TASK_BLOCKED | TASK_ZOMBIE

record task =
  t_tid :: u32
  t_state :: task_state
  t_esp :: u32
  t_pgdir :: u64
  t_kstack_base :: u64
  t_kstack_size :: u64
  t_time_slice :: int
  t_next :: u64
  t_name :: string
  t_is_user :: bool

record sched =
  tasks :: "u64 \<Rightarrow> task option"
  g_current :: u64
  g_readyq :: u64
  g_next_tid :: u32
  sched_enabled :: bool
  g_idle_task :: u64
  g_cpu_total_ticks :: u64
  g_cpu_idle_ticks :: u64
  prev_total :: u64
  prev_idle :: u64
  sk_heap :: kheap
  sk_stack :: "u64 \<Rightarrow> u32 option"
  sk_rsp0 :: u64
  sk_loaded_pgdir :: u64

text \<open>Addresses of code and of the static \<open>g_bootstrap\<close>, and the kernel's page directory.\<close>

record ktext =
  kx_trampoline :: u64
  kx_user_trampoline :: u64
  kx_idle :: u64
  kx_worker :: u64
  kx_bootstrap :: u64
  kx_pgdir :: u64

abbreviation KSTACK_SIZE :: u64 where "KSTACK_SIZE \<equiv> 16 * 1024"
abbreviation TIME_SLICE_TICKS :: int where "TIME_SLICE_TICKS \<equiv> 5"
abbreviation SIZEOF_TASK :: u64 where "SIZEOF_TASK \<equiv> 72"

definition task_at :: "sched \<Rightarrow> u64 \<Rightarrow> task res" where
  "task_at st p = (case tasks st p of None \<Rightarrow> Inl BadRead | Some t \<Rightarrow> Inr t)"

definition upd_task :: "u64 \<Rightarrow> (task \<Rightarrow> task) \<Rightarrow> sched \<Rightarrow> sched res" where
  "upd_task p f st = (case tasks st p of
     None \<Rightarrow> Inl BadWrite | Some t \<Rightarrow> Inr (st\<lparr>tasks := (tasks st)(p \<mapsto> f t)\<rparr>))"

definition current_task :: "sched \<Rightarrow> u64" where
  "current_task st = g_current st"

subsection \<open>Creating tasks\<close>

definition rq_push :: "u64 \<Rightarrow> sched \<Rightarrow> sched res" where
  "rq_push t st =
     (if g_readyq st = 0
      then rbind (upd_task t (\<lambda>x. x\<lparr>t_next := t\<rparr>) st) (\<lambda>st1. Inr (st1\<lparr>g_readyq := t\<rparr>))
      else rbind (task_at st (g_readyq st)) (\<lambda>q.
           rbind (upd_task t (\<lambda>x. x\<lparr>t_next := t_next q\<rparr>) st) (\<lambda>st1.
           upd_task (g_readyq st) (\<lambda>x. x\<lparr>t_next := t\<rparr>) st1)))"

text \<open>\<open>*(--sp) = w\<close> for each word in turn.\<close>

fun push_words :: "u32 list \<Rightarrow> u64 \<Rightarrow> (u64 \<Rightarrow> u32 option) \<Rightarrow> u64 \<times> (u64 \<Rightarrow> u32 option)" where
  "push_words [] sp mem = (sp, mem)"
| "push_words (w # ws) sp mem = push_words ws (sp - 4) (mem(sp - 4 \<mapsto> w))"

text \<open>A null stack base would make the stores hit low memory; that is a fault.\<close>

definition prepare_stack :: "u64 \<Rightarrow> u32 list \<Rightarrow> sched \<Rightarrow> sched res" where
  "prepare_stack t ws st =
     rbind (task_at st t) (\<lambda>x.
     if t_kstack_base x = 0 then Inl BadWrite else
     let top = (t_kstack_base x + t_kstack_size x) AND NOT 0xF;
         (sp, mem) = push_words ws top (sk_stack st)
     in upd_task t (\<lambda>x. x\<lparr>t_esp := ucast sp\<rparr>) (st\<lparr>sk_stack := mem\<rparr>))"

definition prepare_kthread_stack :: "ktext \<Rightarrow> u64 \<Rightarrow> u64 \<Rightarrow> u64 \<Rightarrow> sched \<Rightarrow> sched res" where
  "prepare_kthread_stack kx t entry arg =
     prepare_stack t [ucast (kx_trampoline kx), 0, 0, 0, 0, ucast entry, ucast arg]"

definition prepare_user_first_switch :: "ktext \<Rightarrow> u64 \<Rightarrow> u32 \<Rightarrow> u32 \<Rightarrow> sched \<Rightarrow> sched res" where
  "prepare_user_first_switch kx t entry_user user_stack_top =
     prepare_stack t [0, 0, 0, 0, ucast (kx_user_trampoline kx), 0x1B, user_stack_top, 0x202, 0x23, entry_user]"

definition task_alloc :: "string \<Rightarrow> sched \<Rightarrow> (u64 \<times> sched) res" where
  "task_alloc name st =
     (let (p, h) = kmalloc SIZEOF_TASK (sk_heap st)
      in if p = 0 then Inl BadWrite
         else Inr (p, st\<lparr>sk_heap := h, g_next_tid := g_next_tid st + 1,
                tasks := (tasks st)(p \<mapsto> \<lparr>t_tid = g_next_tid st, t_state = TASK_READY, t_esp = 0, t_pgdir = 0,
                  t_kstack_base = 0, t_kstack_size = 0, t_time_slice = TIME_SLICE_TICKS, t_next = 0,
                  t_name = name, t_is_user = False\<rparr>)\<rparr>))"

text \<open>The part \<open>kthread_create\<close> and \<open>proc_create_user\<close> share; \<open>prep\<close> lays out the stack.\<close>

definition create_task ::
  "string \<Rightarrow> u64 \<Rightarrow> bool \<Rightarrow> (u64 \<Rightarrow> sched \<Rightarrow> sched res) \<Rightarrow> sched \<Rightarrow> (u64 \<times> sched) res" where
  "create_task name pgdir user prep st =
     rbind (task_alloc name st) (\<lambda>(t, st1).
     let (base, h) = kmalloc KSTACK_SIZE (sk_heap st1) in
     rbind (upd_task t (\<lambda>x. x\<lparr>t_kstack_size := KSTACK_SIZE, t_kstack_base := base, t_pgdir := pgdir,
              t_is_user := user\<rparr>) (st1\<lparr>sk_heap := h\<rparr>)) (\<lambda>st2.
     rbind (prep t st2) (\<lambda>st3.
     rbind (rq_push t st3) (\<lambda>st4. Inr (t, st4)))))"

definition kthread_create :: "ktext \<Rightarrow> u64 \<Rightarrow> u64 \<Rightarrow> string option \<Rightarrow> sched \<Rightarrow> (u64 \<times> sched) res" where
  "kthread_create kx entry arg name =
     create_task (case name of Some n \<Rightarrow> n | None \<Rightarrow> ''kthread'') (kx_pgdir kx) False
       (\<lambda>t. prepare_kthread_stack kx t entry arg)"

definition proc_create_user :: "ktext \<Rightarrow> u32 \<Rightarrow> u32 \<Rightarrow> u64 \<Rightarrow> string option \<Rightarrow> sched \<Rightarrow> (u64 \<times> sched) res" where
  "proc_create_user kx entry_user user_stack_top pgdir_user name =
     create_task (case name of Some n \<Rightarrow> n | None \<Rightarrow> ''proc'') pgdir_user True
       (\<lambda>t. prepare_user_first_switch kx t entry_user user_stack_top)"

subsection \<open>Scheduling\<close>

text \<open>\<open>for (i = 0; cand && i < n; ++i)\<close> from \<open>cand\<close> around the ring back to \<open>first\<close>.\<close>

fun pick :: "nat \<Rightarrow> sched \<Rightarrow> u64 \<Rightarrow> u64 \<Rightarrow> u64 res" where
  "pick 0 st first cand = Inr cand"
| "pick (Suc n) st first cand =
     (if cand = 0 then Inr 0 else
      rbind (task_at st cand) (\<lambda>t.
        if t_state t = TASK_READY then Inr cand
        else if t_next t = first then Inr first
        else pick n st first (t_next t)))"

text \<open>The second component of the result is the pair of tasks handed to \<open>ctx_switch\<close>.\<close>

definition schedule :: "sched \<Rightarrow> (sched \<times> (u64 \<times> u64) option) res" where
  "schedule st =
     (let prev = g_current st in
      if g_readyq st = 0 then Inr (st, None) else
      rbind (task_at st (g_readyq st)) (\<lambda>q.
      if t_next q = 0 then Inr (st, None) else
      rbind (pick 1024 st (t_next q) (t_next q)) (\<lambda>cand.
      if cand = 0 then Inr (st, None) else
      rbind (task_at st cand) (\<lambda>c.
      if t_state c \<noteq> TASK_READY then Inr (st, None)
      else if prev = cand then rbind (upd_task cand (\<lambda>x. x\<lparr>t_time_slice := TIME_SLICE_TICKS\<rparr>) st) (\<lambda>st1. Inr (st1, None))
      else if prev = 0 then Inl BadWrite else
      rbind (task_at st prev) (\<lambda>p.
      let st1 = (if t_pgdir c \<noteq> 0 \<and> t_pgdir c \<noteq> t_pgdir p then st\<lparr>sk_loaded_pgdir := t_pgdir c\<rparr> else st);
          st2 = st1\<lparr>sk_rsp0 := ucast (ucast (t_kstack_base c + t_kstack_size c) :: u32)\<rparr>
      in rbind (upd_task cand (\<lambda>x. x\<lparr>t_state := TASK_RUNNING\<rparr>) st2) (\<lambda>st3.
         rbind (upd_task prev (\<lambda>x. if t_state x = TASK_RUNNING then x\<lparr>t_state := TASK_READY\<rparr> else x) st3) (\<lambda>st4.
           Inr (st4\<lparr>g_current := cand, g_readyq := cand\<rparr>, Some (prev, cand)))))))))"

definition schedule_from_timer :: "sched \<Rightarrow> (sched \<times> (u64 \<times> u64) option) res" where
  "schedule_from_timer st =
     (if \<not> sched_enabled st \<or> g_current st = 0 then Inr (st, None) else
      let st1 = st\<lparr>g_cpu_total_ticks := g_cpu_total_ticks st + 1\<rparr>;
          st2 = (if g_idle_task st \<noteq> 0 \<and> g_current st = g_idle_task st
                 then st1\<lparr>g_cpu_idle_ticks := g_cpu_idle_ticks st + 1\<rparr> else st1)
      in rbind (task_at st2 (g_current st)) (\<lambda>c.
         if t_time_slice c - 1 \<le> 0
         then rbind (upd_task (g_current st) (\<lambda>x. x\<lparr>t_time_slice := TIME_SLICE_TICKS\<rparr>) st2) schedule
         else rbind (upd_task (g_current st) (\<lambda>x. x\<lparr>t_time_slice := t_time_slice x - 1\<rparr>) st2) (\<lambda>st3. Inr (st3, None))))"

definition yield :: "sched \<Rightarrow> (sched \<times> (u64 \<times> u64) option) res" where
  "yield st = (if \<not> sched_enabled st then Inr (st, None) else schedule st)"

text \<open>What \<open>kthread_trampoline\<close> does to the scheduler when a thread's entry function returns.\<close>

definition thread_exit :: "sched \<Rightarrow> sched res" where
  "thread_exit st = upd_task (g_current st) (\<lambda>x. x\<lparr>t_state := TASK_ZOMBIE\<rparr>) st"

definition tasking_init :: "ktext \<Rightarrow> sched \<Rightarrow> sched res" where
  "tasking_init kx st =
     (let b = kx_bootstrap kx;
          (base, h) = kmalloc KSTACK_SIZE (sk_heap st);
          st1 = st\<lparr>tasks := (tasks st)(b \<mapsto> \<lparr>t_tid = g_next_tid st, t_state = TASK_RUNNING, t_esp = 0,
                    t_pgdir = kx_pgdir kx, t_kstack_base = base, t_kstack_size = KSTACK_SIZE, t_time_slice = 0,
                    t_next = b, t_name = ''bootstrap'', t_is_user = False\<rparr>),
                   g_next_tid := g_next_tid st + 1, sk_heap := h,
                   sk_rsp0 := ucast (ucast (base + KSTACK_SIZE) :: u32), g_current := b, g_readyq := b\<rparr>
      in rbind (kthread_create kx (kx_idle kx) 0 (Some ''idle'') st1) (\<lambda>(t, st2). Inr (st2\<lparr>g_idle_task := t\<rparr>)))"

definition start_scheduler :: "ktext \<Rightarrow> sched \<Rightarrow> sched res" where
  "start_scheduler kx st =
     rbind (kthread_create kx (kx_worker kx) 0 (Some ''worker#1'') st) (\<lambda>(_, st1).
     rbind (kthread_create kx (kx_worker kx) 0 (Some ''worker#2'') st1) (\<lambda>(_, st2).
       Inr (st2\<lparr>sched_enabled := True\<rparr>)))"

subsection \<open>Statistics and enumeration\<close>

definition task_cpu_usage_percent :: "sched \<Rightarrow> u32 \<times> sched" where
  "task_cpu_usage_percent st =
     (let delta_total = g_cpu_total_ticks st - prev_total st;
          delta_idle = g_cpu_idle_ticks st - prev_idle st;
          st' = st\<lparr>prev_total := g_cpu_total_ticks st, prev_idle := g_cpu_idle_ticks st\<rparr>
      in if delta_total = 0 then (0, st')
         else let delta_busy = (if delta_total > delta_idle then delta_total - delta_idle else 0);
                  pct = ucast (delta_busy * 100 div delta_total)
              in (if pct > 100 then 100 else pct, st'))"

definition task_cpu_reset :: "sched \<Rightarrow> sched" where
  "task_cpu_reset st = st\<lparr>g_cpu_total_ticks := 0, g_cpu_idle_ticks := 0\<rparr>"

definition task_enum_head :: "sched \<Rightarrow> u64 res" where
  "task_enum_head st =
     (if g_readyq st = 0 then Inr 0 else rbind (task_at st (g_readyq st)) (\<lambda>q. Inr (t_next q)))"

definition task_enum_next :: "sched \<Rightarrow> u64 \<Rightarrow> u64 res" where
  "task_enum_next st t =
     (if t = 0 \<or> g_readyq st = 0 then Inr 0 else
      rbind (task_at st t) (\<lambda>x.
      if t_next x = 0 then Inr 0 else
      rbind (task_at st (g_readyq st)) (\<lambda>q.
        Inr (if t_next x = t_next q then 0 else t_next x))))"

text \<open>The loop of the task manager: \<open>for (t = task_enum_head(); t; t = task_enum_next(t))\<close>.\<close>

fun enum_from :: "nat \<Rightarrow> sched \<Rightarrow> u64 \<Rightarrow> u64 list res" where
  "enum_from 0 st t = Inl OutOfFuel"
| "enum_from (Suc n) st t =
     (if t = 0 then Inr [] else
      rbind (task_enum_next st t) (\<lambda>t'. rbind (enum_from n st t') (\<lambda>ts. Inr (t # ts))))"

subsection \<open>The ring of the ready queue\<close>

text \<open>The tasks in the order in which the scheduler looks at them: from the one after \<open>g_readyq\<close> around
  to \<open>g_readyq\<close> itself.\<close>

definition next_links :: "(u64 \<Rightarrow> task option) \<Rightarrow> u64 list \<Rightarrow> bool" where
  "next_links ts xs \<longleftrightarrow> (\<forall>i<length xs. \<exists>t. ts (xs ! i) = Some t \<and> t_next t = xs ! (Suc i mod length xs))"

definition ring :: "sched \<Rightarrow> u64 list \<Rightarrow> bool" where
  "ring st xs \<longleftrightarrow> xs \<noteq> [] \<and> distinct xs \<and> 0 \<notin> set xs \<and> last xs = g_readyq st \<and> next_links (tasks st) xs"

definition state_of :: "sched \<Rightarrow> u64 \<Rightarrow> task_state option" where
  "state_of st a = map_option t_state (tasks st a)"

text \<open>The invariant: the ready queue is a ring that ends with the current task, no other task runs, and
  the current task is not waiting to be picked.\<close>

definition sched_ok :: "sched \<Rightarrow> u64 list \<Rightarrow> bool" where
  "sched_ok st xs \<longleftrightarrow> ring st xs \<and> g_current st = g_readyq st \<and> state_of st (g_current st) \<noteq> Some TASK_READY \<and>
     (\<forall>a\<in>set xs. state_of st a = Some TASK_RUNNING \<longrightarrow> a = g_current st)"

definition ready :: "sched \<Rightarrow> u64 \<Rightarrow> bool" where
  "ready st a \<longleftrightarrow> state_of st a = Some TASK_READY"

lemma ring_task:
  assumes "ring st xs" and "a \<in> set xs"
  obtains t where "tasks st a = Some t"
  using assms by (fastforce simp: ring_def next_links_def in_set_conv_nth)

lemma next_links_rotate1:
  assumes "next_links ts ys"
  shows "next_links ts (rotate1 ys)"
proof (cases "ys = []")
  case False
  show ?thesis
    unfolding next_links_def
  proof (intro allI impI)
    fix i
    assume i: "i < length (rotate1 ys)"
    let ?j = "Suc i mod length ys"
    have "?j < length ys" using False by simp
    with assms obtain t where "ts (ys ! ?j) = Some t" "t_next t = ys ! (Suc ?j mod length ys)"
      by (auto simp: next_links_def)
    moreover have "rotate1 ys ! i = ys ! ?j" using nth_rotate [of i ys 1] i by simp
    moreover have "rotate1 ys ! ?j = ys ! (Suc ?j mod length ys)" using nth_rotate [of ?j ys 1] False by simp
    ultimately show "\<exists>t. ts (rotate1 ys ! i) = Some t \<and> t_next t = rotate1 ys ! (Suc i mod length (rotate1 ys))"
      by simp
  qed
qed (use assms in simp)

lemma next_links_rotate: "next_links ts ys \<Longrightarrow> next_links ts (rotate m ys)"
  by (induction m) (simp_all add: next_links_rotate1)

lemma split_rotate: "rotate (Suc (length ys)) (ys @ a # zs) = zs @ ys @ [a]"
  using rotate_append [of "ys @ [a]" zs] by simp

text \<open>The search loop finds the first ready task of the ring.\<close>

lemma pick_from:
  assumes r: "ring st xs" and "i < length xs" and "length xs - i \<le> k"
  shows "pick k st (hd xs) (xs ! i) = Inr (case find (ready st) (drop i xs) of Some a \<Rightarrow> a | None \<Rightarrow> hd xs)"
  using assms(2,3)
proof (induction k arbitrary: i)
  case 0
  then show ?case by simp
next
  case (Suc k)
  have hd: "hd xs = xs ! 0" using Suc.prems by (cases xs) auto
  obtain t where t: "tasks st (xs ! i) = Some t" "t_next t = xs ! (Suc i mod length xs)"
    using r Suc.prems(1) by (auto simp: ring_def next_links_def)
  have nz: "xs ! i \<noteq> 0" using r Suc.prems(1) by (metis nth_mem ring_def)
  have d: "drop i xs = xs ! i # drop (Suc i) xs" using Suc.prems(1) by (simp add: Cons_nth_drop_Suc)
  have rdy: "ready st (xs ! i) \<longleftrightarrow> t_state t = TASK_READY" by (simp add: ready_def state_of_def t)
  show ?case
  proof (cases "t_state t = TASK_READY")
    case True
    then show ?thesis by (simp add: nz task_at_def t d rdy)
  next
    case False
    show ?thesis
    proof (cases "Suc i < length xs")
      case True
      then have "t_next t = xs ! Suc i" using t by simp
      moreover have "xs ! Suc i \<noteq> hd xs" using r True hd by (simp add: ring_def nth_eq_iff_index_eq)
      ultimately show ?thesis
        using False nz Suc.IH [OF True] Suc.prems by (simp add: task_at_def t(1) d rdy)
    next
      case lst: False
      then have "Suc i = length xs" using Suc.prems by simp
      then have "t_next t = hd xs" "drop (Suc i) xs = []" using t hd by auto
      then show ?thesis using False nz by (simp add: task_at_def t(1) d rdy)
    qed
  qed
qed

lemma pick_ring:
  assumes "ring st xs" and "length xs \<le> 1024"
  shows "pick 1024 st (hd xs) (hd xs) = Inr (case find (ready st) xs of Some a \<Rightarrow> a | None \<Rightarrow> hd xs)"
proof -
  have "xs \<noteq> []" using assms(1) by (simp add: ring_def)
  then have "0 < length xs" and "hd xs = xs ! 0" by (simp_all add: hd_conv_nth)
  with pick_from [OF assms(1), of 0 1024] assms(2) show ?thesis by simp
qed

lemma ring_readyq:
  assumes "ring st xs"
  obtains q where "tasks st (g_readyq st) = Some q" "t_next q = hd xs" "g_readyq st \<noteq> 0" "hd xs \<noteq> 0"
proof -
  let ?n = "length xs"
  have ne: "xs \<noteq> []" and l: "last xs = g_readyq st" using assms by (auto simp: ring_def)
  have "?n - 1 < ?n" using ne by simp
  with assms obtain q where q: "tasks st (xs ! (?n - 1)) = Some q" "t_next q = xs ! (Suc (?n - 1) mod ?n)"
    unfolding ring_def next_links_def by blast
  moreover have "Suc (?n - 1) mod ?n = 0" using ne by simp
  ultimately have "t_next q = hd xs" "tasks st (g_readyq st) = Some q"
    using ne l by (simp_all add: hd_conv_nth last_conv_nth)
  moreover have "hd xs \<noteq> 0" "g_readyq st \<noteq> 0" using assms ne l unfolding ring_def by (metis hd_in_set, metis last_in_set)
  ultimately show ?thesis using that by blast
qed

lemma next_links_cong:
  assumes "next_links ts xs" and "\<And>a. a \<in> set xs \<Longrightarrow> map_option t_next (ts' a) = map_option t_next (ts a)"
  shows "next_links ts' xs"
  unfolding next_links_def
proof (intro allI impI)
  fix i
  assume i: "i < length xs"
  with assms(1) obtain t where "ts (xs ! i) = Some t" "t_next t = xs ! (Suc i mod length xs)"
    by (auto simp: next_links_def)
  with assms(2) [OF nth_mem [OF i]] show "\<exists>t. ts' (xs ! i) = Some t \<and> t_next t = xs ! (Suc i mod length xs)"
    by auto
qed

lemma pick_in_ring:
  assumes "ring st xs"
  shows "i < length xs \<Longrightarrow> \<exists>c\<in>set xs. pick k st (hd xs) (xs ! i) = Inr c"
proof (induction k arbitrary: i)
  case 0
  then show ?case by auto
next
  case (Suc k)
  obtain t where t: "tasks st (xs ! i) = Some t" "t_next t = xs ! (Suc i mod length xs)"
    using assms Suc.prems by (auto simp: ring_def next_links_def)
  have "hd xs \<in> set xs" using assms by (simp add: ring_def)
  moreover have "Suc i mod length xs < length xs" using Suc.prems by (intro mod_less_divisor) auto
  moreover have "xs ! i \<noteq> 0" using assms Suc.prems by (metis nth_mem ring_def)
  ultimately show ?case using Suc.IH t Suc.prems by (auto simp: task_at_def)
qed

lemma schedule_pick:
  assumes r: "ring st xs" and cand: "pick 1024 st (hd xs) (hd xs) = Inr cand" and nz: "cand \<noteq> 0"
  shows "schedule st = rbind (task_at st cand) (\<lambda>c.
    let prev = g_current st in
      if t_state c \<noteq> TASK_READY then Inr (st, None)
      else if prev = cand then rbind (upd_task cand (\<lambda>x. x\<lparr>t_time_slice := TIME_SLICE_TICKS\<rparr>) st) (\<lambda>st1. Inr (st1, None))
      else if prev = 0 then Inl BadWrite else
      rbind (task_at st prev) (\<lambda>p.
      let st1 = (if t_pgdir c \<noteq> 0 \<and> t_pgdir c \<noteq> t_pgdir p then st\<lparr>sk_loaded_pgdir := t_pgdir c\<rparr> else st);
          st2 = st1\<lparr>sk_rsp0 := ucast (ucast (t_kstack_base c + t_kstack_size c) :: u32)\<rparr>
      in rbind (upd_task cand (\<lambda>x. x\<lparr>t_state := TASK_RUNNING\<rparr>) st2) (\<lambda>st3.
         rbind (upd_task prev (\<lambda>x. if t_state x = TASK_RUNNING then x\<lparr>t_state := TASK_READY\<rparr> else x) st3) (\<lambda>st4.
           Inr (st4\<lparr>g_current := cand, g_readyq := cand\<rparr>, Some (prev, cand))))))"
proof -
  obtain q where "tasks st (g_readyq st) = Some q" "t_next q = hd xs" "g_readyq st \<noteq> 0" "hd xs \<noteq> 0"
    using ring_readyq [OF r] .
  with cand nz show ?thesis
    by (simp add: schedule_def task_at_def [of st "g_readyq st"] Let_def)
qed

lemma schedule_not_ready:
  assumes r: "ring st xs" and c: "pick 1024 st (hd xs) (hd xs) = Inr c" "c \<in> set xs" and "\<not> ready st c"
  shows "schedule st = Inr (st, None)"
proof -
  obtain t where t: "tasks st c = Some t" using ring_task [OF r c(2)] .
  have "c \<noteq> 0" using r c(2) by (auto simp: ring_def)
  from schedule_pick [OF r c(1) this] t assms(4) show ?thesis
    by (simp add: task_at_def ready_def state_of_def)
qed

lemma schedule_idle:
  assumes "ring st xs" and "length xs \<le> 1024" and "find (ready st) xs = None"
  shows "schedule st = Inr (st, None)"
proof (rule schedule_not_ready [OF assms(1)])
  show "pick 1024 st (hd xs) (hd xs) = Inr (hd xs)" using pick_ring [OF assms(1,2)] assms(3) by simp
  show "hd xs \<in> set xs" using assms(1) by (simp add: ring_def)
  with assms(3) show "\<not> ready st (hd xs)" by (auto simp: find_None_iff)
qed

lemma schedule_switch:
  assumes ok: "sched_ok st xs" and a: "pick 1024 st (hd xs) (hd xs) = Inr a" "ready st a"
    and xs: "xs = ys @ a # zs"
  obtains st' where "schedule st = Inr (st', Some (g_current st, a))" and "sched_ok st' (zs @ ys @ [a])"
    and "g_current st' = a" and "state_of st' a = Some TASK_RUNNING"
    and "\<forall>b. b \<noteq> a \<longrightarrow> state_of st' b = (if b = g_current st \<and> state_of st b = Some TASK_RUNNING
           then Some TASK_READY else state_of st b)"
    and "sk_heap st' = sk_heap st" and "sched_enabled st' = sched_enabled st"
proof -
  have r: "ring st xs" using ok by (simp add: sched_ok_def)
  let ?cur = "g_current st"
  have cur: "?cur = last xs" using ok by (simp add: sched_ok_def ring_def)
  have "xs \<noteq> []" using r by (simp add: ring_def)
  from last_in_set [OF this] cur have cin: "?cur \<in> set xs" by simp
  have ain: "a \<in> set xs" and rdy: "ready st a" using a xs by auto
  obtain c where c: "tasks st a = Some c" using ring_task [OF r ain] .
  obtain p where p: "tasks st ?cur = Some p" using ring_task [OF r cin] .
  have cr: "t_state c = TASK_READY" using rdy c by (simp add: ready_def state_of_def)
  have ne: "?cur \<noteq> a" using ok rdy by (auto simp: sched_ok_def ready_def)
  have nz: "?cur \<noteq> 0" and anz: "a \<noteq> 0" using cin ain r by (auto simp: ring_def)
  define st2 where "st2 = (if t_pgdir c \<noteq> 0 \<and> t_pgdir c \<noteq> t_pgdir p then st\<lparr>sk_loaded_pgdir := t_pgdir c\<rparr> else st)
    \<lparr>sk_rsp0 := ucast (ucast (t_kstack_base c + t_kstack_size c) :: u32)\<rparr>"
  define p' where "p' = (if t_state p = TASK_RUNNING then p\<lparr>t_state := TASK_READY\<rparr> else p)"
  define st' where "st' = st2\<lparr>tasks := (tasks st)(a \<mapsto> c\<lparr>t_state := TASK_RUNNING\<rparr>, ?cur \<mapsto> p'),
    g_current := a, g_readyq := a\<rparr>"
  have st2: "tasks st2 = tasks st" by (simp add: st2_def)
  have run: "schedule st = Inr (st', Some (?cur, a))"
    using schedule_pick [OF r a(1) anz] c p cr ne nz
    by (simp add: task_at_def Let_def st2_def upd_task_def st'_def p'_def)
  have nx: "map_option t_next (tasks st' b) = map_option t_next (tasks st b)" for b
    using c p by (simp add: st'_def p'_def)
  have rot: "rotate (Suc (length ys)) xs = zs @ ys @ [a]" unfolding xs by (rule split_rotate)
  have links: "next_links (tasks st') (zs @ ys @ [a])"
    unfolding rot [symmetric]
    by (rule next_links_rotate, rule next_links_cong [of "tasks st"]) (use r nx in \<open>simp_all add: ring_def\<close>)
  have st_oth: "\<forall>b. b \<noteq> a \<longrightarrow> state_of st' b = (if b = ?cur \<and> state_of st b = Some TASK_RUNNING
      then Some TASK_READY else state_of st b)"
    using p by (auto simp: state_of_def st'_def p'_def)
  have st_a: "state_of st' a = Some TASK_RUNNING" using ne by (simp add: state_of_def st'_def)
  have gs: "g_current st' = a" "g_readyq st' = a" "sk_heap st' = sk_heap st" "sched_enabled st' = sched_enabled st"
    by (simp_all add: st'_def st2_def)
  have "ring st' (zs @ ys @ [a])"
    using r links gs(2) by (auto simp: ring_def xs)
  moreover have "b = a" if b: "b \<in> set (zs @ ys @ [a])" "state_of st' b = Some TASK_RUNNING" for b
  proof (rule ccontr)
    assume "b \<noteq> a"
    with st_oth b(2) have "state_of st b = Some TASK_RUNNING" "b \<noteq> ?cur" by (auto split: if_splits)
    moreover have "b \<in> set xs" using b(1) xs by auto
    ultimately show False using ok by (auto simp: sched_ok_def)
  qed
  ultimately have "sched_ok st' (zs @ ys @ [a])" using st_a gs by (simp add: sched_ok_def)
  then show ?thesis using that run gs st_a st_oth by blast
qed

subsection \<open>Creating tasks keeps the ring\<close>

text \<open>\<open>rq_push\<close> puts the new task in front: it is looked at next.\<close>

lemma rq_push_ring:
  assumes ok: "sched_ok st xs" and t: "tasks st t = Some x" and new: "t \<notin> set xs" "t \<noteq> 0" and rdy: "t_state x = TASK_READY"
  obtains st' where "rq_push t st = Inr st'" and "sched_ok st' (t # xs)" and "ready st' t"
    and "\<forall>b. state_of st' b = state_of st b" and "sk_heap st' = sk_heap st" and "g_current st' = g_current st"
proof -
  have r: "ring st xs" using ok by (simp add: sched_ok_def)
  obtain q where q: "tasks st (g_readyq st) = Some q" "t_next q = hd xs" "g_readyq st \<noteq> 0" "hd xs \<noteq> 0"
    using ring_readyq [OF r] .
  have ne: "xs \<noteq> []" and l: "last xs = g_readyq st" using r by (auto simp: ring_def)
  then have tq: "t \<noteq> g_readyq st" using new(1) last_in_set [OF ne] by auto
  define st' where "st' = st\<lparr>tasks := (tasks st)(t \<mapsto> x\<lparr>t_next := hd xs\<rparr>, g_readyq st \<mapsto> q\<lparr>t_next := t\<rparr>)\<rparr>"
  have run: "rq_push t st = Inr st'"
    using q t tq by (simp add: rq_push_def task_at_def upd_task_def st'_def)
  have links: "next_links (tasks st') (t # xs)"
    unfolding next_links_def
  proof (intro allI impI)
    fix i
    let ?n = "length xs"
    assume i: "i < length (t # xs)"
    consider "i = 0" | "0 < i" "i < ?n" | "i = ?n" using i by (cases "i = 0") (auto simp: less_Suc_eq)
    then show "\<exists>y. tasks st' ((t # xs) ! i) = Some y \<and> t_next y = (t # xs) ! (Suc i mod length (t # xs))"
    proof cases
      case 1
      then show ?thesis using tq ne by (simp add: st'_def hd_conv_nth)
    next
      case 2
      then have j: "i - 1 < ?n" "Suc (i - 1) mod ?n = i" by auto
      with r obtain y where y: "tasks st (xs ! (i - 1)) = Some y" "t_next y = xs ! i"
        unfolding ring_def next_links_def by fastforce
      have "xs ! (i - 1) \<noteq> g_readyq st"
        using r 2 ne l j(1) nth_eq_iff_index_eq [of xs "i - 1" "length xs - 1"]
        by (auto simp: ring_def last_conv_nth)
      moreover have "xs ! (i - 1) \<noteq> t" using new(1) j(1) by (metis nth_mem)
      ultimately show ?thesis using y 2 by (simp add: st'_def nth_Cons')
    next
      case 3
      have "(t # xs) ! i = g_readyq st" using 3 ne l by (simp add: nth_Cons' last_conv_nth)
      then show ?thesis using 3 by (simp add: st'_def)
    qed
  qed
  have st_eq: "state_of st' b = state_of st b" for b using t q by (simp add: state_of_def st'_def)
  have "ring st' (t # xs)" using r links new ne l by (simp add: ring_def st'_def)
  moreover have "g_current st' = g_current st" "g_readyq st' = g_readyq st" by (simp_all add: st'_def)
  moreover have "state_of st t = Some TASK_READY" using t rdy by (simp add: state_of_def)
  ultimately have "sched_ok st' (t # xs)" using ok by (auto simp: sched_ok_def st_eq)
  moreover have "ready st' t" using \<open>state_of st t = Some TASK_READY\<close> by (simp add: ready_def st_eq)
  moreover have "sk_heap st' = sk_heap st" "g_current st' = g_current st" by (simp_all add: st'_def)
  ultimately show ?thesis using that run st_eq by blast
qed

subsection \<open>The invariant of the whole scheduler\<close>

text \<open>Tasks lie below the break of the heap, so a new one is never one of them.\<close>

definition sys_ok :: "u64 \<Rightarrow> sched \<Rightarrow> u64 list \<Rightarrow> bool" where
  "sys_ok e st xs \<longleftrightarrow> sched_ok st xs \<and> kheap_ok e (sk_heap st) \<and> unat e + 8 + 16384 < 2 ^ 64 \<and>
     (\<forall>a\<in>set xs. unat a < unat (kheap_brk (sk_heap st)))"

text \<open>Changes of the store that the ring does not see.\<close>

lemma sched_ok_frame:
  assumes ok: "sched_ok st xs" and "g_current st' = g_current st" and "g_readyq st' = g_readyq st"
    and same: "\<And>a. a \<in> set xs \<Longrightarrow> map_option t_next (tasks st' a) = map_option t_next (tasks st a) \<and>
      (state_of st' a = state_of st a)"
  shows "sched_ok st' xs"
proof -
  have r: "ring st xs" using ok by (simp add: sched_ok_def)
  have "next_links (tasks st) xs" using r by (simp add: ring_def)
  from next_links_cong [OF this] same have "next_links (tasks st') xs" by blast
  then have r': "ring st' xs" using r assms(3) by (simp add: ring_def)
  have eq: "\<forall>a\<in>set xs. state_of st' a = state_of st a" using same by blast
  have "xs \<noteq> []" "last xs = g_current st" using ok by (auto simp: sched_ok_def ring_def)
  then have "g_current st \<in> set xs" using last_in_set by metis
  with eq have "state_of st' (g_current st) = state_of st (g_current st)" by blast
  then show ?thesis using ok r' eq unfolding sched_ok_def assms(2,3) by auto
qed

lemma prepare_stack_result:
  assumes "prepare_stack t ws st = Inr st'"
  shows "\<exists>x esp mem. tasks st t = Some x \<and> st' = st\<lparr>sk_stack := mem, tasks := (tasks st)(t \<mapsto> x\<lparr>t_esp := esp\<rparr>)\<rparr>"
  using assms
  by (auto simp: prepare_stack_def res_simps task_at_def upd_task_def Let_def split: option.splits if_splits prod.splits)

lemma create_task_ok:
  assumes ok: "sys_ok e st xs" and run: "create_task name pgdir user (\<lambda>t. prepare_stack t ws) st = Inr (t, st')"
  shows "sys_ok e st' (t # xs) \<and> ready st' t \<and> t \<notin> set xs"
proof -
  have so: "sched_ok st xs" and hk: "kheap_ok e (sk_heap st)" and big: "unat e + 8 + 16384 < 2 ^ 64"
    and below: "\<forall>a\<in>set xs. unat a < unat (kheap_brk (sk_heap st))" using ok by (auto simp: sys_ok_def)
  have s1: "kmalloc_size_ok e SIZEOF_TASK" and s2: "kmalloc_size_ok e KSTACK_SIZE"
    using big by (simp_all add: kmalloc_size_ok_def)
  obtain p h1 where k1: "kmalloc SIZEOF_TASK (sk_heap st) = (p, h1)" by fastforce
  obtain base h2 where k2: "kmalloc KSTACK_SIZE h1 = (base, h2)" by fastforce
  from run k1 have pnz: "p \<noteq> 0" and tp: "t = p"
    by (auto simp: create_task_def task_alloc_def res_simps Let_def split: if_splits prod.splits)
  have h1: "kheap_ok e h1" "unat (kheap_brk (sk_heap st)) \<le> unat p" "unat (kheap_brk h1) = unat p + 72"
    using kh.alloc_inv [OF hk s1 k1] kh.alloc_some [OF hk s1 k1 pnz] by auto
  have h2: "kheap_ok e h2" "unat (kheap_brk h1) \<le> unat (kheap_brk h2)"
    using kh.alloc_inv [OF h1(1) s2 k2] kh.alloc_some [OF h1(1) s2 k2] kh.alloc_none [OF h1(1) s2] k2
    by (cases "base = 0"; auto)+
  have new: "t \<notin> set xs" using below h1(2) tp by auto
  from run k1 k2 pnz obtain esp mem where
    push0: "rq_push t (st\<lparr>g_next_tid := g_next_tid st + 1, sk_heap := h2, sk_stack := mem,
      tasks := (tasks st)(t \<mapsto> \<lparr>t_tid = g_next_tid st, t_state = TASK_READY, t_esp = esp, t_pgdir = pgdir,
        t_kstack_base = base, t_kstack_size = KSTACK_SIZE, t_time_slice = TIME_SLICE_TICKS, t_next = 0,
        t_name = name, t_is_user = user\<rparr>)\<rparr>) = Inr st'"
    by (auto simp: create_task_def task_alloc_def res_simps upd_task_def Let_def tp
        dest!: prepare_stack_result split: if_splits prod.splits)
  define x where "x = \<lparr>t_tid = g_next_tid st, t_state = TASK_READY, t_esp = esp, t_pgdir = pgdir,
        t_kstack_base = base, t_kstack_size = KSTACK_SIZE, t_time_slice = TIME_SLICE_TICKS, t_next = 0,
        t_name = name, t_is_user = user\<rparr>"
  define st3 where "st3 = st\<lparr>g_next_tid := g_next_tid st + 1, sk_heap := h2, sk_stack := mem, tasks := (tasks st)(t \<mapsto> x)\<rparr>"
  have push: "rq_push t st3 = Inr st'" using push0 by (simp add: st3_def x_def)
  have x: "tasks st3 t = Some x" "t_state x = TASK_READY" by (simp_all add: st3_def x_def)
  have ok3: "sched_ok st3 xs" by (rule sched_ok_frame [OF so]) (use new in \<open>auto simp: state_of_def st3_def\<close>)
  have tnz: "t \<noteq> 0" using pnz tp by simp
  obtain st4 where "rq_push t st3 = Inr st4" "sched_ok st4 (t # xs)" "ready st4 t" "sk_heap st4 = sk_heap st3"
    using rq_push_ring [OF ok3 x(1) new tnz x(2)] by metis
  then have "sched_ok st' (t # xs)" "ready st' t" "sk_heap st' = h2" using push by (auto simp: st3_def)
  moreover have "\<forall>a\<in>set (t # xs). unat a < unat (kheap_brk h2)" using below h1 h2 tp by auto
  ultimately show ?thesis using new h2(1) big by (simp add: sys_ok_def)
qed

text \<open>No fault, and the invariant is kept; the tasks of the ring stay the same.\<close>

lemma schedule_total:
  assumes ok: "sched_ok st xs"
  shows "\<exists>st' sw xs'. schedule st = Inr (st', sw) \<and> sched_ok st' xs' \<and> set xs' = set xs \<and> sk_heap st' = sk_heap st \<and>
    (case sw of None \<Rightarrow> st' = st
     | Some (p, a) \<Rightarrow> p = g_current st \<and> a \<in> set xs \<and> ready st a \<and> g_current st' = a)"
proof -
  have r: "ring st xs" using ok by (simp add: sched_ok_def)
  have "0 < length xs" "hd xs = xs ! 0" using r by (auto simp: ring_def hd_conv_nth)
  with pick_in_ring [OF r, of 0 1024] obtain c where c: "pick 1024 st (hd xs) (hd xs) = Inr c" "c \<in> set xs" by auto
  show ?thesis
  proof (cases "ready st c")
    case True
    from c(2) obtain ys zs where xs: "xs = ys @ c # zs" by (auto dest: split_list)
    obtain st' where "schedule st = Inr (st', Some (g_current st, c))" "sched_ok st' (zs @ ys @ [c])"
      "g_current st' = c" "sk_heap st' = sk_heap st"
      using schedule_switch [OF ok c(1) True xs] by metis
    moreover have "set (zs @ ys @ [c]) = set xs" using xs by auto
    ultimately show ?thesis using c(2) True by (intro exI [of _ st'] exI [of _ "Some (g_current st, c)"] exI [of _ "zs @ ys @ [c]"]) simp
  next
    case False
    from schedule_not_ready [OF r c False] ok show ?thesis by auto
  qed
qed

lemma schedule_sys_ok:
  assumes "sys_ok e st xs" and "schedule st = Inr (st', sw)"
  shows "\<exists>xs'. sys_ok e st' xs'"
  using schedule_total [of st xs] assms by (fastforce simp: sys_ok_def)

lemma upd_task_frame:
  assumes "sys_ok e st xs" and "upd_task p f st = Inr st'"
    and "\<And>x. t_next (f x) = t_next x \<and> t_state (f x) = t_state x"
  shows "sys_ok e st' xs"
proof -
  obtain x where x: "tasks st p = Some x" "st' = st\<lparr>tasks := (tasks st)(p \<mapsto> f x)\<rparr>"
    using assms(2) by (auto simp: upd_task_def split: option.splits)
  have "sched_ok st xs" using assms(1) by (simp add: sys_ok_def)
  then have "sched_ok st' xs"
    by (rule sched_ok_frame) (use x assms(3) in \<open>auto simp: state_of_def\<close>)
  then show ?thesis using assms(1) x by (simp add: sys_ok_def)
qed

lemma sys_ok_counters:
  "sys_ok e (st\<lparr>g_cpu_total_ticks := a\<rparr>) xs = sys_ok e st xs" "sys_ok e (st\<lparr>g_cpu_idle_ticks := a\<rparr>) xs = sys_ok e st xs"
  "sys_ok e (st\<lparr>sched_enabled := b\<rparr>) xs = sys_ok e st xs" "sys_ok e (st\<lparr>g_idle_task := a\<rparr>) xs = sys_ok e st xs"
  by (simp_all add: sys_ok_def sched_ok_def ring_def state_of_def)

lemma timer_sys_ok:
  assumes ok: "sys_ok e st xs" and run: "schedule_from_timer st = Inr (st', sw)"
  shows "\<exists>xs'. sys_ok e st' xs'"
proof (cases "\<not> sched_enabled st \<or> g_current st = 0")
  case True
  with ok run show ?thesis by (auto simp: schedule_from_timer_def)
next
  case False
  define st2 where "st2 = (if g_idle_task st \<noteq> 0 \<and> g_current st = g_idle_task st
    then st\<lparr>g_cpu_total_ticks := g_cpu_total_ticks st + 1, g_cpu_idle_ticks := g_cpu_idle_ticks st + 1\<rparr>
    else st\<lparr>g_cpu_total_ticks := g_cpu_total_ticks st + 1\<rparr>)"
  have ok2: "sys_ok e st2 xs" using ok by (simp add: st2_def sys_ok_counters)
  from run False obtain c where "task_at st2 (g_current st) = Inr c"
    and r: "(if t_time_slice c - 1 \<le> 0
         then rbind (upd_task (g_current st) (\<lambda>x. x\<lparr>t_time_slice := TIME_SLICE_TICKS\<rparr>) st2) schedule
         else rbind (upd_task (g_current st) (\<lambda>x. x\<lparr>t_time_slice := t_time_slice x - 1\<rparr>) st2) (\<lambda>st3. Inr (st3, None)))
      = Inr (st', sw)"
    by (auto simp: schedule_from_timer_def Let_def st2_def res_simps split: if_splits)
  from r obtain st3 where st3: "sys_ok e st3 xs" "schedule st3 = Inr (st', sw) \<or> st' = st3"
    using upd_task_frame [OF ok2] by (fastforce simp: res_simps split: if_splits)
  then show ?thesis using schedule_sys_ok by blast
qed

lemma exit_sys_ok:
  assumes ok: "sys_ok e st xs" and run: "thread_exit st = Inr st'"
  shows "sys_ok e st' xs"
proof -
  obtain x where x: "tasks st (g_current st) = Some x"
    and st': "st' = st\<lparr>tasks := (tasks st)(g_current st \<mapsto> x\<lparr>t_state := TASK_ZOMBIE\<rparr>)\<rparr>"
    using run by (auto simp: thread_exit_def upd_task_def split: option.splits)
  have so: "sched_ok st xs" using ok by (simp add: sys_ok_def)
  have "next_links (tasks st') xs"
    by (rule next_links_cong [of "tasks st"]) (use so x in \<open>auto simp: sched_ok_def ring_def st'\<close>)
  then have "sched_ok st' xs" using so by (auto simp: sched_ok_def ring_def state_of_def st')
  then show ?thesis using ok by (simp add: sys_ok_def st')
qed

lemma kthread_create_ok:
  "sys_ok e st xs \<Longrightarrow> kthread_create kx entry arg name st = Inr (t, st') \<Longrightarrow> sys_ok e st' (t # xs) \<and> ready st' t \<and> t \<notin> set xs"
  unfolding kthread_create_def prepare_kthread_stack_def by (rule create_task_ok)

lemma proc_create_ok:
  "sys_ok e st xs \<Longrightarrow> proc_create_user kx entry ustk pd name st = Inr (t, st') \<Longrightarrow>
     sys_ok e st' (t # xs) \<and> ready st' t \<and> t \<notin> set xs"
  unfolding proc_create_user_def prepare_user_first_switch_def by (rule create_task_ok)

text \<open>The state the kernel starts from: an initialised heap that lies above the static bootstrap task.\<close>

definition boot_ok :: "u64 \<Rightarrow> ktext \<Rightarrow> sched \<Rightarrow> bool" where
  "boot_ok e kx st \<longleftrightarrow> kheap_ok e (sk_heap st) \<and> unat e + 8 + 16384 < 2 ^ 64 \<and> kx_bootstrap kx \<noteq> 0 \<and>
     kx_bootstrap kx < kheap_begin (sk_heap st)"

lemma tasking_init_ok:
  assumes b: "boot_ok e kx st" and run: "tasking_init kx st = Inr st'"
  shows "\<exists>t. sys_ok e st' [t, kx_bootstrap kx] \<and> g_idle_task st' = t"
proof -
  let ?b = "kx_bootstrap kx"
  obtain base h where k: "kmalloc KSTACK_SIZE (sk_heap st) = (base, h)" by fastforce
  have hk: "kheap_ok e (sk_heap st)" and big: "unat e + 8 + 16384 < 2 ^ 64" using b by (auto simp: boot_ok_def)
  have sz: "kmalloc_size_ok e KSTACK_SIZE" using big by (simp add: kmalloc_size_ok_def)
  define st1 where "st1 = st\<lparr>tasks := (tasks st)(?b \<mapsto> \<lparr>t_tid = g_next_tid st, t_state = TASK_RUNNING, t_esp = 0,
                    t_pgdir = kx_pgdir kx, t_kstack_base = base, t_kstack_size = KSTACK_SIZE, t_time_slice = 0,
                    t_next = ?b, t_name = ''bootstrap'', t_is_user = False\<rparr>),
                   g_next_tid := g_next_tid st + 1, sk_heap := h,
                   sk_rsp0 := ucast (ucast (base + KSTACK_SIZE) :: u32), g_current := ?b, g_readyq := ?b\<rparr>"
  from run k obtain t st2 where c: "kthread_create kx (kx_idle kx) 0 (Some ''idle'') st1 = Inr (t, st2)"
    and st': "st' = st2\<lparr>g_idle_task := t\<rparr>"
    by (auto simp: tasking_init_def Let_def st1_def res_simps split: prod.splits)
  have so: "sched_ok st1 [?b]"
    using b by (simp add: sched_ok_def ring_def next_links_def st1_def state_of_def boot_ok_def)
  have hk1: "kheap_ok e h" using kh.alloc_inv [OF hk sz k] .
  have "unat (kheap_brk (sk_heap st)) \<le> unat (kheap_brk h)"
    using kh.alloc_some [OF hk sz k] kh.alloc_none [OF hk sz] k by (cases "base = 0") auto
  moreover have "unat ?b < unat (kheap_brk (sk_heap st))"
    using b hk by (auto simp: boot_ok_def kheap_ok_def word_less_nat_alt word_le_nat_alt)
  moreover have "sk_heap st1 = h" by (simp add: st1_def)
  ultimately have "sys_ok e st1 [?b]" using so hk1 big by (simp add: sys_ok_def)
  from kthread_create_ok [OF this c] st' show ?thesis by (auto simp: sys_ok_counters)
qed

subsection \<open>Runs of the scheduler\<close>

inductive sched_step :: "ktext \<Rightarrow> sched \<Rightarrow> sched \<Rightarrow> bool" for kx :: ktext where
  step_kthread: "kthread_create kx entry arg name st = Inr (t, st') \<Longrightarrow> sched_step kx st st'"
| step_proc: "proc_create_user kx entry ustk pd name st = Inr (t, st') \<Longrightarrow> sched_step kx st st'"
| step_start: "start_scheduler kx st = Inr st' \<Longrightarrow> sched_step kx st st'"
| step_timer: "schedule_from_timer st = Inr (st', sw) \<Longrightarrow> sched_step kx st st'"
| step_yield: "yield st = Inr (st', sw) \<Longrightarrow> sched_step kx st st'"
| step_exit: "thread_exit st = Inr st' \<Longrightarrow> sched_step kx st st'"
| step_schedule: "schedule st = Inr (st', sw) \<Longrightarrow> sched_step kx st st'"
| step_usage: "task_cpu_usage_percent st = (pct, st') \<Longrightarrow> sched_step kx st st'"
| step_reset: "st' = task_cpu_reset st \<Longrightarrow> sched_step kx st st'"

inductive sched_reach :: "ktext \<Rightarrow> sched \<Rightarrow> sched \<Rightarrow> bool" for kx :: ktext and st0 :: sched where
  reach_init: "tasking_init kx st0 = Inr st \<Longrightarrow> sched_reach kx st0 st"
| reach_step: "sched_reach kx st0 st \<Longrightarrow> sched_step kx st st' \<Longrightarrow> sched_reach kx st0 st'"

lemma start_sys_ok:
  assumes ok: "sys_ok e st xs" and run: "start_scheduler kx st = Inr st'"
  shows "\<exists>xs'. sys_ok e st' xs'"
proof -
  from run obtain t1 st1 t2 st2 where
    c1: "kthread_create kx (kx_worker kx) 0 (Some ''worker#1'') st = Inr (t1, st1)" and
    c2: "kthread_create kx (kx_worker kx) 0 (Some ''worker#2'') st1 = Inr (t2, st2)" and
    st': "st' = st2\<lparr>sched_enabled := True\<rparr>"
    by (auto simp: start_scheduler_def res_simps split: prod.splits)
  from kthread_create_ok [OF ok c1] have "sys_ok e st1 (t1 # xs)" by simp
  from kthread_create_ok [OF this c2] st' show ?thesis by (auto simp: sys_ok_counters)
qed

lemma statistics_sys_ok:
  assumes "sys_ok e st xs"
  shows "sys_ok e (snd (task_cpu_usage_percent st)) xs" and "sys_ok e (task_cpu_reset st) xs"
  using assms
  by (auto simp: task_cpu_usage_percent_def task_cpu_reset_def Let_def sys_ok_def sched_ok_def ring_def state_of_def)

lemma step_sys_ok:
  assumes "sched_step kx st st'" and "sys_ok e st xs"
  shows "\<exists>xs'. sys_ok e st' xs'"
  using assms
proof cases
  case (step_kthread entry arg name t)
  then show ?thesis using kthread_create_ok [OF assms(2)] by blast
next
  case (step_proc entry ustk pd name t)
  then show ?thesis using proc_create_ok [OF assms(2)] by blast
next
  case step_start
  then show ?thesis using start_sys_ok [OF assms(2)] by blast
next
  case (step_timer sw)
  then show ?thesis using timer_sys_ok [OF assms(2)] by blast
next
  case (step_yield sw)
  then show ?thesis using schedule_sys_ok [OF assms(2)] assms(2) by (auto simp: yield_def split: if_splits)
next
  case step_exit
  then show ?thesis using exit_sys_ok [OF assms(2)] by blast
next
  case (step_schedule sw)
  then show ?thesis using schedule_sys_ok [OF assms(2)] by blast
next
  case (step_usage pct)
  then show ?thesis using statistics_sys_ok(1) [OF assms(2)] by auto
next
  case step_reset
  then show ?thesis using statistics_sys_ok(2) [OF assms(2)] by auto
qed

lemma reach_sys_ok:
  assumes "sched_reach kx st0 st" and "boot_ok e kx st0"
  shows "\<exists>xs. sys_ok e st xs"
  using assms
proof (induction rule: sched_reach.induct)
  case (reach_init st)
  then show ?case using tasking_init_ok by blast
next
  case (reach_step st st')
  then show ?case using step_sys_ok by blast
qed

text \<open>A task can be created exactly when the heap has room for its structure and its stack.\<close>

definition task_memory :: "sched \<Rightarrow> bool" where
  "task_memory st =
     (let (p, h) = kmalloc SIZEOF_TASK (sk_heap st) in p \<noteq> 0 \<and> fst (kmalloc KSTACK_SIZE h) \<noteq> 0)"

lemma create_task_total:
  assumes ok: "sys_ok e st xs"
  shows "(\<exists>r. create_task name pgdir user (\<lambda>t. prepare_stack t ws) st = Inr r) \<longleftrightarrow> task_memory st"
proof -
  obtain p h1 where k1: "kmalloc SIZEOF_TASK (sk_heap st) = (p, h1)" by fastforce
  obtain base h2 where k2: "kmalloc KSTACK_SIZE h1 = (base, h2)" by fastforce
  obtain q where q: "tasks st (g_readyq st) = Some q" "g_readyq st \<noteq> 0"
    using ok ring_readyq by (metis sched_ok_def sys_ok_def)
  then have rq: "\<exists>q'. tasks (st\<lparr>tasks := (tasks st)(p \<mapsto> x)\<rparr>) (g_readyq st) = Some q'" for x by simp
  obtain sp mem where pw: "push_words ws ((base + KSTACK_SIZE) AND NOT 0xF) (sk_stack st) = (sp, mem)" by fastforce
  show ?thesis
    using k1 k2 q pw
    by (auto simp: create_task_def task_alloc_def task_memory_def prepare_stack_def rq_push_def task_at_def upd_task_def Let_def
        split: option.splits)
qed

lemma creation_total:
  assumes "sys_ok e st xs"
  shows "(\<exists>r. kthread_create kx entry arg name st = Inr r) \<longleftrightarrow> task_memory st"
    and "(\<exists>r. proc_create_user kx eu ustk pd name st = Inr r) \<longleftrightarrow> task_memory st"
  unfolding kthread_create_def prepare_kthread_stack_def proc_create_user_def prepare_user_first_switch_def
  using create_task_total [OF assms] by blast+

lemma current_task_lives:
  assumes "sys_ok e st xs"
  obtains t where "tasks st (g_current st) = Some t" and "g_current st = g_readyq st"
  using assms ring_readyq by (metis sched_ok_def sys_ok_def)

lemma timer_total:
  assumes ok: "sys_ok e st xs"
  shows "\<exists>r. schedule_from_timer st = Inr r"
proof -
  define st2 where "st2 = (if g_idle_task st \<noteq> 0 \<and> g_current st = g_idle_task st
    then st\<lparr>g_cpu_total_ticks := g_cpu_total_ticks st + 1, g_cpu_idle_ticks := g_cpu_idle_ticks st + 1\<rparr>
    else st\<lparr>g_cpu_total_ticks := g_cpu_total_ticks st + 1\<rparr>)"
  have ok2: "sys_ok e st2 xs" using ok by (simp add: st2_def sys_ok_counters)
  obtain c where "tasks st (g_current st) = Some c" using current_task_lives [OF ok] .
  then have c: "tasks st2 (g_current st) = Some c" by (auto simp: st2_def)
  then obtain st3 where st3: "upd_task (g_current st) (\<lambda>x. x\<lparr>t_time_slice := TIME_SLICE_TICKS\<rparr>) st2 = Inr st3"
    by (simp add: upd_task_def)
  have "sys_ok e st3 xs" by (rule upd_task_frame [OF ok2 st3]) simp
  then obtain r where "schedule st3 = Inr r" using schedule_total [of st3 xs] by (auto simp: sys_ok_def)
  then show ?thesis
    using st3 c by (auto simp: schedule_from_timer_def Let_def st2_def task_at_def upd_task_def split: if_splits)
qed

text \<open>C12: in every state the scheduler can reach from boot by creating kernel threads and processes,
  timer ticks, voluntary yields, calls of \<open>schedule\<close>, thread exits and readings and resets of the CPU statistics,
  the \<open>next\<close> pointers form one ring of live tasks that ends with the current task, and at most one task
  is marked running and it is the current one. In each such state the next timer tick, yield, call of \<open>schedule\<close>
  and thread exit returns without a fault, and a thread or a process can be created exactly when the
  heap has room for a task structure and a stack (\<open>task_alloc\<close> does not test for null).\<close>

theorem sched_invariant:
  assumes "boot_ok e kx st0" and "sched_reach kx st0 st"
  shows "(\<exists>xs. ring st xs \<and> last xs = g_current st \<and> (\<forall>a\<in>set xs. state_of st a = Some TASK_RUNNING \<longrightarrow> a = g_current st)) \<and>
    (\<exists>r. schedule st = Inr r) \<and> (\<exists>r. schedule_from_timer st = Inr r) \<and> (\<exists>r. yield st = Inr r) \<and>
    (\<exists>st'. thread_exit st = Inr st') \<and>
    (\<forall>entry arg name. (\<exists>r. kthread_create kx entry arg name st = Inr r) \<longleftrightarrow> task_memory st) \<and>
    (\<forall>entry ustk pd name. (\<exists>r. proc_create_user kx entry ustk pd name st = Inr r) \<longleftrightarrow> task_memory st)"
proof -
  obtain xs where sys: "sys_ok e st xs" using reach_sys_ok [OF assms(2,1)] by blast
  then have ok: "sched_ok st xs" by (simp add: sys_ok_def)
  then have "ring st xs \<and> last xs = g_current st \<and> (\<forall>a\<in>set xs. state_of st a = Some TASK_RUNNING \<longrightarrow> a = g_current st)"
    by (auto simp: sched_ok_def ring_def)
  moreover have s: "\<exists>r. schedule st = Inr r" using schedule_total [OF ok] by blast
  moreover have "\<exists>r. yield st = Inr r" using s by (simp add: yield_def)
  moreover have "\<exists>st'. thread_exit st = Inr st'"
    by (rule current_task_lives [OF sys]) (simp add: thread_exit_def upd_task_def)
  ultimately show ?thesis using timer_total [OF sys] creation_total [OF sys] by (simp only: simp_thms) blast
qed

definition demo_ktext :: ktext where
  "demo_ktext = \<lparr>kx_trampoline = 0x101000, kx_user_trampoline = 0x102000, kx_idle = 0x103000, kx_worker = 0x104000,
     kx_bootstrap = 0x200000, kx_pgdir = 0x300000\<rparr>"

definition demo_boot :: sched where
  "demo_boot = \<lparr>tasks = (\<lambda>_. None), g_current = 0, g_readyq = 0, g_next_tid = 1, sched_enabled = False, g_idle_task = 0,
     g_cpu_total_ticks = 0, g_cpu_idle_ticks = 0, prev_total = 0, prev_idle = 0,
     sk_heap = \<lparr>kheap_begin = 0x400000, kheap_end = 0x500000, kheap_brk = 0x400000\<rparr>, sk_stack = (\<lambda>_. None),
     sk_rsp0 = 0, sk_loaded_pgdir = 0\<rparr>"

definition demo_run :: "(sched \<times> (u64 \<times> u64) option) res" where
  "demo_run = rbind (tasking_init demo_ktext demo_boot) (\<lambda>st. rbind (start_scheduler demo_ktext st) schedule_from_timer)"

lemma demo_boot_ok: "boot_ok 0x500000 demo_ktext demo_boot"
  by (simp add: boot_ok_def kheap_ok_def demo_boot_def demo_ktext_def)

lemma demo_run_switches:
  "case demo_run of Inr (st, Some (p, a)) \<Rightarrow> p = 0x200000 \<and> g_current st = a \<and> state_of st a = Some TASK_RUNNING | _ \<Rightarrow> False"
  by code_simp

lemma demo_reach: "\<exists>st a. demo_run = Inr (st, Some (0x200000, a)) \<and> sched_reach demo_ktext demo_boot st"
proof -
  obtain st a where r: "demo_run = Inr (st, Some (0x200000, a))"
    using demo_run_switches by (auto split: sum.splits option.splits prod.splits)
  then obtain st1 st2 where "tasking_init demo_ktext demo_boot = Inr st1" "start_scheduler demo_ktext st1 = Inr st2"
    "schedule_from_timer st2 = Inr (st, Some (0x200000, a))"
    by (auto simp: demo_run_def res_simps)
  then have "sched_reach demo_ktext demo_boot st"
    by (meson reach_init reach_step step_start step_timer)
  with r show ?thesis by blast
qed

theorem sched_invariant_witness:
  "\<exists>st xs a r. demo_run = Inr (st, Some (0x200000, a)) \<and> ring st xs \<and> last xs = g_current st \<and> schedule_from_timer st = Inr r"
proof -
  obtain st a where r: "demo_run = Inr (st, Some (0x200000, a))" and reach: "sched_reach demo_ktext demo_boot st"
    using demo_reach by blast
  from sched_invariant [OF demo_boot_ok reach] r show ?thesis by blast
qed

subsection \<open>Round robin\<close>

text \<open>C13: \<open>schedule\<close> switches to the first ready task after the current one in the order of the ring, skipping
  tasks that are running, blocked or zombies, and puts it last; when no task is ready it changes
  nothing. It never faults. The ring has at most 1024 tasks, the bound of the search loop.\<close>

theorem schedule_round_robin:
  assumes "sched_ok st xs" and "length xs \<le> 1024"
  shows "if \<exists>a\<in>set xs. ready st a
    then \<exists>ys a zs st'. xs = ys @ a # zs \<and> (\<forall>y\<in>set ys. \<not> ready st y) \<and> ready st a \<and>
      schedule st = Inr (st', Some (g_current st, a)) \<and> sched_ok st' (zs @ ys @ [a]) \<and>
      g_current st' = a \<and> state_of st' a = Some TASK_RUNNING \<and>
      (\<forall>b. b \<noteq> a \<longrightarrow> state_of st' b = (if b = g_current st \<and> state_of st b = Some TASK_RUNNING
         then Some TASK_READY else state_of st b))
    else schedule st = Inr (st, None)"
proof -
  have r: "ring st xs" using assms(1) by (simp add: sched_ok_def)
  show ?thesis
  proof (cases "find (ready st) xs")
    case None
    then have "\<not> (\<exists>a\<in>set xs. ready st a)" by (auto simp: find_None_iff)
    with schedule_idle [OF r assms(2) None] show ?thesis by simp
  next
    case (Some a)
    obtain ys zs where xs: "xs = ys @ a # zs" "\<forall>y\<in>set ys. \<not> ready st y" "ready st a"
      using find_first_split [OF Some] by metis
    have "pick 1024 st (hd xs) (hd xs) = Inr a" using pick_ring [OF r assms(2)] Some by simp
    from schedule_switch [OF assms(1) this xs(3,1)] obtain st' where
      "schedule st = Inr (st', Some (g_current st, a))" "sched_ok st' (zs @ ys @ [a])" "g_current st' = a"
      "state_of st' a = Some TASK_RUNNING"
      "\<forall>b. b \<noteq> a \<longrightarrow> state_of st' b = (if b = g_current st \<and> state_of st b = Some TASK_RUNNING
           then Some TASK_READY else state_of st b)" by metis
    moreover have "\<exists>a\<in>set xs. ready st a" using xs by auto
    ultimately show ?thesis using xs by auto
  qed
qed

lemma demo_sched_ok: "\<exists>st xs. rbind (tasking_init demo_ktext demo_boot) (start_scheduler demo_ktext) = Inr st \<and>
    sched_ok st xs \<and> length xs = 4 \<and> (\<exists>a\<in>set xs. ready st a)"
proof -
  obtain st1 st2 where i: "tasking_init demo_ktext demo_boot = Inr st1" and st: "start_scheduler demo_ktext st1 = Inr st2"
    using demo_reach by (auto simp: demo_run_def res_simps)
  obtain t0 where ok1: "sys_ok 0x500000 st1 [t0, kx_bootstrap demo_ktext]"
    using tasking_init_ok [OF demo_boot_ok i] by blast
  from st obtain t1 s1 t2 s2 where
    c1: "kthread_create demo_ktext (kx_worker demo_ktext) 0 (Some ''worker#1'') st1 = Inr (t1, s1)" and
    c2: "kthread_create demo_ktext (kx_worker demo_ktext) 0 (Some ''worker#2'') s1 = Inr (t2, s2)" and
    st2: "st2 = s2\<lparr>sched_enabled := True\<rparr>"
    by (auto simp: start_scheduler_def res_simps split: prod.splits)
  from kthread_create_ok [OF ok1 c1] have ok2: "sys_ok 0x500000 s1 [t1, t0, kx_bootstrap demo_ktext]" by simp
  from kthread_create_ok [OF ok2 c2] have "sys_ok 0x500000 s2 [t2, t1, t0, kx_bootstrap demo_ktext]" "ready s2 t2" by auto
  then have "sys_ok 0x500000 st2 [t2, t1, t0, kx_bootstrap demo_ktext]" "ready st2 t2"
    by (simp_all add: st2 sys_ok_counters ready_def state_of_def)
  then have "sched_ok st2 [t2, t1, t0, kx_bootstrap demo_ktext]" "ready st2 t2" by (simp_all add: sys_ok_def)
  with i st show ?thesis by (intro exI [of _ st2] exI [of _ "[t2, t1, t0, kx_bootstrap demo_ktext]"]) simp
qed

theorem schedule_round_robin_witness:
  "\<exists>st st' sw. rbind (tasking_init demo_ktext demo_boot) (start_scheduler demo_ktext) = Inr st \<and>
     schedule st = Inr (st', Some sw) \<and> fst sw = g_current st \<and> snd sw = g_current st'"
proof -
  obtain st xs where st: "rbind (tasking_init demo_ktext demo_boot) (start_scheduler demo_ktext) = Inr st"
    "sched_ok st xs" "length xs = 4" "\<exists>a\<in>set xs. ready st a" using demo_sched_ok by blast
  from schedule_round_robin [OF st(2)] st(3,4) obtain a st' where
    "schedule st = Inr (st', Some (g_current st, a))" "g_current st' = a" by auto
  with st(1) show ?thesis by (intro exI [of _ st] exI [of _ st'] exI [of _ "(g_current st, a)"]) simp
qed

subsection \<open>Bounded waiting\<close>

fun schedules :: "nat \<Rightarrow> sched \<Rightarrow> sched res" where
  "schedules 0 st = Inr st"
| "schedules (Suc k) st = rbind (schedule st) (\<lambda>(st', sw). schedules k st')"

lemma waits_bounded:
  assumes "sched_ok st xs" and "length xs \<le> 1024" and "i < length xs" and "ready st (xs ! i)"
  shows "\<exists>k st'. k \<le> Suc i \<and> schedules k st = Inr st' \<and> g_current st' = xs ! i"
  using assms
proof (induction i arbitrary: st xs rule: less_induct)
  case (less i)
  have r: "ring st xs" using less.prems(1) by (simp add: sched_ok_def)
  have ex: "\<exists>a\<in>set xs. ready st a" using less.prems(3,4) by auto
  have "\<exists>a. find (ready st) xs = Some a" using ex by (cases "find (ready st) xs") (auto simp: find_None_iff)
  then obtain a where a: "find (ready st) xs = Some a" by blast
  obtain ys zs where xs: "xs = ys @ a # zs" "\<forall>y\<in>set ys. \<not> ready st y" "ready st a"
    using find_first_split [OF a] by metis
  have "pick 1024 st (hd xs) (hd xs) = Inr a" using pick_ring [OF r less.prems(2)] a by simp
  from schedule_switch [OF less.prems(1) this xs(3,1)] obtain st' where
    run: "schedule st = Inr (st', Some (g_current st, a))" and ok': "sched_ok st' (zs @ ys @ [a])" and cur: "g_current st' = a"
    and oth: "\<forall>b. b \<noteq> a \<longrightarrow> state_of st' b = (if b = g_current st \<and> state_of st b = Some TASK_RUNNING
           then Some TASK_READY else state_of st b)" by metis
  have ge: "length ys \<le> i"
  proof (rule ccontr)
    assume "\<not> length ys \<le> i"
    then have "xs ! i \<in> set ys" using xs(1) by (simp add: nth_append)
    with xs(2) less.prems(4) show False by blast
  qed
  show ?case
  proof (cases "i = length ys")
    case True
    then have "xs ! i = a" using xs(1) by simp
    with run cur show ?thesis by (intro exI [of _ 1] exI [of _ st']) simp
  next
    case False
    define j where "j = i - Suc (length ys)"
    have j: "j < i" "j < length zs" and ij: "i = Suc (length ys + j)" using False ge less.prems(3) xs(1) by (auto simp: j_def)
    have zi: "xs ! i = zs ! j" using xs(1) by (simp add: ij nth_append)
    have d: "distinct xs" using r by (simp add: ring_def)
    then have "zs ! j \<noteq> a" using xs(1) nth_mem [OF j(2)] by auto
    then have "ready st' (zs ! j)" using oth less.prems(4) zi by (simp add: ready_def)
    moreover have "(zs @ ys @ [a]) ! j = zs ! j" using j(2) by (simp add: nth_append)
    moreover have "length (zs @ ys @ [a]) = length xs" using xs(1) by simp
    ultimately obtain k st'' where "k \<le> Suc j" "schedules k st' = Inr st''" "g_current st'' = zs ! j"
      using less.IH [OF j(1) ok'] less.prems(2) j(2) by auto
    with run zi j show ?thesis by (intro exI [of _ "Suc k"] exI [of _ st'']) simp
  qed
qed

text \<open>C14: bounded waiting. A ready task at position \<open>i\<close> of the ring is the current task after at most
  \<open>i + 1\<close> calls of \<open>schedule\<close>, as long as no task is created meanwhile and the ring has at most 1024
  tasks, the bound of the search loop.\<close>

theorem schedule_bounded_waiting:
  assumes "sched_ok st xs" and "length xs \<le> 1024" and "i < length xs" and "ready st (xs ! i)"
  shows "\<exists>k st'. k \<le> Suc i \<and> schedules k st = Inr st' \<and> g_current st' = xs ! i"
  using assms by (rule waits_bounded)

theorem schedule_bounded_waiting_witness:
  "\<exists>st a k st'. rbind (tasking_init demo_ktext demo_boot) (start_scheduler demo_ktext) = Inr st \<and> ready st a \<and>
     k \<le> 4 \<and> schedules k st = Inr st' \<and> g_current st' = a"
proof -
  obtain st xs where st: "rbind (tasking_init demo_ktext demo_boot) (start_scheduler demo_ktext) = Inr st"
    "sched_ok st xs" "length xs = 4" "\<exists>a\<in>set xs. ready st a" using demo_sched_ok by blast
  then obtain i where i: "i < length xs" "ready st (xs ! i)" by (auto simp: in_set_conv_nth)
  from schedule_bounded_waiting [OF st(2) _ i] st(3) obtain k st' where
    "k \<le> Suc i" "schedules k st = Inr st'" "g_current st' = xs ! i" by auto
  with st i show ?thesis by (intro exI [of _ st] exI [of _ "xs ! i"] exI [of _ k] exI [of _ st']) simp
qed

subsection \<open>Statistics and enumeration\<close>

text \<open>the usage shown by the system monitor. When the counters did not go backwards since the last call,
  idle ticks do not exceed all ticks, and fewer than \<open>2 ^ 57\<close> ticks passed,
  \<open>task_cpu_usage_percent\<close> is the share of busy ticks in percent, rounded down, and the next call
  starts from the present counters.\<close>

theorem cpu_usage_exact:
  assumes "unat (prev_total st) < unat (g_cpu_total_ticks st)" and "unat (prev_idle st) \<le> unat (g_cpu_idle_ticks st)"
    and "unat (g_cpu_idle_ticks st) - unat (prev_idle st) \<le> unat (g_cpu_total_ticks st) - unat (prev_total st)"
    and "unat (g_cpu_total_ticks st) - unat (prev_total st) < 2 ^ 57"
  shows "\<exists>pct st'. task_cpu_usage_percent st = (pct, st') \<and>
    unat pct = 100 * ((unat (g_cpu_total_ticks st) - unat (prev_total st)) - (unat (g_cpu_idle_ticks st) - unat (prev_idle st)))
      div (unat (g_cpu_total_ticks st) - unat (prev_total st)) \<and>
    prev_total st' = g_cpu_total_ticks st \<and> prev_idle st' = g_cpu_idle_ticks st"
proof -
  define dt where "dt = g_cpu_total_ticks st - prev_total st"
  define di where "di = g_cpu_idle_ticks st - prev_idle st"
  define busy where "busy = (if dt > di then dt - di else 0)"
  have udt: "unat dt = unat (g_cpu_total_ticks st) - unat (prev_total st)"
    and udi: "unat di = unat (g_cpu_idle_ticks st) - unat (prev_idle st)"
    using assms(1,2) by (simp_all add: dt_def di_def unat_sub word_le_nat_alt)
  have ub: "unat busy = unat dt - unat di"
    by (auto simp: busy_def unat_sub word_less_nat_alt word_le_nat_alt not_less)
  have dt0: "0 < unat dt" "unat dt < 2 ^ 57" using assms(1,4) udt by auto
  have "unat (busy * 100) = unat busy * 100" using ub dt0 by (simp add: unat_word_ariths)
  then have q: "unat (busy * 100 div dt) = unat busy * 100 div unat dt" by (simp add: unat_div)
  have "unat busy * 100 \<le> 100 * unat dt" using ub by simp
  then have le: "unat busy * 100 div unat dt \<le> 100" using dt0 by (simp add: div_le_mono2 less_mult_imp_div_less
      le_trans [OF div_le_mono [of _ "100 * unat dt" "unat dt"]])
  have u32: "unat (ucast (busy * 100 div dt) :: u32) = unat busy * 100 div unat dt"
    using q le by (subst unsigned_ucast_eq) (simp add: take_bit_nat_eq_self)
  then have "\<not> (ucast (busy * 100 div dt) :: u32) > 100" using le by (simp add: word_less_nat_alt)
  moreover have "dt \<noteq> 0" using dt0 by auto
  ultimately have "fst (task_cpu_usage_percent st) = ucast (busy * 100 div dt)"
    "prev_total (snd (task_cpu_usage_percent st)) = g_cpu_total_ticks st"
    "prev_idle (snd (task_cpu_usage_percent st)) = g_cpu_idle_ticks st"
    by (simp_all add: task_cpu_usage_percent_def Let_def dt_def [symmetric] di_def [symmetric] busy_def [symmetric])
  moreover obtain pct st' where "task_cpu_usage_percent st = (pct, st')" by fastforce
  ultimately show ?thesis using u32 ub udt udi by (simp add: mult.commute)
qed

theorem cpu_usage_exact_witness:
  "\<exists>pct st'. task_cpu_usage_percent (demo_boot\<lparr>g_cpu_total_ticks := 300, g_cpu_idle_ticks := 75\<rparr>) = (pct, st') \<and> unat pct = 75"
  using cpu_usage_exact [of "demo_boot\<lparr>g_cpu_total_ticks := 300, g_cpu_idle_ticks := 75\<rparr>"]
  by (auto simp: demo_boot_def)

text \<open>\<open>task_cpu_reset\<close> clears the counters but not the previous sample, so the first reading after it can
  be wrong: here the processor was never idle since the reset and the reading is 0 percent.\<close>

lemma cpu_reset_reading:
  "fst (task_cpu_usage_percent ((task_cpu_reset (demo_boot\<lparr>prev_total := 100, prev_idle := 50\<rparr>))\<lparr>g_cpu_total_ticks := 10\<rparr>)) = 0"
  by (simp add: task_cpu_usage_percent_def task_cpu_reset_def demo_boot_def)

lemma enum_next_ring:
  assumes r: "ring st xs" and i: "i < length xs"
  shows "task_enum_next st (xs ! i) = Inr (if Suc i < length xs then xs ! Suc i else 0)"
proof -
  obtain q where q: "tasks st (g_readyq st) = Some q" "t_next q = hd xs" "g_readyq st \<noteq> 0" "hd xs \<noteq> 0"
    using ring_readyq [OF r] .
  obtain t where t: "tasks st (xs ! i) = Some t" "t_next t = xs ! (Suc i mod length xs)"
    using r i by (auto simp: ring_def next_links_def)
  have hd: "hd xs = xs ! 0" using i by (cases xs) auto
  have "Suc i mod length xs < length xs" using i by (intro mod_less_divisor) auto
  then have nz: "xs ! i \<noteq> 0" "xs ! (Suc i mod length xs) \<noteq> 0" using r i by (metis nth_mem ring_def)+
  have "t_next t = hd xs \<longleftrightarrow> \<not> Suc i < length xs"
  proof (cases "Suc i < length xs")
    case True
    then show ?thesis using r t hd by (simp add: ring_def nth_eq_iff_index_eq)
  next
    case False
    then have "Suc i = length xs" using i by simp
    then show ?thesis using t hd by simp
  qed
  then show ?thesis using q t nz by (auto simp: task_enum_next_def task_at_def)
qed

lemma enum_from_ring:
  "ring st xs \<Longrightarrow> i < length xs \<Longrightarrow> length xs - i < k \<Longrightarrow> enum_from k st (xs ! i) = Inr (drop i xs)"
proof (induction k arbitrary: i)
  case 0
  then show ?case by simp
next
  case (Suc k)
  have nz: "xs ! i \<noteq> 0" using Suc.prems by (metis nth_mem ring_def)
  have d: "drop i xs = xs ! i # drop (Suc i) xs" using Suc.prems by (simp add: Cons_nth_drop_Suc)
  show ?case
  proof (cases "Suc i < length xs")
    case True
    then show ?thesis using Suc.IH [OF Suc.prems(1) True] Suc.prems nz d by (simp add: enum_next_ring)
  next
    case False
    then obtain m where "k = Suc m" using Suc.prems by (cases k) auto
    with False Suc.prems nz d show ?thesis by (simp add: enum_next_ring)
  qed
qed

text \<open>enumerating tasks with \<open>task_enum_head\<close> and \<open>task_enum_next\<close> until null ends after one round of
  the ring and visits every task of it exactly once, the one that will be looked at next first.\<close>

theorem task_enumeration:
  assumes "ring st xs" and "length xs < k"
  shows "rbind (task_enum_head st) (enum_from k st) = Inr xs \<and> distinct xs"
proof -
  obtain q where q: "tasks st (g_readyq st) = Some q" "t_next q = hd xs" "g_readyq st \<noteq> 0" "hd xs \<noteq> 0"
    using ring_readyq [OF assms(1)] .
  have "0 < length xs" "hd xs = xs ! 0" "distinct xs" using assms(1) by (auto simp: ring_def hd_conv_nth)
  with enum_from_ring [OF assms(1), of 0 k] assms(2) q show ?thesis by (simp add: task_enum_head_def task_at_def)
qed

theorem task_enumeration_witness:
  "\<exists>st xs. rbind (tasking_init demo_ktext demo_boot) (start_scheduler demo_ktext) = Inr st \<and> length xs = 4 \<and>
     rbind (task_enum_head st) (enum_from 5 st) = Inr xs"
proof -
  obtain st xs where st: "rbind (tasking_init demo_ktext demo_boot) (start_scheduler demo_ktext) = Inr st"
    "sched_ok st xs" "length xs = 4" using demo_sched_ok by blast
  have "ring st xs" using st(2) by (simp add: sched_ok_def)
  from task_enumeration [OF this, of 5] st show ?thesis by auto
qed

end
