(* ===== verification/Mbr.thy ===== *)
theory Mbr
  imports Kernel_Prelude
begin

text \<open>
  The partition table of the first sector, \<open>src/kernel/fs_mbr.c\<close>.
\<close>

record mbr_part_t =
  mp_status :: u8
  mp_chs_first :: "u8 list"
  mp_type :: u8
  mp_chs_last :: "u8 list"
  mp_lba_first :: u32
  mp_sectors :: u32

record mbr_t =
  mbr_parts :: "mbr_part_t list"
  mbr_valid :: bool

definition zero_part :: mbr_part_t where
  "zero_part = \<lparr>mp_status = 0, mp_chs_first = [0, 0, 0], mp_type = 0, mp_chs_last = [0, 0, 0], mp_lba_first = 0, mp_sectors = 0\<rparr>"

text \<open>One packed entry of 16 bytes.\<close>

definition mbr_part_at :: "u8 list \<Rightarrow> nat \<Rightarrow> mbr_part_t res" where
  "mbr_part_at b off =
     rbind (ld8 b off) (\<lambda>st. rbind (ld_bytes b (off + 1) 3) (\<lambda>cf. rbind (ld8 b (off + 4)) (\<lambda>ty.
     rbind (ld_bytes b (off + 5) 3) (\<lambda>cl. rbind (ld32 b (off + 8)) (\<lambda>lba. rbind (ld32 b (off + 12)) (\<lambda>n.
       Inr \<lparr>mp_status = st, mp_chs_first = cf, mp_type = ty, mp_chs_last = cl, mp_lba_first = lba,
            mp_sectors = n\<rparr>))))))"

fun parts_from :: "u8 list \<Rightarrow> nat list \<Rightarrow> mbr_part_t list res" where
  "parts_from b [] = Inr []"
| "parts_from b (i # is) =
     rbind (mbr_part_at b (446 + 16 * i)) (\<lambda>p. rbind (parts_from b is) (\<lambda>ps. Inr (p # ps)))"

text \<open>The signature test reads \<open>b[511]\<close> only when \<open>b[510]\<close> is right.\<close>

definition mbr_parse :: "u8 list \<Rightarrow> (int \<times> mbr_t) res" where
  "mbr_parse b =
     rbind (ld8 b 510) (\<lambda>s0.
     rbind (if s0 \<noteq> 0x55 then Inr True else rbind (ld8 b 511) (\<lambda>s1. Inr (s1 \<noteq> 0xAA))) (\<lambda>bad.
     if bad then Inr (-2, \<lparr>mbr_parts = replicate 4 zero_part, mbr_valid = False\<rparr>)
     else rbind (parts_from b [0..<4]) (\<lambda>ps. Inr (0, \<lparr>mbr_parts = ps, mbr_valid = True\<rparr>))))"

text \<open>Writing a table, the inverse the parser is measured against.\<close>

definition part_bytes :: "mbr_part_t \<Rightarrow> u8 list" where
  "part_bytes p = [mp_status p] @ mp_chs_first p @ [mp_type p] @ mp_chs_last p @ le_bytes 4 (mp_lba_first p)
     @ le_bytes 4 (mp_sectors p)"

definition part_wf :: "mbr_part_t \<Rightarrow> bool" where
  "part_wf p \<longleftrightarrow> length (mp_chs_first p) = 3 \<and> length (mp_chs_last p) = 3"

lemma length_part_bytes: "part_wf p \<Longrightarrow> length (part_bytes p) = 16"
  by (simp add: part_bytes_def part_wf_def)

lemma nth_drop_add: "i + k < length xs \<Longrightarrow> xs ! (i + k) = drop i xs ! k"
  by simp

lemma mbr_part_at_bytes:
  assumes wf: "part_wf p" and b: "take 16 (drop off b) = part_bytes p"
  shows "mbr_part_at b off = Inr p"
proof -
  have "length (take 16 (drop off b)) = 16" using length_part_bytes [OF wf] b by simp
  then have len: "off + 16 \<le> length b" by simp
  have sub: "take n (drop (off + k) b) = take n (drop k (part_bytes p))" if "k + n \<le> 16" for k n
    by (rule take_drop_within [OF b that])
  have nth: "b ! (off + k) = part_bytes p ! k" if "k < 16" for k
    using that len arg_cong [OF b, of "\<lambda>x. x ! k"] by simp
  have l8: "ld8 b (off + k) = Inr (part_bytes p ! k)" if "k < 16" for k
    using that nth len by (simp add: ld8_def)
  have lb: "ld_bytes b (off + k) n = Inr (take n (drop k (part_bytes p)))" if "k + n \<le> 16" for k n
    using that sub len by (simp add: ld_bytes_def)
  have l32: "ld32 b (off + k) = Inr (le_word (take 4 (drop k (part_bytes p))))" if "k + 4 \<le> 16" for k
    using that sub len by (simp add: ld_le_def)
  obtain c1 c2 c3 where cf: "mp_chs_first p = [c1, c2, c3]"
    using wf by (auto simp: part_wf_def length_Suc_conv eval_nat_numeral)
  obtain d1 d2 d3 where cl: "mp_chs_last p = [d1, d2, d3]"
    using wf by (auto simp: part_wf_def length_Suc_conv eval_nat_numeral)
  have pb: "part_bytes p = [mp_status p, c1, c2, c3, mp_type p, d1, d2, d3] @ le_bytes 4 (mp_lba_first p) @ le_bytes 4 (mp_sectors p)"
    by (simp add: part_bytes_def cf cl)
  have "mbr_part_at b off = Inr \<lparr>mp_status = mp_status p, mp_chs_first = [c1, c2, c3], mp_type = mp_type p,
      mp_chs_last = [d1, d2, d3], mp_lba_first = mp_lba_first p, mp_sectors = mp_sectors p\<rparr>"
    using l8 [of 0] l8 [of 4] lb [of 1 3] lb [of 5 3] l32 [of 8] l32 [of 12]
    by (simp add: mbr_part_at_def pb le_word_le_bytes_full)
  then show ?thesis using cf cl by (cases p) simp
qed

lemma take_drop_concat:
  "i < length xs \<Longrightarrow> \<forall>x\<in>set xs. length (f x) = n \<Longrightarrow> take n (drop (n * i) (concat (map f xs) @ rest)) = f (xs ! i)"
proof (induction xs arbitrary: i)
  case (Cons x xs)
  then show ?case by (cases i) auto
qed simp

lemma parts_from_bytes:
  assumes "\<forall>i\<in>set is. i < length ps" and "\<forall>p\<in>set ps. part_wf p"
    and "drop 446 b = concat (map part_bytes ps) @ rest"
  shows "parts_from b is = Inr (map (\<lambda>i. ps ! i) is)"
  using assms(1)
proof (induction "is")
  case (Cons i "is")
  have "take 16 (drop (446 + 16 * i) b) = part_bytes (ps ! i)"
    using take_drop_concat [of i ps part_bytes 16 rest] Cons.prems assms(2,3) length_part_bytes
    by (simp add: drop_drop [symmetric] add.commute del: drop_drop)
  with mbr_part_at_bytes [of "ps ! i"] Cons assms(2) show ?case by simp
qed simp

text \<open>parsing undoes writing. A boot sector with a table of four entries at offset 446 and the signature
  \<open>55 AA\<close> is parsed to exactly these entries.\<close>

theorem mbr_parse_roundtrip:
  assumes "length code = 446" and "length ps = 4" and "\<forall>p\<in>set ps. part_wf p"
  shows "mbr_parse (code @ concat (map part_bytes ps) @ [0x55, 0xAA]) = Inr (0, \<lparr>mbr_parts = ps, mbr_valid = True\<rparr>)"
proof -
  let ?b = "code @ concat (map part_bytes ps) @ [0x55, 0xAA]"
  have lc: "length (concat (map part_bytes ps)) = 64"
  proof -
    have "length (concat (map part_bytes qs)) = 16 * length qs" if "\<forall>p\<in>set qs. part_wf p" for qs
      using that by (induction qs) (simp_all add: length_part_bytes)
    with assms show ?thesis by simp
  qed
  have "?b ! 510 = 0x55" "?b ! 511 = 0xAA" using assms(1) lc by (simp_all add: nth_append)
  moreover have "length ?b = 512" using assms(1) lc by simp
  moreover have "parts_from ?b [0..<4] = Inr (map (\<lambda>i. ps ! i) [0..<4])"
    by (rule parts_from_bytes [where ps = ps and rest = "[0x55, 0xAA]"]) (use assms in auto)
  moreover have "map (\<lambda>i. ps ! i) [0..<4] = ps" using assms(2) map_nth [of ps] by simp
  ultimately show ?thesis by (simp add: mbr_parse_def ld8_def)
qed

theorem mbr_parse_roundtrip_witness:
  "mbr_parse (replicate 446 0 @ concat (map part_bytes [zero_part\<lparr>mp_type := 12, mp_lba_first := 2048, mp_sectors := 131072\<rparr>,
      zero_part, zero_part, zero_part]) @ [0x55, 0xAA]) =
    Inr (0, \<lparr>mbr_parts = [zero_part\<lparr>mp_type := 12, mp_lba_first := 2048, mp_sectors := 131072\<rparr>, zero_part, zero_part, zero_part],
      mbr_valid = True\<rparr>)"
  using mbr_parse_roundtrip [of "replicate 446 0" "[zero_part\<lparr>mp_type := 12, mp_lba_first := 2048, mp_sectors := 131072\<rparr>,
      zero_part, zero_part, zero_part]"] by (simp add: part_wf_def zero_part_def)

text \<open>a sector of 512 bytes without the signature is refused with \<open>-2\<close> and an empty table, and no byte of
  its entries is interpreted.\<close>

theorem mbr_parse_refuses:
  assumes "length b = 512" and "b ! 510 \<noteq> 0x55 \<or> b ! 511 \<noteq> 0xAA"
  shows "mbr_parse b = Inr (-2, \<lparr>mbr_parts = replicate 4 zero_part, mbr_valid = False\<rparr>)"
  using assms by (auto simp: mbr_parse_def ld8_def)

theorem mbr_parse_refuses_witness:
  "mbr_parse (replicate 512 0) = Inr (-2, \<lparr>mbr_parts = replicate 4 zero_part, mbr_valid = False\<rparr>)"
  using mbr_parse_refuses [of "replicate 512 0"] by simp

end
