(* ===== verification/Wav.thy ===== *)
theory Wav
  imports Kernel_Prelude
begin

text \<open>
  The WAV parser of \<open>src/kernel/wav.c\<close>. The buffer is the list of its bytes, \<open>len\<close> the length the
  caller passes. The loop over the chunks runs on fuel: its position is a 32-bit sum of sizes from
  the file, so it need not end. For RIFF files that are sequences of chunks of even size it is shown to find
  what the last format chunk and the last data chunk say.
\<close>

subsection \<open>The parser\<close>

record wav_info =
  wav_rate :: u32
  wav_channels :: u16
  wav_bits :: u16
  wav_data :: nat
  wav_data_bytes :: u32

text \<open>The local variables of the loop; \<open>data\<close> is an offset into the buffer, \<open>None\<close> for the null pointer.\<close>

record wav_state =
  ws_pos :: u32
  ws_fmt :: u16
  ws_channels :: u16
  ws_rate :: u32
  ws_bits :: u16
  ws_data :: "nat option"
  ws_bytes :: u32

abbreviation FMT_ID :: u32 where "FMT_ID \<equiv> 0x20746d66"
abbreviation DATA_ID :: u32 where "DATA_ID \<equiv> 0x61746164"

definition wav_step :: "u8 list \<Rightarrow> u32 \<Rightarrow> wav_state \<Rightarrow> (wav_state, int + wav_state) flow res" where
  "wav_step buf len s =
     rbind (ld32 buf (unat (ws_pos s))) (\<lambda>id.
     rbind (ld32 buf (unat (ws_pos s) + 4)) (\<lambda>sz.
     let pos = ws_pos s + 8 in
     if pos + sz > len then Inr (Return (Inr (s\<lparr>ws_pos := pos\<rparr>))) else
     if id = FMT_ID then
       if sz < 16 then Inr (Return (Inl (-1))) else
       rbind (ld16 buf (unat pos)) (\<lambda>fmt. rbind (ld16 buf (unat pos + 2)) (\<lambda>ch.
       rbind (ld32 buf (unat pos + 4)) (\<lambda>rate. rbind (ld16 buf (unat pos + 14)) (\<lambda>bits.
         Inr (Next (s\<lparr>ws_pos := pos + sz, ws_fmt := fmt, ws_channels := ch, ws_rate := rate, ws_bits := bits\<rparr>))))))
     else if id = DATA_ID then
       Inr (Next (s\<lparr>ws_pos := pos + sz, ws_data := Some (unat pos), ws_bytes := sz\<rparr>))
     else Inr (Next (s\<lparr>ws_pos := pos + sz\<rparr>))))"

definition wav_finish :: "wav_state \<Rightarrow> int \<times> wav_info option" where
  "wav_finish s =
     (case ws_data s of
        None \<Rightarrow> (-1, None)
      | Some d \<Rightarrow>
          if ws_fmt s \<noteq> 1 \<or> ws_bytes s = 0 \<or> (ws_bits s \<noteq> 8 \<and> ws_bits s \<noteq> 16) then (-1, None)
          else (0, Some \<lparr>wav_rate = ws_rate s, wav_channels = ws_channels s, wav_bits = ws_bits s,
                        wav_data = d, wav_data_bytes = ws_bytes s\<rparr>))"

definition wav_init :: wav_state where
  "wav_init = \<lparr>ws_pos = 12, ws_fmt = 0, ws_channels = 0, ws_rate = 0, ws_bits = 0, ws_data = None, ws_bytes = 0\<rparr>"

definition wav_parse :: "nat \<Rightarrow> u8 list \<Rightarrow> u32 \<Rightarrow> (int \<times> wav_info option) res" where
  "wav_parse fuel buf len =
     (if len < 44 then Inr (-1, None) else
      rbind (ld32 buf 0) (\<lambda>riff. rbind (if riff \<noteq> 0x46464952 then Inr 0 else ld32 buf 8) (\<lambda>wave.
      if riff \<noteq> 0x46464952 \<or> wave \<noteq> 0x45564157 then Inr (-1, None) else
      rbind (while_loop fuel (\<lambda>s. ws_pos s + 8 \<le> len) (wav_step buf len) wav_init) (\<lambda>fl. case fl of
        Return (Inl e) \<Rightarrow> Inr (e, None)
      | Return (Inr s) \<Rightarrow> Inr (wav_finish s)
      | Next s \<Rightarrow> Inr (wav_finish s)))))"

subsection \<open>Files as sequences of chunks\<close>

type_synonym chunk = "u32 \<times> u8 list"

text \<open>The format puts a byte of padding after a chunk of odd size, which the size does not count.\<close>

definition chunk_bytes :: "chunk \<Rightarrow> u8 list" where
  "chunk_bytes c = le_bytes 4 (fst c) @ le_bytes 4 (word_of_nat (length (snd c)) :: u32) @ snd c @ replicate (length (snd c) mod 2) 0"

definition riff_header :: "u32 \<Rightarrow> u8 list" where
  "riff_header sz = le_bytes 4 (0x46464952 :: u32) @ le_bytes 4 sz @ le_bytes 4 (0x45564157 :: u32)"

definition riff_file :: "u32 \<Rightarrow> chunk list \<Rightarrow> u8 list" where
  "riff_file sz cs = riff_header sz @ concat (map chunk_bytes cs)"

text \<open>What one chunk contributes.\<close>

definition wav_chunk :: "chunk \<Rightarrow> wav_state \<Rightarrow> wav_state" where
  "wav_chunk c s =
     (let pos = ws_pos s + 8; n = word_of_nat (length (snd c)); s' = s\<lparr>ws_pos := pos + n\<rparr>
      in if fst c = FMT_ID
         then s'\<lparr>ws_fmt := le_word (take 2 (snd c)), ws_channels := le_word (take 2 (drop 2 (snd c))),
                 ws_rate := le_word (take 4 (drop 4 (snd c))), ws_bits := le_word (take 2 (drop 14 (snd c)))\<rparr>
         else if fst c = DATA_ID then s'\<lparr>ws_data := Some (unat pos), ws_bytes := n\<rparr>
         else s')"

definition chunk_ok :: "chunk \<Rightarrow> bool" where
  "chunk_ok c \<longleftrightarrow> even (length (snd c)) \<and> (fst c = FMT_ID \<longrightarrow> 16 \<le> length (snd c))"

lemma chunk_bytes_even: "chunk_ok c \<Longrightarrow> chunk_bytes c = le_bytes 4 (fst c) @ le_bytes 4 (word_of_nat (length (snd c)) :: u32) @ snd c"
  by (simp add: chunk_bytes_def chunk_ok_def even_iff_mod_2_eq_zero)

lemma length_chunk_bytes [simp]: "chunk_ok c \<Longrightarrow> length (chunk_bytes c) = 8 + length (snd c)"
  by (simp add: chunk_bytes_even)

lemma wav_step_chunk:
  assumes buf: "buf = pre @ chunk_bytes c @ post" and pos: "unat (ws_pos s) = length pre"
    and len: "unat len = length buf" and ok: "chunk_ok c"
  shows "wav_step buf len s = Inr (Next (wav_chunk c s))"
    and "unat (ws_pos (wav_chunk c s)) = length (pre @ chunk_bytes c)"
    and "ws_pos s + 8 \<le> len"
proof -
  let ?n = "length (snd c)"
  note cb = chunk_bytes_even [OF ok]
  have small: "length pre + 8 + ?n + length post < 2 ^ 32" using unat_bound [of len] len buf ok by simp
  have un: "unat (word_of_nat ?n :: u32) = ?n" using small by (simp add: unat_of_nat)
  have u8: "unat (ws_pos s + 8) = length pre + 8" using pos small by (simp add: unat_word_ariths)
  have un8: "unat (ws_pos s + 8 + word_of_nat ?n) = length pre + 8 + ?n"
    using u8 un small by (simp add: unat_word_ariths)
  have d: "drop (length pre + k) buf = drop k (chunk_bytes c @ post)" for k by (simp add: buf)
  have l32: "ld32 buf (length pre) = Inr (fst c)" "ld32 buf (length pre + 4) = Inr (word_of_nat ?n)"
    using d [of 0] d [of 4] by (simp_all add: ld_le_def buf cb le_word_le_bytes_full)
  have ld2: "ld16 buf (length pre + (8 + k)) = Inr (le_word (take 2 (drop k (snd c))))" if "k + 2 \<le> ?n" for k
    using that d [of "8 + k"] by (simp add: ld_le_def buf cb)
  have ld4: "ld32 buf (length pre + (8 + k)) = Inr (le_word (take 4 (drop k (snd c))))" if "k + 4 \<le> ?n" for k
    using that d [of "8 + k"] by (simp add: ld_le_def buf cb)
  have fits: "\<not> ws_pos s + 8 + word_of_nat ?n > len"
    using un8 len ok by (simp add: word_less_nat_alt buf)
  have sz: "\<not> word_of_nat ?n < (16 :: u32)" if "fst c = FMT_ID"
    using that ok un by (simp add: chunk_ok_def word_less_nat_alt)
  show "wav_step buf len s = Inr (Next (wav_chunk c s))"
    using l32 fits sz ok ld2 [of 0] ld2 [of 2] ld4 [of 4] ld2 [of 14]
    by (auto simp: wav_step_def pos u8 wav_chunk_def Let_def chunk_ok_def add.commute)
  show "unat (ws_pos (wav_chunk c s)) = length (pre @ chunk_bytes c)"
    using un8 ok by (simp add: wav_chunk_def Let_def)
  show "ws_pos s + 8 \<le> len" using u8 len ok by (simp add: word_le_nat_alt buf)
qed

lemma wav_loop_chunks:
  assumes "buf = pre @ concat (map chunk_bytes cs)" and "unat (ws_pos s) = length pre" and "unat len = length buf"
    and "\<forall>c\<in>set cs. chunk_ok c" and "length cs < fuel" and "length buf + 8 < 2 ^ 32"
  shows "while_loop fuel (\<lambda>s. ws_pos s + 8 \<le> len) (wav_step buf len) s = Inr (Next (fold wav_chunk cs s))"
  using assms
proof (induction cs arbitrary: pre s fuel)
  case Nil
  then obtain k where "fuel = Suc k" by (cases fuel) auto
  moreover have "\<not> ws_pos s + 8 \<le> len"
    using Nil by (simp add: word_le_nat_alt unat_word_ariths)
  ultimately show ?case by simp
next
  case (Cons c cs)
  then obtain k where k: "fuel = Suc k" "length cs < k" by (cases fuel) auto
  have buf: "buf = pre @ chunk_bytes c @ concat (map chunk_bytes cs)" using Cons.prems(1) by simp
  have "chunk_ok c" using Cons.prems(4) by simp
  note st = wav_step_chunk [OF buf Cons.prems(2,3) this]
  have "buf = (pre @ chunk_bytes c) @ concat (map chunk_bytes cs)" by (simp add: buf)
  from Cons.IH [OF this st(2) Cons.prems(3) _ k(2) Cons.prems(6)] Cons.prems(4) st(1,3)
  show ?case by (simp add: k(1))
qed

text \<open>What a file says: the payload of the last chunk with an id, and the sound that the last format chunk and the last data chunk
  describe: uncompressed samples of 8 or 16 bits, not none at all.\<close>

definition last_chunk :: "u32 \<Rightarrow> chunk list \<Rightarrow> u8 list option" where
  "last_chunk i cs = map_option snd (List.find (\<lambda>c. fst c = i) (rev cs))"

definition wav_sound :: "chunk list \<Rightarrow> (u32 \<times> u16 \<times> u16 \<times> u8 list) option" where
  "wav_sound cs =
     (case (last_chunk FMT_ID cs, last_chunk DATA_ID cs) of
        (Some f, Some samples) \<Rightarrow>
          let fmt = le_word (take 2 f) :: u16; ch = le_word (take 2 (drop 2 f)); rate = le_word (take 4 (drop 4 f)); bits = le_word (take 2 (drop 14 f))
          in if fmt = 1 \<and> samples \<noteq> [] \<and> bits \<in> {8, 16} then Some (rate, ch, bits, samples) else None
      | _ \<Rightarrow> None)"

lemma last_chunk_snoc: "last_chunk i (cs @ [c]) = (if fst c = i then Some (snd c) else last_chunk i cs)"
  by (simp add: last_chunk_def)

lemma riff_file_snoc: "riff_file sz (cs @ [c]) = riff_file sz cs @ chunk_bytes c"
  by (simp add: riff_file_def)

text \<open>What the fold over the chunks leaves in the variables of the loop.\<close>

definition wav_found :: "u32 \<Rightarrow> chunk list \<Rightarrow> wav_state \<Rightarrow> bool" where
  "wav_found sz cs s \<longleftrightarrow> unat (ws_pos s) = length (riff_file sz cs) \<and>
     (case last_chunk FMT_ID cs of None \<Rightarrow> ws_fmt s = 0
      | Some f \<Rightarrow> ws_fmt s = le_word (take 2 f) \<and> ws_channels s = le_word (take 2 (drop 2 f)) \<and>
          ws_rate s = le_word (take 4 (drop 4 f)) \<and> ws_bits s = le_word (take 2 (drop 14 f))) \<and>
     (case last_chunk DATA_ID cs of None \<Rightarrow> ws_data s = None
      | Some p \<Rightarrow> \<exists>k. ws_data s = Some k \<and> unat (ws_bytes s) = length p \<and> k + length p \<le> length (riff_file sz cs) \<and>
          take (length p) (drop k (riff_file sz cs)) = p)"

lemma found_step:
  assumes f: "wav_found sz cs s" and ok: "chunk_ok c" and len: "length (riff_file sz (cs @ [c])) < 2 ^ 32"
  shows "wav_found sz (cs @ [c]) (wav_chunk c s)"
proof -
  let ?n = "length (snd c)" and ?l = "length (riff_file sz cs)"
  have small: "?l + 8 + ?n < 2 ^ 32" using len ok by (simp add: riff_file_snoc)
  have p: "unat (ws_pos s) = ?l" using f by (simp add: wav_found_def)
  have un: "unat (word_of_nat ?n :: u32) = ?n" using small by (simp add: unat_of_nat)
  have p8: "unat (ws_pos s + 8) = ?l + 8" using p small by (simp add: unat_word_ariths)
  then have pn: "unat (ws_pos s + 8 + word_of_nat ?n) = ?l + 8 + ?n" using un small by (simp add: unat_word_ariths)
  have new: "take ?n (drop (?l + 8) (riff_file sz cs @ chunk_bytes c)) = snd c" by (simp add: chunk_bytes_even [OF ok])
  have old: "take (length q) (drop k (riff_file sz cs @ chunk_bytes c)) = q"
    if "k + length q \<le> ?l" "take (length q) (drop k (riff_file sz cs)) = q" for k q
    using that by simp
  consider "fst c = FMT_ID" | "fst c = DATA_ID" | "fst c \<noteq> FMT_ID" "fst c \<noteq> DATA_ID" by blast
  then show ?thesis
  proof cases
    case 2
    then show ?thesis using f p8 pn un new ok
      by (simp add: wav_found_def last_chunk_snoc riff_file_snoc wav_chunk_def Let_def split: option.splits)
  qed (use f pn ok old in \<open>auto simp: wav_found_def last_chunk_snoc riff_file_snoc wav_chunk_def Let_def split: option.splits\<close>)
qed

lemma chunks_found:
  assumes "\<forall>c\<in>set cs. chunk_ok c" and "length (riff_file sz cs) < 2 ^ 32"
  shows "wav_found sz cs (fold wav_chunk cs wav_init)"
  using assms
proof (induction cs rule: rev_induct)
  case Nil
  then show ?case by (simp add: wav_found_def last_chunk_def wav_init_def riff_file_def riff_header_def)
next
  case (snoc c cs)
  then have "wav_found sz cs (fold wav_chunk cs wav_init)" by (simp add: riff_file_snoc)
  with snoc.prems show ?case by (simp add: found_step)
qed

text \<open>C31: on a file of less than 4 GiB that is a RIFF header and a sequence of chunks of even size, with every format chunk
  long enough, \<open>wav_parse\<close> ends after one round per chunk. It returns 0 and the rate, channels, bits and samples that the
  last format chunk and the last data chunk give when these describe uncompressed samples of 8 or 16 bits, and
  \<open>-1\<close> otherwise; other chunks are skipped. (It does not skip the byte of padding after a chunk of odd size.)\<close>

theorem wav_parse_chunks:
  assumes "\<forall>c\<in>set cs. chunk_ok c" and "length cs < fuel" and "44 \<le> length (riff_file sz cs)"
    and "length (riff_file sz cs) + 8 < 2 ^ 32"
  shows "case wav_sound cs of
      None \<Rightarrow> wav_parse fuel (riff_file sz cs) (word_of_nat (length (riff_file sz cs))) = Inr (-1, None)
    | Some (rate, channels, bits, samples) \<Rightarrow> \<exists>i. wav_parse fuel (riff_file sz cs) (word_of_nat (length (riff_file sz cs))) = Inr (0, Some i) \<and>
        wav_rate i = rate \<and> wav_channels i = channels \<and> wav_bits i = bits \<and> unat (wav_data_bytes i) = length samples \<and>
        take (length samples) (drop (wav_data i) (riff_file sz cs)) = samples"
proof -
  let ?f = "riff_file sz cs" and ?n = "length (riff_file sz cs)"
  have un: "unat (word_of_nat ?n :: u32) = ?n" using assms(4) by (simp add: unat_of_nat)
  have f: "?f = riff_header sz @ concat (map chunk_bytes cs)" by (simp add: riff_file_def)
  have "ld32 ?f 0 = Inr 0x46464952" "ld32 ?f 8 = Inr 0x45564157"
    by (simp_all add: riff_file_def riff_header_def ld_le_def le_word_le_bytes_full)
  moreover have "\<not> word_of_nat ?n < (44 :: u32)" using un assms(3) by (simp add: word_less_nat_alt)
  moreover have "while_loop fuel (\<lambda>s. ws_pos s + 8 \<le> word_of_nat ?n) (wav_step ?f (word_of_nat ?n)) wav_init =
      Inr (Next (fold wav_chunk cs wav_init))"
    by (rule wav_loop_chunks [OF f _ un assms(1,2,4)]) (simp add: wav_init_def riff_header_def)
  ultimately have run: "wav_parse fuel ?f (word_of_nat ?n) = Inr (wav_finish (fold wav_chunk cs wav_init))" by (simp add: wav_parse_def)
  have z: "x = 0 \<longleftrightarrow> unat x = 0" for x :: u32 by (simp add: unat_eq_zero)
  have "wav_found sz cs (fold wav_chunk cs wav_init)" using chunks_found assms(1,4) by simp
  then show ?thesis
    unfolding run by (auto simp: wav_found_def wav_sound_def wav_finish_def Let_def z split: option.splits)
qed

definition demo_fmt :: "u8 list" where
  "demo_fmt = [1, 0, 2, 0, 0x44, 0xAC, 0, 0, 0x10, 0xB1, 2, 0, 4, 0, 16, 0]"

theorem wav_parse_chunks_witness:
  "\<exists>i. wav_parse 4 (riff_file 0 [(FMT_ID, demo_fmt), (7, [1, 2]), (DATA_ID, [9, 8, 7, 6])]) 58 = Inr (0, Some i) \<and>
     wav_rate i = 44100 \<and> wav_channels i = 2 \<and> wav_bits i = 16 \<and> unat (wav_data_bytes i) = 4"
proof -
  let ?cs = "[(FMT_ID, demo_fmt), (7, [1, 2]), (DATA_ID, [9, 8, 7, 6])]"
  have w: "wav_sound ?cs = Some (44100, 2, 16, [9, 8, 7, 6])" by (simp add: wav_sound_def last_chunk_def demo_fmt_def)
  have ok: "\<forall>c\<in>set ?cs. chunk_ok c" by (simp add: chunk_ok_def demo_fmt_def)
  have l: "length (riff_file 0 ?cs) = 58" using ok by (simp add: riff_file_def riff_header_def demo_fmt_def)
  show ?thesis using wav_parse_chunks [OF ok, of 4 0] w l by auto
qed

text \<open>After a chunk of odd size the parser takes the padding for the next id, and the file is refused.\<close>

lemma wav_padding_ignored:
  "wav_sound [(FMT_ID, demo_fmt), (7, [1, 2, 3]), (DATA_ID, [9, 8, 7, 6])] \<noteq> None"
  "wav_parse 4 (riff_file 0 [(FMT_ID, demo_fmt), (7, [1, 2, 3]), (DATA_ID, [9, 8, 7, 6])]) 60 = Inr (-1, None)"
  by code_simp+

text \<open>A chunk that claims \<open>0xFFFFFFF8\<close> bytes brings the position back to its own header: the parser never
  ends on such a file.\<close>

definition looping_wav :: "u8 list" where
  "looping_wav = riff_header 0 @ le_bytes 4 (7 :: u32) @ le_bytes 4 (0xFFFFFFF8 :: u32) @ replicate 24 0"

lemma looping_wav_step: "wav_step looping_wav 44 wav_init = Inr (Next wav_init)"
proof -
  have "ld32 looping_wav 12 = Inr 7" "ld32 looping_wav 16 = Inr 0xFFFFFFF8"
    by (simp_all add: looping_wav_def riff_header_def ld_le_def le_word_le_bytes_full)
  then show ?thesis by (simp add: wav_step_def wav_init_def)
qed

lemma wav_parse_never_ends: "wav_parse fuel looping_wav 44 = Inl OutOfFuel"
proof -
  have "while_loop fuel (\<lambda>s. ws_pos s + 8 \<le> 44) (wav_step looping_wav 44) wav_init = Inl OutOfFuel"
    by (induction fuel) (simp_all add: looping_wav_step, simp add: wav_init_def)
  moreover have "ld32 looping_wav 0 = Inr 0x46464952" "ld32 looping_wav 8 = Inr 0x45564157"
    by (simp_all add: looping_wav_def riff_header_def ld_le_def le_word_le_bytes_full)
  ultimately show ?thesis by (simp add: wav_parse_def)
qed

end
