(* ===== verification/Framebuffer.thy ===== *)
theory Framebuffer
  imports Byte_Memory Memory
begin

text \<open>
  \<open>fb.c\<close>: the framebuffer with its back buffer. The two buffers are ranges of the byte-addressed
  memory of \<open>Byte_Memory\<close>; the global \<open>fb\<close> is an argument. The locale \<open>canvas\<close> is what the
  routines that put one pixel promise; rectangles, cursors and text are proved on top of it.
  Coordinates are C \<open>int\<close>: an overflowing sum is a fault.
\<close>

record fb_t =
  fb_width :: u32
  fb_height :: u32
  fb_pitch :: u32
  fb_bpp :: u32
  fb_front :: u64
  fb_back :: u64

subsection \<open>Copying bytes\<close>

definition memcpy_exact :: "u64 \<Rightarrow> u64 \<Rightarrow> u64 \<Rightarrow> mem \<Rightarrow> mem res" where
  "memcpy_exact dst src n m = (if dst = 0 \<or> src = 0 then Inr m else copy_up (unat n) dst src m)"

definition memmove_exact :: "u64 \<Rightarrow> u64 \<Rightarrow> u64 \<Rightarrow> mem \<Rightarrow> mem res" where
  "memmove_exact dst src n m =
     (if n = 0 \<or> dst = src then Inr m
      else if dst < src then copy_up (unat n) dst src m
      else copy_down (unat n) (dst + n) (src + n) m)"

interpretation cpx: byte_mover memcpy_exact "\<lambda>d s n. d \<noteq> 0 \<and> s \<noteq> 0 \<and> rng d n \<inter> rng s n = {}"
  by unfold_locales (simp add: memcpy_exact_def copy_up_moves)

lemma memmove_exact_is_memmove: "memmove_exact = memmove"
  by (intro ext) (auto simp: memmove_exact_def memmove_def)

interpretation mvx: byte_mover memmove_exact "\<lambda>d s n. True"
  unfolding memmove_exact_is_memmove by (rule mov.byte_mover_axioms)

subsection \<open>Setting up\<close>

text \<open>\<open>ext_mem_alloc\<close> and \<open>vmm_hhdm_offset\<close> belong to the boot loader: the first is a function
  from sizes to physical addresses, 0 when there is no memory, the second a number.\<close>

definition fb_map ::
  "(u64 \<Rightarrow> u64) \<Rightarrow> u64 \<Rightarrow> u64 \<Rightarrow> u32 \<Rightarrow> u32 \<Rightarrow> u32 \<Rightarrow> u32 \<Rightarrow> fb_t \<times> kheap \<Rightarrow> int \<times> fb_t \<times> kheap" where
  "fb_map ext_mem_alloc hhdm phys w h pitch bpp st =
     (case st of (fb, heap) \<Rightarrow>
      if phys = 0 \<or> w = 0 \<or> h = 0 \<or> pitch = 0 \<or> (bpp \<noteq> 24 \<and> bpp \<noteq> 32) then (-1, fb, heap) else
      let sz = ucast h * ucast pitch;
          front = (if phys \<ge> hhdm then phys else phys + hhdm);
          (p, heap') = kmalloc sz heap;
          back = (if p \<noteq> 0 then p
                  else let bp = ext_mem_alloc sz in if bp \<noteq> 0 then bp + hhdm else 0)
      in (0, fb\<lparr>fb_width := w, fb_height := h, fb_pitch := pitch, fb_bpp := bpp, fb_front := front,
               fb_back := if back = 0 then front else back\<rparr>, heap'))"

definition fb_get_addr :: "fb_t \<Rightarrow> u64" where
  "fb_get_addr fb = fb_front fb"

definition fb_get_width :: "fb_t \<Rightarrow> u32" where
  "fb_get_width fb = fb_width fb"

definition fb_get_height :: "fb_t \<Rightarrow> u32" where
  "fb_get_height fb = fb_height fb"

subsection \<open>Single pixels\<close>

definition onscreen :: "fb_t \<Rightarrow> int \<Rightarrow> int \<Rightarrow> bool" where
  "onscreen fb x y \<longleftrightarrow> \<not> (x < 0 \<or> y < 0 \<or> x \<ge> sint (fb_width fb) \<or> y \<ge> sint (fb_height fb))"

text \<open>\<open>buf + (size_t)y * fb.pitch + (size_t)x * (fb.bpp / 8)\<close>\<close>

definition pix_addr :: "fb_t \<Rightarrow> u64 \<Rightarrow> int \<Rightarrow> int \<Rightarrow> u64" where
  "pix_addr fb buf x y = buf + word_of_int y * ucast (fb_pitch fb) + word_of_int x * ucast (fb_bpp fb div 8)"

fun store_bytes :: "u64 \<Rightarrow> u8 list \<Rightarrow> mem \<Rightarrow> mem res" where
  "store_bytes p [] m = Inr m"
| "store_bytes p (b # bs) m = rbind (mst m p b) (store_bytes (p + 1) bs)"

definition pixel_bytes :: "fb_t \<Rightarrow> u32 \<Rightarrow> u8 list" where
  "pixel_bytes fb color =
     (let r = ucast (drop_bit 16 color); g = ucast (drop_bit 8 color); b = ucast color
      in if fb_bpp fb = 24 then [b, g, r] else if fb_bpp fb = 32 then [b, g, r, 0xFF] else [])"

definition put_pixel_raw :: "fb_t \<Rightarrow> u64 \<Rightarrow> int \<Rightarrow> int \<Rightarrow> u32 \<Rightarrow> mem \<Rightarrow> mem res" where
  "put_pixel_raw fb buf x y color m =
     (if \<not> onscreen fb x y then Inr m else store_bytes (pix_addr fb buf x y) (pixel_bytes fb color) m)"

text \<open>\<open>fb.back ? fb.back : fb.front\<close>\<close>

definition draw_base :: "fb_t \<Rightarrow> u64" where
  "draw_base fb = (if fb_back fb \<noteq> 0 then fb_back fb else fb_front fb)"

definition fb_putpixel :: "fb_t \<Rightarrow> int \<Rightarrow> int \<Rightarrow> u32 \<Rightarrow> mem \<Rightarrow> mem res" where
  "fb_putpixel fb x y color m =
     (if \<not> onscreen fb x y then Inr m
      else if draw_base fb = 0 then Inr m
      else store_bytes (pix_addr fb (draw_base fb) x y) (pixel_bytes fb color) m)"

definition fb_putpixel_front :: "fb_t \<Rightarrow> int \<Rightarrow> int \<Rightarrow> u32 \<Rightarrow> mem \<Rightarrow> mem res" where
  "fb_putpixel_front fb x y color m =
     (if \<not> onscreen fb x y then Inr m else store_bytes (pix_addr fb (fb_front fb) x y) (pixel_bytes fb color) m)"

subsection \<open>Rectangles\<close>

text \<open>\<open>for (yy = y; yy < y2; ++yy) for (xx = x; xx < x2; ++xx) put(xx, yy, argb);\<close>\<close>

definition fill :: "(int \<Rightarrow> int \<Rightarrow> u32 \<Rightarrow> mem \<Rightarrow> mem res) \<Rightarrow> int \<Rightarrow> int \<Rightarrow> int \<Rightarrow> int \<Rightarrow> u32 \<Rightarrow> mem \<Rightarrow> mem res" where
  "fill put x y x2 y2 argb = rfold (\<lambda>yy. rfold (\<lambda>xx. put xx yy argb) [x..x2 - 1]) [y..y2 - 1]"

text \<open>Clipping to the screen.\<close>

definition clip_lo :: "int \<Rightarrow> int" where
  "clip_lo v = (if v < 0 then 0 else v)"

definition clip_hi :: "u32 \<Rightarrow> int \<Rightarrow> int" where
  "clip_hi lim v = (if v > sint lim then sint lim else v)"

definition draw_rect_front :: "fb_t \<Rightarrow> int \<Rightarrow> int \<Rightarrow> int \<Rightarrow> int \<Rightarrow> u32 \<Rightarrow> mem \<Rightarrow> mem res" where
  "draw_rect_front fb x y w h argb m =
     (if w \<le> 0 \<or> h \<le> 0 then Inr m else
      rbind (i32 (x + w)) (\<lambda>x2. rbind (i32 (y + h)) (\<lambda>y2.
        fill (fb_putpixel_front fb) (clip_lo x) (clip_lo y) (clip_hi (fb_width fb) x2) (clip_hi (fb_height fb) y2) argb m)))"

definition draw_rect :: "fb_t \<Rightarrow> int \<Rightarrow> int \<Rightarrow> int \<Rightarrow> int \<Rightarrow> u32 \<Rightarrow> mem \<Rightarrow> mem res" where
  "draw_rect fb x y w h argb m =
     (if w \<le> 0 \<or> h \<le> 0 then Inr m else
      rbind (i32 (x + w)) (\<lambda>x2. rbind (i32 (y + h)) (\<lambda>y2.
        if fb_back fb = 0 then fill (fb_putpixel_front fb) x y x2 y2 argb m
        else fill (put_pixel_raw fb (fb_back fb)) (clip_lo x) (clip_lo y)
               (clip_hi (fb_width fb) x2) (clip_hi (fb_height fb) y2) argb m)))"

subsection \<open>Moving pixels between the buffers\<close>

text \<open>\<open>bytes\<close> is computed in \<open>size_t\<close>: it wraps when the clipped width is negative.\<close>

definition fb_blit_rect_to_front :: "fb_t \<Rightarrow> int \<Rightarrow> int \<Rightarrow> int \<Rightarrow> int \<Rightarrow> mem \<Rightarrow> mem res" where
  "fb_blit_rect_to_front fb x y w h m =
     (if w \<le> 0 \<or> h \<le> 0 then Inr m
      else if fb_back fb = 0 \<or> fb_back fb = fb_front fb then Inr m else
      rbind (i32 (x + w)) (\<lambda>x1'. rbind (i32 (y + h)) (\<lambda>y1'.
      let x0 = clip_lo x; y0 = clip_lo y; x1 = clip_hi (fb_width fb) x1'; y1 = clip_hi (fb_height fb) y1';
          bytes = word_of_int (x1 - x0) * ucast (fb_bpp fb div 8)
      in rfold (\<lambda>yy. memcpy_exact (pix_addr fb (fb_front fb) x0 yy) (pix_addr fb (fb_back fb) x0 yy) bytes) [y0..y1 - 1] m)))"

definition fb_copy_rect_front :: "fb_t \<Rightarrow> int \<Rightarrow> int \<Rightarrow> int \<Rightarrow> int \<Rightarrow> int \<Rightarrow> int \<Rightarrow> mem \<Rightarrow> mem res" where
  "fb_copy_rect_front fb sx sy w h dx dy m =
     (if w \<le> 0 \<or> h \<le> 0 then Inr m
      else if fb_bpp fb \<noteq> 24 \<and> fb_bpp fb \<noteq> 32 then Inr m
      else if sx < 0 \<or> sy < 0 \<or> dx < 0 \<or> dy < 0 then Inr m else
      rbind (i32 (sx + w)) (\<lambda>sx2. rbind (i32 (dx + w)) (\<lambda>dx2. rbind (i32 (sy + h)) (\<lambda>sy2. rbind (i32 (dy + h)) (\<lambda>dy2.
      if sx2 > sint (fb_width fb) \<or> dx2 > sint (fb_width fb) \<or> sy2 > sint (fb_height fb) \<or> dy2 > sint (fb_height fb)
      then Inr m else
      let row_bytes = word_of_int w * ucast (fb_bpp fb div 8);
          rows = (if dy > sy then rev [0..h - 1] else [0..h - 1])
      in rfold (\<lambda>i. memmove_exact (pix_addr fb (fb_front fb) dx (dy + i)) (pix_addr fb (fb_front fb) sx (sy + i)) row_bytes)
           rows m)))))"

fun flush_rows :: "nat \<Rightarrow> fb_t \<Rightarrow> u64 \<Rightarrow> u64 \<Rightarrow> u64 \<Rightarrow> mem \<Rightarrow> mem res" where
  "flush_rows 0 fb lim dst src m = Inr m"
| "flush_rows (Suc n) fb lim dst src m =
     (if src + ucast (fb_pitch fb) > lim then Inr m
      else rbind (memcpy_exact dst src (ucast (fb_pitch fb)) m)
             (flush_rows n fb lim (dst + ucast (fb_pitch fb)) (src + ucast (fb_pitch fb))))"

definition fb_flush :: "fb_t \<Rightarrow> mem \<Rightarrow> mem res" where
  "fb_flush fb m =
     (if fb_back fb = 0 \<or> fb_back fb = fb_front fb then Inr m
      else flush_rows (unat (fb_height fb)) fb (fb_back fb + ucast (fb_height fb) * ucast (fb_pitch fb))
             (fb_front fb) (fb_back fb) m)"

subsection \<open>Blending\<close>

definition read_pixel_color :: "u64 \<Rightarrow> mem \<Rightarrow> u32 res" where
  "read_pixel_color p m =
     rbind (mld m p) (\<lambda>b. rbind (mld m (p + 1)) (\<lambda>g. rbind (mld m (p + 2)) (\<lambda>r.
       Inr (push_bit 24 0xFF OR push_bit 16 (ucast r) OR push_bit 8 (ucast g) OR ucast b))))"

definition write_pixel_color :: "u64 \<Rightarrow> u32 \<Rightarrow> int \<Rightarrow> mem \<Rightarrow> mem res" where
  "write_pixel_color p color bpp =
     store_bytes p ([ucast color, ucast (drop_bit 8 color), ucast (drop_bit 16 color)] @
       (if bpp = 32 then [ucast (drop_bit 24 color)] else []))"

definition blend_chan :: "u32 \<Rightarrow> u32 \<Rightarrow> u8 \<Rightarrow> u32" where
  "blend_chan f b alpha = (f * ucast alpha + b * (255 - ucast alpha) + 127) div 255"

definition blend_over :: "u32 \<Rightarrow> u32 \<Rightarrow> u8 \<Rightarrow> u32" where
  "blend_over bg fg alpha =
     (let r = blend_chan (drop_bit 16 fg AND 0xFF) (drop_bit 16 bg AND 0xFF) alpha;
          g = blend_chan (drop_bit 8 fg AND 0xFF) (drop_bit 8 bg AND 0xFF) alpha;
          b = blend_chan (fg AND 0xFF) (bg AND 0xFF) alpha
      in push_bit 24 0xFF OR push_bit 16 r OR push_bit 8 g OR b)"

definition blend_putpixel :: "fb_t \<Rightarrow> u64 \<Rightarrow> int \<Rightarrow> int \<Rightarrow> u32 \<Rightarrow> u32 \<Rightarrow> u8 \<Rightarrow> bool \<Rightarrow> mem \<Rightarrow> mem res" where
  "blend_putpixel fb buf x y fg bg alpha bg_transparent m =
     (if \<not> onscreen fb x y then Inr m
      else if fb_bpp fb div 8 \<noteq> 3 \<and> fb_bpp fb div 8 \<noteq> 4 then Inr m
      else let p = pix_addr fb buf x y
           in rbind (if bg_transparent then read_pixel_color p m else Inr bg) (\<lambda>dst.
              write_pixel_color p (blend_over dst fg alpha) (if fb_bpp fb div 8 = 4 then 32 else 24) m))"

subsection \<open>The mouse cursor\<close>

text \<open>\<open>cursor_img\<close> points to pixels; only those the caller provided may be read.\<close>

record cursor =
  cursor_prev_x :: int
  cursor_prev_y :: int
  cursor_has_prev :: bool
  cursor_img :: "u32 list option"
  cursor_w :: int
  cursor_h :: int

definition fb_set_cursor_image :: "u32 list option \<Rightarrow> int \<Rightarrow> int \<Rightarrow> cursor \<Rightarrow> cursor" where
  "fb_set_cursor_image argb w h cu = cu\<lparr>cursor_img := argb, cursor_w := w, cursor_h := h\<rparr>"

definition img_pixel :: "u32 list \<Rightarrow> int \<Rightarrow> u32 res" where
  "img_pixel img i = (if 0 \<le> i \<and> nat i < length img then Inr (img ! nat i) else Inl BadRead)"

text \<open>The loops over the cursor image and over the cross drawn without one; both front and back
  cursors have them.\<close>

definition cursor_image_loop ::
  "(int \<Rightarrow> int \<Rightarrow> u32 \<Rightarrow> mem \<Rightarrow> mem res) \<Rightarrow> fb_t \<Rightarrow> u32 list \<Rightarrow> int \<Rightarrow> int \<Rightarrow> int \<Rightarrow> int \<Rightarrow> mem \<Rightarrow> mem res" where
  "cursor_image_loop put fb img w h x y =
     rfold (\<lambda>yy m. rbind (i32 (y + yy)) (\<lambda>dy.
       if dy < 0 \<or> dy \<ge> sint (fb_height fb) then Inr m else
       rfold (\<lambda>xx m. rbind (i32 (x + xx)) (\<lambda>dx.
         if dx < 0 \<or> dx \<ge> sint (fb_width fb) then Inr m else
         rbind (img_pixel img (yy * w + xx)) (\<lambda>px.
           if drop_bit 24 px AND 0xFF = 0 then Inr m else put dx dy px m))) [0..w - 1] m)) [0..h - 1]"

definition cursor_cross :: "(int \<Rightarrow> int \<Rightarrow> u32 \<Rightarrow> mem \<Rightarrow> mem res) \<Rightarrow> fb_t \<Rightarrow> int \<Rightarrow> int \<Rightarrow> mem \<Rightarrow> mem res" where
  "cursor_cross put fb x y m =
     rbind (rfold (\<lambda>i m. rbind (i32 (x + i)) (\<lambda>xx.
              if onscreen fb xx y then put xx y 0xFFFFFFFF m else Inr m)) [-3..3] m)
       (rfold (\<lambda>i m. rbind (i32 (y + i)) (\<lambda>yy.
              if onscreen fb x yy then put x yy 0xFFFFFFFF m else Inr m)) [-3..3])"

definition draw_cursor_body ::
  "(int \<Rightarrow> int \<Rightarrow> u32 \<Rightarrow> mem \<Rightarrow> mem res) \<Rightarrow> fb_t \<Rightarrow> cursor \<Rightarrow> int \<Rightarrow> int \<Rightarrow> mem \<Rightarrow> mem res" where
  "draw_cursor_body put fb cu x y m =
     (case cursor_img cu of
        Some img \<Rightarrow> if cursor_w cu > 0 \<and> cursor_h cu > 0
                    then cursor_image_loop put fb img (cursor_w cu) (cursor_h cu) x y m
                    else cursor_cross put fb x y m
      | None \<Rightarrow> cursor_cross put fb x y m)"

definition fb_draw_cursor :: "fb_t \<Rightarrow> cursor \<Rightarrow> int \<Rightarrow> int \<Rightarrow> mem \<Rightarrow> mem res" where
  "fb_draw_cursor fb cu x y m = draw_cursor_body (fb_putpixel fb) fb cu x y m"

text \<open>Restoring what the previous cursor covered: 7 by 7 pixels around its position, clipped.\<close>

definition cursor_restore :: "fb_t \<Rightarrow> int \<Rightarrow> int \<Rightarrow> mem \<Rightarrow> mem res" where
  "cursor_restore fb px py m =
     rbind (i32 (px - 3)) (\<lambda>rx. rbind (i32 (py - 3)) (\<lambda>ry.
     let (rx', rw) = (if rx < 0 then (0, 7 + rx) else (rx, 7));
         (ry', rh) = (if ry < 0 then (0, 7 + ry) else (ry, 7))
     in rbind (i32 (rx' + rw)) (\<lambda>xe. rbind (i32 (ry' + rh)) (\<lambda>ye.
        let rw' = (if xe > sint (fb_width fb) then sint (fb_width fb - word_of_int rx') else rw);
            rh' = (if ye > sint (fb_height fb) then sint (fb_height fb - word_of_int ry') else rh)
        in if rw' > 0 \<and> rh' > 0 then fb_blit_rect_to_front fb rx' ry' rw' rh' m else Inr m))))"

definition fb_draw_cursor_front :: "fb_t \<Rightarrow> int \<Rightarrow> int \<Rightarrow> cursor \<times> mem \<Rightarrow> (cursor \<times> mem) res" where
  "fb_draw_cursor_front fb x y st =
     (case st of (cu, m) \<Rightarrow>
      rbind (if cursor_has_prev cu \<and> fb_back fb \<noteq> 0 \<and> fb_front fb \<noteq> 0 \<and> fb_back fb \<noteq> fb_front fb
             then cursor_restore fb (cursor_prev_x cu) (cursor_prev_y cu) m else Inr m) (\<lambda>m1.
      rbind (draw_cursor_body (fb_putpixel_front fb) fb cu x y m1) (\<lambda>m2.
        Inr (cu\<lparr>cursor_prev_x := x, cursor_prev_y := y, cursor_has_prev := True\<rparr>, m2))))"

section \<open>Frames and pixels\<close>

subsection \<open>Geometry\<close>

abbreviation nb :: "fb_t \<Rightarrow> nat" where "nb fb \<equiv> unat (fb_bpp fb) div 8"
abbreviation frame_bytes :: "fb_t \<Rightarrow> nat" where "frame_bytes fb \<equiv> unat (fb_height fb) * unat (fb_pitch fb)"

definition fb_geom :: "fb_t \<Rightarrow> bool" where
  "fb_geom fb \<longleftrightarrow> (fb_bpp fb = 24 \<or> fb_bpp fb = 32) \<and> unat (fb_width fb) * nb fb \<le> unat (fb_pitch fb) \<and>
     unat (fb_width fb) < 2 ^ 31 \<and> unat (fb_height fb) < 2 ^ 31"

definition fb_ok :: "fb_t \<Rightarrow> u64 \<Rightarrow> mem \<Rightarrow> bool" where
  "fb_ok fb buf m \<longleftrightarrow> fb_geom fb \<and> buf \<noteq> 0 \<and> mapped m buf (frame_bytes fb)"

definition pix_off :: "fb_t \<Rightarrow> int \<Rightarrow> int \<Rightarrow> nat" where
  "pix_off fb x y = nat y * unat (fb_pitch fb) + nat x * nb fb"

lemma onscreen_iff:
  "fb_geom fb \<Longrightarrow> onscreen fb x y \<longleftrightarrow> 0 \<le> x \<and> 0 \<le> y \<and> x < uint (fb_width fb) \<and> y < uint (fb_height fb)"
  by (auto simp: onscreen_def fb_geom_def sint_small)

lemma nb_cases: "fb_geom fb \<Longrightarrow> nb fb = 3 \<or> nb fb = 4"
  by (auto simp: fb_geom_def)

lemma pix_off_row: "fb_geom fb \<Longrightarrow> x \<le> uint (fb_width fb) \<Longrightarrow> nat x * nb fb \<le> unat (fb_pitch fb)"
proof -
  assume h: "fb_geom fb" "x \<le> uint (fb_width fb)"
  then have "nat x * nb fb \<le> unat (fb_width fb) * nb fb" by (intro mult_right_mono) (simp_all add: nat_le_iff)
  also have "\<dots> \<le> unat (fb_pitch fb)" using h by (simp add: fb_geom_def)
  finally show ?thesis .
qed

lemma pix_off_bound:
  assumes "fb_geom fb" and "onscreen fb x y"
  shows "pix_off fb x y + nb fb \<le> (nat y + 1) * unat (fb_pitch fb)" and "pix_off fb x y + nb fb \<le> frame_bytes fb"
proof -
  have xy: "0 \<le> x" "0 \<le> y" "x + 1 \<le> uint (fb_width fb)" "y < uint (fb_height fb)"
    using assms by (auto simp: onscreen_iff)
  have "nat (x + 1) * nb fb \<le> unat (fb_pitch fb)" by (rule pix_off_row [OF assms(1) xy(3)])
  moreover have "nat (x + 1) = nat x + 1" using xy(1) by simp
  ultimately show *: "pix_off fb x y + nb fb \<le> (nat y + 1) * unat (fb_pitch fb)"
    by (simp add: pix_off_def algebra_simps)
  have "nat y < unat (fb_height fb)" using xy by (simp add: nat_less_iff)
  then have "nat y + 1 \<le> unat (fb_height fb)" by simp
  then have "(nat y + 1) * unat (fb_pitch fb) \<le> frame_bytes fb" by (rule mult_right_mono) simp
  with * show "pix_off fb x y + nb fb \<le> frame_bytes fb" by linarith
qed

lemma pix_off_disjoint:
  assumes "fb_geom fb" and "onscreen fb x y" and "onscreen fb x' y'" and "(x, y) \<noteq> (x', y')"
  shows "pix_off fb x y + nb fb \<le> pix_off fb x' y' \<or> pix_off fb x' y' + nb fb \<le> pix_off fb x y"
proof -
  have row: "pix_off fb a b + nb fb \<le> pix_off fb a' b'" if "onscreen fb a b" "b < b'" for a b a' b'
  proof -
    have "0 \<le> b" using that assms(1) by (simp add: onscreen_iff)
    with that have "nat b + 1 \<le> nat b'" by simp
    then have "(nat b + 1) * unat (fb_pitch fb) \<le> nat b' * unat (fb_pitch fb)" by (rule mult_right_mono) simp
    with pix_off_bound(1) [OF assms(1) that(1)] show ?thesis by (simp add: pix_off_def)
  qed
  have col: "pix_off fb a b + nb fb \<le> pix_off fb a' b" if "onscreen fb a b" "a < a'" for a a' b
  proof -
    have "0 \<le> a" using that assms(1) by (simp add: onscreen_iff)
    with that have "nat a + 1 \<le> nat a'" by simp
    then have "(nat a + 1) * nb fb \<le> nat a' * nb fb" by (rule mult_right_mono) simp
    then show ?thesis by (simp add: pix_off_def)
  qed
  consider "y < y'" | "y' < y" | "y = y'" "x < x'" | "y = y'" "x' < x" using assms(4) by fastforce
  then show ?thesis using row col assms(2,3) by cases auto
qed

text \<open>The address the code computes is the offset into the frame, with no wrap-around.\<close>

lemma pix_addr_off:
  assumes "0 \<le> x" and "0 \<le> y"
  shows "pix_addr fb buf x y = buf + word_of_nat (pix_off fb x y)"
proof -
  have p: "(ucast w :: u64) = word_of_nat (unat w)" for w :: u32
    by (simp add: word_unat_eq_iff unat_ucast_up unat_of_nat less_trans [OF unat_bound])
  have i: "(word_of_int i :: u64) = word_of_nat (nat i)" if "0 \<le> i" for i
    using that by (simp flip: of_nat_nat)
  have d: "unat (fb_bpp fb div 8) = nb fb" by (simp add: unat_div)
  show ?thesis
    unfolding pix_addr_def pix_off_def p d i [OF assms(1)] i [OF assms(2)] by simp
qed

subsection \<open>Stores and views\<close>

definition stored :: "u64 \<Rightarrow> u8 list \<Rightarrow> mem \<Rightarrow> mem" where
  "stored p bs m x = (if x \<in> rng p (length bs) then Some (bs ! (unat x - unat p)) else m x)"

lemma store_bytes_stored: "mapped m p (length bs) \<Longrightarrow> store_bytes p bs m = Inr (stored p bs m)"
proof (induction bs arbitrary: p m)
  case Nil
  then show ?case by (simp add: stored_def fun_eq_iff)
next
  case (Cons b bs)
  have lim: "unat p + Suc (length bs) \<le> 2 ^ 64" using Cons.prems by (simp add: mapped_def)
  obtain e where e: "m p = Some e" using mapped_Suc [of m p "length bs"] Cons.prems by auto
  have r: "rng p (Suc (length bs)) = insert p (rng (p + 1) (length bs))" by (rule rng_Suc [OF lim])
  have "stored p (b # bs) m = stored (p + 1) bs (m(p \<mapsto> b))"
  proof
    fix x
    have "unat x - unat p = Suc (unat x - unat (p + 1))" if "x \<in> rng (p + 1) (length bs)"
    proof -
      have "length bs \<noteq> 0" using that by auto
      then have "unat (p + 1) = unat p + 1" using mapped_Suc [of m p "length bs"] Cons.prems by simp
      with that show ?thesis by (simp add: rng_def Suc_diff_Suc)
    qed
    moreover have "p \<notin> rng (p + 1) (length bs)"
      using mapped_Suc [of m p "length bs"] Cons.prems by (cases bs) (auto simp: rng_def)
    ultimately show "stored p (b # bs) m x = stored (p + 1) bs (m(p \<mapsto> b)) x"
      by (auto simp: stored_def r)
  qed
  moreover have "store_bytes (p + 1) bs (m(p \<mapsto> b)) = Inr (stored (p + 1) bs (m(p \<mapsto> b)))"
  proof (cases bs)
    case Nil
    then show ?thesis by (simp add: stored_def fun_eq_iff)
  next
    case (Cons c cs)
    then have "mapped m (p + 1) (length bs)" using mapped_Suc [of m p "length bs"] Cons.prems by simp
    then have "mapped (m(p \<mapsto> b)) (p + 1) (length bs)" by (rule mapped_dom) auto
    then show ?thesis by (rule Cons.IH)
  qed
  ultimately show ?case using e by simp
qed

lemma dom_stored: "mapped m p (length bs) \<Longrightarrow> dom (stored p bs m) = dom m"
  by (auto simp: stored_def mapped_def dom_def split: if_splits)

lemma bytes_at_stored: "unat p + length bs \<le> 2 ^ 64 \<Longrightarrow> bytes_at (stored p bs m) p (length bs) = bs"
proof (rule nth_equalityI)
  fix i
  assume h: "unat p + length bs \<le> 2 ^ 64" "i < length (bytes_at (stored p bs m) p (length bs))"
  then have i: "i < length bs" by (simp add: bytes_at_def)
  then have "unat (p + word_of_nat i) = unat p + i" using h(1) by (simp add: unat_word_ariths unat_of_nat)
  then show "bytes_at (stored p bs m) p (length bs) ! i = bs ! i" using i by (simp add: bytes_at_def stored_def rng_def)
qed (simp add: bytes_at_def)

lemma bytes_at_cong:
  assumes "unat q + n \<le> 2 ^ 64" and "\<And>x. x \<in> rng q n \<Longrightarrow> m' x = m x"
  shows "bytes_at m' q n = bytes_at m q n"
proof -
  have "q + word_of_nat i \<in> rng q n" if "i < n" for i
    using that assms(1) by (simp add: rng_def unat_word_ariths unat_of_nat)
  then show ?thesis using assms(2) by (simp add: bytes_at_def)
qed

definition view :: "fb_t \<Rightarrow> u64 \<Rightarrow> mem \<Rightarrow> int \<times> int \<Rightarrow> u8 list" where
  "view fb buf m = (\<lambda>(x, y). if onscreen fb x y then bytes_at m (pix_addr fb buf x y) (nb fb) else [])"

text \<open>Agreement outside the frame.\<close>

definition same_outside :: "fb_t \<Rightarrow> u64 \<Rightarrow> mem \<Rightarrow> mem \<Rightarrow> bool" where
  "same_outside fb buf m m' \<longleftrightarrow> dom m' = dom m \<and> (\<forall>x. x \<notin> rng buf (frame_bytes fb) \<longrightarrow> m' x = m x)"

lemma same_outside_refl [simp]: "same_outside fb buf m m"
  by (simp add: same_outside_def)

lemma same_outside_trans: "same_outside fb buf m m' \<Longrightarrow> same_outside fb buf m' m'' \<Longrightarrow> same_outside fb buf m m''"
  by (simp add: same_outside_def)

lemma fb_ok_same: "fb_ok fb buf m \<Longrightarrow> same_outside fb buf m m' \<Longrightarrow> fb_ok fb buf m'"
  by (simp add: fb_ok_def same_outside_def mapped_def)

lemma pix_rng:
  assumes "fb_ok fb buf m" and "onscreen fb x y"
  shows "unat (pix_addr fb buf x y) = unat buf + pix_off fb x y"
    and "rng (pix_addr fb buf x y) (nb fb) \<subseteq> rng buf (frame_bytes fb)"
    and "mapped m (pix_addr fb buf x y) (nb fb)"
proof -
  have g: "fb_geom fb" and mp: "mapped m buf (frame_bytes fb)" using assms(1) by (simp_all add: fb_ok_def)
  have xy: "0 \<le> x" "0 \<le> y" using assms(2) by (simp_all add: onscreen_def)
  note b = pix_off_bound(2) [OF g assms(2)]
  have "pix_off fb x y < frame_bytes fb" using b nb_cases [OF g] by linarith
  from mapped_nth [OF mp this] show u: "unat (pix_addr fb buf x y) = unat buf + pix_off fb x y"
    by (simp add: pix_addr_off [OF xy])
  then show sub: "rng (pix_addr fb buf x y) (nb fb) \<subseteq> rng buf (frame_bytes fb)" using b by (auto simp: rng_def)
  show "mapped m (pix_addr fb buf x y) (nb fb)"
    using sub mp u b by (auto simp: mapped_def)
qed

lemma store_pixel:
  assumes ok: "fb_ok fb buf m" and on: "onscreen fb x y" and len: "length bs = nb fb"
  shows "\<exists>m'. store_bytes (pix_addr fb buf x y) bs m = Inr m' \<and> same_outside fb buf m m' \<and>
    (\<forall>p. view fb buf m' p = (if p = (x, y) then bs else view fb buf m p))"
proof -
  note r = pix_rng [OF ok on]
  let ?m = "stored (pix_addr fb buf x y) bs m"
  have "store_bytes (pix_addr fb buf x y) bs m = Inr ?m" using r(3) len by (simp add: store_bytes_stored)
  moreover have "same_outside fb buf m ?m"
    using r(2,3) len by (auto simp: same_outside_def dom_stored) (auto simp: stored_def)
  moreover have "view fb buf ?m p = (if p = (x, y) then bs else view fb buf m p)" for p
  proof (cases "p = (x, y)")
    case True
    then show ?thesis using on r(3) len bytes_at_stored [of "pix_addr fb buf x y" bs m] by (simp add: view_def mapped_def)
  next
    case False
    obtain u v where p: "p = (u, v)" by (cases p)
    show ?thesis
    proof (cases "onscreen fb u v")
      case True
      note s = pix_rng [OF ok True]
      have "pix_off fb u v + nb fb \<le> pix_off fb x y \<or> pix_off fb x y + nb fb \<le> pix_off fb u v"
        using pix_off_disjoint [OF _ True on] False p ok by (simp add: fb_ok_def)
      then have "rng (pix_addr fb buf u v) (nb fb) \<inter> rng (pix_addr fb buf x y) (nb fb) = {}"
        using r(1) s(1) by (auto simp: rng_def)
      then have "bytes_at ?m (pix_addr fb buf u v) (nb fb) = bytes_at m (pix_addr fb buf u v) (nb fb)"
        using s(3) len by (intro bytes_at_cong) (auto simp: mapped_def stored_def)
      with False p True show ?thesis by (auto simp: view_def)
    qed (use False p in \<open>auto simp: view_def\<close>)
  qed
  ultimately show ?thesis by blast
qed

lemma length_pixel_bytes: "fb_geom fb \<Longrightarrow> length (pixel_bytes fb c) = nb fb"
  by (auto simp: pixel_bytes_def fb_geom_def Let_def)

section \<open>Drawing\<close>

text \<open>The contract of a routine that puts one pixel into the frame at \<open>buf\<close>.\<close>

locale canvas =
  fixes fb :: fb_t and buf :: u64 and put :: "int \<Rightarrow> int \<Rightarrow> u32 \<Rightarrow> mem \<Rightarrow> mem res"
  assumes put_off: "\<not> onscreen fb x y \<Longrightarrow> put x y c m = Inr m"
    and put_on: "fb_ok fb buf m \<Longrightarrow> onscreen fb x y \<Longrightarrow> \<exists>m'. put x y c m = Inr m' \<and> same_outside fb buf m m' \<and>
      (\<forall>p. view fb buf m' p = (if p = (x, y) then pixel_bytes fb c else view fb buf m p))"
begin

text \<open>A set of pixels painted in one colour.\<close>

definition painted :: "(int \<times> int) set \<Rightarrow> u32 \<Rightarrow> mem \<Rightarrow> mem \<Rightarrow> bool" where
  "painted A c m m' \<longleftrightarrow> same_outside fb buf m m' \<and>
     (\<forall>p. view fb buf m' p = (if p \<in> A \<and> onscreen fb (fst p) (snd p) then pixel_bytes fb c else view fb buf m p))"

lemma put_painted: "fb_ok fb buf m \<Longrightarrow> \<exists>m'. put x y c m = Inr m' \<and> painted {(x, y)} c m m'"
  using put_on [of m x y c] put_off [of x y c m] by (cases "onscreen fb x y") (auto simp: painted_def)

lemma painted_Un: "painted A c m m' \<Longrightarrow> painted B c m' m'' \<Longrightarrow> painted (A \<union> B) c m m''"
  using same_outside_trans by (auto simp: painted_def)

lemma paint_list:
  "fb_ok fb buf m \<Longrightarrow> \<exists>m'. rfold (\<lambda>(x, y). put x y c) ps m = Inr m' \<and> painted (set ps) c m m'"
proof (induction ps arbitrary: m)
  case Nil
  then show ?case by (simp add: painted_def)
next
  case (Cons p ps)
  obtain x y where p: "p = (x, y)" by (cases p)
  obtain m1 where m1: "put x y c m = Inr m1" "painted {p} c m m1"
    using put_painted [OF Cons.prems, of x y c] p by auto
  then have "fb_ok fb buf m1" using Cons.prems fb_ok_same by (auto simp: painted_def)
  then obtain m2 where "rfold (\<lambda>(x, y). put x y c) ps m1 = Inr m2" "painted (set ps) c m1 m2" using Cons.IH by blast
  with m1 p painted_Un [OF m1(2)] show ?case by auto
qed

lemma fill_paints:
  assumes "fb_ok fb buf m"
  shows "\<exists>m'. fill put x y x2 y2 c m = Inr m' \<and> painted ({x..<x2} \<times> {y..<y2}) c m m'"
proof -
  let ?ps = "concat (map (\<lambda>yy. map (\<lambda>xx. (xx, yy)) [x..x2 - 1]) [y..y2 - 1])"
  have "fill put x y x2 y2 c m = rfold (\<lambda>(x, y). put x y c) ?ps m"
    unfolding fill_def rfold_concat [symmetric] by (rule rfold_cong) (simp add: rfold_map)
  moreover have "set ?ps = {x..<x2} \<times> {y..<y2}" by auto
  ultimately show ?thesis using paint_list [OF assms, of c ?ps] by simp
qed

lemma painted_rfold:
  assumes "\<And>i m. i \<in> set is \<Longrightarrow> fb_ok fb buf m \<Longrightarrow> \<exists>m'. f i m = Inr m' \<and> painted (A i) c m m'" and "fb_ok fb buf m"
  shows "\<exists>m'. rfold f is m = Inr m' \<and> painted (\<Union>i\<in>set is. A i) c m m'"
  using assms
proof (induction "is" arbitrary: m)
  case Nil
  then show ?case by (simp add: painted_def)
next
  case (Cons i "is")
  obtain m1 where m1: "f i m = Inr m1" "painted (A i) c m m1" using Cons.prems(1) [of i] Cons.prems(2) by auto
  have "fb_ok fb buf m1" using Cons.prems(2) m1(2) fb_ok_same by (auto simp: painted_def)
  then obtain m2 where m2: "rfold f is m1 = Inr m2" "painted (\<Union>i\<in>set is. A i) c m1 m2"
    using Cons.IH [of m1] Cons.prems(1) by auto
  with m1 painted_Un [OF m1(2) m2(2)] show ?case by simp
qed

lemma painted_ok: "fb_ok fb buf m \<Longrightarrow> painted A c m m' \<Longrightarrow> fb_ok fb buf m'"
  using fb_ok_same by (auto simp: painted_def)

lemma painted_cong:
  "(\<And>x y. onscreen fb x y \<Longrightarrow> (x, y) \<in> A \<longleftrightarrow> (x, y) \<in> B) \<Longrightarrow> painted A c m m' \<Longrightarrow> painted B c m m'"
  by (auto simp: painted_def)

end

lemma store_color:
  "fb_ok fb buf m \<Longrightarrow> onscreen fb x y \<Longrightarrow> \<exists>m'. store_bytes (pix_addr fb buf x y) (pixel_bytes fb c) m = Inr m' \<and>
     same_outside fb buf m m' \<and> (\<forall>p. view fb buf m' p = (if p = (x, y) then pixel_bytes fb c else view fb buf m p))"
  by (rule store_pixel) (simp_all add: fb_ok_def length_pixel_bytes)

interpretation raw: canvas fb buf "put_pixel_raw fb buf" for fb buf
  by unfold_locales (simp_all add: put_pixel_raw_def store_color del: split_paired_All)

interpretation cur: canvas fb "draw_base fb" "fb_putpixel fb" for fb
  by unfold_locales
    (simp_all add: fb_putpixel_def store_color fb_ok_def [THEN iffD1, THEN conjunct2, THEN conjunct1] del: split_paired_All)

interpretation frt: canvas fb "fb_front fb" "fb_putpixel_front fb" for fb
  by unfold_locales (simp_all add: fb_putpixel_front_def store_color del: split_paired_All)

subsection \<open>Rectangles\<close>

definition rect :: "int \<Rightarrow> int \<Rightarrow> int \<Rightarrow> int \<Rightarrow> (int \<times> int) set" where
  "rect x y w h = {x..<x + w} \<times> {y..<y + h}"

definition int_range :: "int \<Rightarrow> int \<Rightarrow> bool" where
  "int_range x w \<longleftrightarrow> - (2 ^ 31) \<le> x + w \<and> x + w < 2 ^ 31"

lemma clipped_rect:
  "fb_geom fb \<Longrightarrow> onscreen fb u v \<Longrightarrow>
     (u, v) \<in> {clip_lo x..<clip_hi (fb_width fb) (x + w)} \<times> {clip_lo y..<clip_hi (fb_height fb) (y + h)} \<longleftrightarrow>
     (u, v) \<in> rect x y w h"
  by (auto simp: rect_def clip_lo_def clip_hi_def onscreen_def)

lemma draw_rect_front_paints:
  assumes "fb_ok fb (fb_front fb) m" and "int_range x w" and "int_range y h"
  shows "\<exists>m'. draw_rect_front fb x y w h c m = Inr m' \<and> frt.painted fb (rect x y w h) c m m'"
proof (cases "w \<le> 0 \<or> h \<le> 0")
  case True
  then have "rect x y w h = {}" by (auto simp: rect_def)
  with True show ?thesis by (auto simp: draw_rect_front_def frt.painted_def)
next
  case False
  have "fb_geom fb" using assms(1) by (simp add: fb_ok_def)
  then show ?thesis
    using frt.fill_paints [OF assms(1), of "clip_lo x" "clip_lo y" "clip_hi (fb_width fb) (x + w)" "clip_hi (fb_height fb) (y + h)" c]
      frt.painted_cong [OF clipped_rect] False assms(2,3)
    by (fastforce simp: draw_rect_front_def int_range_def)
qed

lemma draw_rect_painted:
  assumes "fb_ok fb (draw_base fb) m" and "int_range x w" and "int_range y h"
  shows "\<exists>m'. draw_rect fb x y w h c m = Inr m' \<and> raw.painted fb (draw_base fb) (rect x y w h) c m m'"
proof -
  consider (empty) "w \<le> 0 \<or> h \<le> 0" | (single) "0 < w" "0 < h" "fb_back fb = 0" | (double) "0 < w" "0 < h" "fb_back fb \<noteq> 0"
    by linarith
  then show ?thesis
  proof cases
    case empty
    then show ?thesis by (auto simp: draw_rect_def raw.painted_def rect_def)
  next
    case single
    then have "draw_base fb = fb_front fb" by (simp add: draw_base_def)
    with frt.fill_paints [of fb m x y "x + w" "y + h" c] assms single show ?thesis
      by (auto simp: draw_rect_def int_range_def rect_def frt.painted_def raw.painted_def)
  next
    case double
    then have b: "draw_base fb = fb_back fb" by (simp add: draw_base_def)
    have "fb_geom fb" using assms(1) by (simp add: fb_ok_def)
    from raw.painted_cong [OF clipped_rect [OF this]] show ?thesis
      using raw.fill_paints [of fb "fb_back fb" m "clip_lo x" "clip_lo y"
        "clip_hi (fb_width fb) (x + w)" "clip_hi (fb_height fb) (y + h)" c] assms double b
      by (fastforce simp: draw_rect_def int_range_def)
  qed
qed

subsection \<open>Flushing the back buffer\<close>

lemma moved_moved:
  assumes "unat d + (P + k) \<le> 2 ^ 64" and "unat s + (P + k) \<le> 2 ^ 64" and "rng d (P + k) \<inter> rng s (P + k) = {}"
    and "unat (d + word_of_nat P) = unat d + P" and "unat (s + word_of_nat P) = unat s + P"
  shows "moved (d + word_of_nat P) (s + word_of_nat P) k (moved d s P m) = moved d s (P + k) m"
proof
  fix x
  have split: "x \<in> rng d (P + k) \<longleftrightarrow> x \<in> rng d P \<or> x \<in> rng (d + word_of_nat P) k" using assms(4) by (auto simp: rng_def)
  have "s + (x - d) \<notin> rng d P" if "x \<in> rng d (P + k)"
    using rng_shift(2) [OF that assms(2)] assms(3) by (auto simp: rng_def)
  then show "moved (d + word_of_nat P) (s + word_of_nat P) k (moved d s P m) x = moved d s (P + k) m x"
    using split assms(4) by (auto simp: moved_def rng_def)
qed

lemma flush_rows_moves:
  assumes "mapped m src (n * P)" and "mapped m dst (n * P)" and "rng dst (n * P) \<inter> rng src (n * P) = {}"
    and "unat src + n * P \<le> unat lim" and "unat dst + n * P < 2 ^ 64" and "src \<noteq> 0" and "dst \<noteq> 0"
    and P: "P = unat (fb_pitch fb)"
  shows "flush_rows n fb lim dst src m = Inr (moved dst src (n * P) m)"
  using assms(1-7)
proof (induction n arbitrary: dst src m)
  case 0
  then show ?case by (simp add: moved_def fun_eq_iff)
next
  case (Suc n)
  have pw: "(ucast (fb_pitch fb) :: u64) = word_of_nat P" "unat (ucast (fb_pitch fb) :: u64) = P"
    by (simp_all add: P word_unat_eq_iff unat_ucast_up unat_of_nat less_trans [OF unat_bound])
  have lt: "unat src + Suc n * P < 2 ^ 64" using Suc.prems(4) unat_bound [of lim] by simp
  have us: "unat (src + word_of_nat P) = unat src + P" and ud: "unat (dst + word_of_nat P) = unat dst + P"
    using lt Suc.prems(5) by (simp_all add: unat_word_ariths unat_of_nat)
  let ?m = "moved dst src P m"
  have row: "mapped m src P" "mapped m dst P" using Suc.prems(1,2) by (auto intro: mapped_less)
  have ap: "rng dst P \<inter> rng src P = {}" using Suc.prems(3) by (auto simp: rng_def)
  have "memcpy_exact dst src (ucast (fb_pitch fb)) m = Inr ?m"
    using cpx.copy_moves [of m src "ucast (fb_pitch fb)" dst] row ap Suc.prems(6,7) by (simp add: pw(2))
  moreover have "\<not> lim < src + ucast (fb_pitch fb)" using Suc.prems(4) us by (simp add: pw word_less_nat_alt)
  moreover have "flush_rows n fb lim (dst + word_of_nat P) (src + word_of_nat P) ?m =
      Inr (moved (dst + word_of_nat P) (src + word_of_nat P) (n * P) ?m)"
  proof (rule Suc.IH)
    have dm: "dom ?m = dom m" using row by (intro dom_moved) (auto simp: mapped_def)
    have "rng (src + word_of_nat P) (n * P) \<subseteq> rng src (Suc n * P)" "rng (dst + word_of_nat P) (n * P) \<subseteq> rng dst (Suc n * P)"
      using us ud by (auto simp: rng_def)
    then show "mapped ?m (src + word_of_nat P) (n * P)" "mapped ?m (dst + word_of_nat P) (n * P)"
      and "rng (dst + word_of_nat P) (n * P) \<inter> rng (src + word_of_nat P) (n * P) = {}"
      using Suc.prems(1,2,3) us ud dm by (auto simp: mapped_def)
    show "src + word_of_nat P \<noteq> 0" "dst + word_of_nat P \<noteq> 0" using us ud Suc.prems(6,7) by (auto simp: unat_eq_zero)
  qed (use Suc.prems(4,5) us ud in simp_all)
  moreover have "moved (dst + word_of_nat P) (src + word_of_nat P) (n * P) ?m = moved dst src (Suc n * P) m"
    using moved_moved [of dst P "n * P" src m] Suc.prems(3,5) lt us ud by simp
  ultimately show ?case by (simp add: pw)
qed

text \<open>A copy between frames, seen at the pixels.\<close>

lemma view_moved_frame:
  assumes "fb_ok fb a m" and "fb_ok fb b m"
  shows "view fb a (moved a b (frame_bytes fb) m) p = view fb b m p"
proof (cases p)
  case (Pair x y)
  show ?thesis
  proof (cases "onscreen fb x y")
    case True
    then have xy: "0 \<le> x" "0 \<le> y" by (simp_all add: onscreen_def)
    note ra = pix_rng [OF assms(1) True]
    have "moved a b (frame_bytes fb) m (pix_addr fb a x y + word_of_nat i) = m (pix_addr fb b x y + word_of_nat i)"
      if "i < nb fb" for i
    proof -
      have "pix_addr fb a x y + word_of_nat i \<in> rng (pix_addr fb a x y) (nb fb)"
        using mapped_nth [OF ra(3) that] that by (simp add: rng_def)
      with ra(2) show ?thesis by (auto simp: moved_def pix_addr_off [OF xy] algebra_simps)
    qed
    then show ?thesis using Pair True by (simp add: view_def bytes_at_def)
  qed (simp add: Pair view_def)
qed

subsection \<open>Moving a rectangle of the front buffer\<close>

lemma row_range:
  assumes "fb_ok fb buf m" and "0 \<le> x" and "0 \<le> w" and "x + w \<le> uint (fb_width fb)" and "0 \<le> y" and "y < uint (fb_height fb)"
  shows "nat y * unat (fb_pitch fb) + nat (x + w) * nb fb \<le> (nat y + 1) * unat (fb_pitch fb)"
    and "pix_off fb x y + nat w * nb fb \<le> frame_bytes fb"
proof -
  have g: "fb_geom fb" using assms(1) by (simp add: fb_ok_def)
  show *: "nat y * unat (fb_pitch fb) + nat (x + w) * nb fb \<le> (nat y + 1) * unat (fb_pitch fb)"
    using pix_off_row [OF g assms(4)] by simp
  have "nat y < unat (fb_height fb)" using assms(5,6) by (simp add: nat_less_iff)
  then have "(nat y + 1) * unat (fb_pitch fb) \<le> frame_bytes fb" by (intro mult_right_mono) simp_all
  moreover have "nat (x + w) * nb fb = nat x * nb fb + nat w * nb fb"
    using assms(2,3) by (simp add: nat_add_distrib algebra_simps)
  ultimately show "pix_off fb x y + nat w * nb fb \<le> frame_bytes fb" using * by (simp add: pix_off_def)
qed

text \<open>A pixel either lies in a row segment or apart from it.\<close>

lemma pixel_row_segment:
  assumes g: "fb_ok fb buf m" and seg: "0 \<le> x" "0 \<le> w" "x + w \<le> uint (fb_width fb)" "0 \<le> y" "y < uint (fb_height fb)"
    and on: "onscreen fb u v"
  shows "v = y \<and> x \<le> u \<and> u < x + w \<Longrightarrow>
      pix_off fb x y \<le> pix_off fb u v \<and> pix_off fb u v + nb fb \<le> pix_off fb x y + nat w * nb fb"
    and "\<not> (v = y \<and> x \<le> u \<and> u < x + w) \<Longrightarrow>
      pix_off fb u v + nb fb \<le> pix_off fb x y \<or> pix_off fb x y + nat w * nb fb \<le> pix_off fb u v"
proof -
  have geo: "fb_geom fb" using g by (simp add: fb_ok_def)
  have uv: "0 \<le> u" "0 \<le> v" using on by (simp_all add: onscreen_def)
  have w: "nat (x + w) * nb fb = nat x * nb fb + nat w * nb fb"
    using seg by (simp add: nat_add_distrib algebra_simps)
  have mono: "nat a * nb fb + nb fb \<le> nat b * nb fb" if "0 \<le> a" "a < b" for a b
  proof -
    have "nat a + 1 \<le> nat b" using that by simp
    then have "(nat a + 1) * nb fb \<le> nat b * nb fb" by (rule mult_right_mono) simp
    then show ?thesis by simp
  qed
  show "pix_off fb x y \<le> pix_off fb u v \<and> pix_off fb u v + nb fb \<le> pix_off fb x y + nat w * nb fb"
    if "v = y \<and> x \<le> u \<and> u < x + w"
    using that mono [of u "x + w"] uv w by (auto simp: pix_off_def intro!: mult_right_mono nat_mono)
  show "pix_off fb u v + nb fb \<le> pix_off fb x y \<or> pix_off fb x y + nat w * nb fb \<le> pix_off fb u v"
    if not: "\<not> (v = y \<and> x \<le> u \<and> u < x + w)"
  proof -
    have rows: "(nat a + 1) * unat (fb_pitch fb) \<le> nat b * unat (fb_pitch fb)" if "0 \<le> a" "a < b" for a b
      using that by (intro mult_right_mono) simp_all
    consider "v < y" | "y < v" | "v = y" "u < x" | "v = y" "x + w \<le> u" using not by linarith
    then show ?thesis
    proof cases
      case 1
      then show ?thesis using pix_off_bound(1) [OF geo on] rows [of v y] uv by (simp add: pix_off_def)
    next
      case 2
      then show ?thesis using row_range(1) [OF g seg] rows [of y v] seg(4) w by (simp add: pix_off_def)
    next
      case 3
      then show ?thesis using mono [of u x] uv by (simp add: pix_off_def)
    next
      case 4
      then have "nat (x + w) * nb fb \<le> nat u * nb fb" by (intro mult_right_mono) simp_all
      with 4 w show ?thesis by (simp add: pix_off_def)
    qed
  qed
qed

definition segment :: "fb_t \<Rightarrow> int \<Rightarrow> int \<Rightarrow> int \<Rightarrow> bool" where
  "segment fb x y w \<longleftrightarrow> 0 \<le> x \<and> 0 \<le> w \<and> x + w \<le> uint (fb_width fb) \<and> 0 \<le> y \<and> y < uint (fb_height fb)"

lemma segment_mapped:
  assumes "fb_ok fb buf m" and "segment fb x y w" and "0 < w"
  shows "unat (pix_addr fb buf x y) = unat buf + pix_off fb x y" and "mapped m (pix_addr fb buf x y) (nat w * nb fb)"
    and "rng (pix_addr fb buf x y) (nat w * nb fb) \<subseteq> rng buf (frame_bytes fb)"
proof -
  have geo: "fb_geom fb" using assms(1) by (simp add: fb_ok_def)
  have seg: "0 \<le> x" "0 \<le> w" "x + w \<le> uint (fb_width fb)" "0 \<le> y" "y < uint (fb_height fb)"
    using assms(2) by (simp_all add: segment_def)
  have "onscreen fb x y" using seg assms(3) geo by (simp add: onscreen_iff)
  from pix_rng(1) [OF assms(1) this] show u: "unat (pix_addr fb buf x y) = unat buf + pix_off fb x y" .
  note b = row_range(2) [OF assms(1) seg]
  show "rng (pix_addr fb buf x y) (nat w * nb fb) \<subseteq> rng buf (frame_bytes fb)" using u b by (auto simp: rng_def)
  then show "mapped m (pix_addr fb buf x y) (nat w * nb fb)"
    using assms(1) u b by (auto simp: mapped_def fb_ok_def)
qed

definition row_moved :: "fb_t \<Rightarrow> u64 \<Rightarrow> int \<Rightarrow> int \<Rightarrow> int \<Rightarrow> int \<Rightarrow> int \<Rightarrow> mem \<Rightarrow> mem \<Rightarrow> bool" where
  "row_moved fb buf sx a w dx b m m' \<longleftrightarrow> same_outside fb buf m m' \<and>
     (\<forall>u v. onscreen fb u v \<longrightarrow> view fb buf m' (u, v) =
        (if v = b \<and> dx \<le> u \<and> u < dx + w then view fb buf m (u - dx + sx, a) else view fb buf m (u, v)))"

lemma row_move:
  assumes ok: "fb_ok fb buf m" and s: "segment fb sx a w" and d: "segment fb dx b w" and w: "0 < w"
    and n: "unat n = nat w * nb fb"
  shows "\<exists>m'. memmove_exact (pix_addr fb buf dx b) (pix_addr fb buf sx a) n m = Inr m' \<and>
    row_moved fb buf sx a w dx b m m'"
proof -
  let ?d = "pix_addr fb buf dx b" and ?s = "pix_addr fb buf sx a"
  let ?m = "moved ?d ?s (nat w * nb fb) m"
  note sm = segment_mapped [OF ok s w] and dm = segment_mapped [OF ok d w]
  have run: "memmove_exact ?d ?s n m = Inr ?m"
    using mvx.copy_moves [of m ?s n ?d] sm(2) dm(2) by (simp add: n)
  have dom: "dom ?m = dom m" using dm(2) by (intro dom_moved sm(2)) (simp add: mapped_def)
  have seg: "0 \<le> dx" "0 \<le> w" "dx + w \<le> uint (fb_width fb)" "0 \<le> b" "b < uint (fb_height fb)"
    using d by (simp_all add: segment_def)
  have geo: "fb_geom fb" using ok by (simp add: fb_ok_def)
  have "view fb buf ?m (u, v) =
      (if v = b \<and> dx \<le> u \<and> u < dx + w then view fb buf m (u - dx + sx, a) else view fb buf m (u, v))"
    if on: "onscreen fb u v" for u v
  proof (cases "v = b \<and> dx \<le> u \<and> u < dx + w")
    case True
    let ?p = "pix_addr fb buf u v" and ?q = "pix_addr fb buf (u - dx + sx) a"
    note pr = pix_rng [OF ok on]
    have on': "onscreen fb (u - dx + sx) a" using True s geo by (auto simp: onscreen_iff segment_def)
    have q: "?s + (?p - ?d) = ?q" using True s seg by (simp add: pix_addr_def segment_def algebra_simps)
    have "rng ?p (nb fb) \<subseteq> rng ?d (nat w * nb fb)"
      using pixel_row_segment(1) [OF ok seg on True] pr(1) dm(1) by (auto simp: rng_def)
    then have "?m (?p + word_of_nat i) = m (?q + word_of_nat i)" if "i < nb fb" for i
    proof -
      have "?p + word_of_nat i \<in> rng ?p (nb fb)" using mapped_nth [OF pr(3) that] that by (simp add: rng_def)
      then have "?p + word_of_nat i \<in> rng ?d (nat w * nb fb)"
        using \<open>rng ?p (nb fb) \<subseteq> rng ?d (nat w * nb fb)\<close> by blast
      moreover have "?s + (?p + word_of_nat i - ?d) = ?q + word_of_nat i" by (simp flip: q)
      ultimately show ?thesis by (simp only: moved_def if_True)
    qed
    with True on on' show ?thesis by (simp add: view_def bytes_at_def)
  next
    case False
    note pr = pix_rng [OF ok on]
    have "rng (pix_addr fb buf u v) (nb fb) \<inter> rng ?d (nat w * nb fb) = {}"
      using pixel_row_segment(2) [OF ok seg on False] pr(1) dm(1) by (auto simp: rng_def)
    then have "bytes_at ?m (pix_addr fb buf u v) (nb fb) = bytes_at m (pix_addr fb buf u v) (nb fb)"
      using pr(3) by (intro bytes_at_cong) (auto simp: mapped_def moved_def)
    with False on show ?thesis by (auto simp: view_def)
  qed
  moreover have "same_outside fb buf m ?m" using dom dm(3) by (auto simp: same_outside_def moved_def)
  ultimately show ?thesis using run by (auto simp: row_moved_def)
qed

text \<open>Rows are moved one after the other; the order makes sure that no row is read after it was
  overwritten.\<close>

lemma rows_move:
  assumes ok: "fb_ok fb buf m" and w: "0 < w" and n: "unat n = nat w * nb fb"
    and seg: "\<And>i. i \<in> set is \<Longrightarrow> segment fb sx (sy + i) w \<and> segment fb dx (dy + i) w"
    and ord: "sorted_wrt (\<lambda>i j. dy + i \<noteq> sy + j) is"
  shows "\<exists>m'. rfold (\<lambda>i. memmove_exact (pix_addr fb buf dx (dy + i)) (pix_addr fb buf sx (sy + i)) n) is m = Inr m' \<and>
    same_outside fb buf m m' \<and>
    (\<forall>u v. onscreen fb u v \<longrightarrow> view fb buf m' (u, v) =
      (if v - dy \<in> set is \<and> dx \<le> u \<and> u < dx + w then view fb buf m (u - dx + sx, v - dy + sy) else view fb buf m (u, v)))"
  using seg ord
proof (induction "is" rule: rev_induct)
  case Nil
  then show ?case by simp
next
  case (snoc j "is")
  let ?step = "\<lambda>i. memmove_exact (pix_addr fb buf dx (dy + i)) (pix_addr fb buf sx (sy + i)) n"
  from snoc obtain m1 where m1: "rfold ?step is m = Inr m1" "same_outside fb buf m m1"
    and v1: "\<And>u v. onscreen fb u v \<Longrightarrow> view fb buf m1 (u, v) =
      (if v - dy \<in> set is \<and> dx \<le> u \<and> u < dx + w then view fb buf m (u - dx + sx, v - dy + sy) else view fb buf m (u, v))"
    by (auto simp: sorted_wrt_append)
  have sg: "segment fb sx (sy + j) w" "segment fb dx (dy + j) w" using snoc.prems(1) by simp_all
  have ok1: "fb_ok fb buf m1" by (rule fb_ok_same [OF ok m1(2)])
  obtain m2 where m2: "?step j m1 = Inr m2" "row_moved fb buf sx (sy + j) w dx (dy + j) m1 m2"
    using row_move [OF ok1 sg w n] by blast
  have unread: "sy + j - dy \<notin> set is" using snoc.prems(2) by (auto simp: sorted_wrt_append)
  have geo: "fb_geom fb" using ok by (simp add: fb_ok_def)
  have "view fb buf m2 (u, v) =
      (if v - dy \<in> set (is @ [j]) \<and> dx \<le> u \<and> u < dx + w then view fb buf m (u - dx + sx, v - dy + sy) else view fb buf m (u, v))"
    if on: "onscreen fb u v" for u v
  proof (cases "v = dy + j \<and> dx \<le> u \<and> u < dx + w")
    case True
    then have "onscreen fb (u - dx + sx) (sy + j)" using sg(1) geo by (auto simp: onscreen_iff segment_def)
    with v1 [OF this] unread True on m2(2) show ?thesis by (simp add: row_moved_def algebra_simps)
  next
    case False
    then have "view fb buf m2 (u, v) = view fb buf m1 (u, v)" using on m2(2) by (auto simp: row_moved_def)
    with False v1 [OF on] show ?thesis by auto
  qed
  moreover have "same_outside fb buf m m2" using m1(2) m2(2) same_outside_trans by (auto simp: row_moved_def)
  ultimately show ?case using m1(1) m2(1) by (auto simp: rfold_append)
qed

lemma sorted_upto: "sorted_wrt (<) [a..b :: int]"
proof (induction "nat (b - a + 1)" arbitrary: a)
  case (Suc k)
  then have "[a..b] = a # [a + 1..b]" by (simp add: upto_rec1)
  moreover have "k = nat (b - (a + 1) + 1)" using Suc(2) by simp
  ultimately show ?case using Suc(1) [of "a + 1"] by auto
qed simp

subsection \<open>Blending\<close>

lemma blend_chan_between:
  assumes "unat f < 256" and "unat b < 256"
  shows "min (unat f) (unat b) \<le> unat (blend_chan f b alpha)" and "unat (blend_chan f b alpha) \<le> max (unat f) (unat b)"
proof -
  let ?F = "unat f" and ?B = "unat b" and ?a = "unat alpha"
  have a: "?a \<le> 255" using unat_bound [of alpha] by simp
  have inv: "unat (255 - ucast alpha :: u32) = 255 - ?a" using a by (simp add: unat_sub_if')
  have fa: "?F * ?a \<le> 255 * 255" "?B * (255 - ?a) \<le> 255 * 255"
    by (rule mult_mono; use assms a in simp)+
  have "unat (f * ucast alpha) = ?F * ?a" "unat (b * (255 - ucast alpha)) = ?B * (255 - ?a)"
    using fa by (simp_all add: unat_word_ariths inv)
  then have "unat (f * ucast alpha + b * (255 - ucast alpha) + 127) = ?F * ?a + ?B * (255 - ?a) + 127"
    using fa by (simp add: unat_word_ariths)
  then have val: "unat (blend_chan f b alpha) = (?F * ?a + ?B * (255 - ?a) + 127) div 255"
    by (simp add: blend_chan_def unat_div)
  have total: "k * ?a + k * (255 - ?a) = 255 * k" for k using a by (simp flip: distrib_left)
  have lo: "255 * min ?F ?B \<le> ?F * ?a + ?B * (255 - ?a)"
    using add_mono [OF mult_right_mono [of "min ?F ?B" ?F ?a] mult_right_mono [of "min ?F ?B" ?B "255 - ?a"]] total by simp
  have hi: "?F * ?a + ?B * (255 - ?a) \<le> 255 * max ?F ?B"
    using add_mono [OF mult_right_mono [of ?F "max ?F ?B" ?a] mult_right_mono [of ?B "max ?F ?B" "255 - ?a"]] total by simp
  show "min ?F ?B \<le> unat (blend_chan f b alpha)" unfolding val using lo by linarith
  show "unat (blend_chan f b alpha) \<le> max ?F ?B" unfolding val using hi by linarith
qed

lemma unat_chan: "unat (w AND 0xFF :: u32) < 256"
proof -
  have "w AND 0xFF = take_bit 8 w" by (simp add: take_bit_eq_mask mask_numeral)
  then show ?thesis by (simp add: unsigned_take_bit_eq take_bit_nat_def)
qed

text \<open>The channels of a colour.\<close>

definition chan :: "nat \<Rightarrow> u32 \<Rightarrow> nat" where
  "chan k c = unat (drop_bit k c AND 0xFF)"

lemma chan_compose:
  assumes "unat r < 256" and "unat g < 256" and "unat b < 256"
  shows "chan 24 (push_bit 24 0xFF OR push_bit 16 r OR push_bit 8 g OR b) = 255"
    and "chan 16 (push_bit 24 0xFF OR push_bit 16 r OR push_bit 8 g OR b) = unat r"
    and "chan 8 (push_bit 24 0xFF OR push_bit 16 r OR push_bit 8 g OR b) = unat g"
    and "chan 0 (push_bit 24 0xFF OR push_bit 16 r OR push_bit 8 g OR b) = unat b"
proof -
  have t: "take_bit 8 w = w" if "unat w < 256" for w :: u32
    using that by (simp add: word_unat_eq_iff unsigned_take_bit_eq take_bit_nat_eq_self)
  have hi: "\<not> bit w n" if "unat w < 256" "8 \<le> n" for w :: u32 and n
    using t [OF that(1)] that(2) by (metis bit_take_bit_iff linorder_not_less)
  have m: "x AND 0xFF = take_bit 8 x" for x :: u32 by (simp add: take_bit_eq_mask mask_numeral)
  let ?c = "push_bit 24 0xFF OR push_bit 16 r OR push_bit 8 g OR b"
  have "take_bit 8 (drop_bit 24 ?c) = take_bit 8 0xFF"
    by (rule bit_word_eqI) (auto simp: bit_simps hi assms)
  then show "chan 24 ?c = 255" by (simp add: chan_def m)
  have "take_bit 8 (drop_bit 16 ?c) = take_bit 8 r" "take_bit 8 (drop_bit 8 ?c) = take_bit 8 g" "take_bit 8 (drop_bit 0 ?c) = take_bit 8 b"
    by (rule bit_word_eqI; auto simp: bit_simps hi assms)+
  then show "chan 16 ?c = unat r" "chan 8 ?c = unat g" "chan 0 ?c = unat b"
    using t assms by (simp_all only: chan_def m)
qed

section \<open>Properties\<close>

text \<open>A small double-buffered frame for the examples: 4 by 2 pixels of 24 bits.\<close>

definition demo_fb :: fb_t where
  "demo_fb = \<lparr>fb_width = 4, fb_height = 2, fb_pitch = 12, fb_bpp = 24, fb_front = 0x1000, fb_back = 0x2000\<rparr>"

definition demo_frames :: mem where
  "demo_frames a = (if 0x1000 \<le> a \<and> a < 0x1018 \<or> 0x2000 \<le> a \<and> a < 0x2018 then Some (ucast a) else None)"

lemma demo_frames_ok:
  "fb_ok demo_fb (fb_front demo_fb) demo_frames" "fb_ok demo_fb (fb_back demo_fb) demo_frames"
  "draw_base demo_fb = fb_back demo_fb"
  by (auto simp: fb_ok_def fb_geom_def mapped_def rng_def demo_fb_def demo_frames_def draw_base_def
      word_le_nat_alt word_less_nat_alt)

text \<open>C35: \<open>draw_rect\<close> never faults on a mapped frame: it gives exactly the pixels of the rectangle that
  are on the screen the colour, leaves every other pixel as it is and touches no memory outside the
  buffer that is drawn to. The far edges \<open>x + w\<close> and \<open>y + h\<close> fit an \<open>int\<close>.\<close>

theorem draw_rect_paints:
  assumes "fb_ok fb (draw_base fb) m" and "int_range x w" and "int_range y h"
  shows "\<exists>m'. draw_rect fb x y w h c m = Inr m' \<and> same_outside fb (draw_base fb) m m' \<and>
    (\<forall>u v. onscreen fb u v \<longrightarrow> view fb (draw_base fb) m' (u, v) =
      (if x \<le> u \<and> u < x + w \<and> y \<le> v \<and> v < y + h then pixel_bytes fb c else view fb (draw_base fb) m (u, v)))"
proof -
  have r: "(u, v) \<in> rect x y w h \<longleftrightarrow> x \<le> u \<and> u < x + w \<and> y \<le> v \<and> v < y + h" for u v by (auto simp: rect_def)
  show ?thesis using draw_rect_painted [OF assms, of c] by (auto simp: raw.painted_def r)
qed

theorem draw_rect_paints_witness:
  "\<exists>m'. draw_rect demo_fb (-1) 0 3 5 0xFF123456 demo_frames = Inr m' \<and>
     view demo_fb 0x2000 m' (1, 1) = [0x56, 0x34, 0x12] \<and> view demo_fb 0x2000 m' (2, 1) = [0x12, 0x13, 0x14]"
proof -
  have "\<exists>m'. draw_rect demo_fb (-1) 0 3 5 0xFF123456 demo_frames = Inr m' \<and>
      (\<forall>u v. onscreen demo_fb u v \<longrightarrow> view demo_fb (fb_back demo_fb) m' (u, v) =
        (if -1 \<le> u \<and> u < -1 + 3 \<and> 0 \<le> v \<and> v < 0 + 5 then pixel_bytes demo_fb 0xFF123456
         else view demo_fb (fb_back demo_fb) demo_frames (u, v)))"
    using draw_rect_paints [of demo_fb demo_frames "-1" 3 0 5 "0xFF123456"] demo_frames_ok
    by (fastforce simp: int_range_def)
  moreover have "onscreen demo_fb 1 1" "onscreen demo_fb 2 1" by (simp_all add: onscreen_def demo_fb_def)
  moreover have "pixel_bytes demo_fb 0xFF123456 = [0x56, 0x34, 0x12]" by code_simp
  moreover have "view demo_fb (fb_back demo_fb) demo_frames (2, 1) = [0x12, 0x13, 0x14]" by code_simp
  moreover have "fb_back demo_fb = 0x2000" by (simp add: demo_fb_def)
  ultimately show ?thesis by (elim exE, intro exI) auto
qed

text \<open>\<open>fb_flush\<close> copies the whole back buffer: every pixel of the front buffer then shows what the
  back buffer holds, and nothing outside the front buffer changes.\<close>

theorem fb_flush_shows_back:
  assumes "fb_ok fb (fb_front fb) m" and "fb_ok fb (fb_back fb) m"
    and "rng (fb_front fb) (frame_bytes fb) \<inter> rng (fb_back fb) (frame_bytes fb) = {}"
    and "unat (fb_front fb) + frame_bytes fb < 2 ^ 64" and "unat (fb_back fb) + frame_bytes fb < 2 ^ 64"
    and "fb_front fb \<noteq> fb_back fb"
  shows "\<exists>m'. fb_flush fb m = Inr m' \<and> (\<forall>p. view fb (fb_front fb) m' p = view fb (fb_back fb) m p) \<and>
    same_outside fb (fb_front fb) m m'"
proof -
  let ?f = "fb_front fb" and ?b = "fb_back fb" and ?n = "frame_bytes fb"
  have mp: "mapped m ?f ?n" "mapped m ?b ?n" "?f \<noteq> 0" "?b \<noteq> 0" using assms(1,2) by (simp_all add: fb_ok_def)
  have "unat (ucast (fb_height fb) * ucast (fb_pitch fb) :: u64) = ?n"
    using assms(5) by (simp add: unat_word_ariths unat_ucast_up)
  then have "unat (?b + ucast (fb_height fb) * ucast (fb_pitch fb)) = unat ?b + ?n"
    using assms(5) by (simp add: unat_add_lem [THEN iffD1])
  then have "fb_flush fb m = Inr (moved ?f ?b ?n m)"
    using flush_rows_moves [of m ?b "unat (fb_height fb)" "unat (fb_pitch fb)" ?f] mp assms(3,4,6)
    by (simp add: fb_flush_def)
  moreover have "same_outside fb ?f m (moved ?f ?b ?n m)"
    using dom_moved [OF mp(2), of ?f] mp(1) by (auto simp: same_outside_def moved_def mapped_def)
  ultimately show ?thesis using view_moved_frame [OF assms(1,2)] by blast
qed

theorem fb_flush_shows_back_witness:
  "\<exists>m'. fb_flush demo_fb demo_frames = Inr m' \<and> view demo_fb 0x1000 m' (3, 1) = [0x15, 0x16, 0x17]"
proof -
  have "rng (fb_front demo_fb) (frame_bytes demo_fb) \<inter> rng (fb_back demo_fb) (frame_bytes demo_fb) = {}"
    by (auto simp: rng_def demo_fb_def)
  with fb_flush_shows_back [OF demo_frames_ok(1,2)] obtain m' where
    "fb_flush demo_fb demo_frames = Inr m'" "view demo_fb (fb_front demo_fb) m' (3, 1) = view demo_fb (fb_back demo_fb) demo_frames (3, 1)"
    by (force simp: demo_fb_def)
  moreover have "view demo_fb (fb_back demo_fb) demo_frames (3, 1) = [0x15, 0x16, 0x17]" by code_simp
  ultimately show ?thesis by (simp add: demo_fb_def)
qed

text \<open>C36: \<open>fb_copy_rect_front\<close> moves a rectangle that lies on the screen, also when source and destination
  overlap: each pixel of the destination shows what the corresponding pixel of the source showed before,
  and all others are as they were.\<close>

theorem fb_copy_rect_moves:
  assumes ok: "fb_ok fb (fb_front fb) m" and "0 < w" and "0 < h"
    and s: "0 \<le> sx" "0 \<le> sy" "sx + w \<le> uint (fb_width fb)" "sy + h \<le> uint (fb_height fb)"
    and d: "0 \<le> dx" "0 \<le> dy" "dx + w \<le> uint (fb_width fb)" "dy + h \<le> uint (fb_height fb)"
  shows "\<exists>m'. fb_copy_rect_front fb sx sy w h dx dy m = Inr m' \<and> same_outside fb (fb_front fb) m m' \<and>
    (\<forall>u v. onscreen fb u v \<longrightarrow> view fb (fb_front fb) m' (u, v) =
      (if dx \<le> u \<and> u < dx + w \<and> dy \<le> v \<and> v < dy + h then view fb (fb_front fb) m (u - dx + sx, v - dy + sy)
       else view fb (fb_front fb) m (u, v)))"
proof -
  let ?is = "if dy > sy then rev [0..h - 1] else [0..h - 1]"
  let ?n = "word_of_int w * ucast (fb_bpp fb div 8) :: u64"
  have geo: "fb_geom fb" using ok by (simp add: fb_ok_def)
  then have lim: "uint (fb_width fb) < 2 ^ 31" "uint (fb_height fb) < 2 ^ 31"
    and si: "sint (fb_width fb) = uint (fb_width fb)" "sint (fb_height fb) = uint (fb_height fb)"
    using sint_small sint_less [of "fb_width fb"] sint_less [of "fb_height fb"] by (auto simp: fb_geom_def)
  have "unat (word_of_int w :: u64) = nat w" 
    using lim s assms(2) by (simp add: unat_eq_nat_uint unsigned_of_int take_bit_int_eq_self)
  moreover have "unat (ucast (fb_bpp fb div 8) :: u64) = nb fb" by (simp add: unat_ucast_up unat_div)
  moreover have "nat w * nb fb < 2 ^ 64"
    using pix_off_row [OF geo, of w] s unat_bound [of "fb_pitch fb"] by simp
  ultimately have n: "unat ?n = nat w * nb fb" by (simp add: unat_word_ariths)
  have "sorted_wrt (\<lambda>i j. dy + i \<noteq> sy + j) ?is"
    using sorted_wrt_mono_rel [OF _ sorted_upto [of 0 "h - 1"], of "\<lambda>i j. dy + i \<noteq> sy + j"]
      sorted_wrt_mono_rel [OF _ sorted_upto [of 0 "h - 1"], of "\<lambda>j i. dy + i \<noteq> sy + j"] by (auto simp: sorted_wrt_rev)
  moreover have "segment fb sx (sy + i) w \<and> segment fb dx (dy + i) w" if "i \<in> set ?is" for i
    using that s d assms(2,3) by (auto simp: segment_def split: if_splits)
  ultimately have "\<exists>m'. rfold (\<lambda>i. memmove_exact (pix_addr fb (fb_front fb) dx (dy + i)) (pix_addr fb (fb_front fb) sx (sy + i)) ?n) ?is m = Inr m' \<and>
      same_outside fb (fb_front fb) m m' \<and>
      (\<forall>u v. onscreen fb u v \<longrightarrow> view fb (fb_front fb) m' (u, v) =
        (if v - dy \<in> set ?is \<and> dx \<le> u \<and> u < dx + w then view fb (fb_front fb) m (u - dx + sx, v - dy + sy) else view fb (fb_front fb) m (u, v)))"
    by (intro rows_move [OF ok assms(2) n]) auto
  moreover have "v - dy \<in> set ?is \<longleftrightarrow> dy \<le> v \<and> v < dy + h" for v by auto
  moreover have "fb_bpp fb = 24 \<or> fb_bpp fb = 32" using geo by (simp add: fb_geom_def)
  ultimately show ?thesis
    using s d lim si assms(2,3) by (auto simp: fb_copy_rect_front_def Let_def)
qed

theorem fb_copy_rect_moves_witness:
  "\<exists>m'. fb_copy_rect_front demo_fb 0 0 3 2 1 0 demo_frames = Inr m' \<and>
     view demo_fb 0x1000 m' (2, 1) = view demo_fb 0x1000 demo_frames (1, 1) \<and>
     view demo_fb 0x1000 m' (0, 1) = view demo_fb 0x1000 demo_frames (0, 1)"
proof -
  have "onscreen demo_fb 2 1" "onscreen demo_fb 0 1" by (simp_all add: onscreen_def demo_fb_def)
  moreover have "fb_front demo_fb = 0x1000" by (simp add: demo_fb_def)
  ultimately show ?thesis
    using fb_copy_rect_moves [OF demo_frames_ok(1), of 3 2 0 0 1 0] by (auto simp: demo_fb_def)
qed

text \<open>blending keeps every channel between those of the two colours, with no carry into a neighbour,
  and the result is opaque.\<close>

theorem blend_over_channels:
  "chan 24 (blend_over bg fg alpha) = 255 \<and>
   list_all (\<lambda>k. min (chan k fg) (chan k bg) \<le> chan k (blend_over bg fg alpha) \<and>
      chan k (blend_over bg fg alpha) \<le> max (chan k fg) (chan k bg)) [0, 8, 16]"
proof -
  define ch where "ch k = blend_chan (drop_bit k fg AND 0xFF) (drop_bit k bg AND 0xFF) alpha" for k
  have bet: "min (chan k fg) (chan k bg) \<le> unat (ch k)" "unat (ch k) \<le> max (chan k fg) (chan k bg)" for k
    unfolding ch_def chan_def by (rule blend_chan_between; rule unat_chan)+
  have lt: "unat (ch k) < 256" for k
    using bet(2) [of k] unat_chan [of "drop_bit k fg"] unat_chan [of "drop_bit k bg"] by (simp add: chan_def)
  have "blend_over bg fg alpha = push_bit 24 0xFF OR push_bit 16 (ch 16) OR push_bit 8 (ch 8) OR ch 0"
    by (simp add: blend_over_def ch_def Let_def)
  then show ?thesis using chan_compose [OF lt lt lt, of 16 8 0] bet by simp
qed

end
