(* ===== verification/Ui.thy ===== *)
theory Ui
  imports Framebuffer "HOL-Library.Signed_Division"
begin

text \<open>
  \<open>ui.c\<close>: colour arithmetic and the filled shapes of the desktop, on top of the framebuffer.
  Channels are C \<open>int\<close>; division truncates towards zero (\<open>sdiv\<close>).
\<close>

subsection \<open>Colours\<close>

definition ui_clamp8 :: "int \<Rightarrow> u8" where
  "ui_clamp8 v = (if v < 0 then 0 else if v > 255 then 255 else word_of_int v)"

text \<open>\<open>(argb >> k) & 0xFF\<close> as an \<open>int\<close>\<close>

definition chan_int :: "nat \<Rightarrow> u32 \<Rightarrow> int" where
  "chan_int k c = uint (drop_bit k c AND 0xFF)"

text \<open>\<open>(a << 24) | (r << 16) | (g << 8) | b\<close>\<close>

definition pack :: "u8 \<Rightarrow> u8 \<Rightarrow> u8 \<Rightarrow> u8 \<Rightarrow> u32" where
  "pack a r g b = push_bit 24 (ucast a) OR push_bit 16 (ucast r) OR push_bit 8 (ucast g) OR ucast b"

definition ui_shade_color :: "u32 \<Rightarrow> int \<Rightarrow> u32" where
  "ui_shade_color argb delta =
     pack (ucast (drop_bit 24 argb)) (ui_clamp8 (chan_int 16 argb + delta)) (ui_clamp8 (chan_int 8 argb + delta))
       (ui_clamp8 (chan_int 0 argb + delta))"

definition lerp_chan :: "nat \<Rightarrow> u32 \<Rightarrow> u32 \<Rightarrow> int \<Rightarrow> int \<Rightarrow> u8 res" where
  "lerp_chan k c0 c1 i n =
     rbind (i32 ((chan_int k c1 - chan_int k c0) * i)) (\<lambda>p. rbind (i32 (chan_int k c0 + p sdiv n)) (\<lambda>v. Inr (ui_clamp8 v)))"

definition ui_lerp_color :: "u32 \<Rightarrow> u32 \<Rightarrow> int \<Rightarrow> int \<Rightarrow> u32 res" where
  "ui_lerp_color c0 c1 i n =
     (if n \<le> 0 then Inr c0 else
      rbind (lerp_chan 24 c0 c1 i n) (\<lambda>a. rbind (lerp_chan 16 c0 c1 i n) (\<lambda>r.
      rbind (lerp_chan 8 c0 c1 i n) (\<lambda>g. rbind (lerp_chan 0 c0 c1 i n) (\<lambda>b. Inr (pack a r g b))))))"

definition ui_usage_color :: "u32 \<Rightarrow> u32" where
  "ui_usage_color pct = (if pct < 50 then 0xFF4CAF50 else if pct < 80 then 0xFFFFC107 else 0xFFF44336)"

subsection \<open>Shapes\<close>

definition ui_draw_hgrad_rect :: "fb_t \<Rightarrow> int \<Rightarrow> int \<Rightarrow> int \<Rightarrow> int \<Rightarrow> u32 \<Rightarrow> u32 \<Rightarrow> mem \<Rightarrow> mem res" where
  "ui_draw_hgrad_rect fb x y w h ctop cbot m =
     (if h \<le> 0 \<or> w \<le> 0 then Inr m
      else if h = 1 then draw_rect fb x y w 1 ctop m
      else rfold (\<lambda>i m. rbind (ui_lerp_color ctop cbot i (h - 1)) (\<lambda>c.
             rbind (i32 (y + i)) (\<lambda>yy. draw_rect fb x yy w 1 c m))) [0..h - 1] m)"

definition ui_draw_bar_soft :: "fb_t \<Rightarrow> int \<Rightarrow> int \<Rightarrow> int \<Rightarrow> int \<Rightarrow> u32 \<Rightarrow> mem \<Rightarrow> mem res" where
  "ui_draw_bar_soft fb x y w h base m =
     (if h \<le> 0 \<or> w \<le> 0 then Inr m
      else if h \<ge> 3 then
        rbind (draw_rect fb x y w 1 (ui_shade_color base 28) m) (\<lambda>m1.
        rbind (i32 (y + 1)) (\<lambda>y1.
        rbind (ui_draw_hgrad_rect fb x y1 w (h - 2) (ui_shade_color base 12) (ui_shade_color base (-12)) m1) (\<lambda>m2.
        rbind (i32 (y + h)) (\<lambda>y2. draw_rect fb x (y2 - 1) w 1 (ui_shade_color base (-28)) m2))))
      else draw_rect fb x y w h base m)"

text \<open>The four points of one step of the loop over the corners.\<close>

definition corner_points :: "int \<Rightarrow> int \<Rightarrow> int \<Rightarrow> int \<Rightarrow> int \<Rightarrow> int \<Rightarrow> int \<Rightarrow> (int \<times> int) list" where
  "corner_points x y w h r dx dy =
     [(x + r - 1 - dx, y + r - 1 - dy), (x + w - r + dx, y + r - 1 - dy),
      (x + r - 1 - dx, y + h - r + dy), (x + w - r + dx, y + h - r + dy)]"

definition corner_step :: "fb_t \<Rightarrow> u64 \<Rightarrow> int \<Rightarrow> int \<Rightarrow> int \<Rightarrow> int \<Rightarrow> int \<Rightarrow> u32 \<Rightarrow> int \<Rightarrow> int \<Rightarrow> mem \<Rightarrow> mem res" where
  "corner_step fb buf x y w h r color dy dx m =
     rbind (i32 (dx * dx + dy * dy)) (\<lambda>d2.
      if d2 > r * r then Inr m
      else rfold (\<lambda>(u, v) m. rbind (i32 u) (\<lambda>u. rbind (i32 v) (\<lambda>v. put_pixel_raw fb buf u v color m)))
             (corner_points x y w h r dx dy) m)"

definition clamp_radius :: "int \<Rightarrow> int \<Rightarrow> int \<Rightarrow> int res" where
  "clamp_radius radius w h =
     (let r0 = (if radius < 0 then 0 else radius) in
      rbind (i32 (r0 * 2)) (\<lambda>d0. let r1 = (if d0 > w then w sdiv 2 else r0) in
      rbind (i32 (r1 * 2)) (\<lambda>d1. Inr (if d1 > h then h sdiv 2 else r1))))"

definition ui_fill_round_rect :: "fb_t \<Rightarrow> int \<Rightarrow> int \<Rightarrow> int \<Rightarrow> int \<Rightarrow> int \<Rightarrow> u32 \<Rightarrow> mem \<Rightarrow> mem res" where
  "ui_fill_round_rect fb x y w h radius color m =
     (if w \<le> 0 \<or> h \<le> 0 then Inr m else
      rbind (clamp_radius radius w h) (\<lambda>r.
      let buf = draw_base fb in
      if buf = 0 then Inr m else
      rbind (i32 (x + r)) (\<lambda>xr. rbind (draw_rect fb xr y (w - 2 * r) h color m) (\<lambda>m1.
      if r = 0 then Inr m1 else
      rbind (i32 (y + r)) (\<lambda>yr. rbind (draw_rect fb x yr r (h - 2 * r) color m1) (\<lambda>m2.
      rbind (i32 (x + w)) (\<lambda>xw. rbind (draw_rect fb (xw - r) yr r (h - 2 * r) color m2) (\<lambda>m3.
      rbind (i32 (r * r)) (\<lambda>_.
        rfold (\<lambda>dy. rfold (corner_step fb buf x y w h r color dy) [0..r - 1]) [0..r - 1] m3)))))))))"

subsection \<open>Channels\<close>

lemma and_FF: "x AND 0xFF = take_bit 8 (x :: u32)"
  by (simp add: take_bit_eq_mask mask_numeral)

lemma chan_pack:
  "chan_int 24 (pack a r g b) = uint a" "chan_int 16 (pack a r g b) = uint r"
  "chan_int 8 (pack a r g b) = uint g" "chan_int 0 (pack a r g b) = uint b"
proof -
  have "take_bit 8 (drop_bit 24 (pack a r g b)) = ucast a" "take_bit 8 (drop_bit 16 (pack a r g b)) = ucast r"
    "take_bit 8 (drop_bit 8 (pack a r g b)) = ucast g" "take_bit 8 (drop_bit 0 (pack a r g b)) = ucast b"
    unfolding pack_def by (rule bit_word_eqI; auto simp: bit_simps dest: bit_imp_le_length)+
  moreover have "uint (ucast w :: u32) = uint w" for w :: u8
    using uint_bounded [of w] by (simp add: unsigned_ucast_eq take_bit_int_eq_self)
  ultimately show "chan_int 24 (pack a r g b) = uint a" "chan_int 16 (pack a r g b) = uint r"
    "chan_int 8 (pack a r g b) = uint g" "chan_int 0 (pack a r g b) = uint b"
    by (simp_all only: chan_int_def and_FF)
qed

lemma chan_range: "0 \<le> chan_int k c" "chan_int k c \<le> 255"
proof -
  show "0 \<le> chan_int k c" by (simp add: chan_int_def)
  have "uint (take_bit 8 (drop_bit k c)) < 256"
    using take_bit_int_less_exp [of 8 "uint (drop_bit k c)"] by (simp add: unsigned_take_bit_eq)
  then show "chan_int k c \<le> 255" by (simp add: chan_int_def and_FF)
qed

lemma pack_channels:
  "pack (word_of_int (chan_int 24 c)) (word_of_int (chan_int 16 c)) (word_of_int (chan_int 8 c)) (word_of_int (chan_int 0 c)) = c"
proof -
  have "(word_of_int (chan_int k c) :: u8) = ucast (drop_bit k c)" for k
    by (rule bit_word_eqI) (simp add: chan_int_def and_FF bit_simps)
  then have c: "pack (word_of_int (chan_int 24 c)) (word_of_int (chan_int 16 c)) (word_of_int (chan_int 8 c)) (word_of_int (chan_int 0 c)) =
      pack (ucast (drop_bit 24 c)) (ucast (drop_bit 16 c)) (ucast (drop_bit 8 c)) (ucast (drop_bit 0 c))" by simp
  show ?thesis
    unfolding c
  proof (rule bit_word_eqI)
    fix n
    assume "n < LENGTH(32)"
    then consider "n < 8" | "8 \<le> n" "n < 16" | "16 \<le> n" "n < 24" | "24 \<le> n" "n < 32" by fastforce
    then show "bit (pack (ucast (drop_bit 24 c)) (ucast (drop_bit 16 c)) (ucast (drop_bit 8 c)) (ucast (drop_bit 0 c))) n \<longleftrightarrow> bit c n"
      by cases (auto simp: pack_def bit_simps)
  qed
qed

lemma clamp_id: "0 \<le> v \<Longrightarrow> v \<le> 255 \<Longrightarrow> ui_clamp8 v = word_of_int v \<and> uint (ui_clamp8 v) = v"
  by (simp add: ui_clamp8_def unsigned_of_int take_bit_int_eq_self)

subsection \<open>Interpolation\<close>

lemma sdiv_between:
  fixes d i n :: int
  assumes "0 \<le> i" and "i \<le> n" and "0 < n"
  shows "min 0 d \<le> (d * i) sdiv n" and "(d * i) sdiv n \<le> max 0 d"
    and "i = n \<Longrightarrow> (d * i) sdiv n = d"
proof -
  have le: "k * i div n \<le> k" if "0 \<le> k" for k
  proof -
    have "k * i \<le> k * n" using that assms by (intro mult_left_mono)
    then have "k * i div n \<le> k * n div n" using assms by (intro zdiv_mono1)
    then show ?thesis using assms by simp
  qed
  have pos: "(d * i) sdiv n = d * i div n" if "0 \<le> d"
    using that assms by (cases "d * i = 0") (auto simp: signed_divide_int_def sgn_if mult_less_0_iff zero_less_mult_iff)
  have neg: "(d * i) sdiv n = - ((- d) * i div n)" if "d < 0"
    using that assms by (cases "d * i = 0") (auto simp: signed_divide_int_def sgn_if mult_less_0_iff zero_less_mult_iff abs_if)
  have nn: "0 \<le> k * i div n" if "0 \<le> k" for k using that assms by (simp add: pos_imp_zdiv_nonneg_iff)
  show "min 0 d \<le> (d * i) sdiv n" "(d * i) sdiv n \<le> max 0 d"
    using pos neg le [of d] le [of "- d"] nn [of d] nn [of "- d"] by (cases "0 \<le> d"; force)+
  show "(d * i) sdiv n = d" if "i = n"
  proof (cases "0 \<le> d")
    case False
    have "(- d) * n div n = - d" using assms by (intro nonzero_mult_div_cancel_right) simp
    with neg False that show ?thesis by (simp only: not_le minus_minus)
  qed (use pos that assms in simp)
qed

definition lerp_value :: "nat \<Rightarrow> u32 \<Rightarrow> u32 \<Rightarrow> int \<Rightarrow> int \<Rightarrow> int" where
  "lerp_value k c0 c1 i n = chan_int k c0 + ((chan_int k c1 - chan_int k c0) * i) sdiv n"

lemma lerp_value_between:
  assumes "0 \<le> i" and "i \<le> n" and "0 < n"
  shows "min (chan_int k c0) (chan_int k c1) \<le> lerp_value k c0 c1 i n" "lerp_value k c0 c1 i n \<le> max (chan_int k c0) (chan_int k c1)"
    and "0 \<le> lerp_value k c0 c1 i n" "lerp_value k c0 c1 i n \<le> 255"
  using sdiv_between(1,2) [OF assms, of "chan_int k c1 - chan_int k c0"] chan_range [of k c0] chan_range [of k c1]
  by (auto simp: lerp_value_def min_def max_def split: if_splits)

lemma lerp_chan_value:
  assumes "0 \<le> i" and "i \<le> n" and "0 < n" and "n < 2 ^ 23"
  shows "lerp_chan k c0 c1 i n = Inr (word_of_int (lerp_value k c0 c1 i n))"
proof -
  let ?d = "chan_int k c1 - chan_int k c0"
  have "\<bar>?d\<bar> * i \<le> 255 * 2 ^ 23" using chan_range [of k c0] chan_range [of k c1] assms by (intro mult_mono) auto
  then have "\<bar>?d * i\<bar> < 2 ^ 31" using assms(1) by (simp add: abs_mult)
  then have "i32 (?d * i) = Inr (?d * i)" by (intro i32_ok) (auto simp: abs_less_iff)
  moreover have "i32 (lerp_value k c0 c1 i n) = Inr (lerp_value k c0 c1 i n)"
    using lerp_value_between(3,4) [OF assms(1-3), of k c0 c1] by simp
  ultimately show ?thesis
    using clamp_id lerp_value_between(3,4) [OF assms(1-3), of k c0 c1] by (simp add: lerp_chan_def lerp_value_def)
qed

definition lerp :: "u32 \<Rightarrow> u32 \<Rightarrow> int \<Rightarrow> int \<Rightarrow> u32" where
  "lerp c0 c1 i n = pack (word_of_int (lerp_value 24 c0 c1 i n)) (word_of_int (lerp_value 16 c0 c1 i n))
     (word_of_int (lerp_value 8 c0 c1 i n)) (word_of_int (lerp_value 0 c0 c1 i n))"

lemma ui_lerp_color_is_lerp:
  "0 \<le> i \<Longrightarrow> i \<le> n \<Longrightarrow> 0 < n \<Longrightarrow> n < 2 ^ 23 \<Longrightarrow> ui_lerp_color c0 c1 i n = Inr (lerp c0 c1 i n)"
  by (simp add: ui_lerp_color_def lerp_def lerp_chan_value)

subsection \<open>Gradients\<close>

lemma rows_painted:
  assumes ok: "fb_ok fb (draw_base fb) m" and x: "int_range x w" and y: "\<And>i. i \<in> set is \<Longrightarrow> - (2 ^ 31) \<le> y + i \<and> y + i + 1 < 2 ^ 31"
  shows "\<exists>m'. rfold (\<lambda>i m. rbind (i32 (y + i)) (\<lambda>yy. draw_rect fb x yy w 1 (f i) m)) is m = Inr m' \<and>
    same_outside fb (draw_base fb) m m' \<and>
    (\<forall>u v. onscreen fb u v \<longrightarrow> view fb (draw_base fb) m' (u, v) =
      (if v - y \<in> set is \<and> x \<le> u \<and> u < x + w then pixel_bytes fb (f (v - y)) else view fb (draw_base fb) m (u, v)))"
  using y
proof (induction "is" rule: rev_induct)
  case Nil
  then show ?case by simp
next
  case (snoc j "is")
  let ?step = "\<lambda>i m. rbind (i32 (y + i)) (\<lambda>yy. draw_rect fb x yy w 1 (f i) m)"
  from snoc obtain m1 where m1: "rfold ?step is m = Inr m1" "same_outside fb (draw_base fb) m m1"
    and v1: "\<And>u v. onscreen fb u v \<Longrightarrow> view fb (draw_base fb) m1 (u, v) =
      (if v - y \<in> set is \<and> x \<le> u \<and> u < x + w then pixel_bytes fb (f (v - y)) else view fb (draw_base fb) m (u, v))" by auto
  have j: "- (2 ^ 31) \<le> y + j" "y + j + 1 < 2 ^ 31" using snoc.prems by auto
  then have "int_range (y + j) 1" by (simp add: int_range_def)
  from draw_rect_painted [OF fb_ok_same [OF ok m1(2)] x this, of "f j"] obtain m2 where
    m2: "draw_rect fb x (y + j) w 1 (f j) m1 = Inr m2" "raw.painted fb (draw_base fb) (rect x (y + j) w 1) (f j) m1 m2" by blast
  have "same_outside fb (draw_base fb) m m2" using m1(2) m2(2) same_outside_trans by (auto simp: raw.painted_def)
  moreover have "view fb (draw_base fb) m2 (u, v) =
      (if v - y \<in> set (is @ [j]) \<and> x \<le> u \<and> u < x + w then pixel_bytes fb (f (v - y)) else view fb (draw_base fb) m (u, v))"
    if on: "onscreen fb u v" for u v
  proof -
    have "(u, v) \<in> rect x (y + j) w 1 \<longleftrightarrow> v - y = j \<and> x \<le> u \<and> u < x + w" by (auto simp: rect_def)
    then have "view fb (draw_base fb) m2 (u, v) =
        (if v - y = j \<and> x \<le> u \<and> u < x + w then pixel_bytes fb (f j) else view fb (draw_base fb) m1 (u, v))"
      using m2(2) on by (simp add: raw.painted_def)
    with v1 [OF on] show ?thesis by auto
  qed
  ultimately show ?case using m1(1) m2(1) j by (auto simp: rfold_append)
qed

subsection \<open>Rounded rectangles\<close>

text \<open>The pixels of a rectangle without its rounded corners: the distances to the straight part are
  counted from the first pixel outside of it.\<close>

definition in_round :: "int \<Rightarrow> int \<Rightarrow> int \<Rightarrow> int \<Rightarrow> int \<Rightarrow> int \<times> int \<Rightarrow> bool" where
  "in_round x y w h r p \<longleftrightarrow>
     (let dx = max 0 (max (x + r - 1 - fst p) (fst p - (x + w - r)));
          dy = max 0 (max (y + r - 1 - snd p) (snd p - (y + h - r)))
      in p \<in> rect x y w h \<and> dx * dx + dy * dy \<le> r * r)"

definition corner_set :: "int \<Rightarrow> int \<Rightarrow> int \<Rightarrow> int \<Rightarrow> int \<Rightarrow> (int \<times> int) set" where
  "corner_set x y w h r = (\<Union>dy\<in>{0..<r}. \<Union>dx\<in>{0..<r}. if dx * dx + dy * dy \<le> r * r then set (corner_points x y w h r dx dy) else {})"

lemma square_less: "0 \<le> a \<Longrightarrow> a < r \<Longrightarrow> a * a \<le> r * (r :: int)"
  by (intro mult_mono) auto

lemma round_parts:
  assumes "0 \<le> r" and "2 * r \<le> w" and "2 * r \<le> h"
  shows "{p. in_round x y w h r p} =
    rect (x + r) y (w - 2 * r) h \<union> rect x (y + r) r (h - 2 * r) \<union> rect (x + w - r) (y + r) r (h - 2 * r) \<union> corner_set x y w h r"
    (is "?L = ?R")
proof (intro set_eqI iffI)
  fix p
  assume "p \<in> ?L"
  then obtain u v where p: "p = (u, v)" and inr: "in_round x y w h r (u, v)" by (cases p) auto
  then have rc: "x \<le> u" "u < x + w" "y \<le> v" "v < y + h" by (simp_all add: in_round_def Let_def rect_def)
  define dx where "dx = max (x + r - 1 - u) (u - (x + w - r))"
  define dy where "dy = max (y + r - 1 - v) (v - (y + h - r))"
  have sq: "max 0 dx * max 0 dx + max 0 dy * max 0 dy \<le> r * r" using inr by (simp add: in_round_def Let_def dx_def dy_def)
  show "p \<in> ?R"
  proof (cases "0 \<le> dx \<and> 0 \<le> dy")
    case True
    then have "dx \<in> {0..<r}" "dy \<in> {0..<r}" "dx * dx + dy * dy \<le> r * r" using rc sq by (auto simp: dx_def dy_def)
    moreover have "(u, v) \<in> set (corner_points x y w h r dx dy)"
      using True assms by (auto simp: corner_points_def dx_def dy_def max_def)
    ultimately have "(u, v) \<in> corner_set x y w h r" unfolding corner_set_def by force
    then show ?thesis by (simp add: p)
  next
    case False
    then show ?thesis using rc by (auto simp: p rect_def dx_def dy_def)
  qed
next
  fix p
  assume "p \<in> ?R"
  then obtain u v where p: "p = (u, v)" and R: "(u, v) \<in> ?R" by (cases p) auto
  from R consider (flat) "x + r \<le> u" "u < x + w - r" "y \<le> v" "v < y + h"
    | (side) "y + r \<le> v" "v < y + h - r" "x \<le> u" "u < x + w"
    | (corner) "(u, v) \<in> corner_set x y w h r"
    using assms by (auto simp: rect_def)
  then show "p \<in> ?L"
  proof cases
    case flat
    then have "max 0 (max (y + r - 1 - v) (v - (y + h - r))) < r \<or> r = 0" using assms by (auto simp: max_def)
    with flat assms square_less [of "max 0 (max (y + r - 1 - v) (v - (y + h - r)))" r] show ?thesis
      by (auto simp: p in_round_def Let_def rect_def max_def split: if_splits)
  next
    case side
    then have "max 0 (max (x + r - 1 - u) (u - (x + w - r))) < r \<or> r = 0" using assms by (auto simp: max_def)
    with side assms square_less [of "max 0 (max (x + r - 1 - u) (u - (x + w - r)))" r] show ?thesis
      by (auto simp: p in_round_def Let_def rect_def max_def split: if_splits)
  next
    case corner
    then obtain dx dy where d: "0 \<le> dx" "dx < r" "0 \<le> dy" "dy < r" "dx * dx + dy * dy \<le> r * r"
      "(u, v) \<in> set (corner_points x y w h r dx dy)" by (auto simp: corner_set_def split: if_splits)
    then have "max 0 (max (x + r - 1 - u) (u - (x + w - r))) = dx" "max 0 (max (y + r - 1 - v) (v - (y + h - r))) = dy"
      "(u, v) \<in> rect x y w h" using assms by (auto simp: corner_points_def rect_def max_def)
    with d(5) show ?thesis by (simp add: p in_round_def Let_def)
  qed
qed

lemma corner_step_painted:
  assumes ok: "fb_ok fb buf m" and d: "0 \<le> dx" "dx < r" "0 \<le> dy" "dy < r"
    and r: "r < 2 ^ 15" "2 * r \<le> w" "2 * r \<le> h"
    and xy: "- (2 ^ 31) \<le> x" "x + w < 2 ^ 31" "- (2 ^ 31) \<le> y" "y + h < 2 ^ 31"
  shows "\<exists>m'. corner_step fb buf x y w h r c dy dx m = Inr m' \<and>
    raw.painted fb buf (if dx * dx + dy * dy \<le> r * r then set (corner_points x y w h r dx dy) else {}) c m m'"
proof -
  let ?ps = "corner_points x y w h r dx dy"
  let ?put = "\<lambda>(u, v) m. rbind (i32 u) (\<lambda>u. rbind (i32 v) (\<lambda>v. put_pixel_raw fb buf u v c m))"
  have "r * r \<le> (2 ^ 15 - 1) * (2 ^ 15 - 1)" using d r by (intro mult_mono) simp_all
  then have "dx * dx + dy * dy < 2 ^ 31" using square_less [of dx r] square_less [of dy r] d r by simp
  moreover have "0 \<le> dx * dx + dy * dy" by simp
  ultimately have d2: "i32 (dx * dx + dy * dy) = Inr (dx * dx + dy * dy)" by (intro i32_ok) linarith+
  have "?put p m = put_pixel_raw fb buf (fst p) (snd p) c m" if "p \<in> set ?ps" for p m
    using that d r xy by (auto simp: corner_points_def)
  then have "rfold ?put ?ps m = rfold (\<lambda>(x, y). put_pixel_raw fb buf x y c) ?ps m"
    by (intro rfold_cong) (simp add: case_prod_beta)
  with raw.paint_list [OF ok, of c ?ps] show ?thesis
    by (auto simp: corner_step_def d2 raw.painted_def)
qed

lemma corners_painted:
  assumes ok: "fb_ok fb buf m" and r: "r < 2 ^ 15" "2 * r \<le> w" "2 * r \<le> h"
    and xy: "- (2 ^ 31) \<le> x" "x + w < 2 ^ 31" "- (2 ^ 31) \<le> y" "y + h < 2 ^ 31"
  shows "\<exists>m'. rfold (\<lambda>dy. rfold (corner_step fb buf x y w h r c dy) [0..r - 1]) [0..r - 1] m = Inr m' \<and>
    raw.painted fb buf (corner_set x y w h r) c m m'"
proof -
  have rng: "{0..<r} = set [0..r - 1]" by auto
  show ?thesis
    unfolding corner_set_def rng
    by (intro raw.painted_rfold corner_step_painted ok r xy) auto
qed

lemma clamp_radius_bounds:
  assumes "0 < w" and "0 < h" and "radius < 2 ^ 15" and "w < 2 ^ 31" and "h < 2 ^ 31"
  shows "\<exists>r. clamp_radius radius w h = Inr r \<and> 0 \<le> r \<and> 2 * r \<le> w \<and> 2 * r \<le> h \<and> r < 2 ^ 15 \<and>
    (0 \<le> radius \<and> 2 * radius \<le> w \<and> 2 * radius \<le> h \<longrightarrow> r = radius)"
proof -
  have half: "v sdiv 2 = v div 2" if "0 < v" for v :: int using that by (simp add: signed_divide_int_def)
  have "clamp_radius radius w h = Inr (let r0 = max 0 radius; r1 = (if r0 * 2 > w then w div 2 else r0) in
      if r1 * 2 > h then h div 2 else r1)"
    using assms half by (auto simp: clamp_radius_def Let_def)
  then show ?thesis using assms by (auto simp: Let_def)
qed

text \<open>Small ranges for coordinates and sizes, as those of a screen.\<close>

definition small :: "int \<Rightarrow> int \<Rightarrow> bool" where
  "small p n \<longleftrightarrow> - (2 ^ 20) \<le> p \<and> p \<le> 2 ^ 20 \<and> n \<le> 2 ^ 20"

lemma round_painted:
  assumes ok: "fb_ok fb (draw_base fb) m" and sm: "small x w" "small y h" and wh: "0 < w" "0 < h"
    and r: "clamp_radius radius w h = Inr r" "0 \<le> r" "2 * r \<le> w" "2 * r \<le> h" "r < 2 ^ 15"
  shows "\<exists>m'. ui_fill_round_rect fb x y w h radius c m = Inr m' \<and>
    raw.painted fb (draw_base fb) {p. in_round x y w h r p} c m m'"
proof -
  let ?b = "draw_base fb"
  note lim = sm [unfolded small_def]
  have ir: "int_range (x + r) (w - 2 * r)" "int_range y h" "int_range x r" "int_range (y + r) (h - 2 * r)"
    "int_range (x + w - r) r" using lim r wh by (simp_all add: int_range_def)
  have nz: "?b \<noteq> 0" using ok by (simp add: fb_ok_def)
  have ix: "i32 (x + r) = Inr (x + r)" "i32 (y + r) = Inr (y + r)" "i32 (x + w) = Inr (x + w)"
    using lim r wh by simp_all
  have "r * r \<le> 2 ^ 15 * 2 ^ 15" using r by (intro mult_mono) simp_all
  then have rr: "i32 (r * r) = Inr (r * r)" by (intro i32_ok) (simp_all add: order_trans [of _ 0])
  obtain m1 where m1: "draw_rect fb (x + r) y (w - 2 * r) h c m = Inr m1" "raw.painted fb ?b (rect (x + r) y (w - 2 * r) h) c m m1"
    using draw_rect_painted [OF ok ir(1,2)] by blast
  show ?thesis
  proof (cases "r = 0")
    case True
    then have "raw.painted fb ?b {p. in_round x y w h r p} c m m1"
      using m1(2) round_parts [of r w h x y] r by (simp add: corner_set_def rect_def)
    with True m1 nz ix r wh show ?thesis by (auto simp: ui_fill_round_rect_def)
  next
    case False
    note ok1 = raw.painted_ok [OF ok m1(2)]
    obtain m2 where m2: "draw_rect fb x (y + r) r (h - 2 * r) c m1 = Inr m2" "raw.painted fb ?b (rect x (y + r) r (h - 2 * r)) c m1 m2"
      using draw_rect_painted [OF ok1 ir(3,4)] by blast
    note ok2 = raw.painted_ok [OF ok1 m2(2)]
    obtain m3 where m3: "draw_rect fb (x + w - r) (y + r) r (h - 2 * r) c m2 = Inr m3"
      "raw.painted fb ?b (rect (x + w - r) (y + r) r (h - 2 * r)) c m2 m3"
      using draw_rect_painted [OF ok2 ir(5,4)] by blast
    obtain m4 where m4: "rfold (\<lambda>dy. rfold (corner_step fb ?b x y w h r c dy) [0..r - 1]) [0..r - 1] m3 = Inr m4"
      "raw.painted fb ?b (corner_set x y w h r) c m3 m4"
      using corners_painted [OF raw.painted_ok [OF ok2 m3(2)] r(5,3,4), of x y c] lim wh by auto
    have "raw.painted fb ?b {p. in_round x y w h r p} c m m4"
      unfolding round_parts [OF r(2-4)]
      by (rule raw.painted_Un [OF raw.painted_Un [OF raw.painted_Un [OF m1(2) m2(2)] m3(2)] m4(2)])
    with False m1(1) m2(1) m3(1) m4(1) nz ix rr r wh show ?thesis by (auto simp: ui_fill_round_rect_def)
  qed
qed

subsection \<open>Properties\<close>

text \<open>\<open>ui_lerp_color\<close> starts at the first colour and ends at the second, and in between every channel,
  alpha included, lies between those of the two colours.\<close>

theorem ui_lerp_color_between:
  assumes "0 \<le> i" and "i \<le> n" and "0 < n" and "n < 2 ^ 23"
  shows "\<exists>c. ui_lerp_color c0 c1 i n = Inr c \<and> (i = 0 \<longrightarrow> c = c0) \<and> (i = n \<longrightarrow> c = c1) \<and>
    (\<forall>k\<in>{0, 8, 16, 24}. min (chan_int k c0) (chan_int k c1) \<le> chan_int k c \<and> chan_int k c \<le> max (chan_int k c0) (chan_int k c1))"
proof -
  let ?c = "lerp c0 c1 i n"
  have "uint (word_of_int (lerp_value k c0 c1 i n) :: u8) = lerp_value k c0 c1 i n" for k
    using lerp_value_between(3,4) [OF assms(1-3), of k c0 c1] by (simp add: unsigned_of_int take_bit_int_eq_self)
  then have "chan_int k ?c = lerp_value k c0 c1 i n" if "k \<in> {0, 8, 16, 24}" for k
    using that by (auto simp: lerp_def chan_pack)
  moreover have "lerp_value k c0 c1 0 n = chan_int k c0" for k by (simp add: lerp_value_def)
  then have "i = 0 \<longrightarrow> ?c = c0" using pack_channels [of c0] by (simp add: lerp_def)
  moreover have "lerp_value k c0 c1 n n = chan_int k c1" for k
    using sdiv_between(3) [of n n "chan_int k c1 - chan_int k c0"] assms(3) by (simp add: lerp_value_def)
  then have "i = n \<longrightarrow> ?c = c1" using pack_channels [of c1] by (simp add: lerp_def)
  ultimately show ?thesis
    using ui_lerp_color_is_lerp [OF assms] lerp_value_between(1,2) [OF assms(1-3)] by (auto simp: min_le_iff_disj le_max_iff_disj)
qed

theorem ui_lerp_color_between_witness: "\<exists>c. ui_lerp_color 0xFF000000 0xFFFFFFFF 9 9 = Inr c \<and> c = 0xFFFFFFFF"
  using ui_lerp_color_between [of 9 9 "0xFF000000" "0xFFFFFFFF"] by auto

text \<open>\<open>ui_draw_hgrad_rect\<close> never faults and gives each row of the rectangle that is on the screen the
  colour between the two that belongs to the row; nothing else changes.\<close>

theorem ui_hgrad_paints_rows:
  assumes ok: "fb_ok fb (draw_base fb) m" and sm: "small x w" "small y h" and "0 < w" and "1 < h"
  shows "\<exists>m'. ui_draw_hgrad_rect fb x y w h c0 c1 m = Inr m' \<and> same_outside fb (draw_base fb) m m' \<and>
    (\<forall>u v. onscreen fb u v \<longrightarrow>
      (if x \<le> u \<and> u < x + w \<and> y \<le> v \<and> v < y + h
       then \<exists>c. ui_lerp_color c0 c1 (v - y) (h - 1) = Inr c \<and> view fb (draw_base fb) m' (u, v) = pixel_bytes fb c
       else view fb (draw_base fb) m' (u, v) = view fb (draw_base fb) m (u, v)))"
proof -
  note lim = sm [unfolded small_def]
  have lerp: "ui_lerp_color c0 c1 i (h - 1) = Inr (lerp c0 c1 i (h - 1))" if "0 \<le> i" "i < h" for i
    using that lim assms(5) by (intro ui_lerp_color_is_lerp) simp_all
  have "ui_draw_hgrad_rect fb x y w h c0 c1 m =
      rfold (\<lambda>i m. rbind (i32 (y + i)) (\<lambda>yy. draw_rect fb x yy w 1 (lerp c0 c1 i (h - 1)) m)) [0..h - 1] m"
    using assms(4,5) lerp by (auto simp: ui_draw_hgrad_rect_def intro!: rfold_cong)
  moreover have "int_range x w" using lim assms(4) by (simp add: int_range_def)
  moreover have "- (2 ^ 31) \<le> y + i \<and> y + i + 1 < 2 ^ 31" if "i \<in> set [0..h - 1]" for i using that lim by auto
  ultimately obtain m' where m': "ui_draw_hgrad_rect fb x y w h c0 c1 m = Inr m'" "same_outside fb (draw_base fb) m m'"
    and v: "\<And>u v. onscreen fb u v \<Longrightarrow> view fb (draw_base fb) m' (u, v) =
      (if v - y \<in> set [0..h - 1] \<and> x \<le> u \<and> u < x + w then pixel_bytes fb (lerp c0 c1 (v - y) (h - 1)) else view fb (draw_base fb) m (u, v))"
    using rows_painted [OF ok, of x w "[0..h - 1]" y "\<lambda>i. lerp c0 c1 i (h - 1)"] by auto
  have "v - y \<in> set [0..h - 1] \<longleftrightarrow> y \<le> v \<and> v < y + h" for v by auto
  then show ?thesis using m' v lerp by (intro exI [of _ m']) auto
qed

theorem ui_hgrad_paints_rows_witness:
  "\<exists>m'. ui_draw_hgrad_rect demo_fb 0 0 4 2 0xFF000000 0xFFFFFFFF demo_frames = Inr m' \<and>
     view demo_fb 0x2000 m' (3, 1) = [0xFF, 0xFF, 0xFF]"
proof -
  have on: "onscreen demo_fb 3 1" by (simp add: onscreen_def demo_fb_def)
  have b: "draw_base demo_fb = 0x2000" by (simp add: draw_base_def demo_fb_def)
  have c: "ui_lerp_color 0xFF000000 0xFFFFFFFF 1 1 = Inr 0xFFFFFFFF" "pixel_bytes demo_fb 0xFFFFFFFF = [0xFF, 0xFF, 0xFF]"
    by code_simp+
  show ?thesis
    using ui_hgrad_paints_rows [of demo_fb demo_frames 0 4 0 2 "0xFF000000" "0xFFFFFFFF"] demo_frames_ok on c
    by (force simp: small_def b)
qed

text \<open>\<open>ui_fill_round_rect\<close> never faults and paints exactly the pixels of the rectangle with rounded
  corners that are on the screen: those whose distance to the straight part is at most the radius.\<close>

theorem ui_round_rect_paints:
  assumes ok: "fb_ok fb (draw_base fb) m" and sm: "small x w" "small y h" and "0 < w" and "0 < h"
    and "0 \<le> radius" and "2 * radius \<le> w" and "2 * radius \<le> h" and "radius < 2 ^ 15"
  shows "\<exists>m'. ui_fill_round_rect fb x y w h radius c m = Inr m' \<and> same_outside fb (draw_base fb) m m' \<and>
    (\<forall>u v. onscreen fb u v \<longrightarrow> view fb (draw_base fb) m' (u, v) =
      (if in_round x y w h radius (u, v) then pixel_bytes fb c else view fb (draw_base fb) m (u, v)))"
proof -
  obtain r where r: "clamp_radius radius w h = Inr r" "0 \<le> r" "2 * r \<le> w" "2 * r \<le> h" "r < 2 ^ 15" "r = radius"
    using clamp_radius_bounds [of w h radius] assms sm by (auto simp: small_def)
  from round_painted [OF ok sm assms(4,5) r(1-5), of c] r(6) show ?thesis by (auto simp: raw.painted_def)
qed

theorem ui_round_rect_paints_witness:
  "\<exists>m'. ui_fill_round_rect demo_fb 0 0 4 2 1 0xFF0000FF demo_frames = Inr m' \<and> view demo_fb 0x2000 m' (1, 1) = [0xFF, 0, 0]"
proof -
  have on: "onscreen demo_fb 1 1" by (simp add: onscreen_def demo_fb_def)
  have b: "draw_base demo_fb = 0x2000" by (simp add: draw_base_def demo_fb_def)
  have c: "in_round 0 0 4 2 1 (1, 1)" by (simp add: in_round_def rect_def)
  have "pixel_bytes demo_fb 0xFF0000FF = [0xFF, 0, 0]" by code_simp
  then show ?thesis
    using ui_round_rect_paints [of demo_fb demo_frames 0 4 0 2 1 "0xFF0000FF"] demo_frames_ok on c
    by (force simp: small_def b)
qed

end
