(* ===== verification/Font_Text.thy ===== *)
theory Font_Text
  imports Framebuffer
begin

text \<open>
  \<open>psf.c\<close> and the text routines of \<open>fb.c\<close>: loading the font that the build embeds into the
  kernel (an argument here, the bytes of the file), finding glyphs in it, and drawing strings.
  The state of the loader is the record \<open>font\<close>; \<open>g_glyphs\<close> is an offset into the blob.
\<close>

datatype psf_fmt = PSF_FMT_PSF1 | PSF_FMT_GRAY8

record font =
  g_glyphs :: nat
  g_w :: int
  g_h :: int
  g_pitch :: int
  g_count :: int
  g_ready :: bool
  g_fmt :: psf_fmt

subsection \<open>Loading\<close>

definition load_psf1 :: "u8 list \<Rightarrow> font \<Rightarrow> (int \<times> font) res" where
  "load_psf1 blob ft =
     (if length blob < 4 then Inr (-1, ft) else
      rbind (ld8 blob 0) (\<lambda>m0. rbind (ld8 blob 1) (\<lambda>m1.
      if \<not> (m0 = 0x36 \<and> m1 = 0x04) then Inr (-1, ft) else
      rbind (ld8 blob 2) (\<lambda>mode. rbind (ld8 blob 3) (\<lambda>charsize.
        Inr (0, ft\<lparr>g_fmt := PSF_FMT_PSF1, g_w := 8, g_h := if charsize \<noteq> 0 then uint charsize else 16,
               g_pitch := 1, g_count := if mode AND 1 \<noteq> 0 then 512 else 256, g_glyphs := 4\<rparr>))))))"

text \<open>The product of three 16-bit numbers does not overflow \<open>size_t\<close>.\<close>

definition load_gfnt :: "u8 list \<Rightarrow> font \<Rightarrow> (int \<times> font) res" where
  "load_gfnt blob ft =
     (if length blob < 16 then Inr (-1, ft) else
      rbind (ld32 blob 0) (\<lambda>magic. rbind (ld16 blob 6) (\<lambda>format. rbind (ld16 blob 8) (\<lambda>width.
      rbind (ld16 blob 10) (\<lambda>height. rbind (ld16 blob 12) (\<lambda>count.
      if magic \<noteq> 0x544E4647 then Inr (-1, ft)
      else if format \<noteq> 1 \<or> width = 0 \<or> height = 0 then Inr (-1, ft)
      else if length blob < 16 + unat width * unat height * unat count then Inr (-1, ft)
      else Inr (0, ft\<lparr>g_fmt := PSF_FMT_GRAY8, g_w := uint width, g_h := uint height, g_pitch := uint width,
             g_count := uint count, g_glyphs := 16\<rparr>)))))))"

definition psf_init :: "u8 list \<Rightarrow> font \<Rightarrow> (int \<times> font) res" where
  "psf_init blob ft =
     rbind (load_gfnt blob ft) (\<lambda>(r, ft1).
     rbind (if r \<noteq> 0 then load_psf1 blob ft1 else Inr (r, ft1)) (\<lambda>(r2, ft2).
       if r2 \<noteq> 0 then Inr (-1, ft2) else Inr (0, ft2\<lparr>g_ready := True\<rparr>)))"

definition psf_width :: "font \<Rightarrow> int" where "psf_width ft = g_w ft"
definition psf_height :: "font \<Rightarrow> int" where "psf_height ft = g_h ft"
definition psf_pitch :: "font \<Rightarrow> int" where "psf_pitch ft = g_pitch ft"
definition psf_format :: "font \<Rightarrow> psf_fmt" where "psf_format ft = g_fmt ft"
definition psf_ready :: "font \<Rightarrow> bool" where "psf_ready ft = g_ready ft"

lemmas psf_getters [simp] = psf_width_def psf_height_def psf_pitch_def psf_format_def psf_ready_def

definition psf_glyph :: "font \<Rightarrow> u8 \<Rightarrow> nat" where
  "psf_glyph ft c =
     (let uc = (if uint c \<ge> g_count ft then 63 else unat c)
      in g_glyphs ft + nat (g_pitch ft) * nat (g_h ft) * uc)"

subsection \<open>Drawing text\<close>

type_synonym pixel_put = "int \<Rightarrow> int \<Rightarrow> u32 \<Rightarrow> mem \<Rightarrow> mem res"

text \<open>An operation at \<open>(px + c, py + r)\<close>.\<close>

definition at_cell :: "int \<Rightarrow> int \<Rightarrow> int \<Rightarrow> int \<Rightarrow> (int \<Rightarrow> int \<Rightarrow> mem \<Rightarrow> mem res) \<Rightarrow> mem \<Rightarrow> mem res" where
  "at_cell px py c r f m = rbind (i32 (px + c)) (\<lambda>x. rbind (i32 (py + r)) (\<lambda>y. f x y m))"

definition gray_cell ::
  "fb_t \<Rightarrow> u64 \<Rightarrow> pixel_put \<Rightarrow> u32 \<Rightarrow> u32 \<Rightarrow> int \<Rightarrow> int \<Rightarrow> int \<Rightarrow> int \<Rightarrow> u8 \<Rightarrow> mem \<Rightarrow> mem res" where
  "gray_cell fb buf put fg bg px py c r a m =
     (let bg_transparent = (drop_bit 24 bg = 0) in
      if a = 0 then (if \<not> bg_transparent then at_cell px py c r (\<lambda>x y. put x y bg) m else Inr m)
      else if bg_transparent \<and> a = 255 then at_cell px py c r (\<lambda>x y. put x y fg) m
      else at_cell px py c r (\<lambda>x y. blend_putpixel fb buf x y fg bg a bg_transparent) m)"

definition bit_cell ::
  "pixel_put \<Rightarrow> u32 \<Rightarrow> u32 \<Rightarrow> int \<Rightarrow> int \<Rightarrow> int \<Rightarrow> int \<Rightarrow> u8 \<Rightarrow> mem \<Rightarrow> mem res" where
  "bit_cell put fg bg px py c r line m =
     (if line AND drop_bit (nat c) 0x80 \<noteq> 0 then at_cell px py c r (\<lambda>x y. put x y fg) m
      else if drop_bit 24 bg \<noteq> 0 then at_cell px py c r (\<lambda>x y. put x y bg) m
      else Inr m)"

definition draw_glyph ::
  "fb_t \<Rightarrow> u64 \<Rightarrow> pixel_put \<Rightarrow> u8 list \<Rightarrow> font \<Rightarrow> u32 \<Rightarrow> u32 \<Rightarrow> int \<Rightarrow> int \<Rightarrow> nat \<Rightarrow> mem \<Rightarrow> mem res" where
  "draw_glyph fb buf put blob ft fg bg px py g =
     (case psf_format ft of
        PSF_FMT_GRAY8 \<Rightarrow>
          rfold (\<lambda>r. rfold (\<lambda>c m. rbind (ld8 blob (g + nat r * nat (psf_pitch ft) + nat c)) (\<lambda>a.
            gray_cell fb buf put fg bg px py c r a m)) [0..psf_width ft - 1]) [0..psf_height ft - 1]
      | PSF_FMT_PSF1 \<Rightarrow>
          rfold (\<lambda>r m. rbind (ld8 blob (g + nat r)) (\<lambda>line.
            rfold (\<lambda>c. bit_cell put fg bg px py c r line) [0..min (psf_width ft) 8 - 1] m)) [0..psf_height ft - 1])"

fun text_loop ::
  "fb_t \<Rightarrow> u64 \<Rightarrow> pixel_put \<Rightarrow> u8 list \<Rightarrow> font \<Rightarrow> u32 \<Rightarrow> u32 \<Rightarrow> int \<Rightarrow> int \<Rightarrow> u8 list \<Rightarrow> mem \<Rightarrow> mem res" where
  "text_loop fb buf put blob ft fg bg px py [] m = Inr m"
| "text_loop fb buf put blob ft fg bg px py (c # s) m =
     rbind (draw_glyph fb buf put blob ft fg bg px py (psf_glyph ft c) m) (\<lambda>m1.
     rbind (i32 (px + psf_width ft)) (\<lambda>px'. text_loop fb buf put blob ft fg bg px' py s m1))"

definition draw_text :: "fb_t \<Rightarrow> u8 list \<Rightarrow> font \<Rightarrow> int \<Rightarrow> int \<Rightarrow> u8 list \<Rightarrow> u32 \<Rightarrow> u32 \<Rightarrow> mem \<Rightarrow> mem res" where
  "draw_text fb blob ft px py s fg bg = text_loop fb (draw_base fb) (fb_putpixel fb) blob ft fg bg px py s"

definition draw_text_front :: "fb_t \<Rightarrow> u8 list \<Rightarrow> font \<Rightarrow> int \<Rightarrow> int \<Rightarrow> u8 list \<Rightarrow> u32 \<Rightarrow> u32 \<Rightarrow> mem \<Rightarrow> mem res" where
  "draw_text_front fb blob ft px py s fg bg = text_loop fb (fb_front fb) (fb_putpixel_front fb) blob ft fg bg px py s"

subsection \<open>Confinement\<close>

text \<open>An operation that never faults on a mapped frame and changes at most the pixels of a region.\<close>

definition confined :: "fb_t \<Rightarrow> u64 \<Rightarrow> (int \<times> int) set \<Rightarrow> (mem \<Rightarrow> mem res) \<Rightarrow> bool" where
  "confined fb buf A f \<longleftrightarrow> (\<forall>m. fb_ok fb buf m \<longrightarrow> (\<exists>m'. f m = Inr m' \<and> same_outside fb buf m m' \<and>
     (\<forall>p. p \<notin> A \<longrightarrow> view fb buf m' p = view fb buf m p)))"

lemma confined_skip [simp]: "confined fb buf A Inr"
  by (simp add: confined_def)

lemma confined_if:
  "(P \<Longrightarrow> confined fb buf A f) \<Longrightarrow> (\<not> P \<Longrightarrow> confined fb buf A g) \<Longrightarrow> confined fb buf A (\<lambda>m. if P then f m else g m)"
  by (cases P) simp_all

lemma confined_mono: "confined fb buf A f \<Longrightarrow> A \<subseteq> B \<Longrightarrow> confined fb buf B f"
  unfolding confined_def by (meson subset_iff)

lemma confined_seq:
  assumes "confined fb buf A f" and "confined fb buf A g"
  shows "confined fb buf A (\<lambda>m. rbind (f m) g)"
  unfolding confined_def
proof (intro allI impI)
  fix m
  assume ok: "fb_ok fb buf m"
  from assms(1) ok obtain m1 where m1: "f m = Inr m1" "same_outside fb buf m m1" "\<forall>p. p \<notin> A \<longrightarrow> view fb buf m1 p = view fb buf m p"
    unfolding confined_def by blast
  have "fb_ok fb buf m1" by (rule fb_ok_same [OF ok m1(2)])
  with assms(2) obtain m2 where m2: "g m1 = Inr m2" "same_outside fb buf m1 m2" "\<forall>p. p \<notin> A \<longrightarrow> view fb buf m2 p = view fb buf m1 p"
    unfolding confined_def by blast
  have "same_outside fb buf m m2" by (rule same_outside_trans [OF m1(2) m2(2)])
  with m1 m2 show "\<exists>m'. rbind (f m) g = Inr m' \<and> same_outside fb buf m m' \<and> (\<forall>p. p \<notin> A \<longrightarrow> view fb buf m' p = view fb buf m p)"
    by auto
qed

lemma confined_rfold:
  "(\<And>i. i \<in> set is \<Longrightarrow> confined fb buf A (f i)) \<Longrightarrow> confined fb buf A (rfold f is)"
proof (induction "is")
  case Nil
  then show ?case by (simp add: confined_def)
next
  case (Cons i "is")
  then have "confined fb buf A (\<lambda>m. rbind (f i m) (rfold f is))" by (intro confined_seq) simp_all
  moreover have "rfold f (i # is) = (\<lambda>m. rbind (f i m) (rfold f is))" by (intro ext) simp
  ultimately show ?case by simp
qed

context canvas
begin

lemma confined_put: "(x, y) \<in> A \<Longrightarrow> confined fb buf A (put x y c)"
  unfolding confined_def
proof (intro allI impI)
  fix m
  assume "(x, y) \<in> A" and ok: "fb_ok fb buf m"
  obtain m' where "put x y c m = Inr m'" "painted {(x, y)} c m m'" using put_painted [OF ok] by blast
  with \<open>(x, y) \<in> A\<close> show "\<exists>m'. put x y c m = Inr m' \<and> same_outside fb buf m m' \<and> (\<forall>p. p \<notin> A \<longrightarrow> view fb buf m' p = view fb buf m p)"
    by (intro exI [of _ m']) (auto simp: painted_def)
qed

end

lemma read_pixel_total:
  assumes "fb_ok fb buf m" and "onscreen fb x y"
  shows "\<exists>c. read_pixel_color (pix_addr fb buf x y) m = Inr c"
proof -
  let ?p = "pix_addr fb buf x y"
  have "3 \<le> nb fb" using assms(1) nb_cases [of fb] by (auto simp: fb_ok_def)
  then have mp: "mapped m ?p 3" by (rule mapped_less [OF pix_rng(3) [OF assms]])
  have "?p + word_of_nat i \<in> dom m" if "i < 3" for i using mapped_nth [OF mp that] by simp
  from this [of 0] this [of 1] this [of 2] show ?thesis by (auto simp: read_pixel_color_def)
qed

lemma confined_blend: "(x, y) \<in> A \<Longrightarrow> confined fb buf A (blend_putpixel fb buf x y fg bg alpha t)"
  unfolding confined_def
proof (intro allI impI)
  fix m
  assume A: "(x, y) \<in> A" and ok: "fb_ok fb buf m"
  let ?goal = "\<lambda>f. \<exists>m'. f = Inr m' \<and> same_outside fb buf m m' \<and> (\<forall>p. p \<notin> A \<longrightarrow> view fb buf m' p = view fb buf m p)"
  show "?goal (blend_putpixel fb buf x y fg bg alpha t m)"
  proof (cases "onscreen fb x y")
    case False
    then show ?thesis by (auto simp: blend_putpixel_def)
  next
    case True
    obtain c where c: "(if t then read_pixel_color (pix_addr fb buf x y) m else Inr bg) = Inr c"
      using read_pixel_total [OF ok True] by (cases t) auto
    have bpp: "fb_bpp fb = 24 \<or> fb_bpp fb = 32" using ok by (simp add: fb_ok_def fb_geom_def)
    then have "fb_bpp fb div 8 = 3 \<or> fb_bpp fb div 8 = 4" by auto
    let ?bs = "[ucast (blend_over c fg alpha), ucast (drop_bit 8 (blend_over c fg alpha)), ucast (drop_bit 16 (blend_over c fg alpha))] @
      (if fb_bpp fb = 32 then [ucast (drop_bit 24 (blend_over c fg alpha))] else []) :: u8 list"
    have "length ?bs = nb fb" using bpp by auto
    from store_pixel [OF ok True this] obtain m' where m': "store_bytes (pix_addr fb buf x y) ?bs m = Inr m'" "same_outside fb buf m m'"
      "\<forall>p. view fb buf m' p = (if p = (x, y) then ?bs else view fb buf m p)" by blast
    have "blend_putpixel fb buf x y fg bg alpha t m = Inr m'"
      using True c m'(1) bpp by (auto simp: blend_putpixel_def write_pixel_color_def)
    with m'(2,3) A show ?thesis by auto
  qed
qed

subsection \<open>Fonts whose glyphs are inside the blob\<close>

definition font_ok :: "u8 list \<Rightarrow> font \<Rightarrow> bool" where
  "font_ok blob ft \<longleftrightarrow> 0 < g_w ft \<and> 0 < g_h ft \<and> g_w ft < 2 ^ 16 \<and> g_h ft < 2 ^ 16 \<and>
     (g_fmt ft = PSF_FMT_GRAY8 \<longrightarrow> g_pitch ft = g_w ft) \<and> (g_fmt ft = PSF_FMT_PSF1 \<longrightarrow> g_pitch ft = 1 \<and> g_w ft = 8) \<and>
     63 < g_count ft \<and>
     (\<forall>uc. int uc < g_count ft \<longrightarrow> uc < 256 \<longrightarrow>
        g_glyphs ft + nat (g_pitch ft) * nat (g_h ft) * (uc + 1) \<le> length blob)"

lemma glyph_inside:
  assumes "font_ok blob ft" and "i < nat (g_pitch ft) * nat (g_h ft)"
  shows "psf_glyph ft c + i < length blob"
proof -
  let ?uc = "if uint c \<ge> g_count ft then 63 else unat c"
  have "int ?uc < g_count ft" "?uc < 256" using assms(1) unat_bound [of c] by (auto simp: font_ok_def)
  then have "g_glyphs ft + nat (g_pitch ft) * nat (g_h ft) * (?uc + 1) \<le> length blob"
    using assms(1) unfolding font_ok_def by blast
  with assms(2) show ?thesis by (simp add: psf_glyph_def Let_def)
qed

text \<open>Coordinates that stay in the range of \<open>int\<close> while \<open>n\<close> more pixels are drawn.\<close>

definition span_ok :: "int \<Rightarrow> int \<Rightarrow> bool" where
  "span_ok p n \<longleftrightarrow> - (2 ^ 31) \<le> p \<and> p + n < 2 ^ 31"

lemma confined_at_cell:
  assumes "span_ok px w" and "span_ok py h" and "0 \<le> c" "c < w" "0 \<le> r" "r < h"
    and "confined fb buf A (f (px + c) (py + r))"
  shows "confined fb buf A (at_cell px py c r f)"
proof -
  have "at_cell px py c r f = f (px + c) (py + r)"
    using assms(1-6) by (intro ext) (simp add: at_cell_def span_ok_def)
  with assms(7) show ?thesis by simp
qed

context canvas
begin

lemma confined_gray_cell:
  assumes "span_ok px w" "span_ok py h" "0 \<le> c" "c < w" "0 \<le> r" "r < h"
  shows "confined fb buf (rect px py w h) (gray_cell fb buf put fg bg px py c r a)"
proof -
  have in_rect: "(px + c, py + r) \<in> rect px py w h" using assms by (simp add: rect_def)
  note cell = confined_at_cell [OF assms]
  show ?thesis
    unfolding gray_cell_def Let_def
    by (intro confined_if cell confined_put confined_blend in_rect) simp
qed

lemma confined_bit_cell:
  assumes "span_ok px w" "span_ok py h" "0 \<le> c" "c < w" "0 \<le> r" "r < h"
  shows "confined fb buf (rect px py w h) (bit_cell put fg bg px py c r line)"
proof -
  have in_rect: "(px + c, py + r) \<in> rect px py w h" using assms by (simp add: rect_def)
  note cell = confined_at_cell [OF assms]
  show ?thesis
    unfolding bit_cell_def by (intro confined_if cell confined_put in_rect) simp
qed

lemma confined_glyph:
  assumes ok: "font_ok blob ft" and sp: "span_ok px (g_w ft)" "span_ok py (g_h ft)"
  shows "confined fb buf (rect px py (g_w ft) (g_h ft)) (draw_glyph fb buf put blob ft fg bg px py (psf_glyph ft ch))"
proof (cases "g_fmt ft")
  case PSF_FMT_PSF1
  then have w: "g_w ft = 8" "g_pitch ft = 1" using ok by (simp_all add: font_ok_def)
  have "ld8 blob (psf_glyph ft ch + nat r) = Inr (blob ! (psf_glyph ft ch + nat r))" if "0 \<le> r" "r < g_h ft" for r
    using glyph_inside [OF ok, of "nat r"] that w by (simp add: ld8_def)
  then show ?thesis
    using PSF_FMT_PSF1 sp w
    by (auto simp: draw_glyph_def intro!: confined_rfold confined_bit_cell)
next
  case PSF_FMT_GRAY8
  then have w: "g_pitch ft = g_w ft" "0 < g_w ft" using ok by (simp_all add: font_ok_def)
  have "ld8 blob (psf_glyph ft ch + nat r * nat (g_pitch ft) + nat c) = Inr (blob ! (psf_glyph ft ch + nat r * nat (g_pitch ft) + nat c))"
    if "0 \<le> r" "r < g_h ft" "0 \<le> c" "c < g_w ft" for r c
  proof -
    have "nat r * nat (g_pitch ft) + nat c < (nat r + 1) * nat (g_pitch ft)" using that w by simp
    also have "\<dots> \<le> nat (g_h ft) * nat (g_pitch ft)" using that by (intro mult_right_mono) simp_all
    finally have "nat r * nat (g_pitch ft) + nat c < nat (g_pitch ft) * nat (g_h ft)" by (simp add: mult.commute)
    from glyph_inside [OF ok this, of ch] show ?thesis by (simp add: ld8_def add.assoc)
  qed
  then show ?thesis
    using PSF_FMT_GRAY8 sp by (auto simp: draw_glyph_def intro!: confined_rfold confined_gray_cell)
qed

lemma confined_text:
  assumes ok: "font_ok blob ft" and sp: "span_ok px (g_w ft * int (length s))" "span_ok py (g_h ft)"
  shows "confined fb buf (rect px py (g_w ft * int (length s)) (g_h ft)) (text_loop fb buf put blob ft fg bg px py s)"
  using sp(1)
proof (induction s arbitrary: px)
  case Nil
  then show ?case by (simp add: confined_def)
next
  case (Cons ch s)
  have w: "0 < g_w ft" using ok by (simp add: font_ok_def)
  then have nn: "0 \<le> g_w ft * int (length s)" by simp
  have len: "g_w ft * int (length (ch # s)) = g_w ft + g_w ft * int (length s)" by (simp add: algebra_simps)
  have sp1: "span_ok px (g_w ft)" and sp2: "span_ok (px + g_w ft) (g_w ft * int (length s))"
    using Cons.prems nn w unfolding len span_ok_def by linarith+
  have "confined fb buf (rect px py (g_w ft * int (length (ch # s))) (g_h ft)) (draw_glyph fb buf put blob ft fg bg px py (psf_glyph ft ch))"
    by (rule confined_mono [OF confined_glyph [OF ok sp1 sp(2)]]) (unfold len rect_def, auto, use nn in linarith)
  moreover have "confined fb buf (rect px py (g_w ft * int (length (ch # s))) (g_h ft)) (text_loop fb buf put blob ft fg bg (px + g_w ft) py s)"
    by (rule confined_mono [OF Cons.IH [OF sp2]]) (unfold len rect_def, use w in auto)
  ultimately have "confined fb buf (rect px py (g_w ft * int (length (ch # s))) (g_h ft))
      (\<lambda>m. rbind (draw_glyph fb buf put blob ft fg bg px py (psf_glyph ft ch) m) (text_loop fb buf put blob ft fg bg (px + g_w ft) py s))"
    by (rule confined_seq)
  moreover have "i32 (px + g_w ft) = Inr (px + g_w ft)" using sp1 w by (simp add: span_ok_def)
  ultimately show ?case by simp
qed

end

text \<open>A file of the generated font format.\<close>

definition gfnt_blob :: "u16 \<Rightarrow> u16 \<Rightarrow> u16 \<Rightarrow> u8 list \<Rightarrow> u8 list" where
  "gfnt_blob w h n glyphs =
     le_bytes 4 (0x544E4647 :: u32) @ le_bytes 2 (1 :: u16) @ le_bytes 2 (1 :: u16) @ le_bytes 2 w @ le_bytes 2 h @
     le_bytes 2 n @ [0, 0] @ glyphs"

lemma gfnt_blob_fields:
  "ld32 (gfnt_blob w h n gs) 0 = Inr 0x544E4647" "ld16 (gfnt_blob w h n gs) 6 = Inr 1"
  "ld16 (gfnt_blob w h n gs) 8 = Inr w" "ld16 (gfnt_blob w h n gs) 10 = Inr h" "ld16 (gfnt_blob w h n gs) 12 = Inr n"
  "length (gfnt_blob w h n gs) = 16 + length gs"
  by (simp_all add: gfnt_blob_def ld_le_def le_word_le_bytes_full)

definition demo_blob :: "u8 list" where
  "demo_blob = gfnt_blob 1 1 64 (replicate 64 0xFF)"

definition demo_font :: font where
  "demo_font = \<lparr>g_glyphs = 16, g_w = 1, g_h = 1, g_pitch = 1, g_count = 64, g_ready = True, g_fmt = PSF_FMT_GRAY8\<rparr>"

lemma demo_font_ok: "font_ok demo_blob demo_font"
  by (auto simp: font_ok_def demo_font_def demo_blob_def gfnt_blob_fields)

subsection \<open>Properties\<close>

text \<open>with a loaded font \<open>draw_text\<close> never faults, reads only bytes of the font and changes at most the
  pixels of the box of the text: glyph width times length, by glyph height.\<close>

theorem draw_text_confined:
  assumes "font_ok blob ft" and "fb_ok fb (draw_base fb) m"
    and "span_ok px (g_w ft * int (length s))" and "span_ok py (g_h ft)"
  shows "\<exists>m'. draw_text fb blob ft px py s fg bg m = Inr m' \<and> same_outside fb (draw_base fb) m m' \<and>
    (\<forall>p. p \<notin> rect px py (g_w ft * int (length s)) (g_h ft) \<longrightarrow> view fb (draw_base fb) m' p = view fb (draw_base fb) m p)"
  using cur.confined_text [OF assms(1,3,4), of fb fg bg] assms(2) by (simp add: confined_def draw_text_def del: split_paired_All)

theorem draw_text_confined_witness:
  "\<exists>m'. draw_text demo_fb demo_blob demo_font 1 0 [0x41, 0x42] 0xFF0000FF 0 demo_frames = Inr m' \<and>
     view demo_fb 0x2000 m' (3, 0) = view demo_fb 0x2000 demo_frames (3, 0)"
proof -
  have "draw_base demo_fb = 0x2000" by (simp add: draw_base_def demo_fb_def)
  moreover have "(3, 0) \<notin> rect 1 0 2 1" by (simp add: rect_def)
  ultimately show ?thesis
    using draw_text_confined [OF demo_font_ok, of demo_fb demo_frames 1 "[0x41, 0x42]" 0 "0xFF0000FF" 0] demo_frames_ok
    by (auto simp: span_ok_def demo_font_def)
qed

text \<open>a file of the generated font format, with at least 64 glyphs, is loaded, and every character then
  has its glyph inside the file: the bytes of its own glyph if there is one, else those of the question mark.\<close>

theorem psf_init_gfnt:
  assumes "0 < w" and "0 < h" and "64 \<le> n" and "length glyphs = unat w * unat h * unat n"
  shows "\<exists>ft'. psf_init (gfnt_blob w h n glyphs) ft = Inr (0, ft') \<and> psf_ready ft' \<and> font_ok (gfnt_blob w h n glyphs) ft' \<and>
    (\<forall>c. take (unat w * unat h) (drop (psf_glyph ft' c) (gfnt_blob w h n glyphs)) =
       take (unat w * unat h) (drop (unat w * unat h * (if unat c < unat n then unat c else 63)) glyphs))"
proof -
  let ?b = "gfnt_blob w h n glyphs"
  let ?ft = "ft\<lparr>g_fmt := PSF_FMT_GRAY8, g_w := uint w, g_h := uint h, g_pitch := uint w, g_count := uint n,
    g_glyphs := 16, g_ready := True\<rparr>"
  have "w \<noteq> 0" "h \<noteq> 0" using assms by auto
  then have run: "psf_init ?b ft = Inr (0, ?ft)"
    using assms(4) by (simp add: psf_init_def load_gfnt_def gfnt_blob_fields)
  have n: "63 < uint n" using assms(3) by (simp add: word_le_def)
  have lt: "uint w < 2 ^ 16" "uint h < 2 ^ 16" using uint_bounded [of w] uint_bounded [of h] by simp_all
  have pos: "0 < uint w" "0 < uint h" using assms(1,2) by (simp_all add: word_less_def)
  have "16 + unat w * unat h * (uc + 1) \<le> length ?b" if "int uc < uint n" for uc
  proof -
    have "int uc < int (unat n)" using that by simp
    then have "uc + 1 \<le> unat n" by (simp only: of_nat_less_iff Suc_eq_plus1 [symmetric] Suc_le_eq)
    then have "unat w * unat h * (uc + 1) \<le> unat w * unat h * unat n" by (intro mult_left_mono) simp_all
    then show ?thesis using assms(4) by (simp add: gfnt_blob_fields)
  qed
  then have fok: "font_ok ?b ?ft" using n lt pos by (auto simp: font_ok_def simp flip: unat_eq_nat_uint)
  have "drop (16 + k) ?b = drop k glyphs" for k by (simp add: gfnt_blob_def)
  moreover
  have cmp: "uint n \<le> uint c \<longleftrightarrow> \<not> unat c < unat n" for c
    by (metis not_le of_nat_le_iff uint_nat)
  have "psf_glyph ?ft c = 16 + unat w * unat h * (if unat c < unat n then unat c else 63)" for c
    by (simp add: psf_glyph_def Let_def cmp flip: unat_eq_nat_uint)
  ultimately show ?thesis using run fok by auto
qed

theorem psf_init_gfnt_witness:
  "\<exists>ft'. psf_init demo_blob demo_font = Inr (0, ft') \<and> font_ok demo_blob ft'"
proof -
  have "length (replicate 64 0xFF :: u8 list) = unat (1 :: u16) * unat (1 :: u16) * unat (64 :: u16)" by simp
  from psf_init_gfnt [OF _ _ _ this, of demo_font] show ?thesis by (auto simp: demo_blob_def)
qed

text \<open>The size of a PSF1 file is not checked against its glyphs: a header alone is accepted as a font of
  256 glyphs, none of which is in the file.\<close>

lemma psf1_size_unchecked:
  "\<exists>ft'. psf_init [0x36, 0x04, 0, 16] ft = Inr (0, ft') \<and> ld8 [0x36, 0x04, 0, 16] (psf_glyph ft' 0x41) = Inl BadRead"
  by (simp add: psf_init_def load_gfnt_def load_psf1_def ld8_def psf_glyph_def)

end
