(* ===== verification/Window_Manager.thy ===== *)
theory Window_Manager
  imports Ui Font_Text
begin

text \<open>
  \<open>wm.c\<close>: the list of windows behind the taskbar, the focus, and the taskbar's buttons. The flags
  \<open>open_flag\<close> and \<open>minimized_flag\<close> belong to the applications: an entry holds their addresses and
  the memory that holds them is the argument \<open>fl\<close>. The callback of an entry is a number; a click
  yields the entry whose callback runs.
\<close>

record wm_entry =
  w_title :: "u8 list"
  w_icon_color :: u32
  w_open_flag :: "nat option"
  w_minimized_flag :: "nat option"
  w_on_click :: "nat option"
  w_user :: u64

text \<open>\<open>g_entries\<close> is the filled part of the array, so that its length is \<open>g_entry_count\<close>.\<close>

record wm_state =
  g_entries :: "wm_entry list"
  g_front_id :: int

abbreviation WM_MAX_WINDOWS :: nat where "WM_MAX_WINDOWS \<equiv> 16"

type_synonym flags = "nat \<Rightarrow> int"

definition wm_init :: "wm_state \<Rightarrow> wm_state" where
  "wm_init wm = wm\<lparr>g_entries := [], g_front_id := -1\<rparr>"

definition wm_register_window ::
  "u8 list \<Rightarrow> u32 \<Rightarrow> nat option \<Rightarrow> nat option \<Rightarrow> nat option \<Rightarrow> u64 \<Rightarrow> wm_state \<Rightarrow> int \<times> wm_state" where
  "wm_register_window title icon_color open_flag minimized_flag on_click user wm =
     (if length (g_entries wm) \<ge> WM_MAX_WINDOWS then (-1, wm) else
      let e = \<lparr>w_title = title, w_icon_color = icon_color, w_open_flag = open_flag,
               w_minimized_flag = minimized_flag, w_on_click = on_click, w_user = user\<rparr>;
          wid = int (length (g_entries wm))
      in (wid, wm\<lparr>g_entries := g_entries wm @ [e], g_front_id := if g_front_id wm = -1 then wid else g_front_id wm\<rparr>))"

definition is_open :: "flags \<Rightarrow> wm_entry \<Rightarrow> bool" where
  "is_open fl e = (case w_open_flag e of None \<Rightarrow> False | Some p \<Rightarrow> fl p \<noteq> 0)"

definition is_minimized :: "flags \<Rightarrow> wm_entry \<Rightarrow> bool" where
  "is_minimized fl e = (case w_minimized_flag e of None \<Rightarrow> False | Some p \<Rightarrow> fl p \<noteq> 0)"

subsection \<open>Focus\<close>

definition wm_get_front :: "wm_state \<Rightarrow> int" where
  "wm_get_front wm = g_front_id wm"

definition wm_set_front :: "int \<Rightarrow> wm_state \<Rightarrow> wm_state" where
  "wm_set_front wid wm = (if wid < 0 \<or> wid \<ge> int (length (g_entries wm)) then wm else wm\<lparr>g_front_id := wid\<rparr>)"

definition wm_cycle_next :: "flags \<Rightarrow> wm_state \<Rightarrow> wm_state" where
  "wm_cycle_next fl wm =
     (let n = length (g_entries wm) in
      if n = 0 then wm else
      let start = (if g_front_id wm \<ge> 0 \<and> g_front_id wm < int n then nat (g_front_id wm) else 0)
      in case find (\<lambda>i. is_open fl (g_entries wm ! ((start + i) mod n))) [1..<n + 1] of
           None \<Rightarrow> wm
         | Some i \<Rightarrow> wm\<lparr>g_front_id := int ((start + i) mod n)\<rparr>)"

subsection \<open>The taskbar\<close>

definition button_color :: "flags \<Rightarrow> wm_state \<Rightarrow> int \<Rightarrow> wm_entry \<Rightarrow> u32" where
  "button_color fl wm i e =
     (if i = g_front_id wm then 0xFF4C8DFF else if \<not> is_minimized fl e then 0xFFDFE6F2 else 0xFFEFF2F7)"

definition draw_button ::
  "fb_t \<Rightarrow> u8 list \<Rightarrow> font \<Rightarrow> flags \<Rightarrow> wm_state \<Rightarrow> int \<Rightarrow> int \<Rightarrow> int \<Rightarrow> int \<Rightarrow> wm_entry \<Rightarrow> mem \<Rightarrow> mem res" where
  "draw_button fb blob ft fl wm y height x i e m =
     (let padding = 4;
          icon_size = (if height - padding * 2 < 8 then 8 else height - padding * 2);
          btn_h = height - 4;
          btn_y = y + (height - btn_h) sdiv 2;
          color = button_color fl wm i e;
          icon_x = x + padding;
          icon_y = btn_y + (btn_h - icon_size) sdiv 2;
          text_x = icon_x + icon_size + padding;
          text_y = btn_y + (btn_h - 16) sdiv 2;
          text_color = (if color = 0xFF4C8DFF then 0xFFFFFFFF else 0xFF2F3645)
      in rbind (ui_fill_round_rect fb x btn_y 120 btn_h 10 color m) (\<lambda>m1.
         rbind (ui_fill_round_rect fb icon_x icon_y icon_size icon_size 6 (w_icon_color e) m1) (\<lambda>m2.
           draw_text fb blob ft text_x text_y (w_title e) text_color color m2)))"

fun draw_loop ::
  "fb_t \<Rightarrow> u8 list \<Rightarrow> font \<Rightarrow> flags \<Rightarrow> wm_state \<Rightarrow> int \<Rightarrow> int \<Rightarrow> int \<Rightarrow> int \<Rightarrow> wm_entry list \<Rightarrow> mem \<Rightarrow> mem res" where
  "draw_loop fb blob ft fl wm y height x i [] m = Inr m"
| "draw_loop fb blob ft fl wm y height x i (e # es) m =
     (if \<not> is_open fl e then draw_loop fb blob ft fl wm y height x (i + 1) es m
      else rbind (draw_button fb blob ft fl wm y height x i e m) (\<lambda>m1.
           rbind (i32 (x + 124)) (\<lambda>x'. draw_loop fb blob ft fl wm y height x' (i + 1) es m1)))"

definition wm_draw_taskbar ::
  "fb_t \<Rightarrow> u8 list \<Rightarrow> font \<Rightarrow> flags \<Rightarrow> int \<Rightarrow> int \<Rightarrow> int \<Rightarrow> wm_state \<Rightarrow> mem \<Rightarrow> mem res" where
  "wm_draw_taskbar fb blob ft fl y height start_x wm m =
     draw_loop fb blob ft fl wm y height start_x 0 (g_entries wm) m"

fun click_loop :: "flags \<Rightarrow> int \<Rightarrow> int \<Rightarrow> int \<Rightarrow> int \<Rightarrow> int \<Rightarrow> int \<Rightarrow> wm_entry list \<Rightarrow> (int \<times> wm_entry) option res" where
  "click_loop fl mx my y height x i [] = Inr None"
| "click_loop fl mx my y height x i (e # es) =
     (if \<not> is_open fl e then click_loop fl mx my y height x (i + 1) es
      else let btn_h = height - 4; btn_y = y + (height - btn_h) sdiv 2
           in if mx \<ge> x \<and> mx < x + 120 \<and> my \<ge> btn_y \<and> my < btn_y + btn_h then Inr (Some (i, e))
              else rbind (i32 (x + 124)) (\<lambda>x'. click_loop fl mx my y height x' (i + 1) es))"

text \<open>The second component is the entry and the callback that runs, if it has one.\<close>

definition wm_handle_taskbar_click ::
  "flags \<Rightarrow> int \<Rightarrow> int \<Rightarrow> int \<Rightarrow> int \<Rightarrow> int \<Rightarrow> wm_state \<Rightarrow> (wm_state \<times> (wm_entry \<times> nat) option) res" where
  "wm_handle_taskbar_click fl mx my y height start_x wm =
     rbind (click_loop fl mx my y height start_x 0 (g_entries wm)) (\<lambda>hit. case hit of
       None \<Rightarrow> Inr (wm, None)
     | Some (i, e) \<Rightarrow> Inr (wm_set_front i wm, map_option (\<lambda>cb. (e, cb)) (w_on_click e)))"

section \<open>Invariant and behaviour\<close>

definition wm_ok :: "wm_state \<Rightarrow> bool" where
  "wm_ok wm \<longleftrightarrow> length (g_entries wm) \<le> WM_MAX_WINDOWS \<and> -1 \<le> g_front_id wm \<and> g_front_id wm < int (length (g_entries wm)) \<and>
     (g_entries wm \<noteq> [] \<longrightarrow> 0 \<le> g_front_id wm)"

lemma wm_init_ok: "wm_ok (wm_init wm)"
  by (simp add: wm_init_def wm_ok_def)

lemma wm_register_ok: "wm_ok wm \<Longrightarrow> wm_ok (snd (wm_register_window t c op mf cb u wm))"
  by (auto simp: wm_register_window_def wm_ok_def Let_def)

lemma wm_set_front_ok: "wm_ok wm \<Longrightarrow> wm_ok (wm_set_front i wm)"
  by (auto simp: wm_set_front_def wm_ok_def)

lemma wm_cycle_ok: "wm_ok wm \<Longrightarrow> wm_ok (wm_cycle_next fl wm)"
  by (auto simp: wm_cycle_next_def wm_ok_def Let_def split: option.split)

subsection \<open>The buttons of the taskbar\<close>

text \<open>The buttons from left to right: entry number, entry and left edge.\<close>

fun buttons :: "flags \<Rightarrow> int \<Rightarrow> int \<Rightarrow> wm_entry list \<Rightarrow> (int \<times> wm_entry \<times> int) list" where
  "buttons fl x i [] = []"
| "buttons fl x i (e # es) =
     (if is_open fl e then (i, e, x) # buttons fl (x + 124) (i + 1) es else buttons fl x (i + 1) es)"

definition in_button :: "int \<Rightarrow> int \<Rightarrow> int \<Rightarrow> int \<Rightarrow> int \<Rightarrow> bool" where
  "in_button mx my y height x \<longleftrightarrow> x \<le> mx \<and> mx < x + 120 \<and> y + 2 \<le> my \<and> my < y + height - 2"

lemma two: "(height - (height - 4)) sdiv 2 = (2 :: int)"
  by (simp add: signed_divide_int_def)

lemma click_loop_find:
  assumes "-(2 ^ 31) \<le> x" and "x + 124 * int (length es) < 2 ^ 31"
  shows "click_loop fl mx my y height x i es =
    Inr (map_option (\<lambda>(i, e, x). (i, e)) (find (\<lambda>(i, e, x). in_button mx my y height x) (buttons fl x i es)))"
  using assms
proof (induction es arbitrary: x i)
  case Nil
  then show ?case by simp
next
  case (Cons e es)
  have hit: "(mx \<ge> x \<and> mx < x + 120 \<and> my \<ge> y + (height - (height - 4)) sdiv 2 \<and> my < y + (height - (height - 4)) sdiv 2 + (height - 4))
      \<longleftrightarrow> in_button mx my y height x" by (auto simp: two in_button_def)
  have "i32 (x + 124) = Inr (x + 124)" using Cons.prems by (intro i32_ok) simp_all
  moreover have "click_loop fl mx my y height (x + 124) (i + 1) es =
    Inr (map_option (\<lambda>(i, e, x). (i, e)) (find (\<lambda>(i, e, x). in_button mx my y height x) (buttons fl (x + 124) (i + 1) es)))"
    using Cons.prems by (intro Cons.IH) simp_all
  moreover have "click_loop fl mx my y height x (i + 1) es =
    Inr (map_option (\<lambda>(i, e, x). (i, e)) (find (\<lambda>(i, e, x). in_button mx my y height x) (buttons fl x (i + 1) es)))"
    using Cons.prems by (intro Cons.IH) simp_all
  ultimately show ?case using hit by (simp add: Let_def)
qed

text \<open>Drawing visits the same buttons.\<close>

lemma draw_loop_buttons:
  assumes "-(2 ^ 31) \<le> x" and "x + 124 * int (length es) < 2 ^ 31"
  shows "draw_loop fb blob ft fl wm y height x i es m =
    rfold (\<lambda>(i, e, x). draw_button fb blob ft fl wm y height x i e) (buttons fl x i es) m"
  using assms
proof (induction es arbitrary: x i m)
  case (Cons e es)
  have "i32 (x + 124) = Inr (x + 124)" using Cons.prems by (intro i32_ok) simp_all
  moreover have "draw_loop fb blob ft fl wm y height (x + 124) (i + 1) es =
      rfold (\<lambda>(i, e, x). draw_button fb blob ft fl wm y height x i e) (buttons fl (x + 124) (i + 1) es)"
    using Cons.prems by (intro ext Cons.IH) simp_all
  moreover have "draw_loop fb blob ft fl wm y height x (i + 1) es m =
      rfold (\<lambda>(i, e, x). draw_button fb blob ft fl wm y height x i e) (buttons fl x (i + 1) es) m"
    using Cons.prems by (intro Cons.IH) simp_all
  ultimately show ?case by simp
qed simp

lemma buttons_left: "(j, e, z) \<in> set (buttons fl x i es) \<Longrightarrow> x \<le> z"
  by (induction es arbitrary: x i) (force split: if_splits)+

lemma buttons_apart: "sorted_wrt (\<lambda>(_, _, a) (_, _, b). a + 124 \<le> b) (buttons fl x i es)"
  by (induction es arbitrary: x i) (auto dest: buttons_left)

lemma find_button:
  assumes "(j, e, z) \<in> set (buttons fl x i es)" and "in_button mx my y height z"
  shows "find (\<lambda>(i, e, x). in_button mx my y height x) (buttons fl x i es) = Some (j, e, z)"
  using assms(1)
proof (induction es arbitrary: x i)
  case (Cons a es)
  show ?case
  proof (cases "is_open fl a")
    case True
    have "z = x \<and> j = i \<and> e = a \<or> (j, e, z) \<in> set (buttons fl (x + 124) (i + 1) es)" using Cons.prems True by auto
    then show ?thesis
    proof
      assume r: "(j, e, z) \<in> set (buttons fl (x + 124) (i + 1) es)"
      then have "x + 124 \<le> z" by (rule buttons_left)
      then have "\<not> in_button mx my y height x" using assms(2) by (simp add: in_button_def)
      with Cons.IH [OF r] True show ?thesis by simp
    qed (use assms(2) True in simp)
  qed (use Cons in simp)
qed simp

lemma buttons_index:
  "(j, e, z) \<in> set (buttons fl x i es) \<Longrightarrow> i \<le> j \<and> j < i + int (length es) \<and> e = es ! nat (j - i) \<and> is_open fl e"
proof (induction es arbitrary: x i)
  case (Cons a es)
  show ?case
  proof (cases "(j, e, z) = (i, a, x) \<and> is_open fl a")
    case False
    with Cons.prems obtain x' where r: "(j, e, z) \<in> set (buttons fl x' (i + 1) es)" by (auto split: if_splits)
    note ih = Cons.IH [OF r]
    then have "nat (j - i) = Suc (nat (j - (i + 1)))" by (simp add: Suc_nat_eq_nat_zadd1)
    with ih show ?thesis by auto
  qed auto
qed simp

subsection \<open>Properties\<close>

text \<open>drawing and clicking agree on the taskbar: \<open>wm_draw_taskbar\<close> draws one button per open window,
  side by side, and a click inside the button drawn for a window brings exactly that window to the front
  and runs its callback.\<close>

theorem taskbar_click_hits_button:
  assumes "-(2 ^ 31) \<le> start_x" and "start_x + 124 * int (length (g_entries wm)) < 2 ^ 31"
    and "(j, e, z) \<in> set (buttons fl start_x 0 (g_entries wm))" and "in_button mx my y height z"
  shows "wm_draw_taskbar fb blob ft fl y height start_x wm m =
      rfold (\<lambda>(i, e, x). draw_button fb blob ft fl wm y height x i e) (buttons fl start_x 0 (g_entries wm)) m \<and>
    is_open fl e \<and> e = g_entries wm ! nat j \<and>
    (\<exists>wm'. wm_handle_taskbar_click fl mx my y height start_x wm = Inr (wm', map_option (\<lambda>cb. (e, cb)) (w_on_click e)) \<and>
      wm_get_front wm' = j \<and> g_entries wm' = g_entries wm)"
proof -
  note ix = buttons_index [OF assms(3)]
  have "click_loop fl mx my y height start_x 0 (g_entries wm) = Inr (Some (j, e))"
    using click_loop_find [OF assms(1,2), of fl mx my y height 0] find_button [OF assms(3,4)] by simp
  then show ?thesis
    using draw_loop_buttons [OF assms(1,2)] ix
    by (auto simp: wm_draw_taskbar_def wm_handle_taskbar_click_def wm_set_front_def wm_get_front_def)
qed

definition demo_wm :: wm_state where
  "demo_wm = \<lparr>g_entries = [\<lparr>w_title = [], w_icon_color = 0, w_open_flag = Some 0, w_minimized_flag = None, w_on_click = None, w_user = 0\<rparr>,
      \<lparr>w_title = [], w_icon_color = 0, w_open_flag = None, w_minimized_flag = None, w_on_click = None, w_user = 0\<rparr>,
      \<lparr>w_title = [], w_icon_color = 0, w_open_flag = Some 1, w_minimized_flag = None, w_on_click = Some 7, w_user = 0\<rparr>], g_front_id = 0\<rparr>"

theorem taskbar_click_hits_button_witness:
  "\<exists>wm'. wm_handle_taskbar_click (\<lambda>_. 1) 150 755 734 34 10 demo_wm = Inr (wm', Some (g_entries demo_wm ! 2, 7)) \<and> wm_get_front wm' = 2"
proof -
  have "(2, g_entries demo_wm ! 2, 134) \<in> set (buttons (\<lambda>_. 1) 10 0 (g_entries demo_wm))"
    by (simp add: demo_wm_def is_open_def)
  moreover have "in_button 150 755 734 34 134" by (simp add: in_button_def)
  ultimately show ?thesis
    using taskbar_click_hits_button [of 10 demo_wm 2 "g_entries demo_wm ! 2" 134 "\<lambda>_. 1" 150 755 734 34 demo_fb "[]" demo_font Map.empty]
    by (auto simp: demo_wm_def)
qed

text \<open>\<open>wm_cycle_next\<close> gives the focus to the next open window in cyclic order, the focused window itself
  last, and changes nothing when no window is open.\<close>

theorem wm_cycle_next_open:
  assumes "wm_ok wm" and "g_entries wm \<noteq> []"
  shows "if \<exists>e\<in>set (g_entries wm). is_open fl e
    then \<exists>k\<in>{1..length (g_entries wm)}. let n = length (g_entries wm); front = nat (wm_get_front wm) in
      wm_cycle_next fl wm = wm\<lparr>g_front_id := int ((front + k) mod n)\<rparr> \<and> is_open fl (g_entries wm ! ((front + k) mod n)) \<and>
      (\<forall>j\<in>{1..<k}. \<not> is_open fl (g_entries wm ! ((front + j) mod n)))
    else wm_cycle_next fl wm = wm"
proof -
  define n where "n = length (g_entries wm)"
  define f where "f = nat (g_front_id wm)"
  define opn where "opn i = is_open fl (g_entries wm ! ((f + i) mod n))" for i
  have fr: "0 \<le> g_front_id wm" "g_front_id wm < int n" "n \<noteq> 0" "f < n" using assms by (auto simp: wm_ok_def n_def f_def)
  have run: "wm_cycle_next fl wm = (case find opn [1..<n + 1] of None \<Rightarrow> wm | Some i \<Rightarrow> wm\<lparr>g_front_id := int ((f + i) mod n)\<rparr>)"
    using fr unfolding wm_cycle_next_def Let_def n_def [symmetric] opn_def [abs_def] f_def by simp
  show ?thesis
  proof (cases "find opn [1..<n + 1]")
    case None
    have "\<not> is_open fl e" if e: "e \<in> set (g_entries wm)" for e
    proof -
      obtain q where q: "q < n" "e = g_entries wm ! q" using e by (auto simp: in_set_conv_nth n_def)
      define i where "i = (if f < q then q - f else q + n - f)"
      have i: "i \<in> set [1..<n + 1]" "(f + i) mod n = q" using q(1) fr(4) by (auto simp: i_def)
      have "\<not> opn i" using None i(1) unfolding find_None_iff by blast
      then show ?thesis using i(2) q(2) by (simp add: opn_def)
    qed
    then show ?thesis using run None by auto
  next
    case (Some k)
    then obtain p where p: "p < n" "opn ([1..<n + 1] ! p)" "k = [1..<n + 1] ! p" "\<forall>j<p. \<not> opn ([1..<n + 1] ! j)"
      unfolding find_Some_iff by (auto simp del: upt_Suc)
    then have k: "k = p + 1" "opn k" by (simp_all del: upt_Suc)
    have nopen: "\<not> opn j" if j: "j \<in> {1..<k}" for j
    proof -
      have "j - 1 < p" using j k(1) by auto
      with p(1) p(4) [rule_format, OF this] j show ?thesis by (simp del: upt_Suc)
    qed
    have "(f + k) mod n < n" using fr(3) by simp
    then have "g_entries wm ! ((f + k) mod n) \<in> set (g_entries wm)" by (simp add: n_def)
    then have ex: "\<exists>e\<in>set (g_entries wm). is_open fl e" using k(2) by (auto simp: opn_def)
    have "k \<in> {1..length (g_entries wm)}" using k(1) p(1) by (simp add: n_def)
    then show ?thesis
      using ex run Some k(2) nopen by (auto simp: Let_def wm_get_front_def opn_def n_def f_def intro!: bexI [of _ k])
  qed
qed

theorem wm_cycle_next_open_witness: "wm_get_front (wm_cycle_next (\<lambda>_. 1) demo_wm) = 2"
proof -
  have ok: "wm_ok demo_wm" "g_entries demo_wm \<noteq> []" by (simp_all add: wm_ok_def demo_wm_def)
  have "\<exists>e\<in>set (g_entries demo_wm). is_open (\<lambda>_. 1) e" by (simp add: demo_wm_def is_open_def)
  moreover have "length (g_entries demo_wm) = 3" "nat (wm_get_front demo_wm) = 0" by (simp_all add: demo_wm_def wm_get_front_def)
  ultimately obtain k where k: "k \<in> {1..3}"
    "wm_cycle_next (\<lambda>_. 1) demo_wm = demo_wm\<lparr>g_front_id := int (k mod 3)\<rparr>" "is_open (\<lambda>_. 1) (g_entries demo_wm ! (k mod 3))"
    "\<forall>j\<in>{1..<k}. \<not> is_open (\<lambda>_. 1) (g_entries demo_wm ! (j mod 3))"
    using wm_cycle_next_open [OF ok, of "\<lambda>_. 1"] by (auto simp: Let_def)
  have "k = 2"
  proof -
    have "k = 1 \<or> k = 2 \<or> k = 3" using k(1) by auto
    moreover have "\<not> is_open (\<lambda>_. 1) (g_entries demo_wm ! 1)" "is_open (\<lambda>_. 1) (g_entries demo_wm ! 2)" by (simp_all add: demo_wm_def is_open_def)
    ultimately show ?thesis using k(3,4) by auto
  qed
  with k(2) show ?thesis by (simp add: wm_get_front_def)
qed

end
