(* ===== verification/Interrupts.thy ===== *)
theory Interrupts
  imports Ata
begin

text \<open>
  \<open>isr.c\<close>, \<open>pic.c\<close>, \<open>pit.c\<close>, \<open>keyboard.c\<close> and \<open>mouse.c\<close>: the table of interrupt handlers, its
  dispatcher, and the three devices that register there. The state of all of them is one record, as
  every interrupt may reach each of them; the hardware behind the ports is the parameter \<open>'h\<close> of
  \<open>port_io\<close>. The function pointers in the table are the three handlers of the kernel.
\<close>

datatype isr_t = Pit_irq | Keyboard_callback | Mouse_irq_handler

record 'h irq_state =
  handlers :: "nat \<Rightarrow> isr_t option"
  handling_exception :: bool
  jiffies :: u64
  last_sc :: u8
  has_sc :: bool
  mouse_cycle :: int
  mouse_bytes :: "u8 list"
  mouse_x :: int
  mouse_y :: int
  screen_w :: int
  screen_h :: int
  hw :: 'h

subsection \<open>The interrupt controller\<close>

definition hw_outb :: "'h port_io \<Rightarrow> u16 \<Rightarrow> u8 \<Rightarrow> 'h \<Rightarrow> 'h" where
  "hw_outb io p v h = io_outb io h p v"

definition io_wait :: "'h port_io \<Rightarrow> 'h \<Rightarrow> 'h" where
  "io_wait io h = io_outb io h 0x80 0"

definition outb_wait :: "'h port_io \<Rightarrow> u16 \<Rightarrow> u8 \<Rightarrow> 'h \<Rightarrow> 'h" where
  "outb_wait io p v h = io_wait io (hw_outb io p v h)"

definition pic_remap :: "'h port_io \<Rightarrow> 'h \<Rightarrow> 'h" where
  "pic_remap io h =
     (let (a1, h1) = io_inb io h 0x21; (a2, h2) = io_inb io h1 0xA1
      in fold (\<lambda>(p, v). hw_outb io p v) [(0x21, a1), (0xA1, a2)]
           (fold (\<lambda>(p, v). outb_wait io p v)
              [(0x20, 0x11), (0xA0, 0x11), (0x21, 0x20), (0xA1, 0x28), (0x21, 0x04), (0xA1, 0x02), (0x21, 0x01), (0xA1, 0x01)] h2))"

definition pic_port :: "u8 \<Rightarrow> u16 \<times> u8" where
  "pic_port irq = (if irq < 8 then 0x21 else 0xA1, if irq \<ge> 8 then irq - 8 else irq)"

text \<open>\<open>1 << irq\<close> is an \<open>int\<close>; only its low byte reaches the port.\<close>

definition pic_clear_mask :: "'h port_io \<Rightarrow> u8 \<Rightarrow> 'h \<Rightarrow> 'h res" where
  "pic_clear_mask io irq h =
     (let (p, k) = pic_port irq in
      if unat k \<ge> 31 then Inl BadShift
      else let (v, h1) = io_inb io h p in Inr (hw_outb io p (v AND NOT (push_bit (unat k) 1)) h1))"

definition pic_set_mask :: "'h port_io \<Rightarrow> u8 \<Rightarrow> 'h \<Rightarrow> 'h res" where
  "pic_set_mask io irq h =
     (let (p, k) = pic_port irq in
      if unat k \<ge> 31 then Inl BadShift
      else let (v, h1) = io_inb io h p in Inr (hw_outb io p (v OR push_bit (unat k) 1) h1))"

definition pic_send_eoi :: "'h port_io \<Rightarrow> u8 \<Rightarrow> 'h \<Rightarrow> 'h" where
  "pic_send_eoi io irq h = hw_outb io 0x20 0x20 (if irq \<ge> 8 then hw_outb io 0xA0 0x20 h else h)"

definition pic_eoi :: "'h port_io \<Rightarrow> u8 \<Rightarrow> 'h \<Rightarrow> 'h" where
  "pic_eoi io irq h = hw_outb io 0x20 0x20 (if irq \<ge> 8 then hw_outb io 0xA0 0x20 h else h)"

subsection \<open>Registration\<close>

definition isr_install :: "'h irq_state \<Rightarrow> 'h irq_state" where
  "isr_install s = s\<lparr>handlers := (\<lambda>_. None)\<rparr>"

definition isr_register_handler :: "u8 \<Rightarrow> isr_t \<Rightarrow> 'h irq_state \<Rightarrow> 'h irq_state" where
  "isr_register_handler n f s = s\<lparr>handlers := (handlers s)(unat n := Some f)\<rparr>"

subsection \<open>Timer and keyboard\<close>

definition pit_irq :: "'h irq_state \<Rightarrow> 'h irq_state" where
  "pit_irq s = s\<lparr>jiffies := jiffies s + 1\<rparr>"

definition pit_div :: "u32 \<Rightarrow> u16" where
  "pit_div hz = ucast (1193182 div (if hz = 0 then 100 else hz))"

definition pit_init :: "'h port_io \<Rightarrow> u32 \<Rightarrow> 'h irq_state \<Rightarrow> 'h irq_state" where
  "pit_init io hz s =
     isr_register_handler 32 Pit_irq
       (s\<lparr>hw := hw_outb io 0x40 (ucast (drop_bit 8 (pit_div hz)))
                 (hw_outb io 0x40 (ucast (pit_div hz)) (hw_outb io 0x43 0x36 (hw s)))\<rparr>)"

definition keyboard_callback :: "'h port_io \<Rightarrow> 'h irq_state \<Rightarrow> 'h irq_state" where
  "keyboard_callback io s =
     (let (sc, h) = io_inb io (hw s) 0x60 in s\<lparr>last_sc := sc, has_sc := True, hw := h\<rparr>)"

definition keyboard_init :: "'h port_io \<Rightarrow> 'h irq_state \<Rightarrow> 'h irq_state res" where
  "keyboard_init io s =
     rbind (pic_clear_mask io 1 (hw s)) (\<lambda>h. Inr (isr_register_handler 33 Keyboard_callback (s\<lparr>hw := h\<rparr>)))"

text \<open>\<open>Some\<close> is the return value 1 with the scancode in \<open>*out\<close>.\<close>

definition kbd_get_scancode :: "'h irq_state \<Rightarrow> u8 option \<times> 'h irq_state" where
  "kbd_get_scancode s = (if \<not> has_sc s then (None, s) else (Some (last_sc s), s\<lparr>has_sc := False\<rparr>))"

subsection \<open>Mouse\<close>

fun poll :: "nat \<Rightarrow> (u8 \<Rightarrow> bool) \<Rightarrow> 'h port_io \<Rightarrow> 'h \<Rightarrow> 'h" where
  "poll 0 busy io h = h"
| "poll (Suc n) busy io h = (let (st, h') = io_inb io h 0x64 in if busy st then poll n busy io h' else h')"

definition mouse_wait :: "'h port_io \<Rightarrow> u8 \<Rightarrow> 'h \<Rightarrow> 'h" where
  "mouse_wait io ty = poll 100000 (\<lambda>st. if ty = 0 then st AND 2 \<noteq> 0 else st AND 1 = 0) io"

definition mouse_write :: "'h port_io \<Rightarrow> u8 \<Rightarrow> 'h \<Rightarrow> 'h" where
  "mouse_write io v h = hw_outb io 0x60 v (mouse_wait io 0 (hw_outb io 0x64 0xD4 (mouse_wait io 0 h)))"

definition mouse_read :: "'h port_io \<Rightarrow> 'h \<Rightarrow> u8 \<times> 'h" where
  "mouse_read io h = io_inb io (mouse_wait io 1 h) 0x60"

definition mouse_init :: "'h port_io \<Rightarrow> u32 \<Rightarrow> u32 \<Rightarrow> 'h irq_state \<Rightarrow> 'h irq_state" where
  "mouse_init io fb_w fb_h s =
     (let h1 = mouse_wait io 0 (hw_outb io 0x64 0xA8 (hw s));
          h2 = mouse_wait io 1 (hw_outb io 0x64 0x20 h1);
          (status, h3) = io_inb io h2 0x60;
          h4 = mouse_wait io 0 (hw_outb io 0x64 0x60 (mouse_wait io 0 h3));
          h5 = hw_outb io 0x60 (status OR 2) h4;
          h6 = snd (mouse_read io (mouse_write io 0xF6 h5));
          h7 = snd (mouse_read io (mouse_write io 0xF4 h6))
      in isr_register_handler 44 Mouse_irq_handler
           (s\<lparr>screen_w := sint fb_w, screen_h := sint fb_h,
              mouse_x := uint (fb_w div 2), mouse_y := uint (fb_h div 2), hw := h7\<rparr>))"

definition clamp :: "int \<Rightarrow> int \<Rightarrow> int" where
  "clamp lim v = (let v' = (if v < 0 then 0 else v) in if v' \<ge> lim then lim - 1 else v')"

definition mouse_irq_handler :: "'h port_io \<Rightarrow> 'h irq_state \<Rightarrow> 'h irq_state res" where
  "mouse_irq_handler io s0 =
     (let (data, h) = io_inb io (hw s0) 0x60; s = s0\<lparr>hw := h\<rparr> in
      if mouse_cycle s = 0 \<and> data AND 0x08 = 0 then Inr s
      else if \<not> (0 \<le> mouse_cycle s \<and> nat (mouse_cycle s) < length (mouse_bytes s)) then Inl BadWrite
      else let bs = (mouse_bytes s)[nat (mouse_cycle s) := data]; n = mouse_cycle s + 1
           in if n = 3
              then rbind (i32 (mouse_x s + sint (bs ! 1))) (\<lambda>x. rbind (i32 (mouse_y s - sint (bs ! 2))) (\<lambda>y.
                   Inr (s\<lparr>mouse_bytes := bs, mouse_cycle := 0, mouse_x := clamp (screen_w s) x, mouse_y := clamp (screen_h s) y\<rparr>)))
              else Inr (s\<lparr>mouse_bytes := bs, mouse_cycle := n\<rparr>))"

definition mouse_get_x :: "'h irq_state \<Rightarrow> int" where "mouse_get_x s = mouse_x s"
definition mouse_get_y :: "'h irq_state \<Rightarrow> int" where "mouse_get_y s = mouse_y s"

definition mouse_get_buttons :: "'h irq_state \<Rightarrow> u8" where
  "mouse_get_buttons s = (mouse_bytes s ! 0) AND 0x07"

subsection \<open>Dispatch\<close>

fun run_handler :: "'h port_io \<Rightarrow> isr_t \<Rightarrow> 'h irq_state \<Rightarrow> 'h irq_state res" where
  "run_handler io Pit_irq s = Inr (pit_irq s)"
| "run_handler io Keyboard_callback s = Inr (keyboard_callback io s)"
| "run_handler io Mouse_irq_handler s = mouse_irq_handler io s"

definition call_handler :: "'h port_io \<Rightarrow> nat \<Rightarrow> 'h irq_state \<Rightarrow> 'h irq_state res" where
  "call_handler io n s = (case if n < 256 then handlers s n else None of None \<Rightarrow> Inr s | Some f \<Rightarrow> run_handler io f s)"

definition isr_handler_c :: "'h port_io \<Rightarrow> u32 \<Rightarrow> 'h irq_state \<Rightarrow> 'h irq_state res" where
  "isr_handler_c io int_no s =
     rbind (call_handler io (unat int_no) s) (\<lambda>s1.
       Inr (if int_no \<ge> 32 \<and> int_no \<le> 47 then s1\<lparr>hw := pic_eoi io (ucast (int_no - 32)) (hw s1)\<rparr> else s1))"

text \<open>The panic screen ends with the processor halted: \<open>Inl\<close> carries the vector.\<close>

definition isr_common_handler :: "'h port_io \<Rightarrow> u32 \<Rightarrow> 'h irq_state \<Rightarrow> (u32 + 'h irq_state) res" where
  "isr_common_handler io vector s =
     (if handling_exception s then Inr (Inl vector) else
      rbind (call_handler io (unat vector) s) (\<lambda>s1.
        if vector \<ge> 0x20 \<and> vector \<le> 0x2F then Inr (Inr (s1\<lparr>hw := pic_eoi io (ucast (vector - 0x20)) (hw s1)\<rparr>))
        else if vector < 32 then Inr (Inl vector)
        else Inr (Inr s1)))"

section \<open>Invariant and behaviour\<close>

definition mouse_ok :: "'h irq_state \<Rightarrow> bool" where
  "mouse_ok s \<longleftrightarrow> length (mouse_bytes s) = 3 \<and> 0 \<le> mouse_cycle s \<and> mouse_cycle s < 3 \<and>
     0 \<le> mouse_x s \<and> mouse_x s < screen_w s \<and> 0 \<le> mouse_y s \<and> mouse_y s < screen_h s \<and>
     screen_w s < 2 ^ 30 \<and> screen_h s < 2 ^ 30"

lemma clamp_range: "0 < lim \<Longrightarrow> 0 \<le> clamp lim v \<and> clamp lim v < lim"
  by (simp add: clamp_def Let_def)

lemma clamp_inside: "0 \<le> v \<Longrightarrow> v < lim \<Longrightarrow> clamp lim v = v"
  by (simp add: clamp_def)

lemma sint_byte: "- 128 \<le> sint (b :: u8)" "sint (b :: u8) < 128"
  using sint_greater_eq [of b] sint_less [of b] by simp_all

lemma mouse_handler_total:
  assumes "mouse_ok s"
  shows "\<exists>s'. mouse_irq_handler io s = Inr s' \<and> mouse_ok s'"
proof -
  obtain d h where dh: "io_inb io (hw s) 0x60 = (d, h)" by (cases "io_inb io (hw s) 0x60")
  let ?bs = "(mouse_bytes s)[nat (mouse_cycle s) := d]"
  have len: "nat (mouse_cycle s) < length (mouse_bytes s)" "0 \<le> mouse_cycle s" using assms by (auto simp: mouse_ok_def)
  have "i32 (mouse_x s + sint (?bs ! 1)) = Inr (mouse_x s + sint (?bs ! 1))" "i32 (mouse_y s - sint (?bs ! 2)) = Inr (mouse_y s - sint (?bs ! 2))"
    using assms sint_byte [of "?bs ! 1"] sint_byte [of "?bs ! 2"] by (auto simp: mouse_ok_def)
  moreover have "0 < screen_w s" "0 < screen_h s" using assms by (auto simp: mouse_ok_def)
  ultimately show ?thesis
    using assms len clamp_range by (auto simp: mouse_irq_handler_def dh Let_def mouse_ok_def)
qed

lemma call_handler_ok: "mouse_ok s \<Longrightarrow> \<exists>s'. call_handler io n s = Inr s' \<and> mouse_ok s'"
proof -
  assume ok: "mouse_ok s"
  have "\<exists>s'. run_handler io f s = Inr s' \<and> mouse_ok s'" for f
    using mouse_handler_total [OF ok] ok
    by (cases f) (auto simp: pit_irq_def keyboard_callback_def mouse_ok_def split: prod.split)
  with ok show ?thesis by (auto simp: call_handler_def split: option.split)
qed

text \<open>The runs of the machine: interrupts other than processor exceptions, in any order, mixed with
  the kernel taking scancodes.\<close>

inductive irq_step :: "'h port_io \<Rightarrow> 'h irq_state \<Rightarrow> 'h irq_state \<Rightarrow> bool" for io :: "'h port_io" where
  interrupt: "vector \<ge> 32 \<Longrightarrow> isr_common_handler io vector s = Inr (Inr s') \<Longrightarrow> irq_step io s s'"
| take_scancode: "kbd_get_scancode s = (r, s') \<Longrightarrow> irq_step io s s'"

inductive irq_reach :: "'h port_io \<Rightarrow> 'h irq_state \<Rightarrow> 'h irq_state \<Rightarrow> bool" for io :: "'h port_io" and s0 :: "'h irq_state" where
  start: "irq_reach io s0 s0"
| more: "irq_reach io s0 s \<Longrightarrow> irq_step io s s' \<Longrightarrow> irq_reach io s0 s'"

lemma common_handler_ok:
  assumes "mouse_ok s" and "\<not> handling_exception s" and "32 \<le> vector"
  shows "\<exists>s'. isr_common_handler io vector s = Inr (Inr s') \<and> mouse_ok s'"
proof -
  obtain s1 where "call_handler io (unat vector) s = Inr s1" "mouse_ok s1" using call_handler_ok [OF assms(1)] by blast
  moreover have "\<not> vector < 32" using assms(3) by simp
  ultimately show ?thesis using assms(2) by (auto simp: isr_common_handler_def mouse_ok_def)
qed

lemma handler_keeps_flag: "call_handler io n s = Inr s' \<Longrightarrow> handling_exception s' = handling_exception s \<and> screen_w s' = screen_w s \<and> screen_h s' = screen_h s"
proof -
  have "run_handler io f s = Inr s' \<Longrightarrow> handling_exception s' = handling_exception s \<and> screen_w s' = screen_w s \<and> screen_h s' = screen_h s" for f
    by (cases f) (auto simp: pit_irq_def keyboard_callback_def mouse_irq_handler_def Let_def res_simps split: prod.splits if_splits)
  then show "call_handler io n s = Inr s' \<Longrightarrow> ?thesis"
    by (auto simp: call_handler_def split: option.splits)
qed

lemma irq_step_ok:
  assumes "irq_step io s s'" and "mouse_ok s" and "\<not> handling_exception s"
  shows "mouse_ok s' \<and> \<not> handling_exception s' \<and> screen_w s' = screen_w s \<and> screen_h s' = screen_h s"
  using assms(1)
proof cases
  case (interrupt vector)
  then have "mouse_ok s'" using common_handler_ok [OF assms(2,3), of vector io] by auto
  with interrupt assms(3) handler_keeps_flag show ?thesis
    by (auto simp: isr_common_handler_def res_simps split: if_splits)
next
  case (take_scancode r)
  with assms show ?thesis by (auto simp: kbd_get_scancode_def mouse_ok_def split: if_splits)
qed

lemma irq_reach_ok:
  "irq_reach io s0 s \<Longrightarrow> mouse_ok s0 \<Longrightarrow> \<not> handling_exception s0 \<Longrightarrow>
     mouse_ok s \<and> \<not> handling_exception s \<and> screen_w s = screen_w s0 \<and> screen_h s = screen_h s0"
  by (induction rule: irq_reach.induct) (auto dest: irq_step_ok)

subsection \<open>Booting\<close>

text \<open>The order in which \<open>kmain\<close> brings the devices up, and the statics before that.\<close>

definition irq_boot :: "'h port_io \<Rightarrow> u32 \<Rightarrow> u32 \<Rightarrow> 'h irq_state \<Rightarrow> 'h irq_state res" where
  "irq_boot io fb_w fb_h s =
     (let s1 = isr_install s; s2 = s1\<lparr>hw := pic_remap io (hw s1)\<rparr>; s3 = pit_init io 100 s2 in
      rbind (keyboard_init io s3) (\<lambda>s4.
      let s5 = mouse_init io fb_w fb_h s4 in
      rbind (pic_clear_mask io 2 (hw s5)) (\<lambda>h6. rbind (pic_clear_mask io 12 h6) (\<lambda>h7.
      rbind (pic_clear_mask io 0 h7) (\<lambda>h8. rbind (pic_clear_mask io 1 h8) (\<lambda>h9. Inr (s5\<lparr>hw := h9\<rparr>)))))))"

definition irq_statics :: "'h \<Rightarrow> 'h irq_state" where
  "irq_statics h = \<lparr>handlers = \<lambda>_. None, handling_exception = False, jiffies = 0, last_sc = 0, has_sc = False,
     mouse_cycle = 0, mouse_bytes = [0, 0, 0], mouse_x = 0, mouse_y = 0, screen_w = 0, screen_h = 0, hw = h\<rparr>"

lemma pic_clear_total: "unat k < 16 \<Longrightarrow> \<exists>h'. pic_clear_mask io k h = Inr h'"
  by (auto simp: pic_clear_mask_def pic_port_def unat_sub_if' word_le_nat_alt word_less_nat_alt split: prod.split)

lemma irq_boot_ok:
  assumes "0 < unat w" "unat w < 2 ^ 30" "0 < unat h" "unat h < 2 ^ 30"
  shows "\<exists>s. irq_boot io w h (irq_statics g) = Inr s \<and> mouse_ok s \<and> \<not> handling_exception s \<and>
    screen_w s = int (unat w) \<and> screen_h s = int (unat h) \<and>
    handlers s 32 = Some Pit_irq \<and> handlers s 33 = Some Keyboard_callback \<and> handlers s 44 = Some Mouse_irq_handler"
proof -
  have sw: "sint w = int (unat w)" "sint h = int (unat h)" using assms by (simp_all add: sint_small)
  have half: "uint (v div 2) = int (unat v div 2)" for v :: u32 by (simp add: uint_div_distrib zdiv_int)
  have num: "int (unat v div 2) < uint v \<and> uint v < 2 ^ 30" if "0 < unat v" "unat v < 2 ^ 30" for v :: u32
  proof -
    have "unat v div 2 < unat v" using that by simp
    then have "int (unat v div 2) < int (unat v)" "int (unat v) < 2 ^ 30"
      using that by (simp_all only: of_nat_less_iff of_nat_less_numeral_power_cancel_iff)
    then show ?thesis by simp
  qed
  have clr: "\<exists>g'. pic_clear_mask io k g = Inr g'" if "k \<in> {0, 1, 2, 12}" for k g
    using that by (intro pic_clear_total) auto
  let ?s3 = "pit_init io 100 ((isr_install (irq_statics g))\<lparr>hw := pic_remap io g\<rparr>)"
  obtain g4 where g4: "pic_clear_mask io 1 (hw ?s3) = Inr g4" using clr by blast
  let ?s5 = "mouse_init io w h (isr_register_handler 33 Keyboard_callback (?s3\<lparr>hw := g4\<rparr>))"
  obtain g6 where g6: "pic_clear_mask io 2 (hw ?s5) = Inr g6" using clr by blast
  obtain g7 where g7: "pic_clear_mask io 12 g6 = Inr g7" using clr by blast
  obtain g8 where g8: "pic_clear_mask io 0 g7 = Inr g8" using clr by blast
  obtain g9 where g9: "pic_clear_mask io 1 g8 = Inr g9" using clr by blast
  have "irq_boot io w h (irq_statics g) = Inr (?s5\<lparr>hw := g9\<rparr>)"
    using g4 g6 g7 g8 g9 by (simp add: irq_boot_def keyboard_init_def isr_install_def irq_statics_def Let_def)
  moreover have "mouse_ok (?s5\<lparr>hw := g9\<rparr>)"
    using num [OF assms(1,2)] num [OF assms(3,4)] sw
    by (auto simp: mouse_ok_def mouse_init_def isr_register_handler_def pit_init_def isr_install_def irq_statics_def Let_def half split: prod.split)
  ultimately show ?thesis
    using sw by (auto simp: mouse_init_def isr_register_handler_def pit_init_def isr_install_def irq_statics_def Let_def split: prod.split)
qed

subsection \<open>Properties\<close>

text \<open>C37: after the kernel has brought the devices up, in every state that any sequence of interrupts and
  keyboard polls can lead to, the mouse position is on the screen, and the next interrupt, whatever its
  vector and whatever the hardware answers, is handled without a fault. The screen has fewer than \<open>2 ^ 30\<close> pixels in each
  direction.\<close>

theorem mouse_stays_on_screen:
  assumes "0 < unat w" "unat w < 2 ^ 30" "0 < unat h" "unat h < 2 ^ 30"
    and "irq_boot io w h (irq_statics g) = Inr s0" and "irq_reach io s0 s"
  shows "0 \<le> mouse_get_x s \<and> mouse_get_x s < int (unat w) \<and> 0 \<le> mouse_get_y s \<and> mouse_get_y s < int (unat h) \<and>
    (\<forall>vector. 32 \<le> vector \<longrightarrow> (\<exists>s'. isr_common_handler io vector s = Inr (Inr s')))"
proof -
  from irq_boot_ok [OF assms(1-4), of io g] assms(5) have s0: "mouse_ok s0" "\<not> handling_exception s0"
    "screen_w s0 = int (unat w)" "screen_h s0 = int (unat h)" by auto
  from irq_reach_ok [OF assms(6) s0(1,2)] s0 have s: "mouse_ok s" "\<not> handling_exception s"
    "screen_w s = int (unat w)" "screen_h s = int (unat h)" by auto
  then show ?thesis
    using common_handler_ok [OF s(1,2)] by (auto simp: mouse_get_x_def mouse_get_y_def mouse_ok_def)
qed

text \<open>Hardware for the examples: a queue of bytes behind the data port, always ready.\<close>

definition demo_io :: "u8 list port_io" where
  "demo_io = \<lparr>io_inb = (\<lambda>h p. if p = 0x60 then (case h of [] \<Rightarrow> (0, []) | b # bs \<Rightarrow> (b, bs)) else (1, h)),
     io_outb = (\<lambda>h p v. h), io_inw = (\<lambda>h p. (0, h)), io_outw = (\<lambda>h p v. h)\<rparr>"

theorem mouse_stays_on_screen_witness:
  "\<exists>s0 s. irq_boot demo_io 640 480 (irq_statics []) = Inr s0 \<and> isr_common_handler demo_io 44 s0 = Inr (Inr s) \<and>
     0 \<le> mouse_get_x s \<and> mouse_get_x s < 640 \<and> 0 \<le> mouse_get_y s \<and> mouse_get_y s < 480"
proof -
  obtain s0 where s0: "irq_boot demo_io 640 480 (irq_statics []) = Inr s0" "mouse_ok s0" "\<not> handling_exception s0"
    using irq_boot_ok [of 640 480 demo_io "[]"] by auto
  then obtain s where s: "isr_common_handler demo_io 44 s0 = Inr (Inr s)" using common_handler_ok [of s0 44 demo_io] by auto
  have "irq_reach demo_io s0 s" by (rule irq_reach.more [OF irq_reach.start interrupt [OF _ s]]) simp
  with s0(1) s show ?thesis using mouse_stays_on_screen [of 640 480 demo_io "[]" s0 s] by auto
qed

text \<open>a packet of three bytes whose first has bit 3 set moves the mouse by its signed second and third
  byte (the vertical axis reversed), clipped to the screen, and the handler is ready for the next packet.\<close>

theorem mouse_packet_moves:
  assumes ok: "mouse_ok s" and "mouse_cycle s = 0" and "\<not> handling_exception s" and "handlers s 44 = Some Mouse_irq_handler"
    and "b0 AND 0x08 \<noteq> 0"
    and rd: "io_inb io (hw s) 0x60 = (b0, h0)" "io_inb io (pic_eoi io 12 h0) 0x60 = (b1, h1)" "io_inb io (pic_eoi io 12 h1) 0x60 = (b2, h2)"
  shows "\<exists>s1 s2 s3. isr_common_handler io 44 s = Inr (Inr s1) \<and> isr_common_handler io 44 s1 = Inr (Inr s2) \<and>
    isr_common_handler io 44 s2 = Inr (Inr s3) \<and>
    mouse_get_x s3 = clamp (screen_w s) (mouse_x s + sint b1) \<and> mouse_get_y s3 = clamp (screen_h s) (mouse_y s - sint b2) \<and>
    mouse_get_buttons s3 = b0 AND 0x07 \<and> mouse_cycle s3 = 0 \<and> mouse_ok s3"
proof -
  obtain c0 c1 c2 where bs: "mouse_bytes s = [c0, c1, c2]"
    using ok by (auto simp: mouse_ok_def length_Suc_conv numeral_3_eq_3)
  have ix: "i32 (mouse_x s + sint b1) = Inr (mouse_x s + sint b1)" "i32 (mouse_y s - sint b2) = Inr (mouse_y s - sint b2)"
    using ok sint_byte [of b1] sint_byte [of b2] by (auto simp: mouse_ok_def)
  let ?s1 = "s\<lparr>mouse_bytes := [b0, c1, c2], mouse_cycle := 1, hw := pic_eoi io 12 h0\<rparr>"
  let ?s2 = "s\<lparr>mouse_bytes := [b0, b1, c2], mouse_cycle := 2, hw := pic_eoi io 12 h1\<rparr>"
  let ?s3 = "s\<lparr>mouse_bytes := [b0, b1, b2], mouse_cycle := 0, mouse_x := clamp (screen_w s) (mouse_x s + sint b1),
    mouse_y := clamp (screen_h s) (mouse_y s - sint b2), hw := pic_eoi io 12 h2\<rparr>"
  have "isr_common_handler io 44 s = Inr (Inr ?s1)"
    using assms bs by (simp add: isr_common_handler_def call_handler_def mouse_irq_handler_def)
  moreover have "isr_common_handler io 44 ?s1 = Inr (Inr ?s2)"
    using assms by (simp add: isr_common_handler_def call_handler_def mouse_irq_handler_def)
  moreover have "isr_common_handler io 44 ?s2 = Inr (Inr ?s3)"
    using assms ix by (simp add: isr_common_handler_def call_handler_def mouse_irq_handler_def)
  moreover have "mouse_ok ?s3" using ok clamp_range by (auto simp: mouse_ok_def)
  moreover have "mouse_get_buttons ?s3 = b0 AND 0x07" by (simp add: mouse_get_buttons_def)
  ultimately show ?thesis by (intro exI [of _ ?s1] exI [of _ ?s2] exI [of _ ?s3]) (simp add: mouse_get_x_def mouse_get_y_def)
qed

definition demo_mouse :: "u8 list irq_state" where
  "demo_mouse = (irq_statics [0x09, 10, 250])\<lparr>handlers := [44 \<mapsto> Mouse_irq_handler], mouse_x := 315, mouse_y := 100,
     screen_w := 320, screen_h := 200\<rparr>"

theorem mouse_packet_moves_witness:
  "\<exists>s1 s2 s3. isr_common_handler demo_io 44 demo_mouse = Inr (Inr s1) \<and> isr_common_handler demo_io 44 s1 = Inr (Inr s2) \<and>
     isr_common_handler demo_io 44 s2 = Inr (Inr s3) \<and> mouse_get_x s3 = 319 \<and> mouse_get_y s3 = 106"
proof -
  have "mouse_ok demo_mouse" "mouse_cycle demo_mouse = 0" "\<not> handling_exception demo_mouse"
    "handlers demo_mouse 44 = Some Mouse_irq_handler" "(9 :: u8) AND 0x08 \<noteq> 0"
    "io_inb demo_io (hw demo_mouse) 0x60 = (9, [10, 250])"
    "io_inb demo_io (pic_eoi demo_io 12 [10, 250]) 0x60 = (10, [250])"
    "io_inb demo_io (pic_eoi demo_io 12 [250]) 0x60 = (250, [])"
    by (simp_all add: mouse_ok_def demo_mouse_def irq_statics_def demo_io_def pic_eoi_def hw_outb_def)
  note * = mouse_packet_moves [OF this]
  have "clamp (screen_w demo_mouse) (mouse_x demo_mouse + sint (10 :: u8)) = 319"
    "clamp (screen_h demo_mouse) (mouse_y demo_mouse - sint (250 :: u8)) = 106" by code_simp+
  with * show ?thesis by auto
qed

text \<open>On a screen with no columns the clipping yields -1.\<close>

lemma mouse_empty_screen: "clamp 0 v = -1"
  by (simp add: clamp_def)

text \<open>A timer frequency below 19 Hz does not fit the 16-bit divisor: asking for 18 Hz sets about 1589 Hz.\<close>

lemma pit_divisor_wraps: "pit_div 18 = 751"
  by (simp add: pit_div_def)

end
