(* ===== verification/Bmp.thy ===== *)
theory Bmp
  imports Ui
begin

text \<open>
  The bitmap decoder behind the wallpaper, of \<open>desktop.c\<close>: the header check, the search for a size
  that fits the screen and the memory, and the sampling of the pixels.

  The file is the buffer it was read into; offsets are positions in it, and a read that leaves it
  is a fault. \<open>ext\<close> stands for \<open>ext_mem_alloc\<close> of the boot loader's memory manager, with a state of
  its own, and \<open>hhdm\<close> for the offset of the direct map.
\<close>

subsection \<open>The header\<close>

record bmp_info =
  bi_size :: u32
  bi_data_off :: u32
  bi_w :: int
  bi_h :: int
  bi_bpp :: u16
  bi_palette :: u32

definition bmp_colors :: "u16 \<Rightarrow> u32 \<Rightarrow> u32" where
  "bmp_colors bpp clr_used =
     (if bpp = 4 \<or> bpp = 8 then (if clr_used \<noteq> 0 then clr_used else push_bit (unat bpp) 1) else 0)"

definition load_bmp_header :: "u8 list \<Rightarrow> u32 \<Rightarrow> bmp_info option res" where
  "load_bmp_header buf len =
     (if len < 54 then Inr None else
      rbind (ld8 buf 0) (\<lambda>b0. if b0 \<noteq> 0x42 then Inr None else
      rbind (ld8 buf 1) (\<lambda>b1. if b1 \<noteq> 0x4D then Inr None else
      rbind (ld32 buf 2) (\<lambda>file_size. rbind (ld32 buf 10) (\<lambda>data_off. rbind (ld32 buf 14) (\<lambda>hdr_size.
      if hdr_size < 40 then Inr None else
      rbind (ld32 buf 18) (\<lambda>w. rbind (ld32 buf 22) (\<lambda>h. rbind (ld16 buf 26) (\<lambda>planes.
      rbind (ld16 buf 28) (\<lambda>bpp. rbind (ld32 buf 30) (\<lambda>comp.
      if planes \<noteq> 1 \<or> (bpp \<noteq> 4 \<and> bpp \<noteq> 8 \<and> bpp \<noteq> 24 \<and> bpp \<noteq> 32) \<or> comp \<noteq> 0 then Inr None
      else if sint w \<le> 0 \<or> sint h = 0 then Inr None else
      rbind (ld32 buf 46) (\<lambda>clr_used.
        Inr (Some \<lparr>bi_size = file_size, bi_data_off = data_off, bi_w = sint w, bi_h = sint h, bi_bpp = bpp,
                   bi_palette = bmp_colors bpp clr_used\<rparr>)))))))))))))"

subsection \<open>A size that fits\<close>

definition max_px :: "fb_t \<Rightarrow> u64" where
  "max_px fb = (if fb_width fb \<noteq> 0 \<and> fb_height fb \<noteq> 0 then ucast (fb_width fb) * ucast (fb_height fb) else 1920 * 1080)"

definition halve :: "u32 \<Rightarrow> u32" where
  "halve t = (if t > 1 then (t + 1) div 2 else 1)"

lemma unat_ucast_u32_u64 [simp]: "unat (ucast (w :: u32) :: u64) = unat w"
  by (simp add: unat_ucast_up)

lemma unat_mult_u32_u64: "unat (ucast (a :: u32) * ucast (b :: u32) :: u64) = unat a * unat b"
proof -
  have "unat a * unat b < 2 ^ 32 * 2 ^ 32" using unat_bound [of a] unat_bound [of b] by (intro mult_strict_mono) simp_all
  then show ?thesis by (simp add: unat_word_ariths)
qed

lemma max_px_pos: "0 < unat (max_px fb)"
proof (cases "fb_width fb \<noteq> 0 \<and> fb_height fb \<noteq> 0")
  case True
  then have "unat (fb_width fb) \<noteq> 0" "unat (fb_height fb) \<noteq> 0" by (simp_all add: unat_eq_0)
  then show ?thesis using True unat_mult_u32_u64 [of "fb_width fb" "fb_height fb"] by (auto simp: max_px_def simp del: unat_gt_0)
qed (auto simp: max_px_def)

lemma unat_halve: "unat (halve t) \<le> max 1 (unat t)" "1 < unat t \<Longrightarrow> unat (halve t) < unat t"
proof -
  have "unat (halve t) < unat t" if t: "1 < unat t" for t
  proof -
    have "unat (t + 1) \<le> unat t + 1" by (simp add: unat_word_ariths)
    then have "unat ((t + 1) div 2) \<le> (unat t + 1) div 2" by (simp add: unat_div div_le_mono)
    moreover have "t > 1" using t by (simp add: word_less_nat_alt)
    ultimately show ?thesis using t by (simp add: halve_def)
  qed
  then show "1 < unat t \<Longrightarrow> unat (halve t) < unat t" and "unat (halve t) \<le> max 1 (unat t)"
    by (force, metis halve_def less_imp_le max.coboundedI2 max.cobounded1 unat_1 word_less_nat_alt)
qed

lemma halve_decreases:
  assumes "1 \<le> unat w" and "1 \<le> unat h" and "unat w \<noteq> 1 \<or> unat h \<noteq> 1"
  shows "unat (halve w) + unat (halve h) < unat w + unat h"
proof -
  have "unat (halve w) \<le> unat w" "unat (halve h) \<le> unat h" using unat_halve(1) [of w] unat_halve(1) [of h] assms by auto
  moreover have "unat (halve w) < unat w \<or> unat (halve h) < unat h" using unat_halve(2) [of w] unat_halve(2) [of h] assms by linarith
  ultimately show ?thesis by linarith
qed

lemma too_big_decreases:
  assumes "ucast w * ucast h > max_px fb"
  shows "unat (halve w) + unat (halve h) < unat w + unat h"
proof -
  have "unat (max_px fb) < unat w * unat h" using assms by (simp add: word_less_nat_alt unat_mult_u32_u64)
  then have "1 < unat w * unat h" using max_px_pos [of fb] by linarith
  then have "1 \<le> unat w" "1 \<le> unat h" "unat w \<noteq> 1 \<or> unat h \<noteq> 1" by (cases "unat w"; cases "unat h"; auto)+
  then show ?thesis by (rule halve_decreases)
qed

function shrink_to_fit :: "fb_t \<Rightarrow> u32 \<Rightarrow> u32 \<Rightarrow> u32 \<times> u32" where
  "shrink_to_fit fb w h = (if ucast w * ucast h > max_px fb then shrink_to_fit fb (halve w) (halve h) else (w, h))"
  by pat_completeness auto
termination
  by (relation "measure (\<lambda>(fb, w, h). unat w + unat h)") (auto dest: too_big_decreases)

declare shrink_to_fit.simps [simp del]

subsection \<open>Memory for the pixels\<close>

definition wp_alloc :: "'e ext_alloc \<Rightarrow> u64 \<Rightarrow> u64 \<Rightarrow> kheap \<times> 'e \<Rightarrow> u64 \<times> kheap \<times> 'e" where
  "wp_alloc ext hhdm sz st =
     (case st of (heap, e) \<Rightarrow> case kmalloc sz heap of (p, heap') \<Rightarrow>
        if p \<noteq> 0 then (p, heap', e)
        else case ext e sz of (phys, e') \<Rightarrow> if phys = 0 then (0, heap', e') else (phys + hhdm, heap', e'))"

text \<open>Halving the size until the allocation succeeds; address 0 when even one pixel is refused.\<close>

function alloc_attempt ::
  "'e ext_alloc \<Rightarrow> u64 \<Rightarrow> u32 \<Rightarrow> u32 \<Rightarrow> kheap \<times> 'e \<Rightarrow> u64 \<times> u32 \<times> u32 \<times> kheap \<times> 'e" where
  "alloc_attempt ext hhdm w h st =
     (if w \<ge> 1 \<and> h \<ge> 1 then
        case wp_alloc ext hhdm (ucast w * ucast h * 4) st of (p, st') \<Rightarrow>
          if p \<noteq> 0 then (p, w, h, st')
          else if w = 1 \<and> h = 1 then (0, w, h, st')
          else alloc_attempt ext hhdm (halve w) (halve h) st'
      else (0, w, h, st))"
  by pat_completeness auto
termination
proof (relation "measure (\<lambda>(ext, hhdm, w, h, st). unat w + unat h)", simp, goal_cases)
  case (1 ext hhdm w h st x y)
  then have "1 \<le> unat w" "1 \<le> unat h" "unat w \<noteq> 1 \<or> unat h \<noteq> 1"
    by (auto simp: word_le_nat_alt word_unat_eq_iff)
  then show ?case using halve_decreases by simp
qed

declare alloc_attempt.simps [simp del]

subsection \<open>Pixels\<close>

text \<open>The colour of the entry of a palette at position \<open>ent\<close>, or of four bytes of a true-colour pixel: an
  alpha of 0 counts as opaque.\<close>

definition load_bgra :: "u8 list \<Rightarrow> nat \<Rightarrow> u32 res" where
  "load_bgra file ent =
     rbind (ld8 file ent) (\<lambda>b. rbind (ld8 file (ent + 1)) (\<lambda>g. rbind (ld8 file (ent + 2)) (\<lambda>r.
     rbind (ld8 file (ent + 3)) (\<lambda>a. Inr (pack (if a = 0 then 0xFF else a) r g b)))))"

definition palette_color :: "u8 list \<Rightarrow> nat \<Rightarrow> u32 \<Rightarrow> u8 \<Rightarrow> u32 res" where
  "palette_color file palette colors idx =
     (let idx' = (if ucast idx \<ge> colors then 0 else idx) in load_bgra file (palette + unat idx' * 4))"

text \<open>Column \<open>sx\<close> of the row that starts at position \<open>src\<close>.\<close>

definition decode_px :: "u8 list \<Rightarrow> u16 \<Rightarrow> nat \<Rightarrow> u32 \<Rightarrow> nat \<Rightarrow> u32 \<Rightarrow> u32 res" where
  "decode_px file bpp palette colors src sx =
     (if bpp = 24 then
        rbind (ld8 file (src + unat (sx * 3))) (\<lambda>b. rbind (ld8 file (src + unat (sx * 3 + 1))) (\<lambda>g.
        rbind (ld8 file (src + unat (sx * 3 + 2))) (\<lambda>r. Inr (pack 0xFF r g b))))
      else if bpp = 32 then
        rbind (ld8 file (src + unat (sx * 4))) (\<lambda>b. rbind (ld8 file (src + unat (sx * 4 + 1))) (\<lambda>g.
        rbind (ld8 file (src + unat (sx * 4 + 2))) (\<lambda>r. rbind (ld8 file (src + unat (sx * 4 + 3))) (\<lambda>a.
          Inr (pack (if a = 0 then 0xFF else a) r g b)))))
      else if bpp = 8 then
        rbind (ld8 file (src + unat sx)) (palette_color file palette colors)
      else
        rbind (ld8 file (src + unat (sx div 2))) (\<lambda>byte.
          palette_color file palette colors (if sx AND 1 \<noteq> 0 then byte AND 0x0F else drop_bit 4 byte)))"

definition sample :: "u32 \<Rightarrow> int \<Rightarrow> u32 \<Rightarrow> u32" where
  "sample i n t = ucast ((ucast i * word_of_int n :: u64) div ucast t)"

text \<open>Position in the file of the row sampled for line \<open>y\<close>; a positive height stores the rows bottom up.\<close>

definition src_row :: "u32 \<Rightarrow> int \<Rightarrow> int \<Rightarrow> u32 \<Rightarrow> u32 \<Rightarrow> u32 \<Rightarrow> nat" where
  "src_row data_off h abs_h row_stride th y =
     (let sy = sample y abs_h th; src_y = (if h > 0 then abs_h - 1 - sint sy else sint sy)
      in unat data_off + unat (word_of_int src_y * row_stride))"

definition put_px :: "nat \<Rightarrow> u32 \<Rightarrow> u32 list \<Rightarrow> u32 list res" where
  "put_px i c pix = (if i < length pix then Inr (pix[i := c]) else Inl BadWrite)"

definition u32_upto :: "u32 \<Rightarrow> u32 list" where
  "u32_upto n = map of_nat [0..<unat n]"

definition decode_rows ::
  "u8 list \<Rightarrow> u16 \<Rightarrow> nat \<Rightarrow> u32 \<Rightarrow> u32 \<Rightarrow> int \<Rightarrow> int \<Rightarrow> int \<Rightarrow> u32 \<Rightarrow> u32 \<Rightarrow> u32 \<Rightarrow> u32 list \<Rightarrow> u32 list res" where
  "decode_rows file bpp palette colors data_off w h abs_h row_stride tw th =
     rfold (\<lambda>y. rfold (\<lambda>x pix.
         rbind (decode_px file bpp palette colors (src_row data_off h abs_h row_stride th y) (sample x w tw)) (\<lambda>c.
           put_px (unat (y * tw) + unat x) c pix)) (u32_upto tw)) (u32_upto th)"

text \<open>The checks of the layout: the position of the palette, or none when the file is refused.\<close>

definition bmp_palette_start :: "u8 list \<Rightarrow> u32 \<Rightarrow> u32 \<Rightarrow> u16 \<Rightarrow> u32 \<Rightarrow> nat option res" where
  "bmp_palette_start file file_size data_off bpp colors =
     (if file_size = 0 \<or> data_off \<ge> file_size \<or> file_size < 18 then Inr None else
      rbind (ld32 file 14) (\<lambda>hdr_size.
      if hdr_size > file_size \<or> 14 + hdr_size > file_size then Inr None
      else if bpp = 4 \<or> bpp = 8 then
        (let bytes = colors * 4; start = 14 + hdr_size
         in if (ucast start + ucast bytes :: u64) > ucast file_size then Inr None
            else if (ucast start + ucast bytes :: u64) > ucast data_off then Inr None
            else if colors = 0 then Inr None else Inr (Some (unat start)))
      else Inr (Some 0)))"

definition bmp_row_stride :: "u16 \<Rightarrow> int \<Rightarrow> u32" where
  "bmp_row_stride bpp w = (ucast bpp * word_of_int w + 31) div 32 * 4"

text \<open>The decoder up to the point where the wallpaper is replaced. The block starts with arbitrary
  contents, here zeros: every cell of it is written.\<close>

definition bmp_decode ::
  "fb_t \<Rightarrow> 'e ext_alloc \<Rightarrow> u64 \<Rightarrow> u8 list \<Rightarrow> u32 \<Rightarrow> u32 \<Rightarrow> int \<Rightarrow> int \<Rightarrow> u16 \<Rightarrow> u32 \<Rightarrow> kheap \<times> 'e \<Rightarrow>
   ((u32 list \<times> u32 \<times> u32) option \<times> kheap \<times> 'e) res" where
  "bmp_decode fb ext hhdm file file_size data_off w h bpp colors st =
     rbind (bmp_palette_start file file_size data_off bpp colors) (\<lambda>pal. case pal of
       None \<Rightarrow> Inr (None, st)
     | Some palette \<Rightarrow>
         rbind (if h < 0 then i32 (- h) else Inr h) (\<lambda>abs_h.
         let stride = bmp_row_stride bpp w in
         if (ucast data_off + ucast stride * word_of_int abs_h :: u64) > ucast file_size then Inr (None, st) else
         case shrink_to_fit fb (word_of_int w) (word_of_int abs_h) of (tw0, th0) \<Rightarrow>
         case alloc_attempt ext hhdm tw0 th0 st of (p, tw, th, st') \<Rightarrow>
         if p = 0 then Inr (None, st') else
         rbind (decode_rows file bpp palette colors data_off w h abs_h stride tw th (replicate (unat (ucast tw * ucast th * 4 :: u64) div 4) 0)) (\<lambda>pix.
           Inr (Some (pix, tw, th), st'))))"

section \<open>Proofs\<close>

subsection \<open>Sizes\<close>

lemma halve_pos: "1 \<le> unat t \<Longrightarrow> unat t < 2 ^ 31 \<Longrightarrow> 1 \<le> unat (halve t)"
proof -
  assume t: "1 \<le> unat t" "unat t < 2 ^ 31"
  show ?thesis
  proof (cases "t > 1")
    case True
    have "unat (t + 1) = unat t + 1" using t by (subst unat_add_u32) simp_all
    then have "unat (halve t) = (unat t + 1) div 2" using True by (simp add: halve_def unat_div)
    then show ?thesis using t by simp
  qed (simp add: halve_def)
qed

lemma halve_le: "1 \<le> unat t \<Longrightarrow> unat (halve t) \<le> unat t"
  using unat_halve(1) [of t] by simp

text \<open>Sizes the decoder works with: not empty, and no larger than the image.\<close>

definition size_within :: "u32 \<Rightarrow> u32 \<Rightarrow> u32 \<Rightarrow> u32 \<Rightarrow> bool" where
  "size_within w h tw th \<longleftrightarrow> 1 \<le> unat tw \<and> unat tw \<le> unat w \<and> 1 \<le> unat th \<and> unat th \<le> unat h"

lemma size_within_halve:
  "size_within w h a b \<Longrightarrow> unat w < 2 ^ 31 \<Longrightarrow> unat h < 2 ^ 31 \<Longrightarrow> size_within w h (halve a) (halve b)"
  using halve_pos [of a] halve_pos [of b] halve_le [of a] halve_le [of b] by (simp add: size_within_def)

lemma shrink_to_fit_result:
  assumes "size_within w h a b" and "unat w < 2 ^ 31" and "unat h < 2 ^ 31" and "shrink_to_fit fb a b = (tw, th)"
  shows "size_within w h tw th \<and> unat tw * unat th \<le> unat (max_px fb)"
  using assms
proof (induction fb a b rule: shrink_to_fit.induct)
  case (1 fb a b)
  show ?case
  proof (cases "ucast a * ucast b > max_px fb")
    case True
    with "1.prems"(4) have "shrink_to_fit fb (halve a) (halve b) = (tw, th)" by (subst (asm) shrink_to_fit.simps) simp
    with "1.IH" [OF True size_within_halve] "1.prems" show ?thesis by blast
  next
    case False
    with "1.prems" show ?thesis
      by (subst (asm) shrink_to_fit.simps) (simp add: word_le_nat_alt unat_mult_u32_u64 not_less)
  qed
qed

lemma alloc_attempt_result:
  assumes "size_within w h a b" and "unat w < 2 ^ 31" and "unat h < 2 ^ 31" and "alloc_attempt ext hhdm a b st = (p, tw, th, st')"
  shows "size_within w h tw th \<and> unat tw \<le> unat a \<and> unat th \<le> unat b"
  using assms
proof (induction ext hhdm a b st rule: alloc_attempt.induct)
  case (1 ext hhdm a b st)
  obtain q st1 where q: "wp_alloc ext hhdm (ucast a * ucast b * 4) st = (q, st1)" by (cases "wp_alloc ext hhdm (ucast a * ucast b * 4) st")
  have ab: "a \<ge> 1 \<and> b \<ge> 1" using "1.prems"(1) by (simp add: size_within_def word_le_nat_alt)
  show ?case
  proof (cases "q \<noteq> 0 \<or> (a = 1 \<and> b = 1)")
    case True
    with "1.prems" ab q show ?thesis by (subst (asm) alloc_attempt.simps) (auto split: if_splits)
  next
    case False
    with "1.prems"(4) ab q have r: "alloc_attempt ext hhdm (halve a) (halve b) st1 = (p, tw, th, st')"
      by (subst (asm) alloc_attempt.simps) auto
    from False have c: "\<not> q \<noteq> 0" "\<not> (a = 1 \<and> b = 1)" by auto
    from "1.IH" [OF ab q [symmetric] c size_within_halve [OF "1.prems"(1-3)] "1.prems"(2,3) r]
    show ?thesis using halve_le [of a] halve_le [of b] "1.prems"(1) by (auto simp: size_within_def)
  qed
qed

subsection \<open>Sampling\<close>

lemma unat_word_of_int_small:
  assumes "0 \<le> n" and "n < 2 ^ LENGTH('a)" shows "unat (word_of_int n :: 'a::len word) = nat n"
proof -
  have "uint (word_of_int n :: 'a word) = n" using assms by (simp add: unsigned_of_int take_bit_int_eq_self)
  then show ?thesis by (simp add: unat_eq_nat_uint)
qed

lemma unat_sample:
  assumes "0 \<le> n" and "n < 2 ^ 31" and "unat i < unat t"
  shows "unat (sample i n t) = unat i * nat n div unat t" and "unat (sample i n t) \<le> nat n - 1"
proof -
  have n: "nat n < 2 ^ 31" using assms by simp
  have "unat (word_of_int n :: u64) = nat n" using assms(1,2) by (intro unat_word_of_int_small) simp_all
  then have "unat (ucast i * word_of_int n :: u64) = unat i * nat n mod 2 ^ 64" by (simp add: unat_word_ariths)
  moreover have "unat i * nat n < 2 ^ 32 * 2 ^ 32" using unat_bound [of i] n by (intro mult_strict_mono) simp_all
  ultimately have p: "unat (ucast i * word_of_int n :: u64) = unat i * nat n" by simp
  let ?q = "unat i * nat n div unat t"
  have lt: "?q < nat n \<or> n = 0"
  proof (cases "n = 0")
    case False
    then have "unat i * nat n < unat t * nat n" using assms by simp
    then show ?thesis by (simp add: less_mult_imp_div_less mult.commute)
  qed simp
  then have "?q < 2 ^ 31" using n by auto
  then show "unat (sample i n t) = ?q"
    by (simp add: sample_def unat_div p unsigned_ucast_eq take_bit_nat_eq_self)
  with lt show "unat (sample i n t) \<le> nat n - 1" by auto
qed

lemma sample_same: "unat i < unat t \<Longrightarrow> int (unat t) = n \<Longrightarrow> n < 2 ^ 31 \<Longrightarrow> sample i n t = i"
proof -
  assume h: "unat i < unat t" "int (unat t) = n" "n < 2 ^ 31"
  have "nat n = unat t" using h(2) by linarith
  then have "unat (sample i n t) = unat i" using unat_sample(1) [of n i t] h by simp
  then show ?thesis by (simp only: word_unat_eq_iff)
qed

subsection \<open>Rows and pixels lie in the file\<close>

text \<open>The row of the file that line \<open>y\<close> of an image of \<open>th\<close> lines shows; a positive height counts from the
  bottom.\<close>

definition bmp_row :: "int \<Rightarrow> u32 \<Rightarrow> u32 \<Rightarrow> nat" where
  "bmp_row h th y = (let sy = unat y * nat \<bar>h\<bar> div unat th in if h > 0 then nat \<bar>h\<bar> - 1 - sy else sy)"

text \<open>The numbers of a header that cannot make the decoder's 32-bit arithmetic wrap around.\<close>

definition bmp_sound :: "u8 list \<Rightarrow> u32 \<Rightarrow> int \<Rightarrow> int \<Rightarrow> u16 \<Rightarrow> u32 \<Rightarrow> bool" where
  "bmp_sound file file_size w h bpp colors \<longleftrightarrow> length file = unat file_size \<and> unat file_size + 14 < 2 ^ 32 \<and>
     0 < w \<and> w < 2 ^ 31 \<and> h \<noteq> 0 \<and> \<bar>h\<bar> < 2 ^ 31 \<and> bpp \<in> {4, 8, 24, 32} \<and> unat bpp * nat w + 31 < 2 ^ 32 \<and>
     unat colors * 4 < 2 ^ 32"

lemma unat_bmp_row_stride:
  assumes "0 \<le> w" and "w < 2 ^ 31" and "unat bpp * nat w + 31 < 2 ^ 32"
  shows "unat (bmp_row_stride bpp w) = (unat bpp * nat w + 31) div 32 * 4"
    and "unat bpp * nat w \<le> 8 * unat (bmp_row_stride bpp w)"
proof -
  have w: "unat (word_of_int w :: u32) = nat w" using assms by (intro unat_word_of_int_small) simp_all
  have "unat (ucast bpp * word_of_int w + 31 :: u32) = unat bpp * nat w + 31"
    using assms(3) by (simp add: unat_word_ariths w)
  moreover have "(unat bpp * nat w + 31) div 32 * 4 < 2 ^ 32" using assms(3) by linarith
  ultimately show *: "unat (bmp_row_stride bpp w) = (unat bpp * nat w + 31) div 32 * 4"
    by (simp add: bmp_row_stride_def unat_word_ariths unat_div)
  show "unat bpp * nat w \<le> 8 * unat (bmp_row_stride bpp w)" unfolding * by linarith
qed

lemma row_in_file:
  assumes "h \<noteq> 0" and "\<bar>h\<bar> < 2 ^ 31"
    and fits: "unat data_off + unat stride * nat \<bar>h\<bar> \<le> n" and "n < 2 ^ 32" and y: "unat y < unat th"
  shows "src_row data_off h \<bar>h\<bar> stride th y = unat data_off + bmp_row h th y * unat stride"
    and "src_row data_off h \<bar>h\<bar> stride th y + unat stride \<le> n"
proof -
  let ?sy = "unat y * nat \<bar>h\<bar> div unat th" and ?r = "bmp_row h th y"
  note sy = unat_sample [OF abs_ge_zero assms(2) y]
  have lt: "?sy < nat \<bar>h\<bar>" using sy assms(1) by linarith
  have "nat \<bar>h\<bar> < 2 ^ 31" using assms(2) by simp
  then have "unat (sample y \<bar>h\<bar> th) < 2 ^ 31" unfolding sy(1) using lt by linarith
  then have si: "sint (sample y \<bar>h\<bar> th) = int ?sy" using sy(1) by (simp add: sint_small) (metis uint_nat)
  have r: "?r < nat \<bar>h\<bar>" unfolding bmp_row_def Let_def using lt by (cases "h > 0") simp_all
  have "(if h > 0 then \<bar>h\<bar> - 1 - sint (sample y \<bar>h\<bar> th) else sint (sample y \<bar>h\<bar> th)) = int ?r"
    unfolding si bmp_row_def Let_def using lt by (cases "h > 0") auto
  moreover have "unat (word_of_int (int ?r) * stride :: u32) = ?r * unat stride"
  proof -
    have "?r * unat stride \<le> nat \<bar>h\<bar> * unat stride" using r by simp
    then have "?r * unat stride < 2 ^ 32" using fits assms(4) unfolding mult.commute [of "unat stride"] by linarith
    moreover have "unat (word_of_int (int ?r) :: u32) = ?r" using r assms(2) by (subst unat_word_of_int_small) auto
    ultimately show ?thesis by (simp add: unat_word_ariths)
  qed
  ultimately show e: "src_row data_off h \<bar>h\<bar> stride th y = unat data_off + ?r * unat stride"
    by (simp only: src_row_def Let_def)
  have "(?r + 1) * unat stride \<le> nat \<bar>h\<bar> * unat stride" using r by (intro mult_right_mono) simp_all
  then show "src_row data_off h \<bar>h\<bar> stride th y + unat stride \<le> n" using fits e by (simp add: algebra_simps)
qed

lemma ld8_ok: "i < length bs \<Longrightarrow> ld8 bs i = Inr (bs ! i)"
  by (simp add: ld8_def)

lemma palette_color_total:
  assumes "0 < unat colors" and "palette + unat colors * 4 \<le> length file"
  shows "\<exists>c. palette_color file palette colors idx = Inr c"
proof -
  let ?i = "if ucast idx \<ge> colors then 0 else idx"
  have "unat ?i < unat colors" using assms(1) by (auto simp: word_le_nat_alt)
  then have "palette + unat ?i * 4 + 3 < length file" using assms(2) by linarith
  then show ?thesis by (simp add: palette_color_def load_bgra_def ld8_ok Let_def)
qed

lemma decode_px_total:
  assumes bpp: "bpp \<in> {4, 8, 24, 32}" and row: "src + stride \<le> length file" and st: "unat bpp * nat w \<le> 8 * stride"
    and sx: "unat sx < nat w" and sm: "stride < 2 ^ 32"
    and pal: "bpp \<in> {4, 8} \<Longrightarrow> 0 < unat colors \<and> palette + unat colors * 4 \<le> length file"
  shows "\<exists>c. decode_px file bpp palette colors src sx = Inr c"
proof -
  consider "bpp = 24" | "bpp = 32" | "bpp = 8" | "bpp = 4" using bpp by auto
  then show ?thesis
  proof cases
    case 1
    then have b: "unat sx * 3 + 2 < stride" using st sx by simp
    then have "unat (sx * 3) = unat sx * 3" using sm by (simp add: unat_word_ariths)
    moreover then have "unat (sx * 3 + 1) = unat sx * 3 + 1" "unat (sx * 3 + 2) = unat sx * 3 + 2" using b sm by (simp_all add: unat_word_ariths)
    ultimately show ?thesis using 1 b row by (simp add: decode_px_def ld8_ok)
  next
    case 2
    then have b: "unat sx * 4 + 3 < stride" using st sx by simp
    then have "unat (sx * 4) = unat sx * 4" using sm by (simp add: unat_word_ariths)
    moreover then have "unat (sx * 4 + 1) = unat sx * 4 + 1" "unat (sx * 4 + 2) = unat sx * 4 + 2" "unat (sx * 4 + 3) = unat sx * 4 + 3"
      using b sm by (simp_all add: unat_word_ariths)
    ultimately show ?thesis using 2 b row by (simp add: decode_px_def ld8_ok)
  next
    case 3
    then have "src + unat sx < length file" using st sx row by simp
    then show ?thesis using 3 palette_color_total pal by (simp add: decode_px_def ld8_ok)
  next
    case 4
    then have "src + unat (sx div 2) < length file" using st sx row by (simp add: unat_div)
    then show ?thesis using 4 palette_color_total pal by (simp add: decode_px_def ld8_ok)
  qed
qed

subsection \<open>Filling the block\<close>

lemma put_all:
  assumes "\<And>i. i \<in> set is \<Longrightarrow> g i = Inr (c i) \<and> k i < n" and "inj_on k (set is)" and "length pix = n"
  shows "\<exists>pix'. rfold (\<lambda>i pix. rbind (g i) (\<lambda>v. put_px (k i) v pix)) is pix = Inr pix' \<and> length pix' = n \<and>
    (\<forall>i\<in>set is. pix' ! k i = c i) \<and> (\<forall>j. j \<notin> k ` set is \<longrightarrow> pix' ! j = pix ! j)"
  using assms
proof (induction "is" arbitrary: pix)
  case (Cons i "is")
  let ?p = "pix[k i := c i]"
  have i: "g i = Inr (c i)" "k i < n" using Cons.prems(1) [of i] by simp_all
  have step: "rbind (g i) (\<lambda>v. put_px (k i) v pix) = Inr ?p" using i Cons.prems(3) by (simp add: put_px_def)
  have "\<exists>pix'. rfold (\<lambda>i pix. rbind (g i) (\<lambda>v. put_px (k i) v pix)) is ?p = Inr pix' \<and> length pix' = n \<and>
      (\<forall>i\<in>set is. pix' ! k i = c i) \<and> (\<forall>j. j \<notin> k ` set is \<longrightarrow> pix' ! j = ?p ! j)"
    using Cons.prems by (intro Cons.IH) (simp_all add: inj_on_def)
  then obtain pix' where r: "rfold (\<lambda>i pix. rbind (g i) (\<lambda>v. put_px (k i) v pix)) is ?p = Inr pix'" "length pix' = n"
    and v: "\<forall>i\<in>set is. pix' ! k i = c i" and o: "\<And>j. j \<notin> k ` set is \<Longrightarrow> pix' ! j = ?p ! j" by blast
  have "pix' ! k i = c i"
  proof (cases "k i \<in> k ` set is")
    case True
    then have "i \<in> set is" using Cons.prems(2) by (auto simp: inj_on_def)
    with v show ?thesis by blast
  next
    case False
    with o i Cons.prems(3) show ?thesis by simp
  qed
  with r step v o show ?case by auto
qed simp

lemma set_u32_upto: "set (u32_upto n) = {i. unat i < unat n}"
proof -
  have "\<exists>k<unat n. i = of_nat k" if "unat i < unat n" for i :: u32
    using that by (intro exI [of _ "unat i"]) simp
  moreover have "unat (of_nat k :: u32) < unat n" if "k < unat n" for k
    using that unat_bound [of n] by (simp add: unat_word_of_nat_u32)
  ultimately show ?thesis by (force simp: u32_upto_def image_iff)
qed

lemma cell_inj:
  fixes x x' y y' t :: nat
  assumes "y * t + x = y' * t + x'" and "x < t" and "x' < t" shows "y = y' \<and> x = x'"
proof -
  have "(y * t + x) div t = y" "(y' * t + x') div t = y'" using assms(2,3) by simp_all
  then have "y = y'" using assms(1) by simp
  with assms(1) show ?thesis by simp
qed

lemma cell_bound: "(y :: nat) < h \<Longrightarrow> x < t \<Longrightarrow> y * t + x < t * h"
proof -
  assume "y < h" "x < t"
  then have "y * t + x < (y + 1) * t" by simp
  also have "\<dots> \<le> h * t" using \<open>y < h\<close> by (intro mult_right_mono) simp_all
  finally show ?thesis by (simp add: mult.commute)
qed

lemma decode_rows_fills:
  assumes px: "\<And>x y. unat x < unat tw \<Longrightarrow> unat y < unat th \<Longrightarrow>
      \<exists>c. decode_px file bpp palette colors (src_row data_off h abs_h stride th y) (sample x w tw) = Inr c"
    and sm: "unat tw * unat th < 2 ^ 32" and len: "length pix = unat tw * unat th"
  shows "\<exists>pix'. decode_rows file bpp palette colors data_off w h abs_h stride tw th pix = Inr pix' \<and>
    length pix' = unat tw * unat th \<and>
    (\<forall>x y. unat x < unat tw \<longrightarrow> unat y < unat th \<longrightarrow>
      decode_px file bpp palette colors (src_row data_off h abs_h stride th y) (sample x w tw) = Inr (pix' ! (unat y * unat tw + unat x)))"
proof -
  define g where "g = (\<lambda>(y, x). decode_px file bpp palette colors (src_row data_off h abs_h stride th y) (sample x w tw))"
  define k :: "u32 \<times> u32 \<Rightarrow> nat" where "k = (\<lambda>(y, x). unat (y * tw) + unat x)"
  define ps where "ps = concat (map (\<lambda>y. map (Pair y) (u32_upto tw)) (u32_upto th))"
  have ps: "(y, x) \<in> set ps \<longleftrightarrow> unat x < unat tw \<and> unat y < unat th" for x y
    by (auto simp: ps_def set_u32_upto)
  have run: "decode_rows file bpp palette colors data_off w h abs_h stride tw th pix = rfold (\<lambda>i pix. rbind (g i) (\<lambda>v. put_px (k i) v pix)) ps pix"
    unfolding ps_def rfold_concat [symmetric] rfold_map by (simp add: decode_rows_def g_def k_def)
  have k: "k (y, x) = unat y * unat tw + unat x" if "(y, x) \<in> set ps" for y x
  proof -
    have "unat y * unat tw \<le> unat tw * unat th" using that by (simp add: ps mult.commute)
    then have "unat y * unat tw < 2 ^ 32" using sm by linarith
    then have "unat (y * tw) = unat y * unat tw" by (simp add: unat_word_ariths)
    then show ?thesis by (simp add: k_def)
  qed
  have inj: "inj_on k (set ps)"
  proof (rule inj_onI)
    fix a b assume ab: "a \<in> set ps" "b \<in> set ps" "k a = k b"
    obtain y x y' x' where [simp]: "a = (y, x)" "b = (y', x')" by (cases a, cases b)
    have "unat y * unat tw + unat x = unat y' * unat tw + unat x'" using ab k by simp
    then have "unat y = unat y' \<and> unat x = unat x'" by (rule cell_inj) (use ab ps in simp_all)
    then show "a = b" by (simp add: word_unat_eq_iff)
  qed
  have gk: "g i = Inr (projr (g i)) \<and> k i < unat tw * unat th" if "i \<in> set ps" for i
  proof -
    obtain y x where i: "i = (y, x)" by (cases i)
    have xy: "unat x < unat tw" "unat y < unat th" using that ps by (simp_all add: i)
    then obtain c where "g i = Inr c" using px by (auto simp: g_def i)
    moreover have "k i < unat tw * unat th" using cell_bound [OF xy(2,1)] k that by (simp add: i)
    ultimately show ?thesis by simp
  qed
  from put_all [OF gk inj len] obtain pix' where p: "rfold (\<lambda>i pix. rbind (g i) (\<lambda>v. put_px (k i) v pix)) ps pix = Inr pix'"
    "length pix' = unat tw * unat th" "\<forall>i\<in>set ps. pix' ! k i = projr (g i)" by blast
  have "decode_px file bpp palette colors (src_row data_off h abs_h stride th y) (sample x w tw) = Inr (pix' ! (unat y * unat tw + unat x))"
    if "unat x < unat tw" "unat y < unat th" for x y
  proof -
    have "(y, x) \<in> set ps" using that ps by simp
    then show ?thesis using p(3) gk [of "(y, x)"] k by (auto simp: g_def)
  qed
  then show ?thesis using p(1,2) run by auto
qed

subsection \<open>The decoder\<close>

lemma palette_start_result:
  assumes "bmp_sound file file_size w h bpp colors"
  shows "\<exists>r. bmp_palette_start file file_size data_off bpp colors = Inr r \<and> (\<forall>palette. r = Some palette \<longrightarrow>
    unat data_off < unat file_size \<and> (bpp \<in> {4, 8} \<longrightarrow> 0 < unat colors \<and> palette + unat colors * 4 \<le> length file))"
proof (cases "file_size = 0 \<or> data_off \<ge> file_size \<or> file_size < 18")
  case False
  then have sz: "18 \<le> length file" "unat data_off < unat file_size"
    using assms by (auto simp: bmp_sound_def word_less_nat_alt word_le_nat_alt not_less not_le)
  then obtain hs where hs: "ld32 file 14 = Inr hs" by (simp add: ld_le_def)
  have cb: "unat (colors * 4) = unat colors * 4" using assms by (simp add: bmp_sound_def unat_word_ariths)
  have sum: "unat (ucast a + ucast b :: u64) = unat a + unat b" for a b :: u32
    using unat_bound [of a] unat_bound [of b] by (simp add: unat_word_ariths)
  show ?thesis
    using assms sz hs False cb sum
    by (auto simp: bmp_palette_start_def Let_def bmp_sound_def word_less_nat_alt word_le_nat_alt unat_gt_0 not_less)
qed (auto simp: bmp_palette_start_def)

lemma fits_in_file:
  assumes "0 \<le> abs_h" and "abs_h < 2 ^ 31" and "\<not> (ucast data_off + ucast stride * word_of_int abs_h :: u64) > ucast file_size"
  shows "unat (data_off :: u32) + unat (stride :: u32) * nat abs_h \<le> unat (file_size :: u32)"
proof -
  have a: "unat (word_of_int abs_h :: u64) = nat abs_h" using assms by (intro unat_word_of_int_small) simp_all
  have "unat stride * nat abs_h \<le> 2 ^ 32 * 2 ^ 31" using unat_bound [of stride] assms by (intro mult_mono) simp_all
  then have "unat (ucast data_off + ucast stride * word_of_int abs_h :: u64) = unat data_off + unat stride * nat abs_h"
    using unat_bound [of data_off] by (simp add: unat_word_ariths a)
  with assms(3) show ?thesis by (simp add: word_less_nat_alt not_less)
qed

lemma bmp_sound_numbers:
  assumes "bmp_sound file file_size w h bpp colors"
  shows "length file = unat file_size" "0 < w" "w < 2 ^ 31" "h \<noteq> 0" "\<bar>h\<bar> < 2 ^ 31" "bpp \<in> {4, 8, 24, 32}"
    "unat bpp * nat w + 31 < 2 ^ 32" "(if h < 0 then i32 (- h) else Inr h) = Inr \<bar>h\<bar>"
    "unat (word_of_int w :: u32) = nat w" "unat (word_of_int \<bar>h\<bar> :: u32) = nat \<bar>h\<bar>"
  using assms by (auto simp: bmp_sound_def intro!: unat_word_of_int_small)

lemma bmp_target_size:
  assumes ok: "bmp_sound file file_size w h bpp colors"
    and t0: "shrink_to_fit fb (word_of_int w) (word_of_int \<bar>h\<bar>) = (tw0, th0)"
    and t: "alloc_attempt ext hhdm tw0 th0 st = (q, tw, th, st')"
  shows "size_within (word_of_int w) (word_of_int \<bar>h\<bar>) tw th \<and> unat tw * unat th \<le> unat (max_px fb)"
proof -
  note n = bmp_sound_numbers [OF ok]
  have b: "unat (word_of_int w :: u32) < 2 ^ 31" "unat (word_of_int \<bar>h\<bar> :: u32) < 2 ^ 31" using n by simp_all
  have "size_within (word_of_int w) (word_of_int \<bar>h\<bar>) (word_of_int w) (word_of_int \<bar>h\<bar>)"
    unfolding size_within_def n(9,10) using n(2,4) by linarith
  note s0 = shrink_to_fit_result [OF this b t0]
  note s1 = alloc_attempt_result [OF conjunct1 [OF s0] b t]
  have "unat tw * unat th \<le> unat tw0 * unat th0" using s1 by (intro mult_le_mono) simp_all
  then show ?thesis using s0 s1 by linarith
qed

text \<open>What an image of \<open>tw\<close> by \<open>th\<close> pixels of the file is: every pixel is the one the file has at the sampled
  column and row.\<close>

definition bmp_image :: "u8 list \<Rightarrow> nat \<Rightarrow> u32 \<Rightarrow> u32 \<Rightarrow> int \<Rightarrow> int \<Rightarrow> u16 \<Rightarrow> u32 list \<Rightarrow> u32 \<Rightarrow> u32 \<Rightarrow> bool" where
  "bmp_image file palette colors data_off w h bpp pix tw th \<longleftrightarrow> length pix = unat tw * unat th \<and>
    (\<forall>x y. unat x < unat tw \<longrightarrow> unat y < unat th \<longrightarrow>
      decode_px file bpp palette colors (unat data_off + bmp_row h th y * unat (bmp_row_stride bpp w)) (sample x w tw) =
        Inr (pix ! (unat y * unat tw + unat x)))"

lemma bmp_rows_decoded:
  assumes ok: "bmp_sound file file_size w h bpp colors"
    and pal: "bmp_palette_start file file_size data_off bpp colors = Inr (Some palette)"
    and c: "\<not> (ucast data_off + ucast (bmp_row_stride bpp w) * word_of_int \<bar>h\<bar> :: u64) > ucast file_size"
    and sm: "unat tw * unat th < 2 ^ 32" and len: "length pix0 = unat tw * unat th"
  shows "\<exists>pix. decode_rows file bpp palette colors data_off w h \<bar>h\<bar> (bmp_row_stride bpp w) tw th pix0 = Inr pix \<and>
    bmp_image file palette colors data_off w h bpp pix tw th"
proof -
  let ?stride = "bmp_row_stride bpp w"
  note n = bmp_sound_numbers [OF ok]
  have in_file: "bpp \<in> {4, 8} \<Longrightarrow> 0 < unat colors \<and> palette + unat colors * 4 \<le> length file"
    using palette_start_result [OF ok, of data_off] pal by auto
  have stride: "unat bpp * nat w \<le> 8 * unat ?stride" using unat_bmp_row_stride(2) [of w bpp] n by simp
  have fits: "unat data_off + unat ?stride * nat \<bar>h\<bar> \<le> length file" unfolding n(1) by (rule fits_in_file [OF _ n(5) c]) simp
  have lf: "length file < 2 ^ 32" unfolding n(1) using unat_bound [of file_size] by simp
  have rows: "src_row data_off h \<bar>h\<bar> ?stride th y =
      unat data_off + bmp_row h th y * unat ?stride"
    "src_row data_off h \<bar>h\<bar> ?stride th y + unat ?stride \<le> length file" if "unat y < unat th" for y
    by (rule row_in_file [OF n(4,5) fits lf that])+
  have px: "\<exists>c. decode_px file bpp palette colors (src_row data_off h \<bar>h\<bar> ?stride th y) (sample x w tw) = Inr c"
    if "unat x < unat tw" "unat y < unat th" for x y
  proof (rule decode_px_total [OF n(6) rows(2) [OF that(2)] stride _ _ in_file])
    show "unat (sample x w tw) < nat w" using unat_sample(2) [of w x tw] n(2,3) that(1) by simp
    show "unat ?stride < 2 ^ 32" using unat_bound [of ?stride] by simp
  qed
  from decode_rows_fills [OF px sm len] obtain pix where
    "decode_rows file bpp palette colors data_off w h \<bar>h\<bar> ?stride tw th pix0 = Inr pix" "length pix = unat tw * unat th"
    and "\<forall>x y. unat x < unat tw \<longrightarrow> unat y < unat th \<longrightarrow>
      decode_px file bpp palette colors (src_row data_off h \<bar>h\<bar> ?stride th y) (sample x w tw) = Inr (pix ! (unat y * unat tw + unat x))"
    by blast
  then show ?thesis by (intro exI [of _ pix]) (simp add: rows(1) bmp_image_def)
qed

text \<open>C39: On every file whose header numbers stay below the 32-bit limits the bitmap decoder returns: it never
  reads outside the file or writes outside its block, whatever the allocators answer, and either refuses the file or
  delivers an image that is not empty, not larger than the bitmap, has at most as many pixels as the screen, and whose
  every pixel is the one the file has at the sampled column and row (rows counted from the bottom for a positive
  height).\<close>

theorem bmp_decode_samples:
  assumes ok: "bmp_sound file file_size w h bpp colors" and scr: "unat (max_px fb) < 2 ^ 32"
  shows "\<exists>r st'. bmp_decode fb ext hhdm file file_size data_off w h bpp colors st = Inr (r, st') \<and>
    (\<forall>pix tw th. r = Some (pix, tw, th) \<longrightarrow> (\<exists>palette.
       bmp_palette_start file file_size data_off bpp colors = Inr (Some palette) \<and>
       size_within (word_of_int w) (word_of_int \<bar>h\<bar>) tw th \<and> unat tw * unat th \<le> unat (max_px fb) \<and>
       bmp_image file palette colors data_off w h bpp pix tw th))"
proof -
  let ?stride = "bmp_row_stride bpp w"
  note n = bmp_sound_numbers [OF ok]
  obtain pal where pal: "bmp_palette_start file file_size data_off bpp colors = Inr pal" using palette_start_result [OF ok] by blast
  show ?thesis
  proof (cases "pal = None \<or> (ucast data_off + ucast ?stride * word_of_int \<bar>h\<bar> :: u64) > ucast file_size")
    case True
    then have "bmp_decode fb ext hhdm file file_size data_off w h bpp colors st = Inr (None, st)"
      unfolding bmp_decode_def pal n(8) by (cases pal) (simp_all add: Let_def)
    then show ?thesis by blast
  next
    case False
    then obtain palette where p: "pal = Some palette"
      and c: "\<not> (ucast data_off + ucast ?stride * word_of_int \<bar>h\<bar> :: u64) > ucast file_size" by auto
    obtain tw0 th0 where t0: "shrink_to_fit fb (word_of_int w) (word_of_int \<bar>h\<bar>) = (tw0, th0)" by (rule prod.exhaust)
    obtain q tw th st' where t: "alloc_attempt ext hhdm tw0 th0 st = (q, tw, th, st')" by (rule prod_cases4)
    note sz = bmp_target_size [OF ok t0 t]
    have sm: "unat tw * unat th < 2 ^ 32" using sz scr by linarith
    have blk: "unat (ucast tw * ucast th * 4 :: u64) div 4 = unat tw * unat th"
    proof -
      have big: "x < 2 ^ 32 \<Longrightarrow> x * 4 < 2 ^ 64" for x :: nat by simp
      have "unat tw * unat th * 4 < 2 ^ 64" by (rule big [OF sm])
      then have "unat tw * unat th * 4 mod 2 ^ 64 = unat tw * unat th * 4" by (rule mod_less)
      then show ?thesis by (simp add: unat_word_ariths unat_ucast_up)
    qed
    from bmp_rows_decoded [OF ok pal [unfolded p] c sm length_replicate] obtain pix where
      d: "decode_rows file bpp palette colors data_off w h \<bar>h\<bar> ?stride tw th (replicate (unat tw * unat th) 0) = Inr pix"
      and px: "bmp_image file palette colors data_off w h bpp pix tw th" by blast
    have e: "bmp_decode fb ext hhdm file file_size data_off w h bpp colors st =
        Inr (if q = 0 then None else Some (pix, tw, th), st')"
      unfolding bmp_decode_def pal p n(8) using c by (simp add: Let_def t0 t d blk)
    show ?thesis using e pal p sz px by (cases "q = 0") auto
  qed
qed

subsection \<open>The search for a size ends\<close>

lemma halve_power:
  "unat t \<le> 2 ^ n \<Longrightarrow> n < 32 \<Longrightarrow> unat ((halve ^^ n) t) \<le> 1"
proof (induction n arbitrary: t)
  case (Suc n)
  have "unat (halve t) \<le> 2 ^ n"
  proof (cases "t > 1")
    case True
    have "unat (t + 1) \<le> unat t + 1" by (simp add: unat_word_ariths)
    also have "\<dots> \<le> 2 * 2 ^ n + 1" using Suc.prems(1) by simp
    finally have "unat (t + 1) div 2 \<le> (2 * 2 ^ n + 1) div 2" by (rule div_le_mono)
    then show ?thesis using True by (simp add: halve_def unat_div)
  qed (simp add: halve_def)
  then have "unat ((halve ^^ n) (halve t)) \<le> 1" using Suc.prems(2) by (intro Suc.IH) simp_all
  then show ?case by (simp add: funpow_swap1)
qed simp

lemma shrink_to_fit_after:
  assumes "\<not> ucast ((halve ^^ n) w) * ucast ((halve ^^ n) h) > max_px fb"
  shows "\<exists>k\<le>n. shrink_to_fit fb w h = ((halve ^^ k) w, (halve ^^ k) h) \<and> \<not> ucast ((halve ^^ k) w) * ucast ((halve ^^ k) h) > max_px fb \<and>
    (\<forall>j<k. ucast ((halve ^^ j) w) * ucast ((halve ^^ j) h) > max_px fb)"
  using assms
proof (induction n arbitrary: w h)
  case 0
  then show ?case by (intro exI [of _ 0]) (simp add: shrink_to_fit.simps)
next
  case (Suc n)
  show ?case
  proof (cases "ucast w * ucast h > max_px fb")
    case True
    from Suc.IH [of "halve w" "halve h"] Suc.prems obtain k where k: "k \<le> n"
      "shrink_to_fit fb (halve w) (halve h) = ((halve ^^ Suc k) w, (halve ^^ Suc k) h)"
      "\<not> ucast ((halve ^^ Suc k) w) * ucast ((halve ^^ Suc k) h) > max_px fb"
      "\<forall>j<k. ucast ((halve ^^ Suc j) w) * ucast ((halve ^^ Suc j) h) > max_px fb"
      unfolding funpow_Suc_right comp_def by blast
    have "ucast ((halve ^^ j) w) * ucast ((halve ^^ j) h) > max_px fb" if "j < Suc k" for j
      using k(4) True that by (cases j) auto
    moreover have "shrink_to_fit fb w h = ((halve ^^ Suc k) w, (halve ^^ Suc k) h)"
      using True k(2) by (subst shrink_to_fit.simps) simp
    ultimately show ?thesis using k(1,3) by (intro exI [of _ "Suc k"]) blast
  next
    case False
    then show ?thesis by (intro exI [of _ 0]) (simp add: shrink_to_fit.simps)
  qed
qed

text \<open>C40: The loop that makes a wallpaper fit ends, for every screen and every image below \<open>2\<^sup>3\<^sup>1\<close> pixels a side: after at most
  31 rounds of halving both sides, at the first size that has no more pixels than the screen.\<close>

theorem shrink_to_fit_ends:
  assumes "unat w < 2 ^ 31" and "unat h < 2 ^ 31"
  shows "\<exists>k\<le>31. shrink_to_fit fb w h = ((halve ^^ k) w, (halve ^^ k) h) \<and>
    \<not> ucast ((halve ^^ k) w) * ucast ((halve ^^ k) h) > max_px fb \<and>
    (\<forall>j<k. ucast ((halve ^^ j) w) * ucast ((halve ^^ j) h) > max_px fb)"
proof (rule shrink_to_fit_after)
  have "unat ((halve ^^ 31) w) \<le> 1" "unat ((halve ^^ 31) h) \<le> 1" using halve_power [of w 31] halve_power [of h 31] assms by simp_all
  then have "unat ((halve ^^ 31) w) * unat ((halve ^^ 31) h) \<le> 1 * 1" by (rule mult_mono) simp_all
  then show "\<not> ucast ((halve ^^ 31) w) * ucast ((halve ^^ 31) h) > max_px fb"
    using max_px_pos [of fb] by (simp add: word_less_nat_alt unat_mult_u32_u64 not_less)
qed

theorem shrink_to_fit_ends_witness:
  "\<exists>k\<le>31. shrink_to_fit demo_fb 100 3 = ((halve ^^ k) 100, (halve ^^ k) 3) \<and> 0 < k"
proof -
  have "max_px demo_fb = 8" by (simp add: max_px_def demo_fb_def)
  moreover obtain k where "k \<le> 31" "shrink_to_fit demo_fb 100 3 = ((halve ^^ k) 100, (halve ^^ k) 3)"
    "\<not> ucast ((halve ^^ k) 100 :: u32) * ucast ((halve ^^ k) 3 :: u32) > max_px demo_fb"
    using shrink_to_fit_ends [of 100 3 demo_fb] by auto
  ultimately show ?thesis by (intro exI [of _ k]) (cases k, simp_all)
qed

text \<open>A bitmap of 1 by 2 pixels, and a heap for the example.\<close>

definition demo_bmp :: "u8 list" where
  "demo_bmp = [0x42, 0x4D, 62, 0, 0, 0, 0, 0, 0, 0, 54, 0, 0, 0, 40, 0, 0, 0, 1, 0, 0, 0, 2, 0, 0, 0, 1, 0, 24, 0,
     0, 0, 0, 0, 0, 0, 0, 0, 0, 0, 0, 0, 0, 0, 0, 0, 0, 0, 0, 0, 0, 0, 0, 0, 1, 2, 3, 0, 4, 5, 6, 0]"

definition demo_heap :: "kheap \<times> unit" where
  "demo_heap = (\<lparr>kheap_begin = 0x10000, kheap_end = 0x20000, kheap_brk = 0x10000\<rparr>, ())"

definition no_ext :: "unit ext_alloc" where
  "no_ext e sz = (0, e)"

lemma demo_bmp_header:
  "load_bmp_header demo_bmp 62 = Inr (Some \<lparr>bi_size = 62, bi_data_off = 54, bi_w = 1, bi_h = 2, bi_bpp = 24, bi_palette = 0\<rparr>)"
  by code_simp

lemma demo_bmp_decodes:
  "map_sum id (map_option fst \<circ> fst) (bmp_decode demo_fb no_ext 0 demo_bmp 62 54 1 2 24 0 demo_heap) =
     Inr (Some [0xFF060504, 0xFF030201])"
  by code_simp

theorem bmp_decode_samples_witness:
  "\<exists>pix tw th st'. bmp_decode demo_fb no_ext 0 demo_bmp 62 54 1 2 24 0 demo_heap = Inr (Some (pix, tw, th), st') \<and>
     unat tw * unat th \<le> 8 \<and> length pix = unat tw * unat th"
proof -
  have "bmp_sound demo_bmp 62 1 2 24 0" by (simp add: bmp_sound_def demo_bmp_def)
  moreover have m: "max_px demo_fb = 8" by (simp add: max_px_def demo_fb_def)
  ultimately obtain r st' where r: "bmp_decode demo_fb no_ext 0 demo_bmp 62 54 1 2 24 0 demo_heap = Inr (r, st')"
    and i: "\<forall>pix tw th. r = Some (pix, tw, th) \<longrightarrow> unat tw * unat th \<le> unat (max_px demo_fb) \<and> length pix = unat tw * unat th"
    using bmp_decode_samples [of demo_bmp 62 1 2 24 0 demo_fb no_ext 0 54 demo_heap] unfolding bmp_image_def by fastforce
  from r demo_bmp_decodes obtain img where "r = Some img" by (cases r) auto
  moreover obtain pix tw th where "img = (pix, tw, th)" by (rule prod_cases3)
  ultimately have "r = Some (pix, tw, th)" by simp
  with r i show ?thesis unfolding m by (intro exI [of _ pix] exI [of _ tw] exI [of _ th] exI [of _ st']) simp
qed

text \<open>Beyond these limits the checks are not enough. A bitmap that claims to be \<open>2\<^sup>2\<^sup>7\<close> pixels wide has a row size of 0
  modulo \<open>2\<^sup>3\<^sup>2\<close>, passes the check of the file size, and the first sampled column after the left border is read far behind
  the file.\<close>

lemma bmp_width_wraps:
  "bmp_decode demo_fb no_ext 0 demo_bmp 62 54 (2 ^ 27) 1 32 0 demo_heap = Inl BadRead"
proof -
  have p: "bmp_palette_start demo_bmp 62 54 32 0 = Inr (Some 0)" by code_simp
  have s: "bmp_row_stride 32 (2 ^ 27) = 0" by (simp add: bmp_row_stride_def)
  have t: "shrink_to_fit demo_fb 0x8000000 1 = (8, 1)" by code_simp
  have a: "fst (alloc_attempt no_ext 0 8 1 demo_heap) \<noteq> 0" "fst (snd (alloc_attempt no_ext 0 8 1 demo_heap)) = 8"
    "fst (snd (snd (alloc_attempt no_ext 0 8 1 demo_heap))) = 1" by code_simp+
  have u: "u32_upto 8 = 0 # 1 # [2, 3, 4, 5, 6, 7]" "u32_upto 1 = [0]" by code_simp+
  have x: "sample 1 (2 ^ 27) 8 = 0x1000000" "sample 0 (2 ^ 27) 8 = 0" by (simp_all add: sample_def)
  have d: "decode_px demo_bmp 32 0 0 54 0x1000000 = Inl BadRead" "\<exists>c. decode_px demo_bmp 32 0 0 54 0 = Inr c"
    by (simp_all add: decode_px_def demo_bmp_def ld8_def)
  have r: "decode_rows demo_bmp 32 0 0 54 (2 ^ 27) 1 1 0 8 1 (replicate 8 0) = Inl BadRead"
    using d(2) by (auto simp: decode_rows_def u src_row_def Let_def x [simplified] d(1) put_px_def)
  show ?thesis using p s t a r by (auto simp: bmp_decode_def Let_def split: prod.split)
qed

text \<open>A palette of \<open>2\<^sup>3\<^sup>0\<close> colours has a size of 0 modulo \<open>2\<^sup>3\<^sup>2\<close>: every index passes for one of its colours, and the
  colour of pixel value 255 is read behind the file.\<close>

lemma bmp_palette_wraps:
  "bmp_decode demo_fb no_ext 0 (take 54 demo_bmp @ replicate 8 0xFF) 62 54 1 1 8 (2 ^ 30) demo_heap = Inl BadRead"
  by code_simp

end
