(* ===== verification/Drawing.thy ===== *)
theory Drawing
  imports Ui Font_Text
begin

text \<open>
  Pictures as sequences of drawing operations. The windows and the desktop paint by calling the
  operations of \<open>fb.c\<close> and \<open>ui.c\<close> one after the other; here is what such a sequence keeps: it
  never faults on a mapped frame and changes nothing but the buffer it draws to.
\<close>

named_theorems draws_intros "operations that stay inside the buffer they draw to"

definition run_ops :: "(mem \<Rightarrow> mem res) list \<Rightarrow> mem \<Rightarrow> mem res" where
  "run_ops = rfold (\<lambda>f. f)"

definition draws :: "fb_t \<Rightarrow> (mem \<Rightarrow> mem res) \<Rightarrow> bool" where
  "draws fb f \<longleftrightarrow> (\<forall>m. fb_ok fb (draw_base fb) m \<longrightarrow> (\<exists>m'. f m = Inr m' \<and> same_outside fb (draw_base fb) m m'))"

lemma drawsI:
  "(\<And>m. fb_ok fb (draw_base fb) m \<Longrightarrow> \<exists>m'. f m = Inr m' \<and> same_outside fb (draw_base fb) m m') \<Longrightarrow> draws fb f"
  by (simp add: draws_def)

lemma drawsD:
  assumes "draws fb f" and "fb_ok fb (draw_base fb) m"
  obtains m' where "f m = Inr m'" "same_outside fb (draw_base fb) m m'" "fb_ok fb (draw_base fb) m'"
  using assms fb_ok_same unfolding draws_def by blast

lemma draws_skip [draws_intros]: "draws fb Inr" "draws fb (\<lambda>m. Inr m)"
  by (simp_all add: draws_def)

lemma draws_seq:
  assumes "draws fb f" and "draws fb g" shows "draws fb (\<lambda>m. rbind (f m) g)"
proof (rule drawsI)
  fix m assume ok: "fb_ok fb (draw_base fb) m"
  from drawsD [OF assms(1) ok] obtain m1 where m1: "f m = Inr m1" "same_outside fb (draw_base fb) m m1" "fb_ok fb (draw_base fb) m1" .
  from drawsD [OF assms(2) m1(3)] obtain m2 where "g m1 = Inr m2" "same_outside fb (draw_base fb) m1 m2" .
  with m1 show "\<exists>m'. rbind (f m) g = Inr m' \<and> same_outside fb (draw_base fb) m m'" using same_outside_trans by auto
qed

lemma draws_rfold: "(\<And>i. i \<in> set is \<Longrightarrow> draws fb (f i)) \<Longrightarrow> draws fb (rfold f is)"
proof (induction "is")
  case (Cons i "is")
  then have "draws fb (\<lambda>m. rbind (f i m) (rfold f is))" by (intro draws_seq) simp_all
  moreover have "rfold f (i # is) = (\<lambda>m. rbind (f i m) (rfold f is))" by (intro ext) simp
  ultimately show ?case by simp
qed (simp add: draws_def)

lemma draws_ops: "(\<And>f. f \<in> set ops \<Longrightarrow> draws fb f) \<Longrightarrow> draws fb (run_ops ops)"
  unfolding run_ops_def by (rule draws_rfold) simp

lemma draws_ops_Nil [draws_intros]: "draws fb (run_ops [])"
  by (rule draws_ops) simp

lemma draws_ops_Cons [draws_intros]: "draws fb f \<Longrightarrow> draws fb (run_ops ops) \<Longrightarrow> draws fb (run_ops (f # ops))"
proof -
  assume "draws fb f" "draws fb (run_ops ops)"
  then have "draws fb (\<lambda>m. rbind (f m) (run_ops ops))" by (rule draws_seq)
  moreover have "run_ops (f # ops) = (\<lambda>m. rbind (f m) (run_ops ops))" by (intro ext) (simp add: run_ops_def)
  ultimately show ?thesis by simp
qed

lemma draws_ops_append [draws_intros]: "draws fb (run_ops xs) \<Longrightarrow> draws fb (run_ops ys) \<Longrightarrow> draws fb (run_ops (xs @ ys))"
proof -
  assume "draws fb (run_ops xs)" "draws fb (run_ops ys)"
  then have "draws fb (\<lambda>m. rbind (run_ops xs m) (run_ops ys))" by (rule draws_seq)
  moreover have "run_ops (xs @ ys) = (\<lambda>m. rbind (run_ops xs m) (run_ops ys))" by (intro ext) (simp add: run_ops_def rfold_append)
  ultimately show ?thesis by simp
qed

lemma draws_ops_map: "(\<And>i. i \<in> set is \<Longrightarrow> draws fb (f i)) \<Longrightarrow> draws fb (run_ops (map f is))"
  by (rule draws_ops) auto

lemma draws_if [draws_intros]: "(P \<Longrightarrow> draws fb f) \<Longrightarrow> (\<not> P \<Longrightarrow> draws fb g) \<Longrightarrow> draws fb (if P then f else g)"
  by simp

lemma draws_confined: "confined fb (draw_base fb) A f \<Longrightarrow> draws fb f"
  unfolding confined_def draws_def by blast

lemma draws_rect [draws_intros]: "int_range x w \<Longrightarrow> int_range y h \<Longrightarrow> draws fb (draw_rect fb x y w h c)"
  using draw_rect_painted by (intro drawsI) (fastforce simp: raw.painted_def)

lemma draws_text [draws_intros]:
  "font_ok blob ft \<Longrightarrow> span_ok px (g_w ft * int (length s)) \<Longrightarrow> span_ok py (g_h ft) \<Longrightarrow> draws fb (draw_text fb blob ft px py s fg bg)"
  unfolding draw_text_def by (rule draws_confined [OF cur.confined_text])

lemma draws_hgrad [draws_intros]:
  assumes "small x w" and "small y h" shows "draws fb (ui_draw_hgrad_rect fb x y w h c0 c1)"
proof -
  consider "w \<le> 0 \<or> h \<le> 0" | "0 < w" "h = 1" | "0 < w" "1 < h" by linarith
  then show ?thesis
  proof cases
    case 1
    then show ?thesis by (auto simp: ui_draw_hgrad_rect_def intro!: drawsI)
  next
    case 2
    then have "ui_draw_hgrad_rect fb x y w h c0 c1 = draw_rect fb x y w 1 c0" by (intro ext) (simp add: ui_draw_hgrad_rect_def)
    then show ?thesis using assms 2 by (auto simp: small_def int_range_def intro!: draws_rect)
  next
    case 3
    then show ?thesis using ui_hgrad_paints_rows [OF _ assms] by (intro drawsI) meson
  qed
qed

lemma draws_round [draws_intros]:
  assumes "small x w" and "small y h" and "radius < 2 ^ 15" shows "draws fb (ui_fill_round_rect fb x y w h radius c)"
proof (cases "0 < w \<and> 0 < h")
  case True
  from clamp_radius_bounds [of w h radius] True assms obtain r where
    r: "clamp_radius radius w h = Inr r" "0 \<le> r" "2 * r \<le> w" "2 * r \<le> h" "r < 2 ^ 15" by (auto simp: small_def)
  show ?thesis using round_painted [OF _ assms(1,2) _ _ r] True by (intro drawsI) (fastforce simp: raw.painted_def)
next
  case False
  then show ?thesis by (auto simp: ui_fill_round_rect_def intro!: drawsI)
qed

lemma draws_put: "draws fb (put_pixel_raw fb (draw_base fb) x y c)"
  by (rule drawsI) (use raw.put_painted [of fb "draw_base fb"] in \<open>fastforce simp: raw.painted_def\<close>)

subsection \<open>Two buffers\<close>

text \<open>Both buffers are mapped and apart from each other.\<close>

definition buffers_ok :: "fb_t \<Rightarrow> mem \<Rightarrow> bool" where
  "buffers_ok fb m \<longleftrightarrow> fb_ok fb (fb_front fb) m \<and> fb_ok fb (fb_back fb) m \<and> rng (fb_front fb) (frame_bytes fb) \<inter> rng (fb_back fb) (frame_bytes fb) = {} \<and>
     unat (fb_front fb) + frame_bytes fb < 2 ^ 64 \<and> unat (fb_back fb) + frame_bytes fb < 2 ^ 64 \<and> fb_front fb \<noteq> fb_back fb"

lemma buffers_dom: "dom m' = dom m \<Longrightarrow> buffers_ok fb m' = buffers_ok fb m"
  by (simp add: buffers_ok_def fb_ok_def mapped_def)

lemma buffers_base: "buffers_ok fb m \<Longrightarrow> draw_base fb = fb_back fb" "buffers_ok fb m \<Longrightarrow> fb_ok fb (draw_base fb) m"
  by (simp_all add: buffers_ok_def fb_ok_def draw_base_def)

lemma drawn: "draws fb f \<Longrightarrow> buffers_ok fb m \<Longrightarrow> \<exists>m'. f m = Inr m' \<and> dom m' = dom m"
  using buffers_base(2) [of fb m] unfolding draws_def same_outside_def by blast

lemma view_cong:
  assumes "fb_ok fb buf m" and "\<And>a. a \<in> rng buf (frame_bytes fb) \<Longrightarrow> m' a = m a"
  shows "view fb buf m' p = view fb buf m p"
proof (cases p)
  case (Pair x y)
  show ?thesis
  proof (cases "onscreen fb x y")
    case True
    note r = pix_rng [OF assms(1) True]
    have "bytes_at m' (pix_addr fb buf x y) (nb fb) = bytes_at m (pix_addr fb buf x y) (nb fb)"
      using r assms(2) by (intro bytes_at_cong) (auto simp: mapped_def)
    then show ?thesis using Pair True by (simp add: view_def)
  qed (simp add: Pair view_def)
qed

end
