(* ===== verification/Desktop.thy ===== *)
theory Desktop
  imports Bmp Drawing Fat_Api
begin

text \<open>
  The desktop of \<open>desktop.c\<close>: the icons and their layout, selection and double clicks, the
  wallpaper and the cached backdrop.

  The pixels of the wallpaper are a list of their own; \<open>wallpaper\<close> is \<open>None\<close> while \<open>wallpaper_loaded\<close> is
  0. \<open>g_items\<close> is the filled part of the array, its length is \<open>g_item_count\<close>. \<open>config_get_value\<close> belongs to
  the boot loader: its answer, converted by \<open>atoi\<close>, is an argument.
\<close>

record desktop_item =
  d_name :: "u8 list"
  d_attr :: u8
  d_size :: u32

record rect_t =
  r_x :: int
  r_y :: int
  r_w :: int
  r_h :: int

record desktop =
  g_items :: "desktop_item list"
  g_selection :: int
  g_rects :: "rect_t list"
  g_layout_valid :: bool
  desktop_bg_cache :: u64
  desktop_bg_cache_bytes :: u64
  desktop_bg_dirty :: bool
  desktop_frame_ticks :: u64
  last_click_tick :: u64
  last_click_index :: int
  wallpaper :: "(u32 list \<times> u32 \<times> u32) option"

abbreviation DESKTOP_MAX_ITEMS :: nat where "DESKTOP_MAX_ITEMS \<equiv> 128"

subsection \<open>Icons\<close>

fun layout_loop :: "int \<Rightarrow> int \<Rightarrow> int \<Rightarrow> nat \<Rightarrow> rect_t list" where
  "layout_loop max_w x y 0 = []"
| "layout_loop max_w x y (Suc n) =
     \<lparr>r_x = x, r_y = y, r_w = 44, r_h = 44 + 16\<rparr> #
     (if x + 104 + 104 > max_w then layout_loop max_w 28 (y + 86) n else layout_loop max_w (x + 104) y n)"

definition layout_max_w :: "fb_t \<Rightarrow> int" where
  "layout_max_w fb = (if fb_width fb > 28 then sint (fb_width fb) - 28 else 0)"

definition desktop_layout_icons :: "fb_t \<Rightarrow> desktop \<Rightarrow> desktop" where
  "desktop_layout_icons fb s = s\<lparr>g_rects := layout_loop (layout_max_w fb) 28 56 (length (g_items s)), g_layout_valid := True\<rparr>"

definition ensure_layout :: "fb_t \<Rightarrow> desktop \<Rightarrow> desktop" where
  "ensure_layout fb s = (if \<not> g_layout_valid s then desktop_layout_icons fb s else s)"

definition desktop_init :: "desktop \<Rightarrow> desktop" where
  "desktop_init s = s\<lparr>g_items := [], g_selection := -1, desktop_bg_dirty := True, g_layout_valid := False\<rparr>"

definition desktop_config_frame_rate :: "int option \<Rightarrow> desktop \<Rightarrow> desktop" where
  "desktop_config_frame_rate fps_s s = (case fps_s of None \<Rightarrow> s | Some fps \<Rightarrow>
     if fps \<le> 0 then s else
     let t = (100 :: u64) div word_of_int fps; ticks = (if t = 0 then 1 else t)
     in s\<lparr>desktop_frame_ticks := (if ticks < desktop_frame_ticks s then ticks else 1)\<rparr>)"

definition desktop_frame_ticks_value :: "desktop \<Rightarrow> u64" where
  "desktop_frame_ticks_value s = (if desktop_frame_ticks s \<noteq> 0 then desktop_frame_ticks s else 1)"

text \<open>\<open>items\<close> is the array the caller passes, of which the first \<open>count\<close> elements are taken.\<close>

definition desktop_set_items :: "desktop_item list \<Rightarrow> int \<Rightarrow> desktop \<Rightarrow> desktop res" where
  "desktop_set_items items count s =
     (let done = s\<lparr>g_selection := -1, desktop_bg_dirty := True, g_layout_valid := False\<rparr> in
      if count \<le> 0 then Inr (done\<lparr>g_items := []\<rparr>) else
      let n = (if count > int DESKTOP_MAX_ITEMS then DESKTOP_MAX_ITEMS else nat count)
      in if n \<le> length items then Inr (done\<lparr>g_items := take n items\<rparr>) else Inl BadRead)"

definition desktop_item_count :: "desktop \<Rightarrow> int" where
  "desktop_item_count s = int (length (g_items s))"

definition desktop_get_item :: "int \<Rightarrow> desktop \<Rightarrow> desktop_item option" where
  "desktop_get_item idx s = (if idx < 0 \<or> idx \<ge> int (length (g_items s)) then None else Some (g_items s ! nat idx))"

definition in_rect :: "int \<Rightarrow> int \<Rightarrow> rect_t \<Rightarrow> bool" where
  "in_rect mx my r \<longleftrightarrow> mx \<ge> r_x r \<and> mx < r_x r + r_w r \<and> my \<ge> r_y r \<and> my < r_y r + r_h r"

definition desktop_hit_test :: "fb_t \<Rightarrow> int \<Rightarrow> int \<Rightarrow> desktop \<Rightarrow> int \<times> desktop" where
  "desktop_hit_test fb mx my s0 =
     (let s = ensure_layout fb s0
      in (case find (\<lambda>i. in_rect mx my (g_rects s ! i)) [0..<length (g_items s)] of None \<Rightarrow> -1 | Some i \<Rightarrow> int i, s))"

definition desktop_is_double_click :: "u64 \<Rightarrow> int \<Rightarrow> desktop \<Rightarrow> bool \<times> desktop" where
  "desktop_is_double_click jiffies idx s =
     (idx = last_click_index s \<and> jiffies - last_click_tick s \<le> 50,
      s\<lparr>last_click_tick := jiffies, last_click_index := idx\<rparr>)"

definition desktop_set_selection :: "int \<Rightarrow> desktop \<Rightarrow> desktop" where
  "desktop_set_selection idx s =
     s\<lparr>g_selection := (if idx < 0 \<or> idx \<ge> int (length (g_items s)) then -1 else idx), desktop_bg_dirty := True\<rparr>"

definition desktop_get_selection :: "desktop \<Rightarrow> int" where "desktop_get_selection s = g_selection s"
definition desktop_mark_dirty :: "desktop \<Rightarrow> desktop" where "desktop_mark_dirty s = s\<lparr>desktop_bg_dirty := True\<rparr>"
definition desktop_dirty :: "desktop \<Rightarrow> bool" where "desktop_dirty s = desktop_bg_dirty s"

subsection \<open>The wallpaper\<close>

definition load_bmp_into_bg ::
  "fb_t \<Rightarrow> 'e ext_alloc \<Rightarrow> u64 \<Rightarrow> u8 list \<Rightarrow> u32 \<Rightarrow> bmp_info \<Rightarrow> desktop \<times> kheap \<times> 'e \<Rightarrow> (int \<times> desktop \<times> kheap \<times> 'e) res" where
  "load_bmp_into_bg fb ext hhdm file file_size bi st =
     (case st of (s, mm) \<Rightarrow>
      rbind (bmp_decode fb ext hhdm file file_size (bi_data_off bi) (bi_w bi) (bi_h bi) (bi_bpp bi) (bi_palette bi) mm) (\<lambda>(r, mm').
        case r of None \<Rightarrow> Inr (-1, s, mm') | Some img \<Rightarrow> Inr (0, desktop_mark_dirty (s\<lparr>wallpaper := Some img\<rparr>), mm')))"

text \<open>Both loaders read the header, check it, read the whole file into a buffer of the announced size and decode it.
  They differ in the file system call, \<open>read\<close> here: it gives the return value, the bytes stored, the byte count
  reported and the volume, whose cached exFAT fields it may fill in.\<close>

definition load_wallpaper_with ::
  "(fat32_vol \<Rightarrow> u32 \<Rightarrow> (int \<times> u8 list \<times> u32 option \<times> fat32_vol) res) \<Rightarrow> fb_t \<Rightarrow> 'e ext_alloc \<Rightarrow> u64 \<Rightarrow>
   fat32_vol \<times> desktop \<times> kheap \<times> 'e \<Rightarrow> (int \<times> fat32_vol \<times> desktop \<times> kheap \<times> 'e) res" where
  "load_wallpaper_with read fb ext hhdm st =
     (case st of (vol, s, mm) \<Rightarrow>
      rbind (read vol 512) (\<lambda>(c, hdr, n, vol1).
      if c \<noteq> 0 then Inr (-1, vol1, s, mm) else
      rbind (load_bmp_header hdr (case n of None \<Rightarrow> 0 | Some n \<Rightarrow> n)) (\<lambda>h. case h of
        None \<Rightarrow> Inr (-1, vol1, s, mm)
      | Some bi \<Rightarrow>
          let size = bi_size bi in
          if size = 0 \<or> size > 16 * 1024 * 1024 then Inr (-1, vol1, s, mm) else
          case wp_alloc ext hhdm (ucast size) mm of (p, mm1) \<Rightarrow>
          if p = 0 then Inr (-1, vol1, s, mm1) else
          rbind (read vol1 size) (\<lambda>(c2, out, full, vol2).
          if c2 \<noteq> 0 \<or> (case full of None \<Rightarrow> 0 | Some f \<Rightarrow> f) < size then Inr (-1, vol2, s, mm1)
          else rbind (load_bmp_into_bg fb ext hhdm (take (unat size) out) size bi (s, mm1)) (\<lambda>(r, st'). Inr (r, vol2, st'))))))"

definition desktop_load_wallpaper ::
  "nat \<Rightarrow> 'd disk_read_fn \<Rightarrow> 'd \<Rightarrow> u8 list \<Rightarrow> fb_t \<Rightarrow> 'e ext_alloc \<Rightarrow> u64 \<Rightarrow>
   fat32_vol \<times> desktop \<times> kheap \<times> 'e \<Rightarrow> (int \<times> fat32_vol \<times> desktop \<times> kheap \<times> 'e) res" where
  "desktop_load_wallpaper fuel rd d name83 = load_wallpaper_with (\<lambda>vol. fat32_read_file fuel vol rd d name83)"

definition desktop_load_wallpaper_path ::
  "nat \<Rightarrow> 'd disk_read_fn \<Rightarrow> 'd \<Rightarrow> u8 list \<Rightarrow> fb_t \<Rightarrow> 'e ext_alloc \<Rightarrow> u64 \<Rightarrow>
   fat32_vol \<times> desktop \<times> kheap \<times> 'e \<Rightarrow> (int \<times> fat32_vol \<times> desktop \<times> kheap \<times> 'e) res" where
  "desktop_load_wallpaper_path fuel rd d path = load_wallpaper_with (\<lambda>vol. fat32_read_file_path fuel vol rd d path)"

subsection \<open>Drawing\<close>

text \<open>The size of the wallpaper on the screen: as wide or as high as the screen, with the shape of the image.\<close>

definition fit_size :: "fb_t \<Rightarrow> u32 \<Rightarrow> u32 \<Rightarrow> u32 \<times> u32" where
  "fit_size fb ww wh =
     (let fit_h = ucast ((ucast wh * ucast (fb_width fb) + ucast (ww div 2) :: u64) div ucast ww)
      in if fit_h > fb_height fb
         then (ucast ((ucast ww * ucast (fb_height fb) + ucast (wh div 2) :: u64) div ucast wh), fb_height fb)
         else (fb_width fb, fit_h))"

definition centred :: "u32 \<Rightarrow> u32 \<Rightarrow> int" where
  "centred screen fit = (let d = (sint screen - sint fit) sdiv 2 in if d < 0 then 0 else d)"

definition letterbox_px ::
  "fb_t \<Rightarrow> u32 list \<Rightarrow> u32 \<Rightarrow> u32 \<Rightarrow> u32 \<Rightarrow> u32 \<Rightarrow> u32 \<Rightarrow> u32 \<Rightarrow> mem \<Rightarrow> mem res" where
  "letterbox_px fb pix ww wh fw fh y x m =
     (let src_y = sample y (uint wh) fh; src_x = sample x (uint ww) fw; i = unat (src_y * ww) + unat src_x
      in if i < length pix then
           rbind (i32 (centred (fb_width fb) fw + sint x)) (\<lambda>u. rbind (i32 (centred (fb_height fb) fh + sint y)) (\<lambda>v.
             put_pixel_raw fb (fb_back fb) u v (pix ! i) m))
         else Inl BadRead)"

definition draw_wallpaper_letterbox :: "fb_t \<Rightarrow> desktop \<Rightarrow> mem \<Rightarrow> mem res" where
  "draw_wallpaper_letterbox fb s = (case wallpaper s of None \<Rightarrow> Inr | Some (pix, ww, wh) \<Rightarrow>
     if ww = 0 \<or> wh = 0 \<or> fb_back fb = 0 then Inr else
     case fit_size fb ww wh of (fw, fh) \<Rightarrow>
     run_ops [ui_draw_hgrad_rect fb 0 0 (sint (fb_width fb)) (sint (fb_height fb)) 0xFFEFF3F9 0xFFE3EAF4,
       rfold (\<lambda>y. rfold (letterbox_px fb pix ww wh fw fh y) (u32_upto fw)) (u32_upto fh)])"

definition draw_icon :: "fb_t \<Rightarrow> u8 list \<Rightarrow> font \<Rightarrow> bool \<Rightarrow> rect_t \<Rightarrow> desktop_item \<Rightarrow> mem \<Rightarrow> mem res" where
  "draw_icon fb blob ft selected r it =
     (let ic = (if d_attr it AND 0x10 \<noteq> 0 then 0xFF6FA9FF else 0xFF7BC67E);
          x = r_x r; y = r_y r; icon_w = r_w r; icon_h = r_h r - 16;
          tile_x = x - 8; tile_y = y - 8; tile_w = icon_w + 16; tile_h = icon_h + 22
      in run_ops ((if selected
           then [ui_fill_round_rect fb tile_x tile_y tile_w tile_h 10 (ui_shade_color 0xFF4C8DFF 18),
                 ui_fill_round_rect fb (tile_x + 1) (tile_y + 1) (tile_w - 2) (tile_h - 2) 9 0xFFF6F8FC]
           else [ui_fill_round_rect fb tile_x tile_y tile_w tile_h 10 0xFFF0F3F9]) @
          [ui_fill_round_rect fb x y icon_w icon_h 10 ic,
           draw_rect fb x y icon_w 2 (ui_shade_color ic 14),
           draw_text fb blob ft x (y + icon_h + 6) (d_name it) 0xFF2F3645 0]))"

definition desktop_draw_icons :: "fb_t \<Rightarrow> u8 list \<Rightarrow> font \<Rightarrow> desktop \<Rightarrow> mem \<Rightarrow> (desktop \<times> mem) res" where
  "desktop_draw_icons fb blob ft s0 m =
     (let s = ensure_layout fb s0
      in rbind (run_ops (map (\<lambda>i. draw_icon fb blob ft (int i = g_selection s) (g_rects s ! i) (g_items s ! i))
                 [0..<length (g_items s)]) m) (\<lambda>m'. Inr (s, m')))"

text \<open>The gradient behind everything when there is no wallpaper, and the two bars.\<close>

definition gradient_ops :: "fb_t \<Rightarrow> (mem \<Rightarrow> mem res) list" where
  "gradient_ops fb =
     (let W = sint (fb_width fb); H = sint (fb_height fb); glow_w = sint (fb_width fb div 2); glow_h = sint (fb_height fb div 2)
      in [ui_draw_hgrad_rect fb 0 0 W H 0xFFF7F9FC 0xFFE7ECF4,
          ui_draw_hgrad_rect fb (W - glow_w) 0 glow_w glow_h 0xFFDFEAF9 0xFFC9D8F2,
          ui_draw_hgrad_rect fb 0 (H - glow_h) glow_w glow_h 0xFFC9D8F2 0xFFDFEAF9])"

definition bar_ops :: "fb_t \<Rightarrow> u8 list \<Rightarrow> font \<Rightarrow> (mem \<Rightarrow> mem res) list" where
  "bar_ops fb blob ft =
     (let W = sint (fb_width fb); taskbar_y = sint (fb_height fb) - 34
      in [ui_draw_hgrad_rect fb 0 0 W 32 0xFFFFFFFF 0xFFE8EDF5,
          draw_rect fb 0 (32 - 1) W 1 0xFFD5DEEA,
          draw_text fb blob ft 12 8 (cstr ''ParanOS'') 0xFF4C8DFF 0,
          ui_draw_hgrad_rect fb 0 taskbar_y W 34 0xFFFDFEFE 0xFFE7EDF6,
          draw_rect fb 0 taskbar_y W 1 0xFFD5DEEA,
          draw_text fb blob ft 12 (taskbar_y + 9) (cstr ''Launch'') 0xFF4C8DFF 0])"

definition desktop_draw_backdrop :: "fb_t \<Rightarrow> u8 list \<Rightarrow> font \<Rightarrow> desktop \<Rightarrow> mem \<Rightarrow> (desktop \<times> mem) res" where
  "desktop_draw_backdrop fb blob ft s m =
     rbind (run_ops ((if wallpaper s \<noteq> None then [draw_wallpaper_letterbox fb s] else gradient_ops fb) @ bar_ops fb blob ft) m)
       (desktop_draw_icons fb blob ft s)"

definition ensure_desktop_bg_cache :: "fb_t \<Rightarrow> desktop \<times> kheap \<Rightarrow> bool \<times> desktop \<times> kheap" where
  "ensure_desktop_bg_cache fb st = (case st of (s, heap) \<Rightarrow>
     let bytes = ucast (fb_pitch fb) * ucast (fb_height fb) :: u64 in
     if bytes = 0 then (False, s, heap)
     else if desktop_bg_cache s \<noteq> 0 \<and> desktop_bg_cache_bytes s = bytes then (True, s, heap)
     else case kmalloc bytes heap of (buf, heap') \<Rightarrow>
       if buf \<noteq> 0 then (True, s\<lparr>desktop_bg_cache := buf, desktop_bg_cache_bytes := bytes\<rparr>, heap')
       else (False, s\<lparr>desktop_bg_cache := 0, desktop_bg_cache_bytes := 0\<rparr>, heap'))"

definition desktop_draw_background ::
  "fb_t \<Rightarrow> u8 list \<Rightarrow> font \<Rightarrow> desktop \<times> kheap \<times> mem \<Rightarrow> (desktop \<times> kheap \<times> mem) res" where
  "desktop_draw_background fb blob ft st = (case st of (s, heap, m) \<Rightarrow>
     if fb_back fb = 0 then Inr (s, heap, m) else
     let bytes = ucast (fb_pitch fb) * ucast (fb_height fb) :: u64 in
     case ensure_desktop_bg_cache fb (s, heap) of (have_cache, s1, heap1) \<Rightarrow>
     if desktop_bg_dirty s1 \<or> \<not> have_cache then
       rbind (desktop_draw_backdrop fb blob ft s1 m) (\<lambda>(s2, m2).
       rbind (if have_cache \<and> desktop_bg_cache s2 \<noteq> 0 then memcpy_exact (desktop_bg_cache s2) (fb_back fb) bytes m2 else Inr m2) (\<lambda>m3.
         Inr (s2\<lparr>desktop_bg_dirty := False\<rparr>, heap1, m3)))
     else if have_cache \<and> desktop_bg_cache s1 \<noteq> 0 then
       rbind (memcpy_exact (fb_back fb) (desktop_bg_cache s1) bytes m) (\<lambda>m3. Inr (s1, heap1, m3))
     else Inr (s1, heap1, m))"

section \<open>The layout\<close>

text \<open>The icons form a grid: columns of 104 pixels, as many as fit and at least one, and rows of 86.\<close>

definition layout_cols :: "int \<Rightarrow> nat" where
  "layout_cols max_w = max 1 (nat ((max_w - 28) div 104))"

definition grid_rect :: "nat \<Rightarrow> nat \<Rightarrow> rect_t" where
  "grid_rect k i = \<lparr>r_x = 28 + 104 * int (i mod k), r_y = 56 + 86 * int (i div k), r_w = 44, r_h = 60\<rparr>"

lemma length_layout [simp]: "length (layout_loop max_w x y n) = n"
  by (induction n arbitrary: x y) simp_all

lemma layout_wraps:
  assumes "j < layout_cols max_w"
  shows "28 + 104 * int j + 104 + 104 > max_w \<longleftrightarrow> Suc j = layout_cols max_w"
proof -
  define q where "q = (max_w - 28) div 104"
  have q: "104 * q \<le> max_w - 28" "max_w - 28 < 104 * q + 104" unfolding q_def by linarith+
  have k: "layout_cols max_w = max 1 (nat q)" by (simp add: layout_cols_def q_def)
  have "28 + 104 * int j + 104 + 104 > max_w \<longleftrightarrow> q \<le> int j + 1" using q by auto
  also have "\<dots> \<longleftrightarrow> Suc j = layout_cols max_w" using assms unfolding k by linarith
  finally show ?thesis .
qed

lemma nth_layout:
  "j < layout_cols max_w \<Longrightarrow> i < n \<Longrightarrow>
     layout_loop max_w (28 + 104 * int j) (56 + 86 * int r) n ! i = grid_rect (layout_cols max_w) (r * layout_cols max_w + j + i)"
proof (induction n arbitrary: i j r)
  case (Suc n)
  let ?k = "layout_cols max_w"
  show ?case
  proof (cases i)
    case 0
    have "(r * ?k + j) mod ?k = j" "(r * ?k + j) div ?k = r" using Suc.prems(1) by simp_all
    then show ?thesis using 0 by (simp add: grid_rect_def)
  next
    case (Suc i')
    note IH = Suc.IH
    have i': "i' < n" using Suc Suc.prems(2) by simp
    show ?thesis
    proof (cases "Suc j = ?k")
      case True
      have "layout_loop max_w (28 + 104 * int 0) (56 + 86 * int (Suc r)) n ! i' = grid_rect ?k (Suc r * ?k + 0 + i')"
        by (rule Suc.IH) (use True i' in simp_all)
      moreover have "28 + 104 * int j + 104 + 104 > max_w" using layout_wraps [OF Suc.prems(1)] True by simp
      moreover have "Suc r * ?k + i' = r * ?k + j + Suc i'" using True by simp
      ultimately show ?thesis using Suc by (simp add: algebra_simps)
    next
      case False
      have "layout_loop max_w (28 + 104 * int (Suc j)) (56 + 86 * int r) n ! i' = grid_rect ?k (r * ?k + Suc j + i')"
        by (rule Suc.IH) (use False Suc.prems(1) i' in simp_all)
      moreover have "\<not> 28 + 104 * int j + 104 + 104 > max_w" using layout_wraps [OF Suc.prems(1)] False by simp
      ultimately show ?thesis using Suc by (simp add: algebra_simps)
    qed
  qed
qed simp

lemma layout_is_grid: "i < n \<Longrightarrow> layout_loop max_w 28 56 n ! i = grid_rect (layout_cols max_w) i"
  using nth_layout [of 0 max_w i n 0] by (simp add: layout_cols_def)

lemma grid_disjoint:
  assumes "in_rect mx my (grid_rect k i)" and "in_rect mx my (grid_rect k j)" and "0 < k" shows "i = j"
proof -
  have "int (i mod k) = int (j mod k)" "int (i div k) = int (j div k)"
    using assms(1,2) by (auto simp: in_rect_def grid_rect_def)
  then have "i mod k = j mod k" "i div k = j div k" by simp_all
  then show ?thesis by (metis div_mult_mod_eq)
qed

subsection \<open>The state of the desktop\<close>

definition desk_ok :: "fb_t \<Rightarrow> desktop \<Rightarrow> bool" where
  "desk_ok fb s \<longleftrightarrow> length (g_items s) \<le> DESKTOP_MAX_ITEMS \<and> -1 \<le> g_selection s \<and> g_selection s < int (length (g_items s)) \<and>
     (g_layout_valid s \<longrightarrow> g_rects s = layout_loop (layout_max_w fb) 28 56 (length (g_items s)))"

lemma desktop_init_ok: "desk_ok fb (desktop_init s)"
  by (simp add: desktop_init_def desk_ok_def)

lemma desktop_set_items_ok: "desktop_set_items items n s = Inr s' \<Longrightarrow> desk_ok fb s'"
  by (auto simp: desktop_set_items_def desk_ok_def Let_def split: if_splits)

lemma desktop_set_selection_ok: "desk_ok fb s \<Longrightarrow> desk_ok fb (desktop_set_selection i s)"
  by (auto simp: desktop_set_selection_def desk_ok_def)

lemma ensure_layout_ok: "desk_ok fb s \<Longrightarrow> desk_ok fb (ensure_layout fb s) \<and> g_layout_valid (ensure_layout fb s) \<and> g_items (ensure_layout fb s) = g_items s"
  by (auto simp: ensure_layout_def desktop_layout_icons_def desk_ok_def)

lemma ensure_layout_rects:
  "desk_ok fb s \<Longrightarrow> i < length (g_items s) \<Longrightarrow> g_rects (ensure_layout fb s) ! i = grid_rect (layout_cols (layout_max_w fb)) i"
  using ensure_layout_ok [of fb s] by (auto simp: desk_ok_def layout_is_grid)

lemma hit_test_find:
  assumes "desk_ok fb s"
  shows "fst (desktop_hit_test fb mx my s) =
    (case find (\<lambda>i. in_rect mx my (grid_rect (layout_cols (layout_max_w fb)) i)) [0..<length (g_items s)] of None \<Rightarrow> -1 | Some i \<Rightarrow> int i)"
proof -
  have "find (\<lambda>i. in_rect mx my (g_rects (ensure_layout fb s) ! i)) [0..<length (g_items s)] =
      find (\<lambda>i. in_rect mx my (grid_rect (layout_cols (layout_max_w fb)) i)) [0..<length (g_items s)]"
    using ensure_layout_rects [OF assms] by (intro find_cong refl) auto
  then show ?thesis using ensure_layout_ok [OF assms] by (simp add: desktop_hit_test_def Let_def)
qed

text \<open>The hit test agrees with the picture. The icons are drawn on a grid, as many columns as fit the screen, and a
  point inside the box of icon \<open>i\<close> is reported as \<open>i\<close>, for every icon; a point in no box is reported as -1.\<close>

theorem desktop_hit_test_grid:
  assumes "desk_ok fb s"
  shows "let k = layout_cols (layout_max_w fb); n = length (g_items s) in
    map (\<lambda>i. g_rects (ensure_layout fb s) ! i) [0..<n] = map (grid_rect k) [0..<n] \<and>
    (\<forall>i<n. in_rect mx my (grid_rect k i) \<longrightarrow> fst (desktop_hit_test fb mx my s) = int i) \<and>
    ((\<forall>i<n. \<not> in_rect mx my (grid_rect k i)) \<longrightarrow> fst (desktop_hit_test fb mx my s) = -1)"
proof -
  let ?k = "layout_cols (layout_max_w fb)" and ?n = "length (g_items s)"
  have "fst (desktop_hit_test fb mx my s) = int i" if "i < ?n" "in_rect mx my (grid_rect ?k i)" for i
  proof -
    have "find (\<lambda>i. in_rect mx my (grid_rect ?k i)) [0..<?n] \<noteq> None" using that by (auto simp: find_None_iff)
    then obtain j where j: "find (\<lambda>i. in_rect mx my (grid_rect ?k i)) [0..<?n] = Some j" by auto
    then have "in_rect mx my (grid_rect ?k j)" by (auto dest: find_SomeD)
    then have "j = i" by (rule grid_disjoint [OF _ that(2)]) (simp add: layout_cols_def)
    with j show ?thesis by (simp add: hit_test_find [OF assms])
  qed
  moreover have "fst (desktop_hit_test fb mx my s) = -1" if "\<forall>i<?n. \<not> in_rect mx my (grid_rect ?k i)"
  proof -
    have "find (\<lambda>i. in_rect mx my (grid_rect ?k i)) [0..<?n] = None" using that by (auto simp: find_None_iff)
    then show ?thesis by (simp add: hit_test_find [OF assms])
  qed
  moreover have "map (\<lambda>i. g_rects (ensure_layout fb s) ! i) [0..<?n] = map (grid_rect ?k) [0..<?n]"
    using ensure_layout_rects [OF assms] by simp
  ultimately show ?thesis by (simp add: Let_def)
qed

definition demo_desktop :: desktop where
  "demo_desktop = \<lparr>g_items = replicate 3 \<lparr>d_name = cstr ''A.TXT'', d_attr = 0x20, d_size = 5\<rparr>, g_selection = 1, g_rects = [],
     g_layout_valid = False, desktop_bg_cache = 0x3000, desktop_bg_cache_bytes = 24, desktop_bg_dirty = True,
     desktop_frame_ticks = 1, last_click_tick = 0, last_click_index = -1, wallpaper = Some ([0xFF112233], 1, 1)\<rparr>"

theorem desktop_hit_test_grid_witness:
  "desk_ok (demo_fb\<lparr>fb_width := 320\<rparr>) demo_desktop \<and> fst (desktop_hit_test (demo_fb\<lparr>fb_width := 320\<rparr>) 30 150 demo_desktop) = 2"
proof -
  let ?fb = "demo_fb\<lparr>fb_width := 320\<rparr>"
  have ok: "desk_ok ?fb demo_desktop" by (simp add: desk_ok_def demo_desktop_def)
  have k: "layout_cols (layout_max_w ?fb) = 2" by (simp add: layout_cols_def layout_max_w_def)
  have n: "length (g_items demo_desktop) = 3" by (simp add: demo_desktop_def)
  have "in_rect 30 150 (grid_rect 2 2)" by (simp add: in_rect_def grid_rect_def)
  moreover have "i < 3 \<Longrightarrow> in_rect 30 150 (grid_rect 2 i) \<Longrightarrow> fst (desktop_hit_test ?fb 30 150 demo_desktop) = int i" for i
    using desktop_hit_test_grid [OF ok, of 30 150] unfolding Let_def k n by blast
  from this [of 2] calculation have "fst (desktop_hit_test ?fb 30 150 demo_desktop) = int 2" by simp
  then show ?thesis using ok by simp
qed

section \<open>The picture and its cache\<close>

text \<open>Screens, names and wallpapers of sizes for which the pixel arithmetic stays in range.\<close>

definition screen_ok :: "fb_t \<Rightarrow> bool" where
  "screen_ok fb \<longleftrightarrow> unat (fb_width fb) \<le> 2 ^ 20 \<and> unat (fb_height fb) \<le> 2 ^ 20"

definition paper_ok :: "(u32 list \<times> u32 \<times> u32) option \<Rightarrow> bool" where
  "paper_ok wp \<longleftrightarrow> (case wp of None \<Rightarrow> True | Some (pix, ww, wh) \<Rightarrow> unat ww < 2 ^ 31 \<and> unat wh < 2 ^ 31 \<and>
     unat ww * unat wh < 2 ^ 32 \<and> length pix = unat ww * unat wh)"

definition names_ok :: "desktop \<Rightarrow> bool" where
  "names_ok s \<longleftrightarrow> (\<forall>it\<in>set (g_items s). length (d_name it) \<le> 12)"

lemma sint_range: "unat (w :: u32) \<le> 2 ^ 20 \<Longrightarrow> 0 \<le> sint w \<and> sint w \<le> 2 ^ 20"
proof -
  assume h: "unat w \<le> 2 ^ 20"
  then have "sint w = uint w" by (intro sint_small) simp
  moreover have "int (unat w) \<le> int (2 ^ 20)" using h by (simp only: of_nat_le_iff)
  ultimately show ?thesis by simp
qed

lemma screen_range:
  assumes "screen_ok fb"
  shows "0 \<le> sint (fb_width fb)" "sint (fb_width fb) \<le> 2 ^ 20" "0 \<le> sint (fb_height fb)" "sint (fb_height fb) \<le> 2 ^ 20"
    "0 \<le> sint (fb_width fb div 2)" "sint (fb_width fb div 2) \<le> 2 ^ 20" "0 \<le> sint (fb_height fb div 2)" "sint (fb_height fb div 2) \<le> 2 ^ 20"
proof -
  have "unat (w div 2) \<le> 2 ^ 20" if "unat w \<le> 2 ^ 20" for w :: u32 using that by (simp add: unat_div)
  then show "0 \<le> sint (fb_width fb)" "sint (fb_width fb) \<le> 2 ^ 20" "0 \<le> sint (fb_height fb)" "sint (fb_height fb) \<le> 2 ^ 20"
    "0 \<le> sint (fb_width fb div 2)" "sint (fb_width fb div 2) \<le> 2 ^ 20" "0 \<le> sint (fb_height fb div 2)" "sint (fb_height fb div 2) \<le> 2 ^ 20"
    using assms sint_range by (auto simp: screen_ok_def)
qed

lemma text_span: "font_ok blob ft \<Longrightarrow> length t \<le> 12 \<Longrightarrow> - (2 ^ 20) \<le> p \<Longrightarrow> p \<le> 2 ^ 21 \<Longrightarrow> span_ok p (g_w ft * int (length t)) \<and> span_ok p (g_h ft)"
proof -
  assume h: "font_ok blob ft" "length t \<le> 12" "- (2 ^ 20) \<le> p" "p \<le> 2 ^ 21"
  have "g_w ft * int (length t) \<le> 2 ^ 16 * 12" using h(1,2) by (intro mult_mono) (auto simp: font_ok_def)
  then show ?thesis using h by (auto simp: span_ok_def font_ok_def)
qed

lemma gradient_draws:
  assumes "screen_ok fb" shows "draws fb (run_ops (gradient_ops fb))"
  unfolding gradient_ops_def Let_def using screen_range [OF assms] by (intro draws_intros) (simp_all add: small_def)

lemma bar_draws:
  assumes "screen_ok fb" and f: "font_ok blob ft" shows "draws fb (run_ops (bar_ops fb blob ft))"
proof -
  have "span_ok 12 (g_w ft * int (length (cstr ''ParanOS'')))" "span_ok 8 (g_h ft)" "span_ok 12 (g_w ft * int (length (cstr ''Launch'')))"
    using text_span [OF f, of "cstr ''ParanOS''" 12] text_span [OF f, of "[]" 8] text_span [OF f, of "cstr ''Launch''" 12] by auto
  moreover have "span_ok (sint (fb_height fb) - 34 + 9) (g_h ft)"
    using text_span [OF f, of "[]" "sint (fb_height fb) - 34 + 9"] screen_range [OF assms(1)] by simp
  ultimately show ?thesis
    unfolding bar_ops_def Let_def using assms screen_range [OF assms(1)]
    by (intro draws_intros) (simp_all add: small_def int_range_def)
qed

lemma icon_draws:
  assumes "font_ok blob ft" and "length (d_name it) \<le> 12" and "0 \<le> r_x r" "r_x r \<le> 2 ^ 18" "0 \<le> r_y r" "r_y r \<le> 2 ^ 18" "r_w r = 44" "r_h r = 60"
  shows "draws fb (draw_icon fb blob ft sel r it)"
proof -
  have "span_ok (r_x r) (g_w ft * int (length (d_name it)))" "span_ok (r_y r + (r_h r - 16) + 6) (g_h ft)"
    using text_span [OF assms(1,2), of "r_x r"] text_span [OF assms(1), of "[]" "r_y r + (r_h r - 16) + 6"] assms by auto
  then show ?thesis
    unfolding draw_icon_def Let_def using assms
    by (cases sel) (simp_all only: if_True if_False, (intro draws_intros; simp add: small_def int_range_def)+)
qed

lemma grid_range: "i < 128 \<Longrightarrow> 0 \<le> r_x (grid_rect k i) \<and> r_x (grid_rect k i) \<le> 2 ^ 18 \<and> 0 \<le> r_y (grid_rect k i) \<and> r_y (grid_rect k i) \<le> 2 ^ 18"
proof -
  assume "i < 128"
  moreover have "i mod k \<le> i" "i div k \<le> i" by simp_all
  ultimately have "int (i mod k) \<le> 128" "int (i div k) \<le> 128" by linarith+
  then show ?thesis by (simp add: grid_rect_def)
qed

lemma icons_draw:
  assumes ok: "desk_ok fb s" and "names_ok s" and "font_ok blob ft"
  shows "draws fb (run_ops (map (\<lambda>i. draw_icon fb blob ft (int i = g_selection (ensure_layout fb s)) (g_rects (ensure_layout fb s) ! i) (g_items s ! i))
    [0..<length (g_items s)]))"
proof (rule draws_ops_map)
  fix i assume "i \<in> set [0..<length (g_items s)]"
  then have i: "i < length (g_items s)" "i < 128" using ok by (auto simp: desk_ok_def)
  have "length (d_name (g_items s ! i)) \<le> 12" using assms(2) i by (simp add: names_ok_def)
  then show "draws fb (draw_icon fb blob ft (int i = g_selection (ensure_layout fb s)) (g_rects (ensure_layout fb s) ! i) (g_items s ! i))"
    unfolding ensure_layout_rects [OF ok i(1)] using grid_range [OF i(2), of "layout_cols (layout_max_w fb)"]
    by (intro icon_draws [OF assms(3)]) (auto simp: grid_rect_def)
qed

lemma fit_size_fits:
  assumes ww: "0 < unat ww" and wh: "0 < unat wh" and "fit_size fb ww wh = (fw, fh)"
  shows "unat fw \<le> unat (fb_width fb) \<and> unat fh \<le> unat (fb_height fb)"
proof -
  let ?W = "unat (fb_width fb)" and ?H = "unat (fb_height fb)"
  have num: "unat (ucast a * ucast b + ucast (c div 2) :: u64) = unat a * unat b + unat c div 2" for a b c :: u32
  proof -
    have "unat a * unat b \<le> (2 ^ 32 - 1) * (2 ^ 32 - 1)" using unat_bound [of a] unat_bound [of b] by (intro mult_mono) simp_all
    then have "unat a * unat b + unat c div 2 < 2 ^ 64" using unat_bound [of c] by simp
    moreover have "unat (c div 2) = unat c div 2" by (simp add: unat_div)
    ultimately show ?thesis by (simp add: unat_word_ariths(1,2))
  qed
  have cut: "unat (ucast (w :: u64) :: u32) \<le> unat w" for w by (simp add: unsigned_ucast_eq take_bit_eq_mod)
  define h0 :: u32 where "h0 = ucast ((ucast wh * ucast (fb_width fb) + ucast (ww div 2) :: u64) div ucast ww)"
  have h0: "unat h0 \<le> (unat wh * ?W + unat ww div 2) div unat ww"
    using cut [of "(ucast wh * ucast (fb_width fb) + ucast (ww div 2)) div ucast ww"] by (simp add: h0_def unat_div num)
  show ?thesis
  proof (cases "h0 > fb_height fb")
    case True
    then have "?H + 1 \<le> (unat wh * ?W + unat ww div 2) div unat ww" using h0 by (simp add: word_less_nat_alt)
    then have "(?H + 1) * unat ww \<le> unat wh * ?W + unat ww div 2" using ww by (simp add: less_eq_div_iff_mult_less_eq)
    then have "unat ww * ?H + unat ww \<le> unat wh * ?W + unat ww div 2" by (simp add: algebra_simps)
    then have "unat ww * ?H + unat wh div 2 < (?W + 1) * unat wh" using wh ww by (simp add: algebra_simps)
    then have "(unat ww * ?H + unat wh div 2) div unat wh < ?W + 1" by (simp add: less_mult_imp_div_less)
    moreover have fw: "fw = ucast ((ucast ww * ucast (fb_height fb) + ucast (wh div 2) :: u64) div ucast wh)"
      using assms(3) True by (auto simp: fit_size_def Let_def simp flip: h0_def)
    have "unat fw \<le> (unat ww * ?H + unat wh div 2) div unat wh"
      unfolding fw using cut [of "(ucast ww * ucast (fb_height fb) + ucast (wh div 2)) div ucast wh"] by (simp add: unat_div num)
    ultimately have "unat fw \<le> ?W" by linarith
    then show ?thesis using assms(3) True by (simp add: fit_size_def Let_def flip: h0_def)
  next
    case False
    then have "fw = fb_width fb" "fh = h0" using assms(3) by (simp_all add: fit_size_def Let_def flip: h0_def)
    then show ?thesis using False by (simp add: word_le_nat_alt not_less)
  qed
qed

lemma uint_less31: "unat (w :: u32) < 2 ^ 31 \<Longrightarrow> uint w < 2 ^ 31"
proof -
  assume "unat w < 2 ^ 31"
  then have "int (unat w) < int (2 ^ 31)" by (simp only: of_nat_less_iff)
  then show ?thesis by simp
qed

lemma sample_below:
  assumes "unat i < unat t" and "0 < unat n" and "unat (n :: u32) < 2 ^ 31" shows "unat (sample i (uint n) t) < unat n"
proof -
  have "nat (uint n) = unat n" by simp
  then show ?thesis using unat_sample(2) [of "uint n" i t] uint_less31 [OF assms(3)] assms(1,2) by simp
qed

lemma letterbox_px_draws:
  assumes scr: "screen_ok fb" and b: "fb_back fb \<noteq> 0" and p: "paper_ok (Some (pix, ww, wh))"
    and fit: "unat fw \<le> unat (fb_width fb)" "unat fh \<le> unat (fb_height fb)"
    and xy: "unat x < unat fw" "unat y < unat fh" and nz: "0 < unat ww" "0 < unat wh"
  shows "draws fb (letterbox_px fb pix ww wh fw fh y x)"
proof -
  have p': "unat ww < 2 ^ 31" "unat wh < 2 ^ 31" "unat ww * unat wh < 2 ^ 32" "length pix = unat ww * unat wh"
    using p by (simp_all add: paper_ok_def)
  have sy: "unat (sample y (uint wh) fh) < unat wh" and sx: "unat (sample x (uint ww) fw) < unat ww"
    using sample_below [OF xy(2) nz(2) p'(2)] sample_below [OF xy(1) nz(1) p'(1)] by simp_all
  have "unat (sample y (uint wh) fh) * unat ww + unat (sample x (uint ww) fw) < unat ww * unat wh" by (rule cell_bound [OF sy sx])
  moreover from this have "unat (sample y (uint wh) fh * ww) = unat (sample y (uint wh) fh) * unat ww"
    using p'(3) by (simp add: unat_word_ariths)
  ultimately have i: "unat (sample y (uint wh) fh * ww) + unat (sample x (uint ww) fw) < length pix" using p'(4) by simp
  have c: "0 \<le> centred a f \<and> centred a f \<le> 2 ^ 20" if "unat a \<le> 2 ^ 20" "unat f \<le> unat a" for a f :: u32
  proof -
    have "int (unat f) \<le> int (unat a)" using that(2) by (simp only: of_nat_le_iff)
    moreover have "sint a = uint a" "sint f = uint f" using that by (auto intro!: sint_small)
    ultimately have "0 \<le> sint a - sint f" by simp
    moreover have "sint a - sint f \<le> 2 ^ 20" using sint_range [OF that(1)] sint_range [of f] that by linarith
    moreover have "d sdiv 2 = d div 2" if "0 \<le> d" for d :: int using that by (auto simp: signed_divide_int_def sgn_if)
    ultimately show ?thesis by (simp add: centred_def Let_def)
  qed
  have r: "0 \<le> sint x \<and> sint x \<le> 2 ^ 20" "0 \<le> sint y \<and> sint y \<le> 2 ^ 20"
    using sint_range [of x] sint_range [of y] fit xy scr by (auto simp: screen_ok_def)
  have "i32 (centred (fb_width fb) fw + sint x) = Inr (centred (fb_width fb) fw + sint x)"
    "i32 (centred (fb_height fb) fh + sint y) = Inr (centred (fb_height fb) fh + sint y)"
    using c [of "fb_width fb" fw] c [of "fb_height fb" fh] r fit scr by (auto simp: screen_ok_def)
  moreover have "draw_base fb = fb_back fb" using b by (simp add: draw_base_def)
  ultimately have "letterbox_px fb pix ww wh fw fh y x = put_pixel_raw fb (draw_base fb)
      (centred (fb_width fb) fw + sint x) (centred (fb_height fb) fh + sint y) (pix ! (unat (sample y (uint wh) fh * ww) + unat (sample x (uint ww) fw)))"
    using i by (intro ext) (simp add: letterbox_px_def Let_def)
  then show ?thesis using draws_put by simp
qed

lemma letterbox_draws:
  assumes scr: "screen_ok fb" and p: "paper_ok (wallpaper s)" shows "draws fb (draw_wallpaper_letterbox fb s)"
proof (cases "wallpaper s")
  case None
  then show ?thesis by (simp add: draw_wallpaper_letterbox_def draws_skip)
next
  case (Some wp)
  obtain pix ww wh where wp: "wp = (pix, ww, wh)" by (rule prod_cases3)
  show ?thesis
  proof (cases "ww = 0 \<or> wh = 0 \<or> fb_back fb = 0")
    case True
    then show ?thesis using Some wp by (simp add: draw_wallpaper_letterbox_def draws_skip)
  next
    case False
    obtain fw fh where f: "fit_size fb ww wh = (fw, fh)" by (rule prod.exhaust)
    have nz: "0 < unat ww" "0 < unat wh" using False by (simp_all add: unat_gt_0)
    note fit = fit_size_fits [OF nz f]
    have "draws fb (rfold (\<lambda>y. rfold (letterbox_px fb pix ww wh fw fh y) (u32_upto fw)) (u32_upto fh))"
      by (intro draws_rfold letterbox_px_draws [OF scr]) (use False p Some wp fit nz in \<open>auto simp: set_u32_upto\<close>)
    moreover have "draws fb (ui_draw_hgrad_rect fb 0 0 (sint (fb_width fb)) (sint (fb_height fb)) 0xFFEFF3F9 0xFFE3EAF4)"
      using screen_range [OF scr] by (intro draws_intros) (simp_all add: small_def)
    ultimately show ?thesis using Some wp False f by (simp add: draw_wallpaper_letterbox_def draws_intros)
  qed
qed

lemma backdrop_draws:
  assumes ok: "desk_ok fb s" and "names_ok s" and "paper_ok (wallpaper s)" and scr: "screen_ok fb" and f: "font_ok blob ft"
    and m: "fb_ok fb (draw_base fb) m"
  shows "\<exists>m'. desktop_draw_backdrop fb blob ft s m = Inr (ensure_layout fb s, m') \<and> same_outside fb (draw_base fb) m m'"
proof -
  have "draws fb (run_ops ((if wallpaper s \<noteq> None then [draw_wallpaper_letterbox fb s] else gradient_ops fb) @ bar_ops fb blob ft))"
    using letterbox_draws [OF scr assms(3)] gradient_draws [OF scr] bar_draws [OF scr f] by (intro draws_intros) (auto intro!: draws_intros)
  from drawsD [OF this m] obtain m1 where
    m1: "run_ops ((if wallpaper s \<noteq> None then [draw_wallpaper_letterbox fb s] else gradient_ops fb) @ bar_ops fb blob ft) m = Inr m1"
    "same_outside fb (draw_base fb) m m1" "fb_ok fb (draw_base fb) m1" .
  from drawsD [OF icons_draw [OF ok assms(2) f] m1(3)] obtain m2 where
    m2: "run_ops (map (\<lambda>i. draw_icon fb blob ft (int i = g_selection (ensure_layout fb s)) (g_rects (ensure_layout fb s) ! i) (g_items s ! i))
      [0..<length (g_items s)]) m1 = Inr m2" "same_outside fb (draw_base fb) m1 m2" .
  have "desktop_draw_icons fb blob ft s m1 = Inr (ensure_layout fb s, m2)"
    using m2(1) ensure_layout_ok [OF ok] by (simp add: desktop_draw_icons_def Let_def)
  then show ?thesis using m1 m2 same_outside_trans by (auto simp: desktop_draw_backdrop_def)
qed

subsection \<open>The cache\<close>

text \<open>Copying a block away and later copying it back restores it, whatever happened to the block meanwhile.\<close>

lemma moved_there_and_back:
  assumes "\<forall>a\<in>rng d n. m2 a = moved d s n m a" and "a \<in> rng s n" and "mapped m d n" and "mapped m s n"
  shows "moved s d n m2 a = m a"
proof -
  obtain i where i: "i < n" "a = s + word_of_nat i" using assms(2) unfolding rng_def
    by (intro that [of "unat (a - s)"]) (auto simp: unat_sub word_le_nat_alt)
  have "d + word_of_nat i \<in> rng d n" using mapped_nth [OF assms(3) i(1)] i(1) by (simp add: rng_def)
  with assms(1) have "m2 (d + word_of_nat i) = m (s + word_of_nat i)" by (simp add: moved_def)
  then show ?thesis using assms(2) i by (simp add: moved_def)
qed

lemma unat_frame: "unat (ucast (fb_pitch fb) * ucast (fb_height fb) :: u64) = frame_bytes fb"
  by (simp add: unat_mult_u32_u64 mult.commute)

lemma ensure_cache_result:
  assumes "ensure_desktop_bg_cache fb (s, heap) = (True, sc, heapc)"
  shows "desktop_bg_cache sc \<noteq> 0 \<and> desktop_bg_cache_bytes sc = ucast (fb_pitch fb) * ucast (fb_height fb) \<and>
    ucast (fb_pitch fb) * ucast (fb_height fb) \<noteq> (0 :: u64) \<and> desktop_bg_dirty sc = desktop_bg_dirty s \<and>
    (\<exists>c b. sc = s\<lparr>desktop_bg_cache := c, desktop_bg_cache_bytes := b\<rparr>)"
  using assms by (cases s) (auto simp: ensure_desktop_bg_cache_def Let_def split: if_splits prod.splits)

lemma desk_ok_cache:
  "desk_ok fb (s\<lparr>desktop_bg_cache := c, desktop_bg_cache_bytes := b\<rparr>) = desk_ok fb s"
  "names_ok (s\<lparr>desktop_bg_cache := c, desktop_bg_cache_bytes := b\<rparr>) = names_ok s"
  "wallpaper (s\<lparr>desktop_bg_cache := c, desktop_bg_cache_bytes := b\<rparr>) = wallpaper s"
  by (simp_all add: desk_ok_def names_ok_def)

lemma ensure_layout_cache: "desktop_bg_cache (ensure_layout fb s) = desktop_bg_cache s"
  "desktop_bg_cache_bytes (ensure_layout fb s) = desktop_bg_cache_bytes s"
  by (simp_all add: ensure_layout_def desktop_layout_icons_def)

lemma copy_frame_moves:
  assumes "d \<noteq> 0" and "s \<noteq> 0" and "mapped m d (frame_bytes fb)" and "mapped m s (frame_bytes fb)" and "rng d (frame_bytes fb) \<inter> rng s (frame_bytes fb) = {}"
  shows "memcpy_exact d s (ucast (fb_pitch fb) * ucast (fb_height fb)) m = Inr (moved d s (frame_bytes fb) m)"
  using cpx.copy_moves [of m s "ucast (fb_pitch fb) * ucast (fb_height fb)" d] assms by (simp add: unat_frame)

text \<open>Drawing again from a memory that still has the cache restores the picture in the back buffer and changes nothing
  else.\<close>

definition cache_restores :: "fb_t \<Rightarrow> u8 list \<Rightarrow> font \<Rightarrow> u64 \<Rightarrow> desktop \<Rightarrow> kheap \<Rightarrow> mem \<Rightarrow> bool" where
  "cache_restores fb blob ft c s heap m \<longleftrightarrow>
     (\<forall>m2. dom m2 = dom m \<and> (\<forall>a\<in>rng c (frame_bytes fb). m2 a = m a) \<longrightarrow>
      (\<exists>m3. desktop_draw_background fb blob ft (s, heap, m2) = Inr (s, heap, m3) \<and>
        (\<forall>a\<in>rng (fb_back fb) (frame_bytes fb). m3 a = m a) \<and> (\<forall>a. a \<notin> rng (fb_back fb) (frame_bytes fb) \<longrightarrow> m3 a = m2 a)))"

text \<open>C38: Drawing the desktop composes every drawing routine without a fault, and its cache is transparent. On a mapped back
  buffer, with room for the cache, a desktop that has changed is drawn with nothing touched but the back buffer and
  the cache, and is no longer marked as changed. Whatever is then painted over the back buffer, drawing the
  desktop again restores exactly the picture of the first time and changes nothing else.\<close>

theorem desktop_background_cached:
  assumes desk: "desk_ok fb s" "names_ok s" "paper_ok (wallpaper s)" and scr: "screen_ok fb" and f: "font_ok blob ft"
    and b: "fb_ok fb (fb_back fb) m" and dirty: "desktop_bg_dirty s"
    and cache: "ensure_desktop_bg_cache fb (s, heap) = (True, sc, heapc)" "mapped m (desktop_bg_cache sc) (frame_bytes fb)"
      "rng (desktop_bg_cache sc) (frame_bytes fb) \<inter> rng (fb_back fb) (frame_bytes fb) = {}"
  shows "\<exists>s' m'. desktop_draw_background fb blob ft (s, heap, m) = Inr (s', heapc, m') \<and> \<not> desktop_bg_dirty s' \<and> dom m' = dom m \<and>
    (\<forall>a. a \<notin> rng (fb_back fb) (frame_bytes fb) \<union> rng (desktop_bg_cache sc) (frame_bytes fb) \<longrightarrow> m' a = m a) \<and>
    cache_restores fb blob ft (desktop_bg_cache sc) s' heapc m'"
proof -
  let ?n = "frame_bytes fb" and ?bk = "fb_back fb" and ?c = "desktop_bg_cache sc"
  have nz: "?bk \<noteq> 0" and mb: "mapped m ?bk ?n" using b by (simp_all add: fb_ok_def)
  then have base: "draw_base fb = ?bk" by (simp add: draw_base_def)
  note ec = ensure_cache_result [OF cache(1)]
  then have sc: "desk_ok fb sc" "names_ok sc" "paper_ok (wallpaper sc)" "desktop_bg_dirty sc"
    using desk dirty by (auto simp: desk_ok_cache)
  from backdrop_draws [OF sc(1-3) scr f] b base obtain m1 where
    m1: "desktop_draw_backdrop fb blob ft sc m = Inr (ensure_layout fb sc, m1)" "same_outside fb ?bk m m1" by auto
  have mp: "mapped m1 ?bk ?n" "mapped m1 ?c ?n" using m1(2) mb cache(2) by (simp_all add: same_outside_def mapped_def)
  let ?m' = "moved ?c ?bk ?n m1" and ?s' = "(ensure_layout fb sc)\<lparr>desktop_bg_dirty := False\<rparr>"
  have run: "desktop_draw_background fb blob ft (s, heap, m) = Inr (?s', heapc, ?m')"
    using nz cache(1) sc(4) m1(1) ec copy_frame_moves [OF _ nz mp(2,1) cache(3)]
    by (simp add: desktop_draw_background_def Let_def ensure_layout_cache)
  have dm: "dom ?m' = dom m1" using dom_moved [OF mp(1), of ?c] mp(2) by (simp add: mapped_def)
  have "\<exists>m3. desktop_draw_background fb blob ft (?s', heapc, m2) = Inr (?s', heapc, m3) \<and>
      (\<forall>a\<in>rng ?bk ?n. m3 a = ?m' a) \<and> (\<forall>a. a \<notin> rng ?bk ?n \<longrightarrow> m3 a = m2 a)"
    if d: "dom m2 = dom ?m'" "\<forall>a\<in>rng ?c ?n. m2 a = ?m' a" for m2
  proof -
    have mp2: "mapped m2 ?bk ?n" "mapped m2 ?c ?n" using mp d(1) dm by (simp_all add: mapped_def)
    have "ensure_desktop_bg_cache fb (?s', heapc) = (True, ?s', heapc)"
      using ec by (auto simp: ensure_desktop_bg_cache_def Let_def ensure_layout_cache)
    then have "desktop_draw_background fb blob ft (?s', heapc, m2) = Inr (?s', heapc, moved ?bk ?c ?n m2)"
      using nz ec copy_frame_moves [OF nz _ mp2] cache(3)
      by (simp add: desktop_draw_background_def Let_def ensure_layout_cache Int_commute)
    moreover have "moved ?bk ?c ?n m2 a = ?m' a" if a: "a \<in> rng ?bk ?n" for a
      using moved_there_and_back [OF d(2) a mp(2,1)] a cache(3) by (auto simp: moved_def)
    ultimately show ?thesis by (auto simp: moved_def)
  qed
  moreover have "?m' a = m a" if "a \<notin> rng ?bk ?n \<union> rng ?c ?n" for a using that m1(2) by (auto simp: moved_def same_outside_def)
  moreover have "dom ?m' = dom m" using dm m1(2) by (simp add: same_outside_def)
  ultimately show ?thesis using run unfolding cache_restores_def by (intro exI [of _ ?s'] exI [of _ ?m']) simp
qed

definition demo_screen :: mem where
  "demo_screen a = (if 0x2000 \<le> a \<and> a < 0x2018 \<or> 0x3000 \<le> a \<and> a < 0x3018 then Some 0 else None)"

definition demo_drawn :: "(desktop \<times> kheap \<times> mem) res" where
  "demo_drawn = desktop_draw_background demo_fb demo_blob demo_font (demo_desktop, fst demo_heap, demo_screen)"

theorem desktop_background_cached_witness:
  "\<exists>s' heap m'. demo_drawn = Inr (s', heap, m') \<and> \<not> desktop_bg_dirty s' \<and>
     (\<exists>m3. desktop_draw_background demo_fb demo_blob demo_font (s', heap, m'(0x2000 \<mapsto> 0x77)) = Inr (s', heap, m3) \<and> m3 0x2000 = m' 0x2000)"
proof -
  have ok: "desk_ok demo_fb demo_desktop" "names_ok demo_desktop" "paper_ok (wallpaper demo_desktop)" "screen_ok demo_fb"
    by (simp_all add: desk_ok_def names_ok_def demo_desktop_def paper_ok_def screen_ok_def demo_fb_def cstr_def)
  have b: "fb_ok demo_fb (fb_back demo_fb) demo_screen" "desktop_bg_dirty demo_desktop"
    by (auto simp: fb_ok_def fb_geom_def mapped_def rng_def demo_fb_def demo_screen_def demo_desktop_def word_le_nat_alt word_less_nat_alt)
  have c: "ensure_desktop_bg_cache demo_fb (demo_desktop, fst demo_heap) = (True, demo_desktop, fst demo_heap)"
    by (simp add: ensure_desktop_bg_cache_def demo_desktop_def demo_fb_def)
  have n: "frame_bytes demo_fb = 24" "desktop_bg_cache demo_desktop = 0x3000" "fb_back demo_fb = 0x2000"
    by (simp_all add: demo_fb_def demo_desktop_def)
  have d1: "mapped demo_screen (desktop_bg_cache demo_desktop) (frame_bytes demo_fb)"
    unfolding n by (auto simp: mapped_def rng_def demo_screen_def word_le_nat_alt word_less_nat_alt)
  have d2: "rng (desktop_bg_cache demo_desktop) (frame_bytes demo_fb) \<inter> rng (fb_back demo_fb) (frame_bytes demo_fb) = {}"
    unfolding n by (auto simp: rng_def)
  have e: "0x2000 \<in> rng (fb_back demo_fb) (frame_bytes demo_fb)" "0x2000 \<notin> rng (desktop_bg_cache demo_desktop) (frame_bytes demo_fb)"
    by (simp_all add: rng_def demo_fb_def demo_desktop_def)
  from desktop_background_cached [OF ok demo_font_ok b c d1 d2] obtain s' m' where
    r: "demo_drawn = Inr (s', fst demo_heap, m')" "\<not> desktop_bg_dirty s'"
      "dom m' = dom demo_screen"
    and again: "cache_restores demo_fb demo_blob demo_font (desktop_bg_cache demo_desktop) s' (fst demo_heap) m'"
    unfolding demo_drawn_def by blast
  have "dom (m'(0x2000 \<mapsto> 0x77)) = dom m'" unfolding dom_fun_upd r(3) by (auto simp: demo_screen_def)
  moreover have "\<forall>a\<in>rng (desktop_bg_cache demo_desktop) (frame_bytes demo_fb). (m'(0x2000 \<mapsto> 0x77)) a = m' a" using e(2) by auto
  ultimately obtain m3 where "desktop_draw_background demo_fb demo_blob demo_font (s', fst demo_heap, m'(0x2000 \<mapsto> 0x77)) = Inr (s', fst demo_heap, m3)"
    "m3 0x2000 = m' 0x2000" using again e(1) unfolding cache_restores_def by blast
  then show ?thesis using r(1,2) by blast
qed

end
