(* ===== verification/Vmm.thy ===== *)
theory Vmm
  imports Memory Byte_Memory
begin

text \<open>
  The page tables of \<open>src/kernel/mm/vmm.c\<close>, with the inline parts of \<open>src/kernel/mm/vmm.h\<close>, and
  \<open>map_framebuffer\<close> of \<open>src/kernel/lfb.c\<close>, the client of the module.

  The memory is seen as the 64-bit cells that hold page-table entries, a map from virtual addresses:
  an access to an address that is not mapped is a fault. The tables come from the page pool of the
  theory \<open>Memory\<close>. Parameters are the linker symbols, the answers of \<open>cpuid\<close> and of the boot loader,
  and the boot loader's own allocator, which is asked only once the pool is exhausted. The buffer of
  recent translations is the list of the addresses it may hold one for. Messages on the serial
  line are left out.
\<close>

section \<open>State and parameters\<close>

record pagemap_t =
  levels :: int
  top_level :: u64
  top_level_phys :: u64

datatype page_size = Size4KiB | Size2MiB | Size1GiB

type_synonym pt_mem = "u64 \<Rightarrow> u64 option"

record vmm_env =
  lk_text_lma :: u64
  lk_high_start :: u64
  lk_high_end :: u64
  lk_phys_start :: u64
  lk_phys_end :: u64
  cpuid :: "u32 \<Rightarrow> u32 \<Rightarrow> (u32 \<times> u32 \<times> u32 \<times> u32) option"
  hhdm_response :: "u64 option"
  boot_memmap :: "(u32 \<times> u64) list"
  cr4 :: u64

record 'e vmm =
  vm_pool :: pmm
  vm_ext :: 'e
  vm_mem :: pt_mem
  cr3 :: u64
  kernel_pagemap :: pagemap_t
  tlb :: "u64 list"

record 'e ext_pages =
  ext_mem_alloc :: "'e ext_alloc"
  ext_mem_free :: "'e \<Rightarrow> u64 \<Rightarrow> u64 \<Rightarrow> 'e"

section \<open>Addresses and entries\<close>

definition paging_mode_higher_half :: "int \<Rightarrow> u64" where
  "paging_mode_higher_half paging_mode = (if paging_mode = 1 then 0xff00000000000000 else 0xffff800000000000)"

definition vmm_max_paging_mode :: "vmm_env \<Rightarrow> int" where
  "vmm_max_paging_mode env =
     (case cpuid env 7 0 of Some (eax, ebx, ecx, edx) \<Rightarrow> if ecx AND push_bit 16 1 \<noteq> 0 then 1 else 0 | None \<Rightarrow> 0)"

text \<open>The offset is worked out at the first call and kept; the answers it depends on do not change.\<close>

definition vmm_hhdm_offset :: "vmm_env \<Rightarrow> u64" where
  "vmm_hhdm_offset env =
     (case hhdm_response env of
        Some off \<Rightarrow> if off \<noteq> 0 then off else paging_mode_higher_half (vmm_max_paging_mode env)
      | None \<Rightarrow> paging_mode_higher_half (vmm_max_paging_mode env))"

definition cpu_has_1gib_pages :: "vmm_env \<Rightarrow> bool" where
  "cpu_has_1gib_pages env =
     (case cpuid env 0x80000001 0 of Some (eax, ebx, ecx, edx) \<Rightarrow> edx AND push_bit 26 1 \<noteq> 0 | None \<Rightarrow> False)"

definition phys_to_virt :: "vmm_env \<Rightarrow> u64 \<Rightarrow> u64" where
  "phys_to_virt env phys =
     (if lk_phys_start env \<le> phys \<and> phys < lk_phys_end env then lk_high_start env + (phys - lk_phys_start env)
      else phys + vmm_hhdm_offset env)"

definition virt_to_phys :: "vmm_env \<Rightarrow> u64 \<Rightarrow> u64" where
  "virt_to_phys env va =
     (if lk_high_start env \<le> va \<and> va < lk_high_end env then va - lk_high_start env + lk_phys_start env
      else if vmm_hhdm_offset env \<le> va then va - vmm_hhdm_offset env
      else va)"

definition phys_addr_of :: "vmm_env \<Rightarrow> u64 \<Rightarrow> u64" where
  "phys_addr_of env va = (if lk_high_start env \<le> va then va - lk_high_start env + lk_text_lma env else va)"

abbreviation PT_FLAG_VALID :: u64 where "PT_FLAG_VALID \<equiv> 1"
abbreviation PT_FLAG_WRITE :: u64 where "PT_FLAG_WRITE \<equiv> 2"
abbreviation PT_FLAG_USER :: u64 where "PT_FLAG_USER \<equiv> 4"
abbreviation PT_FLAG_PWT :: u64 where "PT_FLAG_PWT \<equiv> 8"
abbreviation PT_FLAG_PCD :: u64 where "PT_FLAG_PCD \<equiv> 0x10"
abbreviation PT_FLAG_LARGE :: u64 where "PT_FLAG_LARGE \<equiv> 0x80"
abbreviation PT_PADDR_MASK :: u64 where "PT_PADDR_MASK \<equiv> 0x0000FFFFFFFFF000"
abbreviation PT_TABLE_FLAGS :: u64 where "PT_TABLE_FLAGS \<equiv> 7"

definition PT_IS_TABLE :: "u64 \<Rightarrow> bool" where
  "PT_IS_TABLE x \<longleftrightarrow> x AND (PT_FLAG_VALID OR PT_FLAG_LARGE) = PT_FLAG_VALID"

definition PT_IS_LARGE :: "u64 \<Rightarrow> bool" where
  "PT_IS_LARGE x \<longleftrightarrow> x AND (PT_FLAG_VALID OR PT_FLAG_LARGE) = PT_FLAG_VALID OR PT_FLAG_LARGE"

definition pte_addr :: "u64 \<Rightarrow> u64" where
  "pte_addr pte = pte AND PT_PADDR_MASK"

text \<open>The number of an address in a table, counting the levels from 0 for the last one.\<close>

definition pt_index :: "nat \<Rightarrow> u64 \<Rightarrow> u64" where
  "pt_index n va = drop_bit (12 + 9 * n) va AND 0x1ff"

abbreviation slot :: "u64 \<Rightarrow> u64 \<Rightarrow> u64" where
  "slot tbl i \<equiv> tbl + 8 * i"

definition rd_entry :: "pt_mem \<Rightarrow> u64 \<Rightarrow> u64 res" where
  "rd_entry m a = (case m a of None \<Rightarrow> Inl BadRead | Some e \<Rightarrow> Inr e)"

definition wr_entry :: "pt_mem \<Rightarrow> u64 \<Rightarrow> u64 \<Rightarrow> pt_mem res" where
  "wr_entry m a e = (if m a = None then Inl BadWrite else Inr (m(a \<mapsto> e)))"

text \<open>\<open>memset(va, 0, 4096)\<close>\<close>

definition page_mapped :: "pt_mem \<Rightarrow> u64 \<Rightarrow> bool" where
  "page_mapped m va = list_all (\<lambda>i. m (slot va (word_of_nat i)) \<noteq> None) [0..<512]"

definition zero_page :: "u64 \<Rightarrow> pt_mem \<Rightarrow> pt_mem res" where
  "zero_page va m =
     (if page_mapped m va then Inr (\<lambda>a. if a - va < 4096 \<and> m a \<noteq> None then Some 0 else m a) else Inl BadWrite)"

section \<open>Tables\<close>

definition pool_env :: "vmm_env \<Rightarrow> pmm_env" where
  "pool_env env = \<lparr>kernel_phys_end = lk_phys_end env, hhdm_offset = vmm_hhdm_offset env, raw_memmap = boot_memmap env\<rparr>"

text \<open>A call of \<open>pmm_alloc\<close>, which also clears the page.\<close>

definition pool_page :: "vmm_env \<Rightarrow> 'e vmm \<Rightarrow> (u64 \<times> 'e vmm) res" where
  "pool_page env s =
     (case pmm_alloc (pool_env env) (vm_pool s) of (va, p) \<Rightarrow>
      if va = 0 then Inr (0, s\<lparr>vm_pool := p\<rparr>)
      else rbind (zero_page va (vm_mem s)) (\<lambda>m. Inr (va, s\<lparr>vm_pool := p, vm_mem := m\<rparr>)))"

definition alloc_table :: "vmm_env \<Rightarrow> 'e ext_pages \<Rightarrow> 'e vmm \<Rightarrow> (u64 \<times> 'e vmm) res" where
  "alloc_table env ext s =
     rbind (pool_page env s) (\<lambda>(raw, s1).
     let (raw', s2) = (if raw \<noteq> 0 then (raw, s1)
                       else case ext_mem_alloc ext (vm_ext s1) 4096 of (q, e') \<Rightarrow> (q, s1\<lparr>vm_ext := e'\<rparr>));
         virt = phys_to_virt env (virt_to_phys env raw')
     in rbind (zero_page virt (vm_mem s2)) (\<lambda>m. Inr (virt, s2\<lparr>vm_mem := m\<rparr>)))"

definition new_pagemap :: "vmm_env \<Rightarrow> 'e ext_pages \<Rightarrow> int \<Rightarrow> 'e vmm \<Rightarrow> (pagemap_t \<times> 'e vmm) res" where
  "new_pagemap env ext paging_mode s =
     rbind (alloc_table env ext s) (\<lambda>(top, s1).
       Inr (\<lparr>levels = (if paging_mode = 1 then 5 else 4), top_level = top, top_level_phys = virt_to_phys env top\<rparr>, s1))"

text \<open>\<open>current_pagemap\<close> leaves the field \<open>top_level_phys\<close> unset, here 0; nothing reads it.\<close>

definition current_pagemap :: "vmm_env \<Rightarrow> 'e vmm \<Rightarrow> pagemap_t" where
  "current_pagemap env s =
     \<lparr>levels = (if cr4 env AND push_bit 12 1 \<noteq> 0 then 5 else 4),
      top_level = phys_to_virt env (cr3 s AND PT_PADDR_MASK), top_level_phys = 0\<rparr>"

text \<open>The next table on the way, created when there is none; \<open>-1\<close> stands for a large page in the way.\<close>

definition get_next_level :: "vmm_env \<Rightarrow> 'e ext_pages \<Rightarrow> u64 \<Rightarrow> u64 \<Rightarrow> 'e vmm \<Rightarrow> (u64 \<times> 'e vmm) res" where
  "get_next_level env ext current_level entry s =
     rbind (rd_entry (vm_mem s) (slot current_level entry)) (\<lambda>e.
     if PT_IS_TABLE e then Inr (phys_to_virt env (pte_addr e), s)
     else if PT_IS_LARGE e then Inr (-1, s)
     else rbind (alloc_table env ext s) (\<lambda>(t, s1).
          rbind (wr_entry (vm_mem s1) (slot current_level entry) (virt_to_phys env t OR PT_TABLE_FLAGS)) (\<lambda>m.
            Inr (t, s1\<lparr>vm_mem := m\<rparr>))))"

section \<open>Mapping\<close>

text \<open>The page map a request is for: the kernel's when it names none, and the processor's current
  one when that is not set either; then the kernel's is set.\<close>

definition resolve_pagemap :: "vmm_env \<Rightarrow> pagemap_t \<Rightarrow> 'e vmm \<Rightarrow> pagemap_t \<times> 'e vmm" where
  "resolve_pagemap env pm0 s =
     (let pm1 = (if top_level pm0 = 0 then kernel_pagemap s else pm0);
          (pm2, s1) = (if top_level pm1 = 0
                       then (current_pagemap env s, s\<lparr>kernel_pagemap := current_pagemap env s\<rparr>) else (pm1, s))
      in (pm2\<lparr>top_level := phys_to_virt env (virt_to_phys env (top_level pm2))\<rparr>, s1))"

definition large_fallback :: "(u64 \<Rightarrow> 's \<Rightarrow> 's res) \<Rightarrow> 's \<Rightarrow> 's res" where
  "large_fallback f s = rfold f (map (\<lambda>i. word_of_nat i * 0x200000) [0..<512]) s"

text \<open>Bit 12 of the flags asks for the attribute bit that a small page keeps at bit 7.\<close>

definition small_flags :: "u64 \<Rightarrow> u64" where
  "small_flags flags =
     (if flags AND push_bit 12 1 \<noteq> 0 then flags AND NOT (push_bit 12 1) OR push_bit 7 1 else flags)"

function map_page ::
  "vmm_env \<Rightarrow> 'e ext_pages \<Rightarrow> pagemap_t \<Rightarrow> u64 \<Rightarrow> u64 \<Rightarrow> u64 \<Rightarrow> page_size \<Rightarrow> 'e vmm \<Rightarrow> 'e vmm res" where
  "map_page env ext pm0 virt_addr phys_addr flags0 pg_size s0 =
     (case resolve_pagemap env pm0 s0 of (pm, s) \<Rightarrow>
      let flags = flags0 OR PT_FLAG_VALID in
      rbind (if levels pm = 5 then get_next_level env ext (top_level pm) (pt_index 4 virt_addr) s
             else if levels pm = 4 then Inr (top_level pm, s) else Inl BadRead) (\<lambda>(pml4, s1).
      rbind (get_next_level env ext pml4 (pt_index 3 virt_addr) s1) (\<lambda>(pml3, s2).
      if pml3 = -1 then Inr s2
      else if pg_size = Size1GiB then
        (if cpu_has_1gib_pages env
         then rbind (wr_entry (vm_mem s2) (slot pml3 (pt_index 2 virt_addr)) (phys_addr OR flags OR PT_FLAG_LARGE))
                (\<lambda>m. Inr (s2\<lparr>vm_mem := m\<rparr>))
         else large_fallback (\<lambda>i. map_page env ext pm (virt_addr + i) (phys_addr + i) flags Size2MiB) s2)
      else
      rbind (get_next_level env ext pml3 (pt_index 2 virt_addr) s2) (\<lambda>(pml2, s3).
      if pml2 = -1 then Inr s3
      else if pg_size = Size2MiB then
        rbind (wr_entry (vm_mem s3) (slot pml2 (pt_index 1 virt_addr)) (phys_addr OR flags OR PT_FLAG_LARGE))
          (\<lambda>m. Inr (s3\<lparr>vm_mem := m\<rparr>))
      else
      rbind (get_next_level env ext pml2 (pt_index 1 virt_addr) s3) (\<lambda>(pml1, s4).
      if pml1 = -1 then Inr s4 else
      rbind (wr_entry (vm_mem s4) (slot pml1 (pt_index 0 virt_addr)) (phys_addr OR small_flags flags))
        (\<lambda>m. Inr (s4\<lparr>vm_mem := m\<rparr>)))))))"
  by pat_completeness auto

termination
  by (relation "measure (\<lambda>(env, ext, pm, va, pa, fl, sz, s). if sz = Size1GiB then 1 else 0)") auto

declare map_page.simps [simp del]

text \<open>The loop of \<open>map_pages\<close>; the fuel is the number of turns.\<close>

fun map_pages_loop ::
  "nat \<Rightarrow> vmm_env \<Rightarrow> 'e ext_pages \<Rightarrow> pagemap_t \<Rightarrow> u64 \<Rightarrow> u64 \<Rightarrow> u64 \<Rightarrow> u64 \<Rightarrow> u64 \<Rightarrow> 'e vmm \<Rightarrow> 'e vmm res" where
  "map_pages_loop 0 env ext pm virt phys flags cnt i s = (if i < cnt then Inl OutOfFuel else Inr s)"
| "map_pages_loop (Suc fuel) env ext pm virt phys flags cnt i s =
     (if i < cnt then
        (if (phys + i) AND 0x3fffffff = 0 \<and> (virt + i) AND 0x3fffffff = 0 \<and> cnt - i \<ge> 0x40000000
         then rbind (map_page env ext pm (virt + i) (phys + i) flags Size1GiB s)
                (map_pages_loop fuel env ext pm virt phys flags cnt (i + 0x40000000))
         else if (phys + i) AND 0x1fffff = 0 \<and> (virt + i) AND 0x1fffff = 0 \<and> cnt - i \<ge> 0x200000
         then rbind (map_page env ext pm (virt + i) (phys + i) flags Size2MiB s)
                (map_pages_loop fuel env ext pm virt phys flags cnt (i + 0x200000))
         else rbind (map_page env ext pm (virt + i) (phys + i) flags Size4KiB s)
                (map_pages_loop fuel env ext pm virt phys flags cnt (i + 0x1000)))
      else Inr s)"

definition map_pages ::
  "nat \<Rightarrow> vmm_env \<Rightarrow> 'e ext_pages \<Rightarrow> pagemap_t \<Rightarrow> u64 \<Rightarrow> u64 \<Rightarrow> u64 \<Rightarrow> u64 \<Rightarrow> 'e vmm \<Rightarrow> 'e vmm res" where
  "map_pages fuel env ext pm0 virt phys flags cnt s0 =
     (case resolve_pagemap env pm0 s0 of (pm, s) \<Rightarrow> map_pages_loop fuel env ext pm virt phys flags cnt 0 s)"

definition walk_to_pte_create :: "vmm_env \<Rightarrow> 'e ext_pages \<Rightarrow> u64 \<Rightarrow> 'e vmm \<Rightarrow> (u64 \<times> 'e vmm) res" where
  "walk_to_pte_create env ext virt s =
     (let pm = current_pagemap env s in
      rbind (if levels pm = 5 then get_next_level env ext (top_level pm) (pt_index 4 virt) s
             else Inr (top_level pm, s)) (\<lambda>(pml4, s1).
      rbind (get_next_level env ext pml4 (pt_index 3 virt) s1) (\<lambda>(pml3, s2).
      rbind (get_next_level env ext pml3 (pt_index 2 virt) s2) (\<lambda>(pml2, s3).
      rbind (get_next_level env ext pml2 (pt_index 1 virt) s3) (\<lambda>(pml1, s4).
        Inr (slot pml1 (pt_index 0 virt), s4))))))"

section \<open>The interface of the kernel\<close>

definition locate_entry :: "vmm_env \<Rightarrow> u64 \<Rightarrow> 'e vmm \<Rightarrow> (u64 \<times> page_size) option res" where
  "locate_entry env virt s =
     (let pm = current_pagemap env s; m = vm_mem s in
      rbind (if levels pm = 5
             then rbind (rd_entry m (slot (top_level pm) (pt_index 4 virt))) (\<lambda>e5.
                    Inr (if \<not> PT_IS_TABLE e5 then None else Some (phys_to_virt env (pte_addr e5))))
             else Inr (Some (top_level pm))) (\<lambda>r4. case r4 of None \<Rightarrow> Inr None | Some pml4 \<Rightarrow>
      rbind (rd_entry m (slot pml4 (pt_index 3 virt))) (\<lambda>e4.
      if \<not> PT_IS_TABLE e4 then Inr None else
      let pml3 = phys_to_virt env (pte_addr e4) in
      rbind (rd_entry m (slot pml3 (pt_index 2 virt))) (\<lambda>e3.
      if PT_IS_LARGE e3 then Inr (Some (slot pml3 (pt_index 2 virt), Size1GiB))
      else if \<not> PT_IS_TABLE e3 then Inr None else
      let pml2 = phys_to_virt env (pte_addr e3) in
      rbind (rd_entry m (slot pml2 (pt_index 1 virt))) (\<lambda>e2.
      if PT_IS_LARGE e2 then Inr (Some (slot pml2 (pt_index 1 virt), Size2MiB))
      else if \<not> PT_IS_TABLE e2 then Inr None else
      Inr (Some (slot (phys_to_virt env (pte_addr e2)) (pt_index 0 virt), Size4KiB)))))))"

abbreviation VMM_P :: u32 where "VMM_P \<equiv> 1"
abbreviation VMM_RW :: u32 where "VMM_RW \<equiv> 2"
abbreviation VMM_US :: u32 where "VMM_US \<equiv> 4"
abbreviation VMM_PWT :: u32 where "VMM_PWT \<equiv> 8"
abbreviation VMM_PCD :: u32 where "VMM_PCD \<equiv> 0x10"

definition entry_to_legacy_flags :: "u64 \<Rightarrow> u32" where
  "entry_to_legacy_flags entry =
     (if entry AND PT_FLAG_VALID \<noteq> 0 then VMM_P else 0) OR
     (if entry AND PT_FLAG_WRITE \<noteq> 0 then VMM_RW else 0) OR
     (if entry AND PT_FLAG_USER \<noteq> 0 then VMM_US else 0) OR
     (if entry AND PT_FLAG_PWT \<noteq> 0 then VMM_PWT else 0) OR
     (if entry AND PT_FLAG_PCD \<noteq> 0 then VMM_PCD else 0)"

text \<open>\<open>invlpg\<close> and loads of the register that holds the address of the top table, which empty the
  buffer of recent translations (the kernel sets no global pages).\<close>

definition flush_tlb_single :: "u64 \<Rightarrow> 'e vmm \<Rightarrow> 'e vmm" where
  "flush_tlb_single addr s = s\<lparr>tlb := filter (\<lambda>a. drop_bit 12 a \<noteq> drop_bit 12 addr) (tlb s)\<rparr>"

definition write_cr3 :: "u64 \<Rightarrow> 'e vmm \<Rightarrow> 'e vmm" where
  "write_cr3 v s = s\<lparr>cr3 := v, tlb := []\<rparr>"

definition legacy_map_flags :: "u32 \<Rightarrow> u64" where
  "legacy_map_flags flags =
     (if flags AND VMM_RW \<noteq> 0 then PT_FLAG_WRITE else 0) OR
     (if flags AND VMM_PWT \<noteq> 0 then PT_FLAG_PWT else 0) OR
     (if flags AND VMM_PCD \<noteq> 0 then PT_FLAG_PCD else 0)"

definition vmm_map :: "vmm_env \<Rightarrow> 'e ext_pages \<Rightarrow> u64 \<Rightarrow> u64 \<Rightarrow> u32 \<Rightarrow> 'e vmm \<Rightarrow> (int \<times> 'e vmm) res" where
  "vmm_map env ext virt phys flags s =
     (if virt AND 0xFFF \<noteq> 0 \<or> phys AND 0xFFF \<noteq> 0 then Inr (-1, s) else
      rbind (locate_entry env virt s) (\<lambda>r.
      rbind (case r of None \<Rightarrow> Inr False
             | Some (pte, lvl) \<Rightarrow> rbind (rd_entry (vm_mem s) pte) (\<lambda>e. Inr (e AND PT_FLAG_VALID \<noteq> 0))) (\<lambda>used.
      if used then Inr (-3, s) else
      rbind (map_page env ext (current_pagemap env s) virt phys (legacy_map_flags flags) Size4KiB s) (\<lambda>s1.
        Inr (0, flush_tlb_single virt s1)))))"

definition vmm_unmap :: "vmm_env \<Rightarrow> u64 \<Rightarrow> 'e vmm \<Rightarrow> (int \<times> 'e vmm) res" where
  "vmm_unmap env virt s =
     (if virt AND 0xFFF \<noteq> 0 then Inr (-1, s) else
      rbind (locate_entry env virt s) (\<lambda>r. case r of None \<Rightarrow> Inr (-2, s)
      | Some (pte, lvl) \<Rightarrow>
          rbind (rd_entry (vm_mem s) pte) (\<lambda>e.
          if e AND PT_FLAG_VALID = 0 then Inr (-3, s) else
          rbind (wr_entry (vm_mem s) pte 0) (\<lambda>m. Inr (0, flush_tlb_single virt (s\<lparr>vm_mem := m\<rparr>))))))"

definition page_bytes :: "page_size \<Rightarrow> u64" where
  "page_bytes lvl = (case lvl of Size4KiB \<Rightarrow> 0x1000 | Size2MiB \<Rightarrow> 0x200000 | Size1GiB \<Rightarrow> 0x40000000)"

text \<open>The result of \<open>vmm_query\<close>, with what it stores through its two pointers on success.\<close>

definition vmm_query :: "vmm_env \<Rightarrow> u64 \<Rightarrow> 'e vmm \<Rightarrow> (int \<times> (u64 \<times> u32) option) res" where
  "vmm_query env virt s =
     rbind (locate_entry env virt s) (\<lambda>r. case r of None \<Rightarrow> Inr (-1, None)
     | Some (pte, lvl) \<Rightarrow>
         rbind (rd_entry (vm_mem s) pte) (\<lambda>e.
         if e AND PT_FLAG_VALID = 0 then Inr (-2, None)
         else Inr (0, Some (pte_addr e + (virt AND (page_bytes lvl - 1)), entry_to_legacy_flags e))))"

definition vmm_virt_to_phys :: "vmm_env \<Rightarrow> u64 \<Rightarrow> 'e vmm \<Rightarrow> u32 res" where
  "vmm_virt_to_phys env va s =
     rbind (vmm_query env va s) (\<lambda>(r, out). Inr (case out of Some (phys, fl) \<Rightarrow> if r = 0 then ucast phys else 0 | None \<Rightarrow> 0))"

definition vmm_map_page :: "vmm_env \<Rightarrow> 'e ext_pages \<Rightarrow> u64 \<Rightarrow> u64 \<Rightarrow> u32 \<Rightarrow> 'e vmm \<Rightarrow> (int \<times> 'e vmm) res" where
  "vmm_map_page env ext virt phys flags s = vmm_map env ext virt phys (flags OR VMM_P) s"

text \<open>The mask \<open>~0xFFFu\<close> has 32 bits.\<close>

definition vmm_alloc_page :: "vmm_env \<Rightarrow> 'e ext_pages \<Rightarrow> u64 \<Rightarrow> u32 \<Rightarrow> 'e vmm \<Rightarrow> (u64 \<times> 'e vmm) res" where
  "vmm_alloc_page env ext virt flags s =
     rbind (pool_page env s) (\<lambda>(frame, s1).
     if frame = 0 then Inr (0, s1) else
     rbind (vmm_map env ext virt (frame AND 0xFFFFF000) (flags OR VMM_P) s1) (\<lambda>(r, s2).
       if r \<noteq> 0 then Inr (0, s2\<lparr>vm_ext := ext_mem_free ext (vm_ext s2) frame 0x1000\<rparr>) else Inr (virt, s2)))"

text \<open>\<open>Return\<close> is the call of \<open>panic\<close>, which stops the machine.\<close>

definition vmm_alloc_range ::
  "vmm_env \<Rightarrow> 'e ext_pages \<Rightarrow> u64 \<Rightarrow> u64 \<Rightarrow> u64 \<Rightarrow> 'e vmm \<Rightarrow> ('e vmm, 'e vmm) flow res" where
  "vmm_alloc_range env ext va_start sz flags =
     for_loop (\<lambda>i s.
       rbind (pool_page env s) (\<lambda>(pa, s1).
       if pa = 0 then Inr (Return s1) else
       rbind (vmm_map_page env ext (va_start + word_of_nat i * 0x1000) pa (ucast flags) s1) (\<lambda>(r, s2). Inr (Next s2))))
     [0..<unat ((sz + 0xFFF) div 0x1000)]"

definition vmm_reload_cr3 :: "'e vmm \<Rightarrow> 'e vmm" where
  "vmm_reload_cr3 s = write_cr3 (cr3 s) s"

definition vmm_invlpg :: "u64 \<Rightarrow> 'e vmm \<Rightarrow> 'e vmm" where
  "vmm_invlpg addr s = flush_tlb_single addr s"

definition vmm_switch_pagedir :: "u64 \<Rightarrow> 'e vmm \<Rightarrow> 'e vmm" where
  "vmm_switch_pagedir new_pgdir_phys s = (if new_pgdir_phys = 0 then s else write_cr3 new_pgdir_phys s)"

definition vmm_init :: "vmm_env \<Rightarrow> 'e vmm \<Rightarrow> 'e vmm" where
  "vmm_init env s =
     vmm_reload_cr3 (s\<lparr>kernel_pagemap := (current_pagemap env s)\<lparr>top_level_phys := cr3 s AND PT_PADDR_MASK\<rparr>\<rparr>)"

section \<open>The frame buffer\<close>

abbreviation FB_VIRT_BASE :: u32 where "FB_VIRT_BASE \<equiv> 0xE0000000"

definition align_up_u32 :: "u32 \<Rightarrow> u32 \<Rightarrow> u32" where
  "align_up_u32 x a = (x + a - 1) AND NOT (a - 1)"

text \<open>The number of pages \<open>map_framebuffer\<close> maps, and the address it records for the frame buffer.\<close>

definition fb_pages :: "u32 \<Rightarrow> u32 \<Rightarrow> u32 \<Rightarrow> u32" where
  "fb_pages fb_phys fb_pitch fb_h = drop_bit 12 (align_up_u32 ((fb_phys AND 0xFFF) + fb_pitch * fb_h) 0x1000)"

definition fb_map_step :: "vmm_env \<Rightarrow> 'e ext_pages \<Rightarrow> u32 \<Rightarrow> nat \<Rightarrow> 'e vmm \<Rightarrow> 'e vmm res" where
  "fb_map_step env ext fb_phys i s =
     (let va = FB_VIRT_BASE + push_bit 12 (word_of_nat i :: u32);
          pa = (fb_phys AND NOT 0xFFF) + push_bit 12 (word_of_nat i :: u32)
      in rbind (vmm_map env ext (ucast va) (ucast pa) (VMM_RW OR VMM_PWT OR VMM_PCD) s) (\<lambda>(r, s'). Inr s'))"

definition map_framebuffer ::
  "vmm_env \<Rightarrow> 'e ext_pages \<Rightarrow> u32 \<Rightarrow> u32 \<Rightarrow> u32 \<Rightarrow> u32 \<Rightarrow> 'e vmm \<Rightarrow> (u64 \<times> 'e vmm) res" where
  "map_framebuffer env ext fb_phys fb_pitch fb_w fb_h s =
     rbind (rfold (fb_map_step env ext fb_phys) [0..<unat (fb_pages fb_phys fb_pitch fb_h)] s) (\<lambda>s1.
       Inr (ucast (FB_VIRT_BASE + (fb_phys AND 0xFFF)), vmm_reload_cr3 s1))"

text \<open>Filling the frame buffer, on the byte memory: the offset of a row has 32 bits.\<close>

fun fb_fill_row :: "nat \<Rightarrow> u64 \<Rightarrow> u32 \<Rightarrow> mem \<Rightarrow> mem res" where
  "fb_fill_row 0 row rgba m = Inr m"
| "fb_fill_row (Suc n) row rgba m =
     rbind (mst m row (ucast rgba)) (\<lambda>m1. rbind (mst m1 (row + 1) (ucast (drop_bit 8 rgba))) (\<lambda>m2.
     rbind (mst m2 (row + 2) (ucast (drop_bit 16 rgba))) (\<lambda>m3. rbind (mst m3 (row + 3) (ucast (drop_bit 24 rgba)))
       (fb_fill_row n (row + 4) rgba))))"

definition fb_fill :: "u64 \<Rightarrow> u32 \<Rightarrow> u32 \<Rightarrow> u32 \<Rightarrow> u32 \<Rightarrow> mem \<Rightarrow> mem res" where
  "fb_fill fb_virt fb_pitch fb_w fb_h rgba m =
     rfold (\<lambda>y. fb_fill_row (unat fb_w) (fb_virt + ucast (word_of_nat y * fb_pitch)) rgba) [0..<unat fb_h] m"

end
