(* ===== verification/Page_Walk.thy ===== *)
theory Page_Walk
  imports Vmm
begin

text \<open>
  The specification of the page tables, the walk of the processor through them (\<open>pt_leaf\<close>) and the translation
  it gives, and the shape of the tables: a tree in which no table is shared. The theory shows what the write of
  one entry does to the walk of every address.
\<close>

section \<open>The walk of the processor\<close>

text \<open>The entry that decides about an address, and the level it is at. The processor finds the tables by
  their physical addresses; the cells there are those at \<open>phys_to_virt\<close>.\<close>

fun pt_leaf :: "vmm_env \<Rightarrow> pt_mem \<Rightarrow> nat \<Rightarrow> u64 \<Rightarrow> u64 \<Rightarrow> (u64 \<times> nat) option" where
  "pt_leaf env m 0 t va = None"
| "pt_leaf env m (Suc n) t va =
     (case m (slot t (pt_index n va)) of None \<Rightarrow> None | Some e \<Rightarrow>
      if n = 0 then (if e AND PT_FLAG_VALID \<noteq> 0 then Some (e, 0) else None)
      else if PT_IS_TABLE e then pt_leaf env m n (phys_to_virt env (pte_addr e)) va
      else if PT_IS_LARGE e \<and> n \<le> 2 then Some (e, n) else None)"

definition pt_levels :: "vmm_env \<Rightarrow> nat" where
  "pt_levels env = (if cr4 env AND push_bit 12 1 \<noteq> 0 then 5 else 4)"

definition pt_top :: "vmm_env \<Rightarrow> 'e vmm \<Rightarrow> u64" where
  "pt_top env s = phys_to_virt env (cr3 s AND PT_PADDR_MASK)"

definition leaf :: "vmm_env \<Rightarrow> 'e vmm \<Rightarrow> u64 \<Rightarrow> (u64 \<times> nat) option" where
  "leaf env s va = pt_leaf env (vm_mem s) (pt_levels env) (pt_top env s) va"

text \<open>The physical address and the flags: an entry at level \<open>n\<close> maps \<open>2\<^sup>1\<^sup>2 * 512\<^sup>n\<close> bytes.\<close>

definition page_mask :: "nat \<Rightarrow> u64" where
  "page_mask n = mask (12 + 9 * n)"

definition leaf_target :: "u64 \<Rightarrow> u64 \<times> nat \<Rightarrow> u64 \<times> u32" where
  "leaf_target va = (\<lambda>(e, n). ((pte_addr e AND NOT (page_mask n)) + (va AND page_mask n), entry_to_legacy_flags e))"

definition translate :: "vmm_env \<Rightarrow> 'e vmm \<Rightarrow> u64 \<Rightarrow> (u64 \<times> u32) option" where
  "translate env s va = map_option (leaf_target va) (leaf env s va)"

text \<open>The number of the page of \<open>2\<^sup>1\<^sup>2 * 512\<^sup>n\<close> bytes that an address is in, among the addresses that
  tables of \<open>L\<close> levels tell apart.\<close>

definition page_no :: "nat \<Rightarrow> nat \<Rightarrow> u64 \<Rightarrow> u64" where
  "page_no L n va = drop_bit (12 + 9 * n) (take_bit (12 + 9 * L) va)"

section \<open>Words\<close>

lemma mask9: "(0x1ff :: u64) = mask 9" by (simp add: mask_eq_exp_minus_1)

lemma mask12: "(0xFFF :: u64) = mask 12" by (simp add: mask_eq_exp_minus_1)

lemma pt_index_take: "pt_index n va = take_bit 9 (drop_bit (12 + 9 * n) va)"
  by (simp add: pt_index_def mask9 take_bit_eq_mask)

lemma pt_index_lt [simp]: "pt_index n va < 512"
proof -
  have "unat (take_bit 9 (drop_bit (12 + 9 * n) va)) < 2 ^ 9"
    unfolding unsigned_take_bit_eq by (rule take_bit_nat_less_exp)
  then show ?thesis by (simp add: pt_index_take word_less_nat_alt)
qed

lemma and_mask_dvd: "k < 64 \<Longrightarrow> (w :: u64) AND mask k = 0 \<longleftrightarrow> 2 ^ k dvd unat w"
proof -
  have "w AND mask k = 0 \<longleftrightarrow> unat (take_bit k w) = 0" by (simp add: take_bit_eq_mask unat_eq_zero)
  also have "unat (take_bit k w) = unat w mod 2 ^ k" by (simp add: unsigned_take_bit_eq take_bit_nat_def)
  finally show ?thesis by (simp add: dvd_eq_mod_eq_0)
qed

lemma aligned_page: "(w :: u64) AND 0xFFF = 0 \<longleftrightarrow> 4096 dvd unat w"
  using and_mask_dvd [of 12 w] by (simp add: mask12)

lemma unat_slot:
  assumes "4096 dvd unat t" "i < 512"
  shows "unat (slot t i) = unat t + 8 * unat i"
proof -
  have i: "unat i < 512" using assms(2) by (simp add: word_less_nat_alt)
  obtain q where q: "unat t = 4096 * q" using assms(1) by auto
  have "4096 * q < 2 ^ 64" using unat_bound [of t] q by simp
  then have "4096 * q + 4096 \<le> 2 ^ 64" by simp
  then show ?thesis using i q by (simp add: unat_word_ariths)
qed

lemma slot_range:
  assumes "4096 dvd unat t" "i < 512" "4096 dvd unat v"
  shows "slot t i - v < 4096 \<longleftrightarrow> t = v"
proof
  assume x: "slot t i - v < 4096"
  define x' where "x' = slot t i - v"
  have eq: "v + x' = slot t i" by (simp add: x'_def)
  have xl: "unat x' < 4096" using x by (simp add: x'_def word_less_nat_alt)
  obtain q where q: "unat v = 4096 * q" using assms(3) by auto
  obtain r where r: "unat t = 4096 * r" using assms(1) by auto
  have "4096 * q < 2 ^ 64" using unat_bound [of v] q by simp
  then have "4096 * q + 4096 \<le> 2 ^ 64" by simp
  then have "unat (v + x') = 4096 * q + unat x'" using xl q by (simp add: unat_word_ariths)
  then have "4096 * q + unat x' = 4096 * r + 8 * unat i" using eq unat_slot [OF assms(1,2)] r by simp
  moreover have "unat i < 512" using assms(2) by (simp add: word_less_nat_alt)
  moreover have "(4096 * q + unat x') div 4096 = q" using xl by simp
  ultimately have "q = r" by simp
  then show "t = v" using q r by (simp add: word_unat_eq_iff)
next
  assume "t = v"
  moreover have "8 * i < 4096" using assms(2) by (simp add: word_less_nat_alt unat_word_ariths)
  ultimately show "slot t i - v < 4096" by simp
qed

lemma slot_eq:
  assumes "4096 dvd unat t" "i < 512" "4096 dvd unat v" "j < 512"
  shows "slot t i = slot v j \<longleftrightarrow> t = v \<and> i = j"
proof
  assume e: "slot t i = slot v j"
  have "8 * j < 4096" using assms(4) by (simp add: word_less_nat_alt unat_word_ariths)
  then have "slot t i - v < 4096" by (simp add: e)
  then have "t = v" using slot_range [OF assms(1-3)] by simp
  moreover have "unat t + 8 * unat i = unat v + 8 * unat j"
    using e unat_slot [OF assms(1,2)] unat_slot [OF assms(3,4)] by metis
  ultimately show "t = v \<and> i = j" by (simp add: word_unat_eq_iff)
qed simp

lemma page_no_iff:
  assumes "n \<le> L" "L \<le> 5"
  shows "page_no L n va = page_no L n va' \<longleftrightarrow> (\<forall>j. n \<le> j \<longrightarrow> j < L \<longrightarrow> pt_index j va = pt_index j va')"
proof
  assume eq: "page_no L n va = page_no L n va'"
  have b: "bit va q = bit va' q" if "12 + 9 * n \<le> q" "q < 12 + 9 * L" for q
  proof -
    have "bit (page_no L n va) (q - (12 + 9 * n)) = bit (page_no L n va') (q - (12 + 9 * n))" by (simp add: eq)
    then show ?thesis using that by (simp add: page_no_def bit_simps)
  qed
  show "\<forall>j. n \<le> j \<longrightarrow> j < L \<longrightarrow> pt_index j va = pt_index j va'"
  proof (intro allI impI)
    fix j assume j: "n \<le> j" "j < L"
    show "pt_index j va = pt_index j va'"
      unfolding pt_index_take by (rule bit_word_eqI) (use j b in \<open>auto simp: bit_simps\<close>)
  qed
next
  assume a: "\<forall>j. n \<le> j \<longrightarrow> j < L \<longrightarrow> pt_index j va = pt_index j va'"
  have b: "bit va q = bit va' q" if q: "12 + 9 * n \<le> q" "q < 12 + 9 * L" for q
  proof -
    define j where "j = (q - 12) div 9"
    define i where "i = (q - 12) mod 9"
    have ij: "q = 12 + 9 * j + i" "i < 9" using q(1) by (simp_all add: j_def i_def)
    then have "n \<le> j" "j < L" using q by linarith+
    then have "bit (pt_index j va) i = bit (pt_index j va') i" using a by simp
    then show ?thesis using ij by (simp add: pt_index_take bit_simps ac_simps)
  qed
  show "page_no L n va = page_no L n va'"
    unfolding page_no_def by (rule bit_word_eqI) (use b in \<open>auto simp: bit_simps\<close>)
qed

section \<open>The shape of the tables\<close>

text \<open>
  A certificate \<open>own\<close> gives every table the path of indices that leads to it, so no table is
  shared. Every table is a mapped page, the tables an entry names have the path the entry is
  at, and there are no large pages above 1 GiB.
\<close>

definition owned :: "vmm_env \<Rightarrow> nat \<Rightarrow> u64 \<Rightarrow> pt_mem \<Rightarrow> (u64 \<Rightarrow> u64 list option) \<Rightarrow> bool" where
  "owned env L rt m own \<longleftrightarrow> own rt = Some [] \<and>
     (\<forall>t p. own t = Some p \<longrightarrow> length p < L \<and> 4096 dvd unat t \<and> (\<forall>i<512. m (slot t i) \<noteq> None)) \<and>
     (\<forall>t p i e. own t = Some p \<longrightarrow> i < 512 \<longrightarrow> m (slot t i) = Some e \<longrightarrow> Suc (length p) < L \<longrightarrow>
        (PT_IS_TABLE e \<longrightarrow> own (phys_to_virt env (pte_addr e)) = Some (p @ [i])) \<and>
        (PT_IS_LARGE e \<longrightarrow> L \<le> length p + 3))"

lemma ownedD:
  assumes "owned env L rt m own"
  shows "own rt = Some []"
    and "own t = Some p \<Longrightarrow> length p < L" and "own t = Some p \<Longrightarrow> 4096 dvd unat t"
    and "own t = Some p \<Longrightarrow> i < 512 \<Longrightarrow> \<exists>e. m (slot t i) = Some e"
    and "own t = Some p \<Longrightarrow> i < 512 \<Longrightarrow> m (slot t i) = Some e \<Longrightarrow> Suc (length p) < L \<Longrightarrow> PT_IS_TABLE e \<Longrightarrow>
      own (phys_to_virt env (pte_addr e)) = Some (p @ [i])"
    and "own t = Some p \<Longrightarrow> i < 512 \<Longrightarrow> m (slot t i) = Some e \<Longrightarrow> Suc (length p) < L \<Longrightarrow> PT_IS_LARGE e \<Longrightarrow>
      L \<le> length p + 3"
  using assms unfolding owned_def by blast+

lemma owned_slot_eq:
  assumes "owned env L rt m own" "own t = Some p" "own v = Some q" "i < 512" "j < 512"
  shows "slot t i = slot v j \<longleftrightarrow> t = v \<and> i = j"
  using slot_eq ownedD(3) assms by blast

text \<open>The first \<open>k\<close> indices of an address, and the table they lead to.\<close>

definition vpath :: "nat \<Rightarrow> u64 \<Rightarrow> nat \<Rightarrow> u64 list" where
  "vpath L va k = map (\<lambda>j. pt_index (L - 1 - j) va) [0..<k]"

lemma vpath_0 [simp]: "vpath L va 0 = []"
  by (simp add: vpath_def)

lemma vpath_Suc [simp]: "vpath L va (Suc k) = vpath L va k @ [pt_index (L - 1 - k) va]"
  by (simp add: vpath_def)

lemma length_vpath [simp]: "length (vpath L va k) = k"
  by (simp add: vpath_def)

lemma vpath_page_no:
  assumes "n < L" "L \<le> 5"
  shows "vpath L va (L - n) = vpath L va' (L - n) \<longleftrightarrow> page_no L n va = page_no L n va'"
proof -
  have "vpath L va (L - n) = vpath L va' (L - n) \<longleftrightarrow> (\<forall>j<L - n. pt_index (L - 1 - j) va = pt_index (L - 1 - j) va')"
    by (auto simp: vpath_def)
  also have "\<dots> \<longleftrightarrow> (\<forall>j. n \<le> j \<longrightarrow> j < L \<longrightarrow> pt_index j va = pt_index j va')"
  proof (intro iffI allI impI)
    fix j assume a: "\<forall>j<L - n. pt_index (L - 1 - j) va = pt_index (L - 1 - j) va'" and j: "n \<le> j" "j < L"
    have "L - 1 - j < L - n" "L - 1 - (L - 1 - j) = j" using j assms by linarith+
    with a show "pt_index j va = pt_index j va'" by metis
  next
    fix j assume a: "\<forall>j. n \<le> j \<longrightarrow> j < L \<longrightarrow> pt_index j va = pt_index j va'" and j: "j < L - n"
    have "n \<le> L - 1 - j" "L - 1 - j < L" using j assms by linarith+
    with a show "pt_index (L - 1 - j) va = pt_index (L - 1 - j) va'" by metis
  qed
  finally show ?thesis using page_no_iff assms by simp
qed

fun tbl_at :: "vmm_env \<Rightarrow> nat \<Rightarrow> u64 \<Rightarrow> pt_mem \<Rightarrow> u64 \<Rightarrow> nat \<Rightarrow> u64 option" where
  "tbl_at env L rt m va 0 = Some rt"
| "tbl_at env L rt m va (Suc k) =
     (case tbl_at env L rt m va k of None \<Rightarrow> None | Some t \<Rightarrow>
      case m (slot t (pt_index (L - 1 - k) va)) of None \<Rightarrow> None | Some e \<Rightarrow>
      if PT_IS_TABLE e then Some (phys_to_virt env (pte_addr e)) else None)"

lemma tbl_at_owned:
  "owned env L rt m own \<Longrightarrow> k < L \<Longrightarrow> tbl_at env L rt m va k = Some t \<Longrightarrow> own t = Some (vpath L va k)"
proof (induction k arbitrary: t)
  case 0
  then show ?case by (simp add: ownedD(1))
next
  case (Suc k)
  from Suc.prems(3) obtain u e where u: "tbl_at env L rt m va k = Some u"
    and e: "m (slot u (pt_index (L - 1 - k) va)) = Some e" "PT_IS_TABLE e" "t = phys_to_virt env (pte_addr e)"
    by (auto split: option.splits if_splits)
  have "own u = Some (vpath L va k)" using Suc u by simp
  from ownedD(5) [OF Suc.prems(1) this _ e(1)] e Suc.prems(2) show ?case by simp
qed

lemma leaf_from:
  "tbl_at env L rt m va k = Some t \<Longrightarrow> k < L \<Longrightarrow> pt_leaf env m L rt va = pt_leaf env m (L - k) t va"
proof (induction k arbitrary: t)
  case (Suc k)
  from Suc.prems obtain u e where u: "tbl_at env L rt m va k = Some u"
    and e: "m (slot u (pt_index (L - 1 - k) va)) = Some e" "PT_IS_TABLE e" "t = phys_to_virt env (pte_addr e)"
    by (auto split: option.splits if_splits)
  have n: "L - k = Suc (L - Suc k)" "L - 1 - k = L - Suc k" "L - Suc k \<noteq> 0" using Suc.prems(2) by linarith+
  have "pt_leaf env m L rt va = pt_leaf env m (L - k) u va" using Suc u by simp
  also have "\<dots> = pt_leaf env m (L - Suc k) t va" unfolding n(1) using e n by simp
  finally show ?case .
qed simp

section \<open>Writing an entry\<close>

lemma entry_kinds: "\<not> PT_IS_TABLE 0" "\<not> PT_IS_LARGE 0" "PT_IS_TABLE e \<Longrightarrow> \<not> PT_IS_LARGE e"
  by (auto simp: PT_IS_TABLE_def PT_IS_LARGE_def)

text \<open>Memories that agree on all tables have the same shape and give the same walk.\<close>

definition agree :: "(u64 \<Rightarrow> u64 list option) \<Rightarrow> pt_mem \<Rightarrow> pt_mem \<Rightarrow> bool" where
  "agree own m m' \<longleftrightarrow> (\<forall>t p i. own t = Some p \<longrightarrow> i < 512 \<longrightarrow> m' (slot t i) = m (slot t i))"

lemma agree_owned: "agree own m m' \<Longrightarrow> owned env L rt m own \<Longrightarrow> owned env L rt m' own"
  by (simp add: agree_def owned_def)

lemma agree_leaf:
  assumes "agree own m m'" "owned env L rt m own"
  shows "own t = Some (vpath L va k) \<Longrightarrow> k + n = L \<Longrightarrow> pt_leaf env m' n t va = pt_leaf env m n t va"
proof (induction n arbitrary: t k)
  case (Suc n)
  have same: "m' (slot t (pt_index n va)) = m (slot t (pt_index n va))"
    using assms(1) Suc.prems by (simp add: agree_def)
  have i: "L - 1 - k = n" using Suc.prems by simp
  show ?case
  proof (cases "\<exists>e. m (slot t (pt_index n va)) = Some e \<and> PT_IS_TABLE e \<and> n \<noteq> 0")
    case True
    then obtain e where e: "m (slot t (pt_index n va)) = Some e" "PT_IS_TABLE e" "n \<noteq> 0" by auto
    have "own (phys_to_virt env (pte_addr e)) = Some (vpath L va (Suc k))"
      using ownedD(5) [OF assms(2) Suc.prems(1) _ e(1) _ e(2)] Suc.prems e(3) i by simp
    from Suc.IH [OF this] Suc.prems e same show ?thesis by simp
  next
    case False
    then show ?thesis by (auto simp: same split: option.splits)
  qed
qed simp

lemma agree_tbl_at:
  assumes "agree own m m'" "owned env L rt m own"
  shows "k < L \<Longrightarrow> tbl_at env L rt m' va k = tbl_at env L rt m va k"
proof (induction k)
  case (Suc k)
  show ?case
  proof (cases "tbl_at env L rt m va k")
    case None
    then show ?thesis using Suc by simp
  next
    case (Some t)
    have "own t = Some (vpath L va k)" using tbl_at_owned [OF assms(2) _ Some] Suc by simp
    then have "m' (slot t (pt_index (L - 1 - k) va)) = m (slot t (pt_index (L - 1 - k) va))"
      using assms(1) by (simp add: agree_def)
    then show ?thesis using Suc Some by simp
  qed
qed simp

lemma owned_write:
  assumes o: "owned env L rt m own" and u: "own u = Some p" "i < 512"
    and e: "Suc (length p) < L \<Longrightarrow> PT_IS_TABLE e \<Longrightarrow> own (phys_to_virt env (pte_addr e)) = Some (p @ [i])"
      "Suc (length p) < L \<Longrightarrow> PT_IS_LARGE e \<Longrightarrow> L \<le> length p + 3"
  shows "owned env L rt (m(slot u i \<mapsto> e)) own"
  unfolding owned_def
proof (intro conjI allI impI)
  show "own rt = Some []" by (rule ownedD(1) [OF o])
next
  fix t q assume t: "own t = Some q"
  show "length q < L" "4096 dvd unat t" using ownedD(2,3) [OF o t] .
  fix j :: u64 assume "j < 512"
  then show "(m(slot u i \<mapsto> e)) (slot t j) \<noteq> None" using ownedD(4) [OF o t] by auto
next
  fix t q j e' assume t: "own t = Some q" "j < 512" "(m(slot u i \<mapsto> e)) (slot t j) = Some e'" "Suc (length q) < L"
  have cs: "(t = u \<and> j = i \<and> e' = e) \<or> (m (slot t j) = Some e')"
    using t(3) owned_slot_eq [OF o t(1) u(1) t(2) u(2)] by (auto split: if_splits)
  show "own (phys_to_virt env (pte_addr e')) = Some (q @ [j])" if "PT_IS_TABLE e'"
    using cs e(1) ownedD(5) [OF o t(1,2) _ t(4) that] t u that by auto
  show "L \<le> length q + 3" if "PT_IS_LARGE e'"
    using cs e(2) ownedD(6) [OF o t(1,2) _ t(4) that] t u that by auto
qed

text \<open>The walk of an address that does not use the entry is not changed, and the way to its table neither.\<close>

lemma leaf_write_other:
  assumes o: "owned env L rt m own" and u: "own u = Some p" "i < 512"
    and n: "vpath L va (Suc (length p)) \<noteq> p @ [i]"
  shows "own t = Some (vpath L va k) \<Longrightarrow> k + n = L \<Longrightarrow> pt_leaf env (m(slot u i \<mapsto> e)) n t va = pt_leaf env m n t va"
proof (induction n arbitrary: t k)
  case (Suc n)
  have i: "L - 1 - k = n" using Suc.prems by simp
  have "slot t (pt_index n va) \<noteq> slot u i"
  proof
    assume "slot t (pt_index n va) = slot u i"
    then have "t = u" "pt_index n va = i" using owned_slot_eq [OF o Suc.prems(1) u(1) _ u(2)] by simp_all
    with Suc.prems(1) u(1) have "vpath L va k = p" "k = length p" by (auto dest: sym)
    with n i \<open>pt_index n va = i\<close> show False by simp
  qed
  then have same: "(m(slot u i \<mapsto> e)) (slot t (pt_index n va)) = m (slot t (pt_index n va))" by simp
  show ?case
  proof (cases "\<exists>e. m (slot t (pt_index n va)) = Some e \<and> PT_IS_TABLE e \<and> n \<noteq> 0")
    case True
    then obtain e' where e: "m (slot t (pt_index n va)) = Some e'" "PT_IS_TABLE e'" "n \<noteq> 0" by auto
    have "own (phys_to_virt env (pte_addr e')) = Some (vpath L va (Suc k))"
      using ownedD(5) [OF o Suc.prems(1) _ e(1) _ e(2)] Suc.prems e(3) i by simp
    from Suc.IH [OF this] Suc.prems e same show ?thesis by (simp del: fun_upd_apply)
  next
    case False
    then show ?thesis by (auto simp: same simp del: fun_upd_apply split: option.splits)
  qed
qed simp

lemma tbl_at_write:
  assumes o: "owned env L rt m own" and u: "own u = Some p" "i < 512"
  shows "k \<le> length p \<Longrightarrow> tbl_at env L rt m va k = Some t \<Longrightarrow> tbl_at env L rt (m(slot u i \<mapsto> e)) va k = Some t"
proof (induction k arbitrary: t)
  case (Suc k)
  from Suc.prems obtain v where v: "tbl_at env L rt m va k = Some v" by (auto split: option.splits)
  have "length p < L" using ownedD(2) [OF o u(1)] .
  then have ov: "own v = Some (vpath L va k)" using tbl_at_owned [OF o _ v] Suc.prems by simp
  then have "v \<noteq> u" using u(1) Suc.prems(1) by auto
  then have "slot v (pt_index (L - 1 - k) va) \<noteq> slot u i" using owned_slot_eq [OF o ov u(1) _ u(2)] by simp
  then show ?case using Suc v by simp
qed simp

definition leaf_of_entry :: "nat \<Rightarrow> u64 \<Rightarrow> (u64 \<times> nat) option" where
  "leaf_of_entry n e =
     (if n = 0 then (if e AND PT_FLAG_VALID \<noteq> 0 then Some (e, 0) else None)
      else if PT_IS_LARGE e \<and> n \<le> 2 then Some (e, n) else None)"

lemma tbl_at_same_path:
  "vpath L va k = vpath L va' k \<Longrightarrow> tbl_at env L rt m va k = tbl_at env L rt m va' k"
  by (induction k) (simp_all split: option.splits)

text \<open>An entry that is not a table changes the walk of exactly the addresses that reach it.\<close>

lemma leaf_write:
  assumes o: "owned env L rt m own" and k: "k < L" and t: "tbl_at env L rt m va k = Some t"
    and e: "Suc k < L \<Longrightarrow> \<not> PT_IS_TABLE e" and m': "m' = m(slot t (pt_index (L - 1 - k) va) \<mapsto> e)"
  shows "pt_leaf env m' L rt va' =
    (if vpath L va' (Suc k) = vpath L va (Suc k) then leaf_of_entry (L - 1 - k) e else pt_leaf env m L rt va')"
proof (cases "vpath L va' (Suc k) = vpath L va (Suc k)")
  case True
  have ow: "own t = Some (vpath L va k)" using tbl_at_owned [OF o k t] .
  have "tbl_at env L rt m va' k = Some t" using True tbl_at_same_path [of L va k va'] t by simp
  then have t': "tbl_at env L rt m' va' k = Some t" unfolding m' using tbl_at_write [OF o ow] by simp
  have n: "L - k = Suc (L - 1 - k)" using k by simp
  have i: "pt_index (L - 1 - k) va' = pt_index (L - 1 - k) va" using True by simp
  have "pt_leaf env m' L rt va' = pt_leaf env m' (Suc (L - 1 - k)) t va'" using leaf_from [OF t' k] n by simp
  also have "\<dots> = leaf_of_entry (L - 1 - k) e" using e i k by (auto simp: m' leaf_of_entry_def)
  finally show ?thesis using True by simp
next
  case False
  have ow: "own t = Some (vpath L va k)" using tbl_at_owned [OF o k t] .
  have "pt_leaf env m' L rt va' = pt_leaf env m L rt va'"
    unfolding m' by (rule leaf_write_other [OF o ow, of _ _ _ 0]) (use False ownedD(1) [OF o] in simp_all)
  then show ?thesis using False by (simp del: vpath_Suc)
qed

lemma zero_table_leaf: "(\<forall>i<512. m (slot t i) = Some 0) \<Longrightarrow> pt_leaf env m n t va = None"
  by (cases n) (simp_all add: entry_kinds)

end
