(* ===== verification/Vmm_Theorems.thy ===== *)
theory Vmm_Theorems
  imports Page_Walk
begin

text \<open>
  What the operations of the theory \<open>Vmm\<close> do to the translation of \<open>Page_Walk\<close>. Mapping, unmapping, the mapping
  of ranges and the mapping of the frame buffer are shown to be updates of it; the invariant \<open>vmm_ok\<close> that they
  keep says that the tables form a tree, that the free pages of the pool are none of them, and that the
  addresses of the pool and of the top table are such that the direct map finds them.
\<close>

section \<open>Taking a table from the pool\<close>

lemma mask_paddr: "PT_PADDR_MASK = mask 48 AND NOT (mask 12)"
  by (simp add: mask_eq_exp_minus_1)

lemma paddr_id: "4096 dvd unat p \<Longrightarrow> unat p < 2 ^ 48 \<Longrightarrow> p AND PT_PADDR_MASK = p"
proof -
  assume a: "4096 dvd unat p" "unat p < 2 ^ 48"
  have "unat (take_bit 48 p) = unat p" using a(2) by (simp add: unsigned_take_bit_eq take_bit_nat_eq_self)
  then have p48: "p AND mask 48 = p" by (simp add: word_unat_eq_iff take_bit_eq_mask)
  have "p AND mask 12 = 0" using a(1) and_mask_dvd [of 12 p] by simp
  moreover have "p = (p AND mask 12) OR (p AND NOT (mask 12))" by (simp flip: bit.conj_disj_distrib)
  ultimately have "p AND NOT (mask 12) = p" by simp
  then show ?thesis unfolding mask_paddr and.assoc [symmetric] p48 .
qed

lemma pte_addr_or: "4096 dvd unat p \<Longrightarrow> unat p < 2 ^ 48 \<Longrightarrow> f AND PT_PADDR_MASK = 0 \<Longrightarrow> pte_addr (p OR f) = p"
  unfolding pte_addr_def by (simp only: bit.conj_disj_distrib2 paddr_id) simp

lemma low_bits_or:
  assumes "4096 dvd unat p" "c AND 0xFFF = c"
  shows "(p OR f) AND c = f AND (c :: u64)"
proof -
  have "p AND c = (p AND 0xFFF) AND c" using assms(2) by (metis and.assoc and.commute)
  also have "\<dots> = 0" using assms(1) aligned_page [of p] by simp
  finally show ?thesis by (simp add: bit.conj_disj_distrib2)
qed

lemma table_entry_kind: "4096 dvd unat p \<Longrightarrow> PT_IS_TABLE (p OR PT_TABLE_FLAGS)"
  unfolding PT_IS_TABLE_def by (subst low_bits_or) simp_all

lemma page_mapped_iff: "page_mapped m t \<longleftrightarrow> (\<forall>i<512. m (slot t i) \<noteq> None)"
proof
  assume a: "page_mapped m t"
  show "\<forall>i<512. m (slot t i) \<noteq> None"
  proof (intro allI impI)
    fix i :: u64 assume "i < 512"
    then have "unat i \<in> set [0..<512]" by (simp add: word_less_nat_alt)
    with a have "m (slot t (word_of_nat (unat i))) \<noteq> None" unfolding page_mapped_def list_all_iff by blast
    then show "m (slot t i) \<noteq> None" by simp
  qed
next
  assume a: "\<forall>i<512. m (slot t i) \<noteq> None"
  show "page_mapped m t"
    unfolding page_mapped_def list_all_iff
  proof
    fix i assume "i \<in> set [0..<512]"
    then have "(word_of_nat i :: u64) < 512" by (simp add: word_less_nat_alt unat_of_nat)
    with a show "m (slot t (word_of_nat i)) \<noteq> None" by blast
  qed
qed

lemma zero_page_spec:
  assumes "\<forall>i<512. m (slot t i) \<noteq> None" "4096 dvd unat t"
  obtains m' where "zero_page t m = Inr m'" "\<forall>i<512. m' (slot t i) = Some 0" "\<And>a. m' a = None \<longleftrightarrow> m a = None"
    "\<And>u i. 4096 dvd unat u \<Longrightarrow> i < 512 \<Longrightarrow> u \<noteq> t \<Longrightarrow> m' (slot u i) = m (slot u i)"
proof (rule that)
  let ?m = "\<lambda>a. if a - t < 4096 \<and> m a \<noteq> None then Some 0 else m a"
  show "zero_page t m = Inr ?m" using assms(1) by (simp add: zero_page_def page_mapped_iff)
  show "\<forall>i<512. ?m (slot t i) = Some 0" using assms slot_range [OF assms(2) _ assms(2)] by auto
  show "?m (slot u i) = m (slot u i)" if "4096 dvd unat u" "i < 512" "u \<noteq> t" for u i
    using slot_range [OF that(1,2) assms(2)] that(3) by simp
qed simp

text \<open>The pages of the pool that are still free, as addresses.\<close>

definition free_page :: "vmm_env \<Rightarrow> 'e vmm \<Rightarrow> u64 \<Rightarrow> bool" where
  "free_page env s t \<longleftrightarrow>
     (\<exists>phys. 4096 dvd unat phys \<and> unat (fb_cursor (vm_pool s)) \<le> unat phys \<and>
        unat phys + 4096 \<le> unat (fb_limit (vm_pool s)) \<and> t = phys + vmm_hhdm_offset env)"

text \<open>The pool lies behind the kernel in physical memory, below \<open>2\<^sup>4\<^sup>8\<close>, and its direct map
  below the image of the kernel.\<close>

definition layout_ok :: "vmm_env \<Rightarrow> pmm \<Rightarrow> bool" where
  "layout_ok env p \<longleftrightarrow>
     lk_phys_end env \<le> fb_base p \<and> unat (fb_limit p) \<le> 2 ^ 48 \<and> 4096 dvd unat (vmm_hhdm_offset env) \<and>
     unat (fb_limit p) + unat (vmm_hhdm_offset env) \<le> unat (lk_high_start env) \<and> pmm_ok (pool_env env) p"

definition pages_left :: "'e vmm \<Rightarrow> nat" where
  "pages_left s = (unat (fb_limit (vm_pool s)) - unat (fb_cursor (vm_pool s))) div 4096"

lemma pool_page_numbers:
  assumes lay: "layout_ok env p" and phys: "4096 dvd unat phys" "unat (fb_cursor p) \<le> unat phys"
    "unat phys + 4096 \<le> unat (fb_limit p)"
  defines "t \<equiv> phys + vmm_hhdm_offset env"
  shows "unat t = unat phys + unat (vmm_hhdm_offset env)" "4096 dvd unat t" "virt_to_phys env t = phys"
    "phys_to_virt env phys = t" "unat phys < 2 ^ 48"
proof -
  have ok: "pmm_ok (pool_env env) p" and l: "lk_phys_end env \<le> fb_base p" "unat (fb_limit p) \<le> 2 ^ 48"
    "4096 dvd unat (vmm_hhdm_offset env)" "unat (fb_limit p) + unat (vmm_hhdm_offset env) \<le> unat (lk_high_start env)"
    using lay by (simp_all add: layout_ok_def)
  note n = pmm_ok_numbers [OF ok]
  have h: "hhdm_offset (pool_env env) = vmm_hhdm_offset env" by (simp add: pool_env_def)
  show u: "unat t = unat phys + unat (vmm_hhdm_offset env)"
    using phys l(4) unat_bound [of "lk_high_start env"] unfolding t_def by (simp add: unat_word_ariths)
  show "4096 dvd unat t" using u phys(1) l(3) by simp
  have "\<not> lk_high_start env \<le> t" using u phys(3) l(4) by (simp add: word_le_nat_alt)
  moreover have "vmm_hhdm_offset env \<le> t" using u by (simp add: word_le_nat_alt)
  ultimately show "virt_to_phys env t = phys" by (simp add: virt_to_phys_def t_def)
  have "\<not> phys < lk_phys_end env" using l(1) phys(2) n(3) by (simp add: word_le_nat_alt word_less_nat_alt)
  then show "phys_to_virt env phys = t" by (simp add: phys_to_virt_def t_def)
  show "unat phys < 2 ^ 48" using phys(3) l(2) by simp
qed

lemma free_page_numbers:
  assumes "layout_ok env (vm_pool s)" "free_page env s t"
  shows "4096 dvd unat t" "t \<noteq> 0"
proof -
  from assms(2) obtain phys where p: "4096 dvd unat phys" "unat (fb_cursor (vm_pool s)) \<le> unat phys"
      "unat phys + 4096 \<le> unat (fb_limit (vm_pool s))" "t = phys + vmm_hhdm_offset env"
    by (auto simp: free_page_def)
  note n = pool_page_numbers [OF assms(1) p(1-3)]
  show "4096 dvd unat t" using n(2) p(4) by simp
  have "0 < unat phys" using pmm_ok_numbers [of "pool_env env" "vm_pool s"] assms(1) p(2) by (simp add: layout_ok_def)
  then show "t \<noteq> 0" using n(1) p(4) by (metis add_is_0 less_numeral_extra(3) unat_0)
qed

text \<open>What a call that takes a page leaves of the pool.\<close>

definition pool_taken :: "vmm_env \<Rightarrow> u64 \<Rightarrow> 'e vmm \<Rightarrow> 'e vmm \<Rightarrow> bool" where
  "pool_taken env t s s' \<longleftrightarrow>
     free_page env s t \<and> \<not> free_page env s' t \<and> (\<forall>u. free_page env s' u \<longrightarrow> free_page env s u) \<and>
     layout_ok env (vm_pool s') \<and> pages_left s = Suc (pages_left s') \<and>
     virt_to_phys env t = fb_cursor (vm_pool s) \<and> 4096 dvd unat (fb_cursor (vm_pool s)) \<and>
     unat (fb_cursor (vm_pool s)) < 2 ^ 48 \<and> phys_to_virt env (fb_cursor (vm_pool s)) = t"

lemma pmm_alloc_taken:
  assumes lay: "layout_ok env (vm_pool s)" and room: "pages_left s \<noteq> 0"
  obtains t p where "pmm_alloc (pool_env env) (vm_pool s) = (t, p)" "t \<noteq> 0"
    "\<And>m. pool_taken env t s (s\<lparr>vm_pool := p, vm_mem := m\<rparr>)"
proof -
  let ?p = "vm_pool s" and ?h = "vmm_hhdm_offset env"
  have ok: "pmm_ok (pool_env env) ?p" using lay by (simp add: layout_ok_def)
  have r: "unat (fb_cursor ?p) + 4096 \<le> unat (fb_limit ?p)" using room by (simp add: pages_left_def div_eq_0_iff)
  have h: "hhdm_offset (pool_env env) = ?h" by (simp add: pool_env_def)
  let ?t = "fb_cursor ?p + ?h"
  define p' where "p' = ?p\<lparr>fb_cursor := fb_cursor ?p + 4096, pmm_mem := zero_range ?t 4096 (pmm_mem ?p)\<rparr>"
  have a: "pmm_alloc (pool_env env) ?p = (?t, p')" "?t \<noteq> 0" "unat (fb_cursor ?p + 4096) = unat (fb_cursor ?p) + 4096"
    using contig_cases [OF ok, of 4096 1] r by (auto simp: pmm_alloc_is_contig h p'_def)
  have al: "4096 dvd unat (fb_cursor ?p)" using ok by (simp add: pmm_ok_def)
  note n = pool_page_numbers [OF lay al order_refl r]
  have fields: "fb_base p' = fb_base ?p" "fb_limit p' = fb_limit ?p" "fb_cursor p' = fb_cursor ?p + 4096"
    by (simp_all add: p'_def)
  have "pmm_ok (pool_env env) p'" using contig_ok [OF ok, of 1 ?t p'] a(1) by (simp add: pmm_alloc_is_contig)
  then have lay': "layout_ok env p'" using lay by (simp add: layout_ok_def fields)
  have "pool_taken env ?t s (s\<lparr>vm_pool := p', vm_mem := m\<rparr>)" for m
    unfolding pool_taken_def
  proof (intro conjI allI impI)
    show "free_page env s ?t" unfolding free_page_def using al r by blast
    show "\<not> free_page env (s\<lparr>vm_pool := p', vm_mem := m\<rparr>) ?t" using a(3) by (auto simp: free_page_def fields)
    show "free_page env s u" if u: "free_page env (s\<lparr>vm_pool := p', vm_mem := m\<rparr>) u" for u
    proof -
      from u obtain phys where "4096 dvd unat phys" "unat (fb_cursor ?p) + 4096 \<le> unat phys"
          "unat phys + 4096 \<le> unat (fb_limit ?p)" "u = phys + ?h"
        unfolding free_page_def by (auto simp: fields a(3))
      moreover from this(2) have "unat (fb_cursor ?p) \<le> unat phys" by simp
      ultimately show ?thesis unfolding free_page_def by blast
    qed
    show "pages_left s = Suc (pages_left (s\<lparr>vm_pool := p', vm_mem := m\<rparr>))"
    proof -
      obtain x where "unat (fb_limit ?p) = unat (fb_cursor ?p) + 4096 + x" using r le_Suc_ex by blast
      then show ?thesis by (simp add: pages_left_def fields a(3))
    qed
  qed (use lay' n al in simp_all)
  with a(1,2) show ?thesis by (rule that)
qed

section \<open>The invariant\<close>

definition vmm_inv :: "vmm_env \<Rightarrow> (u64 \<Rightarrow> u64 list option) \<Rightarrow> 'e vmm \<Rightarrow> bool" where
  "vmm_inv env own s \<longleftrightarrow>
     owned env (pt_levels env) (pt_top env s) (vm_mem s) own \<and> layout_ok env (vm_pool s) \<and>
     (\<forall>t. free_page env s t \<longrightarrow> own t = None \<and> (\<forall>i<512. vm_mem s (slot t i) \<noteq> None)) \<and>
     pt_top env s \<noteq> 0 \<and> virt_to_phys env (pt_top env s) = cr3 s AND PT_PADDR_MASK"

text \<open>Page tables in order: a certificate exists, the free pages of the pool are mapped and no
  tables, and the top table is where its two addresses agree.\<close>

definition vmm_ok :: "vmm_env \<Rightarrow> 'e vmm \<Rightarrow> bool" where
  "vmm_ok env s \<longleftrightarrow> (\<exists>own. vmm_inv env own s)"

abbreviation tbl :: "vmm_env \<Rightarrow> 'e vmm \<Rightarrow> u64 \<Rightarrow> nat \<Rightarrow> u64 option" where
  "tbl env s \<equiv> tbl_at env (pt_levels env) (pt_top env s) (vm_mem s)"

definition vm_same :: "'e vmm \<Rightarrow> 'e vmm \<Rightarrow> bool" where
  "vm_same s s' \<longleftrightarrow> cr3 s' = cr3 s \<and> kernel_pagemap s' = kernel_pagemap s \<and> tlb s' = tlb s \<and> vm_ext s' = vm_ext s"

text \<open>At most \<open>n\<close> pages were taken and no translation has changed.\<close>

definition grown :: "vmm_env \<Rightarrow> nat \<Rightarrow> 'e vmm \<Rightarrow> 'e vmm \<Rightarrow> bool" where
  "grown env n s s' \<longleftrightarrow> (\<forall>va. leaf env s' va = leaf env s va) \<and> pages_left s \<le> pages_left s' + n \<and> vm_same s s'"

lemma grown_refl: "grown env n s s"
  by (simp add: grown_def vm_same_def)

lemma grown_trans: "grown env a s s' \<Longrightarrow> grown env b s' s'' \<Longrightarrow> grown env (a + b) s s''"
  by (auto simp: grown_def vm_same_def)

lemma pt_levels_range: "4 \<le> pt_levels env" "pt_levels env \<le> 5"
  by (simp_all add: pt_levels_def)

lemma pt_top_mem [simp]: "pt_top env (s\<lparr>vm_mem := m\<rparr>) = pt_top env s" "pt_top env (s\<lparr>vm_pool := p\<rparr>) = pt_top env s"
  by (simp_all add: pt_top_def)

lemma alloc_table_spec:
  assumes inv: "vmm_inv env own s" and room: "pages_left s \<noteq> 0"
  obtains t p m where "alloc_table env ext s = Inr (t, s\<lparr>vm_pool := p, vm_mem := m\<rparr>)"
    "\<And>m'. pool_taken env t s (s\<lparr>vm_pool := p, vm_mem := m'\<rparr>)" "\<forall>i<512. m (slot t i) = Some 0"
    "\<And>a. m a = None \<longleftrightarrow> vm_mem s a = None"
    "\<And>u i. 4096 dvd unat u \<Longrightarrow> i < 512 \<Longrightarrow> u \<noteq> t \<Longrightarrow> m (slot u i) = vm_mem s (slot u i)"
proof -
  have lay: "layout_ok env (vm_pool s)" using inv by (simp add: vmm_inv_def)
  from pmm_alloc_taken [OF lay room] obtain t p where a: "pmm_alloc (pool_env env) (vm_pool s) = (t, p)" "t \<noteq> 0"
    and tk: "\<And>m. pool_taken env t s (s\<lparr>vm_pool := p, vm_mem := m\<rparr>)" by blast
  have f: "free_page env s t" using tk by (simp add: pool_taken_def)
  have al: "4096 dvd unat t" using free_page_numbers [OF lay f] by simp
  have mp: "\<forall>i<512. vm_mem s (slot t i) \<noteq> None" using inv f by (simp add: vmm_inv_def)
  obtain m1 where m1: "zero_page t (vm_mem s) = Inr m1" "\<And>a. m1 a = None \<longleftrightarrow> vm_mem s a = None"
    "\<And>u i. 4096 dvd unat u \<Longrightarrow> i < 512 \<Longrightarrow> u \<noteq> t \<Longrightarrow> m1 (slot u i) = vm_mem s (slot u i)"
    by (rule zero_page_spec [OF mp al]) blast
  have "\<forall>i<512. m1 (slot t i) \<noteq> None" using mp m1(2) by simp
  then obtain m2 where m2: "zero_page t m1 = Inr m2" "\<forall>i<512. m2 (slot t i) = Some 0" "\<And>a. m2 a = None \<longleftrightarrow> m1 a = None"
    "\<And>u i. 4096 dvd unat u \<Longrightarrow> i < 512 \<Longrightarrow> u \<noteq> t \<Longrightarrow> m2 (slot u i) = m1 (slot u i)"
    by (rule zero_page_spec [OF _ al]) blast
  have v: "phys_to_virt env (virt_to_phys env t) = t" using tk by (simp add: pool_taken_def)
  have "alloc_table env ext s = Inr (t, s\<lparr>vm_pool := p, vm_mem := m2\<rparr>)"
    using a m1(1) m2(1) v by (simp add: alloc_table_def pool_page_def)
  then show ?thesis using tk m2 m1 by (intro that [where t = t and p = p and m = m2]) simp_all
qed

text \<open>A new table in an entry that is not in use: first the empty table gets its path, then the entry is written.\<close>

lemma owned_fresh:
  assumes o: "owned env L rt m own" and fresh: "own t = None" "4096 dvd unat t" "\<forall>i<512. m (slot t i) = Some 0"
    and q: "length q < L"
  shows "owned env L rt m (own(t \<mapsto> q))"
  unfolding owned_def
proof (intro conjI allI impI)
  show "(own(t \<mapsto> q)) rt = Some []" using ownedD(1) [OF o] fresh by auto
next
  fix u r assume u: "(own(t \<mapsto> q)) u = Some r"
  show "length r < L" "4096 dvd unat u"
    using u fresh q ownedD(2,3) [OF o, of u r] by (auto split: if_splits)
  fix i :: u64 assume "i < 512"
  then show "m (slot u i) \<noteq> None" using u fresh ownedD(4) [OF o, of u r] by (auto split: if_splits)
next
  fix u r i w assume u: "(own(t \<mapsto> q)) u = Some r" "i < 512" "m (slot u i) = Some w" "Suc (length r) < L"
  have u': "own u = Some r" if "PT_IS_TABLE w \<or> PT_IS_LARGE w"
    using that u fresh entry_kinds by (cases "u = t") auto
  show "(own(t \<mapsto> q)) (phys_to_virt env (pte_addr w)) = Some (r @ [i])" if "PT_IS_TABLE w"
    using ownedD(5) [OF o u' u(2,3,4)] that fresh(1) by auto
  show "L \<le> length r + 3" if "PT_IS_LARGE w"
    using ownedD(6) [OF o u' u(2,3,4)] that by auto
qed

lemma leaf_link:
  assumes o: "owned env L rt m own" and k: "Suc k < L" and t: "tbl_at env L rt m va k = Some t"
    and e: "m (slot t (pt_index (L - 1 - k) va)) = Some e" "\<not> PT_IS_TABLE e" "\<not> PT_IS_LARGE e"
    and t': "own t' = Some (vpath L va (Suc k))" "\<forall>i<512. m (slot t' i) = Some 0"
    and e': "PT_IS_TABLE e'" "phys_to_virt env (pte_addr e') = t'"
    and m': "m' = m(slot t (pt_index (L - 1 - k) va) \<mapsto> e')"
  shows "tbl_at env L rt m' va (Suc k) = Some t'" and "pt_leaf env m' L rt va' = pt_leaf env m L rt va'"
proof -
  let ?i = "pt_index (L - 1 - k) va"
  have ot: "own t = Some (vpath L va k)" using tbl_at_owned [OF o _ t] k by simp
  then have nt: "t \<noteq> t'" using t'(1) by auto
  have "tbl_at env L rt m' va k = Some t" unfolding m' using tbl_at_write [OF o ot] t by simp
  then show tb: "tbl_at env L rt m' va (Suc k) = Some t'" using e' by (simp add: m')
  show "pt_leaf env m' L rt va' = pt_leaf env m L rt va'"
  proof (cases "vpath L va' (Suc k) = vpath L va (Suc k)")
    case True
    have z2: "\<forall>i<512. m' (slot t' i) = Some 0" using t' nt owned_slot_eq [OF o t'(1) ot] by (simp add: m')
    have "tbl_at env L rt m' va' (Suc k) = Some t'" using tbl_at_same_path [OF True] tb by simp
    then have none: "pt_leaf env m' L rt va' = None"
      using leaf_from [of env L rt m' va' "Suc k" t'] zero_table_leaf [OF z2] k by simp
    have n: "L - k = Suc (L - 1 - k)" "L - 1 - k \<noteq> 0" using k by linarith+
    have "tbl_at env L rt m va' k = Some t" using tbl_at_same_path [of L va' k va env rt m] True t by simp
    from leaf_from [OF this] k n(1) have "pt_leaf env m L rt va' = pt_leaf env m (Suc (L - 1 - k)) t va'" by simp
    also have "\<dots> = None" using True e n by simp
    finally show ?thesis using none by simp
  next
    case False
    have "own rt = Some (vpath L va' 0)" using ownedD(1) [OF o] by simp
    from leaf_write_other [OF o ot _ _ this, of ?i L e'] False show ?thesis by (simp add: m')
  qed
qed

lemma link_table:
  assumes inv: "vmm_inv env own s" and k: "Suc k < pt_levels env" and t: "tbl env s va k = Some t"
    and e: "vm_mem s (slot t (pt_index (pt_levels env - 1 - k) va)) = Some e" "\<not> PT_IS_TABLE e" "\<not> PT_IS_LARGE e"
    and tk: "\<And>m'. pool_taken env t' s (s\<lparr>vm_pool := p, vm_mem := m'\<rparr>)"
    and z: "\<forall>i<512. m (slot t' i) = Some 0"
    and same: "\<And>u i. 4096 dvd unat u \<Longrightarrow> i < 512 \<Longrightarrow> u \<noteq> t' \<Longrightarrow> m (slot u i) = vm_mem s (slot u i)"
    and dm: "\<And>a. m a = None \<longleftrightarrow> vm_mem s a = None"
    and m2: "m2 = m(slot t (pt_index (pt_levels env - 1 - k) va) \<mapsto> virt_to_phys env t' OR PT_TABLE_FLAGS)"
    and s': "s' = s\<lparr>vm_pool := p, vm_mem := m2\<rparr>"
  shows "\<exists>own'. vmm_inv env own' s' \<and> tbl env s' va (Suc k) = Some t' \<and> (\<forall>va'. leaf env s' va' = leaf env s va')"
proof -
  let ?L = "pt_levels env" and ?rt = "pt_top env s" and ?e = "virt_to_phys env t' OR PT_TABLE_FLAGS"
  have lay: "layout_ok env (vm_pool s)" and o: "owned env ?L ?rt (vm_mem s) own"
    and fr: "\<And>t. free_page env s t \<Longrightarrow> own t = None \<and> (\<forall>i<512. vm_mem s (slot t i) \<noteq> None)"
    using inv by (simp_all add: vmm_inv_def)
  have f: "free_page env s t'" using tk by (simp add: pool_taken_def)
  have fresh: "own t' = None" and al: "4096 dvd unat t'" using fr [OF f] free_page_numbers [OF lay f] by simp_all
  have ot: "own t = Some (vpath ?L va k)" using tbl_at_owned [OF o _ t] k by simp
  have ag: "agree own (vm_mem s) m" unfolding agree_def using same ownedD(3) [OF o] fresh by (metis option.distinct(1))
  define own' where "own' = own(t' \<mapsto> vpath ?L va (Suc k))"
  have o2: "owned env ?L ?rt m own'"
    unfolding own'_def by (rule owned_fresh [OF agree_owned [OF ag o] fresh al z]) (use k in simp)
  have pa: "phys_to_virt env (pte_addr ?e) = t'" "PT_IS_TABLE ?e"
    using tk pte_addr_or [of "virt_to_phys env t'" PT_TABLE_FLAGS] table_entry_kind [of "virt_to_phys env t'"]
    by (simp_all add: pool_taken_def)
  have nt: "t \<noteq> t'" using ot fresh by auto
  have ot': "own' t = Some (vpath ?L va k)" using ot nt by (simp add: own'_def)
  have o3: "owned env ?L ?rt m2 own'"
    unfolding m2 by (rule owned_write [OF o2 ot']) (use pa entry_kinds(3) in \<open>auto simp: own'_def\<close>)
  have me: "m (slot t (pt_index (?L - 1 - k) va)) = Some e" using e(1) same [of t] nt ownedD(3) [OF o ot] by simp
  have "tbl_at env ?L ?rt m va k = Some t" using agree_tbl_at [OF ag o] t k by simp
  from leaf_link [OF o2 k this me e(2,3) _ z pa(2,1) m2]
  have lk: "tbl_at env ?L ?rt m2 va (Suc k) = Some t'" "\<And>va'. pt_leaf env m2 ?L ?rt va' = pt_leaf env m ?L ?rt va'"
    by (simp_all add: own'_def)
  have lf: "pt_leaf env m ?L ?rt va' = pt_leaf env (vm_mem s) ?L ?rt va'" for va'
    by (rule agree_leaf [OF ag o, of _ _ 0]) (use ownedD(1) [OF o] in simp_all)
  have st: "pt_top env s' = ?rt" "vm_mem s' = m2" "cr3 s' = cr3 s" "vm_pool s' = p" by (simp_all add: s' pt_top_def)
  have "vmm_inv env own' s'"
    unfolding vmm_inv_def st
  proof (intro conjI allI impI)
    show "layout_ok env p" using tk by (simp add: pool_taken_def)
    fix u assume "free_page env s' u"
    then have u: "free_page env s u" "u \<noteq> t'" using tk [of m2] by (auto simp: s' pool_taken_def)
    with fr [of u] show "own' u = None" by (simp add: own'_def)
    show "m2 (slot u i) \<noteq> None" if "i < 512" for i using fr [OF u(1)] dm [of "slot u i"] that by (auto simp: m2)
  qed (use o3 inv in \<open>simp_all add: vmm_inv_def\<close>)
  moreover have "tbl env s' va (Suc k) = Some t'" using lk(1) by (simp only: st)
  moreover have "\<forall>va'. leaf env s' va' = leaf env s va'" using lf lk(2) by (simp add: leaf_def st)
  ultimately show ?thesis by blast
qed

section \<open>Descending\<close>

lemma get_next_level_spec:
  assumes inv: "vmm_inv env own s" and k: "Suc k < pt_levels env" and t: "tbl env s va k = Some t"
    and free: "\<And>e. vm_mem s (slot t (pt_index (pt_levels env - 1 - k) va)) = Some e \<Longrightarrow> \<not> PT_IS_LARGE e"
    and room: "pages_left s \<noteq> 0"
  shows "\<exists>own' t' s'. get_next_level env ext t (pt_index (pt_levels env - 1 - k) va) s = Inr (t', s') \<and>
    vmm_inv env own' s' \<and> tbl env s' va (Suc k) = Some t' \<and> grown env 1 s s' \<and> t' \<noteq> -1"
proof -
  let ?i = "pt_index (pt_levels env - 1 - k) va"
  have o: "owned env (pt_levels env) (pt_top env s) (vm_mem s) own" using inv by (simp add: vmm_inv_def)
  have ot: "own t = Some (vpath (pt_levels env) va k)" using tbl_at_owned [OF o _ t] k by simp
  obtain e where e: "vm_mem s (slot t ?i) = Some e" using ownedD(4) [OF o ot] pt_index_lt by blast
  have aligned: "u \<noteq> -1" if "vmm_inv env own' s'" "tbl env s' va (Suc k) = Some u" for own' u and s' :: "'a vmm"
  proof -
    have o': "owned env (pt_levels env) (pt_top env s') (vm_mem s') own'" using that(1) by (simp add: vmm_inv_def)
    have "own' u = Some (vpath (pt_levels env) va (Suc k))" using tbl_at_owned [OF o' k that(2)] .
    from ownedD(3) [OF o' this] have "u AND 0xFFF = 0" by (simp add: aligned_page)
    then show ?thesis by auto
  qed
  show ?thesis
  proof (cases "PT_IS_TABLE e")
    case True
    have g: "get_next_level env ext t ?i s = Inr (phys_to_virt env (pte_addr e), s)"
      using e True by (simp add: get_next_level_def rd_entry_def)
    have tb: "tbl env s va (Suc k) = Some (phys_to_virt env (pte_addr e))" using t e True by simp
    from g tb inv aligned [OF inv tb] grown_refl show ?thesis by blast
  next
    case False
    obtain t' p m where a: "alloc_table env ext s = Inr (t', s\<lparr>vm_pool := p, vm_mem := m\<rparr>)"
      and tk: "\<And>m'. pool_taken env t' s (s\<lparr>vm_pool := p, vm_mem := m'\<rparr>)" and z: "\<forall>i<512. m (slot t' i) = Some 0"
      and dm: "\<And>a. m a = None \<longleftrightarrow> vm_mem s a = None"
      and same: "\<And>u i. 4096 dvd unat u \<Longrightarrow> i < 512 \<Longrightarrow> u \<noteq> t' \<Longrightarrow> m (slot u i) = vm_mem s (slot u i)"
      by (rule alloc_table_spec [OF inv room, of ext]) blast
    define m2 where "m2 = m(slot t ?i \<mapsto> virt_to_phys env t' OR PT_TABLE_FLAGS)"
    define s' where "s' = s\<lparr>vm_pool := p, vm_mem := m2\<rparr>"
    have "m (slot t ?i) \<noteq> None" using e dm by simp
    then have g: "get_next_level env ext t ?i s = Inr (t', s')"
      using e False free [OF e] a by (simp add: get_next_level_def rd_entry_def wr_entry_def m2_def s'_def)
    from link_table [OF inv k t e False free [OF e] tk z same dm m2_def s'_def]
    obtain own' where own': "vmm_inv env own' s'" "tbl env s' va (Suc k) = Some t'" "\<forall>va'. leaf env s' va' = leaf env s va'"
      by blast
    have "grown env 1 s s'" using own'(3) tk [of m2] by (simp add: grown_def vm_same_def s'_def pool_taken_def)
    with g own' aligned [OF own'(1,2)] show ?thesis by blast
  qed
qed

text \<open>On the way to an address that is not mapped there is no large page.\<close>

lemma leaf_none_not_large:
  assumes inv: "vmm_inv env own s" and k: "Suc k < pt_levels env" and t: "tbl env s va k = Some t"
    and l: "leaf env s va = None" and e: "vm_mem s (slot t (pt_index (pt_levels env - 1 - k) va)) = Some e"
  shows "\<not> PT_IS_LARGE e"
proof
  assume large: "PT_IS_LARGE e"
  let ?L = "pt_levels env"
  have o: "owned env ?L (pt_top env s) (vm_mem s) own" using inv by (simp add: vmm_inv_def)
  have ot: "own t = Some (vpath ?L va k)" using tbl_at_owned [OF o _ t] k by simp
  have n: "?L - k = Suc (?L - 1 - k)" "?L - 1 - k \<noteq> 0" using k by linarith+
  have "?L \<le> k + 3" using ownedD(6) [OF o ot _ e _ large] k by simp
  then have "pt_leaf env (vm_mem s) (Suc (?L - 1 - k)) t va = Some (e, ?L - 1 - k)"
    using e large entry_kinds(3) n by auto
  moreover have "leaf env s va = pt_leaf env (vm_mem s) (Suc (?L - 1 - k)) t va"
    unfolding leaf_def using leaf_from [OF t] k n(1) by simp
  ultimately show False using l by simp
qed

lemma descend:
  assumes inv: "vmm_inv env own s" and k: "Suc k < pt_levels env" and t: "tbl env s va k = Some t"
    and l: "leaf env s va = None" and room: "pages_left s \<noteq> 0" and n: "n = pt_levels env - 1 - k"
  obtains own' t' s' where "get_next_level env ext t (pt_index n va) s = Inr (t', s')" "vmm_inv env own' s'"
    "tbl env s' va (Suc k) = Some t'" "grown env 1 s s'" "t' \<noteq> -1" "leaf env s' va = None"
proof -
  from get_next_level_spec [OF inv k t leaf_none_not_large [OF inv k t l] room] n
  obtain own' t' s' where "get_next_level env ext t (pt_index n va) s = Inr (t', s')" "vmm_inv env own' s'"
    "tbl env s' va (Suc k) = Some t'" "grown env 1 s s'" "t' \<noteq> -1" by blast
  moreover from this(4) l have "leaf env s' va = None" by (simp add: grown_def)
  ultimately show ?thesis by (rule that)
qed

section \<open>Writing the entry of a page\<close>

text \<open>\<open>n\<close> is the level of the page: 0 for 4 KiB, 1 for 2 MiB, 2 for 1 GiB.\<close>

lemma write_leaf:
  assumes inv: "vmm_inv env own s" and n: "n \<le> 2" and k: "k = pt_levels env - 1 - n" and t: "tbl env s va k = Some t"
    and e: "n \<noteq> 0 \<Longrightarrow> \<not> PT_IS_TABLE e"
  obtains s' where "wr_entry (vm_mem s) (slot t (pt_index n va)) e = Inr (vm_mem s')"
    "s' = s\<lparr>vm_mem := (vm_mem s)(slot t (pt_index n va) \<mapsto> e)\<rparr>" "vmm_inv env own s'"
    "\<And>va'. leaf env s' va' =
       (if page_no (pt_levels env) n va' = page_no (pt_levels env) n va then leaf_of_entry n e else leaf env s va')"
proof -
  let ?L = "pt_levels env"
  define s' where "s' = s\<lparr>vm_mem := (vm_mem s)(slot t (pt_index n va) \<mapsto> e)\<rparr>"
  have kn: "k < ?L" "?L - 1 - k = n" "Suc k = ?L - n" "Suc k < ?L \<longleftrightarrow> n \<noteq> 0" "n < ?L"
    using k n pt_levels_range [of env] by linarith+
  have o: "owned env ?L (pt_top env s) (vm_mem s) own" using inv by (simp add: vmm_inv_def)
  have ot: "own t = Some (vpath ?L va k)" using tbl_at_owned [OF o kn(1) t] .
  obtain e0 where "vm_mem s (slot t (pt_index n va)) = Some e0" using ownedD(4) [OF o ot] pt_index_lt by blast
  then have w: "wr_entry (vm_mem s) (slot t (pt_index n va)) e = Inr (vm_mem s')" by (simp add: wr_entry_def s'_def)
  have tp: "pt_top env s' = pt_top env s" by (simp add: s'_def)
  have fp: "free_page env s' u = free_page env s u" for u by (simp add: free_page_def s'_def)
  have "owned env ?L (pt_top env s) (vm_mem s') own"
    unfolding s'_def by simp (rule owned_write [OF o ot], use e kn n in auto)
  then have "vmm_inv env own s'" using inv by (auto simp: vmm_inv_def tp fp) (auto simp: s'_def)
  moreover have "leaf env s' va' =
      (if page_no ?L n va' = page_no ?L n va then leaf_of_entry n e else leaf env s va')" for va'
  proof -
    have "pt_leaf env (vm_mem s') ?L (pt_top env s) va' =
      (if vpath ?L va' (Suc k) = vpath ?L va (Suc k) then leaf_of_entry (?L - 1 - k) e
       else pt_leaf env (vm_mem s) ?L (pt_top env s) va')"
      by (rule leaf_write [OF o kn(1) t]) (use e kn in \<open>simp_all add: s'_def\<close>)
    moreover have "vpath ?L va' (Suc k) = vpath ?L va (Suc k) \<longleftrightarrow> page_no ?L n va' = page_no ?L n va"
      unfolding kn(3) using vpath_page_no [OF kn(5)] pt_levels_range(2) by simp
    ultimately show ?thesis unfolding leaf_def tp kn(2) by simp
  qed
  ultimately show ?thesis using w s'_def that by blast
qed

section \<open>Mapping one page\<close>

definition pm_current :: "vmm_env \<Rightarrow> 'e vmm \<Rightarrow> pagemap_t \<Rightarrow> bool" where
  "pm_current env s pm \<longleftrightarrow> top_level pm = pt_top env s \<and> levels pm = int (pt_levels env)"

lemma resolve_current:
  assumes "vmm_inv env own s" "pm_current env s pm"
  shows "resolve_pagemap env pm s = (pm, s)"
proof -
  have "phys_to_virt env (virt_to_phys env (pt_top env s)) = pt_top env s"
    using assms(1) by (simp add: vmm_inv_def) (simp add: pt_top_def)
  then show ?thesis using assms by (cases pm) (simp add: resolve_pagemap_def pm_current_def vmm_inv_def)
qed

lemma current_is_current: "pm_current env s (current_pagemap env s)"
  by (simp add: pm_current_def current_pagemap_def pt_top_def pt_levels_def)

lemma pt_top_same: "vm_same s s' \<Longrightarrow> pt_top env s' = pt_top env s"
  by (simp add: vm_same_def pt_top_def)

definition size_level :: "page_size \<Rightarrow> nat" where
  "size_level sz = (case sz of Size4KiB \<Rightarrow> 0 | Size2MiB \<Rightarrow> 1 | Size1GiB \<Rightarrow> 2)"

definition page_entry :: "page_size \<Rightarrow> u64 \<Rightarrow> u64 \<Rightarrow> u64" where
  "page_entry sz phys flags =
     (if sz = Size4KiB then phys OR small_flags (flags OR PT_FLAG_VALID) else phys OR (flags OR PT_FLAG_VALID) OR PT_FLAG_LARGE)"

lemma large_not_table: "\<not> PT_IS_TABLE (x OR PT_FLAG_LARGE)"
proof
  assume "PT_IS_TABLE (x OR PT_FLAG_LARGE)"
  then have "bit ((x OR PT_FLAG_LARGE) AND (PT_FLAG_VALID OR PT_FLAG_LARGE)) 7 = bit PT_FLAG_VALID 7"
    by (simp only: PT_IS_TABLE_def)
  then show False by (simp add: bit_simps)
qed

lemma page_entry_kind: "sz \<noteq> Size4KiB \<Longrightarrow> \<not> PT_IS_TABLE (page_entry sz phys flags)"
  using large_not_table [of "phys OR (flags OR PT_FLAG_VALID)"] by (simp add: page_entry_def or.assoc)

text \<open>An update of the walk at one page, at the cost of at most \<open>c\<close> tables.\<close>

definition page_update :: "vmm_env \<Rightarrow> nat \<Rightarrow> nat \<Rightarrow> u64 \<Rightarrow> u64 \<Rightarrow> 'e vmm \<Rightarrow> 'e vmm \<Rightarrow> bool" where
  "page_update env c n virt e s s' \<longleftrightarrow>
     pages_left s \<le> pages_left s' + c \<and> vm_same s s' \<and>
     (\<forall>va. leaf env s' va =
        (if page_no (pt_levels env) n va = page_no (pt_levels env) n virt then leaf_of_entry n e else leaf env s va))"

lemma page_update_after:
  "grown env a s s1 \<Longrightarrow> page_update env b n virt e s1 s' \<Longrightarrow> page_update env (a + b) n virt e s s'"
  by (auto simp: grown_def page_update_def vm_same_def)

lemma write_update:
  assumes inv: "vmm_inv env own s" and n: "n \<le> 2" and t: "tbl env s va (pt_levels env - 1 - n) = Some t"
    and e: "n \<noteq> 0 \<Longrightarrow> \<not> PT_IS_TABLE e"
  obtains s' where "rbind (wr_entry (vm_mem s) (slot t (pt_index n va)) e) (\<lambda>m. Inr (s\<lparr>vm_mem := m\<rparr>)) = Inr s'"
    "vmm_inv env own s'" "page_update env 0 n va e s s'"
proof (rule write_leaf [OF inv n refl t e])
  fix s' assume a: "wr_entry (vm_mem s) (slot t (pt_index n va)) e = Inr (vm_mem s')"
    "s' = s\<lparr>vm_mem := (vm_mem s)(slot t (pt_index n va) \<mapsto> e)\<rparr>" "vmm_inv env own s'"
    "\<And>va'. leaf env s' va' =
       (if page_no (pt_levels env) n va' = page_no (pt_levels env) n va then leaf_of_entry n e else leaf env s va')"
  have "rbind (wr_entry (vm_mem s) (slot t (pt_index n va)) e) (\<lambda>m. Inr (s\<lparr>vm_mem := m\<rparr>)) = Inr s'"
    unfolding a(1) using a(2) by simp
  moreover have "page_update env 0 n va e s s'"
    using a(2,4) by (simp add: page_update_def pages_left_def vm_same_def)
  ultimately show ?thesis using a(3) that by blast
qed simp

text \<open>The tables on the way, with at most one new one for each level.\<close>

lemma reach_pml4:
  assumes inv: "vmm_inv env own s" and pm: "pm_current env s pm" and l: "leaf env s va = None" and room: "pages_left s \<noteq> 0"
  obtains own' pml4 s' where
    "(if levels pm = 5 then get_next_level env ext (top_level pm) (pt_index 4 va) s
      else if levels pm = 4 then Inr (top_level pm, s) else Inl BadRead) = Inr (pml4, s')"
    "vmm_inv env own' s'" "tbl env s' va (pt_levels env - 4) = Some pml4" "grown env 1 s s'" "leaf env s' va = None"
proof (cases "pt_levels env = 5")
  case True
  have t: "tbl env s va 0 = Some (top_level pm)" using pm by (simp add: pm_current_def)
  have k: "Suc 0 < pt_levels env" "4 = pt_levels env - 1 - 0" using True by simp_all
  show ?thesis
    by (rule descend [OF inv k(1) t l room k(2), of ext], rule that) (use True pm in \<open>auto simp: pm_current_def\<close>)
next
  case False
  then have "pt_levels env = 4" using pt_levels_range [of env] by simp
  then show ?thesis using pm inv l by (intro that [of "top_level pm" s own]) (simp_all add: pm_current_def grown_refl)
qed

lemma reach_pml3:
  assumes inv: "vmm_inv env own s" and pm: "pm_current env s pm" and l: "leaf env s va = None" and room: "2 \<le> pages_left s"
  obtains own' pml4 s1 pml3 s' where
    "(if levels pm = 5 then get_next_level env ext (top_level pm) (pt_index 4 va) s
      else if levels pm = 4 then Inr (top_level pm, s) else Inl BadRead) = Inr (pml4, s1)"
    "get_next_level env ext pml4 (pt_index 3 va) s1 = Inr (pml3, s')" "pml3 \<noteq> -1"
    "vmm_inv env own' s'" "tbl env s' va (pt_levels env - 3) = Some pml3" "grown env 2 s s'" "leaf env s' va = None"
proof -
  have "pages_left s \<noteq> 0" using room by simp
  from reach_pml4 [OF inv pm l this, of ext] obtain o1 p4 s1 where
    a: "(if levels pm = 5 then get_next_level env ext (top_level pm) (pt_index 4 va) s
      else if levels pm = 4 then Inr (top_level pm, s) else Inl BadRead) = Inr (p4, s1)" "vmm_inv env o1 s1"
      "tbl env s1 va (pt_levels env - 4) = Some p4" "grown env 1 s s1" "leaf env s1 va = None" .
  have k: "Suc (pt_levels env - 4) < pt_levels env" "3 = pt_levels env - 1 - (pt_levels env - 4)"
    "Suc (pt_levels env - 4) = pt_levels env - 3" using pt_levels_range [of env] by linarith+
  have r: "pages_left s1 \<noteq> 0" using a(4) room by (simp add: grown_def)
  from descend [OF a(2) k(1) a(3,5) r k(2), of ext] obtain o2 p3 s2 where
    b: "get_next_level env ext p4 (pt_index 3 va) s1 = Inr (p3, s2)" "vmm_inv env o2 s2"
      "tbl env s2 va (Suc (pt_levels env - 4)) = Some p3" "grown env 1 s1 s2" "p3 \<noteq> -1" "leaf env s2 va = None" .
  have "grown env 2 s s2" using grown_trans [OF a(4) b(4)] by (simp add: numeral_2_eq_2)
  from that [OF a(1) b(1,5,2) b(3) [unfolded k(3)] this b(6)] show ?thesis .
qed

lemma reach_pml2:
  assumes inv: "vmm_inv env own s" and pm: "pm_current env s pm" and l: "leaf env s va = None" and room: "3 \<le> pages_left s"
  obtains own' pml4 s1 pml3 s2 pml2 s' where
    "(if levels pm = 5 then get_next_level env ext (top_level pm) (pt_index 4 va) s
      else if levels pm = 4 then Inr (top_level pm, s) else Inl BadRead) = Inr (pml4, s1)"
    "get_next_level env ext pml4 (pt_index 3 va) s1 = Inr (pml3, s2)" "pml3 \<noteq> -1"
    "get_next_level env ext pml3 (pt_index 2 va) s2 = Inr (pml2, s')" "pml2 \<noteq> -1"
    "vmm_inv env own' s'" "tbl env s' va (pt_levels env - 2) = Some pml2" "grown env 3 s s'" "leaf env s' va = None"
proof -
  have "2 \<le> pages_left s" using room by simp
  from reach_pml3 [OF inv pm l this, of ext] obtain o1 p4 s1 p3 s2 where
    a: "(if levels pm = 5 then get_next_level env ext (top_level pm) (pt_index 4 va) s
      else if levels pm = 4 then Inr (top_level pm, s) else Inl BadRead) = Inr (p4, s1)"
      "get_next_level env ext p4 (pt_index 3 va) s1 = Inr (p3, s2)" "p3 \<noteq> -1" "vmm_inv env o1 s2"
      "tbl env s2 va (pt_levels env - 3) = Some p3" "grown env 2 s s2" "leaf env s2 va = None" .
  have k: "Suc (pt_levels env - 3) < pt_levels env" "2 = pt_levels env - 1 - (pt_levels env - 3)"
    "Suc (pt_levels env - 3) = pt_levels env - 2" using pt_levels_range [of env] by linarith+
  have r: "pages_left s2 \<noteq> 0" using a(6) room by (simp add: grown_def)
  from descend [OF a(4) k(1) a(5,7) r k(2), of ext] obtain o2 p2 s3 where
    b: "get_next_level env ext p3 (pt_index 2 va) s2 = Inr (p2, s3)" "vmm_inv env o2 s3"
      "tbl env s3 va (Suc (pt_levels env - 3)) = Some p2" "grown env 1 s2 s3" "p2 \<noteq> -1" "leaf env s3 va = None" .
  have "grown env 3 s s3" using grown_trans [OF a(6) b(4)] by simp
  from that [OF a(1-3) b(1,5,2) b(3) [unfolded k(3)] this b(6)] show ?thesis .
qed

lemma map_1gib_update:
  assumes inv: "vmm_inv env own s" and pm: "pm_current env s pm" and l: "leaf env s virt = None"
    and room: "2 \<le> pages_left s" and big: "cpu_has_1gib_pages env"
  obtains own' s' where "map_page env ext pm virt phys flags Size1GiB s = Inr s'" "vmm_inv env own' s'"
    "page_update env 2 2 virt (page_entry Size1GiB phys flags) s s'"
proof (rule reach_pml3 [OF inv pm l room, of ext])
  fix own' p4 s1 p3 s2
  assume a: "(if levels pm = 5 then get_next_level env ext (top_level pm) (pt_index 4 virt) s
      else if levels pm = 4 then Inr (top_level pm, s) else Inl BadRead) = Inr (p4, s1)"
      "get_next_level env ext p4 (pt_index 3 virt) s1 = Inr (p3, s2)" "p3 \<noteq> -1" "vmm_inv env own' s2"
      "tbl env s2 virt (pt_levels env - 3) = Some p3" "grown env 2 s s2" "leaf env s2 virt = None"
  have "tbl env s2 virt (pt_levels env - 1 - 2) = Some p3" using a(5) by (simp add: numeral_3_eq_3)
  from write_update [OF a(4) _ this page_entry_kind [of Size1GiB phys flags]] obtain s' where
    w: "rbind (wr_entry (vm_mem s2) (slot p3 (pt_index 2 virt)) (page_entry Size1GiB phys flags)) (\<lambda>m. Inr (s2\<lparr>vm_mem := m\<rparr>)) = Inr s'"
      "vmm_inv env own' s'" "page_update env 0 2 virt (page_entry Size1GiB phys flags) s2 s'" by auto
  have "map_page env ext pm virt phys flags Size1GiB s = Inr s'"
    using w(1) a(1-3) big resolve_current [OF inv pm] by (simp add: map_page.simps page_entry_def)
  then show thesis using w(2) page_update_after [OF a(6) w(3)] that by simp
qed

lemma map_2mib_update:
  assumes inv: "vmm_inv env own s" and pm: "pm_current env s pm" and l: "leaf env s virt = None"
    and room: "3 \<le> pages_left s"
  obtains own' s' where "map_page env ext pm virt phys flags Size2MiB s = Inr s'" "vmm_inv env own' s'"
    "page_update env 3 1 virt (page_entry Size2MiB phys flags) s s'"
proof (rule reach_pml2 [OF inv pm l room, of ext])
  fix own' p4 s1 p3 s2 p2 s3
  assume a: "(if levels pm = 5 then get_next_level env ext (top_level pm) (pt_index 4 virt) s
      else if levels pm = 4 then Inr (top_level pm, s) else Inl BadRead) = Inr (p4, s1)"
      "get_next_level env ext p4 (pt_index 3 virt) s1 = Inr (p3, s2)" "p3 \<noteq> -1"
      "get_next_level env ext p3 (pt_index 2 virt) s2 = Inr (p2, s3)" "p2 \<noteq> -1" "vmm_inv env own' s3"
      "tbl env s3 virt (pt_levels env - 2) = Some p2" "grown env 3 s s3"
  have "tbl env s3 virt (pt_levels env - 1 - 1) = Some p2" using a(7) by (simp add: numeral_2_eq_2)
  from write_update [OF a(6) _ this page_entry_kind [of Size2MiB phys flags]] obtain s' where
    w: "rbind (wr_entry (vm_mem s3) (slot p2 (pt_index 1 virt)) (page_entry Size2MiB phys flags)) (\<lambda>m. Inr (s3\<lparr>vm_mem := m\<rparr>)) = Inr s'"
      "vmm_inv env own' s'" "page_update env 0 1 virt (page_entry Size2MiB phys flags) s3 s'" by auto
  have "map_page env ext pm virt phys flags Size2MiB s = Inr s'"
    using w(1) a(1-5) resolve_current [OF inv pm] by (simp add: map_page.simps page_entry_def)
  then show thesis using w(2) page_update_after [OF a(8) w(3)] that by simp
qed

lemma map_4kib_update:
  assumes inv: "vmm_inv env own s" and pm: "pm_current env s pm" and l: "leaf env s virt = None"
    and room: "4 \<le> pages_left s"
  obtains own' s' where "map_page env ext pm virt phys flags Size4KiB s = Inr s'" "vmm_inv env own' s'"
    "page_update env 4 0 virt (page_entry Size4KiB phys flags) s s'"
proof -
  have "3 \<le> pages_left s" using room by simp
  from reach_pml2 [OF inv pm l this, of ext] obtain o1 p4 s1 p3 s2 p2 s3 where
    a: "(if levels pm = 5 then get_next_level env ext (top_level pm) (pt_index 4 virt) s
      else if levels pm = 4 then Inr (top_level pm, s) else Inl BadRead) = Inr (p4, s1)"
      "get_next_level env ext p4 (pt_index 3 virt) s1 = Inr (p3, s2)" "p3 \<noteq> -1"
      "get_next_level env ext p3 (pt_index 2 virt) s2 = Inr (p2, s3)" "p2 \<noteq> -1" "vmm_inv env o1 s3"
      "tbl env s3 virt (pt_levels env - 2) = Some p2" "grown env 3 s s3" "leaf env s3 virt = None" .
  have k: "Suc (pt_levels env - 2) < pt_levels env" "1 = pt_levels env - 1 - (pt_levels env - 2)"
    "Suc (pt_levels env - 2) = pt_levels env - 1 - 0" using pt_levels_range [of env] by linarith+
  have r: "pages_left s3 \<noteq> 0" using a(8) room by (simp add: grown_def)
  from descend [OF a(6) k(1) a(7,9) r k(2), of ext] obtain o2 p1 s4 where
    b: "get_next_level env ext p2 (pt_index 1 virt) s3 = Inr (p1, s4)" "vmm_inv env o2 s4"
      "tbl env s4 virt (Suc (pt_levels env - 2)) = Some p1" "grown env 1 s3 s4" "p1 \<noteq> -1" .
  from write_update [OF b(2) _ b(3) [unfolded k(3)], of "page_entry Size4KiB phys flags"] obtain s' where
    w: "rbind (wr_entry (vm_mem s4) (slot p1 (pt_index 0 virt)) (page_entry Size4KiB phys flags)) (\<lambda>m. Inr (s4\<lparr>vm_mem := m\<rparr>)) = Inr s'"
      "vmm_inv env o2 s'" "page_update env 0 0 virt (page_entry Size4KiB phys flags) s4 s'" by auto
  have "map_page env ext pm virt phys flags Size4KiB s = Inr s'"
    using w(1) a(1-5) b(1,5) resolve_current [OF inv pm] by (simp add: map_page.simps page_entry_def)
  then show ?thesis using w(2) page_update_after [OF grown_trans [OF a(8) b(4)] w(3)] that by simp
qed

section \<open>Finding an entry\<close>

lemma large_valid: "PT_IS_LARGE e \<Longrightarrow> e AND PT_FLAG_VALID \<noteq> 0"
proof
  assume a: "PT_IS_LARGE e" "e AND PT_FLAG_VALID = 0"
  have "e AND PT_FLAG_VALID = (e AND (PT_FLAG_VALID OR PT_FLAG_LARGE)) AND PT_FLAG_VALID"
    by (simp add: and.assoc)
  also have "\<dots> = 1" using a(1) by (simp add: PT_IS_LARGE_def)
  finally show False using a(2) by simp
qed

text \<open>The slot of the entry that decides, or none if a table is missing on the way.\<close>

definition located :: "vmm_env \<Rightarrow> 'e vmm \<Rightarrow> u64 \<Rightarrow> (u64 \<times> page_size) option \<Rightarrow> bool" where
  "located env s virt r \<longleftrightarrow> (case r of
     None \<Rightarrow> leaf env s virt = None
   | Some (a, lvl) \<Rightarrow> \<exists>t e. tbl env s virt (pt_levels env - 1 - size_level lvl) = Some t \<and>
       a = slot t (pt_index (size_level lvl) virt) \<and> vm_mem s a = Some e \<and>
       leaf env s virt = (if e AND PT_FLAG_VALID \<noteq> 0 then Some (e, size_level lvl) else None))"

lemma tbl_entry:
  assumes "vmm_inv env own s" "k < pt_levels env" "tbl env s va k = Some t"
  shows "\<exists>e. vm_mem s (slot t (pt_index n va)) = Some e"
proof -
  have o: "owned env (pt_levels env) (pt_top env s) (vm_mem s) own" using assms(1) by (simp add: vmm_inv_def)
  from ownedD(4) [OF o tbl_at_owned [OF o assms(2,3)]] show ?thesis by simp
qed

lemma tbl_next:
  assumes "tbl env s va k = Some t" "n = pt_levels env - 1 - k" "vm_mem s (slot t (pt_index n va)) = Some e" "PT_IS_TABLE e"
    "k' = Suc k"
  shows "tbl env s va k' = Some (phys_to_virt env (pte_addr e))"
  using assms by simp

text \<open>What the walk finds from the table of a level on.\<close>

lemma leaf_at:
  assumes "tbl env s va (pt_levels env - 1 - n) = Some t" "n < pt_levels env" "vm_mem s (slot t (pt_index n va)) = Some e"
  shows "leaf env s va =
    (if n = 0 then (if e AND PT_FLAG_VALID \<noteq> 0 then Some (e, 0) else None)
     else if PT_IS_TABLE e then leaf env s va
     else if PT_IS_LARGE e \<and> n \<le> 2 then Some (e, n) else None)"
proof -
  have n: "pt_levels env - (pt_levels env - 1 - n) = Suc n" "pt_levels env - 1 - n < pt_levels env" using assms(2) by linarith+
  have "leaf env s va = pt_leaf env (vm_mem s) (Suc n) t va"
    unfolding leaf_def using leaf_from [OF assms(1) n(2)] unfolding n(1) .
  then show ?thesis using assms(3) by auto
qed

text \<open>The way to the table of the fourth level, which with four levels is the top table.\<close>

lemma locate_pml4:
  fixes virt :: u64
  assumes inv: "vmm_inv env own s"
  defines "first \<equiv> (if levels (current_pagemap env s) = 5
     then rbind (rd_entry (vm_mem s) (slot (top_level (current_pagemap env s)) (pt_index 4 virt))) (\<lambda>e5.
            Inr (if \<not> PT_IS_TABLE e5 then None else Some (phys_to_virt env (pte_addr e5))))
     else Inr (Some (top_level (current_pagemap env s))))"
  shows "(first = Inr None \<and> leaf env s virt = None) \<or>
    (\<exists>p4. first = Inr (Some p4) \<and> tbl env s virt (pt_levels env - 1 - 3) = Some p4)"
proof (cases "pt_levels env = 5")
  case True
  have lv: "levels (current_pagemap env s) = 5" "top_level (current_pagemap env s) = pt_top env s"
    using current_is_current [of env s] True by (simp_all add: pm_current_def)
  have t: "tbl env s virt (pt_levels env - 1 - 4) = Some (pt_top env s)" using True by simp
  obtain e where e: "vm_mem s (slot (pt_top env s) (pt_index 4 virt)) = Some e" using tbl_entry [OF inv _ t] True by auto
  from leaf_at [OF t _ e] tbl_next [OF t _ e, of "pt_levels env - 1 - 3"] show ?thesis
    using True lv e by (auto simp: first_def rd_entry_def)
next
  case False
  then have "pt_levels env = 4" using pt_levels_range [of env] by simp
  then show ?thesis using current_is_current [of env s] by (simp add: first_def pm_current_def)
qed

lemma locate_from_pml2:
  assumes inv: "vmm_inv env own s" and t2: "tbl env s virt (pt_levels env - 1 - 1) = Some p2"
    and e2: "vm_mem s (slot p2 (pt_index 1 virt)) = Some e2"
  shows "located env s virt
    (if PT_IS_LARGE e2 then Some (slot p2 (pt_index 1 virt), Size2MiB)
     else if \<not> PT_IS_TABLE e2 then None
     else Some (slot (phys_to_virt env (pte_addr e2)) (pt_index 0 virt), Size4KiB))"
proof (cases "PT_IS_TABLE e2")
  case False
  then show ?thesis using t2 e2 leaf_at [OF t2 _ e2] pt_levels_range [of env] large_valid [of e2]
    by (auto simp: located_def size_level_def)
next
  case True
  let ?p1 = "phys_to_virt env (pte_addr e2)"
  have t1: "tbl env s virt (pt_levels env - 1 - 0) = Some ?p1"
    by (rule tbl_next [OF t2 _ e2 True]) (use pt_levels_range [of env] in linarith)+
  obtain e1 where e1: "vm_mem s (slot ?p1 (pt_index 0 virt)) = Some e1"
    using tbl_entry [OF inv _ t1] pt_levels_range [of env] by auto
  have "located env s virt (Some (slot ?p1 (pt_index 0 virt), Size4KiB))"
    using t1 e1 leaf_at [OF t1 _ e1] pt_levels_range [of env] by (auto simp: located_def size_level_def)
  then show ?thesis using True entry_kinds(3) [OF True] by simp
qed

lemma locate_entry_located:
  assumes inv: "vmm_inv env own s"
  obtains r where "locate_entry env virt s = Inr r" "located env s virt r"
proof -
  let ?L = "pt_levels env" and ?m = "vm_mem s" and ?p2v = "\<lambda>e. phys_to_virt env (pte_addr e)"
  note L = pt_levels_range [of env]
  note first = locate_pml4 [OF inv, of virt]
  show ?thesis
  proof (cases "\<exists>p4. tbl env s virt (?L - 1 - 3) = Some p4")
    case False
    with first have "locate_entry env virt s = Inr None" "leaf env s virt = None" by (auto simp: locate_entry_def Let_def)
    then show ?thesis by (intro that [of None]) (simp_all add: located_def)
  next
    case True
    then obtain p4 where t4: "tbl env s virt (?L - 1 - 3) = Some p4" by blast
    obtain e4 where e4: "?m (slot p4 (pt_index 3 virt)) = Some e4" using tbl_entry [OF inv _ t4] L by auto
    show ?thesis
    proof (cases "locate_entry env virt s = Inr None \<and> leaf env s virt = None")
      case True
      then show ?thesis by (intro that [of None]) (simp_all add: located_def)
    next
      case False
      with first t4 e4 leaf_at [OF t4 _ e4] L have T4: "PT_IS_TABLE e4"
        by (auto simp: locate_entry_def Let_def rd_entry_def split: if_splits)
      have t3: "tbl env s virt (?L - 1 - 2) = Some (?p2v e4)"
        by (rule tbl_next [OF t4 _ e4 T4]) (use L in linarith)+
      obtain e3 where e3: "?m (slot (?p2v e4) (pt_index 2 virt)) = Some e3" using tbl_entry [OF inv _ t3] L by auto
      have c3: "locate_entry env virt s =
        (if PT_IS_LARGE e3 then Inr (Some (slot (?p2v e4) (pt_index 2 virt), Size1GiB))
         else if \<not> PT_IS_TABLE e3 then Inr None else
         rbind (rd_entry ?m (slot (?p2v e3) (pt_index 1 virt))) (\<lambda>e2.
           if PT_IS_LARGE e2 then Inr (Some (slot (?p2v e3) (pt_index 1 virt), Size2MiB))
           else if \<not> PT_IS_TABLE e2 then Inr None else
           Inr (Some (slot (?p2v e2) (pt_index 0 virt), Size4KiB))))"
        using first False t4 e4 e3 T4 by (auto simp: locate_entry_def Let_def rd_entry_def)
      show ?thesis
      proof (cases "PT_IS_TABLE e3")
        case False
        then show ?thesis using c3 t3 e3 leaf_at [OF t3 _ e3] L large_valid [of e3]
          by (cases "PT_IS_LARGE e3") (auto intro!: that simp: located_def size_level_def numeral_3_eq_3)
      next
        case T3: True
        have t2: "tbl env s virt (?L - 1 - 1) = Some (?p2v e3)"
          by (rule tbl_next [OF t3 _ e3 T3]) (use L in linarith)+
        obtain e2 where e2: "?m (slot (?p2v e3) (pt_index 1 virt)) = Some e2" using tbl_entry [OF inv _ t2] L by auto
        have "locate_entry env virt s = Inr
          (if PT_IS_LARGE e2 then Some (slot (?p2v e3) (pt_index 1 virt), Size2MiB)
           else if \<not> PT_IS_TABLE e2 then None else Some (slot (?p2v e2) (pt_index 0 virt), Size4KiB))"
          using c3 e2 T3 entry_kinds(3) [OF T3] by (simp add: rd_entry_def)
        from that [OF this locate_from_pml2 [OF inv t2 e2]] show ?thesis .
      qed
    qed
  qed
qed

section \<open>Mapping and unmapping as updates of the translation\<close>

lemma not_page_mask: "n \<le> 2 \<Longrightarrow> 2 ^ (12 + 9 * n) dvd unat p \<Longrightarrow> p AND NOT (page_mask n) = p"
proof -
  let ?k = "12 + 9 * n"
  assume "n \<le> 2" "2 ^ ?k dvd unat p"
  then have "p AND mask ?k = 0" using and_mask_dvd [of ?k p] by simp
  moreover have "p = (p AND mask ?k) OR (p AND NOT (mask ?k))" by (simp flip: bit.conj_disj_distrib)
  ultimately show ?thesis by (simp add: page_mask_def)
qed

lemma legacy_flags_low:
  "4096 dvd unat p \<Longrightarrow> entry_to_legacy_flags (p OR f) = entry_to_legacy_flags f"
  by (simp add: entry_to_legacy_flags_def low_bits_or)

lemma legacy_flags_kept:
  "entry_to_legacy_flags (legacy_map_flags flags OR PT_FLAG_VALID) = VMM_P OR (flags AND (VMM_RW OR VMM_PWT OR VMM_PCD))"
proof -
  have b: "flags AND push_bit n 1 = (if bit flags n then push_bit n 1 else 0)" for n
    by (rule bit_word_eqI) (auto simp: bit_simps)
  have f: "flags AND 2 = (if bit flags 1 then 2 else 0)" "flags AND 8 = (if bit flags 3 then 8 else 0)"
    "flags AND 16 = (if bit flags 4 then 16 else 0)" using b [of 1] b [of 3] b [of 4] by simp_all
  have "flags AND (VMM_RW OR VMM_PWT OR VMM_PCD) = (flags AND 2) OR (flags AND 8) OR (flags AND 16)"
    by (simp only: bit.conj_disj_distrib)
  then show ?thesis unfolding f by (auto simp: legacy_map_flags_def entry_to_legacy_flags_def f)
qed

lemma legacy_map_flags_range: "legacy_map_flags flags OR PT_FLAG_VALID \<in> {1, 3, 9, 11, 17, 19, 25, 27}"
  by (simp add: legacy_map_flags_def)

lemma legacy_entry:
  fixes flags :: u32
  assumes p: "4096 dvd unat phys" "unat phys < 2 ^ 48"
  defines "e \<equiv> page_entry Size4KiB phys (legacy_map_flags flags)"
  shows "e AND PT_FLAG_VALID \<noteq> 0" "pte_addr e = phys"
    "entry_to_legacy_flags e = VMM_P OR (flags AND (VMM_RW OR VMM_PWT OR VMM_PCD))"
proof -
  let ?f = "legacy_map_flags flags OR PT_FLAG_VALID"
  have r: "small_flags ?f = ?f" "?f AND PT_PADDR_MASK = 0" "?f AND PT_FLAG_VALID \<noteq> 0"
    using legacy_map_flags_range [of flags] by (auto simp: small_flags_def)
  then have e: "e = phys OR ?f" by (simp add: e_def page_entry_def)
  show "e AND PT_FLAG_VALID \<noteq> 0" unfolding e using low_bits_or [OF p(1), of 1 ?f] r(3) by simp
  show "pte_addr e = phys" unfolding e by (rule pte_addr_or [OF p r(2)])
  show "entry_to_legacy_flags e = VMM_P OR (flags AND (VMM_RW OR VMM_PWT OR VMM_PCD))"
    unfolding e by (simp only: legacy_flags_low [OF p(1)] legacy_flags_kept)
qed

lemma translate_none: "translate env s va = None \<longleftrightarrow> leaf env s va = None"
  by (simp add: translate_def)

lemma flush_keeps [simp]:
  "leaf env (flush_tlb_single a s) va = leaf env s va" "vmm_inv env own (flush_tlb_single a s) = vmm_inv env own s"
  "pages_left (flush_tlb_single a s) = pages_left s" "translate env (flush_tlb_single a s) = translate env s"
  by (auto simp: flush_tlb_single_def leaf_def pt_top_def vmm_inv_def free_page_def pages_left_def translate_def fun_eq_iff)

text \<open>The processor may cache translations at any moment: the tables do not depend on what it holds.\<close>

lemma refill_keeps [simp]:
  "leaf env (s\<lparr>tlb := c\<rparr>) va = leaf env s va" "vmm_inv env own (s\<lparr>tlb := c\<rparr>) = vmm_inv env own s"
  by (auto simp: leaf_def pt_top_def vmm_inv_def free_page_def)

text \<open>What \<open>vmm_map\<close> does in terms of the walk.\<close>

lemma vmm_map_cases:
  assumes inv: "vmm_inv env own s" and al: "4096 dvd unat virt" "4096 dvd unat phys" and room: "4 \<le> pages_left s"
  shows "(leaf env s virt \<noteq> None \<and> vmm_map env ext virt phys flags s = Inr (-3, s)) \<or>
    (leaf env s virt = None \<and> (\<exists>own' s1. vmm_map env ext virt phys flags s = Inr (0, flush_tlb_single virt s1) \<and>
       vmm_inv env own' s1 \<and> page_update env 4 0 virt (page_entry Size4KiB phys (legacy_map_flags flags)) s s1))"
proof -
  obtain r where r: "locate_entry env virt s = Inr r" "located env s virt r" by (rule locate_entry_located [OF inv])
  have a: "virt AND 0xFFF = 0" "phys AND 0xFFF = 0" using al by (simp_all add: aligned_page)
  define used where "used = (case r of None \<Rightarrow> Inr False
      | Some (pte, lvl) \<Rightarrow> rbind (rd_entry (vm_mem s) pte) (\<lambda>e. Inr (e AND PT_FLAG_VALID \<noteq> 0)))"
  have u: "used = Inr (leaf env s virt \<noteq> None)"
    using r(2) by (auto simp: used_def located_def rd_entry_def split: option.splits if_splits)
  have m: "vmm_map env ext virt phys flags s =
     rbind used (\<lambda>used. if used then Inr (-3, s) else
      rbind (map_page env ext (current_pagemap env s) virt phys (legacy_map_flags flags) Size4KiB s) (\<lambda>s1.
        Inr (0, flush_tlb_single virt s1)))"
    by (simp add: vmm_map_def a r(1) used_def)
  show ?thesis
  proof (cases "leaf env s virt = None")
    case False
    then show ?thesis using m u by simp
  next
    case True
    obtain own' s1 where "map_page env ext (current_pagemap env s) virt phys (legacy_map_flags flags) Size4KiB s = Inr s1"
      "vmm_inv env own' s1" "page_update env 4 0 virt (page_entry Size4KiB phys (legacy_map_flags flags)) s s1"
      by (rule map_4kib_update [OF inv current_is_current True room])
    then show ?thesis using m u True by auto
  qed
qed

text \<open>The specification of a mapping: the translation of one page is set.\<close>

definition map_spec :: "nat \<Rightarrow> u64 \<Rightarrow> u64 \<Rightarrow> u32 \<Rightarrow> (u64 \<Rightarrow> (u64 \<times> u32) option) \<Rightarrow> u64 \<Rightarrow> (u64 \<times> u32) option" where
  "map_spec L virt phys flags f va =
     (if f virt = None \<and> page_no L 0 va = page_no L 0 virt
      then Some (phys + (va AND 0xFFF), VMM_P OR (flags AND (VMM_RW OR VMM_PWT OR VMM_PCD))) else f va)"

lemma vmm_map_spec:
  assumes inv: "vmm_inv env own s" and al: "4096 dvd unat virt" "4096 dvd unat phys" "unat phys < 2 ^ 48"
    and room: "4 \<le> pages_left s"
  obtains own' s' where
    "vmm_map env ext virt phys flags s = Inr (if translate env s virt = None then 0 else -3, s')" "vmm_inv env own' s'"
    "pages_left s \<le> pages_left s' + 4" "translate env s' = map_spec (pt_levels env) virt phys flags (translate env s)"
proof (cases "leaf env s virt = None")
  case False
  then show ?thesis using vmm_map_cases [OF inv al(1,2) room, of ext flags] inv
    by (intro that [of s own]) (auto simp: translate_none map_spec_def fun_eq_iff)
next
  case True
  then obtain own' s1 where m: "vmm_map env ext virt phys flags s = Inr (0, flush_tlb_single virt s1)"
    and i: "vmm_inv env own' s1" and u: "page_update env 4 0 virt (page_entry Size4KiB phys (legacy_map_flags flags)) s s1"
    using vmm_map_cases [OF inv al(1,2) room, of ext flags] by auto
  note e = legacy_entry [OF al(2,3), of flags]
  have "translate env s1 = map_spec (pt_levels env) virt phys flags (translate env s)"
  proof
    fix va
    have "va AND 0xFFF = va AND page_mask 0" by (simp add: page_mask_def mask12)
    then show "translate env s1 va = map_spec (pt_levels env) virt phys flags (translate env s) va"
      using u True e not_page_mask [of 0 phys] al(2)
      by (auto simp: page_update_def translate_def map_spec_def leaf_of_entry_def leaf_target_def)
  qed
  then show ?thesis using m i u True by (intro that [of "flush_tlb_single virt s1" own']) (simp_all add: translate_none page_update_def)
qed

lemma vmm_map_free:
  assumes "vmm_inv env own s" "4096 dvd unat virt" "4096 dvd unat phys" "unat phys < 2 ^ 48" "4 \<le> pages_left s"
    and none: "translate env s virt = None"
  obtains own' s' where "vmm_map env ext virt phys flags s = Inr (0, s')" "vmm_inv env own' s'"
    "pages_left s \<le> pages_left s' + 4" "translate env s' = map_spec (pt_levels env) virt phys flags (translate env s)"
  by (rule vmm_map_spec [OF assms(1-5), of ext flags], rule that) (use none in simp_all)

lemma vmm_unmap_spec:
  assumes inv: "vmm_inv env own s" and al: "4096 dvd unat virt"
  obtains r s' where "vmm_unmap env virt s = Inr (r, s')" "vmm_inv env own s'" "pages_left s' = pages_left s"
    "r = 0 \<longleftrightarrow> leaf env s virt \<noteq> None" "r \<noteq> 0 \<Longrightarrow> s' = s \<and> r \<in> {-2, -3}"
    "\<And>e n. leaf env s virt = Some (e, n) \<Longrightarrow> n \<le> 2 \<and> (\<forall>va. leaf env s' va =
       (if page_no (pt_levels env) n va = page_no (pt_levels env) n virt then None else leaf env s va))"
proof -
  obtain r where r: "locate_entry env virt s = Inr r" "located env s virt r" by (rule locate_entry_located [OF inv])
  have a: "virt AND 0xFFF = 0" using al by (simp add: aligned_page)
  show ?thesis
  proof (cases "leaf env s virt")
    case None
    then have "vmm_unmap env virt s = Inr (if r = None then -2 else -3, s)"
      using r a by (auto simp: vmm_unmap_def located_def rd_entry_def split: option.splits if_splits)
    then show ?thesis using None inv by (intro that [of "if r = None then -2 else -3" s]) simp_all
  next
    case (Some en)
    with r(2) obtain sl lvl t e where l: "r = Some (sl, lvl)" "tbl env s virt (pt_levels env - 1 - size_level lvl) = Some t"
      "sl = slot t (pt_index (size_level lvl) virt)" "vm_mem s sl = Some e" "e AND PT_FLAG_VALID \<noteq> 0" "en = (e, size_level lvl)"
      by (auto simp: located_def split: option.splits if_splits)
    have n: "size_level lvl \<le> 2" by (cases lvl) (simp_all add: size_level_def)
    from write_update [OF inv n l(2), of 0] entry_kinds(1) obtain s1 where
      w: "rbind (wr_entry (vm_mem s) sl 0) (\<lambda>m. Inr (s\<lparr>vm_mem := m\<rparr>)) = Inr s1"
        "vmm_inv env own s1" "page_update env 0 (size_level lvl) virt 0 s s1" using l(3) by auto
    have "vmm_unmap env virt s = Inr (0, flush_tlb_single virt s1)"
      using w(1) r(1) a l by (auto simp: vmm_unmap_def rd_entry_def res_simps)
    moreover have "pages_left s1 = pages_left s" using w(1) by (auto simp: res_simps pages_left_def)
    ultimately show ?thesis using w n l(6) Some entry_kinds(2)
      by (intro that [of 0 "flush_tlb_single virt s1"]) (simp_all add: page_update_def leaf_of_entry_def)
  qed
qed

section \<open>Mapping a range\<close>

text \<open>The distance of an address from the start of a range, as the tables see it.\<close>

definition voff :: "nat \<Rightarrow> u64 \<Rightarrow> u64 \<Rightarrow> nat" where
  "voff L virt va = unat (take_bit (12 + 9 * L) (va - virt))"

lemma int_unat_take: "int (unat (take_bit k (w :: u64))) = int (unat w) mod 2 ^ k"
proof -
  have "uint (take_bit k w) = take_bit k (uint w)" by (rule unsigned_take_bit_eq)
  then show ?thesis by (simp add: take_bit_eq_mod)
qed

lemma int_unat_diff: "k \<le> 64 \<Longrightarrow> int (unat (a - b :: u64)) mod 2 ^ k = (int (unat a) - int (unat b)) mod 2 ^ k"
proof -
  assume "k \<le> 64"
  then have "(2 :: int) ^ k dvd 2 ^ 64" by (rule le_imp_power_dvd)
  then show ?thesis by (simp add: uint_word_ariths mod_mod_cancel)
qed

lemma mod_difference:
  fixes x y M :: int
  assumes "0 \<le> x" "x < M" "0 \<le> y" "y \<le> M"
  shows "(x - y) mod M = (if y \<le> x then x - y else x - y + M)"
proof (cases "y \<le> x")
  case True
  then show ?thesis using assms by (simp add: mod_pos_pos_trivial)
next
  case False
  have "(x - y) mod M = (x - y + M) mod M" by simp
  also have "\<dots> = x - y + M" using False assms by (intro mod_pos_pos_trivial) linarith+
  finally show ?thesis using False by simp
qed

lemma difference_below:
  fixes c x m M :: nat
  assumes "d = (if int c \<le> int x then int x - int c else int x - int c + int M)" "c + m \<le> M"
  shows "d < int m \<longleftrightarrow> c \<le> x \<and> x < c + m"
  using assms by (cases "c \<le> x") auto

lemma unat_page_no: "unat (page_no L n va) = unat va mod 2 ^ (12 + 9 * L) div 2 ^ (12 + 9 * n)"
  unfolding page_no_def by (simp only: unat_drop_bit_eq unsigned_take_bit_eq drop_bit_nat_def take_bit_nat_def)

lemma block_range:
  fixes v b m M :: nat
  assumes m: "0 < m" and dv: "m dvd M" "m dvd b" and M: "0 < M"
  shows "v mod M div m = b mod M div m \<longleftrightarrow> (int v - int b) mod int M < int m"
proof -
  obtain q where q: "b mod M = m * q" using dv by (meson dvd_def dvd_mod)
  obtain r where r: "M = m * r" using dv by blast
  have "m * q < m * r" using q r mod_less_divisor [OF M, of b] by simp
  then have "q < r" by simp
  then have q1: "m * q + m \<le> M" unfolding r using mult_le_mono2 [of "Suc q" r m] by simp
  define x where "x = v mod M"
  have x: "x < M" using M by (simp add: x_def)
  have "(int v - int b) mod int M = (int x - int (m * q)) mod int M"
    unfolding x_def q [symmetric] of_nat_mod by (rule mod_diff_eq [symmetric])
  also have "\<dots> = (if int (m * q) \<le> int x then int x - int (m * q) else int x - int (m * q) + int M)"
    using x q1 by (intro mod_difference) linarith+
  finally have d: "(int v - int b) mod int M < int m \<longleftrightarrow> m * q \<le> x \<and> x < m * q + m"
    by (rule difference_below [OF _ q1])
  have "x div m = q \<longleftrightarrow> m * q \<le> x \<and> x < m * q + m"
  proof
    assume "x div m = q"
    then have "x = m * q + x mod m" by (metis mult_div_mod_eq)
    then show "m * q \<le> x \<and> x < m * q + m" using mod_less_divisor [OF m, of x] by linarith
  next
    assume "m * q \<le> x \<and> x < m * q + m"
    then obtain y where "x = m * q + y" "y < m" using le_Suc_ex by fastforce
    then show "x div m = q" by simp
  qed
  with d m show ?thesis by (simp add: q x_def)
qed

lemma voff_less: "voff L virt va < 2 ^ (12 + 9 * L)"
  unfolding voff_def unsigned_take_bit_eq by (rule take_bit_nat_less_exp)

lemma voff_diff:
  assumes "L \<le> 5"
  shows "int (unat (va - (virt + i))) mod 2 ^ (12 + 9 * L) = (int (voff L virt va) - int (unat i)) mod 2 ^ (12 + 9 * L)"
proof -
  have k: "12 + 9 * L \<le> 64" using assms by simp
  have "int (unat (va - (virt + i))) mod 2 ^ (12 + 9 * L) = int (unat (va - virt - i)) mod 2 ^ (12 + 9 * L)"
    by (simp add: diff_diff_eq)
  also have "\<dots> = (int (unat (va - virt)) mod 2 ^ (12 + 9 * L) - int (unat i)) mod 2 ^ (12 + 9 * L)"
    using int_unat_diff [OF k, of "va - virt" i] by (simp only: mod_diff_left_eq)
  finally show ?thesis unfolding voff_def int_unat_take .
qed

lemma page_no_range:
  assumes L: "n < L" "L \<le> 5" and al: "2 ^ (12 + 9 * n) dvd unat (virt + i)"
    and i: "unat i + 2 ^ (12 + 9 * n) \<le> 2 ^ (12 + 9 * L)"
  shows "page_no L n va = page_no L n (virt + i) \<longleftrightarrow> unat i \<le> voff L virt va \<and> voff L virt va < unat i + 2 ^ (12 + 9 * n)"
proof -
  let ?M = "2 ^ (12 + 9 * L) :: nat" and ?m = "2 ^ (12 + 9 * n) :: nat"
  have k: "12 + 9 * L \<le> 64" using L(2) by simp
  have "?m dvd ?M" using L(1) by (intro le_imp_power_dvd) simp
  then have b: "page_no L n va = page_no L n (virt + i) \<longleftrightarrow> (int (unat va) - int (unat (virt + i))) mod int ?M < int ?m"
    unfolding word_unat_eq_iff unat_page_no by (intro block_range al) simp_all
  have "(int (unat va) - int (unat (virt + i))) mod int ?M = (int (voff L virt va) - int (unat i)) mod int ?M"
    using int_unat_diff [OF k, of va "virt + i"] voff_diff [OF L(2), of va virt i] by simp
  also have "\<dots> = (if int (unat i) \<le> int (voff L virt va) then int (voff L virt va) - int (unat i)
      else int (voff L virt va) - int (unat i) + int ?M)"
    using voff_less [of L virt va] i by (intro mod_difference) linarith+
  finally show ?thesis unfolding b by (rule difference_below [OF _ i])
qed

text \<open>The offset of an address in its page.\<close>

lemma page_offset:
  assumes L: "n < L" "L \<le> 5" and al: "2 ^ (12 + 9 * n) dvd unat (virt + i)"
    and o: "unat i \<le> voff L virt va" "voff L virt va < unat i + 2 ^ (12 + 9 * n)"
  shows "va AND page_mask n = word_of_nat (voff L virt va) - i"
proof -
  let ?k = "12 + 9 * n" and ?K = "12 + 9 * L"
  have k: "?k \<le> 64" "?K \<le> 64" "?k \<le> ?K" using L by simp_all
  have dm: "(2 :: int) ^ ?k dvd 2 ^ ?K" using k(3) by (rule le_imp_power_dvd)
  have al': "(2 :: int) ^ ?k dvd int (unat (virt + i))" using al by (metis of_nat_dvd_iff of_nat_numeral of_nat_power)
  have "int (unat va) mod 2 ^ ?k = (int (unat va) - int (unat (virt + i))) mod 2 ^ ?k"
    using al' by (simp only: mod_diff_right_eq [symmetric] dvd_imp_mod_0 diff_zero)
  also have "\<dots> = int (unat (va - (virt + i))) mod 2 ^ ?K mod 2 ^ ?k"
    unfolding int_unat_diff [OF k(1), symmetric] using dm by (simp only: mod_mod_cancel)
  also have "\<dots> = (int (voff L virt va) - int (unat i)) mod 2 ^ ?k"
    unfolding voff_diff [OF L(2)] using dm by (simp only: mod_mod_cancel)
  also have "\<dots> = int (voff L virt va) - int (unat i)"
  proof (rule mod_pos_pos_trivial)
    show "0 \<le> int (voff L virt va) - int (unat i)" using o(1) by (simp only: of_nat_le_iff diff_ge_0_iff_ge)
    have "int (voff L virt va) < int (unat i + 2 ^ ?k)" using o(2) by (simp only: of_nat_less_iff)
    then show "int (voff L virt va) - int (unat i) < 2 ^ ?k" by simp
  qed
  also have "\<dots> = int (voff L virt va - unat i)" using o(1) by (simp only: of_nat_diff)
  finally have "int (unat (va AND page_mask n)) = int (voff L virt va - unat i)"
    unfolding page_mask_def take_bit_eq_mask [symmetric] int_unat_take .
  then have "unat (va AND page_mask n) = voff L virt va - unat i" by (simp only: of_nat_eq_iff)
  moreover have "va AND page_mask n = word_of_nat (unat (va AND page_mask n))" by simp
  ultimately have "va AND page_mask n = word_of_nat (voff L virt va - unat i)" by (simp only:)
  then show ?thesis using o(1) by (simp add: of_nat_diff)
qed

section \<open>A step of a range\<close>

definition range_map ::
  "nat \<Rightarrow> u64 \<Rightarrow> u64 \<Rightarrow> u32 \<Rightarrow> nat \<Rightarrow> nat \<Rightarrow> (u64 \<Rightarrow> (u64 \<times> u32) option) \<Rightarrow> u64 \<Rightarrow> (u64 \<times> u32) option" where
  "range_map L virt phys fl lo hi f va =
     (if lo \<le> voff L virt va \<and> voff L virt va < hi then Some (phys + word_of_nat (voff L virt va), fl) else f va)"

lemma range_map_append:
  "lo \<le> mid \<Longrightarrow> mid \<le> hi \<Longrightarrow>
     range_map L virt phys fl mid hi (range_map L virt phys fl lo mid f) = range_map L virt phys fl lo hi f"
  by (auto simp: range_map_def fun_eq_iff)

lemma range_map_empty [simp]: "range_map L virt phys fl lo lo f = f"
  by (auto simp: range_map_def fun_eq_iff)

lemma flags_small:
  assumes "flags AND PT_PADDR_MASK = 0"
  shows "small_flags (flags OR PT_FLAG_VALID) = flags OR PT_FLAG_VALID" "(flags OR PT_FLAG_VALID) AND PT_PADDR_MASK = 0"
    "(flags OR PT_FLAG_VALID OR PT_FLAG_LARGE) AND PT_PADDR_MASK = 0"
proof -
  have "flags AND 0x1000 = (flags AND PT_PADDR_MASK) AND 0x1000" by (simp add: and.assoc)
  then have "flags AND 0x1000 = 0" using assms by simp
  then show "small_flags (flags OR PT_FLAG_VALID) = flags OR PT_FLAG_VALID"
    by (simp add: small_flags_def bit.conj_disj_distrib2)
  show "(flags OR PT_FLAG_VALID) AND PT_PADDR_MASK = 0" "(flags OR PT_FLAG_VALID OR PT_FLAG_LARGE) AND PT_PADDR_MASK = 0"
    using assms by (simp_all add: bit.conj_disj_distrib2)
qed

lemma large_entry: "PT_IS_LARGE (x OR (y OR PT_FLAG_VALID) OR PT_FLAG_LARGE)"
proof -
  have absorb: "(w AND c) OR c = c" for w c :: u64 by (rule bit_word_eqI) (auto simp: bit_simps)
  have "(x OR (y OR PT_FLAG_VALID) OR PT_FLAG_LARGE) AND 0x81 = ((x OR y) AND 0x81) OR 0x81"
    by (simp add: bit.conj_disj_distrib2 or.assoc)
  then show ?thesis unfolding absorb by (simp add: PT_IS_LARGE_def)
qed

lemma legacy_flags_large: "entry_to_legacy_flags (x OR PT_FLAG_LARGE) = entry_to_legacy_flags x"
  by (simp add: entry_to_legacy_flags_def bit.conj_disj_distrib2)

lemma page_entry_facts:
  assumes p: "2 ^ (12 + 9 * size_level sz) dvd unat p" "unat p < 2 ^ 48" and f: "flags AND PT_PADDR_MASK = 0"
  shows "leaf_of_entry (size_level sz) (page_entry sz p flags) = Some (page_entry sz p flags, size_level sz)"
    and "pte_addr (page_entry sz p flags) AND NOT (page_mask (size_level sz)) = p"
    and "entry_to_legacy_flags (page_entry sz p flags) = entry_to_legacy_flags (flags OR PT_FLAG_VALID)"
proof -
  have n: "size_level sz \<le> 2" by (cases sz) (simp_all add: size_level_def)
  have "(2 :: nat) ^ 12 dvd 2 ^ (12 + 9 * size_level sz)" by (rule le_imp_power_dvd) simp
  with p(1) have al: "4096 dvd unat p" by (auto intro: dvd_trans)
  note lb = low_bits_or [OF al]
  show "leaf_of_entry (size_level sz) (page_entry sz p flags) = Some (page_entry sz p flags, size_level sz)"
    by (cases sz) (simp_all add: leaf_of_entry_def page_entry_def size_level_def flags_small [OF f] large_entry lb
        bit.conj_disj_distrib2)
  have "pte_addr (page_entry sz p flags) = p"
    using pte_addr_or [OF al p(2)] flags_small [OF f] by (cases sz) (simp_all add: page_entry_def or.assoc)
  then show "pte_addr (page_entry sz p flags) AND NOT (page_mask (size_level sz)) = p" using not_page_mask [OF n p(1)] by simp
  show "entry_to_legacy_flags (page_entry sz p flags) = entry_to_legacy_flags (flags OR PT_FLAG_VALID)"
    using flags_small(1) [OF f]
    by (cases sz) (simp_all only: page_entry_def legacy_flags_low [OF al] legacy_flags_large page_size.distinct if_True if_False refl)
qed

lemma page_update_range:
  assumes u: "page_update env c (size_level sz) (virt + i) (page_entry sz (phys + i) flags) s s'"
    and al: "2 ^ (12 + 9 * size_level sz) dvd unat (virt + i)" "2 ^ (12 + 9 * size_level sz) dvd unat (phys + i)"
    and b: "unat (phys + i) < 2 ^ 48" "unat i + 2 ^ (12 + 9 * size_level sz) \<le> 2 ^ (12 + 9 * pt_levels env)"
    and f: "flags AND PT_PADDR_MASK = 0"
  shows "translate env s' = range_map (pt_levels env) virt phys (entry_to_legacy_flags (flags OR PT_FLAG_VALID))
    (unat i) (unat i + 2 ^ (12 + 9 * size_level sz)) (translate env s)"
proof
  fix va
  have n: "size_level sz < pt_levels env" using pt_levels_range [of env] by (cases sz) (simp_all add: size_level_def)
  note L = n pt_levels_range(2) [of env]
  note e = page_entry_facts [OF al(2) b(1) f]
  show "translate env s' va = range_map (pt_levels env) virt phys (entry_to_legacy_flags (flags OR PT_FLAG_VALID))
    (unat i) (unat i + 2 ^ (12 + 9 * size_level sz)) (translate env s) va"
    using u page_no_range [OF L al(1) b(2), of va] page_offset [OF L al(1), of va] e
    by (auto simp: page_update_def translate_def range_map_def leaf_target_def)
qed

text \<open>The tables a page may need, and what it means to map the part of a range from \<open>lo\<close> to \<open>hi\<close>.\<close>

definition page_cost :: "vmm_env \<Rightarrow> page_size \<Rightarrow> nat" where
  "page_cost env sz = (case sz of Size4KiB \<Rightarrow> 4 | Size2MiB \<Rightarrow> 3 | Size1GiB \<Rightarrow> if cpu_has_1gib_pages env then 2 else 2 + 3 * 512)"

definition range_mapped :: "vmm_env \<Rightarrow> u64 \<Rightarrow> u64 \<Rightarrow> u64 \<Rightarrow> nat \<Rightarrow> nat \<Rightarrow> nat \<Rightarrow> 'e vmm \<Rightarrow> 'e vmm \<Rightarrow> bool" where
  "range_mapped env virt phys flags c lo hi s s' \<longleftrightarrow>
     vmm_ok env s' \<and> vm_same s s' \<and> pages_left s \<le> pages_left s' + c \<and>
     translate env s' = range_map (pt_levels env) virt phys (entry_to_legacy_flags (flags OR PT_FLAG_VALID)) lo hi (translate env s)"

lemma range_mapped_append:
  "range_mapped env virt phys flags a lo mid s s1 \<Longrightarrow> range_mapped env virt phys flags b mid hi s1 s2 \<Longrightarrow>
     lo \<le> mid \<Longrightarrow> mid \<le> hi \<Longrightarrow> range_mapped env virt phys flags (a + b) lo hi s s2"
  by (auto simp: range_mapped_def vm_same_def range_map_append)

lemma pm_current_same: "vm_same s s' \<Longrightarrow> pm_current env s' pm = pm_current env s pm"
  by (simp add: pm_current_def pt_top_same)

lemma voff_self: "L \<le> 5 \<Longrightarrow> unat i < 2 ^ (12 + 9 * L) \<Longrightarrow> voff L virt (virt + i) = unat i"
  by (simp add: voff_def unsigned_take_bit_eq take_bit_nat_eq_self)

text \<open>Where the next piece of a range goes: aligned, within the reach of the tables and of the entries, and free.\<close>

definition piece_ok :: "vmm_env \<Rightarrow> u64 \<Rightarrow> u64 \<Rightarrow> u64 \<Rightarrow> page_size \<Rightarrow> 'e vmm \<Rightarrow> bool" where
  "piece_ok env virt phys i sz s \<longleftrightarrow> (let S = 2 ^ (12 + 9 * size_level sz) in
     S dvd unat (virt + i) \<and> S dvd unat (phys + i) \<and> unat phys + unat i + S \<le> 2 ^ 48 \<and>
     unat i + S \<le> 2 ^ (12 + 9 * pt_levels env) \<and>
     (\<forall>va. unat i \<le> voff (pt_levels env) virt va \<and> voff (pt_levels env) virt va < unat i + S \<longrightarrow> translate env s va = None))"

lemma piece_okD:
  assumes "piece_ok env virt phys i sz s"
  shows "2 ^ (12 + 9 * size_level sz) dvd unat (virt + i)" "2 ^ (12 + 9 * size_level sz) dvd unat (phys + i)"
    "unat (phys + i) < 2 ^ 48" "unat i + 2 ^ (12 + 9 * size_level sz) \<le> 2 ^ (12 + 9 * pt_levels env)"
    "leaf env s (virt + i) = None"
proof -
  let ?S = "2 ^ (12 + 9 * size_level sz) :: nat"
  have S: "0 < ?S" by simp
  have a: "?S dvd unat (virt + i)" "?S dvd unat (phys + i)" "unat phys + unat i + ?S \<le> 2 ^ 48"
    "unat i + ?S \<le> 2 ^ (12 + 9 * pt_levels env)"
    "\<And>va. unat i \<le> voff (pt_levels env) virt va \<Longrightarrow> voff (pt_levels env) virt va < unat i + ?S \<Longrightarrow> translate env s va = None"
    using assms unfolding piece_ok_def Let_def by blast+
  have n: "unat phys + unat i < 2 ^ 48" "unat i < 2 ^ (12 + 9 * pt_levels env)" using a(3,4) S by linarith+
  show "?S dvd unat (virt + i)" "?S dvd unat (phys + i)" "unat i + ?S \<le> 2 ^ (12 + 9 * pt_levels env)" by (rule a)+
  show "unat (phys + i) < 2 ^ 48" using n(1) by (simp add: unat_word_ariths)
  have "voff (pt_levels env) virt (virt + i) = unat i" using voff_self [OF pt_levels_range(2) n(2)] .
  then show "leaf env s (virt + i) = None" using a(5) [of "virt + i"] S translate_none [of env s "virt + i"] by simp
qed

lemma map_2mib_range:
  assumes "vmm_ok env s" "pm_current env s pm" "piece_ok env virt phys i Size2MiB s" "flags AND PT_PADDR_MASK = 0" "3 \<le> pages_left s"
  shows "\<exists>s'. map_page env ext pm (virt + i) (phys + i) flags Size2MiB s = Inr s' \<and>
    range_mapped env virt phys flags 3 (unat i) (unat i + 2 ^ 21) s s'"
proof -
  obtain own where inv: "vmm_inv env own s" using assms(1) by (auto simp: vmm_ok_def)
  note p = piece_okD [OF assms(3)]
  obtain own' s' where m: "map_page env ext pm (virt + i) (phys + i) flags Size2MiB s = Inr s'" "vmm_inv env own' s'"
    "page_update env 3 (size_level Size2MiB) (virt + i) (page_entry Size2MiB (phys + i) flags) s s'"
    by (rule map_2mib_update [OF inv assms(2) p(5) assms(5)]) (simp add: size_level_def)
  from page_update_range [OF m(3) p(1-4) assms(4)] m show ?thesis
    by (auto simp: range_mapped_def vmm_ok_def page_update_def size_level_def)
qed

lemma map_4kib_range:
  assumes "vmm_ok env s" "pm_current env s pm" "piece_ok env virt phys i Size4KiB s" "flags AND PT_PADDR_MASK = 0" "4 \<le> pages_left s"
  shows "\<exists>s'. map_page env ext pm (virt + i) (phys + i) flags Size4KiB s = Inr s' \<and>
    range_mapped env virt phys flags 4 (unat i) (unat i + 2 ^ 12) s s'"
proof -
  obtain own where inv: "vmm_inv env own s" using assms(1) by (auto simp: vmm_ok_def)
  note p = piece_okD [OF assms(3)]
  obtain own' s' where m: "map_page env ext pm (virt + i) (phys + i) flags Size4KiB s = Inr s'" "vmm_inv env own' s'"
    "page_update env 4 (size_level Size4KiB) (virt + i) (page_entry Size4KiB (phys + i) flags) s s'"
    by (rule map_4kib_update [OF inv assms(2) p(5) assms(5)]) (simp add: size_level_def)
  from page_update_range [OF m(3) p(1-4) assms(4)] m show ?thesis
    by (auto simp: range_mapped_def vmm_ok_def page_update_def size_level_def)
qed

lemma dvd_unat_add: "k \<le> 64 \<Longrightarrow> 2 ^ k dvd unat (a :: u64) \<Longrightarrow> 2 ^ k dvd unat b \<Longrightarrow> 2 ^ k dvd unat (a + b)"
proof -
  assume a: "k \<le> 64" "2 ^ k dvd unat a" "2 ^ k dvd unat b"
  have "(2 :: nat) ^ k dvd 2 ^ 64" using a(1) by (rule le_imp_power_dvd)
  then show ?thesis using a by (simp add: unat_word_ariths dvd_mod)
qed

text \<open>The pieces of 2 MiB that stand in for a page of 1 GiB.\<close>

lemma piece_of_1gib:
  assumes p: "piece_ok env virt phys i Size1GiB s" and j: "j < 512"
    and m: "range_mapped env virt phys flags c (unat i) (unat i + j * 2 ^ 21) s s'"
  defines "i' \<equiv> i + word_of_nat j * 0x200000"
  shows "unat i' = unat i + j * 2 ^ 21" "piece_ok env virt phys i' Size2MiB s'"
proof -
  have a: "2 ^ 30 dvd unat (virt + i)" "2 ^ 30 dvd unat (phys + i)" "unat phys + unat i + 2 ^ 30 \<le> 2 ^ 48"
    "unat i + 2 ^ 30 \<le> 2 ^ (12 + 9 * pt_levels env)"
    "\<And>va. unat i \<le> voff (pt_levels env) virt va \<Longrightarrow> voff (pt_levels env) virt va < unat i + 2 ^ 30 \<Longrightarrow> translate env s va = None"
    using p by (simp_all add: piece_ok_def size_level_def)
  have w: "unat (word_of_nat j * 0x200000 :: u64) = j * 2 ^ 21" using j by (simp add: unat_word_ariths unat_of_nat)
  have j1: "j * 2 ^ 21 + 2 ^ 21 \<le> (2 :: nat) ^ 30" using j by simp
  show u: "unat i' = unat i + j * 2 ^ 21"
    unfolding i'_def using w a(3) j1 by (simp add: unat_word_ariths)
  have "(2 :: nat) ^ 21 dvd 2 ^ 30" by (rule le_imp_power_dvd) simp
  then have al: "2 ^ 21 dvd unat (virt + i)" "2 ^ 21 dvd unat (phys + i)" using a(1,2) dvd_trans by blast+
  have dj: "2 ^ 21 dvd unat (word_of_nat j * 0x200000 :: u64)" unfolding w by simp
  have dv: "2 ^ 21 dvd unat (virt + i')" "2 ^ 21 dvd unat (phys + i')"
    using dvd_unat_add [OF _ al(1) dj] dvd_unat_add [OF _ al(2) dj] by (simp_all add: i'_def add.assoc)
  have bd: "unat phys + unat i' + 2 ^ 21 \<le> 2 ^ 48" "unat i' + 2 ^ 21 \<le> 2 ^ (12 + 9 * pt_levels env)"
    unfolding u using a(3,4) j1 by linarith+
  have fr: "translate env s' va = None"
    if "unat i' \<le> voff (pt_levels env) virt va" "voff (pt_levels env) virt va < unat i' + 2 ^ 21" for va
  proof -
    have "unat i \<le> voff (pt_levels env) virt va" "voff (pt_levels env) virt va < unat i + 2 ^ 30"
      using that j1 unfolding u by linarith+
    then show ?thesis using a(5) that m by (simp add: range_mapped_def range_map_def u)
  qed
  show "piece_ok env virt phys i' Size2MiB s'"
    unfolding piece_ok_def Let_def using dv bd fr by (simp add: size_level_def)
qed

lemma fallback_steps:
  assumes "vmm_ok env s" "pm_current env s pm" "piece_ok env virt phys i Size1GiB s" "flags AND PT_PADDR_MASK = 0"
    "3 * 512 \<le> pages_left s"
  shows "j \<le> 512 \<Longrightarrow> \<exists>s'. rfold (\<lambda>k. map_page env ext pm (virt + i + k) (phys + i + k) (flags OR PT_FLAG_VALID) Size2MiB)
      (map (\<lambda>i. word_of_nat i * 0x200000) [0..<j]) s = Inr s' \<and>
    range_mapped env virt phys flags (3 * j) (unat i) (unat i + j * 2 ^ 21) s s'"
proof (induction j)
  case 0
  then show ?case using assms(1) by (simp add: range_mapped_def vm_same_def)
next
  case (Suc j)
  let ?i = "i + word_of_nat j * 0x200000"
  from Suc obtain s1 where s1: "rfold (\<lambda>k. map_page env ext pm (virt + i + k) (phys + i + k) (flags OR PT_FLAG_VALID) Size2MiB)
      (map (\<lambda>i. word_of_nat i * 0x200000) [0..<j]) s = Inr s1"
    and r1: "range_mapped env virt phys flags (3 * j) (unat i) (unat i + j * 2 ^ 21) s s1" by auto
  note p = piece_of_1gib [OF assms(3) _ r1]
  have c: "vmm_ok env s1" "pm_current env s1 pm" "3 \<le> pages_left s1"
    using r1 assms(2,5) Suc.prems pm_current_same by (auto simp: range_mapped_def)
  from map_2mib_range [OF c(1,2) p(2) flags_small(2) [OF assms(4)] c(3), of ext] Suc.prems
  obtain s2 where s2: "map_page env ext pm (virt + ?i) (phys + ?i) (flags OR PT_FLAG_VALID) Size2MiB s1 = Inr s2"
    and r2: "range_mapped env virt phys (flags OR PT_FLAG_VALID) 3 (unat ?i) (unat ?i + 2 ^ 21) s1 s2" by auto
  have "range_mapped env virt phys flags 3 (unat i + j * 2 ^ 21) (unat i + Suc j * 2 ^ 21) s1 s2"
    using r2 p(1) Suc.prems by (simp add: range_mapped_def or.assoc ac_simps)
  from range_mapped_append [OF r1 this] s1 s2 show ?case
    by (intro exI [of _ s2]) (simp add: rfold_append add.assoc add.commute [of 3])
qed

lemma map_1gib_range:
  assumes "vmm_ok env s" "pm_current env s pm" "piece_ok env virt phys i Size1GiB s" "flags AND PT_PADDR_MASK = 0"
    "page_cost env Size1GiB \<le> pages_left s"
  shows "\<exists>s'. map_page env ext pm (virt + i) (phys + i) flags Size1GiB s = Inr s' \<and>
    range_mapped env virt phys flags (page_cost env Size1GiB) (unat i) (unat i + 2 ^ 30) s s'"
proof (cases "cpu_has_1gib_pages env")
  case True
  obtain own where inv: "vmm_inv env own s" using assms(1) by (auto simp: vmm_ok_def)
  have room: "2 \<le> pages_left s" using assms(5) True by (simp add: page_cost_def)
  note p = piece_okD [OF assms(3)]
  obtain own' s' where m: "map_page env ext pm (virt + i) (phys + i) flags Size1GiB s = Inr s'" "vmm_inv env own' s'"
    "page_update env 2 (size_level Size1GiB) (virt + i) (page_entry Size1GiB (phys + i) flags) s s'"
    by (rule map_1gib_update [OF inv assms(2) p(5) room True]) (simp add: size_level_def)
  from page_update_range [OF m(3) p(1-4) assms(4)] m True show ?thesis
    by (auto simp: range_mapped_def vmm_ok_def page_update_def size_level_def page_cost_def)
next
  case False
  obtain own where inv: "vmm_inv env own s" using assms(1) by (auto simp: vmm_ok_def)
  have room: "2 + 3 * 512 \<le> pages_left s" using assms(5) False by (simp add: page_cost_def)
  then have "2 \<le> pages_left s" by simp
  from reach_pml3 [OF inv assms(2) piece_okD(5) [OF assms(3)] this, of ext] obtain own' p4 s1 p3 s2 where
    a: "(if levels pm = 5 then get_next_level env ext (top_level pm) (pt_index 4 (virt + i)) s
      else if levels pm = 4 then Inr (top_level pm, s) else Inl BadRead) = Inr (p4, s1)"
      "get_next_level env ext p4 (pt_index 3 (virt + i)) s1 = Inr (p3, s2)" "p3 \<noteq> -1" "vmm_inv env own' s2" "grown env 2 s s2" .
  have t: "translate env s2 = translate env s" using a(5) by (auto simp: grown_def translate_def fun_eq_iff)
  have g: "vm_same s s2" "pages_left s \<le> pages_left s2 + 2" using a(5) by (simp_all add: grown_def)
  have "piece_ok env virt phys i Size1GiB s2" using assms(3) by (simp add: piece_ok_def t)
  with fallback_steps [of env s2 pm virt phys i flags 512 ext] a(4) assms(2,4) g room pm_current_same [OF g(1)]
  obtain s' where f: "large_fallback (\<lambda>k. map_page env ext pm (virt + i + k) (phys + i + k) (flags OR PT_FLAG_VALID) Size2MiB) s2 = Inr s'"
    and r: "range_mapped env virt phys flags (3 * 512) (unat i) (unat i + 512 * 2 ^ 21) s2 s'"
    by (auto simp: vmm_ok_def large_fallback_def)
  have "map_page env ext pm (virt + i) (phys + i) flags Size1GiB s = Inr s'"
    using f a(1-3) False resolve_current [OF inv assms(2)] by (subst map_page.simps) simp
  moreover have "range_mapped env virt phys flags (page_cost env Size1GiB) (unat i) (unat i + 2 ^ 30) s s'"
    using r g False by (auto simp: range_mapped_def t vm_same_def page_cost_def)
  ultimately show ?thesis by blast
qed

section \<open>The loop over a range\<close>

definition next_piece :: "u64 \<Rightarrow> u64 \<Rightarrow> u64 \<Rightarrow> u64 \<Rightarrow> page_size" where
  "next_piece virt phys cnt i =
     (if (phys + i) AND 0x3fffffff = 0 \<and> (virt + i) AND 0x3fffffff = 0 \<and> cnt - i \<ge> 0x40000000 then Size1GiB
      else if (phys + i) AND 0x1fffff = 0 \<and> (virt + i) AND 0x1fffff = 0 \<and> cnt - i \<ge> 0x200000 then Size2MiB
      else Size4KiB)"

text \<open>An upper bound of the tables that mapping a range takes.\<close>

fun map_cost :: "nat \<Rightarrow> vmm_env \<Rightarrow> u64 \<Rightarrow> u64 \<Rightarrow> u64 \<Rightarrow> u64 \<Rightarrow> nat" where
  "map_cost 0 env virt phys cnt i = 0"
| "map_cost (Suc fuel) env virt phys cnt i =
     (if i < cnt
      then page_cost env (next_piece virt phys cnt i) + map_cost fuel env virt phys cnt (i + page_bytes (next_piece virt phys cnt i))
      else 0)"

lemma map_pages_loop_step:
  "map_pages_loop (Suc fuel) env ext pm virt phys flags cnt i s =
     (if i < cnt then rbind (map_page env ext pm (virt + i) (phys + i) flags (next_piece virt phys cnt i) s)
        (map_pages_loop fuel env ext pm virt phys flags cnt (i + page_bytes (next_piece virt phys cnt i))) else Inr s)"
  by (simp add: next_piece_def page_bytes_def)

lemma unat_page_bytes: "unat (page_bytes sz) = 2 ^ (12 + 9 * size_level sz)"
  by (cases sz) (simp_all add: page_bytes_def size_level_def)

lemma map_page_range:
  assumes "vmm_ok env s" "pm_current env s pm" "piece_ok env virt phys i sz s" "flags AND PT_PADDR_MASK = 0"
    "page_cost env sz \<le> pages_left s"
  shows "\<exists>s'. map_page env ext pm (virt + i) (phys + i) flags sz s = Inr s' \<and>
    range_mapped env virt phys flags (page_cost env sz) (unat i) (unat i + unat (page_bytes sz)) s s'"
proof (cases sz)
  case Size4KiB
  then show ?thesis using map_4kib_range assms by (simp add: page_cost_def unat_page_bytes size_level_def)
next
  case Size2MiB
  then show ?thesis using map_2mib_range assms by (simp add: page_cost_def unat_page_bytes size_level_def)
next
  case Size1GiB
  then show ?thesis using map_1gib_range assms by (simp add: unat_page_bytes size_level_def)
qed

text \<open>A range that can be mapped: aligned, within reach, and from \<open>i\<close> on not in use.\<close>

definition range_ok :: "vmm_env \<Rightarrow> u64 \<Rightarrow> u64 \<Rightarrow> u64 \<Rightarrow> nat \<Rightarrow> 'e vmm \<Rightarrow> bool" where
  "range_ok env virt phys cnt i s \<longleftrightarrow>
     4096 dvd unat virt \<and> 4096 dvd unat phys \<and> 4096 dvd unat cnt \<and> 4096 dvd i \<and>
     unat phys + unat cnt \<le> 2 ^ 48 \<and> unat cnt \<le> 2 ^ (12 + 9 * pt_levels env) \<and> i \<le> unat cnt \<and>
     (\<forall>va. i \<le> voff (pt_levels env) virt va \<and> voff (pt_levels env) virt va < unat cnt \<longrightarrow> translate env s va = None)"

lemma mask_aligned: "(w :: u64) AND 0x3fffffff = 0 \<longleftrightarrow> 2 ^ 30 dvd unat w" "(w :: u64) AND 0x1fffff = 0 \<longleftrightarrow> 2 ^ 21 dvd unat w"
  using and_mask_dvd [of 30 w] and_mask_dvd [of 21 w] by (simp_all add: mask_eq_exp_minus_1)

lemma next_piece_fits:
  assumes r: "range_ok env virt phys cnt (unat i) s" and i: "i < cnt"
  defines "sz \<equiv> next_piece virt phys cnt i"
  shows "unat i + unat (page_bytes sz) \<le> unat cnt" "unat (page_bytes sz) dvd unat (virt + i)" "unat (page_bytes sz) dvd unat (phys + i)"
    "4096 dvd unat (page_bytes sz)"
proof -
  have al: "2 ^ 12 dvd unat virt" "2 ^ 12 dvd unat phys" "4096 dvd unat cnt" "2 ^ 12 dvd unat i" using r by (simp_all add: range_ok_def)
  have d: "4096 dvd unat (virt + i)" "4096 dvd unat (phys + i)"
    using dvd_unat_add [OF _ al(1,4)] dvd_unat_add [OF _ al(2,4)] by simp_all
  have lt: "unat i < unat cnt" using i by (simp add: word_less_nat_alt)
  obtain a where a: "unat i = 4096 * a" using al(4) by auto
  obtain b where "unat cnt = 4096 * b" using al(3) by auto
  note a this
  then have small: "unat i + 4096 \<le> unat cnt" using lt by simp
  have c: "unat (cnt - i) = unat cnt - unat i" using i by (simp add: unat_sub)
  show "unat i + unat (page_bytes sz) \<le> unat cnt"
    using small lt c by (auto simp: sz_def next_piece_def page_bytes_def word_le_nat_alt)
  show "unat (page_bytes sz) dvd unat (virt + i)" "unat (page_bytes sz) dvd unat (phys + i)"
    using d by (auto simp: sz_def next_piece_def page_bytes_def mask_aligned)
  show "4096 dvd unat (page_bytes sz)" by (cases sz) (simp_all add: page_bytes_def)
qed

lemma map_pages_loop_range:
  assumes f: "flags AND PT_PADDR_MASK = 0"
  shows "vmm_ok env s \<Longrightarrow> pm_current env s pm \<Longrightarrow> range_ok env virt phys cnt (unat i) s \<Longrightarrow> unat cnt \<le> unat i + fuel * 4096 \<Longrightarrow>
    map_cost fuel env virt phys cnt i \<le> pages_left s \<Longrightarrow>
    \<exists>s'. map_pages_loop fuel env ext pm virt phys flags cnt i s = Inr s' \<and>
      range_mapped env virt phys flags (map_cost fuel env virt phys cnt i) (unat i) (unat cnt) s s'"
proof (induction fuel arbitrary: i s)
  case 0
  then have "unat i = unat cnt" by (simp add: range_ok_def)
  then show ?case using 0 by (simp add: range_mapped_def vm_same_def word_less_nat_alt)
next
  case (Suc fuel)
  show ?case
  proof (cases "i < cnt")
    case False
    then have "unat i = unat cnt" using Suc.prems(3) by (simp add: range_ok_def word_less_nat_alt)
    then show ?thesis using False Suc.prems by (simp add: range_mapped_def vm_same_def)
  next
    case True
    define sz where "sz = next_piece virt phys cnt i"
    note np = next_piece_fits [OF Suc.prems(3) True, folded sz_def]
    have ro: "unat phys + unat cnt \<le> 2 ^ 48" "unat cnt \<le> 2 ^ (12 + 9 * pt_levels env)"
      "\<And>va. unat i \<le> voff (pt_levels env) virt va \<Longrightarrow> voff (pt_levels env) virt va < unat cnt \<Longrightarrow> translate env s va = None"
      using Suc.prems(3) by (simp_all add: range_ok_def)
    have "piece_ok env virt phys i sz s"
      unfolding piece_ok_def Let_def unat_page_bytes [symmetric] using np ro by auto
    from map_page_range [OF Suc.prems(1,2) this f, of ext] Suc.prems(5) True obtain s1 where
      m: "map_page env ext pm (virt + i) (phys + i) flags sz s = Inr s1"
      and r1: "range_mapped env virt phys flags (page_cost env sz) (unat i) (unat i + unat (page_bytes sz)) s s1"
      by (auto simp: sz_def)
    have "unat i + unat (page_bytes sz) < 2 ^ 64" using np(1) unat_bound [of cnt] by simp
    then have u: "unat (i + page_bytes sz) = unat i + unat (page_bytes sz)" by (simp add: unat_word_ariths)
    have big: "4096 \<le> unat (page_bytes sz)" by (cases sz) (simp_all add: page_bytes_def)
    have c: "vmm_ok env s1" "pm_current env s1 pm" "unat cnt \<le> unat (i + page_bytes sz) + fuel * 4096"
      "map_cost fuel env virt phys cnt (i + page_bytes sz) \<le> pages_left s1"
      using r1 Suc.prems(2,4,5) True big pm_current_same [of s s1 env pm] by (simp_all add: range_mapped_def u flip: sz_def)
    have "translate env s1 va = None"
      if "unat (i + page_bytes sz) \<le> voff (pt_levels env) virt va" "voff (pt_levels env) virt va < unat cnt" for va
      using that r1 ro(3) [of va] by (simp add: range_mapped_def range_map_def u)
    then have "range_ok env virt phys cnt (unat (i + page_bytes sz)) s1"
      using Suc.prems(3) np by (simp add: range_ok_def u)
    from Suc.IH [OF c(1,2) this c(3,4)] obtain s2 where
      "map_pages_loop fuel env ext pm virt phys flags cnt (i + page_bytes sz) s1 = Inr s2"
      and r2: "range_mapped env virt phys flags (map_cost fuel env virt phys cnt (i + page_bytes sz)) (unat (i + page_bytes sz)) (unat cnt) s1 s2"
      by blast
    then show ?thesis using m True range_mapped_append [OF r1 r2 [unfolded u]] np(1)
      by (auto simp: map_pages_loop_step sz_def simp del: map_pages_loop.simps)
  qed
qed

section \<open>The frame buffer\<close>

lemma map_spec_range:
  assumes L: "0 < L" "L \<le> 5" and al: "4096 dvd unat (virt + i)" and i: "unat i + 4096 \<le> 2 ^ (12 + 9 * L)" and f: "f (virt + i) = None"
  shows "map_spec L (virt + i) (phys + i) flags f =
    range_map L virt phys (VMM_P OR (flags AND (VMM_RW OR VMM_PWT OR VMM_PCD))) (unat i) (unat i + 4096) f"
proof
  fix va
  have m: "(0xFFF :: u64) = page_mask 0" by (simp add: page_mask_def mask12)
  have al': "2 ^ (12 + 9 * 0) dvd unat (virt + i)" and i': "unat i + 2 ^ (12 + 9 * 0) \<le> 2 ^ (12 + 9 * L)" using al i by simp_all
  show "map_spec L (virt + i) (phys + i) flags f va =
    range_map L virt phys (VMM_P OR (flags AND (VMM_RW OR VMM_PWT OR VMM_PCD))) (unat i) (unat i + 4096) f va"
    using page_no_range [OF L al' i', of va] page_offset [OF L al', of va] f
    by (auto simp: map_spec_def range_map_def m)
qed

text \<open>The words of the loop: no address wraps as long as the frame buffer ends below \<open>2\<^sup>3\<^sup>2\<close>.\<close>

lemma fb_address:
  assumes "unat (b :: u32) + i * 4096 < 2 ^ 32"
  shows "(ucast (b + push_bit 12 (word_of_nat i :: u32)) :: u64) = ucast b + word_of_nat (i * 4096)"
proof -
  have i: "i * 4096 < 2 ^ 32" using assms by simp
  have "unat (push_bit 12 (word_of_nat i :: u32)) = i * 4096"
    using i by (simp add: push_bit_eq_mult unat_word_ariths unat_of_nat mod_mult_right_eq)
  then have a: "unat (b + push_bit 12 (word_of_nat i :: u32)) = unat b + i * 4096" using assms by (simp add: unat_word_ariths)
  have "unat (ucast b + word_of_nat (i * 4096) :: u64) = unat b + i * 4096"
    using assms i by (simp add: unat_word_ariths unat_of_nat unat_ucast_up)
  with a show ?thesis by (simp add: word_unat_eq_iff unat_ucast_up)
qed

lemma fb_pages_count:
  assumes "unat fb_pitch * unat fb_h + 8192 \<le> 2 ^ 29"
  shows "unat (fb_pages fb_phys fb_pitch fb_h) = (unat (fb_phys AND 0xFFF) + unat fb_pitch * unat fb_h + 4095) div 4096"
    and "unat (fb_phys AND 0xFFF) < 4096"
proof -
  have m: "(0xFFF :: u32) = mask 12" by (simp add: mask_eq_exp_minus_1)
  have "unat (fb_phys AND mask 12) = unat fb_phys mod 2 ^ 12"
    by (simp only: take_bit_eq_mask [symmetric] unsigned_take_bit_eq take_bit_nat_def)
  then show o: "unat (fb_phys AND 0xFFF) < 4096" unfolding m by simp
  define x where "x = (fb_phys AND 0xFFF) + fb_pitch * fb_h"
  have x: "unat x = unat (fb_phys AND 0xFFF) + unat fb_pitch * unat fb_h"
    unfolding x_def using o assms by (simp add: unat_word_ariths)
  have "x + 0x1000 - 1 = x + 0xFFF" by simp
  then have "fb_pages fb_phys fb_pitch fb_h = drop_bit 12 ((x + 0xFFF) AND NOT (mask 12))"
    by (simp add: fb_pages_def align_up_u32_def x_def mask_eq_exp_minus_1 ac_simps)
  also have "\<dots> = drop_bit 12 (x + 0xFFF)" by (rule bit_word_eqI) (auto simp: bit_simps dest: bit_imp_le_length)
  finally show "unat (fb_pages fb_phys fb_pitch fb_h) = (unat (fb_phys AND 0xFFF) + unat fb_pitch * unat fb_h + 4095) div 4096"
    using x o assms by (simp add: unat_drop_bit_eq drop_bit_nat_def unat_word_ariths)
qed

abbreviation fb_flags :: u32 where "fb_flags \<equiv> VMM_P OR VMM_RW OR VMM_PWT OR VMM_PCD"

lemma page_base_aligned: "2 ^ 12 dvd unat (ucast (p AND NOT 0xFFF :: u32) :: u64)"
proof -
  have "(ucast (p AND NOT (mask 12)) :: u64) AND mask 12 = 0" by (rule bit_word_eqI) (simp add: bit_simps)
  then have "2 ^ 12 dvd unat (ucast (p AND NOT (mask 12)) :: u64)" using and_mask_dvd [of 12 "ucast (p AND NOT (mask 12))"] by simp
  moreover have "mask 12 = (0xFFF :: u32)" by (simp add: mask_eq_exp_minus_1)
  ultimately show ?thesis by (simp only:)
qed

lemma fb_map_steps:
  assumes ok: "vmm_ok env s" and ph: "unat fb_phys + n * 4096 \<le> 2 ^ 32" and n: "n * 4096 \<le> 2 ^ 29"
    and free: "\<forall>va. voff (pt_levels env) 0xE0000000 va < n * 4096 \<longrightarrow> translate env s va = None" and room: "4 * n \<le> pages_left s"
  shows "j \<le> n \<Longrightarrow> \<exists>s'. rfold (fb_map_step env ext fb_phys) [0..<j] s = Inr s' \<and> vmm_ok env s' \<and>
    pages_left s \<le> pages_left s' + 4 * j \<and>
    translate env s' = range_map (pt_levels env) 0xE0000000 (ucast (fb_phys AND NOT 0xFFF)) fb_flags 0 (j * 4096) (translate env s)"
proof (induction j)
  case 0
  then show ?case using ok by (intro exI [of _ s]) simp
next
  case (Suc j)
  let ?L = "pt_levels env" and ?i = "word_of_nat (j * 4096) :: u64" and ?p = "fb_phys AND NOT 0xFFF"
  from Suc obtain s1 where s1: "rfold (fb_map_step env ext fb_phys) [0..<j] s = Inr s1" "vmm_ok env s1"
      "pages_left s \<le> pages_left s1 + 4 * j"
      "translate env s1 = range_map ?L 0xE0000000 (ucast ?p) fb_flags 0 (j * 4096) (translate env s)" by auto
  obtain own where inv: "vmm_inv env own s1" using s1(2) by (auto simp: vmm_ok_def)
  have j: "j * 4096 + 4096 \<le> 2 ^ 29" using Suc.prems n by simp
  have "unat fb_phys + Suc j * 4096 \<le> 2 ^ 32" using Suc.prems ph order_trans [OF _ ph] by simp
  moreover have p: "unat ?p \<le> unat fb_phys" by (metis word_and_le2 word_le_nat_alt and.commute)
  ultimately have pj: "unat ?p + j * 4096 + 4096 \<le> 2 ^ 32" by simp
  have va: "ucast (FB_VIRT_BASE + push_bit 12 (word_of_nat j :: u32)) = 0xE0000000 + ?i" using fb_address [of FB_VIRT_BASE j] j by simp
  have pa: "ucast (?p + push_bit 12 (word_of_nat j :: u32)) = ucast ?p + ?i" using fb_address [of ?p j] pj by simp
  have ui: "unat ?i = j * 4096" using j by (simp add: unat_of_nat unat_word_ariths)
  have pal: "2 ^ 12 dvd unat (ucast ?p :: u64)" by (rule page_base_aligned)
  have "2 ^ 12 dvd unat ?i" unfolding ui by simp
  then have al: "4096 dvd unat (0xE0000000 + ?i)" "4096 dvd unat (ucast ?p + ?i)"
    using dvd_unat_add [OF _ pal] dvd_unat_add [of 12 "0xE0000000" ?i] by simp_all
  have ph': "unat (ucast ?p + ?i) < 2 ^ 48" using pj ui by (simp add: unat_word_ariths unat_ucast_up)
  have K: "(2 :: nat) ^ 48 \<le> 2 ^ (12 + 9 * ?L)" using pt_levels_range(1) [of env] by (intro power_increasing) simp_all
  have iK: "unat ?i + 4096 \<le> 2 ^ (12 + 9 * ?L)" unfolding ui by (rule order_trans [OF _ K]) (use j in simp)
  have "voff ?L 0xE0000000 (0xE0000000 + ?i) = j * 4096"
    using voff_self [OF pt_levels_range(2), of ?i env "0xE0000000"] iK ui by simp
  then have none: "translate env s1 (0xE0000000 + ?i) = None" using s1(4) free Suc.prems by (simp add: range_map_def)
  have room1: "4 \<le> pages_left s1" using s1(3) room Suc.prems by simp
  obtain own' s2 where m: "vmm_map env ext (0xE0000000 + ?i) (ucast ?p + ?i) (VMM_RW OR VMM_PWT OR VMM_PCD) s1 = Inr (0, s2)"
    and i2: "vmm_inv env own' s2" "pages_left s1 \<le> pages_left s2 + 4"
      "translate env s2 = map_spec ?L (0xE0000000 + ?i) (ucast ?p + ?i) (VMM_RW OR VMM_PWT OR VMM_PCD) (translate env s1)"
    by (rule vmm_map_free [OF inv al ph' room1 none])
  have "translate env s2 = range_map ?L 0xE0000000 (ucast ?p) fb_flags (unat ?i) (unat ?i + 4096) (translate env s1)"
    unfolding i2(3) using map_spec_range [where f = "translate env s1", OF _ pt_levels_range(2) al(1) iK none] pt_levels_range(1) [of env] by simp
  then have "translate env s2 = range_map ?L 0xE0000000 (ucast ?p) fb_flags 0 (Suc j * 4096) (translate env s)"
    unfolding s1(4) ui using range_map_append [of 0 "j * 4096" "Suc j * 4096"] by (simp add: add.commute)
  moreover have "rfold (fb_map_step env ext fb_phys) [0..<Suc j] s = Inr s2"
  proof -
    have "fb_map_step env ext fb_phys j s1 = Inr s2" unfolding fb_map_step_def Let_def va pa m by simp
    then show ?thesis using s1(1) by (simp add: rfold_append)
  qed
  ultimately show ?case using i2 s1(3) by (intro exI [of _ s2]) (auto simp: vmm_ok_def)
qed

lemma leaf_same_page:
  assumes "page_no (pt_levels env) 0 va = page_no (pt_levels env) 0 va'"
  shows "leaf env s va = leaf env s va'"
proof -
  have idx: "pt_index j va = pt_index j va'" if "j < pt_levels env" for j
    using page_no_iff [of 0 "pt_levels env" va va'] pt_levels_range [of env] that assms by simp
  have "pt_leaf env (vm_mem s) n t va = pt_leaf env (vm_mem s) n t va'" if "n \<le> pt_levels env" for n t
    using that
  proof (induction n arbitrary: t)
    case (Suc n)
    with idx [of n] show ?case by (simp split: option.split)
  qed simp
  then show ?thesis by (simp add: leaf_def)
qed

lemma vmm_query_spec:
  assumes inv: "vmm_inv env own s"
    and clean: "\<And>e n. leaf env s va = Some (e, n) \<Longrightarrow> pte_addr e AND NOT (page_mask n) = pte_addr e"
  shows "\<exists>r. vmm_query env va s = Inr (r, translate env s va) \<and> r \<in> (if translate env s va = None then {-1, -2} else {0})"
proof -
  obtain r where r: "locate_entry env va s = Inr r" "located env s va r" by (rule locate_entry_located [OF inv])
  have pb: "page_bytes lvl - 1 = page_mask (size_level lvl)" for lvl
    by (cases lvl) (simp_all add: page_bytes_def page_mask_def size_level_def mask_eq_exp_minus_1)
  show ?thesis
  proof (cases r)
    case None
    then show ?thesis using r by (simp add: vmm_query_def located_def translate_def)
  next
    case (Some al)
    then obtain a lvl e where a: "r = Some (a, lvl)" "vm_mem s a = Some e"
      "leaf env s va = (if e AND PT_FLAG_VALID \<noteq> 0 then Some (e, size_level lvl) else None)"
      using r(2) by (cases al) (auto simp: located_def)
    then show ?thesis using r(1) clean [of e "size_level lvl"] pb [of lvl]
      by (auto simp: vmm_query_def rd_entry_def translate_def leaf_target_def)
  qed
qed

section \<open>A machine to try it on\<close>

text \<open>A kernel at 1 MiB, memory mapped directly from \<open>0xffff800000000000\<close>, an empty top table at \<open>0x8000\<close>
  and the page pool behind the kernel.\<close>

definition demo_env :: vmm_env where
  "demo_env = \<lparr>lk_text_lma = 0x100000, lk_high_start = 0xffffffff80000000, lk_high_end = 0xffffffff80100000,
     lk_phys_start = 0x100000, lk_phys_end = 0x200000, cpuid = (\<lambda>_ _. None),
     hhdm_response = Some 0xffff800000000000, boot_memmap = [], cr4 = 0\<rparr>"

definition demo_ext :: "unit ext_pages" where
  "demo_ext = \<lparr>ext_mem_alloc = (\<lambda>e n. (0, e)), ext_mem_free = (\<lambda>e p n. e)\<rparr>"

definition demo_vmm :: "unit vmm" where
  "demo_vmm = \<lparr>vm_pool = \<lparr>fb_base = 0x200000, fb_limit = 0x4200000, fb_cursor = 0x200000, fb_total_pages = 16384,
       memmap_total_pages = 0, memmap_total_ready = False, boot_total_pages = 0, pmm_mem = (\<lambda>_. 0)\<rparr>,
     vm_ext = (), vm_mem = (\<lambda>_. Some 0), cr3 = 0x8000,
     kernel_pagemap = \<lparr>levels = 0, top_level = 0, top_level_phys = 0\<rparr>, tlb = [0x40000000, 0x50000000]\<rparr>"

lemma demo_values:
  "vmm_hhdm_offset demo_env = 0xffff800000000000" "pt_levels demo_env = 4" "pt_top demo_env demo_vmm = 0xffff800000008000"
  "pages_left demo_vmm = 16384" "current_pagemap demo_env demo_vmm = \<lparr>levels = 4, top_level = 0xffff800000008000, top_level_phys = 0\<rparr>"
  by (simp_all add: vmm_hhdm_offset_def demo_env_def pt_levels_def pt_top_def demo_vmm_def phys_to_virt_def pages_left_def
      current_pagemap_def)

lemma demo_tables_layout: "layout_ok demo_env (vm_pool demo_vmm)"
  unfolding layout_ok_def demo_values by (simp add: demo_env_def demo_vmm_def pmm_ok_def pool_env_def vmm_hhdm_offset_def)

lemma demo_ok: "vmm_ok demo_env demo_vmm"
  unfolding vmm_ok_def
proof (intro exI)
  let ?own = "[0xffff800000008000 \<mapsto> []] :: u64 \<Rightarrow> u64 list option"
  show "vmm_inv demo_env ?own demo_vmm"
    unfolding vmm_inv_def
  proof (intro conjI allI impI)
    show "owned demo_env (pt_levels demo_env) (pt_top demo_env demo_vmm) (vm_mem demo_vmm) ?own"
      unfolding owned_def demo_values by (auto simp: demo_vmm_def entry_kinds split: if_splits)
    show "layout_ok demo_env (vm_pool demo_vmm)" by (rule demo_tables_layout)
    show "?own t = None" if t: "free_page demo_env demo_vmm t" for t
    proof (cases "t = 0xffff800000008000")
      case True
      from t obtain phys where p: "0x200000 \<le> unat phys" "t = phys + 0xffff800000000000"
        unfolding free_page_def demo_values by (auto simp: demo_vmm_def)
      from p(2) True have "phys = 0x8000" by (simp add: eq_diff_eq [symmetric])
      with p(1) show ?thesis by simp
    qed simp
    show "vm_mem demo_vmm (slot t i) \<noteq> None" for t i by (simp add: demo_vmm_def)
    show "pt_top demo_env demo_vmm \<noteq> 0" by (simp add: demo_values)
    show "virt_to_phys demo_env (pt_top demo_env demo_vmm) = cr3 demo_vmm AND PT_PADDR_MASK"
      unfolding demo_values virt_to_phys_def by (simp add: demo_values) (simp add: demo_env_def demo_vmm_def)
  qed
qed

lemma demo_unmapped: "translate demo_env demo_vmm va = None"
  unfolding translate_none leaf_def by (rule zero_table_leaf) (simp add: demo_vmm_def)

section \<open>Properties\<close>

text \<open>C17: \<open>vmm_map\<close> refines a point update of the translation. With the tables in order, aligned addresses and
  room for the tables, it returns 0 and the page translates to the frame, with the flags that were asked
  for, if the page was not mapped; otherwise it returns \<open>-3\<close> and nothing changes. Every other page translates
  as before, and the tables stay in order.\<close>

theorem vmm_map_refines:
  assumes "vmm_ok env s" "virt AND 0xFFF = 0" "phys AND 0xFFF = 0" "unat phys < 2 ^ 48" "4 \<le> pages_left s"
  shows "\<exists>s'. vmm_map env ext virt phys flags s = Inr (if translate env s virt = None then 0 else -3, s') \<and> vmm_ok env s' \<and>
    translate env s' = map_spec (pt_levels env) virt phys flags (translate env s)"
proof -
  obtain own where inv: "vmm_inv env own s" using assms(1) by (auto simp: vmm_ok_def)
  have al: "4096 dvd unat virt" "4096 dvd unat phys" using assms(2,3) by (simp_all add: aligned_page)
  show ?thesis by (rule vmm_map_spec [OF inv al assms(4,5), of ext flags]) (auto simp: vmm_ok_def)
qed

theorem vmm_map_refines_witness:
  "\<exists>s'. vmm_map demo_env demo_ext 0x40000000 0x7000 VMM_RW demo_vmm = Inr (0, s') \<and> translate demo_env s' 0x40000123 = Some (0x7123, 3)"
proof -
  have "\<exists>s'. vmm_map demo_env demo_ext 0x40000000 0x7000 VMM_RW demo_vmm = Inr (if translate demo_env demo_vmm 0x40000000 = None then 0 else -3, s') \<and>
    vmm_ok demo_env s' \<and> translate demo_env s' = map_spec (pt_levels demo_env) 0x40000000 0x7000 VMM_RW (translate demo_env demo_vmm)"
    by (rule vmm_map_refines [OF demo_ok]) (simp_all add: demo_values)
  moreover have "page_no 4 0 0x40000123 = page_no 4 0 0x40000000" by (simp add: page_no_def take_bit_eq_mod drop_bit_eq_div)
  ultimately show ?thesis by (auto simp: demo_unmapped demo_values map_spec_def)
qed

text \<open>C19: Unmapping undoes mapping. After \<open>vmm_map\<close> of a page that was not mapped the page translates and the
  processor holds no old translation of it. Whatever translations the processor caches meanwhile, \<open>vmm_unmap\<close>
  then succeeds, every address translates as at the start, the tables are in order, and of the cached
  translations exactly those of the page are gone.\<close>

theorem vmm_map_unmap:
  assumes "vmm_ok env s" "virt AND 0xFFF = 0" "phys AND 0xFFF = 0" "unat phys < 2 ^ 48" "4 \<le> pages_left s"
    and none: "translate env s virt = None"
  shows "\<exists>s1. vmm_map env ext virt phys flags s = Inr (0, s1) \<and> translate env s1 virt \<noteq> None \<and>
    (\<forall>a\<in>set (tlb s1). drop_bit 12 a \<noteq> drop_bit 12 virt) \<and>
    (\<forall>cached. \<exists>s2. vmm_unmap env virt (s1\<lparr>tlb := cached\<rparr>) = Inr (0, s2) \<and> vmm_ok env s2 \<and>
      translate env s2 = translate env s \<and> set (tlb s2) = {a \<in> set cached. drop_bit 12 a \<noteq> drop_bit 12 virt})"
proof -
  obtain own where inv: "vmm_inv env own s" using assms(1) by (auto simp: vmm_ok_def)
  have al: "4096 dvd unat virt" "4096 dvd unat phys" using assms(2,3) by (simp_all add: aligned_page)
  have lf: "leaf env s virt = None" using none by (simp add: translate_none)
  from vmm_map_cases [OF inv al assms(5), of ext flags] lf obtain own1 s0 where
    m: "vmm_map env ext virt phys flags s = Inr (0, flush_tlb_single virt s0)" and i1: "vmm_inv env own1 s0"
    and u: "page_update env 4 0 virt (page_entry Size4KiB phys (legacy_map_flags flags)) s s0" by auto
  let ?s1 = "flush_tlb_single virt s0" and ?e = "page_entry Size4KiB phys (legacy_map_flags flags)"
  have l1: "leaf env ?s1 va = (if page_no (pt_levels env) 0 va = page_no (pt_levels env) 0 virt then Some (?e, 0) else leaf env s va)" for va
    using u legacy_entry(1) [OF al(2) assms(4), of flags] by (simp add: page_update_def leaf_of_entry_def)
  have l1v: "leaf env ?s1 virt = Some (?e, 0)" using l1 [of virt] by simp
  have "\<exists>s2. vmm_unmap env virt (?s1\<lparr>tlb := cached\<rparr>) = Inr (0, s2) \<and> vmm_ok env s2 \<and> translate env s2 = translate env s \<and>
      set (tlb s2) = {a \<in> set cached. drop_bit 12 a \<noteq> drop_bit 12 virt}" for cached
  proof -
    let ?c = "?s1\<lparr>tlb := cached\<rparr>"
    have i1': "vmm_inv env own1 ?c" using i1 by simp
    have lc: "leaf env ?c va = leaf env ?s1 va" for va by simp
    obtain r s2 where un: "vmm_unmap env virt ?c = Inr (r, s2)" "vmm_inv env own1 s2" "r = 0 \<longleftrightarrow> leaf env ?c virt \<noteq> None"
      and l2: "\<And>e n. leaf env ?c virt = Some (e, n) \<Longrightarrow> n \<le> 2 \<and> (\<forall>va. leaf env s2 va =
         (if page_no (pt_levels env) n va = page_no (pt_levels env) n virt then None else leaf env ?c va))"
      by (rule vmm_unmap_spec [OF i1' al(1)]) blast
    have r0: "r = 0" using un(3) l1v lc by simp
    have "leaf env s2 va = leaf env s va" for va
      using l2 [of ?e 0] l1v l1 [of va] lc leaf_same_page [of env va virt s] lf
      by (cases "page_no (pt_levels env) 0 va = page_no (pt_levels env) 0 virt") auto
    then have "translate env s2 = translate env s" by (simp add: translate_def fun_eq_iff)
    moreover have "tlb s2 = filter (\<lambda>a. drop_bit 12 a \<noteq> drop_bit 12 virt) cached"
      using un(1) r0 by (auto simp: vmm_unmap_def res_simps flush_tlb_single_def split: if_splits option.splits prod.splits)
    ultimately show ?thesis using un(1,2) r0 by (auto simp: vmm_ok_def)
  qed
  moreover have "translate env ?s1 virt \<noteq> None" using l1v by (simp only: translate_none) simp
  moreover have "\<forall>a\<in>set (tlb ?s1). drop_bit 12 a \<noteq> drop_bit 12 virt" by (simp add: flush_tlb_single_def)
  ultimately show ?thesis using m by blast
qed

theorem vmm_map_unmap_witness:
  "\<exists>s1 s2. vmm_map demo_env demo_ext 0x40000000 0x7000 VMM_RW demo_vmm = Inr (0, s1) \<and> translate demo_env s1 0x40000000 \<noteq> None \<and>
    vmm_unmap demo_env 0x40000000 (s1\<lparr>tlb := [0x50000000, 0x40000000]\<rparr>) = Inr (0, s2) \<and> translate demo_env s2 0x40000000 = None \<and>
    set (tlb s2) = {0x50000000}"
proof -
  have e: "{a \<in> set [0x50000000, 0x40000000 :: u64]. drop_bit 12 a \<noteq> drop_bit 12 (0x40000000 :: u64)} = {0x50000000}"
    by (auto simp: drop_bit_eq_div)
  from vmm_map_unmap [OF demo_ok, of "0x40000000" "0x7000" demo_ext VMM_RW] obtain s1 where
    m: "vmm_map demo_env demo_ext 0x40000000 0x7000 VMM_RW demo_vmm = Inr (0, s1)" "translate demo_env s1 0x40000000 \<noteq> None"
    and un: "\<And>cached. \<exists>s2. vmm_unmap demo_env 0x40000000 (s1\<lparr>tlb := cached\<rparr>) = Inr (0, s2) \<and> vmm_ok demo_env s2 \<and>
      translate demo_env s2 = translate demo_env demo_vmm \<and>
      set (tlb s2) = {a \<in> set cached. drop_bit 12 a \<noteq> drop_bit 12 (0x40000000 :: u64)}"
    by (auto simp: demo_values demo_unmapped)
  from un [of "[0x50000000, 0x40000000]"] m show ?thesis unfolding e by (auto simp: demo_unmapped)
qed

text \<open>The five low bits of an entry, from present to cache disable, are the flags of the interface.\<close>

lemma legacy_flags_are_bits: "entry_to_legacy_flags e = ucast (take_bit 5 e)"
proof -
  have b: "e AND push_bit n 1 \<noteq> 0 \<longleftrightarrow> bit e n" if "n < 64" for n
  proof -
    have "e AND push_bit n 1 = (if bit e n then push_bit n 1 else 0)" by (rule bit_word_eqI) (auto simp: bit_simps)
    moreover have "push_bit n (1 :: u64) \<noteq> 0" using that by (simp add: push_bit_eq_mult)
    ultimately show ?thesis by simp
  qed
  have m: "e AND 1 \<noteq> 0 \<longleftrightarrow> bit e 0" "e AND 2 \<noteq> 0 \<longleftrightarrow> bit e 1" "e AND 4 \<noteq> 0 \<longleftrightarrow> bit e 2"
    "e AND 8 \<noteq> 0 \<longleftrightarrow> bit e 3" "e AND 16 \<noteq> 0 \<longleftrightarrow> bit e 4"
    using b [of 0] b [of 1] b [of 2] b [of 3] b [of 4] by simp_all
  have v: "(1 :: u32) = push_bit 0 1" "(2 :: u32) = push_bit 1 1" "(4 :: u32) = push_bit 2 1" "(8 :: u32) = push_bit 3 1"
    "(16 :: u32) = push_bit 4 1" by simp_all
  show ?thesis
  proof (rule bit_word_eqI)
    fix i :: nat
    assume i: "i < LENGTH(32)"
    have "\<exists>j. i = Suc (Suc (Suc (Suc (Suc j))))" if "5 \<le> i" using that by (intro exI [of _ "i - 5"]) simp
    then consider "i = 0" | "i = 1" | "i = 2" | "i = 3" | "i = 4" | j where "i = Suc (Suc (Suc (Suc (Suc j))))" by force
    then show "bit (entry_to_legacy_flags e) i = bit (ucast (take_bit 5 e) :: u32) i"
      unfolding entry_to_legacy_flags_def m
      by cases (use i in \<open>auto simp: bit_simps bit_1_iff bit_numeral_rec\<close>)
  qed
qed

text \<open>C21: \<open>vmm_query\<close> agrees with the processor's walk: an address for which the walk ends without an entry gives
  an error and stores nothing. If the walk ends at the entry \<open>e\<close> for a page of \<open>2\<^sup>1\<^sup>2 * 512\<^sup>n\<close> bytes, the result is 0,
  the frame of the entry plus the offset in the page, and bits 0 to 4 of the entry. An entry for a large page keeps
  no other bits in its address field: \<open>vmm_query\<close> does not mask the bits below the page size.\<close>

theorem vmm_query_translates:
  assumes "vmm_ok env s" and "\<forall>e n i. leaf env s va = Some (e, n) \<and> 12 \<le> i \<and> i < 12 + 9 * n \<longrightarrow> \<not> bit e i"
  shows "case leaf env s va of
      None \<Rightarrow> vmm_query env va s = Inr (-1, None) \<or> vmm_query env va s = Inr (-2, None)
    | Some (e, n) \<Rightarrow> vmm_query env va s =
        Inr (0, Some ((e AND 0x0000FFFFFFFFF000 AND NOT (mask (12 + 9 * n))) + take_bit (12 + 9 * n) va, ucast (take_bit 5 e)))"
proof -
  obtain own where inv: "vmm_inv env own s" using assms(1) by (auto simp: vmm_ok_def)
  have clean: "pte_addr e AND NOT (page_mask n) = pte_addr e" if l: "leaf env s va = Some (e, n)" for e n
  proof (rule bit_word_eqI)
    fix i :: nat
    have low: "\<not> bit (PT_PADDR_MASK) i" if "i < 12"
    proof -
      have "PT_PADDR_MASK = push_bit 12 (0x0000000FFFFFFFFF :: u64)" by simp
      then show ?thesis using that by (simp only: bit_push_bit_iff) simp
    qed
    show "bit (pte_addr e AND NOT (page_mask n)) i = bit (pte_addr e) i" if i: "i < LENGTH(64)"
      using low assms(2) l i by (cases "i < 12") (auto simp: pte_addr_def page_mask_def bit_simps)
  qed
  obtain r where r: "vmm_query env va s = Inr (r, translate env s va)" "r \<in> (if translate env s va = None then {-1, -2} else {0})"
    using vmm_query_spec [OF inv clean] by blast
  show ?thesis
    using r by (auto simp: translate_def leaf_target_def legacy_flags_are_bits pte_addr_def page_mask_def take_bit_eq_mask and.assoc
        split: option.splits)
qed

theorem vmm_query_translates_witness:
  "\<exists>s'. vmm_map demo_env demo_ext 0x40000000 0x7000 VMM_RW demo_vmm = Inr (0, s') \<and>
    vmm_query demo_env 0x40000123 s' = Inr (0, Some (0x7123, 3))"
proof -
  obtain own where inv: "vmm_inv demo_env own demo_vmm" using demo_ok by (auto simp: vmm_ok_def)
  have lf: "leaf demo_env demo_vmm va = None" for va using demo_unmapped [of va] by (simp add: translate_none)
  have pg: "page_no 4 0 0x40000123 = page_no 4 0 0x40000000" by (simp add: page_no_def take_bit_eq_mod drop_bit_eq_div)
  let ?e = "page_entry Size4KiB 0x7000 (legacy_map_flags VMM_RW)"
  from vmm_map_cases [OF inv, of "0x40000000" "0x7000" demo_ext VMM_RW] lf obtain own1 s0 where
    m: "vmm_map demo_env demo_ext 0x40000000 0x7000 VMM_RW demo_vmm = Inr (0, flush_tlb_single 0x40000000 s0)"
    and i1: "vmm_inv demo_env own1 s0" and u: "page_update demo_env 4 0 0x40000000 ?e demo_vmm s0"
    by (auto simp: demo_values)
  have e: "?e = 0x7003" by (simp add: page_entry_def legacy_map_flags_def small_flags_def)
  have l: "leaf demo_env (flush_tlb_single 0x40000000 s0) 0x40000123 = Some (0x7003, 0)"
    using u pg by (simp add: page_update_def leaf_of_entry_def e demo_values)
  have ok: "vmm_ok demo_env (flush_tlb_single 0x40000000 s0)" using i1 by (auto simp: vmm_ok_def)
  from vmm_query_translates [OF ok, of "0x40000123"] l have "vmm_query demo_env 0x40000123 (flush_tlb_single 0x40000000 s0) =
      Inr (0, Some ((0x7003 AND 0x0000FFFFFFFFF000 AND NOT (mask 12)) + take_bit 12 0x40000123, ucast (take_bit 5 (0x7003 :: u64))))"
    by fastforce
  then show ?thesis using m by (simp add: take_bit_eq_mod mask_eq_exp_minus_1)
qed

text \<open>C18: \<open>map_pages\<close> maps a range: whatever mix of pages of 4 KiB, 2 MiB and 1 GiB it uses, and whether or not the
  processor has pages of 1 GiB, it ends, each address of the range translates to the physical address at the
  same distance from the start, and every other address translates as before. The range is aligned, not in use,
  and within the reach of the tables; the fuel is one turn for each 4 KiB, and the pool has the pages that
  \<open>map_cost\<close> allows for tables.\<close>

theorem map_pages_linear:
  assumes "vmm_ok env s" "pm_current env s pm" "range_ok env virt phys cnt 0 s" "flags AND PT_PADDR_MASK = 0"
    "unat cnt \<le> fuel * 4096" "map_cost fuel env virt phys cnt 0 \<le> pages_left s"
  shows "\<exists>s'. map_pages fuel env ext pm virt phys flags cnt s = Inr s' \<and> vmm_ok env s' \<and>
    (\<forall>va. translate env s' va =
      (if voff (pt_levels env) virt va < unat cnt
       then Some (phys + word_of_nat (voff (pt_levels env) virt va), entry_to_legacy_flags (flags OR PT_FLAG_VALID))
       else translate env s va))"
proof -
  obtain own where "vmm_inv env own s" using assms(1) by (auto simp: vmm_ok_def)
  from resolve_current [OF this assms(2)] have m: "map_pages fuel env ext pm virt phys flags cnt s = map_pages_loop fuel env ext pm virt phys flags cnt 0 s"
    by (simp add: map_pages_def)
  have r: "range_ok env virt phys cnt (unat (0 :: u64)) s" using assms(3) by simp
  from map_pages_loop_range [OF assms(4,1,2) r, of fuel ext] assms(5,6) show ?thesis
    unfolding m by (auto simp: range_mapped_def range_map_def)
qed

theorem map_pages_linear_witness:
  "\<exists>s'. map_pages 513 demo_env demo_ext (current_pagemap demo_env demo_vmm) 0x40000000 0x200000 PT_FLAG_WRITE 0x201000 demo_vmm = Inr s' \<and>
    translate demo_env s' 0x40000000 = Some (0x200000, 3)"
proof -
  have fin: "map_cost n env virt phys cnt cnt = 0" for n env virt phys cnt by (cases n) simp_all
  have n: "(513 :: nat) = Suc (Suc 511)" by simp
  have "map_cost 513 demo_env 0x40000000 0x200000 0x201000 0 = 7"
    unfolding n map_cost.simps(2) by (simp add: next_piece_def page_cost_def page_bytes_def fin)
  then have c: "map_cost 513 demo_env 0x40000000 0x200000 0x201000 0 \<le> pages_left demo_vmm" by (simp add: demo_values)
  have r: "range_ok demo_env 0x40000000 0x200000 0x201000 0 demo_vmm" by (simp add: range_ok_def demo_values demo_unmapped)
  have v: "voff 4 0x40000000 0x40000000 = 0" by (simp add: voff_def)
  from map_pages_linear [OF demo_ok current_is_current r _ _ c, of PT_FLAG_WRITE demo_ext] v show ?thesis
    by (auto simp: demo_values entry_to_legacy_flags_def)
qed

lemma reload_keeps [simp]:
  "translate env (vmm_reload_cr3 s) = translate env s" "vmm_ok env (vmm_reload_cr3 s) = vmm_ok env s"
  by (auto simp: vmm_reload_cr3_def write_cr3_def translate_def leaf_def pt_top_def vmm_ok_def vmm_inv_def free_page_def fun_eq_iff)

text \<open>C20: The frame buffer of the boot loader becomes visible at the address that \<open>map_framebuffer\<close> records: if
  the range at \<open>0xE0000000\<close> is free and neither it nor the frame buffer crosses 4 GiB, each byte of the frame
  buffer is reached there, for writing and not cached, and no address behind the mapped pages changes.\<close>

theorem map_framebuffer_shows:
  assumes ok: "vmm_ok env s" and sz: "unat fb_pitch * unat fb_h + 8192 \<le> 2 ^ 29"
    and ph: "unat fb_phys + unat fb_pitch * unat fb_h + 8192 \<le> 2 ^ 32"
    and free: "\<forall>va. voff (pt_levels env) 0xE0000000 va < unat (fb_pages fb_phys fb_pitch fb_h) * 4096 \<longrightarrow> translate env s va = None"
    and room: "4 * unat (fb_pages fb_phys fb_pitch fb_h) \<le> pages_left s"
  shows "\<exists>fb s'. map_framebuffer env ext fb_phys fb_pitch fb_w fb_h s = Inr (fb, s') \<and> vmm_ok env s' \<and>
    (\<forall>k<unat fb_pitch * unat fb_h. translate env s' (fb + word_of_nat k) = Some (ucast fb_phys + word_of_nat k, fb_flags)) \<and>
    (\<forall>va. unat (fb_pages fb_phys fb_pitch fb_h) * 4096 \<le> voff (pt_levels env) 0xE0000000 va \<longrightarrow> translate env s' va = translate env s va)"
proof -
  let ?n = "unat (fb_pages fb_phys fb_pitch fb_h)" and ?o = "unat (fb_phys AND 0xFFF)" and ?L = "pt_levels env"
  note c = fb_pages_count [OF sz, of fb_phys]
  have n: "?o + unat fb_pitch * unat fb_h \<le> ?n * 4096" "?n * 4096 \<le> ?o + unat fb_pitch * unat fb_h + 4095"
    unfolding c(1) by linarith+
  have n': "?n * 4096 \<le> 2 ^ 29" "unat fb_phys + ?n * 4096 \<le> 2 ^ 32" using n(2) c(2) sz ph by linarith+
  from fb_map_steps [OF ok n'(2,1) free room order_refl, of ext] obtain s1 where
    s1: "rfold (fb_map_step env ext fb_phys) [0..<?n] s = Inr s1" "vmm_ok env s1"
      "translate env s1 = range_map ?L 0xE0000000 (ucast (fb_phys AND NOT 0xFFF)) fb_flags 0 (?n * 4096) (translate env s)" by blast
  let ?fb = "ucast (FB_VIRT_BASE + (fb_phys AND 0xFFF)) :: u64"
  have "map_framebuffer env ext fb_phys fb_pitch fb_w fb_h s = Inr (?fb, vmm_reload_cr3 s1)"
    by (simp only: map_framebuffer_def s1(1) rbind.simps)
  moreover have "translate env s1 (?fb + word_of_nat k) = Some (ucast fb_phys + word_of_nat k, fb_flags)"
    if k: "k < unat fb_pitch * unat fb_h" for k
  proof -
    have ok1: "?o + k < ?n * 4096" using k n(1) by linarith
    then have small: "?o + k < 2 ^ 29" using n'(1) by linarith
    have "unat (FB_VIRT_BASE + (fb_phys AND 0xFFF)) = 0xE0000000 + ?o" using c(2) by (simp add: unat_word_ariths)
    then have "?fb = 0xE0000000 + word_of_nat ?o" using c(2) by (simp add: word_unat_eq_iff unat_ucast_up unat_word_ariths unat_of_nat)
    then have a: "?fb + word_of_nat k = 0xE0000000 + word_of_nat (?o + k)" by simp
    have u: "unat (word_of_nat (?o + k) :: u64) = ?o + k" using small by (simp only: unat_of_nat) simp
    have K: "(2 :: nat) ^ 48 \<le> 2 ^ (12 + 9 * ?L)" using pt_levels_range(1) [of env] by (intro power_increasing) simp_all
    have "?o + k < 2 ^ 48" using small by simp
    from order_less_le_trans [OF this K] have "unat (word_of_nat (?o + k) :: u64) < 2 ^ (12 + 9 * ?L)" unfolding u .
    then have v: "voff ?L 0xE0000000 (0xE0000000 + word_of_nat (?o + k)) = ?o + k"
      using voff_self [OF pt_levels_range(2), of "word_of_nat (?o + k)" env "0xE0000000"] u by simp
    have "ucast (fb_phys AND NOT 0xFFF) + word_of_nat ?o = (ucast fb_phys :: u64)"
      using split_page_word(1) [of fb_phys] unat_bound [of fb_phys]
      by (simp add: word_unat_eq_iff unat_ucast_up unat_word_ariths unat_of_nat)
    then have "ucast (fb_phys AND NOT 0xFFF) + word_of_nat (?o + k) = (ucast fb_phys + word_of_nat k :: u64)"
      by (simp only: of_nat_add add.assoc [symmetric])
    then show ?thesis unfolding a s1(3) range_map_def v using ok1 by simp
  qed
  moreover have "translate env s1 va = translate env s va" if "?n * 4096 \<le> voff ?L 0xE0000000 va" for va
    using that by (simp add: s1(3) range_map_def)
  ultimately show ?thesis using s1(2) by (intro exI [of _ ?fb] exI [of _ "vmm_reload_cr3 s1"]) simp
qed

theorem map_framebuffer_shows_witness:
  "\<exists>fb s'. map_framebuffer demo_env demo_ext 0xFD000000 4096 1024 2 demo_vmm = Inr (fb, s') \<and>
    translate demo_env s' (fb + 5) = Some (0xFD000005, 0x1B)"
proof -
  have n: "unat (fb_pages 0xFD000000 4096 2) = 2" by (simp add: fb_pages_def align_up_u32_def)
  have "\<exists>fb s'. map_framebuffer demo_env demo_ext 0xFD000000 4096 1024 2 demo_vmm = Inr (fb, s') \<and> vmm_ok demo_env s' \<and>
    (\<forall>k<unat (4096 :: u32) * unat (2 :: u32). translate demo_env s' (fb + word_of_nat k) = Some (ucast (0xFD000000 :: u32) + word_of_nat k, fb_flags)) \<and>
    (\<forall>va. unat (fb_pages 0xFD000000 4096 2) * 4096 \<le> voff (pt_levels demo_env) 0xE0000000 va \<longrightarrow>
      translate demo_env s' va = translate demo_env demo_vmm va)"
    by (rule map_framebuffer_shows [OF demo_ok]) (simp_all add: demo_unmapped demo_values n)
  then obtain fb s' where "map_framebuffer demo_env demo_ext 0xFD000000 4096 1024 2 demo_vmm = Inr (fb, s')"
    and t: "\<And>k. k < 8192 \<Longrightarrow> translate demo_env s' (fb + word_of_nat k) = Some (0xFD000000 + word_of_nat k, fb_flags)" by auto
  moreover from t [of 5] have "translate demo_env s' (fb + 5) = Some (0xFD000005, 0x1B)" by simp
  ultimately show ?thesis by blast
qed

section \<open>What goes wrong\<close>

text \<open>The flag that gives user programs access is not passed on.\<close>

lemma user_flag_dropped: "legacy_map_flags (flags OR VMM_US) = legacy_map_flags flags"
  by (simp add: legacy_map_flags_def bit.conj_disj_distrib2)

text \<open>The cache attribute of the frame buffer flags is bit 12, which \<open>vmm_query\<close> takes for a bit of the address
  of a large page.\<close>

lemma large_frame_buffer_page_off:
  "pte_addr (page_entry Size2MiB 0x40000000 (0x8 OR 0x1000)) = 0x40001000"
  by (simp add: page_entry_def pte_addr_def)

text \<open>Taking a page of the pool for other purposes keeps the tables in order.\<close>

lemma pool_page_inv:
  assumes inv: "vmm_inv env own s" and room: "pages_left s \<noteq> 0"
  obtains t s' where "pool_page env s = Inr (t, s')" "vmm_inv env own s'" "t \<noteq> 0" "t = fb_cursor (vm_pool s) + vmm_hhdm_offset env"
    "\<And>va. leaf env s' va = leaf env s va" "pages_left s = Suc (pages_left s')"
proof -
  have lay: "layout_ok env (vm_pool s)" and o: "owned env (pt_levels env) (pt_top env s) (vm_mem s) own"
    and fr: "\<And>t. free_page env s t \<Longrightarrow> own t = None \<and> (\<forall>i<512. vm_mem s (slot t i) \<noteq> None)" using inv by (simp_all add: vmm_inv_def)
  from pmm_alloc_taken [OF lay room] obtain t p where a: "pmm_alloc (pool_env env) (vm_pool s) = (t, p)" "t \<noteq> 0"
    and tk: "\<And>m. pool_taken env t s (s\<lparr>vm_pool := p, vm_mem := m\<rparr>)" by blast
  have f: "free_page env s t" using tk by (simp add: pool_taken_def)
  have "\<forall>i<512. vm_mem s (slot t i) \<noteq> None" using fr [OF f] by simp
  then obtain m where m: "zero_page t (vm_mem s) = Inr m" "\<And>a. m a = None \<longleftrightarrow> vm_mem s a = None"
    "\<And>u i. 4096 dvd unat u \<Longrightarrow> i < 512 \<Longrightarrow> u \<noteq> t \<Longrightarrow> m (slot u i) = vm_mem s (slot u i)"
    by (rule zero_page_spec [OF _ free_page_numbers(1) [OF lay f]]) blast
  define s' where "s' = s\<lparr>vm_pool := p, vm_mem := m\<rparr>"
  have ag: "agree own (vm_mem s) m" unfolding agree_def using m(3) ownedD(3) [OF o] fr [OF f] by (metis option.distinct(1))
  have st: "pt_top env s' = pt_top env s" "vm_mem s' = m" "cr3 s' = cr3 s" "vm_pool s' = p" by (simp_all add: s'_def pt_top_def)
  have pool: "layout_ok env p" "\<And>u. free_page env s' u \<Longrightarrow> free_page env s u" using tk [of m] by (auto simp: pool_taken_def s'_def)
  have "vmm_inv env own s'"
    unfolding vmm_inv_def st using inv agree_owned [OF ag o] pool fr m(2) by (simp add: vmm_inv_def)
  moreover have "leaf env s' va = leaf env s va" for va
    unfolding leaf_def st by (rule agree_leaf [OF ag o, of _ _ 0]) (use ownedD(1) [OF o] in simp_all)
  moreover have "pool_page env s = Inr (t, s')" using a m(1) by (simp add: pool_page_def s'_def)
  moreover have "t = fb_cursor (vm_pool s) + vmm_hhdm_offset env"
  proof -
    have "ensure_fallback_pool (pool_env env) (vm_pool s) = vm_pool s" using lay pmm_ok_numbers(6) by (simp add: layout_ok_def)
    then show ?thesis using a by (auto simp: pmm_alloc_def pool_env_def Let_def split: if_splits)
  qed
  ultimately show ?thesis using a(2) tk [of m] by (intro that [of t s']) (simp_all add: pool_taken_def s'_def)
qed

text \<open>\<open>vmm_alloc_range\<close> enters the address of the frame in the direct map where its physical address belongs: the
  page it maps first is not the frame at \<open>0x200000\<close> that it took from the pool.\<close>

lemma alloc_range_maps_wrong_frame:
  "\<exists>s'. vmm_alloc_range demo_env demo_ext 0x40000000 0x1000 2 demo_vmm = Inr (Next s') \<and>
     translate demo_env s' 0x40000000 = Some (0x800000200000, 3)"
proof -
  obtain own where inv: "vmm_inv demo_env own demo_vmm" using demo_ok by (auto simp: vmm_ok_def)
  have "pages_left demo_vmm \<noteq> 0" by (simp add: demo_values)
  from pool_page_inv [OF inv this] obtain t s1 where p: "pool_page demo_env demo_vmm = Inr (t, s1)" "vmm_inv demo_env own s1" "t \<noteq> 0"
    "t = fb_cursor (vm_pool demo_vmm) + vmm_hhdm_offset demo_env" "leaf demo_env s1 0x40000000 = leaf demo_env demo_vmm 0x40000000"
    "pages_left demo_vmm = Suc (pages_left s1)" by metis
  have t: "t = 0xffff800000200000" using p(4) by (simp add: demo_values) (simp add: demo_vmm_def)
  have room: "4 \<le> pages_left s1" using p(6) by (simp add: demo_values)
  have al: "4096 dvd unat (0x40000000 :: u64)" "4096 dvd unat t" by (simp_all add: t)
  have none: "leaf demo_env s1 0x40000000 = None" using p(5) demo_unmapped translate_none by metis
  from vmm_map_cases [OF p(2) al room, of demo_ext 3] none obtain own' s2 where
    m: "vmm_map demo_env demo_ext 0x40000000 t 3 s1 = Inr (0, flush_tlb_single 0x40000000 s2)"
    and u: "page_update demo_env 4 0 0x40000000 (page_entry Size4KiB t (legacy_map_flags 3)) s1 s2" by auto
  have e: "page_entry Size4KiB t (legacy_map_flags 3) = 0xffff800000200003"
    by (simp add: t page_entry_def legacy_map_flags_def small_flags_def)
  have "translate demo_env s2 0x40000000 = Some (0x800000200000, 3)"
    using u unfolding e by (simp add: page_update_def translate_def leaf_of_entry_def leaf_target_def pte_addr_def
        entry_to_legacy_flags_def page_mask_def mask_eq_exp_minus_1)
  then show ?thesis using p(1,3) m by (simp add: vmm_alloc_range_def vmm_map_page_def)
qed

end
