(* ===== verification/Rtc.thy ===== *)
theory Rtc
  imports Ata
begin

text \<open>
  The clock of \<open>src/kernel/bios/rtc.c\<close>: the registers behind a pair of ports, the wait for the end of an update,
  and the four encodings of the time. The chip is a parameter, as port I/O; the wait has no bound in the source
  and gets fuel.
\<close>

section \<open>Model\<close>

record rtc_time_t =
  hh :: u8
  mm :: u8
  ss :: u8

definition cmos_read :: "'h port_io \<Rightarrow> 'h \<Rightarrow> u8 \<Rightarrow> u8 \<times> 'h" where
  "cmos_read io h reg = io_inb io (io_outb io h 0x70 (reg OR 0x80)) 0x71"

definition rtc_update_in_progress :: "'h port_io \<Rightarrow> 'h \<Rightarrow> bool \<times> 'h" where
  "rtc_update_in_progress io h = (let (a, h') = cmos_read io h 0x0A in (a AND 0x80 \<noteq> 0, h'))"

definition bcd2bin :: "u8 \<Rightarrow> u8" where
  "bcd2bin x = (x AND 0x0F) + drop_bit 4 x * 10"

fun rtc_wait :: "nat \<Rightarrow> 'h port_io \<Rightarrow> 'h \<Rightarrow> 'h res" where
  "rtc_wait 0 io h = Inl OutOfFuel"
| "rtc_wait (Suc fuel) io h = (let (busy, h') = rtc_update_in_progress io h in if busy then rtc_wait fuel io h' else Inr h')"

text \<open>The hour on a 24-hour clock from the register of a 12-hour clock.\<close>

definition from_12h :: "u8 \<Rightarrow> u8" where
  "from_12h hour0 =
     (let pm = (hour0 AND 0x80 \<noteq> 0); hour = hour0 AND 0x7F; hour' = (if pm \<and> hour < 12 then hour + 12 else hour)
      in if \<not> pm \<and> hour' = 12 then 0 else hour')"

definition rtc_decode :: "u8 \<Rightarrow> u8 \<Rightarrow> u8 \<Rightarrow> u8 \<Rightarrow> rtc_time_t" where
  "rtc_decode sec0 min0 hour0 regB =
     (let bin = (regB AND 0x04 \<noteq> 0); is24 = (regB AND 0x02 \<noteq> 0);
          dec = (\<lambda>x. if bin then x else bcd2bin x);
          hour = (if is24 then dec hour0 else from_12h (dec hour0))
      in \<lparr>hh = hour mod 24, mm = dec min0 mod 60, ss = dec sec0 mod 60\<rparr>)"

definition rtc_read_time :: "nat \<Rightarrow> 'h port_io \<Rightarrow> 'h \<Rightarrow> (rtc_time_t \<times> 'h) res" where
  "rtc_read_time fuel io h =
     rbind (rtc_wait fuel io h) (\<lambda>h0.
     let (sec, h1) = cmos_read io h0 0x00; (mi, h2) = cmos_read io h1 0x02; (hour, h3) = cmos_read io h2 0x04;
         (regB, h4) = cmos_read io h3 0x0B
     in Inr (rtc_decode sec mi hour regB, h4))"

definition rtc_format :: "rtc_time_t \<Rightarrow> u8 list" where
  "rtc_format t =
     [0x30 + hh t div 10, 0x30 + hh t mod 10, 0x3A, 0x30 + mm t div 10, 0x30 + mm t mod 10, 0x3A,
      0x30 + ss t div 10, 0x30 + ss t mod 10, 0]"

section \<open>The encodings of the chip\<close>

text \<open>A value below 100 as the chip keeps it, and the hour register: on a 12-hour clock midnight and noon are 12,
  and bit 7 marks the hours from noon on.\<close>

definition chip_value :: "bool \<Rightarrow> nat \<Rightarrow> u8" where
  "chip_value bin v = (if bin then word_of_nat v else word_of_nat (16 * (v div 10) + v mod 10))"

definition chip_hour :: "bool \<Rightarrow> bool \<Rightarrow> nat \<Rightarrow> u8" where
  "chip_hour bin is24 h =
     (if is24 then chip_value bin h
      else chip_value bin (if h mod 12 = 0 then 12 else h mod 12) OR (if 12 \<le> h then 0x80 else 0))"

definition time_of :: "nat \<Rightarrow> nat \<Rightarrow> nat \<Rightarrow> rtc_time_t" where
  "time_of h m s = \<lparr>hh = word_of_nat h, mm = word_of_nat m, ss = word_of_nat s\<rparr>"

text \<open>A chip with registers \<open>get\<close>, of which the driver uses five: a read of the time or of a status register returns it, and
  reading the time or the second status register changes none of these four (other registers may change: reading the
  third status register clears it).\<close>

definition cmos_chip :: "'h port_io \<Rightarrow> ('h \<Rightarrow> u8 \<Rightarrow> u8) \<Rightarrow> bool" where
  "cmos_chip io get \<longleftrightarrow>
     (\<forall>h. \<forall>r\<in>{0x00, 0x02, 0x04, 0x0A, 0x0B}. fst (cmos_read io h r) = get h r) \<and>
     (\<forall>h. \<forall>r\<in>{0x00, 0x02, 0x04, 0x0B}. \<forall>q\<in>{0x00, 0x02, 0x04, 0x0B}. get (snd (cmos_read io h r)) q = get h q)"

text \<open>The state after the update flag has been read \<open>n\<close> times.\<close>

fun polled :: "'h port_io \<Rightarrow> nat \<Rightarrow> 'h \<Rightarrow> 'h" where
  "polled io 0 h = h"
| "polled io (Suc n) h = polled io n (snd (cmos_read io h 0x0A))"

text \<open>A chip that holds the time, in the format its second status register states.\<close>

definition holds_time :: "(u8 \<Rightarrow> u8) \<Rightarrow> nat \<Rightarrow> nat \<Rightarrow> nat \<Rightarrow> bool" where
  "holds_time regs h m s \<longleftrightarrow>
     (let bin = (regs 0x0B AND 0x04 \<noteq> 0); is24 = (regs 0x0B AND 0x02 \<noteq> 0)
      in regs 0x04 = chip_hour bin is24 h \<and> regs 0x02 = chip_value bin m \<and> regs 0x00 = chip_value bin s)"

section \<open>Proofs\<close>

lemma rtc_wait_step:
  assumes "cmos_chip io get"
  shows "rtc_wait (Suc fuel) io h =
    (if get h 0x0A AND 0x80 \<noteq> 0 then rtc_wait fuel io (snd (cmos_read io h 0x0A)) else Inr (snd (cmos_read io h 0x0A)))"
proof -
  have "fst (cmos_read io h 0x0A) = get h 0x0A" using assms by (simp add: cmos_chip_def)
  then show ?thesis by (simp add: rtc_update_in_progress_def case_prod_unfold)
qed

lemma rtc_wait_ends:
  assumes "cmos_chip io get"
  shows "(\<forall>k<n. get (polled io k h) 0x0A AND 0x80 \<noteq> 0) \<Longrightarrow> get (polled io n h) 0x0A AND 0x80 = 0 \<Longrightarrow> n < fuel \<Longrightarrow>
    rtc_wait fuel io h = Inr (polled io (Suc n) h)"
proof (induction n arbitrary: h fuel)
  case 0
  then obtain f where "fuel = Suc f" by (cases fuel) auto
  then show ?case using 0 rtc_wait_step [OF assms, of f h] by simp
next
  case (Suc n)
  obtain f where f: "fuel = Suc f" "n < f" using Suc.prems(3) by (cases fuel) auto
  let ?h = "snd (cmos_read io h 0x0A)"
  have busy: "get h 0x0A AND 0x80 \<noteq> 0" using Suc.prems(1) by (metis polled.simps(1) zero_less_Suc)
  have "\<forall>k<n. get (polled io k ?h) 0x0A AND 0x80 \<noteq> 0" using Suc.prems(1) by (metis Suc_less_eq polled.simps(2))
  moreover have "get (polled io n ?h) 0x0A AND 0x80 = 0" using Suc.prems(2) by simp
  ultimately have "rtc_wait f io ?h = Inr (polled io (Suc n) ?h)" using Suc.IH f(2) by blast
  then show ?case using busy f(1) rtc_wait_step [OF assms, of f h] by simp
qed

lemma bcd_minutes: "v < 60 \<Longrightarrow> bcd2bin (chip_value False v) = word_of_nat v \<and> (word_of_nat v :: u8) mod 60 = word_of_nat v"
proof -
  have "list_all (\<lambda>v. bcd2bin (chip_value False v) = word_of_nat v \<and> (word_of_nat v :: u8) mod 60 = word_of_nat v) [0..<60]"
    by code_simp
  then show "v < 60 \<Longrightarrow> ?thesis" by (simp add: list_all_iff)
qed

lemma hours_decode:
  assumes "h < 24" "bin \<or> is24 \<or> h < 12"
  shows "(let x = (if bin then chip_hour bin is24 h else bcd2bin (chip_hour bin is24 h))
      in (if is24 then x else from_12h x) mod 24) = word_of_nat h"
proof -
  have "list_all (\<lambda>h. list_all (\<lambda>bin. list_all (\<lambda>is24. bin \<or> is24 \<or> h < 12 \<longrightarrow>
      (let x = (if bin then chip_hour bin is24 h else bcd2bin (chip_hour bin is24 h))
        in (if is24 then x else from_12h x) mod 24) = word_of_nat h) [True, False]) [True, False]) [0..<24]"
    by code_simp
  then show ?thesis using assms by (cases bin; cases is24) (auto simp: list_all_iff)
qed

lemma rtc_decode_time:
  assumes "holds_time regs h m s" "h < 24" "m < 60" "s < 60" "regs 0x0B AND 0x04 \<noteq> 0 \<or> regs 0x0B AND 0x02 \<noteq> 0 \<or> h < 12"
  shows "rtc_decode (regs 0x00) (regs 0x02) (regs 0x04) (regs 0x0B) = time_of h m s"
  using assms hours_decode [OF assms(2), of "regs 0x0B AND 0x04 \<noteq> 0" "regs 0x0B AND 0x02 \<noteq> 0"]
    bcd_minutes [OF assms(3)] bcd_minutes [OF assms(4)]
  by (auto simp: rtc_decode_def holds_time_def time_of_def Let_def chip_value_def [of True])

definition digit_char :: "nat \<Rightarrow> u8" where
  "digit_char d = 0x30 + word_of_nat d"

lemma format_value: "v < 60 \<Longrightarrow> 0x30 + (word_of_nat v :: u8) div 10 = digit_char (v div 10) \<and> 0x30 + (word_of_nat v :: u8) mod 10 = digit_char (v mod 10)"
proof -
  have "list_all (\<lambda>v. 0x30 + (word_of_nat v :: u8) div 10 = digit_char (v div 10) \<and> 0x30 + (word_of_nat v :: u8) mod 10 = digit_char (v mod 10)) [0..<60]"
    by code_simp
  then show "v < 60 \<Longrightarrow> ?thesis" by (simp add: list_all_iff)
qed

section \<open>Properties\<close>

text \<open>C28: Reading the clock ends and gives the time the chip holds, and the text shows it as two digits each. The
  chip may keep the time in binary or as decimal digits, on a 24-hour or a 12-hour clock, except for hours after
  noon as decimal digits on a 12-hour clock. The wait ends once the update flag is found clear, after fewer polls
  than the fuel, and the time is that of the moment.\<close>

theorem rtc_reads_clock:
  assumes chip: "cmos_chip io get" and busy: "\<forall>k<n. get (polled io k h0) 0x0A AND 0x80 \<noteq> 0"
    and ready: "get (polled io n h0) 0x0A AND 0x80 = 0" and fuel: "n < fuel"
    and t: "holds_time (get (polled io (Suc n) h0)) h m s" "h < 24" "m < 60" "s < 60"
    and mode: "get (polled io (Suc n) h0) 0x0B AND 0x04 \<noteq> 0 \<or> get (polled io (Suc n) h0) 0x0B AND 0x02 \<noteq> 0 \<or> h < 12"
  shows "\<exists>now h1. rtc_read_time fuel io h0 = Inr (now, h1) \<and> unat (hh now) = h \<and> unat (mm now) = m \<and> unat (ss now) = s \<and>
    rtc_format now = [digit_char (h div 10), digit_char (h mod 10), 0x3A, digit_char (m div 10), digit_char (m mod 10), 0x3A,
      digit_char (s div 10), digit_char (s mod 10), 0]"
proof -
  let ?h = "polled io (Suc n) h0"
  have w: "rtc_wait fuel io h0 = Inr ?h" by (rule rtc_wait_ends [OF chip busy ready fuel])
  have r: "q \<in> {0x00, 0x02, 0x04, 0x0A, 0x0B} \<Longrightarrow> fst (cmos_read io x q) = get x q"
    "q \<in> {0x00, 0x02, 0x04, 0x0B} \<Longrightarrow> q' \<in> {0x00, 0x02, 0x04, 0x0B} \<Longrightarrow> get (snd (cmos_read io x q)) q' = get x q'" for x q q'
    using chip unfolding cmos_chip_def by blast+
  have "\<exists>h1. rtc_read_time fuel io h0 = Inr (rtc_decode (get ?h 0x00) (get ?h 0x02) (get ?h 0x04) (get ?h 0x0B), h1)"
    unfolding rtc_read_time_def w by (simp add: Let_def case_prod_unfold r del: polled.simps)
  moreover have "rtc_decode (get ?h 0x00) (get ?h 0x02) (get ?h 0x04) (get ?h 0x0B) = time_of h m s"
    using rtc_decode_time [OF t mode] .
  ultimately show ?thesis
    using t(2-4) format_value [of h] format_value [of m] format_value [of s]
    by (auto simp: time_of_def rtc_format_def unat_of_nat)
qed

text \<open>A chip that is busy for some polls and then holds 23:05:09, as decimal digits on a 24-hour clock.\<close>

record demo_cmos =
  dc_sel :: u8
  dc_busy :: nat

definition demo_get :: "demo_cmos \<Rightarrow> u8 \<Rightarrow> u8" where
  "demo_get h r =
     (if r = 0x0A then (if dc_busy h = 0 then 0x26 else 0xA6) else if r = 0x0B then 0x02
      else if r = 0x04 then 0x23 else if r = 0x02 then 0x05 else if r = 0x00 then 0x09 else 0)"

definition demo_io :: "demo_cmos port_io" where
  "demo_io = \<lparr>io_inb = (\<lambda>h p. (demo_get h (dc_sel h), if dc_sel h = 0x0A then h\<lparr>dc_busy := dc_busy h - 1\<rparr> else h)),
     io_outb = (\<lambda>h p v. h\<lparr>dc_sel := v AND 0x7F\<rparr>), io_inw = (\<lambda>h p. (0, h)), io_outw = (\<lambda>h p v. h)\<rparr>"

lemma demo_select: "r < 0x80 \<Longrightarrow> (r OR 0x80) AND 0x7F = (r :: u8)"
proof -
  assume r: "r < 0x80"
  have m: "(0x7F :: u8) = mask 7" by (simp add: mask_eq_exp_minus_1)
  have "unat (take_bit 7 r) = unat r" using r by (simp add: unsigned_take_bit_eq take_bit_nat_eq_self word_less_nat_alt)
  then have "r AND mask 7 = r" by (simp add: word_unat_eq_iff take_bit_eq_mask)
  moreover have "(0x80 :: u8) AND mask 7 = 0" by (simp add: mask_eq_exp_minus_1)
  ultimately show ?thesis unfolding m bit.conj_disj_distrib2 by simp
qed

lemma demo_chip: "cmos_chip demo_io demo_get"
  by (auto simp: cmos_chip_def cmos_read_def demo_io_def demo_get_def demo_select fun_eq_iff)

theorem rtc_reads_clock_witness:
  "\<exists>now h1. rtc_read_time 3 demo_io \<lparr>dc_sel = 0, dc_busy = 2\<rparr> = Inr (now, h1) \<and> unat (hh now) = 23 \<and> unat (mm now) = 5 \<and> unat (ss now) = 9"
proof -
  let ?h = "\<lparr>dc_sel = 0, dc_busy = 2\<rparr>"
  have "\<exists>now h1. rtc_read_time 3 demo_io ?h = Inr (now, h1) \<and> unat (hh now) = 23 \<and> unat (mm now) = 5 \<and> unat (ss now) = 9 \<and>
    rtc_format now = [digit_char (23 div 10), digit_char (23 mod 10), 0x3A, digit_char (5 div 10), digit_char (5 mod 10), 0x3A,
      digit_char (9 div 10), digit_char (9 mod 10), 0]"
  proof (rule rtc_reads_clock [OF demo_chip, of 2])
    show "\<forall>k<2. demo_get (polled demo_io k ?h) 0x0A AND 0x80 \<noteq> 0" by code_simp
    show "demo_get (polled demo_io 2 ?h) 0x0A AND 0x80 = 0" by code_simp
    show "holds_time (demo_get (polled demo_io (Suc 2) ?h)) 23 5 9" by code_simp
    show "demo_get (polled demo_io (Suc 2) ?h) 0x0B AND 0x04 \<noteq> 0 \<or> demo_get (polled demo_io (Suc 2) ?h) 0x0B AND 0x02 \<noteq> 0 \<or> (23 :: nat) < 12"
      by code_simp
  qed simp_all
  then show ?thesis by blast
qed

text \<open>One o'clock in the afternoon as decimal digits on a 12-hour clock: the decimal digits are decoded before the
  bit for the afternoon is taken off, and the clock shows nine.\<close>

lemma afternoon_digits_wrong: "hh (rtc_decode 0 0 (chip_hour False False 13) 0) = 9"
  by code_simp

end
