(* ===== verification/Pci.thy ===== *)
theory Pci
  imports Ata
begin

text \<open>
  Access to the PCI configuration space, \<open>src/kernel/pci.c\<close>: the address word, 16-bit accesses as parts of
  32-bit ones, and the search for a device. The host bridge is a parameter, as port I/O.
\<close>

section \<open>Model\<close>

record 'h wide_io = "'h port_io" +
  io_inl :: "'h \<Rightarrow> u16 \<Rightarrow> u32 \<times> 'h"
  io_outl :: "'h \<Rightarrow> u16 \<Rightarrow> u32 \<Rightarrow> 'h"

definition pci_address :: "u8 \<Rightarrow> u8 \<Rightarrow> u8 \<Rightarrow> u8 \<Rightarrow> u32" where
  "pci_address bus slot func off =
     push_bit 31 1 OR push_bit 16 (ucast bus) OR push_bit 11 (ucast slot) OR push_bit 8 (ucast func) OR (ucast off AND 0xFC)"

definition pci_config_read32 :: "'h wide_io \<Rightarrow> u8 \<Rightarrow> u8 \<Rightarrow> u8 \<Rightarrow> u8 \<Rightarrow> 'h \<Rightarrow> u32 \<times> 'h" where
  "pci_config_read32 io bus slot func off h = io_inl io (io_outl io h 0xCF8 (pci_address bus slot func off)) 0xCFC"

definition off_shift :: "u8 \<Rightarrow> nat" where
  "off_shift off = unat (off AND 2) * 8"

definition pci_config_read16 :: "'h wide_io \<Rightarrow> u8 \<Rightarrow> u8 \<Rightarrow> u8 \<Rightarrow> u8 \<Rightarrow> 'h \<Rightarrow> u16 \<times> 'h" where
  "pci_config_read16 io bus slot func off h =
     (let (v, h') = pci_config_read32 io bus slot func (off AND 0xFC) h in (ucast (drop_bit (off_shift off) v AND 0xFFFF), h'))"

definition merge16 :: "u8 \<Rightarrow> u16 \<Rightarrow> u32 \<Rightarrow> u32" where
  "merge16 off val v = v AND NOT (push_bit (off_shift off) 0xFFFF) OR push_bit (off_shift off) (ucast val)"

definition pci_config_write16 :: "'h wide_io \<Rightarrow> u8 \<Rightarrow> u8 \<Rightarrow> u8 \<Rightarrow> u8 \<Rightarrow> u16 \<Rightarrow> 'h \<Rightarrow> 'h" where
  "pci_config_write16 io bus slot func off val h =
     (let (v, h1) = pci_config_read32 io bus slot func (off AND 0xFC) h
      in io_outl io (io_outl io h1 0xCF8 (pci_address bus slot func off)) 0xCFC (merge16 off val v))"

definition pci_config_write32 :: "'h wide_io \<Rightarrow> u8 \<Rightarrow> u8 \<Rightarrow> u8 \<Rightarrow> u8 \<Rightarrow> u32 \<Rightarrow> 'h \<Rightarrow> 'h" where
  "pci_config_write32 io bus slot func off val h = io_outl io (io_outl io h 0xCF8 (pci_address bus slot func off)) 0xCFC val"

text \<open>The two loops run over all pairs of a bus and a slot; the result is the pair, and the function number is 0.\<close>

fun pci_scan :: "'h wide_io \<Rightarrow> u16 \<Rightarrow> u16 \<Rightarrow> (u8 \<times> u8) list \<Rightarrow> 'h \<Rightarrow> (u8 \<times> u8) option \<times> 'h" where
  "pci_scan io vendor device [] h = (None, h)"
| "pci_scan io vendor device ((bus, slot) # rest) h =
     (let (id', h') = pci_config_read32 io bus slot 0 0 h
      in if id' = 0xFFFFFFFF then pci_scan io vendor device rest h'
         else if ucast (id' AND 0xFFFF) = vendor \<and> ucast (drop_bit 16 id' AND 0xFFFF) = device then (Some (bus, slot), h')
         else pci_scan io vendor device rest h')"

definition pci_places :: "(u8 \<times> u8) list" where
  "pci_places = concat (map (\<lambda>bus. map (\<lambda>slot. (word_of_nat bus, word_of_nat slot)) [0..<32]) [0..<32])"

definition pci_find_device :: "'h wide_io \<Rightarrow> u16 \<Rightarrow> u16 \<Rightarrow> 'h \<Rightarrow> (int \<times> (u8 \<times> u8 \<times> u8) option) \<times> 'h" where
  "pci_find_device io vendor device h =
     (case pci_scan io vendor device pci_places h of
        (None, h') \<Rightarrow> ((0, None), h') | (Some (bus, slot), h') \<Rightarrow> ((1, Some (bus, slot, 0)), h'))"

section \<open>The host bridge\<close>

text \<open>
  The configuration mechanism: a word written to the address port selects a register, a read of the data port
  returns it, and a write of the data port changes at most this register. \<open>cfg\<close> gives the registers and
  \<open>eff\<close> what a register becomes when it is written.
\<close>

definition host_bridge :: "'h wide_io \<Rightarrow> ('h \<Rightarrow> u32 \<Rightarrow> u32) \<Rightarrow> (u32 \<Rightarrow> u32 \<Rightarrow> u32 \<Rightarrow> u32) \<Rightarrow> bool" where
  "host_bridge io cfg eff \<longleftrightarrow>
     (\<forall>h a. case io_inl io (io_outl io h 0xCF8 a) 0xCFC of (v, h') \<Rightarrow> v = cfg h a \<and> cfg h' = cfg h) \<and>
     (\<forall>h a v. cfg (io_outl io (io_outl io h 0xCF8 a) 0xCFC v) = (cfg h)(a := eff a (cfg h a) v))"

lemma read32:
  assumes "host_bridge io cfg eff"
  shows "fst (pci_config_read32 io bus slot func off h) = cfg h (pci_address bus slot func off)"
    and "cfg (snd (pci_config_read32 io bus slot func off h)) = cfg h"
  using assms by (auto simp: host_bridge_def pci_config_read32_def case_prod_unfold)

lemma address_dword: "pci_address bus slot func (off AND 0xFC) = pci_address bus slot func off"
proof -
  have "(ucast (off AND 0xFC) :: u32) AND 0xFC = ucast off AND 0xFC"
    by (rule bit_word_eqI) (auto simp: bit_simps dest: bit_imp_le_length)
  then show ?thesis by (simp add: pci_address_def)
qed

lemma off_shift_cases: "off_shift off = 0 \<or> off_shift off = 16"
proof -
  have "off AND 2 = (if bit off 1 then 2 else 0)" by (rule bit_word_eqI) (auto simp: bit_simps)
  then show ?thesis by (simp add: off_shift_def)
qed

lemma merge16_halves:
  "ucast (drop_bit (off_shift off) (merge16 off val v) AND 0xFFFF) = val"
  "off_shift off' \<noteq> off_shift off \<Longrightarrow> drop_bit (off_shift off') (merge16 off val v) AND 0xFFFF = drop_bit (off_shift off') v AND 0xFFFF"
proof -
  have m: "(0xFFFF :: u32) = mask 16" by (simp add: mask_eq_exp_minus_1)
  show "ucast (drop_bit (off_shift off) (merge16 off val v) AND 0xFFFF) = val"
    using off_shift_cases [of off] unfolding merge16_def m by (intro bit_word_eqI) (auto simp: bit_simps)
  show "drop_bit (off_shift off') (merge16 off val v) AND 0xFFFF = drop_bit (off_shift off') v AND 0xFFFF"
    if "off_shift off' \<noteq> off_shift off"
    using that off_shift_cases [of off] off_shift_cases [of off'] unfolding merge16_def m
    by (intro bit_word_eqI) (auto simp: bit_simps dest: bit_imp_le_length)
qed

lemma read16:
  assumes "host_bridge io cfg eff"
  shows "fst (pci_config_read16 io bus slot func off h) =
    ucast (drop_bit (off_shift off) (cfg h (pci_address bus slot func off)) AND 0xFFFF)"
  using read32(1) [OF assms, of bus slot func "off AND 0xFC" h]
  by (simp add: pci_config_read16_def case_prod_unfold address_dword)

lemma write16_cfg:
  fixes bus slot func off :: u8
  assumes "host_bridge io cfg eff"
  defines "a \<equiv> pci_address bus slot func off"
  shows "cfg (pci_config_write16 io bus slot func off val h) = (cfg h)(a := eff a (cfg h a) (merge16 off val (cfg h a)))"
  using read32 [OF assms(1), of bus slot func "off AND 0xFC" h] assms(1)
  by (simp add: pci_config_write16_def case_prod_unfold address_dword a_def host_bridge_def)

definition has_id :: "('a \<Rightarrow> u32) \<Rightarrow> u16 \<Rightarrow> u16 \<Rightarrow> 'a \<Rightarrow> bool" where
  "has_id ids vendor device p \<longleftrightarrow> ids p \<noteq> 0xFFFFFFFF \<and> ucast (ids p) = vendor \<and> ucast (drop_bit 16 (ids p)) = device"

lemma low_half: "ucast ((w :: u32) AND 0xFFFF) = (ucast w :: u16)"
proof -
  have m: "(0xFFFF :: u32) = mask 16" by (simp add: mask_eq_exp_minus_1)
  show ?thesis unfolding m by (rule bit_word_eqI) (auto simp: bit_simps)
qed

lemma pci_scan_find:
  assumes "host_bridge io cfg eff"
  shows "fst (pci_scan io vendor device ps h) = find (has_id (\<lambda>(bus, slot). cfg h (pci_address bus slot 0 0)) vendor device) ps \<and>
    cfg (snd (pci_scan io vendor device ps h)) = cfg h"
proof (induction ps arbitrary: h)
  case (Cons p ps)
  obtain bus slot where p: "p = (bus, slot)" by (cases p)
  show ?case
    using Cons.IH [of "snd (pci_config_read32 io bus slot 0 0 h)"] read32 [OF assms, of bus slot 0 0 h]
    by (auto simp: p case_prod_unfold has_id_def low_half Let_def)
qed simp

section \<open>Properties\<close>

text \<open>A 16-bit register that has been written reads back as written, and every other half register of the
  configuration space reads as before, when the register keeps what is written to it.\<close>

theorem pci_write16_read16:
  assumes bridge: "host_bridge io cfg eff" and keeps: "\<forall>old v. eff (pci_address bus slot func off) old v = v"
  shows "fst (pci_config_read16 io bus' slot' func' off' (pci_config_write16 io bus slot func off val h)) =
    (if pci_address bus' slot' func' off' = pci_address bus slot func off \<and> off_shift off' = off_shift off then val
     else fst (pci_config_read16 io bus' slot' func' off' h))"
proof -
  have half: "ucast (drop_bit (off_shift off') (merge16 off val v) AND 0xFFFF) =
      (if off_shift off' = off_shift off then val else ucast (drop_bit (off_shift off') v AND 0xFFFF))" for v
    using merge16_halves(1) [of off val v] merge16_halves(2) [of off' off val v] by simp
  show ?thesis unfolding read16 [OF bridge] write16_cfg [OF bridge] by (simp add: keeps half merge16_halves(1))
qed

text \<open>A bridge with a register file.\<close>

record demo_pci =
  dp_sel :: u32
  dp_cfg :: "u32 \<Rightarrow> u32"

definition demo_pci_io :: "demo_pci wide_io" where
  "demo_pci_io = \<lparr>io_inb = (\<lambda>h p. (0, h)), io_outb = (\<lambda>h p v. h), io_inw = (\<lambda>h p. (0, h)), io_outw = (\<lambda>h p v. h),
     io_inl = (\<lambda>h p. (dp_cfg h (dp_sel h), h)),
     io_outl = (\<lambda>h p v. if p = 0xCF8 then h\<lparr>dp_sel := v\<rparr> else h\<lparr>dp_cfg := (dp_cfg h)(dp_sel h := v)\<rparr>)\<rparr>"

lemma demo_bridge: "host_bridge demo_pci_io dp_cfg (\<lambda>a old v. v)"
  by (simp add: host_bridge_def demo_pci_io_def)

theorem pci_write16_read16_witness:
  "fst (pci_config_read16 demo_pci_io 0 4 0 4 (pci_config_write16 demo_pci_io 0 4 0 4 0x0105 \<lparr>dp_sel = 0, dp_cfg = (\<lambda>_. 0)\<rparr>)) = 0x0105"
  using pci_write16_read16 [OF demo_bridge, of 0 4 0 4 0 4 0 4 "0x0105" "\<lparr>dp_sel = 0, dp_cfg = (\<lambda>_. 0)\<rparr>"] by simp

text \<open>\<open>pci_find_device\<close> finds the first place, in the order of buses and slots, at which a device answers with the
  identification, and reports failure when there is none; it changes no register.\<close>

theorem pci_finds_first:
  assumes "host_bridge io cfg eff"
  shows "fst (pci_find_device io vendor device h) =
    (case find (has_id (\<lambda>(bus, slot). cfg h (pci_address bus slot 0 0)) vendor device) pci_places of
       None \<Rightarrow> (0, None) | Some (bus, slot) \<Rightarrow> (1, Some (bus, slot, 0)))"
  using pci_scan_find [OF assms, of vendor device pci_places h]
  by (auto simp: pci_find_device_def split: prod.split option.split)

theorem pci_finds_first_witness:
  "fst (pci_find_device demo_pci_io 0x8086 0x2415 \<lparr>dp_sel = 0, dp_cfg = (\<lambda>_. 0xFFFFFFFF)\<rparr>) = (0, None)"
  using pci_finds_first [OF demo_bridge, of "0x8086" "0x2415" "\<lparr>dp_sel = 0, dp_cfg = (\<lambda>_. 0xFFFFFFFF)\<rparr>"]
  by (auto simp: has_id_def find_None_iff split: option.splits dest!: find_SomeD)

end
