(* ===== verification/Ac97.thy ===== *)
theory Ac97
  imports Pci Memory
begin

text \<open>
  The sound driver, \<open>src/kernel/drivers/ac97.c\<close>: finding and setting up the card, and playing a buffer of samples
  through the list of buffer descriptors. The card and the bus are parameters, as port I/O; the descriptor table and
  the sample buffer come from the page pool. A descriptor table is the list of its entries and the sample buffer the
  list of its bytes. Waiting for the end of a reset has no bound in the source and gets fuel.
\<close>

section \<open>Model\<close>

record ac97_bd =
  bd_addr :: u32
  bd_samples :: u16
  bd_control :: u16

record 'h ac97 =
  g_nam :: u16
  g_nabm :: u16
  g_bd :: "ac97_bd list"
  g_bd_phys :: u32
  g_pcm_buf :: u64
  g_pcm_block :: "u8 list"
  g_pcm_bytes_alloc :: u32
  g_pcm_phys :: u32
  g_ready :: bool
  ac_pool :: pmm
  ac_hw :: 'h

abbreviation BD_ENTRY_COUNT :: nat where "BD_ENTRY_COUNT \<equiv> 32"

definition on_hw :: "('h \<Rightarrow> 'h) \<Rightarrow> 'h ac97 \<Rightarrow> 'h ac97" where
  "on_hw f s = s\<lparr>ac_hw := f (ac_hw s)\<rparr>"

definition outw_offset :: "'h wide_io \<Rightarrow> u16 \<Rightarrow> u16 \<Rightarrow> u16 \<Rightarrow> 'h \<Rightarrow> 'h" where
  "outw_offset io b off v h = io_outw io h (b + off) v"

definition inw_offset :: "'h wide_io \<Rightarrow> u16 \<Rightarrow> u16 \<Rightarrow> 'h \<Rightarrow> u16 \<times> 'h" where
  "inw_offset io b off h = io_inw io h (b + off)"

definition inb_offset :: "'h wide_io \<Rightarrow> u16 \<Rightarrow> u16 \<Rightarrow> 'h \<Rightarrow> u8 \<times> 'h" where
  "inb_offset io b off h = io_inb io h (b + off)"

definition outb_offset :: "'h wide_io \<Rightarrow> u16 \<Rightarrow> u16 \<Rightarrow> u8 \<Rightarrow> 'h \<Rightarrow> 'h" where
  "outb_offset io b off v h = io_outb io h (b + off) v"

fun delay_reads :: "nat \<Rightarrow> 'h wide_io \<Rightarrow> u16 \<Rightarrow> u16 \<Rightarrow> 'h \<Rightarrow> 'h" where
  "delay_reads 0 io b off h = h"
| "delay_reads (Suc n) io b off h = delay_reads n io b off (snd (inw_offset io b off h))"

definition ac97_hw_reset :: "'h wide_io \<Rightarrow> 'h ac97 \<Rightarrow> 'h ac97" where
  "ac97_hw_reset io s =
     (let h1 = io_outl io (ac_hw s) (g_nabm s + 0x2C) 2;
          h2 = delay_reads 100000 io (g_nam s) 0x02 h1;
          h3 = outw_offset io (g_nam s) 0x00 0 h2
      in s\<lparr>ac_hw := delay_reads 100000 io (g_nam s) 0x02 h3\<rparr>)"

text \<open>The result of \<open>alloc_phys_block\<close> with the physical and the virtual address it stores, and the size of the block.\<close>

definition block_pages :: "u32 \<Rightarrow> u32" where
  "block_pages bytes = (let pages = (bytes + 4096 - 1) div 4096 in if pages = 0 then 1 else pages)"

definition alloc_phys_block :: "pmm_env \<Rightarrow> u32 \<Rightarrow> pmm \<Rightarrow> (u32 \<times> u64) option \<times> pmm" where
  "alloc_phys_block env bytes p =
     (case pmm_alloc_contig env (block_pages bytes) p of (first, p') \<Rightarrow>
      if first = 0 then (None, p') else (Some (ucast (first - hhdm_offset env), first), p'))"

fun powerup_loop :: "nat \<Rightarrow> 'h wide_io \<Rightarrow> u16 \<Rightarrow> 'h \<Rightarrow> 'h" where
  "powerup_loop 0 io nam h = h"
| "powerup_loop (Suc n) io nam h =
     (let (st, h') = inw_offset io nam 0x26 h in if st AND 0xF000 = 0 then h' else powerup_loop n io nam h')"

definition ac97_powerup :: "'h wide_io \<Rightarrow> 'h ac97 \<Rightarrow> 'h ac97" where
  "ac97_powerup io s = on_hw (\<lambda>h. powerup_loop 1000 io (g_nam s) (outw_offset io (g_nam s) 0x26 0 h)) s"

definition ac97_is_ready :: "'h ac97 \<Rightarrow> bool" where
  "ac97_is_ready s = g_ready s"

text \<open>\<open>while (inb_offset(g_nabm, CR_PCM_OUT) & CR_RR);\<close> after the reset bit has been set.\<close>

fun wait_reset :: "nat \<Rightarrow> 'h wide_io \<Rightarrow> u16 \<Rightarrow> 'h \<Rightarrow> 'h res" where
  "wait_reset 0 io nabm h = Inl OutOfFuel"
| "wait_reset (Suc fuel) io nabm h =
     (let (cr, h') = inb_offset io nabm 0x1B h in if cr AND 0x02 \<noteq> 0 then wait_reset fuel io nabm h' else Inr h')"

definition dma_reset :: "nat \<Rightarrow> 'h wide_io \<Rightarrow> u16 \<Rightarrow> 'h \<Rightarrow> 'h res" where
  "dma_reset fuel io nabm h =
     rbind (wait_reset fuel io nabm (outb_offset io nabm 0x1B 0x02 h)) (\<lambda>h'. Inr (outw_offset io nabm 0x16 0x001C h'))"

text \<open>The base addresses of the two register blocks, set by force when they are not in I/O space.\<close>

definition read_bars :: "'h wide_io \<Rightarrow> u8 \<Rightarrow> u8 \<Rightarrow> u8 \<Rightarrow> 'h \<Rightarrow> u32 \<times> u32 \<times> 'h" where
  "read_bars io bus slot func h =
     (let (nam, h1) = pci_config_read32 io bus slot func 0x10 h; (nabm, h2) = pci_config_read32 io bus slot func 0x14 h1
      in (nam, nabm, h2))"

definition ac97_init :: "nat \<Rightarrow> 'h wide_io \<Rightarrow> pmm_env \<Rightarrow> 'h ac97 \<Rightarrow> (int \<times> 'h ac97) res" where
  "ac97_init fuel io env s0 =
     (case pci_find_device io 0x8086 0x2415 (ac_hw s0) of
        ((r, None), h) \<Rightarrow> Inr (-1, s0\<lparr>ac_hw := h\<rparr>)
      | ((r, Some (bus, slot, func)), h) \<Rightarrow>
        case read_bars io bus slot func h of (nam0, nabm0, h1) \<Rightarrow>
        case (if nam0 AND 1 = 0 \<or> nabm0 AND 1 = 0
              then read_bars io bus slot func
                     (pci_config_write32 io bus slot func 0x14 0x1C41 (pci_config_write32 io bus slot func 0x10 0x1C01 h1))
              else (nam0, nabm0, h1)) of (nam, nabm, h2) \<Rightarrow>
        let s1 = s0\<lparr>g_nam := ucast (nam AND NOT 3), g_nabm := ucast (nabm AND NOT 3)\<rparr>;
            (cmd, h3) = pci_config_read16 io bus slot func 0x04 h2;
            s2 = ac97_hw_reset io (s1\<lparr>ac_hw := pci_config_write16 io bus slot func 0x04 (cmd OR 0x0005) h3\<rparr>);
            s3 = on_hw (\<lambda>h. outw_offset io (g_nam s2) 0x18 0 (outw_offset io (g_nam s2) 0x02 0 (outw_offset io (g_nam s2) 0x26 0 h))) s2
        in case alloc_phys_block env (8 * word_of_nat BD_ENTRY_COUNT) (ac_pool s3) of
             (None, p) \<Rightarrow> Inr (-1, s3\<lparr>ac_pool := p\<rparr>)
           | (Some (phys, va), p) \<Rightarrow>
             let s4 = s3\<lparr>ac_pool := p, g_bd_phys := phys,
                   g_bd := replicate BD_ENTRY_COUNT \<lparr>bd_addr = 0, bd_samples = 0, bd_control = 0\<rparr>\<rparr>
             in rbind (dma_reset fuel io (g_nabm s4) (io_outl io (ac_hw s4) (g_nabm s4 + 0x10) phys)) (\<lambda>h.
                  Inr (0, s4\<lparr>ac_hw := h, g_ready := True\<rparr>)))"

text \<open>The loop that fills the descriptors: the number of entries written and the table.\<close>

function bd_loop :: "u32 \<Rightarrow> u32 \<Rightarrow> u32 \<Rightarrow> nat \<Rightarrow> u32 \<Rightarrow> ac97_bd list \<Rightarrow> (nat \<times> ac97_bd list) res" where
  "bd_loop phys channels frames_left desc off bds =
     (if frames_left \<noteq> 0 \<and> desc < BD_ENTRY_COUNT then
        let fc = (if frames_left * channels > 0xFFFE then 0xFFFE div channels else frames_left);
            sample_count = fc * channels
        in if desc \<ge> length bds then Inl BadWrite
           else bd_loop phys channels (frames_left - fc) (desc + 1) (off + sample_count * 2)
                  (bds[desc := \<lparr>bd_addr = phys + off, bd_samples = ucast ((sample_count - 1) AND 0x7FFF), bd_control = 0\<rparr>])
      else Inr (desc, bds))"
  by pat_completeness auto

termination
  by (relation "measure (\<lambda>(phys, channels, frames_left, desc, off, bds). BD_ENTRY_COUNT - desc)") auto

declare bd_loop.simps [simp del]

definition last_bd :: "nat \<Rightarrow> ac97_bd list \<Rightarrow> ac97_bd list" where
  "last_bd desc bds =
     bds[desc - 1 := (bds ! (desc - 1))\<lparr>bd_samples := bd_samples (bds ! (desc - 1)) OR 0x8000,
                                        bd_control := bd_control (bds ! (desc - 1)) OR 0x4000\<rparr>]"

text \<open>The sample buffer for a sound: it is kept when it is large enough.\<close>

definition pcm_block :: "pmm_env \<Rightarrow> u32 \<Rightarrow> 'h ac97 \<Rightarrow> bool \<times> 'h ac97" where
  "pcm_block env need s =
     (if g_pcm_buf s = 0 \<or> need > g_pcm_bytes_alloc s then
        (case alloc_phys_block env need (ac_pool s) of
           (None, p) \<Rightarrow> (False, s\<lparr>ac_pool := p\<rparr>)
         | (Some (phys, va), p) \<Rightarrow>
             (True, s\<lparr>ac_pool := p, g_pcm_phys := phys, g_pcm_buf := va, g_pcm_bytes_alloc := need,
                g_pcm_block := replicate (unat (block_pages need) * 4096) 0\<rparr>))
      else (True, s))"

definition start_play :: "'h wide_io \<Rightarrow> u16 \<Rightarrow> u8 \<Rightarrow> 'h \<Rightarrow> 'h" where
  "start_play io nabm lvi h =
     (let h1 = outb_offset io nabm 0x1B 0x01 (outb_offset io nabm 0x15 lvi (outb_offset io nabm 0x14 0 h));
          (sr, h2) = inb_offset io nabm 0x16 h1; (cr, h3) = inb_offset io nabm 0x1B h2; (civ, h4) = inb_offset io nabm 0x14 h3
      in h4)"

definition clamp_rate :: "u32 \<Rightarrow> u32" where
  "clamp_rate rate_hz = (let r = (if rate_hz < 8000 then 8000 else rate_hz) in if r > 48000 then 48000 else r)"

text \<open>\<open>pcm\<close> is the buffer of the caller, \<open>None\<close> for a null pointer.\<close>

definition ac97_play_pcm ::
  "nat \<Rightarrow> 'h wide_io \<Rightarrow> pmm_env \<Rightarrow> u8 list option \<Rightarrow> u32 \<Rightarrow> u32 \<Rightarrow> u8 \<Rightarrow> 'h ac97 \<Rightarrow> (int \<times> 'h ac97) res" where
  "ac97_play_pcm fuel io env pcm frames rate_hz channels s0 =
     (case pcm of None \<Rightarrow> Inr (-1, s0) | Some data \<Rightarrow>
      if \<not> g_ready s0 \<or> frames = 0 \<or> (channels \<noteq> 1 \<and> channels \<noteq> 2) then Inr (-1, s0) else
      let s1 = on_hw (\<lambda>h. outw_offset io (g_nam s0) 0x2C (ucast (clamp_rate rate_hz)) (outw_offset io (g_nam s0) 0x2A 1 h)) s0;
          bytes = frames * ucast channels * 2;
          need = (bytes + 0xFFF) AND NOT 0xFFF
      in case pcm_block env need s1 of (ok, s2) \<Rightarrow>
         if \<not> ok then Inr (-1, s2) else
         if unat bytes > length data then Inl BadRead else
         if unat bytes > length (g_pcm_block s2) then Inl BadWrite else
         rbind (bd_loop (g_pcm_phys s2) (ucast channels) frames 0 0 (g_bd s2)) (\<lambda>(desc, bds).
         let s3 = s2\<lparr>g_pcm_block := patch (g_pcm_block s2) 0 (take (unat bytes) data)\<rparr> in
         if desc = 0 then Inr (-1, s3\<lparr>g_bd := bds\<rparr>) else
         let s4 = s3\<lparr>g_bd := last_bd desc bds\<rparr> in
         rbind (dma_reset fuel io (g_nabm s4) (ac_hw s4)) (\<lambda>h.
           Inr (0, s4\<lparr>ac_hw := start_play io (g_nabm s4) (word_of_nat (desc - 1)) h\<rparr>))))"

section \<open>The descriptors\<close>

text \<open>What the specification asks of the table: the entries start at consecutive runs of \<open>cs\<close> samples from \<open>phys\<close> on, of two
  bytes each, and an entry covers its run when its count (one less than the number of samples, in the low 15 bits as
  the driver stores it) is that of the whole run.\<close>

definition bd_runs :: "u32 \<Rightarrow> nat list \<Rightarrow> ac97_bd list \<Rightarrow> bool" where
  "bd_runs phys cs bds \<longleftrightarrow>
     (\<forall>k<length cs. 0 < cs ! k \<and> cs ! k \<le> 0xFFFE \<and> bd_addr (bds ! k) = phys + word_of_nat (2 * sum_list (take k cs)))"

definition bd_covers :: "nat list \<Rightarrow> ac97_bd list \<Rightarrow> bool" where
  "bd_covers cs bds \<longleftrightarrow> (\<forall>k<length cs. unat (bd_samples (bds ! k) AND 0x7FFF) + 1 = cs ! k)"

text \<open>What the loop writes for these runs.\<close>

definition bd_written :: "u32 \<Rightarrow> nat list \<Rightarrow> ac97_bd list \<Rightarrow> bool" where
  "bd_written phys cs bds \<longleftrightarrow>
     (\<forall>k<length cs. 0 < cs ! k \<and> cs ! k \<le> 0xFFFE \<and> bd_addr (bds ! k) = phys + word_of_nat (2 * sum_list (take k cs)) \<and>
        bd_samples (bds ! k) = word_of_nat ((cs ! k - 1) mod 0x8000) \<and> bd_control (bds ! k) = 0)"

lemma mod_2_15: "ucast ((word_of_nat n :: u32) AND 0x7FFF) = (word_of_nat (n mod 0x8000) :: u16)"
proof -
  have m: "(0x7FFF :: u32) = mask 15" by (simp add: mask_eq_exp_minus_1)
  have "unat (ucast ((word_of_nat n :: u32) AND mask 15) :: u16) = n mod 2 ^ 15"
    unfolding take_bit_eq_mask [symmetric]
    by (simp add: unsigned_ucast_eq unsigned_take_bit_eq unat_of_nat take_bit_nat_def mod_mod_cancel)
  moreover have "unat (word_of_nat (n mod 0x8000) :: u16) = n mod 2 ^ 15" by (simp add: unat_of_nat)
  ultimately show ?thesis unfolding m by (simp add: word_unat_eq_iff)
qed

text \<open>The frames one descriptor takes.\<close>

definition chunk :: "nat \<Rightarrow> nat \<Rightarrow> nat" where
  "chunk ch frames = (if frames * ch > 0xFFFE then 0xFFFE div ch else frames)"

lemma chunk_bounds: "ch = 1 \<or> ch = 2 \<Longrightarrow> 0 < n \<Longrightarrow> 0 < chunk ch n \<and> chunk ch n \<le> n \<and> chunk ch n * ch \<le> 0xFFFE"
  by (auto simp: chunk_def)

lemma bd_loop_step:
  assumes ch: "ch = 1 \<or> ch = 2" and n: "0 < n" "n * ch < 2 ^ 31" and d: "desc < 32" "length bds = 32"
  shows "bd_loop phys (word_of_nat ch) (word_of_nat n) desc off bds =
    bd_loop phys (word_of_nat ch) (word_of_nat (n - chunk ch n)) (desc + 1) (off + word_of_nat (2 * (chunk ch n * ch)))
      (bds[desc := \<lparr>bd_addr = phys + off, bd_samples = word_of_nat ((chunk ch n * ch - 1) mod 0x8000), bd_control = 0\<rparr>])"
proof -
  note c = chunk_bounds [OF ch n(1)]
  have n': "n < 2 ^ 31" using n(2) ch by auto
  have u: "unat (word_of_nat n :: u32) = n" "unat (word_of_nat ch :: u32) = ch" using n' ch by (auto simp: unat_of_nat)
  have "unat (word_of_nat n * word_of_nat ch :: u32) = n * ch" using n u by (simp add: unat_word_ariths)
  then have fc: "(if word_of_nat n * word_of_nat ch > (0xFFFE :: u32) then 0xFFFE div word_of_nat ch else word_of_nat n) = (word_of_nat (chunk ch n) :: u32)"
    using ch by (auto simp: word_less_nat_alt chunk_def)
  have nz: "(word_of_nat n :: u32) \<noteq> 0" using u n(1) by (metis less_numeral_extra(3) unat_0)
  have sc: "word_of_nat (chunk ch n) * word_of_nat ch - 1 = (word_of_nat (chunk ch n * ch - 1) :: u32)"
    using c ch by (auto simp: of_nat_diff)
  have fl: "word_of_nat n - word_of_nat (chunk ch n) = (word_of_nat (n - chunk ch n) :: u32)" using c by (simp add: of_nat_diff)
  show ?thesis
    using d nz by (subst bd_loop.simps) (simp add: Let_def fc sc fl mod_2_15 mult.commute [of _ "2 :: u32"])
qed

text \<open>What the loop adds: it covers all samples if there are enough descriptors.\<close>

definition bd_result :: "u32 \<Rightarrow> nat \<Rightarrow> nat \<Rightarrow> nat list \<Rightarrow> nat list \<Rightarrow> ac97_bd list \<Rightarrow> bool" where
  "bd_result phys ch n cs cs' bds' \<longleftrightarrow>
     length bds' = 32 \<and> length cs + length cs' \<le> 32 \<and> bd_written phys (cs @ cs') bds' \<and> sum_list cs' \<le> n * ch \<and>
     (n \<le> (32 - length cs) * (0xFFFE div ch) \<longrightarrow> sum_list cs' = n * ch) \<and> (0 < n \<and> length cs < 32 \<longrightarrow> cs' \<noteq> [] \<and> hd cs' = chunk ch n * ch)"

lemma bd_written_snoc:
  assumes "bd_written phys cs bds" "length cs < length bds" "0 < c" "c \<le> 0xFFFE"
  shows "bd_written phys (cs @ [c]) (bds[length cs := \<lparr>bd_addr = phys + word_of_nat (2 * sum_list cs),
    bd_samples = word_of_nat ((c - 1) mod 0x8000), bd_control = 0\<rparr>])"
  using assms by (auto simp: bd_written_def nth_append less_Suc_eq)

lemma bd_result_step:
  assumes ch: "ch = 1 \<or> ch = 2" and n: "0 < n"
    and r: "bd_result phys ch (n - chunk ch n) (cs @ [chunk ch n * ch]) cs2 bds2"
  shows "bd_result phys ch n cs (chunk ch n * ch # cs2) bds2"
proof -
  note c = chunk_bounds [OF ch n]
  have split: "chunk ch n * ch + (n - chunk ch n) * ch = n * ch"
    using c by (simp add: diff_mult_distrib)
  have "n - chunk ch n \<le> (32 - Suc (length cs)) * (0xFFFE div ch)" if a: "n \<le> (32 - length cs) * (0xFFFE div ch)" "length cs < 32"
  proof (cases "n * ch > 0xFFFE")
    case True
    obtain k where k: "32 - length cs = Suc k" using a(2) by (metis Suc_diff_Suc)
    then have "32 - Suc (length cs) = k" by simp
    then show ?thesis using a(1) k True by (simp add: chunk_def)
  next
    case False
    then show ?thesis by (simp add: chunk_def)
  qed
  moreover have "length cs < 32" using r by (simp add: bd_result_def)
  ultimately show ?thesis using r split by (auto simp: bd_result_def)
qed

lemma bd_loop_writes:
  assumes ch: "ch = 1 \<or> ch = 2"
  shows "n * ch < 2 ^ 31 \<Longrightarrow> length bds = 32 \<Longrightarrow> length cs \<le> 32 \<Longrightarrow> bd_written phys cs bds \<Longrightarrow>
    \<exists>cs' bds'. bd_loop phys (word_of_nat ch) (word_of_nat n) (length cs) (word_of_nat (2 * sum_list cs)) bds = Inr (length cs + length cs', bds') \<and>
      bd_result phys ch n cs cs' bds'"
proof (induction "32 - length cs" arbitrary: n bds cs)
  case 0
  then have "bd_loop phys (word_of_nat ch) (word_of_nat n) (length cs) (word_of_nat (2 * sum_list cs)) bds = Inr (length cs, bds)"
    by (subst bd_loop.simps) simp
  then show ?case using 0 by (intro exI [of _ "[]"] exI [of _ bds]) (auto simp: bd_result_def)
next
  case (Suc d)
  show ?case
  proof (cases "n = 0")
    case True
    then have "bd_loop phys (word_of_nat ch) (word_of_nat n) (length cs) (word_of_nat (2 * sum_list cs)) bds = Inr (length cs, bds)"
      by (subst bd_loop.simps) simp
    then show ?thesis using True Suc.prems by (intro exI [of _ "[]"] exI [of _ bds]) (auto simp: bd_result_def)
  next
    case False
    let ?c = "chunk ch n * ch"
    have n0: "0 < n" and dl: "length cs < 32" using False Suc.hyps(2) by simp_all
    note c = chunk_bounds [OF ch n0]
    define bds1 where "bds1 = bds[length cs := \<lparr>bd_addr = phys + word_of_nat (2 * sum_list cs),
      bd_samples = word_of_nat ((?c - 1) mod 0x8000), bd_control = 0\<rparr>]"
    have t1: "bd_written phys (cs @ [?c]) bds1"
      unfolding bds1_def by (rule bd_written_snoc [OF Suc.prems(4)]) (use c ch dl Suc.prems(2) in auto)
    have le: "(n - chunk ch n) * ch < 2 ^ 31" using Suc.prems(1) by (simp add: diff_mult_distrib)
    have d: "d = 32 - length (cs @ [?c])" "length (cs @ [?c]) \<le> 32" "length bds1 = 32" using Suc.hyps(2) dl Suc.prems(2) by (simp_all add: bds1_def)
    from Suc.hyps(1) [OF d(1) le d(3,2) t1] obtain cs2 bds2 where
      r: "bd_loop phys (word_of_nat ch) (word_of_nat (n - chunk ch n)) (length (cs @ [?c])) (word_of_nat (2 * sum_list (cs @ [?c]))) bds1
          = Inr (length (cs @ [?c]) + length cs2, bds2)" "bd_result phys ch (n - chunk ch n) (cs @ [?c]) cs2 bds2" by blast
    have "bd_loop phys (word_of_nat ch) (word_of_nat n) (length cs) (word_of_nat (2 * sum_list cs)) bds = Inr (length cs + length (?c # cs2), bds2)"
      using r(1) bd_loop_step [OF ch n0 Suc.prems(1) dl Suc.prems(2), of phys "word_of_nat (2 * sum_list cs)", folded bds1_def]
      by (simp add: distrib_left)
    then show ?thesis using bd_result_step [OF ch n0 r(2)] by blast
  qed
qed

section \<open>Properties\<close>

text \<open>The room for a sound of \<open>n\<close> bytes: rounded to pages it is large enough, and so is the block.\<close>

lemma room_for:
  assumes "unat bytes + 4095 < 2 ^ 32"
  defines "need \<equiv> (bytes + 0xFFF) AND NOT (0xFFF :: u32)"
  shows "unat bytes \<le> unat need" "unat need \<le> unat (block_pages need) * 4096"
proof -
  have s: "unat (bytes + 0xFFF) = unat need + unat ((bytes + 0xFFF) AND 0xFFF)" "unat ((bytes + 0xFFF) AND 0xFFF) < 4096"
    unfolding need_def by (rule split_page_word)+
  have b: "unat (bytes + 0xFFF) = unat bytes + 4095" using assms(1) by (simp add: unat_word_ariths)
  show "unat bytes \<le> unat need" using s b by linarith
  have n: "unat need + 4095 < 2 ^ 32"
  proof -
    have "2 ^ 12 dvd unat need"
    proof -
      have m: "(0xFFF :: u32) = mask 12" by (simp add: mask_eq_exp_minus_1)
      have "take_bit 12 need = 0" unfolding need_def m by (rule bit_word_eqI) (simp add: bit_simps)
      then have "unat need mod 2 ^ 12 = 0" by (metis take_bit_nat_def unsigned_take_bit_eq unat_0)
      then show ?thesis by (simp add: dvd_eq_mod_eq_0)
    qed
    then obtain q where q: "unat need = 4096 * q" by auto
    have "4096 * q < 2 ^ 32" using unat_bound [of need] q by simp
    then show ?thesis using q by simp
  qed
  have "unat ((need + 4096 - 1) div 4096) = (unat need + 4095) div 4096"
  proof -
    have "need + 4096 - 1 = need + 4095" by simp
    then show ?thesis using n by (simp add: unat_div unat_word_ariths)
  qed
  then show "unat need \<le> unat (block_pages need) * 4096" by (auto simp: block_pages_def Let_def unat_eq_zero)
qed

lemma pcm_block_room:
  assumes "pcm_block env need s = (True, s')" "g_pcm_buf s \<noteq> 0 \<longrightarrow> unat (g_pcm_bytes_alloc s) \<le> length (g_pcm_block s)"
    "unat need \<le> unat (block_pages need) * 4096"
  shows "unat need \<le> length (g_pcm_block s')" "g_bd s' = g_bd s" "g_nabm s' = g_nabm s"
  using assms by (auto simp: pcm_block_def word_less_nat_alt split: if_splits option.splits prod.splits)

lemma last_bd_nth:
  assumes "d \<le> length bds" and "k < d"
  shows "bd_addr (last_bd d bds ! k) = bd_addr (bds ! k)"
    and "bd_samples (last_bd d bds ! k) AND 0x7FFF = bd_samples (bds ! k) AND 0x7FFF"
  using assms by (cases "k = d - 1"; simp add: last_bd_def bit.conj_disj_distrib2)+

lemma count_field:
  assumes "0 < c"
  shows "unat ((word_of_nat ((c - 1) mod 0x8000) :: u16) AND 0x7FFF) + 1 = c \<longleftrightarrow> c \<le> 0x8000"
proof -
  have m: "(0x7FFF :: u16) = mask 15" by (simp add: mask_eq_exp_minus_1)
  have "unat ((word_of_nat ((c - 1) mod 0x8000) :: u16) AND 0x7FFF) = (c - 1) mod 0x8000"
    unfolding m take_bit_eq_mask [symmetric] by (simp add: unsigned_take_bit_eq unat_of_nat take_bit_nat_def)
  moreover have "(c - 1) mod 0x8000 + 1 = c \<longleftrightarrow> c \<le> 0x8000"
  proof (cases "c \<le> 0x8000")
    case True
    then show ?thesis using assms by simp
  next
    case False
    moreover have "(c - 1) mod 0x8000 < 0x8000" by simp
    ultimately show ?thesis by linarith
  qed
  ultimately show ?thesis by simp
qed

text \<open>The finished table: the runs are consecutive, and it covers them exactly when the sound has at most 32768 samples.\<close>

lemma table_of_result:
  assumes r: "bd_result phys ch n [] cs bds" and ch: "ch = 1 \<or> ch = 2" and n: "0 < n"
  shows "cs \<noteq> []" "bd_runs phys cs (last_bd (length cs) bds)" "bd_covers cs (last_bd (length cs) bds) \<longleftrightarrow> n * ch \<le> 0x8000"
proof -
  have w: "bd_written phys cs bds" and len: "length cs \<le> length bds" and c: "cs \<noteq> []" "hd cs = chunk ch n * ch" and le: "sum_list cs \<le> n * ch"
    using r n by (auto simp: bd_result_def)
  show "cs \<noteq> []" by (rule c)
  show "bd_runs phys cs (last_bd (length cs) bds)"
    using w last_bd_nth(1) [OF len] by (auto simp: bd_runs_def bd_written_def)
  have f: "unat (bd_samples (last_bd (length cs) bds ! k) AND 0x7FFF) + 1 = cs ! k \<longleftrightarrow> cs ! k \<le> 0x8000" if k: "k < length cs" for k
    using w k last_bd_nth(2) [OF len k] count_field [of "cs ! k"] by (simp add: bd_written_def)
  show "bd_covers cs (last_bd (length cs) bds) \<longleftrightarrow> n * ch \<le> 0x8000"
  proof
    assume "bd_covers cs (last_bd (length cs) bds)"
    then have "cs ! 0 \<le> 0x8000" using f [of 0] c(1) by (simp add: bd_covers_def)
    then have "chunk ch n * ch \<le> 0x8000" using c by (simp add: hd_conv_nth)
    then show "n * ch \<le> 0x8000" using ch by (auto simp: chunk_def split: if_splits)
  next
    assume t: "n * ch \<le> 0x8000"
    have "cs ! k \<le> 0x8000" if "k < length cs" for k
      using member_le_sum_list [of "cs ! k" cs] that le t by simp
    then show "bd_covers cs (last_bd (length cs) bds)" using f by (simp add: bd_covers_def)
  qed
qed

lemma pcm_block_succeeds:
  assumes "g_pcm_buf s \<noteq> 0 \<and> need \<le> g_pcm_bytes_alloc s \<or> fst (pmm_alloc_contig env (block_pages need) (ac_pool s)) \<noteq> 0"
  obtains s' where "pcm_block env need s = (True, s')"
proof (cases "g_pcm_buf s = 0 \<or> need > g_pcm_bytes_alloc s")
  case True
  obtain q pool where p: "pmm_alloc_contig env (block_pages need) (ac_pool s) = (q, pool)" by fastforce
  then have "q \<noteq> 0" using True assms by (auto simp: linorder_not_less [symmetric])
  with True p show thesis by (intro that) (simp add: pcm_block_def alloc_phys_block_def)
next
  case False
  then show thesis by (intro that) (simp add: pcm_block_def)
qed

text \<open>C26: \<open>ac97_play_pcm\<close> plays a sound: it returns 0 when the card was set up and leaves its resets, the caller's buffer holds
  the samples, there are fewer than 2 GiB of them, and the block of an earlier sound is large enough or the page pool has
  a new one. The block then holds the samples, the descriptors start at consecutive runs of it, inside the
  samples, and the runs reach the last sample if 32 descriptors are enough; the last descriptor asks for an interrupt and
  ends the list. The counts in the descriptors are those of the runs exactly when the sound has at most 32768
  samples: the driver cuts the count to 15 bits.\<close>

theorem ac97_plays_buffer:
  assumes ready: "g_ready s" "length (g_bd s) = 32" "g_pcm_buf s \<noteq> 0 \<longrightarrow> unat (g_pcm_bytes_alloc s) \<le> length (g_pcm_block s)"
    and ch: "channels = 1 \<or> channels = 2" and n: "0 < unat frames" "unat frames * unat channels * 2 + 4095 < 2 ^ 32"
    and data: "unat frames * unat channels * 2 \<le> length data"
    and card: "\<forall>h. \<exists>h'. wait_reset fuel io (g_nabm s) h = Inr h'"
    and need: "need = (frames * ucast channels * 2 + 0xFFF) AND NOT 0xFFF"
    and room: "g_pcm_buf s \<noteq> 0 \<and> need \<le> g_pcm_bytes_alloc s \<or> fst (pmm_alloc_contig env (block_pages need) (ac_pool s)) \<noteq> 0"
  shows "\<exists>s' cs. ac97_play_pcm fuel io env (Some data) frames rate_hz channels s = Inr (0, s') \<and>
    take (unat frames * unat channels * 2) (g_pcm_block s') = take (unat frames * unat channels * 2) data \<and>
    unat frames * unat channels * 2 \<le> length (g_pcm_block s') \<and>
    cs \<noteq> [] \<and> length cs \<le> 32 \<and> bd_runs (g_pcm_phys s') cs (g_bd s') \<and> sum_list cs \<le> unat frames * unat channels \<and>
    (unat frames \<le> 32 * (0xFFFE div unat channels) \<longrightarrow> sum_list cs = unat frames * unat channels) \<and>
    (bd_covers cs (g_bd s') \<longleftrightarrow> unat frames * unat channels \<le> 0x8000) \<and>
    bit (bd_samples (g_bd s' ! (length cs - 1))) 15 \<and> bit (bd_control (g_bd s' ! (length cs - 1))) 14"
proof -
  let ?n = "unat frames" and ?c = "unat channels"
  define bytes where "bytes = frames * ucast channels * 2"
  define s1 where "s1 = on_hw (\<lambda>h. outw_offset io (g_nam s) 0x2C (ucast (clamp_rate rate_hz)) (outw_offset io (g_nam s) 0x2A 1 h)) s"
  have c: "?c = 1 \<or> ?c = 2" using ch by auto
  have ub: "unat bytes = ?n * ?c * 2" unfolding bytes_def using ch n(2) by (auto simp: unat_word_ariths)
  have nd: "(bytes + 4095) AND - 4096 = need" by (simp add: need bytes_def)
  have rm: "unat bytes \<le> unat need" "unat need \<le> unat (block_pages need) * 4096"
    using room_for [of bytes] n(2) ub by (simp_all add: need bytes_def)
  have s1s: "g_bd s1 = g_bd s" "g_nabm s1 = g_nabm s" "g_pcm_buf s1 = g_pcm_buf s" "g_pcm_bytes_alloc s1 = g_pcm_bytes_alloc s"
    "ac_pool s1 = ac_pool s" "g_pcm_block s1 = g_pcm_block s" by (simp_all add: s1_def on_hw_def)
  obtain s2 where pb: "pcm_block env need s1 = (True, s2)"
    using pcm_block_succeeds [of s1 need env] room unfolding s1s by blast
  have blk: "unat need \<le> length (g_pcm_block s2)" "g_bd s2 = g_bd s" "g_nabm s2 = g_nabm s"
    using pcm_block_room [OF pb _ rm(2)] ready(3) unfolding s1s by simp_all
  have len: "unat bytes \<le> length (g_pcm_block s2)" using blk(1) rm(1) by linarith
  have f0: "frames \<noteq> 0" using n(1) by auto
  have pre: "\<not> (\<not> g_ready s \<or> frames = 0 \<or> (channels \<noteq> 1 \<and> channels \<noteq> 2))" using ready(1) f0 ch by auto
  have w: "word_of_nat ?c = (ucast channels :: u32)" "word_of_nat ?n = frames" using ch by auto
  have "?n * ?c < 2 ^ 31" using n(2) by simp
  from bd_loop_writes [OF c this, of "g_bd s2" "[]" "g_pcm_phys s2"] ready(2) blk(2) obtain cs bds where
    lp: "bd_loop (g_pcm_phys s2) (ucast channels) frames 0 0 (g_bd s2) = Inr (length cs, bds)" and rs: "bd_result (g_pcm_phys s2) ?c ?n [] cs bds"
    by (auto simp: w bd_written_def)
  note tb = table_of_result [OF rs c n(1)]
  define s4 where "s4 = s2\<lparr>g_pcm_block := patch (g_pcm_block s2) 0 (take (unat bytes) data), g_bd := last_bd (length cs) bds\<rparr>"
  have nb: "g_nabm s4 = g_nabm s" using blk(3) by (simp add: s4_def)
  obtain h' where h': "dma_reset fuel io (g_nabm s) (ac_hw s4) = Inr h'"
    using card by (metis dma_reset_def rbind.simps(2))
  define s5 where "s5 = s4\<lparr>ac_hw := start_play io (g_nabm s4) (word_of_nat (length cs - 1)) h'\<rparr>"
  have run: "ac97_play_pcm fuel io env (Some data) frames rate_hz channels s = Inr (0, s5)"
    using pre pb data ub len lp tb(1) h' nb
    by (simp add: ac97_play_pcm_def Let_def s1_def [symmetric] bytes_def [symmetric] nd s4_def s5_def)
  have blk5: "take (unat bytes) (g_pcm_block s5) = take (unat bytes) data" "length (g_pcm_block s5) = length (g_pcm_block s2)"
    using len data ub by (simp_all add: s5_def s4_def patch_def)
  have bds: "length cs \<le> 32" "length bds = 32" "sum_list cs \<le> ?n * ?c" "?n \<le> 32 * (0xFFFE div ?c) \<longrightarrow> sum_list cs = ?n * ?c"
    using rs by (simp_all add: bd_result_def)
  have g: "g_bd s5 = last_bd (length cs) bds" "g_pcm_phys s5 = g_pcm_phys s2" by (simp_all add: s5_def s4_def)
  have last: "bit (bd_samples (g_bd s5 ! (length cs - 1))) 15" "bit (bd_control (g_bd s5 ! (length cs - 1))) 14"
    using tb(1) bds(1,2) by (simp_all add: g last_bd_def bit_simps bit_numeral_rec Suc_le_lessD)
  show ?thesis
    by (intro exI [of _ s5] exI [of _ cs] conjI; (rule run tb(1) last bds)?) (use blk5 ub len tb bds in \<open>simp_all add: g\<close>)
qed

text \<open>A card that is never busy, on the bridge with a register file.\<close>

definition demo_card :: "demo_pci ac97" where
  "demo_card = \<lparr>g_nam = 0x1C00, g_nabm = 0x1C40, g_bd = replicate 32 \<lparr>bd_addr = 0, bd_samples = 0, bd_control = 0\<rparr>, g_bd_phys = 0x300000,
     g_pcm_buf = 0xffff800000400000, g_pcm_block = replicate 4096 0, g_pcm_bytes_alloc = 4096, g_pcm_phys = 0x400000, g_ready = True,
     ac_pool = \<lparr>fb_base = 0x200000, fb_limit = 0x4200000, fb_cursor = 0x500000, fb_total_pages = 16384,
       memmap_total_pages = 0, memmap_total_ready = False, boot_total_pages = 0, pmm_mem = (\<lambda>_. 0)\<rparr>,
     ac_hw = \<lparr>dp_sel = 0, dp_cfg = (\<lambda>_. 0)\<rparr>\<rparr>"

definition demo_pool_env :: pmm_env where
  "demo_pool_env = \<lparr>kernel_phys_end = 0x200000, hhdm_offset = 0xffff800000000000, raw_memmap = []\<rparr>"

theorem ac97_plays_buffer_witness:
  "\<exists>s'. ac97_play_pcm 1 demo_pci_io demo_pool_env (Some [1, 2, 3, 4]) 2 44100 1 demo_card = Inr (0, s') \<and>
    take 4 (g_pcm_block s') = [1, 2, 3, 4] \<and> (\<exists>cs. sum_list cs = 2 \<and> bd_covers cs (g_bd s'))"
proof -
  have n: "0x1000 = ((2 :: u32) * ucast (1 :: u8) * 2 + 0xFFF) AND NOT 0xFFF" by simp
  have e: "unat (2 :: u32) * unat (1 :: u8) = 2" by simp
  have "\<exists>s' cs. ac97_play_pcm 1 demo_pci_io demo_pool_env (Some [1, 2, 3, 4]) 2 44100 1 demo_card = Inr (0, s') \<and>
    take (unat (2 :: u32) * unat (1 :: u8) * 2) (g_pcm_block s') = take (unat (2 :: u32) * unat (1 :: u8) * 2) [1, 2, 3, 4] \<and>
    unat (2 :: u32) * unat (1 :: u8) * 2 \<le> length (g_pcm_block s') \<and>
    cs \<noteq> [] \<and> length cs \<le> 32 \<and> bd_runs (g_pcm_phys s') cs (g_bd s') \<and> sum_list cs \<le> unat (2 :: u32) * unat (1 :: u8) \<and>
    (unat (2 :: u32) \<le> 32 * (0xFFFE div unat (1 :: u8)) \<longrightarrow> sum_list cs = unat (2 :: u32) * unat (1 :: u8)) \<and>
    (bd_covers cs (g_bd s') \<longleftrightarrow> unat (2 :: u32) * unat (1 :: u8) \<le> 0x8000) \<and>
    bit (bd_samples (g_bd s' ! (length cs - 1))) 15 \<and> bit (bd_control (g_bd s' ! (length cs - 1))) 14"
    by (rule ac97_plays_buffer [OF _ _ _ _ _ _ _ _ n]) (simp_all add: demo_card_def demo_pci_io_def inb_offset_def)
  then show ?thesis by auto
qed

text \<open>The count of a descriptor is cut to 15 bits although up to \<open>0xFFFE\<close> samples are given to it: of 40000 samples
  the card is told to play 7232.\<close>

lemma long_run_cut:
  "\<exists>bds. bd_loop 0x400000 1 40000 0 0 (g_bd demo_card) = Inr (1, bds) \<and> bd_samples (bds ! 0) = 7231"
  by (subst bd_loop.simps, subst bd_loop.simps) (simp add: demo_card_def)

end
