(* ===== verification/Windows.thy ===== *)
theory Windows
  imports Desktop Window_Manager
begin

text \<open>
  The windows of \<open>src/kernel/kernel.c\<close>: their records, where they open, how they are maximised, dragged and resized,
  and the proof that none of this moves a window off the screen. The seven window types share their first fields; each
  is an extension of a common record, so that the code they share is one definition on all of them. The coordinates are
  C integers; that they stay far away from the ends of their range is part of the invariant.
\<close>

section \<open>Model\<close>

record win =
  win_open :: bool
  win_min :: bool
  wx :: int
  wy :: int
  ww :: int
  wh :: int
  dragging :: bool
  drag_offx :: int
  drag_offy :: int
  can_minimize :: bool
  can_maximize :: bool

record max_win = win +
  maximized :: bool
  prev_x :: int
  prev_y :: int
  prev_w :: int
  prev_h :: int

text \<open>\<open>np_buf\<close> is the first \<open>len\<close> bytes of the array, \<open>fw_path\<close> the string that \<open>path_len\<close> is the length of.\<close>

record notepad_t = max_win +
  np_name :: "u8 list"
  np_buf :: "u8 list"
  np_path :: "u8 list"
  np_cursor :: int
  np_last_drawn :: bool
  np_last :: "int \<times> int \<times> int \<times> int"

record filewin_t = max_win +
  fw_path_focus :: bool
  fw_path :: "u8 list"
  fw_selection :: int

record imgview_t = max_win +
  resizing :: bool
  resize_offx :: int
  resize_offy :: int
  iv_img :: "u32 list option"
  img_w :: int
  img_h :: int
  iv_path :: "u8 list"

record wavplay_t = win +
  wp_path :: "u8 list"
  wp_name :: "u8 list"

definition shown :: "'a win_scheme \<Rightarrow> bool" where
  "shown w \<longleftrightarrow> win_open w \<and> \<not> win_min w"

subsection \<open>Rectangles on the screen\<close>

definition point_in_rect :: "int \<Rightarrow> int \<Rightarrow> int \<Rightarrow> int \<Rightarrow> int \<Rightarrow> int \<Rightarrow> bool" where
  "point_in_rect mx my x y w h \<longleftrightarrow> mx \<ge> x \<and> mx < x + w \<and> my \<ge> y \<and> my < y + h"

text \<open>The window with its frame and title bar.\<close>

definition in_frame :: "int \<Rightarrow> int \<Rightarrow> 'a win_scheme \<Rightarrow> bool" where
  "in_frame mx my w = point_in_rect mx my (wx w - 2) (wy w - 24) (ww w + 4) (wh w + 26)"

text \<open>The close button of all windows but the editor, which has three buttons.\<close>

definition in_close :: "int \<Rightarrow> int \<Rightarrow> 'a win_scheme \<Rightarrow> bool" where
  "in_close mx my w = point_in_rect mx my (wx w + ww w - 18 - 6) (wy w - 20) 18 14"

definition notepad_menu_hit :: "int \<Rightarrow> int \<Rightarrow> 'a win_scheme \<Rightarrow> int" where
  "notepad_menu_hit mx my w =
     (if \<not> shown w then -1
      else if my < wy w \<or> my \<ge> wy w + 18 then -1
      else case find (\<lambda>i. point_in_rect mx my (wx w + 6 + i * (60 + 6)) (wy w + (18 - 14) div 2) 60 14) [0, 1, 2] of
             None \<Rightarrow> -1 | Some i \<Rightarrow> i)"

subsection \<open>Opening\<close>

text \<open>\<open>(fb.width > lim) ? fb.width - less_by : otherwise\<close>, computed in 32 bits.\<close>

definition open_size :: "u32 \<Rightarrow> u32 \<Rightarrow> u32 \<Rightarrow> int \<Rightarrow> int" where
  "open_size screen lim less_by otherwise = (if screen > lim then sint (screen - less_by) else otherwise)"

definition open_at :: "int \<Rightarrow> int \<Rightarrow> int \<Rightarrow> int \<Rightarrow> bool \<Rightarrow> 'a win_scheme \<Rightarrow> 'a win_scheme" where
  "open_at x y w h can_max s =
     s\<lparr>win_open := True, win_min := False, wx := x, wy := y, ww := w, wh := h, can_minimize := True, can_maximize := can_max\<rparr>"

definition place_filewin :: "fb_t \<Rightarrow> filewin_t \<Rightarrow> filewin_t" where
  "place_filewin fb w =
     (open_at 80 80 (open_size (fb_width fb) 500 200 320) (open_size (fb_height fb) 300 220 180) True w)\<lparr>maximized := False\<rparr>"

definition place_taskmgr :: "fb_t \<Rightarrow> max_win \<Rightarrow> max_win" where
  "place_taskmgr fb w =
     (open_at 120 100 (open_size (fb_width fb) 480 240 360) (open_size (fb_height fb) 260 260 200) True w)\<lparr>maximized := False\<rparr>"

definition place_display :: "max_win \<Rightarrow> max_win" where
  "place_display w = (open_at 140 120 360 160 False w)\<lparr>maximized := False\<rparr>"

definition place_terminal :: "fb_t \<Rightarrow> max_win \<Rightarrow> max_win" where
  "place_terminal fb w =
     (open_at 180 120 (open_size (fb_width fb) 420 260 360) (open_size (fb_height fb) 260 260 220) True w)\<lparr>maximized := False\<rparr>"

definition place_imgview :: "fb_t \<Rightarrow> imgview_t \<Rightarrow> imgview_t" where
  "place_imgview fb w =
     (open_at 160 110 (open_size (fb_width fb) 520 220 360) (open_size (fb_height fb) 360 260 220) True w)\<lparr>maximized := False\<rparr>"

definition place_wavplay :: "wavplay_t \<Rightarrow> wavplay_t" where
  "place_wavplay w = (open_at 200 140 360 160 False w)\<lparr>dragging := False, wp_path := [], wp_name := []\<rparr>"

text \<open>The editor starts from a cleared record.\<close>

definition notepad_zero :: notepad_t where
  "notepad_zero = \<lparr>win_open = False, win_min = False, wx = 0, wy = 0, ww = 0, wh = 0, dragging = False, drag_offx = 0, drag_offy = 0,
     can_minimize = False, can_maximize = False, maximized = False, prev_x = 0, prev_y = 0, prev_w = 0, prev_h = 0,
     np_name = [], np_buf = [], np_path = [], np_cursor = 0, np_last_drawn = False, np_last = (0, 0, 0, 0)\<rparr>"

definition place_notepad :: "fb_t \<Rightarrow> notepad_t \<Rightarrow> notepad_t" where
  "place_notepad fb w =
     (open_at 120 80 (open_size (fb_width fb) 400 240 320) (open_size (fb_height fb) 200 160 160) True w)\<lparr>maximized := False\<rparr>"

subsection \<open>Closing, maximising, minimising\<close>

definition close_max :: "'a max_win_scheme \<Rightarrow> 'a max_win_scheme" where
  "close_max w = w\<lparr>win_open := False, win_min := False, maximized := False\<rparr>"

text \<open>The five functions that toggle the maximised state have this body.\<close>

definition toggle_maximize :: "fb_t \<Rightarrow> 'a max_win_scheme \<Rightarrow> 'a max_win_scheme" where
  "toggle_maximize fb w =
     (if \<not> maximized w
      then w\<lparr>prev_x := wx w, prev_y := wy w, prev_w := ww w, prev_h := wh w, wx := 6, wy := 28 + 4,
             ww := sint (fb_width fb - 12), wh := sint (fb_height fb - 28 - 32 - 8), maximized := True\<rparr>
      else w\<lparr>wx := prev_x w, wy := prev_y w, ww := prev_w w, wh := prev_h w, maximized := False\<rparr>)"

subsection \<open>Dragging and resizing\<close>

text \<open>A position moved back so that the window ends at the edge of the screen; the subtraction is done in 32 bits.\<close>

definition clamp_edge :: "u32 \<Rightarrow> int \<Rightarrow> int \<Rightarrow> int" where
  "clamp_edge screen len n = (if n + len > sint screen then sint (screen - word_of_int len) else n)"

text \<open>The block for dragging a window by its title bar, one for each window in \<open>kmain\<close>; the second result tells
  whether the desktop is marked for drawing.\<close>

definition drag_step :: "fb_t \<Rightarrow> int \<Rightarrow> int \<Rightarrow> bool \<Rightarrow> 'a win_scheme \<Rightarrow> 'a win_scheme \<times> bool" where
  "drag_step fb mx my left_down w0 =
     (let w = (if left_down \<and> \<not> dragging w0 \<and> point_in_rect mx my (wx w0) (wy w0 - 22) (ww w0) 20
               then w0\<lparr>dragging := True, drag_offx := mx - wx w0, drag_offy := my - wy w0\<rparr> else w0)
      in if \<not> dragging w then (w, False)
         else if \<not> left_down then (w\<lparr>dragging := False\<rparr>, False)
         else let nx = mx - drag_offx w; ny = my - drag_offy w;
                  nx1 = (if nx < 0 then 0 else nx); ny1 = (if ny < 24 then 24 else ny)
              in (w\<lparr>wx := clamp_edge (fb_width fb) (ww w) nx1, wy := clamp_edge (fb_height fb) (wh w) ny1\<rparr>, True))"

definition in_corner :: "int \<Rightarrow> int \<Rightarrow> 'a win_scheme \<Rightarrow> bool" where
  "in_corner mx my w \<longleftrightarrow> mx \<ge> wx w + ww w - 10 \<and> mx \<le> wx w + ww w \<and> my \<ge> wy w + wh w - 10 \<and> my \<le> wy w + wh w"

text \<open>The new size of one side: at least \<open>least\<close>, unless the screen ends before.\<close>

definition resize_side :: "u32 \<Rightarrow> int \<Rightarrow> int \<Rightarrow> int \<Rightarrow> int" where
  "resize_side screen at least new =
     (let n = (if new < least then least else new) in if at + n > sint screen then sint (screen - word_of_int at) else n)"

definition imgview_pointer :: "fb_t \<Rightarrow> int \<Rightarrow> int \<Rightarrow> bool \<Rightarrow> imgview_t \<Rightarrow> imgview_t \<times> bool" where
  "imgview_pointer fb mx my left_down w0 =
     (let w = (if \<not> resizing w0 \<and> left_down \<and> in_corner mx my w0
               then w0\<lparr>resizing := True, resize_offx := wx w0 + ww w0 - mx, resize_offy := wy w0 + wh w0 - my\<rparr> else w0)
      in if resizing w
         then if \<not> left_down then (w\<lparr>resizing := False\<rparr>, False)
              else (w\<lparr>ww := resize_side (fb_width fb) (wx w) 180 (mx + resize_offx w - wx w),
                     wh := resize_side (fb_height fb) (wy w) 140 (my + resize_offy w - wy w)\<rparr>, True)
         else drag_step fb mx my left_down w)"

section \<open>Windows stay on the screen\<close>

text \<open>A window with its title bar is on the screen, and so is the place it returns to when it is no longer maximised.\<close>

definition rect_on :: "fb_t \<Rightarrow> int \<Rightarrow> int \<Rightarrow> int \<Rightarrow> int \<Rightarrow> bool" where
  "rect_on fb x y w h \<longleftrightarrow> 0 \<le> x \<and> 0 < w \<and> x + w \<le> sint (fb_width fb) \<and> 24 \<le> y \<and> 0 < h \<and> y + h \<le> sint (fb_height fb)"

definition on_screen :: "fb_t \<Rightarrow> 'a win_scheme \<Rightarrow> bool" where
  "on_screen fb w \<longleftrightarrow> (win_open w \<longrightarrow> rect_on fb (wx w) (wy w) (ww w) (wh w))"

definition max_on_screen :: "fb_t \<Rightarrow> 'a max_win_scheme \<Rightarrow> bool" where
  "max_on_screen fb w \<longleftrightarrow> (win_open w \<longrightarrow> rect_on fb (wx w) (wy w) (ww w) (wh w) \<and>
     (maximized w \<longrightarrow> rect_on fb (prev_x w) (prev_y w) (prev_w w) (prev_h w)))"

text \<open>Screens large enough for the windows to open on, and small enough for the pixel arithmetic.\<close>

definition desk_screen :: "fb_t \<Rightarrow> bool" where
  "desk_screen fb \<longleftrightarrow> 640 \<le> sint (fb_width fb) \<and> sint (fb_width fb) \<le> 2 ^ 16 \<and> 480 \<le> sint (fb_height fb) \<and> sint (fb_height fb) \<le> 2 ^ 16"

lemma sint_sub: "0 \<le> sint (a :: u32) \<Longrightarrow> 0 \<le> n \<Longrightarrow> n \<le> 2 ^ 30 \<Longrightarrow> sint (a - word_of_int n) = sint a - n"
proof -
  assume h: "0 \<le> sint a" "0 \<le> n" "n \<le> 2 ^ 30"
  have "sint a < 2 ^ 31" using sint_less [of a] by simp
  then have "signed_take_bit 31 (sint a - n) = sint a - n" using h by (intro signed_take_bit_int_eq_self) simp_all
  moreover have "sint (word_of_int x :: u32) = signed_take_bit 31 x" for x by (simp add: signed_of_int)
  moreover have "word_of_int (sint a - n) = a - word_of_int n" by simp
  ultimately show ?thesis by metis
qed

lemmas sint_subs = sint_sub [of _ "numeral k" for k, simplified]

lemma word_gt_sint: "0 \<le> sint (a :: u32) \<Longrightarrow> 0 \<le> sint b \<Longrightarrow> a > b \<longleftrightarrow> sint a > sint b"
  by (auto simp: word_less_nat_alt unat_nonnegative nat_less_eq_zless)

lemma open_size_eq:
  assumes "desk_screen fb" and "s = fb_width fb \<or> s = fb_height fb" and "0 \<le> sint lim" and "0 \<le> n" "n \<le> 2 ^ 16"
  shows "open_size s lim (word_of_int n) d = (if sint s > sint lim then sint s - n else d)"
  using assms by (auto simp: open_size_def desk_screen_def word_gt_sint sint_sub)

lemma open_sizes:
  assumes "desk_screen fb"
  shows "open_size (fb_width fb) 500 200 320 = sint (fb_width fb) - 200" "open_size (fb_height fb) 300 220 180 = sint (fb_height fb) - 220"
    "open_size (fb_width fb) 480 240 360 = sint (fb_width fb) - 240" "open_size (fb_height fb) 260 260 200 = sint (fb_height fb) - 260"
    "open_size (fb_width fb) 420 260 360 = sint (fb_width fb) - 260" "open_size (fb_height fb) 260 260 220 = sint (fb_height fb) - 260"
    "open_size (fb_width fb) 520 220 360 = sint (fb_width fb) - 220" "open_size (fb_height fb) 360 260 220 = sint (fb_height fb) - 260"
    "open_size (fb_width fb) 400 240 320 = sint (fb_width fb) - 240" "open_size (fb_height fb) 200 160 160 = sint (fb_height fb) - 160"
proof -
  have "open_size s (numeral l) (numeral k) d = sint s - numeral k"
    if "s = fb_width fb \<and> sint (numeral l :: u32) < 640 \<or> s = fb_height fb \<and> sint (numeral l :: u32) < 480"
      "0 \<le> sint (numeral l :: u32)" "(numeral k :: int) \<le> 2 ^ 16" for s l k d
    using open_size_eq [OF assms, of s "numeral l" "numeral k" d] that assms by (auto simp: desk_screen_def)
  then show "open_size (fb_width fb) 500 200 320 = sint (fb_width fb) - 200" "open_size (fb_height fb) 300 220 180 = sint (fb_height fb) - 220"
    "open_size (fb_width fb) 480 240 360 = sint (fb_width fb) - 240" "open_size (fb_height fb) 260 260 200 = sint (fb_height fb) - 260"
    "open_size (fb_width fb) 420 260 360 = sint (fb_width fb) - 260" "open_size (fb_height fb) 260 260 220 = sint (fb_height fb) - 260"
    "open_size (fb_width fb) 520 220 360 = sint (fb_width fb) - 220" "open_size (fb_height fb) 360 260 220 = sint (fb_height fb) - 260"
    "open_size (fb_width fb) 400 240 320 = sint (fb_width fb) - 240" "open_size (fb_height fb) 200 160 160 = sint (fb_height fb) - 160"
    by simp_all
qed

named_theorems keeps_on_screen "operations that keep windows on the screen"

lemma places_on_screen [keeps_on_screen]:
  assumes "desk_screen fb"
  shows "max_on_screen fb (place_filewin fb a)" "max_on_screen fb (place_taskmgr fb b)" "max_on_screen fb (place_display b)"
    "max_on_screen fb (place_terminal fb b)" "max_on_screen fb (place_imgview fb c)" "on_screen fb (place_wavplay d)"
    "max_on_screen fb (place_notepad fb e)"
  using assms open_sizes [OF assms]
  by (simp_all add: desk_screen_def max_on_screen_def on_screen_def rect_on_def open_at_def place_filewin_def place_taskmgr_def
      place_display_def place_terminal_def place_imgview_def place_wavplay_def place_notepad_def)

lemma toggle_on_screen [keeps_on_screen]:
  "desk_screen fb \<Longrightarrow> max_on_screen fb w \<Longrightarrow> max_on_screen fb (toggle_maximize fb w)"
  using sint_sub [of "fb_width fb" 12] sint_sub [of "fb_height fb" 68]
  by (auto simp: max_on_screen_def rect_on_def toggle_maximize_def desk_screen_def)

lemma close_on_screen [keeps_on_screen]: "max_on_screen fb (close_max w)"
  by (simp add: max_on_screen_def close_max_def)

lemma clamp_edge_le: "0 \<le> sint s \<Longrightarrow> 0 \<le> len \<Longrightarrow> len \<le> sint s \<Longrightarrow> len \<le> 2 ^ 16 \<Longrightarrow> clamp_edge s len n = min n (sint s - len)"
  by (auto simp: clamp_edge_def sint_sub)

lemma drag_frame:
  "win_open (fst (drag_step fb mx my b w)) = win_open w" "win_min (fst (drag_step fb mx my b w)) = win_min w"
  "ww (fst (drag_step fb mx my b w)) = ww w" "wh (fst (drag_step fb mx my b w)) = wh w"
  by (simp_all add: drag_step_def Let_def)

lemma drag_max_frame:
  "maximized (fst (drag_step fb mx my b (w :: 'a max_win_scheme))) = maximized w"
  "prev_x (fst (drag_step fb mx my b w)) = prev_x w" "prev_y (fst (drag_step fb mx my b w)) = prev_y w"
  "prev_w (fst (drag_step fb mx my b w)) = prev_w w" "prev_h (fst (drag_step fb mx my b w)) = prev_h w"
  by (simp_all add: drag_step_def Let_def)

lemma drag_rect:
  assumes scr: "desk_screen fb" and r: "rect_on fb (wx w) (wy w) (ww w) (wh w)"
  shows "rect_on fb (wx (fst (drag_step fb mx my b w))) (wy (fst (drag_step fb mx my b w))) (ww w) (wh w)"
proof -
  have bounds: "ww w \<le> sint (fb_width fb)" "wh w + 24 \<le> sint (fb_height fb)" "0 < ww w" "0 < wh w" using r by (simp_all add: rect_on_def)
  have "rect_on fb (clamp_edge (fb_width fb) (ww w) n) (clamp_edge (fb_height fb) (wh w) k) (ww w) (wh w)" if "0 \<le> n" "24 \<le> k" for n k
    using that bounds scr by (auto simp: clamp_edge_le desk_screen_def rect_on_def min_def)
  then show ?thesis using r by (auto simp: drag_step_def Let_def)
qed

lemma drag_on_screen [keeps_on_screen]:
  "desk_screen fb \<Longrightarrow> on_screen fb w \<Longrightarrow> on_screen fb (fst (drag_step fb mx my b w))"
  using drag_rect [of fb w] by (simp add: on_screen_def drag_frame)

lemma drag_max_on_screen [keeps_on_screen]:
  "desk_screen fb \<Longrightarrow> max_on_screen fb w \<Longrightarrow> max_on_screen fb (fst (drag_step fb mx my b w))"
  using drag_rect [of fb w] by (simp add: max_on_screen_def drag_frame drag_max_frame)

lemma resize_fits:
  assumes "0 \<le> sint s" and "0 \<le> p" "p < sint s" "sint s \<le> 2 ^ 16" "0 < least"
  shows "0 < resize_side s p least n \<and> p + resize_side s p least n \<le> sint s"
  using assms by (auto simp: resize_side_def Let_def sint_sub)

lemma imgview_pointer_on_screen [keeps_on_screen]:
  assumes scr: "desk_screen fb" and w: "max_on_screen fb w"
  shows "max_on_screen fb (fst (imgview_pointer fb mx my b w))"
proof (cases "resizing w \<or> \<not> resizing w \<and> b \<and> in_corner mx my w")
  case True
  have "rect_on fb (wx w) (wy w) (resize_side (fb_width fb) (wx w) 180 n) (resize_side (fb_height fb) (wy w) 140 k)" if "win_open w" for n k
    using scr w that resize_fits [of "fb_width fb" "wx w" 180 n] resize_fits [of "fb_height fb" "wy w" 140 k]
    by (simp add: max_on_screen_def rect_on_def desk_screen_def)
  with True w show ?thesis by (auto simp: max_on_screen_def imgview_pointer_def Let_def)
next
  case False
  then show ?thesis using drag_max_on_screen [OF assms] by (auto simp: imgview_pointer_def Let_def)
qed

end
