(* ===== verification/Window_Paint.thy ===== *)
theory Window_Paint
  imports Windows Scheduler Rtc Users
begin

text \<open>
  How the windows, menus and overlays of \<open>src/kernel/kernel.c\<close> are painted: each function is the sequence of the drawing
  operations it calls. The proofs show, function by function, that the sequence never faults on a mapped frame and
  writes only to the buffer it draws to.
\<close>

abbreviation COLOR_ACCENT :: u32 where "COLOR_ACCENT \<equiv> 0xFF4C8DFF"
abbreviation COLOR_TEXT :: u32 where "COLOR_TEXT \<equiv> 0xFFE7EEF9"
abbreviation COLOR_SURFACE :: u32 where "COLOR_SURFACE \<equiv> 0xFFF6F8FC"
abbreviation COLOR_BORDER :: u32 where "COLOR_BORDER \<equiv> 0xFFD5DEEA"
abbreviation COLOR_TEXT_DARK :: u32 where "COLOR_TEXT_DARK \<equiv> 0xFF2F3645"
abbreviation TOPBAR_H :: int where "TOPBAR_H \<equiv> 32"

type_synonym ops = "(mem \<Rightarrow> mem res) list"

text \<open>A line that is printed into an array of \<open>cap\<close> characters and drawn.\<close>

definition draw_format ::
  "fb_t \<Rightarrow> u8 list \<Rightarrow> font \<Rightarrow> int \<Rightarrow> int \<Rightarrow> nat \<Rightarrow> string \<Rightarrow> fmt_arg list \<Rightarrow> u32 \<Rightarrow> u32 \<Rightarrow> mem \<Rightarrow> mem res" where
  "draw_format fb blob ft x y cap fmt args fg bg m = rbind (sprintf cap (cstr fmt) args) (\<lambda>(_, line). draw_text fb blob ft x y line fg bg m)"

section \<open>Model\<close>

subsection \<open>The frame of a window\<close>

definition close_ops :: "fb_t \<Rightarrow> u8 list \<Rightarrow> font \<Rightarrow> int \<Rightarrow> int \<Rightarrow> ops" where
  "close_ops fb blob ft x y =
     [ui_draw_hgrad_rect fb x y 18 14 0xFF6E2B2B 0xFF581F1F,
      draw_text fb blob ft (x + 5) (y - 1) (cstr ''X'') 0xFFFBECEC 0]"

definition frame_ops :: "fb_t \<Rightarrow> u8 list \<Rightarrow> font \<Rightarrow> string \<Rightarrow> u32 \<Rightarrow> 'a win_scheme \<Rightarrow> ops" where
  "frame_ops fb blob ft title body w =
     [draw_rect fb (wx w - 2) (wy w - 24) (ww w + 4) (wh w + 26) 0xFF101010,
      ui_draw_hgrad_rect fb (wx w) (wy w - 22) (ww w) 20 0xFF2F3948 0xFF252E3A,
      draw_text fb blob ft (wx w + 8) (wy w - 20) (cstr title) COLOR_ACCENT 0] @
     close_ops fb blob ft (wx w + ww w - 18 - 6) (wy w - 20) @
     [draw_rect fb (wx w) (wy w) (ww w) (wh w) body]"

subsection \<open>The editor\<close>

text \<open>The loop over the text: a line is drawn at a line break, or when it has 120 characters; the character at that
  place is not kept. A line array ends for \<open>draw_text\<close> at its first zero.\<close>

fun note_loop ::
  "fb_t \<Rightarrow> u8 list \<Rightarrow> font \<Rightarrow> int \<Rightarrow> int \<Rightarrow> int \<Rightarrow> u8 list \<Rightarrow> u8 list \<Rightarrow> mem \<Rightarrow> (int \<times> u8 list \<times> mem) res" where
  "note_loop fb blob ft cx lim cy line [] m = Inr (cy, line, m)"
| "note_loop fb blob ft cx lim cy line (c # cs) m =
     (if \<not> cy + psf_height ft < lim then Inr (cy, line, m)
      else if c = NEWLINE \<or> length line \<ge> 120
      then rbind (draw_text fb blob ft cx cy (takeWhile (\<lambda>c. c \<noteq> 0) line) 0xFFE7EEF9 0xFF10161F m)
             (note_loop fb blob ft cx lim (cy + (psf_height ft + 2)) [] cs)
      else note_loop fb blob ft cx lim cy (line @ [c]) cs m)"

definition note_text :: "fb_t \<Rightarrow> u8 list \<Rightarrow> font \<Rightarrow> 'a win_scheme \<Rightarrow> u8 list \<Rightarrow> mem \<Rightarrow> mem res" where
  "note_text fb blob ft w text m =
     (let cx = wx w + 10; lim = wy w + wh w - 6 in
      rbind (note_loop fb blob ft cx lim (wy w + 6 + 18) [] text m) (\<lambda>(cy, line, m1).
        if line \<noteq> [] \<and> cy + psf_height ft < lim
        then draw_text fb blob ft cx cy (takeWhile (\<lambda>c. c \<noteq> 0) line) 0xFFE7EEF9 0xFF10161F m1 else Inr m1))"

definition note_button :: "fb_t \<Rightarrow> u8 list \<Rightarrow> font \<Rightarrow> int \<Rightarrow> int \<Rightarrow> string \<Rightarrow> ops" where
  "note_button fb blob ft bx by label =
     [ui_draw_hgrad_rect fb bx by 60 14 0xFF36445A 0xFF2A3446,
      draw_text fb blob ft (bx + 8) (by + 2) (cstr label) COLOR_ACCENT 0]"

definition title_button :: "fb_t \<Rightarrow> u8 list \<Rightarrow> font \<Rightarrow> int \<Rightarrow> int \<Rightarrow> int \<Rightarrow> string \<Rightarrow> ops" where
  "title_button fb blob ft bx by off label =
     [ui_draw_hgrad_rect fb bx by 18 14 0xFF3D4A60 0xFF2F3849,
      draw_text fb blob ft (bx + off) (by - 1) (cstr label) 0xFFE7EEF9 0]"

definition notepad_ops :: "fb_t \<Rightarrow> u8 list \<Rightarrow> font \<Rightarrow> notepad_t \<Rightarrow> ops" where
  "notepad_ops fb blob ft w =
     (let bx = wx w + ww w - 18 - 18 - 18 - 6; by = wy w - 20 in
      [draw_rect fb (wx w - 2) (wy w - 24) (ww w + 4) (wh w + 26) 0xFFE4DAFF,
       ui_draw_hgrad_rect fb (wx w) (wy w - 22) (ww w) 20 0xFF334155 0xFF273140,
       draw_format fb blob ft (wx w + 8) (wy w - 20) 64 ''Text Editor - %s''
         [Arg_str (if np_name w \<noteq> [] then np_name w else cstr ''(unnamed)'')] COLOR_ACCENT 0,
       ui_draw_hgrad_rect fb (wx w) (wy w) (ww w) 18 0xFF283243 0xFF222A38] @
      note_button fb blob ft (wx w + 6) (wy w + 2) ''New'' @
      note_button fb blob ft (wx w + 6 + 66) (wy w + 2) ''Open'' @
      note_button fb blob ft (wx w + 6 + 132) (wy w + 2) ''Save'' @
      title_button fb blob ft bx by 6 ''_'' @
      title_button fb blob ft (bx + 18 + 2) by 5 ''[]'' @
      close_ops fb blob ft (bx + 2 * (18 + 2)) by @
      [draw_rect fb (wx w) (wy w) (ww w) (wh w) 0xFF10161F,
       note_text fb blob ft w (np_buf w)])"

definition notepad_render :: "fb_t \<Rightarrow> u8 list \<Rightarrow> font \<Rightarrow> notepad_t \<Rightarrow> mem \<Rightarrow> (notepad_t \<times> mem) res" where
  "notepad_render fb blob ft w m =
     (if \<not> shown w then Inr (w, m)
      else rbind (run_ops (notepad_ops fb blob ft w) m) (\<lambda>m'.
        Inr (w\<lparr>np_last := (wx w, wy w, ww w, wh w), np_last_drawn := True\<rparr>, m')))"

subsection \<open>The file window\<close>

definition file_cell_ops :: "fb_t \<Rightarrow> u8 list \<Rightarrow> font \<Rightarrow> bool \<Rightarrow> int \<Rightarrow> int \<Rightarrow> desktop_item \<Rightarrow> ops" where
  "file_cell_ops fb blob ft selected cx cy it =
     (let bg = (if selected then 0xFF233043 else 0xFF0F141C); ic = (if d_attr it AND 0x10 \<noteq> 0 then 0xFF2F6FAB else 0xFF5E8C31)
      in [draw_rect fb cx cy (96 - 6) (80 - 6) bg,
          draw_rect fb (cx + 8) (cy + 8) 32 32 ic,
          draw_rect fb (cx + 8) (cy + 8) 32 1 0xFF000000,
          draw_rect fb (cx + 8) (cy + 8 + 32 - 1) 32 1 0xFF000000,
          draw_rect fb (cx + 8) (cy + 8) 1 32 0xFF000000,
          draw_rect fb (cx + 8 + 32 - 1) (cy + 8) 1 32 0xFF000000,
          draw_text fb blob ft (cx + 8) (cy + 32 + 14) (d_name it) 0xFFFFFFFF bg])"

definition file_cols :: "int \<Rightarrow> int" where
  "file_cols list_w = (if list_w sdiv 96 > 0 then list_w sdiv 96 else 1)"

definition file_side_ops :: "fb_t \<Rightarrow> u8 list \<Rightarrow> font \<Rightarrow> int \<Rightarrow> int \<Rightarrow> ops" where
  "file_side_ops fb blob ft sb_x sb_y =
     (let row_h = psf_height ft + 6; sy = sb_y + 6
      in [draw_text fb blob ft (sb_x + 10) sy (cstr ''Favorites'') 0xFF7FA5FF 0xFF15181C,
          draw_text fb blob ft (sb_x + 18) (sy + row_h) (cstr ''Desktop'') 0xFFFFFFFF 0xFF15181C,
          draw_text fb blob ft (sb_x + 18) (sy + row_h + row_h) (cstr ''Wallpaper'') 0xFFCCCCCC 0xFF15181C,
          draw_text fb blob ft (sb_x + 10) (sy + row_h + row_h + row_h * 2) (cstr ''This PC'') 0xFF7FA5FF 0xFF15181C,
          draw_text fb blob ft (sb_x + 18) (sy + row_h + row_h + row_h * 2 + row_h) (cstr ''ATA0'') 0xFFFFFFFF 0xFF15181C])"

definition filewin_ops :: "fb_t \<Rightarrow> u8 list \<Rightarrow> font \<Rightarrow> desktop_item list \<Rightarrow> u8 list \<Rightarrow> filewin_t \<Rightarrow> ops" where
  "filewin_ops fb blob ft items status w =
     (let bar = (if fw_path_focus w then 0xFF284B7A else 0xFF121925);
          list_x = wx w + 140 + 6; list_y = wy w + 22 + 4; list_w = ww w - 140 - 12; list_h = wh w - 22 - 8;
          cols = nat (file_cols list_w); cx = (\<lambda>i. list_x + int (i mod cols) * 96); cy = (\<lambda>i. list_y + int (i div cols) * 80)
      in frame_ops fb blob ft ''File Explorer'' 0xFF0F141C w @
         [ui_draw_hgrad_rect fb (wx w) (wy w) (ww w) 22 0xFF202A3A 0xFF1A2331,
          draw_rect fb (wx w + 8) (wy w + 4) (ww w - 16) (22 - 8) bar,
          draw_text fb blob ft (wx w + 12) (wy w + 6) (fw_path w) COLOR_TEXT bar,
          draw_rect fb (wx w) (wy w + 22) 140 (wh w - 22) 0xFF151A23] @
         file_side_ops fb blob ft (wx w) (wy w + 22) @
         [draw_rect fb (list_x - 2) (list_y - 2) (list_w + 4) (list_h + 4) 0xFF0E1116] @
         concat (map (\<lambda>i. file_cell_ops fb blob ft (int i = fw_selection w) (cx i) (cy i) (items ! i))
           (takeWhile (\<lambda>i. \<not> cy i + 80 > list_y + list_h) [0..<length items])) @
         (if status \<noteq> [] then [draw_text fb blob ft list_x (list_y + list_h - (psf_height ft + 4)) status 0xFF888888 0xFF0E1116] else []))"

definition filewin_render :: "fb_t \<Rightarrow> u8 list \<Rightarrow> font \<Rightarrow> desktop_item list \<Rightarrow> u8 list \<Rightarrow> filewin_t \<Rightarrow> mem \<Rightarrow> mem res" where
  "filewin_render fb blob ft items status w = (if \<not> shown w then Inr else run_ops (filewin_ops fb blob ft items status w))"

subsection \<open>The system monitor\<close>

definition used_percent :: "u32 \<Rightarrow> u32 \<Rightarrow> u32" where
  "used_percent used total_pages = (if total_pages \<noteq> 0 then (used * 100) div total_pages else 0)"

text \<open>A bar that shows a percentage, if it fits the window.\<close>

definition usage_bar :: "fb_t \<Rightarrow> 'a win_scheme \<Rightarrow> int \<Rightarrow> u32 \<Rightarrow> ops" where
  "usage_bar fb w bar_y pct =
     (let bar_x = wx w + 6; bar_w = (if ww w - 12 < 16 then 16 else ww w - 12); fillw = sint ((word_of_int bar_w * pct) div 100)
      in if bar_y + 10 \<le> wy w + wh w - 4
         then draw_rect fb bar_x bar_y bar_w 10 0xFF202020 #
              (if fillw > 0 then [ui_draw_bar_soft fb bar_x bar_y fillw 10 (ui_usage_color pct)] else [])
         else [])"

definition memory_ops :: "fb_t \<Rightarrow> u8 list \<Rightarrow> font \<Rightarrow> u32 \<Rightarrow> u32 \<Rightarrow> 'a win_scheme \<Rightarrow> ops \<times> int" where
  "memory_ops fb blob ft total_pages free_pages w =
     (let y = wy w + 6; used = (if total_pages > free_pages then total_pages - free_pages else 0); pct = used_percent used total_pages;
          bar_y = y + psf_height ft + 2
      in if total_pages = 0
         then ([draw_text fb blob ft (wx w + 6) y (cstr ''Memory: tracking unavailable'') 0xFFFFFFFF 0xFF000000], y + (psf_height ft + 4))
         else (draw_format fb blob ft (wx w + 6) y 96 ''Memory: %u / %u KB used (%u%%)'' [Arg_int (used * 4), Arg_int (total_pages * 4), Arg_int pct] 0xFFFFFFFF 0xFF000000 #
               usage_bar fb w bar_y pct, bar_y + 10 + 6))"

definition taskmgr_ops :: "fb_t \<Rightarrow> u8 list \<Rightarrow> font \<Rightarrow> u64 \<Rightarrow> u32 \<Rightarrow> u32 \<Rightarrow> u32 \<Rightarrow> max_win \<Rightarrow> ops" where
  "taskmgr_ops fb blob ft jiffies total_pages free_pages cpu w =
     (let (mem_ops, y) = memory_ops fb blob ft total_pages free_pages w;
          sec = ucast (jiffies div 100) :: u32; mi = sec div 60; hr = mi div 60; y2 = y + (psf_height ft + 4)
      in frame_ops fb blob ft ''System Monitor'' 0xFF0F141C w @ mem_ops @
         [draw_format fb blob ft (wx w + 6) y 96 ''Uptime: %u:%u:%u'' [Arg_int hr, Arg_int (mi mod 60), Arg_int (sec mod 60)] 0xFFFFFFFF 0xFF000000,
          draw_format fb blob ft (wx w + 6) y2 96 ''CPU: %u%%'' [Arg_int cpu] 0xFFFFFFFF 0xFF000000] @
         usage_bar fb w (y2 + psf_height ft + 2) cpu)"

definition taskmgr_render ::
  "fb_t \<Rightarrow> u8 list \<Rightarrow> font \<Rightarrow> pmm_env \<Rightarrow> u64 \<Rightarrow> max_win \<Rightarrow> pmm \<times> sched \<times> mem \<Rightarrow> (pmm \<times> sched \<times> mem) res" where
  "taskmgr_render fb blob ft env jiffies w st = (case st of (p, sc, m) \<Rightarrow>
     if \<not> shown w then Inr st else
     let (total_pages, p1) = pmm_total_count env p; (free_pages, p2) = pmm_free_count env p1; (cpu, sc1) = task_cpu_usage_percent sc
     in rbind (run_ops (taskmgr_ops fb blob ft jiffies total_pages free_pages cpu w) m) (\<lambda>m'. Inr (p2, sc1, m')))"

subsection \<open>Display settings, terminal, image viewer, sound player\<close>

text \<open>\<open>boot\<close> holds width, height, depth and pitch from the boot information.\<close>

definition display_ops :: "fb_t \<Rightarrow> u8 list \<Rightarrow> font \<Rightarrow> u32 \<times> u32 \<times> u32 \<times> u32 \<Rightarrow> max_win \<Rightarrow> ops" where
  "display_ops fb blob ft boot w = (case boot of (bw, bh, bpp, pitch) \<Rightarrow>
     let row_h = psf_height ft + 4; y = wy w + 6; x = wx w + 6
     in frame_ops fb blob ft ''Display Settings'' 0xFF0F141C w @
        [draw_format fb blob ft x y 96 ''Current resolution: %ux%u, %u bpp'' [Arg_int bw, Arg_int bh, Arg_int bpp] 0xFFFFFFFF 0xFF000000,
         draw_format fb blob ft x (y + row_h) 96 ''Framebuffer pitch: %u bytes/line'' [Arg_int pitch] 0xFFCCCCCC 0xFF000000,
         draw_text fb blob ft x (y + row_h + row_h) (cstr ''Runtime resolution change is not implemented yet.'') 0xFFAAAAAA 0xFF000000,
         draw_text fb blob ft x (y + row_h + row_h + row_h) (cstr ''Change video mode via bootloader/firmware settings.'') 0xFF888888 0xFF000000])"

definition display_render :: "fb_t \<Rightarrow> u8 list \<Rightarrow> font \<Rightarrow> u32 \<times> u32 \<times> u32 \<times> u32 \<Rightarrow> max_win \<Rightarrow> mem \<Rightarrow> mem res" where
  "display_render fb blob ft boot w = (if \<not> shown w then Inr else run_ops (display_ops fb blob ft boot w))"

definition terminal_ops :: "fb_t \<Rightarrow> u8 list \<Rightarrow> font \<Rightarrow> max_win \<Rightarrow> ops" where
  "terminal_ops fb blob ft w =
     (let x = wx w + 8; y = wy w + 8; y1 = y + (psf_height ft + 4)
      in frame_ops fb blob ft ''Terminal'' 0xFF0C111A w @
         [draw_text fb blob ft x y (cstr ''ParanOS Terminal (stub)'') COLOR_ACCENT 0xFF0C111A,
          draw_text fb blob ft x y1 (cstr ''Shell not implemented yet.'') COLOR_TEXT 0xFF0C111A,
          draw_text fb blob ft x (y1 + (psf_height ft + 2)) (cstr ''Future: command runner / system shell.'') 0xFF9AA5B8 0xFF0C111A])"

definition terminal_render :: "fb_t \<Rightarrow> u8 list \<Rightarrow> font \<Rightarrow> max_win \<Rightarrow> mem \<Rightarrow> mem res" where
  "terminal_render fb blob ft w = (if \<not> shown w then Inr else run_ops (terminal_ops fb blob ft w))"

text \<open>A conversion to \<open>int\<close>.\<close>

definition cast32 :: "int \<Rightarrow> int" where
  "cast32 v = sint (word_of_int v :: u32)"

definition img_fit :: "int \<Rightarrow> int \<Rightarrow> int \<Rightarrow> int \<Rightarrow> int \<times> int" where
  "img_fit avail_w avail_h iw ih =
     (let draw_h = cast32 ((ih * avail_w) div iw)
      in if draw_h > avail_h then (cast32 ((iw * avail_h) div ih), avail_h) else (avail_w, draw_h))"

definition img_px ::
  "fb_t \<Rightarrow> u32 list \<Rightarrow> int \<Rightarrow> int \<Rightarrow> int \<Rightarrow> int \<Rightarrow> int \<Rightarrow> int \<Rightarrow> int \<Rightarrow> int \<Rightarrow> mem \<Rightarrow> mem res" where
  "img_px fb img iw ih draw_w draw_h dx dy y x m =
     (let sy = cast32 (y * ih div draw_h); sx = cast32 (x * iw div draw_w)
      in rbind (i32 (sy * iw)) (\<lambda>r. rbind (i32 (r + sx)) (\<lambda>i. rbind (img_pixel img i) (\<lambda>px. fb_putpixel fb (dx + x) (dy + y) px m))))"

definition picture :: "fb_t \<Rightarrow> u32 list \<Rightarrow> int \<Rightarrow> int \<Rightarrow> 'a win_scheme \<Rightarrow> mem \<Rightarrow> mem res" where
  "picture fb img iw ih w =
     (if ww w - 16 > 0 \<and> wh w - 16 > 0 then
        case img_fit (ww w - 16) (wh w - 16) iw ih of (draw_w, draw_h) \<Rightarrow>
        let dx0 = wx w + (ww w - draw_w) sdiv 2; dy0 = wy w + (wh w - draw_h) sdiv 2;
            dx = (if dx0 < wx w then wx w else dx0); dy = (if dy0 < wy w then wy w else dy0)
        in rfold (\<lambda>y. rfold (img_px fb img iw ih draw_w draw_h dx dy y) [0..draw_w - 1]) [0..draw_h - 1]
      else Inr)"

definition imgview_ops :: "fb_t \<Rightarrow> u8 list \<Rightarrow> font \<Rightarrow> imgview_t \<Rightarrow> ops" where
  "imgview_ops fb blob ft w =
     frame_ops fb blob ft ''Image Viewer'' 0xFF0F141C w @
     [case iv_img w of
        Some img \<Rightarrow> if img_w w > 0 \<and> img_h w > 0 then picture fb img (img_w w) (img_h w) w
                    else draw_text fb blob ft (wx w + 8) (wy w + 8) (cstr ''No image loaded'') 0xFFB0B6BF 0xFF0C1016
      | None \<Rightarrow> draw_text fb blob ft (wx w + 8) (wy w + 8) (cstr ''No image loaded'') 0xFFB0B6BF 0xFF0C1016]"

definition imgview_render :: "fb_t \<Rightarrow> u8 list \<Rightarrow> font \<Rightarrow> imgview_t \<Rightarrow> mem \<Rightarrow> mem res" where
  "imgview_render fb blob ft w = (if \<not> shown w then Inr else run_ops (imgview_ops fb blob ft w))"

definition wavplay_ops :: "fb_t \<Rightarrow> u8 list \<Rightarrow> font \<Rightarrow> wavplay_t \<Rightarrow> ops" where
  "wavplay_ops fb blob ft w =
     (let btn_y = wy w + 12; y = btn_y + 22 + 10; x = wx w + 12
      in frame_ops fb blob ft ''WAV Player'' 0xFF0F141C w @
         [ui_draw_hgrad_rect fb x btn_y 96 22 0xFF33455D 0xFF2A3546,
          draw_text fb blob ft (x + 10) (btn_y + 4) (cstr ''Open WAV'') COLOR_TEXT 0,
          ui_draw_hgrad_rect fb (x + 96 + 10) btn_y 96 22 0xFF33455D 0xFF2A3546,
          draw_text fb blob ft (x + 96 + 10 + 14) (btn_y + 4) (cstr ''Play'') COLOR_TEXT 0,
          draw_text fb blob ft x y (cstr ''File:'') COLOR_ACCENT 0,
          draw_text fb blob ft x (y + (psf_height ft + 4)) (if wp_name w \<noteq> [] then wp_name w else cstr ''(none)'') COLOR_TEXT 0])"

definition wavplay_render :: "fb_t \<Rightarrow> u8 list \<Rightarrow> font \<Rightarrow> wavplay_t \<Rightarrow> mem \<Rightarrow> mem res" where
  "wavplay_render fb blob ft w = (if \<not> shown w then Inr else run_ops (wavplay_ops fb blob ft w))"

subsection \<open>Menus\<close>

definition panel_ops :: "fb_t \<Rightarrow> int \<Rightarrow> int \<Rightarrow> int \<Rightarrow> int \<Rightarrow> ops" where
  "panel_ops fb x y w h = [draw_rect fb x y w h COLOR_BORDER, draw_rect fb (x + 1) (y + 1) (w - 2) (h - 2) COLOR_SURFACE]"

text \<open>One line of a menu, lighter under the mouse: \<open>h\<close> is its height for the mouse, \<open>bar_h\<close> that of the bar drawn,
  \<open>inset\<close> the distance of the bar from the sides and \<open>(tx, ty)\<close> that of the text.\<close>

definition menu_item ::
  "fb_t \<Rightarrow> u8 list \<Rightarrow> font \<Rightarrow> int \<Rightarrow> int \<Rightarrow> int \<Rightarrow> int \<Rightarrow> int \<Rightarrow> int \<Rightarrow> int \<Rightarrow> int \<Rightarrow> int \<Rightarrow> int \<Rightarrow> u8 list \<Rightarrow> ops" where
  "menu_item fb blob ft mx my x w iy h inset bar_h tx ty label =
     (let bg = (if point_in_rect mx my x iy w h then 0xFFE8F0FB else COLOR_SURFACE)
      in [draw_rect fb (x + inset) iy (w - 2 * inset) bar_h bg, draw_text fb blob ft (x + tx) (iy + ty) label COLOR_TEXT_DARK bg])"

definition ctx_menu_ops :: "fb_t \<Rightarrow> u8 list \<Rightarrow> font \<Rightarrow> int \<Rightarrow> int \<Rightarrow> int \<Rightarrow> int \<Rightarrow> int \<Rightarrow> int \<Rightarrow> u8 list list \<Rightarrow> ops" where
  "ctx_menu_ops fb blob ft mx my x0 y0 w h labels =
     (let x = clamp_edge (fb_width fb) w x0; y = clamp_edge (fb_height fb) h y0
      in panel_ops fb x y w h @
         concat (map (\<lambda>i. menu_item fb blob ft mx my x w (y + 4 + int i * 24) 24 3 (24 - 4) 10 4 (labels ! i)) [0..<length labels]))"

definition launch_menu_ops :: "fb_t \<Rightarrow> u8 list \<Rightarrow> font \<Rightarrow> int \<Rightarrow> int \<Rightarrow> int \<Rightarrow> int \<Rightarrow> u8 list list \<Rightarrow> ops" where
  "launch_menu_ops fb blob ft mx my x y names =
     panel_ops fb x y 220 (26 * int (length names) + 12) @
     concat (map (\<lambda>i. menu_item fb blob ft mx my x 220 (y + 6 + int i * 26) 26 4 (26 - 2) 12 6 (names ! i)) [0..<length names])"

definition info_ops :: "fb_t \<Rightarrow> u8 list \<Rightarrow> font \<Rightarrow> int \<Rightarrow> int \<Rightarrow> desktop_item \<Rightarrow> ops" where
  "info_ops fb blob ft x y it =
     panel_ops fb x y 160 40 @
     [draw_format fb blob ft (x + 6) (y + 6) 32 ''%s'' [Arg_str (d_name it)] COLOR_TEXT_DARK COLOR_SURFACE,
      draw_format fb blob ft (x + 6) (y + 20) 32 ''%s'' [Arg_str (if d_attr it AND 0x10 \<noteq> 0 then cstr ''<DIR>'' else cstr ''FILE'')]
        COLOR_TEXT_DARK COLOR_SURFACE]"

text \<open>\<open>(fb.width > w) ? (int)(fb.width - w) / 2 : 0\<close>\<close>

definition centre :: "u32 \<Rightarrow> int \<Rightarrow> int" where
  "centre screen w = (if screen > word_of_int w then sint (screen - word_of_int w) sdiv 2 else 0)"

definition prompt_ops :: "fb_t \<Rightarrow> u8 list \<Rightarrow> font \<Rightarrow> u8 list \<Rightarrow> u8 list \<Rightarrow> ops" where
  "prompt_ops fb blob ft title buf =
     (let w = 260; h = 70; x = centre (fb_width fb) w; y = centre (fb_height fb) h
      in panel_ops fb x y w h @
         [draw_text fb blob ft (x + 10) (y + 8) title COLOR_TEXT_DARK COLOR_SURFACE,
          draw_rect fb (x + 10) (y + 28) (w - 20) 28 COLOR_SURFACE,
          draw_rect fb (x + 10) (y + 28) (w - 20) 1 COLOR_BORDER,
          draw_rect fb (x + 10) (y + 28 + 27) (w - 20) 1 COLOR_BORDER,
          draw_text fb blob ft (x + 16) (y + 34) buf COLOR_TEXT_DARK COLOR_SURFACE,
          draw_text fb blob ft (x + 10) (y + 60) (cstr ''Enter to create, click anywhere to confirm'') COLOR_TEXT_DARK COLOR_SURFACE])"

text \<open>The titles of the top menu: their names, left edges and widths.\<close>

definition topmenu_layout_titles :: "font \<Rightarrow> (u8 list \<times> int \<times> int) list" where
  "topmenu_layout_titles ft =
     (let w = (\<lambda>t. int (length t) * psf_width ft + 12); file = cstr ''File''; window = cstr ''Window''
      in [(file, 96, w file), (window, 96 + (w file + 14), w window)])"

definition topmenu_labels :: "int \<Rightarrow> u8 list list" where
  "topmenu_labels i =
     (if i = 0 then [cstr ''New'', cstr ''Open...'', cstr ''Save'', cstr ''Save As...'', cstr ''Close'']
      else [cstr ''Minimize'', cstr ''Toggle Maximize''])"

definition max_length :: "u8 list list \<Rightarrow> int" where
  "max_length labels = fold (\<lambda>l n. if int (length l) > n then int (length l) else n) labels 0"

text \<open>The place of the open menu: left edge and width.\<close>

definition topmenu_box :: "fb_t \<Rightarrow> font \<Rightarrow> int \<Rightarrow> int \<times> int" where
  "topmenu_box fb ft which =
     (let menu_w = max_length (topmenu_labels which) * psf_width ft + 24; x = fst (snd (topmenu_layout_titles ft ! nat which))
      in (if x + menu_w > sint (fb_width fb) then sint (fb_width fb) - menu_w - 6 else x, menu_w))"

definition title_ops :: "fb_t \<Rightarrow> u8 list \<Rightarrow> font \<Rightarrow> bool \<Rightarrow> u8 list \<times> int \<times> int \<Rightarrow> ops" where
  "title_ops fb blob ft lit t = (case t of (title, x, w) \<Rightarrow>
     let bg = (if lit then 0xFFE3EBF8 else COLOR_SURFACE)
     in [draw_rect fb x 4 w (TOPBAR_H - 8) bg, draw_text fb blob ft (x + 6) 6 title COLOR_TEXT_DARK bg])"

definition in_title :: "int \<Rightarrow> int \<Rightarrow> u8 list \<times> int \<times> int \<Rightarrow> bool" where
  "in_title mx my t = (case t of (_, x, w) \<Rightarrow> my \<ge> 0 \<and> my < TOPBAR_H \<and> mx \<ge> x \<and> mx < x + w)"

text \<open>The last index with the property, -1 if there is none: what a loop leaves that goes on after a hit.\<close>

definition last_index :: "(nat \<Rightarrow> bool) \<Rightarrow> nat \<Rightarrow> int" where
  "last_index P n = (case find P (rev [0..<n]) of None \<Rightarrow> -1 | Some i \<Rightarrow> int i)"

text \<open>A title is lit when its menu is open or the mouse is on it: \<open>g_topmenu_hover\<close> is then already set.\<close>

definition topmenu_ops :: "fb_t \<Rightarrow> u8 list \<Rightarrow> font \<Rightarrow> int \<Rightarrow> int \<Rightarrow> int \<Rightarrow> ops" where
  "topmenu_ops fb blob ft mx my which =
     (let ts = topmenu_layout_titles ft
      in concat (map (\<lambda>i. title_ops fb blob ft (which = int i \<or> in_title mx my (ts ! i)) (ts ! i)) [0..<length ts]) @
         (if which \<ge> 0
          then let labels = topmenu_labels which; (menu_x, menu_w) = topmenu_box fb ft which
               in panel_ops fb menu_x TOPBAR_H menu_w (int (length labels) * 20 + 8) @
                  concat (map (\<lambda>i. menu_item fb blob ft mx my menu_x menu_w (TOPBAR_H + 4 + int i * 20) 20 2 (20 - 2) 8 3 (labels ! i))
                    [0..<length labels])
          else []))"

definition topmenu_hovered :: "fb_t \<Rightarrow> font \<Rightarrow> int \<Rightarrow> int \<Rightarrow> int \<Rightarrow> int" where
  "topmenu_hovered fb ft mx my which =
     (case topmenu_box fb ft which of (menu_x, menu_w) \<Rightarrow>
      last_index (\<lambda>i. point_in_rect mx my menu_x (TOPBAR_H + 4 + int i * 20) menu_w 20) (length (topmenu_labels which)))"

subsection \<open>Taskbar shortcuts, clock, boot animation\<close>

abbreviation quick_launch_colors :: "u32 list" where "quick_launch_colors \<equiv> [0xFF4C8DFF, 0xFF5FCFA0, 0xFFB689FF, 0xFF63C6E0]"

definition shortcut_ops :: "fb_t \<Rightarrow> int \<Rightarrow> int \<Rightarrow> u32 \<Rightarrow> ops" where
  "shortcut_ops fb bx by c =
     [ui_fill_round_rect fb bx by 28 28 8 COLOR_SURFACE,
      draw_rect fb bx by 28 1 COLOR_BORDER,
      draw_rect fb bx (by + 28 - 1) 28 1 COLOR_BORDER,
      draw_rect fb bx by 1 28 COLOR_BORDER,
      draw_rect fb (bx + 28 - 1) by 1 28 COLOR_BORDER,
      ui_fill_round_rect fb (bx + 6) (by + 6) (28 - 12) (28 - 12) 6 c]"

text \<open>The operations and \<open>*next_start_x\<close>.\<close>

definition taskbar_draw_shortcuts :: "fb_t \<Rightarrow> int \<Rightarrow> int \<Rightarrow> int \<Rightarrow> ops \<times> int" where
  "taskbar_draw_shortcuts fb x y h =
     (let bx = (\<lambda>i. x + 6 + int i * (28 + 6)); by = y + (h - 28) sdiv 2
      in (concat (map (\<lambda>i. shortcut_ops fb (bx i) by (quick_launch_colors ! i)) [0..<4]), bx 4 + 6))"

definition clock_ops :: "fb_t \<Rightarrow> u8 list \<Rightarrow> font \<Rightarrow> rtc_time_t \<Rightarrow> ops" where
  "clock_ops fb blob ft now =
     (let wpx = psf_width ft * 8; hpx = psf_height ft; x = sint (fb_width fb - word_of_int wpx - 8); x0 = (if x < 0 then 0 else x)
      in [draw_rect fb (x0 - 4) (6 - 2) (wpx + 8) (hpx + 4) 0xFF2A2A2A,
          draw_text fb blob ft x0 6 (takeWhile (\<lambda>c. c \<noteq> 0) (rtc_format now)) 0xFFFFFFFF 0xFF2A2A2A])"

definition orbit :: "(int \<times> int) list" where
  "orbit = [(60, 0), (45, 45), (0, 60), (- 45, 45), (- 60, 0), (- 45, - 45), (0, - 60), (45, - 45),
            (60, 0), (45, 45), (0, 60), (- 45, 45), (- 60, 0), (- 45, - 45), (0, - 60), (45, - 45)]"

definition boot_anim_ops :: "fb_t \<Rightarrow> u8 list \<Rightarrow> font \<Rightarrow> u64 \<Rightarrow> ops" where
  "boot_anim_ops fb blob ft t =
     (let cx = sint (fb_width fb) sdiv 2; cy = sint (fb_height fb) sdiv 2; phase = unat (t mod 16)
      in [ui_draw_hgrad_rect fb 0 0 (sint (fb_width fb)) (sint (fb_height fb)) 0xFF0A1018 0xFF05080D] @
         map (\<lambda>i. case orbit ! ((phase + i * 2) mod 16) of (ox, oy) \<Rightarrow> draw_rect fb (cx + ox - 6) (cy + oy - 6) 12 12 0xFF2F6FAB) [0..<8] @
         [draw_rect fb (cx - 40) (cy - 2) (40 * 2) 4 0xFF5E8C31,
          draw_text fb blob ft (cx - 40) (cy + 30) (cstr ''Loading...'') 0xFFB0BECF 0xFF0A1018])"

definition boot_anim_render ::
  "fb_t \<Rightarrow> u8 list \<Rightarrow> font \<Rightarrow> cursor \<Rightarrow> bool \<Rightarrow> int \<Rightarrow> int \<Rightarrow> u64 \<Rightarrow> mem \<Rightarrow> mem res" where
  "boot_anim_render fb blob ft cu fb_ready mx my t =
     (if \<not> fb_ready then Inr else run_ops (boot_anim_ops fb blob ft t @ [fb_draw_cursor fb cu mx my, fb_flush fb]))"

subsection \<open>The login screen\<close>

record login_layout_t =
  lo_px :: int
  lo_py :: int
  lo_pw :: int
  lo_ph :: int
  card_x :: int
  card_w :: int
  card_h :: int
  card_gap :: int
  list_y :: int
  pw_x :: int
  pw_y :: int
  pw_w :: int
  pw_h :: int
  btn_x :: int
  btn_y :: int
  btn_w :: int
  btn_h :: int

definition login_layout_compute :: "fb_t \<Rightarrow> login_layout_t" where
  "login_layout_compute fb =
     (let w0 = (if fb_width fb > 420 then 420 else sint (fb_width fb) - 20); pw = (if w0 < 260 then 260 else w0); ph = 220;
          px = sint (fb_width fb - word_of_int pw) sdiv 2; py = sint (fb_height fb - word_of_int ph) sdiv 2;
          cw = pw - 24; cx = px + 12; pwy = py + ph - 72
      in \<lparr>lo_px = px, lo_py = py, lo_pw = pw, lo_ph = ph, card_x = cx, card_w = cw, card_h = 32, card_gap = 8, list_y = py + 36,
          pw_x = cx, pw_y = pwy, pw_w = cw - 110, pw_h = 28, btn_x = cx + cw - 90, btn_y = pwy, btn_w = 90, btn_h = 28\<rparr>)"

definition card_ops :: "fb_t \<Rightarrow> u8 list \<Rightarrow> font \<Rightarrow> login_layout_t \<Rightarrow> 'd session \<Rightarrow> nat \<Rightarrow> ops" where
  "card_ops fb blob ft lo s i =
     (let cy = list_y lo + int i * (card_h lo + card_gap lo); base0 = (if int i = g_login_selected s then 0xFF2F6FAB else 0xFF1F2329);
          base = (if int i = g_login_hover s \<and> int i \<noteq> g_login_selected s then 0xFF26303A else base0)
      in [draw_rect fb (card_x lo) cy (card_w lo) (card_h lo) base,
          draw_text fb blob ft (card_x lo + 10) (cy + 10) (u_name (g_users s ! i)) 0xFFFFFFFF base])"

definition login_ops :: "fb_t \<Rightarrow> u8 list \<Rightarrow> font \<Rightarrow> 'd session \<Rightarrow> ops" where
  "login_ops fb blob ft s =
     (let lo = login_layout_compute fb; pw_bg = (if g_login_pw_focus s then 0xFF1F6FB0 else 0xFF1A1E24)
      in [ui_draw_hgrad_rect fb 0 0 (sint (fb_width fb)) (sint (fb_height fb)) 0xFF0E141D 0xFF060A10,
          ui_draw_hgrad_rect fb (lo_px lo - 12) (lo_py lo - 12) (lo_pw lo + 24) (lo_ph lo + 24) 0x221F6CAB 0x001F6CAB,
          draw_rect fb (lo_px lo) (lo_py lo) (lo_pw lo) (lo_ph lo) 0xFF10141A,
          draw_rect fb (lo_px lo) (lo_py lo) (lo_pw lo) 2 0xFF35507A,
          draw_text fb blob ft (lo_px lo + 12) (lo_py lo + 10) (cstr ''Welcome'') 0xFFFFFFFF 0xFF10141A] @
         concat (map (card_ops fb blob ft lo s) [0..<length (g_users s)]) @
         [draw_text fb blob ft (card_x lo) (pw_y lo - 16) (cstr ''Password'') 0xFFB0B6BF 0xFF111417,
          draw_rect fb (pw_x lo) (pw_y lo) (pw_w lo) (pw_h lo) pw_bg,
          draw_text fb blob ft (pw_x lo + 8) (pw_y lo + 8) (replicate (min (length (g_login_pw s)) 31) 0x2A) 0xFFFFFFFF pw_bg,
          draw_rect fb (btn_x lo) (btn_y lo) (btn_w lo) (btn_h lo) 0xFF3B9D4A,
          draw_text fb blob ft (btn_x lo + 16) (btn_y lo + 8) (cstr ''Login'') 0xFFFFFFFF 0xFF3B9D4A,
          draw_text fb blob ft (card_x lo) (lo_py lo + lo_ph lo - 26) (g_login_message s) 0xFFB0B6BF 0xFF111417])"

definition login_render ::
  "fb_t \<Rightarrow> u8 list \<Rightarrow> font \<Rightarrow> cursor \<Rightarrow> int \<Rightarrow> int \<Rightarrow> 'd session \<times> mem \<Rightarrow> ('d session \<times> mem) res" where
  "login_render fb blob ft cu mx my st = (case st of (s, m) \<Rightarrow>
     rbind (run_ops (login_ops fb blob ft s @ [fb_draw_cursor fb cu mx my, fb_flush fb]) m) (\<lambda>m'. Inr (s\<lparr>g_login_dirty := False\<rparr>, m')))"

end
