(* ===== verification/Paint_Safe.thy ===== *)
theory Paint_Safe
  imports Window_Paint
begin

text \<open>
  Painting never leaves the frame: the drawing sequences of \<open>Window_Paint\<close> never fault on a mapped frame and write only to
  the buffer they draw to, for windows that are on the screen.
\<close>

section \<open>Painting stays inside the frame\<close>

lemma draws_label:
  assumes "font_ok blob ft" and "length t \<le> 127" and "- (2 ^ 20) \<le> x" "x \<le> 2 ^ 20" and "- (2 ^ 20) \<le> y" "y \<le> 2 ^ 20"
  shows "draws fb (draw_text fb blob ft x y t fg bg)"
proof -
  have "g_w ft * int (length t) \<le> 2 ^ 16 * 127" using assms(1,2) by (intro mult_mono) (auto simp: font_ok_def)
  then show ?thesis using assms by (intro draws_text [OF assms(1)]) (auto simp: span_ok_def font_ok_def)
qed

lemma draws_box: "- (2 ^ 20) \<le> x \<Longrightarrow> x \<le> 2 ^ 20 \<Longrightarrow> - (2 ^ 20) \<le> w \<Longrightarrow> w \<le> 2 ^ 20 \<Longrightarrow> - (2 ^ 20) \<le> y \<Longrightarrow> y \<le> 2 ^ 20 \<Longrightarrow>
    - (2 ^ 24) \<le> h \<Longrightarrow> h \<le> 2 ^ 20 \<Longrightarrow> draws fb (draw_rect fb x y w h c)"
  by (intro draws_rect) (auto simp: int_range_def)

lemma draws_grad: "- (2 ^ 20) \<le> x \<Longrightarrow> x \<le> 2 ^ 20 \<Longrightarrow> w \<le> 2 ^ 20 \<Longrightarrow> - (2 ^ 20) \<le> y \<Longrightarrow> y \<le> 2 ^ 20 \<Longrightarrow> h \<le> 2 ^ 20 \<Longrightarrow>
    draws fb (ui_draw_hgrad_rect fb x y w h c0 c1)"
  by (intro draws_hgrad) (auto simp: small_def)

lemmas paint_rules = draws_ops_Nil draws_ops_Cons draws_box draws_grad draws_label

lemma itoa_dec_short: "\<exists>ds. itoa_dec v = Inr ds \<and> length ds \<le> 16"
proof (cases "v = 0")
  case False
  obtain tmp where "digit_loop 16 (\<lambda>v. 0x30 + ucast (v mod 10)) (\<lambda>v. v div 10) v [] = Inr tmp" "length tmp \<le> 16" by (rule dec.printed [OF False])
  then show ?thesis using False by (simp add: itoa_dec_def)
qed (simp add: itoa_dec_def)

text \<open>A format whose text fits its array.\<close>

lemma draws_format:
  assumes "\<exists>n line. sprintf cap (cstr fmt) args = Inr (n, line) \<and> length line \<le> 127" and "font_ok blob ft"
    and "- (2 ^ 20) \<le> x" "x \<le> 2 ^ 20" and "- (2 ^ 20) \<le> y" "y \<le> 2 ^ 20"
  shows "draws fb (draw_format fb blob ft x y cap fmt args fg bg)"
proof -
  from assms(1) obtain n line where "sprintf cap (cstr fmt) args = Inr (n, line)" "length line \<le> 127" by blast
  moreover from this have "draw_format fb blob ft x y cap fmt args fg bg = draw_text fb blob ft x y line fg bg"
    by (intro ext) (simp add: draw_format_def)
  ultimately show ?thesis using draws_label [OF assms(2)] assms by simp
qed

text \<open>Windows on a screen have coordinates far from the ends of the integers.\<close>

definition near_win :: "'a win_scheme \<Rightarrow> bool" where
  "near_win w \<longleftrightarrow> 0 \<le> wx w \<and> wx w \<le> 2 ^ 16 \<and> 0 \<le> wy w \<and> wy w \<le> 2 ^ 16 \<and> 0 < ww w \<and> ww w \<le> 2 ^ 16 \<and> 0 < wh w \<and> wh w \<le> 2 ^ 16"

lemma near_win: "desk_screen fb \<Longrightarrow> on_screen fb w \<Longrightarrow> win_open w \<Longrightarrow> near_win w"
  by (auto simp: near_win_def on_screen_def rect_on_def desk_screen_def)

lemma max_near_win: "desk_screen fb \<Longrightarrow> max_on_screen fb w \<Longrightarrow> win_open w \<Longrightarrow> near_win w"
  by (auto simp: near_win_def max_on_screen_def rect_on_def desk_screen_def)

lemma font_height: "font_ok blob ft \<Longrightarrow> 0 < g_h ft \<and> g_h ft < 2 ^ 16 \<and> 0 < g_w ft \<and> g_w ft < 2 ^ 16"
  by (simp add: font_ok_def)

lemma frame_draws:
  assumes "near_win w" and "font_ok blob ft" and "length title \<le> 20"
  shows "draws fb (run_ops (frame_ops fb blob ft title body w))"
  unfolding frame_ops_def close_ops_def append.simps using assms
  by (intro paint_rules) (simp_all add: near_win_def)

subsection \<open>The editor\<close>

lemma note_loop_draws:
  assumes f: "font_ok blob ft" and cx: "- (2 ^ 20) \<le> cx" "cx \<le> 2 ^ 20" and lim: "lim \<le> 2 ^ 20"
  shows "length line \<le> 120 \<Longrightarrow> - (2 ^ 20) \<le> cy \<Longrightarrow> cy \<le> lim + 2 \<Longrightarrow> fb_ok fb (draw_base fb) m \<Longrightarrow>
    \<exists>cy' line' m'. note_loop fb blob ft cx lim cy line body m = Inr (cy', line', m') \<and> length line' \<le> 120 \<and>
      - (2 ^ 20) \<le> cy' \<and> same_outside fb (draw_base fb) m m'"
proof (induction body arbitrary: cy line m)
  case (Cons c cs)
  note h = font_height [OF f]
  show ?case
  proof (cases "\<not> cy + g_h ft < lim")
    case False
    show ?thesis
    proof (cases "c = NEWLINE \<or> length line \<ge> 120")
      case True
      have "length (takeWhile (\<lambda>c. c \<noteq> 0) line) \<le> 127" using Cons.prems(1) length_takeWhile_le [of "\<lambda>c. c \<noteq> 0" line] by linarith
      then have "draws fb (draw_text fb blob ft cx cy (takeWhile (\<lambda>c. c \<noteq> 0) line) 0xFFE7EEF9 0xFF10161F)"
        using Cons.prems lim cx False h by (intro draws_label [OF f]) auto
      from drawsD [OF this Cons.prems(4)] obtain m1 where
        m1: "draw_text fb blob ft cx cy (takeWhile (\<lambda>c. c \<noteq> 0) line) 0xFFE7EEF9 0xFF10161F m = Inr m1"
          "same_outside fb (draw_base fb) m m1" "fb_ok fb (draw_base fb) m1" .
      from Cons.IH [of "[]" "cy + (g_h ft + 2)" m1] m1(3) False h Cons.prems obtain cy' line' m' where
        "note_loop fb blob ft cx lim (cy + (g_h ft + 2)) [] cs m1 = Inr (cy', line', m')" "length line' \<le> 120" "- (2 ^ 20) \<le> cy'"
          "same_outside fb (draw_base fb) m1 m'" by auto
      then show ?thesis using m1 True False same_outside_trans [OF m1(2)] by simp
    next
      case F: False
      then show ?thesis using Cons.IH [of "line @ [c]" cy m] Cons.prems False by simp
    qed
  qed (use Cons.prems in simp)
qed simp

lemma note_text_draws:
  assumes f: "font_ok blob ft" and w: "near_win w"
  shows "draws fb (note_text fb blob ft w body)"
proof (rule drawsI)
  fix m assume m: "fb_ok fb (draw_base fb) m"
  have b: "wx w + 10 \<le> 2 ^ 20" "wy w + wh w - 6 \<le> 2 ^ 18" "0 \<le> wx w" "0 \<le> wy w" using w by (simp_all add: near_win_def)
  show "\<exists>m'. note_text fb blob ft w body m = Inr m' \<and> same_outside fb (draw_base fb) m m'"
  proof (cases "wy w + 6 + 18 \<le> wy w + wh w - 6 + 2")
    case True
    from note_loop_draws [OF f, of "wx w + 10" "wy w + wh w - 6" "[]" "wy w + 6 + 18" fb m body] m True b
    obtain cy line m1 where r: "note_loop fb blob ft (wx w + 10) (wy w + wh w - 6) (wy w + 6 + 18) [] body m = Inr (cy, line, m1)"
      "length line \<le> 120" "- (2 ^ 20) \<le> cy" "same_outside fb (draw_base fb) m m1" by auto
    have "length (takeWhile (\<lambda>c. c \<noteq> 0) line) \<le> 127" using r(2) length_takeWhile_le [of "\<lambda>c. c \<noteq> 0" line] by linarith
    then have "draws fb (draw_text fb blob ft (wx w + 10) cy (takeWhile (\<lambda>c. c \<noteq> 0) line) 0xFFE7EEF9 0xFF10161F)"
      if "cy + g_h ft < wy w + wh w - 6" using r(3) that b font_height [OF f] by (intro draws_label [OF f]) auto
    then show ?thesis using r fb_ok_same [OF m r(4)] drawsD same_outside_trans [OF r(4)]
      by (auto simp: note_text_def Let_def elim!: drawsD)
  next
    case False
    then have "\<not> wy w + 6 + 18 + g_h ft < wy w + wh w - 6" using font_height [OF f] by linarith
    then show ?thesis by (cases body) (simp_all add: note_text_def Let_def)
  qed
qed

lemma sprintf_str:
  assumes "length s + length (cstr pre) < cap" and "PERCENT \<notin> set (cstr pre)"
  shows "sprintf cap (cstr pre @ [PERCENT, 0x73]) [Arg_str s] = Inr (int (length (cstr pre @ s)), cstr pre @ s)"
proof -
  have "sprintf_loop (p @ [PERCENT, 0x73]) [Arg_str s] = Inr (p @ s)" if "PERCENT \<notin> set p" for p
    using that by (induction p) (auto simp: convert_def sprintf_loop_Lit)
  from this [OF assms(2)] show ?thesis using assms(1) by (simp add: sprintf_def)
qed

lemma notepad_draws:
  assumes w: "near_win w" and f: "font_ok blob ft" and n: "length (np_name w) \<le> 12"
  shows "draws fb (run_ops (notepad_ops fb blob ft w))"
proof -
  let ?nm = "if np_name w \<noteq> [] then np_name w else cstr ''(unnamed)''"
  have "cstr ''Text Editor - %s'' = cstr ''Text Editor - '' @ [PERCENT, 0x73]" by (simp add: cstr_def)
  then have "sprintf 64 (cstr ''Text Editor - %s'') [Arg_str ?nm] = Inr (int (length (cstr ''Text Editor - '' @ ?nm)), cstr ''Text Editor - '' @ ?nm)"
    using sprintf_str [of ?nm "''Text Editor - ''" 64] n by (auto simp: cstr_def)
  then have s: "\<exists>k line. sprintf 64 (cstr ''Text Editor - %s'') [Arg_str ?nm] = Inr (k, line) \<and> length line \<le> 127" using n by auto
  show ?thesis
    unfolding notepad_ops_def Let_def note_button_def title_button_def close_ops_def append.simps using w f n
    by (intro paint_rules draws_format [OF s] note_text_draws) (simp_all add: near_win_def)
qed

subsection \<open>The other windows\<close>

lemma file_cell_draws:
  assumes "font_ok blob ft" and "length (d_name it) \<le> 12" and "- (2 ^ 18) \<le> cx" "cx \<le> 2 ^ 19" "- (2 ^ 18) \<le> cy" "cy \<le> 2 ^ 19"
  shows "draws fb (run_ops (file_cell_ops fb blob ft sel cx cy it))"
  unfolding file_cell_ops_def Let_def using assms by (intro paint_rules) simp_all

lemma draws_ops_if: "(P \<Longrightarrow> draws fb (run_ops a)) \<Longrightarrow> (\<not> P \<Longrightarrow> draws fb (run_ops b)) \<Longrightarrow> draws fb (run_ops (if P then a else b))"
  by simp

lemma draws_concat: "(\<And>i. i \<in> set is \<Longrightarrow> draws fb (run_ops (f i))) \<Longrightarrow> draws fb (run_ops (concat (map f is)))"
  by (induction "is") (auto intro: draws_intros)

lemma file_side_draws:
  assumes "font_ok blob ft" and "0 \<le> x" "x \<le> 2 ^ 17" "0 \<le> y" "y \<le> 2 ^ 17"
  shows "draws fb (run_ops (file_side_ops fb blob ft x y))"
  unfolding file_side_ops_def Let_def using assms font_height [OF assms(1)] by (intro paint_rules) simp_all

lemma filewin_draws:
  assumes w: "near_win w" and f: "font_ok blob ft" and it: "length items \<le> 128" "\<forall>i\<in>set items. length (d_name i) \<le> 12"
    and t: "length (fw_path w) \<le> 95" "length status \<le> 63"
  shows "draws fb (run_ops (filewin_ops fb blob ft items status w))"
proof -
  note h = font_height [OF f]
  have b: "0 \<le> wx w" "wx w \<le> 2 ^ 16" "0 \<le> wy w" "wy w \<le> 2 ^ 16" "0 < ww w" "ww w \<le> 2 ^ 16" "0 < wh w" "wh w \<le> 2 ^ 16"
    using w by (simp_all add: near_win_def)
  have cell: "draws fb (run_ops (file_cell_ops fb blob ft sel (wx w + 140 + 6 + int (i mod k) * 96) (wy w + 22 + 4 + int (i div k) * 80) (items ! i)))"
    if "i \<in> set (takeWhile P [0..<length items])" for P i k sel
  proof -
    have i: "i < length items" "i < 128" using set_takeWhileD [OF that] it(1) by auto
    have "i mod k \<le> i" "i div k \<le> i" by simp_all
    then have "int (i mod k) \<le> 128" "int (i div k) \<le> 128" using i(2) by linarith+
    then show ?thesis using i it b by (intro file_cell_draws [OF f]) (auto simp: nth_mem)
  qed
  show ?thesis
    unfolding filewin_ops_def Let_def
    by (intro draws_ops_append frame_draws [OF w f] file_side_draws [OF f] draws_concat cell draws_ops_if paint_rules f)
      (use b h t in simp_all)
qed

lemma used_percent_le: "used_percent (if total_pages > free_pages then total_pages - free_pages else 0) total_pages \<le> 100"
proof (cases "total_pages > free_pages")
  case True
  define used where "used = total_pages - free_pages"
  have u: "unat used \<le> unat total_pages" "0 < unat total_pages"
    using True by (simp_all add: used_def unat_sub_if' word_less_nat_alt)
  have "unat (used * 100) \<le> unat used * 100" by (simp add: unat_word_ariths)
  also have "\<dots> \<le> 100 * unat total_pages" using u(1) by simp
  finally have "unat (used * 100) div unat total_pages \<le> 100 * unat total_pages div unat total_pages" by (rule div_le_mono)
  then have "unat (used * 100) div unat total_pages \<le> 100" using u(2) by simp
  then show ?thesis using True by (simp add: used_percent_def word_le_nat_alt unat_div flip: used_def)
qed (simp add: used_percent_def)

lemma cpu_percent_le: "fst (task_cpu_usage_percent sc) \<le> 100"
  by (auto simp: task_cpu_usage_percent_def Let_def not_less)

lemma run_ops_Cons: "run_ops (f # fs) m = rbind (f m) (run_ops fs)"
  by (simp add: run_ops_def)

lemma run_ops_Nil: "run_ops [] = Inr"
  by (intro ext) (simp add: run_ops_def)

lemma rbind_Inr_id: "rbind m Inr = m"
  by (cases m) simp_all

lemma draws_bar:
  assumes "- (2 ^ 19) \<le> x" "x \<le> 2 ^ 19" "w \<le> 2 ^ 19" "- (2 ^ 19) \<le> y" "y \<le> 2 ^ 19" "h \<le> 2 ^ 19"
  shows "draws fb (ui_draw_bar_soft fb x y w h c)"
proof -
  consider "h \<le> 0 \<or> w \<le> 0" | "0 < w" "3 \<le> h" | "0 < w" "0 < h" "h < 3" by linarith
  then show ?thesis
  proof cases
    case 1
    then show ?thesis by (simp add: ui_draw_bar_soft_def draws_def)
  next
    case 2
    have "ui_draw_bar_soft fb x y w h c = run_ops [draw_rect fb x y w 1 (ui_shade_color c 28),
        ui_draw_hgrad_rect fb x (y + 1) w (h - 2) (ui_shade_color c 12) (ui_shade_color c (-12)),
        draw_rect fb x (y + h - 1) w 1 (ui_shade_color c (-28))]"
      using 2 assms by (intro ext) (auto simp: ui_draw_bar_soft_def run_ops_Cons run_ops_Nil rbind_Inr_id intro!: rbind_cong)
    moreover have "draws fb (run_ops [draw_rect fb x y w 1 (ui_shade_color c 28),
        ui_draw_hgrad_rect fb x (y + 1) w (h - 2) (ui_shade_color c 12) (ui_shade_color c (-12)),
        draw_rect fb x (y + h - 1) w 1 (ui_shade_color c (-28))])"
      using 2 assms by (intro paint_rules) simp_all
    ultimately show ?thesis by simp
  next
    case 3
    then have "ui_draw_bar_soft fb x y w h c = draw_rect fb x y w h c" by (intro ext) (simp add: ui_draw_bar_soft_def)
    moreover have "draws fb (draw_rect fb x y w h c)" using 3 assms by (intro draws_box) simp_all
    ultimately show ?thesis by simp
  qed
qed

lemma sint_le: "unat (v :: u32) \<le> 2 ^ 16 \<Longrightarrow> sint v \<le> 2 ^ 16"
proof -
  assume h: "unat v \<le> 2 ^ 16"
  then have "sint v = int (unat v)" by (simp add: sint_small)
  then show ?thesis using h by (simp only: of_nat_le_iff [symmetric, where 'a = int]) simp
qed

lemma usage_bar_draws:
  assumes w: "near_win w" and "- (2 ^ 18) \<le> bar_y" "bar_y \<le> 2 ^ 18" and p: "pct \<le> 100"
  shows "draws fb (run_ops (usage_bar fb w bar_y pct))"
proof -
  define bw where "bw = (if ww w - 12 < 16 then 16 else ww w - 12)"
  have b: "16 \<le> bw" "bw \<le> 2 ^ 16" using w by (auto simp: bw_def near_win_def)
  have p': "unat pct \<le> 100" using p by (simp add: word_le_nat_alt)
  have ub: "unat (word_of_int bw :: u32) = nat bw" using b by (simp add: unat_eq_nat_uint uint_small_of_int)
  have "nat bw * unat pct \<le> 2 ^ 16 * 100" using b p' by (intro mult_mono) auto
  then have "unat (word_of_int bw * pct) \<le> 2 ^ 16 * 100" by (simp add: unat_word_ariths ub)
  then have "unat (word_of_int bw * pct) div 100 \<le> 2 ^ 16 * 100 div 100" by (rule div_le_mono)
  then have "unat ((word_of_int bw * pct) div 100) \<le> 2 ^ 16" by (simp add: unat_div)
  then have "sint ((word_of_int bw * pct) div 100) \<le> 2 ^ 16" by (rule sint_le)
  then show ?thesis
    unfolding usage_bar_def Let_def bw_def [symmetric] using b assms
    by (intro draws_ops_if paint_rules draws_bar) (simp_all add: near_win_def)
qed

lemma fmt_fits:
  "\<exists>n line. sprintf 96 (cstr ''Memory: %u / %u KB used (%u%%)'') [Arg_int a, Arg_int b, Arg_int c] = Inr (n, line) \<and> length line \<le> 127"
  "\<exists>n line. sprintf 96 (cstr ''Uptime: %u:%u:%u'') [Arg_int a, Arg_int b, Arg_int c] = Inr (n, line) \<and> length line \<le> 127"
  "\<exists>n line. sprintf 96 (cstr ''CPU: %u%%'') [Arg_int a] = Inr (n, line) \<and> length line \<le> 127"
  "\<exists>n line. sprintf 96 (cstr ''Current resolution: %ux%u, %u bpp'') [Arg_int a, Arg_int b, Arg_int c] = Inr (n, line) \<and> length line \<le> 127"
  "\<exists>n line. sprintf 96 (cstr ''Framebuffer pitch: %u bytes/line'') [Arg_int a] = Inr (n, line) \<and> length line \<le> 127"
proof -
  obtain da db dc where d: "itoa_dec a = Inr da" "length da \<le> 16" "itoa_dec b = Inr db" "length db \<le> 16" "itoa_dec c = Inr dc" "length dc \<le> 16"
    using itoa_dec_short by metis
  show "\<exists>n line. sprintf 96 (cstr ''Memory: %u / %u KB used (%u%%)'') [Arg_int a, Arg_int b, Arg_int c] = Inr (n, line) \<and> length line \<le> 127"
    using d by (simp add: sprintf_def cstr_def convert_def)
  show "\<exists>n line. sprintf 96 (cstr ''Uptime: %u:%u:%u'') [Arg_int a, Arg_int b, Arg_int c] = Inr (n, line) \<and> length line \<le> 127"
    using d by (simp add: sprintf_def cstr_def convert_def)
  show "\<exists>n line. sprintf 96 (cstr ''CPU: %u%%'') [Arg_int a] = Inr (n, line) \<and> length line \<le> 127"
    using d by (simp add: sprintf_def cstr_def convert_def)
  show "\<exists>n line. sprintf 96 (cstr ''Current resolution: %ux%u, %u bpp'') [Arg_int a, Arg_int b, Arg_int c] = Inr (n, line) \<and> length line \<le> 127"
    using d by (simp add: sprintf_def cstr_def convert_def)
  show "\<exists>n line. sprintf 96 (cstr ''Framebuffer pitch: %u bytes/line'') [Arg_int a] = Inr (n, line) \<and> length line \<le> 127"
    using d by (simp add: sprintf_def cstr_def convert_def)
qed

lemma memory_draws:
  assumes w: "near_win w" and f: "font_ok blob ft"
  shows "draws fb (run_ops (fst (memory_ops fb blob ft total_pages free_pages w))) \<and>
    0 \<le> snd (memory_ops fb blob ft total_pages free_pages w) \<and> snd (memory_ops fb blob ft total_pages free_pages w) \<le> 2 ^ 18"
proof -
  note h = font_height [OF f]
  show ?thesis
  proof (cases "total_pages = 0")
    case True
    then show ?thesis using w h unfolding memory_ops_def Let_def by (auto intro!: paint_rules f simp: near_win_def)
  next
    case False
    let ?used = "if total_pages > free_pages then total_pages - free_pages else 0"
    have "draws fb (run_ops (draw_format fb blob ft (wx w + 6) (wy w + 6) 96 ''Memory: %u / %u KB used (%u%%)''
        [Arg_int (?used * 4), Arg_int (total_pages * 4), Arg_int (used_percent ?used total_pages)] 0xFFFFFFFF 0xFF000000 #
        usage_bar fb w (wy w + 6 + g_h ft + 2) (used_percent ?used total_pages)))"
      by (intro paint_rules draws_format [OF fmt_fits(1) f] usage_bar_draws [OF w] used_percent_le) (use w h in \<open>simp_all add: near_win_def\<close>)
    then show ?thesis using False w h by (simp add: memory_ops_def Let_def near_win_def)
  qed
qed

lemma taskmgr_draws:
  assumes w: "near_win w" and f: "font_ok blob ft" and c: "cpu \<le> 100"
  shows "draws fb (run_ops (taskmgr_ops fb blob ft jiffies total_pages free_pages cpu w))"
proof -
  note h = font_height [OF f]
  obtain mo y where m: "memory_ops fb blob ft total_pages free_pages w = (mo, y)" by (rule prod.exhaust)
  then have y: "draws fb (run_ops mo)" "0 \<le> y" "y \<le> 2 ^ 18" using memory_draws [OF w f, of fb total_pages free_pages] by simp_all
  have y2: "y + (g_h ft + 4) + g_h ft + 2 \<le> 2 ^ 19" using y h by simp
  have bar: "draws fb (run_ops (usage_bar fb w (y + (g_h ft + 4) + g_h ft + 2) cpu))"
  proof (cases "y + (g_h ft + 4) + g_h ft + 2 \<le> 2 ^ 18")
    case True
    then show ?thesis using y h c by (intro usage_bar_draws [OF w]) simp_all
  next
    case False
    then have "\<not> y + (g_h ft + 4) + g_h ft + 2 + 10 \<le> wy w + wh w - 4" using w by (simp add: near_win_def)
    then show ?thesis by (simp add: usage_bar_def Let_def draws_intros)
  qed
  show ?thesis
    unfolding taskmgr_ops_def m Let_def case_prod_conv psf_height_def
    by (intro draws_ops_append frame_draws [OF w f] y(1) bar paint_rules draws_format [OF fmt_fits(2) f] draws_format [OF fmt_fits(3) f])
      (use w h y in \<open>simp_all add: near_win_def\<close>)
qed

lemma display_draws:
  assumes w: "near_win w" and f: "font_ok blob ft"
  shows "draws fb (run_ops (display_ops fb blob ft boot w))"
proof -
  obtain a b c d where boot: "boot = (a, b, c, d)" by (metis prod_cases4)
  show ?thesis
    unfolding display_ops_def boot case_prod_conv Let_def
    by (intro draws_ops_append frame_draws [OF w f] paint_rules draws_format [OF fmt_fits(4) f] draws_format [OF fmt_fits(5) f] f)
      (use w font_height [OF f] in \<open>simp_all add: near_win_def\<close>)
qed

lemma terminal_draws:
  assumes w: "near_win w" and f: "font_ok blob ft"
  shows "draws fb (run_ops (terminal_ops fb blob ft w))"
  unfolding terminal_ops_def Let_def
  by (intro draws_ops_append frame_draws [OF w f] paint_rules f) (use w font_height [OF f] in \<open>simp_all add: near_win_def\<close>)

lemma wavplay_draws:
  assumes w: "near_win w" and f: "font_ok blob ft" and n: "length (wp_name w) \<le> 31"
  shows "draws fb (run_ops (wavplay_ops fb blob ft w))"
  unfolding wavplay_ops_def Let_def
  by (intro draws_ops_append frame_draws [OF w f] paint_rules f) (use w n font_height [OF f] in \<open>simp_all add: near_win_def\<close>)

subsection \<open>The picture of the image viewer\<close>

text \<open>A loaded image: its pixels can be numbered with a C integer.\<close>

definition img_ok :: "u32 list \<Rightarrow> int \<Rightarrow> int \<Rightarrow> bool" where
  "img_ok img iw ih \<longleftrightarrow> 0 < iw \<and> 0 < ih \<and> iw * ih < 2 ^ 31 \<and> int (length img) = iw * ih"

lemma draws_putpixel: "draws fb (fb_putpixel fb x y c)"
  by (rule drawsI) (use cur.put_painted [of fb] in \<open>fastforce simp: cur.painted_def\<close>)

lemma sample_int: "0 \<le> x \<Longrightarrow> x < d \<Longrightarrow> 0 < n \<Longrightarrow> 0 \<le> x * n div d \<and> x * n div d < (n :: int)"
proof -
  assume h: "0 \<le> x" "x < d" "0 < n"
  then have "x * n < n * d" by (simp add: mult.commute)
  moreover have "x * n div d * d \<le> x * n" using h by (simp add: minus_mod_eq_div_mult [symmetric])
  ultimately have "x * n div d * d < n * d" by linarith
  then have "x * n div d < n" using h by (simp add: mult_less_cancel_right)
  moreover have "0 \<le> x * n div d" using h by (simp add: pos_imp_zdiv_nonneg_iff)
  ultimately show ?thesis by simp
qed

lemma cast32_id: "- (2 ^ 31) \<le> v \<Longrightarrow> v < 2 ^ 31 \<Longrightarrow> cast32 v = v"
  by (simp add: cast32_def signed_of_int signed_take_bit_int_eq_self)

lemma img_px_draws:
  assumes img: "img_ok img iw ih" and xy: "0 \<le> x" "x < dw" "0 \<le> y" "y < dh"
  shows "draws fb (img_px fb img iw ih dw dh dx dy y x)"
proof -
  have i: "0 < iw" "0 < ih" "iw * ih < 2 ^ 31" "int (length img) = iw * ih" using img by (simp_all add: img_ok_def)
  define sy where "sy = y * ih div dh"
  define sx where "sx = x * iw div dw"
  have s: "0 \<le> sy" "sy < ih" "0 \<le> sx" "sx < iw" unfolding sy_def sx_def using sample_int xy i by blast+
  have le: "sy * iw + sx < iw * ih"
  proof -
    have "sy * iw + sx < (sy + 1) * iw" using s by (simp add: algebra_simps)
    also have "\<dots> \<le> ih * iw" using s i by (intro mult_right_mono) simp_all
    finally show ?thesis by (simp add: mult.commute)
  qed
  have nn: "0 \<le> sy * iw" using s i by simp
  have "ih \<le> iw * ih" "iw \<le> iw * ih" using i(1,2) by (simp_all add: mult_le_cancel_right1 mult_le_cancel_left1)
  then have "sy < 2 ^ 31" "sx < 2 ^ 31" using s i(3) by linarith+
  then have c: "cast32 sy = sy" "cast32 sx = sx" using s by (auto intro!: cast32_id)
  have "i32 (sy * iw) = Inr (sy * iw)" "i32 (sy * iw + sx) = Inr (sy * iw + sx)" using le nn s i(3) by (intro i32_ok; linarith)+
  moreover have "img_pixel img (sy * iw + sx) = Inr (img ! nat (sy * iw + sx))" using le nn s i(4) by (simp add: img_pixel_def nat_less_iff)
  ultimately have "img_px fb img iw ih dw dh dx dy y x = fb_putpixel fb (dx + x) (dy + y) (img ! nat (sy * iw + sx))"
    by (intro ext) (simp add: img_px_def Let_def c flip: sy_def sx_def)
  then show ?thesis using draws_putpixel by simp
qed

lemma picture_draws: "img_ok img iw ih \<Longrightarrow> draws fb (picture fb img iw ih w)"
  unfolding picture_def Let_def
  by (auto split: prod.split intro!: draws_rfold img_px_draws draws_skip)

lemma imgview_draws:
  assumes w: "near_win w" and f: "font_ok blob ft" and i: "\<And>img. iv_img w = Some img \<Longrightarrow> img_ok img (img_w w) (img_h w)"
  shows "draws fb (run_ops (imgview_ops fb blob ft w))"
proof -
  have no: "draws fb (draw_text fb blob ft (wx w + 8) (wy w + 8) (cstr ''No image loaded'') 0xFFB0B6BF 0xFF0C1016)"
    using w by (intro draws_label [OF f]) (simp_all add: near_win_def)
  have "draws fb (case iv_img w of
        Some img \<Rightarrow> if img_w w > 0 \<and> img_h w > 0 then picture fb img (img_w w) (img_h w) w
                    else draw_text fb blob ft (wx w + 8) (wy w + 8) (cstr ''No image loaded'') 0xFFB0B6BF 0xFF0C1016
      | None \<Rightarrow> draw_text fb blob ft (wx w + 8) (wy w + 8) (cstr ''No image loaded'') 0xFFB0B6BF 0xFF0C1016)"
    using no picture_draws [OF i] by (cases "iv_img w") auto
  then show ?thesis unfolding imgview_ops_def by (intro draws_ops_append frame_draws [OF w f] paint_rules) simp_all
qed

subsection \<open>Menus and overlays\<close>

lemma panel_draws:
  "- (2 ^ 19) \<le> x \<Longrightarrow> x \<le> 2 ^ 19 \<Longrightarrow> - (2 ^ 19) \<le> y \<Longrightarrow> y \<le> 2 ^ 19 \<Longrightarrow> - (2 ^ 19) \<le> w \<Longrightarrow> w \<le> 2 ^ 19 \<Longrightarrow> - (2 ^ 19) \<le> h \<Longrightarrow> h \<le> 2 ^ 19 \<Longrightarrow>
    draws fb (run_ops (panel_ops fb x y w h))"
  unfolding panel_ops_def by (intro paint_rules) simp_all

lemma menu_item_draws:
  assumes "font_ok blob ft" and "length label \<le> 95" and "- (2 ^ 19) \<le> x" "x \<le> 2 ^ 19" "- (2 ^ 18) \<le> w" "w \<le> 2 ^ 19" "- (2 ^ 19) \<le> iy" "iy \<le> 2 ^ 19"
    and "0 \<le> inset" "inset \<le> 8" "0 \<le> bar_h" "bar_h \<le> 32" "0 \<le> tx" "tx \<le> 16" "0 \<le> ty" "ty \<le> 16"
  shows "draws fb (run_ops (menu_item fb blob ft mx my x w iy h inset bar_h tx ty label))"
  unfolding menu_item_def Let_def using assms by (intro paint_rules) simp_all

lemma clamp_near: "desk_screen fb \<Longrightarrow> s = fb_width fb \<or> s = fb_height fb \<Longrightarrow> 0 \<le> len \<Longrightarrow> len \<le> 2 ^ 18 \<Longrightarrow> 0 \<le> n \<Longrightarrow> n \<le> 2 ^ 16 \<Longrightarrow>
    - (2 ^ 18) \<le> clamp_edge s len n \<and> clamp_edge s len n \<le> 2 ^ 16"
  by (auto simp: clamp_edge_def desk_screen_def sint_sub)

lemma ctx_menu_draws:
  assumes scr: "desk_screen fb" and f: "font_ok blob ft" and l: "length labels \<le> 8" "\<forall>t\<in>set labels. length t \<le> 31"
    and p: "0 \<le> x" "x \<le> 2 ^ 16" "0 \<le> y" "y \<le> 2 ^ 16" "0 \<le> w" "w \<le> 2 ^ 18" "0 \<le> h" "h \<le> 2 ^ 18"
  shows "draws fb (run_ops (ctx_menu_ops fb blob ft mx my x y w h labels))"
proof -
  have "- (2 ^ 18) \<le> clamp_edge (fb_width fb) w x \<and> clamp_edge (fb_width fb) w x \<le> 2 ^ 16"
    "- (2 ^ 18) \<le> clamp_edge (fb_height fb) h y \<and> clamp_edge (fb_height fb) h y \<le> 2 ^ 16"
    using scr p clamp_near [of fb "fb_width fb" w x] clamp_near [of fb "fb_height fb" h y] by simp_all
  moreover have "int i \<le> 8" if "i \<in> set [0..<length labels]" for i using that l(1) by simp
  moreover have "length (labels ! i) \<le> 31" if "i \<in> set [0..<length labels]" for i using that l(2) by simp
  ultimately show ?thesis
    unfolding ctx_menu_ops_def Let_def
    by (intro draws_ops_append panel_draws draws_concat menu_item_draws f) (use p in \<open>force+\<close>)
qed

lemma launch_menu_draws:
  assumes f: "font_ok blob ft" and l: "length names \<le> 24" "\<forall>t\<in>set names. length t \<le> 31" and p: "0 \<le> x" "x \<le> 2 ^ 16" "0 \<le> y" "y \<le> 2 ^ 16"
  shows "draws fb (run_ops (launch_menu_ops fb blob ft mx my x y names))"
proof -
  have "int i \<le> 24" if "i \<in> set [0..<length names]" for i using that l(1) by simp
  moreover have "length (names ! i) \<le> 31" if "i \<in> set [0..<length names]" for i using that l(2) by simp
  ultimately show ?thesis
    unfolding launch_menu_ops_def Let_def
    by (intro draws_ops_append panel_draws draws_concat menu_item_draws f) (use p l(1) in \<open>force+\<close>)
qed

lemma fmt_string: "length t \<le> 31 \<Longrightarrow> \<exists>n line. sprintf 32 (cstr ''%s'') [Arg_str t] = Inr (n, line) \<and> length line \<le> 127"
  by (simp add: sprintf_def cstr_def convert_def)

lemma info_draws:
  assumes f: "font_ok blob ft" and n: "length (d_name it) \<le> 12" and p: "0 \<le> x" "x \<le> 2 ^ 16" "0 \<le> y" "y \<le> 2 ^ 16"
  shows "draws fb (run_ops (info_ops fb blob ft x y it))"
proof -
  have "length (if d_attr it AND 0x10 \<noteq> 0 then cstr ''<DIR>'' else cstr ''FILE'') \<le> 31" by simp
  then show ?thesis unfolding info_ops_def
    by (intro draws_ops_append panel_draws paint_rules draws_format [OF fmt_string f]) (use p n in simp_all)
qed

lemma prompt_draws:
  assumes scr: "desk_screen fb" and f: "font_ok blob ft" and "length title \<le> 47" "length buf \<le> 31"
  shows "draws fb (run_ops (prompt_ops fb blob ft title buf))"
proof -
  have half: "0 \<le> v sdiv 2 \<and> v sdiv 2 \<le> 2 ^ 16" if "0 \<le> v" "v \<le> 2 ^ 16" for v :: int
    using that by (auto simp: signed_divide_int_def sgn_if)
  have "0 \<le> centre (fb_width fb) 260 \<and> centre (fb_width fb) 260 \<le> 2 ^ 16" "0 \<le> centre (fb_height fb) 70 \<and> centre (fb_height fb) 70 \<le> 2 ^ 16"
    using scr half [of "sint (fb_width fb) - 260"] half [of "sint (fb_height fb) - 70"] sint_sub [of "fb_width fb" 260] sint_sub [of "fb_height fb" 70]
    by (auto simp: centre_def desk_screen_def)
  then show ?thesis unfolding prompt_ops_def Let_def
    by (intro draws_ops_append panel_draws paint_rules f) (use assms(3,4) in simp_all)
qed

text \<open>Fonts of a reasonable size.\<close>

definition desk_font :: "u8 list \<Rightarrow> font \<Rightarrow> bool" where
  "desk_font blob ft \<longleftrightarrow> font_ok blob ft \<and> g_w ft \<le> 1024 \<and> g_h ft \<le> 1024"

lemma topmenu_lengths: "max_length (topmenu_labels which) \<in> {10, 15}" "length (topmenu_labels which) \<in> {2, 5}" "\<forall>t\<in>set (topmenu_labels which). length t \<le> 31"
  by (simp_all add: topmenu_labels_def max_length_def)

lemma topmenu_box_near:
  assumes scr: "desk_screen fb" and f: "desk_font blob ft" and w: "which \<in> {0, 1}" and b: "topmenu_box fb ft which = (x, mw)"
  shows "- (2 ^ 15) \<le> x \<and> x \<le> 2 ^ 16 \<and> 0 \<le> mw \<and> mw \<le> 2 ^ 15"
proof -
  have g: "0 < g_w ft" "g_w ft \<le> 1024" using f by (auto simp: desk_font_def font_ok_def)
  define n where "n = max_length (topmenu_labels which)"
  have n: "n \<in> {10, 15}" unfolding n_def by (rule topmenu_lengths)
  have "mw = n * g_w ft + 24" using b by (simp add: topmenu_box_def Let_def n_def)
  then have m: "0 \<le> mw" "mw \<le> 15 * 1024 + 24" using n g by auto
  have x: "x = 96 \<or> x = 96 + (4 * g_w ft + 12 + 14) \<or> x = sint (fb_width fb) - mw - 6"
    using b w by (auto simp: topmenu_box_def topmenu_layout_titles_def Let_def split: if_splits)
  show ?thesis using x m g scr by (auto simp: desk_screen_def)
qed

lemma topmenu_draws:
  assumes scr: "desk_screen fb" and f: "desk_font blob ft" and w: "which \<in> {-1, 0, 1}"
  shows "draws fb (run_ops (topmenu_ops fb blob ft mx my which))"
proof -
  have fo: "font_ok blob ft" and g: "0 < g_w ft" "g_w ft \<le> 1024" using f by (auto simp: desk_font_def font_ok_def)
  have t: "draws fb (run_ops (title_ops fb blob ft lit t))" if "t \<in> set (topmenu_layout_titles ft)" for lit t
    using that g unfolding topmenu_layout_titles_def Let_def by (auto simp: title_ops_def intro!: paint_rules fo)
  have titles: "draws fb (run_ops (concat (map (\<lambda>i. title_ops fb blob ft (P i) (topmenu_layout_titles ft ! i)) [0..<length (topmenu_layout_titles ft)])))" for P
    by (intro draws_concat t) simp
  show ?thesis
  proof (cases "which = -1")
    case True
    then show ?thesis using titles by (simp add: topmenu_ops_def Let_def)
  next
    case False
    obtain x mw where b: "topmenu_box fb ft which = (x, mw)" by (rule prod.exhaust)
    have bd: "- (2 ^ 15) \<le> x" "x \<le> 2 ^ 16" "0 \<le> mw" "mw \<le> 2 ^ 15" using topmenu_box_near [OF scr f _ b] w False by auto
    have i: "int i \<le> 5" if "i \<in> set [0..<length (topmenu_labels which)]" for i using that topmenu_lengths(2) [of which] by auto
    have l: "length (topmenu_labels which ! i) \<le> 31" if "i \<in> set [0..<length (topmenu_labels which)]" for i using that topmenu_lengths(3) [of which] by simp
    have "draws fb (run_ops (menu_item fb blob ft mx my x mw (TOPBAR_H + 4 + int i * 20) 20 2 (20 - 2) 8 3 (topmenu_labels which ! i)))"
      if "i \<in> set [0..<length (topmenu_labels which)]" for i
      using i [OF that] l [OF that] bd by (intro menu_item_draws fo) simp_all
    then have items: "draws fb (run_ops (concat (map (\<lambda>i. menu_item fb blob ft mx my x mw (TOPBAR_H + 4 + int i * 20) 20 2 (20 - 2) 8 3 (topmenu_labels which ! i))
        [0..<length (topmenu_labels which)])))" by (rule draws_concat)
    have panel: "draws fb (run_ops (panel_ops fb x TOPBAR_H mw (int (length (topmenu_labels which)) * 20 + 8)))"
      using bd topmenu_lengths(2) [of which] by (intro panel_draws) auto
    have "which \<ge> 0" using w False by auto
    then show ?thesis using draws_ops_append [OF titles draws_ops_append [OF panel items]] b by (simp add: topmenu_ops_def Let_def)
  qed
qed

subsection \<open>Taskbar, clock, cursor\<close>

lemma draws_round_box:
  "- (2 ^ 20) \<le> x \<Longrightarrow> x \<le> 2 ^ 20 \<Longrightarrow> w \<le> 2 ^ 20 \<Longrightarrow> - (2 ^ 20) \<le> y \<Longrightarrow> y \<le> 2 ^ 20 \<Longrightarrow> h \<le> 2 ^ 20 \<Longrightarrow> r < 2 ^ 15 \<Longrightarrow>
    draws fb (ui_fill_round_rect fb x y w h r c)"
  by (intro draws_round) (auto simp: small_def)

lemma shortcuts_draws:
  assumes "0 \<le> x" "x \<le> 2 ^ 16" "- 100 \<le> y" "y \<le> 2 ^ 16"
  shows "draws fb (run_ops (fst (taskbar_draw_shortcuts fb x y 34)))" "snd (taskbar_draw_shortcuts fb x y 34) = x + 148"
proof -
  have "(34 - 28) sdiv 2 = (3 :: int)" by (simp add: signed_divide_int_def)
  then show "draws fb (run_ops (fst (taskbar_draw_shortcuts fb x y 34)))"
    unfolding taskbar_draw_shortcuts_def Let_def fst_conv shortcut_ops_def
    by (intro draws_concat paint_rules draws_round_box) (use assms in auto)
qed (simp add: taskbar_draw_shortcuts_def Let_def)

lemma clock_draws:
  assumes scr: "desk_screen fb" and f: "desk_font blob ft"
  shows "draws fb (run_ops (clock_ops fb blob ft now))"
proof -
  have fo: "font_ok blob ft" and g: "0 < g_w ft" "g_w ft \<le> 1024" "0 < g_h ft" "g_h ft \<le> 1024" using f by (auto simp: desk_font_def font_ok_def)
  have "sint (fb_width fb - word_of_int (g_w ft * 8 + 8)) = sint (fb_width fb) - (g_w ft * 8 + 8)"
    using g scr by (intro sint_sub) (auto simp: desk_screen_def)
  then have x: "sint (fb_width fb - word_of_int (g_w ft * 8) - 8) = sint (fb_width fb) - (g_w ft * 8 + 8)" by (simp add: algebra_simps)
  have "length (takeWhile (\<lambda>c. c \<noteq> 0) (rtc_format now)) \<le> length (rtc_format now)" by (rule length_takeWhile_le)
  then have l: "length (takeWhile (\<lambda>c. c \<noteq> 0) (rtc_format now)) \<le> 127" by (simp add: rtc_format_def)
  show ?thesis unfolding clock_ops_def Let_def psf_getters x
    by (intro paint_rules fo l) (use g scr in \<open>simp_all add: desk_screen_def\<close>)
qed

text \<open>The taskbar: the titles of the windows are short.\<close>

definition titles_ok :: "wm_state \<Rightarrow> bool" where
  "titles_ok wm \<longleftrightarrow> length (g_entries wm) \<le> WM_MAX_WINDOWS \<and> (\<forall>e\<in>set (g_entries wm). length (w_title e) \<le> 31)"

lemma buttons_in: "(j, e, z) \<in> set (buttons fl x i es) \<Longrightarrow> e \<in> set es \<and> x \<le> z \<and> z \<le> x + 124 * int (length es)"
  by (induction es arbitrary: x i) (force split: if_splits)+

lemma taskbar_draws:
  assumes f: "font_ok blob ft" and t: "titles_ok wm" and p: "0 \<le> x" "x \<le> 2 ^ 17" "- 100 \<le> y" "y \<le> 2 ^ 16"
  shows "draws fb (wm_draw_taskbar fb blob ft fl y 34 x wm)"
proof -
  have len: "int (length (g_entries wm)) \<le> 16" using t by (simp add: titles_ok_def)
  have sd: "(34 - (34 - 4)) sdiv 2 = (2 :: int)" "(34 - 4 - 26) sdiv 2 = (2 :: int)" "(34 - 4 - 16) sdiv 2 = (7 :: int)" by (simp_all add: signed_divide_int_def)
  have "draws fb (draw_button fb blob ft fl wm y 34 z i e)" if "(i, e, z) \<in> set (buttons fl x 0 (g_entries wm))" for i e z
  proof -
    have e: "length (w_title e) \<le> 31" "0 \<le> z" "z \<le> 2 ^ 18" using buttons_in [OF that] t p len by (auto simp: titles_ok_def)
    have "draw_button fb blob ft fl wm y 34 z i e = run_ops [ui_fill_round_rect fb z (y + 2) 120 30 10 (button_color fl wm i e),
        ui_fill_round_rect fb (z + 4) (y + 2 + 2) 26 26 6 (w_icon_color e),
        draw_text fb blob ft (z + 4 + 26 + 4) (y + 2 + 7) (w_title e) (if button_color fl wm i e = 0xFF4C8DFF then 0xFFFFFFFF else 0xFF2F3645)
          (button_color fl wm i e)]"
      using sd by (intro ext) (auto simp: draw_button_def Let_def run_ops_Cons run_ops_Nil rbind_Inr_id intro!: rbind_cong)
    moreover have "draws fb (run_ops [ui_fill_round_rect fb z (y + 2) 120 30 10 (button_color fl wm i e),
        ui_fill_round_rect fb (z + 4) (y + 2 + 2) 26 26 6 (w_icon_color e),
        draw_text fb blob ft (z + 4 + 26 + 4) (y + 2 + 7) (w_title e) (if button_color fl wm i e = 0xFF4C8DFF then 0xFFFFFFFF else 0xFF2F3645)
          (button_color fl wm i e)])"
      by (intro paint_rules draws_round_box f) (use e p in simp_all)
    ultimately show ?thesis by simp
  qed
  then have "draws fb (rfold (\<lambda>(i, e, x). draw_button fb blob ft fl wm y 34 x i e) (buttons fl x 0 (g_entries wm)))"
    by (intro draws_rfold) auto
  moreover have "wm_draw_taskbar fb blob ft fl y 34 x wm = rfold (\<lambda>(i, e, x). draw_button fb blob ft fl wm y 34 x i e) (buttons fl x 0 (g_entries wm))"
    using p len by (intro ext) (simp add: wm_draw_taskbar_def draw_loop_buttons)
  ultimately show ?thesis by simp
qed

end
