(* ===== verification/Images.thy ===== *)
theory Images
  imports Windows
begin

text \<open>
  The images the kernel loads besides the wallpaper: the picture of the image viewer and the mouse cursor
  (\<open>src/kernel/kernel.c\<close>), and the two cursors it draws itself. Both loaders read 128 bytes of the file, check
  the header, and read the whole file into a block of the announced size. A block from the kernel heap that is not
  yet written holds what \<open>fresh\<close> says.
\<close>

section \<open>Model\<close>

record image_header =
  ih_size :: u32
  ih_data_off :: u32
  ih_w :: u32
  ih_h_raw :: u32
  ih_bpp :: u16

definition image_header_at :: "u32 \<Rightarrow> u16 list \<Rightarrow> u8 list \<Rightarrow> image_header option res" where
  "image_header_at max_size depths hdr =
     rbind (ld8 hdr 0) (\<lambda>b0. if b0 \<noteq> 0x42 then Inr None else
     rbind (ld8 hdr 1) (\<lambda>b1. if b1 \<noteq> 0x4D then Inr None else
     rbind (ld32 hdr 2) (\<lambda>file_size. rbind (ld32 hdr 10) (\<lambda>data_off. rbind (ld32 hdr 18) (\<lambda>w. rbind (ld32 hdr 22) (\<lambda>h_raw.
     rbind (ld16 hdr 26) (\<lambda>planes. rbind (ld16 hdr 28) (\<lambda>bpp. rbind (ld32 hdr 30) (\<lambda>comp.
     if file_size = 0 \<or> file_size > max_size then Inr None
     else if planes \<noteq> (1 :: u16) \<or> bpp \<notin> set depths \<or> comp \<noteq> (0 :: u32) \<or> sint w \<le> 0 \<or> h_raw = 0 then Inr None
     else Inr (Some \<lparr>ih_size = file_size, ih_data_off = data_off, ih_w = w, ih_h_raw = h_raw, ih_bpp = bpp\<rparr>))))))))))"

text \<open>\<open>read\<close> is \<open>fat32_read_file_path\<close> on the path; the result is the header and the bytes of the file.\<close>

definition image_file ::
  "(fat32_vol \<Rightarrow> u32 \<Rightarrow> (int \<times> u8 list \<times> u32 option \<times> fat32_vol) res) \<Rightarrow> u32 \<Rightarrow> u16 list \<Rightarrow> fat32_vol \<times> kheap \<Rightarrow>
   ((image_header \<times> u8 list) option \<times> fat32_vol \<times> kheap) res" where
  "image_file read max_size depths st = (case st of (v, heap) \<Rightarrow>
     rbind (read v 128) (\<lambda>(c, hdr, n, v1).
     if c \<noteq> 0 \<or> (case n of None \<Rightarrow> 0 | Some n \<Rightarrow> n) < 54 then Inr (None, v1, heap) else
     rbind (image_header_at max_size depths hdr) (\<lambda>h. case h of None \<Rightarrow> Inr (None, v1, heap) | Some ih \<Rightarrow>
     case kmalloc (ucast (ih_size ih)) heap of (p, heap1) \<Rightarrow>
     if p = 0 then Inr (None, v1, heap1) else
     rbind (read v1 (ih_size ih)) (\<lambda>(c2, out, full, v2).
     if c2 \<noteq> 0 \<or> (case full of None \<Rightarrow> 0 | Some f \<Rightarrow> f) < ih_size ih then Inr (None, v2, heap1)
     else if ih_data_off ih \<ge> ih_size ih then Inr (None, v2, heap1)
     else Inr (Some (ih, take (unat (ih_size ih)) out), v2, heap1)))))"

text \<open>\<open>(h_raw < 0) ? (uint32_t)(-h_raw) : (uint32_t)h_raw\<close>: the negation overflows for the least integer.\<close>

definition image_height :: "u32 \<Rightarrow> u32 res" where
  "image_height h_raw = (if sint h_raw < 0 then rbind (i32 (- sint h_raw)) (\<lambda>h. Inr (word_of_int h)) else Inr h_raw)"

definition file_row :: "u32 \<Rightarrow> u32 \<Rightarrow> u32 \<Rightarrow> u32" where
  "file_row h_raw h y = (if sint h_raw < 0 then y else h - 1 - y)"

definition pixel_at :: "u8 list \<Rightarrow> nat \<Rightarrow> u16 \<Rightarrow> u32 \<Rightarrow> u32 res" where
  "pixel_at file row bpp x =
     (let off = x * ucast (bpp div 8) in
      rbind (ld8 file (row + unat off)) (\<lambda>b. rbind (ld8 file (row + unat (off + 1))) (\<lambda>g. rbind (ld8 file (row + unat (off + 2))) (\<lambda>r.
      rbind (if bpp = 32 then ld8 file (row + unat (x * 4 + 3)) else Inr 0xFF) (\<lambda>a. Inr (pack a r g b))))))"

definition image_row :: "u8 list \<Rightarrow> nat \<Rightarrow> u16 \<Rightarrow> u32 \<Rightarrow> u32 \<Rightarrow> u32 list \<Rightarrow> u32 list res" where
  "image_row file row bpp w y = rfold (\<lambda>x img. rbind (pixel_at file row bpp x) (\<lambda>px. put_px (unat (y * w + x)) px img)) (u32_upto w)"

definition image_block :: "u32 \<Rightarrow> u32 \<Rightarrow> u64" where
  "image_block w h = ucast w * ucast h * 4"

subsection \<open>The image viewer\<close>

definition imgview_row_bytes :: "u32 \<Rightarrow> u16 \<Rightarrow> u32" where
  "imgview_row_bytes w bpp = (w * ucast bpp + 31) div 32 * 4"

definition imgview_load_bmp ::
  "(fat32_vol \<Rightarrow> u32 \<Rightarrow> (int \<times> u8 list \<times> u32 option \<times> fat32_vol) res) \<Rightarrow> fat32_vol \<times> kheap \<Rightarrow>
   ((u32 list \<times> int \<times> int) option \<times> fat32_vol \<times> kheap) res" where
  "imgview_load_bmp read st =
     rbind (image_file read (8 * 1024 * 1024) [24, 32] st) (\<lambda>(r, v, heap). case r of None \<Rightarrow> Inr (None, v, heap) | Some (ih, file) \<Rightarrow>
     rbind (image_height (ih_h_raw ih)) (\<lambda>h.
     case kmalloc (image_block (ih_w ih) h) heap of (p, heap1) \<Rightarrow>
     if p = 0 then Inr (None, v, heap1) else
     rbind (rfold (\<lambda>y. image_row file
              (unat (ih_data_off ih) + unat (file_row (ih_h_raw ih) h y * imgview_row_bytes (ih_w ih) (ih_bpp ih))) (ih_bpp ih) (ih_w ih) y)
            (u32_upto h) (replicate (unat (ih_w ih) * unat h) 0)) (\<lambda>img.
       Inr (Some (img, sint (ih_w ih), sint h), v, heap1))))"

subsection \<open>The cursor\<close>

text \<open>\<open>g_cursor_default_img\<close> with its size, and the cursor of \<open>fb.c\<close>.\<close>

record cursor_state =
  cur :: cursor
  cursor_default :: "(u32 list \<times> int \<times> int) option"
  cursor_resize_active :: bool

definition cursor_use :: "u32 list \<Rightarrow> int \<Rightarrow> int \<Rightarrow> cursor_state \<Rightarrow> cursor_state" where
  "cursor_use img w h c = c\<lparr>cur := fb_set_cursor_image (Some img) w h (cur c)\<rparr>"

text \<open>The size the cursor is scaled to: 32 pixels for the longer side if one is longer, at least 8 then.\<close>

definition cursor_target :: "int \<Rightarrow> int \<Rightarrow> int \<times> int" where
  "cursor_target w h =
     (if w > 32 \<or> h > 32 then
        let (tw, th) = (if w \<ge> h then (32, h * 32 div w) else (w * 32 div h, 32))
        in (if tw < 8 then 8 else tw, if th < 8 then 8 else th)
      else (w, h))"

definition scale_px :: "u32 list \<Rightarrow> int \<Rightarrow> int \<Rightarrow> int \<Rightarrow> int \<Rightarrow> int \<Rightarrow> int \<Rightarrow> u32 res" where
  "scale_px img w h tw th y x = rbind (i32 (y * h div th * w)) (\<lambda>r. rbind (i32 (r + x * w div tw)) (img_pixel img))"

definition scale_image :: "u32 list \<Rightarrow> int \<Rightarrow> int \<Rightarrow> int \<Rightarrow> int \<Rightarrow> u32 list res" where
  "scale_image img w h tw th =
     rfold (\<lambda>y out. rfold (\<lambda>x out. rbind (scale_px img w h tw th y x) (\<lambda>px. Inr (out @ [px]))) [0..tw - 1] out) [0..th - 1] []"

text \<open>The loop ends early at a row that is not in the file.\<close>

definition cursor_rows :: "(nat \<Rightarrow> u32) \<Rightarrow> image_header \<Rightarrow> u8 list \<Rightarrow> u32 \<Rightarrow> u32 list res" where
  "cursor_rows fresh ih file h =
     (let row_bytes = ih_w ih * 4 in
      rbind (for_loop (\<lambda>y img.
        let sy = file_row (ih_h_raw ih) h y in
        if (ucast sy * ucast row_bytes + ucast row_bytes :: u64) > ucast (ih_size ih - ih_data_off ih) then Inr (Return img)
        else rbind (image_row file (unat (ih_data_off ih) + unat (ucast sy * ucast row_bytes :: u64)) 32 (ih_w ih) y img) (\<lambda>img'. Inr (Next img')))
        (u32_upto h) (map fresh [0..<unat (ih_w ih) * unat h]))
      (\<lambda>fl. case fl of Next img \<Rightarrow> Inr img | Return img \<Rightarrow> Inr img))"

definition cursor_load_from_disk ::
  "(fat32_vol \<Rightarrow> u32 \<Rightarrow> (int \<times> u8 list \<times> u32 option \<times> fat32_vol) res) \<Rightarrow> (nat \<Rightarrow> u32) \<Rightarrow>
   fat32_vol \<times> kheap \<times> cursor_state \<Rightarrow> (fat32_vol \<times> kheap \<times> cursor_state) res" where
  "cursor_load_from_disk read fresh st = (case st of (v0, heap0, c) \<Rightarrow>
     rbind (image_file read (4 * 1024 * 1024) [32] (v0, heap0)) (\<lambda>(r, v, heap). case r of None \<Rightarrow> Inr (v, heap, c) | Some (ih, file) \<Rightarrow>
     rbind (image_height (ih_h_raw ih)) (\<lambda>h.
     case kmalloc (image_block (ih_w ih) h) heap of (p, heap1) \<Rightarrow>
     if p = 0 then Inr (v, heap1, c) else
     rbind (cursor_rows fresh ih file h) (\<lambda>img.
     let w = sint (ih_w ih); hh = sint h; (tw, th) = cursor_target w hh;
         finish = (\<lambda>im iw ihh hp. Inr (v, hp, (cursor_use im iw ihh c)\<lparr>cursor_default := Some (im, iw, ihh)\<rparr>))
     in if tw \<noteq> w \<or> th \<noteq> hh
        then case kmalloc (word_of_int tw * word_of_int th * 4) heap1 of (q, heap2) \<Rightarrow>
             if q \<noteq> 0 then rbind (scale_image img w hh tw th) (\<lambda>scaled. finish scaled tw th heap2) else finish img w hh heap2
        else finish img w hh heap1))))"

definition cross_image :: "u32 list" where
  "cross_image = map (\<lambda>i. if i div 9 = 4 \<or> i mod 9 = 4 then 0xFFFFFFFF else 0) [0..<9 * 9]"

definition resize_image :: "u32 list" where
  "resize_image = map (\<lambda>i. if i div 9 + i mod 9 = 8 then 0xFFFFFFFF else 0) [0..<9 * 9]"

definition cursor_use_default :: "cursor_state \<Rightarrow> cursor_state" where
  "cursor_use_default c =
     (case cursor_default c of
        Some (img, w, h) \<Rightarrow> (cursor_use img w h c)\<lparr>cursor_resize_active := False\<rparr>
      | None \<Rightarrow> (cursor_use cross_image 9 9 c)\<lparr>cursor_default := Some (cross_image, 9, 9), cursor_resize_active := False\<rparr>)"

definition cursor_use_resize :: "cursor_state \<Rightarrow> cursor_state" where
  "cursor_use_resize c = (cursor_use resize_image 9 9 c)\<lparr>cursor_resize_active := True\<rparr>"

section \<open>The size of a loaded picture\<close>

text \<open>The viewer's loader does not compare the rows with the size of the file (a picture that is cut short makes it read
  beyond its buffer). When it returns, all rows were in the file, so the picture is small and complete.\<close>

lemma rbind_InrE: "rbind m f = Inr y \<Longrightarrow> (\<And>x. m = Inr x \<Longrightarrow> f x = Inr y \<Longrightarrow> R) \<Longrightarrow> R"
  by (cases m) auto

lemma rfold_each: "rfold f xs s = Inr s' \<Longrightarrow> x \<in> set xs \<Longrightarrow> \<exists>a b. f x a = Inr b"
  by (induction xs arbitrary: s) (auto simp: rbind_eq_Inr)

lemma rfold_length:
  "(\<And>x a b. x \<in> set xs \<Longrightarrow> f x a = Inr b \<Longrightarrow> length b = length a) \<Longrightarrow> rfold f xs s = Inr s' \<Longrightarrow> length s' = length s"
proof (induction xs arbitrary: s)
  case (Cons x xs)
  then obtain a where "f x s = Inr a" "rfold f xs a = Inr s'" by (auto simp: rbind_eq_Inr)
  with Cons show ?case by fastforce
qed simp

lemma image_row_length: "image_row file row bpp w y img = Inr img' \<Longrightarrow> length img' = length img"
  unfolding image_row_def by (rule rfold_length) (auto simp: rbind_eq_Inr put_px_def split: if_splits)

lemma in_u32_upto: "x < n \<Longrightarrow> x \<in> set (u32_upto n)"
  by (auto simp: u32_upto_def word_less_nat_alt intro!: rev_image_eqI [of "unat x"])

lemma image_row_reads:
  assumes "image_row file row bpp w y img = Inr img'" and "x < w"
  shows "row + unat (x * ucast (bpp div 8)) < length file"
proof -
  from rfold_each [OF assms(1) [unfolded image_row_def] in_u32_upto [OF assms(2)]] obtain px where "pixel_at file row bpp x = Inr px"
    by (auto simp: rbind_eq_Inr)
  then show ?thesis by (auto simp: pixel_at_def Let_def rbind_eq_Inr ld8_def split: if_splits)
qed

lemma row_reads_width:
  assumes r: "image_row file row bpp w y img = Inr img'" and k: "unat (bpp div 8) \<in> {3, 4}" and f: "length file \<le> 2 ^ 23"
  shows "unat w \<le> 2 ^ 23"
proof (rule ccontr)
  assume "\<not> unat w \<le> 2 ^ 23"
  then have w: "(2 ^ 23 :: u32) < w" by (simp add: word_less_nat_alt)
  have u: "unat (ucast (bpp div 8) :: u32) = unat (bpp div 8)" by (simp add: unsigned_ucast_eq take_bit_nat_eq_self unsigned_less)
  have "unat (2 ^ 23 * ucast (bpp div 8) :: u32) = 2 ^ 23 * unat (bpp div 8)" using k by (auto simp: unat_word_ariths u)
  then show False using image_row_reads [OF r w] k f by auto
qed

lemma rows_stay_in_file:
  assumes r: "\<And>y. y < h \<Longrightarrow> unat (file_row h_raw h y * rb) < 2 ^ 23" and b: "unat rb \<le> 2 ^ 26" and "n < unat h"
  shows "n * unat rb < 2 ^ 23"
  using assms(3)
proof (induction n)
  case (Suc n)
  then have n: "n * unat rb < 2 ^ 23" by simp
  define y :: u32 where "y = (if sint h_raw < 0 then of_nat (Suc n) else h - 1 - of_nat (Suc n))"
  have "Suc n < 2 ^ 32" using Suc.prems unsigned_less [of h, where ?'a = nat] by simp
  then have u: "unat (of_nat (Suc n) :: u32) = Suc n" by (simp add: unat_of_nat take_bit_nat_eq_self del: of_nat_Suc)
  then have lt: "of_nat (Suc n) < h" "unat (of_nat (Suc n) :: u32) = Suc n" using Suc.prems by (simp_all add: word_less_nat_alt del: of_nat_Suc)
  then have "y < h" unfolding y_def by (auto simp: word_less_nat_alt unat_sub_if' unat_word_ariths split: if_splits simp del: of_nat_Suc)
  moreover have "file_row h_raw h y = of_nat (Suc n)" by (simp add: file_row_def y_def del: of_nat_Suc)
  ultimately have "unat ((of_nat (Suc n) :: u32) * rb) < 2 ^ 23" using r by metis
  moreover have "unat ((of_nat (Suc n) :: u32) * rb) = Suc n * unat rb"
    using n b lt(2) by (simp add: unat_word_ariths del: of_nat_Suc)
  ultimately show ?case by simp
qed simp

lemma image_header_result:
  assumes "image_header_at max_size depths hdr = Inr (Some ih)"
  shows "ih_size ih \<le> max_size \<and> ih_bpp ih \<in> set depths \<and> 0 < sint (ih_w ih) \<and> ih_h_raw ih \<noteq> 0"
  using assms by (auto simp: image_header_at_def rbind_eq_Inr not_less not_le split: if_splits)

lemma image_file_result:
  assumes "image_file read max_size depths st = Inr (Some (ih, file), v, heap)"
  shows "ih_size ih \<le> max_size \<and> ih_bpp ih \<in> set depths \<and> 0 < sint (ih_w ih) \<and> ih_h_raw ih \<noteq> 0 \<and> length file \<le> unat max_size"
proof -
  obtain hdr out where h: "image_header_at max_size depths hdr = Inr (Some ih)" "file = take (unat (ih_size ih)) out"
    using assms by (auto simp: image_file_def split: if_split_asm option.split_asm prod.split_asm elim!: rbind_InrE)
  note r = image_header_result [OF h(1)]
  then have "unat (ih_size ih) \<le> unat max_size" by (simp add: word_le_nat_alt)
  then show ?thesis using r h(2) by auto
qed

lemma sint_pos: "0 < sint (x :: u32) \<Longrightarrow> sint x = int (unat x)"
  by (simp add: unat_nonnegative)

lemma image_height_result:
  assumes "image_height h_raw = Inr h" and "h_raw \<noteq> 0"
  shows "0 < sint h \<and> sint h = int (unat h)"
proof -
  have "0 < sint h"
  proof (cases "sint h_raw < 0")
    case True
    with assms(1) have h: "h = word_of_int (- sint h_raw)" "- sint h_raw < 2 ^ 31" by (auto simp: image_height_def i32_def split: if_splits)
    have "sint (word_of_int x :: u32) = signed_take_bit 31 x" for x by (simp add: signed_of_int)
    then have "sint h = signed_take_bit 31 (- sint h_raw)" unfolding h(1) .
    also have "\<dots> = - sint h_raw" using h(2) True by (intro signed_take_bit_int_eq_self) simp_all
    finally show ?thesis using True by simp
  next
    case False
    then have "h = h_raw" using assms(1) by (simp add: image_height_def)
    moreover have "sint h_raw \<noteq> 0" using assms(2) by (metis signed_0 signed_word_eqI)
    ultimately show ?thesis using False by simp
  qed
  then show ?thesis by (simp add: unat_nonnegative)
qed

lemma rb_bounds:
  assumes "unat w \<le> 2 ^ 23" and "unat bpp \<in> {24, 32}"
  shows "3 * unat w \<le> unat (imgview_row_bytes w bpp)" and "unat (imgview_row_bytes w bpp) \<le> 2 ^ 26"
proof -
  have u: "unat (ucast bpp :: u32) = unat bpp" by (simp add: unsigned_ucast_eq take_bit_nat_eq_self unsigned_less)
  have "unat (w * ucast bpp + 31 :: u32) = unat w * unat bpp + 31" using assms by (auto simp: unat_word_ariths u)
  then have "unat (imgview_row_bytes w bpp) = (unat w * unat bpp + 31) div 32 * 4" using assms
    unfolding imgview_row_bytes_def by (auto simp: unat_word_ariths unat_div)
  then show "3 * unat w \<le> unat (imgview_row_bytes w bpp)" "unat (imgview_row_bytes w bpp) \<le> 2 ^ 26" using assms by auto
qed

lemma imgview_load_size:
  assumes "imgview_load_bmp read st = Inr (Some (img, w, h), v, heap)"
  shows "0 < w \<and> 0 < h \<and> w * h < 2 ^ 31 \<and> int (length img) = w * h"
proof -
  obtain ih bytes v1 heap1 hh where f: "image_file read (8 * 1024 * 1024) [24, 32] st = Inr (Some (ih, bytes), v1, heap1)"
    and hh: "image_height (ih_h_raw ih) = Inr hh"
    and rows: "rfold (\<lambda>y. image_row bytes (unat (ih_data_off ih) + unat (file_row (ih_h_raw ih) hh y * imgview_row_bytes (ih_w ih) (ih_bpp ih)))
      (ih_bpp ih) (ih_w ih) y) (u32_upto hh) (replicate (unat (ih_w ih) * unat hh) 0) = Inr img"
    and wh: "w = sint (ih_w ih)" "h = sint hh"
    using assms by (auto simp: imgview_load_bmp_def split: if_split_asm option.split_asm prod.split_asm elim!: rbind_InrE)
  let ?w = "unat (ih_w ih)" and ?h = "unat hh" and ?rb = "imgview_row_bytes (ih_w ih) (ih_bpp ih)"
  note fr = image_file_result [OF f]
  have bpp: "unat (ih_bpp ih) \<in> {24, 32}" "unat (ih_bpp ih div 8) \<in> {3, 4}" using fr by (auto simp: unat_div)
  have len: "length bytes \<le> 2 ^ 23" using fr by simp
  have pos: "0 < h" "h = int ?h" "0 < w" "w = int ?w" using image_height_result [OF hh] fr sint_pos [of "ih_w ih"] unfolding wh by auto
  have row: "\<exists>a b. image_row bytes (unat (ih_data_off ih) + unat (file_row (ih_h_raw ih) hh y * ?rb)) (ih_bpp ih) (ih_w ih) y a = Inr b" if "y < hh" for y
    by (rule rfold_each [OF rows in_u32_upto [OF that]])
  have p: "0 < ?h" "0 < ?w" using pos by linarith+
  then have "0 < hh" "0 < ih_w ih" by (simp_all add: word_less_nat_alt)
  with row [of 0] have w: "?w \<le> 2 ^ 23" using row_reads_width [OF _ bpp(2) len] by blast
  have "unat (file_row (ih_h_raw ih) hh y * ?rb) < 2 ^ 23" if "y < hh" for y
    using row [OF that] image_row_reads [OF _ \<open>0 < ih_w ih\<close>] len by fastforce
  from rows_stay_in_file [OF this rb_bounds(2) [OF w bpp(1)], of "?h - 1"] p have "(?h - 1) * unat ?rb < 2 ^ 23" by simp
  moreover have "(?h - 1) * (3 * ?w) \<le> (?h - 1) * unat ?rb" using rb_bounds(1) [OF w bpp(1)] by (rule mult_le_mono2)
  ultimately have "(?h - 1) * ?w < 2 ^ 23" by linarith
  moreover have "?h * ?w = (?h - 1) * ?w + ?w" using p by (cases ?h) auto
  ultimately have "?w * ?h < 2 ^ 31" using w by (simp add: mult.commute)
  then have "int (?w * ?h) < int (2 ^ 31)" by (simp only: of_nat_less_iff)
  moreover have "length img = ?w * ?h" using rfold_length [OF _ rows] image_row_length by fastforce
  ultimately show ?thesis using pos by simp
qed

text \<open>A file of 55 bytes whose header announces one row of one pixel: the loader reads the second byte of the pixel
  behind the buffer it allocated for the file.\<close>

definition short_bmp :: "u8 list" where
  "short_bmp = [0x42, 0x4D, 55, 0, 0, 0, 0, 0, 0, 0, 54, 0, 0, 0, 40, 0, 0, 0, 1, 0, 0, 0, 1, 0, 0, 0, 1, 0, 24, 0] @ replicate 25 0"

lemma imgview_reads_behind_file:
  "imgview_load_bmp (\<lambda>v n. Inr (0, take (unat n) short_bmp, Some 55, v)) (v, \<lparr>kheap_begin = 4096, kheap_end = 8192, kheap_brk = 4096\<rparr>) = Inl BadRead"
  by code_simp

end
