(* ===== verification/Sound.thy ===== *)
theory Sound
  imports Ac97 Wav Users
begin

text \<open>
  Sounds, as \<open>src/kernel/kernel.c\<close> plays them: the linear resampler and the operation that reads a
  WAV file, resamples it to 48 kHz and hands it to the driver. A buffer of samples is the list of its
  bytes, from the place the pointer shows to the end of what was written.
\<close>

section \<open>Model\<close>

definition pcm_sample :: "u8 list \<Rightarrow> u32 \<Rightarrow> u16 res" where
  "pcm_sample src i = ld16 src (2 * unat i)"

text \<open>\<open>(uint32_t)(((uint64_t)s0 * (0x100000000ull - frac) + (uint64_t)s1 * frac) >> 32)\<close>, cut to 16 bits\<close>

definition mix_sample :: "u16 \<Rightarrow> u16 \<Rightarrow> u32 \<Rightarrow> u16" where
  "mix_sample s0 s1 frac =
     ucast (ucast (drop_bit 32 (ucast s0 * (0x100000000 - ucast frac) + ucast s1 * ucast frac :: u64)) :: u32)"

text \<open>One round of the inner loop: \<open>dst[i * channels + c] = \<dots>\<close>, a fault outside of the block, and one of the outer loop.\<close>

definition resample_chan :: "u8 list \<Rightarrow> u32 \<Rightarrow> u8 \<Rightarrow> u32 \<Rightarrow> u32 \<Rightarrow> nat \<Rightarrow> nat \<Rightarrow> u16 list \<Rightarrow> u16 list res" where
  "resample_chan src src_frames channels idx frac i c dst =
     rbind (pcm_sample src (idx * ucast channels + word_of_nat c)) (\<lambda>s0.
     rbind (if idx + 1 < src_frames then pcm_sample src ((idx + 1) * ucast channels + word_of_nat c) else Inr s0) (\<lambda>s1.
     let j = unat (word_of_nat i * ucast channels + word_of_nat c :: u64) in
       if j < length dst then Inr (dst[j := mix_sample s0 s1 frac]) else Inl BadWrite))"

definition resample_frame :: "u8 list \<Rightarrow> u32 \<Rightarrow> u8 \<Rightarrow> u64 \<Rightarrow> nat \<Rightarrow> u64 \<times> u16 list \<Rightarrow> (u64 \<times> u16 list) res" where
  "resample_frame src src_frames channels step i st = (case st of (pos, dst) \<Rightarrow>
     let idx0 = ucast (drop_bit 32 pos); idx = (if idx0 \<ge> src_frames then src_frames - 1 else idx0); frac = ucast pos
     in rbind (rfold (resample_chan src src_frames channels idx frac i) [0..<unat channels] dst) (\<lambda>dst'. Inr (pos + step, dst')))"

definition out_frames :: "u32 \<Rightarrow> u32 \<Rightarrow> u32 \<Rightarrow> u64" where
  "out_frames src_frames src_rate dst_rate = (ucast src_frames * ucast dst_rate + ucast (src_rate div 2)) div ucast src_rate"

text \<open>The block that \<open>kmalloc\<close> hands out has the bytes that were asked for, a number that can wrap, here as 16-bit samples
  (what it held before is overwritten); the result is the block with \<open>*out_frames\<close>, \<open>None\<close> for a null pointer.\<close>

definition resample_linear_16 ::
  "u8 list \<Rightarrow> u32 \<Rightarrow> u8 \<Rightarrow> u32 \<Rightarrow> u32 \<Rightarrow> kheap \<Rightarrow> ((u16 list \<times> u32) option \<times> kheap) res" where
  "resample_linear_16 src src_frames channels src_rate dst_rate heap =
     (if src_frames = 0 \<or> src_rate = 0 \<or> dst_rate = 0 \<or> (channels \<noteq> 1 \<and> channels \<noteq> 2) then Inr (None, heap) else
      let oframes = out_frames src_frames src_rate dst_rate in
      if oframes = 0 then Inr (None, heap) else
      let bytes = oframes * ucast channels * 2 in
      case kmalloc bytes heap of (p, heap') \<Rightarrow>
      if p = 0 then Inr (None, heap') else
      let step = push_bit 32 (ucast src_rate) div ucast dst_rate in
      rbind (rfold (resample_frame src src_frames channels step) [0..<unat oframes] (0, replicate (unat bytes div 2) 0)) (\<lambda>(pos, dst).
        Inr (Some (dst, ucast oframes), heap')))"

definition pcm_bytes :: "u16 list \<Rightarrow> u8 list" where
  "pcm_bytes ws = concat (map (le_bytes 2) ws)"

text \<open>The resampled sound, or the sound itself when there is no memory for it.\<close>

definition to_48k :: "u8 list \<Rightarrow> u32 \<Rightarrow> u16 \<Rightarrow> u32 \<Rightarrow> kheap \<Rightarrow> (u8 list \<times> u32 \<times> u32 \<times> kheap) res" where
  "to_48k pcm frames channels rate heap =
     (if rate = 48000 then Inr (pcm, frames, rate, heap) else
      rbind (resample_linear_16 pcm frames (ucast channels) rate 48000 heap) (\<lambda>(r, heap'). case r of
        Some (out, rframes) \<Rightarrow> if rframes > 0 then Inr (pcm_bytes out, rframes, 48000, heap') else Inr (pcm, frames, rate, heap')
      | None \<Rightarrow> Inr (pcm, frames, rate, heap')))"

definition sound_play_wav_path ::
  "nat \<Rightarrow> 'd disk_read_fn \<Rightarrow> 'h wide_io \<Rightarrow> pmm_env \<Rightarrow> u8 list \<Rightarrow> 'd session \<times> kheap \<times> 'h ac97 \<Rightarrow> ('d session \<times> kheap \<times> 'h ac97) res" where
  "sound_play_wav_path fuel rd io env path st = (case st of (s, heap, ac) \<Rightarrow>
     case g_vol s of None \<Rightarrow> Inr st | Some (v, d) \<Rightarrow>
     if \<not> ac97_is_ready ac then Inr st else
     case kmalloc (2 * 1024 * 1024) heap of (p, heap1) \<Rightarrow>
     if p = 0 then Inr (s, heap1, ac) else
     rbind (fat32_read_file_path fuel v rd d path (2 * 1024 * 1024)) (\<lambda>(r, buf, n, v1).
     let s1 = s\<lparr>g_vol := Some (v1, d)\<rparr>; got = (case n of None \<Rightarrow> 0 | Some n \<Rightarrow> n) in
     if r \<noteq> 0 \<or> got < 44 then Inr (s1, heap1, ac) else
     rbind (wav_parse fuel buf got) (\<lambda>(w, info). case info of None \<Rightarrow> Inr (s1, heap1, ac) | Some info \<Rightarrow>
     if w \<noteq> 0 \<or> wav_bits info \<noteq> 16 \<or> wav_channels info = 0 then Inr (s1, heap1, ac) else
     let frames = wav_data_bytes info div (ucast (wav_channels info) * 2);
         rate = (if wav_rate info \<noteq> 0 then wav_rate info else 48000)
     in rbind (to_48k (drop (wav_data info) buf) frames (wav_channels info) rate heap1) (\<lambda>(pcm, frames', rate', heap2).
        rbind (ac97_play_pcm fuel io env (Some pcm) frames' rate' (ucast (wav_channels info)) ac) (\<lambda>(_, ac').
          Inr (s1, heap2, ac'))))))"

section \<open>The resampler interpolates\<close>

text \<open>Sample \<open>c\<close> of frame \<open>k\<close>, and of the frame after it where there is one.\<close>

definition frame_sample :: "u8 list \<Rightarrow> nat \<Rightarrow> nat \<Rightarrow> nat \<Rightarrow> nat" where
  "frame_sample src ch k c = unat (le_word (take 2 (drop (2 * (k * ch + c)) src)) :: u16)"

definition next_frame :: "nat \<Rightarrow> nat \<Rightarrow> nat" where
  "next_frame frames k = (if k + 1 < frames then k + 1 else k)"

definition lerp :: "nat \<Rightarrow> nat \<Rightarrow> nat \<Rightarrow> nat" where
  "lerp a b f = (a * (2 ^ 32 - f) + b * f) div 2 ^ 32"

lemma lerp_bound: "a < 2 ^ 16 \<Longrightarrow> b < 2 ^ 16 \<Longrightarrow> f \<le> 2 ^ 32 \<Longrightarrow> a * (2 ^ 32 - f) + b * f < (2 ^ 48 :: nat)"
proof -
  assume a: "a < 2 ^ 16" "b < 2 ^ 16" "f \<le> 2 ^ 32"
  have "a * (2 ^ 32 - f) + b * f \<le> (2 ^ 16 - 1) * (2 ^ 32 - f) + (2 ^ 16 - 1) * f" using a by (intro add_mono mult_right_mono) auto
  also have "\<dots> = (2 ^ 16 - 1) * 2 ^ 32" using a(3) by (simp add: add_mult_distrib2 [symmetric])
  finally show ?thesis by simp
qed

lemma unat_mix: "unat (mix_sample s0 s1 f) = lerp (unat s0) (unat s1) (unat f)"
proof -
  have b: "unat s0 < 2 ^ 16" "unat s1 < 2 ^ 16" "unat f < 2 ^ 32" using unat_bound [of s0] unat_bound [of s1] unat_bound [of f] by simp_all
  note lb = lerp_bound [OF b(1,2) less_imp_le [OF b(3)]]
  have fu: "unat (ucast f :: u64) = unat f" "unat (ucast s0 :: u64) = unat s0" "unat (ucast s1 :: u64) = unat s1"
    by (simp_all add: unat_ucast_up)
  have d: "unat (0x100000000 - ucast f :: u64) = 2 ^ 32 - unat f"
    using b(3) fu by (simp add: unat_sub_if')
  have p0: "unat (ucast s0 * (0x100000000 - ucast f) :: u64) = unat s0 * (2 ^ 32 - unat f)"
    using lb fu(2) d by (simp add: unat_word_ariths)
  have p1: "unat (ucast s1 * ucast f :: u64) = unat s1 * unat f" using lb fu by (simp add: unat_word_ariths)
  have "unat (ucast s0 * (0x100000000 - ucast f) + ucast s1 * ucast f :: u64) = unat s0 * (2 ^ 32 - unat f) + unat s1 * unat f"
    using lb p0 p1 by (simp add: unat_word_ariths(1))
  then have q: "unat (drop_bit 32 (ucast s0 * (0x100000000 - ucast f) + ucast s1 * ucast f :: u64)) = lerp (unat s0) (unat s1) (unat f)"
    by (simp add: lerp_def drop_bit_eq_div unat_div)
  have "lerp (unat s0) (unat s1) (unat f) < 2 ^ 16" using lb by (simp add: lerp_def less_mult_imp_div_less)
  then show ?thesis by (simp add: mix_sample_def unsigned_ucast_eq unsigned_take_bit_eq take_bit_nat_def q del: ucast_drop_bit_eq)
qed

lemma unat_out_frames:
  assumes "src_rate \<noteq> 0"
  shows "unat (out_frames frames src_rate dst_rate) = (unat frames * unat dst_rate + unat src_rate div 2) div unat src_rate"
proof -
  have u: "unat (ucast w :: u64) = unat w" for w :: u32 by (simp add: unat_ucast_up)
  have b: "unat w \<le> 2 ^ 32 - 1" for w :: u32 using unat_bound [of w] by simp
  have m: "unat frames * unat dst_rate \<le> (2 ^ 32 - 1) * (2 ^ 32 - 1)" by (intro mult_mono b) auto
  then have p: "unat (ucast frames * ucast dst_rate :: u64) = unat frames * unat dst_rate" by (simp add: unat_word_ariths u)
  have h: "unat (ucast (src_rate div 2) :: u64) = unat src_rate div 2" by (simp add: u unat_div)
  have "unat src_rate div 2 < 2 ^ 32" using b [of src_rate] by simp
  then have "unat (ucast frames * ucast dst_rate + ucast (src_rate div 2) :: u64) = unat frames * unat dst_rate + unat src_rate div 2"
    using m p h by (simp add: unat_word_ariths(1))
  then show ?thesis by (simp add: out_frames_def unat_div u)
qed

text \<open>The position of the last frame is still inside the sound.\<close>

lemma position_inside:
  fixes n s d i :: nat
  assumes "i < (n * d + s div 2) div s" and "0 < s" and "0 < d"
  shows "i * (s * 2 ^ 32 div d) < n * 2 ^ 32"
proof -
  have "Suc i * s \<le> n * d + s div 2" using assms(1,2) by (metis Suc_leI div_times_less_eq_dividend le_trans mult_le_mono1)
  then have "i * s < n * d" using assms(2) by simp
  then have "i * s * 2 ^ 32 < n * d * 2 ^ 32" by simp
  moreover have "i * (s * 2 ^ 32 div d) * d \<le> i * s * 2 ^ 32" by (simp add: mult.assoc)
  ultimately have "i * (s * 2 ^ 32 div d) * d < n * 2 ^ 32 * d" unfolding mult.commute [of n d] by (simp only: ac_simps)
  then show ?thesis by (rule mult_less_cancel2 [THEN iffD1, THEN conjunct2])
qed

lemma nth_concat_even:
  "(\<And>x. x \<in> set xs \<Longrightarrow> length x = n) \<Longrightarrow> i < length xs \<Longrightarrow> c < n \<Longrightarrow> concat xs ! (i * n + c) = xs ! i ! c"
proof (induction xs arbitrary: i)
  case (Cons x xs)
  then show ?case by (cases i) (auto simp: nth_append)
qed simp

lemma length_concat_even: "(\<And>x. x \<in> set xs \<Longrightarrow> length x = n) \<Longrightarrow> length (concat xs) = length xs * n"
  by (induction xs) auto

text \<open>The samples of the frame at position \<open>P\<close>, in units of \<open>1 / 2 ^ 32\<close> of a source frame.\<close>

definition frame_at :: "u8 list \<Rightarrow> nat \<Rightarrow> nat \<Rightarrow> nat \<Rightarrow> u16 list" where
  "frame_at src frames ch P =
     map (\<lambda>c. word_of_nat (lerp (frame_sample src ch (P div 2 ^ 32) c) (frame_sample src ch (next_frame frames (P div 2 ^ 32)) c) (P mod 2 ^ 32)))
       [0..<ch]"

lemma length_frame_at [simp]: "length (frame_at src frames ch P) = ch"
  by (simp add: frame_at_def)

text \<open>The buffer holds the frames, and their samples can be numbered in 32 bits.\<close>

definition pcm_ok :: "u8 list \<Rightarrow> u32 \<Rightarrow> u8 \<Rightarrow> bool" where
  "pcm_ok src frames channels \<longleftrightarrow> (channels = 1 \<or> channels = 2) \<and> 2 * (unat frames * unat channels) \<le> length src \<and>
     unat frames * unat channels < 2 ^ 32"

lemma sample_ok:
  assumes "k < unat frames" and "c < unat channels" and "unat idx = k"
    and ok: "pcm_ok src frames channels"
  shows "pcm_sample src (idx * ucast channels + word_of_nat c) = Inr (le_word (take 2 (drop (2 * (k * unat channels + c)) src)))"
proof -
  note fits = ok [unfolded pcm_ok_def]
  have kc: "k * unat channels + c < unat frames * unat channels"
  proof -
    have "k * unat channels + c < Suc k * unat channels" using assms(2) by simp
    also have "\<dots> \<le> unat frames * unat channels" using assms(1) by (intro mult_le_mono1) simp
    finally show ?thesis .
  qed
  have m: "unat (idx * ucast channels) = k * unat channels" using kc fits assms(3) by (simp add: unat_word_ariths)
  have c: "unat (word_of_nat c :: u32) = c" using assms(2) fits by (auto simp: unat_of_nat)
  have "unat (idx * ucast channels + word_of_nat c) = k * unat channels + c" using kc fits m c by (simp add: unat_word_ariths(1))
  then show ?thesis using kc fits by (simp add: pcm_sample_def ld_le_def)
qed

lemma chan_ok:
  assumes ok: "pcm_ok src frames channels" and k: "k < unat frames" and c: "c < unat channels" and idx: "unat idx = k"
    and j: "i * unat channels + c < length dst" "length dst < 2 ^ 64"
  shows "resample_chan src frames channels idx frac i c dst =
    Inr (dst[i * unat channels + c := word_of_nat (lerp (frame_sample src (unat channels) k c) (frame_sample src (unat channels) (next_frame (unat frames) k) c) (unat frac))])"
proof -
  let ?w = "\<lambda>k. le_word (take 2 (drop (2 * (k * unat channels + c)) src)) :: u16"
  have k1: "unat (idx + 1) = k + 1" using k idx unat_bound [of frames] by (simp add: unat_word_ariths)
  then have lt: "idx + 1 < frames \<longleftrightarrow> k + 1 < unat frames" by (simp add: word_less_nat_alt)
  have s1: "(if idx + 1 < frames then pcm_sample src ((idx + 1) * ucast channels + word_of_nat c) else Inr (?w k)) =
      Inr (?w (next_frame (unat frames) k))"
    unfolding lt next_frame_def using sample_ok [OF _ c k1 ok] by simp
  have mx: "mix_sample (?w k) (?w j) frac = word_of_nat (lerp (frame_sample src (unat channels) k c) (frame_sample src (unat channels) j c) (unat frac))" for j
    unfolding frame_sample_def by (simp add: unat_mix [symmetric])
  have uc: "unat (ucast channels :: u64) = unat channels" by (simp add: unat_ucast_up)
  have "(word_of_nat i * ucast channels + word_of_nat c :: u64) = word_of_nat (i * unat channels + c)"
    by (simp add: uc [symmetric])
  moreover have "i * unat channels + c < 2 ^ 64" using j by linarith
  ultimately have "unat (word_of_nat i * ucast channels + word_of_nat c :: u64) = i * unat channels + c" by (simp add: unat_of_nat del: of_nat_add of_nat_mult)
  then show ?thesis unfolding resample_chan_def sample_ok [OF k c idx ok] rbind.simps s1 mx Let_def using j(1) by simp
qed

lemma frame_ok:
  assumes ok: "pcm_ok src frames channels" and pos: "unat pos = P" and P: "P < unat frames * 2 ^ 32"
    and out: "length out = i * unat channels" and rest: "unat channels \<le> length rest" "length out + length rest < 2 ^ 64"
  shows "resample_frame src frames channels step i (pos, out @ rest) =
    Inr (pos + step, out @ frame_at src (unat frames) (unat channels) P @ drop (unat channels) rest)"
proof -
  let ?F = "frame_at src (unat frames) (unat channels) P"
  have k: "P div 2 ^ 32 < unat frames" using P by (simp add: less_mult_imp_div_less)
  have idx: "unat (ucast (drop_bit 32 pos) :: u32) = P div 2 ^ 32"
    using k unat_bound [of frames] pos by (simp add: unsigned_ucast_eq take_bit_nat_def drop_bit_eq_div unat_div)
  have frac: "unat (ucast pos :: u32) = P mod 2 ^ 32" using pos by (simp add: unsigned_ucast_eq take_bit_nat_def)
  have lt: "\<not> frames \<le> ucast (drop_bit 32 pos)" using idx k by (simp add: word_le_nat_alt)
  have "rfold (resample_chan src frames channels (ucast (drop_bit 32 pos)) (ucast pos) i) [0..<n] (out @ rest) =
      Inr (out @ take n ?F @ drop n rest)" if "n \<le> unat channels" for n
    using that
  proof (induction n)
    case (Suc n)
    let ?d = "out @ take n ?F @ drop n rest"
    have d: "drop n rest = rest ! n # drop (Suc n) rest" using Suc.prems rest(1) by (simp add: Cons_nth_drop_Suc)
    have t: "take (Suc n) ?F = take n ?F @ [?F ! n]" using Suc.prems by (simp add: take_Suc_conv_app_nth)
    have f: "?F ! n = word_of_nat (lerp (frame_sample src (unat channels) (P div 2 ^ 32) n)
        (frame_sample src (unat channels) (next_frame (unat frames) (P div 2 ^ 32)) n) (unat (ucast pos :: u32)))"
      using Suc.prems frac by (simp add: frame_at_def)
    have l: "length ?d = length out + length rest" using Suc.prems rest(1) by simp
    have "resample_chan src frames channels (ucast (drop_bit 32 pos)) (ucast pos) i n ?d = Inr (?d[i * unat channels + n := ?F ! n])"
      unfolding f by (rule chan_ok [OF ok k _ idx]) (use Suc.prems rest out l in simp_all)
    moreover have "?d[i * unat channels + n := ?F ! n] = out @ take (Suc n) ?F @ drop (Suc n) rest"
      unfolding out [symmetric] t d using Suc.prems by (simp add: list_update_append)
    ultimately show ?case using Suc by (simp add: rfold_append)
  qed simp
  from this [of "unat channels"] show ?thesis using lt by (simp add: resample_frame_def Let_def)
qed

lemma frames_ok:
  assumes ok: "pcm_ok src frames channels" and inside: "\<And>i. i < n \<Longrightarrow> i * unat step < unat frames * 2 ^ 32"
    and room: "n * unat channels \<le> length dst" "length dst < 2 ^ 64"
  shows "rfold (resample_frame src frames channels step) [0..<n] (0, dst) =
    Inr (word_of_nat (n * unat step), concat (map (\<lambda>i. frame_at src (unat frames) (unat channels) (i * unat step)) [0..<n]) @ drop (n * unat channels) dst)"
  using inside room(1)
proof (induction n)
  case (Suc n)
  let ?out = "concat (map (\<lambda>i. frame_at src (unat frames) (unat channels) (i * unat step)) [0..<n])"
  have "n * unat step < 2 ^ 32 * 2 ^ 32" using Suc.prems(1) [of n] unat_bound [of frames]
    by simp
  then have u: "unat (word_of_nat (n * unat step) :: u64) = n * unat step" by (simp only: unat_of_nat) simp
  have l: "length ?out = n * unat channels" by (subst length_concat_even [of _ "unat channels"]) auto
  have r: "unat channels \<le> length (drop (n * unat channels) dst)" "length ?out + length (drop (n * unat channels) dst) < 2 ^ 64"
    using Suc.prems(2) l room(2) by simp_all
  from frame_ok [OF ok u _ l r, of step] Suc show ?case by (simp add: rfold_append ac_simps)
qed simp

lemma frame_sample_bound: "frame_sample src ch k c < 2 ^ 16"
  unfolding frame_sample_def using unat_bound [where 'a = 16] by simp

lemma unat_lerp:
  assumes "a < 2 ^ 16" and "b < 2 ^ 16" and "f < 2 ^ 32" shows "unat (word_of_nat (lerp a b f) :: u16) = lerp a b f"
proof -
  have "lerp a b f < 2 ^ 16" using lerp_bound [OF assms(1,2) less_imp_le [OF assms(3)]] by (simp add: lerp_def less_mult_imp_div_less)
  then show ?thesis by (simp add: unat_of_nat)
qed

text \<open>C27: Resampling a sound that its buffer holds succeeds when \<open>kmalloc\<close> returns a block and the number of bytes asked of
  it does not wrap: no read leaves the buffer and no write the block. It gives the rounded number of frames; every sample is
  the interpolation, as unsigned 16-bit numbers and rounded down, of the two source samples around its place. (The
  samples of a WAV file are signed: between samples of opposite sign the result is not what lies between them.) At equal
  rates the sound is copied.\<close>

theorem resample_interpolates:
  assumes ok: "pcm_ok src frames channels" and nz: "frames \<noteq> 0" "src_rate \<noteq> 0" "dst_rate \<noteq> 0"
    and n: "n = (unat frames * unat dst_rate + unat src_rate div 2) div unat src_rate" "n \<noteq> 0"
      "n * unat channels * 2 < 2 ^ 64"
    and mem: "kmalloc (out_frames frames src_rate dst_rate * ucast channels * 2) heap = (p, heap')" "p \<noteq> 0"
    and step: "step = unat src_rate * 2 ^ 32 div unat dst_rate"
  shows "\<exists>out. resample_linear_16 src frames channels src_rate dst_rate heap = Inr (Some (out, word_of_nat n), heap') \<and>
    length out = n * unat channels \<and>
    (\<forall>i<n. i * step div 2 ^ 32 < unat frames \<and> (\<forall>c<unat channels. unat (out ! (i * unat channels + c)) =
       lerp (frame_sample src (unat channels) (i * step div 2 ^ 32) c)
         (frame_sample src (unat channels) (next_frame (unat frames) (i * step div 2 ^ 32)) c) (i * step mod 2 ^ 32))) \<and>
    (src_rate = dst_rate \<longrightarrow> n = unat frames \<and> (\<forall>i<n. \<forall>c<unat channels.
       unat (out ! (i * unat channels + c)) = frame_sample src (unat channels) i c))"
proof -
  have pos: "0 < unat src_rate" "0 < unat dst_rate" using nz by (simp_all add: unat_gt_0)
  have un: "unat (out_frames frames src_rate dst_rate) = n" using unat_out_frames [OF nz(2)] n by simp
  then have uc: "ucast (out_frames frames src_rate dst_rate) = (word_of_nat n :: u32)" "out_frames frames src_rate dst_rate \<noteq> 0"
    using n(2) by (metis of_nat_unat, auto)
  let ?step = "push_bit 32 (ucast src_rate) div ucast dst_rate :: u64"
  have "unat (push_bit 32 (ucast src_rate) :: u64) = unat src_rate * 2 ^ 32"
    using unat_bound [of src_rate] by (simp add: push_bit_eq_mult unat_word_ariths unat_ucast_up)
  then have us: "unat ?step = step" by (simp add: step unat_div unat_ucast_up)
  have inside: "i * unat ?step < unat frames * 2 ^ 32" if "i < n" for i
    unfolding us step using position_inside that pos n(1) by blast
  define out where "out = concat (map (\<lambda>i. frame_at src (unat frames) (unat channels) (i * step)) [0..<n])"
  have ub: "unat (out_frames frames src_rate dst_rate * ucast channels * 2) = n * unat channels * 2"
    using n(3) un by (simp add: unat_word_ariths unat_ucast_up)
  have blk: "length (replicate (n * unat channels) (0 :: u16)) < 2 ^ 64" "n * unat channels \<le> length (replicate (n * unat channels) (0 :: u16))"
    using n(3) by simp_all
  have run: "resample_linear_16 src frames channels src_rate dst_rate heap = Inr (Some (out, word_of_nat n), heap')"
    using frames_ok [OF ok inside blk(2,1)] nz mem n(2) ok un ub
    by (auto simp: resample_linear_16_def Let_def pcm_ok_def us out_def uc)
  have len: "length out = n * unat channels" unfolding out_def by (subst length_concat_even [of _ "unat channels"]) auto
  have k: "i * step div 2 ^ 32 < unat frames" if "i < n" for i
    using inside [OF that] unfolding us by (rule less_mult_imp_div_less)
  have nth: "out ! (i * unat channels + c) = word_of_nat (lerp (frame_sample src (unat channels) (i * step div 2 ^ 32) c)
      (frame_sample src (unat channels) (next_frame (unat frames) (i * step div 2 ^ 32)) c) (i * step mod 2 ^ 32))"
    if "i < n" "c < unat channels" for i c
    unfolding out_def by (subst nth_concat_even [of _ "unat channels"]) (use that in \<open>auto simp: frame_at_def\<close>)
  have val: "unat (out ! (i * unat channels + c)) = lerp (frame_sample src (unat channels) (i * step div 2 ^ 32) c)
      (frame_sample src (unat channels) (next_frame (unat frames) (i * step div 2 ^ 32)) c) (i * step mod 2 ^ 32)"
    if "i < n" "c < unat channels" for i c
    unfolding nth [OF that] by (intro unat_lerp frame_sample_bound) simp
  have same: "src_rate = dst_rate \<longrightarrow> n = unat frames \<and> (\<forall>i<n. \<forall>c<unat channels.
      unat (out ! (i * unat channels + c)) = frame_sample src (unat channels) i c)"
  proof
    assume e: "src_rate = dst_rate"
    have half: "unat dst_rate div 2 div unat dst_rate = 0" using pos by (intro div_less) simp
    have "step = 2 ^ 32" using e step pos by simp
    moreover have "n = unat frames" using e n(1) pos half by (simp add: div_mult_self3)
    ultimately show "n = unat frames \<and> (\<forall>i<n. \<forall>c<unat channels. unat (out ! (i * unat channels + c)) = frame_sample src (unat channels) i c)"
      using val by (simp add: lerp_def)
  qed
  show ?thesis using run len k val same by blast
qed

definition small_heap :: kheap where
  "small_heap = \<lparr>kheap_begin = 0x200000, kheap_end = 0x210000, kheap_brk = 0x200100\<rparr>"

theorem resample_interpolates_witness:
  "\<exists>out. resample_linear_16 [0, 0, 100, 0] 2 1 24000 48000 small_heap = Inr (Some (out, 4), small_heap\<lparr>kheap_brk := 0x200108\<rparr>) \<and>
     length out = 4 \<and> unat (out ! 1) = 50 \<and> unat (out ! 3) = 100"
proof -
  have ok: "pcm_ok [0, 0, 100, 0] 2 1" by (simp add: pcm_ok_def)
  have mem: "kmalloc (out_frames 2 24000 48000 * ucast (1 :: u8) * 2) small_heap = (0x200100, small_heap\<lparr>kheap_brk := 0x200108\<rparr>)"
    by (simp add: out_frames_def kmalloc_def small_heap_def align_up_def)
  have s: "frame_sample [0, 0, 100, 0] 1 0 0 = 0" "frame_sample [0, 0, 100, 0] 1 1 0 = 100" by (simp_all add: frame_sample_def)
  have n: "4 = (unat (2 :: u32) * unat (48000 :: u32) + unat (24000 :: u32) div 2) div unat (24000 :: u32)" by simp
  have st: "2147483648 = unat (24000 :: u32) * 2 ^ 32 div unat (48000 :: u32)" by simp
  have nz: "(2 :: u32) \<noteq> 0" "(24000 :: u32) \<noteq> 0" "(48000 :: u32) \<noteq> 0" "(4 :: nat) \<noteq> 0" "(0x200100 :: u64) \<noteq> 0" by simp_all
  obtain out where o: "resample_linear_16 [0, 0, 100, 0] 2 1 24000 48000 small_heap = Inr (Some (out, 4), small_heap\<lparr>kheap_brk := 0x200108\<rparr>)"
    "length out = 4" "\<And>i. i < 4 \<Longrightarrow> unat (out ! i) = lerp (frame_sample [0, 0, 100, 0] 1 (i * 2147483648 div 2 ^ 32) 0)
      (frame_sample [0, 0, 100, 0] 1 (next_frame 2 (i * 2147483648 div 2 ^ 32)) 0) (i * 2147483648 mod 2 ^ 32)"
    using resample_interpolates [OF ok nz(1-3) n nz(4) _ mem nz(5) st] by auto
  have "unat (out ! 1) = 50" "unat (out ! 3) = 100"
    using o(3) [of 1] o(3) [of 3] s by (simp_all add: next_frame_def lerp_def)
  with o show ?thesis by blast
qed

text \<open>The samples of a WAV file are signed, and the interpolation takes them as unsigned: half way between -1 and 1 it
  gives the most negative sample.\<close>

lemma resample_crosses_zero: "mix_sample 0xFFFF 1 0x80000000 = 0x8000" "sint (0xFFFF :: u16) = - 1" "sint (0x8000 :: u16) = - 32768"
  by (simp_all add: mix_sample_def)

end
