(* ===== verification/Gui.thy ===== *)
theory Gui
  imports Paint_Safe Images Sound Mbr Ata
begin

text \<open>
  The desktop session of \<open>src/kernel/kernel.c\<close>: all windows, menus and prompts in one state, drawing the whole
  desktop, and the actions the event loop calls. Everything that stays fixed after the start is in \<open>kenv\<close>: the
  frame buffer, the font, the disk and sound hardware. What interrupts change while the loop runs (mouse, clock, scan
  code) is in \<open>input\<close>, one sample for each round of the loop. Messages on the serial line are left out.
\<close>

section \<open>State\<close>

datatype ctx_target = CTX_NONE | CTX_DESKTOP | CTX_NOTEPAD | CTX_FILEWIN

datatype ctx_action = CTX_ACT_NONE | CTX_ACT_NEW_TXT | CTX_ACT_REFRESH_DESKTOP | CTX_ACT_WALLPAPER | CTX_ACT_NOTEPAD_NEW
  | CTX_ACT_NOTEPAD_OPEN | CTX_ACT_NOTEPAD_SAVE | CTX_ACT_NOTEPAD_SAVE_AS | CTX_ACT_NOTEPAD_CLOSE | CTX_ACT_FILE_REFRESH
  | CTX_ACT_FILE_OPEN | CTX_ACT_FILE_UP | CTX_ACT_WIN_MINIMIZE | CTX_ACT_WIN_TOGGLE_MAX

datatype prompt_mode = PROMPT_NONE | PROMPT_CREATE_TXT | PROMPT_OPEN_TXT | PROMPT_SAVE_AS

datatype launch_type = L_ACTION_LOGOUT | L_ACTION_REBOOT | L_ACTION_SHUTDOWN | L_ACTION_APP

record launch_item =
  l_name :: "u8 list"
  l_type :: launch_type
  l_path :: "u8 list"

text \<open>The callback of the file picker is one of these functions.\<close>

datatype picker_cb = Notepad_file_pick_cb | Wavplay_pick_cb

record ('d, 'h) kenv =
  k_fb :: fb_t
  k_fb_ready :: bool
  k_blob :: "u8 list"
  k_font :: font
  k_pool :: pmm_env
  k_boot :: "u32 \<times> u32 \<times> u32 \<times> u32"
  k_fuel :: nat
  k_read :: "'d disk_read_fn"
  k_write :: "'d disk_write_fn"
  k_identify :: "'d \<Rightarrow> bool \<times> 'd"
  k_audio :: "'h wide_io"

record input =
  in_mx :: int
  in_my :: int
  in_btn :: u8
  in_jiffies :: u64
  in_time :: rtc_time_t
  in_sc :: "u8 option"

text \<open>The menus and the prompt. \<open>ctx_items\<close> and \<open>launch_items\<close> are the filled parts of the arrays.\<close>

record menus =
  info_visible :: bool
  info_x :: int
  info_y :: int
  info_idx :: int
  ctx_items :: "(u8 list \<times> ctx_action) list"
  ctx_menu_visible :: bool
  ctx_menu_x :: int
  ctx_menu_y :: int
  ctx_menu_w :: int
  ctx_menu_h :: int
  ctx_menu_target :: ctx_target
  topmenu_open :: int
  topmenu_hover :: int
  topmenu_item_hover :: int
  name_prompt_active :: bool
  name_prompt_ready_click :: bool
  name_prompt_buf :: "u8 list"
  name_prompt_mode :: prompt_mode
  name_prompt_title :: "u8 list"
  launch_items :: "launch_item list"
  launch_visible :: bool
  launch_x :: int
  launch_y :: int
  launch_last_refresh :: u64

text \<open>The modifier keys and the static variables of the event loop.\<close>

record loop_vars =
  shift_down :: int
  caps_on :: bool
  alt_down :: bool
  win_down :: bool
  prev_btn :: u8
  file_last_click :: u64
  file_last_idx :: int
  last_mouse_x :: int
  last_mouse_y :: int
  last_rtc_update :: u64
  last_frame_tick :: u64
  login_last_frame :: u64
  boot_anim :: bool
  boot_anim_start :: u64
  halted :: bool

text \<open>\<open>g_unmounted\<close> is \<open>g_vol\<close> and the disk as long as no volume is mounted; the mounted volume is in the session.
  \<open>halted\<close> is set by the endless loop of \<open>cli; hlt\<close>.\<close>

record ('d, 'h) gui =
  g_ses :: "'d session"
  g_session_started :: bool
  g_unmounted :: "fat32_vol \<times> 'd"
  g_notepad :: notepad_t
  g_filewin :: filewin_t
  g_taskmgr :: max_win
  g_display :: max_win
  g_terminal :: max_win
  g_imgview :: imgview_t
  g_wavplay :: wavplay_t
  g_file_items :: "desktop_item list"
  g_file_status :: "u8 list"
  g_file_picker :: "(u8 list \<times> picker_cb) option"
  g_wm :: wm_state
  g_desk :: desktop
  g_heap :: kheap
  g_sched :: sched
  g_sound :: "'h ac97"
  g_screen :: mem
  g_cursor :: cursor_state
  g_menus :: menus
  g_loop :: loop_vars

abbreviation PATH_BASE :: "u8 list" where "PATH_BASE \<equiv> cstr ''PARANOS''"
abbreviation PATH_WALL_DIR :: "u8 list" where "PATH_WALL_DIR \<equiv> cstr ''PARANOS/WALLPAPR''"
abbreviation PATH_WALLPAPER :: "u8 list" where "PATH_WALLPAPER \<equiv> cstr ''PARANOS/WALLPAPR/WALLPAPR.BMP''"

subsection \<open>Actions and their sequences\<close>

type_synonym ('d, 'h) act = "('d, 'h) gui \<Rightarrow> ('d, 'h) gui res"

definition upd :: "('s \<Rightarrow> 's) \<Rightarrow> 's \<Rightarrow> 's res" where
  "upd f s = Inr (f s)"

definition seq_acts :: "('s \<Rightarrow> 's res) list \<Rightarrow> 's \<Rightarrow> 's res" where
  "seq_acts = rfold (\<lambda>f. f)"

text \<open>Sections of code that may leave with a \<open>goto\<close>: the flag tells that the jump was taken.\<close>

fun chain :: "('s \<Rightarrow> (bool \<times> 's) res) list \<Rightarrow> 's \<Rightarrow> (bool \<times> 's) res" where
  "chain [] s = Inr (False, s)"
| "chain (f # fs) s = rbind (f s) (\<lambda>(jumped, s'). if jumped then Inr (True, s') else chain fs s')"

definition jump :: "('s \<Rightarrow> 's res) \<Rightarrow> 's \<Rightarrow> (bool \<times> 's) res" where
  "jump f s = rbind (f s) (\<lambda>s'. Inr (True, s'))"

definition stay :: "('s \<Rightarrow> 's res) \<Rightarrow> 's \<Rightarrow> (bool \<times> 's) res" where
  "stay f s = rbind (f s) (\<lambda>s'. Inr (False, s'))"

definition mark_dirty :: "('d, 'h) gui \<Rightarrow> ('d, 'h) gui" where
  "mark_dirty = g_desk_update desktop_mark_dirty"

definition set_front :: "int \<Rightarrow> ('d, 'h) gui \<Rightarrow> ('d, 'h) gui" where
  "set_front wid = g_wm_update (wm_set_front wid)"

definition on_menus :: "(menus \<Rightarrow> menus) \<Rightarrow> ('d, 'h) gui \<Rightarrow> ('d, 'h) gui" where
  "on_menus = g_menus_update"

subsection \<open>The windows of the taskbar\<close>

abbreviation WIN_NOTEPAD :: int where "WIN_NOTEPAD \<equiv> 0"
abbreviation WIN_FILE :: int where "WIN_FILE \<equiv> 1"
abbreviation WIN_TASKMGR :: int where "WIN_TASKMGR \<equiv> 2"
abbreviation WIN_DISPLAY :: int where "WIN_DISPLAY \<equiv> 3"
abbreviation WIN_TERMINAL :: int where "WIN_TERMINAL \<equiv> 4"
abbreviation WIN_IMGVIEW :: int where "WIN_IMGVIEW \<equiv> 5"
abbreviation WIN_WAVPLAY :: int where "WIN_WAVPLAY \<equiv> 6"

text \<open>The registrations of \<open>kmain\<close>, in their order: the entry of window \<open>k\<close> points to the flags \<open>2k\<close> and \<open>2k + 1\<close>, which
  \<open>win_flags\<close> reads from the windows, and \<open>k\<close> stands for its callback.\<close>

definition window_titles :: "(string \<times> u32) list" where
  "window_titles = [(''Text Editor'', 0xFF5E8C31), (''Explorer'', 0xFF2F6FAB), (''SysMon'', 0xFFAA8844), (''Display'', 0xFF4488CC),
     (''Terminal'', 0xFF8844AA), (''ImageView'', 0xFF44AA88), (''WAV Player'', 0xFF8899DD)]"

definition register_windows :: "wm_state \<Rightarrow> int list \<times> wm_state" where
  "register_windows wm =
     (let (ids, wm1) = fold (\<lambda>k (ids, wm). case window_titles ! k of (t, c) \<Rightarrow>
            case wm_register_window (cstr t) c (Some (2 * k)) (Some (2 * k + 1)) (Some k) 0 wm of (i, wm') \<Rightarrow> (ids @ [i], wm'))
          [0..<7] ([], wm)
      in (ids, wm_set_front (ids ! nat WIN_TASKMGR) wm1))"

definition win_flags :: "('d, 'h) gui \<Rightarrow> flags" where
  "win_flags g p =
     (let fl = (\<lambda>opened mini. if even p then (if opened then 1 else 0) else (if mini then 1 else (0 :: int)))
      in case p div 2 of
        0 \<Rightarrow> fl (win_open (g_notepad g)) (win_min (g_notepad g))
      | Suc 0 \<Rightarrow> fl (win_open (g_filewin g)) (win_min (g_filewin g))
      | Suc (Suc 0) \<Rightarrow> fl (win_open (g_taskmgr g)) (win_min (g_taskmgr g))
      | Suc (Suc (Suc 0)) \<Rightarrow> fl (win_open (g_display g)) (win_min (g_display g))
      | Suc (Suc (Suc (Suc 0))) \<Rightarrow> fl (win_open (g_terminal g)) (win_min (g_terminal g))
      | Suc (Suc (Suc (Suc (Suc 0)))) \<Rightarrow> fl (win_open (g_imgview g)) (win_min (g_imgview g))
      | _ \<Rightarrow> fl (win_open (g_wavplay g)) (win_min (g_wavplay g)))"

definition front :: "('d, 'h) gui \<Rightarrow> int" where
  "front g = wm_get_front (g_wm g)"

section \<open>Drawing the desktop\<close>

text \<open>Drawing operations on the screen, chosen by the state.\<close>

definition paint :: "(('d, 'h) gui \<Rightarrow> ops) \<Rightarrow> ('d, 'h) act" where
  "paint ops g = rbind (run_ops (ops g) (g_screen g)) (\<lambda>m. Inr (g\<lparr>g_screen := m\<rparr>))"

definition render_on :: "(('d, 'h) gui \<Rightarrow> mem \<Rightarrow> mem res) \<Rightarrow> ('d, 'h) act" where
  "render_on f g = rbind (f g (g_screen g)) (\<lambda>m. Inr (g\<lparr>g_screen := m\<rparr>))"

definition draw_background :: "('d, 'h) kenv \<Rightarrow> ('d, 'h) act" where
  "draw_background E g =
     rbind (desktop_draw_background (k_fb E) (k_blob E) (k_font E) (g_desk g, g_heap g, g_screen g)) (\<lambda>(s, heap, m).
       Inr (g\<lparr>g_desk := s, g_heap := heap, g_screen := m\<rparr>))"

definition render_notepad :: "('d, 'h) kenv \<Rightarrow> ('d, 'h) act" where
  "render_notepad E g =
     rbind (notepad_render (k_fb E) (k_blob E) (k_font E) (g_notepad g) (g_screen g)) (\<lambda>(w, m). Inr (g\<lparr>g_notepad := w, g_screen := m\<rparr>))"

definition render_taskmgr :: "('d, 'h) kenv \<Rightarrow> input \<Rightarrow> ('d, 'h) act" where
  "render_taskmgr E I g =
     rbind (taskmgr_render (k_fb E) (k_blob E) (k_font E) (k_pool E) (in_jiffies I) (g_taskmgr g) (ac_pool (g_sound g), g_sched g, g_screen g))
       (\<lambda>(p, sc, m). Inr (g\<lparr>g_sound := (g_sound g)\<lparr>ac_pool := p\<rparr>, g_sched := sc, g_screen := m\<rparr>))"

definition render_window :: "('d, 'h) kenv \<Rightarrow> input \<Rightarrow> int \<Rightarrow> ('d, 'h) act" where
  "render_window E I k =
     (let fb = k_fb E; blob = k_blob E; ft = k_font E in
      if k = WIN_NOTEPAD then render_notepad E
      else if k = WIN_FILE then render_on (\<lambda>g. filewin_render fb blob ft (g_file_items g) (g_file_status g) (g_filewin g))
      else if k = WIN_TASKMGR then render_taskmgr E I
      else if k = WIN_DISPLAY then render_on (\<lambda>g. display_render fb blob ft (k_boot E) (g_display g))
      else if k = WIN_TERMINAL then render_on (\<lambda>g. terminal_render fb blob ft (g_terminal g))
      else if k = WIN_IMGVIEW then render_on (\<lambda>g. imgview_render fb blob ft (g_imgview g))
      else if k = WIN_WAVPLAY then render_on (\<lambda>g. wavplay_render fb blob ft (g_wavplay g))
      else Inr)"

text \<open>The window in front is drawn last.\<close>

definition render_windows :: "('d, 'h) kenv \<Rightarrow> input \<Rightarrow> ('d, 'h) act" where
  "render_windows E I g =
     (let f = front g in seq_acts (map (\<lambda>k. if f \<noteq> k then render_window E I k else Inr) [0..6] @ [render_window E I f]) g)"

definition topmenu_active_window :: "('d, 'h) gui \<Rightarrow> bool" where
  "topmenu_active_window g \<longleftrightarrow> front g = WIN_NOTEPAD \<and> shown (g_notepad g)"

definition topmenu_reset :: "menus \<Rightarrow> menus" where
  "topmenu_reset s = s\<lparr>topmenu_open := -1, topmenu_hover := -1, topmenu_item_hover := -1\<rparr>"

definition topmenu_draw :: "('d, 'h) kenv \<Rightarrow> input \<Rightarrow> ('d, 'h) act" where
  "topmenu_draw E I g =
     (if \<not> topmenu_active_window g then Inr (on_menus topmenu_reset g) else
      seq_acts [paint (\<lambda>g. topmenu_ops (k_fb E) (k_blob E) (k_font E) (in_mx I) (in_my I) (topmenu_open (g_menus g))),
        upd (on_menus (\<lambda>s. s\<lparr>topmenu_hover := last_index (\<lambda>i. in_title (in_mx I) (in_my I) (topmenu_layout_titles (k_font E) ! i)) 2,
          topmenu_item_hover := (if topmenu_open s \<ge> 0 then topmenu_hovered (k_fb E) (k_font E) (in_mx I) (in_my I) (topmenu_open s)
            else topmenu_item_hover s)\<rparr>))] g)"

definition overlay_ops :: "('d, 'h) kenv \<Rightarrow> input \<Rightarrow> ('d, 'h) gui \<Rightarrow> ops" where
  "overlay_ops E I g =
     (let fb = k_fb E; blob = k_blob E; ft = k_font E; mx = in_mx I; my = in_my I; s = g_menus g in
      (if info_visible s then case desktop_get_item (info_idx s) (g_desk g) of
         None \<Rightarrow> [] | Some it \<Rightarrow> info_ops fb blob ft (info_x s) (info_y s) it else []) @
      (if ctx_menu_visible s \<and> ctx_items s \<noteq> []
       then ctx_menu_ops fb blob ft mx my (ctx_menu_x s) (ctx_menu_y s) (ctx_menu_w s) (ctx_menu_h s) (map fst (ctx_items s)) else []) @
      (if name_prompt_active s then prompt_ops fb blob ft (name_prompt_title s) (name_prompt_buf s) else []) @
      (if launch_visible s \<and> launch_items s \<noteq> []
       then launch_menu_ops fb blob ft mx my (launch_x s) (launch_y s) (map l_name (launch_items s)) else []) @
      clock_ops fb blob ft (in_time I) @
      [fb_draw_cursor fb (cur (g_cursor g)) mx my, fb_flush fb])"

definition taskbar_ops :: "('d, 'h) kenv \<Rightarrow> ('d, 'h) gui \<Rightarrow> ops" where
  "taskbar_ops E g =
     (let fb = k_fb E; y = sint (fb_height fb - 34); (shortcuts, start_x) = taskbar_draw_shortcuts fb 80 y 34
      in shortcuts @ [wm_draw_taskbar fb (k_blob E) (k_font E) (win_flags g) y 34 start_x (g_wm g)])"

definition desktop_render :: "('d, 'h) kenv \<Rightarrow> input \<Rightarrow> ('d, 'h) act" where
  "desktop_render E I =
     seq_acts [draw_background E, paint (taskbar_ops E), render_windows E I, topmenu_draw E I, paint (overlay_ops E I)]"

section \<open>Files and accounts\<close>

definition volume :: "('d, 'h) gui \<Rightarrow> fat32_vol \<times> 'd" where
  "volume g = (case g_vol (g_ses g) of Some vd \<Rightarrow> vd | None \<Rightarrow> g_unmounted g)"

definition put_volume :: "fat32_vol \<times> 'd \<Rightarrow> ('d, 'h) gui \<Rightarrow> ('d, 'h) gui" where
  "put_volume vd g = (case g_vol (g_ses g) of Some _ \<Rightarrow> g\<lparr>g_ses := (g_ses g)\<lparr>g_vol := Some vd\<rparr>\<rparr> | None \<Rightarrow> g\<lparr>g_unmounted := vd\<rparr>)"

definition vol_mounted :: "('d, 'h) gui \<Rightarrow> bool" where
  "vol_mounted g \<longleftrightarrow> g_vol (g_ses g) \<noteq> None"

definition on_ses :: "('d session \<Rightarrow> 'd session res) \<Rightarrow> ('d, 'h) act" where
  "on_ses f g = rbind (f (g_ses g)) (\<lambda>s. Inr (g\<lparr>g_ses := s\<rparr>))"

text \<open>The calls of the file system: return value, what it delivers, and the state after it.\<close>

definition read_file :: "('d, 'h) kenv \<Rightarrow> u8 list \<Rightarrow> u32 \<Rightarrow> ('d, 'h) gui \<Rightarrow> (int \<times> u8 list \<times> u32 option \<times> ('d, 'h) gui) res" where
  "read_file E path cap g = (case volume g of (v, d) \<Rightarrow>
     rbind (fat32_read_file_path (k_fuel E) v (k_read E) d path cap) (\<lambda>(r, out, n, v'). Inr (r, out, n, put_volume (v', d) g)))"

definition write_file :: "('d, 'h) kenv \<Rightarrow> u8 list \<Rightarrow> u8 list \<Rightarrow> u32 \<Rightarrow> ('d, 'h) gui \<Rightarrow> (int \<times> ('d, 'h) gui) res" where
  "write_file E path data bytes g = (case volume g of (v, d) \<Rightarrow>
     rbind (fat32_write_file_path (k_fuel E) v (k_read E) (k_write E) d path data bytes) (\<lambda>(r, vd). Inr (r, put_volume vd g)))"

definition list_dir :: "('d, 'h) kenv \<Rightarrow> u8 list \<Rightarrow> int \<Rightarrow> ('d, 'h) gui \<Rightarrow> (int \<times> fat32_dirent list \<times> ('d, 'h) gui) res" where
  "list_dir E path cap g = (case volume g of (v, d) \<Rightarrow>
     rbind (fat32_list_dir_path (k_fuel E) v (k_read E) d path cap) (\<lambda>(r, es, v'). Inr (r, es, put_volume (v', d) g)))"

text \<open>Files of length 0 count as deleted.\<close>

definition listed_items :: "fat32_dirent list \<Rightarrow> desktop_item list" where
  "listed_items es =
     take DESKTOP_MAX_ITEMS (map (\<lambda>e. \<lparr>d_name = take 12 (ls_name83 e), d_attr = ls_attr e, d_size = ls_size e\<rparr>)
       (filter (\<lambda>e. \<not> (ls_attr e AND 0x10 = 0 \<and> ls_size e = 0)) es))"

definition user_dirs :: "('d, 'h) kenv \<Rightarrow> ('d, 'h) act" where
  "user_dirs E = on_ses (\<lambda>s. ensure_user_dirs_on_disk (k_fuel E) (k_read E) (k_write E) (g_logged_in_user s) s)"

definition desktop_refresh_from_path :: "('d, 'h) kenv \<Rightarrow> input \<Rightarrow> ('d, 'h) act" where
  "desktop_refresh_from_path E I g =
     (if \<not> vol_mounted g then Inr g else
      rbind (user_dirs E g) (\<lambda>g1.
      rbind (list_dir E (g_desktop_dir (g_ses g1)) 128 g1) (\<lambda>(r, es, g2).
      let items = (if r = 0 then listed_items es else []) in
      rbind (desktop_set_items items (int (length items)) (g_desk g2)) (\<lambda>dk.
      let g3 = mark_dirty (g2\<lparr>g_desk := dk\<rparr>) in if r = 0 then desktop_render E I g3 else Inr g3))))"

definition desktop_path_for_name :: "nat \<Rightarrow> u8 list \<Rightarrow> ('d, 'h) gui \<Rightarrow> u8 list" where
  "desktop_path_for_name outsz name g = path_join outsz (g_desktop_dir (g_ses g)) name"

definition desktop_delete_selection :: "('d, 'h) kenv \<Rightarrow> input \<Rightarrow> ('d, 'h) act" where
  "desktop_delete_selection E I g =
     (let sel = desktop_get_selection (g_desk g) in
      if sel < 0 then Inr g else
      case desktop_get_item sel (g_desk g) of None \<Rightarrow> Inr g | Some it \<Rightarrow>
      if d_attr it AND 0x10 \<noteq> 0 then Inr g else
      rbind (write_file E (desktop_path_for_name 96 (d_name it) g) [] 0 g) (\<lambda>(r, g1).
        if r = 0 then desktop_refresh_from_path E I g1 else Inr g1))"

text \<open>The selection moved by \<open>delta\<close> and kept in the list; a missing one counts as the first item.\<close>

definition moved_selection :: "int \<Rightarrow> int \<Rightarrow> int \<Rightarrow> int" where
  "moved_selection count delta sel =
     (let s = (if sel < 0 then 0 else sel) + delta; s1 = (if s < 0 then 0 else s) in if s1 \<ge> count then count - 1 else s1)"

definition desktop_move_selection :: "int \<Rightarrow> ('d, 'h) gui \<Rightarrow> ('d, 'h) gui" where
  "desktop_move_selection delta g =
     (let count = desktop_item_count (g_desk g) in
      if count \<le> 0 then g
      else mark_dirty (g\<lparr>g_desk := desktop_set_selection (moved_selection count delta (desktop_get_selection (g_desk g))) (g_desk g)\<rparr>))"

text \<open>The partition to mount: the first of a FAT32 type, else the whole disk.\<close>

definition mount_lba :: "int \<times> mbr_t \<Rightarrow> u32" where
  "mount_lba p = (case p of (r, m) \<Rightarrow>
     if r = 0 \<and> mbr_valid m
     then case find (\<lambda>q. mp_type q = 0x0B \<or> mp_type q = 0x0C) (mbr_parts m) of Some q \<Rightarrow> mp_lba_first q | None \<Rightarrow> 0
     else 0)"

text \<open>Looking for a disk and mounting it; the volume is the mounted one only if the flag says so.\<close>

definition probe_disk :: "('d, 'h) kenv \<Rightarrow> fat32_vol \<times> 'd \<Rightarrow> (bool \<times> fat32_vol \<times> 'd) res" where
  "probe_disk E vd = (case vd of (v, d0) \<Rightarrow> case k_identify E d0 of (found, d) \<Rightarrow>
     if \<not> found then Inr (False, v, d) else
     case k_read E d 0 1 of None \<Rightarrow> Inr (False, v, d) | Some sec0 \<Rightarrow>
     rbind (mbr_parse sec0) (\<lambda>p. rbind (fat32_mount v (k_read E) d (mount_lba p)) (\<lambda>(mnt, v'). Inr (mnt = 0, v', d))))"

definition ata_identify_disk :: "'p port_io \<Rightarrow> 'p \<Rightarrow> bool \<times> 'p" where
  "ata_identify_disk io h = (case ata_identify io (ata_init io h) of ((r, i), h') \<Rightarrow> (r = 0 \<and> present i \<noteq> 0, h'))"

definition ensure_volume_mounted :: "('d, 'h) kenv \<Rightarrow> input \<Rightarrow> ('d, 'h) gui \<Rightarrow> (bool \<times> ('d, 'h) gui) res" where
  "ensure_volume_mounted E I g =
     (if vol_mounted g then Inr (True, g) else
      rbind (probe_disk E (g_unmounted g)) (\<lambda>(ok, vd).
      if \<not> ok then Inr (False, g\<lparr>g_unmounted := vd\<rparr>) else
      rbind (seq_acts [user_dirs E, desktop_refresh_from_path E I] (g\<lparr>g_ses := (g_ses g)\<lparr>g_vol := Some vd\<rparr>\<rparr>)) (\<lambda>g'. Inr (True, g'))))"

text \<open>An action that needs the volume; without one \<open>otherwise\<close> is done.\<close>

definition when_mounted :: "('d, 'h) kenv \<Rightarrow> input \<Rightarrow> ('d, 'h) act \<Rightarrow> ('d, 'h) act \<Rightarrow> ('d, 'h) act" where
  "when_mounted E I f otherwise g = rbind (ensure_volume_mounted E I g) (\<lambda>(ok, g'). if ok then f g' else otherwise g')"

section \<open>The windows\<close>

definition start_name_prompt :: "prompt_mode \<Rightarrow> u8 list \<Rightarrow> string \<Rightarrow> ('d, 'h) gui \<Rightarrow> ('d, 'h) gui" where
  "start_name_prompt mode default_text title g =
     mark_dirty (on_menus (\<lambda>s. s\<lparr>name_prompt_mode := mode, name_prompt_active := True, name_prompt_ready_click := False,
       name_prompt_buf := take 31 default_text, name_prompt_title := take 47 (cstr title)\<rparr>) g)"

subsection \<open>The editor\<close>

definition base_name :: "u8 list \<Rightarrow> u8 list" where
  "base_name p = drop (nat (scan_back SLASH p (length p) + 1)) p"

definition notepad_set_path_and_name :: "u8 list \<Rightarrow> notepad_t \<Rightarrow> notepad_t" where
  "notepad_set_path_and_name fullpath w = w\<lparr>np_path := take 95 fullpath, np_name := take 12 (base_name fullpath)\<rparr>"

text \<open>The text that was read; the byte after it is set to zero, and what was not delivered is still zero.\<close>

definition loaded_text :: "int \<Rightarrow> u8 list \<Rightarrow> u32 option \<Rightarrow> u8 list res" where
  "loaded_text r out n =
     (let k = unat (case n of None \<Rightarrow> 0 | Some n \<Rightarrow> n) in
      if r \<noteq> 0 then Inr [] else if k \<le> 4095 then Inr (take k (out @ replicate 4095 0)) else Inl BadWrite)"

definition notepad_open_path :: "('d, 'h) kenv \<Rightarrow> input \<Rightarrow> u8 list \<Rightarrow> ('d, 'h) act" where
  "notepad_open_path E I fullpath g =
     (if fullpath = [] then Inr g else
      rbind (read_file E fullpath 4095 g) (\<lambda>(r, out, n, g1).
      rbind (loaded_text r out n) (\<lambda>body.
      let w = place_notepad (k_fb E) (notepad_set_path_and_name fullpath notepad_zero)
      in seq_acts [render_notepad E, upd (set_front WIN_NOTEPAD), upd mark_dirty]
           (g1\<lparr>g_notepad := w\<lparr>np_buf := body, np_cursor := int (length body)\<rparr>\<rparr>))))"

definition notepad_open :: "('d, 'h) kenv \<Rightarrow> input \<Rightarrow> u8 list \<Rightarrow> ('d, 'h) act" where
  "notepad_open E I name g = notepad_open_path E I (desktop_path_for_name 96 name g) g"

definition notepad_close :: "('d, 'h) kenv \<Rightarrow> input \<Rightarrow> ('d, 'h) act" where
  "notepad_close E I = seq_acts [upd (g_notepad_update (\<lambda>w. (close_max w)\<lparr>np_last_drawn := False\<rparr>)), upd mark_dirty, desktop_render E I]"

definition notepad_toggle_maximize :: "('d, 'h) kenv \<Rightarrow> ('d, 'h) gui \<Rightarrow> ('d, 'h) gui" where
  "notepad_toggle_maximize E g =
     (if \<not> win_open (g_notepad g) \<or> \<not> can_maximize (g_notepad g) then g else mark_dirty (g_notepad_update (toggle_maximize (k_fb E)) g))"

text \<open>The first of the names NOTE00.TXT to NOTE99.TXT under which the text can be written.\<close>

definition note_name :: "nat \<Rightarrow> u8 list" where
  "note_name i = cstr ''NOTE'' @ [0x30 + of_nat (i div 10), 0x30 + of_nat (i mod 10)] @ cstr ''.TXT''"

definition notepad_save_as_auto :: "('d, 'h) kenv \<Rightarrow> input \<Rightarrow> ('d, 'h) act" where
  "notepad_save_as_auto E I g =
     rbind (for_loop (\<lambda>i g.
       rbind (write_file E (desktop_path_for_name 96 (note_name i) g) (np_buf (g_notepad g)) (of_nat (length (np_buf (g_notepad g)))) g) (\<lambda>(r, g1).
         if r = 0 then rbind (desktop_refresh_from_path E I g1) (\<lambda>g2. Inr (Return g2)) else Inr (Next g1))) [0..<100] g)
     (\<lambda>fl. case fl of Next g1 \<Rightarrow> Inr g1 | Return g1 \<Rightarrow> Inr g1)"

text \<open>The path a document is saved under: in the directory it came from, else on the desktop.\<close>

definition save_path :: "u8 list \<Rightarrow> ('d, 'h) gui \<Rightarrow> u8 list" where
  "save_path name g =
     (let path = np_path (g_notepad g); dir = path_dirname 96 (if path \<noteq> [] then path else g_desktop_dir (g_ses g))
      in if dir \<noteq> [] then path_join 96 dir name else desktop_path_for_name 96 name g)"

definition notepad_save_current :: "('d, 'h) kenv \<Rightarrow> input \<Rightarrow> u8 list option \<Rightarrow> ('d, 'h) act" where
  "notepad_save_current E I name_override = when_mounted E I (\<lambda>g.
     let src = (case name_override of Some n \<Rightarrow> n | None \<Rightarrow> np_name (g_notepad g)) in
     if src = [] then Inr g else
     let name = sanitize_txt_name 32 src; fullpath = save_path name g; body = np_buf (g_notepad g); data = (if body \<noteq> [] then body else [NEWLINE])
     in rbind (write_file E fullpath data (of_nat (length data)) g) (\<lambda>(r, g1).
        if r = 0 then desktop_refresh_from_path E I (g_notepad_update (\<lambda>w. notepad_set_path_and_name fullpath (w\<lparr>np_name := take 12 name\<rparr>)) g1)
        else Inr g1)) Inr"

definition notepad_new :: "('d, 'h) kenv \<Rightarrow> ('d, 'h) act" where
  "notepad_new E g =
     seq_acts [render_notepad E, upd mark_dirty]
       (g_notepad_update (\<lambda>w. w\<lparr>np_buf := [], np_name := cstr ''UNTITLED.TXT'', np_cursor := 0,
          np_path := desktop_path_for_name 96 (cstr ''UNTITLED.TXT'') g\<rparr>) g)"

definition end_prompt :: "('d, 'h) gui \<Rightarrow> ('d, 'h) gui" where
  "end_prompt g = mark_dirty (on_menus (\<lambda>s. s\<lparr>name_prompt_active := False, ctx_menu_visible := False\<rparr>) g)"

definition prompt_file_name :: "u8 list \<Rightarrow> u8 list" where
  "prompt_file_name buf =
     (let name = sanitize_txt_name 32 (if buf = [] then cstr ''NEWFILE.TXT'' else buf)
      in if name = [] then sanitize_txt_name 32 (cstr ''NEWFILE.TXT'') else name)"

definition create_txt_file_from_prompt :: "('d, 'h) kenv \<Rightarrow> input \<Rightarrow> ('d, 'h) act" where
  "create_txt_file_from_prompt E I g = rbind (ensure_volume_mounted E I g) (\<lambda>(ok, g1).
     let v = fst (volume g1) in
     if \<not> ok \<or> sec_per_clus v = 0 \<or> tot_sec32 v = 0 \<or> first_data_lba v = 0 then Inr (end_prompt g1) else
     let name = prompt_file_name (name_prompt_buf (g_menus g1)) in
     rbind (write_file E (desktop_path_for_name 96 name g1) [NEWLINE] 1 g1) (\<lambda>(r, g2).
     rbind (if r = 0 then seq_acts [desktop_refresh_from_path E I, notepad_open E I name, upd (set_front WIN_NOTEPAD)] g2 else Inr g2) (\<lambda>g3.
       Inr (end_prompt g3))))"

definition name_prompt_commit :: "('d, 'h) kenv \<Rightarrow> input \<Rightarrow> ('d, 'h) act" where
  "name_prompt_commit E I g =
     (let name = sanitize_txt_name 32 (name_prompt_buf (g_menus g)) in
      case name_prompt_mode (g_menus g) of
        PROMPT_CREATE_TXT \<Rightarrow> create_txt_file_from_prompt E I g
      | PROMPT_OPEN_TXT \<Rightarrow> seq_acts [when_mounted E I (seq_acts [notepad_open E I name, upd (set_front WIN_NOTEPAD)]) Inr, upd end_prompt] g
      | PROMPT_SAVE_AS \<Rightarrow> seq_acts [when_mounted E I (notepad_save_current E I (Some name)) Inr, upd end_prompt] g
      | PROMPT_NONE \<Rightarrow> Inr (end_prompt g))"

definition notepad_taskbar_click :: "('d, 'h) kenv \<Rightarrow> input \<Rightarrow> ('d, 'h) act" where
  "notepad_taskbar_click E I g =
     (if \<not> win_open (g_notepad g) then Inr g
      else seq_acts [upd (g_notepad_update (win_min_update Not)), upd mark_dirty, desktop_render E I] g)"

subsection \<open>The file window\<close>

definition file_picker_cancel :: "('d, 'h) gui \<Rightarrow> ('d, 'h) gui" where
  "file_picker_cancel g = g\<lparr>g_file_picker := None\<rparr>"

definition filewin_close :: "('d, 'h) kenv \<Rightarrow> input \<Rightarrow> ('d, 'h) act" where
  "filewin_close E I = seq_acts [upd (g_filewin_update close_max), upd file_picker_cancel, upd mark_dirty, desktop_render E I]"

definition filewin_toggle_maximize :: "('d, 'h) kenv \<Rightarrow> ('d, 'h) gui \<Rightarrow> ('d, 'h) gui" where
  "filewin_toggle_maximize E g =
     (if \<not> win_open (g_filewin g) \<or> \<not> can_maximize (g_filewin g) then g else mark_dirty (g_filewin_update (toggle_maximize (k_fb E)) g))"

definition filewin_refresh_list :: "('d, 'h) kenv \<Rightarrow> ('d, 'h) act" where
  "filewin_refresh_list E g0 =
     (let g = g0\<lparr>g_file_items := [], g_file_status := []\<rparr> in
      if \<not> vol_mounted g then Inr (g\<lparr>g_file_status := cstr ''Disk not mounted''\<rparr>) else
      rbind (list_dir E (fw_path (g_filewin g)) (int DESKTOP_MAX_ITEMS) g) (\<lambda>(r, es, g1).
      if r \<noteq> 0 then Inr (g1\<lparr>g_file_status := cstr ''Path not found''\<rparr>)
      else Inr (g_filewin_update (fw_selection_update (\<lambda>_. -1)) (g1\<lparr>g_file_items := listed_items es, g_file_status := cstr ''OK''\<rparr>))))"

definition filewin_set_path :: "('d, 'h) kenv \<Rightarrow> u8 list \<Rightarrow> ('d, 'h) act" where
  "filewin_set_path E path g =
     (if path = [] then Inr g else
      seq_acts [upd (g_filewin_update (\<lambda>w. w\<lparr>fw_path := take 95 path, fw_selection := -1\<rparr>)), filewin_refresh_list E, upd mark_dirty] g)"

definition filewin_move_selection :: "int \<Rightarrow> ('d, 'h) gui \<Rightarrow> ('d, 'h) gui" where
  "filewin_move_selection delta g =
     (if g_file_items g = [] then g
      else mark_dirty (g_filewin_update (fw_selection_update (moved_selection (int (length (g_file_items g))) delta)) g))"

definition selected_file :: "('d, 'h) gui \<Rightarrow> desktop_item option" where
  "selected_file g =
     (let i = fw_selection (g_filewin g) in if i < 0 \<or> i \<ge> int (length (g_file_items g)) then None else Some (g_file_items g ! nat i))"

definition filewin_delete_selection :: "('d, 'h) kenv \<Rightarrow> input \<Rightarrow> ('d, 'h) act" where
  "filewin_delete_selection E I g =
     (if \<not> vol_mounted g then Inr g else
      case selected_file g of None \<Rightarrow> Inr g | Some it \<Rightarrow>
      if d_attr it AND 0x10 \<noteq> 0 then Inr g else
      rbind (write_file E (path_join 128 (fw_path (g_filewin g)) (d_name it)) [] 0 g) (\<lambda>(r, g1).
        if r = 0 then seq_acts [filewin_refresh_list E, desktop_refresh_from_path E I] g1 else Inr g1))"

text \<open>The directory above: trailing slashes do not count.\<close>

definition filewin_go_up :: "('d, 'h) kenv \<Rightarrow> ('d, 'h) act" where
  "filewin_go_up E g =
     (let path = fw_path (g_filewin g); stem = rev (dropWhile (\<lambda>c. c = SLASH) (rev path)); i = scan_back SLASH stem (length stem) in
      if path = [] then Inr g
      else if i \<le> 0 then filewin_set_path E PATH_BASE g
      else seq_acts [upd (g_filewin_update (fw_path_update (take (nat i)))), filewin_refresh_list E, upd mark_dirty] g)"

definition filewin_open :: "('d, 'h) kenv \<Rightarrow> ('d, 'h) act" where
  "filewin_open E g =
     (if shown (g_filewin g) then Inr g else
      seq_acts [upd (g_filewin_update (\<lambda>w. (place_filewin (k_fb E) w)\<lparr>fw_path := take 95 (g_desktop_dir (g_ses g)), fw_path_focus := False,
          fw_selection := -1\<rparr>)), filewin_refresh_list E, upd (set_front WIN_FILE), upd mark_dirty] g)"

definition filewin_taskbar_click :: "('d, 'h) kenv \<Rightarrow> input \<Rightarrow> ('d, 'h) act" where
  "filewin_taskbar_click E I =
     seq_acts [\<lambda>g. if \<not> win_open (g_filewin g) then filewin_open E g else Inr (g_filewin_update (win_min_update Not) g),
       upd mark_dirty, desktop_render E I]"

definition file_picker_start :: "('d, 'h) kenv \<Rightarrow> string \<Rightarrow> picker_cb \<Rightarrow> ('d, 'h) act" where
  "file_picker_start E ext cb =
     seq_acts [upd (\<lambda>g. g\<lparr>g_file_picker := Some (map upcase (take 4 (cstr ext)), cb)\<rparr>),
       \<lambda>g. if \<not> win_open (g_filewin g) then filewin_open E g else Inr g,
       \<lambda>g. filewin_set_path E (g_desktop_dir (g_ses g)) g,
       upd (g_filewin_update (fw_path_focus_update (\<lambda>_. False))), upd (set_front WIN_FILE)]"

subsection \<open>System monitor, display settings, terminal\<close>

definition taskmgr_open :: "('d, 'h) kenv \<Rightarrow> ('d, 'h) gui \<Rightarrow> ('d, 'h) gui" where
  "taskmgr_open E g = (if shown (g_taskmgr g) then g else mark_dirty (set_front WIN_TASKMGR (g_taskmgr_update (place_taskmgr (k_fb E)) g)))"

definition display_open :: "('d, 'h) gui \<Rightarrow> ('d, 'h) gui" where
  "display_open g = (if shown (g_display g) then g else mark_dirty (set_front WIN_DISPLAY (g_display_update place_display g)))"

definition terminal_open :: "('d, 'h) kenv \<Rightarrow> ('d, 'h) gui \<Rightarrow> ('d, 'h) gui" where
  "terminal_open E g = (if shown (g_terminal g) then g else mark_dirty (set_front WIN_TERMINAL (g_terminal_update (place_terminal (k_fb E)) g)))"

definition taskmgr_close :: "('d, 'h) kenv \<Rightarrow> input \<Rightarrow> ('d, 'h) act" where
  "taskmgr_close E I = seq_acts [upd (g_taskmgr_update close_max), upd mark_dirty, desktop_render E I]"

definition display_close :: "('d, 'h) kenv \<Rightarrow> input \<Rightarrow> ('d, 'h) act" where
  "display_close E I = seq_acts [upd (g_display_update close_max), upd mark_dirty, desktop_render E I]"

definition terminal_close :: "('d, 'h) kenv \<Rightarrow> input \<Rightarrow> ('d, 'h) act" where
  "terminal_close E I = seq_acts [upd (g_terminal_update close_max), upd mark_dirty, desktop_render E I]"

definition taskmgr_toggle_maximize :: "('d, 'h) kenv \<Rightarrow> ('d, 'h) gui \<Rightarrow> ('d, 'h) gui" where
  "taskmgr_toggle_maximize E g =
     (if \<not> win_open (g_taskmgr g) \<or> \<not> can_maximize (g_taskmgr g) then g else mark_dirty (g_taskmgr_update (toggle_maximize (k_fb E)) g))"

definition terminal_toggle_maximize :: "('d, 'h) kenv \<Rightarrow> ('d, 'h) gui \<Rightarrow> ('d, 'h) gui" where
  "terminal_toggle_maximize E g =
     (if \<not> win_open (g_terminal g) \<or> \<not> can_maximize (g_terminal g) then g else mark_dirty (g_terminal_update (toggle_maximize (k_fb E)) g))"

definition taskmgr_taskbar_click :: "('d, 'h) kenv \<Rightarrow> input \<Rightarrow> ('d, 'h) act" where
  "taskmgr_taskbar_click E I =
     seq_acts [upd (\<lambda>g. if \<not> win_open (g_taskmgr g) then taskmgr_open E g else g_taskmgr_update (win_min_update Not) g),
       upd mark_dirty, desktop_render E I]"

definition display_taskbar_click :: "('d, 'h) kenv \<Rightarrow> input \<Rightarrow> ('d, 'h) act" where
  "display_taskbar_click E I =
     seq_acts [upd (\<lambda>g. if \<not> win_open (g_display g) then display_open g else g_display_update (win_min_update Not) g),
       upd mark_dirty, desktop_render E I]"

definition terminal_taskbar_click :: "('d, 'h) kenv \<Rightarrow> input \<Rightarrow> ('d, 'h) act" where
  "terminal_taskbar_click E I =
     seq_acts [upd (\<lambda>g. if \<not> win_open (g_terminal g) then terminal_open E g else g_terminal_update (win_min_update Not) g),
       upd mark_dirty, desktop_render E I]"

subsection \<open>Image viewer\<close>

definition imgview_free_image :: "imgview_t \<Rightarrow> imgview_t" where
  "imgview_free_image w = w\<lparr>iv_img := None, img_w := 0, img_h := 0\<rparr>"

definition imgview_close :: "('d, 'h) kenv \<Rightarrow> input \<Rightarrow> ('d, 'h) act" where
  "imgview_close E I =
     seq_acts [upd (g_imgview_update (\<lambda>w. imgview_free_image ((close_max w)\<lparr>resizing := False\<rparr>))), upd mark_dirty, desktop_render E I]"

definition imgview_toggle_maximize :: "('d, 'h) kenv \<Rightarrow> ('d, 'h) gui \<Rightarrow> ('d, 'h) gui" where
  "imgview_toggle_maximize E g =
     (if \<not> win_open (g_imgview g) \<or> \<not> can_maximize (g_imgview g) then g else mark_dirty (g_imgview_update (toggle_maximize (k_fb E)) g))"

definition imgview_open_path :: "('d, 'h) kenv \<Rightarrow> input \<Rightarrow> u8 list \<Rightarrow> ('d, 'h) act" where
  "imgview_open_path E I fullpath g =
     (if fullpath = [] then Inr g else
      when_mounted E I (\<lambda>g. case volume g of (v, d) \<Rightarrow>
        rbind (imgview_load_bmp (\<lambda>v. fat32_read_file_path (k_fuel E) v (k_read E) d fullpath) (v, g_heap g)) (\<lambda>(r, v', heap).
        let g1 = put_volume (v', d) (g\<lparr>g_heap := heap\<rparr>) in
        case r of None \<Rightarrow> Inr g1 | Some (img, w, h) \<Rightarrow>
          Inr (mark_dirty (set_front WIN_IMGVIEW (g_imgview_update (\<lambda>iv. place_imgview (k_fb E)
            ((imgview_free_image iv)\<lparr>iv_img := Some img, img_w := w, img_h := h, iv_path := take 95 fullpath\<rparr>)) g1))))) Inr g)"

definition find_first_wallpaper_name :: "('d, 'h) kenv \<Rightarrow> nat \<Rightarrow> ('d, 'h) gui \<Rightarrow> u8 list option res" where
  "find_first_wallpaper_name E out_sz g = (case volume g of (v, d) \<Rightarrow>
     rbind (fat32_list_root_array (k_fuel E) v (k_read E) d 128) (\<lambda>(r, es).
     if r \<noteq> 0 then Inr None else
     Inr (map_option (\<lambda>e. take (out_sz - 1) (ls_name83 e)) (find (\<lambda>e. ls_attr e AND 0x10 = 0 \<and> str_ieq_ext (ls_name83 e) (cstr ''BMP'')) es))))"

definition imgview_taskbar_click :: "('d, 'h) kenv \<Rightarrow> input \<Rightarrow> ('d, 'h) act" where
  "imgview_taskbar_click E I =
     seq_acts [\<lambda>g. if win_open (g_imgview g) then Inr (g_imgview_update (win_min_update Not) g) else
         rbind (imgview_open_path E I PATH_WALLPAPER g) (\<lambda>g1.
         if win_open (g_imgview g1) then Inr g1 else
         rbind (find_first_wallpaper_name E 13 g1) (\<lambda>nm. case nm of None \<Rightarrow> Inr g1
         | Some found \<Rightarrow> imgview_open_path E I (path_join 96 PATH_WALL_DIR found) g1)),
       upd mark_dirty, desktop_render E I]"

subsection \<open>Sound player\<close>

definition wavplay_open :: "('d, 'h) gui \<Rightarrow> ('d, 'h) gui" where
  "wavplay_open g = (if shown (g_wavplay g) then g else mark_dirty (set_front WIN_WAVPLAY (g_wavplay_update place_wavplay g)))"

definition wavplay_close :: "('d, 'h) kenv \<Rightarrow> input \<Rightarrow> ('d, 'h) act" where
  "wavplay_close E I =
     seq_acts [upd (g_wavplay_update (\<lambda>w. w\<lparr>win_open := False, win_min := False, dragging := False\<rparr>)), upd mark_dirty, desktop_render E I]"

definition wavplay_pick_cb :: "u8 list \<Rightarrow> u8 list \<Rightarrow> ('d, 'h) gui \<Rightarrow> ('d, 'h) gui" where
  "wavplay_pick_cb fullpath name83 g =
     mark_dirty (set_front WIN_WAVPLAY (g_wavplay_update (\<lambda>w. w\<lparr>wp_path := take 127 fullpath, wp_name := take 31 name83,
       win_open := True, win_min := False\<rparr>) g))"

definition wavplay_taskbar_click :: "('d, 'h) kenv \<Rightarrow> input \<Rightarrow> ('d, 'h) act" where
  "wavplay_taskbar_click E I =
     seq_acts [upd (\<lambda>g. if \<not> win_open (g_wavplay g) then wavplay_open g else g_wavplay_update (win_min_update Not) g),
       upd mark_dirty, desktop_render E I]"

definition wavplay_play :: "('d, 'h) kenv \<Rightarrow> ('d, 'h) act" where
  "wavplay_play E g =
     (if wp_path (g_wavplay g) = [] then Inr g else
      rbind (sound_play_wav_path (k_fuel E) (k_read E) (k_audio E) (k_pool E) (wp_path (g_wavplay g)) (g_ses g, g_heap g, g_sound g)) (\<lambda>(s, heap, a).
        Inr (g\<lparr>g_ses := s, g_heap := heap, g_sound := a\<rparr>)))"

subsection \<open>The file picker\<close>

definition picked :: "('d, 'h) kenv \<Rightarrow> input \<Rightarrow> picker_cb \<Rightarrow> u8 list \<Rightarrow> u8 list \<Rightarrow> ('d, 'h) act" where
  "picked E I cb fullpath name83 = (case cb of
     Notepad_file_pick_cb \<Rightarrow> seq_acts [notepad_open_path E I fullpath, upd (set_front WIN_NOTEPAD)]
   | Wavplay_pick_cb \<Rightarrow> upd (wavplay_pick_cb fullpath name83))"

definition file_picker_handle_selection :: "('d, 'h) kenv \<Rightarrow> input \<Rightarrow> u8 list \<Rightarrow> u8 list \<Rightarrow> ('d, 'h) act" where
  "file_picker_handle_selection E I fullpath name83 g = (case g_file_picker g of None \<Rightarrow> Inr g | Some (_, cb) \<Rightarrow>
     seq_acts [picked E I cb fullpath name83, upd file_picker_cancel, upd (g_filewin_update (win_open_update (\<lambda>_. False))),
       upd mark_dirty, desktop_render E I] g)"

text \<open>What the taskbar calls for the entry of a window.\<close>

definition taskbar_callback :: "('d, 'h) kenv \<Rightarrow> input \<Rightarrow> nat \<Rightarrow> ('d, 'h) act" where
  "taskbar_callback E I k =
     [notepad_taskbar_click E I, filewin_taskbar_click E I, taskmgr_taskbar_click E I, display_taskbar_click E I,
      terminal_taskbar_click E I, imgview_taskbar_click E I, wavplay_taskbar_click E I] ! k"

section \<open>Menus\<close>

subsection \<open>The launch menu\<close>

definition launch_core :: "launch_item list" where
  "launch_core = map (\<lambda>(n, t). \<lparr>l_name = cstr n, l_type = t, l_path = []\<rparr>)
     [(''Logout'', L_ACTION_LOGOUT), (''Reboot'', L_ACTION_REBOOT), (''Shutdown'', L_ACTION_SHUTDOWN)]"

definition launch_programs :: "u8 list \<Rightarrow> fat32_dirent list \<Rightarrow> launch_item list" where
  "launch_programs prog_dir es =
     take (24 - 3) (map (\<lambda>e. \<lparr>l_name = take 31 (ls_name83 e), l_type = L_ACTION_APP, l_path = path_join 96 prog_dir (ls_name83 e)\<rparr>)
       (filter (\<lambda>e. ls_attr e AND 0x10 = 0) es))"

definition launch_refresh_items :: "('d, 'h) kenv \<Rightarrow> input \<Rightarrow> ('d, 'h) act" where
  "launch_refresh_items E I g =
     (let fill = (\<lambda>ps. on_menus (\<lambda>s. s\<lparr>launch_items := launch_core @ ps, launch_last_refresh := in_jiffies I\<rparr>)) in
      if \<not> vol_mounted g then Inr (fill [] g) else
      rbind (list_dir E (g_prog_dir (g_ses g)) 16 g) (\<lambda>(r, es, g1). Inr (fill (if r = 0 then launch_programs (g_prog_dir (g_ses g)) es else []) g1)))"

definition launch_toggle :: "('d, 'h) kenv \<Rightarrow> input \<Rightarrow> bool \<Rightarrow> ('d, 'h) act" where
  "launch_toggle E I show_it =
     (if show_it then seq_acts [launch_refresh_items E I,
        upd (on_menus (\<lambda>s. let y = sint (fb_height (k_fb E)) - 34 - (26 * int (length (launch_items s)) + 12) - 4
          in s\<lparr>launch_x := 8, launch_y := (if y < 4 then 4 else y), launch_visible := True\<rparr>)), upd mark_dirty]
      else seq_acts [upd (on_menus (launch_visible_update (\<lambda>_. False))), upd mark_dirty])"

definition launch_do_logout :: "('d, 'h) gui \<Rightarrow> ('d, 'h) gui" where
  "launch_do_logout g =
     (let s = (login_reset_password (g_ses g))\<lparr>g_login_active := True, g_login_dirty := True, g_login_pw_focus := True,
                g_login_message := cstr ''Select a user and log in.''\<rparr>
      in mark_dirty (on_menus (launch_visible_update (\<lambda>_. False))
           (g\<lparr>g_session_started := False, g_ses := s, g_notepad := (g_notepad g)\<lparr>win_open := False\<rparr>, g_filewin := (g_filewin g)\<lparr>win_open := False\<rparr>\<rparr>)))"

text \<open>Shutting down stops the processor inside this function: nothing after it runs.\<close>

definition launch_activate :: "('d, 'h) kenv \<Rightarrow> input \<Rightarrow> int \<Rightarrow> ('d, 'h) act" where
  "launch_activate E I idx g =
     (if idx < 0 \<or> idx \<ge> int (length (launch_items (g_menus g))) then Inr g else
      let it = launch_items (g_menus g) ! nat idx; hide = upd (\<lambda>g. mark_dirty (on_menus (launch_visible_update (\<lambda>_. False)) g)) in
      case l_type it of
        L_ACTION_LOGOUT \<Rightarrow> seq_acts [upd launch_do_logout, hide] g
      | L_ACTION_REBOOT \<Rightarrow> hide g
      | L_ACTION_SHUTDOWN \<Rightarrow> Inr (g_loop_update (halted_update (\<lambda>_. True)) g)
      | L_ACTION_APP \<Rightarrow> seq_acts [if str_ieq_ext (l_name it) (cstr ''TXT'') then notepad_open E I (take 12 (l_name it)) else Inr, hide] g)"

subsection \<open>The top menu\<close>

definition topmenu_actions :: "int \<Rightarrow> ctx_action list" where
  "topmenu_actions i =
     (if i = 0 then [CTX_ACT_NOTEPAD_NEW, CTX_ACT_NOTEPAD_OPEN, CTX_ACT_NOTEPAD_SAVE, CTX_ACT_NOTEPAD_SAVE_AS, CTX_ACT_NOTEPAD_CLOSE]
      else [CTX_ACT_WIN_MINIMIZE, CTX_ACT_WIN_TOGGLE_MAX])"

definition save_as_prompt :: "('d, 'h) gui \<Rightarrow> ('d, 'h) gui" where
  "save_as_prompt g =
     start_name_prompt PROMPT_SAVE_AS (if np_name (g_notepad g) \<noteq> [] then np_name (g_notepad g) else cstr ''UNTITLED.TXT'') ''Save As:'' g"

definition notepad_save :: "('d, 'h) kenv \<Rightarrow> input \<Rightarrow> ('d, 'h) act" where
  "notepad_save E I g = (if np_name (g_notepad g) \<noteq> [] then notepad_save_current E I None g else Inr (save_as_prompt g))"

definition minimize :: "'a win_scheme \<Rightarrow> 'a win_scheme" where
  "minimize w = (if can_minimize w then w\<lparr>win_min := True\<rparr> else w)"

text \<open>A window that cannot be minimised lets the tests go on, but only one of them names the front window.\<close>

definition minimize_front :: "('d, 'h) gui \<Rightarrow> ('d, 'h) gui" where
  "minimize_front g = mark_dirty
     (if front g = WIN_NOTEPAD then g_notepad_update minimize g
      else if front g = WIN_FILE then g_filewin_update minimize g
      else if front g = WIN_TASKMGR then g_taskmgr_update minimize g
      else if front g = WIN_DISPLAY then g_display_update minimize g
      else if front g = WIN_TERMINAL then g_terminal_update minimize g
      else if front g = WIN_IMGVIEW then g_imgview_update minimize g else g)"

definition toggle_front :: "('d, 'h) kenv \<Rightarrow> ('d, 'h) gui \<Rightarrow> ('d, 'h) gui" where
  "toggle_front E g = mark_dirty
     (if front g = WIN_NOTEPAD then notepad_toggle_maximize E g
      else if front g = WIN_FILE then filewin_toggle_maximize E g
      else if front g = WIN_TASKMGR then taskmgr_toggle_maximize E g
      else if front g = WIN_TERMINAL then terminal_toggle_maximize E g
      else if front g = WIN_IMGVIEW then imgview_toggle_maximize E g else g)"

definition topmenu_apply_action :: "('d, 'h) kenv \<Rightarrow> input \<Rightarrow> ctx_action \<Rightarrow> ('d, 'h) act" where
  "topmenu_apply_action E I act = (case act of
     CTX_ACT_NOTEPAD_NEW \<Rightarrow> notepad_new E
   | CTX_ACT_NOTEPAD_OPEN \<Rightarrow> file_picker_start E ''TXT'' Notepad_file_pick_cb
   | CTX_ACT_NOTEPAD_SAVE \<Rightarrow> notepad_save E I
   | CTX_ACT_NOTEPAD_SAVE_AS \<Rightarrow> upd save_as_prompt
   | CTX_ACT_NOTEPAD_CLOSE \<Rightarrow> notepad_close E I
   | CTX_ACT_WIN_MINIMIZE \<Rightarrow> upd minimize_front
   | CTX_ACT_WIN_TOGGLE_MAX \<Rightarrow> upd (toggle_front E)
   | _ \<Rightarrow> Inr)"

definition topmenu_title_click :: "('d, 'h) kenv \<Rightarrow> input \<Rightarrow> ('d, 'h) gui \<Rightarrow> (bool \<times> ('d, 'h) gui) res" where
  "topmenu_title_click E I g =
     (case find (\<lambda>i. in_title (in_mx I) (in_my I) (topmenu_layout_titles (k_font E) ! i)) [0..<2] of
        None \<Rightarrow> Inr (False, g)
      | Some i \<Rightarrow> Inr (True, mark_dirty (on_menus (\<lambda>s. s\<lparr>topmenu_open := (if topmenu_open s = int i then -1 else int i)\<rparr>) g)))"

definition topmenu_handle_click :: "('d, 'h) kenv \<Rightarrow> input \<Rightarrow> ('d, 'h) gui \<Rightarrow> (bool \<times> ('d, 'h) gui) res" where
  "topmenu_handle_click E I g =
     (let which = topmenu_open (g_menus g); close_menu = on_menus (topmenu_open_update (\<lambda>_. -1)) in
      if \<not> topmenu_active_window g then Inr (False, on_menus topmenu_reset g)
      else if which \<ge> 0 then
        (let (menu_x, menu_w) = topmenu_box (k_fb E) (k_font E) which; acts = topmenu_actions which; n = int (length acts);
             idx = (in_my I - TOPBAR_H - 4) sdiv 20
         in if point_in_rect (in_mx I) (in_my I) menu_x TOPBAR_H menu_w (n * 20 + 8)
            then if 0 \<le> idx \<and> idx < n
                 then jump (seq_acts [topmenu_apply_action E I (acts ! nat idx), upd close_menu, upd mark_dirty, desktop_render E I]) g
                 else topmenu_title_click E I g
            else Inr (True, mark_dirty (close_menu g)))
      else topmenu_title_click E I g)"

subsection \<open>The context menu\<close>

definition ctx_menu_hide :: "('d, 'h) gui \<Rightarrow> ('d, 'h) gui" where
  "ctx_menu_hide g = mark_dirty (on_menus (\<lambda>s. s\<lparr>ctx_menu_visible := False, ctx_menu_target := CTX_NONE, ctx_items := []\<rparr>) g)"

definition ctx_menu_entries :: "ctx_target \<Rightarrow> (string \<times> ctx_action) list" where
  "ctx_menu_entries target = (case target of
     CTX_DESKTOP \<Rightarrow> [(''New Text File'', CTX_ACT_NEW_TXT), (''Refresh'', CTX_ACT_REFRESH_DESKTOP)]
   | CTX_NOTEPAD \<Rightarrow> [(''New'', CTX_ACT_NOTEPAD_NEW), (''Open...'', CTX_ACT_NOTEPAD_OPEN), (''Save'', CTX_ACT_NOTEPAD_SAVE),
       (''Save As...'', CTX_ACT_NOTEPAD_SAVE_AS), (''Close'', CTX_ACT_NOTEPAD_CLOSE)]
   | CTX_FILEWIN \<Rightarrow> [(''Open'', CTX_ACT_FILE_OPEN), (''Up'', CTX_ACT_FILE_UP), (''Refresh'', CTX_ACT_FILE_REFRESH)]
   | CTX_NONE \<Rightarrow> [])"

definition ctx_menu_build :: "font \<Rightarrow> ctx_target \<Rightarrow> menus \<Rightarrow> menus" where
  "ctx_menu_build ft target s =
     (let items = map (\<lambda>(l, a). (cstr l, a)) (ctx_menu_entries target); char_w = (if psf_width ft \<noteq> 0 then psf_width ft else 8)
      in s\<lparr>ctx_items := items, ctx_menu_w := 20 + max_length (map fst items) * char_w, ctx_menu_h := int (length items) * 24 + 8\<rparr>)"

definition ctx_menu_show :: "('d, 'h) kenv \<Rightarrow> ctx_target \<Rightarrow> int \<Rightarrow> int \<Rightarrow> ('d, 'h) gui \<Rightarrow> ('d, 'h) gui" where
  "ctx_menu_show E target x y g =
     mark_dirty (on_menus (\<lambda>s. let s1 = ctx_menu_build (k_font E) target (s\<lparr>ctx_menu_target := target, ctx_menu_x := x, ctx_menu_y := y\<rparr>)
       in s1\<lparr>ctx_menu_visible := ctx_items s1 \<noteq> []\<rparr>) g)"

definition file_open_selected :: "('d, 'h) kenv \<Rightarrow> input \<Rightarrow> ('d, 'h) act" where
  "file_open_selected E I g = (case selected_file g of None \<Rightarrow> Inr g | Some it \<Rightarrow>
     if d_attr it AND 0x10 \<noteq> 0 then filewin_set_path E (path_join 96 (fw_path (g_filewin g)) (d_name it)) g
     else if str_ieq_ext (d_name it) (cstr ''TXT'') then notepad_open E I (d_name it) g else Inr g)"

definition ctx_menu_handle_action :: "('d, 'h) kenv \<Rightarrow> input \<Rightarrow> ctx_action \<Rightarrow> ('d, 'h) act" where
  "ctx_menu_handle_action E I act = seq_acts [case act of
     CTX_ACT_NEW_TXT \<Rightarrow> upd (start_name_prompt PROMPT_CREATE_TXT (cstr ''NEWFILE.TXT'') ''New TXT filename:'')
   | CTX_ACT_REFRESH_DESKTOP \<Rightarrow> desktop_refresh_from_path E I
   | CTX_ACT_NOTEPAD_NEW \<Rightarrow> notepad_new E
   | CTX_ACT_NOTEPAD_OPEN \<Rightarrow> file_picker_start E ''TXT'' Notepad_file_pick_cb
   | CTX_ACT_NOTEPAD_SAVE \<Rightarrow> notepad_save_current E I None
   | CTX_ACT_NOTEPAD_SAVE_AS \<Rightarrow> upd save_as_prompt
   | CTX_ACT_NOTEPAD_CLOSE \<Rightarrow> notepad_close E I
   | CTX_ACT_FILE_REFRESH \<Rightarrow> filewin_refresh_list E
   | CTX_ACT_FILE_OPEN \<Rightarrow> file_open_selected E I
   | CTX_ACT_FILE_UP \<Rightarrow> filewin_go_up E
   | CTX_ACT_WIN_MINIMIZE \<Rightarrow> topmenu_apply_action E I CTX_ACT_WIN_MINIMIZE
   | CTX_ACT_WIN_TOGGLE_MAX \<Rightarrow> topmenu_apply_action E I CTX_ACT_WIN_TOGGLE_MAX
   | _ \<Rightarrow> Inr, upd ctx_menu_hide]"

subsection \<open>Shortcuts of the taskbar\<close>

definition shortcut_open :: "('d, 'h) kenv \<Rightarrow> nat \<Rightarrow> ('d, 'h) act" where
  "shortcut_open E i =
     [seq_acts [filewin_open E, upd (set_front WIN_FILE)], seq_acts [upd (taskmgr_open E), upd (set_front WIN_TASKMGR)],
      seq_acts [upd (terminal_open E), upd (set_front WIN_TERMINAL)], seq_acts [upd wavplay_open, upd (set_front WIN_WAVPLAY)]] ! i"

definition taskbar_handle_shortcut_click :: "('d, 'h) kenv \<Rightarrow> input \<Rightarrow> int \<Rightarrow> int \<Rightarrow> int \<Rightarrow> ('d, 'h) gui \<Rightarrow> (bool \<times> ('d, 'h) gui) res" where
  "taskbar_handle_shortcut_click E I x y h g =
     (case find (\<lambda>i. point_in_rect (in_mx I) (in_my I) (x + 6 + int i * (28 + 6)) (y + (h - 28) sdiv 2) 28 28) [0..<4] of
        None \<Rightarrow> Inr (False, g)
      | Some i \<Rightarrow> jump (seq_acts [shortcut_open E i, upd mark_dirty, desktop_render E I]) g)"

section \<open>Logging in\<close>

definition start_desktop_session :: "('d, 'h) kenv \<Rightarrow> input \<Rightarrow> ('d, 'h) act" where
  "start_desktop_session E I g =
     (if g_session_started g \<or> \<not> k_fb_ready E then Inr g else
      seq_acts [upd (\<lambda>g. g\<lparr>g_session_started := True\<rparr>), filewin_open E, upd (taskmgr_open E), upd mark_dirty, desktop_render E I] g)"

definition login_welcome :: "u8 list \<Rightarrow> 'd session \<Rightarrow> 'd session res" where
  "login_welcome uname s =
     rbind (sprintf 64 (cstr ''Welcome, %s'') [Arg_str uname]) (\<lambda>(_, msg). Inr (s\<lparr>g_logged_in_user := take 15 uname, g_login_message := msg\<rparr>))"

definition login_refuse :: "u8 list \<Rightarrow> 'd session \<Rightarrow> 'd session res" where
  "login_refuse uname s =
     rbind (sprintf 64 (cstr ''Password does not match for %s'') [Arg_str uname]) (\<lambda>(_, msg).
       Inr (login_mark_dirty (login_reset_password (s\<lparr>g_login_message := msg\<rparr>))))"

definition login_selected_user :: "'d session \<Rightarrow> 'd session" where
  "login_selected_user s0 =
     (let s = (if g_users s0 = [] then user_load_default s0 else s0)
      in if g_login_selected s \<ge> int (length (g_users s)) then s\<lparr>g_login_selected := 0\<rparr> else s)"

definition login_attempt :: "('d, 'h) kenv \<Rightarrow> input \<Rightarrow> ('d, 'h) act" where
  "login_attempt E I g0 =
     (let g = g_ses_update login_selected_user g0; s = g_ses g; uname = u_name (g_users s ! nat (g_login_selected s)) in
      if g_login_selected s < 0 then Inl BadRead
      else if user_verify uname (g_login_pw s) s
      then seq_acts [on_ses (login_welcome uname), on_ses (ensure_user_dirs_on_disk (k_fuel E) (k_read E) (k_write E) uname), on_ses (build_user_desktop_path uname), desktop_refresh_from_path E I,
             upd (g_ses_update (\<lambda>s. s\<lparr>g_login_active := False, g_login_dirty := False\<rparr>)), start_desktop_session E I] g
      else on_ses (login_refuse uname) g)"

end
