(* ===== verification/Main_Loop.thy ===== *)
theory Main_Loop
  imports Gui
begin

text \<open>
  The event loop of \<open>kmain\<close> in \<open>src/kernel/kernel.c\<close>: one round is a function of the state and of the input sampled in
  it. The sections of the loop are definitions of their own, in the order of the code; a section that leaves with
  \<open>goto after_left_click\<close> or \<open>goto after_keys\<close> sets the flag of \<open>chain\<close>. The round ends at \<open>sti; hlt\<close>.
\<close>

section \<open>Keyboard\<close>

definition key_rows :: "string \<Rightarrow> string \<Rightarrow> u8 list \<Rightarrow> u8 list \<Rightarrow> u8 list \<Rightarrow> u8 list" where
  "key_rows digits upper home bar lower =
     (let t = [0, 27] @ cstr digits @ [8, 9] @ cstr upper @ [10, 0] @ home @ [0] @ bar @ lower @ [0, 0x2A, 0, 0x20]
      in t @ replicate (128 - length t) 0)"

definition key_normal :: "u8 list" where
  "key_normal = key_rows ''1234567890-='' ''qwertyuiop[]'' (cstr ''asdfghjkl;'' @ [0x27, 0x60]) [0x5C] (cstr ''zxcvbnm,./'')"

definition key_shift :: "u8 list" where
  "key_shift = key_rows ''!@#$%^&*()_+'' ''QWERTYUIOP{}'' (cstr ''ASDFGHJKL:'' @ [0x22, 0x7E]) [0x7C] (cstr ''ZXCVBNM<>?'')"

text \<open>\<open>g_caps_on ^ g_shift_down\<close> is not zero when the two numbers differ.\<close>

definition key_to_char :: "u8 \<Rightarrow> loop_vars \<Rightarrow> u8" where
  "key_to_char sc s =
     (if sc \<ge> 128 then 0 else
      let c_norm = key_normal ! unat sc; c_shift = key_shift ! unat sc in
      if c_norm \<ge> 0x61 \<and> c_norm \<le> 0x7A then (if (if caps_on s then 1 else 0) \<noteq> shift_down s then c_norm - 32 else c_norm)
      else if shift_down s \<noteq> 0 then c_shift else c_norm)"

definition key_release :: "u8 \<Rightarrow> loop_vars \<Rightarrow> loop_vars" where
  "key_release scode s =
     (if scode = 0x38 then s\<lparr>alt_down := False\<rparr>
      else if scode = 0x5B then s\<lparr>win_down := False\<rparr>
      else if scode = 0x2A \<or> scode = 0x36 then s\<lparr>shift_down := (if shift_down s > 0 then shift_down s - 1 else 0)\<rparr> else s)"

definition arrow_key :: "u8 \<Rightarrow> ('d, 'h) gui \<Rightarrow> ('d, 'h) gui" where
  "arrow_key scode g =
     (let delta = (if scode = 0x48 \<or> scode = 0x4B then -1 else 1)
      in if front g = WIN_FILE \<and> shown (g_filewin g) then filewin_move_selection delta g else desktop_move_selection delta g)"

text \<open>The dispatch of a scan code; the first result is the code that is left for the windows.\<close>

definition key_dispatch :: "('d, 'h) kenv \<Rightarrow> input \<Rightarrow> ('d, 'h) gui \<Rightarrow> (u8 option \<times> ('d, 'h) gui) res" where
  "key_dispatch E I g = (case in_sc I of None \<Rightarrow> Inr (None, g) | Some sc \<Rightarrow>
     let scode = sc AND 0x7F; used = (\<lambda>f. rbind (f g) (\<lambda>g'. Inr (None, g'))); kept = (\<lambda>f. Inr (Some sc, g_loop_update f g)) in
     if sc AND 0x80 \<noteq> 0 then Inr (None, g_loop_update (key_release scode) g)
     else if scode = 0x38 then kept (alt_down_update (\<lambda>_. True))
     else if scode = 0x5B
     then used (seq_acts [upd (g_loop_update (win_down_update (\<lambda>_. True))), launch_toggle E I (\<not> launch_visible (g_menus g)), desktop_render E I])
     else if scode = 0x2A \<or> scode = 0x36
     then rbind (i32 (shift_down (g_loop g) + 1)) (\<lambda>n. Inr (Some sc, g_loop_update (shift_down_update (\<lambda>_. n)) g))
     else if scode = 0x3A then kept (caps_on_update Not)
     else if scode = 0x0F \<and> alt_down (g_loop g)
     then used (seq_acts [upd (\<lambda>g. g_wm_update (wm_cycle_next (win_flags g)) g), upd mark_dirty, desktop_render E I])
     else if scode = 0x53
     then used (if win_open (g_filewin g) \<and> front g = WIN_FILE then filewin_delete_selection E I else desktop_delete_selection E I)
     else if scode \<in> {0x48, 0x50, 0x4B, 0x4D} then used (upd (arrow_key scode))
     else kept (\<lambda>s. s))"

section \<open>Login screen\<close>

definition pressed :: "u8 \<Rightarrow> input \<Rightarrow> ('d, 'h) gui \<Rightarrow> bool" where
  "pressed b I g \<longleftrightarrow> in_btn I AND b \<noteq> 0 \<and> prev_btn (g_loop g) AND b = 0"

definition login_hovered :: "login_layout_t \<Rightarrow> input \<Rightarrow> nat \<Rightarrow> int" where
  "login_hovered lo I n =
     (case find (\<lambda>i. point_in_rect (in_mx I) (in_my I) (card_x lo) (list_y lo + int i * (card_h lo + card_gap lo)) (card_w lo) (card_h lo)) [0..<n] of
        None \<Rightarrow> -1 | Some i \<Rightarrow> int i)"

definition login_set_hover :: "int \<Rightarrow> 'd session \<Rightarrow> 'd session" where
  "login_set_hover h s = (if h \<noteq> g_login_hover s then login_mark_dirty (s\<lparr>g_login_hover := h\<rparr>) else s)"

definition login_click :: "('d, 'h) kenv \<Rightarrow> input \<Rightarrow> int \<Rightarrow> ('d, 'h) act" where
  "login_click E I hover =
     (let lo = login_layout_compute (k_fb E); mx = in_mx I; my = in_my I in
      seq_acts [upd (g_ses_update (\<lambda>s. if hover \<ge> 0 then login_mark_dirty (s\<lparr>g_login_selected := hover, g_login_pw_focus := True\<rparr>) else s)),
        if point_in_rect mx my (pw_x lo) (pw_y lo) (pw_w lo) (pw_h lo)
        then upd (g_ses_update (\<lambda>s. login_mark_dirty (s\<lparr>g_login_pw_focus := True\<rparr>)))
        else if point_in_rect mx my (btn_x lo) (btn_y lo) (btn_w lo) (btn_h lo) then login_attempt E I
        else upd (g_ses_update (g_login_pw_focus_update (\<lambda>_. False)))])"

definition login_key :: "('d, 'h) kenv \<Rightarrow> input \<Rightarrow> u8 \<Rightarrow> ('d, 'h) act" where
  "login_key E I sc g =
     (if sc = 0x1C then login_attempt E I g
      else Inr (g_ses_update (\<lambda>s.
        if sc = 0x0E then (if g_login_pw s \<noteq> [] then login_mark_dirty (s\<lparr>g_login_pw := butlast (g_login_pw s)\<rparr>) else s)
        else if sc < 128 then
          let c = key_to_char sc (g_loop g)
          in if c \<noteq> 0 \<and> length (g_login_pw s) < 31 then login_mark_dirty (s\<lparr>g_login_pw := g_login_pw s @ [c]\<rparr>) else s
        else s) g))"

definition login_frame :: "('d, 'h) kenv \<Rightarrow> input \<Rightarrow> ('d, 'h) act" where
  "login_frame E I g =
     (if in_jiffies I - login_last_frame (g_loop g) \<ge> desktop_frame_ticks_value (g_desk g) \<or> g_login_dirty (g_ses g)
      then rbind (login_render (k_fb E) (k_blob E) (k_font E) (cur (g_cursor g)) (in_mx I) (in_my I) (g_ses g, g_screen g)) (\<lambda>(s, m).
             Inr (g_loop_update (login_last_frame_update (\<lambda>_. in_jiffies I)) (g\<lparr>g_ses := s, g_screen := m\<rparr>)))
      else Inr g)"

definition set_prev_btn :: "input \<Rightarrow> ('d, 'h) gui \<Rightarrow> ('d, 'h) gui" where
  "set_prev_btn I = g_loop_update (prev_btn_update (\<lambda>_. in_btn I))"

definition login_step :: "('d, 'h) kenv \<Rightarrow> input \<Rightarrow> u8 option \<Rightarrow> ('d, 'h) act" where
  "login_step E I sc g =
     (if \<not> k_fb_ready E then Inr (set_prev_btn I g) else
      let hover = login_hovered (login_layout_compute (k_fb E)) I (length (g_users (g_ses g))) in
      seq_acts [upd (g_ses_update (login_set_hover hover)),
        if pressed 1 I g then login_click E I hover else Inr,
        upd (set_prev_btn I),
        \<lambda>g. case sc of Some c \<Rightarrow> if g_login_pw_focus (g_ses g) then login_key E I c g else Inr g | None \<Rightarrow> Inr g,
        login_frame E I] g)"

section \<open>Left button\<close>

type_synonym ('d, 'h) part = "('d, 'h) gui \<Rightarrow> (bool \<times> ('d, 'h) gui) res"

definition skip :: "('d, 'h) part" where
  "skip g = Inr (False, g)"

definition click_ctx_menu :: "('d, 'h) kenv \<Rightarrow> input \<Rightarrow> ('d, 'h) part" where
  "click_ctx_menu E I g =
     (let s = g_menus g; x = clamp_edge (fb_width (k_fb E)) (ctx_menu_w s) (ctx_menu_x s); y = clamp_edge (fb_height (k_fb E)) (ctx_menu_h s) (ctx_menu_y s);
          idx = (in_my I - y - 4) sdiv 24
      in if \<not> ctx_menu_visible s then skip g
         else if point_in_rect (in_mx I) (in_my I) x y (ctx_menu_w s) (ctx_menu_h s)
         then jump (if 0 \<le> idx \<and> idx < int (length (ctx_items s)) then ctx_menu_handle_action E I (snd (ctx_items s ! nat idx)) else Inr) g
         else jump (upd ctx_menu_hide) g)"

text \<open>The code tests the context menu a second time after this section; it has already jumped then.\<close>

definition click_prompt :: "('d, 'h) kenv \<Rightarrow> input \<Rightarrow> ('d, 'h) part" where
  "click_prompt E I g =
     (if name_prompt_active (g_menus g) \<and> name_prompt_ready_click (g_menus g) then jump (name_prompt_commit E I) g else skip g)"

definition hide_launch :: "('d, 'h) gui \<Rightarrow> ('d, 'h) gui" where
  "hide_launch = on_menus (launch_visible_update (\<lambda>_. False))"

definition taskbar_window_click :: "('d, 'h) kenv \<Rightarrow> input \<Rightarrow> int \<Rightarrow> ('d, 'h) act" where
  "taskbar_window_click E I y g =
     rbind (wm_handle_taskbar_click (win_flags g) (in_mx I) (in_my I) y 32 80 (g_wm g)) (\<lambda>(wm, hit).
       case hit of None \<Rightarrow> Inr (g\<lparr>g_wm := wm\<rparr>) | Some (_, k) \<Rightarrow> taskbar_callback E I k (g\<lparr>g_wm := wm\<rparr>))"

text \<open>The comparison with \<open>fb.height\<close> is unsigned.\<close>

definition click_taskbar :: "('d, 'h) kenv \<Rightarrow> input \<Rightarrow> ('d, 'h) part" where
  "click_taskbar E I g =
     (let y = sint (fb_height (k_fb E) - 32) in
      if \<not> (in_my I \<ge> y \<and> word_of_int (in_my I) < fb_height (k_fb E)) then skip g
      else if in_mx I < 90 then jump (launch_toggle E I (\<not> launch_visible (g_menus g))) g
      else chain [taskbar_handle_shortcut_click E I 80 y 32, jump (taskbar_window_click E I y)] (hide_launch g))"

definition click_launch :: "('d, 'h) kenv \<Rightarrow> input \<Rightarrow> ('d, 'h) part" where
  "click_launch E I g =
     (let s = g_menus g; idx = (in_my I - launch_y s - 6) sdiv 26; n = int (length (launch_items s)) in
      if \<not> launch_visible s then skip g
      else if point_in_rect (in_mx I) (in_my I) (launch_x s) (launch_y s) 220 (26 * n + 12)
      then jump (if 0 \<le> idx \<and> idx < n then launch_activate E I idx else Inr) g
      else jump (upd (\<lambda>g. mark_dirty (hide_launch g))) g)"

text \<open>The window under the mouse: the one in front, else the first in this order.\<close>

definition window_hit :: "input \<Rightarrow> ('d, 'h) gui \<Rightarrow> int \<Rightarrow> bool" where
  "window_hit I g k =
     (let hit = (\<lambda>w. shown w \<and> in_frame (in_mx I) (in_my I) w) in
      if k = WIN_NOTEPAD then hit (win.truncate (g_notepad g))
      else if k = WIN_FILE then hit (win.truncate (g_filewin g))
      else if k = WIN_TASKMGR then hit (win.truncate (g_taskmgr g))
      else if k = WIN_DISPLAY then hit (win.truncate (g_display g))
      else if k = WIN_TERMINAL then hit (win.truncate (g_terminal g))
      else if k = WIN_IMGVIEW then hit (win.truncate (g_imgview g))
      else if k = WIN_WAVPLAY then hit (win.truncate (g_wavplay g)) else False)"

definition clicked_window :: "input \<Rightarrow> ('d, 'h) gui \<Rightarrow> int" where
  "clicked_window I g =
     (if window_hit I g (front g) then front g
      else case find (\<lambda>k. k \<noteq> front g \<and> window_hit I g k) [WIN_NOTEPAD, WIN_FILE, WIN_TASKMGR, WIN_DISPLAY, WIN_TERMINAL, WIN_WAVPLAY, WIN_IMGVIEW] of
        None \<Rightarrow> -1 | Some k \<Rightarrow> k)"

definition click_focus :: "('d, 'h) kenv \<Rightarrow> input \<Rightarrow> ('d, 'h) part" where
  "click_focus E I g =
     stay (seq_acts [let k = clicked_window I g in
         if k \<noteq> -1 \<and> k \<noteq> front g then seq_acts [upd (set_front k), upd mark_dirty, desktop_render E I] else Inr,
       upd (on_menus (\<lambda>s. if info_visible s \<and> \<not> point_in_rect (in_mx I) (in_my I) (info_x s) (info_y s) 160 40 then s\<lparr>info_visible := False\<rparr> else s))]) g"

definition click_notepad :: "('d, 'h) kenv \<Rightarrow> input \<Rightarrow> ('d, 'h) part" where
  "click_notepad E I g =
     (let w = g_notepad g; mx = in_mx I; my = in_my I; hit = notepad_menu_hit mx my w; bx = wx w + ww w - 18 - 18 - 18 - 6; by = wy w - 20 in
      if \<not> (shown w \<and> front g = WIN_NOTEPAD) then skip g
      else if hit = 0 then jump (notepad_new E) g
      else if hit = 1 then jump (file_picker_start E ''TXT'' Notepad_file_pick_cb) g
      else if hit = 2 then jump (notepad_save E I) g
      else if point_in_rect mx my bx by 18 14 then jump (upd (g_notepad_update (win_min_update (\<lambda>_. True)))) g
      else if point_in_rect mx my (bx + 18 + 2) by 18 14 then jump (upd (notepad_toggle_maximize E)) g
      else if point_in_rect mx my (bx + 2 * (18 + 2)) by (18 + 2) 14 then jump (notepad_close E I) g
      else skip g)"

definition close_button :: "input \<Rightarrow> int \<Rightarrow> (('d, 'h) gui \<Rightarrow> win) \<Rightarrow> ('d, 'h) act \<Rightarrow> ('d, 'h) part" where
  "close_button I k w close g =
     (if shown (w g) \<and> front g = k \<and> in_close (in_mx I) (in_my I) (w g) then jump close g else skip g)"

definition close_buttons :: "('d, 'h) kenv \<Rightarrow> input \<Rightarrow> ('d, 'h) part list" where
  "close_buttons E I =
     [close_button I WIN_FILE (\<lambda>g. win.truncate (g_filewin g)) (filewin_close E I),
      close_button I WIN_TASKMGR (\<lambda>g. win.truncate (g_taskmgr g)) (taskmgr_close E I),
      close_button I WIN_DISPLAY (\<lambda>g. win.truncate (g_display g)) (display_close E I),
      close_button I WIN_TERMINAL (\<lambda>g. win.truncate (g_terminal g)) (terminal_close E I),
      close_button I WIN_IMGVIEW (\<lambda>g. win.truncate (g_imgview g)) (imgview_close E I),
      close_button I WIN_WAVPLAY (\<lambda>g. win.truncate (g_wavplay g)) (wavplay_close E I)]"

subsection \<open>In the file window\<close>

text \<open>The place chosen in the side bar: the rows of Desktop, Wallpaper and ATA0.\<close>

definition sidebar_path :: "font \<Rightarrow> input \<Rightarrow> ('d, 'h) gui \<Rightarrow> u8 list option" where
  "sidebar_path ft I g =
     (let w = g_filewin g; row_h = psf_height ft + 6; sy = wy w + 22 + 6 + row_h;
          hit = (\<lambda>y. point_in_rect (in_mx I) (in_my I) (wx w + 8) y (140 - 16) row_h)
      in if hit sy then Some (g_desktop_dir (g_ses g))
         else if hit (sy + row_h) then Some PATH_WALL_DIR
         else if hit (sy + row_h + row_h * 2 + row_h) then Some PATH_BASE else None)"

definition file_activate :: "('d, 'h) kenv \<Rightarrow> input \<Rightarrow> desktop_item \<Rightarrow> ('d, 'h) act" where
  "file_activate E I it g =
     (let path = fw_path (g_filewin g); name = d_name it in
      if d_attr it AND 0x10 \<noteq> 0 then filewin_set_path E (path_join 96 path name) g
      else case g_file_picker g of
        Some (ext, _) \<Rightarrow> if ext = [] \<or> str_ieq_ext name ext then file_picker_handle_selection E I (path_join 128 path name) name g else Inr g
      | None \<Rightarrow> if str_ieq_ext name (cstr ''TXT'') then notepad_open E I name g
                else if str_ieq_ext name (cstr ''BMP'') then imgview_open_path E I (path_join 128 path name) g else Inr g)"

definition file_select :: "('d, 'h) kenv \<Rightarrow> input \<Rightarrow> int \<Rightarrow> ('d, 'h) act" where
  "file_select E I idx g =
     (let now = in_jiffies I; double = (idx = file_last_idx (g_loop g) \<and> now - file_last_click (g_loop g) \<le> 50);
          g1 = g_loop_update (\<lambda>s. s\<lparr>file_last_click := now, file_last_idx := idx\<rparr>) g;
          g2 = mark_dirty (g_filewin_update (\<lambda>w. w\<lparr>fw_selection := idx, fw_path_focus := False\<rparr>) g1)
      in if double then file_activate E I (g_file_items g2 ! nat idx) g2 else Inr g2)"

definition click_file_list :: "('d, 'h) kenv \<Rightarrow> input \<Rightarrow> ('d, 'h) part" where
  "click_file_list E I g =
     (let w = g_filewin g; list_x = wx w + 140 + 6; list_y = wy w + 22 + 4; list_w = ww w - 140 - 12; list_h = wh w - 22 - 8;
          idx = ((in_my I - list_y) sdiv 80) * file_cols list_w + (in_mx I - list_x) sdiv 96
      in if \<not> point_in_rect (in_mx I) (in_my I) list_x list_y list_w list_h then skip g
         else jump (if 0 \<le> idx \<and> idx < int (length (g_file_items g)) then file_select E I idx else Inr) g)"

definition click_filewin :: "('d, 'h) kenv \<Rightarrow> input \<Rightarrow> ('d, 'h) part" where
  "click_filewin E I g =
     (let w = g_filewin g in
      if \<not> (shown w \<and> front g = WIN_FILE) then skip g
      else if point_in_rect (in_mx I) (in_my I) (wx w + 8) (wy w) (ww w - 16) 22
      then jump (upd (\<lambda>g. mark_dirty (g_filewin_update (fw_path_focus_update (\<lambda>_. True)) g))) g
      else case sidebar_path (k_font E) I g of
        Some p \<Rightarrow> jump (\<lambda>g. filewin_set_path E p (g_filewin_update (fw_path_focus_update (\<lambda>_. False)) g)) g
      | None \<Rightarrow> click_file_list E I g)"

subsection \<open>In the sound player and on the desktop\<close>

definition click_wavplay :: "('d, 'h) kenv \<Rightarrow> input \<Rightarrow> ('d, 'h) part" where
  "click_wavplay E I g =
     (let w = g_wavplay g; hit = (\<lambda>x. point_in_rect (in_mx I) (in_my I) x (wy w + 12) 96 22) in
      if \<not> (shown w \<and> front g = WIN_WAVPLAY) then skip g
      else if hit (wx w + 12) then jump (file_picker_start E ''WAV'' Wavplay_pick_cb) g
      else if hit (wx w + 12 + 96 + 10) then jump (wavplay_play E) g
      else skip g)"

definition desktop_activate :: "('d, 'h) kenv \<Rightarrow> input \<Rightarrow> desktop_item \<Rightarrow> ('d, 'h) act" where
  "desktop_activate E I it g =
     (if d_attr it AND 0x10 \<noteq> 0 then Inr g
      else if str_ieq_ext (d_name it) (cstr ''TXT'') then notepad_open E I (d_name it) g
      else if str_ieq_ext (d_name it) (cstr ''BMP'') then imgview_open_path E I (desktop_path_for_name 96 (d_name it) g) g
      else Inr g)"

definition click_desktop :: "('d, 'h) kenv \<Rightarrow> input \<Rightarrow> ('d, 'h) part" where
  "click_desktop E I g =
     (if \<not> vol_mounted g then skip g else
      case desktop_hit_test (k_fb E) (in_mx I) (in_my I) (g_desk g) of (hit, dk) \<Rightarrow>
      if hit < 0 then skip (g\<lparr>g_desk := dk\<rparr>) else
      let dk1 = desktop_set_selection hit dk in
      case desktop_get_item hit dk1 of None \<Rightarrow> skip (g\<lparr>g_desk := dk1\<rparr>) | Some it \<Rightarrow>
      case desktop_is_double_click (in_jiffies I) hit dk1 of (double, dk2) \<Rightarrow>
      if double then stay (desktop_activate E I it) (g\<lparr>g_desk := dk2\<rparr>) else skip (g\<lparr>g_desk := dk2\<rparr>))"

definition left_click :: "('d, 'h) kenv \<Rightarrow> input \<Rightarrow> ('d, 'h) part" where
  "left_click E I =
     chain ([click_ctx_menu E I, click_prompt E I, click_taskbar E I, click_launch E I, topmenu_handle_click E I, click_focus E I, click_notepad E I] @
       close_buttons E I @ [click_filewin E I, click_wavplay E I, click_desktop E I])"

section \<open>Right button\<close>

definition ctx_target_at :: "input \<Rightarrow> ('d, 'h) gui \<Rightarrow> ctx_target" where
  "ctx_target_at I g =
     (if shown (g_filewin g) \<and> in_frame (in_mx I) (in_my I) (g_filewin g) then CTX_FILEWIN
      else if shown (g_notepad g) \<and> in_frame (in_mx I) (in_my I) (g_notepad g) then CTX_NOTEPAD else CTX_DESKTOP)"

definition right_click :: "('d, 'h) kenv \<Rightarrow> input \<Rightarrow> ('d, 'h) gui \<Rightarrow> ('d, 'h) gui" where
  "right_click E I g =
     (let g1 = (if pressed 2 I g then on_menus (info_visible_update (\<lambda>_. False)) (ctx_menu_show E (ctx_target_at I g) (in_mx I) (in_my I) g) else g)
      in if in_btn I AND 2 = 0 \<and> prev_btn (g_loop g) AND 2 \<noteq> 0 then on_menus (name_prompt_ready_click_update (\<lambda>_. True)) g1 else g1)"

definition mouse_buttons :: "('d, 'h) kenv \<Rightarrow> input \<Rightarrow> ('d, 'h) act" where
  "mouse_buttons E I g0 =
     (let g = (if name_prompt_active (g_menus g0) \<and> in_btn I = 0 then on_menus (name_prompt_ready_click_update (\<lambda>_. True)) g0 else g0) in
      rbind (if pressed 1 I g then left_click E I g else skip g) (\<lambda>(jumped, g1). Inr (if jumped then g1 else right_click E I g1)))"

section \<open>Typing\<close>

text \<open>A section that takes the scan code \<open>sc\<close>; the first result is the code that is left.\<close>

definition prompt_key :: "('d, 'h) kenv \<Rightarrow> input \<Rightarrow> u8 \<Rightarrow> ('d, 'h) act" where
  "prompt_key E I sc g =
     (if sc = 0x1C then create_txt_file_from_prompt E I g
      else if sc = 0x0E then Inr (mark_dirty (on_menus (name_prompt_buf_update butlast) g))
      else if sc = 0x01 then Inr (mark_dirty (on_menus (name_prompt_active_update (\<lambda>_. False)) g))
      else let c = key_to_char sc (g_loop g)
           in if c \<noteq> 0 \<and> length (name_prompt_buf (g_menus g)) < 31 then Inr (mark_dirty (on_menus (name_prompt_buf_update (\<lambda>b. b @ [c])) g)) else Inr g)"

definition path_key :: "('d, 'h) kenv \<Rightarrow> u8 \<Rightarrow> ('d, 'h) act" where
  "path_key E sc g =
     (let path = fw_path (g_filewin g) in
      if sc = 0x1C then filewin_set_path E path g
      else if sc = 0x0E then Inr (if path \<noteq> [] then mark_dirty (g_filewin_update (fw_path_update butlast) g) else g)
      else if sc = 0x01 then Inr (mark_dirty (g_filewin_update (fw_path_focus_update (\<lambda>_. False)) g))
      else let c = key_to_char sc (g_loop g)
           in if c \<noteq> 0 \<and> length path + 1 < 96 then Inr (mark_dirty (g_filewin_update (fw_path_update (\<lambda>p. p @ [c])) g)) else Inr g)"

definition typing :: "('d, 'h) kenv \<Rightarrow> input \<Rightarrow> u8 option \<Rightarrow> ('d, 'h) gui \<Rightarrow> (u8 option \<times> ('d, 'h) gui) res" where
  "typing E I sc g =
     rbind (case sc of Some c \<Rightarrow> if name_prompt_active (g_menus g) then rbind (prompt_key E I c g) (\<lambda>g'. Inr (None, g')) else Inr (sc, g)
            | None \<Rightarrow> Inr (None, g)) (\<lambda>(sc1, g1).
     case sc1 of Some c \<Rightarrow> if win_open (g_filewin g1) \<and> front g1 = WIN_FILE \<and> fw_path_focus (g_filewin g1)
                           then rbind (path_key E c g1) (\<lambda>g'. Inr (None, g')) else Inr (sc1, g1)
     | None \<Rightarrow> Inr (None, g1))"

text \<open>The editor: backspace and escape leave with \<open>goto after_keys\<close>.\<close>

definition editor_char :: "u8 \<Rightarrow> loop_vars \<Rightarrow> u8" where
  "editor_char sc s = (if sc = 0x1C then NEWLINE else key_to_char sc s)"

definition editor_key :: "('d, 'h) kenv \<Rightarrow> input \<Rightarrow> u8 \<Rightarrow> ('d, 'h) part" where
  "editor_key E I sc g =
     (if sc = 0x0E then jump (render_notepad E) (g_notepad_update (np_buf_update butlast) g)
      else if sc = 0x01 then jump (notepad_close E I) g
      else let c = editor_char sc (g_loop g)
           in if c \<noteq> 0 \<and> length (np_buf (g_notepad g)) < 4095
              then stay (render_notepad E) (g_notepad_update (np_buf_update (\<lambda>b. b @ [c])) g) else skip g)"

section \<open>Dragging\<close>

definition left_down :: "input \<Rightarrow> bool" where
  "left_down I \<longleftrightarrow> in_btn I AND 1 \<noteq> 0"

definition drag_window ::
  "('d, 'h) kenv \<Rightarrow> input \<Rightarrow> (('a win_scheme \<Rightarrow> 'a win_scheme) \<Rightarrow> ('d, 'h) gui \<Rightarrow> ('d, 'h) gui) \<Rightarrow> 'a win_scheme \<Rightarrow> ('d, 'h) gui \<Rightarrow> ('d, 'h) gui" where
  "drag_window E I put w g =
     (case drag_step (k_fb E) (in_mx I) (in_my I) (left_down I) w of (w', dirty) \<Rightarrow>
      let g' = put (\<lambda>_. w') g in if dirty then mark_dirty g' else g')"

definition editor_section :: "('d, 'h) kenv \<Rightarrow> input \<Rightarrow> u8 option \<Rightarrow> ('d, 'h) part" where
  "editor_section E I sc g =
     (if \<not> (win_open (g_notepad g) \<and> front g = WIN_NOTEPAD) then skip g
      else chain [case sc of Some c \<Rightarrow> editor_key E I c | None \<Rightarrow> skip,
             stay (upd (\<lambda>g. drag_window E I g_notepad_update (g_notepad g) g))] g)"

definition drag_imgview :: "('d, 'h) kenv \<Rightarrow> input \<Rightarrow> ('d, 'h) gui \<Rightarrow> ('d, 'h) gui" where
  "drag_imgview E I g =
     (case imgview_pointer (k_fb E) (in_mx I) (in_my I) (left_down I) (g_imgview g) of (w', dirty) \<Rightarrow>
      let g' = g\<lparr>g_imgview := w'\<rparr> in if dirty then mark_dirty g' else g')"

text \<open>The blocks for the other windows; only the one in front can move.\<close>

definition drag_others :: "('d, 'h) kenv \<Rightarrow> input \<Rightarrow> ('d, 'h) gui \<Rightarrow> ('d, 'h) gui" where
  "drag_others E I g =
     (if front g = WIN_FILE \<and> shown (g_filewin g) then drag_window E I g_filewin_update (g_filewin g) g
      else if front g = WIN_TASKMGR \<and> shown (g_taskmgr g) then drag_window E I g_taskmgr_update (g_taskmgr g) g
      else if front g = WIN_DISPLAY \<and> shown (g_display g) then drag_window E I g_display_update (g_display g) g
      else if front g = WIN_IMGVIEW \<and> shown (g_imgview g) then drag_imgview E I g
      else if front g = WIN_WAVPLAY \<and> shown (g_wavplay g) then drag_window E I g_wavplay_update (g_wavplay g) g
      else if front g = WIN_TERMINAL \<and> shown (g_terminal g) then drag_window E I g_terminal_update (g_terminal g) g
      else g)"

section \<open>The end of a round\<close>

definition want_resize_cursor :: "input \<Rightarrow> ('d, 'h) gui \<Rightarrow> bool" where
  "want_resize_cursor I g \<longleftrightarrow> shown (g_imgview g) \<and> (in_corner (in_mx I) (in_my I) (g_imgview g) \<or> resizing (g_imgview g))"

definition choose_cursor :: "input \<Rightarrow> ('d, 'h) gui \<Rightarrow> ('d, 'h) gui" where
  "choose_cursor I g =
     (if want_resize_cursor I g \<and> \<not> cursor_resize_active (g_cursor g) then g_cursor_update cursor_use_resize g
      else if \<not> want_resize_cursor I g \<and> cursor_resize_active (g_cursor g) then g_cursor_update cursor_use_default g else g)"

definition mouse_moved :: "input \<Rightarrow> ('d, 'h) gui \<Rightarrow> bool" where
  "mouse_moved I g \<longleftrightarrow> in_mx I \<noteq> last_mouse_x (g_loop g) \<or> in_my I \<noteq> last_mouse_y (g_loop g)"

definition frame_end :: "('d, 'h) kenv \<Rightarrow> input \<Rightarrow> ('d, 'h) act" where
  "frame_end E I g =
     (if \<not> k_fb_ready E then Inr g else
      let g1 = choose_cursor I g; g2 = (if mouse_moved I g then mark_dirty g1 else g1) in
      if in_jiffies I - last_frame_tick (g_loop g2) \<ge> desktop_frame_ticks_value (g_desk g2) \<or> desktop_dirty (g_desk g2)
      then seq_acts [upd (g_loop_update (\<lambda>s. s\<lparr>last_mouse_x := in_mx I, last_mouse_y := in_my I\<rparr>)), desktop_render E I,
             upd (g_loop_update (last_frame_tick_update (\<lambda>_. in_jiffies I)))] g2
      else Inr g2)"

definition desktop_step :: "('d, 'h) kenv \<Rightarrow> input \<Rightarrow> u8 option \<Rightarrow> ('d, 'h) act" where
  "desktop_step E I sc g =
     rbind (mouse_buttons E I g) (\<lambda>g1. if halted (g_loop g1) then Inr g1 else
     rbind (typing E I sc (set_prev_btn I g1)) (\<lambda>(sc1, g2).
     rbind (chain [editor_section E I sc1, stay (upd (drag_others E I))] g2) (\<lambda>(_, g3). frame_end E I g3)))"

definition boot_anim_step :: "('d, 'h) kenv \<Rightarrow> input \<Rightarrow> ('d, 'h) act" where
  "boot_anim_step E I =
     seq_acts [render_on (\<lambda>g. boot_anim_render (k_fb E) (k_blob E) (k_font E) (cur (g_cursor g)) (k_fb_ready E) (in_mx I) (in_my I)
         (in_jiffies I - boot_anim_start (g_loop g))),
       upd (g_loop_update (\<lambda>s. if in_jiffies I - boot_anim_start s > 300 then s\<lparr>boot_anim := False\<rparr> else s))]"

definition clock_update :: "input \<Rightarrow> loop_vars \<Rightarrow> loop_vars" where
  "clock_update I s = (if in_jiffies I - last_rtc_update s \<ge> 100 then s\<lparr>last_rtc_update := in_jiffies I\<rparr> else s)"

definition loop_step :: "('d, 'h) kenv \<Rightarrow> input \<Rightarrow> ('d, 'h) act" where
  "loop_step E I g0 =
     (if halted (g_loop g0) then Inr g0 else
      let g = g_loop_update (clock_update I) g0 in
      if boot_anim (g_loop g) then boot_anim_step E I g
      else rbind (key_dispatch E I g) (\<lambda>(sc, g1).
        if g_login_active (g_ses g1) then login_step E I sc g1 else desktop_step E I sc g1))"

section \<open>The start\<close>

text \<open>The part of \<open>kmain\<close> before the loop that sets up the session: the windows are registered, the disk is mounted, wallpaper
  and cursor are loaded from it, and the accounts are read. \<open>ext\<close> and \<open>hhdm\<close> belong to the boot loader's memory.\<close>

definition load_wallpaper ::
  "('d, 'h) kenv \<Rightarrow> 'e ext_alloc \<Rightarrow> u64 \<Rightarrow> ('d, 'h) gui \<times> 'e \<Rightarrow> (('d, 'h) gui \<times> 'e) res" where
  "load_wallpaper E ext hhdm st = (case st of (g, e) \<Rightarrow>
     let done_with = (\<lambda>d v s heap. put_volume (v, d) (g\<lparr>g_desk := s, g_heap := heap\<rparr>)) in
     case volume g of (v, d) \<Rightarrow>
     rbind (desktop_load_wallpaper_path (k_fuel E) (k_read E) d PATH_WALLPAPER (k_fb E) ext hhdm (v, g_desk g, g_heap g, e)) (\<lambda>(r, v1, s1, heap1, e1).
     if r = 0 then Inr (done_with d v1 s1 heap1, e1) else
     rbind (find_first_wallpaper_name E 13 (done_with d v1 s1 heap1)) (\<lambda>nm. case nm of
       None \<Rightarrow> Inr (done_with d v1 s1 heap1, e1)
     | Some name \<Rightarrow>
         rbind (desktop_load_wallpaper (k_fuel E) (k_read E) d name (k_fb E) ext hhdm (v1, s1, heap1, e1)) (\<lambda>(_, v2, s2, heap2, e2).
           Inr (done_with d v2 s2 heap2, e2)))))"

definition load_cursor :: "('d, 'h) kenv \<Rightarrow> (nat \<Rightarrow> u32) \<Rightarrow> ('d, 'h) act" where
  "load_cursor E fresh g = (case volume g of (v, d) \<Rightarrow>
     rbind (cursor_load_from_disk (\<lambda>v. fat32_read_file_path (k_fuel E) v (k_read E) d (cstr ''PARANOS/SYSTEM64/CURSOR/CURSOR.BMP'')) fresh
         (v, g_heap g, g_cursor g)) (\<lambda>(v', heap, c).
       Inr (put_volume (v', d) (g\<lparr>g_heap := heap, g_cursor := cursor_use_default c\<rparr>))))"

definition mount_at_start :: "('d, 'h) kenv \<Rightarrow> 'e ext_alloc \<Rightarrow> u64 \<Rightarrow> (nat \<Rightarrow> u32) \<Rightarrow> input \<Rightarrow> ('d, 'h) gui \<times> 'e \<Rightarrow> (('d, 'h) gui \<times> 'e) res" where
  "mount_at_start E ext hhdm fresh I st = (case st of (g, e) \<Rightarrow>
     rbind (probe_disk E (g_unmounted g)) (\<lambda>(ok, vd).
     if \<not> ok then Inr (g\<lparr>g_unmounted := vd\<rparr>, e) else
     rbind (seq_acts [on_ses (make_dir (k_fuel E) (k_read E) (k_write E) PATH_BASE), user_dirs E, desktop_refresh_from_path E I]
         (g\<lparr>g_ses := (g_ses g)\<lparr>g_vol := Some vd\<rparr>\<rparr>)) (\<lambda>g1.
     rbind (load_wallpaper E ext hhdm (g1, e)) (\<lambda>(g2, e2).
     rbind (load_cursor E fresh g2) (\<lambda>g3. Inr (g3, e2))))))"

definition start_session :: "('d, 'h) kenv \<Rightarrow> 'e ext_alloc \<Rightarrow> u64 \<Rightarrow> (nat \<Rightarrow> u32) \<Rightarrow> input \<Rightarrow> ('d, 'h) gui \<times> 'e \<Rightarrow> (('d, 'h) gui \<times> 'e) res" where
  "start_session E ext hhdm fresh I st = (case st of (g, e) \<Rightarrow>
     rbind (mount_at_start E ext hhdm fresh I (g\<lparr>g_wm := snd (register_windows (wm_init (g_wm g))), g_desk := desktop_init (g_desk g)\<rparr>, e)) (\<lambda>(g1, e1).
     rbind (on_ses (ensure_user_store (k_fuel E) (k_read E) (k_write E)) g1) (\<lambda>g2.
       Inr (g_loop_update (\<lambda>s. s\<lparr>boot_anim_start := in_jiffies I, last_mouse_x := -1, last_mouse_y := -1\<rparr>) g2, e1))))"

end
