(* ===== verification/Gui_Invariant.thy ===== *)
theory Gui_Invariant
  imports Main_Loop
begin

text \<open>
  The invariant of the session: every open window lies on the screen, every string fits its array, every index is in
  range. An action keeps a property if each state it returns from a state with the property has it; the rules below
  follow the way actions are put together, and each action of \<open>Gui\<close> and each section of \<open>Main_Loop\<close> has one lemma.
\<close>

section \<open>Actions that keep a property\<close>

definition keeps :: "('s \<Rightarrow> bool) \<Rightarrow> ('s \<Rightarrow> 's res) \<Rightarrow> bool" where
  "keeps P f \<longleftrightarrow> (\<forall>s s'. P s \<longrightarrow> f s = Inr s' \<longrightarrow> P s')"

definition keeps_part :: "('s \<Rightarrow> bool) \<Rightarrow> ('s \<Rightarrow> ('j \<times> 's) res) \<Rightarrow> bool" where
  "keeps_part P f \<longleftrightarrow> (\<forall>s j s'. P s \<longrightarrow> f s = Inr (j, s') \<longrightarrow> P s')"

named_theorems keeping "actions that keep the invariant"

lemma keepsI: "(\<And>s s'. P s \<Longrightarrow> f s = Inr s' \<Longrightarrow> P s') \<Longrightarrow> keeps P f"
  by (simp add: keeps_def)

lemma keepsD: "keeps P f \<Longrightarrow> P s \<Longrightarrow> f s = Inr s' \<Longrightarrow> P s'"
  by (simp add: keeps_def)

lemma keeps_partI: "(\<And>s j s'. P s \<Longrightarrow> f s = Inr (j, s') \<Longrightarrow> P s') \<Longrightarrow> keeps_part P f"
  by (simp add: keeps_part_def)

lemma keeps_partD: "keeps_part P f \<Longrightarrow> P s \<Longrightarrow> f s = Inr (j, s') \<Longrightarrow> P s'"
  unfolding keeps_part_def by blast

lemma keeps_Inr [keeping]: "keeps P Inr" "keeps P (\<lambda>s. Inr s)"
  by (simp_all add: keeps_def)

lemma keeps_upd [keeping]: "(\<And>s. P s \<Longrightarrow> P (f s)) \<Longrightarrow> keeps P (upd f)"
  by (auto simp: keeps_def upd_def)

lemma keeps_seq_Nil [keeping]: "keeps P (seq_acts [])"
  by (simp add: keeps_def seq_acts_def)

lemma seq_acts_Cons: "seq_acts (f # fs) s = rbind (f s) (seq_acts fs)"
  by (simp add: seq_acts_def)

lemma keeps_rbind:
  assumes "keeps P f" and "keeps P h" and "P s" and "rbind (f s) h = Inr s'"
  shows "P s'"
proof -
  from assms(4) obtain s1 where "f s = Inr s1" "h s1 = Inr s'" by (auto simp: rbind_eq_Inr)
  then show ?thesis using keepsD [OF assms(2) keepsD [OF assms(1,3)]] by simp
qed

lemma keeps_seq_Cons [keeping]: "keeps P f \<Longrightarrow> keeps P (seq_acts fs) \<Longrightarrow> keeps P (seq_acts (f # fs))"
  by (rule keepsI) (simp only: seq_acts_Cons, rule keeps_rbind)

lemma keeps_if [keeping]: "(c \<Longrightarrow> keeps P f) \<Longrightarrow> (\<not> c \<Longrightarrow> keeps P g) \<Longrightarrow> keeps P (if c then f else g)"
  by simp

lemma keeps_case [keeping]: "(\<And>s. P s \<Longrightarrow> c s \<Longrightarrow> keeps P f) \<Longrightarrow> (\<And>s. P s \<Longrightarrow> \<not> c s \<Longrightarrow> keeps P g) \<Longrightarrow> keeps P (\<lambda>s. if c s then f s else g s)"
  unfolding keeps_def by (metis (full_types))

lemma keeps_seq_append: "keeps P (seq_acts fs) \<Longrightarrow> keeps P (seq_acts gs) \<Longrightarrow> keeps P (seq_acts (fs @ gs))"
  unfolding seq_acts_def rfold_append
  by (rule keepsI) (rule keeps_rbind [of P "rfold (\<lambda>f. f) fs" "rfold (\<lambda>f. f) gs"])

lemma keeps_seq_map: "(\<And>k. k \<in> set ks \<Longrightarrow> keeps P (f k)) \<Longrightarrow> keeps P (seq_acts (map f ks))"
  by (induction ks) (simp_all add: keeps_seq_Nil keeps_seq_Cons)

lemma keeps_chain: "(\<And>f. f \<in> set fs \<Longrightarrow> keeps_part P f) \<Longrightarrow> keeps_part P (chain fs)"
proof (induction fs)
  case (Cons f fs)
  show ?case
  proof (rule keeps_partI)
    fix s j s' assume "P s" "chain (f # fs) s = Inr (j, s')"
    then obtain b s1 where r: "f s = Inr (b, s1)" "(if b then Inr (True, s1) else chain fs s1) = Inr (j, s')" by (auto simp: rbind_eq_Inr)
    have "keeps_part P f" "keeps_part P (chain fs)" using Cons by simp_all
    from keeps_partD [OF this(1) \<open>P s\<close> r(1)] keeps_partD [OF this(2)] r(2) show "P s'" by (cases b) auto
  qed
qed (simp add: keeps_part_def)

lemma keeps_jump [keeping]: "keeps P f \<Longrightarrow> keeps_part P (jump f)"
  by (auto simp: keeps_def keeps_part_def jump_def res_simps)

lemma keeps_stay [keeping]: "keeps P f \<Longrightarrow> keeps_part P (stay f)"
  by (auto simp: keeps_def keeps_part_def stay_def res_simps)

lemma keeps_skip [keeping]: "keeps_part P skip"
  by (simp add: keeps_part_def skip_def)

text \<open>The same for results: \<open>ends\<close> holds of a result that is a fault or has the property.\<close>

definition ends :: "('a \<Rightarrow> bool) \<Rightarrow> 'a res \<Rightarrow> bool" where
  "ends P r \<longleftrightarrow> (\<forall>x. r = Inr x \<longrightarrow> P x)"

named_theorems ending "results that have the invariant"

lemma keeps_ends: "keeps P f \<longleftrightarrow> (\<forall>s. P s \<longrightarrow> ends P (f s))"
  by (auto simp: keeps_def ends_def)

lemma keeps_part_ends: "keeps_part P f \<longleftrightarrow> (\<forall>s. P s \<longrightarrow> ends (\<lambda>(j, s'). P s') (f s))"
  by (auto simp: keeps_part_def ends_def)

lemma endsD: "ends P r \<Longrightarrow> r = Inr x \<Longrightarrow> P x"
  by (simp add: ends_def)

lemma ends_Inr [ending]: "P x \<Longrightarrow> ends P (Inr x)"
  by (simp add: ends_def)

lemma ends_Inl [ending]: "ends P (Inl e)"
  by (simp add: ends_def)

lemma ends_act: "keeps P f \<Longrightarrow> P s \<Longrightarrow> ends P (f s)"
  by (simp add: keeps_ends)

lemma ends_rbind: "ends Q r \<Longrightarrow> (\<And>x. Q x \<Longrightarrow> ends P (k x)) \<Longrightarrow> ends P (rbind r k)"
  by (cases r) (simp_all add: ends_def)

lemma ends_rbind_eq: "(\<And>x. r = Inr x \<Longrightarrow> ends P (k x)) \<Longrightarrow> ends P (rbind r k)"
  by (cases r) (simp_all add: ends_def)

lemma ends_rbind_act: "keeps Q f \<Longrightarrow> Q s \<Longrightarrow> (\<And>x. Q x \<Longrightarrow> ends P (k x)) \<Longrightarrow> ends P (rbind (f s) k)"
  by (rule ends_rbind [OF ends_act])

lemma ends_if [ending]: "(c \<Longrightarrow> ends P a) \<Longrightarrow> (\<not> c \<Longrightarrow> ends P b) \<Longrightarrow> ends P (if c then a else b)"
  by simp

lemma ends_option [ending]: "(x = None \<Longrightarrow> ends P a) \<Longrightarrow> (\<And>y. x = Some y \<Longrightarrow> ends P (f y)) \<Longrightarrow> ends P (case x of None \<Rightarrow> a | Some y \<Rightarrow> f y)"
  by (cases x) simp_all

lemma ends_prod [ending]: "(\<And>a b. x = (a, b) \<Longrightarrow> ends P (f a b)) \<Longrightarrow> ends P (case x of (a, b) \<Rightarrow> f a b)"
  by (cases x) simp

section \<open>The invariant\<close>

definition note_ok :: "fb_t \<Rightarrow> notepad_t \<Rightarrow> bool" where
  "note_ok fb w \<longleftrightarrow> max_on_screen fb w \<and> length (np_name w) \<le> 12 \<and> length (np_buf w) \<le> 4095 \<and> length (np_path w) \<le> 95"

definition file_ok :: "fb_t \<Rightarrow> filewin_t \<Rightarrow> bool" where
  "file_ok fb w \<longleftrightarrow> max_on_screen fb w \<and> length (fw_path w) \<le> 95"

definition view_ok :: "fb_t \<Rightarrow> imgview_t \<Rightarrow> bool" where
  "view_ok fb w \<longleftrightarrow> max_on_screen fb w \<and> length (iv_path w) \<le> 95 \<and> (\<forall>img. iv_img w = Some img \<longrightarrow> img_ok img (img_w w) (img_h w))"

text \<open>The picker opens the sound player again where it was, so its place matters while a pick is pending.\<close>

definition wav_ok :: "fb_t \<Rightarrow> (u8 list \<times> picker_cb) option \<Rightarrow> wavplay_t \<Rightarrow> bool" where
  "wav_ok fb pk w \<longleftrightarrow> (win_open w \<or> (\<exists>ext. pk = Some (ext, Wavplay_pick_cb)) \<longrightarrow> rect_on fb (wx w) (wy w) (ww w) (wh w)) \<and>
     length (wp_path w) \<le> 127 \<and> length (wp_name w) \<le> 31"

definition items_ok :: "desktop_item list \<Rightarrow> bool" where
  "items_ok items \<longleftrightarrow> length items \<le> DESKTOP_MAX_ITEMS \<and> (\<forall>i\<in>set items. length (d_name i) \<le> 12)"

definition spot :: "int \<Rightarrow> bool" where
  "spot v \<longleftrightarrow> 0 \<le> v \<and> v \<le> 2 ^ 16"

definition menus_ok :: "menus \<Rightarrow> bool" where
  "menus_ok s \<longleftrightarrow> spot (info_x s) \<and> spot (info_y s) \<and>
     length (ctx_items s) \<le> 8 \<and> (\<forall>t\<in>set (map fst (ctx_items s)). length t \<le> 31) \<and> spot (ctx_menu_x s) \<and> spot (ctx_menu_y s) \<and>
     spot (ctx_menu_w s) \<and> spot (ctx_menu_h s) \<and> topmenu_open s \<in> {-1, 0, 1} \<and> length (name_prompt_buf s) \<le> 31 \<and> length (name_prompt_title s) \<le> 47 \<and>
     length (launch_items s) \<le> 24 \<and> (\<forall>t\<in>set (map l_name (launch_items s)). length t \<le> 31) \<and> spot (launch_x s) \<and> spot (launch_y s)"

definition ses_ok :: "'d session \<Rightarrow> bool" where
  "ses_ok s \<longleftrightarrow> users_ok s \<and> 0 \<le> g_login_selected s \<and> length (g_login_pw s) \<le> 31 \<and> length (g_login_message s) \<le> 63 \<and>
     length (g_logged_in_user s) \<le> 15 \<and> length (g_desktop_dir s) \<le> 63 \<and> length (g_prog_dir s) \<le> 63"

text \<open>The list of windows is the one \<open>kmain\<close> registers.\<close>

definition window_entries :: "wm_entry list" where
  "window_entries = g_entries (snd (register_windows \<lparr>g_entries = [], g_front_id = -1\<rparr>))"

definition wm_inv :: "wm_state \<Rightarrow> bool" where
  "wm_inv wm \<longleftrightarrow> g_entries wm = window_entries \<and> 0 \<le> g_front_id wm \<and> g_front_id wm < 7"

definition desk_inv :: "fb_t \<Rightarrow> desktop \<Rightarrow> bool" where
  "desk_inv fb dk \<longleftrightarrow> desk_ok fb dk \<and> names_ok dk \<and> paper_ok (wallpaper dk)"

definition env_ok :: "('d, 'h) kenv \<Rightarrow> bool" where
  "env_ok E \<longleftrightarrow> desk_screen (k_fb E) \<and> desk_font (k_blob E) (k_font E)"

definition input_ok :: "('d, 'h) kenv \<Rightarrow> input \<Rightarrow> bool" where
  "input_ok E I \<longleftrightarrow> 0 \<le> in_mx I \<and> in_mx I < sint (fb_width (k_fb E)) \<and> 0 \<le> in_my I \<and> in_my I < sint (fb_height (k_fb E))"

definition cursor_ok :: "cursor_state \<Rightarrow> bool" where
  "cursor_ok c \<longleftrightarrow> (\<forall>img. cursor_img (cur c) = Some img \<longrightarrow> img_ok img (cursor_w (cur c)) (cursor_h (cur c)) \<and> cursor_w (cur c) \<le> 2 ^ 20 \<and> cursor_h (cur c) \<le> 2 ^ 20) \<and>
     (\<forall>img w h. cursor_default c = Some (img, w, h) \<longrightarrow> img_ok img w h \<and> w \<le> 2 ^ 20 \<and> h \<le> 2 ^ 20)"

definition gui_ok :: "('d, 'h) kenv \<Rightarrow> ('d, 'h) gui \<Rightarrow> bool" where
  "gui_ok E g \<longleftrightarrow> env_ok E \<and> note_ok (k_fb E) (g_notepad g) \<and> file_ok (k_fb E) (g_filewin g) \<and>
     max_on_screen (k_fb E) (g_taskmgr g) \<and> max_on_screen (k_fb E) (g_display g) \<and> max_on_screen (k_fb E) (g_terminal g) \<and>
     view_ok (k_fb E) (g_imgview g) \<and> wav_ok (k_fb E) (g_file_picker g) (g_wavplay g) \<and> items_ok (g_file_items g) \<and> length (g_file_status g) \<le> 63 \<and>
     wm_inv (g_wm g) \<and> desk_inv (k_fb E) (g_desk g) \<and> ses_ok (g_ses g) \<and> menus_ok (g_menus g) \<and> cursor_ok (g_cursor g)"

lemma gui_okD:
  assumes "gui_ok E g"
  shows "env_ok E" "desk_screen (k_fb E)" "note_ok (k_fb E) (g_notepad g)" "file_ok (k_fb E) (g_filewin g)" "wm_inv (g_wm g)"
    "desk_inv (k_fb E) (g_desk g)" "ses_ok (g_ses g)" "menus_ok (g_menus g)" "view_ok (k_fb E) (g_imgview g)"
    "wav_ok (k_fb E) (g_file_picker g) (g_wavplay g)"
  using assms by (simp_all add: gui_ok_def env_ok_def)

section \<open>What the actions keep\<close>

subsection \<open>Changes that do not matter\<close>

lemma desk_inv_dirty [simp]: "desk_inv fb (desktop_mark_dirty dk) = desk_inv fb dk" "desk_inv fb (dk\<lparr>desktop_bg_dirty := b\<rparr>) = desk_inv fb dk"
  by (simp_all add: desk_inv_def desktop_mark_dirty_def desk_ok_def names_ok_def)

lemma gui_ok_frame [simp]:
  "gui_ok E (mark_dirty g) = gui_ok E g" "gui_ok E (g\<lparr>g_screen := m\<rparr>) = gui_ok E g" "gui_ok E (g\<lparr>g_heap := h\<rparr>) = gui_ok E g"
  "gui_ok E (g\<lparr>g_sched := sc\<rparr>) = gui_ok E g" "gui_ok E (g\<lparr>g_sound := a\<rparr>) = gui_ok E g" "gui_ok E (g\<lparr>g_unmounted := vd\<rparr>) = gui_ok E g"
  "gui_ok E (g\<lparr>g_session_started := b\<rparr>) = gui_ok E g" "gui_ok E (g_loop_update f g) = gui_ok E g"
  by (simp_all add: gui_ok_def mark_dirty_def)

lemma ses_ok_vol [simp]: "ses_ok (s\<lparr>g_vol := v\<rparr>) = ses_ok s"
  by (simp add: ses_ok_def users_ok_def)

lemma gui_ok_put_volume [simp]: "gui_ok E (put_volume vd g) = gui_ok E g"
  by (simp add: gui_ok_def put_volume_def split: option.split)

lemma length_window_entries: "length window_entries = 7"
  by code_simp

lemma gui_ok_set_front [simp]: "gui_ok E g \<Longrightarrow> gui_ok E (set_front k g)"
  using length_window_entries by (auto simp: gui_ok_def set_front_def wm_inv_def wm_set_front_def)

lemma gui_ok_on_menus: "gui_ok E g \<Longrightarrow> (menus_ok (g_menus g) \<Longrightarrow> menus_ok (f (g_menus g))) \<Longrightarrow> gui_ok E (on_menus f g)"
  by (simp add: gui_ok_def on_menus_def)

lemma gui_ok_ses: "gui_ok E g \<Longrightarrow> (ses_ok (g_ses g) \<Longrightarrow> ses_ok (f (g_ses g))) \<Longrightarrow> gui_ok E (g_ses_update f g)"
  by (simp add: gui_ok_def)

lemma gui_ok_windows:
  "gui_ok E g \<Longrightarrow> (note_ok (k_fb E) (g_notepad g) \<Longrightarrow> note_ok (k_fb E) (fn (g_notepad g))) \<Longrightarrow> gui_ok E (g_notepad_update fn g)"
  "gui_ok E g \<Longrightarrow> (file_ok (k_fb E) (g_filewin g) \<Longrightarrow> file_ok (k_fb E) (ff (g_filewin g))) \<Longrightarrow> gui_ok E (g_filewin_update ff g)"
  "gui_ok E g \<Longrightarrow> (max_on_screen (k_fb E) (g_taskmgr g) \<Longrightarrow> max_on_screen (k_fb E) (fm (g_taskmgr g))) \<Longrightarrow> gui_ok E (g_taskmgr_update fm g)"
  "gui_ok E g \<Longrightarrow> (max_on_screen (k_fb E) (g_display g) \<Longrightarrow> max_on_screen (k_fb E) (fm (g_display g))) \<Longrightarrow> gui_ok E (g_display_update fm g)"
  "gui_ok E g \<Longrightarrow> (max_on_screen (k_fb E) (g_terminal g) \<Longrightarrow> max_on_screen (k_fb E) (fm (g_terminal g))) \<Longrightarrow> gui_ok E (g_terminal_update fm g)"
  "gui_ok E g \<Longrightarrow> (view_ok (k_fb E) (g_imgview g) \<Longrightarrow> view_ok (k_fb E) (fi (g_imgview g))) \<Longrightarrow> gui_ok E (g_imgview_update fi g)"
  "gui_ok E g \<Longrightarrow> (wav_ok (k_fb E) (g_file_picker g) (g_wavplay g) \<Longrightarrow> wav_ok (k_fb E) (g_file_picker g) (fw (g_wavplay g))) \<Longrightarrow>
     gui_ok E (g_wavplay_update fw g)"
  by (simp_all add: gui_ok_def)

lemmas gui_ok_upds = gui_ok_set_front gui_ok_on_menus gui_ok_ses gui_ok_windows

lemma max_on_screen_frame [simp]:
  "max_on_screen fb (w\<lparr>win_min := b\<rparr>) = max_on_screen fb w" "max_on_screen fb (win_min_update f w) = max_on_screen fb w"
  "max_on_screen fb (minimize w) = max_on_screen fb w"
  by (simp_all add: max_on_screen_def minimize_def)

lemma max_on_screen_closed [simp]: "max_on_screen fb (w\<lparr>win_open := False\<rparr>)"
  by (simp add: max_on_screen_def)

subsection \<open>Drawing\<close>

lemma keeps_paint [keeping]: "keeps (gui_ok E) (paint ops)"
  by (auto simp: keeps_def paint_def res_simps)

lemma keeps_render_on [keeping]: "keeps (gui_ok E) (render_on f)"
  by (auto simp: keeps_def render_on_def res_simps)

lemma render_notepad_kept: "notepad_render fb blob ft w m = Inr (w', m') \<Longrightarrow> \<exists>l b. w' = w\<lparr>np_last := l, np_last_drawn := b\<rparr>"
proof -
  assume "notepad_render fb blob ft w m = Inr (w', m')"
  then have "w' = w \<or> w' = w\<lparr>np_last := (wx w, wy w, ww w, wh w), np_last_drawn := True\<rparr>" by (auto simp: notepad_render_def res_simps split: if_splits)
  moreover have "w = w\<lparr>np_last := np_last w, np_last_drawn := np_last_drawn w\<rparr>" by simp
  ultimately show ?thesis by metis
qed

lemma note_ok_last [simp]: "note_ok fb (w\<lparr>np_last := l, np_last_drawn := b\<rparr>) = note_ok fb w"
  by (simp add: note_ok_def max_on_screen_def)

lemma keeps_render_notepad [keeping]: "keeps (gui_ok E) (render_notepad E)"
  by (rule keepsI) (auto simp: render_notepad_def res_simps gui_ok_def dest!: render_notepad_kept)

lemma keeps_render_taskmgr [keeping]: "keeps (gui_ok E) (render_taskmgr E I)"
  by (rule keepsI) (auto simp: render_taskmgr_def res_simps)

lemma keeps_render_window [keeping]: "keeps (gui_ok E) (render_window E I k)"
  unfolding render_window_def Let_def by (intro keeping)

lemma keeps_render_windows [keeping]: "keeps (gui_ok E) (render_windows E I)"
proof (rule keepsI)
  fix g g' assume g: "gui_ok E g" "render_windows E I g = Inr g'"
  have "keeps (gui_ok E) (seq_acts (map (\<lambda>k. if front g \<noteq> k then render_window E I k else Inr) [0..6] @ [render_window E I (front g)]))"
    by (intro keeps_seq_append keeps_seq_map keeping)
  from keepsD [OF this g(1)] g(2) show "gui_ok E g'" by (simp add: render_windows_def Let_def)
qed

lemma background_desk:
  assumes "desk_inv fb s" and "desktop_draw_background fb blob ft (s, heap, m) = Inr (s', heap', m')"
  shows "desk_inv fb s'"
proof -
  obtain c sc hc where e: "ensure_desktop_bg_cache fb (s, heap) = (c, sc, hc)" by (rule prod_cases3)
  then have "\<exists>a b. sc = s\<lparr>desktop_bg_cache := a, desktop_bg_cache_bytes := b\<rparr>"
    by (cases s) (auto simp: ensure_desktop_bg_cache_def Let_def split: if_splits prod.splits)
  then have sc: "desk_inv fb sc" using assms(1) by (auto simp: desk_inv_def desk_ok_def names_ok_def)
  have d: "desk_inv fb s2" if "desktop_draw_backdrop fb blob ft sc m = Inr (s2, m2)" for s2 m2
  proof -
    have "s2 = ensure_layout fb sc" using that by (auto simp: desktop_draw_backdrop_def desktop_draw_icons_def Let_def res_simps)
    then show ?thesis using sc ensure_layout_ok [of fb sc] by (auto simp: desk_inv_def names_ok_def ensure_layout_def desktop_layout_icons_def)
  qed
  from assms e sc show ?thesis by (auto simp: desktop_draw_background_def Let_def res_simps split: if_splits dest!: d)
qed

lemma keeps_draw_background [keeping]: "keeps (gui_ok E) (draw_background E)"
  by (rule keepsI) (auto simp: draw_background_def res_simps gui_ok_def dest!: background_desk [rotated])

lemma keeps_topmenu_draw [keeping]: "keeps (gui_ok E) (topmenu_draw E I)"
proof (rule keepsI)
  fix g g' assume g: "gui_ok E g" "topmenu_draw E I g = Inr g'"
  have r: "gui_ok E (on_menus topmenu_reset g)" using g(1) by (rule gui_ok_on_menus) (simp add: menus_ok_def topmenu_reset_def)
  have "keeps (gui_ok E) (seq_acts [paint ops, upd (on_menus (\<lambda>s. s\<lparr>topmenu_hover := h s, topmenu_item_hover := i s\<rparr>))])" for ops :: "('a, 'b) gui \<Rightarrow> _" and h i
    by (intro keeping gui_ok_on_menus) (auto simp: menus_ok_def)
  from keepsD [OF this g(1)] g(2) r show "gui_ok E g'" by (auto simp: topmenu_draw_def split: if_splits)
qed

lemma keeps_desktop_render [keeping]: "keeps (gui_ok E) (desktop_render E I)"
  unfolding desktop_render_def by (intro keeping)

subsection \<open>Files and accounts\<close>

lemma read_file_ends [ending]:
  "gui_ok E g \<Longrightarrow> (\<And>r out n g'. gui_ok E g' \<Longrightarrow> ends P (k (r, out, n, g'))) \<Longrightarrow> ends P (rbind (read_file E path cap g) k)"
  by (auto simp: read_file_def rbind_assoc split_beta intro!: ends_rbind_eq)

lemma write_file_ends [ending]:
  "gui_ok E g \<Longrightarrow> (\<And>r g'. gui_ok E g' \<Longrightarrow> ends P (k (r, g'))) \<Longrightarrow> ends P (rbind (write_file E path data n g) k)"
  by (auto simp: write_file_def rbind_assoc split_beta intro!: ends_rbind_eq)

lemma list_dir_ends [ending]:
  "gui_ok E g \<Longrightarrow> (\<And>r es g'. gui_ok E g' \<Longrightarrow> ends P (k (r, es, g'))) \<Longrightarrow> ends P (rbind (list_dir E path cap g) k)"
  by (auto simp: list_dir_def rbind_assoc split_beta intro!: ends_rbind_eq)

lemma make_dir_vol: "make_dir fuel rd wr p s = Inr s' \<Longrightarrow> \<exists>v. s' = s\<lparr>g_vol := v\<rparr>"
  by (cases s) (auto simp: make_dir_def rbind_eq_Inr split: option.splits)

lemma make_dirs_vol: "rfold (make_dir fuel rd wr) ps s = Inr s' \<Longrightarrow> \<exists>v. s' = s\<lparr>g_vol := v\<rparr>"
proof (induction ps arbitrary: s)
  case Nil
  then show ?case by (cases s) auto
next
  case (Cons p ps)
  then obtain s1 where "make_dir fuel rd wr p s = Inr s1" "rfold (make_dir fuel rd wr) ps s1 = Inr s'" by (auto simp: rbind_eq_Inr)
  with Cons.IH [of s1] make_dir_vol [of fuel rd wr p s s1] show ?case by auto
qed

lemma ensure_dirs_vol: "ensure_user_dirs_on_disk fuel rd wr u s = Inr s' \<Longrightarrow> \<exists>v. s' = s\<lparr>g_vol := v\<rparr>"
  by (cases "g_vol s = None") (cases s, auto simp: ensure_user_dirs_on_disk_def elim!: rbind_InrE dest!: make_dir_vol make_dirs_vol)

lemma keeps_on_ses: "(\<And>s s'. ses_ok s \<Longrightarrow> f s = Inr s' \<Longrightarrow> ses_ok s') \<Longrightarrow> keeps (gui_ok E) (on_ses f)"
  by (rule keepsI) (auto simp: on_ses_def gui_ok_def elim!: rbind_InrE)

lemma keeps_ensure_dirs [keeping]: "keeps (gui_ok E) (on_ses (ensure_user_dirs_on_disk fuel rd wr u))"
  by (rule keeps_on_ses) (auto dest!: ensure_dirs_vol)

lemma keeps_user_dirs [keeping]: "keeps (gui_ok E) (user_dirs E)"
  unfolding user_dirs_def by (rule keeps_on_ses) (auto dest!: ensure_dirs_vol)

lemma listed_items_ok: "items_ok (listed_items es)"
  by (auto simp: items_ok_def listed_items_def dest!: in_set_takeD)

lemma items_Nil_ok [simp]: "items_ok []"
  by (simp add: items_ok_def)

lemma set_items_inv:
  assumes "desk_inv fb dk" and "items_ok items" and "desktop_set_items items (int (length items)) dk = Inr dk'"
  shows "desk_inv fb dk'"
proof -
  have "g_items dk' = items" "wallpaper dk' = wallpaper dk"
    using assms(2,3) by (auto simp: desktop_set_items_def items_ok_def Let_def split: if_splits)
  then show ?thesis using assms desktop_set_items_ok [OF assms(3)] by (simp add: desk_inv_def names_ok_def items_ok_def)
qed

lemma gui_ok_desk: "gui_ok E g \<Longrightarrow> (desk_inv (k_fb E) (g_desk g) \<Longrightarrow> desk_inv (k_fb E) dk) \<Longrightarrow> gui_ok E (g\<lparr>g_desk := dk\<rparr>)"
  by (simp add: gui_ok_def)

lemma set_items_ends [ending]:
  assumes "gui_ok E g" and "items_ok items" and "\<And>dk. gui_ok E (g\<lparr>g_desk := dk\<rparr>) \<Longrightarrow> ends P (k dk)"
  shows "ends P (rbind (desktop_set_items items (int (length items)) (g_desk g)) k)"
  by (rule ends_rbind_eq) (use assms set_items_inv gui_ok_desk in blast)

lemma keeps_desktop_refresh [keeping]: "keeps (gui_ok E) (desktop_refresh_from_path E I)"
  unfolding keeps_ends desktop_refresh_from_path_def Let_def
  by (intro allI impI ending ends_rbind_act [OF keeps_user_dirs] ends_act [OF keeps_desktop_render])
    (simp_all add: listed_items_ok)

lemma keeps_desktop_delete [keeping]: "keeps (gui_ok E) (desktop_delete_selection E I)"
  unfolding keeps_ends desktop_delete_selection_def Let_def by (auto intro!: ending ends_act [OF keeps_desktop_refresh])

lemma set_selection_inv [simp]: "desk_inv fb dk \<Longrightarrow> desk_inv fb (desktop_set_selection i dk)"
  using desktop_set_selection_ok [of fb dk i] by (simp add: desk_inv_def names_ok_def desktop_set_selection_def)

lemma gui_ok_move_selection: "gui_ok E g \<Longrightarrow> gui_ok E (desktop_move_selection delta g)"
  by (simp add: desktop_move_selection_def Let_def gui_ok_desk)

lemma gui_ok_mount: "gui_ok E g \<Longrightarrow> gui_ok E (g\<lparr>g_ses := (g_ses g)\<lparr>g_vol := v\<rparr>\<rparr>)"
  by (simp add: gui_ok_def)

lemma mounted_ends [ending]:
  assumes "gui_ok E g" and "\<And>ok g'. gui_ok E g' \<Longrightarrow> ends P (k (ok, g'))"
  shows "ends P (rbind (ensure_volume_mounted E I g) k)"
proof -
  have k: "keeps (gui_ok E) (seq_acts [user_dirs E, desktop_refresh_from_path E I])" by (intro keeping)
  have "ends (\<lambda>(ok, g'). gui_ok E g') (ensure_volume_mounted E I g)" unfolding ensure_volume_mounted_def
    using assms(1) by (auto intro!: ending ends_rbind_eq [of "probe_disk E (g_unmounted g)"] ends_rbind_act [OF k] gui_ok_mount)
  then show ?thesis by (rule ends_rbind) (use assms(2) in auto)
qed

lemma keeps_when_mounted [keeping]: "keeps (gui_ok E) f \<Longrightarrow> keeps (gui_ok E) h \<Longrightarrow> keeps (gui_ok E) (when_mounted E I f h)"
  unfolding keeps_ends when_mounted_def by (auto intro!: mounted_ends)

subsection \<open>Prompt and editor\<close>

lemma gui_ok_start_prompt: "gui_ok E g \<Longrightarrow> length (cstr title) \<le> 47 \<Longrightarrow> gui_ok E (start_name_prompt mode t title g)"
  unfolding start_name_prompt_def gui_ok_frame by (rule gui_ok_on_menus) (simp_all add: menus_ok_def)

lemma gui_ok_end_prompt: "gui_ok E g \<Longrightarrow> gui_ok E (end_prompt g)"
  unfolding end_prompt_def gui_ok_frame by (rule gui_ok_on_menus) (simp_all add: menus_ok_def)

lemma loaded_text_length: "loaded_text r out n = Inr body \<Longrightarrow> length body \<le> 4095"
  by (auto simp: loaded_text_def Let_def split: if_splits)

lemma note_ok_placed:
  assumes "desk_screen fb" and "length body \<le> 4095"
  shows "note_ok fb ((place_notepad fb (notepad_set_path_and_name p notepad_zero))\<lparr>np_buf := body, np_cursor := c\<rparr>)"
  using places_on_screen(7) [OF assms(1), of "notepad_set_path_and_name p notepad_zero"] assms(2)
  by (simp add: note_ok_def max_on_screen_def place_notepad_def open_at_def notepad_set_path_and_name_def)

lemma keeps_notepad_open_path [keeping]: "keeps (gui_ok E) (notepad_open_path E I p)"
proof -
  have k: "keeps (gui_ok E) (seq_acts [render_notepad E, upd (set_front WIN_NOTEPAD), upd mark_dirty])" by (intro keeping) simp_all
  have "gui_ok E (g\<lparr>g_notepad := (place_notepad (k_fb E) (notepad_set_path_and_name p notepad_zero))\<lparr>np_buf := body, np_cursor := int (length body)\<rparr>\<rparr>)"
    if "gui_ok E g" "loaded_text r out n = Inr body" for g :: "('a, 'b) gui" and r out n body
    using that note_ok_placed loaded_text_length by (simp add: gui_ok_def env_ok_def)
  then show ?thesis unfolding keeps_ends notepad_open_path_def Let_def
    by (intro allI impI ending ends_rbind_eq ends_act [OF k]) auto
qed

lemma keeps_notepad_open [keeping]: "keeps (gui_ok E) (notepad_open E I name)"
  unfolding keeps_ends notepad_open_def by (intro allI impI ends_act [OF keeps_notepad_open_path])

lemma note_ok_close: "note_ok fb w \<Longrightarrow> note_ok fb ((close_max w)\<lparr>np_last_drawn := b\<rparr>)"
  by (simp add: note_ok_def close_max_def max_on_screen_def)

lemma keeps_notepad_close [keeping]: "keeps (gui_ok E) (notepad_close E I)"
  unfolding notepad_close_def by (intro keeping gui_ok_upds) (simp_all add: note_ok_close)

lemma toggle_strings:
  "np_name (toggle_maximize fb n) = np_name n" "np_buf (toggle_maximize fb n) = np_buf n" "np_path (toggle_maximize fb n) = np_path n"
  "fw_path (toggle_maximize fb f) = fw_path f" "iv_path (toggle_maximize fb v) = iv_path v" "iv_img (toggle_maximize fb v) = iv_img v"
  "img_w (toggle_maximize fb v) = img_w v" "img_h (toggle_maximize fb v) = img_h v"
  by (simp_all add: toggle_maximize_def)

lemma gui_ok_toggles:
  assumes "gui_ok E g"
  shows "gui_ok E (notepad_toggle_maximize E g)" "gui_ok E (filewin_toggle_maximize E g)" "gui_ok E (taskmgr_toggle_maximize E g)"
    "gui_ok E (terminal_toggle_maximize E g)" "gui_ok E (imgview_toggle_maximize E g)"
  using assms gui_okD(2) [OF assms] toggle_on_screen [of "k_fb E"]
  by (auto simp: notepad_toggle_maximize_def filewin_toggle_maximize_def taskmgr_toggle_maximize_def terminal_toggle_maximize_def
      imgview_toggle_maximize_def note_ok_def file_ok_def view_ok_def toggle_strings intro!: gui_ok_windows)

lemma keeps_save_as_auto: "keeps (gui_ok E) (notepad_save_as_auto E I)"
proof -
  let ?body = "\<lambda>i g. rbind (write_file E (desktop_path_for_name 96 (note_name i) g) (np_buf (g_notepad g)) (of_nat (length (np_buf (g_notepad g)))) g) (\<lambda>(r, g1).
         if r = 0 then rbind (desktop_refresh_from_path E I g1) (\<lambda>g2. Inr (Return g2)) else Inr (Next g1))"
  have b: "ends (case_flow (gui_ok E) (gui_ok E)) (?body i g)" if "gui_ok E g" for i g
    using that by (intro ending ends_rbind_act [OF keeps_desktop_refresh]) simp_all
  have "ends (case_flow (gui_ok E) (gui_ok E)) (for_loop ?body is g)" if "gui_ok E g" for "is" g
    using that
  proof (induction "is" arbitrary: g)
    case (Cons i "is")
    have "ends (case_flow (gui_ok E) (gui_ok E)) (case fl of Next s' \<Rightarrow> for_loop ?body is s' | Return r \<Rightarrow> Inr (Return r))"
      if "case_flow (gui_ok E) (gui_ok E) fl" for fl using that Cons.IH by (cases fl) (simp_all add: ends_Inr)
    then show ?case unfolding for_loop.simps by (rule ends_rbind [OF b [OF Cons.prems]])
  qed (simp add: ends_def)
  then show ?thesis unfolding keeps_ends notepad_save_as_auto_def by (auto split: flow.splits intro!: ends_rbind intro: ending)
qed

lemma note_ok_renamed: "note_ok fb w \<Longrightarrow> note_ok fb (notepad_set_path_and_name p (w\<lparr>np_name := n\<rparr>))"
  by (simp add: note_ok_def notepad_set_path_and_name_def max_on_screen_def)

lemma keeps_notepad_save_current [keeping]: "keeps (gui_ok E) (notepad_save_current E I name)"
proof -
  have "keeps (gui_ok E) (\<lambda>g.
     let src = (case name of Some n \<Rightarrow> n | None \<Rightarrow> np_name (g_notepad g)) in
     if src = [] then Inr g else
     let name = sanitize_txt_name 32 src; fullpath = save_path name g; body = np_buf (g_notepad g); data = (if body \<noteq> [] then body else [NEWLINE])
     in rbind (write_file E fullpath data (of_nat (length data)) g) (\<lambda>(r, g1).
        if r = 0 then desktop_refresh_from_path E I (g_notepad_update (\<lambda>w. notepad_set_path_and_name fullpath (w\<lparr>np_name := take 12 name\<rparr>)) g1)
        else Inr g1))"
    unfolding keeps_ends Let_def
    by (intro allI impI ending ends_act [OF keeps_desktop_refresh] gui_ok_windows) (auto intro: note_ok_renamed)
  then show ?thesis unfolding notepad_save_current_def by (intro keeping)
qed

lemma length_path_join: "0 < n \<Longrightarrow> length (path_join n dir name) < n"
  by (auto simp: path_join_def Let_def)

lemma keeps_notepad_new [keeping]: "keeps (gui_ok E) (notepad_new E)"
proof -
  have k: "keeps (gui_ok E) (seq_acts [render_notepad E, upd mark_dirty])" by (intro keeping) simp_all
  have "length (desktop_path_for_name 96 n g) \<le> 95" for n and g :: "('a, 'b) gui" using length_path_join [of 96] by (simp add: desktop_path_for_name_def less_Suc_eq_le [symmetric])
  then show ?thesis unfolding keeps_ends notepad_new_def
    by (intro allI impI ends_act [OF k] gui_ok_windows) (simp_all add: note_ok_def max_on_screen_def)
qed

lemma keeps_create_txt [keeping]: "keeps (gui_ok E) (create_txt_file_from_prompt E I)"
proof -
  have k: "keeps (gui_ok E) (seq_acts [desktop_refresh_from_path E I, notepad_open E I n, upd (set_front WIN_NOTEPAD)])" for n by (intro keeping) simp
  show ?thesis unfolding keeps_ends create_txt_file_from_prompt_def Let_def
    by (intro allI impI ending ends_rbind [where Q = "gui_ok E"] ends_act [OF k]) (simp_all add: gui_ok_end_prompt)
qed

lemma keeps_name_prompt_commit [keeping]: "keeps (gui_ok E) (name_prompt_commit E I)"
proof -
  have k: "keeps (gui_ok E) (seq_acts [when_mounted E I (seq_acts [notepad_open E I n, upd (set_front WIN_NOTEPAD)]) Inr, upd end_prompt])"
    "keeps (gui_ok E) (seq_acts [when_mounted E I (notepad_save_current E I (Some n)) Inr, upd end_prompt])" for n
    by (intro keeping; simp add: gui_ok_end_prompt)+
  show ?thesis unfolding keeps_ends name_prompt_commit_def Let_def
    by (auto split: prompt_mode.split intro: ends_act [OF keeps_create_txt] ends_act [OF k(1)] ends_act [OF k(2)] ending gui_ok_end_prompt)
qed

lemma keeps_notepad_taskbar [keeping]: "keeps (gui_ok E) (notepad_taskbar_click E I)"
proof -
  have k: "keeps (gui_ok E) (seq_acts [upd (g_notepad_update (win_min_update Not)), upd mark_dirty, desktop_render E I])"
    by (intro keeping gui_ok_windows) (simp_all add: note_ok_def)
  show ?thesis unfolding keeps_ends notepad_taskbar_click_def by (intro allI impI ending ends_act [OF k])
qed

subsection \<open>File window\<close>

lemma gui_ok_file_list: "gui_ok E g \<Longrightarrow> items_ok items \<Longrightarrow> length st \<le> 63 \<Longrightarrow> gui_ok E (g\<lparr>g_file_items := items, g_file_status := st\<rparr>)"
  by (simp add: gui_ok_def)

lemma gui_ok_file_status: "gui_ok E g \<Longrightarrow> length st \<le> 63 \<Longrightarrow> gui_ok E (g\<lparr>g_file_status := st\<rparr>)"
  by (simp add: gui_ok_def)

lemma file_ok_frame [simp]:
  "file_ok fb (fw_selection_update fs w) = file_ok fb w" "file_ok fb (fw_path_focus_update ff w) = file_ok fb w"
  "file_ok fb (win_min_update fm w) = file_ok fb w"
  by (simp_all add: file_ok_def max_on_screen_def)

lemma file_ok_path: "file_ok fb w \<Longrightarrow> length p \<le> 95 \<Longrightarrow> file_ok fb (w\<lparr>fw_path := p\<rparr>)"
  by (simp add: file_ok_def max_on_screen_def)

lemma keeps_filewin_refresh [keeping]: "keeps (gui_ok E) (filewin_refresh_list E)"
  unfolding keeps_ends filewin_refresh_list_def Let_def
  by (intro allI impI ending gui_ok_file_list gui_ok_file_status gui_ok_windows) (simp_all add: listed_items_ok)

lemma keeps_filewin_set_path [keeping]: "keeps (gui_ok E) (filewin_set_path E p)"
proof -
  have k: "keeps (gui_ok E) (seq_acts [upd (g_filewin_update (\<lambda>w. w\<lparr>fw_path := take 95 p, fw_selection := -1\<rparr>)), filewin_refresh_list E, upd mark_dirty])"
    by (intro keeping gui_ok_windows) (simp_all add: file_ok_path)
  show ?thesis unfolding keeps_ends filewin_set_path_def by (intro allI impI ending ends_act [OF k])
qed

lemma gui_ok_filewin_move: "gui_ok E g \<Longrightarrow> gui_ok E (filewin_move_selection d g)"
  by (simp add: filewin_move_selection_def gui_ok_windows(2))

lemma keeps_filewin_delete [keeping]: "keeps (gui_ok E) (filewin_delete_selection E I)"
proof -
  have k: "keeps (gui_ok E) (seq_acts [filewin_refresh_list E, desktop_refresh_from_path E I])" by (intro keeping)
  show ?thesis unfolding keeps_ends filewin_delete_selection_def by (intro allI impI ending ends_act [OF k]) simp_all
qed

lemma keeps_filewin_go_up [keeping]: "keeps (gui_ok E) (filewin_go_up E)"
proof -
  have k: "keeps (gui_ok E) (seq_acts [upd (g_filewin_update (fw_path_update (take n))), filewin_refresh_list E, upd mark_dirty])" for n
    by (intro keeping gui_ok_windows) (simp_all add: file_ok_def max_on_screen_def min.coboundedI1)
  show ?thesis unfolding keeps_ends filewin_go_up_def Let_def
    by (intro allI impI ending ends_act [OF k] ends_act [OF keeps_filewin_set_path])
qed

lemma file_ok_placed: "desk_screen fb \<Longrightarrow> length p \<le> 95 \<Longrightarrow> file_ok fb ((place_filewin fb w)\<lparr>fw_path := p\<rparr>)"
  using places_on_screen(1) [of fb w] by (simp add: file_ok_def max_on_screen_def)

lemma keeps_filewin_open [keeping]: "keeps (gui_ok E) (filewin_open E)"
proof -
  have k: "keeps (gui_ok E) (seq_acts [upd (g_filewin_update (\<lambda>w. (place_filewin (k_fb E) w)\<lparr>fw_path := take 95 p, fw_path_focus := False,
          fw_selection := -1\<rparr>)), filewin_refresh_list E, upd (set_front WIN_FILE), upd mark_dirty])" for p
    by (intro keeping gui_ok_windows) (auto intro!: file_ok_placed dest: gui_okD(2))
  show ?thesis unfolding keeps_ends filewin_open_def by (intro allI impI ending ends_act [OF k])
qed

lemma keeps_at: "(\<And>p. keeps P (f p)) \<Longrightarrow> keeps P (\<lambda>g. f (h g) g)"
  by (rule keepsI) (rule keepsD)

lemma keeps_choice: "keeps P f \<Longrightarrow> keeps P h \<Longrightarrow> keeps P (\<lambda>g. if c g then f g else h g)"
  by (simp add: keeps_ends)

lemma keeps_choice_upd: "keeps P f \<Longrightarrow> (\<And>g. P g \<Longrightarrow> P (u g)) \<Longrightarrow> keeps P (\<lambda>g. if c g then f g else Inr (u g))"
  by (simp add: keeps_ends ends_Inr)

lemma keeps_filewin_taskbar [keeping]: "keeps (gui_ok E) (filewin_taskbar_click E I)"
  unfolding filewin_taskbar_click_def
  by (intro keeps_seq_Cons keeps_seq_Nil keeps_choice_upd keeps_filewin_open keeps_upd keeps_desktop_render gui_ok_windows) simp_all

text \<open>A pick for the sound player starts only while its window is open.\<close>

lemma keeps_file_picker [keeping]:
  assumes "cb = Notepad_file_pick_cb"
  shows "keeps (gui_ok E) (file_picker_start E ext cb)"
proof -
  have "keeps (gui_ok E) (\<lambda>g. filewin_set_path E (g_desktop_dir (g_ses g)) g)" by (rule keeps_at) (rule keeps_filewin_set_path)
  moreover have "gui_ok E (g\<lparr>g_file_picker := Some (map upcase (take 4 (cstr ext)), cb)\<rparr>)" if "gui_ok E g" for g :: "('a, 'b) gui"
    using assms that by (simp add: gui_ok_def wav_ok_def)
  ultimately show ?thesis unfolding file_picker_start_def
    by (intro keeps_seq_Cons keeps_seq_Nil keeps_choice keeps_filewin_open keeps_Inr keeps_upd gui_ok_windows) simp_all
qed

lemma file_picker_wav_ends:
  assumes "gui_ok E g" and "win_open (g_wavplay g)"
  shows "ends (gui_ok E) (file_picker_start E ext cb g)"
proof -
  let ?g = "g\<lparr>g_file_picker := Some (map upcase (take 4 (cstr ext)), cb)\<rparr>"
  have "keeps (gui_ok E) (\<lambda>g. filewin_set_path E (g_desktop_dir (g_ses g)) g)" by (rule keeps_at) (rule keeps_filewin_set_path)
  then have "keeps (gui_ok E) (seq_acts [\<lambda>g. if \<not> win_open (g_filewin g) then filewin_open E g else Inr g,
       \<lambda>g. filewin_set_path E (g_desktop_dir (g_ses g)) g,
       upd (g_filewin_update (fw_path_focus_update (\<lambda>_. False))), upd (set_front WIN_FILE)])"
    by (intro keeps_seq_Cons keeps_seq_Nil keeps_choice keeps_filewin_open keeps_Inr keeps_upd gui_ok_windows) simp_all
  moreover have "gui_ok E ?g" using assms by (simp add: gui_ok_def wav_ok_def)
  ultimately show ?thesis unfolding file_picker_start_def by (subst seq_acts_Cons) (simp only: upd_def rbind.simps, rule ends_act)
qed

subsection \<open>The other windows\<close>

lemma gui_ok_cancel: "gui_ok E g \<Longrightarrow> gui_ok E (file_picker_cancel g)"
  by (simp add: gui_ok_def wav_ok_def file_picker_cancel_def)

lemma gui_ok_opens:
  assumes "gui_ok E g"
  shows "gui_ok E (taskmgr_open E g)" "gui_ok E (display_open g)" "gui_ok E (terminal_open E g)" "gui_ok E (wavplay_open g)"
proof -
  note p = places_on_screen [OF gui_okD(2) [OF assms]]
  show "gui_ok E (taskmgr_open E g)" "gui_ok E (display_open g)" "gui_ok E (terminal_open E g)"
    using assms p by (auto simp: taskmgr_open_def display_open_def terminal_open_def intro!: gui_ok_upds)
  have "wav_ok (k_fb E) pk (place_wavplay w)" for pk w
    using p(6) [of w] by (simp add: wav_ok_def on_screen_def place_wavplay_def open_at_def)
  then show "gui_ok E (wavplay_open g)" using assms by (auto simp: wavplay_open_def intro!: gui_ok_upds)
qed

lemma view_ok_frame [simp]: "view_ok fb (win_min_update f w) = view_ok fb w"
  by (simp add: view_ok_def)

lemma wav_ok_frame [simp]: "wav_ok fb pk (win_min_update f w) = wav_ok fb pk w"
  by (simp add: wav_ok_def)

lemma keeps_closes [keeping]:
  "keeps (gui_ok E) (filewin_close E I)" "keeps (gui_ok E) (taskmgr_close E I)" "keeps (gui_ok E) (display_close E I)"
  "keeps (gui_ok E) (terminal_close E I)" "keeps (gui_ok E) (imgview_close E I)" "keeps (gui_ok E) (wavplay_close E I)"
  unfolding filewin_close_def taskmgr_close_def display_close_def terminal_close_def imgview_close_def wavplay_close_def
  by (intro keeping gui_ok_upds gui_ok_cancel;
      simp add: close_on_screen file_ok_def close_max_def max_on_screen_def view_ok_def imgview_free_image_def wav_ok_def)+

lemma keeps_taskbars [keeping]:
  "keeps (gui_ok E) (taskmgr_taskbar_click E I)" "keeps (gui_ok E) (display_taskbar_click E I)"
  "keeps (gui_ok E) (terminal_taskbar_click E I)" "keeps (gui_ok E) (wavplay_taskbar_click E I)"
  unfolding taskmgr_taskbar_click_def display_taskbar_click_def terminal_taskbar_click_def wavplay_taskbar_click_def
  by (intro keeping; simp add: gui_ok_opens gui_ok_windows)+

lemma keeps_imgview_open_path [keeping]: "keeps (gui_ok E) (imgview_open_path E I p)"
proof -
  have v: "view_ok (k_fb E) (place_imgview (k_fb E) ((imgview_free_image iv)\<lparr>iv_img := Some img, img_w := w, img_h := h, iv_path := take 95 p\<rparr>))"
    if "desk_screen (k_fb E)" "imgview_load_bmp rd st = Inr (Some (img, w, h), v', heap)" for rd st img w h v' heap iv
    using places_on_screen(5) [OF that(1)] imgview_load_size [OF that(2)]
    by (simp add: view_ok_def img_ok_def place_imgview_def open_at_def)
  have k: "keeps (gui_ok E) (\<lambda>g. case volume g of (v, d) \<Rightarrow>
        rbind (imgview_load_bmp (\<lambda>v. fat32_read_file_path (k_fuel E) v (k_read E) d p) (v, g_heap g)) (\<lambda>(r, v', heap).
        let g1 = put_volume (v', d) (g\<lparr>g_heap := heap\<rparr>) in
        case r of None \<Rightarrow> Inr g1 | Some (img, w, h) \<Rightarrow>
          Inr (mark_dirty (set_front WIN_IMGVIEW (g_imgview_update (\<lambda>iv. place_imgview (k_fb E)
            ((imgview_free_image iv)\<lparr>iv_img := Some img, img_w := w, img_h := h, iv_path := take 95 p\<rparr>)) g1)))))"
    unfolding keeps_ends Let_def
    by (intro allI impI ending ends_rbind_eq) (auto intro!: gui_ok_upds v dest: gui_okD(2))
  show ?thesis unfolding keeps_ends imgview_open_path_def by (intro allI impI ending ends_act [OF keeps_when_mounted [OF k keeps_Inr(1)]])
qed

lemma keeps_imgview_taskbar [keeping]: "keeps (gui_ok E) (imgview_taskbar_click E I)"
proof -
  have "keeps (gui_ok E) (\<lambda>g. if win_open (g_imgview g) then Inr (g_imgview_update (win_min_update Not) g) else
         rbind (imgview_open_path E I PATH_WALLPAPER g) (\<lambda>g1.
         if win_open (g_imgview g1) then Inr g1 else
         rbind (find_first_wallpaper_name E 13 g1) (\<lambda>nm. case nm of None \<Rightarrow> Inr g1
         | Some found \<Rightarrow> imgview_open_path E I (path_join 96 PATH_WALL_DIR found) g1)))"
    unfolding keeps_ends
    by (intro allI impI ending ends_rbind_act [OF keeps_imgview_open_path] ends_rbind_eq [of "find_first_wallpaper_name _ _ _"]
        ends_act [OF keeps_imgview_open_path]) (simp_all add: gui_ok_windows)
  then show ?thesis unfolding imgview_taskbar_click_def by (intro keeps_seq_Cons keeps_seq_Nil keeps_upd keeps_desktop_render) simp_all
qed

lemma sound_vol:
  "sound_play_wav_path fuel rd io env path (s, heap, a) = Inr (s', heap', a') \<Longrightarrow> \<exists>v. s' = s\<lparr>g_vol := v\<rparr>"
  by (cases s) (auto simp: sound_play_wav_path_def Let_def split: if_split_asm option.split_asm prod.split_asm elim!: rbind_InrE)

lemma keeps_wavplay_play [keeping]: "keeps (gui_ok E) (wavplay_play E)"
  by (rule keepsI) (auto simp: wavplay_play_def gui_ok_def split: if_split_asm elim!: rbind_InrE dest!: sound_vol)

lemma wavplay_picked:
  "gui_ok E g \<Longrightarrow> g_file_picker g = Some (ext, Wavplay_pick_cb) \<Longrightarrow> gui_ok E (wavplay_pick_cb p n g)"
  unfolding wavplay_pick_cb_def gui_ok_frame by (intro gui_ok_upds) (auto simp: wav_ok_def)

lemma picked_ends:
  assumes "gui_ok E g" and "g_file_picker g = Some (ext, cb)"
  shows "ends (gui_ok E) (picked E I cb p n g)"
proof (cases cb)
  case Notepad_file_pick_cb
  have "keeps (gui_ok E) (seq_acts [notepad_open_path E I p, upd (set_front WIN_NOTEPAD)])" by (intro keeping) simp
  then show ?thesis using assms(1) Notepad_file_pick_cb by (simp add: picked_def ends_act)
next
  case Wavplay_pick_cb
  then show ?thesis using wavplay_picked [OF assms(1)] assms(2) by (simp add: picked_def upd_def ends_Inr)
qed

lemma keeps_file_picker_handle [keeping]: "keeps (gui_ok E) (file_picker_handle_selection E I p n)"
proof -
  have k: "keeps (gui_ok E) (seq_acts [upd file_picker_cancel, upd (g_filewin_update (win_open_update (\<lambda>_. False))), upd mark_dirty, desktop_render E I])"
    by (intro keeping gui_ok_cancel gui_ok_windows) (simp_all add: file_ok_def)
  show ?thesis unfolding keeps_ends file_picker_handle_selection_def seq_acts_Cons [of "picked _ _ _ _ _"]
    by (intro allI impI ending ends_rbind [OF picked_ends] ends_act [OF k]) auto
qed

lemma keeps_taskbar_callback: "k < 7 \<Longrightarrow> keeps (gui_ok E) (taskbar_callback E I k)"
proof -
  assume "k < 7"
  then have "k \<in> {0, 1, 2, 3, 4, 5, 6}" by auto
  then show ?thesis unfolding taskbar_callback_def by (elim insertE emptyE; simp; intro keeping)
qed

subsection \<open>Menus\<close>

lemma launch_items_ok:
  "length (launch_programs d es) \<le> 21" "x \<in> set (launch_programs d es) \<Longrightarrow> length (l_name x) \<le> 31"
  "length launch_core = 3" "x \<in> set launch_core \<Longrightarrow> length (l_name x) \<le> 31"
  by (auto simp: launch_core_def launch_programs_def dest!: in_set_takeD)

lemma keeps_launch_refresh [keeping]: "keeps (gui_ok E) (launch_refresh_items E I)"
proof -
  have m: "gui_ok E (on_menus (\<lambda>s. s\<lparr>launch_items := launch_core @ ps, launch_last_refresh := t\<rparr>) g)"
    if "gui_ok E g" "ps = [] \<or> (\<exists>d es. ps = launch_programs d es)" for g :: "('a, 'b) gui" and ps t
    using that(1) by (rule gui_ok_on_menus) (use that(2) launch_items_ok in \<open>fastforce simp: menus_ok_def\<close>)
  show ?thesis unfolding keeps_ends launch_refresh_items_def Let_def by (intro allI impI ending m) auto
qed

lemma keeps_launch_toggle [keeping]: "keeps (gui_ok E) (launch_toggle E I b)"
proof -
  have m: "gui_ok E (on_menus (\<lambda>s. s\<lparr>launch_x := 8, launch_y := (if h - 34 - f s - 4 < 4 then 4 else h - 34 - f s - 4), launch_visible := True\<rparr>) g)"
    if "gui_ok E g" "h \<le> 2 ^ 16" "\<And>s. 0 \<le> f s" for g :: "('a, 'b) gui" and h f
    using that(1) by (rule gui_ok_on_menus) (use that(2) that(3) [of "g_menus g"] in \<open>auto simp: menus_ok_def spot_def\<close>)
  have h: "sint (fb_height (k_fb E)) \<le> 2 ^ 16" if "gui_ok E g" for g :: "('a, 'b) gui" using gui_okD(2) [OF that] by (simp add: desk_screen_def)
  have n: "gui_ok E (on_menus (launch_visible_update (\<lambda>_. False)) g)" if "gui_ok E g" for g :: "('a, 'b) gui"
    using that by (rule gui_ok_on_menus) (simp add: menus_ok_def)
  show ?thesis unfolding launch_toggle_def Let_def by (intro keeping m n h) simp_all
qed

lemma gui_ok_hide_launch: "gui_ok E g \<Longrightarrow> gui_ok E (on_menus (launch_visible_update f) g)"
  by (rule gui_ok_on_menus) (simp_all add: menus_ok_def)

lemma gui_ok_logout: "gui_ok E g \<Longrightarrow> gui_ok E (launch_do_logout g)"
  unfolding launch_do_logout_def Let_def gui_ok_frame
  by (rule gui_ok_hide_launch) (auto simp: gui_ok_def ses_ok_def users_ok_def login_reset_password_def note_ok_def file_ok_def max_on_screen_def)

lemma keeps_launch_activate [keeping]: "keeps (gui_ok E) (launch_activate E I idx)"
proof -
  have h: "keeps (gui_ok E) (upd (\<lambda>g. mark_dirty (on_menus (launch_visible_update (\<lambda>_. False)) g)))" by (intro keeping) (simp add: gui_ok_hide_launch)
  have a: "keeps (gui_ok E) (seq_acts [upd launch_do_logout, upd (\<lambda>g. mark_dirty (on_menus (launch_visible_update (\<lambda>_. False)) g))])"
    "keeps (gui_ok E) (seq_acts [if c then notepad_open E I n else Inr, upd (\<lambda>g. mark_dirty (on_menus (launch_visible_update (\<lambda>_. False)) g))])" for c n
    by (intro keeping; simp add: gui_ok_logout gui_ok_hide_launch)+
  show ?thesis unfolding keeps_ends launch_activate_def Let_def
    by (auto split: launch_type.split intro: ends_act [OF h] ends_act [OF a(1)] ends_act [OF a(2) [of True, simplified]]
        ends_act [OF a(2) [of False, simplified]] ends_Inr)
qed

lemma gui_ok_save_as_prompt: "gui_ok E g \<Longrightarrow> gui_ok E (save_as_prompt g)"
  unfolding save_as_prompt_def by (rule gui_ok_start_prompt) simp_all

lemma keeps_notepad_save [keeping]: "keeps (gui_ok E) (notepad_save E I)"
  unfolding keeps_ends notepad_save_def by (intro allI impI ending ends_act [OF keeps_notepad_save_current] gui_ok_save_as_prompt)

lemma gui_ok_minimize_front: "gui_ok E g \<Longrightarrow> gui_ok E (minimize_front g)"
  by (auto simp: minimize_front_def note_ok_def file_ok_def view_ok_def minimize_def intro!: gui_ok_windows)

lemma gui_ok_toggle_front: "gui_ok E g \<Longrightarrow> gui_ok E (toggle_front E g)"
  by (simp add: toggle_front_def gui_ok_toggles)

lemma keeps_topmenu_apply [keeping]: "keeps (gui_ok E) (topmenu_apply_action E I act)"
  unfolding topmenu_apply_action_def
  by (cases act; simp; intro keeping; simp add: gui_ok_save_as_prompt gui_ok_minimize_front gui_ok_toggle_front)

lemma gui_ok_topmenu: "gui_ok E g \<Longrightarrow> (\<And>v. v \<in> {-1, 0, 1} \<Longrightarrow> f v \<in> {-1, 0, 1}) \<Longrightarrow> gui_ok E (on_menus (topmenu_open_update f) g)"
  by (rule gui_ok_on_menus) (auto simp: menus_ok_def)

lemma topmenu_title_keeps: "gui_ok E g \<Longrightarrow> ends (\<lambda>(j, g'). gui_ok E g') (topmenu_title_click E I g)"
  unfolding topmenu_title_click_def
  by (intro ending) (auto simp: find_Some_iff intro!: gui_ok_on_menus [of E g "\<lambda>s. s\<lparr>topmenu_open := _ s\<rparr>"] simp: menus_ok_def)

lemma keeps_topmenu_click [keeping]: "keeps_part (gui_ok E) (topmenu_handle_click E I)"
proof -
  have c: "gui_ok E (on_menus (topmenu_open_update (\<lambda>_. -1)) g)" if "gui_ok E g" for g :: "('a, 'b) gui" using that by (rule gui_ok_topmenu) simp
  have r: "gui_ok E (on_menus topmenu_reset g)" if "gui_ok E g" for g :: "('a, 'b) gui"
    using that by (rule gui_ok_on_menus) (simp add: menus_ok_def topmenu_reset_def)
  have j: "keeps_part (gui_ok E) (jump (seq_acts [topmenu_apply_action E I act, upd (on_menus (topmenu_open_update (\<lambda>_. -1))), upd mark_dirty, desktop_render E I]))" for act
    by (intro keeping) (simp_all add: c)
  show ?thesis unfolding keeps_part_ends topmenu_handle_click_def Let_def
    using topmenu_title_keeps j [unfolded keeps_part_ends] by (auto intro!: ending simp: c r)
qed

lemma gui_ok_ctx_hide: "gui_ok E g \<Longrightarrow> gui_ok E (ctx_menu_hide g)"
  unfolding ctx_menu_hide_def gui_ok_frame by (rule gui_ok_on_menus) (simp_all add: menus_ok_def)

lemma keeps_file_open_selected [keeping]: "keeps (gui_ok E) (file_open_selected E I)"
  unfolding keeps_ends file_open_selected_def
  by (intro allI impI ending ends_act [OF keeps_filewin_set_path] ends_act [OF keeps_notepad_open])

lemma keeps_ctx_action [keeping]: "keeps (gui_ok E) (ctx_menu_handle_action E I act)"
  unfolding ctx_menu_handle_action_def
  by (cases act; simp; intro keeping; simp add: gui_ok_save_as_prompt gui_ok_start_prompt gui_ok_ctx_hide)

lemma menus_ok_build:
  assumes "menus_ok s" and "0 \<le> psf_width ft" "psf_width ft \<le> 1024"
  shows "menus_ok (ctx_menu_build ft target s)"
  using assms by (cases target) (simp_all add: ctx_menu_build_def ctx_menu_entries_def max_length_def menus_ok_def spot_def Let_def)

lemma gui_ok_ctx_show:
  assumes g: "gui_ok E g" and x: "spot x" "spot y"
  shows "gui_ok E (ctx_menu_show E t x y g)"
proof -
  have f: "0 \<le> psf_width (k_font E)" "psf_width (k_font E) \<le> 1024"
    using gui_okD(1) [OF g] by (auto simp: env_ok_def desk_font_def font_ok_def psf_getters)
  show ?thesis unfolding ctx_menu_show_def gui_ok_frame using g
  proof (rule gui_ok_on_menus)
    assume "menus_ok (g_menus g)"
    then have "menus_ok ((g_menus g)\<lparr>ctx_menu_target := t, ctx_menu_x := x, ctx_menu_y := y\<rparr>)" using x by (simp add: menus_ok_def)
    from menus_ok_build [OF this f] show "menus_ok (let s1 = ctx_menu_build (k_font E) t ((g_menus g)\<lparr>ctx_menu_target := t, ctx_menu_x := x, ctx_menu_y := y\<rparr>)
       in s1\<lparr>ctx_menu_visible := ctx_items s1 \<noteq> []\<rparr>)" by (simp add: menus_ok_def Let_def)
  qed
qed

lemma keeps_shortcut [keeping]: "keeps_part (gui_ok E) (taskbar_handle_shortcut_click E I x y h)"
proof -
  have k: "keeps (gui_ok E) (shortcut_open E i)" if "i < 4" for i
  proof -
    have "i \<in> {0, 1, 2, 3}" using that by auto
    then show ?thesis unfolding shortcut_open_def by (elim insertE emptyE; simp; intro keeping; simp add: gui_ok_opens)
  qed
  have "keeps_part (gui_ok E) (jump (seq_acts [shortcut_open E i, upd mark_dirty, desktop_render E I]))" if "i < 4" for i
    by (intro keeping k that) simp
  then show ?thesis unfolding keeps_part_ends taskbar_handle_shortcut_click_def
    by (auto simp: find_Some_iff intro!: ending)
qed

end
