(* ===== verification/Loop_Invariant.thy ===== *)
theory Loop_Invariant
  imports Gui_Invariant
begin

text \<open>
  The event loop keeps the invariant of the session: whatever keys are pressed and wherever the mouse is moved and
  clicked, windows stay on the screen and strings inside their arrays.
\<close>

section \<open>Login\<close>

lemma sprintf_fits: "sprintf cap fmt args = Inr (n, out) \<Longrightarrow> length out < cap"
  by (auto simp: sprintf_def split: if_split_asm elim!: rbind_InrE)

lemma ses_ok_welcome: "ses_ok s \<Longrightarrow> login_welcome u s = Inr s' \<Longrightarrow> ses_ok s'"
  using sprintf_fits by (fastforce simp: login_welcome_def ses_ok_def users_ok_def elim!: rbind_InrE)

lemma ses_ok_refuse: "ses_ok s \<Longrightarrow> login_refuse u s = Inr s' \<Longrightarrow> ses_ok s'"
  using sprintf_fits by (fastforce simp: login_refuse_def ses_ok_def users_ok_def login_mark_dirty_def login_reset_password_def elim!: rbind_InrE)

lemma ses_ok_paths: "ses_ok s \<Longrightarrow> build_user_desktop_path u s = Inr s' \<Longrightarrow> ses_ok s'"
  using length_upper_copy [of u] by (auto simp: build_user_desktop_path_total ses_ok_def users_ok_def)

lemma ses_ok_default: "ses_ok s \<Longrightarrow> ses_ok (user_load_default s)"
  using user_default_ok [of s] by (simp add: ses_ok_def user_load_default_def user_add_def user_reset_list_def)

lemma ses_ok_selected: "ses_ok s \<Longrightarrow> ses_ok (login_selected_user s)"
proof -
  assume s: "ses_ok s"
  have "ses_ok (t\<lparr>g_login_selected := 0\<rparr>)" if "ses_ok t" for t :: "'a session" using that by (simp add: ses_ok_def users_ok_def)
  then show ?thesis using s ses_ok_default [OF s] by (simp add: login_selected_user_def Let_def)
qed

lemma keeps_start_session [keeping]: "keeps (gui_ok E) (start_desktop_session E I)"
proof -
  have k: "keeps (gui_ok E) (seq_acts [upd (\<lambda>g. g\<lparr>g_session_started := True\<rparr>), filewin_open E, upd (taskmgr_open E), upd mark_dirty, desktop_render E I])"
    by (intro keeping) (simp_all add: gui_ok_opens)
  show ?thesis unfolding keeps_ends start_desktop_session_def by (intro allI impI ending ends_act [OF k])
qed

lemma keeps_login_attempt [keeping]: "keeps (gui_ok E) (login_attempt E I)"
proof -
  have p: "ses_ok s \<Longrightarrow> ses_ok (s\<lparr>g_login_active := a, g_login_dirty := b\<rparr>)" for s :: "'a session" and a b by (simp add: ses_ok_def users_ok_def)
  have k: "keeps (gui_ok E) (seq_acts [on_ses (login_welcome u), on_ses (ensure_user_dirs_on_disk (k_fuel E) (k_read E) (k_write E) u), on_ses (build_user_desktop_path u),
     desktop_refresh_from_path E I, upd (g_ses_update (\<lambda>s. s\<lparr>g_login_active := False, g_login_dirty := False\<rparr>)), start_desktop_session E I])" for u
    by (intro keeps_seq_Cons keeps_seq_Nil keeps_on_ses [OF ses_ok_welcome] keeps_on_ses [OF ses_ok_paths] keeps_ensure_dirs keeps_desktop_refresh
        keeps_upd gui_ok_ses p keeps_start_session)
  have "gui_ok E (g_ses_update login_selected_user g)" if "gui_ok E g" for g :: "('a, 'b) gui" using that ses_ok_selected by (rule gui_ok_ses)
  then show ?thesis unfolding keeps_ends login_attempt_def Let_def
    by (intro allI impI ending ends_act [OF k] ends_act [OF keeps_on_ses [OF ses_ok_refuse]])
qed

lemma keeps_login_click [keeping]:
  assumes "-1 \<le> h"
  shows "keeps (gui_ok E) (login_click E I h)"
  unfolding login_click_def Let_def
  by (intro keeping gui_ok_ses) (auto simp: ses_ok_def users_ok_def login_mark_dirty_def)

lemma keeps_login_key [keeping]: "keeps (gui_ok E) (login_key E I sc)"
  unfolding keeps_ends login_key_def
  by (intro allI impI ending ends_act [OF keeps_login_attempt] gui_ok_ses) (auto simp: ses_ok_def users_ok_def login_mark_dirty_def Let_def)

lemma keeps_login_frame [keeping]: "keeps (gui_ok E) (login_frame E I)"
  by (rule keepsI) (auto simp: login_frame_def login_render_def gui_ok_def ses_ok_def users_ok_def split: if_split_asm elim!: rbind_InrE)

lemma login_hovered_ge: "-1 \<le> login_hovered lo I n"
  by (simp add: login_hovered_def split: option.split)

lemma keeps_login_step [keeping]: "keeps (gui_ok E) (login_step E I sc)"
proof -
  have c: "keeps (gui_ok E) (\<lambda>g. case sc of Some c \<Rightarrow> if g_login_pw_focus (g_ses g) then login_key E I c g else Inr g | None \<Rightarrow> Inr g)"
    unfolding keeps_ends by (intro allI impI ending ends_act [OF keeps_login_key])
  have h: "ses_ok (login_set_hover h s)" if "ses_ok s" for h and s :: "'a session"
    using that by (auto simp: login_set_hover_def ses_ok_def users_ok_def login_mark_dirty_def)
  have k: "keeps (gui_ok E) (seq_acts [upd (g_ses_update (login_set_hover n)), if b then login_click E I n else Inr, upd (set_prev_btn I),
        \<lambda>g. case sc of Some c \<Rightarrow> if g_login_pw_focus (g_ses g) then login_key E I c g else Inr g | None \<Rightarrow> Inr g, login_frame E I])" if "-1 \<le> n" for n b
    using that by (intro keeps_seq_Cons keeps_seq_Nil c keeps_upd gui_ok_ses h keeps_if keeps_login_click keeps_Inr keeps_login_frame) (simp_all add: set_prev_btn_def)
  show ?thesis unfolding keeps_ends login_step_def Let_def
    by (intro allI impI ending ends_act [OF k] login_hovered_ge) (simp add: set_prev_btn_def)
qed

section \<open>Keyboard\<close>

lemma wm_inv_cycle: "wm_inv wm \<Longrightarrow> wm_inv (wm_cycle_next fl wm)"
  using length_window_entries by (auto simp: wm_inv_def wm_cycle_next_def Let_def split: option.split)

lemma gui_ok_wm: "gui_ok E g \<Longrightarrow> (wm_inv (g_wm g) \<Longrightarrow> wm_inv (f (g_wm g))) \<Longrightarrow> gui_ok E (g_wm_update f g)"
  by (simp add: gui_ok_def)

lemma keeps_key_dispatch: "keeps_part (gui_ok E) (key_dispatch E I)"
proof -
  have w: "keeps (gui_ok E) (seq_acts [upd (g_loop_update f), launch_toggle E I b, desktop_render E I])" for f b by (intro keeping) simp
  have a: "keeps (gui_ok E) (seq_acts [upd (\<lambda>g. g_wm_update (wm_cycle_next (win_flags g)) g), upd mark_dirty, desktop_render E I])"
    by (intro keeping gui_ok_wm) (simp_all add: wm_inv_cycle)
  have r: "keeps (gui_ok E) (upd (arrow_key c))" for c
    by (rule keeps_upd) (simp add: arrow_key_def Let_def gui_ok_filewin_move gui_ok_move_selection)
  have d: "keeps (gui_ok E) (if b then filewin_delete_selection E I else desktop_delete_selection E I)" for b by (intro keeping)
  show ?thesis unfolding keeps_part_ends key_dispatch_def Let_def
    by (intro allI impI ending ends_rbind_act [OF w] ends_rbind_act [OF a] ends_rbind_act [OF r] ends_rbind_act [OF d]
        ends_rbind_eq [of "i32 _"]) simp_all
qed

section \<open>Buttons\<close>

lemma skip_ends [ending]: "gui_ok E g \<Longrightarrow> ends (\<lambda>(j, g'). gui_ok E g') (skip g)"
  by (simp add: skip_def ends_def)

lemma jump_ends: "keeps (gui_ok E) f \<Longrightarrow> gui_ok E g \<Longrightarrow> ends (\<lambda>(j, g'). gui_ok E g') (jump f g)"
  using keeps_jump [of "gui_ok E" f] by (simp add: keeps_part_ends)

lemma stay_ends: "keeps (gui_ok E) f \<Longrightarrow> gui_ok E g \<Longrightarrow> ends (\<lambda>(j, g'). gui_ok E g') (stay f g)"
  using keeps_stay [of "gui_ok E" f] by (simp add: keeps_part_ends)

lemma jump_act_ends: "ends (gui_ok E) (f g) \<Longrightarrow> ends (\<lambda>(j, g'). gui_ok E g') (jump f g)"
  unfolding jump_def by (erule ends_rbind) (simp add: ends_Inr)

lemma keeps_click_ctx: "keeps_part (gui_ok E) (click_ctx_menu E I)"
  unfolding keeps_part_ends click_ctx_menu_def Let_def
  by (intro allI impI ending jump_ends keeping) (simp_all add: gui_ok_ctx_hide)

lemma keeps_click_prompt: "keeps_part (gui_ok E) (click_prompt E I)"
  unfolding keeps_part_ends click_prompt_def by (intro allI impI ending jump_ends keeping)

lemma click_loop_entry: "click_loop fl mx my y h x i es = Inr (Some (j, e)) \<Longrightarrow> e \<in> set es"
  by (induction es arbitrary: x i) (auto simp: Let_def split: if_splits elim!: rbind_InrE)

lemma window_callbacks: "\<forall>e\<in>set window_entries. \<exists>k<7. w_on_click e = Some k"
proof -
  have "map w_on_click window_entries = map Some [0..<7]" by code_simp
  then have "w_on_click e \<in> set (map Some [0..<7])" if "e \<in> set window_entries" for e using that by (metis image_eqI set_map)
  then show ?thesis by fastforce
qed

lemma keeps_taskbar_window: "keeps (gui_ok E) (taskbar_window_click E I y)"
proof -
  have "ends (gui_ok E) (case hit of None \<Rightarrow> Inr (g\<lparr>g_wm := wm\<rparr>) | Some (_, k) \<Rightarrow> taskbar_callback E I k (g\<lparr>g_wm := wm\<rparr>))"
    if g: "gui_ok E g" and r: "wm_handle_taskbar_click (win_flags g) (in_mx I) (in_my I) y 32 80 (g_wm g) = Inr (wm, hit)" for g :: "('a, 'b) gui" and wm hit
  proof -
    have es: "g_entries (g_wm g) = window_entries" using g by (simp add: gui_ok_def wm_inv_def)
    have "wm = g_wm g \<and> hit = None \<or> (\<exists>i e. wm = wm_set_front i (g_wm g) \<and> e \<in> set window_entries \<and> hit = map_option (\<lambda>cb. (e, cb)) (w_on_click e))"
      using r click_loop_entry unfolding wm_handle_taskbar_click_def es by (fastforce split: option.split_asm elim!: rbind_InrE)
    then show ?thesis
    proof
      assume "wm = g_wm g \<and> hit = None"
      then show ?thesis using g by (simp add: ends_Inr)
    next
      assume "\<exists>i e. wm = wm_set_front i (g_wm g) \<and> e \<in> set window_entries \<and> hit = map_option (\<lambda>cb. (e, cb)) (w_on_click e)"
      then obtain i e k where h: "wm = wm_set_front i (g_wm g)" "hit = Some (e, k)" "k < 7" using window_callbacks by fastforce
      have "gui_ok E (g_wm_update (wm_set_front i) g)" using gui_ok_set_front [OF g, of i] by (simp add: set_front_def)
      then have "gui_ok E (g\<lparr>g_wm := wm\<rparr>)" by (simp add: gui_ok_def h(1))
      then show ?thesis using ends_act [OF keeps_taskbar_callback [OF h(3)]] by (simp add: h(2))
    qed
  qed
  then show ?thesis unfolding keeps_ends taskbar_window_click_def by (intro allI impI ends_rbind_eq) (auto split: prod.split)
qed

lemma keeps_click_taskbar: "keeps_part (gui_ok E) (click_taskbar E I)"
proof -
  have "keeps_part (gui_ok E) (chain [taskbar_handle_shortcut_click E I 80 y 32, jump (taskbar_window_click E I y)])" for y
    by (rule keeps_chain) (auto intro: keeps_shortcut keeps_jump keeps_taskbar_window)
  then have c: "ends (\<lambda>(j, g'). gui_ok E g') (chain [taskbar_handle_shortcut_click E I 80 y 32, jump (taskbar_window_click E I y)] g)"
    if "gui_ok E g" for y g using that unfolding keeps_part_ends by blast
  show ?thesis unfolding keeps_part_ends click_taskbar_def Let_def
    by (intro allI impI ending jump_ends keeping c) (simp_all add: hide_launch_def gui_ok_hide_launch)
qed

lemma keeps_click_launch: "keeps_part (gui_ok E) (click_launch E I)"
  unfolding keeps_part_ends click_launch_def Let_def
  by (intro allI impI ending jump_ends keeping) (simp_all add: hide_launch_def gui_ok_hide_launch)

lemma keeps_click_focus: "keeps_part (gui_ok E) (click_focus E I)"
proof -
  have "gui_ok E (on_menus (\<lambda>s. if c s then s\<lparr>info_visible := False\<rparr> else s) g)" if "gui_ok E g" for g :: "('a, 'b) gui" and c
    using that by (rule gui_ok_on_menus) (simp add: menus_ok_def)
  then show ?thesis unfolding keeps_part_ends click_focus_def Let_def by (intro allI impI stay_ends keeping) simp_all
qed

lemma keeps_click_notepad: "keeps_part (gui_ok E) (click_notepad E I)"
proof -
  have "keeps (gui_ok E) (upd (g_notepad_update (win_min_update (\<lambda>_. True))))" "keeps (gui_ok E) (upd (notepad_toggle_maximize E))"
    by (intro keeping gui_ok_windows; simp add: note_ok_def gui_ok_toggles)+
  then show ?thesis unfolding keeps_part_ends click_notepad_def Let_def
    by (intro allI impI ending jump_ends keeps_notepad_new keeps_file_picker keeps_notepad_save keeps_notepad_close refl)
qed

lemma keeps_close_button: "keeps (gui_ok E) f \<Longrightarrow> keeps_part (gui_ok E) (close_button I k w f)"
  unfolding keeps_part_ends close_button_def by (intro allI impI ending jump_ends)

lemma keeps_file_activate [keeping]: "keeps (gui_ok E) (file_activate E I it)"
  unfolding keeps_ends file_activate_def Let_def
  by (intro allI impI ending ends_act [OF keeps_filewin_set_path] ends_act [OF keeps_notepad_open] ends_act [OF keeps_imgview_open_path]
      ends_act [OF keeps_file_picker_handle])

lemma keeps_file_select [keeping]: "keeps (gui_ok E) (file_select E I idx)"
  unfolding keeps_ends file_select_def Let_def
  by (intro allI impI ending ends_act [OF keeps_file_activate]) (auto intro!: gui_ok_windows(2))

lemma keeps_click_file_list: "keeps_part (gui_ok E) (click_file_list E I)"
  unfolding keeps_part_ends click_file_list_def Let_def by (intro allI impI ending jump_ends keeping)

lemma keeps_click_filewin: "keeps_part (gui_ok E) (click_filewin E I)"
proof -
  have "keeps (gui_ok E) (\<lambda>g. filewin_set_path E p (g_filewin_update (fw_path_focus_update (\<lambda>_. False)) g))" for p
    unfolding keeps_ends by (intro allI impI ends_act [OF keeps_filewin_set_path]) (simp add: gui_ok_windows)
  moreover have "keeps (gui_ok E) (upd (\<lambda>g. mark_dirty (g_filewin_update (fw_path_focus_update (\<lambda>_. True)) g)))"
    by (intro keeping) (simp add: gui_ok_windows)
  moreover have "ends (\<lambda>(j, g'). gui_ok E g') (click_file_list E I g)" if "gui_ok E g" for g :: "('a, 'b) gui"
    using that keeps_click_file_list unfolding keeps_part_ends by blast
  ultimately show ?thesis unfolding keeps_part_ends click_filewin_def Let_def by (intro allI impI ending jump_ends)
qed

lemma keeps_click_wavplay: "keeps_part (gui_ok E) (click_wavplay E I)"
  unfolding keeps_part_ends click_wavplay_def Let_def
  by (intro allI impI ending jump_ends [OF keeps_wavplay_play] jump_act_ends file_picker_wav_ends) (simp_all add: shown_def)

lemma desk_inv_click:
  assumes "desk_inv fb dk"
  shows "desktop_hit_test fb x y dk = (hit, dk1) \<Longrightarrow> desk_inv fb dk1" "desktop_is_double_click t i dk = (b, dk2) \<Longrightarrow> desk_inv fb dk2"
proof -
  assume h: "desktop_hit_test fb x y dk = (hit, dk1)"
  then have "dk1 = ensure_layout fb dk" by (simp add: desktop_hit_test_def Let_def)
  then show "desk_inv fb dk1" using assms ensure_layout_ok [of fb dk] by (auto simp: desk_inv_def names_ok_def ensure_layout_def desktop_layout_icons_def)
next
  assume "desktop_is_double_click t i dk = (b, dk2)"
  then show "desk_inv fb dk2" using assms by (auto simp: desktop_is_double_click_def desk_inv_def desk_ok_def names_ok_def)
qed

lemma keeps_desktop_activate [keeping]: "keeps (gui_ok E) (desktop_activate E I it)"
  unfolding keeps_ends desktop_activate_def
  by (intro allI impI ending ends_act [OF keeps_notepad_open] ends_act [OF keeps_imgview_open_path])

lemma keeps_click_desktop: "keeps_part (gui_ok E) (click_desktop E I)"
  unfolding keeps_part_ends click_desktop_def Let_def
  by (intro allI impI ending stay_ends keeping gui_ok_desk) (auto intro: desk_inv_click set_selection_inv)

lemma keeps_left_click: "keeps_part (gui_ok E) (left_click E I)"
  unfolding left_click_def
  by (rule keeps_chain) (auto simp: close_buttons_def intro: keeps_click_ctx keeps_click_prompt keeps_click_taskbar keeps_click_launch
      keeps_topmenu_click keeps_click_focus keeps_click_notepad keeps_close_button keeps_closes keeps_click_filewin keeps_click_wavplay keeps_click_desktop)

lemma gui_ok_right_click:
  assumes g: "gui_ok E g" and I: "input_ok E I"
  shows "gui_ok E (right_click E I g)"
proof -
  have "spot (in_mx I)" "spot (in_my I)" using I gui_okD(2) [OF g] by (auto simp: input_ok_def spot_def desk_screen_def)
  then have "gui_ok E (ctx_menu_show E t (in_mx I) (in_my I) g)" for t by (rule gui_ok_ctx_show [OF g])
  moreover have "gui_ok E (on_menus (info_visible_update f) h)" "gui_ok E (on_menus (name_prompt_ready_click_update f) h)" if "gui_ok E h" for h :: "('a, 'b) gui" and f
    using that by (auto intro!: gui_ok_on_menus simp: menus_ok_def)
  ultimately show ?thesis using g by (simp add: right_click_def Let_def)
qed

lemma ends_chain: "keeps_part P f \<Longrightarrow> P g \<Longrightarrow> (\<And>j g'. P g' \<Longrightarrow> ends Q (k (j, g'))) \<Longrightarrow> ends Q (rbind (f g) k)"
  unfolding keeps_part_ends by (rule ends_rbind [of "\<lambda>(j, g'). P g'"]) auto

lemma keeps_mouse_buttons:
  assumes I: "input_ok E I"
  shows "keeps (gui_ok E) (mouse_buttons E I)"
proof -
  have p: "keeps_part (gui_ok E) (\<lambda>g. if pressed 1 I g then left_click E I g else skip g)"
    using keeps_left_click unfolding keeps_part_ends by (intro allI impI ending) blast
  have n: "gui_ok E (on_menus (name_prompt_ready_click_update f) g)" if "gui_ok E g" for g :: "('a, 'b) gui" and f
    using that by (auto intro!: gui_ok_on_menus simp: menus_ok_def)
  show ?thesis unfolding keeps_ends mouse_buttons_def Let_def
    by (intro allI impI ends_chain [OF p]) (simp_all add: n ends_Inr gui_ok_right_click [OF _ I])
qed

section \<open>Typing\<close>

lemma keeps_prompt_key [keeping]: "keeps (gui_ok E) (prompt_key E I sc)"
proof -
  have m: "gui_ok E (on_menus f g)" if "gui_ok E g" "f \<in> {name_prompt_buf_update butlast, name_prompt_active_update (\<lambda>_. False)}" for f and g :: "('a, 'b) gui"
    using that by (auto simp: menus_ok_def intro!: gui_ok_on_menus)
  have t: "gui_ok E (on_menus (name_prompt_buf_update (\<lambda>b. b @ [c])) g)" if "gui_ok E g" "length (name_prompt_buf (g_menus g)) < 31" for c and g :: "('a, 'b) gui"
    using that(1) by (rule gui_ok_on_menus) (use that(2) in \<open>simp add: menus_ok_def\<close>)
  show ?thesis unfolding keeps_ends prompt_key_def Let_def
    by (intro allI impI ending ends_act [OF keeps_create_txt]) (simp_all add: m t)
qed

lemma keeps_path_key [keeping]: "keeps (gui_ok E) (path_key E sc)"
  unfolding keeps_ends path_key_def Let_def
  by (intro allI impI ending ends_act [OF keeps_filewin_set_path])
    (auto simp: file_ok_def max_on_screen_def intro!: gui_ok_windows(2))

lemma keeps_typing: "keeps_part (gui_ok E) (typing E I sc)"
proof -
  let ?prompt = "\<lambda>g. case sc of Some c \<Rightarrow> if name_prompt_active (g_menus g) then rbind (prompt_key E I c g) (\<lambda>g'. Inr (None, g')) else Inr (sc, g) | None \<Rightarrow> Inr (None, g)"
  have p: "keeps_part (gui_ok E) ?prompt" unfolding keeps_part_ends
    by (intro allI impI ending ends_rbind_act [OF keeps_prompt_key]) simp_all
  show ?thesis unfolding keeps_part_ends typing_def
    by (intro allI impI ends_chain [OF p]) (auto intro!: ending ends_rbind_act [OF keeps_path_key])
qed

lemma gui_ok_note_buf:
  "gui_ok E g \<Longrightarrow> gui_ok E (g_notepad_update (np_buf_update butlast) g)"
  "gui_ok E g \<Longrightarrow> length (np_buf (g_notepad g)) < 4095 \<Longrightarrow> gui_ok E (g_notepad_update (np_buf_update (\<lambda>b. b @ [c])) g)"
  by (erule gui_ok_windows(1); auto simp: note_ok_def max_on_screen_def)+

lemma keeps_editor_key: "keeps_part (gui_ok E) (editor_key E I sc)"
  unfolding keeps_part_ends editor_key_def Let_def
  by (intro allI impI ending jump_ends [OF keeps_render_notepad] stay_ends [OF keeps_render_notepad] jump_ends [OF keeps_notepad_close])
    (simp_all add: gui_ok_note_buf)

section \<open>Dragging\<close>

lemma drag_kept:
  "np_name (fst (drag_step fb mx my b n)) = np_name n" "np_buf (fst (drag_step fb mx my b n)) = np_buf n" "np_path (fst (drag_step fb mx my b n)) = np_path n"
  "fw_path (fst (drag_step fb mx my b f)) = fw_path f" "wp_path (fst (drag_step fb mx my b p)) = wp_path p" "wp_name (fst (drag_step fb mx my b p)) = wp_name p"
  by (simp_all add: drag_step_def Let_def)

lemma imgview_pointer_kept:
  "iv_path (fst (imgview_pointer fb mx my b w)) = iv_path w" "iv_img (fst (imgview_pointer fb mx my b w)) = iv_img w"
  "img_w (fst (imgview_pointer fb mx my b w)) = img_w w" "img_h (fst (imgview_pointer fb mx my b w)) = img_h w"
  by (simp_all add: imgview_pointer_def drag_step_def Let_def)

lemma drag_window_alt:
  "drag_window E I put w g = (if snd (drag_step (k_fb E) (in_mx I) (in_my I) (left_down I) w)
     then mark_dirty (put (\<lambda>_. fst (drag_step (k_fb E) (in_mx I) (in_my I) (left_down I) w)) g)
     else put (\<lambda>_. fst (drag_step (k_fb E) (in_mx I) (in_my I) (left_down I) w)) g)"
  by (simp add: drag_window_def split_beta Let_def)

lemma gui_ok_drag:
  assumes g: "gui_ok E g"
  shows "gui_ok E (drag_window E I g_notepad_update (g_notepad g) g)" "gui_ok E (drag_window E I g_filewin_update (g_filewin g) g)"
    "gui_ok E (drag_window E I g_taskmgr_update (g_taskmgr g) g)" "gui_ok E (drag_window E I g_display_update (g_display g) g)"
    "gui_ok E (drag_window E I g_terminal_update (g_terminal g) g)"
    "shown (g_wavplay g) \<Longrightarrow> gui_ok E (drag_window E I g_wavplay_update (g_wavplay g) g)" "gui_ok E (drag_imgview E I g)"
proof -
  note scr = gui_okD(2) [OF g]
  note d = drag_max_on_screen [OF scr]
  show "gui_ok E (drag_window E I g_notepad_update (g_notepad g) g)" "gui_ok E (drag_window E I g_filewin_update (g_filewin g) g)"
    "gui_ok E (drag_window E I g_taskmgr_update (g_taskmgr g) g)" "gui_ok E (drag_window E I g_display_update (g_display g) g)"
    "gui_ok E (drag_window E I g_terminal_update (g_terminal g) g)"
    unfolding drag_window_alt by (auto intro!: gui_ok_windows g d simp: note_ok_def file_ok_def drag_kept)
  have "gui_ok E (g_imgview_update (\<lambda>_. fst (imgview_pointer (k_fb E) (in_mx I) (in_my I) (left_down I) (g_imgview g))) g)"
    using g by (rule gui_ok_windows(6)) (simp add: view_ok_def imgview_pointer_kept imgview_pointer_on_screen [OF scr])
  then show "gui_ok E (drag_imgview E I g)" by (simp add: drag_imgview_def split_beta Let_def)
  assume s: "shown (g_wavplay g)"
  have "gui_ok E (g_wavplay_update (\<lambda>_. fst (drag_step (k_fb E) (in_mx I) (in_my I) (left_down I) (g_wavplay g))) g)"
    using g by (rule gui_ok_windows(7)) (use s in \<open>simp add: wav_ok_def shown_def drag_kept drag_frame drag_rect [OF scr]\<close>)
  then show "gui_ok E (drag_window E I g_wavplay_update (g_wavplay g) g)" by (simp add: drag_window_alt)
qed

lemma gui_ok_drag_others: "gui_ok E g \<Longrightarrow> gui_ok E (drag_others E I g)"
  by (simp add: drag_others_def gui_ok_drag)

lemma keeps_editor: "keeps_part (gui_ok E) (editor_section E I sc)"
proof -
  have "keeps_part (gui_ok E) (chain [case sc of Some c \<Rightarrow> editor_key E I c | None \<Rightarrow> skip, stay (upd (\<lambda>g. drag_window E I g_notepad_update (g_notepad g) g))])"
    by (rule keeps_chain) (auto intro!: keeps_editor_key keeps_skip keeps_stay keeps_upd gui_ok_drag split: option.split)
  then show ?thesis unfolding keeps_part_ends editor_section_def by (auto intro!: ending)
qed

section \<open>A round\<close>

lemma cursor_ok_use: "cursor_ok c \<Longrightarrow> cursor_ok (cursor_use_resize c)" "cursor_ok c \<Longrightarrow> cursor_ok (cursor_use_default c)"
proof -
  have l: "length cross_image = 81" "length resize_image = 81" by (simp_all add: cross_image_def resize_image_def)
  show "cursor_ok c \<Longrightarrow> cursor_ok (cursor_use_resize c)" "cursor_ok c \<Longrightarrow> cursor_ok (cursor_use_default c)"
    using l by (auto simp: cursor_ok_def cursor_use_resize_def cursor_use_default_def cursor_use_def fb_set_cursor_image_def img_ok_def split: option.split)
qed

lemma gui_ok_choose: "gui_ok E g \<Longrightarrow> gui_ok E (choose_cursor I g)"
  by (simp add: choose_cursor_def gui_ok_def cursor_ok_use)

lemma keeps_frame_end [keeping]: "keeps (gui_ok E) (frame_end E I)"
proof -
  have k: "keeps (gui_ok E) (seq_acts [upd (g_loop_update a), desktop_render E I, upd (g_loop_update b)])" for a b by (intro keeping) simp_all
  show ?thesis unfolding keeps_ends frame_end_def Let_def by (intro allI impI ending ends_act [OF k]) (simp_all add: gui_ok_choose)
qed

lemma keeps_desktop_step [keeping]:
  assumes "input_ok E I"
  shows "keeps (gui_ok E) (desktop_step E I sc)"
proof -
  have c: "keeps_part (gui_ok E) (chain [editor_section E I sc1, stay (upd (drag_others E I))])" for sc1
    by (rule keeps_chain) (auto intro!: keeps_editor keeps_stay keeps_upd gui_ok_drag_others)
  show ?thesis unfolding keeps_ends desktop_step_def
    by (intro allI impI ending ends_rbind_act [OF keeps_mouse_buttons [OF assms]] ends_chain [OF keeps_typing] ends_chain [OF c] ends_act [OF keeps_frame_end])
      (simp_all add: set_prev_btn_def ends_chain [OF keeps_typing] ends_chain [OF c] ends_act [OF keeps_frame_end])
qed

lemma keeps_boot_anim [keeping]: "keeps (gui_ok E) (boot_anim_step E I)"
  unfolding boot_anim_step_def by (intro keeping) simp

lemma keeps_loop_step:
  assumes "input_ok E I"
  shows "keeps (gui_ok E) (loop_step E I)"
  unfolding keeps_ends loop_step_def Let_def
  by (intro allI impI ending ends_act [OF keeps_boot_anim])
    (auto intro!: ends_chain [OF keeps_key_dispatch] ending ends_act [OF keeps_login_step] ends_act [OF keeps_desktop_step [OF assms]])

end
