(* ===== verification/Login_Safety.thy ===== *)
theory Login_Safety
  imports Loop_Invariant
begin

text \<open>
  The desktop is reached from the login screen only with the password of an account. The locale below is about a
  property of the session that does not depend on the volume: drawing, listing and deleting files keep it, because
  they change nothing else of the session. It is interpreted on the state of the login screen.
\<close>

lemmas results = ends_Inr ends_if ends_option ends_prod

section \<open>Actions that change only the volume of the session\<close>

locale account_property =
  fixes R :: "'d session \<Rightarrow> bool"
  assumes any_volume: "R s \<Longrightarrow> R (s\<lparr>g_vol := v\<rparr>)"
begin

abbreviation holds :: "('d, 'h) gui \<Rightarrow> bool" where
  "holds g \<equiv> R (g_ses g)"

lemma holds_upds [simp]:
  "holds (mark_dirty g) = holds g" "holds (set_front k g) = holds g" "holds (on_menus f g) = holds g" "holds (g_loop_update l g) = holds g"
  by (simp_all add: mark_dirty_def set_front_def on_menus_def)

lemma holds_put_volume: "holds g \<Longrightarrow> holds (put_volume vd g)"
  by (simp add: put_volume_def any_volume split: option.split)

lemma holds_paint [keeping]:
  "keeps holds (paint ops)" "keeps holds (render_on f)" "keeps holds (draw_background E)" "keeps holds (render_notepad E)" "keeps holds (render_taskmgr E I)"
  by (rule keepsI; auto simp: paint_def render_on_def draw_background_def render_notepad_def render_taskmgr_def elim!: rbind_InrE)+

lemma holds_render_window [keeping]: "keeps holds (render_window E I k)"
  unfolding render_window_def Let_def by (intro keeping)

lemma holds_render_windows [keeping]: "keeps holds (render_windows E I)"
proof -
  have "keeps holds (seq_acts (map (\<lambda>k. if f \<noteq> k then render_window E I k else Inr) [0..6] @ [render_window E I f]))" for f
    by (intro keeps_seq_append keeps_seq_map keeping)
  then show ?thesis unfolding keeps_def render_windows_def Let_def by blast
qed

lemma holds_topmenu_draw [keeping]: "keeps holds (topmenu_draw E I)"
proof -
  have k: "keeps holds (seq_acts [paint ops, upd (on_menus f)])" for ops :: "('d, 'h) gui \<Rightarrow> _" and f by (intro keeping) simp
  show ?thesis unfolding keeps_ends topmenu_draw_def by (intro allI impI ending ends_act [OF k]) simp
qed

lemma holds_desktop_render [keeping]: "keeps holds (desktop_render E I)"
  unfolding desktop_render_def by (intro keeping)

lemma holds_file_calls:
  assumes "holds g"
  shows "(\<And>r g'. holds g' \<Longrightarrow> ends P (k (r, g'))) \<Longrightarrow> ends P (rbind (write_file E path data n g) k)"
    and "(\<And>r es g'. holds g' \<Longrightarrow> ends P (j (r, es, g'))) \<Longrightarrow> ends P (rbind (list_dir E path cap g) j)"
  using assms by (auto simp: write_file_def list_dir_def rbind_assoc split_beta holds_put_volume intro!: ends_rbind_eq)

lemma holds_ensure_dirs [keeping]: "keeps holds (on_ses (ensure_user_dirs_on_disk fuel rd wr u))" "keeps holds (user_dirs E)"
  by (rule keepsI; auto simp: on_ses_def user_dirs_def any_volume elim!: rbind_InrE dest!: ensure_dirs_vol)+

lemma holds_desktop_refresh [keeping]: "keeps holds (desktop_refresh_from_path E I)"
  unfolding keeps_ends desktop_refresh_from_path_def Let_def
  by (intro allI impI ending ends_rbind_act [OF holds_ensure_dirs(2)] holds_file_calls ends_rbind_eq [of "desktop_set_items _ _ _"]
      ends_act [OF holds_desktop_render]) simp_all

lemma holds_desktop_delete [keeping]: "keeps holds (desktop_delete_selection E I)"
  unfolding keeps_ends desktop_delete_selection_def Let_def
  by (intro allI impI results holds_file_calls ends_act [OF holds_desktop_refresh]) simp_all

lemma holds_refresh_list [keeping]: "keeps holds (filewin_refresh_list E)"
  unfolding keeps_ends filewin_refresh_list_def Let_def by (intro allI impI results holds_file_calls) simp_all

lemma holds_set_path [keeping]: "keeps holds (filewin_set_path E p)"
proof -
  have k: "keeps holds (seq_acts [upd (g_filewin_update f), filewin_refresh_list E, upd mark_dirty])" for f by (intro keeping) simp_all
  show ?thesis unfolding keeps_ends filewin_set_path_def by (intro allI impI ending ends_act [OF k])
qed

lemma holds_filewin_delete [keeping]: "keeps holds (filewin_delete_selection E I)"
proof -
  have k: "keeps holds (seq_acts [filewin_refresh_list E, desktop_refresh_from_path E I])" by (intro keeping)
  show ?thesis unfolding keeps_ends filewin_delete_selection_def by (intro allI impI results holds_file_calls ends_act [OF k]) simp_all
qed

lemma holds_launch_toggle [keeping]: "keeps holds (launch_toggle E I b)"
proof -
  have "keeps holds (launch_refresh_items E I)"
    unfolding keeps_ends launch_refresh_items_def Let_def by (intro allI impI results holds_file_calls) simp_all
  then show ?thesis unfolding launch_toggle_def by (intro keeping) simp_all
qed

lemma holds_key_dispatch: "keeps_part holds (key_dispatch E I)"
proof -
  have w: "keeps holds (seq_acts [upd (g_loop_update f), launch_toggle E I b, desktop_render E I])" for f b by (intro keeping) simp
  have a: "keeps holds (seq_acts [upd (\<lambda>g. g_wm_update (f g) g), upd mark_dirty, desktop_render E I])" for f by (intro keeping) simp_all
  have r: "keeps holds (upd (arrow_key c))" for c
    by (rule keeps_upd) (simp add: arrow_key_def filewin_move_selection_def desktop_move_selection_def Let_def)
  have d: "keeps holds (if b then filewin_delete_selection E I else desktop_delete_selection E I)" for b by (intro keeping)
  show ?thesis unfolding keeps_part_ends key_dispatch_def Let_def
    by (intro allI impI ending ends_rbind_act [OF w] ends_rbind_act [OF a] ends_rbind_act [OF r] ends_rbind_act [OF d]
        ends_rbind_eq [of "i32 _"]) simp_all
qed

lemma holds_start_desktop [keeping]: "keeps holds (start_desktop_session E I)"
proof -
  have o: "keeps holds (seq_acts [upd (g_filewin_update f), filewin_refresh_list E, upd (set_front WIN_FILE), upd mark_dirty])" for f
    by (intro keeping) simp_all
  have f: "keeps holds (filewin_open E)" unfolding keeps_ends filewin_open_def by (intro allI impI ending ends_act [OF o])
  have t: "holds (taskmgr_open E g) = holds g" for g by (simp add: taskmgr_open_def)
  have k: "keeps holds (seq_acts [upd (\<lambda>g. g\<lparr>g_session_started := True\<rparr>), filewin_open E, upd (taskmgr_open E), upd mark_dirty, desktop_render E I])"
    by (intro keeping f) (simp_all add: t)
  show ?thesis unfolding keeps_ends start_desktop_session_def by (intro allI impI ending ends_act [OF k])
qed

end

section \<open>The login screen\<close>

text \<open>The accounts an attempt compares with: the built-in ones if there are no others.\<close>

definition accounts :: "'d session \<Rightarrow> user_entry list" where
  "accounts s = g_users (login_selected_user s)"

text \<open>Somebody is logged in with the password of the account, which is one of \<open>pws\<close>; before the key of the round is looked
  at, the password field holds one of them.\<close>

definition logged_in :: "u8 list set \<Rightarrow> user_entry list \<Rightarrow> 'd session \<Rightarrow> bool" where
  "logged_in pws us s \<longleftrightarrow> (\<exists>u\<in>set us. u_pass u \<in> pws \<and> g_logged_in_user s = take 15 (u_name u))"

definition at_login :: "u8 list set \<Rightarrow> user_entry list \<Rightarrow> 'd session \<Rightarrow> bool" where
  "at_login pws us s \<longleftrightarrow> accounts s = us \<and> (g_login_active s \<or> logged_in pws us s)"

definition before_key :: "u8 list set \<Rightarrow> user_entry list \<Rightarrow> 'd session \<Rightarrow> bool" where
  "before_key pws us s \<longleftrightarrow> at_login pws us s \<and> g_login_pw s \<in> pws"

lemmas login_defs = before_key_def at_login_def logged_in_def

lemma accounts_alt: "accounts s = (if g_users s = [] then g_users (user_load_default s) else g_users s)"
  by (simp add: accounts_def login_selected_user_def Let_def)

lemma default_users: "g_users (user_load_default s) = g_users (user_load_default t)" "g_users (user_load_default s) \<noteq> []"
  by (simp_all add: user_load_default_def user_add_def user_reset_list_def)

lemma accounts_cong: "g_users s = g_users t \<Longrightarrow> accounts s = accounts t"
  using default_users(1) [of s t] by (simp add: accounts_alt)

lemma accounts_selected: "accounts (login_selected_user s) = accounts s"
  using default_users(2) [of s] unfolding accounts_alt by (simp add: login_selected_user_def Let_def)

interpretation screen: account_property "at_login pw us" for pw us
  by unfold_locales (auto simp: login_defs cong: accounts_cong)

interpretation field: account_property "before_key pw us" for pw us
  by unfold_locales (auto simp: login_defs cong: accounts_cong)

lemma verified_account:
  assumes "user_verify n pw s"
  shows "\<exists>u\<in>set (g_users s). u_name u = n \<and> u_pass u = pw"
  using assms by (auto simp: user_verify_def find_Some_iff split: option.splits)

interpretation active: account_property g_login_active
  by unfold_locales simp

definition inside :: "u8 list set \<Rightarrow> user_entry list \<Rightarrow> 'd session \<Rightarrow> bool" where
  "inside pw us s \<longleftrightarrow> accounts s = us \<and> logged_in pw us s \<and> g_login_pw s \<in> pw"

interpretation welcomed: account_property "inside pw us" for pw us
  by unfold_locales (auto simp: inside_def login_defs cong: accounts_cong)

lemma inside_paths: "inside pw us s \<Longrightarrow> build_user_desktop_path u s = Inr s' \<Longrightarrow> inside pw us s'"
  by (auto simp: build_user_desktop_path_total inside_def login_defs cong: accounts_cong)

lemma inside_active: "inside pw us s \<Longrightarrow> inside pw us (s\<lparr>g_login_active := a, g_login_dirty := d\<rparr>)"
  by (auto simp: inside_def login_defs cong: accounts_cong)

lemma keeps_on_ses': "(\<And>s s'. P s \<Longrightarrow> f s = Inr s' \<Longrightarrow> P s') \<Longrightarrow> keeps (\<lambda>g. P (g_ses g)) (on_ses f)"
  by (rule keepsI) (auto simp: on_ses_def elim!: rbind_InrE)

lemma attempt_from_welcome:
  "keeps (\<lambda>g. inside pw us (g_ses g)) (seq_acts [on_ses (ensure_user_dirs_on_disk fuel rd wr u), on_ses (build_user_desktop_path u), desktop_refresh_from_path E I,
     upd (g_ses_update (\<lambda>s. s\<lparr>g_login_active := False, g_login_dirty := False\<rparr>)), start_desktop_session E I])"
  by (intro keeps_seq_Cons keeps_seq_Nil welcomed.holds_ensure_dirs keeps_on_ses' [OF inside_paths] welcomed.holds_desktop_refresh keeps_upd
      welcomed.holds_start_desktop) (auto dest: inside_active [of _ _ _ False False])

lemma before_key_selected: "before_key pw us s \<Longrightarrow> before_key pw us (login_selected_user s)"
proof -
  have "g_login_active (login_selected_user s) = g_login_active s" "g_login_pw (login_selected_user s) = g_login_pw s"
    "g_logged_in_user (login_selected_user s) = g_logged_in_user s"
    by (simp_all add: login_selected_user_def user_load_default_def user_add_def user_reset_list_def Let_def)
  then show "before_key pw us s \<Longrightarrow> before_key pw us (login_selected_user s)" by (simp add: login_defs accounts_selected)
qed

text \<open>An attempt succeeds with a password of \<open>pws\<close> only; when it fails, the field is empty.\<close>

lemma attempt_result:
  assumes g: "before_key pw us (g_ses g)" and a: "login_attempt E I g = Inr g'"
  shows "at_login pw us (g_ses g') \<and> g_login_pw (g_ses g') \<in> insert [] pw"
proof -
  have w: "inside pw us s'" if "before_key pw us s" "g_users s = us" "user_verify n (g_login_pw s) s" "login_welcome n s = Inr s'" for n s and s' :: "'a session"
  proof -
    have s': "g_users s' = g_users s" "g_logged_in_user s' = take 15 n" "g_login_pw s' = g_login_pw s" using that(4) by (auto simp: login_welcome_def elim!: rbind_InrE)
    note t = that(1,2)
    from verified_account [OF that(3)] obtain u where u: "u \<in> set us" "u_name u = n" "u_pass u \<in> pw" using t by (auto simp: before_key_def)
    show ?thesis using that(1,2) s' u accounts_cong [OF s'(1)] by (auto simp: inside_def before_key_def at_login_def logged_in_def intro!: bexI [of _ u])
  qed
  have r: "at_login pw us s' \<and> g_login_pw s' = []" if "before_key pw us s" "login_refuse n s = Inr s'" for n s and s' :: "'a session"
    using that accounts_cong [of s s'] by (auto simp: login_refuse_def login_reset_password_def login_mark_dirty_def login_defs elim!: rbind_InrE cong: accounts_cong)
  have u: "g_users (login_selected_user s) = us" if "before_key pw us s" for s :: "'a session"
    using that by (simp add: login_defs accounts_def)
  let ?g = "g_ses_update login_selected_user g"
  let ?n = "u_name (g_users (g_ses ?g) ! nat (g_login_selected (g_ses ?g)))"
  have b: "before_key pw us (g_ses ?g)" "g_users (g_ses ?g) = us" using before_key_selected [OF g] u [OF g] by simp_all
  show ?thesis
  proof (cases "user_verify ?n (g_login_pw (g_ses ?g)) (g_ses ?g)")
    case True
    with a obtain s1 where s1: "login_welcome ?n (g_ses ?g) = Inr s1"
      and k: "seq_acts [on_ses (ensure_user_dirs_on_disk (k_fuel E) (k_read E) (k_write E) ?n), on_ses (build_user_desktop_path ?n), desktop_refresh_from_path E I,
        upd (g_ses_update (\<lambda>s. s\<lparr>g_login_active := False, g_login_dirty := False\<rparr>)), start_desktop_session E I] (?g\<lparr>g_ses := s1\<rparr>) = Inr g'"
      by (auto simp: login_attempt_def Let_def seq_acts_Cons [of "on_ses (login_welcome _)"] on_ses_def [of "login_welcome _"] split: if_split_asm elim!: rbind_InrE)
    have "inside pw us (g_ses (?g\<lparr>g_ses := s1\<rparr>))" using w [OF b True s1] by simp
    from keepsD [OF attempt_from_welcome this k] show ?thesis by (simp add: inside_def login_defs)
  next
    case False
    with a have "on_ses (login_refuse ?n) ?g = Inr g'" by (auto simp: login_attempt_def Let_def split: if_split_asm)
    then show ?thesis using r [OF b(1)] by (auto simp: on_ses_def elim!: rbind_InrE)
  qed
qed

lemma keeps_hover: "before_key pw us s \<Longrightarrow> before_key pw us (login_set_hover h s)"
  by (auto simp: login_set_hover_def login_mark_dirty_def login_defs cong: accounts_cong)

lemma click_result:
  assumes "before_key pw us (g_ses g)" and "login_click E I h g = Inr g'"
  shows "at_login pw us (g_ses g') \<and> g_login_pw (g_ses g') \<in> insert [] pw"
proof -
  have u: "before_key pw us (login_mark_dirty (s\<lparr>g_login_selected := h, g_login_pw_focus := True\<rparr>))" "before_key pw us (login_mark_dirty (s\<lparr>g_login_pw_focus := True\<rparr>))"
    "before_key pw us (g_login_pw_focus_update f s)" if "before_key pw us s" for f and s :: "'a session"
    using that by (auto simp: login_mark_dirty_def login_defs cong: accounts_cong)
  have b: "before_key pw us (g_ses g'')" if "before_key pw us (g_ses g)"
    "g'' = g_ses_update (\<lambda>s. if h \<ge> 0 then login_mark_dirty (s\<lparr>g_login_selected := h, g_login_pw_focus := True\<rparr>) else s) g" for g g'' :: "('a, 'b) gui"
    using u(1) that by simp
  have f: "at_login pw us s \<and> g_login_pw s \<in> insert [] pw" if "before_key pw us s" for s :: "'a session" using that by (simp add: before_key_def)
  show ?thesis using assms attempt_result [OF b [OF assms(1) refl], of E I g'] f [OF u(2) [OF b [OF assms(1) refl]]] f [OF u(3) [OF b [OF assms(1) refl]]]
    by (auto simp: login_click_def Let_def seq_acts_def upd_def split: if_split_asm elim!: rbind_InrE)
qed

lemma key_result:
  assumes "at_login pw us (g_ses g)" and "g_login_pw (g_ses g) \<in> pw \<or> sc \<noteq> 0x1C" and "login_key E I sc g = Inr g'"
  shows "at_login pw us (g_ses g')"
proof (cases "sc = 0x1C")
  case True
  then have "login_attempt E I g = Inr g'" using assms(3) by (simp add: login_key_def)
  with attempt_result [of pw us g E I g'] assms(1,2) True show ?thesis by (simp add: before_key_def)
next
  case False
  then show ?thesis using assms by (auto simp: login_key_def login_defs login_mark_dirty_def Let_def cong: accounts_cong)
qed

text \<open>The passwords that a round may have compared: the one in the field, and after a click the empty one, if the same round
  handles the enter key.\<close>

definition tried :: "input \<Rightarrow> u8 list \<Rightarrow> u8 list set" where
  "tried I pw = (if in_btn I AND 1 \<noteq> 0 \<and> in_sc I = Some 0x1C then {pw, []} else {pw})"

lemma at_login_step:
  assumes g: "before_key {pw} us (g_ses g)" and sc: "sc = None \<or> sc = in_sc I" and "login_step E I sc g = Inr g'"
  shows "at_login (tried I pw) us (g_ses g')"
proof (cases "k_fb_ready E")
  case False
  then show ?thesis using assms by (auto simp: login_step_def set_prev_btn_def tried_def login_defs)
next
  case True
  define n where "n = login_hovered (login_layout_compute (k_fb E)) I (length (g_users (g_ses g)))"
  let ?g0 = "g_ses_update (login_set_hover n) g"
  have f: "keeps (\<lambda>g. at_login (tried I pw) us (g_ses g)) (login_frame E I)"
    by (rule keepsI) (auto simp: login_frame_def login_render_def login_defs cong: accounts_cong split: if_split_asm elim!: rbind_InrE)
  from assms(3) True obtain g1 g2 where g1: "(if pressed 1 I g then login_click E I n else Inr) ?g0 = Inr g1"
    and g2: "(case sc of Some c \<Rightarrow> if g_login_pw_focus (g_ses (set_prev_btn I g1)) then login_key E I c (set_prev_btn I g1) else Inr (set_prev_btn I g1) | None \<Rightarrow> Inr (set_prev_btn I g1)) = Inr g2"
    and g': "login_frame E I g2 = Inr g'"
    unfolding login_step_def Let_def n_def [symmetric] by (auto simp: seq_acts_def upd_def elim!: rbind_InrE)
  have w: "at_login (tried I pw) us s" if "at_login {pw} us s" for s using that by (auto simp: tried_def login_defs)
  have b0: "before_key {pw} us (g_ses ?g0)" using g keeps_hover by simp
  have p: "at_login {pw} us (g_ses g1)" "pressed 1 I g \<Longrightarrow> g_login_pw (g_ses g1) \<in> {pw, []}" "\<not> pressed 1 I g \<Longrightarrow> g_login_pw (g_ses g1) = pw"
    using g1 b0 click_result [OF b0, of E I n g1] by (auto simp: before_key_def split: if_split_asm)
  have "at_login (tried I pw) us (g_ses g2)" if c: "sc = Some c" "login_key E I c (set_prev_btn I g1) = Inr g2" for c
  proof (rule key_result [OF _ _ c(2)])
    show "at_login (tried I pw) us (g_ses (set_prev_btn I g1))" using w [OF p(1)] by (simp add: set_prev_btn_def)
    show "g_login_pw (g_ses (set_prev_btn I g1)) \<in> tried I pw \<or> c \<noteq> 0x1C" using p(2,3) sc c(1) by (auto simp: tried_def pressed_def set_prev_btn_def)
  qed
  with g2 w [OF p(1)] have "at_login (tried I pw) us (g_ses g2)" by (auto simp: set_prev_btn_def split: option.split_asm if_split_asm)
  from keepsD [OF f this g'] show ?thesis .
qed

lemma key_dispatch_code: "key_dispatch E I g = Inr (sc, g') \<Longrightarrow> sc = None \<or> sc = in_sc I"
  by (auto simp: key_dispatch_def Let_def split: option.split_asm if_split_asm elim!: rbind_InrE)

lemma loop_step_at_login:
  assumes g: "g_login_active (g_ses g)" and s: "loop_step E I g = Inr g'"
  shows "at_login (tried I (g_login_pw (g_ses g))) (accounts (g_ses g)) (g_ses g')"
proof -
  let ?Q = "before_key {g_login_pw (g_ses g)} (accounts (g_ses g))"
  have q: "?Q (g_ses (g_loop_update f g))" "?Q (g_ses g)" for f using g by (simp_all add: login_defs)
  have w: "at_login (tried I (g_login_pw (g_ses g))) (accounts (g_ses g)) t" if "?Q t" for t using that by (auto simp: tried_def login_defs)
  show ?thesis
  proof (cases "halted (g_loop g) \<or> boot_anim (clock_update I (g_loop g))")
    case True
    have k: "keeps (\<lambda>g. before_key pw us (g_ses g)) (boot_anim_step E I)" for pw us
      unfolding boot_anim_step_def by (intro keeps_seq_Cons keeps_seq_Nil field.holds_paint keeps_upd) simp
    show ?thesis using s True w [OF q(2)] w [OF keepsD [OF k q(1)]] by (auto simp: loop_step_def Let_def split: if_split_asm)
  next
    case False
    then obtain sc g1 where k: "key_dispatch E I (g_loop_update (clock_update I) g) = Inr (sc, g1)"
      and r: "(if g_login_active (g_ses g1) then login_step E I sc g1 else desktop_step E I sc g1) = Inr g'"
      using s by (auto simp: loop_step_def Let_def elim!: rbind_InrE)
    have b: "?Q (g_ses g1)" by (rule keeps_partD [OF field.holds_key_dispatch q(1) k])
    have "g_login_active (g_ses g1)" using keeps_partD [OF active.holds_key_dispatch _ k] g by simp
    then show ?thesis using r at_login_step [OF b key_dispatch_code [OF k]] by simp
  qed
qed

end
