(* ===== verification/Session.thy ===== *)
theory Session
  imports Login_Safety
begin

text \<open>
  A whole session: the variables of \<open>src/kernel/kernel.c\<close> as the program image holds them, the start, and any number
  of rounds of the event loop. In every state of a session the invariant of \<open>Gui_Invariant\<close> holds. A locale states
  what a round has to keep for that; it is interpreted on the event loop.
\<close>

section \<open>The variables at the start\<close>

definition win_zero :: max_win where
  "win_zero = max_win.truncate notepad_zero"

definition filewin_zero :: filewin_t where
  "filewin_zero = max_win.extend win_zero \<lparr>fw_path_focus = False, fw_path = [], fw_selection = 0\<rparr>"

definition imgview_zero :: imgview_t where
  "imgview_zero = max_win.extend win_zero \<lparr>resizing = False, resize_offx = 0, resize_offy = 0, iv_img = None, img_w = 0, img_h = 0, iv_path = []\<rparr>"

definition wavplay_zero :: wavplay_t where
  "wavplay_zero = win.extend (win.truncate notepad_zero) \<lparr>wp_path = [], wp_name = []\<rparr>"

definition menus_zero :: menus where
  "menus_zero = \<lparr>info_visible = False, info_x = 0, info_y = 0, info_idx = -1, ctx_items = [], ctx_menu_visible = False, ctx_menu_x = 0, ctx_menu_y = 0,
     ctx_menu_w = 180, ctx_menu_h = 0, ctx_menu_target = CTX_NONE, topmenu_open = -1, topmenu_hover = -1, topmenu_item_hover = -1,
     name_prompt_active = False, name_prompt_ready_click = False, name_prompt_buf = [], name_prompt_mode = PROMPT_NONE,
     name_prompt_title = cstr ''Filename:'', launch_items = [], launch_visible = False, launch_x = 10, launch_y = 0, launch_last_refresh = 0\<rparr>"

definition loop_zero :: loop_vars where
  "loop_zero = \<lparr>shift_down = 0, caps_on = False, alt_down = False, win_down = False, prev_btn = 0, file_last_click = 0, file_last_idx = -1,
     last_mouse_x = 0, last_mouse_y = 0, last_rtc_update = 0, last_frame_tick = 0, login_last_frame = 0, boot_anim = True, boot_anim_start = 0,
     halted = False\<rparr>"

definition session_zero :: "(fat32_vol \<times> 'd) option \<Rightarrow> 'd session" where
  "session_zero v = \<lparr>g_users = [], g_login_selected = 0, g_login_hover = -1, g_login_pw = [], g_login_active = True, g_login_dirty = True,
     g_login_pw_focus = True, g_login_message = cstr ''Select a user and log in.'', g_logged_in_user = cstr ''ADMIN'',
     g_desktop_dir = cstr ''PARANOS/USERS/ADMIN/DESKTOP'', g_prog_dir = cstr ''PARANOS/USERS/ADMIN/PROGRAMS'', g_vol = v\<rparr>"

definition desktop_zero :: desktop where
  "desktop_zero = \<lparr>g_items = [], g_selection = -1, g_rects = [], g_layout_valid = False, desktop_bg_cache = 0, desktop_bg_cache_bytes = 0,
     desktop_bg_dirty = True, desktop_frame_ticks = 1, last_click_tick = 0, last_click_index = -1, wallpaper = None\<rparr>"

definition cursor_zero :: cursor_state where
  "cursor_zero = \<lparr>cur = \<lparr>cursor_prev_x = 0, cursor_prev_y = 0, cursor_has_prev = False, cursor_img = None, cursor_w = 0, cursor_h = 0\<rparr>,
     cursor_default = None, cursor_resize_active = False\<rparr>"

text \<open>What other components have set up before: the disk, the heap, the tasks, the sound card, and the screen.\<close>

definition boot_gui :: "fat32_vol \<times> 'd \<Rightarrow> kheap \<Rightarrow> sched \<Rightarrow> 'h ac97 \<Rightarrow> mem \<Rightarrow> ('d, 'h) gui" where
  "boot_gui vd heap sc snd_card screen = \<lparr>g_ses = session_zero None, g_session_started = False, g_unmounted = vd, g_notepad = notepad_zero, g_filewin = filewin_zero,
     g_taskmgr = win_zero, g_display = win_zero, g_terminal = win_zero, g_imgview = imgview_zero, g_wavplay = wavplay_zero, g_file_items = [],
     g_file_status = [], g_file_picker = None, g_wm = \<lparr>g_entries = [], g_front_id = -1\<rparr>, g_desk = desktop_zero, g_heap = heap, g_sched = sc,
     g_sound = snd_card, g_screen = screen, g_cursor = cursor_zero, g_menus = menus_zero, g_loop = loop_zero\<rparr>"

section \<open>The start establishes the invariant\<close>

lemma boot_registered:
  assumes "env_ok E"
  shows "gui_ok E ((boot_gui vd heap sc snd_card screen)\<lparr>g_wm := snd (register_windows (wm_init \<lparr>g_entries = [], g_front_id = -1\<rparr>)), g_desk := desktop_init desktop_zero\<rparr>)"
proof -
  have w: "wm_inv (snd (register_windows (wm_init \<lparr>g_entries = [], g_front_id = -1\<rparr>)))"
  proof -
    have "g_front_id (snd (register_windows \<lparr>g_entries = [], g_front_id = -1\<rparr>)) = 2" by code_simp
    then show ?thesis by (simp add: wm_inv_def window_entries_def wm_init_def)
  qed
  have d: "desk_inv fb (desktop_init desktop_zero)" for fb
    using desktop_init_ok [of fb desktop_zero] by (simp add: desk_inv_def names_ok_def paper_ok_def desktop_zero_def desktop_init_def)
  have z: "note_ok fb notepad_zero" "file_ok fb filewin_zero" "max_on_screen fb win_zero" "view_ok fb imgview_zero" "wav_ok fb None wavplay_zero" for fb
    by (simp_all add: note_ok_def file_ok_def view_ok_def wav_ok_def max_on_screen_def notepad_zero_def filewin_zero_def win_zero_def imgview_zero_def
        wavplay_zero_def max_win.defs win.defs)
  have s: "ses_ok (session_zero None)" "menus_ok menus_zero" "cursor_ok cursor_zero"
    by (simp_all add: ses_ok_def users_ok_def session_zero_def menus_ok_def menus_zero_def spot_def cursor_ok_def cursor_zero_def)
  show ?thesis using assms w d z s by (simp add: gui_ok_def boot_gui_def)
qed

lemma wallpaper_desk:
  assumes "load_wallpaper_with rd fb ext hhdm (v, s, h) = Inr (r, v', s', h')"
  shows "\<exists>w b. s' = s\<lparr>wallpaper := w, desktop_bg_dirty := b\<rparr>"
proof -
  have "s' = s\<lparr>wallpaper := wallpaper s', desktop_bg_dirty := desktop_bg_dirty s'\<rparr>"
    using assms by (auto simp: load_wallpaper_with_def load_bmp_into_bg_def desktop_mark_dirty_def Let_def
        split: if_split_asm option.split_asm prod.split_asm elim!: rbind_InrE)
  then show ?thesis by blast
qed

text \<open>Loading wallpaper and cursor changes nothing else the invariant speaks of.\<close>

lemma desk_inv_paper: "desk_inv fb dk \<Longrightarrow> paper_ok w \<Longrightarrow> desk_inv fb (dk\<lparr>wallpaper := w, desktop_bg_dirty := b\<rparr>)"
  by (simp add: desk_inv_def desk_ok_def names_ok_def)

lemma load_wallpaper_result:
  assumes "load_wallpaper E ext hhdm (g, e) = Inr (g', e')"
  shows "\<exists>vd w b h. g' = put_volume vd (g\<lparr>g_desk := (g_desk g)\<lparr>wallpaper := w, desktop_bg_dirty := b\<rparr>, g_heap := h\<rparr>)"
proof -
  obtain v d where vd: "volume g = (v, d)" by fastforce
  with assms obtain r v1 s1 h1 e1
    where l1: "load_wallpaper_with (\<lambda>vol. fat32_read_file_path (k_fuel E) vol (k_read E) d PATH_WALLPAPER) (k_fb E) ext hhdm (v, g_desk g, g_heap g, e) = Inr (r, v1, s1, h1, e1)"
      and rest: "g' = put_volume (v1, d) (g\<lparr>g_desk := s1, g_heap := h1\<rparr>) \<or>
        (\<exists>nm r2 v2 s2 h2 e2. load_wallpaper_with (\<lambda>vol. fat32_read_file (k_fuel E) vol (k_read E) d nm) (k_fb E) ext hhdm (v1, s1, h1, e1) = Inr (r2, v2, s2, h2, e2) \<and>
          g' = put_volume (v2, d) (g\<lparr>g_desk := s2, g_heap := h2\<rparr>))"
    by (auto simp: load_wallpaper_def desktop_load_wallpaper_path_def desktop_load_wallpaper_def Let_def
        split: if_split_asm option.split_asm prod.split_asm elim!: rbind_InrE) blast+
  from wallpaper_desk [OF l1] obtain w b where s1: "s1 = (g_desk g)\<lparr>wallpaper := w, desktop_bg_dirty := b\<rparr>" by blast
  from rest show ?thesis
  proof (elim disjE exE conjE)
    fix nm r2 v2 s2 h2 e2
    assume "load_wallpaper_with (\<lambda>vol. fat32_read_file (k_fuel E) vol (k_read E) d nm) (k_fb E) ext hhdm (v1, s1, h1, e1) = Inr (r2, v2, s2, h2, e2)"
      and g': "g' = put_volume (v2, d) (g\<lparr>g_desk := s2, g_heap := h2\<rparr>)"
    from wallpaper_desk [OF this(1)] obtain w2 b2 where "s2 = (g_desk g)\<lparr>wallpaper := w2, desktop_bg_dirty := b2\<rparr>" using s1 by auto
    with g' show ?thesis by blast
  qed (use s1 in blast)
qed

lemma load_cursor_result:
  assumes "load_cursor E fresh g = Inr g'"
  shows "\<exists>vd h c. g' = put_volume vd (g\<lparr>g_heap := h, g_cursor := c\<rparr>)"
  using assms by (auto simp: load_cursor_def split: prod.split_asm elim!: rbind_InrE)

lemma gui_ok_loaded:
  assumes "gui_ok E g" and "paper_ok (wallpaper (g_desk g'))" and "cursor_ok (g_cursor g')"
    and "g' = put_volume vd2 ((put_volume vd1 (g\<lparr>g_desk := (g_desk g)\<lparr>wallpaper := w, desktop_bg_dirty := b\<rparr>, g_heap := h1\<rparr>))\<lparr>g_heap := h2, g_cursor := c\<rparr>)"
  shows "gui_ok E g'"
proof -
  have d: "paper_ok w" "cursor_ok c" using assms(2,3) unfolding assms(4) by (simp_all add: put_volume_def split: option.split_asm)
  then show ?thesis using assms(1) desk_inv_paper [of "k_fb E" "g_desk g"] unfolding assms(4)
    by (simp add: gui_ok_def put_volume_def split: option.split)
qed

lemma gui_ok_put: "gui_ok E g \<Longrightarrow> gui_ok E (g\<lparr>g_ses := s\<rparr>) = ses_ok s"
  by (simp add: gui_ok_def)

lemma keeps_make_dir: "keeps (gui_ok E) (on_ses (make_dir fuel rd wr p))"
  by (rule keeps_on_ses) (auto dest!: make_dir_vol)

lemma mount_at_start_ok:
  assumes g: "gui_ok E g" and m: "mount_at_start E ext hhdm fresh I (g, e) = Inr (g', e')"
    and l: "paper_ok (wallpaper (g_desk g'))" "cursor_ok (g_cursor g')"
  shows "gui_ok E g'"
proof -
  obtain ok vd where pd: "probe_disk E (g_unmounted g) = Inr (ok, vd)" using m by (auto simp: mount_at_start_def elim!: rbind_InrE)
  show ?thesis
  proof (cases ok)
    case False
    then have "g' = g\<lparr>g_unmounted := vd\<rparr>" using m pd by (simp add: mount_at_start_def)
    then show ?thesis using g by simp
  next
    case True
    with m pd obtain g1 g2 e2
      where g1: "seq_acts [on_ses (make_dir (k_fuel E) (k_read E) (k_write E) PATH_BASE), user_dirs E, desktop_refresh_from_path E I]
          (g\<lparr>g_ses := (g_ses g)\<lparr>g_vol := Some vd\<rparr>\<rparr>) = Inr g1"
        and g2: "load_wallpaper E ext hhdm (g1, e) = Inr (g2, e2)" and g3: "load_cursor E fresh g2 = Inr g'"
      by (auto simp: mount_at_start_def split: prod.split_asm elim!: rbind_InrE)
    have "keeps (gui_ok E) (seq_acts [on_ses (make_dir (k_fuel E) (k_read E) (k_write E) PATH_BASE), user_dirs E, desktop_refresh_from_path E I])"
      by (intro keeping keeps_make_dir)
    from keepsD [OF this gui_ok_mount [OF g] g1] have ok1: "gui_ok E g1" .
    from load_wallpaper_result [OF g2] load_cursor_result [OF g3] gui_ok_loaded [OF ok1 l] show ?thesis by blast
  qed
qed

text \<open>Reading the accounts changes only the list of them and the volume.\<close>

lemma parse_lines_fields: "\<exists>us. user_parse_lines p s = s\<lparr>g_users := us\<rparr>"
proof (induction p s rule: user_parse_lines.induct)
  case (1 p s)
  obtain l r where lr: "read_line p = (l, r)" by fastforce
  have one: "\<exists>us. (if l = [] then s else user_line l s) = s\<lparr>g_users := us\<rparr>"
    by (cases s) (auto simp: user_line_def user_add_def Let_def split: option.split prod.split)
  show ?case
  proof (cases "p = []")
    case True
    then show ?thesis by (cases s) (simp add: user_parse_lines.simps)
  next
    case False
    with one 1 [OF False lr [symmetric] refl] show ?thesis by (subst user_parse_lines.simps) (auto simp: lr)
  qed
qed

lemma load_users_fields:
  assumes "load_users fuel rd wr s = Inr s'"
  shows "\<exists>us v. s' = s\<lparr>g_users := us, g_vol := v\<rparr>"
proof -
  have p: "\<exists>us v. user_parse_lines p (s\<lparr>g_vol := v0\<rparr>) = s\<lparr>g_users := us, g_vol := v\<rparr>" for p v0
  proof -
    obtain us where "user_parse_lines p (s\<lparr>g_vol := v0\<rparr>) = s\<lparr>g_vol := v0, g_users := us\<rparr>" using parse_lines_fields by blast
    then have "user_parse_lines p (s\<lparr>g_vol := v0\<rparr>) = s\<lparr>g_users := us, g_vol := v0\<rparr>" by simp
    then show ?thesis by blast
  qed
  have "s = s\<lparr>g_users := g_users s, g_vol := g_vol s\<rparr>" by simp
  then have "\<exists>us v. s = s\<lparr>g_users := us, g_vol := v\<rparr>" by blast
  then show ?thesis using assms p
    by (auto simp: load_users_def Let_def split: if_split_asm option.split_asm prod.split_asm elim!: rbind_InrE)
qed

lemma ses_ok_load_users: "ses_ok s \<Longrightarrow> load_users fuel rd wr s = Inr s' \<Longrightarrow> ses_ok s'"
  using load_users_keeps [of s fuel rd wr s'] load_users_fields [of fuel rd wr s s'] by (auto simp: ses_ok_def)

lemma ses_ok_vol_step:
  "ses_ok s \<Longrightarrow> ensure_user_dirs_on_disk fuel rd wr u s = Inr s' \<Longrightarrow> ses_ok s'" "ses_ok s \<Longrightarrow> make_dir fuel rd wr p s = Inr s' \<Longrightarrow> ses_ok s'"
  by (auto dest!: ensure_dirs_vol make_dir_vol)

lemma ses_ok_store:
  assumes s: "ses_ok s" and r: "ensure_user_store fuel rd wr s = Inr s'"
  shows "ses_ok s'"
proof -
  let ?s = "login_reset_password (user_reset_list s)"
  have z: "ses_ok ?s" "g_vol ?s = g_vol s" using s by (simp_all add: ses_ok_def users_ok_def login_reset_password_def user_reset_list_def)
  have f: "ses_ok (t\<lparr>g_login_active := True, g_login_dirty := True, g_login_pw_focus := True, g_login_message := cstr ''Select a user and log in.''\<rparr>)"
    if "ses_ok t" for t :: "'a session" using that by (simp add: ses_ok_def users_ok_def)
  show ?thesis
  proof (cases "g_vol s")
    case None
    then show ?thesis using r ses_ok_default [OF z(1)] by (simp add: ensure_user_store_def z(2))
  next
    case (Some vd)
    with r obtain s1 s2 s3 s4 s5 where
      e: "ensure_user_dirs_on_disk fuel rd wr (cstr ''ADMIN'') ?s = Inr s1" "ensure_user_dirs_on_disk fuel rd wr (cstr ''GUEST'') s1 = Inr s2"
        "make_dir fuel rd wr (cstr ''PARANOS/WALLPAPR'') s2 = Inr s3" "load_users fuel rd wr s3 = Inr s4"
        "build_user_desktop_path (g_logged_in_user (if g_users s4 = [] then user_load_default s4 else s4)) (if g_users s4 = [] then user_load_default s4 else s4) = Inr s5"
      and s': "s' = s5\<lparr>g_login_active := True, g_login_dirty := True, g_login_pw_focus := True, g_login_message := cstr ''Select a user and log in.''\<rparr>"
      by (fastforce simp: ensure_user_store_def z(2) Let_def elim!: rbind_InrE)
    have "ses_ok s4" using ses_ok_load_users [OF ses_ok_vol_step(2) [OF ses_ok_vol_step(1) [OF ses_ok_vol_step(1) [OF z(1) e(1)] e(2)] e(3)] e(4)] .
    then have "ses_ok (if g_users s4 = [] then user_load_default s4 else s4)" by (simp add: ses_ok_default)
    from f [OF ses_ok_paths [OF this e(5)]] show ?thesis by (simp add: s')
  qed
qed

lemma start_session_ok:
  assumes E: "env_ok E" and r: "start_session E ext hhdm fresh I (boot_gui vd heap sc snd_card screen, e) = Inr (g, e')"
    and l: "paper_ok (wallpaper (g_desk g))" "cursor_ok (g_cursor g)"
  shows "gui_ok E g"
proof -
  obtain g1 s where m: "mount_at_start E ext hhdm fresh I ((boot_gui vd heap sc snd_card screen)\<lparr>g_wm := snd (register_windows (wm_init \<lparr>g_entries = [], g_front_id = -1\<rparr>)),
        g_desk := desktop_init desktop_zero\<rparr>, e) = Inr (g1, e')"
    and s: "ensure_user_store (k_fuel E) (k_read E) (k_write E) (g_ses g1) = Inr s"
    and g: "g = g_loop_update (\<lambda>s. s\<lparr>boot_anim_start := in_jiffies I, last_mouse_x := -1, last_mouse_y := -1\<rparr>) (g1\<lparr>g_ses := s\<rparr>)"
    using r by (auto simp: start_session_def on_ses_def boot_gui_def split: prod.split_asm elim!: rbind_InrE)
  have g1: "gui_ok E g1" by (rule mount_at_start_ok [OF boot_registered [OF E] m]) (use l g in simp_all)
  then show ?thesis using ses_ok_store [OF gui_okD(7) [OF g1] s] by (simp add: g gui_ok_put)
qed

section \<open>Rounds keep it\<close>

locale event_loop =
  fixes step :: "'i \<Rightarrow> 's \<Rightarrow> 's res" and inv :: "'s \<Rightarrow> bool" and admissible :: "'i \<Rightarrow> bool"
  assumes step_keeps: "inv s \<Longrightarrow> admissible i \<Longrightarrow> step i s = Inr s' \<Longrightarrow> inv s'"
begin

lemma run_keeps: "inv s \<Longrightarrow> list_all admissible ins \<Longrightarrow> rfold step ins s = Inr s' \<Longrightarrow> inv s'"
proof (induction ins arbitrary: s)
  case (Cons i ins)
  then obtain t where "step i s = Inr t" "rfold step ins t = Inr s'" by (auto simp: rbind_eq_Inr)
  with Cons step_keeps show ?case by auto
qed simp

end

definition rounds :: "('d, 'h) kenv \<Rightarrow> input list \<Rightarrow> ('d, 'h) act" where
  "rounds E = rfold (loop_step E)"

interpretation gui_loop: event_loop "loop_step E" "gui_ok E" "input_ok E" for E
  by unfold_locales (rule keepsD [OF keeps_loop_step])

definition open_windows :: "('d, 'h) gui \<Rightarrow> win list" where
  "open_windows g = filter win_open [win.truncate (g_notepad g), win.truncate (g_filewin g), win.truncate (g_taskmgr g), win.truncate (g_display g),
     win.truncate (g_terminal g), win.truncate (g_imgview g), win.truncate (g_wavplay g)]"

lemma open_on_screen: "gui_ok E g \<Longrightarrow> list_all (\<lambda>w. rect_on (k_fb E) (wx w) (wy w) (ww w) (wh w)) (open_windows g)"
  by (auto simp: open_windows_def list_all_iff gui_ok_def note_ok_def file_ok_def view_ok_def wav_ok_def max_on_screen_def win.defs)

section \<open>Properties\<close>

text \<open>C11: Starting the session on a machine whose disk is missing or cannot be read (registering the windows, probing the
  disk, setting up the accounts) from the variables of the kernel's image always succeeds, on every screen and font the windows
  fit on. It ends in a state that satisfies the invariant of the session, with the login screen shown, an empty password
  field and exactly the two built-in accounts, and every state that rounds of the event loop lead to from there satisfies the invariant. (With a
  disk the lemma \<open>start_session_ok\<close> above gives the invariant when the start returns and the pictures it loaded are whole.)\<close>

theorem start_without_disk:
  assumes E: "env_ok E" and none: "\<not> fst (k_identify E d) \<or> k_read E (snd (k_identify E d)) 0 1 = None"
  shows "\<exists>g. start_session E ext hhdm fresh I (boot_gui (v, d) heap sc snd_card screen, e) = Inr (g, e) \<and> gui_ok E g \<and>
    g_login_active (g_ses g) \<and> g_login_pw (g_ses g) = [] \<and>
    map (\<lambda>u. (u_name u, u_pass u)) (g_users (g_ses g)) = [(cstr ''admin'', cstr ''1234''), (cstr ''guest'', [])] \<and>
    (\<forall>ins g'. list_all (input_ok E) ins \<and> rounds E ins g = Inr g' \<longrightarrow> gui_ok E g')"
proof -
  define g0 where "g0 = (boot_gui (v, d) heap sc snd_card screen)\<lparr>g_wm := snd (register_windows (wm_init \<lparr>g_entries = [], g_front_id = -1\<rparr>)),
        g_desk := desktop_init desktop_zero\<rparr>"
  let ?g1 = "g0\<lparr>g_unmounted := (v, snd (k_identify E d))\<rparr>" and ?s = "user_load_default (login_reset_password (user_reset_list (g_ses g0)))"
  let ?g = "g_loop_update (\<lambda>s. s\<lparr>boot_anim_start := in_jiffies I, last_mouse_x := -1, last_mouse_y := -1\<rparr>) (?g1\<lparr>g_ses := ?s\<rparr>)"
  have z: "g_ses g0 = session_zero None" "g_unmounted g0 = (v, d)" by (simp_all add: g0_def boot_gui_def)
  have st: "ensure_user_store (k_fuel E) (k_read E) (k_write E) (g_ses g0) = Inr ?s"
    unfolding z(1) by (simp add: ensure_user_store_def login_reset_password_def user_reset_list_def session_zero_def Let_def)
  have "probe_disk E (v, d) = Inr (False, v, snd (k_identify E d))"
    using none by (auto simp: probe_disk_def split: prod.splits)
  then have m: "mount_at_start E ext hhdm fresh I (g0, e) = Inr (?g1, e)" by (simp add: mount_at_start_def z)
  have run: "start_session E ext hhdm fresh I (boot_gui (v, d) heap sc snd_card screen, e) = Inr (?g, e)"
    using m st by (simp add: start_session_def on_ses_def g0_def boot_gui_def)
  have ok1: "gui_ok E ?g1" using boot_registered [OF E, of "(v, d)" heap sc snd_card screen] by (simp add: g0_def)
  have "ses_ok ?s" using ses_ok_store [OF _ st] gui_okD(7) [OF ok1] by simp
  then have ok: "gui_ok E ?g" using ok1 by (simp add: gui_ok_put)
  have "g_login_active ?s" "g_login_pw ?s = []" "map (\<lambda>u. (u_name u, u_pass u)) (g_users ?s) = [(cstr ''admin'', cstr ''1234''), (cstr ''guest'', [])]"
    unfolding z(1) by (simp_all add: user_load_default_def user_add_def user_reset_list_def login_reset_password_def session_zero_def cstr_def)
  then show ?thesis using run ok gui_loop.run_keeps [OF ok, folded rounds_def] by (intro exI [of _ ?g]) (simp, blast)
qed

text \<open>C8: Whatever keys are pressed and wherever the mouse is moved and clicked, in however many rounds of the event loop: every
  open window lies on the screen with its title bar, the window in front is one of the seven, and every text that is typed
  stays inside its array (editor, path field, password, file name).\<close>

theorem rounds_keep_windows_on_screen:
  assumes "gui_ok E g" and "list_all (input_ok E) ins" and "rounds E ins g = Inr g'"
  shows "list_all (\<lambda>w. rect_on (k_fb E) (wx w) (wy w) (ww w) (wh w)) (open_windows g') \<and> front g' \<in> {0..6} \<and>
    length (np_buf (g_notepad g')) < 4096 \<and> length (fw_path (g_filewin g')) < 96 \<and> length (g_login_pw (g_ses g')) < 32 \<and>
    length (name_prompt_buf (g_menus g')) < 32 \<and> gui_ok E g'"
proof -
  have ok: "gui_ok E g'" by (rule gui_loop.run_keeps [OF assms(1,2) assms(3) [unfolded rounds_def]])
  then show ?thesis using open_on_screen [OF ok]
    by (auto simp: gui_ok_def note_ok_def file_ok_def ses_ok_def menus_ok_def wm_inv_def front_def wm_get_front_def)
qed

text \<open>A machine without a disk, and its session after the login with one window open.\<close>

definition demo_kenv :: "bool \<Rightarrow> (unit, demo_pci) kenv" where
  "demo_kenv shows_it = \<lparr>k_fb = demo_fb\<lparr>fb_width := 640, fb_height := 480, fb_pitch := 1920, fb_front := 0x100000, fb_back := 0x300000\<rparr>, k_fb_ready = shows_it, k_blob = demo_blob, k_font = demo_font, k_pool = demo_pool_env,
     k_boot = (640, 480, 24, 1920), k_fuel = 10, k_read = (\<lambda>_ _ _. None), k_write = (\<lambda>d _ _ _. Inr (-1, d)), k_identify = (\<lambda>d. (False, d)), k_audio = demo_pci_io\<rparr>"

definition demo_unmounted :: fat32_vol where
  "demo_unmounted = \<lparr>fs_type = FAT_FS_FAT32, bytes_per_sec = 0, sec_per_clus = 0, rsvd_sec_cnt = 0, num_fats = 0, fat_sz32 = 0, root_clus = 0,
     first_data_lba = 0, fat_lba = 0, tot_sec32 = 0, part_lba_start = 0, exfat_fat_length = 0, exfat_heap_offset = 0, exfat_cluster_count = 0,
     exfat_bitmap_clus = 0, exfat_bitmap_size = 0, exfat_bps_shift = 0, exfat_spc_shift = 0\<rparr>"

definition demo_input :: "int \<Rightarrow> int \<Rightarrow> u8 \<Rightarrow> u8 option \<Rightarrow> input" where
  "demo_input x y b sc = \<lparr>in_mx = x, in_my = y, in_btn = b, in_jiffies = 0, in_time = \<lparr>hh = 0, mm = 0, ss = 0\<rparr>, in_sc = sc\<rparr>"

definition demo_kernel :: "(unit, demo_pci) gui" where
  "demo_kernel = boot_gui (demo_unmounted, ()) \<lparr>kheap_begin = 4096, kheap_end = 8192, kheap_brk = 4096\<rparr> Scheduler.demo_boot demo_card demo_screen"

definition demo_started :: "((unit, demo_pci) gui \<times> unit) res" where
  "demo_started = start_session (demo_kenv False) (\<lambda>e _. (0, e)) 0 (\<lambda>_. 0) (demo_input 0 0 0 None) (demo_kernel, ())"

definition demo_gui :: "(unit, demo_pci) gui" where
  "demo_gui = demo_kernel\<lparr>g_ses := (session_zero None)\<lparr>g_login_active := False\<rparr>, g_wm := snd (register_windows \<lparr>g_entries = [], g_front_id = -1\<rparr>),
     g_taskmgr := place_taskmgr (k_fb (demo_kenv False)) win_zero, g_loop := loop_zero\<lparr>boot_anim := False\<rparr>\<rparr>"

lemma demo_env_ok: "env_ok (demo_kenv b)"
  using demo_font_ok by (simp add: env_ok_def demo_kenv_def desk_screen_def demo_fb_def desk_font_def demo_font_def)

theorem start_without_disk_witness:
  "\<exists>g. demo_started = Inr (g, ()) \<and> length (g_users (g_ses g)) = 2 \<and> g_login_active (g_ses g) \<and> gui_ok (demo_kenv False) g"
proof -
  have "\<not> fst (k_identify (demo_kenv False) ()) \<or> k_read (demo_kenv False) (snd (k_identify (demo_kenv False) ())) 0 1 = None" by (simp add: demo_kenv_def)
  from start_without_disk [OF demo_env_ok this, where ext = "\<lambda>e _. (0, e)" and hhdm = 0 and fresh = "\<lambda>_. 0" and I = "demo_input 0 0 0 None" and
      v = demo_unmounted and heap = "\<lparr>kheap_begin = 4096, kheap_end = 8192, kheap_brk = 4096\<rparr>" and sc = Scheduler.demo_boot and snd_card = demo_card and
      screen = demo_screen and e = "()", folded demo_kernel_def demo_started_def] obtain g where g: "demo_started = Inr (g, ())" "gui_ok (demo_kenv False) g" "g_login_active (g_ses g)"
      "map (\<lambda>u. (u_name u, u_pass u)) (g_users (g_ses g)) = [(cstr ''admin'', cstr ''1234''), (cstr ''guest'', [])]"
    by (elim exE conjE) (rule that)
  have "length (g_users (g_ses g)) = 2" using arg_cong [OF g(4), of length] by simp
  with g(1-3) show ?thesis by blast
qed

text \<open>The mouse takes the title bar and is pulled to the far corner: the window stops at the edges.\<close>

definition demo_pull :: "input list" where
  "demo_pull = [demo_input 130 90 1 None, demo_input 639 479 1 None]"

lemma demo_pulled: "(case rounds (demo_kenv False) demo_pull demo_gui of
    Inr g \<Rightarrow> (wx (g_taskmgr g), wy (g_taskmgr g), ww (g_taskmgr g), wh (g_taskmgr g)) = (240, 260, 400, 220) | Inl f \<Rightarrow> False)"
  by code_simp

lemma demo_gui_ok: "gui_ok (demo_kenv b) demo_gui"
proof -
  have s: "ses_ok ((session_zero None)\<lparr>g_login_active := False\<rparr>)" by (simp add: ses_ok_def users_ok_def session_zero_def)
  have d: "desk_inv fb desktop_zero" for fb by (simp add: desk_inv_def desk_ok_def names_ok_def paper_ok_def desktop_zero_def)
  have t: "max_on_screen (k_fb (demo_kenv b)) (place_taskmgr (k_fb (demo_kenv False)) win_zero)"
    using places_on_screen(2) [of "k_fb (demo_kenv b)" win_zero] demo_env_ok [of b] by (simp add: env_ok_def demo_kenv_def)
  have g: "gui_ok (demo_kenv b) (demo_kernel\<lparr>g_wm := snd (register_windows (wm_init \<lparr>g_entries = [], g_front_id = -1\<rparr>)), g_desk := desktop_init desktop_zero\<rparr>)"
    unfolding demo_kernel_def by (rule boot_registered [OF demo_env_ok])
  show ?thesis using g s d t by (simp add: gui_ok_def demo_gui_def demo_kernel_def boot_gui_def wm_init_def)
qed

theorem rounds_keep_windows_on_screen_witness:
  "\<exists>g. rounds (demo_kenv False) demo_pull demo_gui = Inr g \<and> wx (g_taskmgr g) = 240 \<and> wy (g_taskmgr g) = 260 \<and>
     list_all (\<lambda>w. rect_on (k_fb (demo_kenv False)) (wx w) (wy w) (ww w) (wh w)) (open_windows g)"
proof -
  obtain g where g: "rounds (demo_kenv False) demo_pull demo_gui = Inr g" "wx (g_taskmgr g) = 240" "wy (g_taskmgr g) = 260"
    using demo_pulled by (auto split: sum.split_asm)
  have "list_all (input_ok (demo_kenv False)) demo_pull" by (simp add: demo_pull_def demo_input_def input_ok_def demo_kenv_def demo_fb_def)
  from rounds_keep_windows_on_screen [OF demo_gui_ok this g(1)] g show ?thesis by blast
qed

text \<open>C9: While the login screen is shown, the only way to the desktop is the password of an account: if a round of the event
  loop starts at the login screen and ends behind it, the password field held the password of an account when the round began, and
  it is that user who is now logged in. This holds whatever keys and mouse buttons the round handles, with one exception: a round
  that handles both a mouse button and the enter key may make two attempts, and when the first fails it empties the field, so that
  the second attempt is made with the empty password.\<close>

theorem login_needs_password:
  assumes "g_login_active (g_ses g)" and "loop_step E I g = Inr g'" and "\<not> g_login_active (g_ses g')"
  shows "\<exists>u\<in>set (accounts (g_ses g)). g_logged_in_user (g_ses g') = take 15 (u_name u) \<and>
    (u_pass u = g_login_pw (g_ses g) \<or> in_btn I AND 1 \<noteq> 0 \<and> in_sc I = Some 0x1C \<and> u_pass u = [])"
  using loop_step_at_login [OF assms(1,2)] assms(3) by (auto simp: at_login_def logged_in_def tried_def split: if_split_asm)

definition demo_login :: "(unit, demo_pci) gui" where
  "demo_login = demo_gui\<lparr>g_session_started := True, g_ses := (user_load_default (session_zero None))\<lparr>g_login_dirty := False, g_login_pw := cstr ''1234''\<rparr>\<rparr>"

lemma demo_login_step: "(case loop_step (demo_kenv True) (demo_input 0 0 0 (Some 0x1C)) demo_login of
    Inr g \<Rightarrow> \<not> g_login_active (g_ses g) \<and> g_logged_in_user (g_ses g) = cstr ''admin'' | Inl f \<Rightarrow> False) \<and> g_login_active (g_ses demo_login)"
  by code_simp

theorem login_needs_password_witness:
  "\<exists>g. loop_step (demo_kenv True) (demo_input 0 0 0 (Some 0x1C)) demo_login = Inr g \<and> g_logged_in_user (g_ses g) = cstr ''admin'' \<and>
     (\<exists>u\<in>set (accounts (g_ses demo_login)). cstr ''admin'' = take 15 (u_name u) \<and> u_pass u = g_login_pw (g_ses demo_login))"
proof -
  obtain g where g: "loop_step (demo_kenv True) (demo_input 0 0 0 (Some 0x1C)) demo_login = Inr g" "\<not> g_login_active (g_ses g)"
      "g_logged_in_user (g_ses g) = cstr ''admin''" "g_login_active (g_ses demo_login)"
    using demo_login_step by (auto split: sum.split_asm)
  have "in_btn (demo_input 0 0 0 (Some 0x1C)) = 0" by (simp add: demo_input_def)
  with login_needs_password [OF g(4,1,2)] g show ?thesis by auto
qed

section \<open>Where the screen promises something else\<close>

text \<open>The keyboard is dispatched before the login screen is looked at: the delete key deletes the selected file of the
  desktop although nobody is logged in.\<close>

lemma delete_key_at_login:
  assumes "\<not> halted (g_loop g)" and "\<not> boot_anim (g_loop g)" and "in_sc I = Some 0x53" and "\<not> win_open (g_filewin g)"
  shows "loop_step E I g = rbind (desktop_delete_selection E I (g_loop_update (clock_update I) g)) (\<lambda>g1.
    if g_login_active (g_ses g1) then login_step E I None g1 else desktop_step E I None g1)"
  using assms by (simp add: loop_step_def clock_update_def key_dispatch_def Let_def rbind_assoc)

text \<open>A click on the card of a user selects the user and takes the focus from the password field.\<close>

lemma card_click_drops_focus:
  assumes "0 \<le> h" and "\<not> point_in_rect (in_mx I) (in_my I) (pw_x lo) (pw_y lo) (pw_w lo) (pw_h lo)"
    and "\<not> point_in_rect (in_mx I) (in_my I) (btn_x lo) (btn_y lo) (btn_w lo) (btn_h lo)" and "lo = login_layout_compute (k_fb E)"
  shows "\<exists>g'. login_click E I h g = Inr g' \<and> g_login_selected (g_ses g') = h \<and> \<not> g_login_pw_focus (g_ses g')"
  using assms by (simp add: login_click_def Let_def seq_acts_def upd_def login_mark_dirty_def)

text \<open>The enter key in a prompt creates a new file in every mode of the prompt.\<close>

lemma enter_ignores_prompt_mode:
  "prompt_key E I 0x1C (on_menus (name_prompt_mode_update (\<lambda>_. PROMPT_SAVE_AS)) g) =
   create_txt_file_from_prompt E I (on_menus (name_prompt_mode_update (\<lambda>_. PROMPT_SAVE_AS)) g)"
  by (simp add: prompt_key_def)

text \<open>The buttons of the windows are drawn behind the shortcuts, but clicks are compared with places that start at 80.\<close>

lemma taskbar_buttons_moved: "snd (taskbar_draw_shortcuts fb 80 y 34) = 228"
  by (simp add: taskbar_draw_shortcuts_def Let_def)

text \<open>With caps lock, one shift key gives a small letter; a shift key that repeats gives a capital again.\<close>

lemma shift_repeats:
  "key_to_char 0x1E (loop_zero\<lparr>caps_on := True, shift_down := 1\<rparr>) = 0x61" "key_to_char 0x1E (loop_zero\<lparr>caps_on := True, shift_down := 2\<rparr>) = 0x41"
  by code_simp+

end
