(* ===== verification/Frame_Safe.thy ===== *)
theory Frame_Safe
  imports Session
begin

text \<open>
  Drawing a frame in any state of a session: no operation faults, and the screen ends up showing what was drawn. The parts are
  the operations of \<open>Paint_Safe\<close>; here they are put together in the order of \<open>desktop_render\<close>.
\<close>

section \<open>Memory for the frames\<close>

text \<open>The cache of the desktop, if there is one or memory for one, is mapped and apart from the back buffer.\<close>

definition cache_ok :: "fb_t \<Rightarrow> desktop \<Rightarrow> kheap \<Rightarrow> mem \<Rightarrow> bool" where
  "cache_ok fb dk heap m \<longleftrightarrow> (case ensure_desktop_bg_cache fb (dk, heap) of (has_cache, sc, _) \<Rightarrow> has_cache \<longrightarrow>
     mapped m (desktop_bg_cache sc) (frame_bytes fb) \<and> rng (desktop_bg_cache sc) (frame_bytes fb) \<inter> rng (fb_back fb) (frame_bytes fb) = {})"

section \<open>Actions that return\<close>

text \<open>An action works if it returns from every state of the session with buffers, and leaves the invariant and the buffers.\<close>

definition frame_ok :: "('d, 'h) kenv \<Rightarrow> ('d, 'h) gui \<Rightarrow> bool" where
  "frame_ok E g \<longleftrightarrow> gui_ok E g \<and> buffers_ok (k_fb E) (g_screen g)"

definition works :: "('d, 'h) kenv \<Rightarrow> ('d, 'h) act \<Rightarrow> bool" where
  "works E f \<longleftrightarrow> (\<forall>g. frame_ok E g \<longrightarrow> (\<exists>g'. f g = Inr g' \<and> frame_ok E g'))"

named_theorems working "actions that return"

lemma worksI: "keeps (gui_ok E) f \<Longrightarrow> (\<And>g. gui_ok E g \<Longrightarrow> buffers_ok (k_fb E) (g_screen g) \<Longrightarrow> \<exists>g'. f g = Inr g' \<and> dom (g_screen g') = dom (g_screen g)) \<Longrightarrow> works E f"
  unfolding works_def frame_ok_def keeps_def using buffers_dom by metis

lemma works_Inr [working]: "works E Inr"
  by (simp add: works_def)

lemma works_seq_Nil [working]: "works E (seq_acts [])"
  by (simp add: works_def seq_acts_def)

lemma works_seq_Cons [working]: "works E f \<Longrightarrow> works E (seq_acts fs) \<Longrightarrow> works E (seq_acts (f # fs))"
  unfolding works_def seq_acts_Cons by fastforce

lemma works_seq_append:
  assumes "works E (seq_acts fs)" and "works E (seq_acts gs)"
  shows "works E (seq_acts (fs @ gs))"
  unfolding works_def
proof (intro allI impI)
  fix g assume "frame_ok E g"
  with assms obtain g1 g2 where "seq_acts fs g = Inr g1" "seq_acts gs g1 = Inr g2" "frame_ok E g2" unfolding works_def by blast
  then show "\<exists>g'. seq_acts (fs @ gs) g = Inr g' \<and> frame_ok E g'" by (simp add: seq_acts_def rfold_append)
qed

lemma works_map: "(\<And>k. k \<in> set ks \<Longrightarrow> works E (f k)) \<Longrightarrow> works E (seq_acts (map f ks))"
  by (induction ks) (simp_all add: works_seq_Nil works_seq_Cons)

lemma works_if [working]: "(b \<Longrightarrow> works E f) \<Longrightarrow> (\<not> b \<Longrightarrow> works E h) \<Longrightarrow> works E (if b then f else h)"
  by simp

lemma works_upd: "(\<And>g. frame_ok E g \<Longrightarrow> frame_ok E (f g)) \<Longrightarrow> works E (upd f)"
  by (simp add: works_def upd_def)

lemma works_paint [working]: "(\<And>g. gui_ok E g \<Longrightarrow> draws (k_fb E) (run_ops (ops g))) \<Longrightarrow> works E (paint ops)"
  using drawn by (intro worksI [OF keeps_paint]) (fastforce simp: paint_def)

lemma works_render_on [working]: "(\<And>g. gui_ok E g \<Longrightarrow> draws (k_fb E) (f g)) \<Longrightarrow> works E (render_on f)"
  using drawn by (intro worksI [OF keeps_render_on]) (fastforce simp: render_on_def)

section \<open>The windows\<close>

lemma screen_sizes:
  assumes "gui_ok E g"
  shows "desk_screen (k_fb E)" "font_ok (k_blob E) (k_font E)" "desk_font (k_blob E) (k_font E)"
  using assms by (simp_all add: gui_ok_def env_ok_def desk_font_def)

lemma near_windows:
  assumes "gui_ok E g"
  shows "shown (g_notepad g) \<Longrightarrow> near_win (g_notepad g)" "shown (g_filewin g) \<Longrightarrow> near_win (g_filewin g)"
    "shown (g_taskmgr g) \<Longrightarrow> near_win (g_taskmgr g)" "shown (g_display g) \<Longrightarrow> near_win (g_display g)"
    "shown (g_terminal g) \<Longrightarrow> near_win (g_terminal g)" "shown (g_imgview g) \<Longrightarrow> near_win (g_imgview g)"
    "shown (g_wavplay g) \<Longrightarrow> near_win (g_wavplay g)"
  using assms by (auto simp: gui_ok_def note_ok_def file_ok_def view_ok_def wav_ok_def env_ok_def shown_def on_screen_def intro: max_near_win near_win)

lemma near_bundle:
  assumes "gui_ok E g"
  shows "length (np_name (g_notepad g)) \<le> 12" "length (g_file_items g) \<le> 128" "\<forall>i\<in>set (g_file_items g). length (d_name i) \<le> 12" "length (fw_path (g_filewin g)) \<le> 95"
    "length (g_file_status g) \<le> 63" "length (wp_name (g_wavplay g)) \<le> 31" "iv_img (g_imgview g) = Some img \<Longrightarrow> img_ok img (img_w (g_imgview g)) (img_h (g_imgview g))"
  using assms by (simp_all add: gui_ok_def note_ok_def file_ok_def view_ok_def wav_ok_def items_ok_def)

lemma windows_draw:
  assumes g: "gui_ok E g"
  shows "draws (k_fb E) (filewin_render (k_fb E) (k_blob E) (k_font E) (g_file_items g) (g_file_status g) (g_filewin g))"
    "draws (k_fb E) (display_render (k_fb E) (k_blob E) (k_font E) (k_boot E) (g_display g))"
    "draws (k_fb E) (terminal_render (k_fb E) (k_blob E) (k_font E) (g_terminal g))"
    "draws (k_fb E) (imgview_render (k_fb E) (k_blob E) (k_font E) (g_imgview g))"
    "draws (k_fb E) (wavplay_render (k_fb E) (k_blob E) (k_font E) (g_wavplay g))"
  unfolding filewin_render_def display_render_def terminal_render_def imgview_render_def wavplay_render_def
  using near_windows [OF g] near_bundle [OF g] screen_sizes(2) [OF g]
  by (auto intro!: draws_skip filewin_draws display_draws terminal_draws imgview_draws wavplay_draws)

lemma notepad_works [working]: "works E (render_notepad E)"
proof (rule worksI [OF keeps_render_notepad])
  fix g assume g: "gui_ok E g" "buffers_ok (k_fb E) (g_screen g)"
  show "\<exists>g'. render_notepad E g = Inr g' \<and> dom (g_screen g') = dom (g_screen g)"
  proof (cases "shown (g_notepad g)")
    case True
    from drawn [OF notepad_draws [OF near_windows(1) [OF g(1) True] screen_sizes(2) [OF g(1)] near_bundle(1) [OF g(1)]] g(2)]
    show ?thesis using True by (auto simp: render_notepad_def notepad_render_def)
  qed (simp add: render_notepad_def notepad_render_def)
qed

lemma taskmgr_works [working]: "works E (render_taskmgr E I)"
proof (rule worksI [OF keeps_render_taskmgr])
  fix g assume g: "gui_ok E g" "buffers_ok (k_fb E) (g_screen g)"
  show "\<exists>g'. render_taskmgr E I g = Inr g' \<and> dom (g_screen g') = dom (g_screen g)"
  proof (cases "shown (g_taskmgr g)")
    case True
    obtain cpu sc where c: "task_cpu_usage_percent (g_sched g) = (cpu, sc)" by fastforce
    then have "cpu \<le> 100" using cpu_percent_le [of "g_sched g"] by simp
    note d = drawn [OF taskmgr_draws [OF near_windows(3) [OF g(1) True] screen_sizes(2) [OF g(1)] this] g(2)]
    obtain tp p1 fp p2 where p: "pmm_total_count (k_pool E) (ac_pool (g_sound g)) = (tp, p1)" "pmm_free_count (k_pool E) p1 = (fp, p2)" by fastforce
    obtain m where "run_ops (taskmgr_ops (k_fb E) (k_blob E) (k_font E) (in_jiffies I) tp fp cpu (g_taskmgr g)) (g_screen g) = Inr m" "dom m = dom (g_screen g)"
      using d by blast
    then show ?thesis using True c p by (simp add: render_taskmgr_def taskmgr_render_def)
  qed (simp add: render_taskmgr_def taskmgr_render_def)
qed

lemma render_window_works [working]: "works E (render_window E I k)"
  unfolding render_window_def Let_def by (intro working) (simp_all add: windows_draw)

lemma render_windows_works [working]: "works E (render_windows E I)"
proof -
  have "works E (seq_acts (map (\<lambda>k. if f \<noteq> k then render_window E I k else Inr) [0..6] @ [render_window E I f]))" for f
    by (intro works_seq_append works_map working)
  then show ?thesis unfolding works_def render_windows_def Let_def by blast
qed

section \<open>Menus, taskbar and cursor\<close>

lemma topmenu_works [working]: "works E (topmenu_draw E I)"
proof -
  have "gui_ok E (on_menus (\<lambda>s. s\<lparr>topmenu_hover := h s, topmenu_item_hover := i s\<rparr>) g)" if "gui_ok E g" for h i and g :: "('a, 'b) gui"
    using that by (rule gui_ok_on_menus) (simp add: menus_ok_def)
  then have u: "works E (upd (on_menus (\<lambda>s. s\<lparr>topmenu_hover := h s, topmenu_item_hover := i s\<rparr>)))" for h i
    by (intro works_upd) (simp add: frame_ok_def on_menus_def)
  have r: "frame_ok E (on_menus topmenu_reset g)" if "frame_ok E g" for g :: "('a, 'b) gui"
    using that gui_ok_on_menus [of E g topmenu_reset] by (simp add: frame_ok_def on_menus_def menus_ok_def topmenu_reset_def)
  have p: "works E (paint (\<lambda>g. topmenu_ops (k_fb E) (k_blob E) (k_font E) mx my (topmenu_open (g_menus g))))" for mx my
    by (intro working topmenu_draws) (auto simp: gui_ok_def env_ok_def menus_ok_def)
  have "works E (seq_acts [paint (\<lambda>g. topmenu_ops (k_fb E) (k_blob E) (k_font E) mx my (topmenu_open (g_menus g))),
      upd (on_menus (\<lambda>s. s\<lparr>topmenu_hover := h s, topmenu_item_hover := i s\<rparr>))])" for mx my h i by (intro working p u)
  then show ?thesis using r unfolding works_def topmenu_draw_def by simp
qed

lemma desk_sizes:
  assumes "desk_screen fb"
  shows "screen_ok fb" "sint (fb_height fb - 34) = sint (fb_height fb) - 34"
proof -
  have "unat (fb_width fb) = nat (sint (fb_width fb))" "unat (fb_height fb) = nat (sint (fb_height fb))"
    using assms by (simp_all add: desk_screen_def unat_nonnegative)
  then show "screen_ok fb" using assms by (simp add: screen_ok_def desk_screen_def nat_le_iff)
  show "sint (fb_height fb - 34) = sint (fb_height fb) - 34" using assms sint_sub [of "fb_height fb" 34] by (simp add: desk_screen_def)
qed

lemma titles_ok: "wm_inv wm \<Longrightarrow> titles_ok wm"
proof -
  have "length window_entries = 7 \<and> (\<forall>e\<in>set window_entries. length (w_title e) \<le> 31)" by code_simp
  then show "wm_inv wm \<Longrightarrow> titles_ok wm" by (simp add: wm_inv_def titles_ok_def)
qed

lemma taskbar_works [working]: "works E (paint (taskbar_ops E))"
proof (intro working)
  fix g :: "('a, 'b) gui" assume g: "gui_ok E g"
  note s = screen_sizes [OF g]
  have y: "- 100 \<le> sint (fb_height (k_fb E) - 34)" "sint (fb_height (k_fb E) - 34) \<le> 2 ^ 16" using desk_sizes(2) [OF s(1)] s(1) by (simp_all add: desk_screen_def)
  note c = shortcuts_draws [of 80 "sint (fb_height (k_fb E) - 34)" "k_fb E"]
  have "draws (k_fb E) (wm_draw_taskbar (k_fb E) (k_blob E) (k_font E) (win_flags g) (sint (fb_height (k_fb E) - 34)) 34 228 (g_wm g))"
    by (rule taskbar_draws [OF s(2) titles_ok]) (use g y in \<open>simp_all add: gui_ok_def\<close>)
  then show "draws (k_fb E) (run_ops (taskbar_ops E g))" using c y by (auto simp: taskbar_ops_def split_beta Let_def intro!: draws_intros)
qed

lemma draws_when: "draws fb f \<Longrightarrow> draws fb (\<lambda>m. if c then f m else Inr m)" "draws fb f \<Longrightarrow> draws fb (\<lambda>m. if c then Inr m else f m)"
  by (cases c; simp add: draws_skip)+

lemma cursor_pixel_draws:
  assumes img: "img_ok img w h" and "0 \<le> xx" "xx < w" "0 \<le> yy" "yy < h" and x: "0 \<le> x" "x \<le> 2 ^ 16" "w \<le> 2 ^ 20"
  shows "draws fb (\<lambda>m. rbind (i32 (x + xx)) (\<lambda>dx. if dx < 0 \<or> dx \<ge> sint (fb_width fb) then Inr m else
      rbind (img_pixel img (yy * w + xx)) (\<lambda>px. if drop_bit 24 px AND 0xFF = 0 then Inr m else fb_putpixel fb dx dy px m)))"
proof -
  have "yy * w + xx < h * w" using mult_right_mono [of "yy + 1" h w] assms by (simp add: distrib_right)
  moreover have "int (length img) = h * w" using img by (simp add: img_ok_def mult.commute)
  moreover have "0 \<le> yy * w + xx" using assms by simp
  ultimately have "0 \<le> yy * w + xx" "nat (yy * w + xx) < length img" by (simp_all add: nat_less_iff)
  then have "img_pixel img (yy * w + xx) = Inr (img ! nat (yy * w + xx))" by (simp add: img_pixel_def)
  moreover have "i32 (x + xx) = Inr (x + xx)" using assms by (intro i32_ok) auto
  ultimately show ?thesis using draws_putpixel [of fb] by (simp add: draws_when)
qed

lemma cursor_draws:
  assumes c: "cursor_ok c" and x: "0 \<le> x" "x \<le> 2 ^ 16" "0 \<le> y" "y \<le> 2 ^ 16"
  shows "draws fb (fb_draw_cursor fb (cur c) x y)"
proof -
  have cross: "draws fb (cursor_cross (fb_putpixel fb) fb x y)"
  proof -
    have "draws fb (\<lambda>m. rbind (i32 (x + i)) (\<lambda>xx. if onscreen fb xx y then fb_putpixel fb xx y v m else Inr m))" if "i \<in> set [-3..3]" for i v
    proof -
      have "i32 (x + i) = Inr (x + i)" using that x by (intro i32_ok) auto
      then show ?thesis using draws_putpixel [of fb] by (simp add: draws_when)
    qed
    moreover have "draws fb (\<lambda>m. rbind (i32 (y + i)) (\<lambda>yy. if onscreen fb x yy then fb_putpixel fb x yy v m else Inr m))" if "i \<in> set [-3..3]" for i v
    proof -
      have "i32 (y + i) = Inr (y + i)" using that x by (intro i32_ok) auto
      then show ?thesis using draws_putpixel [of fb] by (simp add: draws_when)
    qed
    ultimately show ?thesis unfolding cursor_cross_def by (intro draws_seq draws_rfold)
  qed
  have loop: "draws fb (cursor_image_loop (fb_putpixel fb) fb img w h x y)" if img: "img_ok img w h" "w \<le> 2 ^ 20" "h \<le> 2 ^ 20" for img w h
    unfolding cursor_image_loop_def
  proof (rule draws_rfold)
    fix yy assume yy: "yy \<in> set [0..h - 1]"
    then have "i32 (y + yy) = Inr (y + yy)" using x that by (intro i32_ok) auto
    moreover have "draws fb (rfold (\<lambda>xx m. rbind (i32 (x + xx)) (\<lambda>dx. if dx < 0 \<or> dx \<ge> sint (fb_width fb) then Inr m else
        rbind (img_pixel img (yy * w + xx)) (\<lambda>px. if drop_bit 24 px AND 0xFF = 0 then Inr m else fb_putpixel fb dx dy px m))) [0..w - 1])" for dy
      by (rule draws_rfold, rule cursor_pixel_draws [OF img(1)]) (use yy x that in auto)
    ultimately show "draws fb (\<lambda>m. rbind (i32 (y + yy)) (\<lambda>dy. if dy < 0 \<or> dy \<ge> sint (fb_height fb) then Inr m else
        rfold (\<lambda>xx m. rbind (i32 (x + xx)) (\<lambda>dx. if dx < 0 \<or> dx \<ge> sint (fb_width fb) then Inr m else
          rbind (img_pixel img (yy * w + xx)) (\<lambda>px. if drop_bit 24 px AND 0xFF = 0 then Inr m else fb_putpixel fb dx dy px m))) [0..w - 1] m))"
      by (simp add: draws_when)
  qed
  have "fb_draw_cursor fb (cur c) x y = (case cursor_img (cur c) of
      Some img \<Rightarrow> cursor_image_loop (fb_putpixel fb) fb img (cursor_w (cur c)) (cursor_h (cur c)) x y | None \<Rightarrow> cursor_cross (fb_putpixel fb) fb x y)"
    using c by (intro ext) (auto simp: fb_draw_cursor_def draw_cursor_body_def cursor_ok_def img_ok_def split: option.split)
  then show ?thesis using cross loop c by (auto simp: cursor_ok_def split: option.split)
qed

lemma overlay_draws:
  assumes g: "gui_ok E g" and I: "input_ok E I"
  shows "\<exists>ops. overlay_ops E I g = ops @ [fb_flush (k_fb E)] \<and> draws (k_fb E) (run_ops ops)"
proof -
  note s = screen_sizes [OF g]
  have m: "menus_ok (g_menus g)" and c: "cursor_ok (g_cursor g)" and n: "\<forall>i\<in>set (g_items (g_desk g)). length (d_name i) \<le> 12"
    using g by (simp_all add: gui_ok_def desk_inv_def names_ok_def)
  have xy: "0 \<le> in_mx I" "in_mx I \<le> 2 ^ 16" "0 \<le> in_my I" "in_my I \<le> 2 ^ 16" using I s(1) by (auto simp: input_ok_def desk_screen_def)
  have i: "length (d_name it) \<le> 12" if "desktop_get_item k (g_desk g) = Some it" for k it
    using that n by (auto simp: desktop_get_item_def split: if_split_asm)
  let ?ops = "(if info_visible (g_menus g) then case desktop_get_item (info_idx (g_menus g)) (g_desk g) of
         None \<Rightarrow> [] | Some it \<Rightarrow> info_ops (k_fb E) (k_blob E) (k_font E) (info_x (g_menus g)) (info_y (g_menus g)) it else []) @
      (if ctx_menu_visible (g_menus g) \<and> ctx_items (g_menus g) \<noteq> []
       then ctx_menu_ops (k_fb E) (k_blob E) (k_font E) (in_mx I) (in_my I) (ctx_menu_x (g_menus g)) (ctx_menu_y (g_menus g)) (ctx_menu_w (g_menus g)) (ctx_menu_h (g_menus g))
         (map fst (ctx_items (g_menus g))) else []) @
      (if name_prompt_active (g_menus g) then prompt_ops (k_fb E) (k_blob E) (k_font E) (name_prompt_title (g_menus g)) (name_prompt_buf (g_menus g)) else []) @
      (if launch_visible (g_menus g) \<and> launch_items (g_menus g) \<noteq> []
       then launch_menu_ops (k_fb E) (k_blob E) (k_font E) (in_mx I) (in_my I) (launch_x (g_menus g)) (launch_y (g_menus g)) (map l_name (launch_items (g_menus g))) else []) @
      clock_ops (k_fb E) (k_blob E) (k_font E) (in_time I) @ [fb_draw_cursor (k_fb E) (cur (g_cursor g)) (in_mx I) (in_my I)]"
  have "draws (k_fb E) (run_ops ?ops)"
  proof (intro draws_ops_append draws_ops_if draws_ops_Nil draws_ops_Cons)
    show "draws (k_fb E) (run_ops (case desktop_get_item (info_idx (g_menus g)) (g_desk g) of
         None \<Rightarrow> [] | Some it \<Rightarrow> info_ops (k_fb E) (k_blob E) (k_font E) (info_x (g_menus g)) (info_y (g_menus g)) it))"
      using m i by (auto simp: menus_ok_def spot_def split: option.split intro!: draws_ops_Nil info_draws s(2))
  next
    show "draws (k_fb E) (run_ops (ctx_menu_ops (k_fb E) (k_blob E) (k_font E) (in_mx I) (in_my I) (ctx_menu_x (g_menus g)) (ctx_menu_y (g_menus g)) (ctx_menu_w (g_menus g))
        (ctx_menu_h (g_menus g)) (map fst (ctx_items (g_menus g)))))"
      by (rule ctx_menu_draws [OF s(1,2)]) (use m in \<open>auto simp: menus_ok_def spot_def\<close>)
  next
    show "draws (k_fb E) (run_ops (prompt_ops (k_fb E) (k_blob E) (k_font E) (name_prompt_title (g_menus g)) (name_prompt_buf (g_menus g))))"
      by (rule prompt_draws [OF s(1,2)]) (use m in \<open>auto simp: menus_ok_def\<close>)
  next
    show "draws (k_fb E) (run_ops (launch_menu_ops (k_fb E) (k_blob E) (k_font E) (in_mx I) (in_my I) (launch_x (g_menus g)) (launch_y (g_menus g))
        (map l_name (launch_items (g_menus g)))))"
      by (rule launch_menu_draws [OF s(2)]) (use m in \<open>auto simp: menus_ok_def spot_def\<close>)
  next
    show "draws (k_fb E) (run_ops (clock_ops (k_fb E) (k_blob E) (k_font E) (in_time I)))" by (rule clock_draws [OF s(1,3)])
    show "draws (k_fb E) (fb_draw_cursor (k_fb E) (cur (g_cursor g)) (in_mx I) (in_my I))" by (rule cursor_draws [OF c xy])
  qed
  moreover have "overlay_ops E I g = ?ops @ [fb_flush (k_fb E)]" by (simp add: overlay_ops_def Let_def)
  ultimately show ?thesis by blast
qed

section \<open>The background\<close>

lemma background_returns:
  assumes g: "gui_ok E g" and b: "buffers_ok (k_fb E) (g_screen g)" and c: "cache_ok (k_fb E) (g_desk g) (g_heap g) (g_screen g)"
  shows "\<exists>g'. draw_background E g = Inr g' \<and> dom (g_screen g') = dom (g_screen g)"
proof -
  let ?fb = "k_fb E" and ?n = "frame_bytes (k_fb E)" and ?m = "g_screen g"
  obtain hc s1 heap1 where e: "ensure_desktop_bg_cache ?fb (g_desk g, g_heap g) = (hc, s1, heap1)" by (rule prod_cases3)
  have bk: "fb_back ?fb \<noteq> 0" "mapped ?m (fb_back ?fb) ?n" using b by (simp_all add: buffers_ok_def fb_ok_def)
  have "s1 = (g_desk g)\<lparr>desktop_bg_cache := desktop_bg_cache s1, desktop_bg_cache_bytes := desktop_bg_cache_bytes s1\<rparr>"
    using e by (auto simp: ensure_desktop_bg_cache_def Let_def split: if_splits prod.splits)
  then have "\<exists>x y. s1 = (g_desk g)\<lparr>desktop_bg_cache := x, desktop_bg_cache_bytes := y\<rparr>" by blast
  then have s1: "desk_ok ?fb s1" "names_ok s1" "paper_ok (wallpaper s1)" using g by (auto simp: gui_ok_def desk_inv_def desk_ok_cache)
  have cp: "\<exists>m'. memcpy_exact d s (ucast (fb_pitch ?fb) * ucast (fb_height ?fb)) m = Inr m' \<and> dom m' = dom m"
    if "d \<noteq> 0" "s \<noteq> 0" "mapped m d ?n" "mapped m s ?n" "rng d ?n \<inter> rng s ?n = {}" for d s m
    using copy_frame_moves [OF that] dom_moved [OF that(4), of d] that(3) by (simp add: mapped_def)
  have cache: "mapped ?m (desktop_bg_cache s1) ?n" "rng (desktop_bg_cache s1) ?n \<inter> rng (fb_back ?fb) ?n = {}" if hc using c e that by (simp_all add: cache_ok_def)
  from backdrop_draws [OF s1 desk_sizes(1) [OF screen_sizes(1) [OF g]] screen_sizes(2) [OF g] buffers_base(2) [OF b]]
  obtain m1 where m1: "desktop_draw_backdrop ?fb (k_blob E) (k_font E) s1 ?m = Inr (ensure_layout ?fb s1, m1)" "dom m1 = dom ?m" by (auto simp: same_outside_def)
  have mp: "mapped m1 a k = mapped ?m a k" for a k by (simp add: mapped_def m1(2))
  have out: "\<exists>m3. (if hc \<and> desktop_bg_cache s1 \<noteq> 0 then memcpy_exact (desktop_bg_cache s1) (fb_back ?fb) (ucast (fb_pitch ?fb) * ucast (fb_height ?fb)) m1 else Inr m1) = Inr m3 \<and>
      dom m3 = dom ?m"
    using cp [of "desktop_bg_cache s1" "fb_back ?fb" m1] cache bk m1(2) by (auto simp: mp)
  have "\<exists>m3. memcpy_exact (fb_back ?fb) (desktop_bg_cache s1) (ucast (fb_pitch ?fb) * ucast (fb_height ?fb)) ?m = Inr m3 \<and> dom m3 = dom ?m" if "hc" "desktop_bg_cache s1 \<noteq> 0"
    using cp [of "fb_back ?fb" "desktop_bg_cache s1" ?m] cache bk that by (simp add: Int_commute)
  then show ?thesis using out m1 bk(1) e
    by (auto simp: draw_background_def desktop_draw_background_def Let_def ensure_layout_cache)
qed

section \<open>A frame\<close>

lemma overlay_shows:
  assumes g: "gui_ok E g" and I: "input_ok E I" and b: "buffers_ok (k_fb E) (g_screen g)"
  shows "\<exists>m. paint (overlay_ops E I) g = Inr (g\<lparr>g_screen := m\<rparr>) \<and> buffers_ok (k_fb E) m \<and>
    (\<forall>p. view (k_fb E) (fb_front (k_fb E)) m p = view (k_fb E) (fb_back (k_fb E)) m p)"
proof -
  let ?fb = "k_fb E"
  from overlay_draws [OF g I] obtain ops where o: "overlay_ops E I g = ops @ [fb_flush ?fb]" "draws ?fb (run_ops ops)" by blast
  from drawn [OF o(2) b] obtain m1 where m1: "run_ops ops (g_screen g) = Inr m1" "dom m1 = dom (g_screen g)" by blast
  have b1: "buffers_ok ?fb m1" using b buffers_dom [OF m1(2)] by simp
  from b1 fb_flush_shows_back [of ?fb m1] obtain m2 where m2: "fb_flush ?fb m1 = Inr m2" "\<And>p. view ?fb (fb_front ?fb) m2 p = view ?fb (fb_back ?fb) m1 p"
      "same_outside ?fb (fb_front ?fb) m1 m2" by (auto simp: buffers_ok_def)
  have "view ?fb (fb_back ?fb) m2 p = view ?fb (fb_back ?fb) m1 p" for p
    by (rule view_cong) (use b1 m2(3) in \<open>auto simp: buffers_ok_def same_outside_def\<close>)
  moreover have "buffers_ok ?fb m2" using b1 m2(3) buffers_dom [of m2 m1 ?fb] by (simp add: same_outside_def)
  moreover have "paint (overlay_ops E I) g = Inr (g\<lparr>g_screen := m2\<rparr>)" using m1(1) m2(1) by (simp add: paint_def o(1) run_ops_def rfold_append)
  ultimately show ?thesis using m2(2) by auto
qed

text \<open>C10: In every state of a session, drawing a frame (desktop, taskbar, windows, menus, clock and cursor, from the
  back buffer to the screen) returns without any fault when both buffers and the cache are mapped and apart: nothing is read
  or written outside them, no number overflows. The screen then shows exactly the back buffer, and the state satisfies the
  invariant again.\<close>

theorem frame_never_faults:
  assumes "gui_ok E g" and "input_ok E I" and "buffers_ok (k_fb E) (g_screen g)" and "cache_ok (k_fb E) (g_desk g) (g_heap g) (g_screen g)"
  shows "\<exists>g'. desktop_render E I g = Inr g' \<and> gui_ok E g' \<and> buffers_ok (k_fb E) (g_screen g') \<and>
    (\<forall>p. view (k_fb E) (fb_front (k_fb E)) (g_screen g') p = view (k_fb E) (fb_back (k_fb E)) (g_screen g') p)"
proof -
  from background_returns [OF assms(1,3,4)] obtain g1 where g1: "draw_background E g = Inr g1" "dom (g_screen g1) = dom (g_screen g)" by blast
  have f1: "frame_ok E g1" using keepsD [OF keeps_draw_background assms(1) g1(1)] assms(3) buffers_dom [OF g1(2)] by (simp add: frame_ok_def)
  have "works E (seq_acts [paint (taskbar_ops E), render_windows E I, topmenu_draw E I])"
    by (intro works_seq_Cons works_seq_Nil taskbar_works render_windows_works topmenu_works)
  with f1 obtain g2 where g2: "seq_acts [paint (taskbar_ops E), render_windows E I, topmenu_draw E I] g1 = Inr g2" "frame_ok E g2" unfolding works_def by blast
  from overlay_shows [of E g2 I] g2(2) assms(2) obtain m where m: "paint (overlay_ops E I) g2 = Inr (g2\<lparr>g_screen := m\<rparr>)" "buffers_ok (k_fb E) m"
      "\<forall>p. view (k_fb E) (fb_front (k_fb E)) m p = view (k_fb E) (fb_back (k_fb E)) m p" by (auto simp: frame_ok_def)
  have "desktop_render E I = seq_acts ([draw_background E] @ [paint (taskbar_ops E), render_windows E I, topmenu_draw E I] @ [paint (overlay_ops E I)])"
    by (simp add: desktop_render_def)
  then have "desktop_render E I g = Inr (g2\<lparr>g_screen := m\<rparr>)" using g1(1) g2(1) m(1) unfolding seq_acts_def rfold_append by simp
  then show ?thesis using g2(2) m(2,3) by (simp add: frame_ok_def)
qed

text \<open>The session of the examples on a screen of 640 by 480 pixels, with two frames and a heap for the cache.\<close>

definition demo_memory :: mem where
  "demo_memory a = (if 0x100000 \<le> a \<and> a < 0x600000 then Some 0 else None)"

definition demo_shown :: "(unit, demo_pci) gui" where
  "demo_shown = demo_gui\<lparr>g_heap := \<lparr>kheap_begin = 0x500000, kheap_end = 0x600000, kheap_brk = 0x500000\<rparr>, g_screen := demo_memory\<rparr>"

theorem frame_never_faults_witness:
  "\<exists>g. desktop_render (demo_kenv True) (demo_input 10 20 0 None) demo_shown = Inr g \<and>
     (\<forall>p. view (k_fb (demo_kenv True)) 0x100000 (g_screen g) p = view (k_fb (demo_kenv True)) 0x300000 (g_screen g) p)"
proof -
  have g: "gui_ok (demo_kenv True) demo_shown" using demo_gui_ok by (simp add: demo_shown_def)
  have i: "input_ok (demo_kenv True) (demo_input 10 20 0 None)" by (simp add: demo_input_def input_ok_def demo_kenv_def demo_fb_def)
  have r: "rng p 921600 \<subseteq> dom demo_memory" if "0x100000 \<le> unat p" "unat p \<le> 0x500000" for p :: u64
    using that by (auto simp: rng_def demo_memory_def word_le_nat_alt word_less_nat_alt)
  have mp: "mapped demo_memory p 921600" if "p \<in> {0x100000, 0x300000, 0x500000}" for p :: u64 using that by (elim insertE) (simp_all add: mapped_def r)
  have fb: "frame_bytes (k_fb (demo_kenv True)) = 921600" by (simp add: demo_kenv_def demo_fb_def)
  have ap: "rng (p :: u64) 921600 \<inter> rng q 921600 = {}" if "p \<in> {0x100000, 0x300000, 0x500000}" "q \<in> {0x100000, 0x300000, 0x500000}" "p \<noteq> q" for p q
    using that by (auto simp: rng_def)
  have b: "buffers_ok (k_fb (demo_kenv True)) (g_screen demo_shown)"
    unfolding buffers_ok_def fb_ok_def fb using mp ap by (simp add: demo_shown_def demo_kenv_def demo_fb_def fb_geom_def)
  have e: "ensure_desktop_bg_cache (k_fb (demo_kenv True)) (g_desk demo_shown, g_heap demo_shown) =
      (True, desktop_zero\<lparr>desktop_bg_cache := 0x500000, desktop_bg_cache_bytes := 921600\<rparr>, (g_heap demo_shown)\<lparr>kheap_brk := 0x5E1000\<rparr>)"
    by code_simp
  have c: "cache_ok (k_fb (demo_kenv True)) (g_desk demo_shown) (g_heap demo_shown) (g_screen demo_shown)"
    unfolding cache_ok_def e fb using mp ap by (simp add: demo_shown_def demo_kenv_def demo_fb_def)
  from frame_never_faults [OF g i b c] show ?thesis by (auto simp: demo_kenv_def)
qed

end
