(* ===== verification/Serial.thy ===== *)
theory Serial
  imports Ata Byte_Memory
begin

text \<open>
  \<open>serial.c\<close>: the serial line and the formatted output on it. The chip behind the ports is a parameter; the locale
  \<open>uart\<close> states what the 16550 data sheet promises about its transmitter: bit 5 of the line status says that a byte can be
  taken, it comes up after finitely many reads, and a byte written then is sent unless the divisor latch is selected. The
  wait for that bit is not bounded in the source and has fuel here. A string is the list of its characters before the
  terminating zero.
\<close>

section \<open>The line\<close>

abbreviation COM1 :: u16 where "COM1 \<equiv> 0x3F8"
abbreviation LF :: u8 where "LF \<equiv> 0x0A"
abbreviation CR :: u8 where "CR \<equiv> 0x0D"

fun serial_wait_tx :: "nat \<Rightarrow> 'h port_io \<Rightarrow> u16 \<Rightarrow> 'h \<Rightarrow> 'h res" where
  "serial_wait_tx 0 io p h = Inl OutOfFuel"
| "serial_wait_tx (Suc fuel) io p h =
     (let (st, h') = io_inb io h (p + 5) in if st AND 0x20 = 0 then serial_wait_tx fuel io p h' else Inr h')"

definition serial_init :: "'h port_io \<Rightarrow> u16 \<Rightarrow> 'h \<Rightarrow> 'h" where
  "serial_init io p = fold (\<lambda>(r, v) h. io_outb io h (p + r) v) [(1, 0x00), (3, 0x80), (0, 0x03), (1, 0x00), (3, 0x03), (2, 0xC7), (4, 0x0B)]"

definition serial_send :: "nat \<Rightarrow> 'h port_io \<Rightarrow> u16 \<Rightarrow> u8 \<Rightarrow> 'h \<Rightarrow> 'h res" where
  "serial_send fuel io p c h = rbind (serial_wait_tx fuel io p h) (\<lambda>h'. Inr (io_outb io h' (p + 0) c))"

definition serial_putc :: "nat \<Rightarrow> 'h port_io \<Rightarrow> u16 \<Rightarrow> u8 \<Rightarrow> 'h \<Rightarrow> 'h res" where
  "serial_putc fuel io p c h =
     rbind (if c = LF then serial_send fuel io p CR h else Inr h) (serial_send fuel io p c)"

fun serial_puts :: "nat \<Rightarrow> 'h port_io \<Rightarrow> u16 \<Rightarrow> u8 list \<Rightarrow> 'h \<Rightarrow> 'h res" where
  "serial_puts fuel io p [] h = Inr h"
| "serial_puts fuel io p (c # s) h = rbind (serial_putc fuel io p c h) (serial_puts fuel io p s)"

definition serial_write :: "nat \<Rightarrow> 'h port_io \<Rightarrow> u16 \<Rightarrow> u8 list \<Rightarrow> 'h \<Rightarrow> 'h res" where
  "serial_write = serial_puts"

text \<open>The two routines that do not turn line feeds.\<close>

definition serial_putc_raw :: "nat \<Rightarrow> 'h port_io \<Rightarrow> u8 \<Rightarrow> 'h \<Rightarrow> 'h res" where
  "serial_putc_raw fuel io = serial_send fuel io COM1"

fun serial_puts_raw :: "nat \<Rightarrow> 'h port_io \<Rightarrow> u8 list \<Rightarrow> 'h \<Rightarrow> 'h res" where
  "serial_puts_raw fuel io [] h = Inr h"
| "serial_puts_raw fuel io (c # s) h = rbind (serial_putc_raw fuel io c h) (serial_puts_raw fuel io s)"

section \<open>Numbers\<close>

text \<open>The array for the digits has 11 characters for 32 bits and 21 for 64.\<close>

definition to_dec :: "nat \<Rightarrow> 'a::len word \<Rightarrow> u8 list res" where
  "to_dec cap v = (if v = 0 then Inr [0x30] else rbind (digit_loop cap (\<lambda>v. 0x30 + ucast (v mod 10)) (\<lambda>v. v div 10) v []) (\<lambda>t. Inr (rev t)))"

definition u32_to_dec :: "u32 \<Rightarrow> u8 list res" where
  "u32_to_dec = to_dec 11"

definition u64_to_dec :: "u64 \<Rightarrow> u8 list res" where
  "u64_to_dec = to_dec 21"

definition hex_chars :: "bool \<Rightarrow> u8 list" where
  "hex_chars upper = (if upper then cstr ''0123456789ABCDEF'' else cstr ''0123456789abcdef'')"

text \<open>\<open>for (i = 0; i < n; i++) { t[n-1-i] = H[v & 0xF]; v >>= 4; }\<close>\<close>

fun hex_loop :: "nat \<Rightarrow> bool \<Rightarrow> 'a::len word \<Rightarrow> u8 list \<Rightarrow> u8 list" where
  "hex_loop 0 upper v t = t"
| "hex_loop (Suc n) upper v t = hex_loop n upper (drop_bit 4 v) (hex_chars upper ! unat (v AND 0xF) # t)"

definition u32_to_hex :: "u32 \<Rightarrow> nat \<Rightarrow> bool \<Rightarrow> u8 list" where
  "u32_to_hex v width upper = drop (8 - width) (hex_loop 8 upper v [])"

definition u64_to_hex :: "u64 \<Rightarrow> nat \<Rightarrow> bool \<Rightarrow> u8 list" where
  "u64_to_hex v width upper = drop (16 - width) (hex_loop 16 upper v [])"

section \<open>Formatted output\<close>

text \<open>The variable arguments, with the types they are passed as. A conversion with no argument, or with one of another size,
  is undefined.\<close>

datatype print_arg = P_int u32 | P_long u64 | P_str "u8 list option"

datatype len_mod = L_int | L_long | L_llong | L_size

text \<open>\<open>*p\<close>: behind the last character is the terminating zero.\<close>

definition pk :: "u8 list \<Rightarrow> u8" where
  "pk s = (case s of [] \<Rightarrow> 0 | c # _ \<Rightarrow> c)"

fun width_loop :: "int \<Rightarrow> u8 list \<Rightarrow> (int \<times> u8 list) res" where
  "width_loop w [] = Inr (w, [])"
| "width_loop w (c # s) =
     (if 0x30 \<le> c \<and> c \<le> 0x39 then rbind (i32 (w * 10)) (\<lambda>a. rbind (i32 (a + (uint c - 0x30))) (\<lambda>b. width_loop b s)) else Inr (w, c # s))"

definition len_modifier :: "u8 list \<Rightarrow> len_mod \<times> u8 list" where
  "len_modifier s =
     (if pk s = 0x6C then (if pk (tl s) = 0x6C then (L_llong, tl (tl s)) else (L_long, tl s))
      else if pk s = 0x7A then (L_size, tl s) else (L_int, s))"

text \<open>\<open>va_arg\<close> as an unsigned and as a signed number.\<close>

fun arg_unsigned :: "len_mod \<Rightarrow> print_arg list \<Rightarrow> (u64 \<times> print_arg list) res" where
  "arg_unsigned L_int (P_int v # r) = Inr (ucast v, r)"
| "arg_unsigned L_long (P_long v # r) = Inr (v, r)"
| "arg_unsigned L_llong (P_long v # r) = Inr (v, r)"
| "arg_unsigned L_size (P_long v # r) = Inr (v, r)"
| "arg_unsigned lm args = Inl BadRead"

fun arg_signed :: "len_mod \<Rightarrow> print_arg list \<Rightarrow> (u64 \<times> print_arg list) res" where
  "arg_signed L_int (P_int v # r) = Inr (scast v, r)"
| "arg_signed lm args = arg_unsigned lm args"

fun arg_char :: "print_arg list \<Rightarrow> (u8 \<times> print_arg list) res" where
  "arg_char (P_int v # r) = Inr (ucast v, r)"
| "arg_char args = Inl BadRead"

fun arg_str :: "print_arg list \<Rightarrow> (u8 list \<times> print_arg list) res" where
  "arg_str (P_str s # r) = Inr (case s of None \<Rightarrow> cstr ''(null)'' | Some t \<Rightarrow> t, r)"
| "arg_str args = Inl BadRead"

text \<open>\<open>for (i = len; i < width; i++) serial_putc(COM1, pad);\<close> and the digits.\<close>

definition padded :: "u8 \<Rightarrow> int \<Rightarrow> u8 list \<Rightarrow> u8 list" where
  "padded pad width ds = replicate (nat (width - int (length ds))) pad @ ds"

text \<open>The characters that one conversion prints, and the arguments it leaves.\<close>

definition print_conv :: "bool \<Rightarrow> int \<Rightarrow> len_mod \<Rightarrow> u8 \<Rightarrow> print_arg list \<Rightarrow> (u8 list \<times> print_arg list) res" where
  "print_conv zero_pad width lm f args =
     (let pad = (if zero_pad then 0x30 else 0x20) in
      if f = 0x63 then rbind (arg_char args) (\<lambda>(c, r). Inr ([c], r))
      else if f = 0x73 then arg_str args
      else if f = 0x75 then rbind (arg_unsigned lm args) (\<lambda>(v, r). rbind (u64_to_dec v) (\<lambda>ds. Inr (padded pad width ds, r)))
      else if f = 0x78 \<or> f = 0x58 then rbind (arg_unsigned lm args) (\<lambda>(v, r).
        let w = (if width = 0 then (if lm \<noteq> L_int then 16 else 8) else width) in
        Inr (padded 0x30 w (u64_to_hex v (nat w) (f = 0x58)), r))
      else if f = 0x70 then rbind (arg_unsigned L_long args) (\<lambda>(v, r).
        let w = (if width = 0 then 16 else width) in Inr (padded 0x30 w (u64_to_hex v (nat w) False), r))
      else if f = 0x64 then rbind (arg_signed lm args) (\<lambda>(v, r).
        if v = 0x8000000000000000 then Inl Overflow
        else let neg = sint v < 0 in
        rbind (u64_to_dec (if neg then - v else v)) (\<lambda>ds. Inr ((if neg then [MINUS] else []) @ padded pad width ds, r)))
      else if f = PERCENT then Inr ([PERCENT], args)
      else Inr ([PERCENT, f], args))"

lemma width_loop_length: "width_loop w s = Inr (w', s') \<Longrightarrow> length s' \<le> length s"
  by (induction w s rule: width_loop.induct) (fastforce simp: res_simps split: if_splits)+

lemma len_modifier_length: "length (snd (len_modifier s)) \<le> length s"
  by (auto simp: len_modifier_def)

text \<open>The loop over the format. A format that ends inside a conversion: the loop steps over the terminating zero.\<close>

function printf_loop :: "nat \<Rightarrow> 'h port_io \<Rightarrow> u8 list \<Rightarrow> print_arg list \<Rightarrow> 'h \<Rightarrow> 'h res" where
  "printf_loop fuel io [] args h = Inr h"
| "printf_loop fuel io (c # s) args h =
     (if c \<noteq> PERCENT then rbind (serial_putc fuel io COM1 c h) (printf_loop fuel io s args)
      else rbind (width_loop 0 (if pk s = 0x30 then tl s else s)) (\<lambda>(width, s2).
          case len_modifier s2 of (lm, []) \<Rightarrow> Inl BadRead
          | (lm, f # s3) \<Rightarrow> rbind (print_conv (pk s = 0x30) width lm f args) (\<lambda>(out, args').
              rbind (serial_puts fuel io COM1 out h) (printf_loop fuel io s3 args'))))"
  by pat_completeness auto
termination
proof (relation "measure (\<lambda>(fuel, io, s, args, h). length s)", goal_cases)
  case (3 fuel io c s args h x width s2 y lm l f s3)
  then have "length s2 \<le> length s" using width_loop_length [of 0 "if pk s = 0x30 then tl s else s" width s2] by (auto split: if_splits)
  moreover have "len_modifier s2 = (y, l # f)" using 3 by simp
  ultimately show ?case using len_modifier_length [of s2] by simp
qed auto

definition serial_printf :: "nat \<Rightarrow> 'h port_io \<Rightarrow> u8 list \<Rightarrow> print_arg list \<Rightarrow> 'h \<Rightarrow> 'h res" where
  "serial_printf = printf_loop"

section \<open>What is sent\<close>

text \<open>A line feed goes out behind a carriage return.\<close>

definition crlf :: "u8 list \<Rightarrow> u8 list" where
  "crlf s = concat (map (\<lambda>c. if c = LF then [CR, LF] else [c]) s)"

lemma crlf_append: "crlf (s @ t) = crlf s @ crlf t"
  by (simp add: crlf_def)

fun tx_ready_after :: "nat \<Rightarrow> 'h port_io \<Rightarrow> u16 \<Rightarrow> 'h \<Rightarrow> bool" where
  "tx_ready_after 0 io p h \<longleftrightarrow> fst (io_inb io h (p + 5)) AND 0x20 \<noteq> 0"
| "tx_ready_after (Suc n) io p h \<longleftrightarrow> tx_ready_after n io p (snd (io_inb io h (p + 5)))"

text \<open>The transmitter of a 16550 at port \<open>p\<close>. Of its state only this matters: the bytes sent, whether the divisor latch is
  selected (bit 7 of the line control register), the divisor, and whether the holding register is empty.\<close>

locale uart =
  fixes io :: "'h port_io" and p :: u16 and polls :: nat
    and sent :: "'h \<Rightarrow> u8 list" and dlab :: "'h \<Rightarrow> bool" and divisor :: "'h \<Rightarrow> u8 \<times> u8" and thr_empty :: "'h \<Rightarrow> bool"
  assumes status_frame: "io_inb io h (p + 5) = (st, h') \<Longrightarrow> sent h' = sent h \<and> dlab h' = dlab h \<and> divisor h' = divisor h"
    and status_bit: "io_inb io h (p + 5) = (st, h') \<Longrightarrow> st AND 0x20 \<noteq> 0 \<Longrightarrow> thr_empty h'"
    and drains: "\<exists>n<polls. tx_ready_after n io p h"
    and transmit: "\<not> dlab h \<Longrightarrow> thr_empty h \<Longrightarrow> sent (io_outb io h p v) = sent h @ [v] \<and> \<not> dlab (io_outb io h p v) \<and> divisor (io_outb io h p v) = divisor h"
    and latch_low: "dlab h \<Longrightarrow> sent (io_outb io h p v) = sent h \<and> dlab (io_outb io h p v) \<and> divisor (io_outb io h p v) = (v, snd (divisor h))"
    and line_control: "sent (io_outb io h (p + 3) v) = sent h \<and> dlab (io_outb io h (p + 3) v) = (v AND 0x80 \<noteq> 0) \<and> divisor (io_outb io h (p + 3) v) = divisor h"
    and second: "sent (io_outb io h (p + 1) v) = sent h \<and> dlab (io_outb io h (p + 1) v) = dlab h \<and>
      divisor (io_outb io h (p + 1) v) = (if dlab h then (fst (divisor h), v) else divisor h)"
    and other: "r = 2 \<or> r = 4 \<Longrightarrow> sent (io_outb io h (p + r) v) = sent h \<and> dlab (io_outb io h (p + r) v) = dlab h \<and> divisor (io_outb io h (p + r) v) = divisor h"
begin

lemma wait_returns:
  assumes "n < fuel" and "tx_ready_after n io p h"
  shows "\<exists>h'. serial_wait_tx fuel io p h = Inr h' \<and> sent h' = sent h \<and> dlab h' = dlab h \<and> divisor h' = divisor h \<and> thr_empty h'"
  using assms
proof (induction fuel arbitrary: n h)
  case (Suc fuel)
  obtain st h1 where i: "io_inb io h (p + 5) = (st, h1)" by (cases "io_inb io h (p + 5)")
  note f = status_frame [OF i] status_bit [OF i]
  show ?case
  proof (cases "st AND 0x20 = 0")
    case True
    with Suc.prems(2) i obtain k where "n = Suc k" "tx_ready_after k io p h1" by (cases n) auto
    with Suc.IH [of k h1] Suc.prems(1) True i f show ?thesis by auto
  qed (use i f in simp)
qed simp

lemma send_sends:
  assumes "\<not> dlab h"
  shows "\<exists>h'. serial_send polls io p c h = Inr h' \<and> sent h' = sent h @ [c] \<and> \<not> dlab h' \<and> divisor h' = divisor h"
proof -
  from drains wait_returns obtain h1 where "serial_wait_tx polls io p h = Inr h1" "sent h1 = sent h" "dlab h1 = dlab h" "divisor h1 = divisor h" "thr_empty h1"
    by metis
  with transmit [of h1 c] assms show ?thesis by (simp add: serial_send_def)
qed

lemma puts_sends:
  assumes "\<not> dlab h"
  shows "\<exists>h'. serial_puts polls io p s h = Inr h' \<and> sent h' = sent h @ crlf s \<and> \<not> dlab h' \<and> divisor h' = divisor h"
  using assms
proof (induction s arbitrary: h)
  case (Cons c s)
  have "\<exists>h1. serial_putc polls io p c h = Inr h1 \<and> sent h1 = sent h @ crlf [c] \<and> \<not> dlab h1 \<and> divisor h1 = divisor h"
  proof (cases "c = LF")
    case True
    from send_sends [OF Cons.prems, of CR] obtain h0 where h0: "serial_send polls io p CR h = Inr h0" "sent h0 = sent h @ [CR]" "\<not> dlab h0" "divisor h0 = divisor h" by blast
    from send_sends [OF h0(3), of LF] h0 True show ?thesis by (auto simp: serial_putc_def crlf_def)
  qed (use send_sends [OF Cons.prems, of c] in \<open>auto simp: serial_putc_def crlf_def\<close>)
  then obtain h1 where h1: "serial_putc polls io p c h = Inr h1" "sent h1 = sent h @ crlf [c]" "\<not> dlab h1" "divisor h1 = divisor h" by blast
  from Cons.IH [OF h1(3)] h1 show ?case by (auto simp: crlf_def)
qed (simp add: crlf_def)

text \<open>The set-up leaves the transmitter usable, at 115200 / 3 baud, and has sent nothing.\<close>

lemma init_ready: "\<not> dlab (serial_init io p h) \<and> divisor (serial_init io p h) = (3, 0) \<and> sent (serial_init io p h) = sent h"
  by (simp add: serial_init_def other line_control second latch_low)

end

section \<open>What the numbers denote\<close>

interpretation dec64: positional 21 "\<lambda>v :: u64. 0x30 + ucast (v mod 10)" "\<lambda>v. v div 10" 10 dec_val
proof
  fix v :: u64
  show "dec_val (0x30 + ucast (v mod 10)) = unat v mod 10"
    by (simp add: dec_val_def unsigned_ucast_eq unat_mod take_bit_nat_eq_self)
qed (simp_all add: unat_div)

lemma dec_digit_range: "0x30 + ucast (w mod 10) \<in> {0x30 :: u8..0x39}" for w :: u64
proof -
  have "unat (ucast (w mod 10) :: u8) = unat w mod 10"
    by (simp add: unsigned_ucast_eq unat_mod take_bit_nat_eq_self)
  then have "unat (0x30 + ucast (w mod 10) :: u8) = 48 + unat w mod 10"
    by (subst unat_add_lem [THEN iffD1]) simp_all
  then show ?thesis by (simp add: word_le_nat_alt)
qed

lemma u64_to_dec_prints: "\<exists>ds. u64_to_dec v = Inr ds \<and> decimal (unat v) ds"
proof (cases "v = 0")
  case True
  then show ?thesis by (simp add: u64_to_dec_def to_dec_def decimal_def number_of_def dec_val_def)
next
  case False
  obtain t where "digit_loop 21 (\<lambda>v. 0x30 + ucast (v mod 10)) (\<lambda>v. v div 10) v [] = Inr t"
    "number_of 10 dec_val (rev t) = unat v" "t \<noteq> []" "dec_val (hd (rev t)) \<noteq> 0"
    "set t \<subseteq> range (\<lambda>v :: u64. 0x30 + ucast (v mod 10))" "length t \<le> 21" by (rule dec64.printed [OF False])
  moreover have "set (rev t) \<subseteq> {0x30..0x39}" using calculation(5) dec_digit_range by auto
  ultimately show ?thesis using False by (auto simp: u64_to_dec_def to_dec_def decimal_def)
qed

definition digit_val :: "u8 \<Rightarrow> nat" where
  "digit_val c = (if c \<le> 0x39 then unat (c - 0x30) else if c \<le> 0x46 then unat (c - 0x37) else unat (c - 0x57))"

lemma hex_chars_value: "k < 16 \<Longrightarrow> digit_val (hex_chars up ! k) = k"
proof -
  assume "k < 16"
  then have "k \<in> set [0..<16]" by simp
  moreover have "\<forall>up\<in>{True, False}. \<forall>k\<in>set [0..<16]. digit_val (hex_chars up ! k) = k" by code_simp
  ultimately show ?thesis by (cases up) blast+
qed

lemma hex_chars_length [simp]: "length (hex_chars up) = 16"
  by (simp add: hex_chars_def cstr_def)

lemma number_of_append: "number_of b d (xs @ ys) = number_of b d xs * b ^ length ys + number_of b d ys"
proof (induction ys rule: rev_induct)
  case (snoc y ys)
  have s: "number_of b d (zs @ [y]) = b * number_of b d zs + d y" for zs by (simp add: number_of_def)
  have "number_of b d (xs @ ys @ [y]) = b * number_of b d (xs @ ys) + d y" using s [of "xs @ ys"] by simp
  then show ?case by (simp only: s snoc) (simp add: distrib_left)
qed (simp add: number_of_def)

lemma hex_loop_value:
  "\<exists>ds. hex_loop n up (v :: u64) t = ds @ t \<and> length ds = n \<and> number_of 16 digit_val ds = unat v mod 16 ^ n \<and> set ds \<subseteq> set (hex_chars up)"
proof (induction n arbitrary: v t)
  case (Suc n)
  let ?k = "unat (v AND 0xF)"
  have "v AND 0xF = take_bit 4 v" by (simp add: take_bit_eq_mask mask_numeral)
  then have k: "?k = unat v mod 16" by (simp add: unsigned_take_bit_eq take_bit_nat_def)
  from Suc.IH [of "drop_bit 4 v" "hex_chars up ! ?k # t"] obtain ds where ds: "hex_loop (Suc n) up v t = ds @ hex_chars up ! ?k # t" "length ds = n"
      "number_of 16 digit_val ds = unat v div 16 mod 16 ^ n" "set ds \<subseteq> set (hex_chars up)"
    by (auto simp: unat_drop_bit_eq drop_bit_nat_def)
  have "number_of 16 digit_val (ds @ [hex_chars up ! ?k]) = unat v mod 16 ^ Suc n"
    using ds(3) by (simp add: number_of_append) (simp add: number_of_def k hex_chars_value mod_mult2_eq)
  moreover have "hex_chars up ! ?k \<in> set (hex_chars up)" by (rule nth_mem) (simp add: k)
  ultimately show ?case using ds by (intro exI [of _ "ds @ [hex_chars up ! ?k]"]) simp
qed (simp add: number_of_def)

lemma hex_loop_add: "hex_loop (a + b) up v t = hex_loop b up (drop_bit (4 * a) v) (hex_loop a up v t)"
  by (induction a arbitrary: v t) (simp_all add: add.commute)

lemma u64_to_hex_digits:
  assumes "0 < w"
  obtains ds where "u64_to_hex v w up = ds" "length ds = min w 16" "number_of 16 digit_val ds = unat v mod 16 ^ w" "set ds \<subseteq> set (hex_chars up)"
proof (cases "w \<le> 16")
  case True
  from hex_loop_value [of "16 - w" up "drop_bit (4 * w) v" "hex_loop w up v []"] True hex_loop_add [of w "16 - w" up v "[]"]
  obtain cs where "hex_loop 16 up v [] = cs @ hex_loop w up v []" "length cs = 16 - w" by auto
  then have "u64_to_hex v w up = hex_loop w up v []" by (simp add: u64_to_hex_def)
  with hex_loop_value [of w up v "[]"] True that show ?thesis by auto
next
  case False
  have "unat v < 16 ^ 16" using unat_bound [of v] by simp
  also have "(16 :: nat) ^ 16 \<le> 16 ^ w" using False by (intro power_increasing) simp_all
  finally have "unat v mod 16 ^ w = unat v mod 16 ^ 16" using unat_bound [of v] by simp
  with hex_loop_value [of 16 up v "[]"] False that show ?thesis by (auto simp: u64_to_hex_def)
qed

lemma padded_hex:
  assumes "0 < w"
  shows "length (padded 0x30 (int w) (u64_to_hex v w up)) = w \<and> number_of 16 digit_val (padded 0x30 (int w) (u64_to_hex v w up)) = unat v mod 16 ^ w \<and>
    set (padded 0x30 (int w) (u64_to_hex v w up)) \<subseteq> set (hex_chars up)"
proof -
  from assms obtain ds where ds: "u64_to_hex v w up = ds" "length ds = min w 16" "number_of 16 digit_val ds = unat v mod 16 ^ w" "set ds \<subseteq> set (hex_chars up)"
    by (rule u64_to_hex_digits)
  have z: "number_of 16 digit_val (replicate k 0x30) = 0" for k by (induction k) (simp_all add: number_of_def digit_val_def flip: replicate_append_same)
  have "0x30 \<in> set (hex_chars up)" by (simp add: hex_chars_def cstr_def)
  with ds show ?thesis by (auto simp: padded_def number_of_append z nat_diff_distrib)
qed

section \<open>Formats\<close>

text \<open>What a format means: plain characters and conversions with their flags, width and argument. The width is given by
  its decimal digits.\<close>

datatype num_conv = C_unsigned | C_signed | C_hex bool | C_ptr

datatype print_piece = Q_lit u8 | Q_percent | Q_char u32 | Q_str "u8 list option" | Q_num num_conv bool "u8 list" len_mod print_arg

fun lm_fmt :: "len_mod \<Rightarrow> u8 list" where
  "lm_fmt L_int = []"
| "lm_fmt L_long = [0x6C]"
| "lm_fmt L_llong = [0x6C, 0x6C]"
| "lm_fmt L_size = [0x7A]"

fun conv_char :: "num_conv \<Rightarrow> u8" where
  "conv_char C_unsigned = 0x75"
| "conv_char C_signed = 0x64"
| "conv_char (C_hex up) = (if up then 0x58 else 0x78)"
| "conv_char C_ptr = 0x70"

fun q_fmt :: "print_piece \<Rightarrow> u8 list" where
  "q_fmt (Q_lit c) = [c]"
| "q_fmt Q_percent = [PERCENT, PERCENT]"
| "q_fmt (Q_char v) = [PERCENT, 0x63]"
| "q_fmt (Q_str s) = [PERCENT, 0x73]"
| "q_fmt (Q_num cv z ws lm a) = PERCENT # (if z then [0x30] else []) @ ws @ lm_fmt lm @ [conv_char cv]"

fun q_args :: "print_piece \<Rightarrow> print_arg list" where
  "q_args (Q_char v) = [P_int v]"
| "q_args (Q_str s) = [P_str s]"
| "q_args (Q_num cv z ws lm a) = [a]"
| "q_args _ = []"

text \<open>The value of an argument, unsigned and signed.\<close>

fun uval :: "print_arg \<Rightarrow> nat" where
  "uval (P_int v) = unat v"
| "uval (P_long v) = unat v"
| "uval (P_str s) = 0"

fun sval :: "print_arg \<Rightarrow> int" where
  "sval (P_int v) = sint v"
| "sval (P_long v) = sint v"
| "sval (P_str s) = 0"

fun arg_fits :: "num_conv \<Rightarrow> len_mod \<Rightarrow> print_arg \<Rightarrow> bool" where
  "arg_fits cv lm (P_int v) \<longleftrightarrow> lm = L_int \<and> cv \<noteq> C_ptr"
| "arg_fits cv lm (P_long v) \<longleftrightarrow> (lm \<noteq> L_int \<or> cv = C_ptr) \<and> (cv = C_signed \<longrightarrow> v \<noteq> 0x8000000000000000)"
| "arg_fits cv lm (P_str s) \<longleftrightarrow> False"

abbreviation width_of :: "u8 list \<Rightarrow> nat" where "width_of ws \<equiv> number_of 10 dec_val ws"

fun q_ok :: "print_piece \<Rightarrow> bool" where
  "q_ok (Q_lit c) \<longleftrightarrow> c \<noteq> PERCENT"
| "q_ok (Q_num cv z ws lm a) \<longleftrightarrow>
     set ws \<subseteq> {0x30..0x39} \<and> (\<not> z \<longrightarrow> pk ws \<noteq> 0x30) \<and> width_of ws < 2 ^ 31 \<and> arg_fits cv lm a"
| "q_ok _ \<longleftrightarrow> True"

text \<open>The text of a piece. Numbers in base 16 are cut to the width when they have more digits.\<close>

definition hex_text :: "nat \<Rightarrow> bool \<Rightarrow> nat \<Rightarrow> u8 list \<Rightarrow> bool" where
  "hex_text w up n out \<longleftrightarrow> length out = w \<and> number_of 16 digit_val out = n mod 16 ^ w \<and> set out \<subseteq> set (hex_chars up)"

fun num_text :: "num_conv \<Rightarrow> bool \<Rightarrow> nat \<Rightarrow> len_mod \<Rightarrow> print_arg \<Rightarrow> u8 list \<Rightarrow> bool" where
  "num_text C_unsigned z w lm a out \<longleftrightarrow>
     (\<exists>ds. decimal (uval a) ds \<and> out = replicate (w - length ds) (if z then 0x30 else 0x20) @ ds)"
| "num_text C_signed z w lm a out \<longleftrightarrow>
     (\<exists>ds. decimal (nat \<bar>sval a\<bar>) ds \<and> out = (if sval a < 0 then [MINUS] else []) @ replicate (w - length ds) (if z then 0x30 else 0x20) @ ds)"
| "num_text (C_hex up) z w lm a out \<longleftrightarrow> hex_text (if w = 0 then (if lm = L_int then 8 else 16) else w) up (uval a) out"
| "num_text C_ptr z w lm a out \<longleftrightarrow> hex_text (if w = 0 then 16 else w) False (uval a) out"

fun q_text :: "print_piece \<Rightarrow> u8 list \<Rightarrow> bool" where
  "q_text (Q_lit c) out \<longleftrightarrow> out = [c]"
| "q_text Q_percent out \<longleftrightarrow> out = [PERCENT]"
| "q_text (Q_char v) out \<longleftrightarrow> out = [ucast v]"
| "q_text (Q_str s) out \<longleftrightarrow> out = (case s of None \<Rightarrow> cstr ''(null)'' | Some t \<Rightarrow> t)"
| "q_text (Q_num cv z ws lm a) out \<longleftrightarrow> num_text cv z (width_of ws) lm a out"

lemma padded_nat: "padded c (int w) ds = replicate (w - length ds) c @ ds"
  by (simp add: padded_def flip: of_nat_diff)

lemma hex_text_padded: "0 < w \<Longrightarrow> hex_text w up (unat v) (padded 0x30 (int w) (u64_to_hex v w up))"
  using padded_hex [of w v up] by (simp add: hex_text_def)

lemma arg_unsigned_fits:
  assumes "arg_fits cv lm a"
  obtains v where "arg_unsigned (if cv = C_ptr then L_long else lm) (a # r) = Inr (v, r)" "unat v = uval a"
proof (cases a)
  case (P_int v)
  with assms that [of "ucast v"] show ?thesis by (simp add: unat_ucast_up)
next
  case (P_long v)
  with assms that [of v] show ?thesis by (cases lm) auto
qed (use assms in simp)

lemma arg_signed_fits:
  assumes "arg_fits C_signed lm a"
  obtains v where "arg_signed lm (a # r) = Inr (v, r)" "sint v = sval a" "v \<noteq> 0x8000000000000000"
proof (cases a)
  case (P_int v)
  have s: "sint (scast v :: u64) = sint v"
    using sint_less [of v] sint_greater_eq [of v] by (simp add: signed_scast_eq signed_take_bit_int_eq_self_iff)
  moreover have "scast v \<noteq> (0x8000000000000000 :: u64)"
  proof
    assume "scast v = (0x8000000000000000 :: u64)"
    then have "sint v = sint (0x8000000000000000 :: u64)" using s by simp
    moreover have "- (2 ^ 31) \<le> sint v" using sint_greater_eq [of v] by simp
    ultimately show False by simp
  qed
  ultimately show ?thesis using assms P_int that [of "scast v"] by simp
next
  case (P_long v)
  with assms that [of v] show ?thesis by (cases lm) auto
qed (use assms in simp)

lemma minus_abs:
  assumes "v \<noteq> (0x8000000000000000 :: u64)"
  shows "unat (if sint v < 0 then - v else v) = nat \<bar>sint v\<bar>"
proof (cases "sint v < 0")
  case True
  have "sint v \<noteq> - (2 ^ 63)"
  proof
    assume "sint v = - (2 ^ 63)"
    then have "sint v = sint (0x8000000000000000 :: u64)" by simp
    then have "v = 0x8000000000000000" by (rule signed_word_eqI)
    with assms show False by simp
  qed
  then have r: "- (2 ^ 63) < sint v" using sint_greater_eq [of v] by simp
  have "- v = word_of_int (- sint v)" by simp
  then have "uint (- v) = - sint v" using True r by (simp add: uint_word_of_int del: of_int_minus)
  then show ?thesis using True by (simp add: nat_uint_eq [symmetric])
next
  case False
  then have "sint v = uint v" using sint_less [of v] by (simp add: uint_sint take_bit_int_eq_self)
  then show ?thesis using False by simp
qed

lemma print_conv_num:
  assumes "arg_fits cv lm a"
  shows "\<exists>out. print_conv z (int w) lm (conv_char cv) (a # r) = Inr (out, r) \<and> num_text cv z w lm a out"
proof (cases "cv = C_signed")
  case True
  from assms True obtain v where v: "arg_signed lm (a # r) = Inr (v, r)" "sint v = sval a" "v \<noteq> 0x8000000000000000"
    using arg_signed_fits [of lm a r] by auto
  from u64_to_dec_prints [of "if sint v < 0 then - v else v"] minus_abs [OF v(3)] obtain ds where
    ds: "u64_to_dec (if sint v < 0 then - v else v) = Inr ds" "decimal (nat \<bar>sint v\<bar>) ds" by auto
  with v True show ?thesis by (auto simp: print_conv_def Let_def padded_nat)
next
  case False
  from assms obtain v where v: "arg_unsigned (if cv = C_ptr then L_long else lm) (a # r) = Inr (v, r)" "unat v = uval a"
    by (rule arg_unsigned_fits [of cv lm a r])
  show ?thesis
  proof (cases cv)
    case C_unsigned
    from u64_to_dec_prints [of v] obtain ds where "u64_to_dec v = Inr ds" "decimal (unat v) ds" by blast
    with v C_unsigned show ?thesis by (auto simp: print_conv_def Let_def padded_nat)
  next
    case (C_hex up)
    define n where "n = (if w = 0 then (if lm = L_int then 8 else 16) else w)"
    have "0 < n" by (simp add: n_def)
    with hex_text_padded [of n up v] v C_hex show ?thesis
      by (auto simp: print_conv_def Let_def n_def split: if_splits)
  next
    case C_ptr
    define n where "n = (if w = 0 then 16 else w)"
    have "0 < n" by (simp add: n_def)
    with hex_text_padded [of n False v] v C_ptr show ?thesis
      by (auto simp: print_conv_def Let_def n_def split: if_splits)
  qed (use False in simp)
qed

lemma foldl_ge: "n \<le> foldl (\<lambda>n d. 10 * n + f d) (n :: nat) ws"
proof (induction ws arbitrary: n)
  case (Cons w ws)
  have "n \<le> 10 * n + f w" by simp
  also have "\<dots> \<le> foldl (\<lambda>n d. 10 * n + f d) (10 * n + f w) ws" by (rule Cons)
  finally show ?case by simp
qed simp

lemma width_loop_digits:
  assumes "set ws \<subseteq> {0x30..0x39}" and "foldl (\<lambda>n d. 10 * n + dec_val d) n ws < 2 ^ 31" and "rest \<noteq> []" and "hd rest \<notin> {0x30..0x39}"
  shows "width_loop (int n) (ws @ rest) = Inr (int (foldl (\<lambda>n d. 10 * n + dec_val d) n ws), rest)"
  using assms(1,2)
proof (induction ws arbitrary: n)
  case Nil
  from assms(3,4) show ?case by (cases rest) auto
next
  case (Cons c ws)
  have c: "0x30 \<le> c" "c \<le> 0x39" using Cons.prems(1) by simp_all
  then have d: "int (dec_val c) = uint c - 0x30" by (simp add: dec_val_def unat_sub word_le_nat_alt of_nat_diff)
  have le: "10 * n + dec_val c < 2 ^ 31" using Cons.prems(2) foldl_ge [of "10 * n + dec_val c" dec_val ws] by simp
  have "i32 (int n * 10) = Inr (int n * 10)" "i32 (int n * 10 + (uint c - 0x30)) = Inr (int (10 * n + dec_val c))"
    using le by (auto simp: i32_def simp flip: d)
  moreover have "width_loop (int (10 * n + dec_val c)) (ws @ rest) = Inr (int (foldl (\<lambda>n d. 10 * n + dec_val d) (10 * n + dec_val c) ws), rest)"
    by (rule Cons.IH) (use Cons.prems in auto)
  ultimately show ?case using c by simp
qed

lemma len_modifier_fmt: "len_modifier (lm_fmt lm @ conv_char cv # s) = (lm, conv_char cv # s)"
  by (cases lm; cases cv) (auto simp: len_modifier_def pk_def)

lemma rest_head: "hd (lm_fmt lm @ conv_char cv # s) \<notin> {0x30..0x39}"
  by (cases lm; cases cv) (auto simp: word_le_nat_alt)

lemma printf_num:
  assumes "q_ok (Q_num cv z ws lm a)"
  shows "\<exists>out. num_text cv z (width_of ws) lm a out \<and>
    printf_loop fuel io (q_fmt (Q_num cv z ws lm a) @ s) (a # r) h = rbind (serial_puts fuel io COM1 out h) (printf_loop fuel io s r)"
proof -
  let ?rest = "lm_fmt lm @ conv_char cv # s"
  have w: "width_loop 0 (ws @ ?rest) = Inr (int (width_of ws), ?rest)"
    using width_loop_digits [of ws 0 ?rest] assms rest_head [of lm cv s] by (simp add: number_of_def)
  have h: "pk (ws @ ?rest) \<noteq> 0x30" if "\<not> z" using assms that rest_head [of lm cv s] by (cases ws) (auto simp: pk_def split: list.splits)
  from print_conv_num [of cv lm a z "width_of ws" r] assms obtain out where
    out: "print_conv z (int (width_of ws)) lm (conv_char cv) (a # r) = Inr (out, r)" "num_text cv z (width_of ws) lm a out" by auto
  have "printf_loop fuel io (q_fmt (Q_num cv z ws lm a) @ s) (a # r) h = rbind (serial_puts fuel io COM1 out h) (printf_loop fuel io s r)"
    using w h out(1) by (cases z) (simp_all add: pk_def [of "0x30 # _"] len_modifier_fmt)
  with out(2) show ?thesis by blast
qed

lemma printf_piece:
  assumes "q_ok q"
  shows "\<exists>out. q_text q out \<and>
    printf_loop fuel io (q_fmt q @ s) (q_args q @ r) h = rbind (serial_puts fuel io COM1 out h) (printf_loop fuel io s r)"
proof (cases q)
  case (Q_num cv z ws lm a)
  with printf_num [of cv z ws lm a fuel io s r h] assms show ?thesis by auto
qed (use assms in \<open>simp_all add: pk_def print_conv_def len_modifier_def rbind_assoc\<close>)

context uart
begin

lemma printf_sends:
  assumes "p = COM1" and "\<forall>q\<in>set ps. q_ok q" and "\<not> dlab h"
  shows "\<exists>h' outs. printf_loop polls io (concat (map q_fmt ps)) (concat (map q_args ps)) h = Inr h' \<and>
    list_all2 q_text ps outs \<and> sent h' = sent h @ crlf (concat outs) \<and> \<not> dlab h'"
  using assms(2,3)
proof (induction ps arbitrary: h)
  case Nil
  then show ?case by (simp add: crlf_def)
next
  case (Cons q ps)
  from printf_piece [of q polls io "concat (map q_fmt ps)" "concat (map q_args ps)" h] Cons.prems(1) obtain out where
    out: "q_text q out" "printf_loop polls io (concat (map q_fmt (q # ps))) (concat (map q_args (q # ps))) h =
      rbind (serial_puts polls io COM1 out h) (printf_loop polls io (concat (map q_fmt ps)) (concat (map q_args ps)))" by auto
  from puts_sends [OF Cons.prems(2), of out] assms(1) obtain h1 where h1: "serial_puts polls io COM1 out h = Inr h1" "sent h1 = sent h @ crlf out" "\<not> dlab h1" by auto
  from Cons.IH [OF _ h1(3)] Cons.prems(1) obtain h' outs where
    r: "printf_loop polls io (concat (map q_fmt ps)) (concat (map q_args ps)) h1 = Inr h'" "list_all2 q_text ps outs"
      "sent h' = sent h1 @ crlf (concat outs)" "\<not> dlab h'" by auto
  show ?case unfolding out(2) using out(1) h1 r by (intro exI [of _ h'] exI [of _ "out # outs"]) (simp add: crlf_append)
qed

end

section \<open>The messages of the kernel\<close>

text \<open>C24: The set-up of the serial line and then a call of \<open>serial_printf\<close> with any well-formed format return when the chip
  drains its holding register, and what went out since is exactly the text of the pieces, each line feed behind a carriage
  return: strings and characters as they are, decimal numbers padded on the left, and hexadecimal numbers with exactly as
  many digits as the width says.\<close>

theorem serial_printf_sends:
  assumes "uart io COM1 polls sent dlab divisor thr_empty" and "\<forall>q\<in>set ps. q_ok q"
  shows "\<exists>h' outs. serial_printf polls io (concat (map q_fmt ps)) (concat (map q_args ps)) (serial_init io COM1 h) = Inr h' \<and>
    list_all2 q_text ps outs \<and> sent h' = sent h @ crlf (concat outs)"
proof -
  note init = uart.init_ready [OF assms(1), of h]
  with uart.printf_sends [OF assms(1) refl assms(2), of "serial_init io COM1 h"] show ?thesis by (auto simp: serial_printf_def)
qed

text \<open>A chip whose holding register is full for one read of the line status behind every byte.\<close>

record demo_uart =
  du_sent :: "u8 list"
  du_dlab :: bool
  du_divisor :: "u8 \<times> u8"
  du_busy :: bool

definition demo_uart_io :: "demo_uart port_io" where
  "demo_uart_io =
     \<lparr>io_inb = (\<lambda>h r. if r = COM1 + 5 then (if du_busy h then 0 else 0x20, h\<lparr>du_busy := False\<rparr>) else (0, h)),
      io_outb = (\<lambda>h r v.
        if r = COM1 then (if du_dlab h then h\<lparr>du_divisor := (v, snd (du_divisor h))\<rparr>
                          else if du_busy h then h else h\<lparr>du_sent := du_sent h @ [v], du_busy := True\<rparr>)
        else if r = COM1 + 1 then (if du_dlab h then h\<lparr>du_divisor := (fst (du_divisor h), v)\<rparr> else h)
        else if r = COM1 + 3 then h\<lparr>du_dlab := v AND 0x80 \<noteq> 0\<rparr> else h),
      io_inw = (\<lambda>h r. (0, h)), io_outw = (\<lambda>h r v. h)\<rparr>"

interpretation demo_line: uart demo_uart_io COM1 2 du_sent du_dlab du_divisor "\<lambda>h. \<not> du_busy h"
proof
  fix h
  have "tx_ready_after 1 demo_uart_io COM1 h" by (simp add: demo_uart_io_def)
  then show "\<exists>n<2. tx_ready_after n demo_uart_io COM1 h" by (intro exI [of _ 1]) simp
qed (auto simp: demo_uart_io_def split: if_splits)

definition demo_line_start :: demo_uart where
  "demo_line_start = \<lparr>du_sent = [], du_dlab = True, du_divisor = (0, 0), du_busy = False\<rparr>"

theorem serial_printf_sends_witness:
  "\<exists>h' outs. serial_printf 2 demo_uart_io (cstr ''v=%d %04X'' @ [LF]) [P_int (- 5), P_int 0x12AB] (serial_init demo_uart_io COM1 demo_line_start) = Inr h' \<and>
     list_all2 q_text [Q_lit 0x76, Q_lit 0x3D, Q_num C_signed False [] L_int (P_int (- 5)), Q_lit 0x20, Q_num (C_hex True) True [0x34] L_int (P_int 0x12AB), Q_lit LF] outs \<and>
     du_sent h' = crlf (concat outs) \<and> du_sent h' = cstr ''v=-5 12AB'' @ [CR, LF]"
proof -
  let ?ps = "[Q_lit 0x76, Q_lit 0x3D, Q_num C_signed False [] L_int (P_int (- 5)), Q_lit 0x20, Q_num (C_hex True) True [0x34] L_int (P_int 0x12AB), Q_lit LF]"
  have ok: "\<forall>q\<in>set ?ps. q_ok q" by (simp add: pk_def number_of_def dec_val_def)
  have f: "concat (map q_fmt ?ps) = cstr ''v=%d %04X'' @ [LF]" by (simp add: cstr_def)
  have run: "map_sum id du_sent (serial_printf 2 demo_uart_io (cstr ''v=%d %04X'' @ [LF]) [P_int (- 5), P_int 0x12AB] (serial_init demo_uart_io COM1 demo_line_start)) =
    Inr (cstr ''v=-5 12AB'' @ [CR, LF])" by code_simp
  from serial_printf_sends [OF demo_line.uart_axioms ok, of demo_line_start] obtain h' outs where
    "serial_printf 2 demo_uart_io (cstr ''v=%d %04X'' @ [LF]) [P_int (- 5), P_int 0x12AB] (serial_init demo_uart_io COM1 demo_line_start) = Inr h'"
    "list_all2 q_text ?ps outs" "du_sent h' = crlf (concat outs)"
    unfolding f by (auto simp: demo_line_start_def)
  with run show ?thesis by (intro exI [of _ h'] exI [of _ outs]) simp
qed

text \<open>A width is the exact number of hexadecimal digits: larger numbers lose their upper digits, which \<open>printf\<close> never does.\<close>

lemma hex_width_truncates: "print_conv False 2 L_int 0x78 [P_int 0x12AB] = Inr (cstr ''ab'', [])"
  by code_simp

text \<open>A sign is printed before the padding with spaces.\<close>

lemma sign_before_spaces: "print_conv False 4 L_int 0x64 [P_int (- 5)] = Inr (cstr ''-   5'', [])"
  by code_simp

end
