(* ===== verification/Descriptors.thy ===== *)
theory Descriptors
  imports Serial
begin

text \<open>
  \<open>gdt.c\<close>, \<open>tss.c\<close>, \<open>df_tss.c\<close>, \<open>idt.c\<close>, \<open>idt_dummy.c\<close> and \<open>syscall.c\<close>: the tables the processor reads. The tables are records with
  the fields of the C structures; what the processor sees is their packed little-endian bytes, and the decoders below follow
  the layouts of the processor manual. The registers that the assembly helpers load are a record of their own. Addresses
  that the linker chooses (the tables, the stubs) are parameters.
\<close>

section \<open>Tables\<close>

record tss64 =
  reserved0 :: u32
  rsp0 :: u64
  rsp1 :: u64
  rsp2 :: u64
  reserved1 :: u64
  ists :: "u64 list"
  reserved2 :: u64
  reserved3 :: u16
  iopb_offset :: u16

record tss_descriptor =
  td_limit_low :: u16
  td_base_low :: u16
  td_base_mid1 :: u8
  td_type :: u8
  td_limit_high :: "4 word"
  td_flags :: "4 word"
  td_base_mid2 :: u8
  td_base_high :: u32
  td_reserved :: u32

record gdt_t =
  gdt_null :: u64
  gdt_code :: u64
  gdt_data :: u64
  gdt_tss_desc :: tss_descriptor

record idt_entry =
  offset_low :: u16
  selector :: u16
  ist :: u8
  type_attr :: u8
  offset_mid :: u16
  offset_high :: u32
  zero :: u32

text \<open>The registers of the processor: the two table registers as limit and base, and the segment registers.\<close>

record seg_cpu =
  cpu_gdtr :: "u16 \<times> u64"
  cpu_cs :: u16
  cpu_data :: u16
  cpu_tr :: u16
  cpu_idtr :: "u16 \<times> u64"

record tables =
  t_gdt :: gdt_t
  t_tss :: tss64
  t_gdtr :: "u16 \<times> u64"
  t_idt :: "idt_entry list"
  t_idtp :: "u16 \<times> u64"
  t_cpu :: seg_cpu

text \<open>The packed structures as bytes.\<close>

definition tss_bytes :: "tss64 \<Rightarrow> u8 list" where
  "tss_bytes t = le_bytes 4 (reserved0 t) @ concat (map (le_bytes 8) ([rsp0 t, rsp1 t, rsp2 t, reserved1 t] @ ists t @ [reserved2 t])) @
     le_bytes 2 (reserved3 t) @ le_bytes 2 (iopb_offset t)"

definition td_bytes :: "tss_descriptor \<Rightarrow> u8 list" where
  "td_bytes d = le_bytes 2 (td_limit_low d) @ le_bytes 2 (td_base_low d) @
     [td_base_mid1 d, td_type d, ucast (td_limit_high d) OR push_bit 4 (ucast (td_flags d)), td_base_mid2 d] @
     le_bytes 4 (td_base_high d) @ le_bytes 4 (td_reserved d)"

definition gdt_bytes :: "gdt_t \<Rightarrow> u8 list" where
  "gdt_bytes g = le_bytes 8 (gdt_null g) @ le_bytes 8 (gdt_code g) @ le_bytes 8 (gdt_data g) @ td_bytes (gdt_tss_desc g)"

definition gate_bytes :: "idt_entry \<Rightarrow> u8 list" where
  "gate_bytes e = le_bytes 2 (offset_low e) @ le_bytes 2 (selector e) @ [ist e, type_attr e] @
     le_bytes 2 (offset_mid e) @ le_bytes 4 (offset_high e) @ le_bytes 4 (zero e)"

definition idt_bytes :: "idt_entry list \<Rightarrow> u8 list" where
  "idt_bytes es = concat (map gate_bytes es)"

section \<open>Segments and the task state\<close>

definition make_code64_desc :: u64 where
  "make_code64_desc = 0x00AF9A000000FFFF"

definition make_data_desc :: u64 where
  "make_data_desc = 0x00AF92000000FFFF"

text \<open>\<open>sizeof(struct tss64)\<close>, and seven entries of the interrupt stack table.\<close>

abbreviation tss_size :: nat where "tss_size \<equiv> 104"

definition tss_zero :: tss64 where
  "tss_zero = \<lparr>reserved0 = 0, rsp0 = 0, rsp1 = 0, rsp2 = 0, reserved1 = 0, ists = replicate 7 0, reserved2 = 0, reserved3 = 0, iopb_offset = 0\<rparr>"

definition set_tss_descriptor :: "u64 \<Rightarrow> tss_descriptor" where
  "set_tss_descriptor tss_addr =
     (let lim = of_nat tss_size - 1 :: u32 in
      \<lparr>td_limit_low = ucast (lim AND 0xFFFF), td_base_low = ucast (tss_addr AND 0xFFFF), td_base_mid1 = ucast (drop_bit 16 tss_addr AND 0xFF),
       td_type = 0x89, td_limit_high = ucast (drop_bit 16 lim AND 0xF), td_flags = 0,
       td_base_mid2 = ucast (drop_bit 24 tss_addr AND 0xFF), td_base_high = ucast (drop_bit 32 tss_addr), td_reserved = 0\<rparr>)"

text \<open>\<open>gdt_flush\<close> and \<open>tss_flush\<close> load the registers.\<close>

definition gdt_flush :: "u16 \<times> u64 \<Rightarrow> seg_cpu \<Rightarrow> seg_cpu" where
  "gdt_flush r c = c\<lparr>cpu_gdtr := r, cpu_data := 0x10, cpu_cs := 0x08\<rparr>"

definition tss_flush :: "u16 \<Rightarrow> seg_cpu \<Rightarrow> seg_cpu" where
  "tss_flush sel c = c\<lparr>cpu_tr := sel\<rparr>"

abbreviation GDT_SEL_TSS :: u16 where "GDT_SEL_TSS \<equiv> push_bit 3 3"

definition gdt_init :: "u64 \<Rightarrow> u64 \<Rightarrow> u64 \<Rightarrow> tables \<Rightarrow> tables" where
  "gdt_init gdt_addr tss_addr kernel_stack_top s =
     (let g = \<lparr>gdt_null = 0, gdt_code = make_code64_desc, gdt_data = make_data_desc, gdt_tss_desc = set_tss_descriptor tss_addr\<rparr>;
          r = (of_nat (length (gdt_bytes g)) - 1, gdt_addr)
      in s\<lparr>t_gdt := g, t_tss := tss_zero\<lparr>rsp0 := kernel_stack_top, iopb_offset := of_nat tss_size\<rparr>, t_gdtr := r,
          t_cpu := tss_flush GDT_SEL_TSS (gdt_flush r (t_cpu s))\<rparr>)"

definition tss_set_df_ist :: "u64 \<Rightarrow> tables \<Rightarrow> tables" where
  "tss_set_df_ist ist_stack_top s = s\<lparr>t_tss := (t_tss s)\<lparr>ists := (ists (t_tss s))[0 := ist_stack_top]\<rparr>\<rparr>"

definition tss_init_fields :: "tables \<Rightarrow> tables" where
  "tss_init_fields s = s\<lparr>t_tss := (t_tss s)\<lparr>iopb_offset := of_nat tss_size\<rparr>\<rparr>"

definition tss_set_kernel_stack :: "u64 \<Rightarrow> tables \<Rightarrow> tables" where
  "tss_set_kernel_stack stack_top s = s\<lparr>t_tss := (t_tss s)\<lparr>rsp0 := stack_top\<rparr>\<rparr>"

definition df_tss_init :: "u64 \<Rightarrow> tables \<Rightarrow> tables" where
  "df_tss_init df_stack = tss_set_df_ist (df_stack + 0x2000)"

section \<open>Interrupt gates\<close>

abbreviation IDT_FLAG_INTGATE :: u8 where "IDT_FLAG_INTGATE \<equiv> 0x8E"
abbreviation IDT_FLAG_TRAPGATE :: u8 where "IDT_FLAG_TRAPGATE \<equiv> 0x8F"

definition gate_zero :: idt_entry where
  "gate_zero = \<lparr>offset_low = 0, selector = 0, ist = 0, type_attr = 0, offset_mid = 0, offset_high = 0, zero = 0\<rparr>"

definition gate :: "u64 \<Rightarrow> u16 \<Rightarrow> u8 \<Rightarrow> u8 \<Rightarrow> idt_entry" where
  "gate handler sel attr i =
     \<lparr>offset_low = ucast (handler AND 0xFFFF), selector = sel, ist = i AND 0x7, type_attr = attr,
      offset_mid = ucast (drop_bit 16 handler AND 0xFFFF), offset_high = ucast (drop_bit 32 handler), zero = 0\<rparr>"

definition idt_set_gate :: "int \<Rightarrow> u64 \<Rightarrow> u16 \<Rightarrow> u8 \<Rightarrow> u8 \<Rightarrow> tables \<Rightarrow> tables res" where
  "idt_set_gate n handler sel attr i s =
     (if 0 \<le> n \<and> n < int (length (t_idt s)) then Inr (s\<lparr>t_idt := (t_idt s)[nat n := gate handler sel attr i]\<rparr>) else Inl BadWrite)"

definition idt_load :: "tables \<Rightarrow> tables" where
  "idt_load s = s\<lparr>t_cpu := (t_cpu s)\<lparr>cpu_idtr := t_idtp s\<rparr>\<rparr>"

text \<open>The 48 calls of \<open>idt_set_gate\<close> as vector, handler and flag.\<close>

definition stub_gates :: "(nat \<Rightarrow> u64) \<Rightarrow> (nat \<Rightarrow> u64) \<Rightarrow> (int \<times> u64 \<times> u8) list" where
  "stub_gates isr_stub irq_stub =
     map (\<lambda>n. (int n, isr_stub n, if n = 3 \<or> n = 4 then IDT_FLAG_TRAPGATE else IDT_FLAG_INTGATE)) [0..<32] @
     map (\<lambda>n. (int (32 + n), irq_stub n, IDT_FLAG_INTGATE)) [0..<16]"

definition idt_fill :: "(nat \<Rightarrow> u64) \<Rightarrow> (nat \<Rightarrow> u64) \<Rightarrow> u64 \<Rightarrow> tables \<Rightarrow> tables res" where
  "idt_fill isr_stub irq_stub idt_addr s =
     (let cs = cpu_cs (t_cpu s); s1 = s\<lparr>t_idt := replicate 256 gate_zero, t_idtp := (256 * 16 - 1, idt_addr)\<rparr> in
      rbind (rfold (\<lambda>(n, handler, attr). idt_set_gate n handler cs attr 0) (stub_gates isr_stub irq_stub) s1) (\<lambda>s2. Inr (idt_load s2)))"

definition idt_init64 ::
  "nat \<Rightarrow> 'h port_io \<Rightarrow> (nat \<Rightarrow> u64) \<Rightarrow> (nat \<Rightarrow> u64) \<Rightarrow> u64 \<Rightarrow> tables \<times> 'h \<Rightarrow> (tables \<times> 'h) res" where
  "idt_init64 fuel io isr_stub irq_stub idt_addr st =
     rbind (idt_fill isr_stub irq_stub idt_addr (fst st)) (\<lambda>s.
     rbind (serial_printf fuel io (cstr ''[IDT] base=%016lx limit=%04x (64-bit IDT)'' @ [LF])
              [P_long (snd (t_idtp s)), P_int (ucast (fst (t_idtp s)))] (snd st)) (\<lambda>h. Inr (s, h)))"

text \<open>The table of zeros of \<open>idt_dummy.c\<close>.\<close>

definition idt_init64_d :: "u64 \<Rightarrow> tables \<Rightarrow> tables" where
  "idt_init64_d dummy_addr s = s\<lparr>t_cpu := (t_cpu s)\<lparr>cpu_idtr := (256 * 16 - 1, dummy_addr)\<rparr>\<rparr>"

section \<open>System calls\<close>

text \<open>A string in memory, up to its terminating zero.\<close>

fun str_from :: "nat \<Rightarrow> mem \<Rightarrow> u64 \<Rightarrow> u8 list res" where
  "str_from 0 m a = Inl OutOfFuel"
| "str_from (Suc n) m a = rbind (mld m a) (\<lambda>c. if c = 0 then Inr [] else rbind (str_from n m (a + 1)) (\<lambda>s. Inr (c # s)))"

definition syscall_handler :: "nat \<Rightarrow> 'h port_io \<Rightarrow> mem \<Rightarrow> u32 \<Rightarrow> u32 \<Rightarrow> 'h \<Rightarrow> 'h res" where
  "syscall_handler fuel io m num a h =
     (if num = 0 then rbind (if a = 0 then Inr None else rbind (str_from fuel m (ucast a)) (\<lambda>s. Inr (Some s))) (\<lambda>s.
        serial_printf fuel io (cstr ''[syscall] write %s'' @ [LF]) [P_str s] h)
      else Inr h)"

text \<open>The entry of the gate hands the registers on; the fifth argument is never set and never used.\<close>

definition isr_syscall_body :: "nat \<Rightarrow> 'h port_io \<Rightarrow> mem \<Rightarrow> u32 \<Rightarrow> u32 \<Rightarrow> 'h \<Rightarrow> 'h res" where
  "isr_syscall_body fuel io m eax ebx = syscall_handler fuel io m eax ebx"

definition syscall_init :: "nat \<Rightarrow> 'h port_io \<Rightarrow> u64 \<Rightarrow> tables \<times> 'h \<Rightarrow> (tables \<times> 'h) res" where
  "syscall_init fuel io isr_syscall st =
     rbind (idt_set_gate 0x80 isr_syscall 0x08 0xEE 0 (fst st)) (\<lambda>s.
     rbind (serial_printf fuel io (cstr ''[syscall] int 0x80 handler installed.'' @ [LF]) [] (snd st)) (\<lambda>h. Inr (s, h)))"

text \<open>The text of \<open>syscall_dispatch\<close>: the characters 0 to 12, then the eight digits, then the end of the line.\<close>

definition dispatch_buf :: "u32 \<Rightarrow> u8 list" where
  "dispatch_buf ebx =
     (let b0 = cstr ''[syscal] EBX='' @ replicate 51 0;
          b1 = fold (\<lambda>i b. b[20 - 1 - i := cstr ''0123456789ABCDEF'' ! unat (drop_bit (i * 4) ebx AND 0xF)]) [0..<8] b0
      in b1[20 := CR, 21 := LF, 22 := 0])"

definition syscall_dispatch :: "nat \<Rightarrow> 'h port_io \<Rightarrow> u32 \<Rightarrow> u32 \<Rightarrow> 'h \<Rightarrow> 'h res" where
  "syscall_dispatch fuel io eax ebx h =
     (if eax = 1 then serial_write fuel io COM1 (takeWhile (\<lambda>c. c \<noteq> 0) (dispatch_buf ebx)) h else Inr h)"

section \<open>What the processor reads\<close>

text \<open>A gate of 16 bytes, when it is present: the address of the handler, its code segment, the index into the interrupt stack
  table, the privilege level that may call it, and its type (14 an interrupt gate, 15 a trap gate).\<close>

record gate_view =
  gv_offset :: u64
  gv_selector :: u16
  gv_ist :: u8
  gv_dpl :: u8
  gv_type :: u8

definition decode_gate :: "u8 list \<Rightarrow> gate_view option" where
  "decode_gate bs =
     (let attr = bs ! 5 in if attr AND 0x80 = 0 then None else
      Some \<lparr>gv_offset = le_word (take 2 bs @ take 2 (drop 6 bs) @ take 4 (drop 8 bs)), gv_selector = le_word (take 2 (drop 2 bs)),
            gv_ist = bs ! 4 AND 0x7, gv_dpl = drop_bit 5 attr AND 0x3, gv_type = attr AND 0xF\<rparr>)"

text \<open>A task state descriptor of 16 bytes: base and limit of the segment and the byte with its type.\<close>

definition decode_tss :: "u8 list \<Rightarrow> u64 \<times> u32 \<times> u8" where
  "decode_tss bs = (le_word (take 2 (drop 2 bs) @ [bs ! 4, bs ! 7] @ take 4 (drop 8 bs)), le_word (take 2 bs @ [bs ! 6 AND 0xF]), bs ! 5)"

lemma le_bytes_split:
  "le_bytes 2 (ucast (w AND 0xFFFF) :: u16) @ le_bytes 2 (ucast (drop_bit 16 w AND 0xFFFF) :: u16) @ le_bytes 4 (ucast (drop_bit 32 w) :: u32) = le_bytes 8 (w :: u64)"
proof -
  have m: "(0xFFFF :: u64) = mask 16" by (simp add: mask_eq_exp_minus_1)
  show ?thesis unfolding m by (simp add: eval_nat_numeral) (auto intro!: bit_word_eqI simp: bit_simps)
qed

lemma le_bytes_split_tss:
  "le_bytes 2 (ucast (w AND 0xFFFF) :: u16) @ [ucast (drop_bit 16 w AND 0xFF), ucast (drop_bit 24 w AND 0xFF)] @ le_bytes 4 (ucast (drop_bit 32 w) :: u32) = le_bytes 8 (w :: u64)"
proof -
  have m: "(0xFFFF :: u64) = mask 16" "(0xFF :: u64) = mask 8" by (simp_all add: mask_eq_exp_minus_1)
  show ?thesis unfolding m by (simp add: eval_nat_numeral) (auto intro!: bit_word_eqI simp: bit_simps)
qed

lemma length_gate_bytes [simp]: "length (gate_bytes e) = 16"
  by (simp add: gate_bytes_def)

lemma decode_gate_gate:
  "decode_gate (gate_bytes (gate h sel attr i)) =
     (if attr AND 0x80 = 0 then None
      else Some \<lparr>gv_offset = h, gv_selector = sel, gv_ist = i AND 0x7, gv_dpl = drop_bit 5 attr AND 0x3, gv_type = attr AND 0xF\<rparr>)"
proof -
  let ?bs = "gate_bytes (gate h sel attr i)"
  have "take 2 ?bs @ take 2 (drop 6 ?bs) @ take 4 (drop 8 ?bs) = le_bytes 8 h"
    by (simp add: gate_bytes_def gate_def le_bytes_split [symmetric])
  then have "le_word (take 2 ?bs @ take 2 (drop 6 ?bs) @ take 4 (drop 8 ?bs)) = h" by (simp add: le_word_le_bytes_full)
  moreover have "take 2 (drop 2 ?bs) = le_bytes 2 sel" "?bs ! 4 = i AND 0x7" "?bs ! 5 = attr" by (simp_all add: gate_bytes_def gate_def nth_append)
  moreover have "le_word (le_bytes 2 sel) = sel" by (simp add: le_word_le_bytes_full)
  ultimately show ?thesis by (simp add: decode_gate_def Let_def and.assoc)
qed

lemma decode_gate_zero: "decode_gate (gate_bytes gate_zero) = None"
  by code_simp

lemma idt_bytes_nth:
  assumes "n < length es"
  shows "take 16 (drop (16 * n) (idt_bytes es)) = gate_bytes (es ! n)"
  using assms
proof (induction es arbitrary: n)
  case (Cons e es)
  then show ?case by (cases n) (simp_all add: idt_bytes_def)
qed simp

lemma length_idt_bytes: "length (idt_bytes es) = 16 * length es"
  by (induction es) (simp_all add: idt_bytes_def)

section \<open>The gates of the kernel\<close>

lemma stub_gates_upt:
  "stub_gates isr irq = map (\<lambda>n. (int n, if n < 32 then isr n else irq (n - 32), if n = 3 \<or> n = 4 then IDT_FLAG_TRAPGATE else IDT_FLAG_INTGATE)) [0..<48]"
proof -
  have "[0..<48] = [0..<32] @ map (\<lambda>n. n + 32) [0..<16]" using upt_add_eq_append [of 0 32 16] map_add_upt [of 32 16] by (simp del: upt_rec_numeral)
  then show ?thesis by (simp add: stub_gates_def)
qed

lemma set_gates:
  assumes "\<forall>(n, h, a)\<in>set gs. 0 \<le> n \<and> n < int (length (t_idt s))"
  shows "rfold (\<lambda>(n, h, a). idt_set_gate n h cs a 0) gs s = Inr (s\<lparr>t_idt := fold (\<lambda>(n, h, a) es. es[nat n := gate h cs a 0]) gs (t_idt s)\<rparr>)"
  using assms
proof (induction gs arbitrary: s)
  case (Cons g gs)
  obtain n h a where g: "g = (n, h, a)" by (cases g) auto
  with Cons.prems have "idt_set_gate n h cs a 0 s = Inr (s\<lparr>t_idt := (t_idt s)[nat n := gate h cs a 0]\<rparr>)" by (simp add: idt_set_gate_def)
  moreover have "\<forall>(n, h, a)\<in>set gs. 0 \<le> n \<and> n < int (length ((t_idt s)[nat n := gate h cs a 0]))" using Cons.prems by simp
  ultimately show ?case using Cons.IH [of "s\<lparr>t_idt := (t_idt s)[nat n := gate h cs a 0]\<rparr>"] Cons.prems by (simp add: g)
qed simp

lemma fold_update:
  assumes "m \<le> length es"
  shows "fold (\<lambda>n es. es[n := f n]) [0..<m] es = map f [0..<m] @ drop m es"
  using assms
proof (induction m)
  case (Suc m)
  then have "drop m es = es ! m # drop (Suc m) es" by (simp add: Cons_nth_drop_Suc)
  with Suc show ?case by (simp add: list_update_append)
qed simp

definition kernel_gate :: "(nat \<Rightarrow> u64) \<Rightarrow> (nat \<Rightarrow> u64) \<Rightarrow> u16 \<Rightarrow> nat \<Rightarrow> idt_entry" where
  "kernel_gate isr irq cs n = gate (if n < 32 then isr n else irq (n - 32)) cs (if n = 3 \<or> n = 4 then IDT_FLAG_TRAPGATE else IDT_FLAG_INTGATE) 0"

lemma idt_fill_gates:
  "idt_fill isr irq idt_addr s = Inr (s\<lparr>t_idt := map (kernel_gate isr irq (cpu_cs (t_cpu s))) [0..<48] @ replicate 208 gate_zero,
     t_idtp := (4095, idt_addr), t_cpu := (t_cpu s)\<lparr>cpu_idtr := (4095, idt_addr)\<rparr>\<rparr>)"
proof -
  let ?cs = "cpu_cs (t_cpu s)" and ?s = "s\<lparr>t_idt := replicate 256 gate_zero, t_idtp := (4095, idt_addr)\<rparr>"
  have "rfold (\<lambda>(n, h, a). idt_set_gate n h ?cs a 0) (stub_gates isr irq) ?s =
      Inr (?s\<lparr>t_idt := fold (\<lambda>(n, h, a) es. es[nat n := gate h ?cs a 0]) (stub_gates isr irq) (t_idt ?s)\<rparr>)"
    by (rule set_gates) (auto simp: stub_gates_upt)
  moreover have "fold (\<lambda>(n, h, a) es. es[nat n := gate h ?cs a 0]) (stub_gates isr irq) es = fold (\<lambda>n es. es[n := kernel_gate isr irq ?cs n]) [0..<48] es" for es
    by (simp add: stub_gates_upt fold_map comp_def kernel_gate_def del: upt_rec_numeral)
  ultimately show ?thesis by (simp add: idt_fill_def Let_def fold_update idt_load_def del: upt_rec_numeral)
qed

text \<open>The text of a message with no conversion.\<close>

lemma lit_fmt [simp]: "concat (map q_fmt (map Q_lit s)) = s" "concat (map q_args (map Q_lit s)) = []"
  by (induction s) simp_all

context uart
begin

lemma message_returns:
  assumes "p = COM1" and "\<forall>q\<in>set ps. q_ok q" and "\<not> dlab h" and "fmt = concat (map q_fmt ps)" and "args = concat (map q_args ps)"
  shows "\<exists>h'. serial_printf polls io fmt args h = Inr h' \<and> \<not> dlab h'"
  using printf_sends [OF assms(1-3)] by (auto simp: serial_printf_def assms(4,5))

lemma idt_message:
  assumes "p = COM1" and "\<not> dlab h"
  shows "\<exists>h'. serial_printf polls io (cstr ''[IDT] base=%016lx limit=%04x (64-bit IDT)'' @ [LF]) [P_long a, P_int b] h = Inr h' \<and> \<not> dlab h'"
proof (rule message_returns [OF assms(1) _ assms(2)])
  let ?ps = "map Q_lit (cstr ''[IDT] base='') @ [Q_num (C_hex False) True [0x31, 0x36] L_long (P_long a)] @ map Q_lit (cstr '' limit='') @
    [Q_num (C_hex False) True [0x34] L_int (P_int b)] @ map Q_lit (cstr '' (64-bit IDT)'' @ [LF])"
  show "\<forall>q\<in>set ?ps. q_ok q" by (simp add: cstr_def number_of_def dec_val_def)
  show "cstr ''[IDT] base=%016lx limit=%04x (64-bit IDT)'' @ [LF] = concat (map q_fmt ?ps)" by (simp add: cstr_def)
  show "[P_long a, P_int b] = concat (map q_args ?ps)" by (simp add: cstr_def)
qed

lemma syscall_message:
  assumes "p = COM1" and "\<not> dlab h"
  shows "\<exists>h'. serial_printf polls io (cstr ''[syscall] int 0x80 handler installed.'' @ [LF]) [] h = Inr h' \<and> \<not> dlab h'"
  by (rule message_returns [OF assms(1) _ assms(2), of "map Q_lit (cstr ''[syscall] int 0x80 handler installed.'' @ [LF])"]) (simp_all only: lit_fmt, simp add: cstr_def)

end

text \<open>The gate the processor finds for a vector once interrupts and system calls are set up.\<close>

definition vector_view :: "(nat \<Rightarrow> u64) \<Rightarrow> (nat \<Rightarrow> u64) \<Rightarrow> u64 \<Rightarrow> u16 \<Rightarrow> nat \<Rightarrow> gate_view option" where
  "vector_view isr irq isr_syscall cs n =
     (if n < 32 then Some \<lparr>gv_offset = isr n, gv_selector = cs, gv_ist = 0, gv_dpl = 0, gv_type = if n = 3 \<or> n = 4 then 15 else 14\<rparr>
      else if n < 48 then Some \<lparr>gv_offset = irq (n - 32), gv_selector = cs, gv_ist = 0, gv_dpl = 0, gv_type = 14\<rparr>
      else if n = 0x80 then Some \<lparr>gv_offset = isr_syscall, gv_selector = 0x08, gv_ist = 0, gv_dpl = 3, gv_type = 14\<rparr>
      else None)"

lemma kernel_table_view:
  assumes "n < 256"
  shows "decode_gate (gate_bytes ((map (kernel_gate isr irq cs) [0..<48] @ replicate 208 gate_zero)[128 := gate sc 0x08 0xEE 0] ! n)) = vector_view isr irq sc cs n"
proof -
  have "(map (kernel_gate isr irq cs) [0..<48] @ replicate 208 gate_zero)[128 := gate sc 0x08 0xEE 0] ! n =
      (if n = 128 then gate sc 0x08 0xEE 0 else if n < 48 then kernel_gate isr irq cs n else gate_zero)"
    using assms by (simp add: nth_list_update nth_append del: upt_rec_numeral)
  then show ?thesis by (simp add: vector_view_def kernel_gate_def decode_gate_gate decode_gate_zero)
qed

text \<open>C23: After \<open>idt_init64\<close> and \<open>syscall_init\<close>, which both return when the serial line drains, the table the processor is told
  about has the size that is in its limit, and for each of the 256 vectors the processor finds: for an exception its stub, for a
  hardware interrupt its stub, both closed to user mode and through the current code segment; for vector 0x80 the system call,
  open to user mode; and for every other vector no present gate.\<close>

theorem idt_gates_dispatch:
  assumes "uart io COM1 polls sent dlab divisor thr_empty" and "\<not> dlab h"
  shows "\<exists>s' h'. rbind (idt_init64 polls io isr irq idt_addr (s, h)) (syscall_init polls io isr_syscall) = Inr (s', h') \<and>
    cpu_idtr (t_cpu s') = (4095, idt_addr) \<and> length (idt_bytes (t_idt s')) = 4096 \<and>
    (\<forall>n<256. decode_gate (take 16 (drop (16 * n) (idt_bytes (t_idt s')))) = vector_view isr irq isr_syscall (cpu_cs (t_cpu s)) n)"
proof -
  let ?es = "map (kernel_gate isr irq (cpu_cs (t_cpu s))) [0..<48] @ replicate 208 gate_zero"
  let ?s1 = "s\<lparr>t_idt := ?es, t_idtp := (4095, idt_addr), t_cpu := (t_cpu s)\<lparr>cpu_idtr := (4095, idt_addr)\<rparr>\<rparr>"
  let ?s2 = "?s1\<lparr>t_idt := ?es[128 := gate isr_syscall 0x08 0xEE 0]\<rparr>"
  have l: "length ?es = 256" by (simp del: upt_rec_numeral)
  from uart.idt_message [OF assms(1) refl assms(2), of idt_addr "ucast (4095 :: u16)"] obtain h1 where
    h1: "idt_init64 polls io isr irq idt_addr (s, h) = Inr (?s1, h1)" "\<not> dlab h1" by (auto simp: idt_init64_def idt_fill_gates simp del: upt_rec_numeral)
  have "idt_set_gate 0x80 isr_syscall 0x08 0xEE 0 ?s1 = Inr ?s2" using l by (simp add: idt_set_gate_def del: upt_rec_numeral)
  with uart.syscall_message [OF assms(1) refl h1(2)] obtain h2 where "syscall_init polls io isr_syscall (?s1, h1) = Inr (?s2, h2)"
    by (auto simp: syscall_init_def simp del: upt_rec_numeral)
  with h1(1) have "rbind (idt_init64 polls io isr irq idt_addr (s, h)) (syscall_init polls io isr_syscall) = Inr (?s2, h2)" by simp
  moreover have "\<forall>n<256. decode_gate (take 16 (drop (16 * n) (idt_bytes (t_idt ?s2)))) = vector_view isr irq isr_syscall (cpu_cs (t_cpu s)) n"
    using l by (simp add: idt_bytes_nth kernel_table_view del: upt_rec_numeral)
  ultimately show ?thesis using l by (intro exI [of _ ?s2] exI [of _ h2]) (simp add: length_idt_bytes del: upt_rec_numeral)
qed

definition demo_tables_zero :: tables where
  "demo_tables_zero =
     \<lparr>t_gdt = \<lparr>gdt_null = 0, gdt_code = 0, gdt_data = 0, gdt_tss_desc = set_tss_descriptor 0\<rparr>, t_tss = tss_zero, t_gdtr = (0, 0), t_idt = [],
      t_idtp = (0, 0), t_cpu = \<lparr>cpu_gdtr = (0, 0), cpu_cs = 0x28, cpu_data = 0x30, cpu_tr = 0, cpu_idtr = (0, 0)\<rparr>\<rparr>"

theorem idt_gates_dispatch_witness:
  "\<exists>s' h'. rbind (idt_init64 2 demo_uart_io (\<lambda>n. 0x1000 + 16 * of_nat n) (\<lambda>n. 0x2000 + 16 * of_nat n) 0x5000 (demo_tables_zero, demo_line_start\<lparr>du_dlab := False\<rparr>))
       (syscall_init 2 demo_uart_io 0x3000) = Inr (s', h') \<and>
     decode_gate (take 16 (drop (16 * 14) (idt_bytes (t_idt s')))) = Some \<lparr>gv_offset = 0x10E0, gv_selector = 0x28, gv_ist = 0, gv_dpl = 0, gv_type = 14\<rparr>"
proof -
  have "\<not> du_dlab (demo_line_start\<lparr>du_dlab := False\<rparr>)" by simp
  from idt_gates_dispatch [OF demo_line.uart_axioms this, where isr = "\<lambda>n. 0x1000 + 16 * of_nat n" and irq = "\<lambda>n. 0x2000 + 16 * of_nat n" and idt_addr = "0x5000" and s = demo_tables_zero and isr_syscall = "0x3000"]
  obtain s' h' where s': "rbind (idt_init64 2 demo_uart_io (\<lambda>n. 0x1000 + 16 * of_nat n) (\<lambda>n. 0x2000 + 16 * of_nat n) 0x5000 (demo_tables_zero, demo_line_start\<lparr>du_dlab := False\<rparr>))
      (syscall_init 2 demo_uart_io 0x3000) = Inr (s', h')"
    and v: "\<forall>n<256. decode_gate (take 16 (drop (16 * n) (idt_bytes (t_idt s')))) =
      vector_view (\<lambda>n. 0x1000 + 16 * of_nat n) (\<lambda>n. 0x2000 + 16 * of_nat n) 0x3000 (cpu_cs (t_cpu demo_tables_zero)) n" by auto
  from v [rule_format, of 14] have "decode_gate (take 16 (drop (16 * 14) (idt_bytes (t_idt s')))) = Some \<lparr>gv_offset = 0x10E0, gv_selector = 0x28, gv_ist = 0, gv_dpl = 0, gv_type = 14\<rparr>"
    by (simp add: vector_view_def demo_tables_zero_def)
  with s' show ?thesis by blast
qed

section \<open>The segments\<close>

text \<open>What \<open>gdt_init\<close> leaves: the limit of the table is its size less one, the task register selects the 16 bytes that decode to
  the address and the limit of the task state, whose second field is the kernel stack, and the segment registers select the
  descriptors of code and data.\<close>

lemma length_td_bytes [simp]: "length (td_bytes d) = 16"
  by (simp add: td_bytes_def)

lemma tss_descriptor_decodes: "decode_tss (td_bytes (set_tss_descriptor a)) = (a, 103, 0x89)"
proof -
  let ?bs = "td_bytes (set_tss_descriptor a)"
  have "take 2 (drop 2 ?bs) @ [?bs ! 4, ?bs ! 7] @ take 4 (drop 8 ?bs) = le_bytes 8 a"
    by (simp add: td_bytes_def set_tss_descriptor_def Let_def nth_append le_bytes_split_tss [symmetric] del: le_bytes.simps)
  then have base: "le_word (take 2 (drop 2 ?bs) @ [?bs ! 4, ?bs ! 7] @ take 4 (drop 8 ?bs)) = a" by (simp add: le_word_le_bytes_full)
  moreover have "td_limit_low (set_tss_descriptor a) = 103" "td_limit_high (set_tss_descriptor a) = 0" by (simp_all add: set_tss_descriptor_def Let_def)
  moreover have "le_bytes 2 (103 :: u16) = [103, 0]" by code_simp
  ultimately have "take 2 ?bs = [103, 0]" "?bs ! 6 = 0" "?bs ! 5 = 0x89" by (simp_all add: td_bytes_def nth_append) (simp_all add: set_tss_descriptor_def Let_def)
  with base show ?thesis by (simp add: decode_tss_def)
qed

lemma gdt_init_loads:
  fixes gdt_addr tss_addr stk :: u64 and s :: tables
  defines "s' \<equiv> gdt_init gdt_addr tss_addr stk s"
  shows "cpu_gdtr (t_cpu s') = (of_nat (length (gdt_bytes (t_gdt s'))) - 1, gdt_addr)" and "length (gdt_bytes (t_gdt s')) = 40"
    and "decode_tss (take 16 (drop (unat (cpu_tr (t_cpu s'))) (gdt_bytes (t_gdt s')))) = (tss_addr, of_nat (length (tss_bytes (t_tss s')) - 1), 0x89)"
    and "le_word (take 8 (drop 4 (tss_bytes (t_tss s')))) = stk"
    and "le_word (take 8 (drop (unat (cpu_cs (t_cpu s'))) (gdt_bytes (t_gdt s')))) = make_code64_desc"
    and "le_word (take 8 (drop (unat (cpu_data (t_cpu s'))) (gdt_bytes (t_gdt s')))) = make_data_desc"
  by (simp_all add: s'_def gdt_init_def Let_def gdt_flush_def tss_flush_def gdt_bytes_def tss_bytes_def tss_zero_def tss_descriptor_decodes le_word_le_bytes_full
      length_concat sum_list_replicate push_bit_eq_mult numeral_3_eq_3 [symmetric])

text \<open>The stack that \<open>df_tss_init\<close> puts into the first slot of the interrupt stack table is never used: the gate of the double
  fault, vector 8, asks for no slot.\<close>

lemma double_fault_without_ist: "vector_view isr irq sc cs 8 = Some \<lparr>gv_offset = isr 8, gv_selector = cs, gv_ist = 0, gv_dpl = 0, gv_type = 14\<rparr>"
  by (simp add: vector_view_def)

text \<open>The digits of \<open>syscall_dispatch\<close> start one place too far left and overwrite the equals sign.\<close>

lemma dispatch_loses_equals: "takeWhile (\<lambda>c. c \<noteq> 0) (dispatch_buf 0x1234ABCD) = cstr ''[syscal] EBX1234ABCD'' @ [CR, LF]"
  by code_simp

end
