(* ===== verification/Panic.thy ===== *)
theory Panic
  imports Descriptors Drawing Vmm_Theorems
begin

text \<open>
  \<open>panic/panic.c\<close>: what happens on an exception. The registers of the exception are stored and sent over the serial line, and
  unless a panic is already under way the panic screen is drawn, if the page tables map the frame buffer as writable and a
  font is loaded. The box behind the text is written by a loop of its own, straight to the screen; the text goes through
  \<open>draw_text\<close>. At the end the processor halts.
\<close>

section \<open>The screen\<close>

record panic_info =
  pi_vector :: u64
  pi_err_code :: u64
  pi_cr2 :: u64
  pi_eip :: u64
  pi_cs :: u64
  pi_eflags :: u64
  pi_rsp :: u64
  pi_ss :: u64

text \<open>\<open>lfb[y * w + x] = color_bg\<close>: four bytes, whatever the format of the frame buffer; the index is computed in 32 bits.\<close>

definition box_addr :: "fb_t \<Rightarrow> nat \<Rightarrow> nat \<Rightarrow> u64" where
  "box_addr fb x y = fb_get_addr fb + 4 * ucast (of_nat y * fb_get_width fb + of_nat x)"

definition draw_box :: "fb_t \<Rightarrow> u32 \<Rightarrow> mem \<Rightarrow> mem res" where
  "draw_box fb color_bg = rfold (\<lambda>y. rfold (\<lambda>x. store_bytes (box_addr fb x y) (le_bytes 4 color_bg)) [0..<unat (fb_get_width fb)]) [0..<unat (fb_get_height fb)]"

definition panic_can_draw :: "fb_t \<Rightarrow> font \<Rightarrow> vmm_env \<Rightarrow> 'e vmm \<Rightarrow> bool \<Rightarrow> bool res" where
  "panic_can_draw fb ft env vm triggered =
     (if \<not> triggered \<or> fb_get_addr fb = 0 then Inr False else
      rbind (vmm_query env (fb_get_addr fb) vm) (\<lambda>(r, out).
        case out of Some (_, fl) \<Rightarrow> Inr (r = 0 \<and> fl AND VMM_RW \<noteq> 0 \<and> psf_ready ft) | None \<Rightarrow> Inr False))"

text \<open>\<open>sprintf(buf, fmt, v); draw_text(x, y, buf, \<dots>)\<close> with a buffer of 128 characters.\<close>

definition value_line :: "string \<Rightarrow> u64 \<Rightarrow> u8 list res" where
  "value_line fmt v = rbind (sprintf 128 (cstr fmt) [Arg_ulong v]) (\<lambda>(_, s). Inr s)"

type_synonym panic_line = "int \<times> int \<times> u8 list res \<times> u32"

definition draw_line :: "fb_t \<Rightarrow> u8 list \<Rightarrow> font \<Rightarrow> u32 \<Rightarrow> panic_line \<Rightarrow> mem \<Rightarrow> mem res" where
  "draw_line fb blob ft bg = (\<lambda>(x, y, line, fg) m. rbind line (\<lambda>s. draw_text fb blob ft x y s fg bg m))"

definition panic_values :: "int \<Rightarrow> int \<Rightarrow> panic_info \<Rightarrow> panic_line list" where
  "panic_values x y i =
     [(x, y, value_line ''Vector      : %llu'' (pi_vector i), 0xFFFF00),
      (x, y + 20, value_line ''Error Code  : %llu'' (pi_err_code i), 0xFFFF00),
      (x, y + 40, value_line ''CR2         : 0x%016llx'' (pi_cr2 i), 0xFFFF00),
      (x, y + 60, value_line ''EFLAGS      : 0x%016llx'' (pi_eflags i), 0xFFFF00)]"

abbreviation label :: "string \<Rightarrow> u8 list res" where "label s \<equiv> Inr (cstr s)"

definition panic_show_lines :: "panic_info \<Rightarrow> panic_line list" where
  "panic_show_lines i =
     [(20, 20, label '':| Your PC ran into a problem and needs to restart'', 0xFFFFFF),
      (20, 60, label (''We'' @ [CHR 39] @ ''re just collecting some error info, and then we'' @ [CHR 39] @ ''ll restart for you.''), 0xFFFFFF)] @
     panic_values 20 130 i @
     [(20, 240, label ''If you call a support person, give them this info.'', 0xFFFFFF),
      (20, 260, label ''Stop Code: KERNEL_PANIC_EXCEPTION'', 0xFFFFFF),
      (20, 280, label ''INFO: '', 0xFFFFFF),
      (20, 300, label ''    VAM KERNEL BUILD DATE: 2025.10.26 (01H.1)'', 0xFFFFFF)]"

definition panic_show :: "fb_t \<Rightarrow> u8 list \<Rightarrow> font \<Rightarrow> panic_info \<Rightarrow> bool \<Rightarrow> mem \<Rightarrow> mem res" where
  "panic_show fb blob ft i triggered m =
     (if \<not> triggered then Inr m else rbind (draw_box fb 0x0000AA m) (rfold (draw_line fb blob ft 0x0000AA) (panic_show_lines i)))"

definition super_panic_lines :: "panic_info \<Rightarrow> panic_line list" where
  "super_panic_lines i =
     [(0, 20, label (replicate 62 CHR ''=''), 0xFFFFFF),
      (100, 50, label ''[!] CRITICAL SYSTEM FAILURE'', 0xFFFFFF),
      (100, 75, label ''A fatal error has occurred and the system must halt.'', 0xFFFFFF),
      (100, 95, label ''Please review the diagnostic information below.'', 0xFFFFFF),
      (0, 130, label (replicate 62 CHR ''-''), 0xFFFFFF),
      (60, 155, label ''[ Diagnostic Information ]'', 0xFFFFAA)] @
     panic_values 80 180 i @
     [(0, 270, label (replicate 62 CHR ''-''), 0xFFFFFF),
      (60, 300, label ''If you contact support, provide the information above.'', 0xFFFFFF),
      (60, 320, label ''Stop Code   : TRIPLE_FAULT'', 0xFFFFFF),
      (60, 340, label ''Build Info  : ParanOS Kernel - 2025.12.01 (25Y01.12)'', 0xFFFFFF),
      (60, 360, label ''Support Code: 001 - https://docs.5data.org/paranOS/StopCode'', 0xFFFFFF),
      (0, 390, label (replicate 62 CHR ''=''), 0xFFFFFF)]"

definition super_panic :: "fb_t \<Rightarrow> u8 list \<Rightarrow> font \<Rightarrow> panic_info \<Rightarrow> bool \<Rightarrow> mem \<Rightarrow> mem res" where
  "super_panic fb blob ft i triggered m =
     (if \<not> triggered then Inr m else rbind (draw_box fb 0xEB4034 m) (rfold (draw_line fb blob ft 0xEB4034) (super_panic_lines i)))"

section \<open>The handler\<close>

record 'h panic_state =
  g_panic_info :: panic_info
  g_panic_triggered :: bool
  p_screen :: mem
  p_hw :: 'h

text \<open>\<open>frame\<close> is the words on the stack from the return address on, or a null pointer; the five registers are RIP, CS, RFLAGS,
  RSP and SS.\<close>

definition fill_frame_info :: "u64 list option \<Rightarrow> (u64 \<times> u64 \<times> u64 \<times> u64 \<times> u64) res" where
  "fill_frame_info frame =
     (case frame of None \<Rightarrow> Inr (0, 0, 0, 0, 0)
      | Some ws \<Rightarrow> if 5 \<le> length ws then Inr (ws ! 0, ws ! 1, ws ! 2, ws ! 3, ws ! 4) else Inl BadRead)"

abbreviation panic_fmt :: "u8 list" where
  "panic_fmt \<equiv> cstr ''[PANIC] vector=%llu err=%llu cr2=%p rip=%p cs=%llx rflags=%p rsp=%p ss=%llx'' @ [LF]"

text \<open>The two handlers differ in the message that announces the screen.\<close>

definition panic_with ::
  "string \<Rightarrow> nat \<Rightarrow> 'h port_io \<Rightarrow> fb_t \<Rightarrow> u8 list \<Rightarrow> font \<Rightarrow> vmm_env \<Rightarrow> 'e vmm \<Rightarrow> u64 \<Rightarrow> u32 \<Rightarrow> u32 \<Rightarrow> u64 list option \<Rightarrow> 'h panic_state \<Rightarrow> 'h panic_state res" where
  "panic_with announce fuel io fb blob ft env vm cr2 vector err_code frame s =
     rbind (fill_frame_info frame) (\<lambda>(eip, cs, rflags, rsp, ss).
     let i = \<lparr>pi_vector = ucast vector, pi_err_code = ucast err_code, pi_cr2 = cr2, pi_eip = eip, pi_cs = cs, pi_eflags = rflags, pi_rsp = rsp, pi_ss = ss\<rparr>;
         nested = g_panic_triggered s
     in rbind (serial_printf fuel io panic_fmt
          [P_long (ucast vector), P_long (ucast err_code), P_long cr2, P_long eip, P_long cs, P_long rflags, P_long rsp, P_long ss] (p_hw s)) (\<lambda>h.
        rbind (if nested then Inr False else panic_can_draw fb ft env vm True) (\<lambda>can.
        if \<not> nested \<and> can then
          rbind (serial_printf fuel io (cstr announce @ [LF]) [] h) (\<lambda>h'.
          rbind (super_panic fb blob ft i True (p_screen s)) (\<lambda>m. Inr \<lparr>g_panic_info = i, g_panic_triggered = True, p_screen = m, p_hw = h'\<rparr>))
        else if \<not> nested then
          rbind (serial_printf fuel io (cstr ''[PANIC] framebuffer or font unavailable; skipping draw'' @ [LF]) [] h) (\<lambda>h'.
            Inr \<lparr>g_panic_info = i, g_panic_triggered = True, p_screen = p_screen s, p_hw = h'\<rparr>)
        else
          rbind (serial_printf fuel io (cstr ''[PANIC] nested panic (vector=%llu cr2=%p), skip graphics'' @ [LF]) [P_long (ucast vector), P_long cr2] h) (\<lambda>h'.
            Inr \<lparr>g_panic_info = i, g_panic_triggered = True, p_screen = p_screen s, p_hw = h'\<rparr>))))"


definition panic_handle_s ::
  "nat \<Rightarrow> 'h port_io \<Rightarrow> fb_t \<Rightarrow> u8 list \<Rightarrow> font \<Rightarrow> vmm_env \<Rightarrow> 'e vmm \<Rightarrow> u64 \<Rightarrow> u32 \<Rightarrow> u32 \<Rightarrow> u64 list option \<Rightarrow> 'h panic_state \<Rightarrow> 'h panic_state res" where
  "panic_handle_s = panic_with ''[PANIC] Show SuperPanic Screen''"

section \<open>Behaviour\<close>

















text \<open>With 24 bits per pixel the loop of the box writes four bytes for every pixel and runs past the end of the frame.\<close>

lemma draw_box_overruns: "draw_box demo_fb 0xEB4034 demo_frames = Inl BadWrite"
  by code_simp

end
