(* ===== verification/Spec2Isabelle.thy ===== *)
theory Spec2Isabelle
  imports User_Store Scheduler Mbr Wav Window_Manager Interrupts Desktop Vmm_Theorems Rtc Ac97 Frame_Safe Panic
begin

text \<open>
  \<^bold>\<open>ParanOS: a verification library for the kernel under \<open>src/kernel\<close>.\<close>

  ParanOS is a small graphical operating system for x86-64 that is started by the Limine boot loader.
  This library models the kernel's own C code as Isabelle functions and proves what makes each part
  correct. The boot loader, libfdt, flanterm and stb-image, which share the directory, are vendored and
  are not modelled.

  \<^bold>\<open>Parts of the program and how they meet.\<close> The ATA driver gives sectors to the FAT32 and exFAT file system
  through two function pointers; the file system keeps accounts, wallpapers and documents. The kernel heap
  and the page pool give memory to the frame buffer, the tasks and the wallpaper. Interrupts drive the
  tick counter, the keyboard and the mouse. The desktop and the windows are painted through the frame
  buffer, the text and shape routines, and the taskbar of the window manager. The scheduler keeps the
  kernel threads in a ring.

  \<^bold>\<open>Conventions\<close> (\<open>Kernel_Prelude\<close>). A w-bit unsigned integer is a word of that width and wraps; a C \<open>int\<close> is an
  integer whose sums and products pass through \<open>i32\<close>, which faults on overflow, wherever a value the code
  does not bound enters. A function that can read or write outside an object, divide by zero, shift too
  far or overflow returns a sum: \<open>Inl\<close> of the fault or \<open>Inr\<close> of the result, so that \<open>f x = Inr y\<close> says that
  the code returns \<open>y\<close> with no undefined behaviour. Return codes of the source are kept as integers.
  A loop with early exits is \<open>for_loop\<close> over its range or \<open>while_loop\<close> with fuel; a loop that always runs to its end
  is \<open>rfold\<close>. Fuel is used only where the source follows links on a disk that may form a cycle (cluster
  chains) or polls a device; the theorems say how much is enough: one unit per cluster of the chain.
  A file buffer is the list of the bytes written to it. Drawing works on a byte memory with unmapped
  addresses. Device registers and the boot loader's services are parameters.

  \<^bold>\<open>Theories.\<close>
  \<^item> \<open>Kernel_Prelude\<close>: words, faults, loops, little-endian loads and stores.
  \<^item> \<open>Block_Device\<close>: the read and write function pointers of \<open>fs_fat32.h\<close>, and the locale of a reliable device on
    which the file system theorems rest.
  \<^item> \<open>Ata\<close> (\<open>ata.c\<close>): the PIO driver over abstract port input and output; a controller that follows the
    protocol is a locale, an emulated controller interprets it, and any sequence of transfers, each on the
    controller the one before it left, is shown to behave like an array of sectors; so the driver is a reliable
    device, and a read may be seen as a function of the disk.
  \<^item> \<open>Fat_Volume\<close>, \<open>Fat_Chain\<close>, \<open>Fat_Layout\<close>, \<open>Fat_Names\<close>, \<open>Fat_Dir\<close>, \<open>Exfat_Entry\<close>, \<open>Exfat\<close>, \<open>Fat_Api\<close> (\<open>fs_fat32.c\<close>, in the
    order of the file): mounting, the allocation table, cluster chains, names and paths, directories, the
    exFAT entry sets and directories, and the public operations. \<open>Fat_Files\<close> and \<open>Fat_Theorems\<close> hold the
    theorems that follow a file through these layers; that mounting a formatted volume gives the layout they
    assume is in \<open>Fat_Layout\<close>: written data is read back, a created entry is
    exactly one update of the directory seen as a map, the searches equal list searches.
  \<^item> \<open>Mbr\<close> (\<open>fs_mbr.c\<close>) and \<open>Wav\<close> (\<open>wav.c\<close>): the partition table and RIFF parsers, the latter against a
    description of what the chunks of a file say (chunks of even size: the parser ignores padding).
  \<^item> \<open>Memory\<close> (\<open>kmalloc\<close> of \<open>kernel.c\<close>, \<open>pmm.c\<close>): the bump allocator and the page pool; blocks are disjoint and in range.
  \<^item> \<open>Scheduler\<close> (\<open>task/task.c\<close>): tasks in a ring, creation, ticks, yields, exits and statistics as a step relation with its
    invariant, from which no further step faults while there is memory, round robin and bounded waiting (the search for a
    ready task looks at 1024 tasks at most).
  \<^item> \<open>Byte_Memory\<close> (\<open>string.c\<close>): \<open>memset\<close>, \<open>memcpy\<close>, \<open>memmove\<close>, \<open>memcmp\<close>, \<open>sprintf\<close>. The locale of a copying routine is
    interpreted by four of them.
  \<^item> \<open>Framebuffer\<close>, \<open>Font_Text\<close>, \<open>Ui\<close>, \<open>Drawing\<close> (\<open>fb.c\<close>, \<open>psf.c\<close>, \<open>ui.c\<close>): pixels, rectangles, blits, the cursor, fonts, text,
    gradients and rounded rectangles; the locale of a canvas is interpreted by the three ways of putting a
    pixel. \<open>Drawing\<close> says what a sequence of these operations keeps.
  \<^item> \<open>Interrupts\<close> (\<open>isr.c\<close>, \<open>pic.c\<close>, \<open>pit.c\<close>, \<open>keyboard.c\<close>, \<open>mouse.c\<close>): dispatch, the tick, the scan code latch, the mouse packet
    machine, and the states that any sequence of interrupts can reach.
  \<^item> \<open>Window_Manager\<close> (\<open>wm.c\<close>): the window list, focus and the taskbar.
  \<^item> \<open>Bmp\<close> and \<open>Desktop\<close> (\<open>desktop.c\<close>): the bitmap decoder, icons, wallpaper, backdrop and cache.
  \<^item> \<open>Users\<close> and \<open>User_Store\<close> (accounts and paths of \<open>kernel.c\<close>): the accounts file, verification, and the
    first boot, which writes the accounts through the file system, with the boot after it.
  \<^item> \<open>Vmm\<close> (\<open>mm/vmm.c\<close>, \<open>vmm.h\<close>, \<open>lfb.c\<close>): the four-level page tables as a byte memory, mapping, unmapping, queries and
    the frame-buffer mapping. \<open>Page_Walk\<close> is the specification, the translation the processor's walk gives, and
    the shape of tables that share no page; \<open>Vmm_Theorems\<close> shows that mapping a page updates that
    translation at one page only, that unmapping undoes it, and that ranges are mapped linearly. The loops over
    a range need one turn for each 4 KiB page. The field \<open>tlb\<close> of the state lists the addresses whose translation the
    processor may have cached: \<open>invlpg\<close> takes out those of a page and a load of CR3 empties it; that the processor
    may fill it at any time is a quantifier in the theorem on unmapping.
  \<^item> \<open>Rtc\<close> (\<open>rtc.c\<close>): the clock registers, with the wait for the end of an update as fuelled polling.
  \<^item> \<open>Pci\<close> (\<open>pci.c\<close>): configuration reads and writes and the search for a device.
  \<^item> \<open>Ac97\<close> (\<open>ac97.c\<close>): discovery, reset, the buffer descriptor list and the copy of the samples into the buffer
    that the descriptors name; the reset wait is fuelled polling. The runs of the descriptors and when their counts cover
    them are stated apart from the loop that writes them.

  \<^item> \<open>Sound\<close> (\<open>kernel.c\<close>): the resampler, which writes to a block of the size it asked for, and the playing of a file.
  \<^item> \<open>Windows\<close>, \<open>Window_Paint\<close>, \<open>Paint_Safe\<close> (\<open>kernel.c\<close>): the records of the seven windows and where they open, move and
    grow; what each window, the menus, the login screen and the boot animation draw; and that this drawing never
    faults while the windows are on the screen and the strings in their arrays.
  \<^item> \<open>Images\<close> (\<open>kernel.c\<close>): the picture and cursor loaders.
  \<^item> \<open>Gui\<close> (\<open>kernel.c\<close>): the whole state of the session and one action for each function of the windows, the menus, the
    file picker and the login. An action takes the state and returns it updated or a fault.
  \<^item> \<open>Main_Loop\<close> (\<open>kmain\<close>): one round of the event loop as a function of the state and the input sampled in it, section
    by section in the order of the code, and the set-up of the session before the loop.
  \<^item> \<open>Gui_Invariant\<close>, \<open>Loop_Invariant\<close>: the invariant of the session and that each action and each section keeps it.
  \<^item> \<open>Login_Safety\<close>: the login screen is left only with the password in its field, or with the empty one when a round handles a
    click and the enter key and the first attempt has emptied the field. A locale collects what drawing and file calls leave
    alone in the session; it is interpreted on four properties of the login screen.
  \<^item> \<open>Session\<close>: the variables of the program image, the start, and sequences of rounds; without a readable disk the start always
    succeeds and establishes the invariant, with a disk it does when it returns and the pictures are whole, and any input
    keeps it.
  \<^item> \<open>Frame_Safe\<close>: in every state that satisfies the invariant, drawing a frame returns without a fault and the screen
    shows the back buffer.
  \<^item> \<open>Serial\<close> (\<open>serial.c\<close>): the serial line and its formatted output. A locale states what the transmitter of the chip promises;
    under it \<open>serial_printf\<close> returns and sends exactly the text that the format means.
  \<^item> \<open>Descriptors\<close> (\<open>gdt.c\<close>, \<open>tss.c\<close>, \<open>df_tss.c\<close>, \<open>idt.c\<close>, \<open>syscall.c\<close>): the tables of the processor as records and as bytes,
    with decoders after the processor manual; every vector is decoded to the gate the code means.
  \<^item> \<open>Panic\<close> (\<open>panic/panic.c\<close>): the exception handler, its log and its screen.

  \<^bold>\<open>Not modelled, and why.\<close> The boot loader's services (memory map, frame buffer, modules) are parameters. The
  assembly stubs are not C code; what those that load a table register do is a step of \<open>Descriptors\<close>. Messages on the serial
  line are left out of the functions that print them, except in \<open>Descriptors\<close> and \<open>Panic\<close>, where they are the effect. The wait for
  the serial line is not bounded in the source; its fuel is the number of polls after which the chip has room, a parameter of the
  locale \<open>uart\<close>. What the sound card does with its descriptor list is not in the
  sources: the port traffic is kept, not the sound. Data caches and the interleaving
  of interrupts with a running C function are not represented: an interrupt is one step between two calls, and a
  round of the event loop sees one sample of mouse, clock and keyboard. In the windows the coordinates are plain
  integers; the invariant bounds them far below the limits of the machine type. That the disk was mounted at the
  start is part of the state; the loaded wallpaper and cursor are assumed to hold as many pixels as their size says,
  which the loaders do not ensure for every file (see the findings on \<open>desktop.c\<close>).
\<close>

end
